(* ===== verification/Storage_Prelude.thy ===== *)
theory Storage_Prelude
  imports Main "HOL-Library.Word" "HOL-Library.Multiset" "HOL-Library.Monad_Syntax"
begin

unbundle bit_operations_syntax

text \<open>
  Shared vocabulary of the development: the machine integer types of the Windows CE
  headers, the fact collections the component theories extend, and generic lemmas about
  words, keyed list insertion and keyed list removal.  The lock lists, the lock sets and
  the partition tables are all kept sorted by a 'start' key, so the list lemmas are stated
  once here for an arbitrary key.

  A pointer that may be null is an \<open>option\<close>; an operation that dereferences such a pointer
  returns an \<open>option\<close> whose \<open>None\<close> is the access violation.
\<close>

section \<open>Machine integers\<close>

type_synonym BYTE = "8 word"
type_synonym WORD16 = "16 word"
type_synonym DWORD = "32 word"
type_synonym ULONGLONG = "64 word"

text \<open>\<open>SECTORNUM\<close> of the storage headers is a 64-bit unsigned integer.\<close>
type_synonym SECTORNUM = "64 word"

named_theorems storage_simps \<open>rewrite rules that evaluate the model's operations\<close>
named_theorems storage_wf \<open>preservation of the components' invariants\<close>

section \<open>Error codes\<close>

text \<open>The Win32 error codes the storage components return.\<close>

definition ERROR_SUCCESS :: nat where "ERROR_SUCCESS = 0"
definition ERROR_ACCESS_DENIED :: nat where "ERROR_ACCESS_DENIED = 5"
definition ERROR_NOT_ENOUGH_MEMORY :: nat where "ERROR_NOT_ENOUGH_MEMORY = 8"
definition ERROR_INVALID_BLOCK :: nat where "ERROR_INVALID_BLOCK = 9"
definition ERROR_BAD_FORMAT :: nat where "ERROR_BAD_FORMAT = 11"
definition ERROR_INVALID_DATA :: nat where "ERROR_INVALID_DATA = 13"
definition ERROR_OUTOFMEMORY :: nat where "ERROR_OUTOFMEMORY = 14"
definition ERROR_WRITE_FAULT :: nat where "ERROR_WRITE_FAULT = 29"
definition ERROR_READ_FAULT :: nat where "ERROR_READ_FAULT = 30"
definition ERROR_GEN_FAILURE :: nat where "ERROR_GEN_FAILURE = 31"
definition ERROR_INVALID_PARAMETER :: nat where "ERROR_INVALID_PARAMETER = 87"
definition ERROR_DISK_FULL :: nat where "ERROR_DISK_FULL = 112"
definition ERROR_INVALID_NAME :: nat where "ERROR_INVALID_NAME = 123"
definition ERROR_ALREADY_EXISTS :: nat where "ERROR_ALREADY_EXISTS = 183"
definition ERROR_NO_MORE_ITEMS :: nat where "ERROR_NO_MORE_ITEMS = 259"
definition ERROR_PARTITION_FAILURE :: nat where "ERROR_PARTITION_FAILURE = 1105"
definition ERROR_DEVICE_NOT_PARTITIONED :: nat where "ERROR_DEVICE_NOT_PARTITIONED = 1107"
definition ERROR_NOT_FOUND :: nat where "ERROR_NOT_FOUND = 1168"

lemmas error_code_defs =
  ERROR_SUCCESS_def ERROR_ACCESS_DENIED_def ERROR_NOT_ENOUGH_MEMORY_def ERROR_INVALID_BLOCK_def ERROR_BAD_FORMAT_def ERROR_INVALID_DATA_def ERROR_OUTOFMEMORY_def ERROR_WRITE_FAULT_def ERROR_READ_FAULT_def ERROR_GEN_FAILURE_def ERROR_INVALID_PARAMETER_def ERROR_DISK_FULL_def ERROR_INVALID_NAME_def ERROR_ALREADY_EXISTS_def ERROR_NO_MORE_ITEMS_def ERROR_PARTITION_FAILURE_def ERROR_DEVICE_NOT_PARTITIONED_def ERROR_NOT_FOUND_def

section \<open>Joining two 32-bit halves\<close>

definition make_u64 :: "DWORD \<Rightarrow> DWORD \<Rightarrow> ULONGLONG" where
  "make_u64 lo hi = (ucast lo :: ULONGLONG) OR push_bit 32 (ucast hi :: ULONGLONG)"

lemma uint_make_u64: "uint (make_u64 lo hi) = uint lo + 2 ^ 32 * uint hi"
proof -
  have hi_bound: "uint hi < 2 ^ 32" and lo_bound: "uint lo < 2 ^ 32"
    using uint_lt2p [of hi] uint_lt2p [of lo] by simp_all
  have "make_u64 lo hi = ucast lo + push_bit 32 (ucast hi)"
    unfolding make_u64_def
  proof (rule disjunctive_add [symmetric])
    fix n
    show "\<not> bit (ucast lo :: ULONGLONG) n \<or> \<not> bit (push_bit 32 (ucast hi) :: ULONGLONG) n"
      using bit_imp_le_length [of lo n] by (auto simp: bit_push_bit_iff bit_ucast_iff)
  qed
  moreover have "uint (push_bit 32 (ucast hi) :: ULONGLONG) = 2 ^ 32 * uint hi"
    using hi_bound by (simp add: push_bit_eq_mult uint_word_ariths take_bit_int_eq_self
        unsigned_ucast_eq)
  moreover have "uint (ucast lo :: ULONGLONG) = uint lo"
    using lo_bound by (simp add: unsigned_ucast_eq take_bit_int_eq_self)
  ultimately show ?thesis
    using hi_bound lo_bound by (simp add: uint_word_ariths)
qed

lemma unat_make_u64: "unat (make_u64 lo hi) = unat lo + 2 ^ 32 * unat hi"
  using uint_make_u64 [of lo hi] by (simp flip: of_nat_eq_iff [where 'a = int])

section \<open>Keyed insertion and removal\<close>

text \<open>
  The insertion loop of the linked containers: walk while the new key is not smaller than
  the key of the current node, then link the new node in front of the node reached.
\<close>

fun insert_at_key :: "('a \<Rightarrow> 'k :: linorder) \<Rightarrow> 'a \<Rightarrow> 'a list \<Rightarrow> 'a list" where
  "insert_at_key key x [] = [x]"
| "insert_at_key key x (y # ys) =
     (if key x < key y then x # y # ys else y # insert_at_key key x ys)"

text \<open>The removal loop: the first node that satisfies the test is unlinked and returned.\<close>

fun remove_first :: "('a \<Rightarrow> bool) \<Rightarrow> 'a list \<Rightarrow> ('a \<times> 'a list) option" where
  "remove_first p [] = None"
| "remove_first p (x # xs) =
     (if p x then Some (x, xs)
      else map_option (\<lambda>(y, ys). (y, x # ys)) (remove_first p xs))"

text \<open>The loop of \<open>GetLast\<close>: the first node whose key is the largest one seen, starting at 0.\<close>

fun max_by_key :: "('a \<Rightarrow> 'k :: linorder) \<Rightarrow> 'k \<Rightarrow> 'a \<Rightarrow> 'a list \<Rightarrow> 'a" where
  "max_by_key key furthest best [] = best"
| "max_by_key key furthest best (x # xs) =
     (if furthest < key x then max_by_key key (key x) x xs
      else max_by_key key furthest best xs)"

lemma mset_insert_at_key [simp]: "mset (insert_at_key key x xs) = add_mset x (mset xs)"
  by (induction xs) auto

lemma set_insert_at_key [simp]: "set (insert_at_key key x xs) = insert x (set xs)"
  by (induction xs) auto

lemma insert_at_key_not_Nil [simp]: "insert_at_key key x xs \<noteq> []"
  by (cases xs) auto

lemma sorted_insert_at_key [intro]:
  "sorted (map key xs) \<Longrightarrow> sorted (map key (insert_at_key key x xs))"
  by (induction xs) (auto simp: not_less)

lemma remove_first_None: "remove_first p xs = None \<longleftrightarrow> (\<forall>x \<in> set xs. \<not> p x)"
  by (induction xs) auto

lemma remove_first_Some:
  "remove_first p xs = Some (x, ys) \<Longrightarrow>
     p x \<and> mset xs = add_mset x (mset ys) \<and> (\<exists>us vs. xs = us @ x # vs \<and> ys = us @ vs \<and> (\<forall>u \<in> set us. \<not> p u))"
proof (induction xs arbitrary: ys)
  case Nil
  then show ?case by simp
next
  case (Cons a xs)
  show ?case
  proof (cases "p a")
    case True
    with Cons.prems show ?thesis by (auto intro: exI [of _ "[]"])
  next
    case False
    with Cons.prems obtain zs where zs: "remove_first p xs = Some (x, zs)" and ys: "ys = a # zs"
      by auto
    from Cons.IH [OF zs] obtain us vs
      where x: "p x" "mset xs = add_mset x (mset zs)"
        and split: "xs = us @ x # vs" "zs = us @ vs" "\<forall>u \<in> set us. \<not> p u"
      by blast
    from split False ys
    have "a # xs = (a # us) @ x # vs \<and> ys = (a # us) @ vs \<and> (\<forall>u \<in> set (a # us). \<not> p u)"
      by simp
    moreover from x ys have "mset (a # xs) = add_mset x (mset ys)" by simp
    ultimately show ?thesis using x(1) by blast
  qed
qed

lemma remove_first_hd:
  assumes "remove_first p xs = Some (x, ys)" and "x \<noteq> hd xs" and "xs \<noteq> []"
  shows "ys \<noteq> [] \<and> hd ys = hd xs"
  using assms by (cases xs) (auto split: if_splits)

lemma remove_first_sorted:
  assumes "remove_first p xs = Some (x, ys)" and "sorted (map key xs)"
  shows "sorted (map key ys)"
proof -
  from remove_first_Some [OF assms(1)] obtain us vs where "xs = us @ x # vs" "ys = us @ vs"
    by blast
  with assms(2) show ?thesis by (auto simp: sorted_append)
qed

lemma max_by_key_in: "max_by_key key f b xs \<in> insert b (set xs)"
  by (induction xs arbitrary: f b) auto

lemma max_by_key_ge:
  assumes "key b = f"
  shows "\<forall>x \<in> insert b (set xs). key x \<le> key (max_by_key key f b xs)"
  using assms
proof (induction xs arbitrary: f b)
  case Nil
  then show ?case by simp
next
  case (Cons a xs)
  show ?case
  proof (cases "f < key a")
    case True
    have "\<forall>x \<in> insert a (set xs). key x \<le> key (max_by_key key (key a) a xs)"
      by (rule Cons.IH) simp
    with True Cons.prems show ?thesis by force
  next
    case False
    with Cons.IH [OF Cons.prems] Cons.prems show ?thesis by force
  qed
qed

text \<open>
  \<open>GetLast\<close> starts with the head as candidate and 0 as furthest byte, so that the head is
  compared with 0 rather than with its own key; the result is still a maximum.
\<close>

lemma max_by_key_zero:
  fixes key :: "'a \<Rightarrow> 'n :: len word"
  assumes "xs \<noteq> []"
  shows "max_by_key key 0 (hd xs) xs \<in> set xs \<and>
    (\<forall>x \<in> set xs. key x \<le> key (max_by_key key 0 (hd xs) xs))"
proof -
  obtain y ys where xs: "xs = y # ys"
    using assms by (cases xs) auto
  show ?thesis
  proof (cases "0 < key y")
    case True
    then have eq: "max_by_key key 0 (hd xs) xs = max_by_key key (key y) y ys"
      by (simp add: xs)
    show ?thesis
      unfolding eq using max_by_key_in [of key "key y" y ys] max_by_key_ge [of key y "key y" ys]
      by (simp add: xs)
  next
    case False
    then have "key y = 0" by (simp add: word_gt_0)
    then have eq: "max_by_key key 0 (hd xs) xs = max_by_key key (key y) y ys"
      by (simp add: xs)
    show ?thesis
      unfolding eq using max_by_key_in [of key "key y" y ys] max_by_key_ge [of key y "key y" ys]
      by (simp add: xs)
  qed
qed

text \<open>Flattening depends on the multiset of the parts only.\<close>

lemma mset_concat_image: "mset (concat (map f xs)) = (\<Sum>x \<in># mset xs. mset (f x))"
  by (induction xs) auto

section \<open>Sequencing options\<close>

lemma bind_Some_iff [storage_simps]:
  "Option.bind m f = Some y \<longleftrightarrow> (\<exists>x. m = Some x \<and> f x = Some y)"
  by (cases m) auto

section \<open>32-bit and 64-bit arithmetic on natural numbers\<close>

definition add32 :: "nat \<Rightarrow> nat \<Rightarrow> nat" where "add32 a b = (a + b) mod 2 ^ 32"
definition sub32 :: "nat \<Rightarrow> nat \<Rightarrow> nat" where "sub32 a b = (a + 2 ^ 32 - b) mod 2 ^ 32"
definition mul32 :: "nat \<Rightarrow> nat \<Rightarrow> nat" where "mul32 a b = (a * b) mod 2 ^ 32"

definition add64 :: "nat \<Rightarrow> nat \<Rightarrow> nat" where "add64 a b = (a + b) mod 2 ^ 64"
definition sub64 :: "nat \<Rightarrow> nat \<Rightarrow> nat" where "sub64 a b = (a + 2 ^ 64 - b) mod 2 ^ 64"
definition dword :: "nat \<Rightarrow> nat" where "dword a = a mod 2 ^ 32"

lemma sub32_eq: "a < 2 ^ 32 \<Longrightarrow> b \<le> a \<Longrightarrow> sub32 a b = a - b"
proof -
  assume a: "a < 2 ^ 32" and b: "b \<le> a"
  have "a + 2 ^ 32 - b = a - b + 2 ^ 32" using b by linarith
  moreover have "(a - b) mod 2 ^ 32 = a - b" using a by (intro mod_less) linarith
  ultimately show "sub32 a b = a - b" unfolding sub32_def by (simp only: mod_add_self2)
qed

lemma sub64_eq: "a < 2 ^ 64 \<Longrightarrow> b \<le> a \<Longrightarrow> sub64 a b = a - b"
proof -
  assume a: "a < 2 ^ 64" and b: "b \<le> a"
  have "a + 2 ^ 64 - b = a - b + 2 ^ 64" using b by linarith
  moreover have "(a - b) mod 2 ^ 64 = a - b" using a by (intro mod_less) linarith
  ultimately show "sub64 a b = a - b" unfolding sub64_def by (simp only: mod_add_self2)
qed

lemma add32_eq: "a + b < 2 ^ 32 \<Longrightarrow> add32 a b = a + b"
  by (simp add: add32_def)

lemma add64_eq: "a + b < 2 ^ 64 \<Longrightarrow> add64 a b = a + b"
  by (simp add: add64_def)

lemma dword_eq [simp]: "a < 2 ^ 32 \<Longrightarrow> dword a = a"
  by (simp add: dword_def)

section \<open>Parts of buffers\<close>

text \<open>The k-th block of a buffer, and \<open>memcpy\<close> into a buffer.\<close>

definition slice :: "nat \<Rightarrow> BYTE list \<Rightarrow> nat \<Rightarrow> BYTE list" where
  "slice bs buf k = take bs (drop (k * bs) buf)"

lemma concat_slices: "n * bs \<le> length xs \<Longrightarrow> concat (map (slice bs xs) [0..<n]) = take (n * bs) xs"
proof (induction n)
  case 0
  then show ?case by simp
next
  case (Suc n)
  then show ?case by (simp add: slice_def add.commute [of bs] take_add)
qed

definition overwrite :: "BYTE list \<Rightarrow> nat \<Rightarrow> BYTE list \<Rightarrow> BYTE list" where
  "overwrite p off data = take off p @ data @ drop (off + length data) p"

lemma length_overwrite: "off + length d \<le> length p \<Longrightarrow> length (overwrite p off d) = length p"
  by (simp add: overwrite_def)

lemma overwrite_same: "off + length d \<le> length p \<Longrightarrow> take (length d) (drop off (overwrite p off d)) = d"
  by (simp add: overwrite_def)

lemma nth_overwrite:
  assumes "off + length d \<le> length p" and "j < length p" and "j < off \<or> off + length d \<le> j"
  shows "overwrite p off d ! j = p ! j"
proof (cases "j < off")
  case True
  with assms show ?thesis by (simp add: overwrite_def nth_append)
next
  case False
  then have "off + length d \<le> j" "\<not> j - off < length d" "j - off - length d + (off + length d) = j"
    using assms by auto
  with assms False show ?thesis
    by (simp add: overwrite_def nth_append add.commute)
qed

lemma overwrite_other:
  assumes "off + length d \<le> length p" and "off' + n \<le> off \<or> off + length d \<le> off'"
  shows "take n (drop off' (overwrite p off d)) = take n (drop off' p)"
proof (rule nth_equalityI)
  show "length (take n (drop off' (overwrite p off d))) = length (take n (drop off' p))"
    using assms(1) by (simp add: length_overwrite)
next
  fix i
  assume "i < length (take n (drop off' (overwrite p off d)))"
  then have i: "i < n" "off' + i < length p" using assms(1) by (auto simp: length_overwrite)
  then have "overwrite p off d ! (off' + i) = p ! (off' + i)"
    using assms by (intro nth_overwrite) auto
  with i assms(1) show "take n (drop off' (overwrite p off d)) ! i = take n (drop off' p) ! i"
    by (simp add: length_overwrite)
qed

section \<open>Bytes and words\<close>

definition get_word :: "BYTE list \<Rightarrow> nat \<Rightarrow> nat" where
  "get_word b i = unat (b ! i) + 256 * unat (b ! (i + 1))"

definition word_bytes :: "nat \<Rightarrow> BYTE list" where
  "word_bytes n = [of_nat (n mod 256), of_nat (n div 256 mod 256)]"

definition get_dword :: "BYTE list \<Rightarrow> nat \<Rightarrow> nat" where
  "get_dword b i = get_word b i + 65536 * get_word b (i + 2)"

definition dword_bytes :: "nat \<Rightarrow> BYTE list" where
  "dword_bytes n = word_bytes (n mod 65536) @ word_bytes (n div 65536 mod 65536)"

lemma length_word_bytes [simp]: "length (word_bytes n) = 2" "length (dword_bytes n) = 4"
  by (simp_all add: word_bytes_def dword_bytes_def)

lemma unat_byte: "n < 256 \<Longrightarrow> unat (of_nat n :: BYTE) = n"
  by (simp add: unat_of_nat)

lemma get_word_bytes: "n < 65536 \<Longrightarrow> get_word (word_bytes n) 0 = n"
  by (simp add: get_word_def word_bytes_def unat_byte)

lemma get_word_append: "i + 1 < length a \<Longrightarrow> get_word (a @ b) i = get_word a i"
  "length a \<le> i \<Longrightarrow> get_word (a @ b) i = get_word b (i - length a)"
  by (simp_all add: get_word_def nth_append Suc_diff_le)

lemma get_dword_bytes: "n < 2 ^ 32 \<Longrightarrow> get_dword (dword_bytes n) 0 = n"
proof -
  assume "n < 2 ^ 32"
  then have "n div 65536 < 65536" by (simp add: less_mult_imp_div_less)
  then show ?thesis
    by (simp add: get_dword_def dword_bytes_def get_word_append get_word_bytes)
qed

section \<open>Names\<close>

text \<open>\<open>wcsicmp\<close> folds the case of the letters A to Z.\<close>

definition fold_case :: "char \<Rightarrow> char" where
  "fold_case c = (let n = of_char c :: nat in if 65 \<le> n \<and> n \<le> 90 then char_of (n + 32) else c)"

definition wcsicmp_equal :: "string \<Rightarrow> string \<Rightarrow> bool" where
  "wcsicmp_equal a b \<longleftrightarrow> map fold_case a = map fold_case b"

end
