(* ===== verification/Range.thy ===== *)
theory Range
  imports Storage_Prelude
begin

text \<open>
  Byte ranges of the lock manager (\<open>LOCKMGR/range.hpp\<close>, \<open>range.cpp\<close>): the class \<open>CRange\<close>,
  its constructor, the setters that assemble a range from two 32-bit halves, and the
  conflict test.  The lemmas relate the conflict classification to byte overlap, say
  exactly when the wrapping 64-bit arithmetic of \<open>SetLength\<close> gives a valid range, and
  develop the algebra of the \<open>span\<close> (the smallest range that covers a list of ranges),
  which the lock lists and the lock sets maintain.
\<close>

section \<open>The class CRange\<close>

record crange =
  m_ullStart :: ULONGLONG
  m_ullFinish :: ULONGLONG

definition CRANGE_MAX_START :: ULONGLONG where
  "CRANGE_MAX_START = 0xFFFFFFFFFFFFFFFF"

definition CRANGE_MIN_FINISH :: ULONGLONG where
  "CRANGE_MIN_FINISH = 0"

datatype RANGECONFLICTTYPE =
  RCT_ERROR | RCT_NOCONFLICT_BEFORE | RCT_NOCONFLICT_AFTER | RCT_BETWEEN | RCT_BOUNDARY

definition CRange_new :: crange where
  "CRange_new = \<lparr>m_ullStart = CRANGE_MAX_START, m_ullFinish = CRANGE_MIN_FINISH\<rparr>"

definition CRange_SetOffset :: "crange \<Rightarrow> DWORD \<Rightarrow> DWORD \<Rightarrow> crange" where
  "CRange_SetOffset r dwOffsetLow dwOffsetHigh =
     r\<lparr>m_ullStart := make_u64 dwOffsetLow dwOffsetHigh\<rparr>"

definition CRange_SetLength :: "crange \<Rightarrow> DWORD \<Rightarrow> DWORD \<Rightarrow> crange" where
  "CRange_SetLength r dwLengthLow dwLengthHigh =
     (let ullLength = make_u64 dwLengthLow dwLengthHigh
      in r\<lparr>m_ullFinish := (m_ullStart r + ullLength) - 1\<rparr>)"

definition CRange_IsConflict :: "crange \<Rightarrow> crange \<Rightarrow> RANGECONFLICTTYPE" where
  "CRange_IsConflict this r =
     (if m_ullFinish this < m_ullStart r then RCT_NOCONFLICT_BEFORE
      else if m_ullStart this > m_ullFinish r then RCT_NOCONFLICT_AFTER
      else if m_ullStart r > m_ullStart this \<and> m_ullFinish r < m_ullFinish this then RCT_BETWEEN
      else RCT_BOUNDARY)"

definition CRange_IsEqualTo :: "crange \<Rightarrow> crange \<Rightarrow> bool" where
  "CRange_IsEqualTo this r \<longleftrightarrow>
     m_ullStart this = m_ullStart r \<and> m_ullFinish this = m_ullFinish r"

definition CRange_IsValid :: "crange \<Rightarrow> bool" where
  "CRange_IsValid this \<longleftrightarrow> \<not> m_ullStart this > m_ullFinish this"

section \<open>Overlap\<close>

definition overlaps :: "crange \<Rightarrow> crange \<Rightarrow> bool" where
  "overlaps a b \<longleftrightarrow> m_ullStart a \<le> m_ullFinish b \<and> m_ullStart b \<le> m_ullFinish a"

definition range_bytes :: "crange \<Rightarrow> ULONGLONG set" where
  "range_bytes r = {m_ullStart r .. m_ullFinish r}"

lemma IsConflict_never_error [simp]: "CRange_IsConflict a b \<noteq> RCT_ERROR"
  by (simp add: CRange_IsConflict_def)

lemma IsConflict_no_iff [storage_simps]:
  "CRange_IsConflict a b \<in> {RCT_BETWEEN, RCT_BOUNDARY} \<longleftrightarrow> overlaps a b"
  by (auto simp: CRange_IsConflict_def overlaps_def not_less split: if_splits)

lemma IsConflict_BeforeD: "CRange_IsConflict a b = RCT_NOCONFLICT_BEFORE \<Longrightarrow> m_ullFinish a < m_ullStart b"
  and IsConflict_AfterD: "CRange_IsConflict a b = RCT_NOCONFLICT_AFTER \<Longrightarrow> m_ullFinish b < m_ullStart a"
  and IsConflict_BetweenD: "CRange_IsConflict a b = RCT_BETWEEN \<Longrightarrow> overlaps a b"
  and IsConflict_BoundaryD: "CRange_IsConflict a b = RCT_BOUNDARY \<Longrightarrow>
    overlaps a b \<and> (m_ullStart b \<le> m_ullStart a \<or> m_ullFinish a \<le> m_ullFinish b)"
  by (auto simp: CRange_IsConflict_def overlaps_def not_less split: if_splits)

lemma overlaps_commute: "overlaps a b \<longleftrightarrow> overlaps b a"
  by (auto simp: overlaps_def)

lemma overlaps_iff_bytes:
  assumes "CRange_IsValid a" and "CRange_IsValid b"
  shows "overlaps a b \<longleftrightarrow> range_bytes a \<inter> range_bytes b \<noteq> {}"
proof
  assume "overlaps a b"
  with assms have "max (m_ullStart a) (m_ullStart b) \<in> range_bytes a \<inter> range_bytes b"
    by (auto simp: overlaps_def range_bytes_def CRange_IsValid_def max_def not_less)
  then show "range_bytes a \<inter> range_bytes b \<noteq> {}" by blast
next
  assume "range_bytes a \<inter> range_bytes b \<noteq> {}"
  then show "overlaps a b"
    by (auto simp: overlaps_def range_bytes_def intro: order_trans)
qed

lemma overlaps_refl: "CRange_IsValid a \<Longrightarrow> overlaps a a"
  by (simp add: overlaps_def CRange_IsValid_def not_less)

section \<open>Assembling a range from an offset and a length\<close>

definition make_range :: "DWORD \<Rightarrow> DWORD \<Rightarrow> DWORD \<Rightarrow> DWORD \<Rightarrow> crange" where
  "make_range offLow offHigh lenLow lenHigh =
     CRange_SetLength (CRange_SetOffset CRange_new offLow offHigh) lenLow lenHigh"

lemma make_range_start [simp]: "m_ullStart (make_range ol oh ll lh) = make_u64 ol oh"
  by (simp add: make_range_def CRange_SetLength_def CRange_SetOffset_def Let_def)

lemma make_range_finish [simp]:
  "m_ullFinish (make_range ol oh ll lh) = make_u64 ol oh + make_u64 ll lh - 1"
  by (simp add: make_range_def CRange_SetLength_def CRange_SetOffset_def Let_def)

lemma unat_add_minus_one:
  fixes s n :: "'a :: len word"
  assumes "0 < unat n" and "unat s + unat n \<le> 2 ^ LENGTH('a)"
  shows "unat (s + n - 1) = unat s + unat n - 1"
proof -
  have "s + n - 1 = word_of_nat (unat s + unat n - 1)"
    using assms(1) by (simp add: of_nat_diff)
  moreover have "unat s + unat n - 1 < 2 ^ LENGTH('a)"
    using assms by linarith
  ultimately show ?thesis by (simp add: unat_of_nat take_bit_nat_eq_self)
qed

lemma unat_add_minus_one_wrap:
  fixes s n :: "'a :: len word"
  assumes "2 ^ LENGTH('a) < unat s + unat n"
  shows "unat (s + n - 1) = unat s + unat n - 1 - 2 ^ LENGTH('a)"
proof -
  have bounds: "unat s < 2 ^ LENGTH('a)" "unat n < 2 ^ LENGTH('a)"
    by (rule unsigned_less)+
  have "s + n - 1 = word_of_nat (unat s + unat n - 1)"
    using assms by (simp add: of_nat_diff)
  then have "unat (s + n - 1) = (unat s + unat n - 1) mod 2 ^ LENGTH('a)"
    by (simp add: unat_of_nat take_bit_eq_mod)
  also have "\<dots> = (unat s + unat n - 1 - 2 ^ LENGTH('a)) mod 2 ^ LENGTH('a)"
    using assms by (intro le_mod_geq) linarith
  also have "\<dots> = unat s + unat n - 1 - 2 ^ LENGTH('a)"
    using bounds by (intro mod_less) linarith
  finally show ?thesis .
qed

lemma valid_offset_length_iff:
  "\<not> s > s + n - 1 \<longleftrightarrow>
     (0 < unat n \<and> unat s + unat n \<le> 2 ^ LENGTH('a)) \<or> (unat s = 0 \<and> unat n = 0)"
  for s n :: "'a :: len word"
proof (cases "n = 0")
  case True
  have "s \<le> s - 1 \<longleftrightarrow> s = 0"
    by (cases "s = 0") (auto simp: word_le_nat_alt unat_minus_one unat_eq_0 dest: unat_gt_0 [THEN iffD2])
  then show ?thesis by (simp add: True not_less unat_eq_0)
next
  case False
  then have n: "0 < unat n" by (simp add: unat_gt_0)
  show ?thesis
  proof (cases "unat s + unat n \<le> 2 ^ LENGTH('a)")
    case True
    with unat_add_minus_one [OF n True] n show ?thesis
      by (simp add: word_less_nat_alt)
  next
    case wrap: False
    then have "unat (s + n - 1) = unat s + unat n - 1 - 2 ^ LENGTH('a)"
      by (intro unat_add_minus_one_wrap) simp
    with wrap n unsigned_less [of n, where ?'a = nat] show ?thesis
      by (simp add: word_less_nat_alt del: unsigned_less)
  qed
qed

lemma make_range_valid_iff:
  "CRange_IsValid (make_range ol oh ll lh) \<longleftrightarrow>
     (0 < unat (make_u64 ll lh) \<and> unat (make_u64 ol oh) + unat (make_u64 ll lh) \<le> 2 ^ 64) \<or>
     (unat (make_u64 ol oh) = 0 \<and> unat (make_u64 ll lh) = 0)"
  using valid_offset_length_iff [of "make_u64 ol oh" "make_u64 ll lh"]
  by (simp add: CRange_IsValid_def)

lemma make_range_finish_exact:
  assumes "0 < unat (make_u64 ll lh)" and "unat (make_u64 ol oh) + unat (make_u64 ll lh) \<le> 2 ^ 64"
  shows "unat (m_ullFinish (make_range ol oh ll lh)) =
    unat (make_u64 ol oh) + unat (make_u64 ll lh) - 1"
  using unat_add_minus_one [of "make_u64 ll lh" "make_u64 ol oh"] assms by simp

section \<open>The span of a list of ranges\<close>

definition hull :: "crange \<Rightarrow> crange \<Rightarrow> crange" where
  "hull a b = \<lparr>m_ullStart = min (m_ullStart a) (m_ullStart b),
               m_ullFinish = max (m_ullFinish a) (m_ullFinish b)\<rparr>"

fun span :: "crange list \<Rightarrow> crange" where
  "span [] = CRange_new"
| "span (r # rs) = hull r (span rs)"

lemma hull_simps [simp]:
  "m_ullStart (hull a b) = min (m_ullStart a) (m_ullStart b)"
  "m_ullFinish (hull a b) = max (m_ullFinish a) (m_ullFinish b)"
  by (simp_all add: hull_def)

lemma crange_eqI:
  "m_ullStart a = m_ullStart b \<Longrightarrow> m_ullFinish a = m_ullFinish b \<Longrightarrow> a = (b :: crange)"
  by simp

lemma word_max_ge [simp]: "(x :: ULONGLONG) \<le> CRANGE_MAX_START"
proof -
  have "CRANGE_MAX_START = - 1" by (simp add: CRANGE_MAX_START_def)
  then show ?thesis by (metis word_n1_ge)
qed

lemma new_range_simps [simp]:
  "m_ullStart CRange_new = CRANGE_MAX_START" "m_ullFinish CRange_new = 0"
  by (simp_all add: CRange_new_def CRANGE_MIN_FINISH_def)

lemma hull_new [simp]: "hull r CRange_new = r" "hull CRange_new r = r"
  by (auto intro!: crange_eqI simp: min_def max_def antisym)

lemma hull_assoc: "hull (hull a b) c = hull a (hull b c)"
  and hull_commute: "hull a b = hull b a"
  and hull_left_commute: "hull a (hull b c) = hull b (hull a c)"
  by (auto intro!: crange_eqI simp: ac_simps)

lemmas hull_ac = hull_assoc hull_commute hull_left_commute

lemma span_append: "span (rs @ ss) = hull (span rs) (span ss)"
  by (induction rs) (simp_all add: hull_ac)

lemma span_cong_mset: "mset rs = mset ss \<Longrightarrow> span rs = span ss"
proof (induction rs arbitrary: ss)
  case Nil
  then show ?case by simp
next
  case (Cons r rs)
  then have "r \<in> set ss" by (metis list.set_intros(1) mset_eq_setD)
  then obtain us vs where ss: "ss = us @ r # vs" by (meson split_list)
  with Cons.prems have "mset rs = mset (us @ vs)" by simp
  then have "span rs = span (us @ vs)" by (rule Cons.IH)
  then show ?case by (simp add: ss span_append hull_ac)
qed

lemma span_start_le: "r \<in> set rs \<Longrightarrow> m_ullStart (span rs) \<le> m_ullStart r"
  and span_finish_ge: "r \<in> set rs \<Longrightarrow> m_ullFinish r \<le> m_ullFinish (span rs)"
  by (induction rs) (auto simp: min_le_iff_disj le_max_iff_disj)

lemma span_start_attained: "rs \<noteq> [] \<Longrightarrow> \<exists>r \<in> set rs. m_ullStart (span rs) = m_ullStart r"
proof (induction rs rule: list_nonempty_induct)
  case (single r)
  then show ?case by (auto simp: min_def antisym)
next
  case (cons r rs)
  then show ?case by (auto simp: min_def)
qed

lemma span_finish_attained: "rs \<noteq> [] \<Longrightarrow> \<exists>r \<in> set rs. m_ullFinish (span rs) = m_ullFinish r"
proof (induction rs rule: list_nonempty_induct)
  case (single r)
  then show ?case by (auto simp: max_def)
next
  case (cons r rs)
  then show ?case by (auto simp: max_def)
qed

lemma span_start_eqI:
  "r \<in> set rs \<Longrightarrow> (\<And>q. q \<in> set rs \<Longrightarrow> m_ullStart r \<le> m_ullStart q) \<Longrightarrow>
     m_ullStart (span rs) = m_ullStart r"
  using span_start_attained [of rs] span_start_le [of r rs] by force

lemma span_finish_eqI:
  "r \<in> set rs \<Longrightarrow> (\<And>q. q \<in> set rs \<Longrightarrow> m_ullFinish q \<le> m_ullFinish r) \<Longrightarrow>
     m_ullFinish (span rs) = m_ullFinish r"
  using span_finish_attained [of rs] span_finish_ge [of r rs] by force

lemma span_sorted_start:
  "rs \<noteq> [] \<Longrightarrow> sorted (map m_ullStart rs) \<Longrightarrow> m_ullStart (span rs) = m_ullStart (hd rs)"
  by (rule span_start_eqI) (cases rs; auto)+

lemma span_valid:
  assumes "rs \<noteq> []" and "\<forall>r \<in> set rs. CRange_IsValid r"
  shows "CRange_IsValid (span rs)"
proof -
  obtain r where "r \<in> set rs" using assms(1) by (cases rs) auto
  with assms(2) have "m_ullStart r \<le> m_ullFinish r" by (auto simp: CRange_IsValid_def not_less)
  with span_start_le [OF \<open>r \<in> set rs\<close>] span_finish_ge [OF \<open>r \<in> set rs\<close>]
  show ?thesis by (auto simp: CRange_IsValid_def not_less)
qed

text \<open>
  The pruning test shared by lists and sets: no overlap with the span means no overlap
  with any member; and when the span is hit on its boundary, some member is hit.
\<close>

lemma span_no_overlap:
  "\<not> overlaps (span rs) t \<Longrightarrow> r \<in> set rs \<Longrightarrow> \<not> overlaps r t"
  using span_start_le [of r rs] span_finish_ge [of r rs] by (auto simp: overlaps_def)

lemma span_boundary_hit:
  assumes rs: "rs \<noteq> []" "\<forall>r \<in> set rs. CRange_IsValid r"
    and bd: "CRange_IsConflict (span rs) t = RCT_BOUNDARY"
  shows "\<exists>r \<in> set rs. overlaps r t"
proof -
  obtain a where a: "a \<in> set rs" "m_ullStart (span rs) = m_ullStart a"
    using span_start_attained [OF rs(1)] by blast
  obtain b where b: "b \<in> set rs" "m_ullFinish (span rs) = m_ullFinish b"
    using span_finish_attained [OF rs(1)] by blast
  have va: "m_ullStart a \<le> m_ullFinish a" and vb: "m_ullStart b \<le> m_ullFinish b"
    using rs(2) a b by (auto simp: CRange_IsValid_def not_less)
  from IsConflict_BoundaryD [OF bd] a(2) b(2)
  have "overlaps a t \<or> overlaps b t"
    using va vb by (auto simp: overlaps_def)
  with a(1) b(1) show ?thesis by blast
qed

end
