(* ===== verification/Lock_Contract.thy ===== *)
theory Lock_Contract
  imports Range
begin

text \<open>
  The contract that the lock container code relies on when it asks a collection of ranges
  whether a target range is taken (\<open>CFileLockList::IsConflict\<close> and
  \<open>CFileLockSet::IsConflict\<close>) and when it inserts into such a collection.  The contract is
  stated once; the list and the set each provide it, in their own theories, and the lock
  container uses it for the exclusive and for the shared set.
\<close>

section \<open>Asking a collection of ranges\<close>

locale range_index =
  fixes wf :: "'c \<Rightarrow> bool"
    and ranges :: "'c \<Rightarrow> crange list"
    and is_empty :: "'c \<Rightarrow> bool"
    and conflict :: "'c \<Rightarrow> crange \<Rightarrow> bool option"
  assumes is_empty_iff: "wf c \<Longrightarrow> is_empty c \<longleftrightarrow> ranges c = []"
    and ranges_valid: "wf c \<Longrightarrow> r \<in> set (ranges c) \<Longrightarrow> CRange_IsValid r"
    and conflict_exact: "wf c \<Longrightarrow> conflict c t = Some (\<exists>r \<in> set (ranges c). overlaps r t)"
begin

lemma conflict_no_fault: "wf c \<Longrightarrow> conflict c t \<noteq> None"
  by (simp add: conflict_exact)

lemma empty_no_conflict: "wf c \<Longrightarrow> is_empty c \<Longrightarrow> conflict c t = Some False"
  by (simp add: conflict_exact is_empty_iff)

lemma conflict_bytes:
  assumes "wf c" and "CRange_IsValid t"
  shows "conflict c t = Some (range_bytes t \<inter> (\<Union>r \<in> set (ranges c). range_bytes r) \<noteq> {})"
proof -
  have "(\<exists>r \<in> set (ranges c). overlaps r t) \<longleftrightarrow>
      (\<exists>r \<in> set (ranges c). range_bytes r \<inter> range_bytes t \<noteq> {})"
    using assms ranges_valid overlaps_iff_bytes by blast
  then show ?thesis by (auto simp: conflict_exact [OF assms(1)])
qed

lemma conflict_mono:
  assumes "wf c" and "conflict c t = Some True"
    and "m_ullStart t' \<le> m_ullStart t" and "m_ullFinish t \<le> m_ullFinish t'"
  shows "conflict c t' = Some True"
  using assms by (auto simp: conflict_exact overlaps_def intro: order_trans)

end

section \<open>Adding to a collection of ranges\<close>

locale range_store = range_index +
  fixes add :: "'c \<Rightarrow> 'e \<Rightarrow> 'c option"
    and elem_ok :: "'c \<Rightarrow> 'e \<Rightarrow> bool"
    and elem_ranges :: "'e \<Rightarrow> crange list"
  assumes add_wf: "wf c \<Longrightarrow> elem_ok c e \<Longrightarrow>
      \<exists>c'. add c e = Some c' \<and> wf c' \<and> mset (ranges c') = mset (ranges c) + mset (elem_ranges e)"
begin

lemma add_preserves: "wf c \<Longrightarrow> elem_ok c e \<Longrightarrow> add c e = Some c' \<Longrightarrow> wf c'"
  using add_wf [of c e] by auto

lemma add_ranges:
  "wf c \<Longrightarrow> elem_ok c e \<Longrightarrow> add c e = Some c' \<Longrightarrow>
     set (ranges c') = set (ranges c) \<union> set (elem_ranges e)"
  using add_wf [of c e] by (metis mset_append mset_eq_setD option.inject set_append)

lemma conflict_after_add:
  assumes "wf c" and "elem_ok c e" and "add c e = Some c'" and "conflict c t = Some b"
  shows "conflict c' t = Some (b \<or> (\<exists>r \<in> set (elem_ranges e). overlaps r t))"
  using assms add_preserves [OF assms(1-3)] add_ranges [OF assms(1-3)]
  by (auto simp: conflict_exact)

end

end
