(* ===== verification/Lock_List.thy ===== *)
theory Lock_List
  imports Lock_Contract
begin

text \<open>
  One owner's locks on a file (\<open>LOCKMGR/lock.cpp\<close>, \<open>locklist.hpp\<close>, \<open>locklist.cpp\<close>): the
  classes \<open>CFileLock\<close> and \<open>CFileLockList\<close>.  The linked list of locks is a HOL list in link
  order.  The pointer \<open>m_pRange\<close> of a list is an option, since its constructor allocates it
  and may fail; a lock gets its range before it is linked anywhere, so there it is a value.
  Operations that dereference \<open>m_pRange\<close> return \<open>None\<close> when it is null.

  The invariant \<open>list_wf\<close> says that the list is sorted by the first byte locked, that every
  lock is a valid range and that \<open>m_pRange\<close> is the span of the locks.  Every operation is
  shown to preserve it, and \<open>IsConflict\<close>, which prunes with the span and stops at the first
  lock behind the target, is shown to be exact.
\<close>

section \<open>Locks and lists of locks\<close>

record cfilelock =
  flk_range :: crange

record cfilelocklist =
  fl_owner :: DWORD
  fl_range :: "crange option"
  fl_head :: "cfilelock list"

definition CFileLock_IsValid :: "cfilelock \<Rightarrow> bool" where
  "CFileLock_IsValid k \<longleftrightarrow> CRange_IsValid (flk_range k)"

text \<open>The constructor; the argument says whether \<open>new CRange()\<close> succeeds.\<close>

definition CFileLockList_new :: "bool \<Rightarrow> cfilelocklist" where
  "CFileLockList_new range_ok =
     \<lparr>fl_owner = 0, fl_range = (if range_ok then Some CRange_new else None), fl_head = []\<rparr>"

definition CFileLockList_GetLast :: "cfilelocklist \<Rightarrow> cfilelock option" where
  "CFileLockList_GetLast this =
     (case fl_head this of
        [] \<Rightarrow> None
      | h # _ \<Rightarrow> Some (max_by_key (\<lambda>k. m_ullFinish (flk_range k)) 0 h (fl_head this)))"

definition CFileLockList_IsEmpty :: "cfilelocklist \<Rightarrow> bool" where
  "CFileLockList_IsEmpty this \<longleftrightarrow> fl_head this = []"

text \<open>
  The scan of \<open>IsConflict\<close>.  The test never answers \<open>RCT_ERROR\<close> (\<open>IsConflict_never_error\<close>);
  that row only completes the case analysis.
\<close>

fun list_conflict_scan :: "cfilelock list \<Rightarrow> crange \<Rightarrow> bool" where
  "list_conflict_scan [] t = False"
| "list_conflict_scan (k # ks) t =
     (case CRange_IsConflict t (flk_range k) of
        RCT_NOCONFLICT_BEFORE \<Rightarrow> False
      | RCT_NOCONFLICT_AFTER \<Rightarrow> list_conflict_scan ks t
      | RCT_BETWEEN \<Rightarrow> True
      | RCT_BOUNDARY \<Rightarrow> True
      | RCT_ERROR \<Rightarrow> list_conflict_scan ks t)"

definition CFileLockList_IsConflict :: "cfilelocklist \<Rightarrow> crange \<Rightarrow> bool option" where
  "CFileLockList_IsConflict this t =
     (if CFileLockList_IsEmpty this then Some False
      else do {
        r \<leftarrow> fl_range this;
        (case CRange_IsConflict r t of
           RCT_NOCONFLICT_BEFORE \<Rightarrow> Some False
         | RCT_NOCONFLICT_AFTER \<Rightarrow> Some False
         | RCT_BOUNDARY \<Rightarrow> Some True
         | _ \<Rightarrow> Some (list_conflict_scan (fl_head this) t))
      })"

text \<open>The range update that \<open>Insert\<close> makes before it links the new element.\<close>

definition widen_range :: "crange \<Rightarrow> crange \<Rightarrow> crange" where
  "widen_range r new =
     (let r1 = (if m_ullStart new < m_ullStart r then r\<lparr>m_ullStart := m_ullStart new\<rparr> else r);
          r2 = (if m_ullFinish new > m_ullFinish r1 then r1\<lparr>m_ullFinish := m_ullFinish new\<rparr> else r1)
      in r2)"

definition CFileLockList_Insert :: "cfilelocklist \<Rightarrow> cfilelock \<Rightarrow> cfilelocklist option" where
  "CFileLockList_Insert this k = do {
     r \<leftarrow> fl_range this;
     let this = this\<lparr>fl_range := Some (widen_range r (flk_range k))\<rparr>;
     if CFileLockList_IsEmpty this then Some (this\<lparr>fl_head := [k]\<rparr>)
     else Some (this\<lparr>fl_head := insert_at_key (\<lambda>x. m_ullStart (flk_range x)) k (fl_head this)\<rparr>)
   }"

text \<open>
  The result of \<open>Remove\<close>: the lock taken out (or null) and the list afterwards.
\<close>

definition CFileLockList_Remove ::
    "cfilelocklist \<Rightarrow> crange \<Rightarrow> (cfilelock option \<times> cfilelocklist) option" where
  "CFileLockList_Remove this t =
     (if CFileLockList_IsEmpty this then Some (None, this)
      else case remove_first (\<lambda>k. CRange_IsEqualTo (flk_range k) t) (fl_head this) of
        None \<Rightarrow> Some (None, this)
      | Some (k, rest) \<Rightarrow> do {
          let this = this\<lparr>fl_head := rest\<rparr>;
          r \<leftarrow> fl_range this;
          if \<not> CFileLockList_IsEmpty this then do {
            let r = (if m_ullStart r = m_ullStart (flk_range k)
                     then r\<lparr>m_ullStart := m_ullStart (flk_range (hd rest))\<rparr> else r);
            if m_ullFinish r = m_ullFinish (flk_range k) then do {
              last \<leftarrow> CFileLockList_GetLast this;
              Some (Some k, this\<lparr>fl_range := Some (r\<lparr>m_ullFinish := m_ullFinish (flk_range last)\<rparr>)\<rparr>)
            } else Some (Some k, this\<lparr>fl_range := Some r\<rparr>)
          } else
            Some (Some k, this\<lparr>fl_range := Some (r\<lparr>m_ullStart := CRANGE_MAX_START,
                                                 m_ullFinish := CRANGE_MIN_FINISH\<rparr>)\<rparr>)
        })"

definition CFileLockList_IsValid :: "cfilelocklist \<Rightarrow> bool" where
  "CFileLockList_IsValid this =
     (if fl_owner this = 0 then False
      else case fl_range this of
        None \<Rightarrow> False
      | Some r \<Rightarrow> if \<not> CRange_IsValid r then False
                  else list_all CFileLock_IsValid (fl_head this))"

section \<open>The invariant of a lock list\<close>

definition list_ranges :: "cfilelocklist \<Rightarrow> crange list" where
  "list_ranges l = map flk_range (fl_head l)"

definition list_wf :: "cfilelocklist \<Rightarrow> bool" where
  "list_wf l \<longleftrightarrow>
     fl_range l = Some (span (list_ranges l)) \<and>
     sorted (map m_ullStart (list_ranges l)) \<and>
     list_all CRange_IsValid (list_ranges l)"

lemma list_wfD:
  assumes "list_wf l"
  shows "fl_range l = Some (span (list_ranges l))"
    and "sorted (map m_ullStart (list_ranges l))"
    and "r \<in> set (list_ranges l) \<Longrightarrow> CRange_IsValid r"
  using assms by (auto simp: list_wf_def list_all_iff)

lemma list_wf_new: "list_wf (CFileLockList_new True)"
  by (simp add: list_wf_def CFileLockList_new_def list_ranges_def)

lemma list_wf_SetOwner [simp]: "list_wf (l\<lparr>fl_owner := h\<rparr>) = list_wf l"
  and list_ranges_SetOwner [simp]: "list_ranges (l\<lparr>fl_owner := h\<rparr>) = list_ranges l"
  by (simp_all add: list_wf_def list_ranges_def)

section \<open>IsConflict is exact\<close>

lemma list_conflict_scan_exact:
  assumes "sorted (map (m_ullStart \<circ> flk_range) ks)"
    and "\<forall>k \<in> set ks. CRange_IsValid (flk_range k)"
  shows "list_conflict_scan ks t \<longleftrightarrow> (\<exists>k \<in> set ks. overlaps (flk_range k) t)"
  using assms
proof (induction ks)
  case Nil
  then show ?case by simp
next
  case (Cons k ks)
  let ?r = "flk_range k"
  show ?case
  proof (cases "CRange_IsConflict t ?r")
    case RCT_NOCONFLICT_BEFORE
    then have "m_ullFinish t < m_ullStart ?r" by (rule IsConflict_BeforeD)
    moreover have "\<forall>x \<in> set ks. m_ullStart ?r \<le> m_ullStart (flk_range x)"
      using Cons.prems(1) by simp
    ultimately have "\<forall>x \<in> set (k # ks). \<not> overlaps (flk_range x) t"
      by (fastforce simp: overlaps_def)
    with RCT_NOCONFLICT_BEFORE show ?thesis by simp
  next
    case RCT_NOCONFLICT_AFTER
    then have "\<not> overlaps ?r t" by (auto dest: IsConflict_AfterD simp: overlaps_def)
    with RCT_NOCONFLICT_AFTER Cons show ?thesis by simp
  next
    case RCT_BETWEEN
    then have "overlaps ?r t" using IsConflict_BetweenD overlaps_commute by blast
    with RCT_BETWEEN show ?thesis by simp
  next
    case RCT_BOUNDARY
    then have "overlaps ?r t" using IsConflict_BoundaryD overlaps_commute by blast
    with RCT_BOUNDARY show ?thesis by simp
  qed simp
qed

lemma list_conflict_exact:
  assumes wf: "list_wf l"
  shows "CFileLockList_IsConflict l t = Some (\<exists>r \<in> set (list_ranges l). overlaps r t)"
proof (cases "fl_head l = []")
  case True
  then show ?thesis
    by (simp add: CFileLockList_IsConflict_def CFileLockList_IsEmpty_def list_ranges_def)
next
  case False
  then have ne: "list_ranges l \<noteq> []" by (simp add: list_ranges_def)
  have valid: "\<forall>r \<in> set (list_ranges l). CRange_IsValid r" using list_wfD(3) [OF wf] by blast
  have scan: "list_conflict_scan (fl_head l) t \<longleftrightarrow> (\<exists>r \<in> set (list_ranges l). overlaps r t)"
    using list_conflict_scan_exact [of "fl_head l" t] list_wfD(2) [OF wf] valid
    by (simp add: list_ranges_def)
  show ?thesis
  proof (cases "CRange_IsConflict (span (list_ranges l)) t")
    case RCT_NOCONFLICT_BEFORE
    then have "\<not> overlaps (span (list_ranges l)) t"
      by (auto dest: IsConflict_BeforeD simp: overlaps_def)
    with RCT_NOCONFLICT_BEFORE False wf show ?thesis
      by (auto simp: CFileLockList_IsConflict_def CFileLockList_IsEmpty_def list_wfD(1)
          dest: span_no_overlap)
  next
    case RCT_NOCONFLICT_AFTER
    then have "\<not> overlaps (span (list_ranges l)) t"
      by (auto dest: IsConflict_AfterD simp: overlaps_def)
    with RCT_NOCONFLICT_AFTER False wf show ?thesis
      by (auto simp: CFileLockList_IsConflict_def CFileLockList_IsEmpty_def list_wfD(1)
          dest: span_no_overlap)
  next
    case RCT_BOUNDARY
    with span_boundary_hit [OF ne valid] False wf show ?thesis
      by (simp add: CFileLockList_IsConflict_def CFileLockList_IsEmpty_def list_wfD(1))
  qed (use False wf scan in \<open>simp_all add: CFileLockList_IsConflict_def CFileLockList_IsEmpty_def list_wfD(1)\<close>)
qed

section \<open>Insert\<close>

lemma widen_range_hull: "widen_range r new = hull new r"
  by (auto intro!: crange_eqI simp: widen_range_def Let_def min_def max_def)

lemma list_insert_spec:
  assumes wf: "list_wf l" and k: "CFileLock_IsValid k"
  obtains l' where "CFileLockList_Insert l k = Some l'" and "list_wf l'"
    and "mset (list_ranges l') = add_mset (flk_range k) (mset (list_ranges l))"
    and "fl_owner l' = fl_owner l" and "fl_head l' \<noteq> []"
proof -
  let ?hd = "insert_at_key (\<lambda>x. m_ullStart (flk_range x)) k (fl_head l)"
  let ?l = "l\<lparr>fl_range := Some (hull (flk_range k) (span (list_ranges l))), fl_head := ?hd\<rparr>"
  have run: "CFileLockList_Insert l k = Some ?l"
    by (cases "fl_head l") (simp_all add: CFileLockList_Insert_def list_wfD(1) [OF wf]
        CFileLockList_IsEmpty_def widen_range_hull Let_def)
  have ms: "mset (list_ranges ?l) = add_mset (flk_range k) (mset (list_ranges l))"
    by (simp add: list_ranges_def)
  then have "span (list_ranges ?l) = span (flk_range k # list_ranges l)"
    by (intro span_cong_mset) simp
  moreover have "sorted (map m_ullStart (list_ranges ?l))"
    using sorted_insert_at_key [of "\<lambda>x. m_ullStart (flk_range x)" "fl_head l" k] list_wfD(2) [OF wf]
    by (simp add: list_ranges_def comp_def)
  moreover have "list_all CRange_IsValid (list_ranges ?l)"
    using wf k by (auto simp: list_wf_def list_ranges_def list_all_iff CFileLock_IsValid_def)
  ultimately have "list_wf ?l" by (simp add: list_wf_def)
  with run ms show ?thesis by (intro that [of ?l]) simp_all
qed

section \<open>Remove\<close>

lemma list_GetLast_finish:
  assumes "fl_head l \<noteq> []"
  shows "\<exists>k. CFileLockList_GetLast l = Some k \<and>
    m_ullFinish (flk_range k) = m_ullFinish (span (list_ranges l))"
proof -
  let ?k = "max_by_key (\<lambda>k. m_ullFinish (flk_range k)) 0 (hd (fl_head l)) (fl_head l)"
  from max_by_key_zero [OF assms, of "\<lambda>k. m_ullFinish (flk_range k)"]
  have "m_ullFinish (span (list_ranges l)) = m_ullFinish (flk_range ?k)"
    by (intro span_finish_eqI) (auto simp: list_ranges_def)
  moreover have "CFileLockList_GetLast l = Some ?k"
    using assms by (auto simp: CFileLockList_GetLast_def split: list.splits)
  ultimately show ?thesis by simp
qed

text \<open>
  The bookkeeping that both \<open>Remove\<close> operations do on their span: the start is reloaded
  from the new head and the finish recomputed when the removed element attained them.
\<close>

lemma span_after_removal:
  assumes ms: "mset rs = add_mset x (mset rest)"
    and first: "m_ullStart (span rest) = h"
    and keep: "m_ullStart (span rs) \<noteq> m_ullStart x \<Longrightarrow> m_ullStart (span rs) = h"
  shows "m_ullStart (span rs) = m_ullStart x \<Longrightarrow> m_ullFinish (span rs) = m_ullFinish x \<Longrightarrow>
      (span rs)\<lparr>m_ullStart := h, m_ullFinish := m_ullFinish (span rest)\<rparr> = span rest"
    and "m_ullStart (span rs) = m_ullStart x \<Longrightarrow> m_ullFinish (span rs) \<noteq> m_ullFinish x \<Longrightarrow>
      (span rs)\<lparr>m_ullStart := h\<rparr> = span rest"
    and "m_ullStart (span rs) \<noteq> m_ullStart x \<Longrightarrow> m_ullFinish (span rs) = m_ullFinish x \<Longrightarrow>
      (span rs)\<lparr>m_ullFinish := m_ullFinish (span rest)\<rparr> = span rest"
    and "m_ullStart (span rs) \<noteq> m_ullStart x \<Longrightarrow> m_ullFinish (span rs) \<noteq> m_ullFinish x \<Longrightarrow>
      span rs = span rest"
proof -
  have eq: "span rs = hull x (span rest)"
    using span_cong_mset [of rs "x # rest"] ms by simp
  have fin: "m_ullFinish (span rs) \<noteq> m_ullFinish x \<Longrightarrow> m_ullFinish (span rs) = m_ullFinish (span rest)"
    by (auto simp: eq max_def split: if_splits)
  show "m_ullStart (span rs) = m_ullStart x \<Longrightarrow> m_ullFinish (span rs) = m_ullFinish x \<Longrightarrow>
      (span rs)\<lparr>m_ullStart := h, m_ullFinish := m_ullFinish (span rest)\<rparr> = span rest"
    by (rule crange_eqI) (simp_all add: first)
  show "m_ullStart (span rs) = m_ullStart x \<Longrightarrow> m_ullFinish (span rs) \<noteq> m_ullFinish x \<Longrightarrow>
      (span rs)\<lparr>m_ullStart := h\<rparr> = span rest"
    by (rule crange_eqI) (auto simp: first intro: fin)
  show "m_ullStart (span rs) \<noteq> m_ullStart x \<Longrightarrow> m_ullFinish (span rs) = m_ullFinish x \<Longrightarrow>
      (span rs)\<lparr>m_ullFinish := m_ullFinish (span rest)\<rparr> = span rest"
    by (rule crange_eqI) (auto simp: first intro: keep)
  show "m_ullStart (span rs) \<noteq> m_ullStart x \<Longrightarrow> m_ullFinish (span rs) \<noteq> m_ullFinish x \<Longrightarrow>
      span rs = span rest"
    by (rule crange_eqI) (auto simp: first intro: keep fin)
qed

lemma list_remove_absent:
  assumes "\<forall>r \<in> set (list_ranges l). \<not> CRange_IsEqualTo r t"
  shows "CFileLockList_Remove l t = Some (None, l)"
proof -
  have "remove_first (\<lambda>k. CRange_IsEqualTo (flk_range k) t) (fl_head l) = None"
    using assms by (auto simp: remove_first_None list_ranges_def)
  then show ?thesis by (simp add: CFileLockList_Remove_def)
qed

lemma list_remove_present:
  assumes wf: "list_wf l" and ex: "\<exists>r \<in> set (list_ranges l). CRange_IsEqualTo r t"
  obtains k l' where "CFileLockList_Remove l t = Some (Some k, l')" and "list_wf l'"
    and "CRange_IsEqualTo (flk_range k) t"
    and "mset (list_ranges l) = add_mset (flk_range k) (mset (list_ranges l'))"
    and "fl_owner l' = fl_owner l"
proof -
  let ?p = "\<lambda>k. CRange_IsEqualTo (flk_range k) t"
  obtain k rest where rf: "remove_first ?p (fl_head l) = Some (k, rest)"
    using ex remove_first_None [of ?p "fl_head l"] by (cases "remove_first ?p (fl_head l)")
      (auto simp: list_ranges_def)
  have pk: "?p k" and ms: "mset (fl_head l) = add_mset k (mset rest)"
    using remove_first_Some [OF rf] by blast+
  have msr: "mset (list_ranges l) = add_mset (flk_range k) (mset (map flk_range rest))"
    using arg_cong [OF ms, of "image_mset flk_range"] by (simp add: list_ranges_def)
  have srt: "sorted (map (\<lambda>x. m_ullStart (flk_range x)) rest)"
    using remove_first_sorted [OF rf] list_wfD(2) [OF wf] by (simp add: list_ranges_def comp_def)
  have valid: "list_all CRange_IsValid (map flk_range rest)"
    using wf mset_eq_setD [of "list_ranges l" "flk_range k # map flk_range rest"] msr
    by (auto simp: list_wf_def list_all_iff)
  have ne: "fl_head l \<noteq> []" using rf by auto
  let ?l = "l\<lparr>fl_head := rest, fl_range := Some (span (map flk_range rest))\<rparr>"
  have wf': "list_wf ?l"
    using srt valid by (simp add: list_wf_def list_ranges_def comp_def)
  have run: "CFileLockList_Remove l t = Some (Some k, ?l)"
  proof (cases "rest = []")
    case True
    then show ?thesis
      using rf ne by (simp add: CFileLockList_Remove_def CFileLockList_IsEmpty_def
          list_wfD(1) [OF wf] CRange_new_def Let_def)
  next
    case False
    have first: "m_ullStart (span (map flk_range rest)) = m_ullStart (flk_range (hd rest))"
      using span_sorted_start [of "map flk_range rest"] False srt
      by (simp add: comp_def hd_map)
    have keep: "m_ullStart (span (list_ranges l)) = m_ullStart (flk_range (hd rest))"
      if "m_ullStart (span (list_ranges l)) \<noteq> m_ullStart (flk_range k)"
    proof -
      have hd: "m_ullStart (span (list_ranges l)) = m_ullStart (flk_range (hd (fl_head l)))"
        using span_sorted_start [of "list_ranges l"] ne list_wfD(2) [OF wf]
        by (simp add: list_ranges_def hd_map)
      with that have "k \<noteq> hd (fl_head l)" by auto
      with remove_first_hd [OF rf] ne hd show ?thesis by simp
    qed
    note upd = span_after_removal [of "list_ranges l" "flk_range k" "map flk_range rest",
        OF msr first keep]
    obtain last where last: "CFileLockList_GetLast (l\<lparr>fl_head := rest\<rparr>) = Some last"
      "m_ullFinish (flk_range last) = m_ullFinish (span (map flk_range rest))"
      using list_GetLast_finish [of "l\<lparr>fl_head := rest\<rparr>"] False by (auto simp: list_ranges_def)
    show ?thesis
      using rf ne False last upd
      by (simp add: CFileLockList_Remove_def CFileLockList_IsEmpty_def list_wfD(1) [OF wf] Let_def)
  qed
  show ?thesis
    by (rule that [OF run wf' pk]) (use msr in \<open>simp_all add: list_ranges_def\<close>)
qed

section \<open>The list provides the contract\<close>

interpretation lock_list: range_store list_wf list_ranges CFileLockList_IsEmpty
  CFileLockList_IsConflict CFileLockList_Insert "\<lambda>_. CFileLock_IsValid" "\<lambda>k. [flk_range k]"
proof unfold_locales
  fix l :: cfilelocklist and k
  assume "list_wf l" and "CFileLock_IsValid k"
  then show "\<exists>l'. CFileLockList_Insert l k = Some l' \<and> list_wf l' \<and>
      mset (list_ranges l') = mset (list_ranges l) + mset [flk_range k]"
    by (metis list_insert_spec add_mset_add_single mset_single_iff_right mset.simps)
qed (auto simp: CFileLockList_IsEmpty_def list_ranges_def list_wfD(3) [unfolded list_ranges_def]
    list_conflict_exact [unfolded list_ranges_def])

lemma list_wf_IsValid:
  assumes "list_wf l" and "fl_head l \<noteq> []" and "fl_owner l \<noteq> 0"
  shows "CFileLockList_IsValid l"
  using assms span_valid [of "list_ranges l"] list_wfD(3) [OF assms(1)]
  by (auto simp: CFileLockList_IsValid_def list_wfD(1) list_all_iff CFileLock_IsValid_def list_ranges_def)

end
