(* ===== verification/Lock_Set.thy ===== *)
theory Lock_Set
  imports Lock_List
begin

text \<open>
  A lock set (\<open>LOCKMGR/lockset.hpp\<close>, \<open>lockset.cpp\<close>): the lock lists of all owners for one
  locking mode, in a linked list sorted by the first byte each list locks, with the span of
  the whole set in \<open>m_pRange\<close>.  A null \<open>m_pRange\<close>, of the set or of a list, is dereferenced
  by the code without a check in shipped builds; the model's operations then return
  \<open>None\<close>.

  \<open>set_wf\<close> is the invariant: the lists are well formed, non-empty, sorted, have distinct
  non-zero owners, and \<open>m_pRange\<close> is the span of all their locks.  \<open>set_entries\<close> abstracts
  a set to its (owner, range) pairs.
\<close>

section \<open>The class CFileLockSet\<close>

record cfilelockset =
  fs_range :: "crange option"
  fs_head :: "cfilelocklist list"

definition CFileLockSet_new :: "bool \<Rightarrow> cfilelockset" where
  "CFileLockSet_new range_ok =
     \<lparr>fs_range = (if range_ok then Some CRange_new else None), fs_head = []\<rparr>"

text \<open>
  \<open>GetLast\<close> reads the range of every list, so it faults when one of them is null; on an
  empty set it returns the null pointer.
\<close>

definition CFileLockSet_GetLast :: "cfilelockset \<Rightarrow> cfilelocklist option option" where
  "CFileLockSet_GetLast this =
     (if \<not> list_all (\<lambda>l. fl_range l \<noteq> None) (fs_head this) then None
      else case fs_head this of
        [] \<Rightarrow> Some None
      | h # _ \<Rightarrow> Some (Some (max_by_key (\<lambda>l. m_ullFinish (the (fl_range l))) 0 h (fs_head this))))"

definition CFileLockSet_IsEmpty :: "cfilelockset \<Rightarrow> bool" where
  "CFileLockSet_IsEmpty this \<longleftrightarrow> fs_head this = []"

fun set_conflict_scan :: "cfilelocklist list \<Rightarrow> crange \<Rightarrow> bool option" where
  "set_conflict_scan [] t = Some False"
| "set_conflict_scan (l # ls) t = do {
     b \<leftarrow> CFileLockList_IsConflict l t;
     if b then Some True else set_conflict_scan ls t
   }"

definition CFileLockSet_IsConflict :: "cfilelockset \<Rightarrow> crange \<Rightarrow> bool option" where
  "CFileLockSet_IsConflict this t =
     (if CFileLockSet_IsEmpty this then Some False
      else do {
        r \<leftarrow> fs_range this;
        (case CRange_IsConflict r t of
           RCT_NOCONFLICT_BEFORE \<Rightarrow> Some False
         | RCT_NOCONFLICT_AFTER \<Rightarrow> Some False
         | RCT_BOUNDARY \<Rightarrow> Some True
         | _ \<Rightarrow> set_conflict_scan (fs_head this) t)
      })"

fun set_conflict_scan_except :: "cfilelocklist list \<Rightarrow> crange \<Rightarrow> DWORD \<Rightarrow> bool option" where
  "set_conflict_scan_except [] t h = Some False"
| "set_conflict_scan_except (l # ls) t h =
     (if fl_owner l \<noteq> h then do {
        b \<leftarrow> CFileLockList_IsConflict l t;
        if b then Some True else set_conflict_scan_except ls t h
      } else set_conflict_scan_except ls t h)"

text \<open>The overload with an owner to ignore does not take the boundary shortcut.\<close>

definition CFileLockSet_IsConflictExcept :: "cfilelockset \<Rightarrow> crange \<Rightarrow> DWORD \<Rightarrow> bool option" where
  "CFileLockSet_IsConflictExcept this t dwOwnerOfListToIgnore =
     (if CFileLockSet_IsEmpty this then Some False
      else do {
        r \<leftarrow> fs_range this;
        (case CRange_IsConflict r t of
           RCT_NOCONFLICT_BEFORE \<Rightarrow> Some False
         | RCT_NOCONFLICT_AFTER \<Rightarrow> Some False
         | _ \<Rightarrow> set_conflict_scan_except (fs_head this) t dwOwnerOfListToIgnore)
      })"

fun set_insert_scan :: "cfilelocklist \<Rightarrow> cfilelocklist list \<Rightarrow> cfilelocklist list option" where
  "set_insert_scan l [] = Some [l]"
| "set_insert_scan l (y # ys) = do {
     r \<leftarrow> fl_range l;
     ry \<leftarrow> fl_range y;
     if m_ullStart r < m_ullStart ry then Some (l # y # ys)
     else do { zs \<leftarrow> set_insert_scan l ys; Some (y # zs) }
   }"

definition CFileLockSet_Insert :: "cfilelockset \<Rightarrow> cfilelocklist \<Rightarrow> cfilelockset option" where
  "CFileLockSet_Insert this l = do {
     rl \<leftarrow> fl_range l;
     r \<leftarrow> fs_range this;
     let this = this\<lparr>fs_range := Some (widen_range r rl)\<rparr>;
     if CFileLockSet_IsEmpty this then Some (this\<lparr>fs_head := [l]\<rparr>)
     else do { hd \<leftarrow> set_insert_scan l (fs_head this); Some (this\<lparr>fs_head := hd\<rparr>) }
   }"

definition CFileLockSet_Remove ::
    "cfilelockset \<Rightarrow> DWORD \<Rightarrow> (cfilelocklist option \<times> cfilelockset) option" where
  "CFileLockSet_Remove this dwOwner =
     (if CFileLockSet_IsEmpty this then Some (None, this)
      else case remove_first (\<lambda>l. dwOwner = fl_owner l) (fs_head this) of
        None \<Rightarrow> Some (None, this)
      | Some (l, rest) \<Rightarrow> do {
          let this = this\<lparr>fs_head := rest\<rparr>;
          r \<leftarrow> fs_range this;
          if \<not> CFileLockSet_IsEmpty this then do {
            rl \<leftarrow> fl_range l;
            r \<leftarrow> (if m_ullStart r = m_ullStart rl
                 then do { rh \<leftarrow> fl_range (hd rest); Some (r\<lparr>m_ullStart := m_ullStart rh\<rparr>) }
                 else Some r);
            if m_ullFinish r = m_ullFinish rl then do {
              last \<leftarrow> CFileLockSet_GetLast this;
              last \<leftarrow> last;
              rlast \<leftarrow> fl_range last;
              Some (Some l, this\<lparr>fs_range := Some (r\<lparr>m_ullFinish := m_ullFinish rlast\<rparr>)\<rparr>)
            } else Some (Some l, this\<lparr>fs_range := Some r\<rparr>)
          } else
            Some (Some l, this\<lparr>fs_range := Some (r\<lparr>m_ullStart := CRANGE_MAX_START,
                                                 m_ullFinish := CRANGE_MIN_FINISH\<rparr>)\<rparr>)
        })"

definition CFileLockSet_IsValid :: "cfilelockset \<Rightarrow> bool" where
  "CFileLockSet_IsValid this =
     (case fs_range this of
        None \<Rightarrow> False
      | Some r \<Rightarrow> if \<not> CRange_IsValid r then False
                  else list_all CFileLockList_IsValid (fs_head this))"

section \<open>The invariant of a lock set\<close>

definition list_entries :: "cfilelocklist \<Rightarrow> (DWORD \<times> crange) list" where
  "list_entries l = map (Pair (fl_owner l)) (list_ranges l)"

definition set_entries :: "cfilelockset \<Rightarrow> (DWORD \<times> crange) list" where
  "set_entries s = concat (map list_entries (fs_head s))"

definition set_ranges :: "cfilelockset \<Rightarrow> crange list" where
  "set_ranges s = map snd (set_entries s)"

definition set_owners :: "cfilelockset \<Rightarrow> DWORD set" where
  "set_owners s = fl_owner ` set (fs_head s)"

abbreviation list_start :: "cfilelocklist \<Rightarrow> ULONGLONG" where
  "list_start l \<equiv> m_ullStart (span (list_ranges l))"

text \<open>A list that may be linked into a set.\<close>

definition list_ok :: "cfilelocklist \<Rightarrow> bool" where
  "list_ok l \<longleftrightarrow> list_wf l \<and> fl_head l \<noteq> [] \<and> fl_owner l \<noteq> 0"

definition set_wf :: "cfilelockset \<Rightarrow> bool" where
  "set_wf s \<longleftrightarrow>
     fs_range s = Some (span (set_ranges s)) \<and>
     list_all list_ok (fs_head s) \<and>
     distinct (map fl_owner (fs_head s)) \<and>
     sorted (map list_start (fs_head s))"

lemma map_snd_list_entries [simp]: "map snd (list_entries l) = list_ranges l"
  by (simp add: list_entries_def comp_def)

lemma set_ranges_concat: "set_ranges s = concat (map list_ranges (fs_head s))"
  by (simp add: set_ranges_def set_entries_def map_concat comp_def)

lemma span_concat: "span (concat rss) = span (map span rss)"
  by (induction rss) (simp_all add: span_append)

lemma set_span: "span (set_ranges s) = span (map (\<lambda>l. span (list_ranges l)) (fs_head s))"
  by (simp add: set_ranges_concat span_concat comp_def)

lemma list_okD:
  assumes "list_ok l"
  shows "list_wf l" and "fl_head l \<noteq> []" and "fl_owner l \<noteq> 0" and "list_ranges l \<noteq> []"
    and "fl_range l = Some (span (list_ranges l))" and "CRange_IsValid (span (list_ranges l))"
  using assms span_valid [of "list_ranges l"] list_wfD [of l]
  by (auto simp: list_ok_def list_ranges_def)

lemma set_wfD:
  assumes "set_wf s"
  shows "fs_range s = Some (span (set_ranges s))"
    and "l \<in> set (fs_head s) \<Longrightarrow> list_ok l"
    and "distinct (map fl_owner (fs_head s))" and "sorted (map list_start (fs_head s))"
  using assms by (auto simp: set_wf_def list_all_iff)

lemma set_wf_new: "set_wf (CFileLockSet_new True)" and set_entries_new: "set_entries (CFileLockSet_new b) = []"
  by (simp_all add: set_wf_def CFileLockSet_new_def set_ranges_def set_entries_def)

lemma set_wf_ranges_valid: "set_wf s \<Longrightarrow> r \<in> set (set_ranges s) \<Longrightarrow> CRange_IsValid r"
  using list_okD(1) [OF set_wfD(2)] by (auto simp: set_ranges_concat dest: list_wfD(3))

lemma set_empty_iff: "set_wf s \<Longrightarrow> CFileLockSet_IsEmpty s \<longleftrightarrow> set_entries s = []"
  using list_okD(4) [OF set_wfD(2)]
  by (cases "fs_head s") (auto simp: CFileLockSet_IsEmpty_def set_entries_def list_entries_def)

lemma set_entries_mem:
  "(h, r) \<in> set (set_entries s) \<longleftrightarrow> (\<exists>l \<in> set (fs_head s). fl_owner l = h \<and> r \<in> set (list_ranges l))"
  by (auto simp: set_entries_def list_entries_def)

section \<open>Both conflict tests are exact\<close>

lemma set_conflict_scan_exact:
  "\<forall>l \<in> set ls. list_wf l \<Longrightarrow>
     set_conflict_scan ls t = Some (\<exists>l \<in> set ls. \<exists>r \<in> set (list_ranges l). overlaps r t)"
  by (induction ls) (auto simp: list_conflict_exact)

lemma set_conflict_scan_except_exact:
  "\<forall>l \<in> set ls. list_wf l \<Longrightarrow>
     set_conflict_scan_except ls t h =
       Some (\<exists>l \<in> set ls. fl_owner l \<noteq> h \<and> (\<exists>r \<in> set (list_ranges l). overlaps r t))"
  by (induction ls) (auto simp: list_conflict_exact)

lemma set_lists_wf: "set_wf s \<Longrightarrow> \<forall>l \<in> set (fs_head s). list_wf l"
  using list_okD(1) [OF set_wfD(2)] by blast

lemma set_conflict_exact:
  assumes wf: "set_wf s"
  shows "CFileLockSet_IsConflict s t = Some (\<exists>r \<in> set (set_ranges s). overlaps r t)"
proof (cases "fs_head s = []")
  case True
  then show ?thesis
    by (simp add: CFileLockSet_IsConflict_def CFileLockSet_IsEmpty_def set_ranges_concat)
next
  case False
  have ne: "set_ranges s \<noteq> []"
    using False list_okD(4) [OF set_wfD(2) [OF wf]] by (cases "fs_head s") (auto simp: set_ranges_concat)
  have valid: "\<forall>r \<in> set (set_ranges s). CRange_IsValid r" using set_wf_ranges_valid [OF wf] by blast
  have scan: "set_conflict_scan (fs_head s) t = Some (\<exists>r \<in> set (set_ranges s). overlaps r t)"
    using set_conflict_scan_exact [OF set_lists_wf [OF wf]] by (auto simp: set_ranges_concat)
  note unfold = CFileLockSet_IsConflict_def CFileLockSet_IsEmpty_def set_wfD(1) [OF wf]
  show ?thesis
  proof (cases "CRange_IsConflict (span (set_ranges s)) t")
    case RCT_NOCONFLICT_BEFORE
    then have "\<not> overlaps (span (set_ranges s)) t"
      by (auto dest: IsConflict_BeforeD simp: overlaps_def)
    with RCT_NOCONFLICT_BEFORE False show ?thesis by (auto simp: unfold dest: span_no_overlap)
  next
    case RCT_NOCONFLICT_AFTER
    then have "\<not> overlaps (span (set_ranges s)) t"
      by (auto dest: IsConflict_AfterD simp: overlaps_def)
    with RCT_NOCONFLICT_AFTER False show ?thesis by (auto simp: unfold dest: span_no_overlap)
  next
    case RCT_BOUNDARY
    with span_boundary_hit [OF ne valid] False show ?thesis by (simp add: unfold)
  qed (use False scan in \<open>simp_all add: unfold\<close>)
qed

lemma set_conflict_except_exact:
  assumes wf: "set_wf s"
  shows "CFileLockSet_IsConflictExcept s t h =
    Some (\<exists>(o', r) \<in> set (set_entries s). o' \<noteq> h \<and> overlaps r t)"
proof (cases "fs_head s = []")
  case True
  then show ?thesis
    by (simp add: CFileLockSet_IsConflictExcept_def CFileLockSet_IsEmpty_def set_entries_def)
next
  case False
  have scan: "set_conflict_scan_except (fs_head s) t h =
      Some (\<exists>(o', r) \<in> set (set_entries s). o' \<noteq> h \<and> overlaps r t)"
    using set_conflict_scan_except_exact [OF set_lists_wf [OF wf]] by (fastforce simp: set_entries_mem)
  have prune: "\<not> (\<exists>(o', r) \<in> set (set_entries s). o' \<noteq> h \<and> overlaps r t)"
    if "\<not> overlaps (span (set_ranges s)) t"
  proof clarify
    fix o' r
    assume "(o', r) \<in> set (set_entries s)" and "overlaps r t"
    then have "r \<in> set (set_ranges s)" by (force simp: set_ranges_def)
    with span_no_overlap [OF that] \<open>overlaps r t\<close> show False by blast
  qed
  note unfold = CFileLockSet_IsConflictExcept_def CFileLockSet_IsEmpty_def set_wfD(1) [OF wf]
  show ?thesis
  proof (cases "CRange_IsConflict (span (set_ranges s)) t")
    case RCT_NOCONFLICT_BEFORE
    then have "\<not> overlaps (span (set_ranges s)) t"
      by (auto dest: IsConflict_BeforeD simp: overlaps_def)
    from prune [OF this] RCT_NOCONFLICT_BEFORE False show ?thesis by (simp add: unfold)
  next
    case RCT_NOCONFLICT_AFTER
    then have "\<not> overlaps (span (set_ranges s)) t"
      by (auto dest: IsConflict_AfterD simp: overlaps_def)
    from prune [OF this] RCT_NOCONFLICT_AFTER False show ?thesis by (simp add: unfold)
  qed (use False scan in \<open>simp_all add: unfold\<close>)
qed

section \<open>Insert\<close>

lemma set_insert_scan_run:
  assumes "fl_range l = Some (span (list_ranges l))" and "\<forall>y \<in> set ys. list_ok y"
  shows "set_insert_scan l ys = Some (insert_at_key list_start l ys)"
  using assms(2)
proof (induction ys)
  case Nil
  then show ?case by simp
next
  case (Cons y ys)
  then have "fl_range y = Some (span (list_ranges y))" by (simp add: list_okD(5))
  with Cons assms(1) show ?case by simp
qed

lemma set_insert_spec:
  assumes wf: "set_wf s" and l: "list_ok l" and new: "fl_owner l \<notin> set_owners s"
  obtains s' where "CFileLockSet_Insert s l = Some s'" and "set_wf s'"
    and "mset (set_entries s') = mset (set_entries s) + mset (list_entries l)"
    and "set_owners s' = insert (fl_owner l) (set_owners s)"
proof -
  let ?hd = "insert_at_key list_start l (fs_head s)"
  let ?s = "s\<lparr>fs_range := Some (hull (span (list_ranges l)) (span (set_ranges s))), fs_head := ?hd\<rparr>"
  note lr = list_okD(5) [OF l]
  have run: "CFileLockSet_Insert s l = Some ?s"
    using set_insert_scan_run [OF lr, of "fs_head s"] set_wfD(2) [OF wf]
    by (cases "fs_head s") (simp_all add: CFileLockSet_Insert_def set_wfD(1) [OF wf] lr
        CFileLockSet_IsEmpty_def widen_range_hull Let_def)
  have ms: "mset (set_entries ?s) = mset (set_entries s) + mset (list_entries l)"
    by (simp add: set_entries_def mset_concat_image)
  then have "mset (set_ranges ?s) = mset (list_ranges l @ set_ranges s)"
    using arg_cong [OF ms, of "image_mset snd"]
    by (simp add: set_ranges_def flip: map_snd_list_entries)
  then have "span (set_ranges ?s) = hull (span (list_ranges l)) (span (set_ranges s))"
    using span_cong_mset span_append by metis
  moreover have "list_all list_ok ?hd"
    using set_wfD(2) [OF wf] l by (auto simp: list_all_iff)
  moreover have "distinct (map fl_owner ?hd)"
  proof -
    have "mset (map fl_owner ?hd) = mset (fl_owner l # map fl_owner (fs_head s))" by simp
    then have "distinct (map fl_owner ?hd) = distinct (fl_owner l # map fl_owner (fs_head s))"
      by (rule mset_eq_imp_distinct_iff)
    with new set_wfD(3) [OF wf] show ?thesis by (simp add: set_owners_def)
  qed
  moreover have "sorted (map list_start ?hd)"
    using sorted_insert_at_key [OF set_wfD(4) [OF wf]] .
  ultimately have "set_wf ?s" by (simp add: set_wf_def)
  then show ?thesis
    by (rule that [OF run _ ms]) (simp add: set_owners_def)
qed

section \<open>Remove\<close>

lemma set_GetLast_finish:
  assumes "fs_head s \<noteq> []" and ok: "\<forall>l \<in> set (fs_head s). list_ok l"
  shows "\<exists>l \<in> set (fs_head s). CFileLockSet_GetLast s = Some (Some l) \<and>
    m_ullFinish (span (list_ranges l)) = m_ullFinish (span (set_ranges s))"
proof -
  let ?key = "\<lambda>l. m_ullFinish (the (fl_range l))"
  let ?l = "max_by_key ?key 0 (hd (fs_head s)) (fs_head s)"
  have key: "?key l = m_ullFinish (span (list_ranges l))" if "l \<in> set (fs_head s)" for l
    using ok that by (simp add: list_okD(5))
  note mx = max_by_key_zero [OF assms(1), of ?key]
  then have mem: "?l \<in> set (fs_head s)" by blast
  have "m_ullFinish (span (set_ranges s)) = m_ullFinish (span (list_ranges ?l))"
    unfolding set_span
  proof (rule span_finish_eqI)
    show "span (list_ranges ?l) \<in> set (map (\<lambda>l. span (list_ranges l)) (fs_head s))"
      using mem by simp
  next
    fix q
    assume "q \<in> set (map (\<lambda>l. span (list_ranges l)) (fs_head s))"
    then obtain l where l: "l \<in> set (fs_head s)" "q = span (list_ranges l)" by auto
    from mx l(1) have "?key l \<le> ?key ?l" by blast
    then show "m_ullFinish q \<le> m_ullFinish (span (list_ranges ?l))"
      by (simp only: key [OF l(1)] key [OF mem] l(2))
  qed
  moreover have "list_all (\<lambda>l. fl_range l \<noteq> None) (fs_head s)"
    using ok by (auto simp: list_all_iff dest: list_okD(5))
  then have "CFileLockSet_GetLast s = Some (Some ?l)"
    using assms(1) by (cases "fs_head s") (auto simp: CFileLockSet_GetLast_def)
  ultimately show ?thesis using mem by metis
qed

lemma set_remove_absent:
  assumes "h \<notin> set_owners s"
  shows "CFileLockSet_Remove s h = Some (None, s)"
proof -
  have "remove_first (\<lambda>l. h = fl_owner l) (fs_head s) = None"
    using assms by (auto simp: remove_first_None set_owners_def)
  then show ?thesis by (simp add: CFileLockSet_Remove_def)
qed

lemma set_remove_present:
  assumes wf: "set_wf s" and h: "h \<in> set_owners s"
  obtains l s' where "CFileLockSet_Remove s h = Some (Some l, s')" and "set_wf s'"
    and "list_ok l" and "fl_owner l = h"
    and "mset (set_entries s) = mset (list_entries l) + mset (set_entries s')"
    and "set_owners s = insert h (set_owners s')" and "h \<notin> set_owners s'"
proof -
  let ?p = "\<lambda>l. h = fl_owner l"
  obtain l rest where rf: "remove_first ?p (fs_head s) = Some (l, rest)"
    using h remove_first_None [of ?p "fs_head s"]
    by (cases "remove_first ?p (fs_head s)") (auto simp: set_owners_def)
  have pl: "fl_owner l = h" and ms: "mset (fs_head s) = add_mset l (mset rest)"
    using remove_first_Some [OF rf] by auto
  have sub: "set (fs_head s) = insert l (set rest)"
    using mset_eq_setD [of "fs_head s" "l # rest"] ms by simp
  have ok: "list_ok l" and rest_ok: "\<forall>y \<in> set rest. list_ok y"
    using set_wfD(2) [OF wf] sub by auto
  have dist: "distinct (fl_owner l # map fl_owner rest)"
    using set_wfD(3) [OF wf] mset_eq_imp_distinct_iff
      [of "map fl_owner (fs_head s)" "fl_owner l # map fl_owner rest"] ms by simp
  have srt: "sorted (map list_start rest)"
    using remove_first_sorted [OF rf set_wfD(4) [OF wf]] .
  have ne: "fs_head s \<noteq> []" using rf by auto
  let ?rest = "s\<lparr>fs_head := rest\<rparr>"
  let ?s = "?rest\<lparr>fs_range := Some (span (set_ranges ?rest))\<rparr>"
  have rs: "set_ranges ?s = set_ranges ?rest" by (simp add: set_ranges_concat)
  have wf': "set_wf ?s"
    using rest_ok dist srt rs by (simp add: set_wf_def list_all_iff)
  let ?spans = "map (\<lambda>l. span (list_ranges l))"
  have msr: "mset (?spans (fs_head s)) = add_mset (span (list_ranges l)) (mset (?spans rest))"
    using arg_cong [OF ms, of "image_mset (\<lambda>l. span (list_ranges l))"] by simp
  have spans: "span (?spans (fs_head s)) = span (set_ranges s)"
    "span (?spans rest) = span (set_ranges ?rest)"
    using set_span [of s] set_span [of ?rest] by simp_all
  have run: "CFileLockSet_Remove s h = Some (Some l, ?s)"
  proof (cases "rest = []")
    case True
    then show ?thesis
      using rf ne by (simp add: CFileLockSet_Remove_def CFileLockSet_IsEmpty_def
          set_wfD(1) [OF wf] CRange_new_def Let_def set_ranges_concat)
  next
    case False
    have head_ok: "fl_range (hd rest) = Some (span (list_ranges (hd rest)))"
      using rest_ok False by (intro list_okD(5)) simp
    have first: "m_ullStart (span (?spans rest)) = list_start (hd rest)"
      using span_sorted_start [of "?spans rest"] False srt by (simp add: comp_def hd_map)
    have keep: "m_ullStart (span (?spans (fs_head s))) = list_start (hd rest)"
      if "m_ullStart (span (?spans (fs_head s))) \<noteq> m_ullStart (span (list_ranges l))"
    proof -
      have hd: "m_ullStart (span (?spans (fs_head s))) = list_start (hd (fs_head s))"
        using span_sorted_start [of "?spans (fs_head s)"] ne set_wfD(4) [OF wf]
        by (simp add: comp_def hd_map)
      with that have "l \<noteq> hd (fs_head s)" by auto
      with remove_first_hd [OF rf] ne hd show ?thesis by simp
    qed
    note upd = span_after_removal [OF msr first keep, unfolded spans]
    obtain last where last: "last \<in> set rest" "CFileLockSet_GetLast ?rest = Some (Some last)"
      "m_ullFinish (span (list_ranges last)) = m_ullFinish (span (set_ranges ?rest))"
      using set_GetLast_finish [of ?rest] False rest_ok by auto
    have lastr: "fl_range last = Some (span (list_ranges last))"
      using rest_ok last(1) by (intro list_okD(5)) simp
    show ?thesis
      using rf ne False last(2,3) lastr upd head_ok
      by (simp add: CFileLockSet_Remove_def CFileLockSet_IsEmpty_def set_wfD(1) [OF wf]
          list_okD(5) [OF ok] Let_def)
  qed
  have ent: "mset (set_entries s) = mset (list_entries l) + mset (set_entries ?s)"
    by (simp add: set_entries_def mset_concat_image ms)
  show ?thesis
    by (rule that [OF run wf' ok pl ent]) (use sub pl dist in \<open>auto simp: set_owners_def\<close>)
qed

text \<open>The removed list holds exactly the owner's entries.\<close>

lemma set_remove_entries:
  assumes ent: "mset (set_entries s) = mset (list_entries l) + mset (set_entries s')"
    and l: "fl_owner l = h" and h: "h \<notin> set_owners s'"
  shows "mset (list_entries l) = filter_mset (\<lambda>(o', _). o' = h) (mset (set_entries s))"
    and "mset (set_entries s') = filter_mset (\<lambda>(o', _). o' \<noteq> h) (mset (set_entries s))"
proof -
  have own: "\<forall>(o', r) \<in> set (list_entries l). o' = h" using l by (auto simp: list_entries_def)
  have oth: "\<forall>(o', r) \<in> set (set_entries s'). o' \<noteq> h"
    using h by (auto simp: set_entries_mem set_owners_def)
  from own oth show "mset (list_entries l) = filter_mset (\<lambda>(o', _). o' = h) (mset (set_entries s))"
    unfolding ent by (auto simp: filter_mset_eq_conv intro!: union_filter_mset_complement)
      (auto simp: multiset_eq_iff)
  show "mset (set_entries s') = filter_mset (\<lambda>(o', _). o' \<noteq> h) (mset (set_entries s))"
    unfolding ent using own oth by (auto simp: multiset_eq_iff)
qed

lemma set_owners_entries: "set_wf s \<Longrightarrow> set_owners s = fst ` set (set_entries s)"
proof
  assume wf: "set_wf s"
  show "set_owners s \<subseteq> fst ` set (set_entries s)"
  proof
    fix h
    assume "h \<in> set_owners s"
    then obtain l where l: "l \<in> set (fs_head s)" "fl_owner l = h" by (auto simp: set_owners_def)
    with list_okD(4) [OF set_wfD(2) [OF wf l(1)]] obtain r where "r \<in> set (list_ranges l)"
      by (cases "list_ranges l") auto
    with l have "(h, r) \<in> set (set_entries s)" by (auto simp: set_entries_mem)
    then show "h \<in> fst ` set (set_entries s)" by force
  qed
qed (auto simp: set_entries_mem set_owners_def)

section \<open>The set provides the contract\<close>

interpretation lock_set: range_store set_wf set_ranges CFileLockSet_IsEmpty
  CFileLockSet_IsConflict CFileLockSet_Insert
  "\<lambda>s l. list_ok l \<and> fl_owner l \<notin> set_owners s" list_ranges
proof unfold_locales
  fix s l
  assume wf: "set_wf s" and l: "list_ok l \<and> fl_owner l \<notin> set_owners s"
  obtain s' where "CFileLockSet_Insert s l = Some s'" "set_wf s'"
    and ent: "mset (set_entries s') = mset (set_entries s) + mset (list_entries l)"
    using set_insert_spec [OF wf] l by metis
  moreover from arg_cong [OF ent, of "image_mset snd"]
  have "mset (set_ranges s') = mset (set_ranges s) + mset (list_ranges l)"
    by (simp add: set_ranges_def flip: map_snd_list_entries)
  ultimately show "\<exists>s'. CFileLockSet_Insert s l = Some s' \<and> set_wf s' \<and>
      mset (set_ranges s') = mset (set_ranges s) + mset (list_ranges l)" by blast
qed (auto simp: set_empty_iff set_ranges_def set_conflict_exact [unfolded set_ranges_def]
    set_wf_ranges_valid [unfolded set_ranges_def])

lemma set_wf_IsValid:
  assumes wf: "set_wf s" and ne: "fs_head s \<noteq> []"
  shows "CFileLockSet_IsValid s"
proof -
  have "set_ranges s \<noteq> []"
    using ne set_empty_iff [OF wf] by (simp add: CFileLockSet_IsEmpty_def set_ranges_def)
  then have "CRange_IsValid (span (set_ranges s))"
    by (rule span_valid) (use set_wf_ranges_valid [OF wf] in blast)
  moreover have "list_all CFileLockList_IsValid (fs_head s)"
    using set_wfD(2) [OF wf] by (auto simp: list_all_iff list_ok_def intro: list_wf_IsValid)
  ultimately show ?thesis by (simp add: CFileLockSet_IsValid_def set_wfD(1) [OF wf])
qed

end
