(* ===== verification/Lock_Api.thy ===== *)
theory Lock_Api
  imports Lock_Set
begin

text \<open>
  The lock container of a file (\<open>LOCKMGR/lockcol.hpp\<close>, \<open>lockcol.cpp\<close>) and the functions on
  it that the rest of the storage manager calls (\<open>lockmgrapi.cpp\<close>).  A container holds one
  set of exclusive and one set of shared locks, each created on demand.  A \<open>PVOID\<close> to a
  container is an option (null); \<open>lpOverlapped\<close> is an option of its two offset words.  The
  outcome of each \<open>new\<close> in \<open>LXX_Lock\<close> is an argument, so that every out-of-memory exit is a
  branch.  A result \<open>None\<close> is a null dereference.

  The abstraction of a container is the multiset of its (mode, owner, range) entries.  The
  lemmas say what each function does to it, on every exit.
\<close>

section \<open>The container\<close>

record cfilelockcollection =
  fc_signature :: DWORD
  fc_exclusive :: "cfilelockset option"
  fc_shared :: "cfilelockset option"

definition SIG :: DWORD where
  "SIG = 0xDEADBEEF"

definition CFileLockCollection_new :: cfilelockcollection where
  "CFileLockCollection_new = \<lparr>fc_signature = SIG, fc_exclusive = None, fc_shared = None\<rparr>"

definition CFileLockCollection_IsEmpty :: "cfilelockcollection \<Rightarrow> bool" where
  "CFileLockCollection_IsEmpty this =
     (if (case fc_exclusive this of Some s \<Rightarrow> \<not> CFileLockSet_IsEmpty s | None \<Rightarrow> False) then False
      else if (case fc_shared this of Some s \<Rightarrow> \<not> CFileLockSet_IsEmpty s | None \<Rightarrow> False) then False
      else True)"

definition CFileLockCollection_IsValid :: "cfilelockcollection \<Rightarrow> bool" where
  "CFileLockCollection_IsValid this =
     (if (case fc_exclusive this of Some s \<Rightarrow> \<not> CFileLockSet_IsValid s | None \<Rightarrow> False) then False
      else if (case fc_shared this of Some s \<Rightarrow> \<not> CFileLockSet_IsValid s | None \<Rightarrow> False) then False
      else True)"

text \<open>Windows' values of the two \<open>LockFileEx\<close> flags.\<close>

definition LOCKFILE_FAIL_IMMEDIATELY :: DWORD where "LOCKFILE_FAIL_IMMEDIATELY = 1"
definition LOCKFILE_EXCLUSIVE_LOCK :: DWORD where "LOCKFILE_EXCLUSIVE_LOCK = 2"

datatype LOCKRESULT = LR_ERROR | LR_SUCCESS | LR_CONFLICT

definition LXX_CreateLockContainer :: "bool \<Rightarrow> cfilelockcollection option" where
  "LXX_CreateLockContainer new_ok = (if new_ok then Some CFileLockCollection_new else None)"

text \<open>
  Destroying returns whether the container was deleted: a null pointer and a bad signature
  are left alone.
\<close>

definition LXX_DestroyLockContainer :: "cfilelockcollection option \<Rightarrow> bool" where
  "LXX_DestroyLockContainer pv =
     (case pv of None \<Rightarrow> False | Some col \<Rightarrow> \<not> SIG \<noteq> fc_signature col)"

definition LXX_IsLockContainerEmpty :: "cfilelockcollection option \<Rightarrow> bool" where
  "LXX_IsLockContainerEmpty pv =
     (case pv of
        None \<Rightarrow> True
      | Some col \<Rightarrow> if SIG \<noteq> fc_signature col then False else CFileLockCollection_IsEmpty col)"

section \<open>Locking\<close>

record lock_alloc =
  la_range :: bool
  la_set :: bool
  la_set_range :: bool
  la_list :: bool
  la_list_range :: bool
  la_lock :: bool

text \<open>The conflict tests of \<open>LXX_Lock\<close>: exclusive locks block everybody, shared locks block exclusive requests.\<close>

definition LXX_Lock_conflict :: "cfilelockcollection \<Rightarrow> DWORD \<Rightarrow> crange \<Rightarrow> bool option" where
  "LXX_Lock_conflict col dwFlags r = do {
     ex \<leftarrow> (case fc_exclusive col of None \<Rightarrow> Some False | Some s \<Rightarrow> CFileLockSet_IsConflict s r);
     if ex then Some True
     else (case fc_shared col of
             None \<Rightarrow> Some False
           | Some s \<Rightarrow> if dwFlags AND LOCKFILE_EXCLUSIVE_LOCK \<noteq> 0
                       then CFileLockSet_IsConflict s r else Some False)
   }"

definition get_set :: "cfilelockcollection \<Rightarrow> DWORD \<Rightarrow> cfilelockset option" where
  "get_set col dwFlags =
     (if dwFlags AND LOCKFILE_EXCLUSIVE_LOCK \<noteq> 0 then fc_exclusive col else fc_shared col)"

definition put_set ::
    "cfilelockcollection \<Rightarrow> DWORD \<Rightarrow> cfilelockset option \<Rightarrow> cfilelockcollection" where
  "put_set col dwFlags s =
     (if dwFlags AND LOCKFILE_EXCLUSIVE_LOCK \<noteq> 0 then col\<lparr>fc_exclusive := s\<rparr> else col\<lparr>fc_shared := s\<rparr>)"

text \<open>
  The second half of \<open>LXX_Lock\<close>, after the conflict tests.  \<open>dset\<close> is the undo flag
  \<open>DSET\<close>: a set created by this call is deleted again on failure.  A list that was
  \<^emph>\<open>taken out\<close> of an existing set is not put back when the allocation of the lock fails.
\<close>

definition LXX_Lock_install ::
    "cfilelockcollection \<Rightarrow> DWORD \<Rightarrow> DWORD \<Rightarrow> crange \<Rightarrow> lock_alloc
     \<Rightarrow> (LOCKRESULT \<times> cfilelockcollection) option" where
  "LXX_Lock_install col dwFile dwFlags r al =
     (case (case get_set col dwFlags of
              Some s \<Rightarrow> Some (s, False)
            | None \<Rightarrow> if la_set al then Some (CFileLockSet_new (la_set_range al), True) else None) of
        None \<Rightarrow> Some (LR_ERROR, col)
      | Some (s, dset) \<Rightarrow> do {
          (ol, s) \<leftarrow> CFileLockSet_Remove s dwFile;
          (case (case ol of
                   Some l \<Rightarrow> Some l
                 | None \<Rightarrow> if \<not> la_list al then None
                           else if fl_range (CFileLockList_new (la_list_range al)) = None then None
                           else Some ((CFileLockList_new (la_list_range al))\<lparr>fl_owner := dwFile\<rparr>)) of
             None \<Rightarrow> Some (LR_ERROR, put_set col dwFlags (if dset then None else Some s))
           | Some l \<Rightarrow>
               if \<not> la_lock al
               then Some (LR_ERROR, put_set col dwFlags (if dset then None else Some s))
               else do {
                 l \<leftarrow> CFileLockList_Insert l \<lparr>flk_range = r\<rparr>;
                 s \<leftarrow> CFileLockSet_Insert s l;
                 Some (LR_SUCCESS, put_set col dwFlags (Some s))
               })
        })"

definition LXX_Lock ::
    "cfilelockcollection option \<Rightarrow> DWORD \<Rightarrow> DWORD \<Rightarrow> DWORD \<Rightarrow> DWORD \<Rightarrow> DWORD
     \<Rightarrow> (DWORD \<times> DWORD) option \<Rightarrow> lock_alloc
     \<Rightarrow> (LOCKRESULT \<times> cfilelockcollection option) option" where
  "LXX_Lock pv dwFile dwFlags dwReserved nLow nHigh lpOverlapped al =
     (case pv of
        None \<Rightarrow> Some (LR_ERROR, None)
      | Some col \<Rightarrow>
          if dwFile = 0 then Some (LR_ERROR, Some col)
          else case lpOverlapped of
            None \<Rightarrow> Some (LR_ERROR, Some col)
          | Some (off, offHigh) \<Rightarrow>
              if nLow = 0 \<and> nHigh = 0 then Some (LR_ERROR, Some col)
              else if SIG \<noteq> fc_signature col then Some (LR_ERROR, Some col)
              else if \<not> la_range al then Some (LR_ERROR, Some col)
              else let r = make_range off offHigh nLow nHigh in
                if \<not> CRange_IsValid r then Some (LR_ERROR, Some col)
                else do {
                  b \<leftarrow> LXX_Lock_conflict col dwFlags r;
                  if b then
                    (if dwFlags AND LOCKFILE_FAIL_IMMEDIATELY \<noteq> 0 then Some (LR_ERROR, Some col)
                     else Some (LR_CONFLICT, Some col))
                  else do {
                    (lr, col) \<leftarrow> LXX_Lock_install col dwFile dwFlags r al;
                    Some (lr, Some col)
                  }
                })"

section \<open>Unlocking\<close>

definition RemoveLock :: "cfilelockset \<Rightarrow> DWORD \<Rightarrow> crange \<Rightarrow> (bool \<times> cfilelockset) option" where
  "RemoveLock s hOwner r = do {
     (ol, s) \<leftarrow> CFileLockSet_Remove s hOwner;
     (case ol of
        None \<Rightarrow> Some (False, s)
      | Some l \<Rightarrow> do {
          (ok, l) \<leftarrow> CFileLockList_Remove l r;
          if ok \<noteq> None \<and> CFileLockList_IsEmpty l then Some (True, s)
          else do { s \<leftarrow> CFileLockSet_Insert s l; Some (ok \<noteq> None, s) }
        })
   }"

text \<open>Trying one set: an emptied set is deleted.  The flag says whether the lock was found.\<close>

definition unlock_in_set ::
    "cfilelockset option \<Rightarrow> DWORD \<Rightarrow> crange \<Rightarrow> (bool \<times> cfilelockset option) option" where
  "unlock_in_set os h r =
     (case os of
        None \<Rightarrow> Some (False, None)
      | Some s \<Rightarrow> do {
          (found, s) \<leftarrow> RemoveLock s h r;
          Some (found, if found \<and> CFileLockSet_IsEmpty s then None else Some s)
        })"

definition LXX_Unlock ::
    "cfilelockcollection option \<Rightarrow> DWORD \<Rightarrow> DWORD \<Rightarrow> DWORD \<Rightarrow> DWORD \<Rightarrow> (DWORD \<times> DWORD) option
     \<Rightarrow> (bool \<times> cfilelockcollection option) option" where
  "LXX_Unlock pv dwFile dwReserved nLow nHigh lpOverlapped =
     (case pv of
        None \<Rightarrow> Some (False, None)
      | Some col \<Rightarrow>
          if dwFile = 0 then Some (False, Some col)
          else case lpOverlapped of
            None \<Rightarrow> Some (False, Some col)
          | Some (off, offHigh) \<Rightarrow>
              if nLow = 0 \<and> nHigh = 0 then Some (False, Some col)
              else if SIG \<noteq> fc_signature col then Some (False, Some col)
              else let r = make_range off offHigh nLow nHigh in
                if \<not> CRange_IsValid r then Some (False, Some col)
                else if CFileLockCollection_IsEmpty col then Some (False, Some col)
                else do {
                  (found, ex) \<leftarrow> unlock_in_set (fc_exclusive col) dwFile r;
                  let col = col\<lparr>fc_exclusive := ex\<rparr>;
                  if found then Some (True, Some col)
                  else do {
                    (found, sh) \<leftarrow> unlock_in_set (fc_shared col) dwFile r;
                    Some (found, Some (col\<lparr>fc_shared := sh\<rparr>))
                  }
                })"

definition unlock_owner_in_set :: "cfilelockset option \<Rightarrow> DWORD \<Rightarrow> cfilelockset option option" where
  "unlock_owner_in_set os h =
     (case os of
        None \<Rightarrow> Some None
      | Some s \<Rightarrow> do {
          (ol, s) \<leftarrow> CFileLockSet_Remove s h;
          Some (if ol \<noteq> None \<and> CFileLockSet_IsEmpty s then None else Some s)
        })"

definition LXX_UnlockLocksOwnedByHandle ::
    "cfilelockcollection option \<Rightarrow> DWORD \<Rightarrow> (bool \<times> cfilelockcollection option) option" where
  "LXX_UnlockLocksOwnedByHandle pv dwFile =
     (if dwFile = 0 then Some (False, pv)
      else case pv of
        None \<Rightarrow> Some (False, None)
      | Some col \<Rightarrow>
          if SIG \<noteq> fc_signature col then Some (False, Some col)
          else do {
            ex \<leftarrow> unlock_owner_in_set (fc_exclusive col) dwFile;
            let col = col\<lparr>fc_exclusive := ex\<rparr>;
            sh \<leftarrow> unlock_owner_in_set (fc_shared col) dwFile;
            Some (True, Some (col\<lparr>fc_shared := sh\<rparr>))
          })"

section \<open>Authorizing reads and writes\<close>

definition LXX_AuthorizeAccess ::
    "cfilelockcollection option \<Rightarrow> DWORD \<Rightarrow> bool \<Rightarrow> DWORD \<Rightarrow> DWORD \<Rightarrow> DWORD \<Rightarrow> bool option" where
  "LXX_AuthorizeAccess pv dwFile fRead posLow posHigh nBytes =
     (if dwFile = 0 then Some False
      else case pv of
        None \<Rightarrow> Some False
      | Some col \<Rightarrow>
          if SIG \<noteq> fc_signature col then Some False
          else let r = make_range posLow posHigh nBytes 0 in
            if \<not> CRange_IsValid r then Some False
            else do {
              ex \<leftarrow> (case fc_exclusive col of
                       None \<Rightarrow> Some False
                     | Some s \<Rightarrow> CFileLockSet_IsConflictExcept s r dwFile);
              if ex then Some False
              else if fRead then Some True
              else do {
                sh \<leftarrow> (case fc_shared col of None \<Rightarrow> Some False | Some s \<Rightarrow> CFileLockSet_IsConflict s r);
                Some (\<not> sh)
              }
            })"

section \<open>Entries of optional sets\<close>

definition opt_wf :: "cfilelockset option \<Rightarrow> bool" where
  "opt_wf os = (case os of None \<Rightarrow> True | Some s \<Rightarrow> set_wf s)"

definition opt_entries :: "cfilelockset option \<Rightarrow> (DWORD \<times> crange) multiset" where
  "opt_entries os = (case os of None \<Rightarrow> {#} | Some s \<Rightarrow> mset (set_entries s))"

lemma opt_simps [simp]:
  "opt_wf None" "opt_wf (Some s) = set_wf s"
  "opt_entries None = {#}" "opt_entries (Some s) = mset (set_entries s)"
  by (simp_all add: opt_wf_def opt_entries_def)

lemma IsEqualTo_eq [simp]: "CRange_IsEqualTo a b \<longleftrightarrow> a = b"
  by (auto simp: CRange_IsEqualTo_def intro: crange_eqI)

lemma mset_list_entries: "mset (list_entries l) = image_mset (Pair (fl_owner l)) (mset (list_ranges l))"
  by (simp add: list_entries_def)

lemma RemoveLock_spec:
  assumes wf: "set_wf s"
  obtains s' where "RemoveLock s h r = Some ((h, r) \<in> set (set_entries s), s')" and "set_wf s'"
    and "mset (set_entries s') = mset (set_entries s) - {#(h, r)#}"
proof (cases "h \<in> set_owners s")
  case False
  then have notin: "(h, r) \<notin> set (set_entries s)" by (auto simp: set_entries_mem set_owners_def)
  then have "mset (set_entries s) - {#(h, r)#} = mset (set_entries s)"
    by (simp add: diff_single_trivial)
  with notin that [of s] wf show ?thesis
    by (simp add: RemoveLock_def set_remove_absent [OF False])
next
  case True
  obtain l s1 where rm: "CFileLockSet_Remove s h = Some (Some l, s1)" and wf1: "set_wf s1"
    and ok: "list_ok l" and own: "fl_owner l = h"
    and ent: "mset (set_entries s) = mset (list_entries l) + mset (set_entries s1)"
    and fresh: "h \<notin> set_owners s1"
    using set_remove_present [OF wf True] by metis
  have other: "(h, r) \<notin># mset (set_entries s1)"
    using fresh by (auto simp: set_entries_mem set_owners_def)
  have mem: "(h, r) \<in> set (set_entries s) \<longleftrightarrow> r \<in> set (list_ranges l)"
    using other own arg_cong [OF ent, of set_mset] by (auto simp: list_entries_def)
  show ?thesis
  proof (cases "r \<in> set (list_ranges l)")
    case False
    obtain s2 where ins: "CFileLockSet_Insert s1 l = Some s2" and wf2: "set_wf s2"
      and ent2: "mset (set_entries s2) = mset (set_entries s1) + mset (list_entries l)"
      using set_insert_spec [OF wf1 ok] fresh own by metis
    have "CFileLockList_Remove l r = Some (None, l)"
      using False by (intro list_remove_absent) auto
    with rm ins False mem have "RemoveLock s h r = Some ((h, r) \<in> set (set_entries s), s2)"
      by (simp add: RemoveLock_def)
    moreover have "mset (set_entries s2) = mset (set_entries s) - {#(h, r)#}"
      using ent ent2 mem False by (simp add: diff_single_trivial flip: set_mset_mset)
    ultimately show ?thesis using that wf2 by blast
  next
    case True
    obtain k l' where lrm: "CFileLockList_Remove l r = Some (Some k, l')" and wf': "list_wf l'"
      and k: "flk_range k = r" and msl: "mset (list_ranges l) = add_mset r (mset (list_ranges l'))"
      and own': "fl_owner l' = h"
      using list_remove_present [OF list_okD(1) [OF ok], of r] True own by (metis IsEqualTo_eq)
    have ent': "mset (set_entries s) - {#(h, r)#} = mset (list_entries l') + mset (set_entries s1)"
      using ent own own' msl by (simp add: mset_list_entries)
    show ?thesis
    proof (cases "CFileLockList_IsEmpty l'")
      case empty: True
      then have "list_entries l' = []"
        by (simp add: CFileLockList_IsEmpty_def list_entries_def list_ranges_def)
      with ent' have "mset (set_entries s1) = mset (set_entries s) - {#(h, r)#}" by simp
      moreover have "RemoveLock s h r = Some ((h, r) \<in> set (set_entries s), s1)"
        using rm lrm empty mem True by (simp add: RemoveLock_def)
      ultimately show ?thesis using that wf1 by blast
    next
      case nonempty: False
      have ok': "list_ok l'"
        using wf' own' own ok nonempty by (simp add: list_ok_def CFileLockList_IsEmpty_def)
      obtain s2 where ins: "CFileLockSet_Insert s1 l' = Some s2" and wf2: "set_wf s2"
        and ent2: "mset (set_entries s2) = mset (set_entries s1) + mset (list_entries l')"
        using set_insert_spec [OF wf1 ok'] fresh own' by metis
      have "RemoveLock s h r = Some ((h, r) \<in> set (set_entries s), s2)"
        using rm lrm ins nonempty mem True by (simp add: RemoveLock_def)
      moreover have "mset (set_entries s2) = mset (set_entries s) - {#(h, r)#}"
        using ent2 ent' by simp
      ultimately show ?thesis using that wf2 by blast
    qed
  qed
qed

lemma unlock_in_set_spec:
  assumes "opt_wf os"
  obtains os' where "unlock_in_set os h r = Some ((h, r) \<in># opt_entries os, os')" and "opt_wf os'"
    and "opt_entries os' = opt_entries os - {#(h, r)#}"
proof (cases os)
  case None
  then show ?thesis using that [of None] by (simp add: unlock_in_set_def)
next
  case (Some s)
  with assms have wf: "set_wf s" by simp
  obtain s' where rl: "RemoveLock s h r = Some ((h, r) \<in> set (set_entries s), s')" and wf': "set_wf s'"
    and ent: "mset (set_entries s') = mset (set_entries s) - {#(h, r)#}"
    using RemoveLock_spec [OF wf] by metis
  show ?thesis
  proof (cases "(h, r) \<in> set (set_entries s) \<and> CFileLockSet_IsEmpty s'")
    case True
    then have "set_entries s' = []" using set_empty_iff [OF wf'] by simp
    with ent True rl Some that [of None] show ?thesis by (simp add: unlock_in_set_def)
  next
    case False
    with ent rl Some wf' that [of "Some s'"] show ?thesis by (auto simp: unlock_in_set_def)
  qed
qed

lemma unlock_owner_in_set_spec:
  assumes "opt_wf os"
  obtains os' where "unlock_owner_in_set os h = Some os'" and "opt_wf os'"
    and "opt_entries os' = filter_mset (\<lambda>(o', _). o' \<noteq> h) (opt_entries os)"
proof (cases os)
  case None
  then show ?thesis using that [of None] by (simp add: unlock_owner_in_set_def)
next
  case (Some s)
  with assms have wf: "set_wf s" by simp
  show ?thesis
  proof (cases "h \<in> set_owners s")
    case False
    then have "filter_mset (\<lambda>(o', _). o' \<noteq> h) (mset (set_entries s)) = mset (set_entries s)"
      by (auto simp: filter_mset_eq_conv set_entries_mem set_owners_def)
    with Some wf that [of "Some s"] show ?thesis
      by (simp add: unlock_owner_in_set_def set_remove_absent [OF False])
  next
    case True
    obtain l s' where rm: "CFileLockSet_Remove s h = Some (Some l, s')" and wf': "set_wf s'"
      and own: "fl_owner l = h"
      and ent: "mset (set_entries s) = mset (list_entries l) + mset (set_entries s')"
      and fresh: "h \<notin> set_owners s'"
      using set_remove_present [OF wf True] by metis
    note ent' = set_remove_entries(2) [OF ent own fresh]
    show ?thesis
    proof (cases "CFileLockSet_IsEmpty s'")
      case True
      then have "set_entries s' = []" using set_empty_iff [OF wf'] by simp
      with ent' True rm Some that [of None] show ?thesis by (simp add: unlock_owner_in_set_def)
    next
      case False
      with ent' rm Some wf' that [of "Some s'"] show ?thesis by (simp add: unlock_owner_in_set_def)
    qed
  qed
qed

section \<open>The invariant and the abstraction of a container\<close>

datatype lockmode = Shared | Exclusive

definition mode_of :: "DWORD \<Rightarrow> lockmode" where
  "mode_of dwFlags = (if dwFlags AND LOCKFILE_EXCLUSIVE_LOCK \<noteq> 0 then Exclusive else Shared)"

definition col_entries :: "cfilelockcollection \<Rightarrow> (lockmode \<times> DWORD \<times> crange) multiset" where
  "col_entries col = image_mset (Pair Exclusive) (opt_entries (fc_exclusive col)) +
                     image_mset (Pair Shared) (opt_entries (fc_shared col))"

text \<open>Two entries may coexist unless they overlap and one of them is exclusive.\<close>

definition compatible :: "lockmode \<times> DWORD \<times> crange \<Rightarrow> lockmode \<times> DWORD \<times> crange \<Rightarrow> bool" where
  "compatible e f \<longleftrightarrow> (fst e = Shared \<and> fst f = Shared) \<or> \<not> overlaps (snd (snd e)) (snd (snd f))"

definition all_compatible :: "(lockmode \<times> DWORD \<times> crange) multiset \<Rightarrow> bool" where
  "all_compatible M \<longleftrightarrow> (\<forall>e \<in># M. \<forall>f \<in># M - {#e#}. compatible e f)"

definition blocked :: "cfilelockcollection \<Rightarrow> lockmode \<Rightarrow> crange \<Rightarrow> bool" where
  "blocked col m r \<longleftrightarrow> (\<exists>e \<in># col_entries col. \<not> compatible e (m, 0, r))"

definition col_sets_wf :: "cfilelockcollection \<Rightarrow> bool" where
  "col_sets_wf col \<longleftrightarrow> fc_signature col = SIG \<and> opt_wf (fc_exclusive col) \<and> opt_wf (fc_shared col)"

definition col_wf :: "cfilelockcollection \<Rightarrow> bool" where
  "col_wf col \<longleftrightarrow> col_sets_wf col \<and> all_compatible (col_entries col)"

lemma compatible_commute: "compatible e f \<longleftrightarrow> compatible f e"
  by (auto simp: compatible_def overlaps_commute)

lemma compatible_owner [simp]: "compatible e (m, h, r) = compatible e (m, h', r)"
  by (simp add: compatible_def)

lemma all_compatible_add:
  "all_compatible (add_mset e M) \<longleftrightarrow> all_compatible M \<and> (\<forall>f \<in># M. compatible e f)"
proof
  assume lhs: "all_compatible (add_mset e M)"
  have "\<forall>f \<in># M. compatible e f"
    using lhs by (simp add: all_compatible_def)
  moreover have "compatible x y" if "x \<in># M" "y \<in># M - {#x#}" for x y
  proof -
    have "x \<in># add_mset e M" using that by simp
    moreover have "y \<in># add_mset e M - {#x#}"
      using that by (cases "x = e") (auto dest: in_diffD)
    ultimately show ?thesis using lhs unfolding all_compatible_def by blast
  qed
  ultimately show "all_compatible M \<and> (\<forall>f \<in># M. compatible e f)"
    by (simp add: all_compatible_def)
next
  assume rhs: "all_compatible M \<and> (\<forall>f \<in># M. compatible e f)"
  have "compatible x y" if "x \<in># add_mset e M" "y \<in># add_mset e M - {#x#}" for x y
  proof (cases "x = e")
    case True
    with that rhs show ?thesis by simp
  next
    case False
    with that have x: "x \<in># M" and y: "y = e \<or> y \<in># M - {#x#}"
      by (auto simp: diff_union_swap [symmetric])
    with rhs show ?thesis
      unfolding all_compatible_def using compatible_commute by blast
  qed
  then show "all_compatible (add_mset e M)" by (simp add: all_compatible_def)
qed

lemma all_compatible_mono:
  assumes "all_compatible M" and "N \<subseteq># M"
  shows "all_compatible N"
proof -
  have "all_compatible (N + D) \<Longrightarrow> all_compatible N" for D
    by (induction D) (auto simp: all_compatible_add)
  with assms show ?thesis by (metis subset_mset.add_diff_inverse)
qed

lemma blocked_iff:
  "blocked col m r \<longleftrightarrow>
     (\<exists>(h, q) \<in># opt_entries (fc_exclusive col). overlaps q r) \<or>
     (m = Exclusive \<and> (\<exists>(h, q) \<in># opt_entries (fc_shared col). overlaps q r))"
  by (cases m) (simp_all add: blocked_def col_entries_def compatible_def bex_Un split_beta)

lemma col_sets_wfD:
  assumes "col_sets_wf col"
  shows "fc_signature col = SIG" "opt_wf (fc_exclusive col)" "opt_wf (fc_shared col)"
  using assms by (auto simp: col_sets_wf_def)

lemma col_wf_new: "col_wf CFileLockCollection_new" "col_entries CFileLockCollection_new = {#}"
  by (simp_all add: col_wf_def col_sets_wf_def CFileLockCollection_new_def col_entries_def all_compatible_def)

lemma opt_conflict_exact:
  "opt_wf os \<Longrightarrow> (case os of None \<Rightarrow> Some False | Some s \<Rightarrow> CFileLockSet_IsConflict s r) =
     Some (\<exists>(h, q) \<in># opt_entries os. overlaps q r)"
  by (cases os) (simp_all add: set_conflict_exact set_ranges_def split_beta)

lemma opt_conflict_except_exact:
  "opt_wf os \<Longrightarrow> (case os of None \<Rightarrow> Some False | Some s \<Rightarrow> CFileLockSet_IsConflictExcept s r h) =
     Some (\<exists>(h', q) \<in># opt_entries os. h' \<noteq> h \<and> overlaps q r)"
  by (cases os) (simp_all add: set_conflict_except_exact)

lemma LXX_Lock_conflict_exact:
  assumes wf: "col_sets_wf col"
  shows "LXX_Lock_conflict col dwFlags r = Some (blocked col (mode_of dwFlags) r)"
  using opt_conflict_exact [OF col_sets_wfD(2) [OF wf], of r]
    opt_conflict_exact [OF col_sets_wfD(3) [OF wf], of r]
  by (cases "fc_shared col") (auto simp: LXX_Lock_conflict_def blocked_iff mode_of_def)

lemma get_put_set [simp]:
  "get_set (put_set col f s) f = s" "fc_signature (put_set col f s) = fc_signature col"
  by (simp_all add: get_set_def put_set_def)

lemma put_get_set [simp]: "put_set col f (get_set col f) = col"
  by (simp add: get_set_def put_set_def)

lemma col_sets_wf_get: "col_sets_wf col \<Longrightarrow> opt_wf (get_set col f)"
  by (simp add: col_sets_wf_def get_set_def)

lemma col_sets_wf_put: "col_sets_wf col \<Longrightarrow> opt_wf s \<Longrightarrow> col_sets_wf (put_set col f s)"
  by (simp add: col_sets_wf_def put_set_def)

definition other_set :: "cfilelockcollection \<Rightarrow> DWORD \<Rightarrow> cfilelockset option" where
  "other_set col dwFlags =
     (if dwFlags AND LOCKFILE_EXCLUSIVE_LOCK \<noteq> 0 then fc_shared col else fc_exclusive col)"

lemma other_put [simp]: "other_set (put_set col f s) f = other_set col f"
  by (simp add: other_set_def put_set_def)

lemma col_entries_split:
  "col_entries col = image_mset (Pair (mode_of f)) (opt_entries (get_set col f)) +
     image_mset (Pair (if mode_of f = Exclusive then Shared else Exclusive)) (opt_entries (other_set col f))"
  by (simp add: col_entries_def mode_of_def get_set_def other_set_def add.commute)

section \<open>What installing a lock does\<close>

definition owner_has :: "cfilelockcollection \<Rightarrow> DWORD \<Rightarrow> DWORD \<Rightarrow> bool" where
  "owner_has col dwFlags h \<longleftrightarrow> h \<in> fst ` set_mset (opt_entries (get_set col dwFlags))"

definition drop_owner ::
    "DWORD \<Rightarrow> DWORD \<Rightarrow> (lockmode \<times> DWORD \<times> crange) multiset \<Rightarrow> (lockmode \<times> DWORD \<times> crange) multiset" where
  "drop_owner dwFlags h M = filter_mset (\<lambda>(m, h', _). \<not> (m = mode_of dwFlags \<and> h' = h)) M"

lemma drop_owner_put:
  "drop_owner f h (col_entries col) =
     image_mset (Pair (mode_of f)) (filter_mset (\<lambda>(h', _). h' \<noteq> h) (opt_entries (get_set col f))) +
     image_mset (Pair (if mode_of f = Exclusive then Shared else Exclusive)) (opt_entries (other_set col f))"
proof -
  have "filter_mset (\<lambda>(m, h', _). \<not> (m = mode_of f \<and> h' = h)) (image_mset (Pair (mode_of f)) A) =
      image_mset (Pair (mode_of f)) (filter_mset (\<lambda>(h', _). h' \<noteq> h) A)"
    and "m' \<noteq> mode_of f \<Longrightarrow>
      filter_mset (\<lambda>(m, h', _). \<not> (m = mode_of f \<and> h' = h)) (image_mset (Pair m') A) =
      image_mset (Pair m') A" for m' and A :: "(DWORD \<times> crange) multiset"
    by (induction A) auto
  then show ?thesis
    by (simp add: drop_owner_def col_entries_split [of col f])
qed

lemma fresh_list: "fl_range (CFileLockList_new b) = None \<longleftrightarrow> \<not> b" "fl_head (CFileLockList_new b) = []"
  by (simp_all add: CFileLockList_new_def)

text \<open>The insertion of the lock into its owner's list and of the list into the set.\<close>

lemma install_link:
  assumes wf: "set_wf s" and l: "list_wf l" and h: "fl_owner l = h" "h \<noteq> 0" "h \<notin> set_owners s"
    and r: "CRange_IsValid r"
  obtains l' s' where "CFileLockList_Insert l \<lparr>flk_range = r\<rparr> = Some l'"
    and "CFileLockSet_Insert s l' = Some s'" and "set_wf s'"
    and "mset (set_entries s') = add_mset (h, r) (mset (list_entries l) + mset (set_entries s))"
proof -
  obtain l' where ins: "CFileLockList_Insert l \<lparr>flk_range = r\<rparr> = Some l'" and "list_wf l'"
    and ms: "mset (list_ranges l') = add_mset r (mset (list_ranges l))"
    and own: "fl_owner l' = h" and "fl_head l' \<noteq> []"
    using list_insert_spec [OF l, of "\<lparr>flk_range = r\<rparr>"] r h(1) by (auto simp: CFileLock_IsValid_def)
  then have "list_ok l'" using h(2) by (simp add: list_ok_def)
  then obtain s' where "CFileLockSet_Insert s l' = Some s'" "set_wf s'"
    and ent: "mset (set_entries s') = mset (set_entries s) + mset (list_entries l')"
    using set_insert_spec [OF wf] own h(3) by metis
  then show ?thesis
    using that ins ms own h(1) by (auto simp: mset_list_entries)
qed

text \<open>The set the call works on, existing or new, and the two exits that depend on the owner.\<close>

definition work_set :: "cfilelockcollection \<Rightarrow> DWORD \<Rightarrow> cfilelockset" where
  "work_set col dwFlags = (case get_set col dwFlags of Some s \<Rightarrow> s | None \<Rightarrow> CFileLockSet_new True)"

lemma work_set_simps:
  assumes "col_sets_wf col"
  shows "set_wf (work_set col f)"
    and "opt_entries (get_set col f) = mset (set_entries (work_set col f))"
    and "owner_has col f h \<longleftrightarrow> h \<in> set_owners (work_set col f)"
proof -
  show wf: "set_wf (work_set col f)"
    using col_sets_wf_get [OF assms, of f] set_wf_new by (auto simp: work_set_def split: option.splits)
  show ent: "opt_entries (get_set col f) = mset (set_entries (work_set col f))"
    by (auto simp: work_set_def set_entries_new split: option.splits)
  show "owner_has col f h \<longleftrightarrow> h \<in> set_owners (work_set col f)"
    by (simp add: owner_has_def ent set_owners_entries [OF wf])
qed

lemma owner_has_set: "owner_has col f h \<Longrightarrow> get_set col f \<noteq> None"
  by (cases "get_set col f") (simp_all add: owner_has_def)

lemma install_pick:
  "get_set col f \<noteq> None \<or> la_set al \<Longrightarrow> la_set_range al \<Longrightarrow>
     (case get_set col f of
        Some s \<Rightarrow> Some (s, False)
      | None \<Rightarrow> if la_set al then Some (CFileLockSet_new (la_set_range al), True) else None) =
     Some (work_set col f, get_set col f = None)"
  by (auto simp: work_set_def split: option.splits)

lemma put_entries:
  "col_entries (put_set col f os) =
     image_mset (Pair (mode_of f)) (opt_entries os) +
     image_mset (Pair (if mode_of f = Exclusive then Shared else Exclusive)) (opt_entries (other_set col f))"
  by (simp add: col_entries_split [of _ f])

lemma put_entries_add:
  "opt_entries os = add_mset (h, r) (opt_entries (get_set col f)) \<Longrightarrow>
     col_entries (put_set col f os) = add_mset (mode_of f, h, r) (col_entries col)"
  by (simp add: put_entries col_entries_split [of col f])

lemma drop_owner_absent:
  "\<not> owner_has col f h \<Longrightarrow> drop_owner f h (col_entries col) = col_entries col"
proof -
  assume "\<not> owner_has col f h"
  then have "filter_mset (\<lambda>(h', _). h' \<noteq> h) (opt_entries (get_set col f)) = opt_entries (get_set col f)"
    by (force simp: filter_mset_eq_conv owner_has_def)
  then show ?thesis by (subst drop_owner_put) (simp add: col_entries_split [of col f])
qed

lemma install_owner_present:
  assumes wf: "col_sets_wf col" and h: "dwFile \<noteq> 0" and r: "CRange_IsValid r"
    and alloc: "la_set_range al" and has: "owner_has col dwFlags dwFile"
  obtains col' where "LXX_Lock_install col dwFile dwFlags r al =
      Some (if la_lock al then LR_SUCCESS else LR_ERROR, col')" and "col_sets_wf col'"
    and "col_entries col' =
      (if la_lock al then add_mset (mode_of dwFlags, dwFile, r) (col_entries col)
       else drop_owner dwFlags dwFile (col_entries col))"
proof -
  let ?s = "work_set col dwFlags"
  note ws = work_set_simps [OF wf, of dwFlags]
  have some: "get_set col dwFlags \<noteq> None" using has by (rule owner_has_set)
  then have pick: "(case get_set col dwFlags of
        Some s \<Rightarrow> Some (s, False)
      | None \<Rightarrow> if la_set al then Some (CFileLockSet_new (la_set_range al), True) else None) =
     Some (?s, False)"
    using install_pick [of col dwFlags al] alloc by auto
  obtain l s1 where rm: "CFileLockSet_Remove ?s dwFile = Some (Some l, s1)" and wf1: "set_wf s1"
    and ok: "list_ok l" and own: "fl_owner l = dwFile"
    and ent: "mset (set_entries ?s) = mset (list_entries l) + mset (set_entries s1)"
    and fresh: "dwFile \<notin> set_owners s1"
    using set_remove_present [OF ws(1)] has ws(3) by metis
  show ?thesis
  proof (cases "la_lock al")
    case False
    have run: "LXX_Lock_install col dwFile dwFlags r al =
        Some (if la_lock al then LR_SUCCESS else LR_ERROR, put_set col dwFlags (Some s1))"
      using False rm by (simp add: LXX_Lock_install_def pick)
    show ?thesis
      by (rule that [OF run])
        (use wf wf1 False set_remove_entries(2) [OF ent own fresh] ws(2) in
          \<open>auto intro: col_sets_wf_put simp: put_entries drop_owner_put\<close>)
  next
    case True
    obtain l' s' where ins: "CFileLockList_Insert l \<lparr>flk_range = r\<rparr> = Some l'"
      "CFileLockSet_Insert s1 l' = Some s'" and wf': "set_wf s'"
      and ent': "mset (set_entries s') = add_mset (dwFile, r) (mset (list_entries l) + mset (set_entries s1))"
      using install_link [OF wf1 list_okD(1) [OF ok] own h fresh r] by metis
    have run: "LXX_Lock_install col dwFile dwFlags r al =
        Some (if la_lock al then LR_SUCCESS else LR_ERROR, put_set col dwFlags (Some s'))"
      using True rm ins by (simp add: LXX_Lock_install_def pick)
    show ?thesis
      by (rule that [OF run])
        (use wf wf' True ent ent' ws(2) in \<open>auto intro: col_sets_wf_put put_entries_add\<close>)
  qed
qed

lemma install_owner_absent:
  assumes wf: "col_sets_wf col" and h: "dwFile \<noteq> 0" and r: "CRange_IsValid r"
    and alloc: "la_set_range al" "get_set col dwFlags \<noteq> None \<or> la_set al"
    and has: "\<not> owner_has col dwFlags dwFile"
  obtains col' where "LXX_Lock_install col dwFile dwFlags r al =
      Some (if la_list al \<and> la_list_range al \<and> la_lock al then LR_SUCCESS else LR_ERROR, col')"
    and "col_sets_wf col'"
    and "col_entries col' =
      (if la_list al \<and> la_list_range al \<and> la_lock al
       then add_mset (mode_of dwFlags, dwFile, r) (col_entries col) else col_entries col)"
proof -
  let ?s = "work_set col dwFlags"
  let ?new = "get_set col dwFlags = None"
  note ws = work_set_simps [OF wf, of dwFlags]
  note pick = install_pick [OF alloc(2,1)]
  have fresh: "dwFile \<notin> set_owners ?s" using has ws(3) by blast
  have rm: "CFileLockSet_Remove ?s dwFile = Some (None, ?s)" by (rule set_remove_absent [OF fresh])
  show ?thesis
  proof (cases "la_list al \<and> la_list_range al \<and> la_lock al")
    case False
    have unchanged: "put_set col dwFlags (if ?new then None else Some ?s) = col"
      by (auto simp: work_set_def get_set_def put_set_def split: option.splits)
    have "LXX_Lock_install col dwFile dwFlags r al = Some (LR_ERROR, col)"
      using False rm unchanged by (auto simp: LXX_Lock_install_def pick CFileLockList_new_def)
    then show ?thesis using that [of col] wf False by auto
  next
    case True
    let ?l = "(CFileLockList_new True)\<lparr>fl_owner := dwFile\<rparr>"
    have el: "list_entries ?l = []"
      by (simp add: list_entries_def list_ranges_def CFileLockList_new_def)
    obtain l' s' where ins: "CFileLockList_Insert ?l \<lparr>flk_range = r\<rparr> = Some l'"
      "CFileLockSet_Insert ?s l' = Some s'" and wf': "set_wf s'"
      and ent: "mset (set_entries s') = add_mset (dwFile, r) (mset (list_entries ?l) + mset (set_entries ?s))"
      using install_link [OF ws(1), of ?l dwFile r] h fresh r list_wf_new by auto
    have run: "LXX_Lock_install col dwFile dwFlags r al =
        Some (if la_list al \<and> la_list_range al \<and> la_lock al then LR_SUCCESS else LR_ERROR,
          put_set col dwFlags (Some s'))"
      using True rm ins by (simp add: LXX_Lock_install_def pick fresh_list)
    show ?thesis
      by (rule that [OF run])
        (use wf wf' True ent el ws(2) in \<open>auto intro: col_sets_wf_put put_entries_add\<close>)
  qed
qed

lemma install_spec:
  assumes wf: "col_sets_wf col" and h: "dwFile \<noteq> 0" and r: "CRange_IsValid r"
    and alloc: "la_set_range al"
  obtains lr col' where "LXX_Lock_install col dwFile dwFlags r al = Some (lr, col')"
    and "col_sets_wf col'" and "lr = LR_SUCCESS \<or> lr = LR_ERROR"
    and "lr = LR_SUCCESS \<longleftrightarrow> (get_set col dwFlags \<noteq> None \<or> la_set al) \<and>
           (owner_has col dwFlags dwFile \<or> la_list al \<and> la_list_range al) \<and> la_lock al"
    and "col_entries col' =
       (if lr = LR_SUCCESS then add_mset (mode_of dwFlags, dwFile, r) (col_entries col)
        else if la_lock al then col_entries col
        else drop_owner dwFlags dwFile (col_entries col))"
proof (cases "owner_has col dwFlags dwFile")
  case True
  then have "get_set col dwFlags \<noteq> None" by (rule owner_has_set)
  moreover obtain col' where "LXX_Lock_install col dwFile dwFlags r al =
      Some (if la_lock al then LR_SUCCESS else LR_ERROR, col')" "col_sets_wf col'"
    "col_entries col' = (if la_lock al then add_mset (mode_of dwFlags, dwFile, r) (col_entries col)
       else drop_owner dwFlags dwFile (col_entries col))"
    using install_owner_present [OF wf h r alloc True] by blast
  ultimately show ?thesis using True that by (cases "la_lock al") auto
next
  case absent: False
  show ?thesis
  proof (cases "get_set col dwFlags \<noteq> None \<or> la_set al")
    case True
    obtain col' where "LXX_Lock_install col dwFile dwFlags r al =
        Some (if la_list al \<and> la_list_range al \<and> la_lock al then LR_SUCCESS else LR_ERROR, col')"
      "col_sets_wf col'"
      "col_entries col' = (if la_list al \<and> la_list_range al \<and> la_lock al
         then add_mset (mode_of dwFlags, dwFile, r) (col_entries col) else col_entries col)"
      using install_owner_absent [OF wf h r alloc True absent] by metis
    with True absent that show ?thesis
      by (auto simp: drop_owner_absent split: if_splits)
  next
    case False
    then have "LXX_Lock_install col dwFile dwFlags r al = Some (LR_ERROR, col)"
      by (simp add: LXX_Lock_install_def)
    then show ?thesis
      by (rule that) (use wf False absent in \<open>auto simp: drop_owner_absent\<close>)
  qed
qed

end
