(* ===== verification/Lock_Run.thy ===== *)
theory Lock_Run
  imports Lock_Api
begin

text \<open>
  What one call of a container function does to a well-formed container, as facts for the
  proofs about the interface and about the lock manager: the calls return, keep the
  invariant, and change the entries as said.
\<close>

section \<open>Locking\<close>

lemma LXX_Lock_run:
  assumes "col_sets_wf col" and "dwFile \<noteq> 0" and "nLow \<noteq> 0 \<or> nHigh \<noteq> 0" and "la_range al"
    and "CRange_IsValid (make_range off offHigh nLow nHigh)"
  shows "LXX_Lock (Some col) dwFile dwFlags dwReserved nLow nHigh (Some (off, offHigh)) al =
    (if blocked col (mode_of dwFlags) (make_range off offHigh nLow nHigh)
     then Some (if dwFlags AND LOCKFILE_FAIL_IMMEDIATELY \<noteq> 0 then LR_ERROR else LR_CONFLICT, Some col)
     else map_option (\<lambda>(lr, c). (lr, Some c))
            (LXX_Lock_install col dwFile dwFlags (make_range off offHigh nLow nHigh) al))"
  using assms LXX_Lock_conflict_exact [OF assms(1)] col_sets_wfD(1) [OF assms(1)]
  by (cases "LXX_Lock_install col dwFile dwFlags (make_range off offHigh nLow nHigh) al")
    (auto simp: LXX_Lock_def Let_def)

lemma blocked_compatible:
  "\<not> blocked col m r \<longleftrightarrow> (\<forall>f \<in># col_entries col. compatible (m, h, r) f)"
  unfolding blocked_def by (simp add: compatible_commute [of "(m, h, r)"] compatible_owner [of _ m 0 r h])

lemma install_keeps_compatible:
  assumes "all_compatible (col_entries col)" and "\<not> blocked col (mode_of f) r"
    and "col_entries col' =
       (if lr = LR_SUCCESS then add_mset (mode_of f, h, r) (col_entries col)
        else if b then col_entries col else drop_owner f h (col_entries col))"
  shows "all_compatible (col_entries col')"
  using assms all_compatible_mono [OF assms(1), of "drop_owner f h (col_entries col)"]
  by (auto simp: all_compatible_add blocked_compatible [of _ _ _ h] drop_owner_def)

definition alloc_ok :: lock_alloc where
  "alloc_ok = \<lparr>la_range = True, la_set = True, la_set_range = True, la_list = True,
               la_list_range = True, la_lock = True\<rparr>"

lemma LXX_Lock_grant_step:
  assumes wf: "col_wf col" and h: "dwFile \<noteq> 0" and n: "nLow \<noteq> 0 \<or> nHigh \<noteq> 0"
    and r: "CRange_IsValid (make_range off offHigh nLow nHigh)"
  shows "\<exists>col'. LXX_Lock (Some col) dwFile dwFlags dwReserved nLow nHigh (Some (off, offHigh)) alloc_ok =
      Some (if blocked col (mode_of dwFlags) (make_range off offHigh nLow nHigh)
            then (if dwFlags AND LOCKFILE_FAIL_IMMEDIATELY \<noteq> 0 then LR_ERROR else LR_CONFLICT)
            else LR_SUCCESS, Some col') \<and>
    col_wf col' \<and>
    col_entries col' =
      (if blocked col (mode_of dwFlags) (make_range off offHigh nLow nHigh) then col_entries col
       else add_mset (mode_of dwFlags, dwFile, make_range off offHigh nLow nHigh) (col_entries col))"
proof -
  let ?r = "make_range off offHigh nLow nHigh"
  have sets: "col_sets_wf col" and comp: "all_compatible (col_entries col)"
    using wf by (simp_all add: col_wf_def)
  note run = LXX_Lock_run [OF sets h n _ r, of alloc_ok dwFlags dwReserved]
  show ?thesis
  proof (cases "blocked col (mode_of dwFlags) ?r")
    case True
    with run wf show ?thesis by (auto simp: alloc_ok_def)
  next
    case False
    obtain lr col' where inst: "LXX_Lock_install col dwFile dwFlags ?r alloc_ok = Some (lr, col')"
      "col_sets_wf col'" "lr = LR_SUCCESS"
      "col_entries col' = add_mset (mode_of dwFlags, dwFile, ?r) (col_entries col)"
      by (rule install_spec [OF sets h r, of alloc_ok dwFlags]) (auto simp: alloc_ok_def)
    moreover have "all_compatible (col_entries col')"
      using comp False blocked_compatible [of col _ _ dwFile] by (simp add: inst(4) all_compatible_add)
    ultimately show ?thesis using run False by (auto simp: alloc_ok_def col_wf_def)
  qed
qed

lemma LXX_Lock_safe:
  assumes wf: "col_wf col" and al: "la_set_range al"
  shows "\<exists>lr col'. LXX_Lock (Some col) dwFile dwFlags dwReserved nLow nHigh ov al = Some (lr, Some col') \<and>
    col_wf col' \<and> (lr = LR_SUCCESS \<or> col_entries col' \<subseteq># col_entries col)"
proof -
  have sets: "col_sets_wf col" and comp: "all_compatible (col_entries col)"
    using wf by (simp_all add: col_wf_def)
  show ?thesis
  proof (cases ov)
    case None
    with wf show ?thesis by (simp add: LXX_Lock_def)
  next
    case (Some p)
    then obtain off offHigh where ov: "ov = Some (off, offHigh)" by (cases p) auto
    let ?r = "make_range off offHigh nLow nHigh"
    consider (bad) "dwFile = 0 \<or> nLow = 0 \<and> nHigh = 0 \<or> \<not> la_range al \<or> \<not> CRange_IsValid ?r"
      | (good) "dwFile \<noteq> 0" "nLow \<noteq> 0 \<or> nHigh \<noteq> 0" "la_range al" "CRange_IsValid ?r" by blast
    then show ?thesis
    proof cases
      case bad
      with wf ov show ?thesis by (auto simp: LXX_Lock_def Let_def)
    next
      case good
      note run = LXX_Lock_run [OF sets good, of dwFlags dwReserved]
      obtain lr col' where inst: "LXX_Lock_install col dwFile dwFlags ?r al = Some (lr, col')"
        and sets': "col_sets_wf col'"
        and ent: "col_entries col' =
          (if lr = LR_SUCCESS then add_mset (mode_of dwFlags, dwFile, ?r) (col_entries col)
           else if la_lock al then col_entries col else drop_owner dwFlags dwFile (col_entries col))"
        using install_spec [OF sets good(1,4) al] by metis
      show ?thesis
      proof (cases "blocked col (mode_of dwFlags) ?r")
        case True
        with run ov wf show ?thesis by auto
      next
        case False
        have "all_compatible (col_entries col')"
          by (rule install_keeps_compatible [OF comp False ent])
        moreover have "lr = LR_SUCCESS \<or> col_entries col' \<subseteq># col_entries col"
          by (auto simp: ent drop_owner_def)
        ultimately show ?thesis using run False ov inst sets' by (auto simp: col_wf_def)
      qed
    qed
  qed
qed

section \<open>Unlocking\<close>

lemma diff_image_Pair:
  "image_mset (Pair m) (M - {#x#}) = image_mset (Pair m) M - {#(m, x)#}"
proof (cases "x \<in># M")
  case True
  then show ?thesis by (auto dest: multi_member_split)
next
  case False
  then have "(m, x) \<notin># image_mset (Pair m) M" by auto
  with False show ?thesis by (simp add: diff_single_trivial)
qed

lemma diff_right: "(Shared, e) \<notin># A \<Longrightarrow> A + B - {#(Shared, e)#} = A + (B - {#(Shared, e)#})"
  by (cases "(Shared, e) \<in># B") (auto dest: multi_member_split simp: diff_single_trivial)

text \<open>The entry that an unlock request removes: exclusive locks are looked up first.\<close>

definition unlock_target ::
    "cfilelockcollection \<Rightarrow> DWORD \<Rightarrow> crange \<Rightarrow> lockmode" where
  "unlock_target col h r = (if (Exclusive, h, r) \<in># col_entries col then Exclusive else Shared)"

lemma entry_iff:
  "(Exclusive, h, r) \<in># col_entries col \<longleftrightarrow> (h, r) \<in># opt_entries (fc_exclusive col)"
  "(Shared, h, r) \<in># col_entries col \<longleftrightarrow> (h, r) \<in># opt_entries (fc_shared col)"
  by (auto simp: col_entries_def)

lemma col_wf_IsEmpty: "col_sets_wf col \<Longrightarrow> CFileLockCollection_IsEmpty col \<longleftrightarrow> col_entries col = {#}"
  by (cases "fc_exclusive col"; cases "fc_shared col")
    (auto simp: CFileLockCollection_IsEmpty_def col_entries_def col_sets_wf_def set_empty_iff)

text \<open>The case analysis over the two sets.\<close>

lemma unlock_step:
  assumes wf: "col_wf col" and h: "dwFile \<noteq> 0" and n: "nLow \<noteq> 0 \<or> nHigh \<noteq> 0"
    and r: "CRange_IsValid (make_range off offHigh nLow nHigh)"
  shows "\<exists>ok col'. LXX_Unlock (Some col) dwFile dwReserved nLow nHigh (Some (off, offHigh)) = Some (ok, Some col') \<and>
    (ok \<longleftrightarrow> (\<exists>m. (m, dwFile, make_range off offHigh nLow nHigh) \<in># col_entries col)) \<and>
    col_entries col' = col_entries col -
      {#(unlock_target col dwFile (make_range off offHigh nLow nHigh), dwFile, make_range off offHigh nLow nHigh)#} \<and>
    col_wf col'"
proof -
  let ?r = "make_range off offHigh nLow nHigh"
  let ?e = "(unlock_target col dwFile ?r, dwFile, ?r)"
  have sets: "col_sets_wf col" and comp: "all_compatible (col_entries col)"
    using wf by (simp_all add: col_wf_def)
  have modes: "(\<exists>m. (m, dwFile, ?r) \<in># col_entries col) \<longleftrightarrow>
      (Exclusive, dwFile, ?r) \<in># col_entries col \<or> (Shared, dwFile, ?r) \<in># col_entries col"
    by (metis lockmode.exhaust)
  have comp': "all_compatible (col_entries col - {#?e#})"
    using all_compatible_mono [OF comp] by simp
  obtain ex where ex: "unlock_in_set (fc_exclusive col) dwFile ?r =
      Some ((dwFile, ?r) \<in># opt_entries (fc_exclusive col), ex)" "opt_wf ex"
    "opt_entries ex = opt_entries (fc_exclusive col) - {#(dwFile, ?r)#}"
    using unlock_in_set_spec [OF col_sets_wfD(2) [OF sets]] by metis
  obtain sh where sh: "unlock_in_set (fc_shared col) dwFile ?r =
      Some ((dwFile, ?r) \<in># opt_entries (fc_shared col), sh)" "opt_wf sh"
    "opt_entries sh = opt_entries (fc_shared col) - {#(dwFile, ?r)#}"
    using unlock_in_set_spec [OF col_sets_wfD(3) [OF sets]] by metis
  note unfold = LXX_Unlock_def Let_def col_sets_wfD(1) [OF sets] col_wf_IsEmpty [OF sets]
  show ?thesis
  proof (cases "col_entries col = {#}")
    case True
    with h n r wf show ?thesis by (auto simp: unfold)
  next
    case nonempty: False
    show ?thesis
    proof (cases "(dwFile, ?r) \<in># opt_entries (fc_exclusive col)")
      case True
      let ?c = "col\<lparr>fc_exclusive := ex\<rparr>"
      have "LXX_Unlock (Some col) dwFile dwReserved nLow nHigh (Some (off, offHigh)) = Some (True, Some ?c)"
        using h n r nonempty ex(1) True by (auto simp: unfold)
      moreover have "col_entries ?c = col_entries col - {#?e#}"
        using True by (simp add: col_entries_def ex(3) diff_image_Pair unlock_target_def entry_iff)
      moreover have "col_sets_wf ?c" using sets ex(2) by (simp add: col_sets_wf_def)
      ultimately show ?thesis using True comp' by (auto simp: modes entry_iff col_wf_def)
    next
      case False
      let ?c = "col\<lparr>fc_exclusive := ex, fc_shared := sh\<rparr>"
      have "LXX_Unlock (Some col) dwFile dwReserved nLow nHigh (Some (off, offHigh)) =
          Some ((dwFile, ?r) \<in># opt_entries (fc_shared col), Some ?c)"
        using h n r nonempty ex(1) sh(1) False by (auto simp: unfold)
      moreover have "col_entries ?c = col_entries col - {#?e#}"
      proof -
        have "opt_entries ex = opt_entries (fc_exclusive col)"
          using False by (simp add: ex(3) diff_single_trivial)
        moreover have "unlock_target col dwFile ?r = Shared"
          using False by (simp add: unlock_target_def entry_iff)
        moreover have "(Shared, dwFile, ?r) \<notin># image_mset (Pair Exclusive) (opt_entries (fc_exclusive col))"
          by auto
        ultimately show ?thesis
          by (simp add: col_entries_def sh(3) diff_image_Pair diff_right)
      qed
      moreover have "col_sets_wf ?c" using sets ex(2) sh(2) by (simp add: col_sets_wf_def)
      ultimately show ?thesis using False comp' by (auto simp: modes entry_iff col_wf_def)
    qed
  qed
qed

lemma unlock_all_step:
  assumes wf: "col_wf col" and h: "dwFile \<noteq> 0"
  shows "\<exists>col'. LXX_UnlockLocksOwnedByHandle (Some col) dwFile = Some (True, Some col') \<and>
    col_entries col' = filter_mset (\<lambda>(m, h', r). h' \<noteq> dwFile) (col_entries col) \<and> col_wf col'"
proof -
  have sets: "col_sets_wf col" and comp: "all_compatible (col_entries col)"
    using wf by (simp_all add: col_wf_def)
  obtain ex where ex: "unlock_owner_in_set (fc_exclusive col) dwFile = Some ex" "opt_wf ex"
    "opt_entries ex = filter_mset (\<lambda>(h', _). h' \<noteq> dwFile) (opt_entries (fc_exclusive col))"
    using unlock_owner_in_set_spec [OF col_sets_wfD(2) [OF sets]] by metis
  obtain sh where sh: "unlock_owner_in_set (fc_shared col) dwFile = Some sh" "opt_wf sh"
    "opt_entries sh = filter_mset (\<lambda>(h', _). h' \<noteq> dwFile) (opt_entries (fc_shared col))"
    using unlock_owner_in_set_spec [OF col_sets_wfD(3) [OF sets]] by metis
  let ?c = "col\<lparr>fc_exclusive := ex, fc_shared := sh\<rparr>"
  have pair: "image_mset (Pair m) (filter_mset (\<lambda>(h', _). h' \<noteq> dwFile) A) =
      filter_mset (\<lambda>(m, h', r). h' \<noteq> dwFile) (image_mset (Pair m) A)"
    for m :: lockmode and A :: "(DWORD \<times> crange) multiset"
    by (induction A) auto
  have ent: "col_entries ?c = filter_mset (\<lambda>(m, h', r). h' \<noteq> dwFile) (col_entries col)"
    by (simp add: col_entries_def ex(3) sh(3) pair)
  moreover have "all_compatible (col_entries ?c)"
    unfolding ent by (rule all_compatible_mono [OF comp]) simp
  moreover have "LXX_UnlockLocksOwnedByHandle (Some col) dwFile = Some (True, Some ?c)"
    using h ex(1) sh(1) col_sets_wfD(1) [OF sets] by (simp add: LXX_UnlockLocksOwnedByHandle_def Let_def)
  ultimately show ?thesis
    using sets ex(2) sh(2) by (auto simp: col_wf_def col_sets_wf_def)
qed

section \<open>Authorizing\<close>

lemma col_entries_valid:
  assumes "col_sets_wf col" and "(m, h, q) \<in># col_entries col"
  shows "CRange_IsValid q"
proof -
  have "CRange_IsValid q" if "opt_wf os" "(h, q) \<in># opt_entries os" for os
    using that set_wf_ranges_valid by (cases os) (force simp: set_ranges_def)+
  with assms show ?thesis
    by (cases m) (auto simp: entry_iff col_sets_wf_def)
qed

lemma all_lockmode: "(\<forall>m. P m) \<longleftrightarrow> P Shared \<and> P Exclusive"
  by (metis lockmode.exhaust)

lemma authorize_run:
  assumes sets: "col_sets_wf col" and h: "dwFile \<noteq> 0" and r: "CRange_IsValid (make_range posLow posHigh nBytes 0)"
  shows "LXX_AuthorizeAccess (Some col) dwFile fRead posLow posHigh nBytes =
    Some (\<not> (\<exists>(h', q) \<in># opt_entries (fc_exclusive col).
              h' \<noteq> dwFile \<and> overlaps q (make_range posLow posHigh nBytes 0)) \<and>
          (fRead \<or> \<not> (\<exists>(h', q) \<in># opt_entries (fc_shared col).
              overlaps q (make_range posLow posHigh nBytes 0))))"
  using opt_conflict_except_exact [OF col_sets_wfD(2) [OF sets], of "make_range posLow posHigh nBytes 0" dwFile]
    opt_conflict_exact [OF col_sets_wfD(3) [OF sets], of "make_range posLow posHigh nBytes 0"]
    h r col_sets_wfD(1) [OF sets]
  by (simp add: LXX_AuthorizeAccess_def Let_def)

lemma opt_entries_Ball:
  "\<not> (\<exists>(h', q) \<in># opt_entries (fc_exclusive col). P h' q) \<longleftrightarrow>
     (\<forall>h' q. (Exclusive, h', q) \<in># col_entries col \<longrightarrow> \<not> P h' q)"
  "\<not> (\<exists>(h', q) \<in># opt_entries (fc_shared col). P h' q) \<longleftrightarrow>
     (\<forall>h' q. (Shared, h', q) \<in># col_entries col \<longrightarrow> \<not> P h' q)"
  by (auto simp: entry_iff)

end
