(* ===== verification/Lock_Theorems.thy ===== *)
theory Lock_Theorems
  imports Lock_Run
begin

text \<open>
  The theorems about the lock container functions of \<open>lockmgrapi.cpp\<close>: what \<open>LXX_Lock\<close>,
  \<open>LXX_Unlock\<close>, \<open>LXX_UnlockLocksOwnedByHandle\<close> and \<open>LXX_AuthorizeAccess\<close> do to the entries
  of a container and when they succeed, with witnesses on concrete containers.
\<close>

section \<open>Locking\<close>

text \<open>C1. With memory available, \<open>LXX_Lock\<close> on a well-formed container grants a valid request
  exactly when no exclusive lock overlaps it and, for an exclusive request, no shared lock
  does either; otherwise it answers a conflict, or an error if the caller asked to fail
  immediately.  A granted request adds exactly its own entry, a refused one changes
  nothing, and the container stays well formed with pairwise compatible entries.\<close>
theorem LXX_Lock_grants_iff_compatible:
  assumes wf: "col_wf col" and h: "dwFile \<noteq> 0" and n: "nLow \<noteq> 0 \<or> nHigh \<noteq> 0"
    and r: "CRange_IsValid (make_range off offHigh nLow nHigh)"
  shows "\<exists>col'. LXX_Lock (Some col) dwFile dwFlags dwReserved nLow nHigh (Some (off, offHigh)) alloc_ok =
      Some (if blocked col (mode_of dwFlags) (make_range off offHigh nLow nHigh)
            then (if dwFlags AND LOCKFILE_FAIL_IMMEDIATELY \<noteq> 0 then LR_ERROR else LR_CONFLICT)
            else LR_SUCCESS, Some col') \<and>
    col_wf col' \<and>
    col_entries col' =
      (if blocked col (mode_of dwFlags) (make_range off offHigh nLow nHigh) then col_entries col
       else add_mset (mode_of dwFlags, dwFile, make_range off offHigh nLow nHigh) (col_entries col))"
  by (rule LXX_Lock_grant_step [OF wf h n r])

lemma small_range_valid: "CRange_IsValid (make_range 0 0 10 0)"
  by (simp add: make_range_valid_iff unat_make_u64)

theorem LXX_Lock_grants_witness:
  "\<exists>col'. LXX_Lock (Some CFileLockCollection_new) 1 2 0 10 0 (Some (0, 0)) alloc_ok =
      Some (LR_SUCCESS, Some col') \<and> col_wf col' \<and>
    col_entries col' = {#(Exclusive, 1, make_range 0 0 10 0)#}"
proof -
  have "\<not> blocked CFileLockCollection_new (mode_of 2) (make_range 0 0 10 0)"
    by (simp add: blocked_def col_wf_new)
  moreover have "mode_of 2 = Exclusive" by (simp add: mode_of_def LOCKFILE_EXCLUSIVE_LOCK_def)
  ultimately show ?thesis
    using LXX_Lock_grants_iff_compatible [OF col_wf_new(1) _ _ small_range_valid, of 1 2 0]
    by (simp add: col_wf_new)
qed

text \<open>C7. Whatever allocations fail inside \<open>LXX_Lock\<close> (the span object of a newly created set
  excepted), the call returns without a null dereference and leaves a well-formed container whose
  entries are pairwise compatible; no exit but success adds an entry.\<close>
theorem LXX_Lock_safe_under_oom:
  assumes wf: "col_wf col" and al: "la_set_range al"
  shows "\<exists>lr col'. LXX_Lock (Some col) dwFile dwFlags dwReserved nLow nHigh ov al = Some (lr, Some col') \<and>
    col_wf col' \<and> (lr = LR_SUCCESS \<or> col_entries col' \<subseteq># col_entries col)"
  by (rule LXX_Lock_safe [OF wf al])

theorem LXX_Lock_safe_under_oom_witness:
  "\<exists>lr col'. LXX_Lock (Some CFileLockCollection_new) 1 2 0 10 0 (Some (0, 0))
      (alloc_ok\<lparr>la_list := False\<rparr>) = Some (lr, Some col') \<and>
    col_wf col' \<and> (lr = LR_SUCCESS \<or> col_entries col' \<subseteq># {#})"
  using LXX_Lock_safe_under_oom [OF col_wf_new(1), of "alloc_ok\<lparr>la_list := False\<rparr>" 1 2 0 10 0 "Some (0, 0)"]
  by (simp add: alloc_ok_def col_wf_new)

text \<open>When the allocation of the lock object fails after the caller's list was taken out of
  its set, \<open>LXX_Lock\<close> reports an error and every lock the caller already held in that mode is
  gone from the container: the list is not put back.\<close>
theorem LXX_Lock_oom_drops_owner:
  assumes wf: "col_wf col" and h: "dwFile \<noteq> 0" and n: "nLow \<noteq> 0 \<or> nHigh \<noteq> 0"
    and r: "CRange_IsValid (make_range off offHigh nLow nHigh)"
    and free: "\<not> blocked col (mode_of dwFlags) (make_range off offHigh nLow nHigh)"
    and held: "owner_has col dwFlags dwFile"
  shows "\<exists>col'. LXX_Lock (Some col) dwFile dwFlags dwReserved nLow nHigh (Some (off, offHigh))
        (alloc_ok\<lparr>la_lock := False\<rparr>) = Some (LR_ERROR, Some col') \<and>
      col_entries col' = drop_owner dwFlags dwFile (col_entries col) \<and>
      col_entries col' \<noteq> col_entries col"
proof -
  let ?al = "alloc_ok\<lparr>la_lock := False\<rparr>"
  have sets: "col_sets_wf col" using wf by (simp add: col_wf_def)
  obtain lr col' where inst: "LXX_Lock_install col dwFile dwFlags (make_range off offHigh nLow nHigh) ?al =
      Some (lr, col')" "lr = LR_ERROR"
    and ent: "col_entries col' = drop_owner dwFlags dwFile (col_entries col)"
    by (rule install_spec [OF sets h r, of ?al dwFlags]) (auto simp: alloc_ok_def)
  obtain q where "(dwFile, q) \<in># opt_entries (get_set col dwFlags)"
    using held by (auto simp: owner_has_def)
  then have "(mode_of dwFlags, dwFile, q) \<in># col_entries col"
    by (simp add: col_entries_split [of col dwFlags])
  moreover have "(mode_of dwFlags, dwFile, q) \<notin># col_entries col'"
    by (simp add: ent drop_owner_def)
  ultimately have "col_entries col' \<noteq> col_entries col" by metis
  with LXX_Lock_run [OF sets h n _ r, of ?al dwFlags dwReserved] free inst ent show ?thesis
    by (auto simp: alloc_ok_def)
qed

text \<open>A container in which handle 1 holds the bytes 0 to 9 shared and handle 2 the byte 20 exclusively.\<close>

definition sample_list :: "DWORD \<Rightarrow> crange \<Rightarrow> cfilelocklist" where
  "sample_list h r = \<lparr>fl_owner = h, fl_range = Some r, fl_head = [\<lparr>flk_range = r\<rparr>]\<rparr>"

definition sample_col :: cfilelockcollection where
  "sample_col = \<lparr>fc_signature = SIG,
     fc_exclusive = Some \<lparr>fs_range = Some (make_range 20 0 1 0), fs_head = [sample_list 2 (make_range 20 0 1 0)]\<rparr>,
     fc_shared = Some \<lparr>fs_range = Some (make_range 0 0 10 0), fs_head = [sample_list 1 (make_range 0 0 10 0)]\<rparr>\<rparr>"

lemma sample_ranges:
  "make_range 20 0 1 0 = \<lparr>m_ullStart = 20, m_ullFinish = 20\<rparr>"
  "make_range 0 0 10 0 = \<lparr>m_ullStart = 0, m_ullFinish = 9\<rparr>"
  "make_range 15 0 3 0 = \<lparr>m_ullStart = 15, m_ullFinish = 17\<rparr>"
  by (rule crange_eqI; simp add: make_u64_def)+

lemma sample_entries:
  "col_entries sample_col =
     {#(Exclusive, 2, make_range 20 0 1 0), (Shared, 1, make_range 0 0 10 0)#}"
  by (simp add: col_entries_def sample_col_def sample_list_def set_entries_def list_entries_def
      list_ranges_def)

lemma sample_set_wf:
  assumes "h \<noteq> 0" and "CRange_IsValid r"
  shows "set_wf \<lparr>fs_range = Some r, fs_head = [sample_list h r]\<rparr>"
  using assms by (simp add: set_wf_def sample_list_def set_ranges_concat list_ranges_def list_ok_def list_wf_def)

lemma sample_wf: "col_wf sample_col"
proof -
  have "CRange_IsValid (make_range 20 0 1 0)"
    by (simp add: make_range_valid_iff unat_make_u64)
  then have "col_sets_wf sample_col"
    using sample_set_wf [of 2] sample_set_wf [of 1] small_range_valid
    by (simp add: col_sets_wf_def sample_col_def)
  moreover have "all_compatible (col_entries sample_col)"
    by (simp add: sample_entries all_compatible_add compatible_def overlaps_def sample_ranges)
      (simp add: all_compatible_def)
  ultimately show ?thesis by (simp add: col_wf_def)
qed

theorem LXX_Lock_oom_drops_owner_witness:
  "\<exists>col'. LXX_Lock (Some sample_col) 1 0 0 3 0 (Some (15, 0)) (alloc_ok\<lparr>la_lock := False\<rparr>) =
      Some (LR_ERROR, Some col') \<and> col_entries col' = {#(Exclusive, 2, make_range 20 0 1 0)#}"
proof -
  have valid: "CRange_IsValid (make_range 15 0 3 0)"
    by (simp add: make_range_valid_iff unat_make_u64)
  have free: "\<not> blocked sample_col (mode_of 0) (make_range 15 0 3 0)"
    by (simp add: blocked_def sample_entries compatible_def overlaps_def sample_ranges)
  have held: "owner_has sample_col 0 1"
    by (simp add: owner_has_def get_set_def sample_col_def sample_list_def set_entries_def
        list_entries_def list_ranges_def)
  have "drop_owner 0 1 (col_entries sample_col) = {#(Exclusive, 2, make_range 20 0 1 0)#}"
    by (simp add: sample_entries drop_owner_def mode_of_def)
  then show ?thesis
    using LXX_Lock_oom_drops_owner [OF sample_wf _ _ valid free held, of 0] by auto
qed

section \<open>Unlocking\<close>

text \<open>C4. \<open>LXX_Unlock\<close> succeeds exactly when the caller holds a lock on precisely the given range;
  it then removes one such entry, the exclusive one if there is one, and otherwise it changes
  nothing.  The container stays well formed.\<close>
theorem LXX_Unlock_exact:
  assumes wf: "col_wf col" and h: "dwFile \<noteq> 0" and n: "nLow \<noteq> 0 \<or> nHigh \<noteq> 0"
    and r: "CRange_IsValid (make_range off offHigh nLow nHigh)"
  shows "\<exists>ok col'. LXX_Unlock (Some col) dwFile dwReserved nLow nHigh (Some (off, offHigh)) = Some (ok, Some col') \<and>
    (ok \<longleftrightarrow> (\<exists>m. (m, dwFile, make_range off offHigh nLow nHigh) \<in># col_entries col)) \<and>
    col_entries col' = col_entries col -
      {#(unlock_target col dwFile (make_range off offHigh nLow nHigh), dwFile, make_range off offHigh nLow nHigh)#} \<and>
    col_wf col'"
  by (rule unlock_step [OF wf h n r])

theorem LXX_Unlock_witness:
  "\<exists>col'. LXX_Unlock (Some sample_col) 1 0 10 0 (Some (0, 0)) = Some (True, Some col') \<and>
    col_entries col' = {#(Exclusive, 2, make_range 20 0 1 0)#} \<and> col_wf col'"
proof -
  have "\<exists>m. (m, 1, make_range 0 0 10 0) \<in># col_entries sample_col"
    by (simp add: sample_entries)
  moreover have "unlock_target sample_col 1 (make_range 0 0 10 0) = Shared"
    by (simp add: unlock_target_def sample_entries)
  ultimately show ?thesis
    using LXX_Unlock_exact [OF sample_wf _ _ small_range_valid, of 1 0]
    by (auto simp: sample_entries)
qed

text \<open>The two calls at once: no exclusive entry can sit on the range a granted request asked for.\<close>

lemma granted_target:
  assumes wf: "col_wf col" and r: "CRange_IsValid r" and free: "\<not> blocked col m r"
    and ent: "col_entries col' = add_mset (m, h, r) (col_entries col)"
  shows "unlock_target col' h r = m"
proof -
  have "\<not> (Exclusive, h, r) \<in># col_entries col"
    using free overlaps_refl [OF r] by (auto simp: blocked_def compatible_def)
  then show ?thesis by (cases m) (simp_all add: unlock_target_def ent)
qed

lemma add_mset_cancel_entry: "A = add_mset x B \<Longrightarrow> A - {#x#} = B"
  by simp

text \<open>C5. A granted lock followed by an unlock of the same range by the same handle gives back a
  container with exactly the entries of before, even when the handle held other locks or an equal
  shared lock; the unlock always succeeds.\<close>
theorem lock_unlock_roundtrip:
  assumes wf: "col_wf col" and h: "dwFile \<noteq> 0" and n: "nLow \<noteq> 0 \<or> nHigh \<noteq> 0"
    and r: "CRange_IsValid (make_range off offHigh nLow nHigh)"
    and lock: "LXX_Lock (Some col) dwFile dwFlags dwReserved nLow nHigh (Some (off, offHigh)) al =
       Some (LR_SUCCESS, Some col1)"
    and al: "la_set_range al"
  shows "\<exists>col2. LXX_Unlock (Some col1) dwFile dwReserved nLow nHigh (Some (off, offHigh)) = Some (True, Some col2) \<and>
    col_entries col2 = col_entries col \<and> col_wf col2"
proof -
  let ?r = "make_range off offHigh nLow nHigh" and ?m = "mode_of dwFlags"
  have sets: "col_sets_wf col" and comp: "all_compatible (col_entries col)"
    using wf by (simp_all add: col_wf_def)
  have ar: "la_range al" using lock h n by (auto simp: LXX_Lock_def split: if_splits)
  note run = LXX_Lock_run [OF sets h n ar r, of dwFlags dwReserved]
  obtain lr c where inst: "LXX_Lock_install col dwFile dwFlags ?r al = Some (lr, c)" "col_sets_wf c"
    and ent: "col_entries c =
      (if lr = LR_SUCCESS then add_mset (?m, dwFile, ?r) (col_entries col)
       else if la_lock al then col_entries col else drop_owner dwFlags dwFile (col_entries col))"
    using install_spec [OF sets h r al] by metis
  have free: "\<not> blocked col ?m ?r" and c: "c = col1" "lr = LR_SUCCESS"
    using run lock inst(1) by (auto split: if_splits)
  have ent1: "col_entries col1 = add_mset (?m, dwFile, ?r) (col_entries col)"
    using ent c by simp
  have "all_compatible (col_entries col1)"
    by (rule install_keeps_compatible [OF comp free ent [unfolded c(1)]])
  then have wf1: "col_wf col1" using inst(2) c(1) by (simp add: col_wf_def)
  have "unlock_target col1 dwFile ?r = ?m"
    by (rule granted_target [OF wf r free ent1])
  then show ?thesis
    using unlock_step [OF wf1 h n r, of dwReserved] ent1 by auto
qed

lemma fresh_lock_run:
  "LXX_Lock (Some CFileLockCollection_new) 1 2 0 10 0 (Some (0, 0)) alloc_ok =
     Some (LR_SUCCESS, Some \<lparr>fc_signature = SIG,
       fc_exclusive = Some \<lparr>fs_range = Some (make_range 0 0 10 0), fs_head = [sample_list 1 (make_range 0 0 10 0)]\<rparr>,
       fc_shared = None\<rparr>)"
  by code_simp

theorem lock_unlock_roundtrip_witness:
  "\<exists>col1 col2. LXX_Lock (Some CFileLockCollection_new) 1 2 0 10 0 (Some (0, 0)) alloc_ok =
      Some (LR_SUCCESS, Some col1) \<and>
    LXX_Unlock (Some col1) 1 0 10 0 (Some (0, 0)) = Some (True, Some col2) \<and> col_entries col2 = {#}"
  using lock_unlock_roundtrip [OF col_wf_new(1) _ _ small_range_valid fresh_lock_run] fresh_lock_run
  by (auto simp: alloc_ok_def col_wf_new)

text \<open>C6. Closing a handle: \<open>LXX_UnlockLocksOwnedByHandle\<close> removes every lock of the handle, in both
  modes, and no lock of another handle, and it keeps the container well formed.\<close>
theorem LXX_UnlockLocksOwnedByHandle_exact:
  assumes wf: "col_wf col" and h: "dwFile \<noteq> 0"
  shows "\<exists>col'. LXX_UnlockLocksOwnedByHandle (Some col) dwFile = Some (True, Some col') \<and>
    col_entries col' = filter_mset (\<lambda>(m, h', r). h' \<noteq> dwFile) (col_entries col) \<and> col_wf col'"
  by (rule unlock_all_step [OF wf h])

theorem LXX_UnlockLocksOwnedByHandle_witness:
  "\<exists>col'. LXX_UnlockLocksOwnedByHandle (Some sample_col) 2 = Some (True, Some col') \<and>
    col_entries col' = {#(Shared, 1, make_range 0 0 10 0)#}"
  using LXX_UnlockLocksOwnedByHandle_exact [OF sample_wf, of 2] by (auto simp: sample_entries)

section \<open>Authorizing reads and writes\<close>

lemma access_bytes:
  assumes "0 < unat nBytes" and "unat (make_u64 posLow posHigh) + unat nBytes \<le> 2 ^ 64"
  shows "CRange_IsValid (make_range posLow posHigh nBytes 0)"
    and "b \<in> range_bytes (make_range posLow posHigh nBytes 0) \<longleftrightarrow>
      unat (make_u64 posLow posHigh) \<le> unat b \<and> unat b < unat (make_u64 posLow posHigh) + unat nBytes"
proof -
  have len: "unat (make_u64 nBytes 0) = unat nBytes" by (simp add: unat_make_u64)
  show "CRange_IsValid (make_range posLow posHigh nBytes 0)"
    using assms by (simp add: make_range_valid_iff len)
  have "unat (m_ullFinish (make_range posLow posHigh nBytes 0)) =
      unat (make_u64 posLow posHigh) + unat nBytes - 1"
    using make_range_finish_exact [of nBytes 0 posLow posHigh] assms by (simp add: len)
  then show "b \<in> range_bytes (make_range posLow posHigh nBytes 0) \<longleftrightarrow>
      unat (make_u64 posLow posHigh) \<le> unat b \<and> unat b < unat (make_u64 posLow posHigh) + unat nBytes"
    using assms by (auto simp: range_bytes_def word_le_nat_alt simp del: make_range_finish)
qed

text \<open>C3. For a non-empty access within the 64-bit file space, \<open>LXX_AuthorizeAccess\<close> answers
  yes exactly when no byte of the access is in another handle's exclusive lock and, for a
  write, no byte of it is in anybody's shared lock, the caller's own included.\<close>
theorem LXX_AuthorizeAccess_exact:
  assumes wf: "col_wf col" and h: "dwFile \<noteq> 0" and n: "0 < unat nBytes"
    and fits: "unat (make_u64 posLow posHigh) + unat nBytes \<le> 2 ^ 64"
  shows "\<exists>ok. LXX_AuthorizeAccess (Some col) dwFile fRead posLow posHigh nBytes = Some ok \<and>
    (ok \<longleftrightarrow> (\<forall>m h' q b. (m, h', q) \<in># col_entries col \<longrightarrow> b \<in> range_bytes q \<longrightarrow>
        unat (make_u64 posLow posHigh) \<le> unat b \<and> unat b < unat (make_u64 posLow posHigh) + unat nBytes \<longrightarrow>
        (case m of Exclusive \<Rightarrow> h' = dwFile | Shared \<Rightarrow> fRead)))"
proof -
  let ?r = "make_range posLow posHigh nBytes 0"
  have sets: "col_sets_wf col" using wf by (simp add: col_wf_def)
  have valid: "CRange_IsValid q" if "(m, h', q) \<in># col_entries col" for m h' q
    using col_entries_valid [OF sets that] .
  have ov: "overlaps q ?r \<longleftrightarrow> (\<exists>b \<in> range_bytes q.
      unat (make_u64 posLow posHigh) \<le> unat b \<and> unat b < unat (make_u64 posLow posHigh) + unat nBytes)"
    if "(m, h', q) \<in># col_entries col" for m h' q
    using overlaps_iff_bytes [OF valid [OF that] access_bytes(1) [OF n fits]] access_bytes(2) [OF n fits]
    by blast
  note run = authorize_run [OF sets h access_bytes(1) [OF n fits], of fRead, unfolded opt_entries_Ball]
  show ?thesis
    unfolding run all_lockmode using ov by (simp cong: conj_cong) blast
qed

theorem LXX_AuthorizeAccess_witness:
  "LXX_AuthorizeAccess (Some sample_col) 1 False 15 0 5 = Some True \<and>
   LXX_AuthorizeAccess (Some sample_col) 1 False 5 0 3 = Some False"
proof
  show "LXX_AuthorizeAccess (Some sample_col) 1 False 15 0 5 = Some True"
    using LXX_AuthorizeAccess_exact [OF sample_wf, of 1 5 15 0 False]
    by (auto simp: sample_entries unat_make_u64 range_bytes_def sample_ranges word_le_nat_alt)
  have "\<exists>b :: ULONGLONG. unat b \<le> 9 \<and> 5 \<le> unat b \<and> unat b < 8"
    by (rule exI [of _ 5]) simp
  then show "LXX_AuthorizeAccess (Some sample_col) 1 False 5 0 3 = Some False"
    using LXX_AuthorizeAccess_exact [OF sample_wf, of 1 3 5 0 False]
    by (auto simp: sample_entries unat_make_u64 range_bytes_def sample_ranges word_le_nat_alt)
qed

text \<open>An access of no bytes is refused at every file position but 0, where it is treated as
  an access to the whole file: there it is granted to a reader exactly when no other handle
  holds any exclusive lock, and to a writer only if moreover nobody holds a shared lock.\<close>
theorem LXX_AuthorizeAccess_empty:
  assumes wf: "col_wf col" and h: "dwFile \<noteq> 0"
  shows "LXX_AuthorizeAccess (Some col) dwFile fRead posLow posHigh 0 =
    Some (posLow = 0 \<and> posHigh = 0 \<and>
      (\<forall>m h' q. (m, h', q) \<in># col_entries col \<longrightarrow>
         (case m of Exclusive \<Rightarrow> h' = dwFile | Shared \<Rightarrow> fRead)))"
proof -
  have sets: "col_sets_wf col" using wf by (simp add: col_wf_def)
  have zero: "unat (make_u64 posLow posHigh) = 0 \<longleftrightarrow> posLow = 0 \<and> posHigh = 0"
    by (simp add: unat_make_u64 unat_eq_0)
  have valid: "CRange_IsValid (make_range posLow posHigh 0 0) \<longleftrightarrow> posLow = 0 \<and> posHigh = 0"
    using zero by (simp add: make_range_valid_iff unat_make_u64)
  show ?thesis
  proof (cases "posLow = 0 \<and> posHigh = 0")
    case False
    then show ?thesis
      using valid col_sets_wfD(1) [OF sets] h by (auto simp: LXX_AuthorizeAccess_def Let_def)
  next
    case True
    have z: "make_u64 0 0 = 0" by (simp add: make_u64_def)
    have "overlaps q (make_range 0 0 0 0)" for q
      using word_max_ge [of "m_ullStart q"] by (simp add: overlaps_def z CRANGE_MAX_START_def not_less)
    then show ?thesis
      using authorize_run [OF sets h, of posLow posHigh 0 fRead, unfolded opt_entries_Ball] True valid
      unfolding all_lockmode by (simp, blast)
  qed
qed

theorem LXX_AuthorizeAccess_empty_witness:
  "LXX_AuthorizeAccess (Some sample_col) 1 True 30 0 0 = Some False \<and>
   LXX_AuthorizeAccess (Some sample_col) 1 True 0 0 0 = Some False \<and>
   LXX_AuthorizeAccess (Some sample_col) 2 True 0 0 0 = Some True"
  using LXX_AuthorizeAccess_empty [OF sample_wf, of 1 True] LXX_AuthorizeAccess_empty [OF sample_wf, of 2 True]
  by (auto simp: sample_entries)

end
