(* ===== verification/Lock_Mgr.thy ===== *)
theory Lock_Mgr
  imports Lock_Api
begin

text \<open>
  The lock manager that file systems call (\<open>LOCKMGR/lockmgr.cpp\<close>).  Its state per open file is
  the \<open>FILELOCKSTATE\<close> that the file system keeps: the lock container, the number of queued
  threads, the unlock event and the terminal flag.  The two callbacks of the file system,
  \<open>acquire\<close> and \<open>release\<close>, are arguments: acquiring enters the file's critical section and
  yields the state with the caller's access rights and file position filled in; releasing may
  fail, which leaves the critical section entered.

  The body of \<open>FSDMGR_InstallFileLock\<close> between acquiring and releasing runs under the critical
  section, so one round of it is one function; the retry after the wait is the step relation
  in \<open>Lock_Protocol\<close>.  The outcomes of the operating system's calls are the fields of \<open>os_calls\<close>.
\<close>

section \<open>State and callbacks\<close>

text \<open>The event is absent (null handle), or present and signaled or not.\<close>

record filelockstate =
  ls_dwPosLow :: DWORD
  ls_dwPosHigh :: DWORD
  ls_dwAccess :: DWORD
  ls_cQueue :: DWORD
  ls_fTerminal :: bool
  ls_hevUnlock :: "bool option"
  ls_pvLockContainer :: "cfilelockcollection option"

type_synonym acquire_fn = "DWORD \<Rightarrow> filelockstate \<Rightarrow> filelockstate option"
type_synonym release_fn = "DWORD \<Rightarrow> filelockstate \<Rightarrow> bool"

record os_calls =
  os_container :: bool
  os_alloc :: lock_alloc
  os_create_event :: bool
  os_set_event :: bool
  os_pulse_event :: bool

definition GENERIC_READ :: DWORD where "GENERIC_READ = 0x80000000"
definition GENERIC_WRITE :: DWORD where "GENERIC_WRITE = 0x40000000"

datatype signal = NoSignal | Pulsed | Signaled

definition SetEvent :: "os_calls \<Rightarrow> filelockstate \<Rightarrow> bool \<times> filelockstate" where
  "SetEvent os st =
     (case ls_hevUnlock st of
        None \<Rightarrow> (False, st)
      | Some _ \<Rightarrow> if os_set_event os then (True, st\<lparr>ls_hevUnlock := Some True\<rparr>) else (False, st))"

definition PulseEvent :: "os_calls \<Rightarrow> filelockstate \<Rightarrow> bool \<times> filelockstate" where
  "PulseEvent os st =
     (case ls_hevUnlock st of
        None \<Rightarrow> (False, st)
      | Some _ \<Rightarrow> if os_pulse_event os then (True, st\<lparr>ls_hevUnlock := Some False\<rparr>) else (False, st))"

text \<open>
  The outcome of one round: what the function does next (return, or wait for the event and
  try again), the signal it sent to the threads blocked on the event, whether the critical
  section was left, and the state.
\<close>

datatype next_action = Return bool | WaitForUnlock

type_synonym round_out = "next_action \<times> signal \<times> bool \<times> filelockstate"

text \<open>The common tail at the label \<open>release\<close>.\<close>

definition release_and_return :: "release_fn \<Rightarrow> DWORD \<Rightarrow> bool \<Rightarrow> signal \<Rightarrow> filelockstate \<Rightarrow> round_out" where
  "release_and_return rel h f sg st =
     (if \<not> rel h st then (Return False, sg, False, st) else (Return f, sg, True, st))"

section \<open>Installing a lock\<close>

record lockreq =
  rq_handle :: DWORD
  rq_flags :: DWORD
  rq_reserved :: DWORD
  rq_nLow :: DWORD
  rq_nHigh :: DWORD
  rq_overlapped :: "(DWORD \<times> DWORD) option"

text \<open>The case \<open>LR_CONFLICT\<close>: make sure the event exists, bump the wait count, release, wait.\<close>

definition InstallFileLock_conflict ::
    "release_fn \<Rightarrow> os_calls \<Rightarrow> DWORD \<Rightarrow> filelockstate \<Rightarrow> round_out" where
  "InstallFileLock_conflict rel os h st =
     (case (case ls_hevUnlock st of
              Some e \<Rightarrow> Some st
            | None \<Rightarrow> if os_create_event os then Some (st\<lparr>ls_hevUnlock := Some False\<rparr>) else None) of
        None \<Rightarrow> release_and_return rel h False NoSignal st
      | Some st \<Rightarrow>
          let st = st\<lparr>ls_cQueue := ls_cQueue st + 1\<rparr> in
          if \<not> rel h st then (Return False, NoSignal, False, st)
          else (WaitForUnlock, NoSignal, True, st))"

definition FSDMGR_InstallFileLock_round ::
    "acquire_fn \<Rightarrow> release_fn \<Rightarrow> os_calls \<Rightarrow> lockreq \<Rightarrow> bool \<Rightarrow> filelockstate \<Rightarrow> round_out option" where
  "FSDMGR_InstallFileLock_round acq rel os rq fWait st =
     (let h = rq_handle rq in
      case acq h st of
        None \<Rightarrow> Some (Return False, NoSignal, True, st)
      | Some st \<Rightarrow>
          let st = (if fWait then st\<lparr>ls_cQueue := ls_cQueue st - 1\<rparr> else st) in
          if ls_fTerminal st then
            (if ls_cQueue st = 0
             then (case SetEvent os st of
                     (ok, st) \<Rightarrow> Some (release_and_return rel h False (if ok then Signaled else NoSignal) st))
             else Some (release_and_return rel h False NoSignal st))
          else if ls_dwAccess st AND (GENERIC_READ OR GENERIC_WRITE) = 0
            then Some (release_and_return rel h False NoSignal st)
          else
            case (case ls_pvLockContainer st of
                    Some col \<Rightarrow> Some col
                  | None \<Rightarrow> LXX_CreateLockContainer (os_container os)) of
              None \<Rightarrow> Some (release_and_return rel h False NoSignal st)
            | Some col \<Rightarrow> do {
                (lr, pv) \<leftarrow> LXX_Lock (Some col) h (rq_flags rq) (rq_reserved rq) (rq_nLow rq) (rq_nHigh rq)
                              (rq_overlapped rq) (os_alloc os);
                let st = st\<lparr>ls_pvLockContainer := pv\<rparr>;
                Some (case lr of
                        LR_ERROR \<Rightarrow> release_and_return rel h False NoSignal st
                      | LR_CONFLICT \<Rightarrow> InstallFileLock_conflict rel os h st
                      | LR_SUCCESS \<Rightarrow> release_and_return rel h True NoSignal st)
              })"

section \<open>Removing locks\<close>

text \<open>
  What the two removing functions do after a successful removal: wake the queued threads, or
  free an empty container.
\<close>

definition after_unlock :: "os_calls \<Rightarrow> filelockstate \<Rightarrow> bool \<times> signal \<times> filelockstate" where
  "after_unlock os st =
     (if ls_cQueue st > 0
      then (case PulseEvent os st of (ok, st) \<Rightarrow> (ok, if ok then Pulsed else NoSignal, st))
      else if LXX_IsLockContainerEmpty (ls_pvLockContainer st)
           then (True, NoSignal, st\<lparr>ls_pvLockContainer := None\<rparr>)
           else (True, NoSignal, st))"

definition FSDMGR_RemoveFileLock ::
    "acquire_fn \<Rightarrow> release_fn \<Rightarrow> os_calls \<Rightarrow> DWORD \<Rightarrow> DWORD \<Rightarrow> DWORD \<Rightarrow> DWORD
     \<Rightarrow> (DWORD \<times> DWORD) option \<Rightarrow> filelockstate \<Rightarrow> round_out option" where
  "FSDMGR_RemoveFileLock acq rel os h dwReserved nLow nHigh ov st =
     (case acq h st of
        None \<Rightarrow> Some (Return False, NoSignal, True, st)
      | Some st \<Rightarrow>
          if ls_pvLockContainer st = None then Some (release_and_return rel h False NoSignal st)
          else do {
            (f, pv) \<leftarrow> LXX_Unlock (ls_pvLockContainer st) h dwReserved nLow nHigh ov;
            let st = st\<lparr>ls_pvLockContainer := pv\<rparr>;
            Some (if \<not> f then release_and_return rel h False NoSignal st
                  else case after_unlock os st of
                         (f, sg, st) \<Rightarrow> release_and_return rel h f sg st)
          })"

definition FSDMGR_RemoveFileLockEx ::
    "acquire_fn \<Rightarrow> release_fn \<Rightarrow> os_calls \<Rightarrow> DWORD \<Rightarrow> filelockstate \<Rightarrow> round_out option" where
  "FSDMGR_RemoveFileLockEx acq rel os h st =
     (case acq h st of
        None \<Rightarrow> Some (Return False, NoSignal, True, st)
      | Some st \<Rightarrow>
          if ls_pvLockContainer st = None then Some (release_and_return rel h True NoSignal st)
          else do {
            (f, pv) \<leftarrow> LXX_UnlockLocksOwnedByHandle (ls_pvLockContainer st) h;
            let st = st\<lparr>ls_pvLockContainer := pv\<rparr>;
            Some (if \<not> f then release_and_return rel h False NoSignal st
                  else case after_unlock os st of
                         (f, sg, st) \<Rightarrow> release_and_return rel h f sg st)
          })"

section \<open>Testing an access\<close>

definition FSDMGR_TestFileLockEx ::
    "acquire_fn \<Rightarrow> release_fn \<Rightarrow> DWORD \<Rightarrow> bool \<Rightarrow> DWORD \<Rightarrow> DWORD \<Rightarrow> DWORD \<Rightarrow> filelockstate
     \<Rightarrow> round_out option" where
  "FSDMGR_TestFileLockEx acq rel h fRead cbReadWrite dwOffsetLow dwOffsetHigh st =
     (case acq h st of
        None \<Rightarrow> Some (Return False, NoSignal, True, st)
      | Some st \<Rightarrow>
          if ls_pvLockContainer st = None then Some (release_and_return rel h True NoSignal st)
          else do {
            f \<leftarrow> LXX_AuthorizeAccess (ls_pvLockContainer st) h fRead dwOffsetLow dwOffsetHigh cbReadWrite;
            Some (release_and_return rel h f NoSignal st)
          })"

text \<open>\<open>FSDMGR_TestFileLock\<close> uses the file position found in the acquired state.\<close>

definition FSDMGR_TestFileLock ::
    "acquire_fn \<Rightarrow> release_fn \<Rightarrow> DWORD \<Rightarrow> bool \<Rightarrow> DWORD \<Rightarrow> filelockstate \<Rightarrow> round_out option" where
  "FSDMGR_TestFileLock acq rel h fRead cbReadWrite st =
     (case acq h st of
        None \<Rightarrow> Some (Return False, NoSignal, True, st)
      | Some st \<Rightarrow>
          if ls_pvLockContainer st = None then Some (release_and_return rel h True NoSignal st)
          else do {
            f \<leftarrow> LXX_AuthorizeAccess (ls_pvLockContainer st) h fRead (ls_dwPosLow st) (ls_dwPosHigh st) cbReadWrite;
            Some (release_and_return rel h f NoSignal st)
          })"

section \<open>Emptying the container when the file is closed\<close>

text \<open>
  The part before the wait.  The flag says whether the caller goes on to wait for the event;
  if it does not, the container has been destroyed.
\<close>

definition FSDMGR_EmptyLockContainer_begin ::
    "os_calls \<Rightarrow> filelockstate \<Rightarrow> bool \<times> signal \<times> filelockstate" where
  "FSDMGR_EmptyLockContainer_begin os st =
     (if ls_pvLockContainer st = None then (False, NoSignal, st)
      else if ls_cQueue st > 0
      then (case PulseEvent os (st\<lparr>ls_fTerminal := True\<rparr>) of
              (ok, st) \<Rightarrow>
                if \<not> ok then (False, NoSignal, st\<lparr>ls_pvLockContainer := None\<rparr>)
                else (True, Pulsed, st))
      else (False, NoSignal, st\<lparr>ls_pvLockContainer := None\<rparr>))"

definition FSDMGR_EmptyLockContainer_end :: "filelockstate \<Rightarrow> filelockstate" where
  "FSDMGR_EmptyLockContainer_end st = st\<lparr>ls_pvLockContainer := None\<rparr>"

end
