(* ===== verification/Lock_Effects.thy ===== *)
theory Lock_Effects
  imports Lock_Mgr Lock_Run
begin

text \<open>
  The contract that the lock manager's functions expect of the file system's acquire callback,
  the FAT file system's callbacks as an instance of it, and the effect of one round or one
  call on the lock state: what it leaves alone, what it changes and which signal it sends.
\<close>

section \<open>The contract of the acquire callback\<close>

locale lock_callbacks =
  fixes acquire :: acquire_fn
  assumes keeps: "acquire h st = Some st' \<Longrightarrow>
    ls_cQueue st' = ls_cQueue st \<and> ls_fTerminal st' = ls_fTerminal st \<and>
    ls_hevUnlock st' = ls_hevUnlock st \<and> ls_pvLockContainer st' = ls_pvLockContainer st"
begin

lemma keeps_simps:
  assumes "acquire h st = Some st'"
  shows "ls_cQueue st' = ls_cQueue st" "ls_fTerminal st' = ls_fTerminal st"
    "ls_hevUnlock st' = ls_hevUnlock st" "ls_pvLockContainer st' = ls_pvLockContainer st"
  using keeps [OF assms] by simp_all

end

text \<open>
  The callbacks of the FAT file system (\<open>FATFS/file.c\<close>): a handle is unusable when it is a
  volume handle or its volume is unmounted, or when the stream has no critical section.
\<close>

record fhandle =
  fh_pos :: DWORD
  fh_unusable :: bool
  fh_write :: bool
  fh_read :: bool

definition FAT_AcquireFileLockState :: "(DWORD \<Rightarrow> fhandle) \<Rightarrow> bool \<Rightarrow> acquire_fn" where
  "FAT_AcquireFileLockState handles has_lpcs dwPfh st =
     (let pfh = handles dwPfh in
      if fh_unusable pfh then None
      else if \<not> has_lpcs then None
      else Some (st\<lparr>ls_dwPosLow := fh_pos pfh, ls_dwPosHigh := 0,
        ls_dwAccess := (if fh_write pfh then GENERIC_WRITE else 0) OR
                       (if fh_read pfh then GENERIC_READ else 0)\<rparr>))"

definition FAT_ReleaseFileLockState :: "(DWORD \<Rightarrow> fhandle) \<Rightarrow> bool \<Rightarrow> release_fn" where
  "FAT_ReleaseFileLockState handles has_lpcs dwPfh st =
     (let pfh = handles dwPfh in if fh_unusable pfh then False else has_lpcs)"

interpretation fat_callbacks: lock_callbacks "FAT_AcquireFileLockState handles has_lpcs"
  by unfold_locales (auto simp: FAT_AcquireFileLockState_def Let_def split: if_splits)

definition acquire_keeps :: "acquire_fn \<Rightarrow> bool" where
  "acquire_keeps acq \<longleftrightarrow> lock_callbacks acq"

lemma acquire_keepsD:
  assumes "acquire_keeps acq" and "acq h st = Some st'"
  shows "ls_cQueue st' = ls_cQueue st" "ls_fTerminal st' = ls_fTerminal st"
    "ls_hevUnlock st' = ls_hevUnlock st" "ls_pvLockContainer st' = ls_pvLockContainer st"
  using assms lock_callbacks.keeps_simps unfolding acquire_keeps_def by blast+

lemma FAT_acquire_keeps: "acquire_keeps (FAT_AcquireFileLockState handles has_lpcs)"
  unfolding acquire_keeps_def by (rule fat_callbacks.lock_callbacks_axioms)

section \<open>The effect of a round of installing\<close>

definition st_ok :: "filelockstate \<Rightarrow> bool" where
  "st_ok st \<longleftrightarrow> (\<forall>col. ls_pvLockContainer st = Some col \<longrightarrow> col_wf col)"

definition dec_if :: "bool \<Rightarrow> DWORD \<Rightarrow> DWORD" where
  "dec_if b q = (if b then q - 1 else q)"

lemma SetEvent_cases:
  obtains "SetEvent os st = (False, st)" "os_set_event os \<longrightarrow> ls_hevUnlock st = None"
  | "SetEvent os st = (True, st\<lparr>ls_hevUnlock := Some True\<rparr>)" "ls_hevUnlock st \<noteq> None"
  by (cases "ls_hevUnlock st"; cases "os_set_event os") (auto simp: SetEvent_def)

lemma release_and_return_eq:
  "release_and_return rel h f sg st = (Return (rel h st \<and> f), sg, rel h st, st)"
  by (simp add: release_and_return_def)

lemma conflict_eq:
  "InstallFileLock_conflict rel os h st =
    (if ls_hevUnlock st = None \<and> \<not> os_create_event os then release_and_return rel h False NoSignal st
     else (let st' = st\<lparr>ls_hevUnlock := Some (ls_hevUnlock st = Some True), ls_cQueue := ls_cQueue st + 1\<rparr>
           in (if rel h st' then WaitForUnlock else Return False, NoSignal, rel h st', st')))"
  by (cases st; cases "ls_hevUnlock st") (auto simp: InstallFileLock_conflict_def Let_def)

text \<open>What a round leaves alone and what it changes.\<close>

lemma install_round_effect:
  assumes acq: "acquire_keeps acq" "acq (rq_handle rq) st = Some st0" and ok: "st_ok st" and al: "la_set_range (os_alloc os)"
    and run: "FSDMGR_InstallFileLock_round acq rel os rq fWait st = Some (act, sg, left, st')"
  shows "st_ok st' \<and> ls_fTerminal st' = ls_fTerminal st \<and>
    (left \<longrightarrow> ls_cQueue st' = dec_if fWait (ls_cQueue st) + (if act = WaitForUnlock then 1 else 0)) \<and>
    (act = WaitForUnlock \<longrightarrow> left \<and> \<not> ls_fTerminal st \<and> ls_hevUnlock st' \<noteq> None) \<and>
    sg \<noteq> Pulsed \<and>
    (sg = Signaled \<longrightarrow> ls_hevUnlock st' = Some True \<and> ls_fTerminal st) \<and>
    (sg = NoSignal \<longrightarrow> ls_hevUnlock st' = ls_hevUnlock st \<or>
       ls_hevUnlock st = None \<and> ls_hevUnlock st' = Some False) \<and>
    (ls_fTerminal st \<and> dec_if fWait (ls_cQueue st) = 0 \<and> os_set_event os \<and> ls_hevUnlock st \<noteq> None
       \<longrightarrow> sg = Signaled)"
proof -
  note keep = acquire_keepsD [OF acq]
  define st1 where "st1 = (if fWait then st0\<lparr>ls_cQueue := ls_cQueue st0 - 1\<rparr> else st0)"
  have st1: "ls_cQueue st1 = dec_if fWait (ls_cQueue st)" "ls_fTerminal st1 = ls_fTerminal st"
    "ls_hevUnlock st1 = ls_hevUnlock st" "ls_pvLockContainer st1 = ls_pvLockContainer st"
    by (simp_all add: st1_def dec_if_def keep)
  have ok1: "st_ok st1" using ok by (simp add: st_ok_def st1)
  note run1 = run [unfolded FSDMGR_InstallFileLock_round_def Let_def acq(2) option.case st1_def [symmetric]]
  show ?thesis
  proof (cases "ls_fTerminal st1")
    case True
    show ?thesis
    proof (cases "ls_cQueue st1 = 0")
      case q: True
      show ?thesis
        by (rule SetEvent_cases [of os st1])
          (use run1 True q ok1 st1 in \<open>auto simp: release_and_return_eq st_ok_def\<close>)
    next
      case False
      with run1 True ok1 st1 show ?thesis by (auto simp: release_and_return_eq)
    qed
  next
    case live: False
    show ?thesis
    proof (cases "ls_dwAccess st1 AND (GENERIC_READ OR GENERIC_WRITE) = 0")
      case True
      with run1 live ok1 st1 show ?thesis by (auto simp: release_and_return_eq)
    next
      case acc: False
      let ?pick = "case ls_pvLockContainer st1 of Some col \<Rightarrow> Some col
                   | None \<Rightarrow> LXX_CreateLockContainer (os_container os)"
      show ?thesis
      proof (cases ?pick)
        case None
        with run1 live acc ok1 st1 show ?thesis by (auto simp: release_and_return_eq)
      next
        case (Some col)
        have "col_wf col"
          using Some ok1 col_wf_new(1) by (auto simp: st_ok_def LXX_CreateLockContainer_def split: option.splits if_splits)
        then obtain lr col' where lock: "LXX_Lock (Some col) (rq_handle rq) (rq_flags rq) (rq_reserved rq) (rq_nLow rq)
            (rq_nHigh rq) (rq_overlapped rq) (os_alloc os) = Some (lr, Some col')" and wf': "col_wf col'"
          using LXX_Lock_safe [of col "os_alloc os"] al by blast
        have st_ok': "st_ok (st1\<lparr>ls_pvLockContainer := Some col'\<rparr>)" using wf' by (simp add: st_ok_def)
        from run1 live acc Some lock have "(act, sg, left, st') =
            (case lr of LR_ERROR \<Rightarrow> release_and_return rel (rq_handle rq) False NoSignal (st1\<lparr>ls_pvLockContainer := Some col'\<rparr>)
             | LR_CONFLICT \<Rightarrow> InstallFileLock_conflict rel os (rq_handle rq) (st1\<lparr>ls_pvLockContainer := Some col'\<rparr>)
             | LR_SUCCESS \<Rightarrow> release_and_return rel (rq_handle rq) True NoSignal (st1\<lparr>ls_pvLockContainer := Some col'\<rparr>))"
          by simp
        with st_ok' st1 live show ?thesis
          by (cases lr; cases "ls_hevUnlock st")
            (auto simp: release_and_return_eq conflict_eq Let_def st_ok_def split: if_splits)
      qed
    qed
  qed
qed

text \<open>The effect the other calls share: they never change the queue or the terminal flag.\<close>

definition call_effect :: "filelockstate \<Rightarrow> signal \<Rightarrow> filelockstate \<Rightarrow> bool" where
  "call_effect st sg st' \<longleftrightarrow>
     (st_ok st \<longrightarrow> st_ok st') \<and> ls_fTerminal st' = ls_fTerminal st \<and> ls_cQueue st' = ls_cQueue st \<and>
     sg \<noteq> Signaled \<and>
     (sg = Pulsed \<longrightarrow> ls_cQueue st \<noteq> 0 \<and> ls_hevUnlock st' = Some False) \<and>
     (sg = NoSignal \<longrightarrow> ls_hevUnlock st' = ls_hevUnlock st)"

lemma call_effect_same:
  assumes "acquire_keeps acq" and "acq h st = Some st0"
  shows "call_effect st NoSignal st0"
  using acquire_keepsD [OF assms] by (simp add: call_effect_def st_ok_def)

lemma after_unlock_effect:
  assumes "after_unlock os (st\<lparr>ls_pvLockContainer := Some col\<rparr>) = (f, sg, st')" and "col_wf col"
  shows "call_effect st sg st'"
  using assms
  by (auto simp: after_unlock_def PulseEvent_def word_gt_0 st_ok_def call_effect_def split: if_splits option.splits)

lemma call_effect_trans:
  "call_effect st NoSignal st0 \<Longrightarrow> call_effect st0 sg st' \<Longrightarrow> call_effect st sg st'"
  by (auto simp: call_effect_def)

lemma LXX_Unlock_safe:
  assumes "col_wf col"
  obtains ok col' where "LXX_Unlock (Some col) h dwReserved nLow nHigh ov = Some (ok, Some col')" "col_wf col'"
proof (cases "h = 0 \<or> ov = None \<or> (nLow = 0 \<and> nHigh = 0) \<or>
    \<not> CRange_IsValid (make_range (fst (the ov)) (snd (the ov)) nLow nHigh)")
  case True
  then have "LXX_Unlock (Some col) h dwReserved nLow nHigh ov = Some (False, Some col)"
    by (cases ov) (auto simp: LXX_Unlock_def Let_def)
  with assms that show ?thesis by blast
next
  case False
  then obtain off offHigh where "ov = Some (off, offHigh)" by auto
  with False unlock_step [OF assms, of h nLow nHigh off offHigh dwReserved] that show ?thesis by auto
qed

lemma LXX_UnlockAll_safe:
  assumes "col_wf col"
  obtains ok col' where "LXX_UnlockLocksOwnedByHandle (Some col) h = Some (ok, Some col')" "col_wf col'"
proof (cases "h = 0")
  case True
  with assms that [of False col] show ?thesis by (simp add: LXX_UnlockLocksOwnedByHandle_def)
next
  case False
  with unlock_all_step [OF assms] that show ?thesis by blast
qed

lemma remove_effect:
  assumes acq: "acquire_keeps acq" and ok: "st_ok st"
    and run: "FSDMGR_RemoveFileLock acq rel os h dwReserved nLow nHigh ov st = Some (act, sg, left, st')"
  shows "call_effect st sg st'"
proof (cases "acq h st")
  case None
  with run show ?thesis by (auto simp: FSDMGR_RemoveFileLock_def call_effect_def)
next
  case (Some st0)
  note same = call_effect_same [OF acq Some]
  show ?thesis
  proof (cases "ls_pvLockContainer st0")
    case None
    with run Some same show ?thesis
      by (auto simp: FSDMGR_RemoveFileLock_def release_and_return_eq)
  next
    case (Some col)
    have "col_wf col" using same ok Some by (auto simp: call_effect_def st_ok_def)
    then obtain f col' where ul: "LXX_Unlock (Some col) h dwReserved nLow nHigh ov = Some (f, Some col')"
      and wf': "col_wf col'" by (rule LXX_Unlock_safe)
    obtain f' sg' st2 where au: "after_unlock os (st0\<lparr>ls_pvLockContainer := Some col'\<rparr>) = (f', sg', st2)"
      by (cases "after_unlock os (st0\<lparr>ls_pvLockContainer := Some col'\<rparr>)")
    have "call_effect st0 NoSignal (st0\<lparr>ls_pvLockContainer := Some col'\<rparr>)"
      using wf' by (simp add: call_effect_def st_ok_def)
    moreover note after_unlock_effect [OF au wf']
    ultimately have "call_effect st0 sg st'"
      using run \<open>acq h st = Some st0\<close> Some ul au
      by (auto simp: FSDMGR_RemoveFileLock_def release_and_return_eq Let_def split: if_splits)
    then show ?thesis by (rule call_effect_trans [OF same])
  qed
qed

lemma remove_all_effect:
  assumes acq: "acquire_keeps acq" and ok: "st_ok st"
    and run: "FSDMGR_RemoveFileLockEx acq rel os h st = Some (act, sg, left, st')"
  shows "call_effect st sg st'"
proof (cases "acq h st")
  case None
  with run show ?thesis by (auto simp: FSDMGR_RemoveFileLockEx_def call_effect_def)
next
  case (Some st0)
  note same = call_effect_same [OF acq Some]
  show ?thesis
  proof (cases "ls_pvLockContainer st0")
    case None
    with run Some same show ?thesis
      by (auto simp: FSDMGR_RemoveFileLockEx_def release_and_return_eq)
  next
    case (Some col)
    have "col_wf col" using same ok Some by (auto simp: call_effect_def st_ok_def)
    then obtain f col' where ul: "LXX_UnlockLocksOwnedByHandle (Some col) h = Some (f, Some col')"
      and wf': "col_wf col'" by (rule LXX_UnlockAll_safe)
    obtain f' sg' st2 where au: "after_unlock os (st0\<lparr>ls_pvLockContainer := Some col'\<rparr>) = (f', sg', st2)"
      by (cases "after_unlock os (st0\<lparr>ls_pvLockContainer := Some col'\<rparr>)")
    have "call_effect st0 NoSignal (st0\<lparr>ls_pvLockContainer := Some col'\<rparr>)"
      using wf' by (simp add: call_effect_def st_ok_def)
    moreover note after_unlock_effect [OF au wf']
    ultimately have "call_effect st0 sg st'"
      using run \<open>acq h st = Some st0\<close> Some ul au
      by (auto simp: FSDMGR_RemoveFileLockEx_def release_and_return_eq Let_def split: if_splits)
    then show ?thesis by (rule call_effect_trans [OF same])
  qed
qed

lemma test_effect:
  assumes acq: "acquire_keeps acq"
  shows "FSDMGR_TestFileLockEx acq rel h fRead n offLow offHigh st = Some (act, sg, left, st') \<Longrightarrow>
      call_effect st sg st'"
    and "FSDMGR_TestFileLock acq rel h fRead n st = Some (act, sg, left, st') \<Longrightarrow> call_effect st sg st'"
  using call_effect_same [OF acq, of h st]
  by (auto simp: FSDMGR_TestFileLockEx_def FSDMGR_TestFileLock_def release_and_return_eq bind_Some_iff
      call_effect_def split: option.splits if_splits)

end
