(* ===== verification/Lock_Protocol.thy ===== *)
theory Lock_Protocol
  imports Lock_Effects
begin

text \<open>
  The lock manager with many calls in progress.  A world is the file's lock state together
  with the calls that are between rounds: counted and released but not yet waiting, blocked in
  the wait, woken, and those that returned without giving their count back.  A step is one round
  of a call under the file's critical section, or one transition of the wait.  A pulse wakes
  only the calls that are already blocked, which is the documented behaviour of \<open>PulseEvent\<close>.

  The file system's acquire callback is chosen anew at every step, from those that keep the
  contract \<open>acquire_keeps\<close>; the release callback is any function.
\<close>

section \<open>Worlds and steps\<close>

datatype closer = NotClosing | CloserReleased | CloserWaiting | CloserWoken | Closed

record lock_world =
  w_state :: filelockstate
  w_held :: bool
  w_released :: "lockreq multiset"
  w_waiting :: "lockreq multiset"
  w_woken :: "lockreq multiset"
  w_failed :: "lockreq multiset"
  w_closer :: closer

definition queued :: "lock_world \<Rightarrow> nat" where
  "queued w = size (w_released w) + size (w_waiting w) + size (w_woken w) + size (w_failed w)"

text \<open>Both signals wake the blocked calls; they differ in the state of the event afterwards.\<close>

definition wake :: "signal \<Rightarrow> lock_world \<Rightarrow> lock_world" where
  "wake sg w =
     (if sg = NoSignal then w
      else w\<lparr>w_waiting := {#}, w_woken := w_woken w + w_waiting w,
             w_closer := (if w_closer w = CloserWaiting then CloserWoken else w_closer w)\<rparr>)"

definition after_round :: "lock_world \<Rightarrow> lockreq \<Rightarrow> round_out \<Rightarrow> lock_world" where
  "after_round w rq out =
     (case out of (act, sg, left, st) \<Rightarrow>
        (let w = wake sg (w\<lparr>w_state := st, w_held := \<not> left\<rparr>) in
         if act = WaitForUnlock then w\<lparr>w_released := add_mset rq (w_released w)\<rparr> else w))"

definition after_call :: "lock_world \<Rightarrow> round_out \<Rightarrow> lock_world" where
  "after_call w out = (case out of (act, sg, left, st) \<Rightarrow> wake sg (w\<lparr>w_state := st, w_held := \<not> left\<rparr>))"

text \<open>
  New calls of the interface.  The parameter restricts the outcomes of the system calls.  The
  bound on the queue says that there are fewer than \<open>2 ^ 32 - 1\<close> threads.
\<close>

inductive call_step :: "(os_calls \<Rightarrow> bool) \<Rightarrow> lock_world \<Rightarrow> lock_world \<Rightarrow> bool" for P where
  install: "\<lbrakk>\<not> w_held w; P os; acquire_keeps acq; queued w < 2 ^ 32 - 1;
     FSDMGR_InstallFileLock_round acq rel os rq False (w_state w) = Some out\<rbrakk>
     \<Longrightarrow> call_step P w (after_round w rq out)"
| remove: "\<lbrakk>\<not> w_held w; P os; acquire_keeps acq;
     FSDMGR_RemoveFileLock acq rel os h dwReserved nLow nHigh ov (w_state w) = Some out\<rbrakk>
     \<Longrightarrow> call_step P w (after_call w out)"
| remove_all: "\<lbrakk>\<not> w_held w; P os; acquire_keeps acq;
     FSDMGR_RemoveFileLockEx acq rel os h (w_state w) = Some out\<rbrakk>
     \<Longrightarrow> call_step P w (after_call w out)"
| test_at: "\<lbrakk>\<not> w_held w; acquire_keeps acq;
     FSDMGR_TestFileLockEx acq rel h fRead n offLow offHigh (w_state w) = Some out\<rbrakk>
     \<Longrightarrow> call_step P w (after_call w out)"
| test: "\<lbrakk>\<not> w_held w; acquire_keeps acq;
     FSDMGR_TestFileLock acq rel h fRead n (w_state w) = Some out\<rbrakk>
     \<Longrightarrow> call_step P w (after_call w out)"
| close: "\<lbrakk>\<not> w_held w; P os; w_closer w = NotClosing;
     FSDMGR_EmptyLockContainer_begin os (w_state w) = (waits, sg, st)\<rbrakk>
     \<Longrightarrow> call_step P w ((wake sg (w\<lparr>w_state := st\<rparr>))\<lparr>w_closer := if waits then CloserReleased else Closed\<rparr>)"

text \<open>Steps of the calls in progress: entering the wait, failing to wait, retrying, and the closer's own.\<close>

definition event_set :: "lock_world \<Rightarrow> bool" where
  "event_set w \<longleftrightarrow> ls_hevUnlock (w_state w) = Some True"

inductive progress_step :: "(os_calls \<Rightarrow> bool) \<Rightarrow> lock_world \<Rightarrow> lock_world \<Rightarrow> bool" for P where
  wait: "\<lbrakk>rq \<in># w_released w; ls_hevUnlock (w_state w) \<noteq> None\<rbrakk>
     \<Longrightarrow> progress_step P w (if event_set w
           then w\<lparr>w_released := w_released w - {#rq#}, w_woken := add_mset rq (w_woken w)\<rparr>
           else w\<lparr>w_released := w_released w - {#rq#}, w_waiting := add_mset rq (w_waiting w)\<rparr>)"
| wait_fails: "\<lbrakk>rq \<in># w_released w\<rbrakk>
     \<Longrightarrow> progress_step P w (w\<lparr>w_released := w_released w - {#rq#}, w_failed := add_mset rq (w_failed w)\<rparr>)"
| retry: "\<lbrakk>rq \<in># w_woken w; \<not> w_held w; P os; acquire_keeps acq; acq (rq_handle rq) (w_state w) \<noteq> None;
     FSDMGR_InstallFileLock_round acq rel os rq True (w_state w) = Some out\<rbrakk>
     \<Longrightarrow> progress_step P w (after_round (w\<lparr>w_woken := w_woken w - {#rq#}\<rparr>) rq out)"
| retry_fails: "\<lbrakk>rq \<in># w_woken w; \<not> w_held w; acquire_keeps acq; acq (rq_handle rq) (w_state w) = None\<rbrakk>
     \<Longrightarrow> progress_step P w (w\<lparr>w_woken := w_woken w - {#rq#}, w_failed := add_mset rq (w_failed w)\<rparr>)"
| close_wait: "\<lbrakk>w_closer w = CloserReleased\<rbrakk>
     \<Longrightarrow> progress_step P w (w\<lparr>w_closer := if event_set w then CloserWoken else CloserWaiting\<rparr>)"
| close_wait_fails: "\<lbrakk>w_closer w = CloserReleased\<rbrakk>
     \<Longrightarrow> progress_step P w (w\<lparr>w_closer := CloserWoken\<rparr>)"
| close_end: "\<lbrakk>w_closer w = CloserWoken; \<not> w_held w\<rbrakk>
     \<Longrightarrow> progress_step P w (w\<lparr>w_state := FSDMGR_EmptyLockContainer_end (w_state w), w_closer := Closed\<rparr>)"

definition init_state :: filelockstate where
  "init_state = \<lparr>ls_dwPosLow = 0, ls_dwPosHigh = 0, ls_dwAccess = 0, ls_cQueue = 0, ls_fTerminal = False,
     ls_hevUnlock = None, ls_pvLockContainer = None\<rparr>"

definition init_world :: lock_world where
  "init_world = \<lparr>w_state = init_state, w_held = False, w_released = {#}, w_waiting = {#}, w_woken = {#},
     w_failed = {#}, w_closer = NotClosing\<rparr>"

inductive reachable :: "(os_calls \<Rightarrow> bool) \<Rightarrow> lock_world \<Rightarrow> bool" for P where
  init: "reachable P init_world"
| call: "\<lbrakk>reachable P w; call_step P w w'\<rbrakk> \<Longrightarrow> reachable P w'"
| progress: "\<lbrakk>reachable P w; progress_step P w w'\<rbrakk> \<Longrightarrow> reachable P w'"

section \<open>The invariant\<close>

definition lock_inv :: "lock_world \<Rightarrow> bool" where
  "lock_inv w \<longleftrightarrow> st_ok (w_state w) \<and> queued w < 2 ^ 32 \<and>
     (\<not> w_held w \<longrightarrow> ls_cQueue (w_state w) = word_of_nat (queued w)) \<and>
     (queued w \<noteq> 0 \<longrightarrow> ls_hevUnlock (w_state w) \<noteq> None) \<and>
     (event_set w \<longrightarrow> w_waiting w = {#} \<and> w_closer w \<noteq> CloserWaiting)"

text \<open>The closing protocol: a marked file whose queue has drained has its event set.\<close>

definition term_inv :: "lock_world \<Rightarrow> bool" where
  "term_inv w \<longleftrightarrow> (\<not> w_held w \<longrightarrow>
     (w_closer w \<in> {CloserReleased, CloserWaiting, CloserWoken} \<longrightarrow> ls_fTerminal (w_state w)) \<and>
     (ls_fTerminal (w_state w) \<and> queued w = 0 \<longrightarrow> event_set w))"

lemma wake_simps [simp]:
  "w_state (wake sg w) = w_state w" "w_held (wake sg w) = w_held w"
  "w_released (wake sg w) = w_released w" "w_failed (wake sg w) = w_failed w"
  "queued (wake sg w) = queued w" "event_set (wake sg w) = event_set w"
  by (simp_all add: wake_def queued_def event_set_def)

lemma wake_waiting:
  "w_waiting (wake sg w) = (if sg = NoSignal then w_waiting w else {#})"
  "w_closer (wake sg w) = (if sg \<noteq> NoSignal \<and> w_closer w = CloserWaiting then CloserWoken else w_closer w)"
  by (simp_all add: wake_def)

lemma queue_zero_iff:
  assumes "q = (word_of_nat n :: DWORD)" and "n < 2 ^ 32"
  shows "q = 0 \<longleftrightarrow> n = 0"
  using assms by (auto simp: word_of_nat_eq_0_iff dest: dvd_imp_le)

lemma inv_after_call:
  assumes inv: "lock_inv w" "term_inv w" and free: "\<not> w_held w"
    and eff: "call_effect (w_state w) sg st'"
  shows "lock_inv (after_call w (act, sg, left, st'))" "term_inv (after_call w (act, sg, left, st'))"
proof -
  have eff': "st_ok st'" "ls_fTerminal st' = ls_fTerminal (w_state w)" "ls_cQueue st' = ls_cQueue (w_state w)"
    "sg \<noteq> Signaled" "sg = Pulsed \<longrightarrow> ls_cQueue (w_state w) \<noteq> 0 \<and> ls_hevUnlock st' = Some False"
    "sg = NoSignal \<longrightarrow> ls_hevUnlock st' = ls_hevUnlock (w_state w)"
    using eff inv(1) by (auto simp: call_effect_def lock_inv_def)
  have q: "ls_cQueue (w_state w) = 0 \<longleftrightarrow> queued w = 0"
    using inv(1) free by (intro queue_zero_iff) (auto simp: lock_inv_def)
  have qs: "queued (w\<lparr>w_state := st', w_held := b\<rparr>) = queued w" for b
    by (simp add: queued_def)
  show "lock_inv (after_call w (act, sg, left, st'))" "term_inv (after_call w (act, sg, left, st'))"
    using inv free eff' q
    by (cases sg; auto simp: lock_inv_def term_inv_def after_call_def wake_waiting event_set_def qs)+
qed

lemma after_round_simps:
  "w_state (after_round w rq (act, sg, left, st')) = st'"
  "w_held (after_round w rq (act, sg, left, st')) = (\<not> left)"
  "queued (after_round w rq (act, sg, left, st')) = queued w + (if act = WaitForUnlock then 1 else 0)"
  "w_waiting (after_round w rq (act, sg, left, st')) = (if sg = NoSignal then w_waiting w else {#})"
  "w_closer (after_round w rq (act, sg, left, st')) =
     (if sg \<noteq> NoSignal \<and> w_closer w = CloserWaiting then CloserWoken else w_closer w)"
  "event_set (after_round w rq (act, sg, left, st')) \<longleftrightarrow> ls_hevUnlock st' = Some True"
  by (simp_all add: after_round_def Let_def wake_def queued_def event_set_def)

lemma inv_after_round:
  assumes inv: "lock_inv w" "term_inv w" and free: "\<not> w_held w"
    and acq: "acquire_keeps acq" "acq (rq_handle rq) (w_state w) \<noteq> None"
    and al: "la_set_range (os_alloc os)" "os_set_event os"
    and run: "FSDMGR_InstallFileLock_round acq rel os rq b (w_state w) = Some out"
    and b: "b \<longrightarrow> rq \<in># w_woken w" and bound: "\<not> b \<longrightarrow> queued w < 2 ^ 32 - 1"
  shows "lock_inv (after_round (if b then w\<lparr>w_woken := w_woken w - {#rq#}\<rparr> else w) rq out)"
     "term_inv (after_round (if b then w\<lparr>w_woken := w_woken w - {#rq#}\<rparr> else w) rq out)"
proof -
  obtain act sg left st' where out: "out = (act, sg, left, st')" by (cases out) auto
  obtain st0 where st0: "acq (rq_handle rq) (w_state w) = Some st0" using acq(2) by blast
  have ok: "st_ok (w_state w)" using inv(1) by (simp add: lock_inv_def)
  note eff = install_round_effect [OF acq(1) st0 ok al(1) run [unfolded out]]
  let ?w0 = "if b then w\<lparr>w_woken := w_woken w - {#rq#}\<rparr> else w"
  have q0: "queued ?w0 = (if b then queued w - 1 else queued w)" "b \<longrightarrow> queued w \<noteq> 0"
    using b by (auto simp: queued_def size_Diff_singleton dest!: multi_member_split)
  have dec: "dec_if b (ls_cQueue (w_state w)) = word_of_nat (queued ?w0)"
    using inv(1) free q0 by (auto simp: lock_inv_def dec_if_def of_nat_diff)
  have lt: "queued ?w0 < 2 ^ 32 - 1"
    using inv(1) q0 bound by (auto simp: lock_inv_def)
  have z: "dec_if b (ls_cQueue (w_state w)) = 0 \<longleftrightarrow> queued ?w0 = 0"
    by (rule queue_zero_iff [OF dec]) (use lt in simp)
  define w1 where "w1 = ?w0"
  have w1: "w_waiting w1 = w_waiting w" "w_closer w1 = w_closer w"
    by (simp_all add: w1_def)
  note after = after_round_simps [of w1 rq act sg left st']
  note q = q0 [folded w1_def] and dec = dec [folded w1_def] and z = z [folded w1_def] and lt = lt [folded w1_def]
  have cq: "left \<Longrightarrow> ls_cQueue st' = word_of_nat (queued w1 + (if act = WaitForUnlock then 1 else 0))"
    using eff dec by auto
  have hev: "queued w1 + (if act = WaitForUnlock then 1 else 0) \<noteq> 0 \<Longrightarrow> ls_hevUnlock st' \<noteq> None"
    using eff inv(1) q by (cases sg) (auto simp: lock_inv_def split: if_splits)
  have ev: "ls_hevUnlock st' = Some True \<Longrightarrow> sg = NoSignal \<Longrightarrow> event_set w"
    using eff by (auto simp: event_set_def)
  show "lock_inv (after_round ?w0 rq out)"
    unfolding w1_def [symmetric] out lock_inv_def after w1
    using eff cq hev ev lt inv(1) by (auto simp: lock_inv_def split: if_splits)
  have term1: "act \<noteq> WaitForUnlock \<Longrightarrow> ls_fTerminal st' \<Longrightarrow> queued w1 = 0 \<Longrightarrow> ls_hevUnlock st' = Some True"
  proof (cases "queued w = 0")
    case True
    assume "ls_fTerminal st'" "queued w1 = 0"
    with True inv(2) free eff show ?thesis by (cases sg) (auto simp: term_inv_def event_set_def)
  next
    case False
    assume "ls_fTerminal st'" "queued w1 = 0"
    with False inv(1) eff z al(2) show ?thesis by (auto simp: lock_inv_def)
  qed
  show "term_inv (after_round ?w0 rq out)"
    unfolding w1_def [symmetric] out term_inv_def after w1
    using eff term1 inv(2) free by (auto simp: term_inv_def split: if_splits)
qed

definition os_good :: "(os_calls \<Rightarrow> bool) \<Rightarrow> bool" where
  "os_good P \<longleftrightarrow> (\<forall>os. P os \<longrightarrow> la_set_range (os_alloc os) \<and> os_set_event os)"

lemma inv_call_step:
  assumes step: "call_step P w w'" and P: "os_good P" and inv: "lock_inv w" "term_inv w"
  shows "lock_inv w' \<and> term_inv w'"
  using step
proof cases
  case (install os acq rel rq out)
  show ?thesis
  proof (cases "acq (rq_handle rq) (w_state w)")
    case None
    then have "out = (Return False, NoSignal, True, w_state w)"
      using install by (simp add: FSDMGR_InstallFileLock_round_def)
    then have "w' = w" using install by (simp add: after_round_def wake_def)
    with inv show ?thesis by simp
  next
    case Some
    with inv_after_round [OF inv, where b = False and out = out] install P show ?thesis
      by (auto simp: os_good_def)
  qed
next
  case (remove os acq rel h dwReserved nLow nHigh ov out)
  obtain act sg left st' where out: "out = (act, sg, left, st')" by (cases out) auto
  have "call_effect (w_state w) sg st'"
    using remove inv(1) remove_effect [of acq "w_state w"] unfolding out by (auto simp: lock_inv_def)
  with inv_after_call [OF inv] remove show ?thesis unfolding out by blast
next
  case (remove_all os acq rel h out)
  obtain act sg left st' where out: "out = (act, sg, left, st')" by (cases out) auto
  have "call_effect (w_state w) sg st'"
    using remove_all inv(1) remove_all_effect [of acq "w_state w"] unfolding out by (auto simp: lock_inv_def)
  with inv_after_call [OF inv] remove_all show ?thesis unfolding out by blast
next
  case (test_at acq rel h fRead n offLow offHigh out)
  obtain act sg left st' where out: "out = (act, sg, left, st')" by (cases out) auto
  have "call_effect (w_state w) sg st'"
    using test_at test_effect(1) unfolding out by blast
  with inv_after_call [OF inv] test_at show ?thesis unfolding out by blast
next
  case (test acq rel h fRead n out)
  obtain act sg left st' where out: "out = (act, sg, left, st')" by (cases out) auto
  have "call_effect (w_state w) sg st'"
    using test test_effect(2) unfolding out by blast
  with inv_after_call [OF inv] test show ?thesis unfolding out by blast
next
  case (close os waits sg st)
  have q: "ls_cQueue (w_state w) = 0 \<longleftrightarrow> queued w = 0"
    using inv(1) close by (intro queue_zero_iff) (auto simp: lock_inv_def)
  have cases: "(\<not> waits \<and> sg = NoSignal \<and> ls_pvLockContainer st = None \<and> ls_cQueue st = ls_cQueue (w_state w) \<and>
        ls_hevUnlock st = ls_hevUnlock (w_state w) \<and> (ls_fTerminal st \<longrightarrow> ls_fTerminal (w_state w) \<or> queued w \<noteq> 0)) \<or>
      (waits \<and> sg = Pulsed \<and> ls_cQueue st = ls_cQueue (w_state w) \<and> queued w \<noteq> 0 \<and>
        ls_hevUnlock st = Some False \<and> ls_fTerminal st \<and> ls_pvLockContainer st = ls_pvLockContainer (w_state w))"
    using close(5) q
    by (auto simp: FSDMGR_EmptyLockContainer_begin_def PulseEvent_def word_gt_0 split: if_splits option.splits)
  have qs: "queued (w\<lparr>w_state := st\<rparr>) = queued w" "queued (w0\<lparr>w_closer := c\<rparr>) = queued w0" for w0 c
    by (simp_all add: queued_def)
  from cases show ?thesis
    unfolding close(1) using inv close(2,4)
    by (auto simp: lock_inv_def term_inv_def wake_waiting event_set_def qs st_ok_def)
qed

lemma inv_progress_step:
  assumes step: "progress_step P w w'" and P: "os_good P" and inv: "lock_inv w" "term_inv w"
  shows "lock_inv w' \<and> term_inv w'"
  using step
proof cases
  case (wait rq)
  then have "queued w' = queued w"
    by (auto simp: queued_def dest!: multi_member_split)
  with wait inv show ?thesis
    by (auto simp: lock_inv_def term_inv_def event_set_def)
next
  case (wait_fails rq)
  then have "queued w' = queued w"
    by (auto simp: queued_def dest!: multi_member_split)
  with wait_fails inv show ?thesis
    by (auto simp: lock_inv_def term_inv_def event_set_def)
next
  case (retry rq os acq rel out)
  with inv_after_round [OF inv, where b = True and out = out] P show ?thesis
    by (auto simp: os_good_def)
next
  case (retry_fails rq acq)
  then have "queued w' = queued w"
    by (auto simp: queued_def dest!: multi_member_split)
  with retry_fails inv show ?thesis
    by (auto simp: lock_inv_def term_inv_def event_set_def)
next
  case close_wait
  then have "queued w' = queued w" by (simp add: queued_def)
  with close_wait inv show ?thesis
    by (auto simp: lock_inv_def term_inv_def event_set_def)
next
  case close_wait_fails
  then have "queued w' = queued w" by (simp add: queued_def)
  with close_wait_fails inv show ?thesis
    by (auto simp: lock_inv_def term_inv_def event_set_def)
next
  case close_end
  then have "queued w' = queued w" by (simp add: queued_def)
  with close_end inv show ?thesis
    by (auto simp: lock_inv_def term_inv_def event_set_def FSDMGR_EmptyLockContainer_end_def st_ok_def)
qed

lemma reachable_inv:
  assumes "reachable P w" and P: "os_good P"
  shows "lock_inv w \<and> term_inv w"
  using assms(1)
proof induction
  case init
  show ?case
    by (simp add: lock_inv_def term_inv_def init_world_def init_state_def queued_def st_ok_def event_set_def)
next
  case (call w w')
  with inv_call_step [OF _ P] show ?case by blast
next
  case (progress w w')
  with inv_progress_step [OF _ P] show ?case by blast
qed

end
