(* ===== verification/Lock_Protocol_Theorems.thy ===== *)
theory Lock_Protocol_Theorems
  imports Lock_Protocol
begin

text \<open>
  The theorems about the lock manager: what one round of \<open>FSDMGR_InstallFileLock\<close> does, the
  invariant of all reachable worlds, the wake-up of waiting calls, the closing protocol, and
  two reachable worlds in which a call is left waiting for good.
\<close>

section \<open>A concrete run\<close>

definition sample_handles :: "DWORD \<Rightarrow> fhandle" where
  "sample_handles h = \<lparr>fh_pos = 0, fh_unusable = False, fh_write = True, fh_read = True\<rparr>"

definition sample_os :: os_calls where
  "sample_os = \<lparr>os_container = True, os_alloc = alloc_ok,
     os_create_event = True, os_set_event = True, os_pulse_event = True\<rparr>"

definition sample_rq :: "DWORD \<Rightarrow> lockreq" where
  "sample_rq h = \<lparr>rq_handle = h, rq_flags = 2, rq_reserved = 0, rq_nLow = 10, rq_nHigh = 0,
                  rq_overlapped = Some (0, 0)\<rparr>"

abbreviation "sample_acq \<equiv> FAT_AcquireFileLockState sample_handles True"
abbreviation "sample_rel \<equiv> FAT_ReleaseFileLockState sample_handles True"

definition sample_out1 :: round_out where
  "sample_out1 = the (FSDMGR_InstallFileLock_round sample_acq sample_rel sample_os (sample_rq 1) False init_state)"

definition sample_st1 :: filelockstate where "sample_st1 = snd (snd (snd sample_out1))"

definition sample_out2 :: round_out where
  "sample_out2 = the (FSDMGR_InstallFileLock_round sample_acq sample_rel sample_os (sample_rq 2) False sample_st1)"

definition sample_st2 :: filelockstate where "sample_st2 = snd (snd (snd sample_out2))"

definition sample_out3 :: round_out where
  "sample_out3 = the (FSDMGR_RemoveFileLock sample_acq sample_rel sample_os 1 0 10 0 (Some (0, 0)) sample_st2)"

definition sample_st3 :: filelockstate where "sample_st3 = snd (snd (snd sample_out3))"

lemma sample_run1:
  "FSDMGR_InstallFileLock_round sample_acq sample_rel sample_os (sample_rq 1) False init_state =
     Some (Return True, NoSignal, True, sample_st1)"
  by code_simp

lemma sample_run2:
  "FSDMGR_InstallFileLock_round sample_acq sample_rel sample_os (sample_rq 2) False sample_st1 =
     Some (WaitForUnlock, NoSignal, True, sample_st2)"
  by code_simp

lemma sample_run3:
  "FSDMGR_RemoveFileLock sample_acq sample_rel sample_os 1 0 10 0 (Some (0, 0)) sample_st2 =
     Some (Return True, Pulsed, True, sample_st3)"
  by code_simp

lemma sample_facts:
  "ls_hevUnlock sample_st3 = Some False" "ls_fTerminal sample_st3 = False" "ls_cQueue sample_st3 = 1"
  "map_option CFileLockCollection_IsEmpty (ls_pvLockContainer sample_st3) = Some True"
  by code_simp+

definition all_ok :: "os_calls \<Rightarrow> bool" where "all_ok os \<longleftrightarrow> os = sample_os"

lemma all_ok_good: "os_good all_ok" "\<forall>os. all_ok os \<longrightarrow> la_set_range (os_alloc os) \<and> os_set_event os"
  by (simp_all add: os_good_def all_ok_def sample_os_def alloc_ok_def)

text \<open>Handle 1 locks ten bytes; handle 2 asks for the same bytes and is counted and released.\<close>

definition sample_w2 :: lock_world where
  "sample_w2 = init_world\<lparr>w_state := sample_st2, w_released := {#sample_rq 2#}\<rparr>"

lemma reachable_w2: "reachable all_ok sample_w2"
proof -
  let ?w1 = "init_world\<lparr>w_state := sample_st1\<rparr>"
  have "call_step all_ok init_world (after_round init_world (sample_rq 1) (Return True, NoSignal, True, sample_st1))"
    by (rule call_step.install [where os = sample_os and rel = sample_rel, OF _ _ FAT_acquire_keeps])
      (use sample_run1 in \<open>simp_all add: init_world_def all_ok_def queued_def\<close>)
  then have "call_step all_ok init_world ?w1"
    by (simp add: after_round_def wake_def init_world_def)
  moreover have "call_step all_ok ?w1 (after_round ?w1 (sample_rq 2) (WaitForUnlock, NoSignal, True, sample_st2))"
    by (rule call_step.install [where os = sample_os and rel = sample_rel, OF _ _ FAT_acquire_keeps])
      (use sample_run2 in \<open>simp_all add: init_world_def all_ok_def queued_def\<close>)
  then have "call_step all_ok ?w1 sample_w2"
    by (simp add: after_round_def wake_def init_world_def sample_w2_def)
  ultimately show ?thesis by (meson reachable.intros)
qed

text \<open>Handle 1 unlocks before the call of handle 2 has entered its wait.\<close>

definition sample_w3 :: lock_world where
  "sample_w3 = init_world\<lparr>w_state := sample_st3, w_released := {#sample_rq 2#}\<rparr>"

lemma reachable_w3: "reachable all_ok sample_w3"
proof -
  have "call_step all_ok sample_w2 (after_call sample_w2 (Return True, Pulsed, True, sample_st3))"
    by (rule call_step.remove [where os = sample_os and rel = sample_rel, OF _ _ FAT_acquire_keeps])
      (use sample_run3 in \<open>simp_all add: init_world_def all_ok_def sample_w2_def\<close>)
  moreover have "after_call sample_w2 (Return True, Pulsed, True, sample_st3) = sample_w3"
    by (simp add: after_call_def wake_def init_world_def sample_w3_def sample_w2_def)
  ultimately show ?thesis using reachable_w2 reachable.call by metis
qed

section \<open>The invariant\<close>

text \<open>C2. In every reachable world, whatever calls are made, whatever memory allocations and
  waits fail and whatever the file system's callbacks answer, the file's lock container is
  absent or well formed with pairwise compatible entries, the queue counter is the number of
  counted calls, and no call is blocked on an event that is set.\<close>
theorem reachable_locks_safe:
  assumes "reachable P w" and "\<forall>os. P os \<longrightarrow> la_set_range (os_alloc os) \<and> os_set_event os"
  shows "(case ls_pvLockContainer (w_state w) of None \<Rightarrow> True
            | Some col \<Rightarrow> col_sets_wf col \<and> all_compatible (col_entries col)) \<and>
    (w_held w \<or> unat (ls_cQueue (w_state w)) = queued w) \<and>
    (w_waiting w = {#} \<or> ls_hevUnlock (w_state w) = Some False)"
proof -
  have inv: "lock_inv w" using reachable_inv assms by (auto simp: os_good_def)
  have "w_waiting w = {#} \<or> ls_hevUnlock (w_state w) = Some False"
    using inv by (cases "ls_hevUnlock (w_state w)") (auto simp: lock_inv_def event_set_def queued_def)
  moreover have "unat (word_of_nat (queued w) :: DWORD) = queued w"
    using inv by (simp add: lock_inv_def unat_of_nat take_bit_nat_eq_self)
  ultimately show ?thesis
    using inv by (auto simp: lock_inv_def st_ok_def col_wf_def split: option.splits)
qed

theorem reachable_locks_safe_witness:
  "(\<exists>col. ls_pvLockContainer (w_state sample_w2) = Some col \<and> all_compatible (col_entries col)) \<and>
   unat (ls_cQueue (w_state sample_w2)) = 1"
proof -
  have "ls_pvLockContainer sample_st2 \<noteq> None" by code_simp
  then show ?thesis
    using reachable_locks_safe [OF reachable_w2 all_ok_good(2)]
    by (auto simp: sample_w2_def init_world_def queued_def)
qed

section \<open>Waiting and waking\<close>

text \<open>C9. A pulse can be lost: there is a reachable world, with every system call succeeding,
  in which a call waits for a lock although the container holds no lock any more, and no call
  in progress can take a step.  The waiting call had been counted and had released the state,
  but had not yet entered its wait when the lock it was waiting for was removed.\<close>
theorem lost_wakeup_reachable:
  "\<exists>w rq col. reachable all_ok w \<and> w_waiting w = {#rq#} \<and>
     ls_pvLockContainer (w_state w) = Some col \<and> col_entries col = {#} \<and>
     \<not> (\<exists>w'. progress_step all_ok w w')"
proof -
  let ?w = "sample_w3\<lparr>w_released := {#}, w_waiting := {#sample_rq 2#}\<rparr>"
  have "progress_step all_ok sample_w3 ?w"
    using progress_step.wait [of "sample_rq 2" sample_w3 all_ok]
    by (simp add: sample_w3_def init_world_def event_set_def sample_facts)
  then have reach: "reachable all_ok ?w" using reachable_w3 reachable.progress by metis
  obtain col where col: "ls_pvLockContainer sample_st3 = Some col" "CFileLockCollection_IsEmpty col"
    using sample_facts(4) by auto
  have "lock_inv ?w" using reachable_inv [OF reach all_ok_good(1)] by simp
  then have "col_wf col" using col(1) by (simp add: lock_inv_def st_ok_def sample_w3_def init_world_def)
  then have "col_entries col = {#}" using col(2) col_wf_IsEmpty by (simp add: col_wf_def)
  moreover have "\<not> progress_step all_ok ?w w'" for w'
    by (auto simp: progress_step.simps sample_w3_def init_world_def)
  ultimately show ?thesis
    using reach col(1) by (intro exI [of _ ?w]) (auto simp: sample_w3_def init_world_def)
qed

text \<open>C8. A removal that succeeds wakes every call that is blocked at that moment; and when no
  call is counted it frees a container that has become empty.\<close>
theorem remove_wakes_all_waiting:
  assumes "reachable P w" and "\<forall>os. P os \<longrightarrow> la_set_range (os_alloc os) \<and> os_set_event os"
    and "\<not> w_held w" and "acquire_keeps acq"
    and "FSDMGR_RemoveFileLock acq rel os h dwReserved nLow nHigh ov (w_state w) = Some (Return True, sg, left, st')"
  shows "w_waiting (after_call w (Return True, sg, left, st')) = {#} \<and>
    w_woken (after_call w (Return True, sg, left, st')) = w_woken w + w_waiting w \<and>
    (queued w = 0 \<longrightarrow> ls_pvLockContainer st' = None \<or>
       (\<exists>col. ls_pvLockContainer st' = Some col \<and> col_entries col \<noteq> {#}))"
proof -
  have inv: "lock_inv w" using reachable_inv assms(1,2) by (auto simp: os_good_def)
  have q: "ls_cQueue (w_state w) = 0 \<longleftrightarrow> queued w = 0"
    using inv assms(3) by (intro queue_zero_iff) (auto simp: lock_inv_def)
  obtain st0 where st0: "acq h (w_state w) = Some st0"
    using assms(5) by (cases "acq h (w_state w)") (auto simp: FSDMGR_RemoveFileLock_def)
  note keep = acquire_keepsD [OF assms(4) st0]
  show ?thesis
  proof (cases "ls_pvLockContainer st0")
    case None
    with assms(5) st0 show ?thesis by (simp add: FSDMGR_RemoveFileLock_def release_and_return_eq)
  next
    case (Some col)
    then have "col_wf col" using inv keep by (simp add: lock_inv_def st_ok_def)
    then obtain f col' where ul: "LXX_Unlock (Some col) h dwReserved nLow nHigh ov = Some (f, Some col')"
      and wf': "col_wf col'" by (rule LXX_Unlock_safe)
    obtain ok sg' st2 where au: "after_unlock os (st0\<lparr>ls_pvLockContainer := Some col'\<rparr>) = (ok, sg', st2)"
      by (cases "after_unlock os (st0\<lparr>ls_pvLockContainer := Some col'\<rparr>)")
    have res: "ok" "sg' = sg" "st2 = st'"
      using assms(5) st0 Some ul au
      by (auto simp: FSDMGR_RemoveFileLock_def release_and_return_eq Let_def split: if_splits)
    have empty: "CFileLockCollection_IsEmpty col' \<longleftrightarrow> col_entries col' = {#}" "fc_signature col' = SIG"
      using wf' col_wf_IsEmpty by (auto simp: col_wf_def col_sets_wf_def)
    show ?thesis
    proof (cases "queued w = 0")
      case True
      then have "w_waiting w = {#}" by (simp add: queued_def)
      with True q au res keep empty show ?thesis
        by (auto simp: after_unlock_def after_call_def wake_def LXX_IsLockContainerEmpty_def split: if_splits)
    next
      case False
      with q au res keep show ?thesis
        by (auto simp: after_unlock_def after_call_def wake_def word_gt_0 PulseEvent_def
            split: if_splits option.splits)
    qed
  qed
qed

theorem remove_wakes_all_waiting_witness:
  "w_waiting (sample_w2\<lparr>w_released := {#}, w_waiting := {#sample_rq 2#}\<rparr>) = {#sample_rq 2#} \<and>
   w_woken (after_call (sample_w2\<lparr>w_released := {#}, w_waiting := {#sample_rq 2#}\<rparr>)
     (Return True, Pulsed, True, sample_st3)) = {#sample_rq 2#}"
proof -
  let ?w = "sample_w2\<lparr>w_released := {#}, w_waiting := {#sample_rq 2#}\<rparr>"
  have "ls_hevUnlock sample_st2 = Some False" by code_simp
  then have "progress_step all_ok sample_w2 ?w"
    using progress_step.wait [of "sample_rq 2" sample_w2 all_ok]
    by (simp add: sample_w2_def init_world_def event_set_def)
  then have "reachable all_ok ?w" using reachable_w2 reachable.progress by metis
  from remove_wakes_all_waiting [OF this all_ok_good(2) _ FAT_acquire_keeps, of _ _ sample_rel sample_os 1 0 10 0 "Some (0, 0)"]
  show ?thesis using sample_run3 by (simp add: sample_w2_def init_world_def)
qed

section \<open>Closing the file\<close>

text \<open>While \<open>FSDMGR_EmptyLockContainer\<close> waits, the file is marked terminal, and as soon as
  no counted call is left the event is set, so that the closing thread is not blocked: it can
  only be kept waiting by a call that has not yet given its count back.\<close>
theorem closer_blocked_only_by_queue:
  assumes "reachable P w" and "\<forall>os. P os \<longrightarrow> la_set_range (os_alloc os) \<and> os_set_event os"
    and "\<not> w_held w" and "w_closer w = CloserReleased \<or> w_closer w = CloserWaiting"
  shows "ls_fTerminal (w_state w) \<and>
    (queued w = 0 \<longrightarrow> w_closer w = CloserReleased \<and> ls_hevUnlock (w_state w) = Some True)"
proof -
  have "lock_inv w" "term_inv w" using reachable_inv assms(1,2) by (auto simp: os_good_def)
  with assms(3,4) show ?thesis by (auto simp: lock_inv_def term_inv_def event_set_def)
qed

definition sample_st4 :: filelockstate where
  "sample_st4 = snd (snd (FSDMGR_EmptyLockContainer_begin sample_os sample_st2))"

definition sample_st5 :: filelockstate where
  "sample_st5 = snd (snd (snd (the (FSDMGR_InstallFileLock_round sample_acq sample_rel sample_os
     (sample_rq 2) True sample_st4))))"

lemma sample_run4: "FSDMGR_EmptyLockContainer_begin sample_os sample_st2 = (True, Pulsed, sample_st4)"
  by code_simp

lemma sample_run5:
  "FSDMGR_InstallFileLock_round sample_acq sample_rel sample_os (sample_rq 2) True sample_st4 =
     Some (Return False, Signaled, True, sample_st5)"
  by code_simp

definition sample_w5 :: lock_world where
  "sample_w5 = init_world\<lparr>w_state := sample_st5, w_closer := CloserReleased\<rparr>"

lemma reachable_w5: "reachable all_ok sample_w5"
proof -
  let ?w = "sample_w2\<lparr>w_released := {#}, w_waiting := {#sample_rq 2#}\<rparr>"
  let ?w4 = "init_world\<lparr>w_state := sample_st4, w_woken := {#sample_rq 2#}, w_closer := CloserReleased\<rparr>"
  have "ls_hevUnlock sample_st2 = Some False" by code_simp
  then have 1: "progress_step all_ok sample_w2 ?w"
    using progress_step.wait [of "sample_rq 2" sample_w2 all_ok]
    by (simp add: sample_w2_def init_world_def event_set_def)
  have "call_step all_ok ?w ((wake Pulsed (?w\<lparr>w_state := sample_st4\<rparr>))\<lparr>w_closer := if True then CloserReleased else Closed\<rparr>)"
    by (rule call_step.close [where os = sample_os])
      (use sample_run4 in \<open>simp_all add: sample_w2_def init_world_def all_ok_def\<close>)
  then have 2: "call_step all_ok ?w ?w4"
    by (simp add: wake_def sample_w2_def init_world_def)
  have "progress_step all_ok ?w4
      (after_round (?w4\<lparr>w_woken := w_woken ?w4 - {#sample_rq 2#}\<rparr>) (sample_rq 2) (Return False, Signaled, True, sample_st5))"
    by (rule progress_step.retry [where os = sample_os and rel = sample_rel, OF _ _ _ FAT_acquire_keeps])
      (use sample_run5 in \<open>simp_all add: init_world_def all_ok_def FAT_AcquireFileLockState_def sample_handles_def\<close>)
  then have 3: "progress_step all_ok ?w4 sample_w5"
    by (simp add: after_round_def wake_def init_world_def sample_w5_def)
  show ?thesis using reachable_w2 1 2 3 by (meson reachable.intros)
qed

theorem closer_blocked_only_by_queue_witness:
  "ls_fTerminal (w_state sample_w5) \<and> ls_hevUnlock (w_state sample_w5) = Some True"
  using closer_blocked_only_by_queue [OF reachable_w5 all_ok_good(2)]
  by (simp add: sample_w5_def init_world_def queued_def)

text \<open>The closing protocol can hang on the same race: there is a reachable world, with every
  system call succeeding, in which \<open>FSDMGR_EmptyLockContainer\<close> waits for a call that itself
  waits on the same event, the event is not set, and no call in progress can take a step.\<close>
theorem closing_deadlock_reachable:
  "\<exists>w rq. reachable all_ok w \<and> w_closer w = CloserWaiting \<and> w_waiting w = {#rq#} \<and>
     ls_hevUnlock (w_state w) = Some False \<and> \<not> (\<exists>w'. progress_step all_ok w w')"
proof -
  let ?w4 = "sample_w2\<lparr>w_state := sample_st4, w_closer := CloserReleased\<rparr>"
  let ?w5 = "sample_w2\<lparr>w_state := sample_st4, w_closer := CloserReleased,
                       w_released := {#}, w_waiting := {#sample_rq 2#}\<rparr>"
  let ?w6 = "?w5\<lparr>w_closer := CloserWaiting\<rparr>"
  have ev: "ls_hevUnlock sample_st4 = Some False" by code_simp
  have "call_step all_ok sample_w2
      ((wake Pulsed (sample_w2\<lparr>w_state := sample_st4\<rparr>))\<lparr>w_closer := if True then CloserReleased else Closed\<rparr>)"
    by (rule call_step.close [where os = sample_os])
      (use sample_run4 in \<open>simp_all add: sample_w2_def init_world_def all_ok_def\<close>)
  then have 1: "call_step all_ok sample_w2 ?w4" by (simp add: wake_def sample_w2_def init_world_def)
  have 2: "progress_step all_ok ?w4 ?w5"
    using progress_step.wait [of "sample_rq 2" ?w4 all_ok] ev
    by (simp add: sample_w2_def init_world_def event_set_def)
  have 3: "progress_step all_ok ?w5 ?w6"
    using progress_step.close_wait [of ?w5 all_ok] ev by (simp add: event_set_def)
  have "reachable all_ok ?w6" using reachable_w2 1 2 3 by (meson reachable.intros)
  moreover have "\<not> progress_step all_ok ?w6 w'" for w'
    by (auto simp: progress_step.simps sample_w2_def init_world_def)
  ultimately show ?thesis using ev by (intro exI [of _ ?w6]) auto
qed

section \<open>One round of installing\<close>

text \<open>One round of \<open>FSDMGR_InstallFileLock\<close> on an open file whose state is well formed, with
  the callbacks and system calls succeeding: a request that nothing blocks is granted and
  recorded; a blocked one either fails immediately, if it asked for that, or bumps the wait
  counter, makes sure the event exists and goes on to wait, leaving the entries as they are.\<close>
theorem install_round_exact:
  assumes acq: "acq (rq_handle rq) st = Some st0" and rel: "\<forall>st. rel (rq_handle rq) st"
    and live: "\<not> ls_fTerminal st0" and access: "ls_dwAccess st0 AND (GENERIC_READ OR GENERIC_WRITE) \<noteq> 0"
    and col: "ls_pvLockContainer st0 = Some col" "col_wf col"
    and rq: "rq_handle rq \<noteq> 0" "rq_nLow rq \<noteq> 0 \<or> rq_nHigh rq \<noteq> 0" "rq_overlapped rq = Some (off, offHigh)"
      "CRange_IsValid (make_range off offHigh (rq_nLow rq) (rq_nHigh rq))"
    and os: "os_alloc os = alloc_ok" "os_create_event os"
  shows "\<exists>act col' st'. FSDMGR_InstallFileLock_round acq rel os rq False st = Some (act, NoSignal, True, st') \<and>
    ls_pvLockContainer st' = Some col' \<and> col_wf col' \<and>
    (if \<not> blocked col (mode_of (rq_flags rq)) (make_range off offHigh (rq_nLow rq) (rq_nHigh rq))
     then act = Return True \<and> ls_cQueue st' = ls_cQueue st0 \<and>
       col_entries col' = add_mset (mode_of (rq_flags rq), rq_handle rq,
         make_range off offHigh (rq_nLow rq) (rq_nHigh rq)) (col_entries col)
     else col_entries col' = col_entries col \<and>
       (if rq_flags rq AND LOCKFILE_FAIL_IMMEDIATELY \<noteq> 0
        then act = Return False \<and> ls_cQueue st' = ls_cQueue st0
        else act = WaitForUnlock \<and> ls_cQueue st' = ls_cQueue st0 + 1 \<and> ls_hevUnlock st' \<noteq> None))"
proof -
  let ?r = "make_range off offHigh (rq_nLow rq) (rq_nHigh rq)"
  obtain col' where lock: "LXX_Lock (Some col) (rq_handle rq) (rq_flags rq) (rq_reserved rq) (rq_nLow rq) (rq_nHigh rq)
        (Some (off, offHigh)) alloc_ok =
      Some (if blocked col (mode_of (rq_flags rq)) ?r
            then (if rq_flags rq AND LOCKFILE_FAIL_IMMEDIATELY \<noteq> 0 then LR_ERROR else LR_CONFLICT)
            else LR_SUCCESS, Some col')"
    and wf': "col_wf col'"
    and ent: "col_entries col' = (if blocked col (mode_of (rq_flags rq)) ?r then col_entries col
       else add_mset (mode_of (rq_flags rq), rq_handle rq, ?r) (col_entries col))"
    using LXX_Lock_grant_step [OF col(2) rq(1,2,4)] by metis
  show ?thesis
    using acq rel live access col rq(3) os lock wf' ent
    by (auto simp: FSDMGR_InstallFileLock_round_def Let_def release_and_return_eq conflict_eq)
qed

lemma sample_request_valid: "CRange_IsValid (make_range 0 0 10 0)"
  by (simp add: make_range_valid_iff unat_make_u64)

theorem install_round_exact_witness:
  "\<exists>st'. FSDMGR_InstallFileLock_round sample_acq sample_rel sample_os (sample_rq 2) False
      (init_state\<lparr>ls_pvLockContainer := Some CFileLockCollection_new\<rparr>) = Some (Return True, NoSignal, True, st')"
  using install_round_exact [of sample_acq "sample_rq 2"
      "init_state\<lparr>ls_pvLockContainer := Some CFileLockCollection_new\<rparr>"
      "init_state\<lparr>ls_pvLockContainer := Some CFileLockCollection_new, ls_dwAccess := GENERIC_WRITE OR GENERIC_READ\<rparr>"
      sample_rel CFileLockCollection_new 0 0 sample_os] sample_request_valid
  by (auto simp: FAT_AcquireFileLockState_def FAT_ReleaseFileLockState_def sample_handles_def sample_rq_def
      init_state_def GENERIC_READ_def GENERIC_WRITE_def col_wf_new sample_os_def blocked_def Let_def)

end
