(* ===== verification/Disk_Cache.thy ===== *)
theory Disk_Cache
  imports Storage_Prelude
begin

text \<open>
  The sector cache between the file systems and a block driver (\<open>DISKCACHE/cache.h\<close>,
  \<open>cache.cpp\<close>).  A \<open>DWORD\<close> is a natural number below \<open>2 ^ 32\<close>, with the wrap-around of the
  additions, subtractions and multiplications that can leave this range written out
  (\<open>add32\<close>, \<open>sub32\<close>, \<open>mul32\<close>).  The cache record also carries the disk behind the handle
  \<open>m_hDsk\<close>: its sectors, and the number of requests sent so far.

  The block driver and the allocator are not part of the program.  Their outcomes are the
  fields of \<open>io_env\<close>: whether the n-th request fails, with which error, and which sectors a
  failed request has nevertheless transferred.  The flag words whose bit values are defined in
  the system headers are records of booleans.
\<close>

section \<open>Constants\<close>

definition BUFFER_SIZE :: nat where "BUFFER_SIZE = 64 * 1024"
definition STATUS_DIRTY :: BYTE where "STATUS_DIRTY = 1"
definition INVALID_CACHE_ID :: nat where "INVALID_CACHE_ID = 0xFFFFFFFF"

section \<open>State and environment\<close>

datatype commit_option = COMMIT_ALL_SECTORS | COMMIT_DIFF_SECTORS | COMMIT_SPECIFIED_SECTORS

record cache_flags =
  CACHE_FLAG_WARM :: bool
  CACHE_FLAG_WRITEBACK :: bool

record ccache =
  m_dwStart :: nat
  m_dwEnd :: nat
  m_dwCacheSize :: nat
  m_dwBlockSize :: nat
  m_dwCreateFlags :: cache_flags
  m_fDisableSendDelete :: bool
  m_fDisableSendFlush :: bool
  m_dwDirtyCount :: nat
  m_pCacheLookup :: "nat list"
  m_pStatus :: "BYTE list"
  m_apBufferPool :: "BYTE list list"
  m_hDirtySectorsEvent :: bool
  dk_data :: "nat \<Rightarrow> BYTE list"
  dk_count :: nat

record io_env =
  env_fail :: "nat \<Rightarrow> nat option"
  env_moved :: "nat \<Rightarrow> nat \<Rightarrow> bool"
  env_status :: "nat \<Rightarrow> nat"
  env_no_memory :: "nat \<Rightarrow> bool"
  env_sg_extra :: nat
  env_local_alloc :: "nat \<Rightarrow> bool"
  env_virtual_alloc :: "nat \<Rightarrow> bool"
  env_delete_ioctl :: bool
  env_flush_ioctl :: bool

text \<open>\<open>MAX_SG_BUF\<close> of the disk headers, a positive number.\<close>
definition MAX_SG_BUF :: "io_env \<Rightarrow> nat" where "MAX_SG_BUF env = Suc (env_sg_extra env)"

definition IsDirty :: "ccache \<Rightarrow> nat \<Rightarrow> bool" where
  "IsDirty c i \<longleftrightarrow> m_pStatus c ! i AND STATUS_DIRTY \<noteq> 0"

definition GetIndex :: "ccache \<Rightarrow> nat \<Rightarrow> nat" where
  "GetIndex c s = s mod m_dwCacheSize c"

definition IsCached :: "ccache \<Rightarrow> nat \<Rightarrow> bool" where
  "IsCached c s \<longleftrightarrow> m_pCacheLookup c ! (s mod m_dwCacheSize c) = s"

definition IsWriteBack :: "ccache \<Rightarrow> bool" where
  "IsWriteBack c \<longleftrightarrow> CACHE_FLAG_WRITEBACK (m_dwCreateFlags c)"

section \<open>Requests to the disk\<close>

text \<open>What the driver does with a request: a failed one may have transferred some sectors.\<close>

definition transferred :: "io_env \<Rightarrow> nat \<Rightarrow> nat \<Rightarrow> bool" where
  "transferred env n s \<longleftrightarrow> env_fail env n = None \<or> env_moved env n s"

definition disk_read :: "io_env \<Rightarrow> ccache \<Rightarrow> nat \<Rightarrow> nat \<Rightarrow> BYTE list \<Rightarrow> BYTE list" where
  "disk_read env c s n buf =
     concat (map (\<lambda>k. if transferred env (dk_count c) (s + k) then dk_data c (s + k)
                      else slice (m_dwBlockSize c) buf k) [0..<n])"

definition disk_write :: "io_env \<Rightarrow> ccache \<Rightarrow> nat \<Rightarrow> nat \<Rightarrow> BYTE list \<Rightarrow> nat \<Rightarrow> BYTE list" where
  "disk_write env c s n buf t =
     (if s \<le> t \<and> t < s + n \<and> transferred env (dk_count c) t
      then slice (m_dwBlockSize c) buf (t - s) else dk_data c t)"

definition io_error :: "io_env \<Rightarrow> ccache \<Rightarrow> nat" where
  "io_error env c =
     (case env_fail env (dk_count c) of
        None \<Rightarrow> ERROR_SUCCESS
      | Some dwError \<Rightarrow> if dwError = ERROR_SUCCESS then ERROR_GEN_FAILURE else dwError)"

text \<open>\<open>ReadWriteDisk\<close> with \<open>DISK_IOCTL_READ\<close> returns the error and the buffer, with \<open>DISK_IOCTL_WRITE\<close> the error.\<close>

definition ReadWriteDisk_read ::
    "io_env \<Rightarrow> ccache \<Rightarrow> nat \<Rightarrow> nat \<Rightarrow> BYTE list \<Rightarrow> nat \<times> BYTE list \<times> ccache" where
  "ReadWriteDisk_read env c dwSectorNum dwNumSectors pBuffer =
     (io_error env c, disk_read env c dwSectorNum dwNumSectors pBuffer, c\<lparr>dk_count := dk_count c + 1\<rparr>)"

definition ReadWriteDisk_write ::
    "io_env \<Rightarrow> ccache \<Rightarrow> nat \<Rightarrow> nat \<Rightarrow> BYTE list \<Rightarrow> nat \<times> ccache" where
  "ReadWriteDisk_write env c dwSectorNum dwNumSectors pBuffer =
     (io_error env c, c\<lparr>dk_data := disk_write env c dwSectorNum dwNumSectors pBuffer,
                        dk_count := dk_count c + 1\<rparr>)"

section \<open>The buffers and the dirty status\<close>

definition ReadFromCacheBuffer :: "ccache \<Rightarrow> nat \<Rightarrow> BYTE list" where
  "ReadFromCacheBuffer c dwCacheIndex =
     (let dwByteOffset = mul32 dwCacheIndex (m_dwBlockSize c)
      in take (m_dwBlockSize c)
           (drop (dwByteOffset mod BUFFER_SIZE) (m_apBufferPool c ! (dwByteOffset div BUFFER_SIZE))))"

definition SetDirtyStatus :: "ccache \<Rightarrow> nat \<Rightarrow> ccache" where
  "SetDirtyStatus c dwIndex =
     (let c = (if m_dwDirtyCount c = 0 then c\<lparr>m_hDirtySectorsEvent := True\<rparr> else c);
          c = c\<lparr>m_pStatus := (m_pStatus c)[dwIndex := m_pStatus c ! dwIndex OR STATUS_DIRTY]\<rparr>
      in c\<lparr>m_dwDirtyCount := add32 (m_dwDirtyCount c) 1\<rparr>)"

definition ClearDirtyStatus :: "ccache \<Rightarrow> nat \<Rightarrow> nat \<Rightarrow> ccache" where
  "ClearDirtyStatus c dwStartIndex dwEndIndex =
     (let c = c\<lparr>m_pStatus := fold (\<lambda>i st. st[i := st ! i AND NOT STATUS_DIRTY])
                  [dwStartIndex..<dwEndIndex + 1] (m_pStatus c)\<rparr>;
          c = c\<lparr>m_dwDirtyCount := sub32 (m_dwDirtyCount c) (dwEndIndex - dwStartIndex + 1)\<rparr>
      in if m_dwDirtyCount c = 0 then c\<lparr>m_hDirtySectorsEvent := False\<rparr> else c)"

definition WriteToCacheBuffer :: "ccache \<Rightarrow> nat \<Rightarrow> BYTE list \<Rightarrow> bool \<Rightarrow> ccache" where
  "WriteToCacheBuffer c dwCacheIndex pBuffer fDirty =
     (let dwByteOffset = mul32 dwCacheIndex (m_dwBlockSize c);
          b = dwByteOffset div BUFFER_SIZE;
          c = c\<lparr>m_apBufferPool := (m_apBufferPool c)
                 [b := overwrite (m_apBufferPool c ! b) (dwByteOffset mod BUFFER_SIZE)
                         (take (m_dwBlockSize c) pBuffer)]\<rparr>
      in if IsWriteBack c \<and> \<not> IsDirty c dwCacheIndex \<and> fDirty then SetDirtyStatus c dwCacheIndex else c)"

definition SectorsPerBuffer :: "ccache \<Rightarrow> nat" where
  "SectorsPerBuffer c = BUFFER_SIZE div m_dwBlockSize c"

definition TotalBuffers :: "ccache \<Rightarrow> nat" where
  "TotalBuffers c = sub32 (add32 (mul32 (m_dwCacheSize c) (m_dwBlockSize c)) BUFFER_SIZE) 1 div BUFFER_SIZE"

text \<open>
  Warming reads the first sectors of the disk into the buffers.  The result of the reads is
  not looked at; every entry is marked as cached.
\<close>

definition warm_buffer :: "io_env \<Rightarrow> ccache \<Rightarrow> nat \<Rightarrow> ccache" where
  "warm_buffer env c iBuffer =
     (let spb = SectorsPerBuffer c;
          dwNumSectors = (if iBuffer = TotalBuffers c - 1 \<and> m_dwCacheSize c mod spb \<noteq> 0
                          then m_dwCacheSize c mod spb else spb);
          (err, buf, c) = ReadWriteDisk_read env c (iBuffer * spb) dwNumSectors (m_apBufferPool c ! iBuffer)
      in c\<lparr>m_apBufferPool := (m_apBufferPool c)[iBuffer := overwrite (m_apBufferPool c ! iBuffer) 0 buf]\<rparr>)"

definition WarmCache :: "io_env \<Rightarrow> ccache \<Rightarrow> ccache" where
  "WarmCache env c =
     (let c = fold (\<lambda>iBuffer c. warm_buffer env c iBuffer) [0..<TotalBuffers c] c
      in c\<lparr>m_pCacheLookup := [0..<m_dwCacheSize c] @ drop (m_dwCacheSize c) (m_pCacheLookup c)\<rparr>)"

section \<open>Committing dirty sectors\<close>

text \<open>
  The scatter/gather list of one request: for each buffer touched, the piece of it from the
  first to the last index of the request.  The request writes the pieces one after the other.
\<close>

definition sg_piece :: "ccache \<Rightarrow> nat \<Rightarrow> nat \<Rightarrow> nat \<Rightarrow> nat \<Rightarrow> nat \<Rightarrow> BYTE list" where
  "sg_piece c startBuffer startIndex endBuffer endIndex iBuffer =
     (let spb = SectorsPerBuffer c;
          dwStartBufIndex = (if iBuffer = startBuffer then startIndex mod spb else 0);
          dwNumSectors = (if iBuffer = endBuffer then endIndex mod spb - dwStartBufIndex + 1
                          else spb - dwStartBufIndex)
      in take (m_dwBlockSize c * dwNumSectors)
           (drop (m_dwBlockSize c * dwStartBufIndex) (m_apBufferPool c ! iBuffer)))"

definition sg_bytes :: "ccache \<Rightarrow> nat \<Rightarrow> nat \<Rightarrow> nat \<Rightarrow> nat \<Rightarrow> BYTE list" where
  "sg_bytes c startBuffer startIndex endBuffer endIndex =
     concat (map (sg_piece c startBuffer startIndex endBuffer endIndex) [startBuffer..<endBuffer + 1])"

function commit_loop ::
    "io_env \<Rightarrow> ccache \<Rightarrow> nat \<Rightarrow> nat \<Rightarrow> nat \<Rightarrow> nat \<Rightarrow> nat \<times> ccache" where
  "commit_loop env c startBuffer startIndex endBuffer endIndex =
     (if startBuffer \<le> endBuffer then
        let (tempEndBuffer, tempEndIndex) =
              (if startBuffer + MAX_SG_BUF env \<le> endBuffer
               then (startBuffer + MAX_SG_BUF env - 1,
                     (startBuffer + MAX_SG_BUF env - 1 + 1) * SectorsPerBuffer c - 1)
               else (endBuffer, endIndex))
        in if env_no_memory env (dk_count c) then (ERROR_OUTOFMEMORY, c)
           else
             let n = dk_count c;
                 c' = snd (ReadWriteDisk_write env c (m_pCacheLookup c ! startIndex)
                            (tempEndIndex - startIndex + 1)
                            (sg_bytes c startBuffer startIndex tempEndBuffer tempEndIndex))
             in if env_fail env n \<noteq> None then (env_status env n, c')
                else commit_loop env (ClearDirtyStatus c' startIndex tempEndIndex)
                       (tempEndBuffer + 1) (tempEndIndex + 1) endBuffer endIndex
      else (ERROR_SUCCESS, c))"
  by auto

termination
  by (relation "measure (\<lambda>(env, c, sb, si, eb, ei). eb + 1 - sb)")
    (auto simp: MAX_SG_BUF_def split: if_splits)

declare commit_loop.simps [simp del]

definition CommitCacheSectors :: "io_env \<Rightarrow> ccache \<Rightarrow> nat \<Rightarrow> nat \<Rightarrow> nat \<times> ccache" where
  "CommitCacheSectors env c dwStartIndex dwEndIndex =
     commit_loop env c (dwStartIndex div SectorsPerBuffer c) dwStartIndex
       (dwEndIndex div SectorsPerBuffer c) dwEndIndex"

text \<open>
  The \<open>do\<close> loop of \<open>CommitDirtySectors\<close>: the length of the run of dirty, consecutively numbered
  sectors from the current index.  The code reads the status byte before it tests the bound
  (a byte past the array at the end of the cache); the value read there is not used.
\<close>

fun dirty_run :: "ccache \<Rightarrow> nat \<Rightarrow> nat \<Rightarrow> nat" where
  "dirty_run c cur 0 = 0"
| "dirty_run c cur (Suc n) =
     (let dwPrevCachedSector = m_pCacheLookup c ! cur; cur = cur + 1
      in if n \<noteq> 0 \<and> cur < m_dwCacheSize c \<and> IsDirty c cur \<and>
            m_pCacheLookup c ! cur = add32 dwPrevCachedSector 1
         then Suc (dirty_run c cur n) else 1)"

lemma dirty_run_pos: "n \<noteq> 0 \<Longrightarrow> 0 < dirty_run c cur n" "dirty_run c cur n \<le> n"
  by (induction c cur n rule: dirty_run.induct) (auto simp: Let_def)

definition wants_commit :: "ccache \<Rightarrow> commit_option \<Rightarrow> nat \<Rightarrow> nat \<Rightarrow> bool" where
  "wants_commit c dwOption cur sector \<longleftrightarrow>
     IsDirty c cur \<and>
     (dwOption = COMMIT_ALL_SECTORS \<or>
      (dwOption = COMMIT_DIFF_SECTORS \<and> m_pCacheLookup c ! cur \<noteq> sector) \<or>
      (dwOption = COMMIT_SPECIFIED_SECTORS \<and> m_pCacheLookup c ! cur = sector))"

function commit_dirty_loop ::
    "io_env \<Rightarrow> commit_option \<Rightarrow> ccache \<Rightarrow> nat \<Rightarrow> nat \<Rightarrow> nat \<Rightarrow> ccache" where
  "commit_dirty_loop env dwOption c cur sector n =
     (if n = 0 then c
      else
        let cur = (if cur = m_dwCacheSize c then 0 else cur)
        in if wants_commit c dwOption cur sector then
             let k = dirty_run c cur n;
                 c' = snd (CommitCacheSectors env c cur (cur + k - 1))
             in commit_dirty_loop env dwOption c' (cur + k) (add32 sector k) (n - k)
           else commit_dirty_loop env dwOption c (cur + 1) (add32 sector 1) (n - 1))"
  by auto

termination
  using dirty_run_pos(1)
  by (relation "measure (\<lambda>(env, opt, c, cur, sector, n). n)") (fastforce simp: Let_def)+

declare commit_dirty_loop.simps [simp del]

definition CommitDirtySectors :: "io_env \<Rightarrow> ccache \<Rightarrow> nat \<Rightarrow> nat \<Rightarrow> commit_option \<Rightarrow> ccache" where
  "CommitDirtySectors env c dwStartSector dwNumSectors dwOption =
     (if dwOption = COMMIT_DIFF_SECTORS \<and> dwNumSectors > m_dwCacheSize c
      then commit_dirty_loop env COMMIT_ALL_SECTORS c 0 dwStartSector (m_dwCacheSize c)
      else commit_dirty_loop env dwOption c (GetIndex c dwStartSector) dwStartSector dwNumSectors)"

end
