(* ===== verification/Disk_Cache_Ops.thy ===== *)
theory Disk_Cache_Ops
  imports Disk_Cache
begin

text \<open>
  The operations of the sector cache that its clients call (\<open>DISKCACHE/cache.cpp\<close>): reading,
  writing, flushing, invalidating, deleting, creating and resizing, and the rounds of the
  lazy-writer thread.  Each operation runs under the critical section \<open>m_cs\<close>, so it is one
  function from state to state.  A result \<open>None\<close> is an access outside an array or a division
  by zero.
\<close>

section \<open>The lazy writer\<close>

function next_dirty :: "ccache \<Rightarrow> nat \<Rightarrow> nat" where
  "next_dirty c i = (if i < m_dwCacheSize c \<and> \<not> IsDirty c i then next_dirty c (i + 1) else i)"
  by auto
termination by (relation "measure (\<lambda>(c, i). m_dwCacheSize c - i)") auto

function run_end :: "ccache \<Rightarrow> nat \<Rightarrow> nat \<Rightarrow> nat" where
  "run_end c dwPrevCachedSector dwEndIndex =
     (if dwEndIndex < m_dwCacheSize c \<and> IsDirty c dwEndIndex \<and>
         m_pCacheLookup c ! dwEndIndex = add32 dwPrevCachedSector 1
      then run_end c (add32 dwPrevCachedSector 1) (dwEndIndex + 1) else dwEndIndex)"
  by auto
termination by (relation "measure (\<lambda>(c, p, e). m_dwCacheSize c - e)") auto

declare next_dirty.simps [simp del] run_end.simps [simp del]

definition CommitNextDirtyRun :: "io_env \<Rightarrow> ccache \<Rightarrow> nat \<Rightarrow> (nat \<times> ccache) option" where
  "CommitNextDirtyRun env c dwStartIndex =
     (let dwStartIndex = next_dirty c dwStartIndex in
      if dwStartIndex = m_dwCacheSize c then Some (0, c)
      else if dwStartIndex > m_dwCacheSize c then None
      else
        let dwEndIndex = run_end c (m_pCacheLookup c ! dwStartIndex) (dwStartIndex + 1);
            c' = snd (CommitCacheSectors env c dwStartIndex (dwEndIndex - 1))
        in Some (if dwEndIndex = m_dwCacheSize c then 0 else dwEndIndex, c'))"

text \<open>One round of \<open>LazyWriterThread\<close>: it blocks while the event is not set.\<close>

datatype lazy_out = LazyBlocked | LazyExit | LazyCrash | LazyNext nat ccache

definition LazyWriterRound :: "io_env \<Rightarrow> bool \<Rightarrow> ccache \<Rightarrow> nat \<Rightarrow> lazy_out" where
  "LazyWriterRound env exiting c dwNextCacheIndex =
     (if exiting then LazyExit
      else if \<not> m_hDirtySectorsEvent c then LazyBlocked
      else if m_dwDirtyCount c \<noteq> 0 then
        (case CommitNextDirtyRun env c dwNextCacheIndex of
           None \<Rightarrow> LazyCrash
         | Some (nxt, c) \<Rightarrow> LazyNext nxt c)
      else LazyNext dwNextCacheIndex c)"

section \<open>Reading and writing\<close>

text \<open>The range check shared by reads and writes; the end of the range is computed with wrap-around.\<close>

definition bad_range :: "ccache \<Rightarrow> nat \<Rightarrow> nat \<Rightarrow> bool" where
  "bad_range c dwSectorNum dwNumSectors \<longleftrightarrow>
     (let dwReadSectorEnd = sub32 (add32 dwSectorNum dwNumSectors) 1
      in dwSectorNum < m_dwStart c \<or> dwReadSectorEnd > m_dwEnd c \<or> dwSectorNum > dwReadSectorEnd)"

text \<open>One sector of the update of the cache with data read from the disk.\<close>

definition cache_read_sector :: "nat \<Rightarrow> BYTE list \<Rightarrow> nat \<Rightarrow> ccache \<Rightarrow> ccache" where
  "cache_read_sector dwSectorNum pBuffer dwSector c =
     (let dwCacheIndex = GetIndex c dwSector;
          pBufferData = slice (m_dwBlockSize c) pBuffer (dwSector - dwSectorNum)
      in if m_pCacheLookup c ! dwCacheIndex \<noteq> dwSector
         then let c = WriteToCacheBuffer c dwCacheIndex pBufferData False
              in c\<lparr>m_pCacheLookup := (m_pCacheLookup c)[dwCacheIndex := dwSector]\<rparr>
         else c)"

definition ReadCache ::
    "io_env \<Rightarrow> ccache \<Rightarrow> nat \<Rightarrow> nat \<Rightarrow> BYTE list \<Rightarrow> nat \<times> BYTE list \<times> ccache" where
  "ReadCache env c dwSectorNum dwNumSectors pBuffer =
     (if bad_range c dwSectorNum dwNumSectors then (ERROR_INVALID_PARAMETER, pBuffer, c)
      else if m_dwCacheSize c = 0 then ReadWriteDisk_read env c dwSectorNum dwNumSectors pBuffer
      else
        let bReadDisk = (if dwNumSectors > m_dwCacheSize c then True
              else list_ex (\<lambda>s. \<not> IsCached c s) [dwSectorNum..<add32 dwSectorNum dwNumSectors]);
            (dwError, pBuffer, c) =
              (if bReadDisk then
                 let c = (if IsWriteBack c
                          then CommitDirtySectors env c dwSectorNum dwNumSectors COMMIT_ALL_SECTORS else c)
                 in ReadWriteDisk_read env c dwSectorNum dwNumSectors pBuffer
               else (ERROR_SUCCESS, pBuffer, c))
        in if dwError \<noteq> ERROR_SUCCESS then (dwError, pBuffer, c)
           else
             let n = (if dwNumSectors > m_dwCacheSize c then m_dwCacheSize c else dwNumSectors);
                 sectors = [dwSectorNum..<add32 dwSectorNum n]
             in if bReadDisk
                then (ERROR_SUCCESS, pBuffer, fold (cache_read_sector dwSectorNum pBuffer) sectors c)
                else (ERROR_SUCCESS,
                  fold (\<lambda>s buf. overwrite buf ((s - dwSectorNum) * m_dwBlockSize c)
                                  (ReadFromCacheBuffer c (GetIndex c s))) sectors pBuffer, c))"

definition cache_write_sector :: "nat \<Rightarrow> BYTE list \<Rightarrow> bool \<Rightarrow> nat \<Rightarrow> ccache \<Rightarrow> ccache" where
  "cache_write_sector dwSectorNum pBuffer fDirty dwSector c =
     (let dwCacheIndex = GetIndex c dwSector;
          pBufferData = slice (m_dwBlockSize c) pBuffer (dwSector - dwSectorNum);
          c = WriteToCacheBuffer c dwCacheIndex pBufferData fDirty
      in c\<lparr>m_pCacheLookup := (m_pCacheLookup c)[dwCacheIndex := dwSector]\<rparr>)"

definition WriteCache ::
    "io_env \<Rightarrow> ccache \<Rightarrow> bool \<Rightarrow> nat \<Rightarrow> nat \<Rightarrow> BYTE list \<Rightarrow> nat \<times> ccache" where
  "WriteCache env c fForceWriteThrough dwSectorNum dwNumSectors pBuffer =
     (if bad_range c dwSectorNum dwNumSectors then (ERROR_INVALID_PARAMETER, c)
      else if m_dwCacheSize c = 0 then ReadWriteDisk_write env c dwSectorNum dwNumSectors pBuffer
      else
        let (dwError, c, stop) =
              (if IsWriteBack c then
                 let c = CommitDirtySectors env c dwSectorNum dwNumSectors COMMIT_DIFF_SECTORS
                 in if dwNumSectors > m_dwCacheSize c \<or> fForceWriteThrough
                    then let (e, c) = ReadWriteDisk_write env c dwSectorNum dwNumSectors pBuffer
                         in (e, c, e \<noteq> ERROR_SUCCESS)
                    else (ERROR_SUCCESS, c, False)
               else let (e, c) = ReadWriteDisk_write env c dwSectorNum dwNumSectors pBuffer
                    in (e, c, False))
        in if stop then (dwError, c)
           else
             let n = (if IsWriteBack c \<and> dwNumSectors > m_dwCacheSize c
                      then m_dwCacheSize c else dwNumSectors)
             in (dwError, fold (cache_write_sector dwSectorNum pBuffer (\<not> fForceWriteThrough))
                            [dwSectorNum..<add32 dwSectorNum n] c))"

section \<open>Flushing, invalidating, deleting\<close>

definition send_flush :: "io_env \<Rightarrow> ccache \<Rightarrow> ccache" where
  "send_flush env c =
     (if m_fDisableSendFlush c then c
      else if \<not> env_flush_ioctl env then c\<lparr>m_fDisableSendFlush := True\<rparr> else c)"

text \<open>A sector list is a list of pairs of a start sector and a number of sectors; null is \<open>None\<close>.\<close>

definition FlushCache :: "io_env \<Rightarrow> ccache \<Rightarrow> (nat \<times> nat) list option \<Rightarrow> nat \<times> ccache" where
  "FlushCache env c pSectorList =
     (let c = (if m_dwDirtyCount c \<noteq> 0 \<and> IsWriteBack c
               then (case pSectorList of
                       None \<Rightarrow> CommitDirtySectors env c 0 (m_dwCacheSize c) COMMIT_ALL_SECTORS
                     | Some l \<Rightarrow> fold (\<lambda>(s, n) c. CommitDirtySectors env c s n COMMIT_SPECIFIED_SECTORS) l c)
               else c)
      in (ERROR_SUCCESS, send_flush env c))"

definition InvalidateSector :: "nat \<Rightarrow> ccache \<Rightarrow> ccache" where
  "InvalidateSector dwSector c =
     (let dwCacheIndex = GetIndex c dwSector in
      if m_pCacheLookup c ! dwCacheIndex = dwSector then
        let c = c\<lparr>m_pCacheLookup := (m_pCacheLookup c)[dwCacheIndex := INVALID_CACHE_ID]\<rparr>
        in if IsWriteBack c \<and> IsDirty c dwCacheIndex
           then ClearDirtyStatus c dwCacheIndex dwCacheIndex else c
      else c)"

text \<open>With a cache of size 0, the index computation divides by zero as soon as there is a sector to invalidate.\<close>

definition invalidate_range :: "nat \<Rightarrow> nat \<Rightarrow> ccache \<Rightarrow> ccache option" where
  "invalidate_range s n c =
     (if [s..<add32 s n] \<noteq> [] \<and> m_dwCacheSize c = 0 then None
      else Some (fold InvalidateSector [s..<add32 s n] c))"

fun InvalidateCache :: "ccache \<Rightarrow> (nat \<times> nat) list \<Rightarrow> ccache option" where
  "InvalidateCache c [] = Some c"
| "InvalidateCache c ((s, n) # l) = do { c \<leftarrow> invalidate_range s n c; InvalidateCache c l }"

text \<open>The driver may give any contents to the sectors that are deleted: \<open>junk\<close>.\<close>

definition DeleteCachedSectors ::
    "io_env \<Rightarrow> (nat \<Rightarrow> BYTE list) \<Rightarrow> ccache \<Rightarrow> nat \<Rightarrow> nat \<Rightarrow> (bool \<times> ccache) option" where
  "DeleteCachedSectors env junk c startsector numsectors = do {
     c \<leftarrow> invalidate_range startsector numsectors c;
     if m_fDisableSendDelete c then Some (True, c)
     else if \<not> env_delete_ioctl env then Some (True, c\<lparr>m_fDisableSendDelete := True\<rparr>)
     else Some (True, c\<lparr>dk_data := (\<lambda>t. if startsector \<le> t \<and> t < startsector + numsectors
                                       then junk t else dk_data c t)\<rparr>)
   }"

text \<open>
  The control entry: a delete request of the wrong size returns the error code as a boolean,
  which is \<open>TRUE\<close>; every other code goes to the driver, whose answer is \<open>drv\<close>.
\<close>

datatype ioctl = IOCTL_DISK_DELETE_SECTORS "(nat \<times> nat) option" | IOCTL_OTHER

definition CacheIoControl ::
    "io_env \<Rightarrow> (nat \<Rightarrow> BYTE list) \<Rightarrow> bool \<Rightarrow> ccache \<Rightarrow> ioctl \<Rightarrow> (bool \<times> ccache) option" where
  "CacheIoControl env junk drv c code =
     (case code of
        IOCTL_DISK_DELETE_SECTORS None \<Rightarrow> Some (ERROR_INVALID_PARAMETER \<noteq> 0, c)
      | IOCTL_DISK_DELETE_SECTORS (Some (s, n)) \<Rightarrow> DeleteCachedSectors env junk c s n
      | IOCTL_OTHER \<Rightarrow> Some (drv, c))"

section \<open>Creating and resizing\<close>

text \<open>The constructor.\<close>

definition CCache_new ::
    "(nat \<Rightarrow> BYTE list) \<Rightarrow> nat \<Rightarrow> nat \<Rightarrow> nat \<Rightarrow> nat \<Rightarrow> cache_flags \<Rightarrow> ccache" where
  "CCache_new disk dwStart dwEnd dwCacheSize dwBlockSize dwCreateFlags =
     \<lparr>m_dwStart = dwStart, m_dwEnd = dwEnd, m_dwCacheSize = dwCacheSize, m_dwBlockSize = dwBlockSize,
      m_dwCreateFlags = dwCreateFlags, m_fDisableSendDelete = False, m_fDisableSendFlush = False,
      m_dwDirtyCount = 0, m_pCacheLookup = [], m_pStatus = [], m_apBufferPool = [],
      m_hDirtySectorsEvent = False, dk_data = disk, dk_count = 0\<rparr>"

definition InitCache :: "io_env \<Rightarrow> ccache \<Rightarrow> bool \<times> ccache" where
  "InitCache env c =
     (let dwTotalBuffers = TotalBuffers c;
          dwPartialBufferSize = mul32 (m_dwCacheSize c) (m_dwBlockSize c) mod BUFFER_SIZE
      in if \<not> env_local_alloc env 0 then (False, c)
         else if \<not> env_local_alloc env 1 then (False, c)
         else
           let c = c\<lparr>m_pCacheLookup := replicate (m_dwCacheSize c) INVALID_CACHE_ID\<rparr>
           in if \<not> env_local_alloc env 2 then (False, c)
              else
                let c = c\<lparr>m_pStatus := replicate (m_dwCacheSize c) 0\<rparr>;
                    got = takeWhile (env_virtual_alloc env) [0..<dwTotalBuffers];
                    c = c\<lparr>m_apBufferPool := map (\<lambda>iBuffer.
                          replicate (if dwPartialBufferSize \<noteq> 0 \<and> iBuffer = dwTotalBuffers - 1
                                     then dwPartialBufferSize else BUFFER_SIZE) 0) got\<rparr>;
                    c = (if length got < dwTotalBuffers
                         then c\<lparr>m_dwCacheSize := mul32 (length got) BUFFER_SIZE div m_dwBlockSize c\<rparr> else c)
                in (True, if CACHE_FLAG_WARM (m_dwCreateFlags c) then WarmCache env c else c))"

text \<open>
  Resizing keeps the full buffers that both sizes share, and allocates or frees the others.
  The early return compares the new size with the block size.
\<close>

definition resize_buffers :: "io_env \<Rightarrow> ccache \<Rightarrow> nat \<Rightarrow> nat \<Rightarrow> nat \<Rightarrow> ccache" where
  "resize_buffers env c dwSize dwOldNumBuffers dwNewNumBuffers =
     (let kept = take (min dwOldNumBuffers dwNewNumBuffers) (m_apBufferPool c);
          got = takeWhile (env_virtual_alloc env) [dwOldNumBuffers..<dwNewNumBuffers];
          c = c\<lparr>m_apBufferPool := kept @ map (\<lambda>_. replicate BUFFER_SIZE 0) got,
                m_dwCacheSize := dwSize\<rparr>;
          c = (if dwOldNumBuffers + length got < dwNewNumBuffers
               then c\<lparr>m_dwCacheSize :=
                       mul32 (dwOldNumBuffers + length got) BUFFER_SIZE div m_dwBlockSize c\<rparr> else c);
          part = mul32 (m_dwCacheSize c) (m_dwBlockSize c) mod BUFFER_SIZE
      in if part \<noteq> 0
         then (if env_virtual_alloc env dwNewNumBuffers
               then c\<lparr>m_apBufferPool := m_apBufferPool c @ [replicate part 0]\<rparr>
               else c\<lparr>m_dwCacheSize := mul32 dwNewNumBuffers BUFFER_SIZE div m_dwBlockSize c\<rparr>)
         else c)"

definition ResizeCache :: "io_env \<Rightarrow> ccache \<Rightarrow> bool \<Rightarrow> nat \<Rightarrow> nat \<times> ccache" where
  "ResizeCache env c fWarm dwSize =
     (let dwOldNumBuffers = mul32 (m_dwCacheSize c) (m_dwBlockSize c) div BUFFER_SIZE;
          dwNewNumBuffers = mul32 dwSize (m_dwBlockSize c) div BUFFER_SIZE
      in if m_dwBlockSize c = dwSize then (ERROR_SUCCESS, c)
         else
           let c = snd (FlushCache env c None)
           in if \<not> env_local_alloc env 0 then (ERROR_OUTOFMEMORY, c)
              else if \<not> env_local_alloc env 1 then (ERROR_OUTOFMEMORY, c)
              else if \<not> env_local_alloc env 2 then (ERROR_OUTOFMEMORY, c)
              else
                let c = resize_buffers env c dwSize dwOldNumBuffers dwNewNumBuffers;
                    c = c\<lparr>m_pCacheLookup := replicate dwSize INVALID_CACHE_ID,
                          m_pStatus := replicate dwSize 0\<rparr>
                in (ERROR_SUCCESS, if fWarm then WarmCache env c else c))"

end
