(* ===== verification/Disk_Cache_Pool.thy ===== *)
theory Disk_Cache_Pool
  imports Disk_Cache_Ops
begin

text \<open>
  The buffer pool of the sector cache seen as an array of blocks: which block an index
  denotes, that writing one block leaves the others alone, that the pieces of a
  scatter/gather request put together are the blocks of the request in order, and the effect
  of setting and clearing the dirty status.
\<close>

section \<open>Blocks of byte lists\<close>

lemma slice_concat:
  assumes "\<And>i. a \<le> i \<Longrightarrow> i < b \<Longrightarrow> length (f i) = bs" and "k < b - a"
  shows "slice bs (concat (map f [a..<b])) k = f (a + k)"
  using assms
proof (induction k arbitrary: a)
  case 0
  then have "[a..<b] = a # [Suc a..<b]" by (simp add: upt_rec)
  with 0 show ?case by (simp add: slice_def)
next
  case (Suc k)
  then have eq: "[a..<b] = a # [Suc a..<b]" by (simp add: upt_rec)
  have "slice bs (concat (map f [Suc a..<b])) k = f (Suc a + k)"
    using Suc.prems by (intro Suc.IH) auto
  moreover have "length (f a) = bs" using Suc.prems by simp
  ultimately show ?case by (simp add: slice_def eq)
qed

lemma concat_slices_from:
  assumes "(a + n) * bs \<le> length xs"
  shows "concat (map (slice bs xs) [a..<a + n]) = take (bs * n) (drop (bs * a) xs)"
proof -
  have "concat (map (slice bs xs) [a..<a + n]) = concat (map (slice bs (drop (a * bs) xs)) [0..<n])"
    by (rule arg_cong [where f = concat], rule nth_equalityI) (auto simp: slice_def algebra_simps)
  also have "\<dots> = take (n * bs) (drop (a * bs) xs)"
    using assms by (intro concat_slices) (simp add: algebra_simps)
  finally show ?thesis by (simp add: mult.commute)
qed

lemma concat_pieces_add:
  assumes "\<And>b. m \<le> b \<Longrightarrow> b < m + k \<Longrightarrow> g b \<le> g (Suc b)"
  shows "g m \<le> g (m + k) \<and>
    concat (map (\<lambda>b. concat (map f [g b..<g (Suc b)])) [m..<m + k]) = concat (map f [g m..<g (m + k)])"
  using assms
proof (induction k)
  case 0
  then show ?case by simp
next
  case (Suc k)
  have IH: "g m \<le> g (m + k)"
    "concat (map (\<lambda>b. concat (map f [g b..<g (Suc b)])) [m..<m + k]) = concat (map f [g m..<g (m + k)])"
    using Suc by simp_all
  have step: "g (m + k) \<le> g (Suc (m + k))" using Suc.prems by simp
  have "[g m..<g (Suc (m + k))] = [g m..<g (m + k)] @ [g (m + k)..<g (Suc (m + k))]"
    using IH(1) step by (metis le_iff_add upt_add_eq_append)
  with IH step show ?case by simp
qed

lemma concat_pieces:
  assumes "\<And>b. m \<le> b \<Longrightarrow> b < n \<Longrightarrow> g b \<le> g (Suc b)" and "m \<le> n"
  shows "concat (map (\<lambda>b. concat (map f [g b..<g (Suc b)])) [m..<n]) = concat (map f [g m..<g n])"
  using concat_pieces_add [of m "n - m" g f] assms by simp

section \<open>The geometry of the pool\<close>

definition pool_ok :: "ccache \<Rightarrow> bool" where
  "pool_ok c \<longleftrightarrow> 0 < m_dwBlockSize c \<and> m_dwBlockSize c dvd BUFFER_SIZE \<and>
     m_dwCacheSize c * m_dwBlockSize c + BUFFER_SIZE < 2 ^ 32 \<and>
     (\<forall>i < m_dwCacheSize c. i div SectorsPerBuffer c < length (m_apBufferPool c) \<and>
        (i mod SectorsPerBuffer c + 1) * m_dwBlockSize c
          \<le> length (m_apBufferPool c ! (i div SectorsPerBuffer c)))"

abbreviation blk :: "ccache \<Rightarrow> nat \<Rightarrow> BYTE list" where "blk \<equiv> ReadFromCacheBuffer"

lemma pool_okD:
  assumes "pool_ok c"
  shows "0 < m_dwBlockSize c" "m_dwBlockSize c dvd BUFFER_SIZE" "0 < SectorsPerBuffer c"
    "SectorsPerBuffer c * m_dwBlockSize c = BUFFER_SIZE"
proof -
  show "0 < m_dwBlockSize c" "m_dwBlockSize c dvd BUFFER_SIZE" using assms by (auto simp: pool_ok_def)
  then show "SectorsPerBuffer c * m_dwBlockSize c = BUFFER_SIZE" by (simp add: SectorsPerBuffer_def)
  then show "0 < SectorsPerBuffer c" by (metis BUFFER_SIZE_def gr0I mult_0 mult_eq_0_iff zero_neq_numeral)
qed

lemma byte_offset:
  assumes "pool_ok c" and "i < m_dwCacheSize c"
  shows "mul32 i (m_dwBlockSize c) div BUFFER_SIZE = i div SectorsPerBuffer c"
    "mul32 i (m_dwBlockSize c) mod BUFFER_SIZE = i mod SectorsPerBuffer c * m_dwBlockSize c"
proof -
  note d = pool_okD [OF assms(1)]
  have "i * m_dwBlockSize c \<le> m_dwCacheSize c * m_dwBlockSize c" using assms(2) by simp
  also have "\<dots> < 2 ^ 32" using assms(1) by (simp add: pool_ok_def)
  finally have eq: "mul32 i (m_dwBlockSize c) = i * m_dwBlockSize c" by (simp add: mul32_def)
  show "mul32 i (m_dwBlockSize c) div BUFFER_SIZE = i div SectorsPerBuffer c"
    unfolding eq d(4) [symmetric] using d(1) by simp
  show "mul32 i (m_dwBlockSize c) mod BUFFER_SIZE = i mod SectorsPerBuffer c * m_dwBlockSize c"
    unfolding eq d(4) [symmetric] by simp
qed

lemma blk_slice:
  assumes "pool_ok c" and "i < m_dwCacheSize c"
  shows "blk c i = slice (m_dwBlockSize c) (m_apBufferPool c ! (i div SectorsPerBuffer c)) (i mod SectorsPerBuffer c)"
  using byte_offset [OF assms] by (simp add: ReadFromCacheBuffer_def slice_def Let_def)

lemma length_blk:
  assumes "pool_ok c" and "i < m_dwCacheSize c"
  shows "length (blk c i) = m_dwBlockSize c"
proof -
  have "(i mod SectorsPerBuffer c + 1) * m_dwBlockSize c
      \<le> length (m_apBufferPool c ! (i div SectorsPerBuffer c))"
    using assms by (simp add: pool_ok_def)
  then show ?thesis by (simp add: blk_slice [OF assms] slice_def add.commute le_diff_conv2)
qed

text \<open>The fields that a write of a block does not touch.\<close>

definition put_blk :: "ccache \<Rightarrow> nat \<Rightarrow> BYTE list \<Rightarrow> ccache" where
  "put_blk c i d =
     (let off = mul32 i (m_dwBlockSize c); b = off div BUFFER_SIZE
      in c\<lparr>m_apBufferPool := (m_apBufferPool c)
             [b := overwrite (m_apBufferPool c ! b) (off mod BUFFER_SIZE) (take (m_dwBlockSize c) d)]\<rparr>)"

lemma WriteToCacheBuffer_put:
  "WriteToCacheBuffer c i d f =
     (if IsWriteBack c \<and> \<not> IsDirty c i \<and> f then SetDirtyStatus (put_blk c i d) i else put_blk c i d)"
  by (simp add: WriteToCacheBuffer_def put_blk_def Let_def IsWriteBack_def IsDirty_def)

lemma put_blk_fields [simp]:
  "m_dwStart (put_blk c i d) = m_dwStart c" "m_dwEnd (put_blk c i d) = m_dwEnd c"
  "m_dwCacheSize (put_blk c i d) = m_dwCacheSize c" "m_dwBlockSize (put_blk c i d) = m_dwBlockSize c"
  "m_dwCreateFlags (put_blk c i d) = m_dwCreateFlags c" "m_dwDirtyCount (put_blk c i d) = m_dwDirtyCount c"
  "m_pCacheLookup (put_blk c i d) = m_pCacheLookup c" "m_pStatus (put_blk c i d) = m_pStatus c"
  "m_hDirtySectorsEvent (put_blk c i d) = m_hDirtySectorsEvent c" "dk_data (put_blk c i d) = dk_data c"
  "dk_count (put_blk c i d) = dk_count c" "SectorsPerBuffer (put_blk c i d) = SectorsPerBuffer c"
  by (simp_all add: put_blk_def Let_def SectorsPerBuffer_def)

lemma put_blk_spec:
  assumes ok: "pool_ok c" and i: "i < m_dwCacheSize c" and d: "length d = m_dwBlockSize c"
  shows "pool_ok (put_blk c i d)"
    and "j < m_dwCacheSize c \<Longrightarrow> blk (put_blk c i d) j = (if j = i then d else blk c j)"
proof -
  let ?spb = "SectorsPerBuffer c" and ?bs = "m_dwBlockSize c" and ?p = "m_apBufferPool c"
  have fits: "i div ?spb < length ?p" "i mod ?spb * ?bs + length d \<le> length (?p ! (i div ?spb))"
    using ok i d by (auto simp: pool_ok_def algebra_simps)
  have pool: "m_apBufferPool (put_blk c i d) =
      ?p[i div ?spb := overwrite (?p ! (i div ?spb)) (i mod ?spb * ?bs) d]"
    using byte_offset [OF ok i] d by (simp add: put_blk_def Let_def)
  have len: "length (m_apBufferPool (put_blk c i d)) = length ?p"
    "length (m_apBufferPool (put_blk c i d) ! b) = length (?p ! b)" for b
    using fits unfolding pool by (cases "b = i div ?spb"; simp add: length_overwrite)+
  show ok': "pool_ok (put_blk c i d)" using ok by (simp add: pool_ok_def len)
  assume j: "j < m_dwCacheSize c"
  have get: "blk (put_blk c i d) j = slice ?bs (m_apBufferPool (put_blk c i d) ! (j div ?spb)) (j mod ?spb)"
    using blk_slice [OF ok'] j by simp
  show "blk (put_blk c i d) j = (if j = i then d else blk c j)"
  proof (cases "j div ?spb = i div ?spb")
    case False
    then have "j \<noteq> i" by auto
    with False show ?thesis by (simp add: get pool blk_slice [OF ok j])
  next
    case same: True
    show ?thesis
    proof (cases "j = i")
      case True
      with overwrite_same [OF fits(2)] fits(1) d get show ?thesis by (simp add: pool slice_def)
    next
      case False
      then have "j mod ?spb \<noteq> i mod ?spb" using same by (metis div_mult_mod_eq)
      then have "(j mod ?spb + 1) \<le> i mod ?spb \<or> i mod ?spb + 1 \<le> j mod ?spb" by linarith
      then have "(j mod ?spb + 1) * ?bs \<le> i mod ?spb * ?bs \<or> (i mod ?spb + 1) * ?bs \<le> j mod ?spb * ?bs"
        using mult_le_mono1 by blast
      then have "j mod ?spb * ?bs + ?bs \<le> i mod ?spb * ?bs \<or> i mod ?spb * ?bs + length d \<le> j mod ?spb * ?bs"
        using d by (simp add: algebra_simps)
      from overwrite_other [OF fits(2) this] same False fits show ?thesis
        by (simp add: get pool slice_def blk_slice [OF ok j])
    qed
  qed
qed

section \<open>The scatter/gather list\<close>

lemma sg_piece_blocks:
  assumes ok: "pool_ok c" and bounds: "si \<le> ei" "ei < m_dwCacheSize c"
    and b: "si div SectorsPerBuffer c \<le> b" "b \<le> ei div SectorsPerBuffer c"
  shows "sg_piece c (si div SectorsPerBuffer c) si (ei div SectorsPerBuffer c) ei b =
    concat (map (blk c) [if b = si div SectorsPerBuffer c then si else b * SectorsPerBuffer c
                         ..< if b = ei div SectorsPerBuffer c then ei + 1 else Suc b * SectorsPerBuffer c])"
proof -
  let ?spb = "SectorsPerBuffer c" and ?bs = "m_dwBlockSize c" and ?p = "m_apBufferPool c ! b"
  have spb: "0 < ?spb" by (rule pool_okD(3) [OF ok])
  define lo where "lo = (if b = si div ?spb then si mod ?spb else 0)"
  define n where "n = (if b = ei div ?spb then ei mod ?spb - lo + 1 else ?spb - lo)"
  have lo: "(if b = si div ?spb then si else b * ?spb) = b * ?spb + lo" by (simp add: lo_def)
  have lo_le: "lo < ?spb" using spb by (simp add: lo_def)
  have lo_ei: "b = ei div ?spb \<Longrightarrow> lo \<le> ei mod ?spb"
  proof -
    assume e: "b = ei div ?spb"
    show "lo \<le> ei mod ?spb"
    proof (cases "b = si div ?spb")
      case True
      then have "si div ?spb = ei div ?spb" using e by simp
      then show ?thesis using bounds(1) True unfolding lo_def
        by (metis add_le_cancel_left div_mult_mod_eq)
    qed (simp add: lo_def)
  qed
  have hi: "(if b = ei div ?spb then ei + 1 else Suc b * ?spb) = b * ?spb + lo + n"
    using lo_le lo_ei by (auto simp: n_def)
  have "b * ?spb + lo + n \<le> ei + 1"
  proof (cases "b = ei div ?spb")
    case False
    then have "Suc b * ?spb \<le> ei div ?spb * ?spb" using b(2) by (intro mult_le_mono1) simp
    also have "\<dots> \<le> ei" by (rule div_times_less_eq_dividend)
    finally show ?thesis using False hi by simp
  qed (use hi in simp)
  then have last: "b * ?spb + (lo + n - 1) < m_dwCacheSize c" and n: "0 < n" "lo + n \<le> ?spb"
    using bounds lo_le lo_ei mod_less_divisor [OF spb, of ei]
    by (auto simp: n_def Suc_le_eq simp del: mod_less_divisor)
  have in_b: "(b * ?spb + k) div ?spb = b" "(b * ?spb + k) mod ?spb = k" if "k < lo + n" for k
    using that n by auto
  have "(lo + n) * ?bs \<le> length ?p"
    using ok last n in_b [of "lo + n - 1"] unfolding pool_ok_def by (metis Suc_eq_plus1 Suc_pred' add_pos_nonneg diff_Suc_1 less_add_same_cancel1 add_gr_0 zero_le lessI)
  then have "sg_piece c (si div ?spb) si (ei div ?spb) ei b = concat (map (slice ?bs ?p) [lo..<lo + n])"
    by (simp add: sg_piece_def Let_def concat_slices_from lo_def n_def)
  also have "map (slice ?bs ?p) [lo..<lo + n] = map (blk c) [b * ?spb + lo..<b * ?spb + lo + n]"
  proof (rule nth_equalityI)
    fix k
    assume "k < length (map (slice ?bs ?p) [lo..<lo + n])"
    then have k: "k < n" by simp
    have "blk c (b * ?spb + (lo + k)) = slice ?bs ?p (lo + k)"
      using blk_slice [OF ok, of "b * ?spb + (lo + k)"] in_b [of "lo + k"] last k by simp
    with k show "map (slice ?bs ?p) [lo..<lo + n] ! k = map (blk c) [b * ?spb + lo..<b * ?spb + lo + n] ! k"
      by (simp add: add.assoc)
  qed simp
  finally show ?thesis unfolding lo hi by simp
qed

lemma sg_bytes_blocks:
  assumes ok: "pool_ok c" and bounds: "si \<le> ei" "ei < m_dwCacheSize c"
  shows "sg_bytes c (si div SectorsPerBuffer c) si (ei div SectorsPerBuffer c) ei =
    concat (map (blk c) [si..<ei + 1])"
proof -
  let ?spb = "SectorsPerBuffer c"
  define g where "g b = (if b \<le> si div ?spb then si else if b \<le> ei div ?spb then b * ?spb else ei + 1)" for b
  have spb: "0 < ?spb" by (rule pool_okD(3) [OF ok])
  have le: "si div ?spb \<le> ei div ?spb" using bounds(1) by (rule div_le_mono)
  have below: "si \<le> Suc b * ?spb" if "si div ?spb \<le> b" for b
    using that spb by (metis div_less_iff_less_mult le_imp_less_Suc less_imp_le)
  have above: "b * ?spb \<le> ei" if "b \<le> ei div ?spb" for b
    using that spb by (simp add: less_eq_div_iff_mult_less_eq)
  have mono: "g b \<le> g (Suc b)" if "si div ?spb \<le> b" "b < Suc (ei div ?spb)" for b
    using that below [of b] above [of b] bounds(1) by (auto simp: g_def not_le)
  have "sg_piece c (si div ?spb) si (ei div ?spb) ei b = concat (map (blk c) [g b..<g (Suc b)])"
    if "b \<in> set [si div ?spb..<Suc (ei div ?spb)]" for b
    using that sg_piece_blocks [OF ok bounds, of b] by (auto simp: g_def)
  then have "sg_bytes c (si div ?spb) si (ei div ?spb) ei =
      concat (map (\<lambda>b. concat (map (blk c) [g b..<g (Suc b)])) [si div ?spb..<Suc (ei div ?spb)])"
    unfolding sg_bytes_def by (intro arg_cong [where f = concat] map_cong) simp_all
  also have "\<dots> = concat (map (blk c) [g (si div ?spb)..<g (Suc (ei div ?spb))])"
    using mono le by (intro concat_pieces) auto
  finally show ?thesis using le by (simp add: g_def)
qed

section \<open>The dirty status\<close>

lemma dirty_bits:
  "(x OR STATUS_DIRTY) AND STATUS_DIRTY \<noteq> 0" "(x AND NOT STATUS_DIRTY) AND STATUS_DIRTY = 0"
proof -
  have "bit ((x OR STATUS_DIRTY) AND STATUS_DIRTY) 0" by (simp add: STATUS_DIRTY_def bit_simps)
  moreover have "\<not> bit (0 :: BYTE) 0" by simp
  ultimately show "(x OR STATUS_DIRTY) AND STATUS_DIRTY \<noteq> 0" by fastforce
  show "(x AND NOT STATUS_DIRTY) AND STATUS_DIRTY = 0"
    by (rule bit_word_eqI) (auto simp: STATUS_DIRTY_def bit_simps)
qed

lemma length_clear_bits [simp]:
  "length (fold (\<lambda>i st. st[i := st ! i AND NOT STATUS_DIRTY]) is st) = length st"
  by (induction "is" arbitrary: st) auto

lemma nth_clear_bits:
  assumes "k < length st"
  shows "fold (\<lambda>i st. st[i := st ! i AND NOT STATUS_DIRTY]) is st ! k AND STATUS_DIRTY =
    (if k \<in> set is then 0 else st ! k AND STATUS_DIRTY)"
  using assms
proof (induction "is" arbitrary: st)
  case Nil
  then show ?case by simp
next
  case (Cons a "is")
  then show ?case by (cases "a = k") (simp_all add: dirty_bits)
qed

end
