(* ===== verification/Disk_Cache_Inv.thy ===== *)
theory Disk_Cache_Inv
  imports Disk_Cache_Pool
begin

text \<open>
  The invariant of the sector cache, the disk a client sees through it, and the proof that
  committing dirty sectors keeps the invariant and the view, and moves exactly the committed
  blocks to the disk.  These lemmas are about an environment in which every request and every
  allocation of a request succeeds; what happens otherwise is in \<open>Disk_Cache_Theorems\<close>.
\<close>

section \<open>The invariant and the view\<close>

definition env_ok :: "io_env \<Rightarrow> bool" where
  "env_ok env \<longleftrightarrow> (\<forall>n. env_fail env n = None) \<and> (\<forall>n. \<not> env_no_memory env n)"

text \<open>The indices that hold a sector, and those that hold a dirty one.\<close>

definition dirty_set :: "ccache \<Rightarrow> nat set" where
  "dirty_set c = {i. i < m_dwCacheSize c \<and> IsDirty c i}"

definition tables_ok :: "ccache \<Rightarrow> bool" where
  "tables_ok c \<longleftrightarrow>
     m_dwCacheSize c \<le> length (m_pCacheLookup c) \<and> m_dwCacheSize c \<le> length (m_pStatus c) \<and>
     m_dwEnd c < INVALID_CACHE_ID \<and> (\<forall>t. length (dk_data c t) = m_dwBlockSize c) \<and>
     (\<forall>i < m_dwCacheSize c. m_pCacheLookup c ! i = INVALID_CACHE_ID \<or>
        m_pCacheLookup c ! i < INVALID_CACHE_ID \<and> m_pCacheLookup c ! i mod m_dwCacheSize c = i)"

definition dirty_ok :: "ccache \<Rightarrow> bool" where
  "dirty_ok c \<longleftrightarrow>
     (\<forall>i \<in> dirty_set c. m_pCacheLookup c ! i \<noteq> INVALID_CACHE_ID) \<and>
     m_dwDirtyCount c = card (dirty_set c) \<and>
     (\<not> IsWriteBack c \<longrightarrow> dirty_set c = {}) \<and>
     (m_hDirtySectorsEvent c \<longleftrightarrow> dirty_set c \<noteq> {})"

text \<open>A block that is cached and not dirty is the block on the disk.\<close>

definition coherent :: "ccache \<Rightarrow> bool" where
  "coherent c \<longleftrightarrow> (\<forall>i < m_dwCacheSize c. m_pCacheLookup c ! i \<noteq> INVALID_CACHE_ID \<and> \<not> IsDirty c i \<longrightarrow>
     blk c i = dk_data c (m_pCacheLookup c ! i))"

definition cache_inv :: "ccache \<Rightarrow> bool" where
  "cache_inv c \<longleftrightarrow> pool_ok c \<and> tables_ok c \<and> dirty_ok c \<and> coherent c"

definition cache_view :: "ccache \<Rightarrow> nat \<Rightarrow> BYTE list" where
  "cache_view c s =
     (if m_dwCacheSize c \<noteq> 0 \<and> IsCached c s then blk c (GetIndex c s) else dk_data c s)"

lemma dirty_set_finite [simp]: "finite (dirty_set c)"
  by (simp add: dirty_set_def)

lemma dirty_card_bound: "card (dirty_set c) \<le> m_dwCacheSize c"
  using card_mono [of "{..<m_dwCacheSize c}" "dirty_set c"] by (auto simp: dirty_set_def)

lemma pool_ok_size: "pool_ok c \<Longrightarrow> m_dwCacheSize c < 2 ^ 32 - 1"
proof -
  assume ok: "pool_ok c"
  have "m_dwCacheSize c \<le> m_dwCacheSize c * m_dwBlockSize c"
    using ok by (simp add: pool_ok_def)
  moreover have "m_dwCacheSize c * m_dwBlockSize c + BUFFER_SIZE < 2 ^ 32"
    using ok by (simp add: pool_ok_def)
  ultimately show ?thesis unfolding BUFFER_SIZE_def by linarith
qed

text \<open>Everything but the dirty status and the disk.\<close>

definition same_static :: "ccache \<Rightarrow> ccache \<Rightarrow> bool" where
  "same_static c c' \<longleftrightarrow>
     m_dwStart c' = m_dwStart c \<and> m_dwEnd c' = m_dwEnd c \<and> m_dwCacheSize c' = m_dwCacheSize c \<and>
     m_dwBlockSize c' = m_dwBlockSize c \<and> m_dwCreateFlags c' = m_dwCreateFlags c \<and>
     m_pCacheLookup c' = m_pCacheLookup c \<and> m_apBufferPool c' = m_apBufferPool c \<and>
     length (m_pStatus c') = length (m_pStatus c) \<and>
     m_fDisableSendFlush c' = m_fDisableSendFlush c \<and> m_fDisableSendDelete c' = m_fDisableSendDelete c"

lemma same_static_refl [simp]: "same_static c c"
  by (simp add: same_static_def)

lemma same_static_trans: "same_static a b \<Longrightarrow> same_static b c \<Longrightarrow> same_static a c"
  by (simp add: same_static_def)

lemma same_static_eqs:
  assumes "same_static c c'"
  shows "SectorsPerBuffer c' = SectorsPerBuffer c" "blk c' i = blk c i" "GetIndex c' s = GetIndex c s"
    "IsCached c' s = IsCached c s" "IsWriteBack c' = IsWriteBack c" "pool_ok c' = pool_ok c"
  using assms by (simp_all add: same_static_def SectorsPerBuffer_def ReadFromCacheBuffer_def GetIndex_def
      IsCached_def IsWriteBack_def pool_ok_def)

section \<open>Clearing a range of dirty bits\<close>

lemma clear_fields [simp]:
  "m_pCacheLookup (ClearDirtyStatus c s e) = m_pCacheLookup c" "dk_data (ClearDirtyStatus c s e) = dk_data c"
  "m_dwCacheSize (ClearDirtyStatus c s e) = m_dwCacheSize c" "dk_count (ClearDirtyStatus c s e) = dk_count c"
  "m_dwDirtyCount (ClearDirtyStatus c s e) = sub32 (m_dwDirtyCount c) (e - s + 1)"
  by (simp_all add: ClearDirtyStatus_def Let_def)

lemma clear_static [simp]: "same_static c (ClearDirtyStatus c s e)"
  by (simp add: same_static_def ClearDirtyStatus_def Let_def)

lemma clear_event: "m_hDirtySectorsEvent (ClearDirtyStatus c s e) \<longleftrightarrow>
    m_hDirtySectorsEvent c \<and> sub32 (m_dwDirtyCount c) (e - s + 1) \<noteq> 0"
  by (simp add: ClearDirtyStatus_def Let_def)

lemma clear_dirty:
  assumes "i < length (m_pStatus c)"
  shows "IsDirty (ClearDirtyStatus c s e) i \<longleftrightarrow> IsDirty c i \<and> \<not> (s \<le> i \<and> i \<le> e)"
proof -
  have "m_pStatus (ClearDirtyStatus c s e) =
      fold (\<lambda>i st. st[i := st ! i AND NOT STATUS_DIRTY]) [s..<e + 1] (m_pStatus c)"
    by (simp add: ClearDirtyStatus_def Let_def)
  then show ?thesis
    using nth_clear_bits [OF assms, of "[s..<e + 1]"] by (auto simp: IsDirty_def)
qed

section \<open>The commit loop\<close>

lemma write_static [simp]: "same_static c (snd (ReadWriteDisk_write env c s n buf))"
  "m_pStatus (snd (ReadWriteDisk_write env c s n buf)) = m_pStatus c"
  "m_dwDirtyCount (snd (ReadWriteDisk_write env c s n buf)) = m_dwDirtyCount c"
  "m_hDirtySectorsEvent (snd (ReadWriteDisk_write env c s n buf)) = m_hDirtySectorsEvent c"
  by (simp_all add: ReadWriteDisk_write_def same_static_def)

lemma write_data: "dk_data (snd (ReadWriteDisk_write env c s n buf)) = disk_write env c s n buf"
  by (simp add: ReadWriteDisk_write_def)

text \<open>The sectors from the start index on are numbered consecutively.\<close>

definition consecutive :: "ccache \<Rightarrow> nat \<Rightarrow> nat \<Rightarrow> bool" where
  "consecutive c si ei \<longleftrightarrow> (\<forall>k. si \<le> k \<and> k \<le> ei \<longrightarrow>
     m_pCacheLookup c ! k = m_pCacheLookup c ! si + (k - si))"

lemma consecutive_from:
  assumes con: "consecutive c si ei" and m: "si \<le> m" "m < ei"
  shows "consecutive c (m + 1) ei"
  unfolding consecutive_def
proof (intro allI impI)
  fix k
  assume k: "m + 1 \<le> k \<and> k \<le> ei"
  have "m_pCacheLookup c ! k = m_pCacheLookup c ! si + (k - si)"
    "m_pCacheLookup c ! (m + 1) = m_pCacheLookup c ! si + (m + 1 - si)"
    using con [unfolded consecutive_def, THEN spec, of k] con [unfolded consecutive_def, THEN spec, of "m + 1"]
      k m by simp_all
  then show "m_pCacheLookup c ! k = m_pCacheLookup c ! (m + 1) + (k - (m + 1))"
    using k m by linarith
qed

text \<open>The state after the blocks from \<open>si\<close> to \<open>ei\<close> have been written and their bits cleared.\<close>

definition committed :: "ccache \<Rightarrow> ccache \<Rightarrow> nat \<Rightarrow> nat \<Rightarrow> bool" where
  "committed c c' si ei \<longleftrightarrow>
     same_static c c' \<and>
     (\<forall>t. dk_data c' t =
        (if m_pCacheLookup c ! si \<le> t \<and> t < m_pCacheLookup c ! si + (ei + 1 - si)
         then blk c (si + (t - m_pCacheLookup c ! si)) else dk_data c t)) \<and>
     (\<forall>i < length (m_pStatus c). IsDirty c' i \<longleftrightarrow> IsDirty c i \<and> \<not> (si \<le> i \<and> i \<le> ei)) \<and>
     m_dwDirtyCount c' = m_dwDirtyCount c - (ei + 1 - si) \<and>
     (m_hDirtySectorsEvent c' \<longleftrightarrow> m_hDirtySectorsEvent c \<and> m_dwDirtyCount c' \<noteq> 0)"

lemma commit_chunk:
  assumes env: "env_ok env" and ok: "pool_ok c" and b: "si \<le> ei" "ei < m_dwCacheSize c"
    and cnt: "ei + 1 - si \<le> m_dwDirtyCount c" "m_dwDirtyCount c < 2 ^ 32"
  shows "committed c (ClearDirtyStatus (snd (ReadWriteDisk_write env c (m_pCacheLookup c ! si) (ei - si + 1)
     (sg_bytes c (si div SectorsPerBuffer c) si (ei div SectorsPerBuffer c) ei))) si ei) si ei"
proof -
  let ?L = "m_pCacheLookup c ! si"
  let ?c1 = "snd (ReadWriteDisk_write env c ?L (ei - si + 1)
     (sg_bytes c (si div SectorsPerBuffer c) si (ei div SectorsPerBuffer c) ei))"
  have data: "dk_data ?c1 t = (if ?L \<le> t \<and> t < ?L + (ei + 1 - si)
         then blk c (si + (t - ?L)) else dk_data c t)" for t
  proof (cases "?L \<le> t \<and> t < ?L + (ei + 1 - si)")
    case True
    then have "t - ?L < ei + 1 - si" by linarith
    then have "slice (m_dwBlockSize c) (concat (map (blk c) [si..<ei + 1])) (t - ?L) = blk c (si + (t - ?L))"
      using length_blk [OF ok] b by (intro slice_concat) auto
    moreover have "?L + (ei - si + 1) = ?L + (ei + 1 - si)" using b by linarith
    moreover have "transferred env n t" for n t using env by (simp add: transferred_def env_ok_def)
    ultimately show ?thesis
      using True unfolding sg_bytes_blocks [OF ok b]
      by (simp only: write_data disk_write_def simp_thms if_True)
  next
    case False
    then show ?thesis using b by (auto simp: write_data disk_write_def)
  qed
  have static: "same_static c (ClearDirtyStatus ?c1 si ei)"
    by (rule same_static_trans [OF write_static(1) clear_static])
  have "IsDirty (ClearDirtyStatus ?c1 si ei) i \<longleftrightarrow> IsDirty c i \<and> \<not> (si \<le> i \<and> i \<le> ei)"
    if "i < length (m_pStatus c)" for i
    using that clear_dirty [of i ?c1 si ei] by (simp add: IsDirty_def)
  moreover have "sub32 (m_dwDirtyCount c) (ei - si + 1) = m_dwDirtyCount c - (ei + 1 - si)"
    using cnt b by (subst sub32_eq) auto
  ultimately show ?thesis
    using static data by (simp add: committed_def clear_event)
qed

lemma committed_trans:
  assumes 1: "committed c c1 si m" and 2: "committed c1 c2 (m + 1) ei" and le: "si \<le> m" "m < ei"
    and len: "ei < length (m_pStatus c)" and con: "consecutive c si ei"
  shows "committed c c2 si ei"
proof -
  have st: "same_static c c1" "same_static c1 c2" using 1 2 by (auto simp: committed_def)
  note eqs = same_static_eqs [OF st(1)]
  have L: "m_pCacheLookup c1 ! (m + 1) = m_pCacheLookup c ! si + (m + 1 - si)"
  proof -
    have "m_pCacheLookup c1 = m_pCacheLookup c" using st(1) by (simp add: same_static_def)
    moreover have "m_pCacheLookup c ! (m + 1) = m_pCacheLookup c ! si + (m + 1 - si)"
      using con le unfolding consecutive_def by (metis Suc_eq_plus1 Suc_leI le_SucI)
    ultimately show ?thesis by simp
  qed
  have "dk_data c2 t = (if m_pCacheLookup c ! si \<le> t \<and> t < m_pCacheLookup c ! si + (ei + 1 - si)
         then blk c (si + (t - m_pCacheLookup c ! si)) else dk_data c t)" for t
  proof (cases "m_pCacheLookup c ! si + (m + 1 - si) \<le> t \<and> t < m_pCacheLookup c ! si + (ei + 1 - si)")
    case True
    then have "dk_data c2 t = blk c1 (m + 1 + (t - m_pCacheLookup c1 ! (m + 1)))"
      using 2 le unfolding committed_def L by auto
    moreover have "m + 1 + (t - m_pCacheLookup c1 ! (m + 1)) = si + (t - m_pCacheLookup c ! si)"
      using True le unfolding L by linarith
    moreover have "m_pCacheLookup c ! si \<le> t" using True by linarith
    ultimately show ?thesis using True unfolding eqs(2) by (simp only: if_True simp_thms)
  next
    case False
    then have "dk_data c2 t = dk_data c1 t" using 2 le unfolding committed_def L by auto
    moreover have "dk_data c1 t = (if m_pCacheLookup c ! si \<le> t \<and> t < m_pCacheLookup c ! si + (m + 1 - si)
         then blk c (si + (t - m_pCacheLookup c ! si)) else dk_data c t)"
      using 1 by (simp only: committed_def)
    moreover have "(t < m_pCacheLookup c ! si + (m + 1 - si)) = (t < m_pCacheLookup c ! si + (ei + 1 - si))"
      using False le by linarith
    ultimately show ?thesis by (simp only:)
  qed
  moreover have "IsDirty c2 i \<longleftrightarrow> IsDirty c i \<and> \<not> (si \<le> i \<and> i \<le> ei)" if "i < length (m_pStatus c)" for i
  proof -
    have "IsDirty c1 i \<longleftrightarrow> IsDirty c i \<and> \<not> (si \<le> i \<and> i \<le> m)"
      using 1 that by (simp only: committed_def)
    moreover have "IsDirty c2 i \<longleftrightarrow> IsDirty c1 i \<and> \<not> (m + 1 \<le> i \<and> i \<le> ei)"
      using 2 that st(1) by (simp only: committed_def same_static_def)
    ultimately show ?thesis using le by auto
  qed
  moreover have cnt: "m_dwDirtyCount c2 = m_dwDirtyCount c - (ei + 1 - si)"
  proof -
    have "m_dwDirtyCount c1 = m_dwDirtyCount c - (m + 1 - si)"
      "m_dwDirtyCount c2 = m_dwDirtyCount c1 - (ei + 1 - (m + 1))"
      using 1 2 by (simp_all only: committed_def)
    then show ?thesis using le by linarith
  qed
  moreover have "m_hDirtySectorsEvent c2 \<longleftrightarrow> m_hDirtySectorsEvent c \<and> m_dwDirtyCount c2 \<noteq> 0"
  proof -
    have "m_dwDirtyCount c2 = m_dwDirtyCount c1 - (ei + 1 - (m + 1))"
      and "m_hDirtySectorsEvent c2 \<longleftrightarrow> m_hDirtySectorsEvent c1 \<and> m_dwDirtyCount c2 \<noteq> 0"
      and "m_hDirtySectorsEvent c1 \<longleftrightarrow> m_hDirtySectorsEvent c \<and> m_dwDirtyCount c1 \<noteq> 0"
      using 1 2 by (simp_all only: committed_def)
    then show ?thesis by auto
  qed
  ultimately show ?thesis
    using same_static_trans [OF st] unfolding committed_def by blast
qed

lemma chunk_bounds:
  fixes spb si ei te :: nat
  assumes spb: "0 < spb" and sb: "sb = si div spb" and eb: "eb = ei div spb"
    and te: "sb \<le> te" "te < eb" and tei: "tei = (te + 1) * spb - 1"
  shows "si \<le> tei" "tei < ei" "tei div spb = te" "(tei + 1) div spb = te + 1"
proof -
  have pos: "0 < (te + 1) * spb" using spb by simp
  have tei1: "tei + 1 = (te + 1) * spb" using pos unfolding tei by linarith
  have "si < (sb + 1) * spb" unfolding sb using spb by (metis add.commute dividend_less_div_times mult.commute mult_Suc plus_1_eq_Suc)
  also have "\<dots> \<le> (te + 1) * spb" using te by (intro mult_le_mono1) simp
  finally show "si \<le> tei" using tei1 by linarith
  have "(te + 1) * spb \<le> eb * spb" using te by (intro mult_le_mono1) simp
  also have "\<dots> \<le> ei" unfolding eb by (rule div_times_less_eq_dividend)
  finally show "tei < ei" using tei1 by linarith
  show "(tei + 1) div spb = te + 1" unfolding tei1 using spb by simp
  have "tei = te * spb + (spb - 1)" using tei1 spb by (simp add: algebra_simps)
  moreover have "(te * spb + (spb - 1)) div spb = te" 
    by (rule div_nat_eqI) (use spb in \<open>simp_all add: algebra_simps\<close>)
  ultimately show "tei div spb = te" by (simp only:)
qed

lemma commit_loop_spec:
  assumes "env_ok env" and "pool_ok c" and "si \<le> ei" "ei < m_dwCacheSize c"
    and "m_dwCacheSize c \<le> length (m_pStatus c)" and "consecutive c si ei"
    and "ei + 1 - si \<le> m_dwDirtyCount c" "m_dwDirtyCount c < 2 ^ 32"
    and "sb = si div SectorsPerBuffer c" "eb = ei div SectorsPerBuffer c"
  shows "\<exists>c'. commit_loop env c sb si eb ei = (ERROR_SUCCESS, c') \<and> committed c c' si ei"
  using assms
proof (induction "ei - si" arbitrary: c si sb rule: less_induct)
  case (less si c sb)
  note env = less(2) and ok = less(3) and b = less(4,5) and len = less(6) and con = less(7)
    and cnt = less(8,9) and sb = less(10) and eb = less(11)
  let ?spb = "SectorsPerBuffer c"
  have spb: "0 < ?spb" by (rule pool_okD(3) [OF ok])
  have le: "sb \<le> eb" unfolding sb eb using b(1) by (rule div_le_mono)
  have no: "\<not> env_no_memory env n" "env_fail env n = None" for n using env by (simp_all add: env_ok_def)
  show ?case
  proof (cases "sb + MAX_SG_BUF env \<le> eb")
    case False
    let ?c' = "ClearDirtyStatus (snd (ReadWriteDisk_write env c (m_pCacheLookup c ! si) (ei - si + 1)
       (sg_bytes c sb si eb ei))) si ei"
    have "commit_loop env c sb si eb ei = commit_loop env ?c' (eb + 1) (ei + 1) eb ei"
      using False le no by (subst commit_loop.simps) (simp add: Let_def)
    also have "\<dots> = (ERROR_SUCCESS, ?c')" by (subst commit_loop.simps) simp
    finally show ?thesis using commit_chunk [OF env ok b cnt] unfolding sb eb by blast
  next
    case True
    define te where "te = sb + MAX_SG_BUF env - 1"
    define tei where "tei = (te + 1) * ?spb - 1"
    let ?c1 = "ClearDirtyStatus (snd (ReadWriteDisk_write env c (m_pCacheLookup c ! si) (tei - si + 1)
       (sg_bytes c sb si te tei))) si tei"
    have te: "sb \<le> te" "te < eb" using True by (auto simp: te_def MAX_SG_BUF_def)
    note bounds = chunk_bounds [OF spb sb eb te tei_def]
    have run: "commit_loop env c sb si eb ei = commit_loop env ?c1 (te + 1) (tei + 1) eb ei"
      using True le no by (subst commit_loop.simps) (simp add: Let_def tei_def te_def)
    have 1: "committed c ?c1 si tei"
      using commit_chunk [OF env ok bounds(1), folded sb, unfolded bounds(3)] bounds(2) b cnt by simp
    have st: "same_static c ?c1" using 1 by (simp add: committed_def)
    note eqs = same_static_eqs [OF st]
    have c1: "m_dwCacheSize ?c1 = m_dwCacheSize c" "length (m_pStatus ?c1) = length (m_pStatus c)"
      "m_pCacheLookup ?c1 = m_pCacheLookup c" "m_dwDirtyCount ?c1 = m_dwDirtyCount c - (tei + 1 - si)"
      using st 1 by (auto simp: same_static_def committed_def)
    have con1: "consecutive ?c1 (tei + 1) ei"
      using consecutive_from [OF con bounds(1,2)] unfolding consecutive_def c1 .
    have "\<exists>c'. commit_loop env ?c1 (te + 1) (tei + 1) eb ei = (ERROR_SUCCESS, c') \<and>
        committed ?c1 c' (tei + 1) ei"
    proof (rule less(1) [OF _ env _ _ _ _ con1])
      show "ei - (tei + 1) < ei - si" "tei + 1 \<le> ei" "te + 1 = (tei + 1) div SectorsPerBuffer ?c1"
        "eb = ei div SectorsPerBuffer ?c1" "ei < m_dwCacheSize ?c1" "m_dwCacheSize ?c1 \<le> length (m_pStatus ?c1)"
        "ei + 1 - (tei + 1) \<le> m_dwDirtyCount ?c1" "m_dwDirtyCount ?c1 < 2 ^ 32" "pool_ok ?c1"
        using bounds ok b len cnt eb unfolding c1 eqs(1,6) by auto
    qed
    then obtain c' where c': "commit_loop env ?c1 (te + 1) (tei + 1) eb ei = (ERROR_SUCCESS, c')"
      "committed ?c1 c' (tei + 1) ei" by blast
    have "committed c c' si ei"
      by (rule committed_trans [OF 1 c'(2) bounds(1,2) _ con]) (use len b in simp)
    with run c'(1) show ?thesis by auto
  qed
qed

lemma CommitCacheSectors_spec:
  assumes "env_ok env" and "pool_ok c" and "si \<le> ei" "ei < m_dwCacheSize c"
    and "m_dwCacheSize c \<le> length (m_pStatus c)" and "consecutive c si ei"
    and "ei + 1 - si \<le> m_dwDirtyCount c" "m_dwDirtyCount c < 2 ^ 32"
  shows "committed c (snd (CommitCacheSectors env c si ei)) si ei"
    "fst (CommitCacheSectors env c si ei) = ERROR_SUCCESS"
  using commit_loop_spec [OF assms refl refl] by (auto simp: CommitCacheSectors_def)

end
