(* ===== verification/Disk_Cache_Commit.thy ===== *)
theory Disk_Cache_Commit
  imports Disk_Cache_Inv
begin

text \<open>
  Committing as seen by the operations: it keeps the invariant and the view, it changes
  nothing but the dirty status and the disk, it never makes a block dirty, and afterwards no
  index it visited holds a dirty block that the given option asks to commit.
\<close>

lemma cache_invD:
  assumes "cache_inv c"
  shows "pool_ok c" "tables_ok c" "dirty_ok c" "coherent c"
    "m_dwCacheSize c \<le> length (m_pCacheLookup c)" "m_dwCacheSize c \<le> length (m_pStatus c)"
    "m_dwDirtyCount c = card (dirty_set c)" "m_dwDirtyCount c < 2 ^ 32"
proof -
  show 1: "pool_ok c" "tables_ok c" "dirty_ok c" "coherent c" using assms by (auto simp: cache_inv_def)
  then show "m_dwCacheSize c \<le> length (m_pCacheLookup c)" "m_dwCacheSize c \<le> length (m_pStatus c)"
    and 2: "m_dwDirtyCount c = card (dirty_set c)"
    by (auto simp: tables_ok_def dirty_ok_def)
  show "m_dwDirtyCount c < 2 ^ 32"
    using dirty_card_bound [of c] pool_ok_size [OF 1(1)] by (simp add: 2)
qed

lemma lookup_valid:
  assumes "cache_inv c" and "i < m_dwCacheSize c" and "m_pCacheLookup c ! i \<noteq> INVALID_CACHE_ID"
  shows "m_pCacheLookup c ! i < INVALID_CACHE_ID" "m_pCacheLookup c ! i mod m_dwCacheSize c = i"
  using assms cache_invD(2) [OF assms(1)] unfolding tables_ok_def by blast+

lemma lookup_inj:
  assumes inv: "cache_inv c" and "i < m_dwCacheSize c" "j < m_dwCacheSize c"
    and "m_pCacheLookup c ! i = m_pCacheLookup c ! j" "m_pCacheLookup c ! i \<noteq> INVALID_CACHE_ID"
  shows "i = j"
  using lookup_valid(2) [OF inv] assms by metis

lemma dirty_setD: "i \<in> dirty_set c \<Longrightarrow> i < m_dwCacheSize c" "i \<in> dirty_set c \<Longrightarrow> IsDirty c i"
  by (simp_all add: dirty_set_def)

lemma dirty_lookup: "cache_inv c \<Longrightarrow> i \<in> dirty_set c \<Longrightarrow> m_pCacheLookup c ! i \<noteq> INVALID_CACHE_ID"
  using cache_invD(3) by (auto simp: dirty_ok_def)

section \<open>One committed range\<close>

lemma run_index:
  assumes con: "consecutive c si ei" and t: "m_pCacheLookup c ! si \<le> t"
    "t < m_pCacheLookup c ! si + (ei + 1 - si)" and le: "si \<le> ei"
  shows "si + (t - m_pCacheLookup c ! si) \<le> ei" "m_pCacheLookup c ! (si + (t - m_pCacheLookup c ! si)) = t"
proof -
  show le': "si + (t - m_pCacheLookup c ! si) \<le> ei" using t le by linarith
  show "m_pCacheLookup c ! (si + (t - m_pCacheLookup c ! si)) = t"
    using con [unfolded consecutive_def, THEN spec, of "si + (t - m_pCacheLookup c ! si)"] le' t by simp
qed

lemma committed_dirty_set:
  assumes com: "committed c c' si ei" and len: "m_dwCacheSize c \<le> length (m_pStatus c)"
  shows "dirty_set c' = dirty_set c - {si..ei}"
proof (rule set_eqI)
  fix i
  have sz: "m_dwCacheSize c' = m_dwCacheSize c" using com by (simp add: committed_def same_static_def)
  show "i \<in> dirty_set c' \<longleftrightarrow> i \<in> dirty_set c - {si..ei}"
  proof (cases "i < m_dwCacheSize c")
    case True
    then have "IsDirty c' i \<longleftrightarrow> IsDirty c i \<and> \<not> (si \<le> i \<and> i \<le> ei)"
      using com len by (simp add: committed_def)
    with True sz show ?thesis by (auto simp: dirty_set_def)
  next
    case False
    with sz show ?thesis by (simp add: dirty_set_def)
  qed
qed

lemma committed_inv:
  assumes inv: "cache_inv c" and b: "si \<le> ei" "ei < m_dwCacheSize c" and con: "consecutive c si ei"
    and dirty: "{si..ei} \<subseteq> dirty_set c" and com: "committed c c' si ei"
  shows "cache_inv c' \<and> cache_view c' = cache_view c \<and> dirty_set c' = dirty_set c - {si..ei}"
proof -
  note d = cache_invD [OF inv]
  have st: "same_static c c'" using com by (simp add: committed_def)
  note eqs = same_static_eqs [OF st]
  have st': "m_dwCacheSize c' = m_dwCacheSize c" "m_pCacheLookup c' = m_pCacheLookup c"
    "m_dwBlockSize c' = m_dwBlockSize c" "m_dwEnd c' = m_dwEnd c" "length (m_pStatus c') = length (m_pStatus c)"
    using st by (auto simp: same_static_def)
  let ?L = "m_pCacheLookup c ! si"
  have data: "dk_data c' t = (if ?L \<le> t \<and> t < ?L + (ei + 1 - si) then blk c (si + (t - ?L)) else dk_data c t)" for t
    using com by (simp only: committed_def)
  note D = committed_dirty_set [OF com d(6)]
  have cached: "IsCached c t" if "?L \<le> t" "t < ?L + (ei + 1 - si)" for t
  proof -
    let ?k = "si + (t - ?L)"
    note k = run_index [OF con that b(1)]
    have "?k \<in> dirty_set c" using dirty k(1) by auto
    then have "t mod m_dwCacheSize c = ?k"
      using lookup_valid(2) [OF inv, of ?k] dirty_lookup [OF inv, of ?k] k(2) dirty_setD(1) by auto
    then show ?thesis by (simp add: IsCached_def k(2))
  qed
  have view: "cache_view c' = cache_view c"
  proof
    fix t
    show "cache_view c' t = cache_view c t"
    proof (cases "?L \<le> t \<and> t < ?L + (ei + 1 - si)")
      case True
      then have "IsCached c t" using cached by blast
      with b show ?thesis by (simp add: cache_view_def eqs st')
    next
      case False
      then have "dk_data c' t = dk_data c t" by (simp only: data if_False)
      then show ?thesis by (simp add: cache_view_def eqs st')
    qed
  qed
  have "tables_ok c'"
  proof -
    have "length (dk_data c' t) = m_dwBlockSize c" for t
    proof (cases "?L \<le> t \<and> t < ?L + (ei + 1 - si)")
      case True
      then have "si + (t - ?L) < m_dwCacheSize c" using b by linarith
      with True show ?thesis using length_blk [OF d(1)] by (simp add: data)
    next
      case False
      with d(2) show ?thesis by (simp only: data if_False) (simp add: tables_ok_def)
    qed
    with d(2) st' show ?thesis by (simp add: tables_ok_def)
  qed
  moreover have "dirty_ok c'"
  proof -
    have "card (dirty_set c') = card (dirty_set c) - (ei + 1 - si)"
      unfolding D using dirty by (simp add: card_Diff_subset)
    then have cnt: "m_dwDirtyCount c' = card (dirty_set c')"
      using com d(7) by (simp add: committed_def)
    have "m_hDirtySectorsEvent c' \<longleftrightarrow> m_hDirtySectorsEvent c \<and> m_dwDirtyCount c' \<noteq> 0"
      using com by (simp only: committed_def)
    moreover have "m_hDirtySectorsEvent c \<longleftrightarrow> dirty_set c \<noteq> {}" using d(3) by (simp add: dirty_ok_def)
    ultimately have "m_hDirtySectorsEvent c' \<longleftrightarrow> dirty_set c' \<noteq> {}"
      unfolding cnt using D by auto
    with cnt d(3) D show ?thesis by (auto simp: dirty_ok_def st' eqs)
  qed
  moreover have "coherent c'"
    unfolding coherent_def st' eqs
  proof (intro allI impI)
    fix i
    assume i: "i < m_dwCacheSize c" and v: "m_pCacheLookup c ! i \<noteq> INVALID_CACHE_ID \<and> \<not> IsDirty c' i"
    show "blk c i = dk_data c' (m_pCacheLookup c ! i)"
    proof (cases "si \<le> i \<and> i \<le> ei")
      case True
      then have "m_pCacheLookup c ! i = ?L + (i - si)"
        using con [unfolded consecutive_def, THEN spec, of i] by blast
      moreover have "?L \<le> ?L + (i - si) \<and> ?L + (i - si) < ?L + (ei + 1 - si)" using True by linarith
      then have "dk_data c' (?L + (i - si)) = blk c (si + (?L + (i - si) - ?L))" by (simp only: data if_True simp_thms)
      ultimately show ?thesis using True by simp
    next
      case False
      have "i \<notin> dirty_set c'" using v by (simp add: dirty_set_def)
      with False D have "i \<notin> dirty_set c" by simp
      then have "blk c i = dk_data c (m_pCacheLookup c ! i)"
        using d(4) i v by (auto simp: coherent_def dirty_set_def)
      moreover have "\<not> (?L \<le> m_pCacheLookup c ! i \<and> m_pCacheLookup c ! i < ?L + (ei + 1 - si))"
      proof
        assume r: "?L \<le> m_pCacheLookup c ! i \<and> m_pCacheLookup c ! i < ?L + (ei + 1 - si)"
        note k = run_index [OF con conjunct1 [OF r] conjunct2 [OF r] b(1)]
        have "si + (m_pCacheLookup c ! i - ?L) = i"
          by (rule lookup_inj [OF inv]) (use k b i v in auto)
        with k(1) False show False by linarith
      qed
      ultimately show ?thesis by (simp only: data if_False)
    qed
  qed
  moreover have "pool_ok c'" using d(1) eqs(6) by simp
  ultimately show ?thesis using view D by (simp add: cache_inv_def)
qed

text \<open>What every committing operation does.\<close>

definition commits :: "ccache \<Rightarrow> ccache \<Rightarrow> bool" where
  "commits c c' \<longleftrightarrow> cache_inv c' \<and> cache_view c' = cache_view c \<and> same_static c c' \<and>
     dirty_set c' \<subseteq> dirty_set c"

lemma commits_refl: "cache_inv c \<Longrightarrow> commits c c"
  by (simp add: commits_def)

lemma commits_trans: "commits a b \<Longrightarrow> commits b c \<Longrightarrow> commits a c"
  unfolding commits_def by (auto intro: same_static_trans)

lemma CommitCacheSectors_commits:
  assumes env: "env_ok env" and inv: "cache_inv c" and b: "si \<le> ei" "ei < m_dwCacheSize c"
    and con: "consecutive c si ei" and dirty: "{si..ei} \<subseteq> dirty_set c"
  shows "commits c (snd (CommitCacheSectors env c si ei))"
    "dirty_set (snd (CommitCacheSectors env c si ei)) = dirty_set c - {si..ei}"
proof -
  note d = cache_invD [OF inv]
  have "card {si..ei} \<le> card (dirty_set c)" by (rule card_mono [OF dirty_set_finite dirty])
  then have "ei + 1 - si \<le> m_dwDirtyCount c" by (simp add: d(7))
  then have com: "committed c (snd (CommitCacheSectors env c si ei)) si ei"
    using CommitCacheSectors_spec(1) [OF env d(1) b d(6) con _ d(8)] by simp
  show "commits c (snd (CommitCacheSectors env c si ei))"
    "dirty_set (snd (CommitCacheSectors env c si ei)) = dirty_set c - {si..ei}"
    using committed_inv [OF inv b con dirty com] com by (auto simp: commits_def committed_def)
qed

section \<open>Runs of dirty sectors\<close>

lemma dirty_next:
  assumes inv: "cache_inv c" and "cur \<in> dirty_set c"
  shows "add32 (m_pCacheLookup c ! cur) 1 = m_pCacheLookup c ! cur + 1"
  using lookup_valid(1) [OF inv dirty_setD(1) [OF assms(2)] dirty_lookup [OF inv assms(2)]]
  by (simp add: add32_def INVALID_CACHE_ID_def)

lemma dirty_run_spec:
  assumes inv: "cache_inv c"
  shows "cur \<in> dirty_set c \<Longrightarrow> n \<noteq> 0 \<Longrightarrow>
    {cur..cur + dirty_run c cur n - 1} \<subseteq> dirty_set c \<and> consecutive c cur (cur + dirty_run c cur n - 1)"
proof (induction n arbitrary: cur)
  case 0
  then show ?case by simp
next
  case (Suc n)
  note cur = Suc.prems(1)
  show ?case
  proof (cases "n \<noteq> 0 \<and> cur + 1 < m_dwCacheSize c \<and> IsDirty c (cur + 1) \<and>
      m_pCacheLookup c ! (cur + 1) = add32 (m_pCacheLookup c ! cur) 1")
    case False
    then have "dirty_run c cur (Suc n) = 1" by (auto simp: Let_def)
    then have eq: "cur + dirty_run c cur (Suc n) - 1 = cur" by (simp only: add_diff_cancel_right')
    have "consecutive c cur cur" by (auto simp: consecutive_def dest: le_antisym)
    with cur show ?thesis unfolding eq by simp
  next
    case True
    then have nxt: "cur + 1 \<in> dirty_set c" by (simp add: dirty_set_def)
    let ?k = "dirty_run c (cur + 1) n"
    have k: "dirty_run c cur (Suc n) = Suc ?k" using True by (simp add: Let_def)
    have pos: "0 < ?k" using True by (simp add: dirty_run_pos)
    have IH: "{cur + 1..cur + 1 + ?k - 1} \<subseteq> dirty_set c" "consecutive c (cur + 1) (cur + 1 + ?k - 1)"
      using Suc.IH [OF nxt] True by auto
    have L: "m_pCacheLookup c ! (cur + 1) = m_pCacheLookup c ! cur + 1"
      using True dirty_next [OF inv cur] by simp
    have "{cur..cur + Suc ?k - 1} \<subseteq> dirty_set c"
    proof
      fix j
      assume "j \<in> {cur..cur + Suc ?k - 1}"
      then have "j = cur \<or> j \<in> {cur + 1..cur + 1 + ?k - 1}" by auto
      with IH(1) cur show "j \<in> dirty_set c" by blast
    qed
    moreover have "consecutive c cur (cur + Suc ?k - 1)"
      unfolding consecutive_def
    proof (intro allI impI)
      fix j
      assume j: "cur \<le> j \<and> j \<le> cur + Suc ?k - 1"
      show "m_pCacheLookup c ! j = m_pCacheLookup c ! cur + (j - cur)"
      proof (cases "j = cur")
        case False
        then have "m_pCacheLookup c ! j = m_pCacheLookup c ! (cur + 1) + (j - (cur + 1))"
          using IH(2) [unfolded consecutive_def, THEN spec, of j] j by simp
        with L False j show ?thesis by linarith
      qed simp
    qed
    ultimately show ?thesis unfolding k by blast
  qed
qed

section \<open>The loop over a range of sectors\<close>

lemma wants_commit_mono:
  assumes "commits c c'" and "i < m_dwCacheSize c" and "wants_commit c' opt i t"
  shows "wants_commit c opt i t"
proof -
  have "IsDirty c' i \<Longrightarrow> IsDirty c i"
    using assms by (auto simp: commits_def dirty_set_def same_static_def)
  with assms show ?thesis by (auto simp: wants_commit_def commits_def same_static_def)
qed

lemma commit_dirty_loop_spec:
  assumes env: "env_ok env"
  shows "cache_inv c \<Longrightarrow> cur \<le> m_dwCacheSize c \<Longrightarrow> m_dwCacheSize c \<noteq> 0 \<Longrightarrow>
    commits c (commit_dirty_loop env opt c cur sector n) \<and>
    (\<forall>j < n. sector + j < 2 ^ 32 \<longrightarrow>
       \<not> wants_commit (commit_dirty_loop env opt c cur sector n) opt ((cur + j) mod m_dwCacheSize c) (sector + j))"
proof (induction n arbitrary: c cur sector rule: less_induct)
  case (less n)
  note inv = less.prems(1) and cur_le = less.prems(2) and size = less.prems(3)
  show ?case
  proof (cases "n = 0")
    case True
    then show ?thesis using commits_refl [OF inv] by (simp add: commit_dirty_loop.simps)
  next
    case False
    define cur' where "cur' = (if cur = m_dwCacheSize c then 0 else cur)"
    have cur': "cur' < m_dwCacheSize c" using cur_le size by (auto simp: cur'_def)
    have mod_cur: "(cur + j) mod m_dwCacheSize c = (cur' + j) mod m_dwCacheSize c" for j
      by (simp add: cur'_def)
    show ?thesis
    proof (cases "wants_commit c opt cur' sector")
      case wants: True
      define k where "k = dirty_run c cur' n"
      have k: "0 < k" "k \<le> n" using False by (simp_all add: k_def dirty_run_pos)
      have dirty: "cur' \<in> dirty_set c" using wants cur' by (simp add: wants_commit_def dirty_set_def)
      have run: "{cur'..cur' + k - 1} \<subseteq> dirty_set c" "consecutive c cur' (cur' + k - 1)"
        using dirty_run_spec [OF inv dirty False] by (simp_all add: k_def)
      have last: "cur' + k - 1 < m_dwCacheSize c" "cur' \<le> cur' + k - 1"
      proof -
        show le: "cur' \<le> cur' + k - 1" using k(1) by linarith
        then have "cur' + k - 1 \<in> dirty_set c" using run(1) by auto
        then show "cur' + k - 1 < m_dwCacheSize c" by (rule dirty_setD(1))
      qed
      define c1 where "c1 = snd (CommitCacheSectors env c cur' (cur' + k - 1))"
      have c1: "commits c c1" "dirty_set c1 = dirty_set c - {cur'..cur' + k - 1}"
        using CommitCacheSectors_commits [OF env inv last(2,1) run(2,1)] by (simp_all add: c1_def)
      have sz: "m_dwCacheSize c1 = m_dwCacheSize c" and inv1: "cache_inv c1"
        using c1(1) by (auto simp: commits_def same_static_def)
      let ?r = "commit_dirty_loop env opt c1 (cur' + k) (add32 sector k) (n - k)"
      have eq: "commit_dirty_loop env opt c cur sector n = ?r"
        using False wants by (subst commit_dirty_loop.simps) (simp add: Let_def cur'_def k_def c1_def)
      have IH: "commits c1 ?r"
        "\<And>j. j < n - k \<Longrightarrow> add32 sector k + j < 2 ^ 32 \<Longrightarrow>
           \<not> wants_commit ?r opt ((cur' + k + j) mod m_dwCacheSize c) (add32 sector k + j)"
        using less.IH [of "n - k" c1 "cur' + k" "add32 sector k"] k last inv1 size unfolding sz by auto
      have "\<not> wants_commit ?r opt ((cur' + j) mod m_dwCacheSize c) (sector + j)"
        if j: "j < n" "sector + j < 2 ^ 32" for j
      proof (cases "j < k")
        case True
        then have i: "(cur' + j) mod m_dwCacheSize c = cur' + j" "cur' + j < m_dwCacheSize c"
          using last by auto
        have "cur' + j \<notin> dirty_set c1" using True unfolding c1(2) by auto
        then have "\<not> wants_commit c1 opt (cur' + j) (sector + j)"
          using i sz by (simp add: wants_commit_def dirty_set_def)
        then show ?thesis using wants_commit_mono [OF IH(1)] i sz by auto
      next
        case ge: False
        then have "add32 sector k = sector + k" using j by (simp add: add32_def)
        then show ?thesis using IH(2) [of "j - k"] ge j by simp
      qed
      then show ?thesis unfolding eq mod_cur using commits_trans [OF c1(1) IH(1)] by blast
    next
      case wants: False
      let ?r = "commit_dirty_loop env opt c (cur' + 1) (add32 sector 1) (n - 1)"
      have eq: "commit_dirty_loop env opt c cur sector n = ?r"
        using False wants by (subst commit_dirty_loop.simps) (simp add: Let_def cur'_def)
      have IH: "commits c ?r"
        "\<And>j. j < n - 1 \<Longrightarrow> add32 sector 1 + j < 2 ^ 32 \<Longrightarrow>
           \<not> wants_commit ?r opt ((cur' + 1 + j) mod m_dwCacheSize c) (add32 sector 1 + j)"
        using less.IH [of "n - 1" c "cur' + 1" "add32 sector 1"] False cur' inv size by auto
      have "\<not> wants_commit ?r opt ((cur' + j) mod m_dwCacheSize c) (sector + j)"
        if j: "j < n" "sector + j < 2 ^ 32" for j
      proof (cases "j = 0")
        case True
        then show ?thesis using wants_commit_mono [OF IH(1) cur'] wants cur' by auto
      next
        case ge: False
        then have "add32 sector 1 = sector + 1" using j by (simp add: add32_def)
        then show ?thesis using IH(2) [of "j - 1"] ge j by simp
      qed
      then show ?thesis unfolding eq mod_cur using IH(1) by blast
    qed
  qed
qed

lemma mod_shift: "(s mod m + j) mod m = (s + j) mod (m :: nat)"
  by (simp add: mod_add_left_eq)

lemma CommitDirtySectors_commits:
  assumes env: "env_ok env" and inv: "cache_inv c" and size: "m_dwCacheSize c \<noteq> 0"
  shows "commits c (CommitDirtySectors env c s n opt)"
proof -
  have "s mod m_dwCacheSize c \<le> m_dwCacheSize c"
    using size by (simp add: less_imp_le)
  then show ?thesis
    using commit_dirty_loop_spec [OF env inv _ size] by (simp add: CommitDirtySectors_def GetIndex_def)
qed

lemma CommitDirtySectors_clean:
  assumes env: "env_ok env" and inv: "cache_inv c" and size: "m_dwCacheSize c \<noteq> 0"
    and t: "s \<le> t" "t < s + n" "s + n \<le> 2 ^ 32" and dirty: "t mod m_dwCacheSize c \<in> dirty_set (CommitDirtySectors env c s n opt)"
  shows "opt = COMMIT_DIFF_SECTORS \<and> n \<le> m_dwCacheSize c \<and> m_pCacheLookup c ! (t mod m_dwCacheSize c) = t \<or>
    opt = COMMIT_SPECIFIED_SECTORS \<and> m_pCacheLookup c ! (t mod m_dwCacheSize c) \<noteq> t"
proof -
  let ?c' = "CommitDirtySectors env c s n opt"
  have com: "commits c ?c'" by (rule CommitDirtySectors_commits [OF env inv size])
  then have lk: "m_pCacheLookup ?c' = m_pCacheLookup c" by (simp add: commits_def same_static_def)
  have s_le: "s mod m_dwCacheSize c \<le> m_dwCacheSize c" using size by (simp add: less_imp_le)
  have D: "IsDirty ?c' (t mod m_dwCacheSize c)" using dirty by (simp add: dirty_set_def)
  show ?thesis
  proof (cases "opt = COMMIT_DIFF_SECTORS \<and> n > m_dwCacheSize c")
    case True
    let ?i = "t mod m_dwCacheSize c"
    have c': "?c' = commit_dirty_loop env COMMIT_ALL_SECTORS c 0 s (m_dwCacheSize c)"
      using True by (simp add: CommitDirtySectors_def)
    have i: "?i < m_dwCacheSize c" using size by simp
    then have "s + ?i < 2 ^ 32" using t(3) True by linarith
    with i have "\<not> wants_commit ?c' COMMIT_ALL_SECTORS (?i mod m_dwCacheSize c) (s + ?i)"
      using commit_dirty_loop_spec [OF env inv _ size, of 0 COMMIT_ALL_SECTORS s "m_dwCacheSize c"]
      unfolding c' by simp
    then have "\<not> IsDirty ?c' ?i" by (simp add: wants_commit_def)
    with D show ?thesis by simp
  next
    case False
    have c': "?c' = commit_dirty_loop env opt c (s mod m_dwCacheSize c) s n"
      using False by (auto simp: CommitDirtySectors_def GetIndex_def)
    have "t - s < n" "s + (t - s) < 2 ^ 32" using t by auto
    then have "\<not> wants_commit ?c' opt ((s mod m_dwCacheSize c + (t - s)) mod m_dwCacheSize c) (s + (t - s))"
      using commit_dirty_loop_spec [OF env inv s_le size, of opt s n] unfolding c' by blast
    then have "\<not> wants_commit ?c' opt (t mod m_dwCacheSize c) t"
      by (simp only: mod_shift le_add_diff_inverse [OF t(1)] not_False_eq_True)
    with D False lk show ?thesis by (cases opt) (auto simp: wants_commit_def)
  qed
qed

end
