(* ===== verification/Disk_Cache_Repr.thy ===== *)
theory Disk_Cache_Repr
  imports Disk_Cache_Commit
begin

text \<open>
  A cache represents given disk contents, up to a set of pending sectors: outside that set,
  every cached block holds the contents and every sector without a dirty block has them on
  the disk.  With nothing pending this is the invariant.  The loops of \<open>ReadCache\<close> and
  \<open>WriteCache\<close> are steps that take one sector out of the pending set.
\<close>

section \<open>Representing contents\<close>

definition dirty_sectors :: "ccache \<Rightarrow> nat set" where
  "dirty_sectors c = (\<lambda>i. m_pCacheLookup c ! i) ` dirty_set c"

definition represents :: "ccache \<Rightarrow> (nat \<Rightarrow> BYTE list) \<Rightarrow> nat set \<Rightarrow> bool" where
  "represents c W R \<longleftrightarrow> pool_ok c \<and> tables_ok c \<and> dirty_ok c \<and>
     (\<forall>i < m_dwCacheSize c. m_pCacheLookup c ! i \<noteq> INVALID_CACHE_ID \<and> m_pCacheLookup c ! i \<notin> R \<longrightarrow>
        blk c i = W (m_pCacheLookup c ! i)) \<and>
     (\<forall>u < INVALID_CACHE_ID. u \<notin> R \<and> u \<notin> dirty_sectors c \<longrightarrow> dk_data c u = W u)"

lemma representsD:
  assumes "represents c W R"
  shows "pool_ok c" "tables_ok c" "dirty_ok c"
    "\<And>i. i < m_dwCacheSize c \<Longrightarrow> m_pCacheLookup c ! i \<noteq> INVALID_CACHE_ID \<Longrightarrow> m_pCacheLookup c ! i \<notin> R \<Longrightarrow>
       blk c i = W (m_pCacheLookup c ! i)"
    "\<And>u. u < INVALID_CACHE_ID \<Longrightarrow> u \<notin> R \<Longrightarrow> u \<notin> dirty_sectors c \<Longrightarrow> dk_data c u = W u"
  using assms by (auto simp: represents_def)

lemma tables_okD:
  assumes "tables_ok c"
  shows "m_dwCacheSize c \<le> length (m_pCacheLookup c)" "m_dwCacheSize c \<le> length (m_pStatus c)"
    "\<And>t. length (dk_data c t) = m_dwBlockSize c" "m_dwEnd c < INVALID_CACHE_ID"
    "\<And>i. i < m_dwCacheSize c \<Longrightarrow> m_pCacheLookup c ! i \<noteq> INVALID_CACHE_ID \<Longrightarrow>
       m_pCacheLookup c ! i < INVALID_CACHE_ID \<and> m_pCacheLookup c ! i mod m_dwCacheSize c = i"
  using assms by (auto simp: tables_ok_def)

lemma in_dirty_sectors:
  assumes "tables_ok c" "dirty_ok c" and "u \<noteq> INVALID_CACHE_ID" and "m_dwCacheSize c \<noteq> 0"
  shows "u \<in> dirty_sectors c \<longleftrightarrow> u mod m_dwCacheSize c \<in> dirty_set c \<and> m_pCacheLookup c ! (u mod m_dwCacheSize c) = u"
proof
  assume "u \<in> dirty_sectors c"
  then obtain i where i: "i \<in> dirty_set c" "u = m_pCacheLookup c ! i" by (auto simp: dirty_sectors_def)
  then have "u mod m_dwCacheSize c = i"
    using tables_okD(5) [OF assms(1) dirty_setD(1) [OF i(1)]] assms(3) by simp
  with i show "u mod m_dwCacheSize c \<in> dirty_set c \<and> m_pCacheLookup c ! (u mod m_dwCacheSize c) = u" by simp
next
  assume "u mod m_dwCacheSize c \<in> dirty_set c \<and> m_pCacheLookup c ! (u mod m_dwCacheSize c) = u"
  then show "u \<in> dirty_sectors c" unfolding dirty_sectors_def by (metis imageI)
qed

lemma represents_view:
  assumes rep: "represents c W {}" and u: "u < INVALID_CACHE_ID"
  shows "cache_view c u = W u"
proof (cases "m_dwCacheSize c \<noteq> 0 \<and> IsCached c u")
  case True
  then have "u mod m_dwCacheSize c < m_dwCacheSize c" "m_pCacheLookup c ! (u mod m_dwCacheSize c) = u"
    by (auto simp: IsCached_def)
  with True representsD(4) [OF rep] u show ?thesis by (auto simp: cache_view_def GetIndex_def)
next
  case False
  have "u \<notin> dirty_sectors c"
  proof (cases "m_dwCacheSize c = 0")
    case True
    then show ?thesis by (simp add: dirty_sectors_def dirty_set_def)
  next
    case nz: False
    with False u show ?thesis
      using in_dirty_sectors [OF representsD(2,3) [OF rep], of u] by (auto simp: IsCached_def)
  qed
  then show ?thesis using False representsD(5) [OF rep u] by (auto simp: cache_view_def)
qed

lemma inv_represents: "cache_inv c \<longleftrightarrow> represents c (cache_view c) {}"
proof
  assume inv: "cache_inv c"
  note d = cache_invD [OF inv]
  have "blk c i = cache_view c (m_pCacheLookup c ! i)"
    if "i < m_dwCacheSize c" "m_pCacheLookup c ! i \<noteq> INVALID_CACHE_ID" for i
    using that lookup_valid [OF inv that] by (auto simp: cache_view_def IsCached_def GetIndex_def)
  moreover have "dk_data c u = cache_view c u" if u: "u < INVALID_CACHE_ID" "u \<notin> dirty_sectors c" for u
  proof (cases "m_dwCacheSize c \<noteq> 0 \<and> IsCached c u")
    case True
    then have i: "u mod m_dwCacheSize c < m_dwCacheSize c" "m_pCacheLookup c ! (u mod m_dwCacheSize c) = u"
      by (auto simp: IsCached_def)
    have "u mod m_dwCacheSize c \<notin> dirty_set c"
      using u in_dirty_sectors [OF d(2,3), of u] True i by auto
    then have "\<not> IsDirty c (u mod m_dwCacheSize c)" using i by (simp add: dirty_set_def)
    then have "blk c (u mod m_dwCacheSize c) = dk_data c u"
      using d(4) i u by (auto simp: coherent_def)
    with True show ?thesis by (simp add: cache_view_def GetIndex_def)
  qed (auto simp: cache_view_def)
  ultimately show "represents c (cache_view c) {}" using d by (simp add: represents_def)
next
  assume rep: "represents c (cache_view c) {}"
  note r = representsD [OF rep]
  have "blk c i = dk_data c (m_pCacheLookup c ! i)"
    if i: "i < m_dwCacheSize c" "m_pCacheLookup c ! i \<noteq> INVALID_CACHE_ID" "\<not> IsDirty c i" for i
  proof -
    note v = tables_okD(5) [OF r(2) i(1,2)]
    have "m_pCacheLookup c ! i \<notin> dirty_sectors c"
      using in_dirty_sectors [OF r(2,3) i(2)] i v by (auto simp: dirty_set_def)
    with r(4) [OF i(1,2)] r(5) v show ?thesis by simp
  qed
  with r show "cache_inv c" by (simp add: cache_inv_def coherent_def)
qed

lemma represents_inv:
  assumes "represents c W {}"
  shows "cache_inv c"
proof -
  have "represents c (cache_view c) {}"
    unfolding represents_def
    using representsD [OF assms] represents_view [OF assms] tables_okD(5) [OF representsD(2) [OF assms]]
    by auto
  then show ?thesis by (simp add: inv_represents)
qed

lemma represents_pending:
  assumes rep: "represents c V {}" and same: "\<And>u. u \<notin> R \<Longrightarrow> W u = V u"
  shows "represents c W R"
  using representsD [OF rep] same by (auto simp: represents_def)

lemma represents_close:
  assumes rep: "represents c W R" and disk: "\<And>u. u \<in> R \<Longrightarrow> dk_data c u = W u"
    and uncached: "\<And>i. i < m_dwCacheSize c \<Longrightarrow> m_pCacheLookup c ! i \<notin> R"
  shows "represents c W {}"
  using representsD [OF rep] disk uncached unfolding represents_def by (metis empty_iff)

lemma mod_below: "0 < m \<Longrightarrow> m \<le> l \<Longrightarrow> t mod m < (l :: nat)"
  by (meson less_le_trans mod_less_divisor)

section \<open>Putting one sector into the cache\<close>

definition put_sector :: "nat \<Rightarrow> BYTE list \<Rightarrow> bool \<Rightarrow> ccache \<Rightarrow> ccache" where
  "put_sector t d f c =
     (let i = t mod m_dwCacheSize c; c = WriteToCacheBuffer c i d f
      in c\<lparr>m_pCacheLookup := (m_pCacheLookup c)[i := t]\<rparr>)"

lemma put_sector_fields:
  "m_dwCacheSize (put_sector t d f c) = m_dwCacheSize c" "m_dwBlockSize (put_sector t d f c) = m_dwBlockSize c"
  "dk_data (put_sector t d f c) = dk_data c" "IsWriteBack (put_sector t d f c) = IsWriteBack c"
  "m_dwEnd (put_sector t d f c) = m_dwEnd c" "m_dwStart (put_sector t d f c) = m_dwStart c"
  "m_pCacheLookup (put_sector t d f c) = (m_pCacheLookup c)[t mod m_dwCacheSize c := t]"
  "length (m_pStatus (put_sector t d f c)) = length (m_pStatus c)"
  by (simp_all add: put_sector_def WriteToCacheBuffer_put SetDirtyStatus_def Let_def IsWriteBack_def)

lemma put_sector_pool:
  "m_apBufferPool (put_sector t d f c) = m_apBufferPool (put_blk c (t mod m_dwCacheSize c) d)"
  by (simp add: put_sector_def WriteToCacheBuffer_put SetDirtyStatus_def Let_def)

lemma put_sector_blk:
  assumes ok: "pool_ok c" and size: "m_dwCacheSize c \<noteq> 0" and d: "length d = m_dwBlockSize c"
  shows "pool_ok (put_sector t d f c)"
    and "j < m_dwCacheSize c \<Longrightarrow> blk (put_sector t d f c) j = (if j = t mod m_dwCacheSize c then d else blk c j)"
proof -
  have i: "t mod m_dwCacheSize c < m_dwCacheSize c" using size by simp
  note put = put_blk_spec [OF ok i d]
  show "pool_ok (put_sector t d f c)"
    using put(1) by (simp add: pool_ok_def put_sector_fields put_sector_pool SectorsPerBuffer_def)
  have "blk (put_sector t d f c) j = blk (put_blk c (t mod m_dwCacheSize c) d) j"
    by (simp add: ReadFromCacheBuffer_def put_sector_fields put_sector_pool)
  then show "j < m_dwCacheSize c \<Longrightarrow> blk (put_sector t d f c) j = (if j = t mod m_dwCacheSize c then d else blk c j)"
    using put(2) by simp
qed

lemma put_sector_dirty:
  assumes tab: "tables_ok c" and size: "m_dwCacheSize c \<noteq> 0"
  shows "dirty_set (put_sector t d f c) =
    (if f \<and> IsWriteBack c then insert (t mod m_dwCacheSize c) (dirty_set c) else dirty_set c)"
proof -
  let ?i = "t mod m_dwCacheSize c"
  have i: "?i < m_dwCacheSize c" "?i < length (m_pStatus c)" using size tables_okD(2) [OF tab] by (auto intro: mod_below)
  have "m_pStatus (put_sector t d f c) =
      (if IsWriteBack c \<and> \<not> IsDirty c ?i \<and> f then (m_pStatus c)[?i := m_pStatus c ! ?i OR STATUS_DIRTY] else m_pStatus c)"
    by (simp add: put_sector_def WriteToCacheBuffer_put SetDirtyStatus_def Let_def)
  then have "IsDirty (put_sector t d f c) j \<longleftrightarrow> IsDirty c j \<or> (f \<and> IsWriteBack c \<and> j = ?i)" for j
    using i dirty_bits(1) by (auto simp: IsDirty_def nth_list_update)
  then show ?thesis using i by (auto simp: dirty_set_def put_sector_fields)
qed

lemma put_sector_dirty_ok:
  assumes ok: "pool_ok c" "tables_ok c" "dirty_ok c" and size: "m_dwCacheSize c \<noteq> 0" and t: "t < INVALID_CACHE_ID"
  shows "dirty_ok (put_sector t d f c)"
proof -
  let ?i = "t mod m_dwCacheSize c" and ?c = "put_sector t d f c"
  have i: "?i < m_dwCacheSize c" "?i < length (m_pCacheLookup c)"
    using size tables_okD(1) [OF ok(2)] by (auto intro: mod_below)
  note D = put_sector_dirty [OF ok(2) size, of t d f]
  let ?new = "IsWriteBack c \<and> \<not> IsDirty c ?i \<and> f"
  have cnt: "m_dwDirtyCount ?c = (if ?new then add32 (m_dwDirtyCount c) 1 else m_dwDirtyCount c)"
    "m_hDirtySectorsEvent ?c = (if ?new \<and> m_dwDirtyCount c = 0 then True else m_hDirtySectorsEvent c)"
    by (simp_all add: put_sector_def WriteToCacheBuffer_put SetDirtyStatus_def Let_def)
  have old: "m_dwDirtyCount c = card (dirty_set c)" "m_hDirtySectorsEvent c \<longleftrightarrow> dirty_set c \<noteq> {}"
    using ok(3) by (auto simp: dirty_ok_def)
  have "add32 (m_dwDirtyCount c) 1 = card (dirty_set c) + 1"
    using dirty_card_bound [of c] pool_ok_size [OF ok(1)] by (simp add: add32_def old(1))
  moreover have "dirty_set ?c = (if ?new then insert ?i (dirty_set c) else dirty_set c)"
    using D i by (auto simp: dirty_set_def)
  moreover have "?new \<Longrightarrow> ?i \<notin> dirty_set c" by (simp add: dirty_set_def)
  ultimately have "m_dwDirtyCount ?c = card (dirty_set ?c)" "m_hDirtySectorsEvent ?c \<longleftrightarrow> dirty_set ?c \<noteq> {}"
    using cnt old by auto
  moreover have "\<forall>j \<in> dirty_set ?c. m_pCacheLookup ?c ! j \<noteq> INVALID_CACHE_ID"
    using ok(3) t i D by (auto simp: dirty_ok_def put_sector_fields nth_list_update split: if_splits)
  ultimately show ?thesis
    using ok(3) D by (auto simp: dirty_ok_def put_sector_fields)
qed

lemma put_sector_represents:
  assumes rep: "represents c W R" and size: "m_dwCacheSize c \<noteq> 0" and t: "t < INVALID_CACHE_ID"
    and d: "length (W t) = m_dwBlockSize c"
    and dirty: "t mod m_dwCacheSize c \<in> dirty_set c \<Longrightarrow> m_pCacheLookup c ! (t mod m_dwCacheSize c) = t"
    and disk: "\<not> (f \<and> IsWriteBack c) \<Longrightarrow> t mod m_dwCacheSize c \<notin> dirty_set c \<Longrightarrow> dk_data c t = W t"
  shows "represents (put_sector t (W t) f c) W (R - {t})"
proof -
  let ?i = "t mod m_dwCacheSize c" and ?c = "put_sector t (W t) f c"
  note r = representsD [OF rep]
  have i: "?i < m_dwCacheSize c" "?i < length (m_pCacheLookup c)"
    using size tables_okD(1) [OF r(2)] by (auto intro: mod_below)
  have lk: "m_pCacheLookup ?c ! j = (if j = ?i then t else m_pCacheLookup c ! j)" for j
    using i by (simp add: put_sector_fields nth_list_update)
  have tab: "tables_ok ?c"
    using r(2) t i by (auto simp: tables_ok_def lk put_sector_fields(1-3,5,8)) (simp_all add: put_sector_fields)
  have dok: "dirty_ok ?c" by (rule put_sector_dirty_ok [OF r(1-3) size t])
  have blocks: "blk ?c j = W (m_pCacheLookup ?c ! j)"
    if j: "j < m_dwCacheSize c" "m_pCacheLookup ?c ! j \<noteq> INVALID_CACHE_ID" "m_pCacheLookup ?c ! j \<notin> R - {t}" for j
  proof (cases "j = ?i")
    case True
    with j(1) show ?thesis by (simp add: put_sector_blk(2) [OF r(1) size d] lk)
  next
    case False
    then have "m_pCacheLookup c ! j \<noteq> t"
      using tables_okD(5) [OF r(2) j(1)] j(2) by (auto simp: lk)
    with False j r(4) [OF j(1)] show ?thesis by (auto simp: put_sector_blk(2) [OF r(1) size d] lk)
  qed
  have disks: "dk_data ?c u = W u"
    if u: "u < INVALID_CACHE_ID" "u \<notin> R - {t}" "u \<notin> dirty_sectors ?c" for u
  proof (cases "u = t")
    case True
    have "?i \<notin> dirty_set ?c"
      using u(3) in_dirty_sectors [OF tab dok, of t] True t size lk by (auto simp: put_sector_fields(1))
    then have "\<not> (f \<and> IsWriteBack c)" "?i \<notin> dirty_set c"
      using put_sector_dirty [OF r(2) size, of t "W t" f] by (auto split: if_splits)
    with disk True show ?thesis by (simp add: put_sector_fields)
  next
    case False
    have "u \<notin> dirty_sectors c"
    proof
      assume "u \<in> dirty_sectors c"
      then have a: "u mod m_dwCacheSize c \<in> dirty_set c" "m_pCacheLookup c ! (u mod m_dwCacheSize c) = u"
        using in_dirty_sectors [OF r(2,3)] u(1) size by auto
      then have "u mod m_dwCacheSize c \<noteq> ?i" using dirty False by auto
      then have "u \<in> dirty_sectors ?c"
        using a in_dirty_sectors [OF tab dok, of u] u(1) size lk put_sector_dirty [OF r(2) size, of t "W t" f]
        by (auto simp: put_sector_fields(1))
      with u(3) show False by simp
    qed
    with r(5) [OF u(1)] u(2) False show ?thesis by (simp add: put_sector_fields)
  qed
  show ?thesis
    using put_sector_blk(1) [OF r(1) size d] tab dok blocks disks
    by (simp add: represents_def put_sector_fields(1))
qed

section \<open>Putting consecutive sectors\<close>

lemma upt_snoc: "[s..<s + Suc m] = [s..<s + m] @ [s + m]"
  by simp

text \<open>The sectors put so far stay cached as long as no later one has the same index.\<close>

lemma mod_differ:
  fixes s t m N :: nat
  assumes "s \<le> t" "t < s + m" "m \<le> N" "N \<noteq> 0" and "t' = s + m" "m < N"
  shows "t mod N \<noteq> t' mod N"
proof
  assume eq: "t mod N = t' mod N"
  then have "N dvd t' - t" by (metis mod_eq_dvd_iff_nat assms(2,5) less_imp_le)
  moreover have "0 < t' - t" "t' - t < N" using assms by auto
  ultimately show False by (simp add: nat_dvd_not_less)
qed

lemma fold_put_fields:
  "m_dwCacheSize (fold (\<lambda>t. put_sector t (W t) f) ts c) = m_dwCacheSize c"
  "m_dwBlockSize (fold (\<lambda>t. put_sector t (W t) f) ts c) = m_dwBlockSize c"
  "dk_data (fold (\<lambda>t. put_sector t (W t) f) ts c) = dk_data c"
  "IsWriteBack (fold (\<lambda>t. put_sector t (W t) f) ts c) = IsWriteBack c"
  by (induction ts arbitrary: c) (simp_all add: put_sector_fields)

lemma fold_put_lookup:
  assumes len: "m_dwCacheSize c \<le> length (m_pCacheLookup c)" and i: "i < m_dwCacheSize c"
  shows "m_pCacheLookup (fold (\<lambda>t. put_sector t (W t) f) [s..<s + m] c) ! i =
     (if \<exists>t. s \<le> t \<and> t < s + m \<and> t mod m_dwCacheSize c = i
      then GREATEST t. s \<le> t \<and> t < s + m \<and> t mod m_dwCacheSize c = i
      else m_pCacheLookup c ! i) \<and>
    length (m_pCacheLookup (fold (\<lambda>t. put_sector t (W t) f) [s..<s + m] c)) = length (m_pCacheLookup c)"
proof (induction m)
  case 0
  have "\<not> (\<exists>t. s \<le> t \<and> t < s + 0 \<and> t mod m_dwCacheSize c = i)" by auto
  then show ?case by (simp only: if_False) simp
next
  case (Suc m)
  let ?c = "fold (\<lambda>t. put_sector t (W t) f) [s..<s + m] c"
  have sz: "m_dwCacheSize ?c = m_dwCacheSize c" by (simp add: fold_put_fields)
  have step: "m_pCacheLookup (fold (\<lambda>t. put_sector t (W t) f) [s..<s + Suc m] c) =
      (m_pCacheLookup ?c)[(s + m) mod m_dwCacheSize c := s + m]"
    unfolding upt_snoc fold_append by (simp add: put_sector_fields sz)
  show ?case
  proof (cases "(s + m) mod m_dwCacheSize c = i")
    case True
    have "(GREATEST t. s \<le> t \<and> t < s + Suc m \<and> t mod m_dwCacheSize c = i) = s + m"
      using True by (intro Greatest_equality) auto
    moreover have "\<exists>t. s \<le> t \<and> t < s + Suc m \<and> t mod m_dwCacheSize c = i"
      using True by (intro exI [of _ "s + m"]) simp
    ultimately show ?thesis using True Suc.IH len i unfolding step by simp
  next
    case False
    then have P: "(s \<le> t \<and> t < s + Suc m \<and> t mod m_dwCacheSize c = i) \<longleftrightarrow>
        (s \<le> t \<and> t < s + m \<and> t mod m_dwCacheSize c = i)" for t
      by (auto simp: less_Suc_eq)
    show ?thesis
      unfolding P step nth_list_update_neq [OF False] length_list_update by (rule Suc.IH)
  qed
qed

text \<open>
  The loop: it takes the sectors out of the pending set, provided that a dirty block in the
  way already belongs to the sector, and that the disk has the contents of the sectors that
  are not made dirty.
\<close>

lemma fold_put_represents:
  assumes rep: "represents c W R" and size: "m_dwCacheSize c \<noteq> 0"
    and len: "\<And>t. s \<le> t \<Longrightarrow> t < s + m \<Longrightarrow> length (W t) = m_dwBlockSize c"
    and bound: "s + m \<le> INVALID_CACHE_ID"
    and dirty: "\<And>t. s \<le> t \<Longrightarrow> t < s + m \<Longrightarrow> t mod m_dwCacheSize c \<in> dirty_set c \<Longrightarrow>
       m_pCacheLookup c ! (t mod m_dwCacheSize c) = t"
    and short: "f \<and> IsWriteBack c \<Longrightarrow> m \<le> m_dwCacheSize c"
    and short': "dirty_set c \<noteq> {} \<Longrightarrow> m \<le> m_dwCacheSize c"
    and disk: "\<And>t. \<not> (f \<and> IsWriteBack c) \<Longrightarrow> s \<le> t \<Longrightarrow> t < s + m \<Longrightarrow> t \<notin> dirty_sectors c \<Longrightarrow> dk_data c t = W t"
  shows "represents (fold (\<lambda>t. put_sector t (W t) f) [s..<s + m] c) W (R - {s..<s + m})"
proof -
  have "k \<le> m \<Longrightarrow> represents (fold (\<lambda>t. put_sector t (W t) f) [s..<s + k] c) W (R - {s..<s + k}) \<and>
     (\<forall>i \<in> dirty_set (fold (\<lambda>t. put_sector t (W t) f) [s..<s + k] c).
        i \<in> dirty_set c \<or> f \<and> IsWriteBack c \<and> (\<exists>t. s \<le> t \<and> t < s + k \<and> i = t mod m_dwCacheSize c)) \<and>
     dirty_set c \<subseteq> dirty_set (fold (\<lambda>t. put_sector t (W t) f) [s..<s + k] c)" for k
  proof (induction k)
    case 0
    with rep show ?case by simp
  next
    case (Suc k)
    let ?c = "fold (\<lambda>t. put_sector t (W t) f) [s..<s + k] c" and ?t = "s + k"
    let ?i = "?t mod m_dwCacheSize c"
    have IH: "represents ?c W (R - {s..<s + k})"
      "\<And>i. i \<in> dirty_set ?c \<Longrightarrow> i \<in> dirty_set c \<or> f \<and> IsWriteBack c \<and>
         (\<exists>t. s \<le> t \<and> t < s + k \<and> i = t mod m_dwCacheSize c)"
      "dirty_set c \<subseteq> dirty_set ?c" using Suc by auto
    have eqs: "m_dwCacheSize ?c = m_dwCacheSize c" "m_dwBlockSize ?c = m_dwBlockSize c"
      "dk_data ?c = dk_data c" "IsWriteBack ?c = IsWriteBack c" by (simp_all add: fold_put_fields)
    note rc = representsD [OF rep]
    have i: "?i < m_dwCacheSize c" using size by simp
    have fresh: "t mod m_dwCacheSize c \<noteq> ?i" if "s \<le> t" "t < s + k" "m \<le> m_dwCacheSize c" for t
      using mod_differ [OF that(1,2) _ size refl] Suc.prems that(3) by simp
    have old: "?i \<in> dirty_set ?c \<Longrightarrow> ?i \<in> dirty_set c"
      using IH(2) [of ?i] fresh short by metis
    have lk: "m \<le> m_dwCacheSize c \<Longrightarrow> m_pCacheLookup ?c ! ?i = m_pCacheLookup c ! ?i"
      using fold_put_lookup [OF tables_okD(1) [OF rc(2)] i, of W f s k] fresh by auto
    have dirty': "m_pCacheLookup ?c ! (?t mod m_dwCacheSize ?c) = ?t" if "?t mod m_dwCacheSize ?c \<in> dirty_set ?c"
      using that old dirty [of ?t] lk short' Suc.prems unfolding eqs by auto
    have disk': "dk_data ?c ?t = W ?t"
      if "\<not> (f \<and> IsWriteBack ?c)" "?t mod m_dwCacheSize ?c \<notin> dirty_set ?c"
    proof -
      have "?t \<notin> dirty_sectors c"
        using that(2) IH(3) in_dirty_sectors [OF rc(2,3), of ?t] size bound Suc.prems unfolding eqs by auto
      then show ?thesis using disk [of ?t] that(1) Suc.prems unfolding eqs by simp
    qed
    have D: "dirty_set (put_sector ?t (W ?t) f ?c) =
        (if f \<and> IsWriteBack c then insert ?i (dirty_set ?c) else dirty_set ?c)"
      using put_sector_dirty [OF representsD(2) [OF IH(1)], of ?t "W ?t" f] size unfolding eqs by simp
    have newd: "j \<in> dirty_set c \<or> f \<and> IsWriteBack c \<and> (\<exists>t. s \<le> t \<and> t < s + Suc k \<and> j = t mod m_dwCacheSize c)"
      if "j \<in> dirty_set ?c \<or> f \<and> IsWriteBack c \<and> j = ?i" for j
    proof (cases "j \<in> dirty_set ?c")
      case True
      then consider "j \<in> dirty_set c" | t where "f \<and> IsWriteBack c" "s \<le> t" "t < s + k" "j = t mod m_dwCacheSize c"
        using IH(2) [of j] by blast
      then show ?thesis
      proof cases
        case (2 t)
        then have "t < s + Suc k" by simp
        with 2 show ?thesis by blast
      qed blast
    next
      case False
      with that have "f \<and> IsWriteBack c \<and> s \<le> s + k \<and> s + k < s + Suc k \<and> j = (s + k) mod m_dwCacheSize c"
        by simp
      then show ?thesis by blast
    qed
    have "i \<in> dirty_set c \<or> f \<and> IsWriteBack c \<and> (\<exists>t. s \<le> t \<and> t < s + Suc k \<and> i = t mod m_dwCacheSize c)"
      if "i \<in> dirty_set (put_sector ?t (W ?t) f ?c)" for i
      by (rule newd) (use that D in \<open>auto split: if_splits\<close>)
    moreover have "dirty_set c \<subseteq> dirty_set (put_sector ?t (W ?t) f ?c)"
      using IH(3) D by auto
    moreover have "represents (put_sector ?t (W ?t) f ?c) W (R - {s..<s + k} - {?t})"
    proof (rule put_sector_represents [OF IH(1) _ _ _ dirty' disk'])
      show "m_dwCacheSize ?c \<noteq> 0" "?t < INVALID_CACHE_ID" "length (W ?t) = m_dwBlockSize ?c"
        using size bound Suc.prems len [of ?t] unfolding eqs by auto
    qed
    moreover have "R - {s..<s + k} - {?t} = R - {s..<s + Suc k}" by auto
    moreover have "fold (\<lambda>t. put_sector t (W t) f) [s..<s + Suc k] c = put_sector ?t (W ?t) f ?c"
      unfolding upt_snoc fold_append by simp
    ultimately show ?case by (metis (no_types, lifting))
  qed
  then show ?thesis by blast
qed

end
