(* ===== verification/Disk_Cache_Rw.thy ===== *)
theory Disk_Cache_Rw
  imports Disk_Cache_Repr
begin

text \<open>
  Reading and writing through the sector cache, when every request succeeds: a read returns
  the view and keeps it, a write changes the view to the data written, and both keep the
  invariant.
\<close>

section \<open>Ranges and buffers\<close>

lemma good_range:
  assumes "\<not> bad_range c s n" and "m_dwEnd c < INVALID_CACHE_ID" and "s < 2 ^ 32" "n < 2 ^ 32"
  shows "0 < n" "s + n \<le> INVALID_CACHE_ID" "m_dwStart c \<le> s" "s + n - 1 \<le> m_dwEnd c"
    "k \<le> n \<Longrightarrow> add32 s k = s + k"
proof -
  let ?e = "sub32 (add32 s n) 1"
  have r: "m_dwStart c \<le> s" "?e \<le> m_dwEnd c" "s \<le> ?e" using assms(1) by (auto simp: bad_range_def Let_def)
  have lt: "?e < 2 ^ 32 - 1" using r(2) assms(2) by (simp add: INVALID_CACHE_ID_def)
  have n: "0 < n \<and> s + n < 2 ^ 32"
  proof (cases "s + n < 2 ^ 32")
    case True
    then have a: "add32 s n = s + n" by (simp add: add32_def)
    have "n \<noteq> 0"
    proof
      assume "n = 0"
      then have "?e = sub32 s 1" using a by simp
      also have "\<dots> = (if s = 0 then 2 ^ 32 - 1 else s - 1)"
        using assms(3) by (auto simp: sub32_eq) (simp add: sub32_def)
      finally show False using r(3) lt by (auto split: if_splits)
    qed
    with True show ?thesis by simp
  next
    case False
    then have a: "add32 s n = s + n - 2 ^ 32"
      using assms(3,4) by (simp add: add32_def le_mod_geq)
    have "?e = (if s + n = 2 ^ 32 then 2 ^ 32 - 1 else s + n - 2 ^ 32 - 1)"
      using False assms(3,4) unfolding a by (auto simp: sub32_eq) (simp add: sub32_def)
    with r(3) lt assms(3,4) False show ?thesis by (auto split: if_splits)
  qed
  then have "add32 s n = s + n" by (simp add: add32_def)
  then have e: "?e = s + n - 1" using n by (simp add: sub32_eq)
  show "0 < n" using n by simp
  show "s + n \<le> INVALID_CACHE_ID" using n lt e by (simp add: INVALID_CACHE_ID_def)
  show "m_dwStart c \<le> s" "s + n - 1 \<le> m_dwEnd c" using r e by simp_all
  show "k \<le> n \<Longrightarrow> add32 s k = s + k" using n by (simp add: add32_def)
qed

lemma fold_overwrite:
  assumes "\<And>t. s \<le> t \<Longrightarrow> t < s + n \<Longrightarrow> length (f t) = bs" and "n * bs \<le> length buf"
  shows "fold (\<lambda>t b. overwrite b ((t - s) * bs) (f t)) [s..<s + n] buf =
     concat (map f [s..<s + n]) @ drop (n * bs) buf"
  using assms
proof (induction n)
  case 0
  then show ?case by simp
next
  case (Suc n)
  let ?b = "concat (map f [s..<s + n]) @ drop (n * bs) buf"
  have len: "length (concat (map f [s..<s + n])) = n * bs"
  proof -
    have "\<forall>t \<in> set [s..<s + n]. length (f t) = bs" using Suc.prems(1) by simp
    then have "map (length \<circ> f) [s..<s + n] = replicate n bs" by (auto simp: list_eq_iff_nth_eq)
    then show ?thesis by (simp add: length_concat sum_list_replicate)
  qed
  have "fold (\<lambda>t b. overwrite b ((t - s) * bs) (f t)) [s..<s + Suc n] buf =
      overwrite ?b (n * bs) (f (s + n))"
    using Suc by simp
  also have "\<dots> = concat (map f [s..<s + Suc n]) @ drop (Suc n * bs) buf"
    using Suc.prems(1) [of "s + n"] len by (simp add: overwrite_def add.commute)
  finally show ?case .
qed

lemma slice_of_concat:
  assumes "\<And>t. s \<le> t \<Longrightarrow> t < s + n \<Longrightarrow> length (f t) = bs" and "s \<le> t" "t < s + n"
  shows "slice bs (concat (map f [s..<s + n])) (t - s) = f t"
  using slice_concat [of s "s + n" f bs "t - s"] assms by simp

section \<open>Reading\<close>

lemma disk_read_ok:
  assumes "env_ok env"
  shows "ReadWriteDisk_read env c s n buf =
    (ERROR_SUCCESS, concat (map (dk_data c) [s..<s + n]), c\<lparr>dk_count := dk_count c + 1\<rparr>)"
proof -
  have "map (\<lambda>k. dk_data c (s + k)) [0..<n] = map (dk_data c) [s..<s + n]"
    by (rule nth_equalityI) auto
  with assms show ?thesis
    by (simp add: ReadWriteDisk_read_def disk_read_def io_error_def env_ok_def transferred_def)
qed

lemma count_irrelevant:
  "represents (c\<lparr>dk_count := k\<rparr>) W R = represents c W R" "cache_inv (c\<lparr>dk_count := k\<rparr>) = cache_inv c"
  "cache_view (c\<lparr>dk_count := k\<rparr>) = cache_view c" "dirty_set (c\<lparr>dk_count := k\<rparr>) = dirty_set c"
  by (auto simp: represents_def cache_inv_def pool_ok_def tables_ok_def dirty_ok_def coherent_def cache_view_def
      dirty_sectors_def dirty_set_def IsDirty_def IsCached_def GetIndex_def IsWriteBack_def
      ReadFromCacheBuffer_def SectorsPerBuffer_def fun_eq_iff)

lemma read_sector_put:
  "cache_read_sector s buf t c =
     (if m_pCacheLookup c ! (t mod m_dwCacheSize c) \<noteq> t
      then put_sector t (slice (m_dwBlockSize c) buf (t - s)) False c else c)"
  by (simp add: cache_read_sector_def put_sector_def GetIndex_def Let_def)

lemma fold_read_represents:
  assumes rep: "represents c V {}" and size: "m_dwCacheSize c \<noteq> 0" and bound: "s + m \<le> INVALID_CACHE_ID"
    and clean: "\<And>t. s \<le> t \<Longrightarrow> t < s + m \<Longrightarrow> t mod m_dwCacheSize c \<notin> dirty_set c"
    and buf: "\<And>t. s \<le> t \<Longrightarrow> t < s + m \<Longrightarrow> slice (m_dwBlockSize c) buf (t - s) = V t"
  shows "represents (fold (cache_read_sector s buf) [s..<s + m] c) V {}"
proof -
  have "k \<le> m \<Longrightarrow> represents (fold (cache_read_sector s buf) [s..<s + k] c) V {} \<and>
     dirty_set (fold (cache_read_sector s buf) [s..<s + k] c) = dirty_set c \<and>
     m_dwCacheSize (fold (cache_read_sector s buf) [s..<s + k] c) = m_dwCacheSize c \<and>
     m_dwBlockSize (fold (cache_read_sector s buf) [s..<s + k] c) = m_dwBlockSize c" for k
  proof (induction k)
    case 0
    with rep show ?case by simp
  next
    case (Suc k)
    let ?c = "fold (cache_read_sector s buf) [s..<s + k] c" and ?t = "s + k"
    have IH: "represents ?c V {}" "dirty_set ?c = dirty_set c" "m_dwCacheSize ?c = m_dwCacheSize c"
      "m_dwBlockSize ?c = m_dwBlockSize c" using Suc by auto
    note r = representsD [OF IH(1)]
    have step: "fold (cache_read_sector s buf) [s..<s + Suc k] c = cache_read_sector s buf ?t ?c"
      unfolding upt_snoc fold_append by simp
    show ?case
    proof (cases "m_pCacheLookup ?c ! (?t mod m_dwCacheSize ?c) = ?t")
      case True
      then show ?thesis using IH unfolding step by (simp add: read_sector_put)
    next
      case False
      have t: "?t < INVALID_CACHE_ID" using bound Suc.prems by simp
      have c: "?t mod m_dwCacheSize ?c \<notin> dirty_set ?c" using clean [of ?t] Suc.prems IH by simp
      have "?t \<notin> dirty_sectors ?c"
        using c in_dirty_sectors [OF r(2,3), of ?t] t size IH(3) by simp
      then have "dk_data ?c ?t = V ?t" using r(5) t by simp
      moreover have eq: "cache_read_sector s buf ?t ?c = put_sector ?t (V ?t) False ?c"
        using False buf [of ?t] Suc.prems IH(4) by (simp add: read_sector_put)
      moreover have "length (V ?t) = m_dwBlockSize ?c"
        using \<open>dk_data ?c ?t = V ?t\<close> tables_okD(3) [OF r(2)] by metis
      ultimately show ?thesis
        using put_sector_represents [OF IH(1), of ?t False] c t size IH
          put_sector_dirty [OF r(2), of ?t "V ?t" False] unfolding step eq
        by (simp add: put_sector_fields)
    qed
  qed
  then show ?thesis by blast
qed

lemma view_len:
  assumes "cache_inv c"
  shows "length (cache_view c u) = m_dwBlockSize c"
  using length_blk [OF cache_invD(1) [OF assms]] tables_okD(3) [OF cache_invD(2) [OF assms]]
  by (simp add: cache_view_def GetIndex_def)

lemma clean_view:
  assumes inv: "cache_inv c" and t: "t < INVALID_CACHE_ID" and "m_dwCacheSize c \<noteq> 0"
    and "t mod m_dwCacheSize c \<notin> dirty_set c"
  shows "dk_data c t = cache_view c t"
proof -
  note d = cache_invD [OF inv]
  have "t \<notin> dirty_sectors c" using in_dirty_sectors [OF d(2,3), of t] assms by simp
  then show ?thesis using representsD(5) [OF inv [unfolded inv_represents]] t by simp
qed

text \<open>The two ways through \<open>ReadCache\<close>.\<close>

definition read_miss :: "ccache \<Rightarrow> nat \<Rightarrow> nat \<Rightarrow> bool" where
  "read_miss c s n \<longleftrightarrow> (if n > m_dwCacheSize c then True
     else list_ex (\<lambda>s. \<not> IsCached c s) [s..<add32 s n])"

lemma ReadCache_hit:
  assumes "\<not> bad_range c s n" and "m_dwCacheSize c \<noteq> 0" and "\<not> read_miss c s n"
  shows "ReadCache env c s n buf = (ERROR_SUCCESS,
    fold (\<lambda>t b. overwrite b ((t - s) * m_dwBlockSize c) (blk c (GetIndex c t))) [s..<add32 s n] buf, c)"
  using assms unfolding ReadCache_def read_miss_def [symmetric]
  by (simp add: Let_def) (simp add: read_miss_def split: if_splits)

lemma ReadCache_miss:
  assumes "\<not> bad_range c s n" and "m_dwCacheSize c \<noteq> 0" and "read_miss c s n"
    and "c1 = (if IsWriteBack c then CommitDirtySectors env c s n COMMIT_ALL_SECTORS else c)"
    and "ReadWriteDisk_read env c1 s n buf = (ERROR_SUCCESS, buf', c2)"
  shows "ReadCache env c s n buf = (ERROR_SUCCESS, buf',
    fold (cache_read_sector s buf') [s..<add32 s (if n > m_dwCacheSize c2 then m_dwCacheSize c2 else n)] c2)"
  using assms unfolding ReadCache_def read_miss_def [symmetric]
  by (simp add: Let_def)

lemma ReadCache_spec:
  assumes env: "env_ok env" and inv: "cache_inv c" and good: "\<not> bad_range c s n"
    and w: "s < 2 ^ 32" "n < 2 ^ 32" and buf: "length buf = n * m_dwBlockSize c"
  obtains c' where "ReadCache env c s n buf = (ERROR_SUCCESS, concat (map (cache_view c) [s..<s + n]), c')"
    and "cache_inv c'" and "\<And>u. u < INVALID_CACHE_ID \<Longrightarrow> cache_view c' u = cache_view c u"
proof -
  note d = cache_invD [OF inv]
  note g = good_range [OF good tables_okD(4) [OF d(2)] w]
  show ?thesis
  proof (cases "m_dwCacheSize c = 0")
    case True
    then have "cache_view c = dk_data c" by (simp add: cache_view_def fun_eq_iff)
    then have "ReadCache env c s n buf =
        (ERROR_SUCCESS, concat (map (cache_view c) [s..<s + n]), c\<lparr>dk_count := dk_count c + 1\<rparr>)"
      using True good by (simp add: ReadCache_def disk_read_ok [OF env])
    then show ?thesis by (rule that) (simp_all add: inv count_irrelevant)
  next
    case size: False
    show ?thesis
    proof (cases "read_miss c s n")
      case False
      then have cached: "\<And>t. s \<le> t \<Longrightarrow> t < s + n \<Longrightarrow> IsCached c t"
        using g(5) [of n] by (auto simp: read_miss_def list_ex_iff split: if_splits)
      have "fold (\<lambda>t b. overwrite b ((t - s) * m_dwBlockSize c) (blk c (GetIndex c t))) [s..<s + n] buf =
          concat (map (\<lambda>t. blk c (GetIndex c t)) [s..<s + n]) @ drop (n * m_dwBlockSize c) buf"
        using length_blk [OF d(1)] size buf by (intro fold_overwrite) (simp_all add: GetIndex_def)
      also have "\<dots> = concat (map (cache_view c) [s..<s + n])"
      proof -
        have eq: "map (\<lambda>t. blk c (GetIndex c t)) [s..<s + n] = map (cache_view c) [s..<s + n]"
          using cached size by (auto simp: cache_view_def)
        show ?thesis unfolding eq using buf by simp
      qed
      finally have "ReadCache env c s n buf = (ERROR_SUCCESS, concat (map (cache_view c) [s..<s + n]), c)"
        using ReadCache_hit [OF good size False] g(5) [of n] by simp
      then show ?thesis by (rule that) (simp_all add: inv)
    next
      case True
      define c1 where "c1 = (if IsWriteBack c then CommitDirtySectors env c s n COMMIT_ALL_SECTORS else c)"
      have com: "commits c c1"
        using CommitDirtySectors_commits [OF env inv size] commits_refl [OF inv] by (simp add: c1_def)
      have c1: "cache_inv c1" "cache_view c1 = cache_view c" "m_dwCacheSize c1 = m_dwCacheSize c"
        "m_dwBlockSize c1 = m_dwBlockSize c"
        using com by (auto simp: commits_def same_static_def)
      have s_n: "s + n \<le> 2 ^ 32" using g(2) by (simp add: INVALID_CACHE_ID_def)
      have clean: "t mod m_dwCacheSize c \<notin> dirty_set c1" if "s \<le> t" "t < s + n" for t
      proof (cases "IsWriteBack c")
        case True
        then show ?thesis
          using CommitDirtySectors_clean [OF env inv size that s_n, of COMMIT_ALL_SECTORS] by (auto simp: c1_def)
      next
        case False
        with d(3) show ?thesis by (simp add: dirty_ok_def c1_def)
      qed
      have disk: "dk_data c1 t = cache_view c t" if "s \<le> t" "t < s + n" for t
        using clean_view [OF c1(1), of t] clean [OF that] that g(2) size unfolding c1(2,3) by simp
      then have data: "map (dk_data c1) [s..<s + n] = map (cache_view c) [s..<s + n]" by simp
      let ?buf = "concat (map (cache_view c) [s..<s + n])"
      let ?c2 = "c1\<lparr>dk_count := dk_count c1 + 1\<rparr>"
      let ?m = "if n > m_dwCacheSize c then m_dwCacheSize c else n"
      have m: "?m \<le> n" by simp
      let ?c' = "fold (cache_read_sector s ?buf) [s..<s + ?m] ?c2"
      have "represents ?c' (cache_view c) {}"
      proof (rule fold_read_represents)
        show "represents ?c2 (cache_view c) {}"
          using c1(1) unfolding count_irrelevant inv_represents c1(2) .
        show "m_dwCacheSize ?c2 \<noteq> 0" using size c1(3) by simp
        show "s + ?m \<le> INVALID_CACHE_ID" using g(2) m by linarith
        show "t mod m_dwCacheSize ?c2 \<notin> dirty_set ?c2" if "s \<le> t" "t < s + ?m" for t
          using clean [OF that(1)] that(2) m c1(3) unfolding count_irrelevant by simp
        show "slice (m_dwBlockSize ?c2) ?buf (t - s) = cache_view c t" if "s \<le> t" "t < s + ?m" for t
          using slice_of_concat [of s n "cache_view c" "m_dwBlockSize c" t] view_len [OF inv] that m c1(4) by simp
      qed
      then have c': "cache_inv ?c'" "\<And>u. u < INVALID_CACHE_ID \<Longrightarrow> cache_view ?c' u = cache_view c u"
        by (auto intro: represents_inv represents_view)
      have "ReadCache env c s n buf = (ERROR_SUCCESS, ?buf, ?c')"
      proof -
        have sz2: "m_dwCacheSize ?c2 = m_dwCacheSize c" using c1(3) by simp
        show ?thesis
          using ReadCache_miss [OF good size True c1_def disk_read_ok [OF env], of buf]
          unfolding data sz2 g(5) [OF m] .
      qed
      then show ?thesis by (rule that) (use c' in auto)
    qed
  qed
qed

section \<open>Writing\<close>

definition overlay :: "nat \<Rightarrow> nat \<Rightarrow> nat \<Rightarrow> BYTE list \<Rightarrow> (nat \<Rightarrow> BYTE list) \<Rightarrow> nat \<Rightarrow> BYTE list" where
  "overlay bs s n buf V u = (if s \<le> u \<and> u < s + n then slice bs buf (u - s) else V u)"

lemma write_sector_put:
  "cache_write_sector s buf f t c = put_sector t (slice (m_dwBlockSize c) buf (t - s)) f c"
  by (simp add: cache_write_sector_def put_sector_def GetIndex_def Let_def)

lemma fold_write_put:
  "fold (cache_write_sector s buf f) [s..<s + m] c =
   fold (\<lambda>t. put_sector t (overlay (m_dwBlockSize c) s m buf V t) f) [s..<s + m] c"
proof -
  have "k \<le> m \<Longrightarrow> fold (cache_write_sector s buf f) [s..<s + k] c =
     fold (\<lambda>t. put_sector t (overlay (m_dwBlockSize c) s m buf V t) f) [s..<s + k] c" for k
  proof (induction k)
    case (Suc k)
    let ?c = "fold (\<lambda>t. put_sector t (overlay (m_dwBlockSize c) s m buf V t) f) [s..<s + k] c"
    have "fold (cache_write_sector s buf f) [s..<s + Suc k] c = cache_write_sector s buf f (s + k) ?c"
      unfolding upt_snoc fold_append using Suc by simp
    also have "\<dots> = put_sector (s + k) (overlay (m_dwBlockSize c) s m buf V (s + k)) f ?c"
      using Suc.prems by (simp only: write_sector_put fold_put_fields) (simp add: overlay_def)
    finally show ?case unfolding upt_snoc fold_append by simp
  qed simp
  then show ?thesis by simp
qed

lemma overlay_shorter:
  "m \<le> n \<Longrightarrow> overlay bs s m buf (overlay bs s n buf V) = overlay bs s n buf V"
  by (auto simp: overlay_def fun_eq_iff)

lemma slice_length: "(k + 1) * bs \<le> length buf \<Longrightarrow> length (slice bs buf k) = bs"
  by (simp add: slice_def algebra_simps)

text \<open>The disk write of a range, seen as contents: cached copies of the range become pending.\<close>

lemma write_represents:
  assumes env: "env_ok env" and rep: "represents c V {}" and buf: "length buf = n * m_dwBlockSize c"
  shows "io_error env c = ERROR_SUCCESS"
    and "represents (snd (ReadWriteDisk_write env c s n buf)) (overlay (m_dwBlockSize c) s n buf V) {s..<s + n}"
    and "s \<le> t \<Longrightarrow> t < s + n \<Longrightarrow>
       dk_data (snd (ReadWriteDisk_write env c s n buf)) t = overlay (m_dwBlockSize c) s n buf V t"
proof -
  let ?c = "snd (ReadWriteDisk_write env c s n buf)"
  have data: "dk_data ?c t = (if s \<le> t \<and> t < s + n then slice (m_dwBlockSize c) buf (t - s) else dk_data c t)" for t
    using env by (auto simp: write_data disk_write_def transferred_def env_ok_def)
  show "io_error env c = ERROR_SUCCESS" using env by (simp add: io_error_def env_ok_def)
  show "s \<le> t \<Longrightarrow> t < s + n \<Longrightarrow> dk_data ?c t = overlay (m_dwBlockSize c) s n buf V t"
    by (simp add: data overlay_def)
  note r = representsD [OF rep]
  have st: "same_static c ?c" by simp
  note eqs = same_static_eqs [OF st]
  have st': "m_dwCacheSize ?c = m_dwCacheSize c" "m_pCacheLookup ?c = m_pCacheLookup c" "m_dwEnd ?c = m_dwEnd c"
    "m_dwBlockSize ?c = m_dwBlockSize c" "dirty_set ?c = dirty_set c"
    using st by (auto simp: same_static_def dirty_set_def IsDirty_def)
  have "length (dk_data ?c t) = m_dwBlockSize c" for t
  proof (cases "s \<le> t \<and> t < s + n")
    case True
    then have "(t - s + 1) * m_dwBlockSize c \<le> n * m_dwBlockSize c" by (intro mult_le_mono1) linarith
    with True buf show ?thesis by (simp add: data slice_length)
  next
    case False
    then show ?thesis using tables_okD(3) [OF r(2)] by (simp only: data if_False)
  qed
  then have "tables_ok ?c" using r(2) st' by (simp add: tables_ok_def)
  moreover have "dirty_ok ?c" using r(3) st' eqs by (simp add: dirty_ok_def)
  moreover have "dirty_sectors ?c = dirty_sectors c" by (simp add: dirty_sectors_def st')
  ultimately show "represents ?c (overlay (m_dwBlockSize c) s n buf V) {s..<s + n}"
    using r st' eqs data unfolding represents_def by (auto simp: overlay_def)
qed

lemma residue_hit:
  fixes i N s :: nat
  assumes "i < N"
  shows "\<exists>t. s \<le> t \<and> t < s + N \<and> t mod N = i"
proof -
  let ?t = "s + (i + N - s mod N) mod N"
  have "?t mod N = (s mod N + (i + N - s mod N)) mod N" by (simp add: mod_simps)
  also have "s mod N + (i + N - s mod N) = i + N"
    using mod_less_divisor [of N s] assms by linarith
  also have "(i + N) mod N = i" using assms by simp
  finally show ?thesis using assms by (intro exI [of _ ?t]) simp
qed

text \<open>Two ways in which the range of a write ends up in the cache.\<close>

lemma write_back_spec:
  assumes inv: "cache_inv c" and size: "m_dwCacheSize c \<noteq> 0" and wb: "IsWriteBack c"
    and n: "n \<le> m_dwCacheSize c" "s + n \<le> INVALID_CACHE_ID" and buf: "length buf = n * m_dwBlockSize c"
    and dirty: "\<And>t. s \<le> t \<Longrightarrow> t < s + n \<Longrightarrow> t mod m_dwCacheSize c \<in> dirty_set c \<Longrightarrow>
       m_pCacheLookup c ! (t mod m_dwCacheSize c) = t"
  shows "represents (fold (cache_write_sector s buf True) [s..<s + n] c)
     (overlay (m_dwBlockSize c) s n buf (cache_view c)) {}"
proof -
  let ?W = "overlay (m_dwBlockSize c) s n buf (cache_view c)"
  have len: "length (?W t) = m_dwBlockSize c" if "s \<le> t" "t < s + n" for t
  proof -
    have "(t - s + 1) * m_dwBlockSize c \<le> n * m_dwBlockSize c" using that by (intro mult_le_mono1) linarith
    then show ?thesis using that buf by (simp add: overlay_def slice_length)
  qed
  have "represents c ?W {s..<s + n}"
    by (rule represents_pending [OF inv [unfolded inv_represents]]) (auto simp: overlay_def)
  then have "represents (fold (\<lambda>t. put_sector t (?W t) True) [s..<s + n] c) ?W ({s..<s + n} - {s..<s + n})"
    by (rule fold_put_represents) (use size n dirty wb len in auto)
  then show ?thesis by (simp add: fold_write_put [of s buf True n c "cache_view c"])
qed

lemma written_spec:
  assumes rep: "represents c W {s..<s + n}" and size: "m_dwCacheSize c \<noteq> 0"
    and disk: "\<And>t. s \<le> t \<Longrightarrow> t < s + n \<Longrightarrow> dk_data c t = W t"
    and W: "\<And>t. s \<le> t \<Longrightarrow> t < s + n \<Longrightarrow> W t = slice (m_dwBlockSize c) buf (t - s)"
    and bound: "s + n \<le> INVALID_CACHE_ID" and buf: "length buf = n * m_dwBlockSize c"
    and m: "m \<le> n" "m = n \<or> m = m_dwCacheSize c"
    and dirty: "\<And>t. s \<le> t \<Longrightarrow> t < s + m \<Longrightarrow> t mod m_dwCacheSize c \<in> dirty_set c \<Longrightarrow>
       m_pCacheLookup c ! (t mod m_dwCacheSize c) = t"
    and short: "f \<and> IsWriteBack c \<Longrightarrow> m \<le> m_dwCacheSize c" "dirty_set c \<noteq> {} \<Longrightarrow> m \<le> m_dwCacheSize c"
  shows "represents (fold (cache_write_sector s buf f) [s..<s + m] c) W {}"
proof -
  let ?c' = "fold (\<lambda>t. put_sector t (W t) f) [s..<s + m] c"
  note r = representsD [OF rep]
  have eq: "fold (cache_write_sector s buf f) [s..<s + m] c = ?c'"
  proof -
    have ov: "overlay (m_dwBlockSize c) s m buf W = W"
      using W m(1) by (auto simp: overlay_def fun_eq_iff)
    show ?thesis unfolding fold_write_put [of s buf f m c W] ov ..
  qed
  have len: "length (W t) = m_dwBlockSize c" if "s \<le> t" "t < s + m" for t
  proof -
    have "(t - s + 1) * m_dwBlockSize c \<le> n * m_dwBlockSize c" using that m by (intro mult_le_mono1) linarith
    then show ?thesis using that buf W m by (simp add: slice_length)
  qed
  have rep': "represents ?c' W ({s..<s + n} - {s..<s + m})"
    by (rule fold_put_represents [OF rep size len])
      (use bound m dirty short disk in auto)
  have "represents ?c' W {}"
  proof (rule represents_close [OF rep'])
    show "dk_data ?c' u = W u" if "u \<in> {s..<s + n} - {s..<s + m}" for u
      using that disk by (simp add: fold_put_fields)
  next
    fix i
    assume i': "i < m_dwCacheSize ?c'"
    then have i: "i < m_dwCacheSize c" by (simp add: fold_put_fields)
    show "m_pCacheLookup ?c' ! i \<notin> {s..<s + n} - {s..<s + m}"
    proof (cases "m = n")
      case False
      then have mm: "m = m_dwCacheSize c" using m(2) by simp
      obtain t where t: "s \<le> t" "t < s + m" "t mod m_dwCacheSize c = i"
        using residue_hit [OF i, of s] mm by auto
      have "s \<le> (GREATEST t. s \<le> t \<and> t < s + m \<and> t mod m_dwCacheSize c = i) \<and>
          (GREATEST t. s \<le> t \<and> t < s + m \<and> t mod m_dwCacheSize c = i) < s + m \<and>
          (GREATEST t. s \<le> t \<and> t < s + m \<and> t mod m_dwCacheSize c = i) mod m_dwCacheSize c = i"
        by (rule GreatestI_nat [where b = "s + m"]) (use t in auto)
      then show ?thesis
        using fold_put_lookup [OF tables_okD(1) [OF r(2)] i, of W f s m] t by auto
    qed simp
  qed
  then show ?thesis unfolding eq .
qed

text \<open>The ways through \<open>WriteCache\<close>.\<close>

lemma write_run:
  assumes env: "env_ok env"
  shows "ReadWriteDisk_write env c s n buf = (ERROR_SUCCESS, snd (ReadWriteDisk_write env c s n buf))"
  using env by (simp add: ReadWriteDisk_write_def io_error_def env_ok_def)

lemma WriteCache_back:
  assumes "\<not> bad_range c s n" and "m_dwCacheSize c \<noteq> 0" and "IsWriteBack c" and "n \<le> m_dwCacheSize c"
    and "c1 = CommitDirtySectors env c s n COMMIT_DIFF_SECTORS"
    and "m_dwCacheSize c1 = m_dwCacheSize c" "IsWriteBack c1 = IsWriteBack c"
  shows "WriteCache env c False s n buf =
    (ERROR_SUCCESS, fold (cache_write_sector s buf True) [s..<add32 s n] c1)"
  using assms by (simp add: WriteCache_def Let_def ERROR_SUCCESS_def)

lemma WriteCache_back_through:
  assumes "\<not> bad_range c s n" and "m_dwCacheSize c \<noteq> 0" and "IsWriteBack c"
    and "n > m_dwCacheSize c \<or> force"
    and "c1 = CommitDirtySectors env c s n COMMIT_DIFF_SECTORS"
    and "m_dwCacheSize c1 = m_dwCacheSize c" "IsWriteBack c1 = IsWriteBack c"
    and "ReadWriteDisk_write env c1 s n buf = (ERROR_SUCCESS, c2)"
    and "m_dwCacheSize c2 = m_dwCacheSize c" "IsWriteBack c2 = IsWriteBack c"
  shows "WriteCache env c force s n buf =
    (ERROR_SUCCESS, fold (cache_write_sector s buf (\<not> force))
       [s..<add32 s (if n > m_dwCacheSize c then m_dwCacheSize c else n)] c2)"
  using assms by (simp add: WriteCache_def Let_def)

lemma WriteCache_through:
  assumes "\<not> bad_range c s n" and "m_dwCacheSize c \<noteq> 0" and "\<not> IsWriteBack c"
    and "ReadWriteDisk_write env c s n buf = (ERROR_SUCCESS, c2)" and "IsWriteBack c2 = IsWriteBack c"
  shows "WriteCache env c force s n buf =
    (ERROR_SUCCESS, fold (cache_write_sector s buf (\<not> force)) [s..<add32 s n] c2)"
  using assms by (simp add: WriteCache_def Let_def)

lemma WriteCache_spec:
  assumes env: "env_ok env" and inv: "cache_inv c" and good: "\<not> bad_range c s n"
    and w: "s < 2 ^ 32" "n < 2 ^ 32" and buf: "length buf = n * m_dwBlockSize c"
  obtains c' where "WriteCache env c force s n buf = (ERROR_SUCCESS, c')"
    and "represents c' (overlay (m_dwBlockSize c) s n buf (cache_view c)) {}"
proof -
  note d = cache_invD [OF inv]
  note g = good_range [OF good tables_okD(4) [OF d(2)] w]
  let ?W = "overlay (m_dwBlockSize c) s n buf (cache_view c)"
  have s_n: "s + n \<le> 2 ^ 32" using g(2) by (simp add: INVALID_CACHE_ID_def)
  have W: "?W t = slice (m_dwBlockSize c) buf (t - s)" if "s \<le> t" "t < s + n" for t
    using that by (simp add: overlay_def)
  consider (none) "m_dwCacheSize c = 0"
    | (wb) "m_dwCacheSize c \<noteq> 0" "IsWriteBack c" "n \<le> m_dwCacheSize c" "\<not> force"
    | (both) "m_dwCacheSize c \<noteq> 0" "IsWriteBack c" "n > m_dwCacheSize c \<or> force"
    | (through) "m_dwCacheSize c \<noteq> 0" "\<not> IsWriteBack c"
    by (meson not_le)
  then show ?thesis
  proof cases
    case none
    let ?c = "snd (ReadWriteDisk_write env c s n buf)"
    note wr2 = write_represents(2) [OF env inv [unfolded inv_represents] buf, of s]
      and wr3 = write_represents(3) [OF env inv [unfolded inv_represents] buf, of s]
    have "represents ?c ?W {}"
      by (rule represents_close [OF wr2]) (use wr3 none in \<open>auto simp: ReadWriteDisk_write_def\<close>)
    moreover have "WriteCache env c force s n buf = (ERROR_SUCCESS, ?c)"
      using none good write_run [OF env, of c s n buf] by (simp add: WriteCache_def)
    ultimately show ?thesis using that by blast
  next
    case wb
    define c1 where "c1 = CommitDirtySectors env c s n COMMIT_DIFF_SECTORS"
    have com: "commits c c1"
      using CommitDirtySectors_commits [OF env inv wb(1)] by (simp add: c1_def)
    then have c1: "cache_inv c1" "cache_view c1 = cache_view c" and st: "same_static c c1"
      by (auto simp: commits_def)
    have eqs: "m_dwCacheSize c1 = m_dwCacheSize c" "m_dwBlockSize c1 = m_dwBlockSize c"
      "m_pCacheLookup c1 = m_pCacheLookup c" "IsWriteBack c1 = IsWriteBack c"
      using st by (auto simp: same_static_def IsWriteBack_def)
    have dirty: "m_pCacheLookup c1 ! (t mod m_dwCacheSize c1) = t"
      if "s \<le> t" "t < s + n" "t mod m_dwCacheSize c1 \<in> dirty_set c1" for t
      using CommitDirtySectors_clean [OF env inv wb(1) that(1,2) s_n, of COMMIT_DIFF_SECTORS] that(3)
      unfolding eqs by (simp add: c1_def)
    have "represents (fold (cache_write_sector s buf True) [s..<s + n] c1)
        (overlay (m_dwBlockSize c1) s n buf (cache_view c1)) {}"
      by (rule write_back_spec [OF c1(1) _ _ _ g(2) _ dirty]) (use wb buf eqs in auto)
    then have "represents (fold (cache_write_sector s buf True) [s..<s + n] c1) ?W {}"
      unfolding eqs c1(2) .
    moreover have "WriteCache env c force s n buf =
        (ERROR_SUCCESS, fold (cache_write_sector s buf True) [s..<s + n] c1)"
      using WriteCache_back [OF good wb(1-3) c1_def eqs(1,4)] g(5) [of n] wb(4) by simp
    ultimately show ?thesis using that by blast
  next
    case both
    define c1 where "c1 = CommitDirtySectors env c s n COMMIT_DIFF_SECTORS"
    have com: "commits c c1"
      using CommitDirtySectors_commits [OF env inv both(1)] by (simp add: c1_def)
    then have c1: "cache_inv c1" "cache_view c1 = cache_view c" and st: "same_static c c1"
      by (auto simp: commits_def)
    define c2 where "c2 = snd (ReadWriteDisk_write env c1 s n buf)"
    have st2: "same_static c1 c2" by (simp add: c2_def)
    have eqs: "m_dwCacheSize c1 = m_dwCacheSize c" "m_dwBlockSize c1 = m_dwBlockSize c"
      "IsWriteBack c1 = IsWriteBack c" "m_dwCacheSize c2 = m_dwCacheSize c" "m_dwBlockSize c2 = m_dwBlockSize c"
      "IsWriteBack c2 = IsWriteBack c" "m_pCacheLookup c2 = m_pCacheLookup c" "dirty_set c2 = dirty_set c1"
      using st st2 by (auto simp: same_static_def IsWriteBack_def dirty_set_def IsDirty_def c2_def)
    have buf1: "length buf = n * m_dwBlockSize c1" using buf eqs by simp
    note wr2 = write_represents(2) [OF env c1(1) [unfolded inv_represents] buf1, of s, folded c2_def, unfolded eqs c1(2)]
      and wr3 = write_represents(3) [OF env c1(1) [unfolded inv_represents] buf1, of s, folded c2_def, unfolded eqs c1(2)]
    let ?m = "if n > m_dwCacheSize c then m_dwCacheSize c else n"
    have m: "?m \<le> n" "?m = n \<or> ?m = m_dwCacheSize c" "?m \<le> m_dwCacheSize c" by auto
    have dirty: "m_pCacheLookup c2 ! (t mod m_dwCacheSize c2) = t"
      if "s \<le> t" "t < s + ?m" "t mod m_dwCacheSize c2 \<in> dirty_set c2" for t
    proof -
      have "t < s + n" using that(2) m(1) by linarith
      from CommitDirtySectors_clean [OF env inv both(1) that(1) this s_n, of COMMIT_DIFF_SECTORS] that(3)
      show ?thesis unfolding eqs by (simp add: c1_def)
    qed
    have "represents (fold (cache_write_sector s buf (\<not> force)) [s..<s + ?m] c2) ?W {}"
      by (rule written_spec [OF wr2 _ wr3 _ g(2) _ m(1) _ dirty])
        (use both(1) buf W m eqs in auto)
    moreover have "WriteCache env c force s n buf =
        (ERROR_SUCCESS, fold (cache_write_sector s buf (\<not> force)) [s..<s + ?m] c2)"
      using WriteCache_back_through [OF good both c1_def eqs(1,3)
          write_run [OF env, of c1 s n buf, folded c2_def] eqs(4,6)]
      unfolding g(5) [OF m(1)] .
    ultimately show ?thesis using that by blast
  next
    case through
    define c2 where "c2 = snd (ReadWriteDisk_write env c s n buf)"
    have st2: "same_static c c2" by (simp add: c2_def)
    have eqs: "m_dwCacheSize c2 = m_dwCacheSize c" "m_dwBlockSize c2 = m_dwBlockSize c"
      "IsWriteBack c2 = IsWriteBack c" "dirty_set c2 = {}"
      using st2 d(3) through(2) by (auto simp: same_static_def IsWriteBack_def dirty_set_def IsDirty_def c2_def dirty_ok_def)
    note wr2 = write_represents(2) [OF env inv [unfolded inv_represents] buf, of s, folded c2_def]
      and wr3 = write_represents(3) [OF env inv [unfolded inv_represents] buf, of s, folded c2_def]
    have "represents (fold (cache_write_sector s buf (\<not> force)) [s..<s + n] c2) ?W {}"
      by (rule written_spec [OF wr2 _ wr3 _ g(2)]) (use through buf W eqs in auto)
    moreover have "WriteCache env c force s n buf =
        (ERROR_SUCCESS, fold (cache_write_sector s buf (\<not> force)) [s..<s + n] c2)"
      using WriteCache_through [OF good through write_run [OF env, of c s n buf, folded c2_def] eqs(3)]
        g(5) [of n] by simp
    ultimately show ?thesis using that by blast
  qed
qed

end
