(* ===== verification/Disk_Cache_Flush.thy ===== *)
theory Disk_Cache_Flush
  imports Disk_Cache_Rw
begin

text \<open>
  Flushing, the lazy writer and invalidation: what reaches the disk, that the lazy writer
  makes progress, and what an invalidation discards.
\<close>

section \<open>Flushing\<close>

lemma send_flush_irrelevant [simp]:
  "cache_inv (send_flush env c) = cache_inv c" "cache_view (send_flush env c) = cache_view c"
  "dirty_set (send_flush env c) = dirty_set c" "dk_data (send_flush env c) = dk_data c"
  "m_dwCacheSize (send_flush env c) = m_dwCacheSize c" "m_dwBlockSize (send_flush env c) = m_dwBlockSize c"
  "m_dwStart (send_flush env c) = m_dwStart c" "m_dwEnd (send_flush env c) = m_dwEnd c"
  by (auto simp: send_flush_def cache_inv_def pool_ok_def tables_ok_def dirty_ok_def coherent_def cache_view_def
      dirty_set_def IsDirty_def IsCached_def GetIndex_def IsWriteBack_def
      ReadFromCacheBuffer_def SectorsPerBuffer_def fun_eq_iff)

definition flush_core :: "io_env \<Rightarrow> ccache \<Rightarrow> (nat \<times> nat) list option \<Rightarrow> ccache" where
  "flush_core env c l =
     (if m_dwDirtyCount c \<noteq> 0 \<and> IsWriteBack c
      then (case l of
              None \<Rightarrow> CommitDirtySectors env c 0 (m_dwCacheSize c) COMMIT_ALL_SECTORS
            | Some l \<Rightarrow> fold (\<lambda>(s, n) c. CommitDirtySectors env c s n COMMIT_SPECIFIED_SECTORS) l c)
      else c)"

lemma FlushCache_core: "FlushCache env c l = (ERROR_SUCCESS, send_flush env (flush_core env c l))"
  by (simp add: FlushCache_def flush_core_def Let_def)

lemma dirty_size: "dirty_set c \<noteq> {} \<Longrightarrow> m_dwCacheSize c \<noteq> 0"
  by (auto simp: dirty_set_def)

lemma dirty_count: "cache_inv c \<Longrightarrow> m_dwDirtyCount c \<noteq> 0 \<longleftrightarrow> dirty_set c \<noteq> {}"
  by (simp add: cache_invD(7))

lemma commits_size: "commits c c' \<Longrightarrow> m_dwCacheSize c' = m_dwCacheSize c"
  by (simp add: commits_def same_static_def)

lemma flush_list_commits:
  assumes env: "env_ok env"
  shows "cache_inv c \<Longrightarrow> m_dwCacheSize c \<noteq> 0 \<Longrightarrow>
    commits c (fold (\<lambda>(s, n) c. CommitDirtySectors env c s n COMMIT_SPECIFIED_SECTORS) l c)"
proof (induction l arbitrary: c)
  case Nil
  then show ?case by (simp add: commits_refl)
next
  case (Cons e l)
  obtain s n where e: "e = (s, n)" by (cases e)
  let ?c = "CommitDirtySectors env c s n COMMIT_SPECIFIED_SECTORS"
  have c: "commits c ?c" by (rule CommitDirtySectors_commits [OF env Cons.prems])
  then have "cache_inv ?c" "m_dwCacheSize ?c \<noteq> 0"
    using Cons.prems by (auto simp: commits_def same_static_def)
  from commits_trans [OF c Cons.IH [OF this]] show ?case by (simp add: e)
qed

lemma flush_commits:
  assumes env: "env_ok env" and inv: "cache_inv c"
  shows "commits c (flush_core env c l)"
proof (cases "m_dwDirtyCount c \<noteq> 0 \<and> IsWriteBack c")
  case True
  then have "m_dwCacheSize c \<noteq> 0" using dirty_count [OF inv] dirty_size by blast
  with CommitDirtySectors_commits [OF env inv] flush_list_commits [OF env inv] commits_refl [OF inv] show ?thesis
    by (auto simp: flush_core_def split: option.splits)
next
  case False
  then show ?thesis using commits_refl [OF inv] by (auto simp: flush_core_def)
qed

lemma flush_all_clean:
  assumes env: "env_ok env" and inv: "cache_inv c"
  shows "dirty_set (flush_core env c None) = {}"
proof (cases "m_dwDirtyCount c \<noteq> 0 \<and> IsWriteBack c")
  case True
  then have size: "m_dwCacheSize c \<noteq> 0" using dirty_count [OF inv] dirty_size by blast
  let ?c = "CommitDirtySectors env c 0 (m_dwCacheSize c) COMMIT_ALL_SECTORS"
  have "i \<notin> dirty_set ?c" for i
  proof
    assume i: "i \<in> dirty_set ?c"
    then have "i < m_dwCacheSize c"
      using dirty_setD(1) [OF i] commits_size [OF CommitDirtySectors_commits [OF env inv size]] by simp
    then have "i mod m_dwCacheSize c \<in> dirty_set ?c" using i by simp
    from CommitDirtySectors_clean [OF env inv size _ _ _ this]
    show False using \<open>i < m_dwCacheSize c\<close> pool_ok_size [OF cache_invD(1) [OF inv]] by simp
  qed
  then show ?thesis using True by (auto simp: flush_core_def)
next
  case False
  have "dirty_set c = {}"
    using False dirty_count [OF inv] cache_invD(3) [OF inv] by (auto simp: dirty_ok_def)
  with False show ?thesis by (auto simp: flush_core_def)
qed

lemma no_dirty_view:
  assumes inv: "cache_inv c" and "dirty_set c = {}" and u: "u < INVALID_CACHE_ID"
  shows "dk_data c u = cache_view c u"
  using representsD(5) [OF inv [unfolded inv_represents] u] assms(2) by (simp add: dirty_sectors_def)

section \<open>The lazy writer\<close>

lemma next_dirty_spec:
  "i \<le> next_dirty c i \<and> (\<forall>j. i \<le> j \<and> j < next_dirty c i \<longrightarrow> \<not> IsDirty c j) \<and>
   (next_dirty c i < m_dwCacheSize c \<longrightarrow> IsDirty c (next_dirty c i)) \<and>
   (i \<le> m_dwCacheSize c \<longrightarrow> next_dirty c i \<le> m_dwCacheSize c)"
proof (induction c i rule: next_dirty.induct)
  case (1 c i)
  show ?case
  proof (cases "i < m_dwCacheSize c \<and> \<not> IsDirty c i")
    case True
    then have eq: "next_dirty c i = next_dirty c (i + 1)" by (subst next_dirty.simps) simp
    have "\<not> IsDirty c j" if "i \<le> j" "j < next_dirty c (i + 1)" for j
      using 1 [OF True] True that by (cases "j = i") auto
    with 1 [OF True] True show ?thesis unfolding eq by auto
  next
    case False
    then have "next_dirty c i = i" by (subst next_dirty.simps) (simp only: if_False)
    with False show ?thesis by auto
  qed
qed

lemma run_end_spec:
  assumes inv: "cache_inv c"
  shows "{si..<e} \<subseteq> dirty_set c \<Longrightarrow> consecutive c si (e - 1) \<Longrightarrow> si < e \<Longrightarrow> e \<le> m_dwCacheSize c \<Longrightarrow>
    p = m_pCacheLookup c ! (e - 1) \<Longrightarrow>
    e \<le> run_end c p e \<and> run_end c p e \<le> m_dwCacheSize c \<and> {si..<run_end c p e} \<subseteq> dirty_set c \<and>
    consecutive c si (run_end c p e - 1)"
proof (induction "m_dwCacheSize c - e" arbitrary: p e rule: less_induct)
  case (less e p)
  show ?case
  proof (cases "e < m_dwCacheSize c \<and> IsDirty c e \<and> m_pCacheLookup c ! e = add32 p 1")
    case False
    then have "run_end c p e = e" by (subst run_end.simps) (simp only: if_False)
    with less.prems show ?thesis by simp
  next
    case True
    then have eq: "run_end c p e = run_end c (add32 p 1) (e + 1)" by (subst run_end.simps) simp
    have prev: "e - 1 \<in> dirty_set c" using less.prems(1,3) by auto
    have Le: "m_pCacheLookup c ! e = m_pCacheLookup c ! (e - 1) + 1"
      using True dirty_next [OF inv prev] less.prems(5) by simp
    have "{si..<e + 1} \<subseteq> dirty_set c"
      using less.prems(1) True by (auto simp: dirty_set_def less_Suc_eq)
    moreover have "consecutive c si (e + 1 - 1)"
      unfolding consecutive_def
    proof (intro allI impI)
      fix k
      assume k: "si \<le> k \<and> k \<le> e + 1 - 1"
      have last: "m_pCacheLookup c ! (e - 1) = m_pCacheLookup c ! si + (e - 1 - si)"
        using less.prems(2) [unfolded consecutive_def, THEN spec, of "e - 1"] less.prems(3) by simp
      show "m_pCacheLookup c ! k = m_pCacheLookup c ! si + (k - si)"
      proof (cases "k = e")
        case True
        with last Le less.prems(3) show ?thesis by simp
      next
        case False
        then have "k \<le> e - 1" using k by linarith
        then show ?thesis using less.prems(2) [unfolded consecutive_def, THEN spec, of k] k by simp
      qed
    qed
    moreover have "add32 p 1 = m_pCacheLookup c ! (e + 1 - 1)" using True by simp
    moreover have "m_dwCacheSize c - (e + 1) < m_dwCacheSize c - e" using True by linarith
    ultimately have "e + 1 \<le> run_end c p e \<and> run_end c p e \<le> m_dwCacheSize c \<and>
        {si..<run_end c p e} \<subseteq> dirty_set c \<and> consecutive c si (run_end c p e - 1)"
      using less.hyps [of "e + 1" "add32 p 1"] True less.prems(3) unfolding eq by simp
    then show ?thesis by simp
  qed
qed

text \<open>
  One call of \<open>CommitNextDirtyRun\<close> from an index inside the cache commits something if there
  is a dirty block at or after the index, and otherwise starts again at 0.
\<close>

lemma CommitNextDirtyRun_spec:
  assumes env: "env_ok env" and inv: "cache_inv c" and st: "start \<le> m_dwCacheSize c"
  obtains nxt c' where "CommitNextDirtyRun env c start = Some (nxt, c')" and "commits c c'"
    and "nxt \<le> m_dwCacheSize c"
    and "(\<exists>i \<in> dirty_set c. start \<le> i) \<Longrightarrow> dirty_set c' \<subset> dirty_set c"
    and "\<not> (\<exists>i \<in> dirty_set c. start \<le> i) \<Longrightarrow> nxt = 0 \<and> c' = c"
proof -
  define si where "si = next_dirty c start"
  have nd: "start \<le> si" "\<forall>j. start \<le> j \<and> j < si \<longrightarrow> \<not> IsDirty c j"
    "si < m_dwCacheSize c \<longrightarrow> IsDirty c si" "si \<le> m_dwCacheSize c"
    using next_dirty_spec [of start c] st by (auto simp: si_def)
  show ?thesis
  proof (cases "si = m_dwCacheSize c")
    case True
    have none: "\<not> (\<exists>i \<in> dirty_set c. start \<le> i)" using nd True by (auto simp: dirty_set_def)
    have "CommitNextDirtyRun env c start = Some (0, c)"
      using True by (simp add: CommitNextDirtyRun_def Let_def si_def)
    then show ?thesis by (rule that) (use none commits_refl [OF inv] in auto)
  next
    case False
    then have si: "si < m_dwCacheSize c" "si \<in> dirty_set c" using nd by (auto simp: dirty_set_def)
    define e where "e = run_end c (m_pCacheLookup c ! si) (si + 1)"
    have "consecutive c si si" by (auto simp: consecutive_def dest: le_antisym)
    then have e: "si + 1 \<le> e" "e \<le> m_dwCacheSize c" "{si..<e} \<subseteq> dirty_set c" "consecutive c si (e - 1)"
      using run_end_spec [OF inv, of si "si + 1" "m_pCacheLookup c ! si"] si by (auto simp: e_def)
    have "{si..e - 1} \<subseteq> {si..<e}" using e(1) by (intro subsetI) (simp, linarith)
    with e(3) have sub: "{si..e - 1} \<subseteq> dirty_set c" by (rule subset_trans [rotated])
    have b: "si \<le> e - 1" "e - 1 < m_dwCacheSize c" using e(1,2) by auto
    define c' where "c' = snd (CommitCacheSectors env c si (e - 1))"
    have com: "commits c c'" "dirty_set c' = dirty_set c - {si..e - 1}"
      using CommitCacheSectors_commits [OF env inv b e(4) sub] by (simp_all add: c'_def)
    have "CommitNextDirtyRun env c start = Some (if e = m_dwCacheSize c then 0 else e, c')"
      using si(1) by (simp add: CommitNextDirtyRun_def Let_def si_def [symmetric] e_def c'_def)
    then show ?thesis
    proof (rule that [OF _ com(1)])
      show "(if e = m_dwCacheSize c then 0 else e) \<le> m_dwCacheSize c" using e(2) by simp
      show "dirty_set c' \<subset> dirty_set c" using com(2) si(2) b(1) by auto
      show "(if e = m_dwCacheSize c then 0 else e) = 0 \<and> c' = c" if "\<not> (\<exists>i \<in> dirty_set c. start \<le> i)"
        using that si(2) nd(1) by blast
    qed
  qed
qed

section \<open>Invalidation\<close>

lemma InvalidateSector_represents:
  assumes inv: "cache_inv c" and size: "m_dwCacheSize c \<noteq> 0" and t: "t < INVALID_CACHE_ID"
  shows "represents (InvalidateSector t c) ((cache_view c)(t := dk_data c t)) {}"
    "dk_data (InvalidateSector t c) = dk_data c" "m_dwCacheSize (InvalidateSector t c) = m_dwCacheSize c"
proof -
  let ?i = "t mod m_dwCacheSize c" and ?c = "InvalidateSector t c" and ?W = "(cache_view c)(t := dk_data c t)"
  note rep = inv [unfolded inv_represents] and d = cache_invD [OF inv]
  note r = representsD [OF rep]
  show fields: "dk_data ?c = dk_data c" "m_dwCacheSize ?c = m_dwCacheSize c"
    by (simp_all add: InvalidateSector_def Let_def)
  show "represents ?c ?W {}"
  proof (cases "m_pCacheLookup c ! ?i = t")
    case False
    then have "\<not> IsCached c t" by (simp add: IsCached_def)
    then have "?W = cache_view c" by (simp add: cache_view_def fun_eq_iff)
    moreover have "?c = c" using False by (simp add: InvalidateSector_def GetIndex_def)
    ultimately show ?thesis using rep by simp
  next
    case True
    have i: "?i < m_dwCacheSize c" "?i < length (m_pCacheLookup c)" "?i < length (m_pStatus c)"
      using size d(5,6) by (auto intro: mod_below)
    let ?c1 = "c\<lparr>m_pCacheLookup := (m_pCacheLookup c)[?i := INVALID_CACHE_ID]\<rparr>"
    have c: "?c = (if IsWriteBack c \<and> IsDirty c ?i then ClearDirtyStatus ?c1 ?i ?i else ?c1)"
      using True by (simp add: InvalidateSector_def GetIndex_def Let_def IsWriteBack_def IsDirty_def)
    have st: "same_static ?c1 ?c" unfolding c by simp
    have eqs: "m_pCacheLookup ?c = (m_pCacheLookup c)[?i := INVALID_CACHE_ID]" "m_dwEnd ?c = m_dwEnd c"
      "m_dwBlockSize ?c = m_dwBlockSize c" "length (m_pStatus ?c) = length (m_pStatus c)" "IsWriteBack ?c = IsWriteBack c"
      "m_apBufferPool ?c = m_apBufferPool c"
      using st by (auto simp: same_static_def IsWriteBack_def)
    have lk: "m_pCacheLookup ?c ! j = (if j = ?i then INVALID_CACHE_ID else m_pCacheLookup c ! j)" for j
      using i by (simp add: eqs nth_list_update)
    have blk: "blk ?c j = blk c j" for j
      by (simp add: ReadFromCacheBuffer_def eqs)
    have pool: "pool_ok ?c"
      using r(1) by (simp add: pool_ok_def fields eqs SectorsPerBuffer_def)
    have tab: "tables_ok ?c"
      using r(2) by (simp add: tables_ok_def fields lk eqs(2-4)) (simp add: eqs)
    have D: "dirty_set ?c = dirty_set c - {?i}"
    proof -
      have "IsDirty ?c j \<longleftrightarrow> IsDirty c j \<and> j \<noteq> ?i" if "j < m_dwCacheSize c" for j
      proof (cases "IsWriteBack c \<and> IsDirty c ?i")
        case True
        then show ?thesis using that clear_dirty [of j ?c1 ?i ?i] d(6) unfolding c by (auto simp: IsDirty_def)
      next
        case False
        then have "j = ?i \<Longrightarrow> \<not> IsDirty c j"
          using d(3) i by (auto simp: dirty_ok_def dirty_set_def)
        moreover have "?c = ?c1" unfolding c by (rule if_not_P [OF False])
        then have "IsDirty ?c j = IsDirty c j" by (simp add: IsDirty_def)
        ultimately show ?thesis by blast
      qed
      then show ?thesis by (auto simp: dirty_set_def fields)
    qed
    have dok: "dirty_ok ?c"
    proof (cases "IsWriteBack c \<and> IsDirty c ?i")
      case wd: True
      then have mem: "?i \<in> dirty_set c" using i by (simp add: dirty_set_def)
      have pos: "0 < card (dirty_set c)" using mem by (auto simp: card_gt_0_iff)
      have "m_dwDirtyCount ?c = sub32 (m_dwDirtyCount c) 1" using wd unfolding c by simp
      also have "\<dots> = card (dirty_set c) - 1" using pos d(7,8) by (subst sub32_eq) auto
      also have "\<dots> = card (dirty_set ?c)" using mem unfolding D by simp
      finally have cnt: "m_dwDirtyCount ?c = card (dirty_set ?c)" .
      have "m_hDirtySectorsEvent ?c \<longleftrightarrow> m_hDirtySectorsEvent c \<and> m_dwDirtyCount ?c \<noteq> 0"
        using wd unfolding c by (simp add: clear_event)
      then have "m_hDirtySectorsEvent ?c \<longleftrightarrow> dirty_set ?c \<noteq> {}"
        using d(3) mem unfolding cnt by (auto simp: dirty_ok_def)
      with cnt d(3) D lk show ?thesis by (auto simp: dirty_ok_def eqs(5))
    next
      case False
      have "?c = ?c1" unfolding c by (rule if_not_P [OF False])
      moreover have "?i \<notin> dirty_set c" using False d(3) by (auto simp: dirty_ok_def dirty_set_def)
      then have "dirty_set ?c = dirty_set c" using D by simp
      ultimately show ?thesis using d(3) lk \<open>?i \<notin> dirty_set c\<close> by (auto simp: dirty_ok_def IsWriteBack_def)
    qed
    have "blk ?c j = ?W (m_pCacheLookup ?c ! j)"
      if j: "j < m_dwCacheSize c" "m_pCacheLookup ?c ! j \<noteq> INVALID_CACHE_ID" for j
    proof -
      have ji: "j \<noteq> ?i" using j lk by auto
      then have "m_pCacheLookup c ! j \<noteq> t"
        using tables_okD(5) [OF r(2) j(1)] j(2) lk [of j] by auto
      with ji j r(4) [OF j(1)] show ?thesis by (simp add: lk blk)
    qed
    moreover have "dk_data ?c u = ?W u" if u: "u < INVALID_CACHE_ID" "u \<notin> dirty_sectors ?c" for u
    proof (cases "u = t")
      case True
      then show ?thesis by (simp add: fields)
    next
      case ut: False
      have "u \<notin> dirty_sectors c"
      proof
        assume "u \<in> dirty_sectors c"
        then have a: "u mod m_dwCacheSize c \<in> dirty_set c" "m_pCacheLookup c ! (u mod m_dwCacheSize c) = u"
          using in_dirty_sectors [OF r(2,3)] u(1) size by auto
        then have "u mod m_dwCacheSize c \<noteq> ?i" using True ut by auto
        then have "u \<in> dirty_sectors ?c"
          using a in_dirty_sectors [OF tab dok, of u] u(1) size D lk by (simp add: fields)
        with u(2) show False by simp
      qed
      with r(5) [OF u(1)] ut show ?thesis by (simp add: fields)
    qed
    ultimately show ?thesis using pool tab dok by (simp add: represents_def fields)
  qed
qed

lemma fold_invalidate:
  assumes "cache_inv c" and "m_dwCacheSize c \<noteq> 0" and "\<forall>t \<in> set ts. t < INVALID_CACHE_ID"
  shows "cache_inv (fold InvalidateSector ts c) \<and> dk_data (fold InvalidateSector ts c) = dk_data c \<and>
    m_dwCacheSize (fold InvalidateSector ts c) = m_dwCacheSize c \<and>
    (\<forall>u < INVALID_CACHE_ID. cache_view (fold InvalidateSector ts c) u =
       (if u \<in> set ts then dk_data c u else cache_view c u))"
  using assms
proof (induction ts arbitrary: c)
  case Nil
  then show ?case by simp
next
  case (Cons t ts)
  note I = InvalidateSector_represents [OF Cons.prems(1,2), of t]
  have t: "t < INVALID_CACHE_ID" using Cons.prems by simp
  have view: "cache_view (InvalidateSector t c) u = (if u = t then dk_data c t else cache_view c u)"
    if "u < INVALID_CACHE_ID" for u
    using represents_view [OF I(1) [OF t] that] by simp
  have "cache_inv (InvalidateSector t c)" by (rule represents_inv [OF I(1) [OF t]])
  from Cons.IH [OF this] Cons.prems I(2,3) [OF t] view show ?case by auto
qed

end
