(* ===== verification/Disk_Cache_Setup.thy ===== *)
theory Disk_Cache_Setup
  imports Disk_Cache_Flush
begin

text \<open>
  Creating, warming and resizing the sector cache: which caches satisfy the invariant with
  the disk as their contents.
\<close>

section \<open>Caches without dirty blocks\<close>

definition clean :: "ccache \<Rightarrow> bool" where
  "clean c \<longleftrightarrow> dirty_set c = {} \<and> m_dwDirtyCount c = 0 \<and> \<not> m_hDirtySectorsEvent c"

lemma clean_iff: "cache_inv c \<Longrightarrow> clean c \<longleftrightarrow> dirty_set c = {}"
  by (auto simp: clean_def cache_inv_def dirty_ok_def)

lemma clean_inv:
  assumes "pool_ok c" "tables_ok c" "clean c"
    and "\<And>i. i < m_dwCacheSize c \<Longrightarrow> m_pCacheLookup c ! i \<noteq> INVALID_CACHE_ID \<Longrightarrow>
      blk c i = dk_data c (m_pCacheLookup c ! i)"
  shows "cache_inv c" and "u < INVALID_CACHE_ID \<Longrightarrow> cache_view c u = dk_data c u"
proof -
  show inv: "cache_inv c"
    using assms by (auto simp: cache_inv_def clean_def dirty_ok_def coherent_def)
  show "cache_view c u = dk_data c u" if "u < INVALID_CACHE_ID"
    using no_dirty_view [OF inv _ that] assms(3) by (simp add: clean_def)
qed

lemma zero_status_clean:
  assumes "\<forall>i < m_dwCacheSize c. m_pStatus c ! i = 0" "m_dwDirtyCount c = 0" "\<not> m_hDirtySectorsEvent c"
  shows "clean c"
  using assms by (auto simp: clean_def dirty_set_def IsDirty_def)

section \<open>Warming\<close>

lemma div_exact: "x < s \<Longrightarrow> (q * s + x) div s = (q :: nat)"
  by (subst div_mult_self3) auto

lemma mod_exact: "x < s \<Longrightarrow> (q * s + x) mod s = (x :: nat)"
  by (subst mod_mult_self3) auto


definition warm_count :: "ccache \<Rightarrow> nat \<Rightarrow> nat" where
  "warm_count c b =
     (if b = TotalBuffers c - 1 \<and> m_dwCacheSize c mod SectorsPerBuffer c \<noteq> 0
      then m_dwCacheSize c mod SectorsPerBuffer c else SectorsPerBuffer c)"

lemma total_buffers:
  assumes "pool_ok c"
  shows "TotalBuffers c = (m_dwCacheSize c + SectorsPerBuffer c - 1) div SectorsPerBuffer c"
proof -
  note d = pool_okD [OF assms]
  let ?N = "m_dwCacheSize c" and ?bs = "m_dwBlockSize c" and ?spb = "SectorsPerBuffer c"
  have lt: "?N * ?bs + BUFFER_SIZE < 2 ^ 32" using assms by (simp add: pool_ok_def)
  then have m: "mul32 ?N ?bs = ?N * ?bs" by (simp add: mul32_def)
  have a: "add32 (?N * ?bs) BUFFER_SIZE = ?N * ?bs + BUFFER_SIZE" using lt by (simp add: add32_def)
  have "BUFFER_SIZE \<noteq> 0" by (simp add: BUFFER_SIZE_def)
  then have "TotalBuffers c = (?N * ?bs + BUFFER_SIZE - 1) div BUFFER_SIZE"
    using lt by (simp add: TotalBuffers_def m a sub32_eq)
  also have "?N * ?bs + BUFFER_SIZE = (?N + ?spb) * ?bs" by (simp only: d(4) add_mult_distrib)
  also have "((?N + ?spb) * ?bs - 1) div BUFFER_SIZE = ((?N + ?spb) * ?bs - 1) div ?bs div ?spb"
    by (simp only: d(4) [symmetric] div_mult2_eq mult.commute [of ?spb])
  also have "((?N + ?spb) * ?bs - 1) div ?bs = ?N + ?spb - 1"
  proof -
    have "(?N + ?spb) * ?bs - 1 = (?N + ?spb - 1) * ?bs + (?bs - 1)"
      using d(1,3) by (cases "?N + ?spb") auto
    moreover have "?bs - 1 < ?bs" using d(1) by simp
    ultimately show ?thesis by (simp only: div_exact)
  qed
  finally show ?thesis .
qed

lemma warm_index:
  assumes ok: "pool_ok c" and b: "b < TotalBuffers c" and k: "k < warm_count c b"
  shows "b * SectorsPerBuffer c + k < m_dwCacheSize c" "k < SectorsPerBuffer c"
proof -
  note d = pool_okD [OF ok]
  let ?N = "m_dwCacheSize c" and ?spb = "SectorsPerBuffer c"
  show k': "k < ?spb"
    using k mod_less_divisor [OF d(3), of ?N] by (auto simp: warm_count_def split: if_splits)
  define q r where "q = ?N div ?spb" and "r = ?N mod ?spb"
  have N: "?N = q * ?spb + r" "r < ?spb" using d(3) by (simp_all add: q_def r_def)
  have T: "TotalBuffers c = (if r = 0 then q else q + 1)"
  proof (cases "r = 0")
    case True
    then have eq: "(?N + ?spb - 1) = q * ?spb + (?spb - 1)" using N d(3) by simp
    have "?spb - 1 < ?spb" using d(3) by simp
    then show ?thesis using True by (simp only: total_buffers [OF ok] eq if_True div_exact simp_thms)
  next
    case False
    then have "(?N + ?spb - 1) = (q + 1) * ?spb + (r - 1)" using N(1) d(3) by simp
    then show ?thesis using False N(2) d(3) by (simp only: total_buffers [OF ok] div_mult_self3) simp
  qed
  show "b * ?spb + k < ?N"
  proof (cases "r \<noteq> 0 \<and> b = q")
    case True
    then have "k < r" using k T by (simp add: warm_count_def r_def)
    with True N show ?thesis by simp
  next
    case False
    then have "b < q" using b T by (auto split: if_splits)
    then have "(b + 1) * ?spb \<le> q * ?spb" by (intro mult_le_mono1) simp
    with k' N show ?thesis by simp
  qed
qed

lemma warm_covers:
  assumes ok: "pool_ok c" and i: "i < m_dwCacheSize c"
  shows "i div SectorsPerBuffer c < TotalBuffers c" "i mod SectorsPerBuffer c < warm_count c (i div SectorsPerBuffer c)"
proof -
  note d = pool_okD [OF ok]
  let ?N = "m_dwCacheSize c" and ?spb = "SectorsPerBuffer c"
  have "(i + ?spb) div ?spb \<le> (?N + ?spb - 1) div ?spb" using i by (intro div_le_mono) simp
  moreover have "(i + ?spb) div ?spb = i div ?spb + 1" using d(3) by (intro div_add_self2) simp
  ultimately show b: "i div ?spb < TotalBuffers c" unfolding total_buffers [OF ok] by linarith
  show "i mod ?spb < warm_count c (i div ?spb)"
  proof (cases "i div ?spb = TotalBuffers c - 1 \<and> ?N mod ?spb \<noteq> 0")
    case True
    have "TotalBuffers c \<ge> ?N div ?spb + 1 \<or> ?N mod ?spb = 0"
    proof (rule disjCI)
      assume nz: "?N mod ?spb \<noteq> 0"
      have "?N = ?N div ?spb * ?spb + ?N mod ?spb" by simp
      moreover have "(?N div ?spb + 1) * ?spb = ?N div ?spb * ?spb + ?spb" by simp
      ultimately have "(?N div ?spb + 1) * ?spb \<le> ?N + ?spb - 1" using nz by linarith
      then show "?N div ?spb + 1 \<le> TotalBuffers c"
        using d(3) unfolding total_buffers [OF ok] by (simp add: less_eq_div_iff_mult_less_eq)
    qed
    then have "?N div ?spb \<le> i div ?spb" using True b by linarith
    moreover have "i div ?spb \<le> ?N div ?spb" using i by (intro div_le_mono) simp
    ultimately have eq: "i div ?spb = ?N div ?spb" by simp
    have "i = i div ?spb * ?spb + i mod ?spb" "?N = ?N div ?spb * ?spb + ?N mod ?spb" by simp_all
    then have "i mod ?spb < ?N mod ?spb" using i unfolding eq by linarith
    with True show ?thesis by (simp add: warm_count_def)
  next
    case False
    then show ?thesis using d(3) by (auto simp: warm_count_def)
  qed
qed

text \<open>The state after the first \<open>m\<close> buffers have been warmed.\<close>

definition same_tables :: "ccache \<Rightarrow> ccache \<Rightarrow> bool" where
  "same_tables c c' \<longleftrightarrow>
     m_dwStart c' = m_dwStart c \<and> m_dwEnd c' = m_dwEnd c \<and> m_dwCacheSize c' = m_dwCacheSize c \<and>
     m_dwBlockSize c' = m_dwBlockSize c \<and> m_dwCreateFlags c' = m_dwCreateFlags c \<and>
     m_pStatus c' = m_pStatus c \<and> m_dwDirtyCount c' = m_dwDirtyCount c \<and>
     m_hDirtySectorsEvent c' = m_hDirtySectorsEvent c \<and> dk_data c' = dk_data c"

definition warmed :: "ccache \<Rightarrow> nat \<Rightarrow> ccache \<Rightarrow> bool" where
  "warmed c m c' \<longleftrightarrow>
     same_tables c c' \<and> m_pCacheLookup c' = m_pCacheLookup c \<and>
     map length (m_apBufferPool c') = map length (m_apBufferPool c) \<and>
     (\<forall>b < m. \<forall>k < warm_count c b. slice (m_dwBlockSize c) (m_apBufferPool c' ! b) k =
        dk_data c (b * SectorsPerBuffer c + k))"

lemma pool_buffer:
  assumes ok: "pool_ok c" and b: "b < TotalBuffers c"
  shows "b < length (m_apBufferPool c)"
    "warm_count c b * m_dwBlockSize c \<le> length (m_apBufferPool c ! b)"
proof -
  note d = pool_okD [OF ok]
  have pos: "0 < warm_count c b" using d(3) by (simp add: warm_count_def)
  then have k: "warm_count c b - 1 < warm_count c b" by simp
  note i = warm_index [OF ok b k]
  let ?i = "b * SectorsPerBuffer c + (warm_count c b - 1)"
  have "?i div SectorsPerBuffer c = b" "?i mod SectorsPerBuffer c = warm_count c b - 1"
    using i(2) by (simp_all add: div_exact mod_mult_self3)
  then show "b < length (m_apBufferPool c)"
    "warm_count c b * m_dwBlockSize c \<le> length (m_apBufferPool c ! b)"
    using ok i(1) pos unfolding pool_ok_def by (metis, metis Suc_diff_1 Suc_eq_plus1)
qed

lemma warm_buffer_step:
  assumes env: "env_ok env" and ok: "pool_ok c" and w: "warmed c b c'" and b: "b < TotalBuffers c"
    and dat: "\<And>t. length (dk_data c t) = m_dwBlockSize c"
  shows "warmed c (Suc b) (warm_buffer env c' b)"
proof -
  note p = pool_buffer [OF ok b]
  let ?n = "warm_count c b" and ?f = "\<lambda>k. dk_data c (b * SectorsPerBuffer c + k)"
  have eqs: "m_dwCacheSize c' = m_dwCacheSize c" "m_dwBlockSize c' = m_dwBlockSize c" "dk_data c' = dk_data c"
    and len: "map length (m_apBufferPool c') = map length (m_apBufferPool c)"
    and old: "\<And>a k. a < b \<Longrightarrow> k < warm_count c a \<Longrightarrow>
      slice (m_dwBlockSize c) (m_apBufferPool c' ! a) k = dk_data c (a * SectorsPerBuffer c + k)"
    using w by (auto simp: warmed_def same_tables_def)
  have lens: "length (m_apBufferPool c') = length (m_apBufferPool c)"
    "length (m_apBufferPool c' ! b) = length (m_apBufferPool c ! b)"
    using len p(1) map_eq_imp_length_eq [OF len] by (auto dest: arg_cong [where f = "\<lambda>l. l ! b"])
  let ?buf = "concat (map (dk_data c) [b * SectorsPerBuffer c..<b * SectorsPerBuffer c + ?n])"
  let ?p = "overwrite (m_apBufferPool c' ! b) 0 ?buf"
  have step: "warm_buffer env c' b =
      c'\<lparr>dk_count := dk_count c' + 1, m_apBufferPool := (m_apBufferPool c')[b := ?p]\<rparr>"
    by (simp add: warm_buffer_def Let_def disk_read_ok [OF env] warm_count_def eqs SectorsPerBuffer_def TotalBuffers_def)
  have lb: "length ?buf = ?n * m_dwBlockSize c"
    using dat by (simp add: length_concat comp_def sum_list_triv)
  then have lp: "length ?p = length (m_apBufferPool c ! b)"
    using p(2) lens(2) by (simp add: length_overwrite)
  have new: "slice (m_dwBlockSize c) ?p k = ?f k" if k: "k < ?n" for k
  proof -
    have "(k + 1) * m_dwBlockSize c \<le> length ?buf" unfolding lb using k by (intro mult_le_mono1) simp
    then have "slice (m_dwBlockSize c) ?p k = slice (m_dwBlockSize c) ?buf k"
      by (simp add: slice_def overwrite_def)
    also have "\<dots> = dk_data c (b * SectorsPerBuffer c + k)" using k dat by (intro slice_concat) auto
    finally show ?thesis .
  qed
  have "same_tables c (warm_buffer env c' b)" "m_pCacheLookup (warm_buffer env c' b) = m_pCacheLookup c"
    using w by (auto simp: step warmed_def same_tables_def)
  moreover have "map length (m_apBufferPool (warm_buffer env c' b)) = map length (m_apBufferPool c)"
    using lp lens p(1) len by (simp add: step map_update) (metis list_update_id nth_map)
  moreover have "slice (m_dwBlockSize c) (m_apBufferPool (warm_buffer env c' b) ! a) k =
      dk_data c (a * SectorsPerBuffer c + k)" if "a < Suc b" "k < warm_count c a" for a k
  proof (cases "a = b")
    case True
    then show ?thesis using new that p(1) lens(1) by (simp add: step)
  next
    case False
    then show ?thesis using old that by (simp add: step)
  qed
  ultimately show ?thesis by (simp add: warmed_def)
qed

lemma warm_fold:
  assumes env: "env_ok env" and ok: "pool_ok c" and dat: "\<And>t. length (dk_data c t) = m_dwBlockSize c"
  shows "m \<le> TotalBuffers c \<Longrightarrow> warmed c m (fold (\<lambda>b c. warm_buffer env c b) [0..<m] c)"
proof (induction m)
  case 0
  then show ?case by (simp add: warmed_def same_tables_def)
next
  case (Suc m)
  then show ?case using warm_buffer_step [OF env ok _ _ dat] by simp
qed

lemma WarmCache_spec:
  assumes env: "env_ok env" and ok: "pool_ok c" and dat: "\<And>t. length (dk_data c t) = m_dwBlockSize c"
    and len: "m_dwCacheSize c \<le> length (m_pCacheLookup c)"
  shows "same_tables c (WarmCache env c)" "pool_ok (WarmCache env c)"
    "\<And>i. i < m_dwCacheSize c \<Longrightarrow> m_pCacheLookup (WarmCache env c) ! i = i"
    "length (m_pCacheLookup (WarmCache env c)) = length (m_pCacheLookup c)"
    "\<And>i. i < m_dwCacheSize c \<Longrightarrow> blk (WarmCache env c) i = dk_data c i"
proof -
  define c' where "c' = fold (\<lambda>b c. warm_buffer env c b) [0..<TotalBuffers c] c"
  have w: "warmed c (TotalBuffers c) c'" unfolding c'_def by (rule warm_fold [OF env ok dat]) simp
  have W: "WarmCache env c = c'\<lparr>m_pCacheLookup :=
      [0..<m_dwCacheSize c'] @ drop (m_dwCacheSize c') (m_pCacheLookup c')\<rparr>"
    by (simp add: WarmCache_def Let_def c'_def)
  have eqs: "m_dwCacheSize c' = m_dwCacheSize c" "m_dwBlockSize c' = m_dwBlockSize c"
    "m_pCacheLookup c' = m_pCacheLookup c"
    and lenp: "map length (m_apBufferPool c') = map length (m_apBufferPool c)"
    using w by (auto simp: warmed_def same_tables_def)
  show "same_tables c (WarmCache env c)" using w by (auto simp: W warmed_def same_tables_def)
  show "m_pCacheLookup (WarmCache env c) ! i = i" if "i < m_dwCacheSize c" for i
    using that by (simp add: W eqs nth_append)
  show "length (m_pCacheLookup (WarmCache env c)) = length (m_pCacheLookup c)"
    using len by (simp add: W eqs)
  have l: "length (m_apBufferPool c') = length (m_apBufferPool c)" by (rule map_eq_imp_length_eq [OF lenp])
  have li: "length (m_apBufferPool c' ! b) = length (m_apBufferPool c ! b)" if "b < length (m_apBufferPool c)" for b
    using arg_cong [OF lenp, of "\<lambda>l. l ! b"] that l by simp
  show pool: "pool_ok (WarmCache env c)"
    using ok li by (auto simp: pool_ok_def W eqs l SectorsPerBuffer_def)
  show "blk (WarmCache env c) i = dk_data c i" if i: "i < m_dwCacheSize c" for i
  proof -
    have "blk (WarmCache env c) i = slice (m_dwBlockSize c) (m_apBufferPool c' ! (i div SectorsPerBuffer c))
        (i mod SectorsPerBuffer c)"
      using i blk_slice [OF pool, of i] by (simp add: W eqs SectorsPerBuffer_def)
    also have "\<dots> = dk_data c (i div SectorsPerBuffer c * SectorsPerBuffer c + i mod SectorsPerBuffer c)"
      using w warm_covers [OF ok i] unfolding warmed_def by blast
    finally show ?thesis by simp
  qed
qed

text \<open>Warming a cache without dirty blocks.\<close>

lemma WarmCache_inv:
  assumes env: "env_ok env" and ok: "pool_ok c" and tab: "tables_ok c" and cl: "clean c"
  shows "cache_inv (WarmCache env c)" "clean (WarmCache env c)"
    "u < INVALID_CACHE_ID \<Longrightarrow> cache_view (WarmCache env c) u = dk_data c u"
proof -
  have dat: "\<And>t. length (dk_data c t) = m_dwBlockSize c" and len: "m_dwCacheSize c \<le> length (m_pCacheLookup c)"
    using tab by (auto simp: tables_ok_def)
  note W = WarmCache_spec [OF env ok dat len]
  note S = W(1) [unfolded same_tables_def]
  have tab': "tables_ok (WarmCache env c)"
    using tab S W(3,4) pool_ok_size [OF ok] by (auto simp: tables_ok_def INVALID_CACHE_ID_def)
  show cl': "clean (WarmCache env c)"
    using cl S by (simp add: clean_def dirty_set_def IsDirty_def)
  note I = clean_inv [OF W(2) tab' cl']
  show "cache_inv (WarmCache env c)" by (rule I(1)) (simp add: S W(3,5))
  show "cache_view (WarmCache env c) u = dk_data c u" if "u < INVALID_CACHE_ID"
    using I(2) [OF _ that] by (simp add: S W(3,5))
qed

section \<open>Creating\<close>

definition geom_ok :: "nat \<Rightarrow> nat \<Rightarrow> bool" where
  "geom_ok N bs \<longleftrightarrow> 0 < bs \<and> bs dvd BUFFER_SIZE \<and> N * bs + BUFFER_SIZE < 2 ^ 32"

text \<open>The arithmetic of the buffers does not depend on their contents.\<close>

lemma geom_pool:
  assumes "geom_ok (m_dwCacheSize c) (m_dwBlockSize c)"
  shows "pool_ok (c\<lparr>m_apBufferPool := replicate (m_dwCacheSize c) (replicate BUFFER_SIZE 0)\<rparr>)"
    (is "pool_ok ?c")
proof -
  have bs: "0 < m_dwBlockSize c" "m_dwBlockSize c dvd BUFFER_SIZE" using assms by (auto simp: geom_ok_def)
  then have full: "SectorsPerBuffer c * m_dwBlockSize c = BUFFER_SIZE" by (simp add: SectorsPerBuffer_def)
  have pos: "0 < SectorsPerBuffer c" using full by (metis BUFFER_SIZE_def gr0I mult_0 mult_eq_0_iff zero_neq_numeral)
  have "(i mod SectorsPerBuffer c + 1) * m_dwBlockSize c \<le> BUFFER_SIZE" for i
    unfolding full [symmetric] using mod_less_divisor [OF pos, of i] by (intro mult_le_mono1) simp
  moreover have "i div SectorsPerBuffer c < m_dwCacheSize c" if "i < m_dwCacheSize c" for i
    using div_le_dividend [of i "SectorsPerBuffer c"] that by (rule le_less_trans)
  ultimately show ?thesis
    using assms by (simp add: pool_ok_def geom_ok_def SectorsPerBuffer_def)
qed

lemma geomD:
  assumes "geom_ok (m_dwCacheSize c) (m_dwBlockSize c)"
  shows "0 < m_dwBlockSize c" "0 < SectorsPerBuffer c" "SectorsPerBuffer c * m_dwBlockSize c = BUFFER_SIZE"
    "(i mod SectorsPerBuffer c + 1) * m_dwBlockSize c \<le> BUFFER_SIZE"
    "TotalBuffers c = (m_dwCacheSize c + SectorsPerBuffer c - 1) div SectorsPerBuffer c"
    "i < m_dwCacheSize c \<Longrightarrow> i div SectorsPerBuffer c < TotalBuffers c"
    "i < m_dwCacheSize c \<Longrightarrow> i mod SectorsPerBuffer c < warm_count c (i div SectorsPerBuffer c)"
    "mul32 (m_dwCacheSize c) (m_dwBlockSize c) mod BUFFER_SIZE = (m_dwCacheSize c mod SectorsPerBuffer c) * m_dwBlockSize c"
    "mul32 (m_dwCacheSize c) (m_dwBlockSize c) div BUFFER_SIZE = m_dwCacheSize c div SectorsPerBuffer c"
proof -
  note P = geom_pool [OF assms]
  note d = pool_okD [OF P]
  let ?c = "c\<lparr>m_apBufferPool := replicate (m_dwCacheSize c) (replicate BUFFER_SIZE 0)\<rparr>"
  have eq: "TotalBuffers ?c = TotalBuffers c" "SectorsPerBuffer ?c = SectorsPerBuffer c"
    by (simp_all add: TotalBuffers_def SectorsPerBuffer_def)
  have eq2: "warm_count ?c b = warm_count c b" for b unfolding warm_count_def eq by simp
  show bs: "0 < m_dwBlockSize c" using d by simp
  show pos: "0 < SectorsPerBuffer c" using d by (simp add: SectorsPerBuffer_def)
  show full: "SectorsPerBuffer c * m_dwBlockSize c = BUFFER_SIZE" using d by (simp add: SectorsPerBuffer_def)
  show "(i mod SectorsPerBuffer c + 1) * m_dwBlockSize c \<le> BUFFER_SIZE"
    unfolding full [symmetric] using mod_less_divisor [OF pos, of i] by (intro mult_le_mono1) simp
  show "TotalBuffers c = (m_dwCacheSize c + SectorsPerBuffer c - 1) div SectorsPerBuffer c"
    using total_buffers [OF P] unfolding eq by simp
  show "i < m_dwCacheSize c \<Longrightarrow> i div SectorsPerBuffer c < TotalBuffers c"
    "i < m_dwCacheSize c \<Longrightarrow> i mod SectorsPerBuffer c < warm_count c (i div SectorsPerBuffer c)"
    using warm_covers [OF P, of i] unfolding eq eq2 by simp_all
  have m: "mul32 (m_dwCacheSize c) (m_dwBlockSize c) = m_dwCacheSize c * m_dwBlockSize c"
    using assms by (simp add: mul32_def geom_ok_def)
  show "mul32 (m_dwCacheSize c) (m_dwBlockSize c) mod BUFFER_SIZE = (m_dwCacheSize c mod SectorsPerBuffer c) * m_dwBlockSize c"
    "mul32 (m_dwCacheSize c) (m_dwBlockSize c) div BUFFER_SIZE = m_dwCacheSize c div SectorsPerBuffer c"
    using bs unfolding m full [symmetric] by simp_all
qed

lemma takeWhile_upt: "takeWhile P [a..<b] = [a..<a + length (takeWhile P [a..<b])]"
proof -
  have "takeWhile P [a..<b] = take (length (takeWhile P [a..<b])) [a..<b]" by (rule takeWhile_eq_take)
  also have "\<dots> = [a..<a + length (takeWhile P [a..<b])]"
  proof (cases "a \<le> b")
    case True
    then have "a + length (takeWhile P [a..<b]) \<le> b"
      using length_takeWhile_le [of P "[a..<b]"] by simp
    then show ?thesis by (rule take_upt)
  qed simp
  finally show ?thesis .
qed

text \<open>The pool of a cache of size \<open>N\<close> after the first \<open>g\<close> buffers could be allocated.\<close>

definition fresh_size :: "ccache \<Rightarrow> nat \<Rightarrow> nat" where
  "fresh_size c g = (if g < TotalBuffers c then mul32 g BUFFER_SIZE div m_dwBlockSize c else m_dwCacheSize c)"

lemma fresh_size:
  assumes geom: "geom_ok (m_dwCacheSize c) (m_dwBlockSize c)" and g: "g < TotalBuffers c"
  shows "fresh_size c g = g * SectorsPerBuffer c" "g * SectorsPerBuffer c \<le> m_dwCacheSize c"
proof -
  note G = geomD [OF geom]
  let ?N = "m_dwCacheSize c" and ?spb = "SectorsPerBuffer c"
  have "(g + 1) * ?spb \<le> ?N + ?spb - 1"
    using g G(2) unfolding G(5) by (simp add: less_eq_div_iff_mult_less_eq Suc_le_eq [symmetric])
  moreover have "(g + 1) * ?spb = g * ?spb + ?spb" by simp
  ultimately show le: "g * ?spb \<le> ?N" using G(2) by linarith
  have "g * BUFFER_SIZE = g * ?spb * m_dwBlockSize c" using G(3) by simp
  also have "\<dots> \<le> ?N * m_dwBlockSize c" using le by (rule mult_le_mono1)
  finally have "mul32 g BUFFER_SIZE = g * ?spb * m_dwBlockSize c"
    using geom G(3) by (simp add: mul32_def geom_ok_def)
  then show "fresh_size c g = g * ?spb" using g G(1) by (simp add: fresh_size_def)
qed

lemma fresh_pool:
  assumes geom: "geom_ok (m_dwCacheSize c) (m_dwBlockSize c)" and g: "g \<le> TotalBuffers c"
    and part: "part = mul32 (m_dwCacheSize c) (m_dwBlockSize c) mod BUFFER_SIZE"
  shows "pool_ok (c\<lparr>m_apBufferPool := map (\<lambda>b. replicate (if part \<noteq> 0 \<and> b = TotalBuffers c - 1 then part
      else BUFFER_SIZE) 0) [0..<g], m_dwCacheSize := fresh_size c g\<rparr>)" (is "pool_ok ?c")
    "fresh_size c g \<le> m_dwCacheSize c"
proof -
  note G = geomD [OF geom]
  show le: "fresh_size c g \<le> m_dwCacheSize c"
    using fresh_size [OF geom, of g] by (cases "g < TotalBuffers c") (auto simp: fresh_size_def)
  have b: "i div SectorsPerBuffer c < g" if i: "i < fresh_size c g" for i
  proof (cases "g < TotalBuffers c")
    case True
    then show ?thesis using i fresh_size(1) [OF geom True] G(2) by (simp add: less_mult_imp_div_less)
  next
    case False
    then show ?thesis using i g G(6) by (simp add: fresh_size_def)
  qed
  have l: "(i mod SectorsPerBuffer c + 1) * m_dwBlockSize c \<le>
      (if part \<noteq> 0 \<and> i div SectorsPerBuffer c = TotalBuffers c - 1 then part else BUFFER_SIZE)"
    if i: "i < fresh_size c g" for i
  proof (cases "part \<noteq> 0 \<and> i div SectorsPerBuffer c = TotalBuffers c - 1")
    case True
    then have "g = TotalBuffers c" using b [OF i] g by linarith
    then have "i < m_dwCacheSize c" using i by (simp add: fresh_size_def)
    from G(7) [OF this] have "i mod SectorsPerBuffer c < m_dwCacheSize c mod SectorsPerBuffer c"
      using True by (auto simp: warm_count_def part G(8))
    then have "(i mod SectorsPerBuffer c + 1) * m_dwBlockSize c \<le> part"
      unfolding part G(8) by (intro mult_le_mono1) simp
    with True show ?thesis by simp
  next
    case False
    then show ?thesis using G(4) by auto
  qed
  have "fresh_size c g * m_dwBlockSize c \<le> m_dwCacheSize c * m_dwBlockSize c" using le by (rule mult_le_mono1)
  moreover have "m_dwCacheSize c * m_dwBlockSize c + BUFFER_SIZE < 2 ^ 32" using geom by (simp add: geom_ok_def)
  ultimately have "fresh_size c g * m_dwBlockSize c + BUFFER_SIZE < 2 ^ 32" by linarith
  then show "pool_ok ?c"
    using geom b l by (simp add: pool_ok_def geom_ok_def SectorsPerBuffer_def)
qed

lemma pool_ok_fields:
  assumes "pool_ok c" "m_dwBlockSize c' = m_dwBlockSize c" "m_dwCacheSize c' = m_dwCacheSize c"
    "m_apBufferPool c' = m_apBufferPool c"
  shows "pool_ok c'"
  using assms by (simp add: pool_ok_def SectorsPerBuffer_def)

lemma InitCache_spec:
  assumes geom: "geom_ok N bs" and last: "hi < INVALID_CACHE_ID" and disk: "\<forall>t. length (disk t) = bs"
    and mem: "env_local_alloc env 0" "env_local_alloc env 1" "env_local_alloc env 2"
    and warm: "CACHE_FLAG_WARM flags \<Longrightarrow> env_ok env"
  obtains c where "InitCache env (CCache_new disk lo hi N bs flags) = (True, c)"
    and "cache_inv c" "clean c" and "\<And>u. u < INVALID_CACHE_ID \<Longrightarrow> cache_view c u = disk u"
    and "m_dwStart c = lo" "m_dwEnd c = hi" "m_dwBlockSize c = bs" "m_dwCreateFlags c = flags"
    and "m_dwCacheSize c \<le> N" and "(\<forall>i. env_virtual_alloc env i) \<Longrightarrow> m_dwCacheSize c = N"
proof -
  define c0 where "c0 = CCache_new disk lo hi N bs flags"
  define T where "T = TotalBuffers c0"
  define part where "part = mul32 N bs mod BUFFER_SIZE"
  define g where "g = length (takeWhile (env_virtual_alloc env) [0..<T])"
  have fields: "m_dwCacheSize c0 = N" "m_dwBlockSize c0 = bs" "dk_data c0 = disk" "m_dwEnd c0 = hi"
    "m_dwStart c0 = lo" "m_dwCreateFlags c0 = flags" "m_dwDirtyCount c0 = 0" "\<not> m_hDirtySectorsEvent c0"
    by (simp_all add: c0_def CCache_new_def)
  have geom0: "geom_ok (m_dwCacheSize c0) (m_dwBlockSize c0)" using geom by (simp add: fields)
  have g: "g \<le> T" unfolding g_def using length_takeWhile_le [of "env_virtual_alloc env" "[0..<T]"] by simp
  have got: "takeWhile (env_virtual_alloc env) [0..<T] = [0..<g]"
    using takeWhile_upt [of _ 0 T] by (simp add: g_def)
  define c1 where "c1 = c0\<lparr>m_pCacheLookup := replicate N INVALID_CACHE_ID, m_pStatus := replicate N 0,
     m_apBufferPool := map (\<lambda>b. replicate (if part \<noteq> 0 \<and> b = T - 1 then part else BUFFER_SIZE) 0) [0..<g],
     m_dwCacheSize := fresh_size c0 g\<rparr>"
  have len: "length (map f [0..<g]) = g" for f :: "nat \<Rightarrow> nat" by simp
  have same: "c\<lparr>m_dwCacheSize := m_dwCacheSize c\<rparr> = c" for c :: ccache by simp
  have init: "InitCache env (CCache_new disk lo hi N bs flags) =
      (True, if CACHE_FLAG_WARM flags then WarmCache env c1 else c1)"
  proof (cases "g < T")
    case True
    then show ?thesis
      using mem by (simp add: InitCache_def Let_def c0_def [symmetric] T_def [symmetric] got fields
          part_def [symmetric] c1_def fresh_size_def)
  next
    case False
    then have "c1 = c0\<lparr>m_pCacheLookup := replicate N INVALID_CACHE_ID, m_pStatus := replicate N 0,
     m_apBufferPool := map (\<lambda>b. replicate (if part \<noteq> 0 \<and> b = T - 1 then part else BUFFER_SIZE) 0) [0..<g]\<rparr>"
      using fields(1) by (simp add: c1_def fresh_size_def T_def [symmetric])
    then show ?thesis
      using mem False by (simp add: InitCache_def Let_def c0_def [symmetric] T_def [symmetric] got fields
          part_def [symmetric])
  qed
  note fp = fresh_pool [OF geom0 g [unfolded T_def], of part, unfolded fields, OF part_def]
  have pool: "pool_ok c1"
    by (rule pool_ok_fields [OF fp(1)]) (simp_all add: c1_def T_def)
  have tab: "tables_ok c1"
    using fp(2) last disk by (simp add: tables_ok_def c1_def fields)
  have cl: "clean c1"
    by (rule zero_status_clean) (use fp(2) in \<open>simp_all add: c1_def fields\<close>)
  have c1: "m_dwStart c1 = lo" "m_dwEnd c1 = hi" "m_dwBlockSize c1 = bs" "m_dwCreateFlags c1 = flags"
    "m_dwCacheSize c1 \<le> N" "dk_data c1 = disk"
    using fp(2) by (simp_all add: c1_def fields)
  have all: "m_dwCacheSize c1 = N" if "\<forall>i. env_virtual_alloc env i"
  proof -
    have "takeWhile (env_virtual_alloc env) [0..<T] = [0..<T]" using that by simp
    then have "g = length [0..<T]" unfolding g_def by (rule arg_cong)
    then have "g = T" by simp
    then show ?thesis by (simp add: c1_def fresh_size_def T_def fields)
  qed
  show ?thesis
  proof (cases "CACHE_FLAG_WARM flags")
    case True
    note W = WarmCache_inv [OF warm [OF True] pool tab cl]
    have "same_tables c1 (WarmCache env c1)"
      using tab by (intro WarmCache_spec(1) [OF warm [OF True] pool]) (auto simp: tables_ok_def)
    then show ?thesis using that [OF init] W c1 all True by (simp add: same_tables_def)
  next
    case False
    have no: "m_pCacheLookup c1 ! i = INVALID_CACHE_ID" if "i < m_dwCacheSize c1" for i
      using that c1(5) by (simp add: c1_def)
    note C = clean_inv [OF pool tab cl]
    have "cache_inv c1" "\<And>u. u < INVALID_CACHE_ID \<Longrightarrow> cache_view c1 u = disk u"
      using C no by (simp_all add: c1(6))
    then show ?thesis using that [OF init] cl c1 all False by simp
  qed
qed

section \<open>Resizing\<close>

lemma resize_pool:
  assumes inv: "cache_inv c" and geom: "geom_ok M (m_dwBlockSize c)"
    and c': "c' = resize_buffers env c M (mul32 (m_dwCacheSize c) (m_dwBlockSize c) div BUFFER_SIZE)
      (mul32 M (m_dwBlockSize c) div BUFFER_SIZE)"
  shows "pool_ok c'" "m_dwCacheSize c' \<le> M" "(\<forall>i. env_virtual_alloc env i) \<Longrightarrow> m_dwCacheSize c' = M"
    "c' = c\<lparr>m_apBufferPool := m_apBufferPool c', m_dwCacheSize := m_dwCacheSize c'\<rparr>"
proof -
  note P = cache_invD(1) [OF inv]
  note d = pool_okD [OF P]
  let ?bs = "m_dwBlockSize c" and ?spb = "SectorsPerBuffer c"
  define cn where "cn = c\<lparr>m_dwCacheSize := M\<rparr>"
  have cn: "m_dwCacheSize cn = M" "m_dwBlockSize cn = ?bs" "SectorsPerBuffer cn = ?spb"
    by (simp_all add: cn_def SectorsPerBuffer_def)
  have "geom_ok (m_dwCacheSize cn) (m_dwBlockSize cn)" using geom by (simp add: cn)
  note Gn = geomD [OF this, unfolded cn]
  have "geom_ok (m_dwCacheSize c) (m_dwBlockSize c)" using P by (simp add: pool_ok_def geom_ok_def)
  note Go = geomD [OF this]
  define old new where "old = m_dwCacheSize c div ?spb" and "new = M div ?spb"
  define g where "g = length (takeWhile (env_virtual_alloc env) [old..<new])"
  have old: "old = mul32 (m_dwCacheSize c) ?bs div BUFFER_SIZE" by (simp add: old_def Go(9))
  have new: "new = mul32 M ?bs div BUFFER_SIZE" by (simp add: new_def Gn(9))
  define kept where "kept = take (min old new) (m_apBufferPool c) @ replicate g (replicate BUFFER_SIZE (0 :: BYTE))"
  have whole: "b < length (m_apBufferPool c)" "BUFFER_SIZE \<le> length (m_apBufferPool c ! b)" if "b < old" for b
  proof -
    have "(b + 1) * ?spb \<le> m_dwCacheSize c"
      using that d(3) by (simp add: old_def less_eq_div_iff_mult_less_eq Suc_le_eq [symmetric])
    then have i: "b * ?spb + (?spb - 1) < m_dwCacheSize c" using d(3) by simp
    have "?spb - 1 < ?spb" using d(3) by simp
    then have "(b * ?spb + (?spb - 1)) div ?spb = b" "(b * ?spb + (?spb - 1)) mod ?spb = ?spb - 1"
      by (simp_all only: div_exact mod_exact)
    moreover have "(?spb - 1 + 1) * ?bs = BUFFER_SIZE" using d(3,4) by simp
    ultimately show "b < length (m_apBufferPool c)" "BUFFER_SIZE \<le> length (m_apBufferPool c ! b)"
      using P i unfolding pool_ok_def by metis+
  qed
  have lp: "min old new \<le> length (m_apBufferPool c)"
    using whole(1) [of "old - 1"] by (cases "old = 0") auto
  then have len: "length kept = min old new + g" by (simp add: kept_def min_absorb2)
  have kept: "b < length kept" "BUFFER_SIZE \<le> length (kept ! b)" if "b < min old new + g" for b
  proof -
    show "b < length kept" using that len by simp
    show "BUFFER_SIZE \<le> length (kept ! b)"
    proof (cases "b < min old new")
      case True
      then show ?thesis using lp whole(2) [of b] by (simp add: kept_def nth_append min_absorb2)
    next
      case False
      then have "b - min old new < g" using that by linarith
      with False show ?thesis using lp by (simp add: kept_def nth_append min_absorb2 del: min_less_iff_conj)
    qed
  qed
  have bound: "S * ?bs + BUFFER_SIZE < 2 ^ 32" if "S \<le> M" for S
    using mult_le_mono1 [OF that, of ?bs] geom unfolding geom_ok_def by linarith
  have whole_ok: "pool_ok (c\<lparr>m_apBufferPool := kept, m_dwCacheSize := S\<rparr>)"
    if S: "S \<le> M" "S \<le> (min old new + g) * ?spb" for S
  proof -
    have "i div ?spb < length kept \<and> (i mod ?spb + 1) * ?bs \<le> length (kept ! (i div ?spb))" if "i < S" for i
    proof -
      have "i div ?spb < min old new + g" using that S(2) by (intro less_mult_imp_div_less) linarith
      note kept [OF this]
      with Gn(4) [of i] show ?thesis by linarith
    qed
    then show ?thesis
      using d(1,2) bound [OF S(1)] by (simp add: pool_ok_def SectorsPerBuffer_def)
  qed
  have upto: "mul32 k BUFFER_SIZE div ?bs = k * ?spb" "k * ?spb \<le> M" if "k \<le> new" for k
  proof -
    have "k * ?spb \<le> new * ?spb" using that by (rule mult_le_mono1)
    also have "new * ?spb \<le> M" unfolding new_def by (rule div_times_less_eq_dividend)
    finally show le: "k * ?spb \<le> M" .
    have eq: "k * BUFFER_SIZE = k * ?spb * ?bs" using d(4) by simp
    have "k * ?spb * ?bs < 2 ^ 32" using bound [OF le] by linarith
    then have "mul32 k BUFFER_SIZE = k * ?spb * ?bs" unfolding mul32_def eq by (rule mod_less)
    then show "mul32 k BUFFER_SIZE div ?bs = k * ?spb" using d(1) by simp
  qed
  have g: "min old new + g \<le> new" "old + g < new \<Longrightarrow> min old new = old" "\<not> old + g < new \<Longrightarrow> min old new + g = new"
    using length_takeWhile_le [of "env_virtual_alloc env" "[old..<new]"] by (auto simp: g_def)
  have R: "c' = (let c1 = c\<lparr>m_apBufferPool := kept, m_dwCacheSize := M\<rparr>;
       c2 = (if old + g < new then c1\<lparr>m_dwCacheSize := mul32 (old + g) BUFFER_SIZE div m_dwBlockSize c1\<rparr> else c1);
       part = mul32 (m_dwCacheSize c2) (m_dwBlockSize c2) mod BUFFER_SIZE
      in if part \<noteq> 0 then (if env_virtual_alloc env new
           then c2\<lparr>m_apBufferPool := m_apBufferPool c2 @ [replicate part 0]\<rparr>
           else c2\<lparr>m_dwCacheSize := mul32 new BUFFER_SIZE div m_dwBlockSize c2\<rparr>) else c2)"
    unfolding c' resize_buffers_def old [symmetric] new [symmetric] kept_def g_def Let_def
    by (simp only: map_replicate_const)
  consider (short) "old + g < new"
    | (exact) "\<not> old + g < new" "M mod ?spb = 0"
    | (more) "\<not> old + g < new" "M mod ?spb \<noteq> 0" "env_virtual_alloc env new"
    | (fewer) "\<not> old + g < new" "M mod ?spb \<noteq> 0" "\<not> env_virtual_alloc env new"
    by blast
  then have "pool_ok c' \<and> m_dwCacheSize c' \<le> M \<and> ((\<forall>i. env_virtual_alloc env i) \<longrightarrow> m_dwCacheSize c' = M) \<and>
    c' = c\<lparr>m_apBufferPool := m_apBufferPool c', m_dwCacheSize := m_dwCacheSize c'\<rparr>"
  proof cases
    case short
    note b = upto [of "old + g"] 
    have "(old + g) * ?spb * ?bs = (old + g) * BUFFER_SIZE" using d(4) by simp
    moreover have "(old + g) * ?spb * ?bs < 2 ^ 32" using bound [OF b(2)] short by linarith
    ultimately have "mul32 ((old + g) * ?spb) ?bs = (old + g) * BUFFER_SIZE"
      unfolding mul32_def by (simp only: mod_less)
    then have "mul32 ((old + g) * ?spb) ?bs mod BUFFER_SIZE = 0" by simp
    then have "c' = c\<lparr>m_apBufferPool := kept, m_dwCacheSize := (old + g) * ?spb\<rparr>"
      using short b(1) unfolding R Let_def by simp
    moreover have "\<not> (\<forall>i. env_virtual_alloc env i)"
    proof
      assume "\<forall>i. env_virtual_alloc env i"
      then have "takeWhile (env_virtual_alloc env) [old..<new] = [old..<new]" by simp
      then have "g = length [old..<new]" unfolding g_def by (rule arg_cong)
      then show False using short by simp
    qed
    ultimately show ?thesis using whole_ok [OF b(2)] b(2) short g(2) by auto
  next
    case exact
    then have "c' = c\<lparr>m_apBufferPool := kept, m_dwCacheSize := M\<rparr>"
      unfolding R Let_def by (simp add: Gn(8))
    moreover have "M = new * ?spb" using exact(2) div_mult_mod_eq [of M ?spb] by (simp add: new_def)
    ultimately show ?thesis using whole_ok [of M] g(3) [OF exact(1)] by simp
  next
    case more
    let ?p = "kept @ [replicate (M mod ?spb * ?bs) 0]"
    have c'_eq: "c' = c\<lparr>m_apBufferPool := ?p, m_dwCacheSize := M\<rparr>"
      using more d(1) unfolding R Let_def by (simp add: Gn(8))
    have lk: "length kept = new" using len g(3) [OF more(1)] by simp
    have "i div ?spb < length ?p \<and> (i mod ?spb + 1) * ?bs \<le> length (?p ! (i div ?spb))" if i: "i < M" for i
    proof (cases "i div ?spb < new")
      case True
      then show ?thesis
        using kept(2) [of "i div ?spb"] Gn(4) [of i] g(3) [OF more(1)] lk by (auto simp: nth_append intro: le_trans)
    next
      case False
      moreover have "i div ?spb \<le> new" unfolding new_def using i by (intro div_le_mono) simp
      ultimately have eq: "i div ?spb = new" by simp
      have "i = i div ?spb * ?spb + i mod ?spb" "M = new * ?spb + M mod ?spb" by (simp_all add: new_def)
      then have "i mod ?spb < M mod ?spb" using i unfolding eq by linarith
      then have "(i mod ?spb + 1) * ?bs \<le> M mod ?spb * ?bs" by (intro mult_le_mono1) simp
      then show ?thesis using eq lk by (simp add: nth_append)
    qed
    then have "pool_ok c'"
      using d(1,2) bound [of M] by (simp add: c'_eq pool_ok_def SectorsPerBuffer_def)
    then show ?thesis by (simp add: c'_eq)
  next
    case fewer
    then have "c' = c\<lparr>m_apBufferPool := kept, m_dwCacheSize := new * ?spb\<rparr>"
      using d(1) upto(1) [of new] unfolding R Let_def by (simp add: Gn(8))
    moreover have "\<not> (\<forall>i. env_virtual_alloc env i)" using fewer by blast
    ultimately show ?thesis using whole_ok [OF upto(2) [of new]] upto(2) [of new] g(3) [OF fewer(1)] by auto
  qed
  then show "pool_ok c'" "m_dwCacheSize c' \<le> M" "(\<forall>i. env_virtual_alloc env i) \<Longrightarrow> m_dwCacheSize c' = M"
    "c' = c\<lparr>m_apBufferPool := m_apBufferPool c', m_dwCacheSize := m_dwCacheSize c'\<rparr>"
    by blast+
qed

lemma ResizeCache_spec:
  assumes env: "env_ok env" and inv: "cache_inv c" and geom: "geom_ok M (m_dwBlockSize c)"
    and mem: "env_local_alloc env 0" "env_local_alloc env 1" "env_local_alloc env 2"
    and M: "M \<noteq> m_dwBlockSize c"
  obtains c' where "ResizeCache env c fWarm M = (ERROR_SUCCESS, c')" and "cache_inv c'" "clean c'"
    and "\<And>u. u < INVALID_CACHE_ID \<Longrightarrow> cache_view c' u = cache_view c u"
    and "m_dwCacheSize c' \<le> M" and "(\<forall>i. env_virtual_alloc env i) \<Longrightarrow> m_dwCacheSize c' = M"
    and "m_dwStart c' = m_dwStart c" "m_dwEnd c' = m_dwEnd c" "m_dwBlockSize c' = m_dwBlockSize c"
proof -
  define c0 where "c0 = snd (FlushCache env c None)"
  have core: "commits c (flush_core env c None)" by (rule flush_commits [OF env inv])
  have inv0: "cache_inv c0" and view0: "cache_view c0 = cache_view c" and dirty0: "dirty_set c0 = {}"
    using core flush_all_clean [OF env inv] by (simp_all add: c0_def FlushCache_core commits_def)
  have stat: "m_dwStart c0 = m_dwStart c" "m_dwEnd c0 = m_dwEnd c" "m_dwBlockSize c0 = m_dwBlockSize c"
    "m_dwCacheSize c0 = m_dwCacheSize c"
    using core by (simp_all add: c0_def FlushCache_core commits_def same_static_def)
  have cl0: "clean c0" using clean_iff [OF inv0] dirty0 by simp
  have tab0: "tables_ok c0" by (rule cache_invD(2) [OF inv0])
  define c1 where "c1 = resize_buffers env c0 M (mul32 (m_dwCacheSize c0) (m_dwBlockSize c0) div BUFFER_SIZE)
      (mul32 M (m_dwBlockSize c0) div BUFFER_SIZE)"
  note R = resize_pool [OF inv0 geom [folded stat(3)] c1_def]
  define c2 where "c2 = c1\<lparr>m_pCacheLookup := replicate M INVALID_CACHE_ID, m_pStatus := replicate M 0\<rparr>"
  have res: "ResizeCache env c fWarm M = (ERROR_SUCCESS, if fWarm then WarmCache env c2 else c2)"
    using mem M by (simp add: ResizeCache_def Let_def c0_def [symmetric] c1_def c2_def stat)
  have fields: "m_dwEnd c1 = m_dwEnd c" "m_dwBlockSize c1 = m_dwBlockSize c" "dk_data c1 = dk_data c0"
    "m_dwStart c1 = m_dwStart c" "m_dwDirtyCount c1 = 0" "\<not> m_hDirtySectorsEvent c1"
    using cl0 stat by (subst R(4), simp add: clean_def)+
  have f2: "m_dwEnd c2 = m_dwEnd c" "m_dwBlockSize c2 = m_dwBlockSize c" "dk_data c2 = dk_data c0"
    "m_dwStart c2 = m_dwStart c" "m_dwCacheSize c2 = m_dwCacheSize c1"
    by (simp_all add: c2_def fields)
  have pool: "pool_ok c2" by (rule pool_ok_fields [OF R(1)]) (simp_all add: c2_def)
  have tab: "tables_ok c2"
    using tab0 R(2) by (simp add: tables_ok_def f2 stat) (simp add: c2_def)
  have cl: "clean c2"
    by (rule zero_status_clean) (use R(2) in \<open>simp_all add: c2_def fields\<close>)
  have view: "dk_data c0 u = cache_view c u" if "u < INVALID_CACHE_ID" for u
    using no_dirty_view [OF inv0 dirty0 that] by (simp add: view0)
  show ?thesis
  proof (cases fWarm)
    case True
    note W = WarmCache_inv [OF env pool tab cl]
    have "same_tables c2 (WarmCache env c2)"
      using tab by (intro WarmCache_spec(1) [OF env pool]) (auto simp: tables_ok_def)
    then show ?thesis using that [OF res] True W view R(2,3) by (simp add: same_tables_def f2)
  next
    case False
    note C = clean_inv [OF pool tab cl]
    have no: "m_pCacheLookup c2 ! i = INVALID_CACHE_ID" if "i < m_dwCacheSize c2" for i
      using that R(2) by (simp add: c2_def)
    have "cache_inv c2" "\<And>u. u < INVALID_CACHE_ID \<Longrightarrow> cache_view c2 u = dk_data c2 u"
      using C no by simp_all
    then show ?thesis using that [OF res] False cl view R(2,3) by (simp add: f2)
  qed
qed

end
