(* ===== verification/Cache_Contract.thy ===== *)
theory Cache_Contract
  imports Storage_Prelude
begin

text \<open>
  The contract that file systems rely on when they read and write sectors through a cache:
  a read returns the contents, a write replaces the contents of its range, and background
  activity (flushing, lazy writing) changes nothing a client can see.  The lemma of the
  contract is that every sequence of operations gives the results a plain array of sectors
  would give.
\<close>

datatype 'x bop = BRead nat nat | BWrite nat nat "BYTE list" | BBack 'x

text \<open>The geometry is the first and the last sector and the block size.\<close>

definition op_ok :: "nat \<times> nat \<times> nat \<Rightarrow> 'x bop \<Rightarrow> bool" where
  "op_ok g p = (case g of (lo, hi, bs) \<Rightarrow>
     (case p of
        BRead a n \<Rightarrow> lo \<le> a \<and> 0 < n \<and> a + n - 1 \<le> hi
      | BWrite a n d \<Rightarrow> lo \<le> a \<and> 0 < n \<and> a + n - 1 \<le> hi \<and> length d = n * bs
      | BBack x \<Rightarrow> True))"

definition block_of :: "nat \<Rightarrow> BYTE list \<Rightarrow> nat \<Rightarrow> BYTE list" where
  "block_of bs d k = take bs (drop (k * bs) d)"

definition spec_write :: "nat \<Rightarrow> (nat \<Rightarrow> BYTE list) \<Rightarrow> nat \<Rightarrow> nat \<Rightarrow> BYTE list \<Rightarrow> nat \<Rightarrow> BYTE list" where
  "spec_write bs V a n d u = (if a \<le> u \<and> u < a + n then block_of bs d (u - a) else V u)"

text \<open>The results of a sequence of operations, on an implementation and on a plain array.\<close>

fun run_ops ::
    "('s \<Rightarrow> nat \<Rightarrow> nat \<Rightarrow> BYTE list \<times> 's) \<Rightarrow> ('s \<Rightarrow> nat \<Rightarrow> nat \<Rightarrow> BYTE list \<Rightarrow> 's) \<Rightarrow> ('x \<Rightarrow> 's \<Rightarrow> 's)
     \<Rightarrow> 's \<Rightarrow> 'x bop list \<Rightarrow> BYTE list list" where
  "run_ops rd wr bk s [] = []"
| "run_ops rd wr bk s (BRead a n # ps) = fst (rd s a n) # run_ops rd wr bk (snd (rd s a n)) ps"
| "run_ops rd wr bk s (BWrite a n d # ps) = run_ops rd wr bk (wr s a n d) ps"
| "run_ops rd wr bk s (BBack x # ps) = run_ops rd wr bk (bk x s) ps"

fun spec_ops :: "nat \<Rightarrow> (nat \<Rightarrow> BYTE list) \<Rightarrow> 'x bop list \<Rightarrow> BYTE list list" where
  "spec_ops bs V [] = []"
| "spec_ops bs V (BRead a n # ps) = concat (map V [a..<a + n]) # spec_ops bs V ps"
| "spec_ops bs V (BWrite a n d # ps) = spec_ops bs (spec_write bs V a n d) ps"
| "spec_ops bs V (BBack x # ps) = spec_ops bs V ps"

locale block_cache =
  fixes ok :: "'s \<Rightarrow> bool"
    and geo :: "'s \<Rightarrow> nat \<times> nat \<times> nat"
    and view :: "'s \<Rightarrow> nat \<Rightarrow> BYTE list"
    and rd :: "'s \<Rightarrow> nat \<Rightarrow> nat \<Rightarrow> BYTE list \<times> 's"
    and wr :: "'s \<Rightarrow> nat \<Rightarrow> nat \<Rightarrow> BYTE list \<Rightarrow> 's"
    and bk :: "'x \<Rightarrow> 's \<Rightarrow> 's"
  assumes read_law: "\<lbrakk>ok s; op_ok (geo s) (BRead a n :: 'x bop)\<rbrakk> \<Longrightarrow>
      fst (rd s a n) = concat (map (view s) [a..<a + n]) \<and>
      ok (snd (rd s a n)) \<and> geo (snd (rd s a n)) = geo s \<and>
      (\<forall>u \<le> fst (snd (geo s)). view (snd (rd s a n)) u = view s u)"
    and write_law: "\<lbrakk>ok s; op_ok (geo s) (BWrite a n d :: 'x bop)\<rbrakk> \<Longrightarrow>
      ok (wr s a n d) \<and> geo (wr s a n d) = geo s \<and>
      (\<forall>u \<le> fst (snd (geo s)). view (wr s a n d) u = spec_write (snd (snd (geo s))) (view s) a n d u)"
    and back_law: "ok s \<Longrightarrow> ok (bk x s) \<and> geo (bk x s) = geo s \<and>
      (\<forall>u \<le> fst (snd (geo s)). view (bk x s) u = view s u)"
begin

lemma run_refines:
  assumes "ok s" and "list_all (op_ok (geo s)) ps" and "\<And>u. u \<le> fst (snd (geo s)) \<Longrightarrow> view s u = V u"
  shows "run_ops rd wr bk s ps = spec_ops (snd (snd (geo s))) V ps"
  using assms
proof (induction ps arbitrary: s V)
  case Nil
  then show ?case by simp
next
  case (Cons p ps)
  show ?case
  proof (cases p)
    case (BRead a n)
    then have p: "op_ok (geo s) (BRead a n :: 'x bop)" using Cons.prems by simp
    note law = read_law [OF Cons.prems(1) p]
    have "run_ops rd wr bk (snd (rd s a n)) ps = spec_ops (snd (snd (geo (snd (rd s a n))))) V ps"
      using law Cons.prems by (intro Cons.IH) auto
    moreover have eq: "map (view s) [a..<a + n] = map V [a..<a + n]"
      using p Cons.prems(3) by (auto simp: op_ok_def split: prod.splits)
    moreover have "fst (rd s a n) = concat (map V [a..<a + n])" using law unfolding eq by simp
    ultimately show ?thesis using law BRead by simp
  next
    case (BWrite a n d)
    then have p: "op_ok (geo s) (BWrite a n d :: 'x bop)" using Cons.prems by simp
    note law = write_law [OF Cons.prems(1) p]
    have "run_ops rd wr bk (wr s a n d) ps =
        spec_ops (snd (snd (geo (wr s a n d)))) (spec_write (snd (snd (geo s))) V a n d) ps"
      using law Cons.prems by (intro Cons.IH) (auto simp: spec_write_def)
    with law BWrite show ?thesis by simp
  next
    case (BBack x)
    note law = back_law [OF Cons.prems(1), of x]
    have "run_ops rd wr bk (bk x s) ps = spec_ops (snd (snd (geo (bk x s)))) V ps"
      using law Cons.prems by (intro Cons.IH) auto
    with law BBack show ?thesis by simp
  qed
qed

end

end
