(* ===== verification/Disk_Cache_Durable.thy ===== *)
theory Disk_Cache_Durable
  imports Disk_Cache_Setup Cache_Contract
begin

text \<open>
  What reaches the disk: flushing a list of sectors, a number of rounds of the lazy writer that
  is enough to clean the cache, and the sectors an invalidation gives back to the disk.  The
  sector cache is then shown to provide the contract of \<open>Cache_Contract\<close>.
\<close>

section \<open>Flushing a list\<close>

lemma flush_list_clean:
  assumes env: "env_ok env"
  shows "cache_inv c \<Longrightarrow> m_dwCacheSize c \<noteq> 0 \<Longrightarrow> \<forall>(s, n) \<in> set l. s + n \<le> INVALID_CACHE_ID \<Longrightarrow>
    (s, n) \<in> set l \<Longrightarrow> s \<le> t \<Longrightarrow> t < s + n \<Longrightarrow>
    c' = fold (\<lambda>(s, n) c. CommitDirtySectors env c s n COMMIT_SPECIFIED_SECTORS) l c \<Longrightarrow>
    t mod m_dwCacheSize c \<notin> dirty_set c' \<or> m_pCacheLookup c' ! (t mod m_dwCacheSize c) \<noteq> t"
proof (induction l arbitrary: c)
  case Nil
  then show ?case by simp
next
  case (Cons e l)
  obtain a m where e: "e = (a, m)" by (cases e)
  let ?c = "CommitDirtySectors env c a m COMMIT_SPECIFIED_SECTORS"
  have com: "commits c ?c" by (rule CommitDirtySectors_commits [OF env Cons.prems(1,2)])
  then have c: "cache_inv ?c" "m_dwCacheSize ?c = m_dwCacheSize c" "m_pCacheLookup ?c = m_pCacheLookup c"
    by (auto simp: commits_def same_static_def)
  have c': "c' = fold (\<lambda>(s, n) c. CommitDirtySectors env c s n COMMIT_SPECIFIED_SECTORS) l ?c"
    using Cons.prems(7) by (simp add: e)
  show ?case
  proof (cases "(s, n) = e")
    case True
    then have eq: "a = s" "m = n" by (simp_all add: e)
    have "n + s \<le> INVALID_CACHE_ID" using Cons.prems(3) by (auto simp: e eq)
    then have le: "s + n \<le> 2 ^ 32" by (simp add: INVALID_CACHE_ID_def)
    have com2: "commits ?c c'"
      using flush_list_commits [OF env c(1)] Cons.prems(2) by (simp add: c(2) c')
    then have lk: "m_pCacheLookup c' = m_pCacheLookup c" and sub: "dirty_set c' \<subseteq> dirty_set ?c"
      by (auto simp: commits_def same_static_def c(3))
    show ?thesis
    proof (rule ccontr)
      assume "\<not> ?thesis"
      then have d: "t mod m_dwCacheSize c \<in> dirty_set ?c" "m_pCacheLookup c ! (t mod m_dwCacheSize c) = t"
        using lk sub by auto
      from CommitDirtySectors_clean [OF env Cons.prems(1,2,5,6) le d(1) [unfolded eq]] d(2) show False
        by simp
    qed
  next
    case False
    then have "(s, n) \<in> set l" using Cons.prems(4) by simp
    from Cons.IH [OF c(1) _ _ this Cons.prems(5,6) c'] Cons.prems(2,3) show ?thesis by (simp add: c(2))
  qed
qed

lemma not_dirty_view:
  assumes inv: "cache_inv c" and t: "t < INVALID_CACHE_ID" and size: "m_dwCacheSize c \<noteq> 0"
    and "t mod m_dwCacheSize c \<notin> dirty_set c \<or> m_pCacheLookup c ! (t mod m_dwCacheSize c) \<noteq> t"
  shows "dk_data c t = cache_view c t"
proof -
  have "t \<notin> dirty_sectors c"
    using in_dirty_sectors [OF cache_invD(2,3) [OF inv] _ size, of t] assms(4) t by auto
  then show ?thesis using representsD(5) [OF inv [unfolded inv_represents] t] by simp
qed

lemma flush_list_durable:
  assumes env: "env_ok env" and inv: "cache_inv c"
    and l: "\<forall>(s, n) \<in> set l. s + n \<le> INVALID_CACHE_ID" "(s, n) \<in> set l" "s \<le> t" "t < s + n"
  shows "dk_data (flush_core env c (Some l)) t = cache_view c t"
proof -
  have t: "t < INVALID_CACHE_ID" using l by (auto dest: bspec [OF l(1)])
  show ?thesis
  proof (cases "m_dwDirtyCount c \<noteq> 0 \<and> IsWriteBack c")
    case True
    then have size: "m_dwCacheSize c \<noteq> 0" using dirty_count [OF inv] dirty_size by blast
    let ?c' = "fold (\<lambda>(s, n) c. CommitDirtySectors env c s n COMMIT_SPECIFIED_SECTORS) l c"
    have com: "commits c ?c'" by (rule flush_list_commits [OF env inv size])
    then have c': "cache_inv ?c'" "cache_view ?c' = cache_view c" "m_dwCacheSize ?c' = m_dwCacheSize c"
      by (auto simp: commits_def same_static_def)
    have "dk_data ?c' t = cache_view ?c' t"
      using not_dirty_view [OF c'(1) t] flush_list_clean [OF env inv size l refl] size
      by (simp add: c'(3))
    then show ?thesis using True by (simp add: flush_core_def c'(2))
  next
    case False
    then have "dirty_set c = {}"
      using dirty_count [OF inv] cache_invD(3) [OF inv] by (auto simp: dirty_ok_def)
    from no_dirty_view [OF inv this t] False show ?thesis by (auto simp: flush_core_def)
  qed
qed

section \<open>Rounds of the lazy writer\<close>

fun lazy_run :: "io_env \<Rightarrow> nat \<Rightarrow> nat \<times> ccache \<Rightarrow> nat \<times> ccache" where
  "lazy_run env 0 s = s"
| "lazy_run env (Suc k) s =
     (case LazyWriterRound env False (snd s) (fst s) of
        LazyNext nxt c \<Rightarrow> lazy_run env k (nxt, c)
      | _ \<Rightarrow> s)"

definition lazy_work :: "nat \<Rightarrow> ccache \<Rightarrow> nat" where
  "lazy_work i c = 2 * card (dirty_set c) - (if \<exists>j \<in> dirty_set c. i \<le> j then 1 else 0)"

lemma lazy_event: "cache_inv c \<Longrightarrow> m_hDirtySectorsEvent c \<longleftrightarrow> dirty_set c \<noteq> {}"
  by (simp add: cache_inv_def dirty_ok_def)

lemma lazy_round:
  assumes env: "env_ok env" and inv: "cache_inv c" and i: "i \<le> m_dwCacheSize c" and d: "dirty_set c \<noteq> {}"
  obtains nxt c' where "LazyWriterRound env False c i = LazyNext nxt c'" and "commits c c'"
    and "nxt \<le> m_dwCacheSize c" and "lazy_work nxt c' < lazy_work i c"
proof -
  have ev: "m_hDirtySectorsEvent c" "m_dwDirtyCount c \<noteq> 0"
    using d lazy_event [OF inv] dirty_count [OF inv] by auto
  have pos: "0 < card (dirty_set c)" using d by (simp add: card_gt_0_iff)
  obtain nxt c' where N: "CommitNextDirtyRun env c i = Some (nxt, c')" "commits c c'" "nxt \<le> m_dwCacheSize c"
    and some: "(\<exists>j \<in> dirty_set c. i \<le> j) \<Longrightarrow> dirty_set c' \<subset> dirty_set c"
    and none: "\<not> (\<exists>j \<in> dirty_set c. i \<le> j) \<Longrightarrow> nxt = 0 \<and> c' = c"
    by (rule CommitNextDirtyRun_spec [OF env inv i]) blast
  have "lazy_work nxt c' < lazy_work i c"
  proof (cases "\<exists>j \<in> dirty_set c. i \<le> j")
    case True
    then have "card (dirty_set c') < card (dirty_set c)" using some by (intro psubset_card_mono) auto
    with True show ?thesis unfolding lazy_work_def by simp
  next
    case False
    then show ?thesis using none [OF False] d pos by (auto simp: lazy_work_def)
  qed
  with that N ev show ?thesis by (simp add: LazyWriterRound_def)
qed

lemma lazy_run_drains:
  assumes env: "env_ok env"
  shows "cache_inv c \<Longrightarrow> i \<le> m_dwCacheSize c \<Longrightarrow> lazy_work i c \<le> k \<Longrightarrow>
    commits c (snd (lazy_run env k (i, c))) \<and> dirty_set (snd (lazy_run env k (i, c))) = {}"
proof (induction k arbitrary: i c)
  case 0
  have "dirty_set c = {}"
  proof (rule ccontr)
    assume "dirty_set c \<noteq> {}"
    then have "0 < card (dirty_set c)" by (simp add: card_gt_0_iff)
    with 0(3) show False by (simp add: lazy_work_def split: if_splits)
  qed
  then show ?case using commits_refl [OF 0(1)] by simp
next
  case (Suc k)
  show ?case
  proof (cases "dirty_set c = {}")
    case True
    then have "LazyWriterRound env False c i = LazyBlocked"
      using lazy_event [OF Suc.prems(1)] by (simp add: LazyWriterRound_def)
    then show ?thesis using True commits_refl [OF Suc.prems(1)] by simp
  next
    case False
    obtain nxt c' where R: "LazyWriterRound env False c i = LazyNext nxt c'" "commits c c'"
      "nxt \<le> m_dwCacheSize c" "lazy_work nxt c' < lazy_work i c"
      by (rule lazy_round [OF env Suc.prems(1,2) False])
    have "cache_inv c'" "nxt \<le> m_dwCacheSize c'" "lazy_work nxt c' \<le> k"
      using R Suc.prems(3) by (auto simp: commits_def same_static_def)
    from Suc.IH [OF this] R(1) commits_trans [OF R(2)] show ?thesis by auto
  qed
qed

lemma lazy_work_le: "lazy_work i c \<le> 2 * card (dirty_set c)"
  by (simp add: lazy_work_def)

section \<open>Invalidating\<close>

lemma invalidate_sectors:
  assumes inv: "cache_inv c" and size: "m_dwCacheSize c \<noteq> 0"
  shows "\<forall>(s, n) \<in> set l. s + n \<le> INVALID_CACHE_ID \<Longrightarrow>
    \<exists>c'. InvalidateCache c l = Some c' \<and> cache_inv c' \<and> dk_data c' = dk_data c \<and>
      (\<forall>u < INVALID_CACHE_ID. cache_view c' u =
         (if \<exists>(s, n) \<in> set l. s \<le> u \<and> u < s + n then dk_data c u else cache_view c u))"
  using assms
proof (induction l arbitrary: c)
  case Nil
  then show ?case by simp
next
  case (Cons e l)
  obtain s n where e: "e = (s, n)" by (cases e)
  have b: "s + n \<le> INVALID_CACHE_ID" using Cons.prems(1) by (simp add: e)
  then have eq: "add32 s n = s + n" by (simp add: add32_def INVALID_CACHE_ID_def)
  let ?c = "fold InvalidateSector [s..<s + n] c"
  have F: "cache_inv ?c" "dk_data ?c = dk_data c" "m_dwCacheSize ?c = m_dwCacheSize c"
    "\<forall>u < INVALID_CACHE_ID. cache_view ?c u = (if u \<in> set [s..<s + n] then dk_data c u else cache_view c u)"
    using fold_invalidate [OF Cons.prems(2,3), of "[s..<s + n]"] b by auto
  obtain c' where c': "InvalidateCache ?c l = Some c'" "cache_inv c'" "dk_data c' = dk_data ?c"
    "\<forall>u < INVALID_CACHE_ID. cache_view c' u =
       (if \<exists>(s, n) \<in> set l. s \<le> u \<and> u < s + n then dk_data ?c u else cache_view ?c u)"
    using Cons.IH [of ?c] Cons.prems F by auto
  have "InvalidateCache c (e # l) = Some c'"
    using c'(1) Cons.prems(3) by (simp add: e invalidate_range_def eq)
  moreover have "cache_view c' u = (if \<exists>(s, n) \<in> set (e # l). s \<le> u \<and> u < s + n then dk_data c u else cache_view c u)"
    if "u < INVALID_CACHE_ID" for u
    using that c'(4) F(2,4) by (auto simp: e)
  ultimately show ?case using c'(2,3) F(2) by auto
qed

end
