(* ===== verification/Null_Cache.thy ===== *)
theory Null_Cache
  imports Disk_Cache_Durable
begin

text \<open>
  The cache of \<open>FSDSERV/nullcache.cpp\<close>, which forwards every request to the disk, and the
  interpretations of the contract of \<open>Cache_Contract\<close> on the sector cache and on this one.
\<close>

section \<open>The table entries and the operations on one of them\<close>

text \<open>A handle \<open>hDsk\<close> of 0 marks an unused entry.  As for the sector cache, the entry carries the disk behind the handle.\<close>

record nullcache =
  hDsk :: nat
  nc_dwBlockSize :: nat
  nc_disable_delete :: bool
  nc_disable_flush :: bool
  nc_data :: "nat \<Rightarrow> BYTE list"
  nc_count :: nat

definition Null_CachedRead ::
    "io_env \<Rightarrow> nullcache \<Rightarrow> nat \<Rightarrow> nat \<Rightarrow> BYTE list \<Rightarrow> nat \<times> BYTE list \<times> nullcache" where
  "Null_CachedRead env c dwBlockNum dwNumBlocks pBuffer =
     (case env_fail env (nc_count c) of None \<Rightarrow> ERROR_SUCCESS | Some e \<Rightarrow> e,
      concat (map (\<lambda>k. if transferred env (nc_count c) (dwBlockNum + k) then nc_data c (dwBlockNum + k)
                       else slice (nc_dwBlockSize c) pBuffer k) [0..<dwNumBlocks]),
      c\<lparr>nc_count := nc_count c + 1\<rparr>)"

definition Null_CachedWrite ::
    "io_env \<Rightarrow> nullcache \<Rightarrow> nat \<Rightarrow> nat \<Rightarrow> BYTE list \<Rightarrow> nat \<times> nullcache" where
  "Null_CachedWrite env c dwBlockNum dwNumBlocks pBuffer =
     (case env_fail env (nc_count c) of None \<Rightarrow> ERROR_SUCCESS | Some e \<Rightarrow> e,
      c\<lparr>nc_data := (\<lambda>t. if dwBlockNum \<le> t \<and> t < dwBlockNum + dwNumBlocks \<and> transferred env (nc_count c) t
                     then slice (nc_dwBlockSize c) pBuffer (t - dwBlockNum) else nc_data c t),
        nc_count := nc_count c + 1\<rparr>)"

definition Null_FlushCache :: "io_env \<Rightarrow> nullcache \<Rightarrow> nat \<times> nullcache" where
  "Null_FlushCache env c =
     (if nc_disable_flush c then (ERROR_SUCCESS, c)
      else if \<not> env_flush_ioctl env then (ERROR_SUCCESS, c\<lparr>nc_disable_flush := True\<rparr>)
      else (ERROR_SUCCESS, c))"

text \<open>
  Unlike the sector cache, a delete request is passed on whatever its size; what the driver
  does with the sectors is \<open>junk\<close>, and its answer to any other request is \<open>drv\<close>.
\<close>

definition Null_CacheIoControl ::
    "io_env \<Rightarrow> (nat \<Rightarrow> BYTE list) \<Rightarrow> bool \<Rightarrow> nullcache \<Rightarrow> ioctl \<Rightarrow> bool \<times> nullcache" where
  "Null_CacheIoControl env junk drv c code =
     (case code of
        IOCTL_DISK_DELETE_SECTORS r \<Rightarrow>
          if nc_disable_delete c then (True, c)
          else if \<not> env_delete_ioctl env then (True, c\<lparr>nc_disable_delete := True\<rparr>)
          else (True, case r of None \<Rightarrow> c
                      | Some (s, n) \<Rightarrow> c\<lparr>nc_data := (\<lambda>t. if s \<le> t \<and> t < s + n then junk t else nc_data c t)\<rparr>)
      | IOCTL_OTHER \<Rightarrow> (drv, c))"

section \<open>Both caches provide the contract\<close>

text \<open>The background activity of the sector cache: flushes and rounds of the lazy writer.\<close>

datatype cache_event = Flush "(nat \<times> nat) list option" | LazyRound nat

definition dc_ok :: "io_env \<times> ccache \<Rightarrow> bool" where
  "dc_ok s \<longleftrightarrow> env_ok (fst s) \<and> cache_inv (snd s)"

definition dc_geo :: "io_env \<times> ccache \<Rightarrow> nat \<times> nat \<times> nat" where
  "dc_geo s = (m_dwStart (snd s), m_dwEnd (snd s), m_dwBlockSize (snd s))"

definition dc_view :: "io_env \<times> ccache \<Rightarrow> nat \<Rightarrow> BYTE list" where
  "dc_view s = cache_view (snd s)"

definition dc_read :: "io_env \<times> ccache \<Rightarrow> nat \<Rightarrow> nat \<Rightarrow> BYTE list \<times> io_env \<times> ccache" where
  "dc_read s a n = (case s of (env, c) \<Rightarrow>
     (case ReadCache env c a n (replicate (n * m_dwBlockSize c) 0) of (e, buf, c') \<Rightarrow> (buf, env, c')))"

definition dc_write :: "io_env \<times> ccache \<Rightarrow> nat \<Rightarrow> nat \<Rightarrow> BYTE list \<Rightarrow> io_env \<times> ccache" where
  "dc_write s a n d = (case s of (env, c) \<Rightarrow> (env, snd (WriteCache env c False a n d)))"

definition dc_event :: "cache_event \<Rightarrow> io_env \<times> ccache \<Rightarrow> io_env \<times> ccache" where
  "dc_event x s = (case s of (env, c) \<Rightarrow> (env,
     case x of
       Flush l \<Rightarrow> snd (FlushCache env c l)
     | LazyRound i \<Rightarrow> (case LazyWriterRound env False c i of LazyNext nxt c' \<Rightarrow> c' | _ \<Rightarrow> c)))"

lemma lazy_any_index:
  assumes env: "env_ok env" and inv: "cache_inv c"
  shows "commits c (case LazyWriterRound env False c i of LazyNext nxt c' \<Rightarrow> c' | _ \<Rightarrow> c)"
proof (cases "i \<le> m_dwCacheSize c")
  case True
  obtain nxt c' where "CommitNextDirtyRun env c i = Some (nxt, c')" "commits c c'"
    by (rule CommitNextDirtyRun_spec [OF env inv True]) blast
  then show ?thesis using commits_refl [OF inv] by (simp add: LazyWriterRound_def)
next
  case False
  then have "next_dirty c i = i" by (subst next_dirty.simps) simp
  then have "CommitNextDirtyRun env c i = None"
    using False by (simp add: CommitNextDirtyRun_def)
  then show ?thesis using commits_refl [OF inv] by (simp add: LazyWriterRound_def)
qed

text \<open>No operation changes the geometry.\<close>

definition same_geo :: "ccache \<Rightarrow> ccache \<Rightarrow> bool" where
  "same_geo c c' \<longleftrightarrow> m_dwStart c' = m_dwStart c \<and> m_dwEnd c' = m_dwEnd c \<and>
     m_dwBlockSize c' = m_dwBlockSize c \<and> m_dwCacheSize c' = m_dwCacheSize c"

lemma same_geo_refl [simp]: "same_geo c c"
  by (simp add: same_geo_def)

lemma same_geo_trans: "same_geo a b \<Longrightarrow> same_geo b c \<Longrightarrow> same_geo a c"
  by (simp add: same_geo_def)

lemma geo_commits: "commits c c' \<Longrightarrow> same_geo c c'"
  by (simp add: commits_def same_static_def same_geo_def)

lemma geo_put: "same_geo c (WriteToCacheBuffer c i d f)"
  by (simp add: same_geo_def WriteToCacheBuffer_def SetDirtyStatus_def Let_def)

lemma geo_read_sector: "same_geo c (cache_read_sector s buf t c)"
  using geo_put [of c] by (simp add: cache_read_sector_def Let_def same_geo_def)

lemma geo_write_sector: "same_geo c (cache_write_sector s buf f t c)"
  using geo_put [of c] by (simp add: cache_write_sector_def Let_def same_geo_def)

lemma geo_fold: "(\<And>x c. same_geo c (f x c)) \<Longrightarrow> same_geo c (fold f xs c)"
  by (induction xs arbitrary: c) (auto intro: same_geo_trans)


lemma geo_folds:
  assumes "same_geo a c"
  shows "same_geo a (fold (cache_read_sector s buf) ts c)" "same_geo a (fold (cache_write_sector s buf f) ts c)"
  by (rule same_geo_trans [OF assms geo_fold], rule geo_read_sector)
    (rule same_geo_trans [OF assms geo_fold], rule geo_write_sector)

lemma geo_disk: "same_geo c (snd (snd (ReadWriteDisk_read env c a b d)))" "same_geo c (snd (ReadWriteDisk_write env c a b d))"
  by (simp_all add: same_geo_def ReadWriteDisk_read_def ReadWriteDisk_write_def)

text \<open>The state before the cache entries are updated.\<close>

lemma geo_commit:
  assumes "env_ok env" and "cache_inv c" and "m_dwCacheSize c \<noteq> 0"
  shows "same_geo c (if IsWriteBack c then CommitDirtySectors env c s n opt else c)"
  using geo_commits [OF CommitDirtySectors_commits [OF assms]] by simp

lemma geo_ReadCache:
  assumes env: "env_ok env" and inv: "cache_inv c"
  shows "same_geo c (snd (snd (ReadCache env c s n buf)))"
proof (cases "bad_range c s n \<or> m_dwCacheSize c = 0")
  case True
  then show ?thesis using geo_disk(1) [of c env s n buf] by (auto simp: ReadCache_def)
next
  case good: False
  then have size: "m_dwCacheSize c \<noteq> 0" by blast
  show ?thesis
  proof (cases "read_miss c s n")
    case False
    then show ?thesis using ReadCache_hit good by simp
  next
    case True
    let ?c = "if IsWriteBack c then CommitDirtySectors env c s n COMMIT_ALL_SECTORS else c"
    obtain e buf' c2 where R: "ReadWriteDisk_read env ?c s n buf = (e, buf', c2)"
      by (cases "ReadWriteDisk_read env ?c s n buf")
    have "e = ERROR_SUCCESS" using R disk_read_ok [OF env, of ?c s n buf] by simp
    then have "ReadCache env c s n buf = (ERROR_SUCCESS, buf',
        fold (cache_read_sector s buf') [s..<add32 s (if n > m_dwCacheSize c2 then m_dwCacheSize c2 else n)] c2)"
      using good True R by (intro ReadCache_miss) auto
    moreover have "same_geo c c2"
      using same_geo_trans [OF geo_commit [OF env inv size, of s n COMMIT_ALL_SECTORS] geo_disk(1) [of ?c env s n buf]] R by simp
    ultimately show ?thesis by (simp only: geo_folds(1) snd_conv)
  qed
qed


lemma geo_WriteCache:
  assumes env: "env_ok env" and inv: "cache_inv c"
  shows "same_geo c (snd (WriteCache env c force s n buf))"
proof (cases "bad_range c s n \<or> m_dwCacheSize c = 0")
  case True
  then show ?thesis using geo_disk(2) [of c env s n buf] by (auto simp: WriteCache_def)
next
  case good: False
  then have size: "m_dwCacheSize c \<noteq> 0" by blast
  let ?c = "CommitDirtySectors env c s n COMMIT_DIFF_SECTORS"
  have com: "commits c ?c" by (rule CommitDirtySectors_commits [OF env inv size])
  note g = geo_commits [OF com]
  have wb: "m_dwCacheSize ?c = m_dwCacheSize c" "IsWriteBack ?c = IsWriteBack c"
    using com by (simp_all add: commits_def same_static_def IsWriteBack_def)
  have w: "m_dwCacheSize (snd (ReadWriteDisk_write env d s n buf)) = m_dwCacheSize d"
    "IsWriteBack (snd (ReadWriteDisk_write env d s n buf)) = IsWriteBack d" for d
    by (simp_all add: ReadWriteDisk_write_def IsWriteBack_def)
  consider (kept) "IsWriteBack c" "n \<le> m_dwCacheSize c" "\<not> force"
    | (both) "IsWriteBack c" "n > m_dwCacheSize c \<or> force" | (through) "\<not> IsWriteBack c" by linarith
  then show ?thesis
  proof cases
    case kept
    then show ?thesis using WriteCache_back [OF _ size kept(1,2) refl wb] good geo_folds(2) [OF g] by simp
  next
    case both
    show ?thesis
      using WriteCache_back_through [OF _ size both refl wb write_run [OF env]] good w wb
        geo_folds(2) [OF same_geo_trans [OF g geo_disk(2)]] by simp
  next
    case through
    show ?thesis
      using WriteCache_through [OF _ size through write_run [OF env] w(2)] good geo_folds(2) [OF geo_disk(2)] by simp
  qed
qed

lemma op_range:
  assumes "cache_inv c" and "m_dwStart c \<le> a" "0 < n" "a + n - 1 \<le> m_dwEnd c"
  shows "\<not> bad_range c a n" "a < 2 ^ 32" "n < 2 ^ 32"
proof -
  have e: "m_dwEnd c < INVALID_CACHE_ID" using cache_invD(2) [OF assms(1)] by (simp add: tables_ok_def)
  then show w: "a < 2 ^ 32" "n < 2 ^ 32" using assms(3,4) by (auto simp: INVALID_CACHE_ID_def)
  have s: "a + n < 2 ^ 32" using e assms(3,4) by (auto simp: INVALID_CACHE_ID_def)
  then have "add32 a n = a + n" by (simp add: add32_def)
  moreover have "sub32 (a + n) 1 = a + n - 1" using s assms(3) by (intro sub32_eq) auto
  ultimately show "\<not> bad_range c a n" using assms(2-4) by (simp add: bad_range_def)
qed

lemma spec_write_overlay: "spec_write bs V a n d u = overlay bs a n d V u"
  by (simp add: spec_write_def overlay_def block_of_def slice_def)

interpretation dc: block_cache dc_ok dc_geo dc_view dc_read dc_write dc_event
proof
  fix s :: "io_env \<times> ccache" and a n :: nat
  assume ok: "dc_ok s" and op: "op_ok (dc_geo s) (BRead a n :: cache_event bop)"
  obtain env c where s: "s = (env, c)" by (cases s)
  have env: "env_ok env" and inv: "cache_inv c" using ok by (auto simp: s dc_ok_def)
  have e: "m_dwEnd c < INVALID_CACHE_ID" using cache_invD(2) [OF inv] by (simp add: tables_ok_def)
  note r = op_range [OF inv, of a n]
  obtain c' where R: "ReadCache env c a n (replicate (n * m_dwBlockSize c) 0) =
      (ERROR_SUCCESS, concat (map (cache_view c) [a..<a + n]), c')" and c': "cache_inv c'"
    "\<And>u. u < INVALID_CACHE_ID \<Longrightarrow> cache_view c' u = cache_view c u"
    by (rule ReadCache_spec [OF env inv, of a n "replicate (n * m_dwBlockSize c) 0"])
      (use r op in \<open>auto simp: op_ok_def dc_geo_def s\<close>)
  have "same_geo c c'"
    using geo_ReadCache [OF env inv, of a n "replicate (n * m_dwBlockSize c) 0"] by (simp add: R)
  then show "fst (dc_read s a n) = concat (map (dc_view s) [a..<a + n]) \<and> dc_ok (snd (dc_read s a n)) \<and>
      dc_geo (snd (dc_read s a n)) = dc_geo s \<and>
      (\<forall>u \<le> fst (snd (dc_geo s)). dc_view (snd (dc_read s a n)) u = dc_view s u)"
    using c' e env by (simp add: s dc_read_def R dc_ok_def dc_view_def dc_geo_def same_geo_def)
next
  fix s :: "io_env \<times> ccache" and a n :: nat and d
  assume ok: "dc_ok s" and op: "op_ok (dc_geo s) (BWrite a n d :: cache_event bop)"
  obtain env c where s: "s = (env, c)" by (cases s)
  have env: "env_ok env" and inv: "cache_inv c" using ok by (auto simp: s dc_ok_def)
  have e: "m_dwEnd c < INVALID_CACHE_ID" using cache_invD(2) [OF inv] by (simp add: tables_ok_def)
  note r = op_range [OF inv, of a n]
  obtain c' where W: "WriteCache env c False a n d = (ERROR_SUCCESS, c')"
    and c': "represents c' (overlay (m_dwBlockSize c) a n d (cache_view c)) {}"
    by (rule WriteCache_spec [OF env inv, of a n d False]) (use r op in \<open>auto simp: op_ok_def dc_geo_def s\<close>)
  have "same_geo c c'" using geo_WriteCache [OF env inv, of False a n d] by (simp add: W)
  then show "dc_ok (dc_write s a n d) \<and> dc_geo (dc_write s a n d) = dc_geo s \<and>
      (\<forall>u \<le> fst (snd (dc_geo s)). dc_view (dc_write s a n d) u =
         spec_write (snd (snd (dc_geo s))) (dc_view s) a n d u)"
    using represents_inv [OF c'] represents_view [OF c'] e env
    by (simp add: s dc_write_def W dc_ok_def dc_view_def dc_geo_def same_geo_def spec_write_overlay)
next
  fix s x
  assume ok: "dc_ok s"
  obtain env c where s: "s = (env, c)" by (cases s)
  have env: "env_ok env" and inv: "cache_inv c" using ok by (auto simp: s dc_ok_def)
  note F = flush_commits [OF env inv] and L = lazy_any_index [OF env inv]
  note geo_commits [OF F] geo_commits [OF L]
  with F L show "dc_ok (dc_event x s) \<and> dc_geo (dc_event x s) = dc_geo s \<and>
      (\<forall>u \<le> fst (snd (dc_geo s)). dc_view (dc_event x s) u = dc_view s u)"
    using env by (cases x)
      (simp_all add: s dc_event_def dc_ok_def dc_geo_def dc_view_def FlushCache_core commits_def same_geo_def)
qed

text \<open>The cache that forwards everything.  It has no range of its own.\<close>

definition nl_ok :: "io_env \<times> nullcache \<Rightarrow> bool" where
  "nl_ok s \<longleftrightarrow> env_ok (fst s) \<and> (\<forall>t. length (nc_data (snd s) t) = nc_dwBlockSize (snd s))"

definition nl_geo :: "io_env \<times> nullcache \<Rightarrow> nat \<times> nat \<times> nat" where
  "nl_geo s = (0, INVALID_CACHE_ID - 1, nc_dwBlockSize (snd s))"

definition nl_view :: "io_env \<times> nullcache \<Rightarrow> nat \<Rightarrow> BYTE list" where
  "nl_view s = nc_data (snd s)"

definition nl_read :: "io_env \<times> nullcache \<Rightarrow> nat \<Rightarrow> nat \<Rightarrow> BYTE list \<times> io_env \<times> nullcache" where
  "nl_read s a n = (case s of (env, c) \<Rightarrow>
     (case Null_CachedRead env c a n (replicate (n * nc_dwBlockSize c) 0) of (e, buf, c') \<Rightarrow> (buf, env, c')))"

definition nl_write :: "io_env \<times> nullcache \<Rightarrow> nat \<Rightarrow> nat \<Rightarrow> BYTE list \<Rightarrow> io_env \<times> nullcache" where
  "nl_write s a n d = (case s of (env, c) \<Rightarrow> (env, snd (Null_CachedWrite env c a n d)))"

definition nl_event :: "cache_event \<Rightarrow> io_env \<times> nullcache \<Rightarrow> io_env \<times> nullcache" where
  "nl_event x s = (case s of (env, c) \<Rightarrow> (env, case x of Flush l \<Rightarrow> snd (Null_FlushCache env c) | LazyRound i \<Rightarrow> c))"

interpretation nl: block_cache nl_ok nl_geo nl_view nl_read nl_write nl_event
proof
  fix s :: "io_env \<times> nullcache" and a n :: nat
  assume ok: "nl_ok s" and op: "op_ok (nl_geo s) (BRead a n :: cache_event bop)"
  obtain env c where s: "s = (env, c)" by (cases s)
  have t: "transferred env k j" for k j using ok by (simp add: s nl_ok_def env_ok_def transferred_def)
  have "map (\<lambda>k. nc_data c (a + k)) [0..<n] = map (nc_data c) [a..<a + n]" by (rule nth_equalityI) auto
  then show "fst (nl_read s a n) = concat (map (nl_view s) [a..<a + n]) \<and> nl_ok (snd (nl_read s a n)) \<and>
      nl_geo (snd (nl_read s a n)) = nl_geo s \<and>
      (\<forall>u \<le> fst (snd (nl_geo s)). nl_view (snd (nl_read s a n)) u = nl_view s u)"
    using ok by (simp add: s nl_read_def Null_CachedRead_def t nl_ok_def nl_view_def nl_geo_def)
next
  fix s :: "io_env \<times> nullcache" and a n :: nat and d
  assume ok: "nl_ok s" and op: "op_ok (nl_geo s) (BWrite a n d :: cache_event bop)"
  obtain env c where s: "s = (env, c)" by (cases s)
  have t: "transferred env k j" for k j using ok by (simp add: s nl_ok_def env_ok_def transferred_def)
  have "length (slice (nc_dwBlockSize c) d k) = nc_dwBlockSize c" if "k < n" for k
  proof (rule slice_length)
    have "(k + 1) * nc_dwBlockSize c \<le> n * nc_dwBlockSize c" using that by (intro mult_le_mono1) simp
    then show "(k + 1) * nc_dwBlockSize c \<le> length d" using op by (simp add: op_ok_def nl_geo_def s)
  qed
  moreover have "u - a < n" if "a \<le> u" "u < a + n" for u using that by linarith
  ultimately show "nl_ok (nl_write s a n d) \<and> nl_geo (nl_write s a n d) = nl_geo s \<and>
      (\<forall>u \<le> fst (snd (nl_geo s)). nl_view (nl_write s a n d) u =
         spec_write (snd (snd (nl_geo s))) (nl_view s) a n d u)"
    using ok by (simp add: s nl_write_def Null_CachedWrite_def t nl_ok_def nl_view_def nl_geo_def
        spec_write_overlay overlay_def)
next
  fix s x
  assume "nl_ok s"
  then show "nl_ok (nl_event x s) \<and> nl_geo (nl_event x s) = nl_geo s \<and>
      (\<forall>u \<le> fst (snd (nl_geo s)). nl_view (nl_event x s) u = nl_view s u)"
    by (cases s; cases x) (simp_all add: nl_event_def Null_FlushCache_def nl_ok_def nl_geo_def nl_view_def)
qed

end
