(* ===== verification/Disk_Cache_Api.thy ===== *)
theory Disk_Cache_Api
  imports Disk_Cache_Durable
begin

text \<open>
  The exported functions of the disk cache (\<open>DISKCACHE/cacheapis.cpp\<close>): the table of caches,
  creating and deleting a cache, and the calls that find a cache by its identifier.  A
  result \<open>None\<close> is an access through a null pointer or outside an array, or a division by zero.
\<close>

section \<open>The table\<close>

definition DEFAULT_NUM_TABLE_ENTRIES :: nat where "DEFAULT_NUM_TABLE_ENTRIES = 10"

record cache_table =
  g_cacheTable :: "ccache option list option"
  g_dwTotalEntries :: nat
  g_dwCurEntries :: nat

definition empty_table :: cache_table where
  "empty_table = \<lparr>g_cacheTable = None, g_dwTotalEntries = DEFAULT_NUM_TABLE_ENTRIES, g_dwCurEntries = 0\<rparr>"

datatype 'a fetch = Fault | NoCache | Found 'a

definition GetCache :: "cache_table \<Rightarrow> nat \<Rightarrow> ccache fetch" where
  "GetCache t dwCacheId =
     (if dwCacheId \<ge> g_dwTotalEntries t then NoCache
      else case g_cacheTable t of
        None \<Rightarrow> Fault
      | Some l \<Rightarrow> (case l ! dwCacheId of None \<Rightarrow> NoCache | Some c \<Rightarrow> Found c))"

definition put_cache :: "cache_table \<Rightarrow> nat \<Rightarrow> ccache option \<Rightarrow> cache_table" where
  "put_cache t dwCacheId e = t\<lparr>g_cacheTable := map_option (\<lambda>l. l[dwCacheId := e]) (g_cacheTable t)\<rparr>"

text \<open>Outcomes of the allocations: the table, the doubled table, and the cache object.\<close>

record api_env =
  ae_table :: bool
  ae_realloc :: bool
  ae_new :: bool

definition ensure_table :: "api_env \<Rightarrow> cache_table \<Rightarrow> cache_table option" where
  "ensure_table ae t =
     (case g_cacheTable t of
        None \<Rightarrow> if ae_table ae then Some (t\<lparr>g_cacheTable := Some (replicate (g_dwTotalEntries t) None)\<rparr>) else None
      | Some l \<Rightarrow> Some t)"

definition grow_table :: "api_env \<Rightarrow> cache_table \<Rightarrow> cache_table option" where
  "grow_table ae t =
     (if g_dwCurEntries t = g_dwTotalEntries t then
        (if ae_realloc ae
         then Some (t\<lparr>g_cacheTable := map_option (\<lambda>l. l @ replicate (g_dwTotalEntries t) None) (g_cacheTable t),
                      g_dwTotalEntries := mul32 2 (g_dwTotalEntries t)\<rparr>)
         else None)
      else Some t)"

definition bad_block_size :: "nat \<Rightarrow> bool" where
  "bad_block_size dwBlockSize \<longleftrightarrow> dwBlockSize AND sub32 dwBlockSize 1 \<noteq> 0 \<or> dwBlockSize > BUFFER_SIZE"

definition clamp_size :: "nat \<Rightarrow> nat \<Rightarrow> nat \<Rightarrow> nat" where
  "clamp_size dwStart dwEnd dwCacheSize =
     (let dwMappingSize = add32 (sub32 dwEnd dwStart) 1
      in if dwMappingSize < dwCacheSize then dwMappingSize else dwCacheSize)"

definition first_free :: "ccache option list \<Rightarrow> nat" where
  "first_free l = length (takeWhile (\<lambda>e. \<not> Option.is_none e) l)"

text \<open>
  The part of \<open>CreateCache\<close> after the checks.  A cache of size 0 gets no buffers.  If the
  object cannot be allocated, the entry stays empty, but the count and the result are those
  of a success.  Warming with a block size of 0 divides by zero.
\<close>

definition install_cache ::
    "api_env \<Rightarrow> io_env \<Rightarrow> (nat \<Rightarrow> BYTE list) \<Rightarrow> nat \<Rightarrow> nat \<Rightarrow> nat \<Rightarrow> nat \<Rightarrow> cache_flags
     \<Rightarrow> cache_table \<Rightarrow> (nat \<times> cache_table) option" where
  "install_cache ae env disk dwStart dwEnd dwCacheSize dwBlockSize dwCreateFlags t =
     (case g_cacheTable t of
        None \<Rightarrow> None
      | Some l \<Rightarrow>
          let dwCacheId = first_free l;
              c = CCache_new disk dwStart dwEnd dwCacheSize dwBlockSize dwCreateFlags;
              done = (\<lambda>e. let t = put_cache t dwCacheId e
                          in Some (dwCacheId, t\<lparr>g_dwCurEntries := add32 (g_dwCurEntries t) 1\<rparr>))
          in if dwCacheId \<ge> g_dwTotalEntries t then None
             else if \<not> ae_new ae then done None
             else if dwCacheSize = 0 then done (Some c)
             else
               (case InitCache env c of
                  (ok, c) \<Rightarrow>
                    if \<not> ok then Some (INVALID_CACHE_ID, put_cache t dwCacheId None)
                    else if dwBlockSize = 0 \<and> CACHE_FLAG_WARM dwCreateFlags then None
                    else done (Some c)))"

definition CreateCache ::
    "api_env \<Rightarrow> io_env \<Rightarrow> (nat \<Rightarrow> BYTE list) \<Rightarrow> nat \<Rightarrow> nat \<Rightarrow> nat \<Rightarrow> nat \<Rightarrow> cache_flags
     \<Rightarrow> cache_table \<Rightarrow> (nat \<times> cache_table) option" where
  "CreateCache ae env disk dwStart dwEnd dwCacheSize dwBlockSize dwCreateFlags t =
     (case ensure_table ae t of
        None \<Rightarrow> Some (INVALID_CACHE_ID, t)
      | Some t \<Rightarrow>
          (case grow_table ae t of
             None \<Rightarrow> Some (INVALID_CACHE_ID, t)
           | Some t \<Rightarrow>
               if bad_block_size dwBlockSize then Some (INVALID_CACHE_ID, t)
               else install_cache ae env disk dwStart dwEnd (clamp_size dwStart dwEnd dwCacheSize)
                      dwBlockSize dwCreateFlags t))"

text \<open>The cache is flushed before it is deleted; the result also gives its last state.\<close>

definition DeleteCache :: "io_env \<Rightarrow> cache_table \<Rightarrow> nat \<Rightarrow> (nat \<times> ccache option \<times> cache_table) option" where
  "DeleteCache env t dwCacheId =
     (case GetCache t dwCacheId of
        Fault \<Rightarrow> None
      | NoCache \<Rightarrow> Some (ERROR_INVALID_PARAMETER, None, t)
      | Found c \<Rightarrow>
          let c = snd (FlushCache env c None);
              t = put_cache t dwCacheId None
          in Some (ERROR_SUCCESS, Some c, t\<lparr>g_dwCurEntries := sub32 (g_dwCurEntries t) 1\<rparr>))"

section \<open>Calls on a cache\<close>

definition with_cache :: "cache_table \<Rightarrow> nat \<Rightarrow> 'r \<Rightarrow> (ccache \<Rightarrow> ('r \<times> ccache) option) \<Rightarrow> ('r \<times> cache_table) option" where
  "with_cache t dwCacheId invalid f =
     (case GetCache t dwCacheId of
        Fault \<Rightarrow> None
      | NoCache \<Rightarrow> Some (invalid, t)
      | Found c \<Rightarrow> map_option (\<lambda>(r, c'). (r, put_cache t dwCacheId (Some c'))) (f c))"

definition API_ResizeCache :: "io_env \<Rightarrow> cache_table \<Rightarrow> nat \<Rightarrow> nat \<Rightarrow> bool \<Rightarrow> (nat \<times> cache_table) option" where
  "API_ResizeCache env t dwCacheId dwSize fWarm =
     with_cache t dwCacheId ERROR_INVALID_PARAMETER (\<lambda>c. Some (ResizeCache env c fWarm dwSize))"

definition CachedRead ::
    "io_env \<Rightarrow> cache_table \<Rightarrow> nat \<Rightarrow> nat \<Rightarrow> nat \<Rightarrow> BYTE list \<Rightarrow> ((nat \<times> BYTE list) \<times> cache_table) option" where
  "CachedRead env t dwCacheId dwBlockNum dwNumBlocks pBuffer =
     with_cache t dwCacheId (ERROR_INVALID_PARAMETER, pBuffer)
       (\<lambda>c. case ReadCache env c dwBlockNum dwNumBlocks pBuffer of (e, buf, c') \<Rightarrow> Some ((e, buf), c'))"

definition CachedWrite ::
    "io_env \<Rightarrow> cache_table \<Rightarrow> nat \<Rightarrow> nat \<Rightarrow> nat \<Rightarrow> BYTE list \<Rightarrow> bool \<Rightarrow> (nat \<times> cache_table) option" where
  "CachedWrite env t dwCacheId dwBlockNum dwNumBlocks pBuffer fForceWriteThrough =
     with_cache t dwCacheId ERROR_INVALID_PARAMETER
       (\<lambda>c. Some (WriteCache env c fForceWriteThrough dwBlockNum dwNumBlocks pBuffer))"

definition API_FlushCache ::
    "io_env \<Rightarrow> cache_table \<Rightarrow> nat \<Rightarrow> (nat \<times> nat) list option \<Rightarrow> (nat \<times> cache_table) option" where
  "API_FlushCache env t dwCacheId pSectorList =
     with_cache t dwCacheId ERROR_INVALID_PARAMETER (\<lambda>c. Some (FlushCache env c pSectorList))"

definition SyncCache :: "cache_table \<Rightarrow> nat \<times> cache_table" where
  "SyncCache t = (ERROR_SUCCESS, t)"

definition API_InvalidateCache ::
    "cache_table \<Rightarrow> nat \<Rightarrow> (nat \<times> nat) list \<Rightarrow> (nat \<times> cache_table) option" where
  "API_InvalidateCache t dwCacheId pSectorList =
     with_cache t dwCacheId ERROR_INVALID_PARAMETER
       (\<lambda>c. map_option (\<lambda>c'. (ERROR_SUCCESS, c')) (InvalidateCache c pSectorList))"

text \<open>For an invalid identifier the error code is returned as a boolean: \<open>TRUE\<close>.\<close>

definition API_CacheIoControl ::
    "io_env \<Rightarrow> (nat \<Rightarrow> BYTE list) \<Rightarrow> bool \<Rightarrow> cache_table \<Rightarrow> nat \<Rightarrow> ioctl \<Rightarrow> (bool \<times> cache_table) option" where
  "API_CacheIoControl env junk drv t dwCacheId code =
     with_cache t dwCacheId (ERROR_INVALID_PARAMETER \<noteq> 0) (\<lambda>c. CacheIoControl env junk drv c code)"

section \<open>The invariant of the table\<close>

definition live :: "ccache option list \<Rightarrow> nat" where
  "live l = length (filter (\<lambda>e. \<not> Option.is_none e) l)"

definition table_inv :: "cache_table \<Rightarrow> bool" where
  "table_inv t \<longleftrightarrow> 0 < g_dwTotalEntries t \<and> g_dwTotalEntries t < 2 ^ 31 \<and>
     (case g_cacheTable t of
        None \<Rightarrow> g_dwCurEntries t = 0
      | Some l \<Rightarrow> length l = g_dwTotalEntries t \<and> g_dwCurEntries t = live l)"

lemma live_le: "live l \<le> length l"
  by (simp add: live_def)

lemma first_free_lt: "live l < length l \<Longrightarrow> first_free l < length l"
proof (induction l)
  case Nil
  then show ?case by simp
next
  case (Cons e l)
  then show ?case by (auto simp: live_def first_free_def split: if_splits)
qed

lemma first_free_none: "first_free l < length l \<Longrightarrow> l ! first_free l = None"
  unfolding first_free_def by (drule nth_length_takeWhile) (simp add: Option.is_none_def)

lemma live_update:
  "i < length l \<Longrightarrow> l ! i = None \<Longrightarrow> live (l[i := Some c]) = Suc (live l)"
  "i < length l \<Longrightarrow> l ! i = Some c \<Longrightarrow> Suc (live (l[i := None])) = live l"
  by (induction l arbitrary: i) (auto simp: live_def nth_Cons split: nat.splits)

lemma live_same:
  "i < length l \<Longrightarrow> l ! i = Some c \<Longrightarrow> live (l[i := Some c']) = live l"
  "i < length l \<Longrightarrow> l ! i = None \<Longrightarrow> l[i := None] = l"
proof -
  show "i < length l \<Longrightarrow> l ! i = Some c \<Longrightarrow> live (l[i := Some c']) = live l"
    by (induction l arbitrary: i) (auto simp: live_def nth_Cons split: nat.splits)
  show "i < length l \<Longrightarrow> l ! i = None \<Longrightarrow> l[i := None] = l" by (metis list_update_id)
qed

lemma live_append: "live (l @ replicate n None) = live l"
  by (simp add: live_def)

lemma GetCache_FoundD:
  assumes "GetCache t i = Found c"
  obtains l where "g_cacheTable t = Some l" "i < g_dwTotalEntries t" "l ! i = Some c"
  using assms by (auto simp: GetCache_def split: if_splits option.splits)

lemma table_inv_no_fault:
  assumes "table_inv t" and "g_cacheTable t \<noteq> None"
  shows "GetCache t i \<noteq> Fault"
  using assms by (auto simp: GetCache_def split: option.splits)

lemma put_found:
  assumes inv: "table_inv t" and f: "GetCache t i = Found c"
  shows "table_inv (put_cache t i (Some c'))"
    "GetCache (put_cache t i (Some c')) j = (if j = i then Found c' else GetCache t j)"
proof -
  obtain l where l: "g_cacheTable t = Some l" "i < g_dwTotalEntries t" "l ! i = Some c"
    by (rule GetCache_FoundD [OF f])
  with inv have len: "length l = g_dwTotalEntries t" by (simp add: table_inv_def)
  show "table_inv (put_cache t i (Some c'))"
    using inv l len by (simp add: table_inv_def put_cache_def live_same(1) [of i l c])
  show "GetCache (put_cache t i (Some c')) j = (if j = i then Found c' else GetCache t j)"
    using l len by (simp add: GetCache_def put_cache_def)
qed

lemma ensure_inv:
  assumes "table_inv t" and "ensure_table ae t = Some t'"
  shows "table_inv t'" "g_dwTotalEntries t' = g_dwTotalEntries t" "\<exists>l. g_cacheTable t' = Some l"
    "GetCache t i = Found c \<longleftrightarrow> GetCache t' i = Found c"
proof -
  have e: "live (replicate n None) = 0" for n by (simp add: live_def)
  show "table_inv t'" "g_dwTotalEntries t' = g_dwTotalEntries t" "\<exists>l. g_cacheTable t' = Some l"
    using assms by (auto simp: table_inv_def ensure_table_def e split: option.splits if_splits)
  show "GetCache t i = Found c \<longleftrightarrow> GetCache t' i = Found c"
    using assms by (auto simp: table_inv_def ensure_table_def GetCache_def split: option.splits if_splits)
qed

lemma grow_inv:
  assumes inv: "table_inv t" and l: "g_cacheTable t = Some l" and small: "g_dwTotalEntries t < 2 ^ 30"
    and g: "grow_table ae t = Some t'"
  shows "table_inv t'" "\<exists>l'. g_cacheTable t' = Some l' \<and> live l' < length l'"
    "GetCache t i = Found c \<longleftrightarrow> GetCache t' i = Found c"
proof -
  have len: "length l = g_dwTotalEntries t" "g_dwCurEntries t = live l" "0 < g_dwTotalEntries t"
    using inv l by (auto simp: table_inv_def)
  consider (full) "g_dwCurEntries t = g_dwTotalEntries t"
    "t' = t\<lparr>g_cacheTable := Some (l @ replicate (g_dwTotalEntries t) None),
            g_dwTotalEntries := 2 * g_dwTotalEntries t\<rparr>"
    | (room) "g_dwCurEntries t \<noteq> g_dwTotalEntries t" "t' = t"
    using g l small by (auto simp: grow_table_def mul32_def split: if_splits)
  then show "table_inv t'" "\<exists>l'. g_cacheTable t' = Some l' \<and> live l' < length l'"
    "GetCache t i = Found c \<longleftrightarrow> GetCache t' i = Found c"
    using inv l len small live_le [of l]
    by (cases, simp add: table_inv_def live_append, simp,
        cases, simp add: live_append, simp,
        cases, force simp: GetCache_def nth_append split: option.splits if_splits, simp)
qed


section \<open>Creating and deleting\<close>

lemma power_of_two: "n AND (n - 1) = 0 \<Longrightarrow> n \<noteq> 0 \<Longrightarrow> \<exists>k. n = (2 :: nat) ^ k"
proof (induction n rule: less_induct)
  case (less n)
  show ?case
  proof (cases "even n")
    case True
    then obtain m where m: "n = 2 * m" by (rule evenE)
    with less.prems have pos: "0 < m" by simp
    then have "(n - 1) div 2 = m - 1" using m by simp
    moreover have "n AND (n - 1) = of_bool (odd n \<and> odd (n - 1)) + 2 * (n div 2 AND (n - 1) div 2)" by (rule and_rec)
    ultimately have "m AND (m - 1) = 0" using less.prems(1) m True by simp
    then obtain k where "m = 2 ^ k" using less.IH [of m] m pos by auto
    then have "n = 2 ^ Suc k" using m by simp
    then show ?thesis by blast
  next
    case False
    then obtain m where m: "n = 2 * m + 1" by (rule oddE)
    have "n AND (n - 1) = of_bool (odd n \<and> odd (n - 1)) + 2 * (n div 2 AND (n - 1) div 2)" by (rule and_rec)
    then have "n AND (n - 1) = 2 * m" using m by simp
    then have "n = 2 ^ 0" using less.prems(1) m by simp
    then show ?thesis by blast
  qed
qed

lemma good_block_size:
  assumes "\<not> bad_block_size bs" and "bs \<noteq> 0" and "bs < 2 ^ 32"
  shows "bs dvd BUFFER_SIZE"
proof -
  have "bs AND (bs - 1) = 0" "bs \<le> 2 ^ 16"
    using assms by (auto simp: bad_block_size_def sub32_eq BUFFER_SIZE_def)
  then obtain k where k: "bs = 2 ^ k" using power_of_two assms(2) by blast
  then have "k \<le> 16" using \<open>bs \<le> 2 ^ 16\<close> power_le_imp_le_exp [of 2 k 16] by simp
  then have "bs dvd 2 ^ 16" unfolding k by (rule le_imp_power_dvd)
  then show ?thesis by (simp add: BUFFER_SIZE_def)
qed

definition fresh_cache :: "(nat \<Rightarrow> BYTE list) \<Rightarrow> nat \<Rightarrow> nat \<Rightarrow> nat \<Rightarrow> ccache \<Rightarrow> bool" where
  "fresh_cache disk lo hi bs c \<longleftrightarrow> cache_inv c \<and> m_dwStart c = lo \<and> m_dwEnd c = hi \<and> m_dwBlockSize c = bs \<and>
     (\<forall>u < INVALID_CACHE_ID. cache_view c u = disk u)"

lemma empty_cache_fresh:
  assumes "geom_ok 0 bs" "hi < INVALID_CACHE_ID" "\<forall>t. length (disk t) = bs"
  shows "fresh_cache disk lo hi bs (CCache_new disk lo hi 0 bs flags)"
proof -
  let ?c = "CCache_new disk lo hi 0 bs flags"
  have f: "m_dwCacheSize ?c = 0" "m_dwBlockSize ?c = bs" "m_dwEnd ?c = hi" "dk_data ?c = disk" "m_dwDirtyCount ?c = 0"
    "\<not> m_hDirtySectorsEvent ?c" "m_dwStart ?c = lo" by (simp_all add: CCache_new_def)
  have "pool_ok ?c" "tables_ok ?c" "clean ?c"
    using assms by (simp_all add: pool_ok_def tables_ok_def f geom_ok_def zero_status_clean)
  note C = clean_inv [OF this]
  show ?thesis using C by (simp add: fresh_cache_def f)
qed

lemma install_cache_spec:
  assumes inv: "table_inv t" and l: "g_cacheTable t = Some l" and room: "live l < length l" and new: "ae_new ae"
    and geom: "geom_ok N bs" "hi < INVALID_CACHE_ID" "\<forall>t. length (disk t) = bs"
    and warm: "CACHE_FLAG_WARM flags \<Longrightarrow> env_ok env"
  obtains id t' where "install_cache ae env disk lo hi N bs flags t = Some (id, t')" and "table_inv t'"
    and "id = INVALID_CACHE_ID \<and> t' = t \<or>
      GetCache t id = NoCache \<and> id < g_dwTotalEntries t \<and>
      (\<exists>c. fresh_cache disk lo hi bs c \<and> (\<forall>j. GetCache t' j = (if j = id then Found c else GetCache t j)))"
proof -
  define id where "id = first_free l"
  have len: "length l = g_dwTotalEntries t" "g_dwCurEntries t = live l" "g_dwTotalEntries t < 2 ^ 31"
    using inv l by (auto simp: table_inv_def)
  have id: "id < length l" "l ! id = None"
    unfolding id_def by (rule first_free_lt [OF room], rule first_free_none [OF first_free_lt [OF room]])
  have none: "GetCache t id = NoCache" using id l len by (simp add: GetCache_def)
  let ?done = "\<lambda>c. (put_cache t id (Some c))\<lparr>g_dwCurEntries := add32 (g_dwCurEntries t) 1\<rparr>"
  have D: "table_inv (?done c) \<and> (\<forall>j. GetCache (?done c) j = (if j = id then Found c else GetCache t j))" for c
  proof -
    have "live l < 2 ^ 31" using live_le [of l] len by linarith
    then have "add32 (live l) 1 = Suc (live l)" by (simp add: add32_def)
    then have "table_inv (?done c)"
      using inv id l len live_update(1) [OF id] by (simp add: table_inv_def put_cache_def)
    then show ?thesis using id l len by (simp add: GetCache_def put_cache_def)
  qed
  have cur: "g_dwCurEntries (put_cache t id e) = g_dwCurEntries t" for e by (simp add: put_cache_def)
  have I: "install_cache ae env disk lo hi N bs flags t =
     (let c = CCache_new disk lo hi N bs flags
      in if N = 0 then Some (id, ?done c)
         else (case InitCache env c of (ok, c) \<Rightarrow>
                 if \<not> ok then Some (INVALID_CACHE_ID, put_cache t id None) else Some (id, ?done c)))"
    using geom(1) id len new by (simp add: install_cache_def l Let_def id_def [symmetric] cur geom_ok_def split: prod.splits)
  show ?thesis
  proof (cases "N = 0")
    case True
    with I geom empty_cache_fresh [of bs hi disk lo flags] D [of "CCache_new disk lo hi N bs flags"] none id(1) len(1)
    show ?thesis by (intro that [of id "?done (CCache_new disk lo hi N bs flags)"]) auto
  next
    case N: False
    show ?thesis
    proof (cases "env_local_alloc env 0 \<and> env_local_alloc env 1 \<and> env_local_alloc env 2")
      case True
      have "\<exists>c. InitCache env (CCache_new disk lo hi N bs flags) = (True, c) \<and> cache_inv c \<and>
          (\<forall>u < INVALID_CACHE_ID. cache_view c u = disk u) \<and>
          m_dwStart c = lo \<and> m_dwEnd c = hi \<and> m_dwBlockSize c = bs"
        by (rule InitCache_spec [where lo = lo and flags = flags and env = env, OF geom]) (use True warm in auto)
      then obtain c where c: "InitCache env (CCache_new disk lo hi N bs flags) = (True, c)" "cache_inv c"
        "\<And>u. u < INVALID_CACHE_ID \<Longrightarrow> cache_view c u = disk u"
        "m_dwStart c = lo" "m_dwEnd c = hi" "m_dwBlockSize c = bs"
        by blast
      then have "fresh_cache disk lo hi bs c" by (simp add: fresh_cache_def)
      with I N c(1) D [of c] none id(1) len(1) show ?thesis
        by (intro that [of id "?done c"]) auto
    next
      case False
      then have "\<exists>c. InitCache env (CCache_new disk lo hi N bs flags) = (False, c)"
        by (auto simp: InitCache_def Let_def)
      moreover have "put_cache t id None = t"
        using id l live_same(2) [OF id] by (simp add: put_cache_def)
      ultimately have "install_cache ae env disk lo hi N bs flags t = Some (INVALID_CACHE_ID, t)"
        using N by (auto simp: I)
      then show ?thesis using inv by (intro that [of INVALID_CACHE_ID t]) auto
    qed
  qed
qed

lemma CreateCache_spec:
  assumes inv: "table_inv t" and small: "g_dwTotalEntries t < 2 ^ 30" and new: "ae_new ae"
    and bs: "0 < bs" "bs < 2 ^ 32" "N * bs + BUFFER_SIZE < 2 ^ 32" and disk: "hi < INVALID_CACHE_ID" "\<forall>t. length (disk t) = bs"
    and warm: "CACHE_FLAG_WARM flags \<Longrightarrow> env_ok env"
  obtains id t' where "CreateCache ae env disk lo hi N bs flags t = Some (id, t')" and "table_inv t'"
    and "\<And>j c. j \<noteq> id \<or> id = INVALID_CACHE_ID \<Longrightarrow> GetCache t j = Found c \<longleftrightarrow> GetCache t' j = Found c"
    and "id = INVALID_CACHE_ID \<or>
      (\<forall>c. GetCache t id \<noteq> Found c) \<and> (\<exists>c. fresh_cache disk lo hi bs c \<and> GetCache t' id = Found c)"
proof -
  have size: "clamp_size lo hi N \<le> N" by (simp add: clamp_size_def Let_def)
  then have le: "clamp_size lo hi N * bs \<le> N * bs" by (rule mult_le_mono1)
  show ?thesis
  proof (cases "ensure_table ae t")
    case None
    then show ?thesis using inv by (intro that [of INVALID_CACHE_ID t]) (auto simp: CreateCache_def)
  next
    case (Some t1)
    note E = ensure_inv [OF inv Some]
    obtain l where l: "g_cacheTable t1 = Some l" using E(3) by blast
    show ?thesis
    proof (cases "grow_table ae t1")
      case None
      then show ?thesis using Some E by (intro that [of INVALID_CACHE_ID t1]) (auto simp: CreateCache_def)
    next
      case g: (Some t2)
      have "g_dwTotalEntries t1 < 2 ^ 30" using E(2) small by simp
      note G = grow_inv [OF E(1) l this g]
      obtain l2 where l2: "g_cacheTable t2 = Some l2" "live l2 < length l2" using G(2) by blast
      have eq: "GetCache t j = Found c \<longleftrightarrow> GetCache t2 j = Found c" for j c using E(4) G(3) by simp
      show ?thesis
      proof (cases "bad_block_size bs")
        case True
        then show ?thesis
          using Some g G(1) eq by (intro that [of INVALID_CACHE_ID t2]) (auto simp: CreateCache_def)
      next
        case False
        have geom: "geom_ok (clamp_size lo hi N) bs"
          using good_block_size [OF False] bs le unfolding geom_ok_def by linarith
        obtain id t' where I: "install_cache ae env disk lo hi (clamp_size lo hi N) bs flags t2 = Some (id, t')"
          "table_inv t'" "id = INVALID_CACHE_ID \<and> t' = t2 \<or>
            GetCache t2 id = NoCache \<and> id < g_dwTotalEntries t2 \<and>
            (\<exists>c. fresh_cache disk lo hi bs c \<and> (\<forall>j. GetCache t' j = (if j = id then Found c else GetCache t2 j)))"
          by (rule install_cache_spec [where lo = lo and flags = flags and env = env, OF G(1) l2 new geom disk warm]) auto
        have C: "CreateCache ae env disk lo hi N bs flags t = Some (id, t')"
          using Some g False I(1) by (simp add: CreateCache_def)
        have "g_dwTotalEntries t2 < 2 ^ 31" using G(1) by (simp add: table_inv_def)
        then have ne: "id < g_dwTotalEntries t2 \<Longrightarrow> id \<noteq> INVALID_CACHE_ID" by (auto simp: INVALID_CACHE_ID_def)
        show ?thesis
          by (rule that [OF C I(2)]) (use I(3) eq ne in auto)
      qed
    qed
  qed
qed

lemma DeleteCache_spec:
  assumes inv: "table_inv t" and f: "GetCache t i = Found c" and env: "env_ok env" and c: "cache_inv c"
  obtains c' t' where "DeleteCache env t i = Some (ERROR_SUCCESS, Some c', t')" and "table_inv t'"
    and "\<And>j. GetCache t' j = (if j = i then NoCache else GetCache t j)"
    and "\<And>u. u < INVALID_CACHE_ID \<Longrightarrow> dk_data c' u = cache_view c u"
proof -
  obtain l where l: "g_cacheTable t = Some l" "i < g_dwTotalEntries t" "l ! i = Some c"
    by (rule GetCache_FoundD [OF f])
  with inv have len: "length l = g_dwTotalEntries t" "g_dwCurEntries t = live l" "g_dwTotalEntries t < 2 ^ 31"
    by (simp_all add: table_inv_def)
  note up = live_update(2) [of i l c]
  have "sub32 (live l) 1 = live l - 1"
    using up l live_le [of l] len by (intro sub32_eq) auto
  then have cnt: "sub32 (g_dwCurEntries t) 1 = live (l[i := None])" using up l len by simp
  let ?c' = "snd (FlushCache env c None)"
  let ?t' = "(put_cache t i None)\<lparr>g_dwCurEntries := sub32 (g_dwCurEntries t) 1\<rparr>"
  have com: "commits c (flush_core env c None)" by (rule flush_commits [OF env c])
  have "dk_data ?c' u = cache_view c u" if "u < INVALID_CACHE_ID" for u
    using no_dirty_view [OF _ flush_all_clean [OF env c] that] com by (simp add: FlushCache_core commits_def)
  moreover have "DeleteCache env t i = Some (ERROR_SUCCESS, Some ?c', ?t')"
    using f by (simp add: DeleteCache_def Let_def) (simp add: put_cache_def)
  moreover have "table_inv ?t'"
    using inv l len cnt by (simp add: table_inv_def put_cache_def)
  moreover have "GetCache ?t' j = (if j = i then NoCache else GetCache t j)" for j
    using l len by (simp add: GetCache_def put_cache_def)
  ultimately show ?thesis by (intro that)
qed

end
