(* ===== verification/Disk_Cache_Runs.thy ===== *)
theory Disk_Cache_Runs
  imports Disk_Cache_Ops
begin

text \<open>
  Concrete caches and environments, and two runs of the operations on them step by step: a
  write that evicts a dirty block whose commit fails, and a lazy writer that keeps its index
  while the cache shrinks.
\<close>

section \<open>Environments and caches\<close>

definition fine_env :: io_env where
  "fine_env = \<lparr>env_fail = (\<lambda>n. None), env_moved = (\<lambda>n s. False), env_status = (\<lambda>n. 0), env_no_memory = (\<lambda>n. False),
     env_sg_extra = 31, env_local_alloc = (\<lambda>i. True), env_virtual_alloc = (\<lambda>i. True),
     env_delete_ioctl = True, env_flush_ioctl = True\<rparr>"
definition failing_env :: io_env where
  "failing_env = fine_env\<lparr>env_fail := (\<lambda>n. if n = 0 then Some 5 else None)\<rparr>"
definition small_cache :: "nat \<Rightarrow> ccache" where
  "small_cache N = snd (InitCache fine_env (CCache_new (\<lambda>t. [of_nat t]) 0 99 N 1
     \<lparr>CACHE_FLAG_WARM = False, CACHE_FLAG_WRITEBACK = True\<rparr>))"

lemmas arith32 = add32_def sub32_def mul32_def BUFFER_SIZE_def STATUS_DIRTY_def INVALID_CACHE_ID_def

lemmas errs = ERROR_SUCCESS_def ERROR_INVALID_PARAMETER_def

lemma small_cache_2: "small_cache 2 = \<lparr>m_dwStart = 0, m_dwEnd = 99, m_dwCacheSize = 2, m_dwBlockSize = 1,
   m_dwCreateFlags = \<lparr>CACHE_FLAG_WARM = False, CACHE_FLAG_WRITEBACK = True\<rparr>,
   m_fDisableSendDelete = False, m_fDisableSendFlush = False, m_dwDirtyCount = 0,
   m_pCacheLookup = [INVALID_CACHE_ID, INVALID_CACHE_ID], m_pStatus = [0, 0], m_apBufferPool = [[0, 0]],
   m_hDirtySectorsEvent = False, dk_data = (\<lambda>t. [of_nat t]), dk_count = 0\<rparr>"
  by (simp add: small_cache_def InitCache_def CCache_new_def fine_env_def TotalBuffers_def arith32 Let_def)
    (simp add: numeral_2_eq_2)

section \<open>A commit that fails\<close>

lemma failing_write_1: "WriteCache failing_env (small_cache 2) False 0 1 [7] = (ERROR_SUCCESS, (small_cache 2)
   \<lparr>m_pCacheLookup := [0, INVALID_CACHE_ID], m_pStatus := [1, 0], m_apBufferPool := [[7, 0]],
    m_hDirtySectorsEvent := True, m_dwDirtyCount := 1\<rparr>)"
  by (simp add: small_cache_2 WriteCache_def bad_range_def CommitDirtySectors_def commit_dirty_loop.simps
    wants_commit_def IsDirty_def GetIndex_def IsWriteBack_def arith32 errs cache_write_sector_def WriteToCacheBuffer_def SetDirtyStatus_def overwrite_def slice_def Let_def)

lemmas run_write = WriteCache_def bad_range_def CommitDirtySectors_def commit_dirty_loop.simps
    wants_commit_def IsDirty_def GetIndex_def IsWriteBack_def arith32 errs cache_write_sector_def
    WriteToCacheBuffer_def SetDirtyStatus_def overwrite_def slice_def Let_def

lemmas run_commit = CommitCacheSectors_def commit_loop.simps SectorsPerBuffer_def MAX_SG_BUF_def sg_bytes_def sg_piece_def
    ReadWriteDisk_write_def disk_write_def io_error_def transferred_def ClearDirtyStatus_def

lemmas run_read = ReadCache_def IsCached_def ReadWriteDisk_read_def disk_read_def cache_read_sector_def

lemma failing_write_2: "WriteCache failing_env ((small_cache 2)
   \<lparr>m_pCacheLookup := [0, INVALID_CACHE_ID], m_pStatus := [1, 0], m_apBufferPool := [[7, 0]],
    m_hDirtySectorsEvent := True, m_dwDirtyCount := 1\<rparr>) False 2 1 [8] = (ERROR_SUCCESS, (small_cache 2)
   \<lparr>m_pCacheLookup := [2, INVALID_CACHE_ID], m_pStatus := [1, 0], m_apBufferPool := [[8, 0]],
    m_hDirtySectorsEvent := True, m_dwDirtyCount := 1, dk_count := 1\<rparr>)"
  by (simp add: small_cache_2 run_write run_commit failing_env_def fine_env_def fun_eq_iff)

lemma failing_read: "\<exists>c. ReadCache failing_env ((small_cache 2)
   \<lparr>m_pCacheLookup := [2, INVALID_CACHE_ID], m_pStatus := [1, 0], m_apBufferPool := [[8, 0]],
    m_hDirtySectorsEvent := True, m_dwDirtyCount := 1, dk_count := 1\<rparr>) 0 1 [9] = (ERROR_SUCCESS, [0], c)"
  by (simp add: small_cache_2 run_read run_write run_commit failing_env_def fine_env_def fun_eq_iff)

lemma replicate_4: "replicate 4 x = [x, x, x, x]"
  by (simp add: eval_nat_numeral)

lemma small_cache_4: "small_cache 4 = \<lparr>m_dwStart = 0, m_dwEnd = 99, m_dwCacheSize = 4, m_dwBlockSize = 1,
   m_dwCreateFlags = \<lparr>CACHE_FLAG_WARM = False, CACHE_FLAG_WRITEBACK = True\<rparr>,
   m_fDisableSendDelete = False, m_fDisableSendFlush = False, m_dwDirtyCount = 0,
   m_pCacheLookup = [INVALID_CACHE_ID, INVALID_CACHE_ID, INVALID_CACHE_ID, INVALID_CACHE_ID], m_pStatus = [0, 0, 0, 0], m_apBufferPool = [[0, 0, 0, 0]],
   m_hDirtySectorsEvent = False, dk_data = (\<lambda>t. [of_nat t]), dk_count = 0\<rparr>"
  by (simp add: small_cache_def InitCache_def CCache_new_def fine_env_def TotalBuffers_def arith32 Let_def replicate_4)

section \<open>A cache that shrinks\<close>

definition lazy_state :: ccache where "lazy_state = snd (WriteCache fine_env (small_cache 4) False 2 1 [7])"

lemma lazy_state_eq: "lazy_state = (small_cache 4)\<lparr>m_pCacheLookup := [INVALID_CACHE_ID, INVALID_CACHE_ID, 2, INVALID_CACHE_ID], m_pStatus := [0, 0, 1, 0],
   m_apBufferPool := [[0, 0, 7, 0]], m_hDirtySectorsEvent := True, m_dwDirtyCount := 1\<rparr>"
  by (simp add: lazy_state_def small_cache_4 run_write)

lemma lazy_next: "next_dirty lazy_state 0 = 2"
  by (subst next_dirty.simps, simp add: lazy_state_eq small_cache_4 IsDirty_def STATUS_DIRTY_def,
      subst next_dirty.simps, simp add: lazy_state_eq small_cache_4 IsDirty_def STATUS_DIRTY_def,
      subst next_dirty.simps, simp add: lazy_state_eq small_cache_4 IsDirty_def STATUS_DIRTY_def)

lemma lazy_end: "run_end lazy_state 2 3 = 3"
  by (subst run_end.simps, simp add: lazy_state_eq small_cache_4 IsDirty_def STATUS_DIRTY_def)

lemma lazy_commit: "snd (CommitCacheSectors fine_env lazy_state 2 2) = ((small_cache 4)\<lparr>m_pCacheLookup := [INVALID_CACHE_ID, INVALID_CACHE_ID, 2, INVALID_CACHE_ID],
   m_apBufferPool := [[0, 0, 7, 0]], dk_data := (\<lambda>t. if t = 2 then [7] else [of_nat t]), dk_count := 1\<rparr>)"
  unfolding CommitCacheSectors_def
  by (simp add: lazy_state_eq small_cache_4 SectorsPerBuffer_def BUFFER_SIZE_def)
     (subst commit_loop.simps, simp add: ReadWriteDisk_write_def MAX_SG_BUF_def ClearDirtyStatus_def sg_bytes_def sg_piece_def SectorsPerBuffer_def fine_env_def arith32 slice_def Let_def, subst commit_loop.simps, simp add: fun_eq_iff disk_write_def transferred_def slice_def)

lemma lazy_round_1: "LazyWriterRound fine_env False lazy_state 0 = LazyNext 3 ((small_cache 4)\<lparr>m_pCacheLookup := [INVALID_CACHE_ID, INVALID_CACHE_ID, 2, INVALID_CACHE_ID],
   m_apBufferPool := [[0, 0, 7, 0]], dk_data := (\<lambda>t. if t = 2 then [7] else [of_nat t]), dk_count := 1\<rparr>)"
  using lazy_next lazy_end lazy_commit by (simp add: LazyWriterRound_def CommitNextDirtyRun_def Let_def) (simp add: lazy_state_eq small_cache_4)

lemma lazy_resize: "ResizeCache fine_env ((small_cache 4)\<lparr>m_pCacheLookup := [INVALID_CACHE_ID, INVALID_CACHE_ID, 2, INVALID_CACHE_ID],
   m_apBufferPool := [[0, 0, 7, 0]], dk_data := (\<lambda>t. if t = 2 then [7] else [of_nat t]), dk_count := 1\<rparr>) False 2 =
  (ERROR_SUCCESS, (small_cache 2)\<lparr>dk_data := (\<lambda>t. if t = 2 then [7] else [of_nat t]), dk_count := 1\<rparr>)"
  by (simp add: small_cache_4 small_cache_2 ResizeCache_def resize_buffers_def FlushCache_def send_flush_def arith32 errs fine_env_def Let_def)
    (simp add: numeral_2_eq_2)

lemma lazy_write: "WriteCache fine_env ((small_cache 2)\<lparr>dk_data := (\<lambda>t. if t = 2 then [7] else [of_nat t]), dk_count := 1\<rparr>) False 1 1 [8] =
  (ERROR_SUCCESS, (small_cache 2)\<lparr>m_pCacheLookup := [INVALID_CACHE_ID, 1], m_pStatus := [0, 1], m_apBufferPool := [[0, 8]],
   m_hDirtySectorsEvent := True, m_dwDirtyCount := 1, dk_data := (\<lambda>t. if t = 2 then [7] else [of_nat t]), dk_count := 1\<rparr>)"
  by (simp add: small_cache_2 run_write)

lemma lazy_round_2: "LazyWriterRound fine_env False ((small_cache 2)\<lparr>m_pCacheLookup := [INVALID_CACHE_ID, 1], m_pStatus := [0, 1], m_apBufferPool := [[0, 8]],
   m_hDirtySectorsEvent := True, m_dwDirtyCount := 1, dk_data := (\<lambda>t. if t = 2 then [7] else [of_nat t]), dk_count := 1\<rparr>) 3 = LazyCrash"
  by (simp add: small_cache_2 LazyWriterRound_def CommitNextDirtyRun_def next_dirty.simps)

end
