(* ===== verification/Disk_Cache_Theorems.thy ===== *)
theory Disk_Cache_Theorems
  imports Null_Cache Disk_Cache_Api Disk_Cache_Runs
begin

text \<open>
  The theorems about the sector cache, with witnesses on a cache of four blocks of one byte
  over a disk whose sector t holds the byte t.
\<close>

section \<open>A cache for the witnesses\<close>

lemma fine_env [simp]:
  "env_ok fine_env" "env_local_alloc fine_env i" "env_virtual_alloc fine_env i"
  by (simp_all add: env_ok_def fine_env_def)

lemma fine_geom: "0 < N \<Longrightarrow> N < 1000 \<Longrightarrow> geom_ok N 1"
  by (simp add: geom_ok_def BUFFER_SIZE_def)

lemma small_cache:
  assumes "0 < N" "N < 1000"
  shows "cache_inv (small_cache N)" "clean (small_cache N)" "m_dwCacheSize (small_cache N) = N"
    "m_dwStart (small_cache N) = 0" "m_dwEnd (small_cache N) = 99" "m_dwBlockSize (small_cache N) = 1"
    "\<And>u. u < INVALID_CACHE_ID \<Longrightarrow> cache_view (small_cache N) u = [of_nat u]"
proof -
  let ?f = "\<lparr>CACHE_FLAG_WARM = False, CACHE_FLAG_WRITEBACK = True\<rparr>"
  have "cache_inv (small_cache N) \<and> clean (small_cache N) \<and> m_dwCacheSize (small_cache N) = N \<and>
      m_dwStart (small_cache N) = 0 \<and> m_dwEnd (small_cache N) = 99 \<and> m_dwBlockSize (small_cache N) = 1 \<and>
      (\<forall>u < INVALID_CACHE_ID. cache_view (small_cache N) u = [of_nat u])"
    by (rule InitCache_spec [where disk = "\<lambda>t. [of_nat t]" and lo = 0 and hi = 99 and env = fine_env and flags = ?f,
        OF fine_geom [OF assms]])
      (simp_all add: small_cache_def INVALID_CACHE_ID_def)
  then show "cache_inv (small_cache N)" "clean (small_cache N)" "m_dwCacheSize (small_cache N) = N"
    "m_dwStart (small_cache N) = 0" "m_dwEnd (small_cache N) = 99" "m_dwBlockSize (small_cache N) = 1"
    "\<And>u. u < INVALID_CACHE_ID \<Longrightarrow> cache_view (small_cache N) u = [of_nat u]"
    by blast+
qed

lemmas small = small_cache [of 4, simplified]

lemma small_view: "u < 1000 \<Longrightarrow> cache_view (small_cache 4) u = [of_nat u]"
  by (rule small(7)) (simp add: INVALID_CACHE_ID_def)

text \<open>After a write of one byte to sector 2.\<close>

lemma lazy_state_inv:
  "cache_inv lazy_state" "m_dwCacheSize lazy_state = 4" "m_dwBlockSize lazy_state = 1"
  "u < 1000 \<Longrightarrow> cache_view lazy_state u = (if u = 2 then [7] else [of_nat u])"
proof -
  have good: "\<not> bad_range (small_cache 4) 2 1"
    using small(4,5) by (simp add: bad_range_def add32_def sub32_def)
  obtain c' where c': "WriteCache fine_env (small_cache 4) False 2 1 [7] = (ERROR_SUCCESS, c')"
    "represents c' (overlay (m_dwBlockSize (small_cache 4)) 2 1 [7] (cache_view (small_cache 4))) {}"
    by (rule WriteCache_spec [OF fine_env(1) small(1) good, of "[7]" False]) (use small(6) in simp_all)
  have eq: "lazy_state = c'" using c'(1) by (simp add: lazy_state_def)
  show "cache_inv lazy_state" unfolding eq by (rule represents_inv [OF c'(2)])
  show "cache_view lazy_state u = (if u = 2 then [7] else [of_nat u])" if "u < 1000"
    using represents_view [OF c'(2), of u] that small(6) small_view [of u]
    by (auto simp: eq overlay_def slice_def INVALID_CACHE_ID_def)
  show "m_dwCacheSize lazy_state = 4" "m_dwBlockSize lazy_state = 1"
    by (simp_all add: lazy_state_eq small_cache_4)
qed

section \<open>Reading and writing\<close>

text \<open>C10. The sector cache is transparent: over a disk that does not fail, every sequence of
  in-range reads, writes, flushes and rounds of the lazy writer returns to its client what
  a plain array of sectors with the initial contents would return.\<close>
theorem cache_refines_array:
  assumes "env_ok env" and "cache_inv c"
    and "list_all (op_ok (m_dwStart c, m_dwEnd c, m_dwBlockSize c)) ps"
  shows "run_ops dc_read dc_write dc_event (env, c) ps = spec_ops (m_dwBlockSize c) (cache_view c) ps"
  using dc.run_refines [of "(env, c)" ps "cache_view c"] assms
  by (simp add: dc_ok_def dc_geo_def dc_view_def)

theorem cache_refines_array_witness:
  "run_ops dc_read dc_write dc_event (fine_env, small_cache 4)
     [BWrite 2 1 [7], BWrite 6 1 [8], BBack (LazyRound 0), BRead 2 1, BBack (Flush None), BRead 5 2] =
   [[7], [5, 8]]"
proof -
  have r: "[Suc 0..<3] = [1, 2]" "[2..<3] = [2]" "[5..<7] = [5, 6]" by (simp_all add: upt_rec)
  show ?thesis
    using cache_refines_array [OF fine_env(1) small(1),
        of "[BWrite 2 1 [7], BWrite 6 1 [8], BBack (LazyRound 0), BRead 2 1, BBack (Flush None), BRead 5 2]"]
    by (simp add: op_ok_def small(4-6) spec_write_def block_of_def r small_view)
qed

text \<open>C11. The sector cache and the cache that forwards every request are interchangeable: on
  disks with the same contents they give the same results for every sequence of in-range
  operations.\<close>
theorem caches_equivalent:
  assumes "env_ok env" and "cache_inv c" and "\<forall>t. length (nc_data nc t) = nc_dwBlockSize nc"
    and "nc_dwBlockSize nc = m_dwBlockSize c" and "\<forall>u \<le> m_dwEnd c. nc_data nc u = cache_view c u"
    and "list_all (op_ok (m_dwStart c, m_dwEnd c, m_dwBlockSize c)) ps"
  shows "run_ops dc_read dc_write dc_event (env, c) ps = run_ops nl_read nl_write nl_event (env, nc) ps"
proof -
  define V where "V u = (if u \<le> m_dwEnd c then cache_view c u else nc_data nc u)" for u
  have "m_dwEnd c < INVALID_CACHE_ID" using cache_invD(2) [OF assms(2)] by (simp add: tables_ok_def)
  then have weaken: "op_ok (m_dwStart c, m_dwEnd c, bs) p \<Longrightarrow> op_ok (0, INVALID_CACHE_ID - 1, bs) p"
    for bs and p :: "cache_event bop"
    by (cases p) (auto simp: op_ok_def)
  have "run_ops dc_read dc_write dc_event (env, c) ps = spec_ops (m_dwBlockSize c) V ps"
    using dc.run_refines [of "(env, c)" ps V] assms(1,2,6) by (simp add: dc_ok_def dc_geo_def dc_view_def V_def)
  moreover have "run_ops nl_read nl_write nl_event (env, nc) ps = spec_ops (m_dwBlockSize c) V ps"
    using nl.run_refines [of "(env, nc)" ps V] assms(1,3-6) weaken
    by (simp add: nl_ok_def nl_geo_def nl_view_def V_def list.pred_mono_strong)
  ultimately show ?thesis by simp
qed

definition small_null :: nullcache where
  "small_null = \<lparr>hDsk = 1, nc_dwBlockSize = 1, nc_disable_delete = False, nc_disable_flush = False,
     nc_data = (\<lambda>t. [of_nat t]), nc_count = 0\<rparr>"

theorem caches_equivalent_witness:
  "run_ops dc_read dc_write dc_event (fine_env, small_cache 4)
     [BWrite 3 2 [9, 8], BBack (LazyRound 1), BRead 2 3] =
   run_ops nl_read nl_write nl_event (fine_env, small_null)
     [BWrite 3 2 [9, 8], BBack (LazyRound 1), BRead 2 3]"
  by (rule caches_equivalent [OF fine_env(1) small(1)])
    (simp_all add: small_null_def small(4-6) small_view op_ok_def)

text \<open>C12. Over a disk that does not fail, a read inside the range of the cache succeeds and
  returns the contents of the sectors, cached or not, dirty or not; it keeps the invariant
  and changes no contents.\<close>
theorem ReadCache_correct:
  assumes "env_ok env" and "cache_inv c" and "\<not> bad_range c s n" and "s < 2 ^ 32" and "n < 2 ^ 32"
    and "length buf = n * m_dwBlockSize c"
  shows "\<exists>c'. ReadCache env c s n buf = (ERROR_SUCCESS, concat (map (cache_view c) [s..<s + n]), c') \<and>
    cache_inv c' \<and> (\<forall>u < INVALID_CACHE_ID. cache_view c' u = cache_view c u)"
  by (rule ReadCache_spec [OF assms]) blast

theorem ReadCache_correct_witness:
  "\<exists>c'. ReadCache fine_env lazy_state 1 2 [0, 0] = (ERROR_SUCCESS, [1, 7], c') \<and> cache_inv c' \<and>
    (\<forall>u < INVALID_CACHE_ID. cache_view c' u = cache_view lazy_state u)"
proof -
  have "\<not> bad_range lazy_state 1 2"
    by (simp add: bad_range_def lazy_state_eq small_cache_4 add32_def sub32_def)
  from ReadCache_correct [OF fine_env(1) lazy_state_inv(1) this, of "[0, 0]"] show ?thesis
    by (simp add: lazy_state_inv(3,4) numeral_3_eq_3 upt_rec)
qed

text \<open>C13. A write inside the range succeeds, replaces the contents of its sectors by its blocks
  and nothing else, and keeps the invariant, in write-back and in write-through mode, whether
  the range is larger than the cache or not.\<close>
theorem WriteCache_correct:
  assumes "env_ok env" and "cache_inv c" and "\<not> bad_range c s n" and "s < 2 ^ 32" and "n < 2 ^ 32"
    and "length buf = n * m_dwBlockSize c"
  shows "\<exists>c'. WriteCache env c force s n buf = (ERROR_SUCCESS, c') \<and> cache_inv c' \<and>
    (\<forall>u < INVALID_CACHE_ID. cache_view c' u =
       (if s \<le> u \<and> u < s + n then slice (m_dwBlockSize c) buf (u - s) else cache_view c u))"
proof -
  obtain c' where "WriteCache env c force s n buf = (ERROR_SUCCESS, c')"
    and c': "represents c' (overlay (m_dwBlockSize c) s n buf (cache_view c)) {}"
    by (rule WriteCache_spec [OF assms])
  with represents_inv [OF c'] represents_view [OF c'] show ?thesis by (simp add: overlay_def)
qed

theorem WriteCache_correct_witness:
  "\<exists>c'. WriteCache fine_env lazy_state False 6 1 [9] = (ERROR_SUCCESS, c') \<and> cache_inv c' \<and>
    cache_view c' 6 = [9] \<and> cache_view c' 2 = [7]"
proof -
  have "\<not> bad_range lazy_state 6 1"
    by (simp add: bad_range_def lazy_state_eq small_cache_4 add32_def sub32_def)
  from WriteCache_correct [OF fine_env(1) lazy_state_inv(1) this, of "[9]" False] show ?thesis
    by (auto simp: lazy_state_inv(3,4) INVALID_CACHE_ID_def slice_def)
qed

section \<open>What reaches the disk\<close>

text \<open>C14. After a flush of the whole cache nothing is dirty and the disk holds the contents of
  the cache, sector by sector.\<close>
theorem FlushCache_durable:
  assumes "env_ok env" and "cache_inv c"
  shows "\<exists>c'. FlushCache env c None = (ERROR_SUCCESS, c') \<and> cache_inv c' \<and> dirty_set c' = {} \<and>
    cache_view c' = cache_view c \<and> (\<forall>u < INVALID_CACHE_ID. dk_data c' u = cache_view c u)"
  using flush_commits [OF assms, of None] flush_all_clean [OF assms] no_dirty_view
  by (auto simp: FlushCache_core commits_def)

theorem FlushCache_durable_witness:
  "\<exists>c'. FlushCache fine_env lazy_state None = (ERROR_SUCCESS, c') \<and> dk_data c' 2 = [7] \<and> dk_data c' 3 = [3]"
  using FlushCache_durable [OF fine_env(1) lazy_state_inv(1)] lazy_state_inv(4) [of 2] lazy_state_inv(4) [of 3]
  by (auto simp: INVALID_CACHE_ID_def)

text \<open>A flush of a list of sector ranges puts every sector of every range on the disk, and
  changes no contents.\<close>
theorem FlushCache_list_durable:
  assumes "env_ok env" and "cache_inv c" and "\<forall>(s, n) \<in> set l. s + n \<le> INVALID_CACHE_ID"
  shows "\<exists>c'. FlushCache env c (Some l) = (ERROR_SUCCESS, c') \<and> cache_inv c' \<and> cache_view c' = cache_view c \<and>
    (\<forall>(s, n) \<in> set l. \<forall>u. s \<le> u \<and> u < s + n \<longrightarrow> dk_data c' u = cache_view c u)"
  using flush_commits [OF assms(1,2), of "Some l"] flush_list_durable [OF assms]
  by (auto simp: FlushCache_core commits_def)

theorem FlushCache_list_durable_witness:
  "\<exists>c'. FlushCache fine_env lazy_state (Some [(1, 2)]) = (ERROR_SUCCESS, c') \<and> dk_data c' 2 = [7]"
  using FlushCache_list_durable [OF fine_env(1) lazy_state_inv(1), of "[(1, 2)]"] lazy_state_inv(4) [of 2]
  by (auto simp: INVALID_CACHE_ID_def)

text \<open>C15. The lazy writer makes progress: from any index inside the cache, twice as many rounds
  as there are dirty blocks clean the cache, change no contents, and leave the thread
  blocked until the next write.\<close>
theorem lazy_writer_drains:
  assumes "env_ok env" and "cache_inv c" and "i \<le> m_dwCacheSize c" and "2 * card (dirty_set c) \<le> k"
  shows "dirty_set (snd (lazy_run env k (i, c))) = {} \<and> cache_view (snd (lazy_run env k (i, c))) = cache_view c \<and>
    LazyWriterRound env False (snd (lazy_run env k (i, c))) j = LazyBlocked \<and>
    (\<forall>u < INVALID_CACHE_ID. dk_data (snd (lazy_run env k (i, c))) u = cache_view c u)"
proof -
  have d: "commits c (snd (lazy_run env k (i, c)))" "dirty_set (snd (lazy_run env k (i, c))) = {}"
    using lazy_run_drains [OF assms(1-3)] lazy_work_le [of i c] assms(4) by (auto intro: le_trans)
  then have inv: "cache_inv (snd (lazy_run env k (i, c)))" by (simp add: commits_def)
  show ?thesis
    using d lazy_event [OF inv] no_dirty_view [OF inv d(2)] by (simp add: commits_def LazyWriterRound_def)
qed

theorem lazy_writer_drains_witness:
  "LazyWriterRound fine_env False (snd (lazy_run fine_env 8 (3, lazy_state))) 0 = LazyBlocked \<and>
   dk_data (snd (lazy_run fine_env 8 (3, lazy_state))) 2 = [7]"
  using lazy_writer_drains [OF fine_env(1) lazy_state_inv(1), of 3 8 0] dirty_card_bound [of lazy_state]
    lazy_state_inv(4) [of 2]
  by (simp add: lazy_state_inv(2) INVALID_CACHE_ID_def)

text \<open>An invalidation discards what the cache holds of the listed sectors, dirty or not: their
  contents become those of the disk, which is not written; the other sectors keep theirs.\<close>
theorem InvalidateCache_reverts:
  assumes "cache_inv c" and "m_dwCacheSize c \<noteq> 0" and "\<forall>(s, n) \<in> set l. s + n \<le> INVALID_CACHE_ID"
  shows "\<exists>c'. InvalidateCache c l = Some c' \<and> cache_inv c' \<and> dk_data c' = dk_data c \<and>
    (\<forall>u < INVALID_CACHE_ID. cache_view c' u =
       (if \<exists>(s, n) \<in> set l. s \<le> u \<and> u < s + n then dk_data c u else cache_view c u))"
  by (rule invalidate_sectors [OF assms])

theorem InvalidateCache_reverts_witness:
  "\<exists>c'. InvalidateCache lazy_state [(1, 2)] = Some c' \<and> cache_view c' 2 = [2] \<and> cache_view c' 3 = [3]"
proof -
  have "dk_data lazy_state 2 = [2]" by (simp add: lazy_state_eq small_cache_4)
  then show ?thesis
    using InvalidateCache_reverts [OF lazy_state_inv(1), of "[(1, 2)]"] lazy_state_inv(4) [of 3]
    by (auto simp: lazy_state_inv(2) INVALID_CACHE_ID_def)
qed

lemma write_sector_disk: "dk_data (fold (cache_write_sector s buf f) ts c) = dk_data c"
proof -
  have "dk_data (cache_write_sector s buf f t c) = dk_data c" for t c
    by (simp add: cache_write_sector_def WriteToCacheBuffer_def SetDirtyStatus_def Let_def)
  then show ?thesis by (induction ts arbitrary: c) auto
qed

text \<open>A write that is forced through, goes to a write-through cache, or is larger than the
  cache is on the disk when it returns.\<close>
theorem WriteCache_through_durable:
  assumes env: "env_ok env" and inv: "cache_inv c" and good: "\<not> bad_range c s n"
    and through: "force \<or> \<not> IsWriteBack c \<or> n > m_dwCacheSize c" and u: "s \<le> u" "u < s + n"
  shows "dk_data (snd (WriteCache env c force s n buf)) u = slice (m_dwBlockSize c) buf (u - s)"
proof -
  have w: "dk_data (snd (ReadWriteDisk_write env d s n buf)) u = slice (m_dwBlockSize d) buf (u - s)" for d
    using env u by (simp add: write_data disk_write_def transferred_def env_ok_def)
  have size: "m_dwCacheSize (snd (ReadWriteDisk_write env d s n buf)) = m_dwCacheSize d"
    "IsWriteBack (snd (ReadWriteDisk_write env d s n buf)) = IsWriteBack d" for d
    by (simp_all add: ReadWriteDisk_write_def IsWriteBack_def)
  consider (none) "m_dwCacheSize c = 0" | (wb) "m_dwCacheSize c \<noteq> 0" "IsWriteBack c"
    | (wt) "m_dwCacheSize c \<noteq> 0" "\<not> IsWriteBack c" by blast
  then show ?thesis
  proof cases
    case none
    then show ?thesis using w [of c] good by (simp add: WriteCache_def)
  next
    case wb
    let ?c = "CommitDirtySectors env c s n COMMIT_DIFF_SECTORS"
    have com: "commits c ?c" by (rule CommitDirtySectors_commits [OF env inv wb(1)])
    then have c: "m_dwCacheSize ?c = m_dwCacheSize c" "IsWriteBack ?c = IsWriteBack c"
      "m_dwBlockSize ?c = m_dwBlockSize c"
      by (simp_all add: commits_def same_static_def IsWriteBack_def)
    have "n > m_dwCacheSize c \<or> force" using through wb by blast
    from WriteCache_back_through [OF good wb this refl c(1,2) write_run [OF env]] show ?thesis
      using w [of ?c] c size by (simp add: write_sector_disk)
  next
    case wt
    from WriteCache_through [OF good wt write_run [OF env] size(2)] show ?thesis
      using w [of c] by (simp add: write_sector_disk)
  qed
qed

theorem WriteCache_through_durable_witness:
  "dk_data (snd (WriteCache fine_env lazy_state True 6 1 [9])) 6 = [9]"
proof -
  have "\<not> bad_range lazy_state 6 1"
    by (simp add: bad_range_def lazy_state_eq small_cache_4 add32_def sub32_def)
  from WriteCache_through_durable [OF fine_env(1) lazy_state_inv(1) this, of True 6 "[9]"] show ?thesis
    by (simp add: lazy_state_inv(3) slice_def)
qed

section \<open>Creating, resizing, deleting\<close>

text \<open>C16. A created cache satisfies the invariant, has nothing dirty and has the contents of the
  disk, warmed or not, and whether or not all of its buffers could be allocated: it is then
  smaller than requested.\<close>
theorem InitCache_establishes:
  assumes "geom_ok N bs" and "hi < INVALID_CACHE_ID" and "\<forall>t. length (disk t) = bs" and "env_ok env"
    and "env_local_alloc env 0" and "env_local_alloc env 1" and "env_local_alloc env 2"
  shows "\<exists>c. InitCache env (CCache_new disk lo hi N bs flags) = (True, c) \<and> cache_inv c \<and> dirty_set c = {} \<and>
    (\<forall>u < INVALID_CACHE_ID. cache_view c u = disk u) \<and> m_dwCacheSize c \<le> N \<and>
    ((\<forall>i. env_virtual_alloc env i) \<longrightarrow> m_dwCacheSize c = N)"
  by (rule InitCache_spec [where lo = lo and flags = flags, OF assms(1-3,5-7) assms(4)])
    (auto simp: clean_def)

theorem InitCache_establishes_witness:
  "\<exists>c. InitCache fine_env (CCache_new (\<lambda>t. replicate 512 0) 10 5000 300 512
      \<lparr>CACHE_FLAG_WARM = True, CACHE_FLAG_WRITEBACK = True\<rparr>) = (True, c) \<and>
    cache_inv c \<and> m_dwCacheSize c = 300"
proof -
  have "geom_ok 300 512" by (simp add: geom_ok_def BUFFER_SIZE_def)
  from InitCache_establishes [OF this, of 5000 "\<lambda>t. replicate 512 0" fine_env 10
      "\<lparr>CACHE_FLAG_WARM = True, CACHE_FLAG_WRITEBACK = True\<rparr>"] show ?thesis
    by (auto simp: INVALID_CACHE_ID_def)
qed

text \<open>Resizing keeps the contents: it flushes first, and the resized cache satisfies the
  invariant and has no dirty block.  A size equal to the block size, and only that, is
  silently ignored; otherwise the new size is the requested one if the buffers can be allocated.\<close>
theorem ResizeCache_keeps_contents:
  assumes "env_ok env" and "cache_inv c" and "geom_ok M (m_dwBlockSize c)"
    and "env_local_alloc env 0" and "env_local_alloc env 1" and "env_local_alloc env 2"
  shows "\<exists>c'. ResizeCache env c fWarm M = (ERROR_SUCCESS, c') \<and> cache_inv c' \<and>
    (\<forall>u < INVALID_CACHE_ID. cache_view c' u = cache_view c u) \<and>
    (if M = m_dwBlockSize c then c' = c
     else dirty_set c' = {} \<and> m_dwCacheSize c' \<le> M \<and> ((\<forall>i. env_virtual_alloc env i) \<longrightarrow> m_dwCacheSize c' = M))"
proof (cases "M = m_dwBlockSize c")
  case True
  then show ?thesis using assms(2) by (simp add: ResizeCache_def Let_def)
next
  case False
  show ?thesis
    by (rule ResizeCache_spec [where fWarm = fWarm, OF assms False]) (use False in \<open>auto simp: clean_def\<close>)
qed

theorem ResizeCache_keeps_contents_witness:
  "(\<exists>c'. ResizeCache fine_env lazy_state True 9 = (ERROR_SUCCESS, c') \<and> m_dwCacheSize c' = 9 \<and> cache_view c' 2 = [7]) \<and>
   ResizeCache fine_env lazy_state True 1 = (ERROR_SUCCESS, lazy_state)"
proof -
  have g: "geom_ok 9 (m_dwBlockSize lazy_state)" "geom_ok 1 (m_dwBlockSize lazy_state)"
    by (simp_all add: lazy_state_inv(3) geom_ok_def BUFFER_SIZE_def)
  show ?thesis
    using ResizeCache_keeps_contents [OF fine_env(1) lazy_state_inv(1) g(1), of True]
      ResizeCache_keeps_contents [OF fine_env(1) lazy_state_inv(1) g(2), of True]
      lazy_state_inv(4) [of 2]
    by (auto simp: lazy_state_inv(3) INVALID_CACHE_ID_def)
qed

text \<open>Creating a cache keeps the table well formed and every existing identifier valid; it
  returns either the invalid identifier or an unused one, which from then on denotes a cache
  that satisfies the invariant and has the contents of the disk.\<close>
theorem CreateCache_fresh:
  assumes "table_inv t" and "g_dwTotalEntries t < 2 ^ 30" and "ae_new ae"
    and "0 < bs" and "bs < 2 ^ 32" and "N * bs + BUFFER_SIZE < 2 ^ 32"
    and "hi < INVALID_CACHE_ID" and "\<forall>t. length (disk t) = bs" and "env_ok env"
  shows "\<exists>id t'. CreateCache ae env disk lo hi N bs flags t = Some (id, t') \<and> table_inv t' \<and>
    (\<forall>j c. GetCache t j = Found c \<longrightarrow> GetCache t' j = Found c) \<and>
    (id = INVALID_CACHE_ID \<or>
     (\<forall>c. GetCache t id \<noteq> Found c) \<and> (\<exists>c. fresh_cache disk lo hi bs c \<and> GetCache t' id = Found c))"
proof (rule CreateCache_spec [where lo = lo and N = N and flags = flags, OF assms(1-8) assms(9)])
  fix id t'
  assume C: "CreateCache ae env disk lo hi N bs flags t = Some (id, t')" "table_inv t'"
    and keep: "\<And>j c. j \<noteq> id \<or> id = INVALID_CACHE_ID \<Longrightarrow> GetCache t j = Found c \<longleftrightarrow> GetCache t' j = Found c"
    and new: "id = INVALID_CACHE_ID \<or>
      (\<forall>c. GetCache t id \<noteq> Found c) \<and> (\<exists>c. fresh_cache disk lo hi bs c \<and> GetCache t' id = Found c)"
  have "\<forall>j c. GetCache t j = Found c \<longrightarrow> GetCache t' j = Found c" using keep new by metis
  with C new show ?thesis by blast
qed

definition all_allocs :: api_env where "all_allocs = \<lparr>ae_table = True, ae_realloc = True, ae_new = True\<rparr>"

theorem CreateCache_fresh_witness:
  "\<exists>id t'. CreateCache all_allocs fine_env (\<lambda>t. [of_nat t]) 0 99 4 1
      \<lparr>CACHE_FLAG_WARM = True, CACHE_FLAG_WRITEBACK = True\<rparr> empty_table = Some (id, t') \<and> table_inv t'"
proof -
  have "table_inv empty_table" by (simp add: table_inv_def empty_table_def DEFAULT_NUM_TABLE_ENTRIES_def)
  from CreateCache_fresh [OF this, of all_allocs 1 4 99 "\<lambda>t. [of_nat t]" fine_env 0
      "\<lparr>CACHE_FLAG_WARM = True, CACHE_FLAG_WRITEBACK = True\<rparr>"] show ?thesis
    by (auto simp: all_allocs_def empty_table_def DEFAULT_NUM_TABLE_ENTRIES_def BUFFER_SIZE_def INVALID_CACHE_ID_def)
qed

text \<open>C17. Deleting a cache frees its identifier and no other, keeps the table well formed, and
  leaves the contents of the cache on its disk.\<close>
theorem DeleteCache_durable:
  assumes "table_inv t" and "GetCache t i = Found c" and "env_ok env" and "cache_inv c"
  shows "\<exists>c' t'. DeleteCache env t i = Some (ERROR_SUCCESS, Some c', t') \<and> table_inv t' \<and>
    (\<forall>j. GetCache t' j = (if j = i then NoCache else GetCache t j)) \<and>
    (\<forall>u < INVALID_CACHE_ID. dk_data c' u = cache_view c u)"
  by (rule DeleteCache_spec [OF assms]) blast

theorem DeleteCache_durable_witness:
  "\<exists>c' t'. DeleteCache fine_env \<lparr>g_cacheTable = Some [Some lazy_state], g_dwTotalEntries = 1, g_dwCurEntries = 1\<rparr> 0 =
     Some (ERROR_SUCCESS, Some c', t') \<and> dk_data c' 2 = [7] \<and> GetCache t' 0 = NoCache"
proof -
  let ?t = "\<lparr>g_cacheTable = Some [Some lazy_state], g_dwTotalEntries = 1, g_dwCurEntries = 1\<rparr>"
  have "table_inv ?t" "GetCache ?t 0 = Found lazy_state"
    by (simp_all add: table_inv_def live_def GetCache_def)
  from DeleteCache_durable [OF this fine_env(1) lazy_state_inv(1)] lazy_state_inv(4) [of 2] show ?thesis
    by (auto simp: INVALID_CACHE_ID_def)
qed

section \<open>Failures the operations do not report\<close>

text \<open>A failed commit is lost without an error: a write of sector 2 evicts the dirty sector 0
  while the disk fails the commit, both writes and the following read return success, and the
  read of sector 0 does not return what was written to it.\<close>
theorem failed_commit_is_silent:
  "\<exists>c1 c2 c3. WriteCache failing_env (small_cache 2) False 0 1 [7] = (ERROR_SUCCESS, c1) \<and>
     WriteCache failing_env c1 False 2 1 [8] = (ERROR_SUCCESS, c2) \<and>
     ReadCache failing_env c2 0 1 [9] = (ERROR_SUCCESS, [0], c3)"
  using failing_write_1 failing_write_2 failing_read by blast

text \<open>The index of the lazy writer is not reset when the cache shrinks: after a round on a
  cache of four blocks and a resize to two, the next dirty block makes the round read past the
  end of the arrays.\<close>
theorem lazy_writer_index_after_shrink:
  "\<exists>nxt c1 c2 c3. LazyWriterRound fine_env False lazy_state 0 = LazyNext nxt c1 \<and>
     ResizeCache fine_env c1 False 2 = (ERROR_SUCCESS, c2) \<and>
     WriteCache fine_env c2 False 1 1 [8] = (ERROR_SUCCESS, c3) \<and>
     LazyWriterRound fine_env False c3 nxt = LazyCrash"
  using lazy_round_1 lazy_resize lazy_write lazy_round_2 by blast

text \<open>On a cache whose last sector is the largest number, a read that ends there reads
  nothing: the bound of the loops wraps to 0, and the call returns success with the buffer
  as it was.\<close>
theorem read_at_top_wraps:
  assumes "m_dwEnd c = 2 ^ 32 - 1" and "m_dwStart c \<le> s" and "s + n = 2 ^ 32" and "0 < n"
    and "n \<le> m_dwCacheSize c"
  shows "ReadCache env c s n buf = (ERROR_SUCCESS, buf, c)"
proof -
  have "add32 s n = 0" using assms(3) by (simp add: add32_def)
  moreover have "sub32 0 1 = 2 ^ 32 - 1" by (simp add: sub32_def)
  ultimately show ?thesis using assms by (simp add: ReadCache_def bad_range_def Let_def)
qed

theorem read_at_top_wraps_witness:
  "ReadCache fine_env ((small_cache 4)\<lparr>m_dwEnd := 4294967295\<rparr>) 4294967295 1 [9] =
   (ERROR_SUCCESS, [9], (small_cache 4)\<lparr>m_dwEnd := 4294967295\<rparr>)"
  by (rule read_at_top_wraps) (simp_all add: small(3,4))

end
