(* ===== verification/Dos_Sector.thy ===== *)
theory Dos_Sector
  imports Storage_Prelude
begin

text \<open>
  Sectors with a partition table (\<open>DOSPART/part.h\<close>): a sector is a list of bytes, the table
  has four entries of 16 bytes at offset 446, and the signature is the word at offset 510.
  Numbers are stored with the least significant byte first.
\<close>

section \<open>Partition entries\<close>

definition PARTTABLE_OFFSET :: nat where "PARTTABLE_OFFSET = 512 - 2 - 16 * 4"
definition BOOT_SIGNATURE :: nat where "BOOT_SIGNATURE = 512 - 2"
definition BOOTSECTRAILSIGH :: nat where "BOOTSECTRAILSIGH = 0xAA55"
definition SIZE_PARTTABLE_ENTRIES :: nat where "SIZE_PARTTABLE_ENTRIES = 16"

definition PART_DOS2_FAT :: BYTE where "PART_DOS2_FAT = 0x01"
definition PART_DOS3_FAT :: BYTE where "PART_DOS3_FAT = 0x04"
definition PART_EXTENDED :: BYTE where "PART_EXTENDED = 0x05"
definition PART_DOS4_FAT :: BYTE where "PART_DOS4_FAT = 0x06"
definition PART_DOS32 :: BYTE where "PART_DOS32 = 0x0B"
definition PART_DOS32X13 :: BYTE where "PART_DOS32X13 = 0x0C"
definition PART_DOSX13 :: BYTE where "PART_DOSX13 = 0x0E"
definition PART_DOSX13X :: BYTE where "PART_DOSX13X = 0x0F"
definition PART_BOOTSECTION :: BYTE where "PART_BOOTSECTION = 0x20"
definition PART_BINARY :: BYTE where "PART_BINARY = 0x26"
definition HIDDEN_PART_TYPE :: BYTE where "HIDDEN_PART_TYPE = 0x18"
definition PART_BOOTABLE :: BYTE where "PART_BOOTABLE = 0x80"
definition PART_READONLY :: BYTE where "PART_READONLY = 0x02"

record partentry =
  Part_BootInd :: BYTE
  Part_FirstHead :: BYTE
  Part_FirstSector :: BYTE
  Part_FirstTrack :: BYTE
  Part_FileSystem :: BYTE
  Part_LastHead :: BYTE
  Part_LastSector :: BYTE
  Part_LastTrack :: BYTE
  Part_StartSector :: nat
  Part_TotalSectors :: nat

definition entry_bytes :: "partentry \<Rightarrow> BYTE list" where
  "entry_bytes e =
     [Part_BootInd e, Part_FirstHead e, Part_FirstSector e, Part_FirstTrack e, Part_FileSystem e,
      Part_LastHead e, Part_LastSector e, Part_LastTrack e] @
     dword_bytes (Part_StartSector e) @ dword_bytes (Part_TotalSectors e)"

definition bytes_entry :: "BYTE list \<Rightarrow> partentry" where
  "bytes_entry b =
     \<lparr>Part_BootInd = b ! 0, Part_FirstHead = b ! 1, Part_FirstSector = b ! 2, Part_FirstTrack = b ! 3,
      Part_FileSystem = b ! 4, Part_LastHead = b ! 5, Part_LastSector = b ! 6, Part_LastTrack = b ! 7,
      Part_StartSector = get_dword b 8, Part_TotalSectors = get_dword b 12\<rparr>"

definition zero_entry :: partentry where
  "zero_entry = bytes_entry (replicate 16 0)"

definition entry_ok :: "partentry \<Rightarrow> bool" where
  "entry_ok e \<longleftrightarrow> Part_StartSector e < 2 ^ 32 \<and> Part_TotalSectors e < 2 ^ 32"

lemma length_entry_bytes [simp]: "length (entry_bytes e) = 16"
  by (simp add: entry_bytes_def)

lemma get_dword_append:
  assumes "length a = i" and "4 \<le> length b"
  shows "get_dword (a @ b @ c) i = get_dword b 0"
proof -
  have "(a @ b @ c) ! (i + k) = b ! k" if "k < 4" for k
    using assms that by (simp add: nth_append)
  from this [of 0] this [of 1] this [of 2] this [of 3] show ?thesis
    by (simp add: get_dword_def get_word_def numeral_2_eq_2 numeral_3_eq_3)
qed

lemma bytes_entry_bytes: "entry_ok e \<Longrightarrow> bytes_entry (entry_bytes e) = e"
proof -
  assume ok: "entry_ok e"
  define h where "h = [Part_BootInd e, Part_FirstHead e, Part_FirstSector e, Part_FirstTrack e, Part_FileSystem e,
      Part_LastHead e, Part_LastSector e, Part_LastTrack e]"
  have e: "entry_bytes e = h @ dword_bytes (Part_StartSector e) @ dword_bytes (Part_TotalSectors e)"
    by (simp add: entry_bytes_def h_def)
  have h: "length h = 8" by (simp add: h_def)
  have s: "get_dword (entry_bytes e) 8 = Part_StartSector e"
    unfolding e using ok h by (simp add: get_dword_append get_dword_bytes entry_ok_def)
  have "get_dword ((h @ dword_bytes (Part_StartSector e)) @ dword_bytes (Part_TotalSectors e) @ []) 12 =
      get_dword (dword_bytes (Part_TotalSectors e)) 0"
    by (rule get_dword_append) (simp_all add: h)
  then have t: "get_dword (entry_bytes e) 12 = Part_TotalSectors e"
    using ok by (simp add: e get_dword_bytes entry_ok_def)
  show ?thesis
    by (rule partentry.equality) (simp_all add: bytes_entry_def s t, simp_all add: entry_bytes_def)
qed

section \<open>Entries of a sector\<close>

definition get_entry :: "BYTE list \<Rightarrow> nat \<Rightarrow> partentry" where
  "get_entry b i = bytes_entry (take 16 (drop (PARTTABLE_OFFSET + i * 16) b))"

definition put_entry :: "BYTE list \<Rightarrow> nat \<Rightarrow> partentry \<Rightarrow> BYTE list" where
  "put_entry b i e = overwrite b (PARTTABLE_OFFSET + i * 16) (entry_bytes e)"

text \<open>\<open>memcpy\<close> of an entry, which copies the 16 bytes, and \<open>memset\<close> to zero.\<close>

definition copy_entry :: "BYTE list \<Rightarrow> nat \<Rightarrow> BYTE list \<Rightarrow> nat \<Rightarrow> BYTE list" where
  "copy_entry b i b' j =
     overwrite b (PARTTABLE_OFFSET + i * 16) (take 16 (drop (PARTTABLE_OFFSET + j * 16) b'))"

definition clear_entry :: "BYTE list \<Rightarrow> nat \<Rightarrow> BYTE list" where
  "clear_entry b i = overwrite b (PARTTABLE_OFFSET + i * 16) (replicate 16 0)"

definition signature :: "BYTE list \<Rightarrow> nat" where
  "signature b = get_word b BOOT_SIGNATURE"

definition set_signature :: "BYTE list \<Rightarrow> BYTE list" where
  "set_signature b = overwrite b BOOT_SIGNATURE (word_bytes BOOTSECTRAILSIGH)"

text \<open>A table is the list of its four entries.\<close>

definition table_of :: "BYTE list \<Rightarrow> partentry list" where
  "table_of b = map (get_entry b) [0..<4]"

lemma length_table [simp]: "length (table_of b) = 4"
  by (simp add: table_of_def)

lemma table_nth: "i < 4 \<Longrightarrow> table_of b ! i = get_entry b i"
  by (simp add: table_of_def)

lemma get_word_lt: "get_word b i < 65536"
proof -
  have "unat (b ! i) < 256" "unat (b ! (i + 1)) < 256"
    using unsigned_less [of "b ! i", where ?'a = nat] unsigned_less [of "b ! (i + 1)", where ?'a = nat] by simp_all
  then show ?thesis unfolding get_word_def by linarith
qed

lemma get_entry_ok: "entry_ok (get_entry b i)"
proof -
  have "get_dword c j < 2 ^ 32" for c j
    using get_word_lt [of c j] get_word_lt [of c "j + 2"] by (simp add: get_dword_def)
  then show ?thesis by (simp add: get_entry_def bytes_entry_def entry_ok_def)
qed

text \<open>Writing 16 bytes of the table changes one entry and nothing outside the table.\<close>

lemma overwrite_entry:
  assumes "512 \<le> length b" and "i < 4" and "length d = 16"
  shows "length (overwrite b (PARTTABLE_OFFSET + i * 16) d) = length b"
    "j < 4 \<Longrightarrow> get_entry (overwrite b (PARTTABLE_OFFSET + i * 16) d) j = (if j = i then bytes_entry d else get_entry b j)"
    "signature (overwrite b (PARTTABLE_OFFSET + i * 16) d) = signature b"
proof -
  have fits: "PARTTABLE_OFFSET + i * 16 + length d \<le> length b"
    using assms by (simp add: PARTTABLE_OFFSET_def)
  show "length (overwrite b (PARTTABLE_OFFSET + i * 16) d) = length b"
    using fits by (rule length_overwrite)
  show "get_entry (overwrite b (PARTTABLE_OFFSET + i * 16) d) j = (if j = i then bytes_entry d else get_entry b j)"
    if j: "j < 4"
  proof (cases "j = i")
    case True
    then show ?thesis using overwrite_same [OF fits] assms(3) by (simp add: get_entry_def)
  next
    case False
    then have "PARTTABLE_OFFSET + j * 16 + 16 \<le> PARTTABLE_OFFSET + i * 16 \<or>
        PARTTABLE_OFFSET + i * 16 + length d \<le> PARTTABLE_OFFSET + j * 16"
      using assms(3) by linarith
    then show ?thesis using overwrite_other [OF fits, of _ 16] False by (simp add: get_entry_def)
  qed
  have "overwrite b (PARTTABLE_OFFSET + i * 16) d ! k = b ! k" if "510 \<le> k" "k < 512" for k
    using fits assms that by (intro nth_overwrite) (auto simp: PARTTABLE_OFFSET_def)
  then show "signature (overwrite b (PARTTABLE_OFFSET + i * 16) d) = signature b"
    by (simp add: signature_def get_word_def BOOT_SIGNATURE_def)
qed

text \<open>The bytes of a sector that do not belong to the table.\<close>

definition rest_of :: "BYTE list \<Rightarrow> BYTE list \<times> BYTE list" where
  "rest_of b = (take PARTTABLE_OFFSET b, drop BOOT_SIGNATURE b)"

lemma rest_of_overwrite:
  assumes "512 \<le> length b" and "i < 4" and "length d = 16"
  shows "rest_of (overwrite b (PARTTABLE_OFFSET + i * 16) d) = rest_of b"
proof -
  have fits: "PARTTABLE_OFFSET + i * 16 + length d \<le> length b"
    using assms by (simp add: PARTTABLE_OFFSET_def)
  have "take PARTTABLE_OFFSET (drop 0 (overwrite b (PARTTABLE_OFFSET + i * 16) d)) = take PARTTABLE_OFFSET (drop 0 b)"
    by (rule overwrite_other [OF fits]) simp
  moreover have "take (length b) (drop BOOT_SIGNATURE (overwrite b (PARTTABLE_OFFSET + i * 16) d)) =
      take (length b) (drop BOOT_SIGNATURE b)"
    by (rule overwrite_other [OF fits]) (use assms in \<open>simp add: PARTTABLE_OFFSET_def BOOT_SIGNATURE_def\<close>)
  ultimately show ?thesis using fits by (simp add: rest_of_def length_overwrite)
qed

lemma entry_window: "512 \<le> length b \<Longrightarrow> i < 4 \<Longrightarrow> length (take 16 (drop (PARTTABLE_OFFSET + i * 16) b)) = 16"
  by (simp add: PARTTABLE_OFFSET_def)

lemma put_entry_spec:
  assumes "512 \<le> length b" and "i < 4"
  shows "length (put_entry b i e) = length b"
    "entry_ok e \<Longrightarrow> table_of (put_entry b i e) = (table_of b)[i := e]"
    "signature (put_entry b i e) = signature b"
    "rest_of (put_entry b i e) = rest_of b"
  using overwrite_entry [OF assms, of "entry_bytes e"] rest_of_overwrite [OF assms, of "entry_bytes e"] assms(2)
  by (auto simp: put_entry_def table_of_def bytes_entry_bytes nth_list_update intro!: nth_equalityI)

lemma copy_entry_spec:
  assumes "512 \<le> length b" and "i < 4" and "512 \<le> length b'" and "j < 4"
  shows "length (copy_entry b i b' j) = length b"
    "table_of (copy_entry b i b' j) = (table_of b)[i := get_entry b' j]"
    "signature (copy_entry b i b' j) = signature b"
    "rest_of (copy_entry b i b' j) = rest_of b"
  using overwrite_entry [OF assms(1,2) entry_window [OF assms(3,4)]]
    rest_of_overwrite [OF assms(1,2) entry_window [OF assms(3,4)]] assms(2)
  by (auto simp: copy_entry_def table_of_def get_entry_def nth_list_update intro!: nth_equalityI)

lemma clear_entry_spec:
  assumes "512 \<le> length b" and "i < 4"
  shows "length (clear_entry b i) = length b"
    "table_of (clear_entry b i) = (table_of b)[i := zero_entry]"
    "signature (clear_entry b i) = signature b"
    "rest_of (clear_entry b i) = rest_of b"
  using overwrite_entry [OF assms, of "replicate 16 0"] rest_of_overwrite [OF assms, of "replicate 16 0"] assms(2)
  by (auto simp: clear_entry_def table_of_def zero_entry_def nth_list_update intro!: nth_equalityI)

lemma zero_entry_fields [simp]:
  "Part_TotalSectors zero_entry = 0" "Part_StartSector zero_entry = 0" "Part_FileSystem zero_entry = 0"
  "Part_BootInd zero_entry = 0"
  by (simp_all add: zero_entry_def bytes_entry_def get_dword_def get_word_def)

text \<open>A sector is determined by its table and the bytes around it.\<close>

lemma word_bytes_get: "word_bytes (get_word b i) = [b ! i, b ! (i + 1)]"
proof -
  have "unat (b ! i) < 256" "unat (b ! (i + 1)) < 256"
    using unsigned_less [of "b ! i", where ?'a = nat] unsigned_less [of "b ! (i + 1)", where ?'a = nat] by simp_all
  then show ?thesis by (simp add: word_bytes_def get_word_def)
qed

lemma dword_bytes_get: "dword_bytes (get_dword b i) = [b ! i, b ! (i + 1), b ! (i + 2), b ! (i + 3)]"
proof -
  have "get_dword b i mod 65536 = get_word b i" "get_dword b i div 65536 mod 65536 = get_word b (i + 2)"
    using get_word_lt [of b i] get_word_lt [of b "i + 2"] by (simp_all add: get_dword_def)
  then show ?thesis by (simp only: dword_bytes_def word_bytes_get) (simp add: numeral_3_eq_3)
qed

lemma entry_bytes_inverse: "length w = 16 \<Longrightarrow> entry_bytes (bytes_entry w) = w"
  by (intro nth_equalityI)
    (auto simp: entry_bytes_def bytes_entry_def dword_bytes_get nth_Cons' less_Suc_eq eval_nat_numeral)

lemma sector_parts:
  assumes "512 \<le> length b"
  shows "b = take PARTTABLE_OFFSET b @ concat (map entry_bytes (table_of b)) @ drop BOOT_SIGNATURE b"
proof -
  have e: "entry_bytes (get_entry b i) = take 16 (drop (PARTTABLE_OFFSET + i * 16) b)" if "i < 4" for i
    using entry_window [OF assms that] by (simp add: get_entry_def entry_bytes_inverse)
  have split: "drop k b = take 16 (drop k b) @ drop (k + 16) b" for k
    by (metis add.commute append_take_drop_id drop_drop)
  have "b = take 446 b @ drop 446 b" by simp
  also have "drop 446 b = take 16 (drop 446 b) @ take 16 (drop 462 b) @ take 16 (drop 478 b) @ take 16 (drop 494 b) @ drop 510 b"
    using split [of 446] split [of 462] split [of 478] split [of 494] by simp
  finally have b: "b = take 446 b @ take 16 (drop 446 b) @ take 16 (drop 462 b) @ take 16 (drop 478 b) @ take 16 (drop 494 b) @ drop 510 b" .
  have four: "[0..<4] = [0, 1, 2, 3 :: nat]" by (simp add: upt_rec numeral_eq_Suc)
  show ?thesis
    using b e [of 0] e [of 1] e [of 2] e [of 3]
    by (simp add: table_of_def four PARTTABLE_OFFSET_def BOOT_SIGNATURE_def)
qed

lemma sector_eqI:
  assumes "512 \<le> length b" and "512 \<le> length b'" and "rest_of b = rest_of b'" and "table_of b = table_of b'"
  shows "b = b'"
  using sector_parts [OF assms(1)] sector_parts [OF assms(2)] assms(3,4) by (simp add: rest_of_def)
end
