(* ===== verification/Dos_State.thy ===== *)
theory Dos_State
  imports Dos_Sector
begin

text \<open>
  The state of the DOS partition driver (\<open>DOSPART/part.h\<close>), its requests to the block driver
  (\<open>ReadSectors\<close>, \<open>WriteSectors\<close>) and the conversion to cylinder, head and sector.

  \<open>SECTORNUM\<close> is a natural number below \<open>2 ^ 64\<close>, \<open>DWORD\<close> one below \<open>2 ^ 32\<close>; the operations
  that can leave the range are \<open>add64\<close>, \<open>sub64\<close>, \<open>add32\<close>, \<open>sub32\<close>, \<open>mul32\<close> and the cast \<open>dword\<close>.
  The linked list of partition structures is a list, in which each structure carries its address,
  because searches and partition handles are pointers to them.  The macro \<open>HIDDEN_PARTITIONS\<close> is
  not defined, so the code it guards is not part of the program.

  The block driver and the allocator are not part of the program.  Every allocation and every
  request takes the next tick, and \<open>dos_env\<close> says for each tick whether it fails, with which
  error code, how many sectors a failed write has transferred all the same, and what the requests
  to format the medium and to delete sectors leave on the disk.  It also has the values in the
  two registry keys of the driver and the characters of the system code page.
\<close>

section \<open>State\<close>

record disk_flags =
  DISK_INFO_FLAG_MBR :: bool
  DISK_INFO_FLAG_UNFORMATTED :: bool
  other_flags :: nat

record DISK_INFO =
  di_total_sectors :: nat
  di_bytes_per_sect :: nat
  di_cylinders :: nat
  di_heads :: nat
  di_sectors :: nat
  di_flags :: disk_flags

record part_attributes =
  PARTITION_ATTRIBUTE_BOOT :: bool
  PARTITION_ATTRIBUTE_READONLY :: bool
  other_attributes :: nat

record PartState =
  addr :: nat
  cPartName :: string
  snStartSector :: nat
  snNumSectors :: nat
  ftCreation :: nat
  ftModified :: nat
  dwAttributes :: part_attributes
  snPBRSector :: nat
  partType :: BYTE

record SearchState =
  search_addr :: nat
  search_part :: "nat option"

record part_flags =
  MSPART_CREATE_PRIMARY :: bool
  MSPART_ALIGN_CYLINDER :: bool
  MSPART_SKIP_SECTOR1 :: bool

record DriverState =
  ftCreate :: nat
  ftAccess :: nat
  dwNumParts :: nat
  bFormatState :: bool
  dwFlags :: part_flags
  diskInfo :: DISK_INFO
  pPartState :: "PartState list"
  pSearchState :: "SearchState list"
  lost_searches :: "SearchState list"
  pHiddenPartState :: "nat option"
  snExtPartSector :: nat
  snExtPartEndSec :: nat
  disk :: "nat \<Rightarrow> BYTE list"
  tick :: nat
  next_addr :: nat
  last_error :: nat

text \<open>\<open>lost_searches\<close> are the search structures that are still allocated but not linked to the store.\<close>

record dos_env =
  e_refuse :: "nat \<Rightarrow> bool"
  e_error :: "nat \<Rightarrow> nat option"
  e_moved :: "nat \<Rightarrow> nat"
  e_geometry :: DISK_INFO
  e_formatted :: "nat \<Rightarrow> BYTE list \<Rightarrow> BYTE list"
  e_deleted :: "nat \<Rightarrow> BYTE list \<Rightarrow> BYTE list"
  e_registry_root :: "string \<Rightarrow> nat option"
  e_registry_storage :: "string \<Rightarrow> nat option"
  e_ansi :: "BYTE \<Rightarrow> char"

text \<open>What a driver says of a store and of a partition.\<close>

record PD_STOREINFO =
  si_ftCreated :: nat
  si_ftLastModified :: nat
  si_dwBytesPerSector :: nat
  si_snNumSectors :: nat
  si_snFreeSectors :: nat
  si_snBiggestPartCreatable :: nat
  si_unformatted :: bool

record PD_PARTINFO =
  szPartitionName :: string
  pi_snNumSectors :: nat
  pi_ftCreated :: nat
  pi_ftLastModified :: nat
  pi_dwAttributes :: part_attributes
  pi_bPartType :: BYTE

definition no_attributes :: part_attributes where
  "no_attributes = \<lparr>PARTITION_ATTRIBUTE_BOOT = False, PARTITION_ATTRIBUTE_READONLY = False, other_attributes = 0\<rparr>"

definition no_flags :: part_flags where
  "no_flags = \<lparr>MSPART_CREATE_PRIMARY = False, MSPART_ALIGN_CYLINDER = False, MSPART_SKIP_SECTOR1 = False\<rparr>"

abbreviation heads :: "DriverState \<Rightarrow> nat" where "heads s \<equiv> di_heads (diskInfo s)"
abbreviation sectors :: "DriverState \<Rightarrow> nat" where "sectors s \<equiv> di_sectors (diskInfo s)"
abbreviation total_sectors :: "DriverState \<Rightarrow> nat" where "total_sectors s \<equiv> di_total_sectors (diskInfo s)"
abbreviation bytes_per_sect :: "DriverState \<Rightarrow> nat" where "bytes_per_sect s \<equiv> di_bytes_per_sect (diskInfo s)"

section \<open>Allocations and requests\<close>

definition next_tick :: "DriverState \<Rightarrow> DriverState" where
  "next_tick s = s\<lparr>tick := tick s + 1\<rparr>"

text \<open>A failed allocation or request may set the last error of the thread.\<close>

definition fail_tick :: "dos_env \<Rightarrow> DriverState \<Rightarrow> DriverState" where
  "fail_tick env s =
     s\<lparr>tick := tick s + 1, last_error := (case e_error env (tick s) of None \<Rightarrow> last_error s | Some e \<Rightarrow> e)\<rparr>"

definition SetLastError :: "nat \<Rightarrow> DriverState \<Rightarrow> DriverState" where
  "SetLastError e s = s\<lparr>last_error := e\<rparr>"

text \<open>\<open>LocalAlloc\<close>: whether it succeeds.\<close>

definition LocalAlloc :: "dos_env \<Rightarrow> DriverState \<Rightarrow> bool \<times> DriverState" where
  "LocalAlloc env s = (if e_refuse env (tick s) then (False, fail_tick env s) else (True, next_tick s))"

definition disk_write_sectors :: "DriverState \<Rightarrow> nat \<Rightarrow> nat \<Rightarrow> BYTE list \<Rightarrow> nat \<Rightarrow> BYTE list" where
  "disk_write_sectors s start n buf i =
     (if start \<le> i \<and> i < start + n then slice (bytes_per_sect s) buf (i - start) else disk s i)"

text \<open>\<open>ReadSectors\<close> returns the buffer it allocates, or \<open>None\<close> for \<open>FALSE\<close>.\<close>

definition ReadSectors :: "dos_env \<Rightarrow> DriverState \<Rightarrow> nat \<Rightarrow> nat \<Rightarrow> BYTE list option \<times> DriverState" where
  "ReadSectors env s snSectorNum num =
     (let (ok, s) = LocalAlloc env s
      in if \<not> ok then (None, s)
         else if e_refuse env (tick s) then (None, fail_tick env s)
         else (Some (concat (map (\<lambda>k. disk s (dword snSectorNum + k)) [0..<dword num])), next_tick s))"

definition WriteSectors :: "dos_env \<Rightarrow> DriverState \<Rightarrow> nat \<Rightarrow> nat \<Rightarrow> BYTE list \<Rightarrow> bool \<times> DriverState" where
  "WriteSectors env s snSectorNum num pBuffer =
     (let n = dword num
      in if e_refuse env (tick s)
         then (False, fail_tick env (s\<lparr>disk := disk_write_sectors s (dword snSectorNum) (min n (e_moved env (tick s))) pBuffer\<rparr>))
         else (True, next_tick (s\<lparr>disk := disk_write_sectors s (dword snSectorNum) n pBuffer\<rparr>)))"

text \<open>The sectors of a disk have the length the geometry says.\<close>

definition disk_ok :: "DriverState \<Rightarrow> bool" where
  "disk_ok s \<longleftrightarrow> 512 \<le> bytes_per_sect s \<and> (\<forall>i. length (disk s i) = bytes_per_sect s)"

lemma dword_one: "dword 1 = 1" "dword (Suc 0) = 1"
  by (simp_all add: dword_def)

lemma ReadSectors_eq:
  assumes "i < 2 ^ 32"
  shows "ReadSectors env s i 1 =
    (if e_refuse env (tick s) then (None, fail_tick env s)
     else if e_refuse env (tick s + 1) then (None, fail_tick env (next_tick s))
     else (Some (disk s i), s\<lparr>tick := tick s + 2\<rparr>))"
  unfolding ReadSectors_def LocalAlloc_def next_tick_def Let_def dword_one using assms by simp

lemma ReadSectors_ok:
  assumes "i < 2 ^ 32" and "\<not> e_refuse env (tick s)" and "\<not> e_refuse env (tick s + 1)"
  shows "ReadSectors env s i 1 = (Some (disk s i), s\<lparr>tick := tick s + 2\<rparr>)"
  using assms by (simp only: ReadSectors_eq if_False)

lemma ReadSectors_Some:
  assumes "ReadSectors env s i 1 = (Some b, s')" and "i < 2 ^ 32"
  shows "b = disk s i" "s' = s\<lparr>tick := tick s + 2\<rparr>" "\<not> e_refuse env (tick s)" "\<not> e_refuse env (tick s + 1)"
  using assms(1) unfolding ReadSectors_eq [OF assms(2)] by (simp_all split: if_split_asm)

lemma ReadSectors_None:
  assumes "ReadSectors env s i 1 = (None, s')" and "i < 2 ^ 32"
  shows "\<exists>t e. s' = s\<lparr>tick := t, last_error := e\<rparr>"
  using assms(1) unfolding ReadSectors_eq [OF assms(2)]
  by (auto simp: fail_tick_def next_tick_def split: if_split_asm)

lemma slice_whole: "length b = n \<Longrightarrow> slice n b 0 = b"
  by (simp add: slice_def)

lemma WriteSectors_eq:
  assumes "i < 2 ^ 32" and "length b = bytes_per_sect s"
  shows "WriteSectors env s i 1 b =
    (if e_refuse env (tick s)
     then (False, fail_tick env (s\<lparr>disk := if e_moved env (tick s) = 0 then disk s else (disk s)(i := b)\<rparr>))
     else (True, s\<lparr>disk := (disk s)(i := b), tick := tick s + 1\<rparr>))"
proof -
  have one: "disk_write_sectors s i (Suc 0) b = (disk s)(i := b)" and none: "disk_write_sectors s i 0 b = disk s"
    using assms(2) by (auto simp: disk_write_sectors_def fun_eq_iff slice_whole)
  have "min (Suc 0) k = (if k = 0 then 0 else Suc 0)" for k by simp
  then show ?thesis
    unfolding WriteSectors_def Let_def dword_one using assms(1) one none by (simp add: next_tick_def)
qed

lemma WriteSectors_True:
  assumes "WriteSectors env s i 1 b = (True, s')" and "i < 2 ^ 32" and "length b = bytes_per_sect s"
  shows "s' = s\<lparr>disk := (disk s)(i := b), tick := tick s + 1\<rparr>" "\<not> e_refuse env (tick s)"
  using assms(1) unfolding WriteSectors_eq [OF assms(2,3)] by (simp_all split: if_split_asm)

text \<open>A failed write may or may not have reached the sector.\<close>

lemma WriteSectors_False:
  assumes "WriteSectors env s i 1 b = (False, s')" and "i < 2 ^ 32" and "length b = bytes_per_sect s"
  shows "\<exists>t e d. s' = s\<lparr>disk := d, tick := t, last_error := e\<rparr> \<and> (d = disk s \<or> d = (disk s)(i := b))"
proof -
  define e where "e = (case e_error env (tick s) of None \<Rightarrow> last_error s | Some e \<Rightarrow> e)"
  define d where "d = (if e_moved env (tick s) = 0 then disk s else (disk s)(i := b))"
  have "s' = s\<lparr>disk := d, tick := tick s + 1, last_error := e\<rparr>"
    using assms(1) unfolding WriteSectors_eq [OF assms(2,3)]
    by (simp add: fail_tick_def e_def d_def cong: option.case_cong split: if_split_asm)
  then show ?thesis by (auto simp: d_def intro!: exI)
qed

section \<open>Geometry\<close>

text \<open>
  The code divides by the number of sectors and by the sectors per cylinder; \<open>LoadDiskInfo\<close>
  makes both positive.  On failure the three output bytes keep what they were.
\<close>

definition ConvertLBAtoCHS :: "DriverState \<Rightarrow> nat \<Rightarrow> BYTE \<times> BYTE \<times> BYTE \<Rightarrow> bool \<times> (BYTE \<times> BYTE \<times> BYTE)" where
  "ConvertLBAtoCHS s snSectorNum old =
     (let sectorNum = dword snSectorNum
      in if sectorNum > total_sectors s then (False, old)
         else let sectorsPerCyl = mul32 (heads s) (sectors s);
                  cyl = sectorNum div sectorsPerCyl;
                  head = sub32 sectorNum (mul32 cyl sectorsPerCyl) div sectors s;
                  sector = add32 (sub32 sectorNum (add32 (mul32 cyl sectorsPerCyl) (mul32 head (sectors s)))) 1
              in (True, of_nat cyl, of_nat head,
                    (of_nat sector AND 0x3F) OR of_nat (drop_bit 2 (cyl AND 0x0300))))"

text \<open>The fields of an entry that hold the first and the last sector as cylinder, head and sector.\<close>

definition set_first :: "DriverState \<Rightarrow> nat \<Rightarrow> partentry \<Rightarrow> partentry" where
  "set_first s sn e =
     (let (_, c, h, t) = ConvertLBAtoCHS s sn (Part_FirstTrack e, Part_FirstHead e, Part_FirstSector e)
      in e\<lparr>Part_FirstTrack := c, Part_FirstHead := h, Part_FirstSector := t\<rparr>)"

definition set_last :: "DriverState \<Rightarrow> nat \<Rightarrow> partentry \<Rightarrow> partentry" where
  "set_last s sn e =
     (let (_, c, h, t) = ConvertLBAtoCHS s sn (Part_LastTrack e, Part_LastHead e, Part_LastSector e)
      in e\<lparr>Part_LastTrack := c, Part_LastHead := h, Part_LastSector := t\<rparr>)"

lemma set_first_fields [simp]:
  "Part_StartSector (set_first s n e) = Part_StartSector e" "Part_TotalSectors (set_first s n e) = Part_TotalSectors e"
  "Part_FileSystem (set_first s n e) = Part_FileSystem e" "Part_BootInd (set_first s n e) = Part_BootInd e"
  by (simp_all add: set_first_def split: prod.splits)

lemma set_last_fields [simp]:
  "Part_StartSector (set_last s n e) = Part_StartSector e" "Part_TotalSectors (set_last s n e) = Part_TotalSectors e"
  "Part_FileSystem (set_last s n e) = Part_FileSystem e" "Part_BootInd (set_last s n e) = Part_BootInd e"
  by (simp_all add: set_last_def split: prod.splits)

text \<open>The conversion depends on the geometry only.\<close>

lemma ConvertLBAtoCHS_geometry: "diskInfo s' = diskInfo s \<Longrightarrow> ConvertLBAtoCHS s' = ConvertLBAtoCHS s"
  by (intro ext) (simp add: ConvertLBAtoCHS_def Let_def cong: if_cong)

lemma set_first_geometry: "diskInfo s' = diskInfo s \<Longrightarrow> set_first s' = set_first s"
  "diskInfo s' = diskInfo s \<Longrightarrow> set_last s' = set_last s"
  by (simp_all add: fun_eq_iff set_first_def set_last_def ConvertLBAtoCHS_geometry [of s' s])

text \<open>The reference conversion back, from the ten bits of the cylinder and six of the sector.\<close>

definition ConvertCHStoLBA :: "DriverState \<Rightarrow> BYTE \<times> BYTE \<times> BYTE \<Rightarrow> nat" where
  "ConvertCHStoLBA s = (\<lambda>(c, h, t).
     ((unat c + 256 * (unat t div 64)) * heads s + unat h) * sectors s + unat t mod 64 - 1)"

section \<open>The conversion back\<close>

lemma cylinder_bits:
  assumes "c < (1024 :: nat)"
  shows "drop_bit 2 (c AND 0x0300) = 64 * (c div 256)"
proof -
  have c: "bit c n \<Longrightarrow> n < 10" for n
  proof -
    assume b: "bit c n"
    have "c = take_bit 10 c" using assms by (simp add: take_bit_nat_eq_self)
    then show "n < 10" using b by (metis bit_take_bit_iff)
  qed
  have m: "bit (768 :: nat) n \<longleftrightarrow> n = 8 \<or> n = 9" for n
  proof -
    have "bit (768 :: nat) n = bit (push_bit 8 (mask 2) :: nat) n" by (simp add: push_bit_eq_mult mask_eq_exp_minus_1)
    also have "\<dots> \<longleftrightarrow> 8 \<le> n \<and> n - 8 < 2" by (simp add: bit_push_bit_iff bit_mask_iff)
    finally have "bit (768 :: nat) n \<longleftrightarrow> 8 \<le> n \<and> n - 8 < 2" .
    then show ?thesis by auto
  qed
  have "c AND 768 = push_bit 8 (drop_bit 8 c)"
  proof (rule bit_eqI)
    fix n
    show "bit (c AND 768) n = bit (push_bit 8 (drop_bit 8 c)) n"
    proof (cases "8 \<le> n")
      case True
      then have "8 + (n - 8) = n" by simp
      then show ?thesis using True c [of n] by (auto simp: bit_and_iff m bit_push_bit_iff bit_drop_bit_eq)
    next
      case False
      then show ?thesis by (simp add: bit_and_iff m bit_push_bit_iff)
    qed
  qed
  also have "\<dots> = 4 * (64 * (c div 256))" by (simp add: push_bit_eq_mult drop_bit_eq_div)
  finally show ?thesis by (simp add: drop_bit_eq_div)
qed

lemma sector_byte:
  assumes "a < 64" and "q < 4"
  shows "unat ((of_nat a AND 0x3F) OR of_nat (64 * q) :: BYTE) = a + 64 * q"
proof -
  have a: "of_nat a AND 0x3F = (of_nat a :: BYTE)"
  proof -
    have "(0x3F :: BYTE) = mask 6" by (simp add: mask_eq_exp_minus_1)
    then have "of_nat a AND (0x3F :: BYTE) = take_bit 6 (of_nat a)" by (simp only: take_bit_eq_mask)
    also have "\<dots> = of_nat (take_bit 6 a)" by (simp add: take_bit_of_nat)
    finally show ?thesis using assms(1) by (simp add: take_bit_nat_eq_self)
  qed
  have low: "bit (of_nat a :: BYTE) n \<Longrightarrow> n < 6" for n
  proof -
    have "(0x3F :: BYTE) = mask 6" by (simp add: mask_eq_exp_minus_1)
    moreover assume "bit (of_nat a :: BYTE) n"
    then have "bit (of_nat a AND 0x3F :: BYTE) n" by (simp only: a)
    ultimately have "bit (mask 6 :: BYTE) n" by (simp only: bit_and_iff)
    then show "n < 6" by (simp add: bit_mask_iff)
  qed
  have "(of_nat a :: BYTE) OR of_nat (64 * q) = of_nat a + of_nat (64 * q)"
  proof (rule disjunctive_add [symmetric])
    fix n
    have "of_nat (64 * q) = (push_bit 6 (of_nat q) :: BYTE)" by (simp add: push_bit_eq_mult mult.commute)
    then show "\<not> bit (of_nat a :: BYTE) n \<or> \<not> bit (of_nat (64 * q) :: BYTE) n"
      using low [of n] by (auto simp: bit_push_bit_iff)
  qed
  also have "\<dots> = of_nat (a + 64 * q)" by simp
  finally have sum: "(of_nat a :: BYTE) OR of_nat (64 * q) = of_nat (a + 64 * q)" .
  show ?thesis unfolding a sum unat_of_nat using assms by simp
qed

lemma CHS_inverse:
  assumes "1 \<le> heads s" and "heads s \<le> 256" and "1 \<le> sectors s" and "sectors s \<le> 63"
    and "n \<le> total_sectors s" and "n < 1024 * (heads s * sectors s)"
  shows "\<exists>chs. ConvertLBAtoCHS s n old = (True, chs) \<and> ConvertCHStoLBA s chs = n"
proof -
  let ?h = "heads s" and ?s = "sectors s"
  let ?spc = "?h * ?s"
  have spc: "0 < ?spc" "?spc \<le> 256 * 63" using assms(1-4) by (simp, intro mult_le_mono) auto
  define cyl where "cyl = n div ?spc"
  define rest where "rest = n mod ?spc"
  define head where "head = rest div ?s"
  define sec where "sec = rest mod ?s"
  have n: "n = cyl * ?spc + rest" "rest = head * ?s + sec"
    unfolding cyl_def rest_def head_def sec_def by (rule div_mult_mod_eq [symmetric])+
  have cyl: "cyl < 1024" using assms(6) spc(1) by (simp add: cyl_def less_mult_imp_div_less)
  have "rest < ?spc" using spc(1) by (simp add: rest_def)
  then have head: "head < ?h" by (simp add: head_def less_mult_imp_div_less)
  have sec: "sec < ?s" using assms(3) by (simp add: sec_def)
  have "n < 1024 * (256 * 63)" using assms(6) spc(2) by (meson less_le_trans mult_le_mono2)
  then have n32: "n < 2 ^ 32" by simp
  have nn: "dword n = n" using n32 by simp
  have m1: "mul32 ?h ?s = ?spc" using spc(2) by (simp add: mul32_def)
  have m2: "mul32 cyl ?spc = cyl * ?spc" using n(1) n32 by (simp add: mul32_def)
  have d1: "sub32 n (cyl * ?spc) = rest" using n(1) n32 by (simp add: sub32_eq)
  have m3: "mul32 head ?s = head * ?s" using n n32 by (simp add: mul32_def)
  have a1: "add32 (cyl * ?spc) (head * ?s) = cyl * ?spc + head * ?s" using n n32 by (simp add: add32_def)
  have d2: "sub32 n (cyl * ?spc + head * ?s) = sec" using n n32 by (simp add: sub32_eq)
  have a2: "add32 sec 1 = sec + 1" using sec assms(4) by (simp add: add32_def)
  let ?chs = "(of_nat cyl, of_nat head, (of_nat (sec + 1) AND 0x3F) OR of_nat (drop_bit 2 (cyl AND 0x0300))) :: BYTE \<times> BYTE \<times> BYTE"
  have conv: "ConvertLBAtoCHS s n old = (True, ?chs)"
    using assms(5) by (simp add: ConvertLBAtoCHS_def Let_def nn m1 cyl_def [symmetric] m2 d1 head_def [symmetric] m3 a1 d2 a2 [unfolded One_nat_def])
  have t: "unat ((of_nat (sec + 1) AND 0x3F) OR of_nat (drop_bit 2 (cyl AND 0x0300)) :: BYTE) = sec + 1 + 64 * (cyl div 256)"
    unfolding cylinder_bits [OF cyl] using sec assms(4) cyl by (intro sector_byte) (auto simp: less_mult_imp_div_less)
  have c: "unat (of_nat cyl :: BYTE) = cyl mod 256" "unat (of_nat head :: BYTE) = head"
    using head assms(2) by (simp_all add: unat_of_nat)
  have "sec + 1 < 64" using sec assms(4) by simp
  then have tt: "(sec + 1 + 64 * (cyl div 256)) div 64 = cyl div 256" "(sec + 1 + 64 * (cyl div 256)) mod 64 = sec + 1"
    by simp_all
  have "ConvertCHStoLBA s ?chs = ((cyl mod 256 + 256 * (cyl div 256)) * ?h + head) * ?s + (sec + 1) - 1"
    unfolding ConvertCHStoLBA_def prod.case t c tt ..
  also have "\<dots> = n" using n by (simp add: algebra_simps)
  finally show ?thesis using conv by blast
qed

end
