(* ===== verification/Dos_Mbr.thy ===== *)
theory Dos_Mbr
  imports Dos_State
begin

text \<open>
  The master boot record (\<open>WriteMBR\<close>, \<open>DeleteMBR\<close>, \<open>UpdateMBR\<close> in \<open>DOSPART/helper.cpp\<close>): the
  operations in the order of the code, then what each does to the table of four entries.

  The boot records of the logical drives inside the extended partition (\<open>CreatePBR\<close>,
  \<open>DeletePBR\<close> in \<open>DOSPART/helper.cpp\<close>).  The first entry of such a record is the drive itself,
  relative to the record, the second links to the next record, relative to the extended partition.
\<close>

section \<open>The operations\<close>

text \<open>The search of \<open>WriteMBR\<close>: the first free entry, and the place of the new one among those before it.\<close>

function write_scan :: "BYTE list \<Rightarrow> nat \<Rightarrow> nat \<Rightarrow> nat \<Rightarrow> nat option \<times> nat" where
  "write_scan b sn i partIndex =
     (if i \<ge> 4 then (None, partIndex)
      else if Part_TotalSectors (get_entry b i) = 0 then (Some i, partIndex)
      else write_scan b sn (i + 1) (if sn > Part_StartSector (get_entry b i) then i + 1 else partIndex))"
  by auto
termination by (relation "measure (\<lambda>(b, sn, i, p). 4 - i)") auto

declare write_scan.simps [simp del]

text \<open>The loop that opens the entry \<open>partIndex\<close> by moving those behind it one place down.\<close>

fun shift_down :: "BYTE list \<Rightarrow> nat \<Rightarrow> nat \<Rightarrow> BYTE list \<times> nat" where
  "shift_down b 0 partIndex = (b, 0)"
| "shift_down b (Suc n) partIndex =
     (if Suc n > partIndex then shift_down (copy_entry b (Suc n) b n) n partIndex else (b, Suc n))"

text \<open>The fields of the entry of a partition, over what the entry held before.\<close>

definition fill_entry :: "DriverState \<Rightarrow> nat \<Rightarrow> nat \<Rightarrow> BYTE \<Rightarrow> partentry \<Rightarrow> partentry" where
  "fill_entry s sn num fileSysType e =
     (let e = (set_first s sn e)\<lparr>Part_FileSystem := fileSysType, Part_StartSector := dword sn,
                Part_TotalSectors := dword num\<rparr>
      in set_last s (sub32 (add32 (Part_StartSector e) (Part_TotalSectors e)) 1) e)"

definition new_boot_record :: "DriverState \<Rightarrow> BYTE list" where
  "new_boot_record s = overwrite (set_signature (replicate (bytes_per_sect s) 0)) 0 [0xE9, 0xfd, 0xff]"

definition WriteMBR :: "dos_env \<Rightarrow> DriverState \<Rightarrow> nat \<Rightarrow> nat \<Rightarrow> BYTE \<Rightarrow> bool \<Rightarrow> bool \<times> DriverState" where
  "WriteMBR env s sn num fileSysType bCreateMBR =
     (let place = (\<lambda>b n s. WriteSectors env s 0 1 (put_entry b n (fill_entry s sn num fileSysType (get_entry b n))))
      in if \<not> bCreateMBR
         then (case ReadSectors env s 0 1 of
                 (None, s) \<Rightarrow> (False, s)
               | (Some b, s) \<Rightarrow>
                   (case write_scan b sn 0 0 of
                      (None, _) \<Rightarrow> (False, SetLastError ERROR_DISK_FULL s)
                    | (Some partNum, partIndex) \<Rightarrow>
                        (let (b, n) = (if partIndex \<noteq> partNum then shift_down b partNum partIndex else (b, partNum))
                         in place b n s)))
         else (let (ok, s) = LocalAlloc env s
               in if \<not> ok then (False, s) else place (new_boot_record s) 0 s))"

text \<open>
  The search of \<open>DeleteMBR\<close>: the index of the (last) entry with this start, and that of the last
  used entry; both are -1 when there is none.
\<close>

function delete_scan :: "BYTE list \<Rightarrow> nat \<Rightarrow> nat \<Rightarrow> int \<Rightarrow> int \<times> int" where
  "delete_scan b sn i partIndex =
     (if i \<ge> 4 then (partIndex, 3)
      else let partIndex = (if Part_StartSector (get_entry b i) = sn then int i else partIndex)
           in if Part_TotalSectors (get_entry b i) = 0 then (partIndex, int i - 1)
              else delete_scan b sn (i + 1) partIndex)"
  by auto
termination by (relation "measure (\<lambda>(b, sn, i, p). 4 - i)") auto

declare delete_scan.simps [simp del]

text \<open>The loop that closes the gap of the deleted entry.\<close>

function shift_up :: "BYTE list \<Rightarrow> nat \<Rightarrow> nat \<Rightarrow> BYTE list \<times> nat" where
  "shift_up b i n = (if i < n then shift_up (copy_entry b i b (i + 1)) (i + 1) n else (b, i))"
  by auto
termination by (relation "measure (\<lambda>(b, i, n). n - i)") auto

declare shift_up.simps [simp del]

definition DeleteMBR :: "dos_env \<Rightarrow> DriverState \<Rightarrow> PartState \<Rightarrow> bool \<times> DriverState" where
  "DeleteMBR env s p =
     (case ReadSectors env s 0 1 of
        (None, s) \<Rightarrow> (False, s)
      | (Some b, s) \<Rightarrow>
          (let (partIndex, partNum) = delete_scan b (snStartSector p) 0 (- 1)
           in if partIndex = - 1 \<or> partNum = - 1 then (False, SetLastError ERROR_GEN_FAILURE s)
              else let (b, i) = shift_up b (nat partIndex) (nat partNum)
                   in WriteSectors env s 0 1 (clear_entry b i)))"

function update_scan :: "BYTE list \<Rightarrow> nat \<Rightarrow> nat \<Rightarrow> nat" where
  "update_scan b sn i =
     (if i \<ge> 4 then i else if Part_StartSector (get_entry b i) = sn then i else update_scan b sn (i + 1))"
  by auto
termination by (relation "measure (\<lambda>(b, sn, i). 4 - i)") auto

declare update_scan.simps [simp del]

definition UpdateMBR :: "dos_env \<Rightarrow> DriverState \<Rightarrow> PartState \<Rightarrow> bool \<times> DriverState" where
  "UpdateMBR env s p =
     (case ReadSectors env s 0 1 of
        (None, s) \<Rightarrow> (False, s)
      | (Some b, s) \<Rightarrow>
          (let i = update_scan b (snStartSector p) 0
           in if i \<ge> 4 then (False, SetLastError ERROR_GEN_FAILURE s)
              else WriteSectors env s 0 1
                     (put_entry b i (fill_entry s (snStartSector p) (snNumSectors p) (partType p) (get_entry b i)))))"

section \<open>The searches\<close>

abbreviation in_use :: "partentry \<Rightarrow> bool" where "in_use e \<equiv> Part_TotalSectors e \<noteq> 0"

definition used_entries :: "partentry list \<Rightarrow> partentry list" where
  "used_entries T = takeWhile in_use T"

lemma drop_table: "i < 4 \<Longrightarrow> drop i (table_of b) = get_entry b i # drop (Suc i) (table_of b)"
  by (simp add: Cons_nth_drop_Suc [symmetric] table_nth)

lemma takeWhile_below_sorted:
  "sorted_wrt (<) (map f (x # xs)) \<Longrightarrow> \<not> f x < (k::nat) \<Longrightarrow> takeWhile (\<lambda>e. f e < k) xs = []"
  by (cases xs) auto

lemma write_scan_eq:
  assumes "i \<le> 4" and "sorted_wrt (<) (map Part_StartSector (used_entries (drop i (table_of b))))"
  shows "write_scan b sn i p =
    (let n = i + length (used_entries (drop i (table_of b)));
         k = length (takeWhile (\<lambda>e. Part_StartSector e < sn) (used_entries (drop i (table_of b))))
     in (if n = 4 then None else Some n, if k = 0 then p else i + k))"
  using assms
proof (induction b sn i p rule: write_scan.induct)
  case (1 b sn i p)
  show ?case
  proof (cases "i = 4")
    case True
    then show ?thesis by (simp add: write_scan.simps used_entries_def)
  next
    case False
    then have i: "i < 4" using "1.prems" by simp
    show ?thesis
    proof (cases "Part_TotalSectors (get_entry b i) = 0")
      case True
      then show ?thesis using i by (simp add: write_scan.simps [of b sn i] used_entries_def drop_table)
    next
      case used: False
      have U: "used_entries (drop i (table_of b)) = get_entry b i # used_entries (drop (i + 1) (table_of b))"
        using i used by (simp add: used_entries_def drop_table)
      have srt: "sorted_wrt (<) (map Part_StartSector (get_entry b i # used_entries (drop (i + 1) (table_of b))))"
        using "1.prems"(2) unfolding U .
      note IH = "1.IH" [OF _ used]
      show ?thesis
      proof (cases "Part_StartSector (get_entry b i) < sn")
        case True
        then show ?thesis using i used IH srt by (simp add: write_scan.simps [of b sn i] U Let_def)
      next
        case False
        then show ?thesis using i used IH srt takeWhile_below_sorted [OF srt False]
          by (simp add: write_scan.simps [of b sn i] U Let_def)
      qed
    qed
  qed
qed

section \<open>The shifts\<close>

lemma shift_down_spec:
  assumes "512 \<le> length b" and "n < 4" and "k \<le> n" and "shift_down b n k = (b', m)"
  shows "m = k \<and> length b' = length b \<and> rest_of b' = rest_of b \<and>
    table_of b' = take k (table_of b) @ table_of b ! k # take (n - k) (drop k (table_of b)) @ drop (n + 1) (table_of b)"
  using assms
proof (induction b n k arbitrary: b' m rule: shift_down.induct)
  case (1 b k)
  have "table_of b \<noteq> []" by (metis length_table list.size(3) zero_neq_numeral)
  with 1 show ?case by (auto simp: neq_Nil_conv)
next
  case (2 b n k)
  show ?case
  proof (cases "k = Suc n")
    case True
    then show ?thesis using "2.prems" by (auto simp: id_take_nth_drop [symmetric])
  next
    case False
    then have k: "k \<le> n" using "2.prems" by simp
    let ?c = "copy_entry b (Suc n) b n"
    have c: "length ?c = length b" "rest_of ?c = rest_of b" "table_of ?c = (table_of b)[Suc n := table_of b ! n]"
      using copy_entry_spec [of b "Suc n" b n] "2.prems" by (auto simp: table_nth)
    have "shift_down ?c n k = (b', m)" using "2.prems" k by simp
    then have r: "m = k \<and> length b' = length ?c \<and> rest_of b' = rest_of ?c \<and>
       table_of b' = take k (table_of ?c) @ table_of ?c ! k # take (n - k) (drop k (table_of ?c)) @ drop (n + 1) (table_of ?c)"
      by (intro "2.IH") (use k c "2.prems" in auto)
    have t: "drop (n + 1) ((table_of b)[Suc n := table_of b ! n]) = table_of b ! n # drop (Suc n + 1) (table_of b)"
      using "2.prems"(2) by (simp add: drop_update_swap Cons_nth_drop_Suc [symmetric])
    have u: "take (Suc n - k) (drop k (table_of b)) = take (n - k) (drop k (table_of b)) @ [table_of b ! n]"
      using k "2.prems"(2) by (simp add: Suc_diff_le take_Suc_conv_app_nth)
    show ?thesis using r c k t u "2.prems"(2)
      by (simp add: take_update_cancel drop_update_swap)
  qed
qed

lemma shift_up_spec:
  assumes "512 \<le> length b" and "i \<le> n" and "n < 4" and "shift_up b i n = (b', m)"
  shows "m = n \<and> length b' = length b \<and> rest_of b' = rest_of b \<and>
    table_of b' = take i (table_of b) @ take (n - i) (drop (i + 1) (table_of b)) @ drop n (table_of b)"
  using assms
proof (induction b i n arbitrary: b' m rule: shift_up.induct)
  case (1 b i n)
  show ?case
  proof (cases "i = n")
    case True
    then show ?thesis using "1.prems" by (simp add: shift_up.simps [of b n n])
  next
    case False
    then have i: "i < n" using "1.prems" by simp
    let ?c = "copy_entry b i b (i + 1)"
    have c: "length ?c = length b" "rest_of ?c = rest_of b" "table_of ?c = (table_of b)[i := table_of b ! Suc i]"
      using copy_entry_spec [of b i b "Suc i"] "1.prems" i by (auto simp: table_nth)
    have "shift_up ?c (i + 1) n = (b', m)" using "1.prems" i by (simp add: shift_up.simps [of b i])
    then have r: "m = n \<and> length b' = length ?c \<and> rest_of b' = rest_of ?c \<and>
       table_of b' = take (i + 1) (table_of ?c) @ take (n - (i + 1)) (drop (i + 1 + 1) (table_of ?c)) @ drop n (table_of ?c)"
      by (intro "1.IH") (use i c "1.prems" in auto)
    have t: "take (i + 1) ((table_of b)[i := table_of b ! Suc i]) = take i (table_of b) @ [table_of b ! Suc i]"
      using i "1.prems"(3) by (simp add: take_Suc_conv_app_nth)
    have u: "take (n - i) (drop (i + 1) (table_of b)) = table_of b ! Suc i # take (n - (i + 1)) (drop (i + 1 + 1) (table_of b))"
      using i "1.prems"(3) by (simp add: Cons_nth_drop_Suc [symmetric] take_Cons')
    show ?thesis using r c i t u "1.prems"(3) by simp
  qed
qed

section \<open>What is on the disk afterwards\<close>

text \<open>The table of a store, and its used entries.\<close>

abbreviation mbr_table :: "DriverState \<Rightarrow> partentry list" where
  "mbr_table s \<equiv> table_of (disk s 0)"

abbreviation mbr_used :: "DriverState \<Rightarrow> partentry list" where
  "mbr_used s \<equiv> used_entries (mbr_table s)"

definition mbr_sorted :: "DriverState \<Rightarrow> bool" where
  "mbr_sorted s \<longleftrightarrow> sorted_wrt (<) (map Part_StartSector (mbr_used s))"

text \<open>A change of the table in sector 0 and of nothing else.\<close>

definition mbr_changed :: "DriverState \<Rightarrow> partentry list \<Rightarrow> DriverState \<Rightarrow> bool" where
  "mbr_changed s T s' \<longleftrightarrow>
     (\<exists>b t e. s' = s\<lparr>disk := (disk s)(0 := b), tick := t, last_error := e\<rparr> \<and> length b = length (disk s 0) \<and>
        table_of b = T \<and> rest_of b = rest_of (disk s 0))"

definition not_below :: "nat \<Rightarrow> partentry list \<Rightarrow> partentry list \<times> partentry list" where
  "not_below sn es = (takeWhile (\<lambda>e. Part_StartSector e < sn) es, dropWhile (\<lambda>e. Part_StartSector e < sn) es)"

lemma fill_entry_fields [simp]:
  "Part_StartSector (fill_entry s sn num ty e) = dword sn" "Part_TotalSectors (fill_entry s sn num ty e) = dword num"
  "Part_FileSystem (fill_entry s sn num ty e) = ty" "Part_BootInd (fill_entry s sn num ty e) = Part_BootInd e"
  by (simp_all add: fill_entry_def Let_def)

lemma fill_entry_geometry: "diskInfo s' = diskInfo s \<Longrightarrow> fill_entry s' = fill_entry s"
  by (simp add: fun_eq_iff fill_entry_def set_first_geometry [of s' s])

lemma fill_entry_ok: "entry_ok (fill_entry s sn num ty e)"
  by (simp add: entry_ok_def dword_def)

lemma used_prefix:
  "take (length (used_entries T)) T = used_entries T"
  by (metis takeWhile_eq_take used_entries_def length_takeWhile_le min.absorb2 length_take)

lemma used_next: "length (used_entries T) < length T \<Longrightarrow> Part_TotalSectors (T ! length (used_entries T)) = 0"
  using nth_length_takeWhile [of in_use T] by (simp add: used_entries_def)

lemma write_buffer:
  assumes "disk_ok s" and "mbr_sorted s" and "write_scan (disk s 0) sn 0 0 = (Some n, k)"
    and "(if k \<noteq> n then shift_down (disk s 0) n k else (disk s 0, n)) = (b, m)"
  shows "length (mbr_used s) < 4" and "m = k" and "k < 4" and "length b = length (disk s 0)" and "rest_of b = rest_of (disk s 0)"
    and "k = length (takeWhile (\<lambda>e. Part_StartSector e < sn) (mbr_used s))"
    and "(table_of b)[k := e] = fst (not_below sn (mbr_used s)) @ e # snd (not_below sn (mbr_used s)) @
           drop (length (mbr_used s) + 1) (mbr_table s)"
    and "get_entry b k = mbr_table s ! k"
proof -
  let ?U = "mbr_used s" and ?P = "\<lambda>e. Part_StartSector e < sn"
  have big: "512 \<le> length (disk s 0)" using assms(1) by (simp add: disk_ok_def)
  have n: "n = length ?U" "length ?U \<noteq> 4" and k: "k = length (takeWhile ?P ?U)"
    using assms(2,3) by (auto simp: mbr_sorted_def write_scan_eq Let_def split: if_split_asm)
  have "length ?U \<le> 4" using length_takeWhile_le [of in_use "mbr_table s"] by (simp add: used_entries_def)
  with n show n4: "length ?U < 4" by simp
  show "k = length (takeWhile ?P ?U)" by (rule k)
  have kn: "k \<le> n" unfolding k n by (rule length_takeWhile_le)
  with n4 n show k4: "k < 4" by simp
  have res: "m = k \<and> length b = length (disk s 0) \<and> rest_of b = rest_of (disk s 0) \<and>
     table_of b = take k (mbr_table s) @ mbr_table s ! k # take (n - k) (drop k (mbr_table s)) @ drop (n + 1) (mbr_table s)"
  proof (cases "k = n")
    case True
    then show ?thesis using assms(4) k4 by (auto simp: id_take_nth_drop [symmetric])
  next
    case False
    then show ?thesis using shift_down_spec [OF big _ kn, of b m] assms(4) n n4 by simp
  qed
  then show "m = k" "length b = length (disk s 0)" "rest_of b = rest_of (disk s 0)" by simp_all
  have tk: "take k (mbr_table s) = fst (not_below sn ?U)"
    using used_prefix [of "mbr_table s"] kn n k
    by (metis fst_conv min.absorb1 not_below_def take_take takeWhile_eq_take)
  have "take (n - k) (drop k (mbr_table s)) = drop k ?U"
    using used_prefix [of "mbr_table s"] n by (metis drop_take)
  also have "\<dots> = snd (not_below sn ?U)" by (simp add: k not_below_def dropWhile_eq_drop)
  finally have dk: "take (n - k) (drop k (mbr_table s)) = snd (not_below sn ?U)" .
  show "(table_of b)[k := e] = fst (not_below sn ?U) @ e # snd (not_below sn ?U) @ drop (length ?U + 1) (mbr_table s)"
    using res k4 by (simp add: list_update_append tk [symmetric] dk [symmetric] n)
  have "table_of b ! k = mbr_table s ! k" using res k4 by (simp add: nth_append)
  then show "get_entry b k = mbr_table s ! k" using k4 by (simp add: table_nth)
qed

lemma write_entry0:
  assumes "disk_ok s" and "length b = length (disk s 0)" and "rest_of b = rest_of (disk s 0)" and "k < 4"
    and "entry_ok e" and "WriteSectors env (s\<lparr>tick := t\<rparr>) 0 1 (put_entry b k e) = (True, s')"
  shows "mbr_changed s ((table_of b)[k := e]) s'"
proof -
  have big: "512 \<le> length b" using assms(1,2) by (simp add: disk_ok_def)
  note put = put_entry_spec [OF big assms(4)]
  have "length (put_entry b k e) = bytes_per_sect (s\<lparr>tick := t\<rparr>)"
    using put(1) assms(1,2) by (simp add: disk_ok_def)
  then have "s' = s\<lparr>disk := (disk s)(0 := put_entry b k e), tick := t + 1, last_error := last_error s\<rparr>"
    using WriteSectors_True [OF assms(6)] by simp
  then show ?thesis unfolding mbr_changed_def
    using put(1) [of e] put(2) [OF assms(5)] put(4) [of e] assms(2,3)
    by (intro exI [of _ "put_entry b k e"] exI [of _ "t + 1"] exI [of _ "last_error s"] conjI) simp_all
qed

lemma WriteMBR_spec:
  assumes "disk_ok s" and "mbr_sorted s" and "WriteMBR env s sn num ty False = (True, s')"
  shows "length (mbr_used s) < 4"
    and "mbr_changed s
      (fst (not_below sn (mbr_used s)) @
       fill_entry s sn num ty (mbr_table s ! length (fst (not_below sn (mbr_used s)))) #
       snd (not_below sn (mbr_used s)) @ drop (length (mbr_used s) + 1) (mbr_table s)) s'"
proof -
  obtain b0 s1 where read: "ReadSectors env s 0 1 = (Some b0, s1)"
    using assms(3) by (cases "ReadSectors env s 0 1") (auto simp: WriteMBR_def split: option.splits)
  then have b0: "b0 = disk s 0" "s1 = s\<lparr>tick := tick s + 2\<rparr>"
    using ReadSectors_Some [OF read] by simp_all
  obtain n k where scan: "write_scan (disk s 0) sn 0 0 = (Some n, k)"
    using assms(3) read b0 by (cases "write_scan (disk s 0) sn 0 0") (auto simp: WriteMBR_def split: option.splits)
  obtain b m where shift: "(if k \<noteq> n then shift_down (disk s 0) n k else (disk s 0, n)) = (b, m)"
    by (cases "if k \<noteq> n then shift_down (disk s 0) n k else (disk s 0, n)")
  note W = write_buffer [OF assms(1,2) scan shift]
  show "length (mbr_used s) < 4" by (rule W(1))
  let ?e = "fill_entry s sn num ty (get_entry b k)"
  have fill: "fill_entry (s\<lparr>tick := t\<rparr>) sn num ty e = fill_entry s sn num ty e" for t e
    by (simp add: fill_entry_geometry [of "s\<lparr>tick := t\<rparr>" s])
  have "WriteSectors env (s\<lparr>tick := tick s + 2\<rparr>) 0 1 (put_entry b k ?e) = (True, s')"
    using assms(3) read b0 scan shift W(2) by (simp add: WriteMBR_def fill)
  from write_entry0 [OF assms(1) W(4,5,3) fill_entry_ok this]
  show "mbr_changed s
      (fst (not_below sn (mbr_used s)) @
       fill_entry s sn num ty (mbr_table s ! length (fst (not_below sn (mbr_used s)))) #
       snd (not_below sn (mbr_used s)) @ drop (length (mbr_used s) + 1) (mbr_table s)) s'"
    using W(7) [of ?e] W(8) W(6) by (simp add: not_below_def)
qed

lemma WriteMBR_full:
  assumes "disk_ok s" and "mbr_sorted s" and "length (mbr_used s) = 4"
    and "WriteMBR env s sn num ty False = (r, s')"
  shows "\<not> r" "disk s' = disk s"
    "\<not> e_refuse env (tick s) \<Longrightarrow> \<not> e_refuse env (tick s + 1) \<Longrightarrow> last_error s' = ERROR_DISK_FULL"
proof -
  have scan: "\<exists>k. write_scan (disk s 0) sn 0 0 = (None, k)"
    using assms(2,3) by (simp add: mbr_sorted_def write_scan_eq)
  have "\<not> r \<and> disk s' = disk s \<and>
    (\<not> e_refuse env (tick s) \<longrightarrow> \<not> e_refuse env (tick s + 1) \<longrightarrow> last_error s' = ERROR_DISK_FULL)"
    using assms(4) scan
    by (auto simp: WriteMBR_def ReadSectors_eq [unfolded One_nat_def] SetLastError_def fail_tick_def next_tick_def split: if_split_asm)
  then show "\<not> r" "disk s' = disk s"
    "\<not> e_refuse env (tick s) \<Longrightarrow> \<not> e_refuse env (tick s + 1) \<Longrightarrow> last_error s' = ERROR_DISK_FULL" by simp_all
qed

lemma delete_scan_absent:
  assumes "i \<le> 4" and "\<forall>e \<in> set (drop i (table_of b)). Part_StartSector e \<noteq> sn"
  shows "delete_scan b sn i p = (p, int (i + length (used_entries (drop i (table_of b)))) - 1)"
  using assms
proof (induction b sn i p rule: delete_scan.induct)
  case (1 b sn i p)
  show ?case
  proof (cases "i = 4")
    case True
    then show ?thesis by (simp add: delete_scan.simps [of b sn 4] used_entries_def)
  next
    case False
    then have i: "i < 4" using "1.prems" by simp
    have ne: "Part_StartSector (get_entry b i) \<noteq> sn" "\<forall>e \<in> set (drop (i + 1) (table_of b)). Part_StartSector e \<noteq> sn"
      using "1.prems"(2) i by (simp_all add: drop_table)
    show ?thesis
    proof (cases "in_use (get_entry b i)")
      case True
      then have "delete_scan b sn (i + 1) p = (p, int (i + 1 + length (used_entries (drop (i + 1) (table_of b)))) - 1)"
        using "1.IH" [OF _ refl] i ne by simp
      then show ?thesis using True i ne by (simp add: delete_scan.simps [of b sn i] drop_table used_entries_def)
    next
      case False
      then show ?thesis using i ne by (simp add: delete_scan.simps [of b sn i] drop_table used_entries_def)
    qed
  qed
qed

lemma delete_scan_eq:
  assumes "i \<le> 4" and "sorted_wrt (<) (map Part_StartSector (used_entries (drop i (table_of b))))"
    and "j < length (used_entries (drop i (table_of b)))"
    and "Part_StartSector (used_entries (drop i (table_of b)) ! j) = sn"
    and "\<forall>e \<in> set (dropWhile in_use (drop i (table_of b))). Part_StartSector e \<noteq> sn"
  shows "delete_scan b sn i p = (int (i + j), int (i + length (used_entries (drop i (table_of b)))) - 1)"
  using assms
proof (induction b sn i p arbitrary: j rule: delete_scan.induct)
  case (1 b sn i p)
  have i: "i < 4" using "1.prems"(1,3) by (cases "i = 4") (auto simp: used_entries_def)
  have used: "in_use (get_entry b i)"
    using "1.prems"(3) i by (auto simp: used_entries_def drop_table split: if_splits)
  have U: "used_entries (drop i (table_of b)) = get_entry b i # used_entries (drop (i + 1) (table_of b))"
    using i used by (simp add: used_entries_def drop_table)
  have D: "dropWhile in_use (drop i (table_of b)) = dropWhile in_use (drop (i + 1) (table_of b))"
    using i used by (simp add: drop_table)
  show ?case
  proof (cases j)
    case 0
    then have start: "Part_StartSector (get_entry b i) = sn" using "1.prems"(4) U by simp
    have "set (drop (i + 1) (table_of b)) = set (used_entries (drop (i + 1) (table_of b))) \<union> set (dropWhile in_use (drop (i + 1) (table_of b)))"
      unfolding used_entries_def by (metis set_append takeWhile_dropWhile_id)
    then have "\<forall>e \<in> set (drop (i + 1) (table_of b)). Part_StartSector e \<noteq> sn"
      using "1.prems"(2,5) start unfolding U D by auto
    then have "delete_scan b sn (i + 1) (int i) = (int i, int (i + 1 + length (used_entries (drop (i + 1) (table_of b)))) - 1)"
      using i by (intro delete_scan_absent) simp_all
    then show ?thesis using i used start 0 by (simp add: delete_scan.simps [of b sn i] U)
  next
    case (Suc j')
    have "delete_scan b sn (i + 1) (if Part_StartSector (get_entry b i) = sn then int i else p) =
        (int (i + 1 + j'), int (i + 1 + length (used_entries (drop (i + 1) (table_of b)))) - 1)"
      using "1.IH" [OF _ refl, of j'] i used "1.prems" Suc U D by simp
    then show ?thesis using i used Suc by (simp add: delete_scan.simps [of b sn i] U)
  qed
qed

lemma DeleteMBR_spec:
  assumes "disk_ok s" and "mbr_sorted s" and "j < length (mbr_used s)"
    and "Part_StartSector (mbr_used s ! j) = snStartSector p"
    and "\<forall>e \<in> set (dropWhile in_use (mbr_table s)). Part_StartSector e \<noteq> snStartSector p"
    and "DeleteMBR env s p = (True, s')"
  shows "mbr_changed s (take j (mbr_used s) @ drop (Suc j) (mbr_used s) @ zero_entry # drop (length (mbr_used s)) (mbr_table s)) s'"
proof -
  obtain b0 s1 where read: "ReadSectors env s 0 1 = (Some b0, s1)"
    using assms(6) by (cases "ReadSectors env s 0 1") (auto simp: DeleteMBR_def split: option.splits)
  then have b0: "b0 = disk s 0" "s1 = s\<lparr>tick := tick s + 2\<rparr>"
    using ReadSectors_Some [OF read] by simp_all
  have big: "512 \<le> length (disk s 0)" using assms(1) by (simp add: disk_ok_def)
  have U4: "length (mbr_used s) \<le> 4"
    using length_takeWhile_le [of in_use "mbr_table s"] by (simp add: used_entries_def)
  define n where "n = length (mbr_used s) - 1"
  have n: "j \<le> n" "n < 4" "Suc n = length (mbr_used s)" using assms(3) U4 by (auto simp: n_def)
  have scan: "delete_scan (disk s 0) (snStartSector p) 0 (- 1) = (int j, int n)"
    using delete_scan_eq [of 0 "disk s 0" j "snStartSector p" "- 1"] assms(2-5) n by (simp add: mbr_sorted_def)
  obtain b m where shift: "shift_up (disk s 0) j n = (b, m)"
    by (cases "shift_up (disk s 0) j n")
  have sh: "m = n" "length b = length (disk s 0)" "rest_of b = rest_of (disk s 0)"
    "table_of b = take j (mbr_table s) @ take (n - j) (drop (j + 1) (mbr_table s)) @ drop n (mbr_table s)"
    using shift_up_spec [OF big n(1,2) shift] by simp_all
  note clr = clear_entry_spec [of b n]
  have "WriteSectors env (s\<lparr>tick := tick s + 2\<rparr>) 0 1 (clear_entry b n) = (True, s')"
    using assms(6) read b0 scan shift sh(1) by (simp add: DeleteMBR_def)
  then have "s' = s\<lparr>disk := (disk s)(0 := clear_entry b n), tick := tick s + 3, last_error := last_error s\<rparr>"
    using WriteSectors_True [of env "s\<lparr>tick := tick s + 2\<rparr>" 0 "clear_entry b n" s'] clr(1) n sh big assms(1)
    by (simp add: disk_ok_def numeral_3_eq_3)
  then have ch: "mbr_changed s ((table_of b)[n := zero_entry]) s'"
    unfolding mbr_changed_def using clr n sh big
    by (intro exI [of _ "clear_entry b n"] exI [of _ "tick s + 3"] exI [of _ "last_error s"] conjI) simp_all
  have t: "take j (mbr_table s) = take j (mbr_used s)"
    using used_prefix [of "mbr_table s"] n by (metis min.absorb1 take_take le_SucI)
  have d: "take (n - j) (drop (j + 1) (mbr_table s)) = drop (Suc j) (mbr_used s)"
    using used_prefix [of "mbr_table s"] n by (metis Suc_eq_plus1 diff_Suc_Suc drop_take)
  have "(table_of b)[n := zero_entry] = take j (mbr_used s) @ drop (Suc j) (mbr_used s) @ zero_entry # drop (length (mbr_used s)) (mbr_table s)"
    unfolding sh(4) t d using n by (simp add: list_update_append drop_update_swap Cons_nth_drop_Suc [symmetric])
  with ch show ?thesis by simp
qed

section \<open>Inserting and deleting\<close>

text \<open>The used entries come first, in ascending order, and the free entries are zero where it matters.\<close>

definition mbr_ok :: "DriverState \<Rightarrow> bool" where
  "mbr_ok s \<longleftrightarrow> mbr_sorted s \<and> (\<forall>e \<in> set (drop (length (mbr_used s)) (mbr_table s)). Part_TotalSectors e = 0 \<and> Part_StartSector e = 0)"

lemma used_entries_all: "\<forall>e \<in> set (used_entries T). in_use e"
  unfolding used_entries_def using set_takeWhileD by fastforce

lemma used_entries_append:
  assumes "\<forall>e \<in> set es. in_use e" and "\<forall>e \<in> set fs. Part_TotalSectors e = 0"
  shows "used_entries (es @ fs) = es"
  using assms by (cases fs) (auto simp: used_entries_def takeWhile_append)

lemma insert_at_key_split:
  assumes "sorted_wrt (<) (map key es)" and "key x \<notin> key ` set es"
  shows "insert_at_key key x es = takeWhile (\<lambda>e. key e < (key x :: nat)) es @ x # dropWhile (\<lambda>e. key e < key x) es"
  using assms
proof (induction es)
  case (Cons e es)
  then show ?case by (cases "key e < key x") auto
qed simp

lemma sorted_wrt_insert_at_key:
  assumes "sorted_wrt (<) (map key es)" and "key x \<notin> key ` set es"
  shows "sorted_wrt (<) (map key (insert_at_key key (x :: 'a) es) :: nat list)"
  using assms
proof (induction es)
  case (Cons e es)
  show ?case
  proof (cases "key x < key e")
    case False
    then have "sorted_wrt (<) (map key (insert_at_key key x es))" "key e < key x"
      using Cons by auto
    then show ?thesis using Cons.prems False by auto
  qed (use Cons.prems in force)
qed simp

lemma mbr_changed_table: "mbr_changed s T s' \<Longrightarrow> mbr_table s' = T"
  by (auto simp: mbr_changed_def)

lemma set_drop_Suc: "e \<in> set (drop (Suc n) xs) \<Longrightarrow> e \<in> set (drop n xs)"
  by (meson Suc_leD le_refl set_drop_subset_set_drop subsetD le_SucI)

lemma WriteMBR_table:
  assumes "disk_ok s" and "mbr_ok s" and "sn < 2 ^ 32" and "0 < num" and "num < 2 ^ 32"
    and "sn \<notin> Part_StartSector ` set (mbr_used s)" and "WriteMBR env s sn num ty False = (True, s')"
  obtains e where "Part_StartSector e = sn" "Part_TotalSectors e = num" "Part_FileSystem e = ty"
    "mbr_used s' = insert_at_key Part_StartSector e (mbr_used s)" "mbr_ok s'"
    "mbr_changed s (insert_at_key Part_StartSector e (mbr_used s) @ drop (length (mbr_used s) + 1) (mbr_table s)) s'"
proof -
  let ?U = "mbr_used s" and ?T = "mbr_table s"
  have srt: "sorted_wrt (<) (map Part_StartSector ?U)" using assms(2) by (simp add: mbr_ok_def mbr_sorted_def)
  define e where "e = fill_entry s sn num ty (?T ! length (fst (not_below sn ?U)))"
  have e: "Part_StartSector e = sn" "Part_TotalSectors e = num" "Part_FileSystem e = ty"
    using assms(3,5) by (simp_all add: e_def)
  have fresh: "Part_StartSector e \<notin> Part_StartSector ` set ?U" using e assms(6) by simp
  let ?I = "insert_at_key Part_StartSector e ?U"
  have I: "?I = fst (not_below sn ?U) @ e # snd (not_below sn ?U)"
    using insert_at_key_split [OF srt fresh] e by (simp add: not_below_def)
  have ch: "mbr_changed s (?I @ drop (length ?U + 1) ?T) s'"
    using WriteMBR_spec(2) [OF assms(1) _ assms(7)] assms(2) by (simp add: mbr_ok_def e_def [symmetric] I)
  have rest: "\<forall>f \<in> set (drop (length ?U + 1) ?T). Part_TotalSectors f = 0 \<and> Part_StartSector f = 0"
    using assms(2) set_drop_Suc [of _ "length ?U" ?T] by (auto simp: mbr_ok_def)
  have "\<forall>f \<in> set ?I. in_use f" using used_entries_all e assms(4) by auto
  then have U': "mbr_used s' = ?I"
    unfolding mbr_changed_table [OF ch] by (rule used_entries_append) (use rest in simp)
  have "length ?I = length ?U + 1" by (metis mset_insert_at_key size_add_mset size_mset Suc_eq_plus1)
  then have "mbr_ok s'"
    unfolding mbr_ok_def mbr_sorted_def U' unfolding mbr_changed_table [OF ch]
    using rest sorted_wrt_insert_at_key [OF srt fresh] by simp
  show ?thesis by (rule that [OF e U' \<open>mbr_ok s'\<close> ch])
qed

lemma insert_then_remove:
  assumes "key x \<notin> key ` set es"
  obtains j where "j < length (insert_at_key key x es)" "insert_at_key key (x :: 'a) es ! j = x"
    "take j (insert_at_key key x es) @ drop (Suc j) (insert_at_key key x es) = (es :: 'a list)"
proof (induction es arbitrary: thesis)
  case Nil
  then show ?case by (simp add: that)
next
  case (Cons e es)
  show ?case
  proof (cases "key x < key e")
    case True
    then show ?thesis by (intro Cons.prems [of 0]) simp_all
  next
    case False
    obtain j where "j < length (insert_at_key key x es)" "insert_at_key key x es ! j = x"
      "take j (insert_at_key key x es) @ drop (Suc j) (insert_at_key key x es) = es"
      by (rule Cons.IH)
    with False show ?thesis by (intro Cons.prems [of "Suc j"]) simp_all
  qed
qed

text \<open>Deleting takes the entry of the partition out and keeps the others.\<close>

lemma DeleteMBR_table:
  assumes "disk_ok s" and "mbr_ok s" and "snStartSector p \<noteq> 0"
    and "snStartSector p \<in> Part_StartSector ` set (mbr_used s)" and "DeleteMBR env s p = (True, s')"
  shows "mbr_ok s'" and "mbr_used s' = filter (\<lambda>e. Part_StartSector e \<noteq> snStartSector p) (mbr_used s)"
    and "rest_of (disk s' 0) = rest_of (disk s 0)" and "\<forall>i. i \<noteq> 0 \<longrightarrow> disk s' i = disk s i"
    and "\<exists>b t e. s' = s\<lparr>disk := (disk s)(0 := b), tick := t, last_error := e\<rparr> \<and> length b = length (disk s 0)"
proof -
  let ?U = "mbr_used s" and ?T = "mbr_table s"
  have srt: "sorted_wrt (<) (map Part_StartSector ?U)" using assms(2) by (simp add: mbr_ok_def mbr_sorted_def)
  obtain j where j: "j < length ?U" "Part_StartSector (?U ! j) = snStartSector p"
    using assms(4) by (metis imageE in_set_conv_nth)
  have D: "\<forall>f \<in> set (dropWhile in_use ?T). Part_StartSector f \<noteq> snStartSector p"
  proof -
    have "dropWhile in_use ?T = drop (length ?U) ?T" by (simp add: dropWhile_eq_drop used_entries_def)
    then show ?thesis using assms(2,3) by (simp add: mbr_ok_def)
  qed
  let ?W = "take j ?U @ drop (Suc j) ?U"
  have ch: "mbr_changed s (?W @ zero_entry # drop (length ?U) ?T) s'"
    using DeleteMBR_spec [OF assms(1) _ j D assms(5)] assms(2) by (simp add: mbr_ok_def)
  have W: "?W = filter (\<lambda>e. Part_StartSector e \<noteq> snStartSector p) ?U"
  proof -
    have U: "?U = take j ?U @ ?U ! j # drop (Suc j) ?U" using j(1) by (rule id_take_nth_drop)
    have "sorted_wrt (<) (map Part_StartSector (take j ?U @ ?U ! j # drop (Suc j) ?U))" using srt U by simp
    then have "\<forall>e \<in> set (take j ?U). Part_StartSector e \<noteq> snStartSector p"
      "\<forall>e \<in> set (drop (Suc j) ?U). Part_StartSector e \<noteq> snStartSector p"
      using j(2) by (auto simp: sorted_wrt_append)
    then have "filter (\<lambda>e. Part_StartSector e \<noteq> snStartSector p) (take j ?U @ ?U ! j # drop (Suc j) ?U) = ?W"
      using j(2) by simp
    then show ?thesis using U by simp
  qed
  have rest: "\<forall>f \<in> set (zero_entry # drop (length ?U) ?T). Part_TotalSectors f = 0 \<and> Part_StartSector f = 0"
    using assms(2) by (simp add: mbr_ok_def)
  have used: "\<forall>f \<in> set ?W. in_use f" unfolding W using used_entries_all by auto
  have U': "mbr_used s' = ?W"
    unfolding mbr_changed_table [OF ch] by (rule used_entries_append) (use used rest in simp_all)
  then show "mbr_used s' = filter (\<lambda>e. Part_StartSector e \<noteq> snStartSector p) ?U" by (simp add: W)
  have "sorted_wrt (<) (map Part_StartSector ?W)"
    unfolding W using srt by (simp add: sorted_wrt_map sorted_wrt_filter)
  then show "mbr_ok s'"
    unfolding mbr_ok_def mbr_sorted_def U' unfolding mbr_changed_table [OF ch] using rest by simp
  obtain b t e where b: "s' = s\<lparr>disk := (disk s)(0 := b), tick := t, last_error := e\<rparr>"
      "length b = length (disk s 0)" "rest_of b = rest_of (disk s 0)"
    using ch unfolding mbr_changed_def by (elim exE conjE)
  show "rest_of (disk s' 0) = rest_of (disk s 0)" "\<forall>i. i \<noteq> 0 \<longrightarrow> disk s' i = disk s i"
    using b by simp_all
  show "\<exists>b t e. s' = s\<lparr>disk := (disk s)(0 := b), tick := t, last_error := e\<rparr> \<and> length b = length (disk s 0)"
    using b by (intro exI [of _ b] exI [of _ t] exI [of _ e] conjI)
qed

section \<open>The operations\<close>

text \<open>The sectors between a boot record and the data behind it.\<close>

definition pbr_gap :: "DriverState \<Rightarrow> nat" where
  "pbr_gap s = (if heads s > 1 then sectors s else 1)"

definition drive_entry :: "DriverState \<Rightarrow> nat \<Rightarrow> nat \<Rightarrow> BYTE \<Rightarrow> partentry \<Rightarrow> partentry" where
  "drive_entry s pbr num fileSysType e =
     (let e = set_first s (add64 pbr (pbr_gap s)) e;
          e = set_last s (sub64 (add64 pbr num) 1) e
      in e\<lparr>Part_FileSystem := fileSysType, Part_StartSector := pbr_gap s,
           Part_TotalSectors := sub32 (dword num) (pbr_gap s)\<rparr>)"

text \<open>The link to the next drive; its length is taken from the first entry of the buffer \<open>b\<close>.\<close>

definition next_entry :: "DriverState \<Rightarrow> nat \<Rightarrow> BYTE list \<Rightarrow> partentry \<Rightarrow> partentry" where
  "next_entry s snNextPBRSec b e =
     (let e = e\<lparr>Part_StartSector := dword (sub64 snNextPBRSec (snExtPartSector s)),
               Part_TotalSectors := add32 (Part_StartSector (get_entry b 0)) (Part_TotalSectors (get_entry b 0))\<rparr>;
          e = set_first s snNextPBRSec e;
          e = set_last s (sub64 (add64 snNextPBRSec (Part_TotalSectors e)) 1) e
      in e\<lparr>Part_FileSystem := PART_EXTENDED\<rparr>)"

definition link_entry :: "DriverState \<Rightarrow> nat \<Rightarrow> nat \<Rightarrow> partentry \<Rightarrow> partentry" where
  "link_entry s pbr num e =
     (let e = set_first s pbr e;
          e = set_last s (sub64 (add64 pbr num) 1) e
      in e\<lparr>Part_FileSystem := PART_EXTENDED, Part_StartSector := dword (sub64 pbr (snExtPartSector s)),
           Part_TotalSectors := dword num\<rparr>)"

definition CreatePBR ::
    "dos_env \<Rightarrow> DriverState \<Rightarrow> nat \<Rightarrow> nat \<Rightarrow> nat \<Rightarrow> nat \<Rightarrow> BYTE \<Rightarrow> bool \<times> DriverState" where
  "CreatePBR env s snLastPBRSec snNextPBRSec pbr num fileSysType =
     (let (ok, s) = LocalAlloc env s
      in if \<not> ok then (False, s)
      else let b = set_signature (replicate (bytes_per_sect s) 0);
               b = put_entry b 0 (drive_entry s pbr num fileSysType (get_entry b 0));
               (linked, s) =
                 (if snNextPBRSec \<noteq> 0
                  then (case ReadSectors env s snNextPBRSec 1 of
                          (None, s) \<Rightarrow> (None, s)
                        | (Some _, s) \<Rightarrow> (Some (put_entry b 1 (next_entry s snNextPBRSec b (get_entry b 1))), s))
                  else (Some b, s))
           in case linked of
                None \<Rightarrow> (False, s)
              | Some b \<Rightarrow>
                  let (ok, s) = WriteSectors env s pbr 1 b
                  in if \<not> ok then (False, s)
                     else if snLastPBRSec = 0 then (True, s)
                     else case ReadSectors env s snLastPBRSec 1 of
                            (None, s) \<Rightarrow> (False, s)
                          | (Some b, s) \<Rightarrow>
                              WriteSectors env s snLastPBRSec 1 (put_entry b 1 (link_entry s pbr num (get_entry b 1))))"

definition DeletePBR :: "dos_env \<Rightarrow> DriverState \<Rightarrow> PartState \<Rightarrow> PartState option \<Rightarrow> bool \<times> DriverState" where
  "DeletePBR env s p prev =
     (case ReadSectors env s (snPBRSector p) 1 of
        (None, s) \<Rightarrow> (False, s)
      | (Some b, s) \<Rightarrow>
          (case prev of
             Some q \<Rightarrow>
               if snPBRSector q \<noteq> 0
               then (case ReadSectors env s (snPBRSector q) 1 of
                       (None, s) \<Rightarrow> (False, s)
                     | (Some b1, s) \<Rightarrow>
                         let (ok, s) = WriteSectors env s (snPBRSector q) 1 (copy_entry b1 1 b 1)
                         in if \<not> ok then (False, s)
                            else WriteSectors env s (snPBRSector p) 1 (replicate (bytes_per_sect s) 0))
               else WriteSectors env s (snPBRSector p) 1 (clear_entry b 0)
           | None \<Rightarrow> WriteSectors env s (snPBRSector p) 1 (clear_entry b 0)))"

end
