(* ===== verification/Dos_Parse.thy ===== *)
theory Dos_Parse
  imports Dos_Mbr
begin

text \<open>
  Reading the partition tables of a disk into the list of partition structures
  (\<open>GetDOSPartitions\<close>), and the names of partitions (\<open>GetPartition\<close>,
  \<open>GeneratePartitionNames\<close> in \<open>DOSPART/helper.cpp\<close>).

  \<open>GetDOSPartitions\<close> calls itself for the boot record an entry for an extended partition points
  to.  Nothing bounds this recursion, so the model is a partial function into \<open>option\<close> whose
  \<open>None\<close> is a call that does not return.
\<close>

section \<open>Reading the partition tables\<close>

definition is_extended :: "partentry \<Rightarrow> bool" where
  "is_extended e \<longleftrightarrow> Part_FileSystem e = PART_EXTENDED \<or> Part_FileSystem e = PART_DOSX13X"

definition part_count :: "bool \<Rightarrow> nat" where
  "part_count bExtPart = (if bExtPart then 2 else 4)"

text \<open>The validation: the starts of the used entries ascend, up to one that starts at 0.\<close>

fun last_start :: "partentry list \<Rightarrow> nat \<Rightarrow> nat option" where
  "last_start [] lastStartSector = Some lastStartSector"
| "last_start (e # es) lastStartSector =
     (if Part_TotalSectors e = 0 then last_start es lastStartSector
      else if Part_StartSector e = 0 then Some lastStartSector
      else if Part_StartSector e < lastStartSector then None
      else last_start es (Part_StartSector e))"

text \<open>\<open>None\<close> when the table is to be processed, otherwise the error code that is returned.\<close>

definition table_error :: "BYTE list \<Rightarrow> bool \<Rightarrow> nat option" where
  "table_error b bExtPart =
     (if signature b = BOOTSECTRAILSIGH
      then case last_start (take (part_count bExtPart) (table_of b)) 0 of
             None \<Rightarrow> Some ERROR_INVALID_DATA
           | Some lastStartSector \<Rightarrow> if lastStartSector = 0 then Some ERROR_INVALID_DATA else None
      else if bExtPart then Some ERROR_SUCCESS
      else Some ERROR_INVALID_DATA)"

definition entry_attributes :: "partentry \<Rightarrow> part_attributes" where
  "entry_attributes e =
     no_attributes\<lparr>PARTITION_ATTRIBUTE_BOOT := Part_BootInd e AND PART_BOOTABLE \<noteq> 0,
                   PARTITION_ATTRIBUTE_READONLY := Part_BootInd e AND PART_READONLY \<noteq> 0\<rparr>"

text \<open>The partition structure of an entry, linked at the end of the list.\<close>

definition entry_part :: "nat \<Rightarrow> partentry \<Rightarrow> nat \<Rightarrow> nat \<Rightarrow> PartState" where
  "entry_part a e len startSec =
     \<lparr>addr = a, cPartName = [], snStartSector = add64 (Part_StartSector e) startSec,
      snNumSectors = len, ftCreation = 0, ftModified = 0, dwAttributes = entry_attributes e,
      snPBRSector = startSec, partType = Part_FileSystem e\<rparr>"

definition add_part :: "partentry \<Rightarrow> nat \<Rightarrow> nat \<Rightarrow> DriverState \<Rightarrow> DriverState" where
  "add_part e len startSec s =
     (let a = next_addr s;
          s = s\<lparr>pPartState := pPartState s @ [entry_part a e len startSec], next_addr := a + 1\<rparr>
      in if Part_FileSystem e = HIDDEN_PART_TYPE then s\<lparr>pHiddenPartState := Some a\<rparr>
         else s\<lparr>dwNumParts := add32 (dwNumParts s) 1\<rparr>)"

text \<open>The length of an entry, cut at the end of the disk.\<close>

definition cut_total :: "DriverState \<Rightarrow> partentry \<Rightarrow> nat" where
  "cut_total s e =
     (if add32 (Part_StartSector e) (Part_TotalSectors e) > total_sectors s
      then sub32 (total_sectors s) (Part_StartSector e) else Part_TotalSectors e)"

definition enter_extended :: "bool \<Rightarrow> partentry \<Rightarrow> nat \<Rightarrow> DriverState \<Rightarrow> nat \<times> DriverState" where
  "enter_extended bExtPart e len s =
     (if \<not> bExtPart
      then (Part_StartSector e,
            s\<lparr>snExtPartSector := Part_StartSector e,
              snExtPartEndSec := sub32 (add32 (Part_StartSector e) len) 1\<rparr>)
      else (add64 (snExtPartSector s) (Part_StartSector e), s))"

text \<open>
  The loop over the entries from the i-th on.  It returns the error code, the value left in
  \<open>*pStartSec\<close> and the state.  The recursive call of the code is the call on the buffer \<open>eb\<close>.
\<close>

partial_function (option) dos_loop ::
    "dos_env \<Rightarrow> BYTE list \<Rightarrow> bool \<Rightarrow> nat \<Rightarrow> nat \<Rightarrow> DriverState \<Rightarrow> (nat \<times> nat \<times> DriverState) option" where
  "dos_loop env b bExtPart i startSec s =
     (if i \<ge> part_count bExtPart then Some (ERROR_SUCCESS, startSec, s)
      else let e = get_entry b i
      in if Part_TotalSectors e = 0 then dos_loop env b bExtPart (i + 1) startSec s
      else let len = cut_total s e
      in if bExtPart \<and> i = 1 \<and> \<not> is_extended e then Some (ERROR_SUCCESS, startSec, s)
      else if is_extended e
      then (if len = 0 then dos_loop env b bExtPart (i + 1) startSec s
            else case ReadSectors env s (add64 (snExtPartSector s) (Part_StartSector e)) 1 of
                   (None, s) \<Rightarrow> Some (last_error s, startSec, s)
                 | (Some eb, s) \<Rightarrow>
                     (let (startSec, s) = enter_extended bExtPart e len s
                      in Option.bind
                           (case table_error eb True of
                              Some dwError \<Rightarrow> Some (dwError, startSec, s)
                            | None \<Rightarrow> dos_loop env eb True 0 startSec s)
                           (\<lambda>(dwError, startSec, s).
                              if dwError \<noteq> ERROR_SUCCESS then Some (dwError, startSec, s)
                              else dos_loop env b bExtPart (i + 1) (if \<not> bExtPart then 0 else startSec) s)))
      else let (ok, s) = LocalAlloc env s
           in if \<not> ok then Some (ERROR_NOT_ENOUGH_MEMORY, startSec, s)
              else dos_loop env b bExtPart (i + 1) startSec (add_part e len startSec s))"

definition GetDOSPartitions ::
    "dos_env \<Rightarrow> BYTE list \<Rightarrow> bool \<Rightarrow> nat \<Rightarrow> DriverState \<Rightarrow> (nat \<times> nat \<times> DriverState) option" where
  "GetDOSPartitions env b bExtPart startSec s =
     (case table_error b bExtPart of
        Some dwError \<Rightarrow> Some (dwError, startSec, s)
      | None \<Rightarrow> dos_loop env b bExtPart 0 startSec s)"

section \<open>Names\<close>

text \<open>The search returns the structure and the one before it in the list.\<close>

fun find_partition :: "string \<Rightarrow> PartState option \<Rightarrow> PartState list \<Rightarrow> (PartState \<times> PartState option) option" where
  "find_partition name prev [] = None"
| "find_partition name prev (p # ps) =
     (if wcsicmp_equal name (cPartName p) then Some (p, prev) else find_partition name (Some p) ps)"

definition GetPartition :: "DriverState \<Rightarrow> string \<Rightarrow> (PartState \<times> PartState option) option" where
  "GetPartition s name = find_partition name None (pPartState s)"

text \<open>A change through a pointer to a partition structure.\<close>

definition update_part :: "nat \<Rightarrow> (PartState \<Rightarrow> PartState) \<Rightarrow> DriverState \<Rightarrow> DriverState" where
  "update_part a f s = s\<lparr>pPartState := map (\<lambda>p. if addr p = a then f p else p) (pPartState s)\<rparr>"

end
