(* ===== verification/Dos_Names.thy ===== *)
theory Dos_Names
  imports Dos_Parse
begin

text \<open>
  The names given to partitions (\<open>GeneratePartitionNames\<close> in \<open>DOSPART/helper.cpp\<close>): the volume
  label of a FAT boot sector, or a number that no other partition of the store has.
\<close>

section \<open>Numbered names\<close>

fun itow :: "nat \<Rightarrow> string" where
  "itow n = (if n < 10 then [char_of (48 + n)] else itow (n div 10) @ [char_of (48 + n mod 10)])"

declare itow.simps [simp del]

definition numbered_name :: "nat \<Rightarrow> string" where
  "numbered_name partID = ''Part'' @ (if partID < 10 then ''0'' else []) @ itow partID"

text \<open>The value of a string of digits, to show that the names of different numbers differ.\<close>

definition digits_value :: "string \<Rightarrow> nat" where
  "digits_value cs = foldl (\<lambda>v c. 10 * v + (of_char c - 48)) 0 cs"

lemma char_digit: "(n::nat) < 10 \<Longrightarrow> (of_char (char_of (48 + n)) :: nat) = 48 + n"
  by (simp add: of_char_of take_bit_nat_eq_self)

lemma digits_value_itow: "digits_value (itow n) = n"
proof (induction n rule: itow.induct)
  case (1 n)
  show ?case
  proof (cases "n < 10")
    case True
    then show ?thesis by (simp add: itow.simps [of n] digits_value_def char_digit)
  next
    case False
    have "digits_value (itow n) = 10 * digits_value (itow (n div 10)) + n mod 10"
      using False by (simp add: itow.simps [of n] digits_value_def char_digit)
    then show ?thesis using 1 False by simp
  qed
qed

lemma fold_case_digit: "(n::nat) < 10 \<Longrightarrow> fold_case (char_of (48 + n)) = char_of (48 + n)"
  by (simp add: fold_case_def char_digit)

lemma fold_case_itow: "map fold_case (itow n) = itow n"
proof (induction n rule: itow.induct)
  case (1 n)
  then show ?case
    by (cases "n < 10") (simp_all add: itow.simps [of n] fold_case_digit)
qed

lemma numbered_name_inj: "wcsicmp_equal (numbered_name m) (numbered_name n) \<longleftrightarrow> m = n"
proof
  have z: "fold_case (CHR ''0'') = CHR ''0''" by (simp add: fold_case_def)
  assume "wcsicmp_equal (numbered_name m) (numbered_name n)"
  then have "(if m < 10 then ''0'' else []) @ itow m = (if n < 10 then ''0'' else []) @ itow n"
    by (simp add: wcsicmp_equal_def numbered_name_def fold_case_itow z split: if_split_asm)
  moreover have "digits_value ((if k < 10 then ''0'' else []) @ itow k) = k" for k
    using digits_value_itow [of k] by (simp add: digits_value_def)
  ultimately show "m = n" by metis
qed (simp add: wcsicmp_equal_def)

section \<open>Searching by name\<close>

lemma wcsicmp_equal_refl [simp]: "wcsicmp_equal a a"
  by (simp add: wcsicmp_equal_def)

lemma find_partition_None:
  "find_partition name prev ps = None \<longleftrightarrow> (\<forall>p \<in> set ps. \<not> wcsicmp_equal name (cPartName p))"
  by (induction name prev ps rule: find_partition.induct) auto

lemma find_partition_Some:
  assumes "find_partition name prev ps = Some (p, q)"
  shows "\<exists>us vs. ps = us @ p # vs \<and> wcsicmp_equal name (cPartName p) \<and>
    (\<forall>u \<in> set us. \<not> wcsicmp_equal name (cPartName u)) \<and> q = (if us = [] then prev else Some (last us))"
  using assms
proof (induction name prev ps rule: find_partition.induct)
  case (1 name prev)
  then show ?case by simp
next
  case (2 name prev r ps)
  show ?case
  proof (cases "wcsicmp_equal name (cPartName r)")
    case True
    with 2 show ?thesis by (auto intro!: exI [of _ "[]"])
  next
    case False
    with 2 obtain us vs where "ps = us @ p # vs" "wcsicmp_equal name (cPartName p)"
      "\<forall>u \<in> set us. \<not> wcsicmp_equal name (cPartName u)" "q = (if us = [] then Some r else Some (last us))"
      by auto
    then show ?thesis using False by (intro exI [of _ "r # us"] exI [of _ vs]) auto
  qed
qed

section \<open>The operation\<close>

lemma psubset_witness: "x \<in> B \<Longrightarrow> x \<notin> A \<Longrightarrow> A \<subseteq> B \<Longrightarrow> A \<subset> B"
  by blast

text \<open>The loop that looks for a free number.  It ends because the numbers of a finite list run out.\<close>

function free_number :: "PartState list \<Rightarrow> nat \<Rightarrow> nat" where
  "free_number ps partID =
     (if find_partition (numbered_name partID) None ps = None then partID else free_number ps (partID + 1))"
  by auto
termination
proof (relation "measure (\<lambda>(ps, n). card {m. n \<le> m \<and> find_partition (numbered_name m) None ps \<noteq> None})")
  fix ps :: "PartState list" and n
  let ?S = "\<lambda>n. {m. n \<le> m \<and> find_partition (numbered_name m) None ps \<noteq> None}"
  assume hit: "find_partition (numbered_name n) None ps \<noteq> None"
  have sub: "?S n \<subseteq> (\<Union>p \<in> set ps. {m. wcsicmp_equal (numbered_name m) (cPartName p)})"
    by (auto simp: find_partition_None)
  have one: "finite {m. wcsicmp_equal (numbered_name m) (cPartName p)}" for p
  proof -
    have "m = k" if "wcsicmp_equal (numbered_name m) (cPartName p)" "wcsicmp_equal (numbered_name k) (cPartName p)" for m k
      using that numbered_name_inj [of m k] by (simp add: wcsicmp_equal_def)
    then have "{m. wcsicmp_equal (numbered_name m) (cPartName p)} = {} \<or>
        (\<exists>k. {m. wcsicmp_equal (numbered_name m) (cPartName p)} = {k})" by blast
    then show ?thesis by auto
  qed
  have fin: "finite (?S n)" by (rule finite_subset [OF sub]) (simp add: one)
  have "n \<in> ?S n" using hit by simp
  moreover have "n \<notin> ?S (n + 1)" by simp
  moreover have "?S (n + 1) \<subseteq> ?S n" by auto
  ultimately have "?S (n + 1) \<subset> ?S n" by (rule psubset_witness)
  with fin have "card (?S (n + 1)) < card (?S n)" by (rule psubset_card_mono)
  then show "((ps, n + 1), (ps, n)) \<in> measure (\<lambda>(ps, n). card {m. n \<le> m \<and> find_partition (numbered_name m) None ps \<noteq> None})"
    by simp
qed auto

declare free_number.simps [simp del]

lemma free_number_spec: "find_partition (numbered_name (free_number ps n)) None ps = None \<and> n \<le> free_number ps n"
proof (induction ps n rule: free_number.induct)
  case (1 ps n)
  then show ?case
    by (cases "find_partition (numbered_name n) None ps = None") (auto simp: free_number.simps [of ps n])
qed

text \<open>The offsets of \<open>BOOTSEC\<close> and \<open>BIGFATBOOTSEC\<close> in \<open>INC/bootsec.h\<close> and \<open>INC/bpb.h\<close>.\<close>

definition OEMNAMESIZE :: nat where "OEMNAMESIZE = 11"
definition bsVolumeLabel :: nat where "bsVolumeLabel = 3 + 8 + 25 + 1 + 1 + 1 + 4"
definition bgbsVolumeLabel :: nat where "bgbsVolumeLabel = 3 + 8 + (25 + 28) + 1 + 1 + 1 + 4"

definition NO_NAME :: "BYTE list" where
  "NO_NAME = map (\<lambda>c. of_nat (of_char c)) ''NO NAME''"

definition label_length :: "BYTE list \<Rightarrow> nat" where
  "label_length v = length (takeWhile (\<lambda>c. c \<noteq> 0 \<and> c \<noteq> 0x20) (take OEMNAMESIZE v))"

definition is_fat_type :: "BYTE \<Rightarrow> bool" where
  "is_fat_type t \<longleftrightarrow> t \<in> {PART_DOS2_FAT, PART_DOS3_FAT, PART_DOS4_FAT, PART_DOS32, PART_DOS32X13, PART_DOSX13}"

definition volume_label :: "dos_env \<Rightarrow> BYTE \<Rightarrow> BYTE list \<Rightarrow> string option" where
  "volume_label env t b =
     (if signature b = BOOTSECTRAILSIGH \<and> b ! 0 \<in> {0x90, 0xEB, 0xE9}
      then let off = (if t \<in> {PART_DOS2_FAT, PART_DOS3_FAT, PART_DOS4_FAT, PART_DOSX13} then bsVolumeLabel
                      else bgbsVolumeLabel);
               v = take OEMNAMESIZE (drop off b)
           in if take 7 v \<noteq> NO_NAME \<and> label_length v \<noteq> 0
              then Some (map (e_ansi env) (take (label_length v) v)) else None
      else None)"

text \<open>The loop over the list; \<open>n\<close> structures are still to come.\<close>

definition set_name :: "string \<Rightarrow> PartState \<Rightarrow> DriverState \<Rightarrow> DriverState" where
  "set_name name p s = update_part (addr p) (\<lambda>p. p\<lparr>cPartName := name\<rparr>) s"

fun names_loop :: "dos_env \<Rightarrow> nat \<Rightarrow> nat \<Rightarrow> DriverState \<Rightarrow> DriverState" where
  "names_loop env 0 partID s = s"
| "names_loop env (Suc n) partID s =
     (let p = pPartState s ! (length (pPartState s) - Suc n);
          number = (\<lambda>s. let k = free_number (pPartState s) partID
                         in names_loop env n (k + 1) (set_name (numbered_name k) p s))
      in if partType p = HIDDEN_PART_TYPE \<or> cPartName p \<noteq> [] then names_loop env n partID s
         else if is_fat_type (partType p)
         then (case ReadSectors env s (snStartSector p) 1 of
                 (None, s) \<Rightarrow> s
               | (Some b, s) \<Rightarrow>
                   (case volume_label env (partType p) b of
                      Some name \<Rightarrow> names_loop env n partID (set_name name p s)
                    | None \<Rightarrow> number s))
         else number s)"

definition GeneratePartitionNames :: "dos_env \<Rightarrow> DriverState \<Rightarrow> DriverState" where
  "GeneratePartitionNames env s = names_loop env (length (pPartState s)) 0 s"

end
