(* ===== verification/Dos_Space.thy ===== *)
theory Dos_Space
  imports Dos_Mbr
begin

text \<open>
  The free space of a store (\<open>CalculatePartitionSpace\<close>) and the place of a new partition
  (\<open>GetPartLocation\<close> in \<open>DOSPART/helper.cpp\<close>).  The loops over the linked list are recursions on
  the list; those over the four table entries count up.
\<close>

section \<open>The free space\<close>

text \<open>The drives inside the extended partition: free space, largest gap, end of the last drive, last gap.\<close>

fun drive_gaps :: "DriverState \<Rightarrow> PartState list \<Rightarrow> nat \<times> nat \<times> nat \<times> nat \<Rightarrow> nat \<times> nat \<times> nat \<times> nat" where
  "drive_gaps s [] acc = acc"
| "drive_gaps s (p # ps) (free, largest, snLastPart, gap) =
     (if snPBRSector p = 0 then (free, largest, snLastPart, gap)
      else let gap = sub64 (snPBRSector p) snLastPart;
               free = add64 free gap;
               gap = (if gap \<noteq> 0 then if heads s > 1 then sub64 gap (sectors s) else gap - 1 else gap)
           in drive_gaps s ps (free, max largest gap, add64 (snStartSector p) (snNumSectors p), gap))"

definition extended_space :: "DriverState \<Rightarrow> nat \<times> nat" where
  "extended_space s =
     (if snExtPartSector s = 0 then (0, 0)
      else case dropWhile (\<lambda>p. snPBRSector p = 0) (pPartState s) of
             [] \<Rightarrow>
               (let free = add64 (sub64 (snExtPartEndSec s) (snExtPartSector s)) 1
                in (free, if heads s > 1 then sub64 free (sectors s) else sub64 free 1))
           | p # ps \<Rightarrow>
               (let (free, largest, snLastPart, gap) = drive_gaps s (p # ps) (0, 0, snExtPartSector s, 0);
                    (free, gap) =
                      (if snExtPartEndSec s > snLastPart
                       then let gap = add64 (sub64 (snExtPartEndSec s) snLastPart) 1 in (add64 free gap, gap)
                       else (free, gap));
                    gap = (if gap \<noteq> 0
                           then if heads s > 1 \<and> gap \<ge> sectors s then gap - sectors s else gap - 1
                           else gap)
                in (free, max largest gap)))"

text \<open>The gap in front of the first entry of the table.\<close>

definition head_gap :: "DriverState \<Rightarrow> partentry \<Rightarrow> nat" where
  "head_gap s e =
     (if heads s > 1
      then sub64 (sub32 (Part_StartSector e) (sectors s)) (mul32 (unat (Part_FirstHead e)) (sectors s))
      else sub32 (Part_StartSector e) 1)"

definition entry_end :: "partentry \<Rightarrow> nat" where
  "entry_end e = add32 (Part_StartSector e) (Part_TotalSectors e)"

function table_gaps :: "DriverState \<Rightarrow> BYTE list \<Rightarrow> nat \<Rightarrow> nat \<times> nat \<Rightarrow> nat \<times> nat" where
  "table_gaps s b i acc =
     (if i \<ge> 4 then acc
      else if Part_TotalSectors (get_entry b i) = 0
      then (if MSPART_CREATE_PRIMARY (dwFlags s) \<and> i = 0 \<and> bFormatState s
            then let n = (if heads s > 1 then sub32 (total_sectors s) (sectors s) else sub32 (total_sectors s) 1)
                 in (n, n)
            else acc)
      else let gap = (if Part_TotalSectors (get_entry b (i + 1)) \<noteq> 0
                      then sub32 (Part_StartSector (get_entry b (i + 1))) (entry_end (get_entry b i))
                      else if total_sectors s > entry_end (get_entry b i)
                      then sub32 (total_sectors s) (entry_end (get_entry b i)) else 0)
           in table_gaps s b (i + 1) (add64 (fst acc) gap, max (snd acc) gap))"
  by auto
termination by (relation "measure (\<lambda>(s, b, i, acc). 4 - i)") auto

declare table_gaps.simps [simp del]

text \<open>The result is \<open>FALSE\<close> (\<open>None\<close>) or the free space and the largest partition.\<close>

definition CalculatePartitionSpace :: "dos_env \<Rightarrow> DriverState \<Rightarrow> (nat \<times> nat) option \<times> DriverState" where
  "CalculatePartitionSpace env s =
     (let (free, largest) = extended_space s
      in case ReadSectors env s 0 1 of
           (None, s) \<Rightarrow> (None, s)
         | (Some b, s) \<Rightarrow>
             if Part_TotalSectors (get_entry b 3) \<noteq> 0 then (Some (free, largest), s)
             else let (free, largest) =
                        (if unat (Part_FirstTrack (get_entry b 0)) > 1
                         then let gap = head_gap s (get_entry b 0) in (add64 free gap, max largest gap)
                         else (free, largest))
                  in (Some (table_gaps s b 0 (free, largest)), s))"

section \<open>The place of a new partition\<close>

text \<open>The position found: whether it is inside the extended partition, its first sector, its
  size, and the partition before it in the list.\<close>

record location =
  bExtPart :: bool
  snNextPartSector :: nat
  curNumSectors :: nat
  pLastPartState :: "PartState option"

definition dwAlign :: "DriverState \<Rightarrow> nat" where
  "dwAlign s = (if MSPART_ALIGN_CYLINDER (dwFlags s) then mul32 (sectors s) (heads s) else sectors s)"

definition round_up :: "nat \<Rightarrow> nat \<Rightarrow> nat" where
  "round_up a n = (if n mod a \<noteq> 0 then ((n div a + 1) * a) mod 2 ^ 64 else n)"

definition track_size :: "DriverState \<Rightarrow> nat \<Rightarrow> nat" where
  "track_size s num = (if heads s > 1 \<and> num < sectors s then sectors s else num)"

definition extended_size :: "DriverState \<Rightarrow> nat \<Rightarrow> nat" where
  "extended_size s num =
     (if heads s > 1 then round_up (dwAlign s) (add64 (track_size s num) (sectors s))
      else add64 (track_size s num) 1)"

text \<open>The first partition of a store that creates primary partitions: its first sector and size.\<close>

definition first_primary :: "DriverState \<Rightarrow> nat \<Rightarrow> BYTE \<Rightarrow> nat \<times> nat" where
  "first_primary s num bPartType =
     (let cur = track_size s num;
          (next, cur) =
            (if heads s > 1
             then if bPartType = PART_BOOTSECTION \<or> bPartType = PART_BINARY
                  then let next = (if MSPART_SKIP_SECTOR1 (dwFlags s) then 2 else 1)
                       in (next, if add64 cur next mod dwAlign s \<noteq> 0
                                 then sub64 (((add64 cur next div dwAlign s + 1) * dwAlign s) mod 2 ^ 64) next
                                 else cur)
                  else (dwAlign s, round_up (dwAlign s) cur)
             else (1, cur))
      in (next, if cur > sub64 (total_sectors s) next then sub64 (total_sectors s) next else cur))"

text \<open>\<open>MSPART_SKIP_SECTOR1\<close>: sector 1 is left out.\<close>

definition skip_sector1 :: "DriverState \<Rightarrow> nat \<Rightarrow> nat" where
  "skip_sector1 s next = (if MSPART_SKIP_SECTOR1 (dwFlags s) \<and> next = 1 then next + 1 else next)"

text \<open>
  The walk along the drives of the extended partition: \<open>Inl\<close> the place found in front of a drive,
  \<open>Inr\<close> the first sector behind the drives with the last structure passed.
\<close>

fun drive_walk :: "nat \<Rightarrow> PartState list \<Rightarrow> nat \<Rightarrow> PartState option \<Rightarrow> (nat \<times> PartState option) + (nat \<times> PartState option)" where
  "drive_walk cur [] next prev = Inr (next, prev)"
| "drive_walk cur (p # ps) next prev =
     (if snPBRSector p = 0
      then (if \<exists>q. prev = Some q \<and> snPBRSector q \<noteq> 0 then Inr (next, prev) else drive_walk cur ps next (Some p))
      else if sub64 (snPBRSector p) next \<ge> cur then Inl (next, prev)
      else drive_walk cur ps (add64 (snStartSector p) (snNumSectors p)) (Some p))"

text \<open>The last structure that does not start behind \<open>next\<close>; the list ascends.\<close>

fun last_before :: "nat \<Rightarrow> PartState list \<Rightarrow> PartState option \<Rightarrow> PartState option" where
  "last_before next [] prev = prev"
| "last_before next (p # ps) prev =
     (if snStartSector p > next then prev else last_before next ps (Some p))"

definition extended_place :: "DriverState \<Rightarrow> nat \<Rightarrow> nat \<Rightarrow> location option" where
  "extended_place s cur next =
     (case drive_walk cur (pPartState s) next None of
        Inl (next, prev) \<Rightarrow> Some \<lparr>bExtPart = True, snNextPartSector = next, curNumSectors = cur, pLastPartState = prev\<rparr>
      | Inr (next, prev) \<Rightarrow>
          if add64 (sub64 (snExtPartEndSec s) next) 1 < cur then None
          else Some \<lparr>bExtPart = True, snNextPartSector = next, curNumSectors = cur,
                     pLastPartState = (if next = snExtPartSector s then last_before next (pPartState s) None else prev)\<rparr>)"

text \<open>The gap behind entry \<open>i\<close> of the table.\<close>

definition gap_behind :: "DriverState \<Rightarrow> BYTE list \<Rightarrow> nat \<Rightarrow> nat" where
  "gap_behind s b i =
     (if Part_TotalSectors (get_entry b (i + 1)) \<noteq> 0
      then sub32 (Part_StartSector (get_entry b (i + 1))) (entry_end (get_entry b i))
      else sub32 (total_sectors s) (entry_end (get_entry b i)))"

text \<open>The loop over the table entries, with the gap and the size left by the check in front of them.\<close>

function table_walk :: "DriverState \<Rightarrow> BYTE list \<Rightarrow> nat \<Rightarrow> nat \<Rightarrow> nat \<Rightarrow> nat \<Rightarrow> location option" where
  "table_walk s b cur i gap next =
     (if i \<ge> 4 \<or> Part_TotalSectors (get_entry b i) = 0 then None
      else let (gap, next) =
             (if gap = 0 then (gap_behind s b i, entry_end (get_entry b i))
              else (gap, next))
           in if gap \<ge> cur
              then Some \<lparr>bExtPart = False, snNextPartSector = next, curNumSectors = cur,
                         pLastPartState = last_before next (pPartState s) None\<rparr>
              else table_walk s b cur (i + 1) 0 next)"
  by auto
termination by (relation "measure (\<lambda>(s, b, cur, i, gap, next). 4 - i)") auto

declare table_walk.simps [simp del]

definition table_place :: "DriverState \<Rightarrow> BYTE list \<Rightarrow> nat \<Rightarrow> nat \<Rightarrow> location option" where
  "table_place s b num next =
     (if Part_TotalSectors (get_entry b 3) \<noteq> 0 then None
      else let cur = (if heads s > 1 then round_up (dwAlign s) (track_size s num) else track_size s num)
           in if unat (Part_FirstTrack (get_entry b 0)) > 1
              then let gap = head_gap s (get_entry b 0);
                       next = (if heads s > 1 then sectors s else 1)
                   in if gap < sub64 cur next then table_walk s b cur 0 0 next
                      else table_walk s b (sub64 cur next) 0 gap next
              else table_walk s b cur 0 0 next)"

definition find_place :: "dos_env \<Rightarrow> DriverState \<Rightarrow> nat \<Rightarrow> BYTE \<Rightarrow> location option \<times> DriverState" where
  "find_place env s num bPartType =
     (if pPartState s = []
      then if MSPART_CREATE_PRIMARY (dwFlags s)
           then let (next, cur) = first_primary s num bPartType
                in (Some \<lparr>bExtPart = False, snNextPartSector = skip_sector1 s next, curNumSectors = cur,
                          pLastPartState = None\<rparr>, s)
           else (Some \<lparr>bExtPart = True, snNextPartSector = skip_sector1 s (snExtPartSector s),
                       curNumSectors = extended_size s num, pLastPartState = None\<rparr>, s)
      else let next = skip_sector1 s (snExtPartSector s)
           in case (if next \<noteq> 0 then extended_place s (extended_size s num) next else None) of
                Some l \<Rightarrow> (Some l, s)
              | None \<Rightarrow>
                  (case ReadSectors env s 0 1 of
                     (None, s) \<Rightarrow> (None, s)
                   | (Some b, s) \<Rightarrow>
                       (case table_place s b num next of
                          Some l \<Rightarrow> (Some l, s)
                        | None \<Rightarrow> (None, SetLastError ERROR_DISK_FULL s))))"

text \<open>The result is the structure before the partition, its start, its boot record (or 0) and its size.\<close>

definition GetPartLocation ::
    "dos_env \<Rightarrow> DriverState \<Rightarrow> nat \<Rightarrow> BYTE \<Rightarrow> (PartState option \<times> nat \<times> nat \<times> nat) option \<times> DriverState" where
  "GetPartLocation env s num bPartType =
     (case find_place env s num bPartType of
        (None, s) \<Rightarrow> (None, s)
      | (Some l, s) \<Rightarrow>
          (Some (if bExtPart l
                 then (pLastPartState l,
                       add64 (snNextPartSector l) (if heads s > 1 then sectors s else 1),
                       snNextPartSector l, curNumSectors l)
                 else (pLastPartState l, snNextPartSector l, 0, curNumSectors l)), s))"

end
