(* ===== verification/Dos_Store.thy ===== *)
theory Dos_Store
  imports Dos_Names Dos_Space
begin

text \<open>
  The store functions of the partition driver (\<open>LoadDiskInfo\<close>, \<open>PD_OpenStore\<close>,
  \<open>PD_GetStoreInfo\<close>, \<open>PD_FormatStore\<close>, \<open>PD_IsStoreFormatted\<close>, \<open>PD_CloseStore\<close> in
  \<open>DOSPART/part.cpp\<close>, \<open>ClearPartitionList\<close> and \<open>InitPartition\<close> in \<open>DOSPART/helper.cpp\<close>).
\<close>

section \<open>Opening a store\<close>

definition LoadDiskInfo :: "dos_env \<Rightarrow> DriverState \<Rightarrow> nat \<times> DriverState" where
  "LoadDiskInfo env s =
     (if e_refuse env (tick s) then (ERROR_GEN_FAILURE, fail_tick env s)
      else let g = e_geometry env;
               s = next_tick (s\<lparr>diskInfo := g\<rparr>)
           in if di_bytes_per_sect g = 0 \<or> di_total_sectors g = 0 then (ERROR_GEN_FAILURE, s)
              else let g = (if di_heads g = 0 then g\<lparr>di_heads := 1\<rparr> else g);
                       g = (if di_cylinders g = 0 then g\<lparr>di_cylinders := 1\<rparr> else g);
                       g = (if di_sectors g = 0 then g\<lparr>di_sectors := di_total_sectors g\<rparr> else g)
                   in (ERROR_SUCCESS, s\<lparr>diskInfo := g\<rparr>))"

text \<open>\<open>FSDMGR_GetRegistryValue\<close> (\<open>FSDSERV/fsdserv.cpp\<close>): the value in the key of the store, else in that of the driver, else 0.\<close>

definition FSDMGR_GetRegistryValue :: "dos_env \<Rightarrow> string \<Rightarrow> bool \<times> nat" where
  "FSDMGR_GetRegistryValue env szValueName =
     (case e_registry_root env szValueName of
        Some v \<Rightarrow> (True, v)
      | None \<Rightarrow>
          (case e_registry_storage env szValueName of
             Some v \<Rightarrow> (True, v)
           | None \<Rightarrow> (False, 0)))"

definition registry_flags :: "dos_env \<Rightarrow> part_flags" where
  "registry_flags env =
     \<lparr>MSPART_CREATE_PRIMARY = snd (FSDMGR_GetRegistryValue env ''PrimaryPart'') \<noteq> 0,
      MSPART_ALIGN_CYLINDER = snd (FSDMGR_GetRegistryValue env ''AlignCylinder'') \<noteq> 0,
      MSPART_SKIP_SECTOR1 = snd (FSDMGR_GetRegistryValue env ''SkipSector1'') \<noteq> 0\<rparr>"

definition empty_geometry :: DISK_INFO where
  "empty_geometry =
     \<lparr>di_total_sectors = 0, di_bytes_per_sect = 0, di_cylinders = 0, di_heads = 0, di_sectors = 0,
      di_flags = \<lparr>DISK_INFO_FLAG_MBR = False, DISK_INFO_FLAG_UNFORMATTED = False, other_flags = 0\<rparr>\<rparr>"

text \<open>The zeroed state over the disk, the ticks and the addresses at the time of the call.\<close>

definition new_driver :: "(nat \<Rightarrow> BYTE list) \<Rightarrow> nat \<Rightarrow> nat \<Rightarrow> nat \<Rightarrow> DriverState" where
  "new_driver d t a e =
     \<lparr>ftCreate = 0, ftAccess = 0, dwNumParts = 0, bFormatState = False, dwFlags = no_flags,
      diskInfo = empty_geometry, pPartState = [], pSearchState = [], lost_searches = [],
      pHiddenPartState = None, snExtPartSector = 0, snExtPartEndSec = 0, disk = d, tick = t, next_addr = a,
      last_error = e\<rparr>"

text \<open>The boot sector of a FAT volume without partition table (\<open>IS_VALID_BOOTSEC\<close> in \<open>INC/bootsec.h\<close>).\<close>

definition IS_VALID_BOOTSEC :: "BYTE list \<Rightarrow> bool" where
  "IS_VALID_BOOTSEC b \<longleftrightarrow> signature b = BOOTSECTRAILSIGH \<and> (b ! 0 = 0xEB \<or> b ! 0 = 0xE9)"

definition BPB_TotalSectors :: "BYTE list \<Rightarrow> nat" where "BPB_TotalSectors b = get_word b 19"
definition BPB_BigTotalSectors :: "BYTE list \<Rightarrow> nat" where "BPB_BigTotalSectors b = get_dword b 32"

definition is_superfloppy :: "BYTE list \<Rightarrow> bool" where
  "is_superfloppy b \<longleftrightarrow> IS_VALID_BOOTSEC b \<and> (BPB_BigTotalSectors b \<noteq> 0 \<or> BPB_TotalSectors b \<noteq> 0) \<and>
     BPB_BigTotalSectors b \<noteq> 0xffffffff"

text \<open>
  \<open>PD_OpenStore\<close> over the zeroed state \<open>s\<close>.  The outer \<open>option\<close> is \<open>None\<close> when the call does not
  return; the store is \<open>None\<close> when none is handed out.
\<close>

definition PD_OpenStore :: "dos_env \<Rightarrow> DriverState \<Rightarrow> (nat \<times> DriverState option) option" where
  "PD_OpenStore env s =
     (let (ok, s) = LocalAlloc env s
      in if \<not> ok then Some (ERROR_OUTOFMEMORY, None)
      else let (dwError, s) = LoadDiskInfo env s
      in if dwError \<noteq> ERROR_SUCCESS then Some (dwError, None)
      else let s = s\<lparr>dwFlags := registry_flags env, bFormatState := False\<rparr>
      in case ReadSectors env s 0 1 of
           (None, s) \<Rightarrow>
             Some (if \<not> DISK_INFO_FLAG_UNFORMATTED (di_flags (diskInfo s)) then ERROR_READ_FAULT else ERROR_SUCCESS, Some s)
         | (Some b, s) \<Rightarrow>
             Option.bind (GetDOSPartitions env b False 0 s)
               (\<lambda>(dwError, _, s).
                  if dwError \<noteq> ERROR_SUCCESS
                  then if is_superfloppy b then Some (ERROR_DEVICE_NOT_PARTITIONED, Some s)
                       else if dwError = ERROR_INVALID_DATA
                       then Some (ERROR_SUCCESS,
                                  Some (if MSPART_CREATE_PRIMARY (dwFlags s) \<and> IS_VALID_BOOTSEC b
                                        then s\<lparr>bFormatState := True\<rparr> else s))
                       else Some (ERROR_READ_FAULT, Some s)
                  else Some (ERROR_SUCCESS, Some (GeneratePartitionNames env (s\<lparr>bFormatState := True\<rparr>)))))"

section \<open>The other store functions\<close>

definition ClearPartitionList :: "DriverState \<Rightarrow> DriverState" where
  "ClearPartitionList s =
     s\<lparr>pPartState := [], pHiddenPartState := None, snExtPartSector := 0, snExtPartEndSec := 0, dwNumParts := 0\<rparr>"

text \<open>\<open>sizes_match\<close> is the check of \<open>cbSize\<close>.\<close>

definition PD_GetStoreInfo :: "dos_env \<Rightarrow> DriverState \<Rightarrow> bool \<Rightarrow> (nat + PD_STOREINFO) \<times> DriverState" where
  "PD_GetStoreInfo env s sizes_match =
     (if \<not> sizes_match then (Inl ERROR_INVALID_PARAMETER, s)
      else case CalculatePartitionSpace env s of
             (None, s) \<Rightarrow> (Inl ERROR_GEN_FAILURE, s)
           | (Some (free, largest), s) \<Rightarrow>
               (Inr \<lparr>si_ftCreated = ftCreate s, si_ftLastModified = ftAccess s,
                     si_dwBytesPerSector = bytes_per_sect s, si_snNumSectors = total_sectors s,
                     si_snFreeSectors = free, si_snBiggestPartCreatable = largest,
                     si_unformatted = (\<not> bFormatState s)\<rparr>, s))"

definition PD_CloseStore :: "DriverState \<Rightarrow> DriverState" where
  "PD_CloseStore s = ClearPartitionList s"

definition PD_IsStoreFormatted :: "DriverState \<Rightarrow> nat" where
  "PD_IsStoreFormatted s = (if bFormatState s then ERROR_SUCCESS else ERROR_BAD_FORMAT)"

text \<open>The low-level format request of the medium.\<close>

definition format_media :: "dos_env \<Rightarrow> DriverState \<Rightarrow> bool \<times> DriverState" where
  "format_media env s =
     (if e_refuse env (tick s) then (False, fail_tick env s)
      else (True, next_tick (s\<lparr>disk := (\<lambda>i. e_formatted env i (disk s i))\<rparr>)))"

definition blank_sectors :: "DriverState \<Rightarrow> BYTE list" where
  "blank_sectors s =
     (let b = replicate (mul32 (bytes_per_sect s) 8) 0
      in if MSPART_CREATE_PRIMARY (dwFlags s)
         then overwrite (overwrite (set_signature b) 0 [0xE9, 0xfd, 0xff]) PARTTABLE_OFFSET (replicate 64 0)
         else b)"

definition PD_FormatStore :: "dos_env \<Rightarrow> DriverState \<Rightarrow> nat \<times> DriverState" where
  "PD_FormatStore env s =
     (let (ok, s) = format_media env s
      in if \<not> ok then (if last_error s \<noteq> 0 then last_error s else ERROR_GEN_FAILURE, s)
      else let (dwError, s) = LoadDiskInfo env s
      in if dwError \<noteq> ERROR_SUCCESS then (dwError, s)
      else let (ok, s) = LocalAlloc env s
      in if \<not> ok then (ERROR_OUTOFMEMORY, s)
      else let (ok, s) = WriteSectors env s 0 (mul32 (bytes_per_sect s) 8 div bytes_per_sect s) (blank_sectors s)
      in if \<not> ok then (ERROR_WRITE_FAULT, s)
      else let s = (if bFormatState s then ClearPartitionList s else s);
               s = s\<lparr>dwNumParts := 0\<rparr>
      in if MSPART_CREATE_PRIMARY (dwFlags s) then (ERROR_SUCCESS, s\<lparr>bFormatState := True\<rparr>)
         else let s = s\<lparr>snExtPartSector := (if heads s > 1 then mul32 (sectors s) (heads s) else 1),
                        snExtPartEndSec := sub32 (total_sectors s) 1\<rparr>;
                  (ok, s) = WriteMBR env s (snExtPartSector s) (sub64 (total_sectors s) (snExtPartSector s)) PART_EXTENDED True
              in if \<not> ok then (ERROR_WRITE_FAULT, s) else (ERROR_SUCCESS, s\<lparr>bFormatState := True\<rparr>))"

section \<open>Clearing the start of a partition\<close>

fun init_loop :: "dos_env \<Rightarrow> nat \<Rightarrow> nat \<Rightarrow> DriverState \<Rightarrow> bool \<times> DriverState" where
  "init_loop env 0 sectorNum s = (True, s)"
| "init_loop env (Suc n) sectorNum s =
     (let (ok, s) = WriteSectors env s sectorNum 1 (replicate (bytes_per_sect s) 0)
      in if \<not> ok then (False, s) else init_loop env n (add64 sectorNum 1) s)"

definition InitPartition :: "dos_env \<Rightarrow> DriverState \<Rightarrow> PartState \<Rightarrow> bool \<times> DriverState" where
  "InitPartition env s p =
     (let (ok, s) = LocalAlloc env s
      in if \<not> ok then (False, s)
         else let num = sub32 (add32 (4 * 1024) (bytes_per_sect s)) 1 div bytes_per_sect s;
                  num = (if num > sub64 (snNumSectors p) 1 then sub64 (snNumSectors p) 1 else num)
              in init_loop env num (snStartSector p) s)"

end
