(* ===== verification/Dos_Fat.thy ===== *)
theory Dos_Fat
  imports Dos_State
begin

text \<open>
  The partition type for a size (\<open>GenerateFATFSType\<close> in \<open>DOSPART/helper.cpp\<close>).  The innermost
  loop and the loop of at most four rounds end; nothing in the code bounds the outer loop and the
  jump back to \<open>restart\<close>, so they are a partial function into \<open>option\<close>.
\<close>

section \<open>The operation\<close>

definition FAT1216_THRESHOLD :: nat where "FAT1216_THRESHOLD = 0xFF6"
definition FAT1632_THRESHOLD :: nat where "FAT1632_THRESHOLD = 0xFFF6"
definition FAT32_BAD :: nat where "FAT32_BAD = 0x0FFFFFF7"
definition MAX_CLUS_SIZE :: nat where "MAX_CLUS_SIZE = 32768"
definition DATA_CLUSTER :: nat where "DATA_CLUSTER = 2"
definition sizeof_DIRENTRY :: nat where "sizeof_DIRENTRY = 32"

text \<open>
  The innermost loop: the width of a FAT entry, the cluster size and the number of clusters, or
  \<open>Inl\<close> the cluster size that is too large.  A cluster size of 0 would divide by zero; it starts
  at 1 and doubles below 4096.
\<close>

function fat_width :: "nat \<Rightarrow> nat \<Rightarrow> nat \<Rightarrow> nat + nat \<times> nat \<times> nat" where
  "fat_width bps csecData csecClus =
     (if csecClus = 0 \<or> csecClus > MAX_CLUS_SIZE div bps then Inl csecClus
      else let cclusData = csecData div csecClus
           in if cclusData < FAT1216_THRESHOLD then Inr (12, csecClus, cclusData)
              else if cclusData < FAT1632_THRESHOLD then Inr (16, csecClus, cclusData)
              else if csecClus < 4096 div bps then fat_width bps csecData (csecClus * 2)
              else Inr (32, csecClus, cclusData))"
  by auto
termination by (relation "measure (\<lambda>(bps, d, c). 4096 div bps - c)") auto

declare fat_width.simps [simp del]

definition fat_sectors :: "nat \<Rightarrow> nat \<Rightarrow> nat \<Rightarrow> nat" where
  "fat_sectors bps cbitsClus cclusData =
     sub32 (add32 (add32 (mul32 (add32 cclusData DATA_CLUSTER) cbitsClus) 7 div 8) bps) 1 div bps"

definition root_sectors :: "nat \<Rightarrow> nat \<Rightarrow> nat" where
  "root_sectors bps cbitsClus =
     (if cbitsClus = 32 then 0 else sub32 (add32 (mul32 sizeof_DIRENTRY 256) bps) 1 div bps)"

record fat_state =
  csecReserved :: nat
  csecClus :: nat
  csecFATs :: nat
  csecRoot :: nat

text \<open>
  The loop of at most \<open>cLoops\<close> rounds: \<open>Inr\<close> the rounds left, the width and the state, or \<open>Inl\<close>
  the state at the jump to \<open>restart\<close>.
\<close>

fun fat_rounds :: "nat \<Rightarrow> nat \<Rightarrow> nat \<Rightarrow> fat_state \<Rightarrow> fat_state + nat \<times> nat \<times> fat_state" where
  "fat_rounds bps secs 0 f = Inl f"
| "fat_rounds bps secs (Suc cLoops) f =
     (let csecData = sub32 (sub32 (sub32 secs (csecReserved f)) (csecFATs f)) (csecRoot f)
      in case fat_width bps csecData (csecClus f) of
           Inl c \<Rightarrow> Inl (f\<lparr>csecClus := c\<rparr>)
         | Inr (cbitsClus, c, cclusData) \<Rightarrow>
             let f' = f\<lparr>csecClus := c, csecReserved := (if cbitsClus = 32 then 2 else csecReserved f),
                        csecFATs := fat_sectors bps cbitsClus cclusData, csecRoot := root_sectors bps cbitsClus\<rparr>
             in if csecFATs f' = csecFATs f then Inr (Suc cLoops, cbitsClus, f')
                else if cLoops = 0 then Inr (0, cbitsClus, f')
                else fat_rounds bps secs cLoops f')"

partial_function (option) fat_loop :: "nat \<Rightarrow> nat \<Rightarrow> fat_state \<Rightarrow> (nat \<times> nat) option" where
  "fat_loop bps secs f =
     (case fat_rounds bps secs 4 (f\<lparr>csecFATs := 0, csecRoot := 0\<rparr>) of
        Inl f \<Rightarrow> fat_loop bps (mul32 (FAT32_BAD - 1) (MAX_CLUS_SIZE div bps)) f
      | Inr r \<Rightarrow>
          (if fst r \<noteq> 0 then Some (fst (snd r), secs)
           else fat_loop bps (sub32 secs (csecClus (snd (snd r)))) (snd (snd r))))"

definition GenerateFATFSType :: "DriverState \<Rightarrow> nat \<Rightarrow> BYTE option" where
  "GenerateFATFSType s num =
     map_option (\<lambda>(cbitsClus, secs).
         if cbitsClus = 12 then PART_DOS2_FAT
         else if cbitsClus = 32 then PART_DOS32
         else if secs < 65536 then PART_DOS3_FAT
         else PART_DOS4_FAT)
       (fat_loop (bytes_per_sect s) (dword num) \<lparr>csecReserved = 1, csecClus = 1, csecFATs = 0, csecRoot = 0\<rparr>)"

section \<open>Sectors that are too large\<close>

lemma fat_rounds_too_large:
  "csecClus f > MAX_CLUS_SIZE div bps \<Longrightarrow> fat_rounds bps secs (Suc n) f = Inl f"
  by (simp add: fat_width.simps Let_def)

lemma fat_loop_too_large:
  assumes "MAX_CLUS_SIZE div bps < c"
  shows "fat_loop bps secs \<lparr>csecReserved = r, csecClus = c, csecFATs = 0, csecRoot = 0\<rparr> = None"
proof (rule ccontr)
  let ?f = "\<lparr>csecReserved = r, csecClus = c, csecFATs = 0, csecRoot = 0\<rparr>"
  assume "fat_loop bps secs ?f \<noteq> None"
  then obtain y where y: "fat_loop bps secs ?f = Some y" by blast
  have four: "(4 :: nat) = Suc 3" by simp
  have round: "fat_rounds bps n 4 ?f = Inl ?f" for n
    unfolding four by (rule fat_rounds_too_large) (simp add: assms)
  have "\<not> (bps = bps \<and> ?f = ?f)"
  proof (rule fat_loop.raw_induct [where P = "\<lambda>b n f y. \<not> (b = bps \<and> f = ?f)", OF _ y])
    fix fl :: "nat \<Rightarrow> nat \<Rightarrow> fat_state \<Rightarrow> (nat \<times> nat) option" and b n f and y :: "nat \<times> nat"
    assume IH: "\<And>b n f y. fl b n f = Some y \<Longrightarrow> \<not> (b = bps \<and> f = ?f)"
      and eq: "(case fat_rounds b n 4 (f\<lparr>csecFATs := 0, csecRoot := 0\<rparr>) of
        Inl f \<Rightarrow> fl b (mul32 (FAT32_BAD - 1) (MAX_CLUS_SIZE div b)) f
      | Inr r \<Rightarrow> (if fst r \<noteq> 0 then Some (fst (snd r), n) else fl b (sub32 n (csecClus (snd (snd r)))) (snd (snd r)))) = Some y"
    show "\<not> (b = bps \<and> f = ?f)"
    proof
      assume "b = bps \<and> f = ?f"
      then have "fl bps (mul32 (FAT32_BAD - 1) (MAX_CLUS_SIZE div bps)) ?f = Some y"
        using eq by (simp add: round)
      then show False using IH by blast
    qed
  qed
  then show False by simp
qed

end
