(* ===== verification/Dos_Part.thy ===== *)
theory Dos_Part
  imports Dos_Store Dos_Mbr Dos_Fat
begin

text \<open>
  The partition functions of the driver (\<open>DOSPART/part.cpp\<close>): creating, deleting, renaming,
  resizing, formatting and listing partitions.  A handle is the address of a structure; the result
  is \<open>None\<close> when the function does not return or dereferences a pointer to freed memory.
\<close>

section \<open>Creating a partition\<close>

fun insert_after :: "nat \<Rightarrow> PartState \<Rightarrow> PartState list \<Rightarrow> PartState list" where
  "insert_after a q [] = []"
| "insert_after a q (p # ps) = (if addr p = a then p # q # ps else p # insert_after a q ps)"

definition remove_part :: "nat \<Rightarrow> PartState list \<Rightarrow> PartState list" where
  "remove_part a ps = filter (\<lambda>p. addr p \<noteq> a) ps"

text \<open>The structure behind the one with address \<open>a\<close>.\<close>

fun next_part :: "nat \<Rightarrow> PartState list \<Rightarrow> PartState option" where
  "next_part a [] = None"
| "next_part a (p # ps) = (if addr p = a then (case ps of [] \<Rightarrow> None | q # _ \<Rightarrow> Some q) else next_part a ps)"

definition pbr_of :: "PartState option \<Rightarrow> nat" where
  "pbr_of p = (case p of None \<Rightarrow> 0 | Some p \<Rightarrow> snPBRSector p)"

text \<open>Searches that stand at the structure \<open>a\<close> are moved to \<open>a'\<close>.\<close>

definition move_searches :: "nat \<Rightarrow> nat option \<Rightarrow> DriverState \<Rightarrow> DriverState" where
  "move_searches a a' s =
     s\<lparr>pSearchState := map (\<lambda>r. if search_part r = Some a then r\<lparr>search_part := a'\<rparr> else r) (pSearchState s)\<rparr>"

definition link_part :: "PartState option \<Rightarrow> PartState \<Rightarrow> DriverState \<Rightarrow> DriverState" where
  "link_part prev p s =
     s\<lparr>pPartState := (case prev of None \<Rightarrow> p # pPartState s | Some q \<Rightarrow> insert_after (addr q) p (pPartState s)),
       dwNumParts := add32 (dwNumParts s) 1\<rparr>"

text \<open>The exit after a failed write of the tables.\<close>

definition unlink_part :: "PartState option \<Rightarrow> nat \<Rightarrow> DriverState \<Rightarrow> DriverState" where
  "unlink_part prev a s =
     s\<lparr>pPartState := (case prev of None \<Rightarrow> [] | Some q \<Rightarrow> remove_part a (pPartState s)),
       dwNumParts := sub32 (dwNumParts s) 1\<rparr>"

definition new_part :: "nat \<Rightarrow> string \<Rightarrow> nat \<Rightarrow> nat \<Rightarrow> nat \<Rightarrow> PartState" where
  "new_part a name start pbr num =
     \<lparr>addr = a, cPartName = name, snStartSector = start,
      snNumSectors = (if pbr \<noteq> 0 then sub64 num (sub64 start pbr) else num),
      ftCreation = 0, ftModified = 0, dwAttributes = no_attributes, snPBRSector = pbr, partType = 0\<rparr>"

definition write_tables ::
    "dos_env \<Rightarrow> DriverState \<Rightarrow> nat \<Rightarrow> nat \<Rightarrow> nat \<Rightarrow> nat \<Rightarrow> nat \<Rightarrow> BYTE \<Rightarrow> bool \<times> DriverState" where
  "write_tables env s prevPBR nextPBR start pbr num t =
     (if pbr \<noteq> 0 then CreatePBR env s prevPBR nextPBR pbr num t else WriteMBR env s start num t False)"

definition create_at ::
    "dos_env \<Rightarrow> DriverState \<Rightarrow> string \<Rightarrow> BYTE \<Rightarrow> bool \<Rightarrow> PartState option \<Rightarrow> nat \<Rightarrow> nat \<Rightarrow> nat \<Rightarrow> (nat \<times> DriverState) option" where
  "create_at env s name bPartType bAuto prev start pbr num =
     (let (ok, s) = LocalAlloc env s
      in if \<not> ok then Some (ERROR_OUTOFMEMORY, s)
      else let a = next_addr s;
               s = s\<lparr>next_addr := a + 1\<rparr>;
               prevPBR = pbr_of prev;
               nextP = (case prev of None \<Rightarrow> (case pPartState s of [] \<Rightarrow> None | q # _ \<Rightarrow> Some q)
                                   | Some q \<Rightarrow> next_part (addr q) (pPartState s));
               p = new_part a name start pbr num;
               (ok, s) = InitPartition env s p
      in if \<not> ok then Some (ERROR_PARTITION_FAILURE, s)
      else let s = link_part prev p s
      in case (if bAuto then GenerateFATFSType s (snNumSectors p) else Some bPartType) of
           None \<Rightarrow> None
         | Some t \<Rightarrow>
             let s = update_part a (\<lambda>p. p\<lparr>partType := t\<rparr>) s;
                 (ok, s) = write_tables env s prevPBR (pbr_of nextP) start pbr num t
             in if \<not> ok then Some (ERROR_PARTITION_FAILURE, unlink_part prev a s)
                else Some (ERROR_SUCCESS,
                           (case nextP of None \<Rightarrow> s | Some q \<Rightarrow> move_searches (addr q) (Some a) s)))"

definition PD_CreatePartition ::
    "dos_env \<Rightarrow> DriverState \<Rightarrow> string \<Rightarrow> BYTE \<Rightarrow> nat \<Rightarrow> bool \<Rightarrow> (nat \<times> DriverState) option" where
  "PD_CreatePartition env s szPartName bPartType num bAuto =
     (if \<not> bFormatState s then Some (ERROR_BAD_FORMAT, s)
      else if szPartName = [] then Some (ERROR_INVALID_NAME, s)
      else if num = 0 \<or> num > total_sectors s then Some (ERROR_DISK_FULL, s)
      else if GetPartition s szPartName \<noteq> None then Some (ERROR_ALREADY_EXISTS, s)
      else if dwNumParts s = 24 then Some (ERROR_PARTITION_FAILURE, s)
      else case GetPartLocation env s num bPartType of
             (None, s) \<Rightarrow> Some (ERROR_PARTITION_FAILURE, s)
           | (Some (prev, start, pbr, n), s) \<Rightarrow> create_at env s szPartName bPartType bAuto prev start pbr n)"

section \<open>Deleting and changing partitions\<close>

text \<open>\<open>IOCTL_DISK_DELETE_SECTORS\<close>: the driver may change what the sectors hold.\<close>

definition delete_request :: "dos_env \<Rightarrow> DriverState \<Rightarrow> nat \<Rightarrow> nat \<Rightarrow> bool \<times> DriverState" where
  "delete_request env s start n =
     (if e_refuse env (tick s) then (False, fail_tick env s)
      else (True, next_tick (s\<lparr>disk := (\<lambda>i. if start \<le> i \<and> i < start + n then e_deleted env i (disk s i) else disk s i)\<rparr>)))"

definition PD_DeletePartition :: "dos_env \<Rightarrow> DriverState \<Rightarrow> string \<Rightarrow> nat \<times> DriverState" where
  "PD_DeletePartition env s szPartName =
     (case GetPartition s szPartName of
        None \<Rightarrow> (ERROR_NOT_FOUND, SetLastError ERROR_NOT_FOUND s)
      | Some (p, prev) \<Rightarrow>
          (if PARTITION_ATTRIBUTE_READONLY (dwAttributes p)
           then (ERROR_ACCESS_DENIED, SetLastError ERROR_ACCESS_DENIED s)
           else let (ok, s) = (if snPBRSector p \<noteq> 0 then DeletePBR env s p prev else DeleteMBR env s p)
                in if \<not> ok then (ERROR_GEN_FAILURE, s)
                   else let (_, s) = delete_request env s (dword (snStartSector p)) (dword (snNumSectors p));
                            q = map_option addr (next_part (addr p) (pPartState s));
                            s = s\<lparr>pPartState := remove_part (addr p) (pPartState s),
                                  dwNumParts := sub32 (dwNumParts s) 1\<rparr>
                        in (ERROR_SUCCESS, move_searches (addr p) q s)))"

definition PD_RenamePartition :: "DriverState \<Rightarrow> string \<Rightarrow> string \<Rightarrow> nat \<times> DriverState" where
  "PD_RenamePartition s szOldPartName szNewPartName =
     (if GetPartition s szNewPartName \<noteq> None then (ERROR_ALREADY_EXISTS, s)
      else case GetPartition s szOldPartName of
             None \<Rightarrow> (ERROR_NOT_FOUND, s)
           | Some (p, _) \<Rightarrow> (ERROR_SUCCESS, set_name szNewPartName p s))"

definition PD_SetPartitionAttrs :: "DriverState \<Rightarrow> string \<Rightarrow> part_attributes \<Rightarrow> nat \<times> DriverState" where
  "PD_SetPartitionAttrs s szPartName attrs =
     (case GetPartition s szPartName of
        None \<Rightarrow> (ERROR_NOT_FOUND, s)
      | Some (p, _) \<Rightarrow> (ERROR_SUCCESS, update_part (addr p) (\<lambda>p. p\<lparr>dwAttributes := attrs\<rparr>) s))"

definition aligned_size :: "DriverState \<Rightarrow> PartState \<Rightarrow> nat \<Rightarrow> nat" where
  "aligned_size s p num =
     (if dwAlign s \<noteq> 0
      then let num = round_up (dwAlign s) num
           in if snStartSector p mod dwAlign s \<noteq> 0 then sub64 num (snStartSector p mod dwAlign s) else num
      else num)"

definition PD_SetPartitionSize :: "dos_env \<Rightarrow> DriverState \<Rightarrow> string \<Rightarrow> nat \<Rightarrow> nat \<times> DriverState" where
  "PD_SetPartitionSize env s szPartName num =
     (case GetPartition s szPartName of
        None \<Rightarrow> (ERROR_NOT_FOUND, s)
      | Some (p, _) \<Rightarrow>
          (if snPBRSector p \<noteq> 0 then (ERROR_NOT_FOUND, s)
           else let n = aligned_size s p num;
                    s = update_part (addr p) (\<lambda>p. p\<lparr>snNumSectors := n\<rparr>) s;
                    (ok, s) = UpdateMBR env s (p\<lparr>snNumSectors := n\<rparr>)
                in if \<not> ok
                   then (ERROR_GEN_FAILURE, update_part (addr p) (\<lambda>q. q\<lparr>snNumSectors := snNumSectors p\<rparr>) s)
                   else (ERROR_SUCCESS, s)))"

text \<open>The new type in the table that holds the entry of the partition.\<close>

definition retype_entry :: "dos_env \<Rightarrow> DriverState \<Rightarrow> PartState \<Rightarrow> BYTE \<Rightarrow> bool \<times> DriverState" where
  "retype_entry env s p t =
     (if snPBRSector p \<noteq> 0
      then (case ReadSectors env s (snPBRSector p) 1 of
              (None, s) \<Rightarrow> (False, s)
            | (Some b, s) \<Rightarrow> WriteSectors env s (snPBRSector p) 1 (put_entry b 0 ((get_entry b 0)\<lparr>Part_FileSystem := t\<rparr>)))
      else let (ok, s) = DeleteMBR env s p
           in if \<not> ok then (False, s) else WriteMBR env s (snStartSector p) (snNumSectors p) t False)"

definition PD_FormatPartition ::
    "dos_env \<Rightarrow> DriverState \<Rightarrow> string \<Rightarrow> BYTE \<Rightarrow> bool \<Rightarrow> (nat \<times> DriverState) option" where
  "PD_FormatPartition env s szPartName bPartType bAuto =
     (case GetPartition s szPartName of
        None \<Rightarrow> Some (ERROR_NOT_FOUND, s)
      | Some (p, _) \<Rightarrow>
          (if PARTITION_ATTRIBUTE_READONLY (dwAttributes p)
           then Some (ERROR_ACCESS_DENIED, SetLastError ERROR_ACCESS_DENIED s)
           else let (ok, s) = InitPartition env s p
                in if \<not> ok then Some (0, s)
                   else case (if bAuto \<and> bPartType \<noteq> partType p then GenerateFATFSType s (snNumSectors p)
                              else Some bPartType) of
                          None \<Rightarrow> None
                        | Some t \<Rightarrow>
                            Some (if t \<noteq> 0xff
                                  then let (ok, s) = retype_entry env s p t
                                       in if ok then (ERROR_SUCCESS, update_part (addr p) (\<lambda>p. p\<lparr>partType := t\<rparr>) s)
                                          else (ERROR_GEN_FAILURE, s)
                                  else (ERROR_SUCCESS, s))))"

section \<open>Listing partitions\<close>

definition PD_GetPartitionInfo :: "DriverState \<Rightarrow> string \<Rightarrow> nat + PD_PARTINFO" where
  "PD_GetPartitionInfo s name =
     (case GetPartition s name of
        None \<Rightarrow> Inl ERROR_NOT_FOUND
      | Some (p, _) \<Rightarrow>
          Inr \<lparr>szPartitionName = name, pi_snNumSectors = snNumSectors p, pi_ftCreated = ftCreation p,
               pi_ftLastModified = ftModified p, pi_dwAttributes = dwAttributes p, pi_bPartType = partType p\<rparr>)"

definition PD_OpenPartition :: "DriverState \<Rightarrow> string \<Rightarrow> nat + nat" where
  "PD_OpenPartition s name =
     (case GetPartition s name of None \<Rightarrow> Inl ERROR_NOT_FOUND | Some (p, _) \<Rightarrow> Inr (addr p))"

text \<open>
  \<open>PD_FindPartitionStart\<close>: the loop that looks for the end of the list leaves the pointer at
  \<open>NULL\<close>, so the new search always becomes the list, and the searches it held are unlinked.
\<close>

definition PD_FindPartitionStart :: "dos_env \<Rightarrow> DriverState \<Rightarrow> (nat + nat) \<times> DriverState" where
  "PD_FindPartitionStart env s =
     (if \<not> bFormatState s then (Inl ERROR_BAD_FORMAT, s)
      else let (ok, s) = LocalAlloc env s
           in if \<not> ok then (Inl ERROR_OUTOFMEMORY, s)
              else let a = next_addr s;
                       first = (case pPartState s of
                                  [] \<Rightarrow> None
                                | p # ps \<Rightarrow>
                                    if Some (addr p) = pHiddenPartState s
                                    then map_option addr (next_part (addr p) (pPartState s)) else Some (addr p))
                   in (Inr a, s\<lparr>next_addr := a + 1,
                                lost_searches := pSearchState s @ lost_searches s,
                                pSearchState := [\<lparr>search_addr = a, search_part = first\<rparr>]\<rparr>))"

definition set_search :: "nat \<Rightarrow> nat option \<Rightarrow> DriverState \<Rightarrow> DriverState" where
  "set_search r a s =
     (let f = map (\<lambda>q. if search_addr q = r then q\<lparr>search_part := a\<rparr> else q)
      in s\<lparr>pSearchState := f (pSearchState s), lost_searches := f (lost_searches s)\<rparr>)"

definition part_at :: "DriverState \<Rightarrow> nat \<Rightarrow> PartState option" where
  "part_at s a = find (\<lambda>p. addr p = a) (pPartState s)"

definition PD_FindPartitionNext :: "DriverState \<Rightarrow> nat \<Rightarrow> ((nat + PD_PARTINFO) \<times> DriverState) option" where
  "PD_FindPartitionNext s dwSearchId =
     Option.bind (find (\<lambda>q. search_addr q = dwSearchId) (pSearchState s @ lost_searches s)) (\<lambda>q.
       case search_part q of
         None \<Rightarrow> Some (Inl ERROR_NO_MORE_ITEMS, s)
       | Some a \<Rightarrow>
           Option.bind (part_at s a) (\<lambda>p.
             case PD_GetPartitionInfo s (cPartName p) of
               Inl dwError \<Rightarrow> Some (Inl dwError, s)
             | Inr info \<Rightarrow>
                 (let n = map_option addr (next_part a (pPartState s));
                      n = (case n of None \<Rightarrow> None
                           | Some h \<Rightarrow> if Some h = pHiddenPartState s
                                        then map_option addr (next_part h (pPartState s)) else Some h)
                  in Some (Inr info, set_search dwSearchId n s))))"

text \<open>
  \<open>PD_FindPartitionClose\<close>: a search that is first in the list takes the whole list with it; one
  that is not in the list cuts nothing off, since its own link is \<open>NULL\<close>.
\<close>

definition PD_FindPartitionClose :: "DriverState \<Rightarrow> nat \<Rightarrow> DriverState" where
  "PD_FindPartitionClose s dwSearchId =
     (case pSearchState s of
        [] \<Rightarrow> s
      | q # qs \<Rightarrow>
          if search_addr q = dwSearchId then s\<lparr>pSearchState := [], lost_searches := qs @ lost_searches s\<rparr>
          else s\<lparr>pSearchState := filter (\<lambda>q. search_addr q \<noteq> dwSearchId) (q # qs),
                 lost_searches := filter (\<lambda>q. search_addr q \<noteq> dwSearchId) (lost_searches s)\<rparr>)"

end
