(* ===== verification/Dos_Io.thy ===== *)
theory Dos_Io
  imports Dos_Part
begin

text \<open>
  Requests of file systems to a partition (\<open>ReadPartition\<close>, \<open>WritePartition\<close>, \<open>DeleteSectors\<close>,
  \<open>GetSectorAddrs\<close>, \<open>CopyExternal\<close>, \<open>PD_DeviceIoControl\<close> in \<open>DOSPART/part.cpp\<close>): sector numbers
  relative to the partition are turned into sectors of the disk.  The scatter list of a request is
  one buffer.  The error code is the last error of the thread after a failed request.
\<close>

section \<open>Reading, writing and deleting\<close>

definition request_error :: "DriverState \<Rightarrow> nat" where
  "request_error s = (if last_error s = ERROR_SUCCESS then ERROR_GEN_FAILURE else last_error s)"

definition out_of_range :: "PartState \<Rightarrow> nat \<Rightarrow> nat \<Rightarrow> bool" where
  "out_of_range p sr_start sr_num_sec \<longleftrightarrow>
     sr_start \<ge> snNumSectors p \<or> sub64 (snNumSectors p) sr_start < sr_num_sec"

definition ReadPartition :: "dos_env \<Rightarrow> DriverState \<Rightarrow> PartState \<Rightarrow> nat \<Rightarrow> nat \<Rightarrow> nat \<times> BYTE list \<times> DriverState" where
  "ReadPartition env s p sr_start sr_num_sec =
     (if out_of_range p sr_start sr_num_sec then (ERROR_INVALID_BLOCK, [], s)
      else let start = add32 sr_start (dword (snStartSector p))
           in if e_refuse env (tick s) then (request_error (fail_tick env s), [], fail_tick env s)
              else (ERROR_SUCCESS, concat (map (\<lambda>k. disk s (start + k)) [0..<sr_num_sec]), next_tick s))"

definition WritePartition :: "dos_env \<Rightarrow> DriverState \<Rightarrow> PartState \<Rightarrow> nat \<Rightarrow> nat \<Rightarrow> BYTE list \<Rightarrow> nat \<times> DriverState" where
  "WritePartition env s p sr_start sr_num_sec data =
     (if out_of_range p sr_start sr_num_sec then (ERROR_INVALID_BLOCK, s)
      else if PARTITION_ATTRIBUTE_READONLY (dwAttributes p) then (ERROR_ACCESS_DENIED, s)
      else let (ok, s) = WriteSectors env s (add32 sr_start (dword (snStartSector p))) sr_num_sec data
           in (if ok then ERROR_SUCCESS else request_error s, s))"

text \<open>\<open>cb_ok\<close> is the check of \<open>cbSize\<close>; the sum of the two \<open>DWORD\<close>s wraps.\<close>

definition DeleteSectors :: "dos_env \<Rightarrow> DriverState \<Rightarrow> PartState \<Rightarrow> bool \<Rightarrow> nat \<Rightarrow> nat \<Rightarrow> nat \<times> DriverState" where
  "DeleteSectors env s p cb_ok startsector numsectors =
     (if \<not> cb_ok then (ERROR_INVALID_PARAMETER, s)
      else if startsector \<ge> snNumSectors p \<or> add32 startsector numsectors > snNumSectors p
      then (ERROR_INVALID_BLOCK, s)
      else if PARTITION_ATTRIBUTE_READONLY (dwAttributes p) then (ERROR_ACCESS_DENIED, s)
      else let (ok, s) = delete_request env s (add32 startsector (dword (snStartSector p))) numsectors
           in (if ok then ERROR_SUCCESS else last_error s, s))"

text \<open>
  \<open>GetSectorAddrs\<close> returns the addresses and the list of sectors, moved to the disk and back;
  \<open>addr_of\<close> is the answer of the block driver for a sector of the disk.
\<close>

definition GetSectorAddrs ::
    "dos_env \<Rightarrow> (nat \<Rightarrow> nat) \<Rightarrow> DriverState \<Rightarrow> PartState \<Rightarrow> nat list \<Rightarrow> nat \<times> nat list \<times> nat list \<times> DriverState" where
  "GetSectorAddrs env addr_of s p sector_list =
     (let moved = map (\<lambda>x. add32 x (dword (snStartSector p))) sector_list;
          back = map (\<lambda>x. sub32 x (dword (snStartSector p))) moved
      in if e_refuse env (tick s) then (request_error (fail_tick env s), [], back, fail_tick env s)
         else (ERROR_SUCCESS, map addr_of moved, back, next_tick s))"

text \<open>\<open>CopyExternal\<close> leaves the start sectors of its list moved.\<close>

definition CopyExternal :: "dos_env \<Rightarrow> DriverState \<Rightarrow> PartState \<Rightarrow> nat list \<Rightarrow> nat \<times> nat list \<times> DriverState" where
  "CopyExternal env s p sector_list =
     (let moved = map (\<lambda>x. add32 x (dword (snStartSector p))) sector_list
      in if e_refuse env (tick s) then (last_error (fail_tick env s), moved, fail_tick env s)
         else (ERROR_SUCCESS, moved, next_tick s))"

section \<open>The dispatcher\<close>

text \<open>
  A request with its control code.  The booleans are the size checks; the buffers of
  \<open>IOCTL_DISK_GETINFO\<close> may be missing.
\<close>

datatype disk_request =
    IOCTL_DISK_READ nat nat
  | IOCTL_DISK_WRITE nat nat "BYTE list"
  | IOCTL_DISK_DELETE_SECTORS bool bool nat nat
  | IOCTL_DISK_COPY_EXTERNAL_START bool "nat list"
  | IOCTL_DISK_GETINFO "bool option" "bool option"
  | IOCTL_DISK_GET_SECTOR_ADDR bool "nat list"
  | IOCTL_OTHER

datatype disk_answer = No_Data | Sector_Data "BYTE list" | Disk_Info DISK_INFO | Addresses "nat list"

definition partition_geometry :: "DriverState \<Rightarrow> PartState \<Rightarrow> DISK_INFO \<Rightarrow> DISK_INFO" where
  "partition_geometry s p g =
     g\<lparr>di_total_sectors := dword (snNumSectors p), di_cylinders := 1, di_heads := 1, di_sectors := 1,
       di_flags := (di_flags g)\<lparr>DISK_INFO_FLAG_MBR := False,
          DISK_INFO_FLAG_UNFORMATTED := (if bFormatState s then False else DISK_INFO_FLAG_UNFORMATTED (di_flags g))\<rparr>\<rparr>"

definition PD_DeviceIoControl ::
    "dos_env \<Rightarrow> (nat \<Rightarrow> nat) \<Rightarrow> DriverState \<Rightarrow> PartState \<Rightarrow> disk_request \<Rightarrow> nat \<times> disk_answer \<times> DriverState" where
  "PD_DeviceIoControl env addr_of s p request =
     (case request of
        IOCTL_DISK_READ start n \<Rightarrow>
          (let (e, data, s) = ReadPartition env s p start n in (e, Sector_Data data, s))
      | IOCTL_DISK_WRITE start n data \<Rightarrow>
          (let (e, s) = WritePartition env s p start n data in (e, No_Data, s))
      | IOCTL_DISK_DELETE_SECTORS size_ok cb_ok start n \<Rightarrow>
          if \<not> size_ok then (ERROR_INVALID_PARAMETER, No_Data, s)
          else (let (e, s) = DeleteSectors env s p cb_ok start n in (e, No_Data, s))
      | IOCTL_DISK_COPY_EXTERNAL_START size_ok sector_list \<Rightarrow>
          if size_ok then (let (e, l, s) = CopyExternal env s p sector_list in (e, Addresses l, s))
          else (ERROR_INVALID_PARAMETER, No_Data, s)
      | IOCTL_DISK_GETINFO pInBuf pOutBuf \<Rightarrow>
          if pInBuf = Some False \<or> pOutBuf = Some False \<or> (pInBuf = None \<and> pOutBuf = None)
          then (ERROR_INVALID_PARAMETER, No_Data, s)
          else if e_refuse env (tick s) then (request_error (fail_tick env s), No_Data, fail_tick env s)
          else (ERROR_SUCCESS, Disk_Info (partition_geometry s p (e_geometry env)), next_tick s)
      | IOCTL_DISK_GET_SECTOR_ADDR args_ok sector_list \<Rightarrow>
          if args_ok
          then (let (e, l, _, s) = GetSectorAddrs env addr_of s p sector_list in (e, Addresses l, s))
          else (ERROR_INVALID_PARAMETER, No_Data, s)
      | IOCTL_OTHER \<Rightarrow>
          if e_refuse env (tick s) then (request_error (fail_tick env s), No_Data, fail_tick env s)
          else (ERROR_SUCCESS, No_Data, next_tick s))"

end
