(* ===== verification/Dos_Inv.thy ===== *)
theory Dos_Inv
  imports Dos_Io
begin

text \<open>
  The invariant of the driver: the structures of a store have different addresses, all of them
  handed out before, and different names up to case.  Requests to the disk keep everything but the
  disk, the ticks and the last error.
\<close>

section \<open>Operations on the disk only\<close>

definition only_io :: "DriverState \<Rightarrow> DriverState \<Rightarrow> bool" where
  "only_io s s' \<longleftrightarrow> (\<exists>d t e. s' = s\<lparr>disk := d, tick := t, last_error := e\<rparr>)"

lemma only_io_refl [simp]: "only_io s s"
proof -
  have "s = s\<lparr>disk := disk s, tick := tick s, last_error := last_error s\<rparr>" by simp
  then show ?thesis unfolding only_io_def by blast
qed

lemma only_io_trans: "only_io s t \<Longrightarrow> only_io t u \<Longrightarrow> only_io s u"
  unfolding only_io_def by (elim exE, hypsubst, simp) blast

lemma only_io_fields:
  assumes "only_io s s'"
  shows "pPartState s' = pPartState s" "next_addr s' = next_addr s" "pSearchState s' = pSearchState s"
    "lost_searches s' = lost_searches s" "diskInfo s' = diskInfo s" "dwFlags s' = dwFlags s" "bFormatState s' = bFormatState s"
    "dwNumParts s' = dwNumParts s" "pHiddenPartState s' = pHiddenPartState s" "snExtPartSector s' = snExtPartSector s"
    "snExtPartEndSec s' = snExtPartEndSec s"
  using assms by (auto simp: only_io_def)

lemma only_io_ticks: "only_io s (next_tick s)" "only_io s (fail_tick env s)" "only_io s (SetLastError e s)"
  "only_io s (s\<lparr>disk := d\<rparr>)"
proof -
  have "next_tick s = s\<lparr>disk := disk s, tick := tick s + 1, last_error := last_error s\<rparr>" by (simp add: next_tick_def)
  then show "only_io s (next_tick s)" unfolding only_io_def by blast
  have "fail_tick env s = s\<lparr>disk := disk s, tick := tick s + 1,
      last_error := (case e_error env (tick s) of None \<Rightarrow> last_error s | Some e \<Rightarrow> e)\<rparr>" by (simp add: fail_tick_def)
  then show "only_io s (fail_tick env s)" unfolding only_io_def by blast
  have "SetLastError e s = s\<lparr>disk := disk s, tick := tick s, last_error := e\<rparr>" by (simp add: SetLastError_def)
  then show "only_io s (SetLastError e s)" unfolding only_io_def by blast
  have "s\<lparr>disk := d\<rparr> = s\<lparr>disk := d, tick := tick s, last_error := last_error s\<rparr>" by simp
  then show "only_io s (s\<lparr>disk := d\<rparr>)" unfolding only_io_def by blast
qed

lemma LocalAlloc_io: "LocalAlloc env s = (r, s') \<Longrightarrow> only_io s s'"
  by (auto simp: LocalAlloc_def only_io_ticks split: if_splits)

lemma ReadSectors_io: "ReadSectors env s i n = (r, s') \<Longrightarrow> only_io s s'"
  by (auto simp: ReadSectors_def only_io_ticks Let_def split: prod.splits if_splits
      dest!: LocalAlloc_io intro: only_io_trans)

lemma WriteSectors_io: "WriteSectors env s i n b = (r, s') \<Longrightarrow> only_io s s'"
  by (auto simp: WriteSectors_def Let_def split: if_splits intro: only_io_trans [OF only_io_ticks(4)] only_io_ticks)

lemma WriteMBR_io: "WriteMBR env s sn num t c = (r, s') \<Longrightarrow> only_io s s'"
  by (auto simp: WriteMBR_def Let_def only_io_ticks split: prod.splits if_splits option.splits
      dest!: ReadSectors_io WriteSectors_io LocalAlloc_io intro: only_io_trans only_io_trans [OF _ only_io_ticks(3)])

lemma DeleteMBR_io: "DeleteMBR env s p = (r, s') \<Longrightarrow> only_io s s'"
  by (auto simp: DeleteMBR_def Let_def split: prod.splits if_splits option.splits
      dest!: ReadSectors_io WriteSectors_io intro: only_io_trans only_io_trans [OF _ only_io_ticks(3)])

lemma UpdateMBR_io: "UpdateMBR env s p = (r, s') \<Longrightarrow> only_io s s'"
  by (auto simp: UpdateMBR_def Let_def split: prod.splits if_splits option.splits
      dest!: ReadSectors_io WriteSectors_io intro: only_io_trans only_io_trans [OF _ only_io_ticks(3)])

lemma DeletePBR_io: "DeletePBR env s p q = (r, s') \<Longrightarrow> only_io s s'"
  by (auto simp: DeletePBR_def Let_def split: prod.splits if_splits option.splits
      dest!: ReadSectors_io WriteSectors_io intro: only_io_trans)

lemma CreatePBR_io: "CreatePBR env s l n pbr num t = (r, s') \<Longrightarrow> only_io s s'"
  by (auto simp: CreatePBR_def Let_def split: prod.splits if_splits option.splits
      dest!: LocalAlloc_io ReadSectors_io WriteSectors_io intro: only_io_trans) (blast intro: only_io_trans)+

lemma init_loop_io: "init_loop env n sn s = (r, s') \<Longrightarrow> only_io s s'"
  by (induction env n sn s rule: init_loop.induct)
    (auto simp: Let_def split: prod.splits if_splits dest!: WriteSectors_io intro: only_io_trans)

lemma InitPartition_io: "InitPartition env s p = (r, s') \<Longrightarrow> only_io s s'"
  by (auto simp: InitPartition_def Let_def split: prod.splits if_splits dest!: LocalAlloc_io init_loop_io intro: only_io_trans)

lemma delete_request_io: "delete_request env s a n = (r, s') \<Longrightarrow> only_io s s'"
  by (auto simp: delete_request_def split: if_splits intro: only_io_ticks only_io_trans [OF only_io_ticks(4)])

lemma GetPartLocation_io: "GetPartLocation env s num t = (r, s') \<Longrightarrow> only_io s s'"
  by (auto simp: GetPartLocation_def find_place_def Let_def split: prod.splits if_splits option.splits
      dest!: ReadSectors_io intro: only_io_trans [OF _ only_io_ticks(3)])

lemma write_tables_io: "write_tables env s a b c d n t = (r, s') \<Longrightarrow> only_io s s'"
  by (auto simp: write_tables_def split: if_splits dest: CreatePBR_io WriteMBR_io)

lemma retype_entry_io: "retype_entry env s p t = (r, s') \<Longrightarrow> only_io s s'"
  by (auto simp: retype_entry_def Let_def split: prod.splits if_splits option.splits
      dest!: ReadSectors_io WriteSectors_io DeleteMBR_io WriteMBR_io intro: only_io_trans)

section \<open>The invariant\<close>

definition folded_names :: "PartState list \<Rightarrow> string list" where
  "folded_names ps = map (\<lambda>p. map fold_case (cPartName p)) (filter (\<lambda>p. cPartName p \<noteq> []) ps)"

definition parts_ok :: "nat \<Rightarrow> PartState list \<Rightarrow> bool" where
  "parts_ok n ps \<longleftrightarrow> distinct (map addr ps) \<and> (\<forall>p \<in> set ps. addr p < n) \<and> distinct (folded_names ps)"

definition driver_inv :: "DriverState \<Rightarrow> bool" where
  "driver_inv s \<longleftrightarrow> parts_ok (next_addr s) (pPartState s)"

lemma driver_inv_io: "only_io s s' \<Longrightarrow> driver_inv s \<Longrightarrow> driver_inv s'"
  by (simp add: driver_inv_def only_io_fields)

lemma parts_ok_Nil [simp]: "parts_ok n []"
  by (simp add: parts_ok_def folded_names_def)

lemma parts_ok_mono: "parts_ok n ps \<Longrightarrow> n \<le> m \<Longrightarrow> parts_ok m ps"
  by (auto simp: parts_ok_def)

lemma parts_ok_filter: "parts_ok n ps \<Longrightarrow> parts_ok n (filter f ps)"
  unfolding parts_ok_def folded_names_def
  by (auto simp: distinct_map inj_on_def filter_filter conj_commute)

lemma parts_ok_insert:
  assumes "parts_ok n (us @ vs)" and "n \<le> addr q" and "addr q < m"
    and "\<forall>p \<in> set (us @ vs). \<not> wcsicmp_equal (cPartName q) (cPartName p)"
  shows "parts_ok m (us @ q # vs)"
proof -
  have less: "\<forall>p \<in> set (us @ vs). addr p < n" using assms(1) by (simp add: parts_ok_def)
  have "addr q \<notin> addr ` set (us @ vs)"
  proof
    assume "addr q \<in> addr ` set (us @ vs)"
    then obtain p where "p \<in> set (us @ vs)" "addr p = addr q" by force
    then show False using less assms(2) by fastforce
  qed
  then have a: "distinct (map addr (us @ q # vs))" using assms(1) by (auto simp: parts_ok_def)
  have "map fold_case (cPartName q) \<notin> set (folded_names (us @ vs))"
    using assms(4) by (auto simp: folded_names_def wcsicmp_equal_def)
  then have "distinct (folded_names (us @ q # vs))"
    using assms(1) by (auto simp: parts_ok_def folded_names_def)
  moreover have "\<forall>p \<in> set (us @ q # vs). addr p < m"
  proof
    fix p
    assume "p \<in> set (us @ q # vs)"
    then consider "p = q" | "p \<in> set (us @ vs)" by auto
    then show "addr p < m" using less assms(2,3) by cases fastforce+
  qed
  ultimately show ?thesis using a by (simp add: parts_ok_def)
qed

lemma insert_after_split:
  "insert_after a q ps = ps \<or> (\<exists>us vs. ps = us @ vs \<and> insert_after a q ps = us @ q # vs)"
proof (induction ps)
  case (Cons p ps)
  show ?case
  proof (cases "addr p = a")
    case True
    then show ?thesis by (intro disjI2 exI [of _ "[p]"] exI [of _ ps]) simp
  next
    case False
    then show ?thesis using Cons by (auto, metis append_Cons)
  qed
qed simp

lemma parts_ok_map:
  assumes "parts_ok n ps" and "\<And>p. addr (f p) = addr p" and "\<And>p. cPartName (f p) = cPartName p"
  shows "parts_ok n (map f ps)"
proof -
  have "map addr (map f ps) = map addr ps" using assms(2) by (simp only: map_map o_def)
  moreover have "folded_names (map f ps) = folded_names ps"
    using assms(3) by (simp add: folded_names_def filter_map o_def)
  ultimately show ?thesis using assms(1,2) by (auto simp: parts_ok_def simp del: map_map)
qed

lemma update_part_inv:
  assumes "driver_inv s" and "\<And>p. addr (f p) = addr p" and "\<And>p. cPartName (f p) = cPartName p"
  shows "driver_inv (update_part a f s)"
  using parts_ok_map [of "next_addr s" "pPartState s" "\<lambda>p. if addr p = a then f p else p"] assms
  by (simp add: driver_inv_def update_part_def)

lemma link_part_inv:
  assumes "driver_inv s" and "next_addr s = addr p" and "GetPartition s (cPartName p) = None"
  shows "driver_inv (link_part prev p (s\<lparr>next_addr := next_addr s + 1\<rparr>))"
proof -
  have fresh: "\<forall>q \<in> set (pPartState s). \<not> wcsicmp_equal (cPartName p) (cPartName q)"
    using assms(3) by (simp add: GetPartition_def find_partition_None)
  have ok: "parts_ok (addr p) (pPartState s)" using assms(1,2) by (simp add: driver_inv_def)
  have front: "parts_ok (addr p + 1) (p # pPartState s)"
    using parts_ok_insert [of "addr p" "[]" "pPartState s" p "addr p + 1"] ok fresh by simp
  have after: "parts_ok (addr p + 1) (insert_after a p (pPartState s))" for a
    using insert_after_split [of a p "pPartState s"]
  proof
    assume "insert_after a p (pPartState s) = pPartState s"
    then show ?thesis using parts_ok_mono [OF ok, of "addr p + 1"] by simp
  next
    assume "\<exists>us vs. pPartState s = us @ vs \<and> insert_after a p (pPartState s) = us @ p # vs"
    then show ?thesis using parts_ok_insert [of "addr p" _ _ p "addr p + 1"] ok fresh by force
  qed
  show ?thesis using front after assms(2) by (simp add: link_part_def driver_inv_def split: option.splits)
qed

text \<open>A structure is determined by its address.\<close>

lemma parts_ok_addr: "parts_ok n ps \<Longrightarrow> p \<in> set ps \<Longrightarrow> q \<in> set ps \<Longrightarrow> addr p = addr q \<Longrightarrow> p = q"
  by (simp add: parts_ok_def distinct_map inj_on_def)

lemma set_name_inv:
  assumes "driver_inv s" and "p \<in> set (pPartState s)" and "GetPartition s name = None"
  shows "driver_inv (set_name name p s)"
proof -
  have fresh: "\<forall>q \<in> set (pPartState s). \<not> wcsicmp_equal name (cPartName q)"
    using assms(3) by (simp add: GetPartition_def find_partition_None)
  have ok: "parts_ok (next_addr s) (pPartState s)" using assms(1) by (simp add: driver_inv_def)
  obtain us vs where ps: "pPartState s = us @ p # vs" using assms(2) by (meson split_list)
  have other: "addr q \<noteq> addr p" if "q \<in> set (us @ vs)" for q
  proof
    assume "addr q = addr p"
    moreover have "addr p \<notin> addr ` set (us @ vs)" using ok by (auto simp: ps parts_ok_def)
    ultimately show False using that by (metis image_eqI)
  qed
  let ?f = "\<lambda>q. if addr q = addr p then q\<lparr>cPartName := name\<rparr> else q"
  have same: "map ?f us = us" "map ?f vs = vs" using other by (auto intro!: map_idI)
  have parts: "pPartState (set_name name p s) = us @ p\<lparr>cPartName := name\<rparr> # vs"
    using same by (simp add: set_name_def update_part_def ps)
  have "distinct (map addr (us @ p\<lparr>cPartName := name\<rparr> # vs))"
    using ok by (simp add: ps parts_ok_def)
  moreover have "map fold_case name \<notin> set (folded_names (us @ vs))"
    using fresh by (auto simp: folded_names_def wcsicmp_equal_def ps)
  then have "distinct (folded_names (us @ p\<lparr>cPartName := name\<rparr> # vs))"
    using ok by (auto simp: ps parts_ok_def folded_names_def split: if_splits)
  moreover have "\<forall>q \<in> set (us @ p\<lparr>cPartName := name\<rparr> # vs). addr q < next_addr s"
    using ok by (auto simp: ps parts_ok_def)
  ultimately show ?thesis
    using parts by (simp add: driver_inv_def parts_ok_def set_name_def update_part_def)
qed

lemma GetPartition_mem: "GetPartition s name = Some (p, q) \<Longrightarrow> p \<in> set (pPartState s)"
  unfolding GetPartition_def using find_partition_Some by fastforce

section \<open>Every operation keeps it\<close>

lemma move_searches_fields: "pPartState (move_searches a b s) = pPartState s" "next_addr (move_searches a b s) = next_addr s"
  by (simp_all add: move_searches_def)

lemma create_at_inv:
  assumes "driver_inv s" and "GetPartition s name = None"
    and "create_at env s name t auto prev start pbr n = Some (e, s')"
  shows "driver_inv s'"
proof -
  obtain ok s1 where a: "LocalAlloc env s = (ok, s1)" by (cases "LocalAlloc env s")
  have I1: "driver_inv s1" "pPartState s1 = pPartState s"
    using driver_inv_io [OF LocalAlloc_io [OF a] assms(1)] only_io_fields [OF LocalAlloc_io [OF a]] by simp_all
  let ?s2 = "s1\<lparr>next_addr := next_addr s1 + 1\<rparr>"
  let ?p = "new_part (next_addr s1) name start pbr n"
  obtain ok2 s3 where i: "InitPartition env ?s2 ?p = (ok2, s3)" by (cases "InitPartition env ?s2 ?p")
  note F3 = only_io_fields [OF InitPartition_io [OF i]]
  have I2: "driver_inv ?s2" using I1(1) parts_ok_mono [of "next_addr s1"] by (simp add: driver_inv_def)
  have I3: "driver_inv s3" by (rule driver_inv_io [OF InitPartition_io [OF i] I2])
  have p: "addr ?p = next_addr s1" "cPartName ?p = name" by (simp_all add: new_part_def)
  have "driver_inv (link_part prev ?p ?s2)"
    by (rule link_part_inv [OF I1(1)]) (use assms(2) I1(2) p in \<open>simp_all add: GetPartition_def\<close>)
  then have L: "driver_inv (link_part prev ?p s3)"
    using F3 by (simp add: driver_inv_def link_part_def split: option.splits)
  have U: "driver_inv (update_part a (\<lambda>p. p\<lparr>partType := u\<rparr>) (link_part prev ?p s3))" for a u
    by (rule update_part_inv [OF L]) simp_all
  have unlink: "driver_inv (unlink_part prev a u)" if "driver_inv u" for a u
    using that by (auto simp: driver_inv_def unlink_part_def remove_part_def intro: parts_ok_filter split: option.splits)
  have move: "driver_inv (move_searches a b u)" if "driver_inv u" for a b u
    using that by (simp add: driver_inv_def move_searches_fields)
  note W = driver_inv_io [OF write_tables_io]
  show ?thesis
    using assms(3) a i I1(1) I3 U unlink move
    by (auto simp: create_at_def Let_def split: if_splits option.splits prod.splits dest: W)
qed


lemma PD_CreatePartition_inv:
  assumes "driver_inv s" and "PD_CreatePartition env s name t num auto = Some (e, s')"
  shows "driver_inv s'"
proof (cases "\<not> bFormatState s \<or> name = [] \<or> num = 0 \<or> num > total_sectors s \<or> GetPartition s name \<noteq> None \<or> dwNumParts s = 24")
  case True
  then show ?thesis using assms by (auto simp: PD_CreatePartition_def split: if_splits)
next
  case False
  obtain r s1 where g: "GetPartLocation env s num t = (r, s1)" by (cases "GetPartLocation env s num t")
  note io = GetPartLocation_io [OF g]
  have "GetPartition s name = None" using False by blast
  then have I: "driver_inv s1" "GetPartition s1 name = None"
    using driver_inv_io [OF io assms(1)] only_io_fields(1) [OF io] by (simp_all add: GetPartition_def)
  show ?thesis
    using False assms(2) g I by (auto simp: PD_CreatePartition_def split: option.splits prod.splits dest: create_at_inv)
qed

lemma PD_DeletePartition_inv:
  assumes "driver_inv s" and "PD_DeletePartition env s name = (e, s')"
  shows "driver_inv s'"
proof -
  have last: "driver_inv (SetLastError e s)" for e by (rule driver_inv_io [OF only_io_ticks(3) assms(1)])
  have drop: "driver_inv (move_searches a b (u\<lparr>pPartState := remove_part a (pPartState u), dwNumParts := n\<rparr>))"
    if "driver_inv u" for a b n u
    using that by (simp add: driver_inv_def move_searches_fields remove_part_def parts_ok_filter)
  note D = driver_inv_io [OF DeletePBR_io] driver_inv_io [OF DeleteMBR_io] and R = driver_inv_io [OF delete_request_io]
  show ?thesis
  proof (cases "GetPartition s name")
    case None
    then show ?thesis using assms last by (auto simp: PD_DeletePartition_def)
  next
    case (Some r)
    obtain p q where r: "r = (p, q)" by (cases r)
    obtain ok s1 where t: "(if snPBRSector p \<noteq> 0 then DeletePBR env s p q else DeleteMBR env s p) = (ok, s1)"
      by (cases "if snPBRSector p \<noteq> 0 then DeletePBR env s p q else DeleteMBR env s p")
    have I1: "driver_inv s1" using t assms(1) by (auto split: if_splits intro: D)
    obtain k s2 where d: "delete_request env s1 (dword (snStartSector p)) (dword (snNumSectors p)) = (k, s2)"
      by (cases "delete_request env s1 (dword (snStartSector p)) (dword (snNumSectors p))")
    have I2: "driver_inv s2" by (rule R [OF d I1])
    show ?thesis
      using assms(2) Some r t d last I1 drop [OF I2] by (auto simp: PD_DeletePartition_def Let_def split: if_splits)
  qed
qed

lemma PD_RenamePartition_inv:
  assumes "driver_inv s" and "PD_RenamePartition s old new = (e, s')"
  shows "driver_inv s'"
proof (cases "GetPartition s new")
  case None
  then show ?thesis
    using assms set_name_inv [OF assms(1) GetPartition_mem None]
    by (auto simp: PD_RenamePartition_def split: option.splits)
next
  case (Some r)
  then show ?thesis using assms by (simp add: PD_RenamePartition_def)
qed

lemma PD_SetPartitionAttrs_inv:
  assumes "driver_inv s" and "PD_SetPartitionAttrs s name attrs = (e, s')"
  shows "driver_inv s'"
  using assms by (auto simp: PD_SetPartitionAttrs_def split: option.splits intro: update_part_inv)

lemma PD_SetPartitionSize_inv:
  assumes "driver_inv s" and "PD_SetPartitionSize env s name num = (e, s')"
  shows "driver_inv s'"
proof (cases "GetPartition s name")
  case None
  then show ?thesis using assms by (simp add: PD_SetPartitionSize_def)
next
  case (Some r)
  obtain p q where r: "r = (p, q)" by (cases r)
  let ?n = "aligned_size s p num"
  let ?s1 = "update_part (addr p) (\<lambda>p. p\<lparr>snNumSectors := ?n\<rparr>) s"
  have I1: "driver_inv ?s1" by (rule update_part_inv [OF assms(1)]) simp_all
  obtain ok s2 where u: "UpdateMBR env ?s1 (p\<lparr>snNumSectors := ?n\<rparr>) = (ok, s2)"
    by (cases "UpdateMBR env ?s1 (p\<lparr>snNumSectors := ?n\<rparr>)")
  have I2: "driver_inv s2" by (rule driver_inv_io [OF UpdateMBR_io [OF u] I1])
  have "driver_inv (update_part (addr p) (\<lambda>q. q\<lparr>snNumSectors := k\<rparr>) s2)" for k
    by (rule update_part_inv [OF I2]) simp_all
  then show ?thesis using assms Some r u I2 by (auto simp: PD_SetPartitionSize_def Let_def split: if_splits)
qed

lemma PD_FormatPartition_inv:
  assumes "driver_inv s" and "PD_FormatPartition env s name t auto = Some (e, s')"
  shows "driver_inv s'"
proof (cases "GetPartition s name")
  case None
  then show ?thesis using assms by (simp add: PD_FormatPartition_def)
next
  case (Some r)
  obtain p q where r: "r = (p, q)" by (cases r)
  have last: "driver_inv (SetLastError e s)" for e by (rule driver_inv_io [OF only_io_ticks(3) assms(1)])
  obtain ok s1 where i: "InitPartition env s p = (ok, s1)" by (cases "InitPartition env s p")
  have I1: "driver_inv s1" by (rule driver_inv_io [OF InitPartition_io [OF i] assms(1)])
  note R = driver_inv_io [OF retype_entry_io]
  have "driver_inv (update_part a (\<lambda>p. p\<lparr>partType := k\<rparr>) u)" if "driver_inv u" for a k u
    by (rule update_part_inv [OF that]) simp_all
  then show ?thesis
    using assms Some r i I1 last
    by (auto simp: PD_FormatPartition_def Let_def split: if_splits option.splits prod.splits dest: R)
qed

lemma PD_FormatStore_parts:
  assumes "PD_FormatStore env s = (e, s')"
  shows "next_addr s' = next_addr s \<and> (pPartState s' = pPartState s \<or> pPartState s' = [])"
proof -
  define keeps where "keeps = (\<lambda>(a :: DriverState) (b :: DriverState). next_addr b = next_addr a \<and> (pPartState b = pPartState a \<or> pPartState b = []))"
  have io: "only_io a b \<Longrightarrow> keeps a b" for a b by (simp add: keeps_def only_io_fields)
  have trans: "keeps a b \<Longrightarrow> keeps b c \<Longrightarrow> keeps a c" for a b c by (auto simp: keeps_def)
  have load: "LoadDiskInfo env a = (x, b) \<Longrightarrow> keeps a b" for a b x
    by (auto simp: LoadDiskInfo_def Let_def keeps_def fail_tick_def next_tick_def split: if_splits)
  have fmt: "format_media env a = (x, b) \<Longrightarrow> keeps a b" for a b x
    by (auto simp: format_media_def keeps_def fail_tick_def next_tick_def split: if_splits)
  obtain o1 s1 where 1: "format_media env s = (o1, s1)" by (cases "format_media env s")
  obtain e2 s2 where 2: "LoadDiskInfo env s1 = (e2, s2)" by (cases "LoadDiskInfo env s1")
  obtain o3 s3 where 3: "LocalAlloc env s2 = (o3, s3)" by (cases "LocalAlloc env s2")
  obtain o4 s4 where 4: "WriteSectors env s3 0 (mul32 (bytes_per_sect s3) 8 div bytes_per_sect s3) (blank_sectors s3) = (o4, s4)"
    by (cases "WriteSectors env s3 0 (mul32 (bytes_per_sect s3) 8 div bytes_per_sect s3) (blank_sectors s3)")
  have K1: "keeps s s1" by (rule fmt [OF 1])
  have K2: "keeps s s2" by (rule trans [OF K1 load [OF 2]])
  have K3: "keeps s s3" by (rule trans [OF K2 io [OF LocalAlloc_io [OF 3]]])
  have K4: "keeps s s4" by (rule trans [OF K3 io [OF WriteSectors_io [OF 4]]])
  define s5 where "s5 = (if bFormatState s4 then ClearPartitionList s4 else s4)\<lparr>dwNumParts := 0\<rparr>"
  have K5: "keeps s s5" using K4 by (auto simp: keeps_def s5_def ClearPartitionList_def)
  define s6 where "s6 = s5\<lparr>snExtPartSector := (if heads s5 > 1 then mul32 (sectors s5) (heads s5) else 1),
      snExtPartEndSec := sub32 (total_sectors s5) 1\<rparr>"
  have K6: "keeps s s6" using K5 by (simp add: keeps_def s6_def)
  obtain o7 s7 where 7: "WriteMBR env s6 (snExtPartSector s6) (sub64 (total_sectors s6) (snExtPartSector s6)) PART_EXTENDED True = (o7, s7)"
    by (cases "WriteMBR env s6 (snExtPartSector s6) (sub64 (total_sectors s6) (snExtPartSector s6)) PART_EXTENDED True")
  have K7: "keeps s s7" by (rule trans [OF K6 io [OF WriteMBR_io [OF 7]]])
  have fin: "keeps s (u\<lparr>bFormatState := True\<rparr>)" if "keeps s u" for u using that by (simp add: keeps_def)
  have "s' = s1 \<or> s' = s2 \<or> s' = s3 \<or> s' = s4 \<or> s' = s5\<lparr>bFormatState := True\<rparr> \<or> s' = s7 \<or> s' = s7\<lparr>bFormatState := True\<rparr>"
    using assms unfolding PD_FormatStore_def 1 2 3 4 Let_def prod.case s5_def [symmetric] s6_def [symmetric] 7
    by (simp split: if_split_asm)
  then show ?thesis using K1 K2 K3 K4 fin [OF K5] K7 fin [OF K7] unfolding keeps_def by blast
qed

section \<open>Sequences of calls\<close>

datatype store_call =
    Call_Create string BYTE nat bool
  | Call_Delete string
  | Call_Rename string string
  | Call_SetAttrs string part_attributes
  | Call_SetSize string nat
  | Call_Format string BYTE bool
  | Call_FormatStore
  | Call_StoreInfo bool
  | Call_FindStart
  | Call_FindNext nat
  | Call_FindClose nat
  | Call_Ioctl nat disk_request

text \<open>The state after a call; \<open>None\<close> when it does not return or uses a pointer to freed memory.\<close>

fun store_step :: "dos_env \<Rightarrow> (nat \<Rightarrow> nat) \<Rightarrow> store_call \<Rightarrow> DriverState \<Rightarrow> DriverState option" where
  "store_step env addr_of (Call_Create name t num auto) s = map_option snd (PD_CreatePartition env s name t num auto)"
| "store_step env addr_of (Call_Delete name) s = Some (snd (PD_DeletePartition env s name))"
| "store_step env addr_of (Call_Rename old new) s = Some (snd (PD_RenamePartition s old new))"
| "store_step env addr_of (Call_SetAttrs name attrs) s = Some (snd (PD_SetPartitionAttrs s name attrs))"
| "store_step env addr_of (Call_SetSize name num) s = Some (snd (PD_SetPartitionSize env s name num))"
| "store_step env addr_of (Call_Format name t auto) s = map_option snd (PD_FormatPartition env s name t auto)"
| "store_step env addr_of Call_FormatStore s = Some (snd (PD_FormatStore env s))"
| "store_step env addr_of (Call_StoreInfo size_ok) s = Some (snd (PD_GetStoreInfo env s size_ok))"
| "store_step env addr_of Call_FindStart s = Some (snd (PD_FindPartitionStart env s))"
| "store_step env addr_of (Call_FindNext r) s = map_option snd (PD_FindPartitionNext s r)"
| "store_step env addr_of (Call_FindClose r) s = Some (PD_FindPartitionClose s r)"
| "store_step env addr_of (Call_Ioctl a request) s =
     map_option (\<lambda>p. snd (snd (PD_DeviceIoControl env addr_of s p request))) (part_at s a)"

fun store_run :: "dos_env \<Rightarrow> (nat \<Rightarrow> nat) \<Rightarrow> store_call list \<Rightarrow> DriverState \<Rightarrow> DriverState option" where
  "store_run env addr_of [] s = Some s"
| "store_run env addr_of (c # cs) s = Option.bind (store_step env addr_of c s) (store_run env addr_of cs)"

lemma PD_DeviceIoControl_io: "PD_DeviceIoControl env f s p r = (e, a, s') \<Longrightarrow> only_io s s'"
  by (auto simp: PD_DeviceIoControl_def ReadPartition_def WritePartition_def DeleteSectors_def CopyExternal_def
      GetSectorAddrs_def Let_def only_io_ticks split: disk_request.splits if_splits prod.splits
      dest!: WriteSectors_io delete_request_io)

lemma CalculatePartitionSpace_io: "CalculatePartitionSpace env s = (r, s') \<Longrightarrow> only_io s s'"
  by (auto simp: CalculatePartitionSpace_def Let_def split: prod.splits option.splits if_splits dest!: ReadSectors_io)

lemma PD_GetStoreInfo_io: "PD_GetStoreInfo env s k = (r, s') \<Longrightarrow> only_io s s'"
  by (auto simp: PD_GetStoreInfo_def split: prod.splits option.splits if_splits dest!: CalculatePartitionSpace_io)

lemma PD_FindPartitionStart_inv: "driver_inv s \<Longrightarrow> PD_FindPartitionStart env s = (r, s') \<Longrightarrow> driver_inv s'"
  by (auto simp: PD_FindPartitionStart_def driver_inv_def Let_def split: if_splits prod.splits
      dest!: LocalAlloc_io simp: only_io_fields intro: parts_ok_mono)

lemma PD_FindPartitionNext_inv: "driver_inv s \<Longrightarrow> PD_FindPartitionNext s r = Some (x, s') \<Longrightarrow> driver_inv s'"
proof -
  assume inv: "driver_inv s" and next': "PD_FindPartitionNext s r = Some (x, s')"
  have "s' = s \<or> (\<exists>a. s' = set_search r a s)"
    using next' unfolding PD_FindPartitionNext_def Let_def
    by (auto split: option.split_asm sum.split_asm bind_split_asm if_split_asm)
  then show ?thesis using inv by (auto simp: driver_inv_def set_search_def Let_def)
qed

lemma PD_FindPartitionClose_inv: "driver_inv s \<Longrightarrow> driver_inv (PD_FindPartitionClose s r)"
  by (simp add: PD_FindPartitionClose_def driver_inv_def split: list.splits)

lemma store_step_inv:
  assumes "driver_inv s" and "store_step env f c s = Some s'"
  shows "driver_inv s'"
proof (cases c)
  case (Call_Create name t num auto)
  then show ?thesis using assms by (auto dest: PD_CreatePartition_inv)
next
  case (Call_Delete name)
  then show ?thesis using assms PD_DeletePartition_inv by (cases "PD_DeletePartition env s name") auto
next
  case (Call_Rename old new)
  then show ?thesis using assms PD_RenamePartition_inv by (cases "PD_RenamePartition s old new") auto
next
  case (Call_SetAttrs name attrs)
  then show ?thesis using assms PD_SetPartitionAttrs_inv by (cases "PD_SetPartitionAttrs s name attrs") auto
next
  case (Call_SetSize name num)
  then show ?thesis using assms PD_SetPartitionSize_inv by (cases "PD_SetPartitionSize env s name num") auto
next
  case (Call_Format name t auto)
  then show ?thesis using assms by (auto dest: PD_FormatPartition_inv)
next
  case Call_FormatStore
  obtain e u where "PD_FormatStore env s = (e, u)" by (cases "PD_FormatStore env s")
  then show ?thesis using assms Call_FormatStore PD_FormatStore_parts [of env s e u] by (auto simp: driver_inv_def)
next
  case (Call_StoreInfo k)
  obtain e u where "PD_GetStoreInfo env s k = (e, u)" by (cases "PD_GetStoreInfo env s k")
  then show ?thesis using assms Call_StoreInfo driver_inv_io [OF PD_GetStoreInfo_io] by auto
next
  case Call_FindStart
  obtain e u where "PD_FindPartitionStart env s = (e, u)" by (cases "PD_FindPartitionStart env s")
  then show ?thesis using assms Call_FindStart PD_FindPartitionStart_inv by auto
next
  case (Call_FindNext r)
  then show ?thesis using assms by (auto dest: PD_FindPartitionNext_inv)
next
  case (Call_FindClose r)
  then show ?thesis using assms PD_FindPartitionClose_inv by auto
next
  case (Call_Ioctl a request)
  then obtain p where p: "part_at s a = Some p" using assms(2) by auto
  obtain e x u where "PD_DeviceIoControl env f s p request = (e, x, u)"
    by (cases "PD_DeviceIoControl env f s p request") auto
  then show ?thesis using assms Call_Ioctl p driver_inv_io [OF PD_DeviceIoControl_io] by auto
qed

lemma store_run_inv: "driver_inv s \<Longrightarrow> store_run env f cs s = Some s' \<Longrightarrow> driver_inv s'"
  by (induction env f cs s rule: store_run.induct) (auto simp: bind_eq_Some_conv intro: store_step_inv)

section \<open>Failed creations\<close>

lemma remove_inserted:
  assumes "addr n = a" and "\<forall>p \<in> set ps. addr p \<noteq> a" and "addr (f n) = a"
  shows "remove_part a (map (\<lambda>p. if addr p = a then f p else p) (insert_after b n ps)) = ps"
  using assms(2) by (induction ps) (auto simp: remove_part_def assms(1,3) filter_id_conv intro!: map_idI)

lemma create_at_failure:
  assumes "driver_inv s" and "dwNumParts s < 2 ^ 32"
    and "create_at env s name t bAuto prev start pbr n = Some (e, s')" and "e \<noteq> ERROR_SUCCESS"
  shows "dwNumParts s' = dwNumParts s \<and> (pPartState s' = pPartState s \<or> prev = None \<and> pPartState s' = [])"
proof -
  let ?a = "next_addr s" and ?p = "new_part (next_addr s) name start pbr n"
  obtain ok s1 where al: "LocalAlloc env s = (ok, s1)" by (cases "LocalAlloc env s")
  then have io1: "only_io s s1" by (rule LocalAlloc_io)
  let ?s1 = "s1\<lparr>next_addr := ?a + 1\<rparr>"
  obtain ok2 s2 where init: "InitPartition env ?s1 ?p = (ok2, s2)" by (cases "InitPartition env ?s1 ?p")
  then have "only_io ?s1 s2" by (rule InitPartition_io)
  then have s2: "pPartState s2 = pPartState s" "dwNumParts s2 = dwNumParts s"
    using io1 by (simp_all add: only_io_fields)
  have a1: "next_addr s1 = ?a" using io1 by (simp add: only_io_fields)
  show ?thesis
  proof (cases "ok \<and> ok2")
    case False
    then show ?thesis
      using assms(3) al init io1 s2 a1 by (auto simp: create_at_def Let_def only_io_fields split: if_splits)
  next
    case True
    let ?s3 = "link_part prev ?p s2"
    obtain ty where ty: "(if bAuto then GenerateFATFSType ?s3 (snNumSectors ?p) else Some t) = Some ty"
    proof (cases "if bAuto then GenerateFATFSType ?s3 (snNumSectors ?p) else Some t")
      case None
      then show thesis using assms(3) al init True a1 by (simp add: create_at_def Let_def split: if_split_asm)
    qed (rule that)
    let ?s4 = "update_part ?a (\<lambda>p. p\<lparr>partType := ty\<rparr>) ?s3"
    define nx where "nx = (case prev of None \<Rightarrow> (case pPartState s of [] \<Rightarrow> None | q # _ \<Rightarrow> Some q)
                                   | Some q \<Rightarrow> next_part (addr q) (pPartState s))"
    obtain ok3 s5 where w: "write_tables env ?s4 (pbr_of prev) (pbr_of nx) start pbr n ty = (ok3, s5)"
      by (cases "write_tables env ?s4 (pbr_of prev) (pbr_of nx) start pbr n ty")
    then have io5: "only_io ?s4 s5" by (rule write_tables_io)
    have ps: "pPartState s1 = pPartState s" using io1 by (simp add: only_io_fields)
    have res: "\<not> ok3 \<and> s' = unlink_part prev ?a s5"
      using assms(3,4) al init True a1 ty w ps by (cases ok3) (simp_all add: create_at_def Let_def nx_def cong: option.case_cong if_cong)
    have "pPartState s5 = pPartState ?s4" "dwNumParts s5 = dwNumParts ?s4" using io5 by (simp_all add: only_io_fields)
    moreover have "\<forall>p \<in> set (pPartState s). addr p \<noteq> ?a" using assms(1) by (auto simp: driver_inv_def parts_ok_def)
    then have "remove_part ?a (map (\<lambda>p. if addr p = ?a then p\<lparr>partType := ty\<rparr> else p) (insert_after b ?p (pPartState s))) = pPartState s" for b
      by (intro remove_inserted) (simp_all add: new_part_def)
    moreover have "sub32 (add32 (dwNumParts s) 1) 1 = dwNumParts s"
    proof (cases "dwNumParts s + 1 < 2 ^ 32")
      case True
      then show ?thesis by (simp add: sub32_def add32_def)
    next
      case False
      then have "dwNumParts s = 2 ^ 32 - 1" using assms(2) by simp
      then show ?thesis by (simp add: sub32_def add32_def)
    qed
    ultimately show ?thesis
      using res s2 by (cases prev) (simp_all add: unlink_part_def link_part_def update_part_def)
  qed
qed

end
