(* ===== verification/Dos_Chain.thy ===== *)
theory Dos_Chain
  imports Dos_Parse Dos_Mbr
begin

text \<open>
  What \<open>GetDOSPartitions\<close> reads: a chain of boot records as a list of sectors, and the partitions
  a table and its chain describe.
\<close>

section \<open>What a partition structure says\<close>

type_synonym part_view = "nat \<times> nat \<times> nat \<times> BYTE \<times> part_attributes"

definition part_view :: "PartState \<Rightarrow> part_view" where
  "part_view p = (snStartSector p, snNumSectors p, snPBRSector p, partType p, dwAttributes p)"

definition views :: "DriverState \<Rightarrow> part_view list" where
  "views s = map part_view (pPartState s)"

definition entry_view :: "nat \<Rightarrow> partentry \<Rightarrow> part_view" where
  "entry_view pbr e = (Part_StartSector e + pbr, Part_TotalSectors e, pbr, Part_FileSystem e, entry_attributes e)"

text \<open>What reading may change: the list, its counters, the ticks.\<close>

definition same_store :: "DriverState \<Rightarrow> DriverState \<Rightarrow> bool" where
  "same_store s s' \<longleftrightarrow> disk s' = disk s \<and> diskInfo s' = diskInfo s \<and> dwFlags s' = dwFlags s \<and>
     bFormatState s' = bFormatState s \<and> pSearchState s' = pSearchState s \<and> lost_searches s' = lost_searches s"

lemma same_store_refl [simp]: "same_store s s"
  by (simp add: same_store_def)

lemma same_store_trans: "same_store s t \<Longrightarrow> same_store t u \<Longrightarrow> same_store s u"
  by (simp add: same_store_def)

lemma add_part_fields:
  "views (add_part e n pbr s) = views s @ [(add64 (Part_StartSector e) pbr, n, pbr, Part_FileSystem e, entry_attributes e)]"
  "snExtPartSector (add_part e n pbr s) = snExtPartSector s" "snExtPartEndSec (add_part e n pbr s) = snExtPartEndSec s"
  "disk (add_part e n pbr s) = disk s" "diskInfo (add_part e n pbr s) = diskInfo s" "tick (add_part e n pbr s) = tick s"
  "same_store s (add_part e n pbr s)"
  by (simp_all add: add_part_def entry_part_def views_def part_view_def same_store_def Let_def)

section \<open>Chains of boot records\<close>

text \<open>An entry that is read as it stands: it ends on the disk.\<close>

definition on_disk :: "nat \<Rightarrow> partentry \<Rightarrow> bool" where
  "on_disk n e \<longleftrightarrow> Part_StartSector e + Part_TotalSectors e \<le> n"

definition drive_ok :: "DriverState \<Rightarrow> nat \<Rightarrow> bool" where
  "drive_ok s p \<longleftrightarrow> p < 2 ^ 32 \<and> signature (disk s p) = BOOTSECTRAILSIGH \<and>
     Part_TotalSectors (get_entry (disk s p) 0) \<noteq> 0 \<and> Part_StartSector (get_entry (disk s p) 0) \<noteq> 0 \<and>
     \<not> is_extended (get_entry (disk s p) 0) \<and> on_disk (total_sectors s) (get_entry (disk s p) 0)"

definition link_ok :: "DriverState \<Rightarrow> nat \<Rightarrow> nat \<Rightarrow> bool" where
  "link_ok s p q \<longleftrightarrow>
     (let e = get_entry (disk s p) 1
      in is_extended e \<and> Part_TotalSectors e \<noteq> 0 \<and> Part_StartSector e \<noteq> 0 \<and> on_disk (total_sectors s) e \<and>
         Part_StartSector (get_entry (disk s p) 0) \<le> Part_StartSector e \<and>
         add64 (snExtPartSector s) (Part_StartSector e) = q)"

fun ebr_chain :: "DriverState \<Rightarrow> nat list \<Rightarrow> bool" where
  "ebr_chain s [] = True"
| "ebr_chain s [p] = (drive_ok s p \<and> Part_TotalSectors (get_entry (disk s p) 1) = 0)"
| "ebr_chain s (p # q # ps) = (drive_ok s p \<and> link_ok s p q \<and> ebr_chain s (q # ps))"

definition drive_view :: "DriverState \<Rightarrow> nat \<Rightarrow> part_view" where
  "drive_view s p = entry_view p (get_entry (disk s p) 0)"

lemma cut_total_on_disk:
  "on_disk (total_sectors s) e \<Longrightarrow> total_sectors s < 2 ^ 32 \<Longrightarrow> cut_total s e = Part_TotalSectors e"
  unfolding on_disk_def cut_total_def by (simp add: add32_eq)

lemma take2_table: "take 2 (table_of b) = [get_entry b 0, get_entry b 1]"
  by (simp add: table_of_def upt_rec numeral_2_eq_2)

lemma drive_table_error: "drive_ok s p \<Longrightarrow> Part_TotalSectors (get_entry (disk s p) 1) = 0 \<Longrightarrow>
  table_error (disk s p) True = None"
  by (simp add: table_error_def part_count_def take2_table drive_ok_def)

lemma link_table_error: "drive_ok s p \<Longrightarrow> link_ok s p q \<Longrightarrow> table_error (disk s p) True = None"
  by (simp add: table_error_def part_count_def take2_table drive_ok_def link_ok_def Let_def)

lemma chain_table_error: "ebr_chain s (p # ps) \<Longrightarrow> table_error (disk s p) True = None"
  by (cases ps) (auto intro: drive_table_error link_table_error)

text \<open>A table depends on the disk, the geometry and the start of the extended partition.\<close>

definition same_tables :: "DriverState \<Rightarrow> DriverState \<Rightarrow> bool" where
  "same_tables s t \<longleftrightarrow> disk t = disk s \<and> diskInfo t = diskInfo s \<and> snExtPartSector t = snExtPartSector s"

lemma ebr_chain_cong: "same_tables s t \<Longrightarrow> ebr_chain t ps = ebr_chain s ps"
  by (induction s ps rule: ebr_chain.induct) (simp_all add: same_tables_def drive_ok_def link_ok_def)

lemma drive_view_cong: "same_tables s t \<Longrightarrow> drive_view t p = drive_view s p"
  by (simp add: same_tables_def drive_view_def)

text \<open>The i-th entry of the loop is a partition.\<close>

lemma dos_loop_part:
  assumes "i < part_count ext" and "Part_TotalSectors (get_entry b i) \<noteq> 0" and "\<not> is_extended (get_entry b i)"
    and "\<not> (ext \<and> i = 1)" and "on_disk (total_sectors s) (get_entry b i)" and "total_sectors s < 2 ^ 32"
    and "\<not> e_refuse env (tick s)"
  shows "dos_loop env b ext i pbr s =
    dos_loop env b ext (i + 1) pbr (add_part (get_entry b i) (Part_TotalSectors (get_entry b i)) pbr (next_tick s))"
  using assms by (subst dos_loop.simps) (auto simp: Let_def cut_total_on_disk LocalAlloc_def)

lemma dos_loop_free:
  "i < part_count ext \<Longrightarrow> Part_TotalSectors (get_entry b i) = 0 \<Longrightarrow>
     dos_loop env b ext i pbr s = dos_loop env b ext (i + 1) pbr s"
  by (subst dos_loop.simps) (simp add: Let_def)

lemma dos_loop_end: "part_count ext \<le> i \<Longrightarrow> dos_loop env b ext i pbr s = Some (ERROR_SUCCESS, pbr, s)"
  by (subst dos_loop.simps) simp

lemma dos_loop_extended:
  assumes "i < part_count ext" and "Part_TotalSectors (get_entry b i) \<noteq> 0" and "is_extended (get_entry b i)"
    and "on_disk (total_sectors s) (get_entry b i)" and "total_sectors s < 2 ^ 32"
    and "q = add64 (snExtPartSector s) (Part_StartSector (get_entry b i))" and "q < 2 ^ 32"
    and "\<not> e_refuse env (tick s)" and "\<not> e_refuse env (tick s + 1)"
    and "table_error (disk s q) True = None"
    and "enter_extended ext (get_entry b i) (Part_TotalSectors (get_entry b i)) (s\<lparr>tick := tick s + 2\<rparr>) = (start', s1)"
  shows "dos_loop env b ext i pbr s =
    Option.bind (dos_loop env (disk s q) True 0 start' s1)
      (\<lambda>(dwError, startSec, s).
         if dwError \<noteq> ERROR_SUCCESS then Some (dwError, startSec, s)
         else dos_loop env b ext (i + 1) (if \<not> ext then 0 else startSec) s)"
proof -
  have read: "ReadSectors env s q (Suc 0) = (Some (disk s q), s\<lparr>tick := tick s + 2\<rparr>)"
    using ReadSectors_ok [OF assms(7-9)] by simp
  show ?thesis
    by (subst dos_loop.simps)
      (use assms in \<open>simp add: Let_def cut_total_on_disk read flip: assms(6)\<close>)
qed


lemma add_part_tables: "same_tables s (add_part e n pbr (next_tick s))"
  by (simp add: same_tables_def add_part_fields next_tick_def)

lemma views_tick: "views (s\<lparr>tick := t\<rparr>) = views s"
  by (simp add: views_def)

lemma next_tick_simps: "views (next_tick s) = views s" "same_store s (next_tick s)"
  "snExtPartSector (next_tick s) = snExtPartSector s" "snExtPartEndSec (next_tick s) = snExtPartEndSec s"
  "disk (next_tick s) = disk s" "diskInfo (next_tick s) = diskInfo s"
  by (simp_all add: next_tick_def views_def same_store_def)

text \<open>Reading a chain appends its drives to the list.\<close>

lemma chain_reads:
  assumes "ebr_chain s (p # ps)" and "total_sectors s < 2 ^ 32" and "\<forall>n. \<not> e_refuse env n" and "p < 2 ^ 32"
    and "\<forall>q \<in> set ps. q < 2 ^ 32"
  shows "\<exists>s' start'. dos_loop env (disk s p) True 0 p s = Some (ERROR_SUCCESS, start', s') \<and>
    views s' = views s @ map (drive_view s) (p # ps) \<and> same_tables s s' \<and> same_store s s' \<and>
    snExtPartEndSec s' = snExtPartEndSec s"
  using assms
proof (induction ps arbitrary: s p)
  case (Cons q qs)
  let ?b = "disk s p" and ?e = "get_entry (disk s p) 0" and ?l = "get_entry (disk s p) 1"
  let ?s1 = "add_part ?e (Part_TotalSectors ?e) p (next_tick s)"
  have p: "drive_ok s p" and l: "link_ok s p q" and c: "ebr_chain s (q # qs)" using Cons.prems(1) by simp_all
  have D: "disk ?s1 = disk s" "diskInfo ?s1 = diskInfo s" "snExtPartSector ?s1 = snExtPartSector s"
    by (simp_all add: add_part_fields next_tick_simps)
  have one: "dos_loop env ?b True 0 p s = dos_loop env ?b True 1 p ?s1"
    using dos_loop_part [of 0 True ?b s env p] p Cons.prems(2,3) by (simp add: drive_ok_def part_count_def)
  let ?s2 = "?s1\<lparr>tick := tick ?s1 + 2\<rparr>"
  have q: "q = add64 (snExtPartSector ?s1) (Part_StartSector ?l)" "q < 2 ^ 32"
    using l Cons.prems(5) D by (simp_all add: link_ok_def Let_def)
  have two: "dos_loop env ?b True 1 p ?s1 = Option.bind (dos_loop env (disk s q) True 0 q ?s2)
      (\<lambda>(dwError, startSec, s). if dwError \<noteq> ERROR_SUCCESS then Some (dwError, startSec, s)
         else dos_loop env ?b True (1 + 1) (if \<not> True then 0 else startSec) s)"
    using dos_loop_extended [of 1 True ?b ?s1 q env q ?s2 p] l q D Cons.prems(2,3) chain_table_error [OF c]
    by (simp add: link_ok_def Let_def part_count_def enter_extended_def)
  have T: "same_tables s ?s2" by (simp add: same_tables_def D)
  have c2: "ebr_chain ?s2 (q # qs)" using c ebr_chain_cong [OF T] by simp
  have "disk ?s2 q = disk s q" by (simp add: D)
  then obtain s' start' where r: "dos_loop env (disk s q) True 0 q ?s2 = Some (ERROR_SUCCESS, start', s')"
    "views s' = views ?s2 @ map (drive_view ?s2) (q # qs)" "same_tables ?s2 s'" "same_store ?s2 s'"
    "snExtPartEndSec s' = snExtPartEndSec ?s2"
    using Cons.IH [OF c2 _ Cons.prems(3) q(2)] Cons.prems(2,5) D(2) by auto
  have v: "views ?s2 = views s @ [drive_view s p]"
    using p Cons.prems(2) unfolding views_tick
    by (simp add: add_part_fields next_tick_simps drive_view_def entry_view_def drive_ok_def on_disk_def add64_eq)
  have "dos_loop env ?b True 0 p s = Some (ERROR_SUCCESS, start', s')"
    unfolding one two r(1) by (simp add: dos_loop_end part_count_def)
  moreover have "views s' = views s @ map (drive_view s) (p # q # qs)"
    using r(2) v drive_view_cong [OF T] by simp
  moreover have "same_tables s s'" using T r(3) by (simp add: same_tables_def)
  moreover have "same_store s s'" using r(4) by (simp add: same_store_def add_part_fields next_tick_simps add_part_def Let_def next_tick_def)
  moreover have "snExtPartEndSec s' = snExtPartEndSec s" using r(5) by (simp add: add_part_fields next_tick_simps)
  ultimately show ?case by blast
next
  case Nil
  let ?b = "disk s p" and ?e = "get_entry (disk s p) 0"
  let ?s1 = "add_part ?e (Part_TotalSectors ?e) p (next_tick s)"
  have p: "drive_ok s p" and l: "Part_TotalSectors (get_entry ?b 1) = 0" using Nil.prems(1) by simp_all
  have one: "dos_loop env ?b True 0 p s = dos_loop env ?b True 1 p ?s1"
    using dos_loop_part [of 0 True ?b s env p] p Nil.prems(2,3) by (simp add: drive_ok_def part_count_def)
  have two: "dos_loop env ?b True 1 p ?s1 = Some (ERROR_SUCCESS, p, ?s1)"
    using dos_loop_free [of 1 True ?b env p ?s1] l by (simp add: part_count_def dos_loop_end)
  have v: "views ?s1 = views s @ [drive_view s p]"
    using p Nil.prems(2)
    by (simp add: add_part_fields next_tick_simps drive_view_def entry_view_def drive_ok_def on_disk_def add64_eq)
  have "same_store s ?s1"
    by (rule same_store_trans [OF next_tick_simps(2)]) (simp add: add_part_fields)
  moreover have "dos_loop env ?b True 0 p s = Some (ERROR_SUCCESS, p, ?s1)" unfolding one two ..
  moreover have "views ?s1 = views s @ map (drive_view s) [p]" using v by simp
  moreover have "snExtPartEndSec ?s1 = snExtPartEndSec s" by (simp add: add_part_fields next_tick_simps)
  ultimately show ?case using add_part_tables by blast
qed

section \<open>The whole disk\<close>

definition used_extended :: "partentry \<Rightarrow> bool" where
  "used_extended e \<longleftrightarrow> Part_TotalSectors e \<noteq> 0 \<and> is_extended e"

definition listed :: "DriverState \<Rightarrow> nat list \<Rightarrow> partentry list \<Rightarrow> part_view list" where
  "listed s ps es = concat (map (\<lambda>e. if Part_TotalSectors e = 0 then [] else if is_extended e then map (drive_view s) ps
     else [entry_view 0 e]) es)"

text \<open>\<open>ps\<close> are the boot records of the chain; there are none when the first one has no signature.\<close>

definition chain_at :: "DriverState \<Rightarrow> nat \<Rightarrow> nat list \<Rightarrow> bool" where
  "chain_at s x ps \<longleftrightarrow>
     (case ps of [] \<Rightarrow> signature (disk s x) \<noteq> BOOTSECTRAILSIGH
      | p # _ \<Rightarrow> p = x \<and> ebr_chain (s\<lparr>snExtPartSector := x\<rparr>) ps \<and> (\<forall>q \<in> set ps. q < 2 ^ 32))"

definition readable :: "DriverState \<Rightarrow> nat list \<Rightarrow> partentry list \<Rightarrow> bool" where
  "readable s ps es \<longleftrightarrow> (\<forall>e \<in> set es. Part_TotalSectors e \<noteq> 0 \<longrightarrow> on_disk (total_sectors s) e) \<and>
     (\<forall>e \<in> set es. used_extended e \<longrightarrow> chain_at s (Part_StartSector e) ps) \<and>
     length (filter used_extended es) \<le> 1 \<and> (filter used_extended es \<noteq> [] \<longrightarrow> snExtPartSector s = 0)"

lemma chain_at_cong: "disk t = disk s \<Longrightarrow> diskInfo t = diskInfo s \<Longrightarrow> chain_at t x ps = chain_at s x ps"
  using ebr_chain_cong [of "s\<lparr>snExtPartSector := x\<rparr>" "t\<lparr>snExtPartSector := x\<rparr>" ps]
  by (cases ps) (simp_all add: chain_at_def same_tables_def)

lemma listed_cong: "disk t = disk s \<Longrightarrow> listed t ps es = listed s ps es"
proof -
  assume "disk t = disk s"
  then have "drive_view t = drive_view s" by (simp add: fun_eq_iff drive_view_def)
  then show ?thesis unfolding listed_def by (simp only:)
qed

lemma readable_step:
  assumes "readable s ps (e # es)" and "disk t = disk s" and "diskInfo t = diskInfo s"
    and "\<not> used_extended e \<Longrightarrow> snExtPartSector t = snExtPartSector s"
  shows "readable t ps es"
  using assms chain_at_cong [OF assms(2,3)] by (auto simp: readable_def split: if_splits)

lemma mbr_loop:
  assumes "drop i (table_of b) = es" and "readable s ps es" and "total_sectors s < 2 ^ 32" and "\<forall>n. \<not> e_refuse env n"
  shows "\<exists>s' start'. dos_loop env b False i 0 s = Some (ERROR_SUCCESS, start', s') \<and>
    views s' = views s @ listed s ps es \<and> same_store s s'"
  using assms
proof (induction es arbitrary: i s)
  case Nil
  then have "part_count False \<le> i" by (simp add: part_count_def)
  then show ?case by (simp add: dos_loop_end listed_def)
next
  case (Cons e es)
  have "\<not> 4 \<le> i"
  proof
    assume "4 \<le> i"
    then show False using Cons.prems(1) by simp
  qed
  then have i: "i < part_count False" "i < 4" by (simp_all add: part_count_def)
  have e: "get_entry b i = e" "drop (i + 1) (table_of b) = es" using Cons.prems(1) drop_table [OF i(2)] by simp_all
  have step: "\<exists>s' start'. dos_loop env b False (i + 1) 0 t = Some (ERROR_SUCCESS, start', s') \<and>
      views s' = views t @ listed s ps es \<and> same_store t s'"
    if "disk t = disk s" "diskInfo t = diskInfo s" "\<not> used_extended e \<Longrightarrow> snExtPartSector t = snExtPartSector s" for t
  proof -
    have "total_sectors t < 2 ^ 32" using Cons.prems(3) that(2) by simp
    from Cons.IH [OF e(2) readable_step [OF Cons.prems(2) that] this Cons.prems(4)]
    show ?thesis unfolding listed_cong [OF that(1)] .
  qed
  show ?case
  proof (cases "Part_TotalSectors e = 0")
    case True
    then have "dos_loop env b False i 0 s = dos_loop env b False (i + 1) 0 s"
      using i e by (intro dos_loop_free) simp_all
    with step [of s] True show ?thesis by (simp add: listed_def)
  next
    case used: False
    have cut: "on_disk (total_sectors s) e" using Cons.prems(2) used by (simp add: readable_def)
    show ?thesis
    proof (cases "is_extended e")
      case False
      let ?t = "add_part e (Part_TotalSectors e) 0 (next_tick s)"
      have one: "dos_loop env b False i 0 s = dos_loop env b False (i + 1) 0 ?t"
        using dos_loop_part [of i False b s env 0] i e used False cut Cons.prems(3,4) by simp
      have v: "views ?t = views s @ [entry_view 0 e]"
        using cut Cons.prems(3) by (simp add: add_part_fields next_tick_simps entry_view_def on_disk_def add64_eq)
      have "disk ?t = disk s" "diskInfo ?t = diskInfo s" "snExtPartSector ?t = snExtPartSector s" "same_store s ?t"
        using same_store_trans [OF next_tick_simps(2) add_part_fields(7)] by (simp_all add: add_part_fields next_tick_simps)
      then show ?thesis using step [of ?t] used False same_store_trans unfolding one v by (fastforce simp: listed_def)
    next
      case True
      let ?x = "Part_StartSector e"
      have ext: "used_extended e" "snExtPartSector s = 0" "chain_at s ?x ps"
        using Cons.prems(2) used True by (auto simp: readable_def used_extended_def)
      let ?s1 = "s\<lparr>tick := tick s + 2, snExtPartSector := ?x,
          snExtPartEndSec := sub32 (add32 ?x (Part_TotalSectors e)) 1\<rparr>"
      have x: "?x < 2 ^ 32" "?x = add64 (snExtPartSector s) ?x"
        using cut Cons.prems(3) ext(2) by (simp_all add: on_disk_def add64_eq)
      have enter: "enter_extended False e (Part_TotalSectors e) (s\<lparr>tick := tick s + 2\<rparr>) = (?x, ?s1)"
        by (simp add: enter_extended_def)
      show ?thesis
      proof (cases ps)
        case Nil
        then have sig: "signature (disk s ?x) \<noteq> BOOTSECTRAILSIGH" using ext(3) by (simp add: chain_at_def)
        have "ReadSectors env s ?x (Suc 0) = (Some (disk s ?x), s\<lparr>tick := tick s + 2\<rparr>)"
          using ReadSectors_ok [OF x(1)] Cons.prems(4) by simp
        then have one: "dos_loop env b False i 0 s = dos_loop env b False (i + 1) 0 ?s1"
          using i e used True cut Cons.prems(3) sig x(2)
          by (subst dos_loop.simps) (simp add: Let_def cut_total_on_disk enter_extended_def table_error_def ERROR_SUCCESS_def)
        show ?thesis
          using step [of ?s1] ext(1) used True Nil unfolding one
          by (fastforce simp: listed_def views_def same_store_def)
      next
        case (Cons p qs)
        have c: "p = ?x" "ebr_chain ?s1 (p # qs)" "\<forall>q \<in> set qs. q < 2 ^ 32" "p < 2 ^ 32"
          using ext(3) Cons ebr_chain_cong [of "s\<lparr>snExtPartSector := ?x\<rparr>" ?s1 "p # qs"]
          by (auto simp: chain_at_def same_tables_def)
        have te: "table_error (disk s ?x) True = None" using chain_table_error [OF c(2)] c(1) by simp
        have one: "dos_loop env b False i 0 s = Option.bind (dos_loop env (disk s ?x) True 0 ?x ?s1)
            (\<lambda>(dwError, startSec, s). if dwError \<noteq> ERROR_SUCCESS then Some (dwError, startSec, s)
               else dos_loop env b False (i + 1) (if \<not> False then 0 else startSec) s)"
          by (rule dos_loop_extended [of i False b s ?x env ?x ?s1 0, OF i(1) _ _ _ Cons.prems(3) _ x(1) _ _ te])
            (use e used True cut x(2) Cons.prems(4) enter in simp_all)
        obtain s2 start2 where r: "dos_loop env (disk s ?x) True 0 ?x ?s1 = Some (ERROR_SUCCESS, start2, s2)"
          "views s2 = views ?s1 @ map (drive_view ?s1) (p # qs)" "same_tables ?s1 s2" "same_store ?s1 s2"
          using chain_reads [OF c(2) _ Cons.prems(4) c(4,3)] c(1) Cons.prems(3) by auto
        have "disk s2 = disk s" "diskInfo s2 = diskInfo s" using r(3) by (simp_all add: same_tables_def)
        then obtain s' start' where r': "dos_loop env b False (i + 1) 0 s2 = Some (ERROR_SUCCESS, start', s')"
          "views s' = views s2 @ listed s ps es" "same_store s2 s'"
          using step [of s2] ext(1) by blast
        have "dos_loop env b False i 0 s = Some (ERROR_SUCCESS, start', s')" unfolding one r(1) using r'(1) by simp
        moreover have "views s' = views s @ listed s ps (e # es)"
          using r(2) r'(2) used True Cons by (simp add: listed_def views_def drive_view_def)
        moreover have "same_store s s'"
          using r(4) r'(3) by (simp add: same_store_def)
        ultimately show ?thesis by blast
      qed
    qed
  qed
qed

section \<open>A new record at the end of the chain\<close>

lemma blank_sector:
  assumes "512 \<le> n"
  shows "length (set_signature (replicate n 0)) = n" "signature (set_signature (replicate n 0)) = BOOTSECTRAILSIGH"
    "table_of (set_signature (replicate n 0)) = replicate 4 zero_entry"
proof -
  let ?b = "replicate n (0 :: BYTE)"
  have fits: "BOOT_SIGNATURE + length (word_bytes BOOTSECTRAILSIGH) \<le> length ?b"
    using assms by (simp add: BOOT_SIGNATURE_def)
  show len: "length (set_signature ?b) = n" unfolding set_signature_def length_overwrite [OF fits] by simp
  have "take 2 (drop BOOT_SIGNATURE (set_signature ?b)) = word_bytes BOOTSECTRAILSIGH"
    using overwrite_same [OF fits] by (simp add: set_signature_def)
  then have "get_word (take 2 (drop BOOT_SIGNATURE (set_signature ?b))) 0 = BOOTSECTRAILSIGH"
    by (simp add: get_word_bytes BOOTSECTRAILSIGH_def)
  then show "signature (set_signature ?b) = BOOTSECTRAILSIGH"
    using len assms by (simp add: signature_def get_word_def BOOT_SIGNATURE_def)
  have "get_entry (set_signature ?b) i = zero_entry" if "i < 4" for i
  proof -
    have "take 16 (drop (PARTTABLE_OFFSET + i * 16) (set_signature ?b)) = take 16 (drop (PARTTABLE_OFFSET + i * 16) ?b)"
      unfolding set_signature_def
      by (rule overwrite_other [OF fits]) (use that in \<open>simp add: PARTTABLE_OFFSET_def BOOT_SIGNATURE_def\<close>)
    also have "\<dots> = replicate 16 0" using assms that by (simp add: PARTTABLE_OFFSET_def)
    finally show ?thesis by (simp add: get_entry_def zero_entry_def)
  qed
  then show "table_of (set_signature ?b) = replicate 4 zero_entry"
    by (intro nth_equalityI) (simp_all add: table_nth)
qed

lemma pbr_entry_fields [simp]:
  "Part_StartSector (drive_entry s pbr n t e) = pbr_gap s" "Part_FileSystem (drive_entry s pbr n t e) = t"
  "Part_TotalSectors (drive_entry s pbr n t e) = sub32 (dword n) (pbr_gap s)" "Part_BootInd (drive_entry s pbr n t e) = Part_BootInd e"
  "Part_StartSector (link_entry s pbr n e) = dword (sub64 pbr (snExtPartSector s))" "Part_FileSystem (link_entry s pbr n e) = PART_EXTENDED"
  "Part_TotalSectors (link_entry s pbr n e) = dword n"
  by (simp_all add: drive_entry_def link_entry_def Let_def)

lemma pbr_entry_geometry:
  "diskInfo s' = diskInfo s \<Longrightarrow> drive_entry s' = drive_entry s"
  "diskInfo s' = diskInfo s \<Longrightarrow> snExtPartSector s' = snExtPartSector s \<Longrightarrow> link_entry s' = link_entry s"
  by (simp_all add: fun_eq_iff drive_entry_def link_entry_def pbr_gap_def set_first_geometry [of s' s])

text \<open>The sector of the new record, and the link in the record before it.\<close>

definition drive_sector :: "DriverState \<Rightarrow> nat \<Rightarrow> nat \<Rightarrow> BYTE \<Rightarrow> BYTE list" where
  "drive_sector s pbr num t =
     (let b = set_signature (replicate (bytes_per_sect s) 0)
      in put_entry b 0 (drive_entry s pbr num t (get_entry b 0)))"

definition linked_sector :: "DriverState \<Rightarrow> nat \<Rightarrow> nat \<Rightarrow> BYTE list \<Rightarrow> BYTE list" where
  "linked_sector s pbr num b = put_entry b 1 (link_entry s pbr num (get_entry b 1))"

lemma drive_sector_facts:
  assumes "512 \<le> bytes_per_sect s" and "sectors s < 2 ^ 32" and "1 \<le> heads s"
  shows "length (drive_sector s pbr num t) = bytes_per_sect s" "signature (drive_sector s pbr num t) = BOOTSECTRAILSIGH"
    "get_entry (drive_sector s pbr num t) 0 = drive_entry s pbr num t zero_entry"
    "get_entry (drive_sector s pbr num t) 1 = zero_entry"
proof -
  let ?b = "set_signature (replicate (bytes_per_sect s) 0)"
  note blank = blank_sector [OF assms(1)]
  have z: "get_entry ?b 0 = zero_entry" "get_entry ?b 1 = zero_entry"
    using blank(3) table_nth [of 0 ?b] table_nth [of 1 ?b] by simp_all
  let ?e = "drive_entry s pbr num t zero_entry"
  have ok: "entry_ok ?e"
    using assms(2) by (simp add: entry_ok_def pbr_gap_def sub32_def)
  have big: "512 \<le> length ?b" using assms(1) blank(1) by simp
  note P = put_entry_spec [OF big, of 0]
  have t: "table_of (put_entry ?b 0 ?e) = (table_of ?b)[0 := ?e]" using P(2) ok by simp
  show "length (drive_sector s pbr num t) = bytes_per_sect s" "signature (drive_sector s pbr num t) = BOOTSECTRAILSIGH"
    using P(1,3) blank by (simp_all add: drive_sector_def Let_def)
  show "get_entry (drive_sector s pbr num t) 0 = ?e"
    using t z table_nth [of 0 "put_entry ?b 0 ?e"] by (simp add: drive_sector_def Let_def)
  show "get_entry (drive_sector s pbr num t) 1 = zero_entry"
    using t z table_nth [of 1 "put_entry ?b 0 ?e"] table_nth [of 1 ?b] by (simp add: drive_sector_def Let_def)
qed

lemma linked_sector_facts:
  assumes "512 \<le> length b"
  shows "length (linked_sector s pbr num b) = length b" "signature (linked_sector s pbr num b) = signature b"
    "get_entry (linked_sector s pbr num b) 0 = get_entry b 0"
    "get_entry (linked_sector s pbr num b) 1 = link_entry s pbr num (get_entry b 1)"
proof -
  let ?e = "link_entry s pbr num (get_entry b 1)"
  have ok: "entry_ok ?e" by (simp add: entry_ok_def dword_def)
  note P = put_entry_spec [OF assms, of 1]
  show "length (linked_sector s pbr num b) = length b" "signature (linked_sector s pbr num b) = signature b"
    using P(1,3) by (simp_all add: linked_sector_def)
  show "get_entry (linked_sector s pbr num b) 0 = get_entry b 0" "get_entry (linked_sector s pbr num b) 1 = ?e"
    using P(2) [OF _ ok] table_nth [of 0 "put_entry b 1 ?e"] table_nth [of 1 "put_entry b 1 ?e"] table_nth [of 0 b]
    by (simp_all add: linked_sector_def)
qed

lemma CreatePBR_last:
  assumes "disk_ok s" and "sectors s < 2 ^ 32" and "1 \<le> heads s" and "pbr < 2 ^ 32" and "l < 2 ^ 32" and "l \<noteq> 0"
    and "l \<noteq> pbr" and "CreatePBR env s l 0 pbr num t = (True, s')"
  shows "\<exists>k. s' = s\<lparr>disk := (disk s)(pbr := drive_sector s pbr num t, l := linked_sector s pbr num (disk s l)), tick := k\<rparr>"
proof -
  have bps: "512 \<le> bytes_per_sect s" "length (disk s l) = bytes_per_sect s" using assms(1) by (simp_all add: disk_ok_def)
  note D = drive_sector_facts [OF bps(1) assms(2,3)]
  let ?b = "set_signature (replicate (bytes_per_sect s) 0)"
  obtain s1 where a: "LocalAlloc env s = (True, s1)"
    using assms(8) by (cases "LocalAlloc env s") (auto simp: CreatePBR_def split: if_splits)
  then have s1: "s1 = s\<lparr>tick := tick s + 1\<rparr>" by (auto simp: LocalAlloc_def next_tick_def split: if_splits)
  have ds: "put_entry ?b 0 (drive_entry s1 pbr num t (get_entry ?b 0)) = drive_sector s pbr num t"
    using pbr_entry_geometry(1) [of s1 s] by (simp add: drive_sector_def s1 Let_def)
  obtain r s2 where w: "WriteSectors env s1 pbr 1 (drive_sector s pbr num t) = (r, s2)"
    by (cases "WriteSectors env s1 pbr 1 (drive_sector s pbr num t)")
  have r: r using assms(8) a w ds by (auto simp: CreatePBR_def s1 split: if_splits)
  then have s2: "s2 = s\<lparr>disk := (disk s)(pbr := drive_sector s pbr num t), tick := tick s + 2\<rparr>"
    using WriteSectors_True [of env s1 pbr "drive_sector s pbr num t" s2] w D(1) assms(4) by (simp add: s1 numeral_2_eq_2)
  obtain b3 s3 where rd: "ReadSectors env s2 l 1 = (Some b3, s3)"
    using assms(6,8) a w r ds by (cases "ReadSectors env s2 l 1") (auto simp: CreatePBR_def s1 split: option.splits)
  then have b3: "b3 = disk s l" "s3 = s2\<lparr>tick := tick s2 + 2\<rparr>"
    using ReadSectors_Some [OF rd assms(5)] assms(7) by (simp_all add: s2)
  have ls: "put_entry b3 1 (link_entry s3 pbr num (get_entry b3 1)) = linked_sector s pbr num (disk s l)"
    using pbr_entry_geometry(2) [of s3 s] b3 by (simp add: linked_sector_def s2)
  have "WriteSectors env s3 l 1 (linked_sector s pbr num (disk s l)) = (True, s')"
    using assms(6,8) a w r ds rd ls by (simp add: CreatePBR_def s1)
  then have "s' = s3\<lparr>disk := (disk s3)(l := linked_sector s pbr num (disk s l)), tick := tick s3 + 1\<rparr>"
    using WriteSectors_True [of env s3 l "linked_sector s pbr num (disk s l)" s'] assms(5) bps
      linked_sector_facts(1) [of "disk s l"] by (simp add: b3 s2)
  then show ?thesis by (auto simp: b3 s2)
qed


text \<open>The chain grows by one drive, and the others keep their place.\<close>

definition fresh_record :: "DriverState \<Rightarrow> nat list \<Rightarrow> nat \<Rightarrow> nat \<Rightarrow> nat \<Rightarrow> BYTE \<Rightarrow> bool" where
  "fresh_record s ps l pbr num t \<longleftrightarrow>
     pbr \<notin> set (ps @ [l]) \<and> l \<notin> set ps \<and> l \<noteq> 0 \<and> pbr < 2 ^ 32 \<and> snExtPartSector s < pbr \<and> pbr_gap s < num \<and>
     t \<noteq> PART_EXTENDED \<and> t \<noteq> PART_DOSX13X \<and> pbr - snExtPartSector s + num \<le> total_sectors s \<and>
     Part_StartSector (get_entry (disk s l) 0) \<le> pbr - snExtPartSector s"

lemma chain_append:
  assumes "ebr_chain s (ps @ [l])"
    and "\<forall>q \<in> set ps. disk s' q = disk s q" and "get_entry (disk s' l) 0 = get_entry (disk s l) 0"
    and "signature (disk s' l) = signature (disk s l)" and "diskInfo s' = diskInfo s" and "snExtPartSector s' = snExtPartSector s"
    and "link_ok s' l p" and "drive_ok s' p" and "Part_TotalSectors (get_entry (disk s' p) 1) = 0"
  shows "ebr_chain s' (ps @ [l, p])"
  using assms
proof (induction ps)
  case Nil
  then show ?case by (simp add: drive_ok_def)
next
  case (Cons q ps)
  then show ?case by (cases ps) (auto simp: drive_ok_def link_ok_def)
qed

lemma CreatePBR_extends_chain:
  assumes "disk_ok s" and "1 \<le> heads s" and "1 \<le> sectors s" and "total_sectors s < 2 ^ 32" and "sectors s < 2 ^ 32"
    and "ebr_chain s (ps @ [l])" and "fresh_record s ps l pbr num t" and "CreatePBR env s l 0 pbr num t = (True, s')"
  shows "ebr_chain s' (ps @ [l, pbr])"
    and "map (drive_view s') (ps @ [l, pbr]) = map (drive_view s) (ps @ [l]) @ [(pbr + pbr_gap s, num - pbr_gap s, pbr, t, no_attributes)]"
    and "views s' = views s" and "same_tables (s\<lparr>disk := disk s'\<rparr>) s'"
proof -
  have F: "pbr \<notin> set ps" "pbr \<noteq> l" "l \<notin> set ps" "l \<noteq> 0" "pbr < 2 ^ 32" "snExtPartSector s < pbr" "pbr_gap s < num"
    "t \<noteq> PART_EXTENDED" "t \<noteq> PART_DOSX13X" "pbr - snExtPartSector s + num \<le> total_sectors s"
    "Part_StartSector (get_entry (disk s l) 0) \<le> pbr - snExtPartSector s"
    using assms(7) by (auto simp: fresh_record_def)
  have l: "l < 2 ^ 32"
    using assms(6) by (induction ps rule: induct_list012) (auto simp: drive_ok_def)
  have gap: "0 < pbr_gap s" "pbr_gap s < 2 ^ 32" using assms(3,5) by (simp_all add: pbr_gap_def)
  have num: "num < 2 ^ 32" using F(10) assms(4) by linarith
  obtain k where s': "s' = s\<lparr>disk := (disk s)(pbr := drive_sector s pbr num t, l := linked_sector s pbr num (disk s l)), tick := k\<rparr>"
    using CreatePBR_last [OF assms(1,5,2) F(5) l F(4) F(2) [symmetric] assms(8)] by blast
  have big: "512 \<le> length (disk s l)" "512 \<le> bytes_per_sect s" using assms(1) by (simp_all add: disk_ok_def)
  note D = drive_sector_facts [OF big(2) assms(5,2), of pbr num t] and L = linked_sector_facts [OF big(1), of s pbr num, unfolded One_nat_def]
  have at: "disk s' l = linked_sector s pbr num (disk s l)" "disk s' pbr = drive_sector s pbr num t"
    "\<forall>q \<in> set ps. disk s' q = disk s q" "diskInfo s' = diskInfo s" "snExtPartSector s' = snExtPartSector s"
    using F(1,2,3) by (auto simp: s')
  have dif: "sub64 pbr (snExtPartSector s) = pbr - snExtPartSector s"
    using F(5,6) by (intro sub64_eq) simp_all
  have len: "sub32 num (pbr_gap s) = num - pbr_gap s" using F(7) num by (intro sub32_eq) simp_all
  have small: "pbr - snExtPartSector s < 2 ^ 32" using F(5) by linarith
  have link: "link_ok s' l pbr"
    using F(5-7,10,11) small num
    by (simp add: link_ok_def at L dif is_extended_def on_disk_def add64_eq Let_def)
  have drive: "drive_ok s' pbr"
    using F(5-10) gap num
    by (simp add: drive_ok_def at D len is_extended_def on_disk_def)
  have free: "Part_TotalSectors (get_entry (disk s' pbr) 1) = 0" using D(4) by (simp add: at)
  show "ebr_chain s' (ps @ [l, pbr])"
    by (rule chain_append [OF assms(6) at(3) _ _ at(4,5) link drive free]) (simp_all add: at L)
  have new: "drive_view s' pbr = (pbr + pbr_gap s, num - pbr_gap s, pbr, t, no_attributes)"
    using D(3) len num by (simp add: drive_view_def entry_view_def at entry_attributes_def no_attributes_def)
  have "drive_view s' l = drive_view s l" using L(3) by (simp add: drive_view_def at)
  moreover have "map (drive_view s') ps = map (drive_view s) ps" using at(3) by (simp add: drive_view_def)
  ultimately show "map (drive_view s') (ps @ [l, pbr]) = map (drive_view s) (ps @ [l]) @ [(pbr + pbr_gap s, num - pbr_gap s, pbr, t, no_attributes)]"
    using new by simp
  show "views s' = views s" "same_tables (s\<lparr>disk := disk s'\<rparr>) s'" by (simp_all add: s' views_def same_tables_def)
qed

section \<open>Deleting the first drive\<close>

lemma DeletePBR_first:
  assumes "disk_ok s" and "snPBRSector p < 2 ^ 32" and "pbr_of_prev = None \<or> (\<exists>q. pbr_of_prev = Some q \<and> snPBRSector q = 0)"
    and "DeletePBR env s p pbr_of_prev = (True, s')"
  shows "\<exists>t. s' = s\<lparr>disk := (disk s)(snPBRSector p := clear_entry (disk s (snPBRSector p)) 0), tick := t\<rparr>"
proof -
  let ?x = "snPBRSector p"
  have bps: "512 \<le> length (disk s ?x)" "length (disk s ?x) = bytes_per_sect s"
    using assms(1) by (simp_all add: disk_ok_def)
  obtain b s1 where rd: "ReadSectors env s ?x 1 = (Some b, s1)"
    using assms(4) by (cases "ReadSectors env s ?x 1") (auto simp: DeletePBR_def split: option.splits)
  then have b: "b = disk s ?x" "s1 = s\<lparr>tick := tick s + 2\<rparr>" using ReadSectors_Some [OF rd assms(2)] by simp_all
  have "WriteSectors env s1 ?x 1 (clear_entry (disk s ?x) 0) = (True, s')"
    using assms(3,4) rd b by (auto simp: DeletePBR_def)
  then have "s' = s1\<lparr>disk := (disk s1)(?x := clear_entry (disk s ?x) 0), tick := tick s1 + 1\<rparr>"
    using WriteSectors_True [of env s1 ?x "clear_entry (disk s ?x) 0" s'] assms(2) clear_entry_spec(1) [OF bps(1), of 0] bps
    by (simp add: b)
  then show ?thesis by (auto simp: b)
qed

lemma only_drive_deleted:
  assumes "disk_ok s" and "drive_ok s x" and "Part_TotalSectors (get_entry (disk s x) 1) = 0"
  shows "table_error (clear_entry (disk s x) 0) True = Some ERROR_INVALID_DATA"
proof -
  have big: "512 \<le> length (disk s x)" using assms(1) by (simp add: disk_ok_def)
  note C = clear_entry_spec [OF big, of 0]
  have "table_of (clear_entry (disk s x) 0) = (table_of (disk s x))[0 := zero_entry]" using C(2) by simp
  then have t: "get_entry (clear_entry (disk s x) 0) 0 = zero_entry" "get_entry (clear_entry (disk s x) 0) 1 = get_entry (disk s x) 1"
    using table_nth [of 0 "clear_entry (disk s x) 0"] table_nth [of 1 "clear_entry (disk s x) 0"] table_nth [of 1 "disk s x"] by simp_all
  have "signature (clear_entry (disk s x) 0) = BOOTSECTRAILSIGH" using C(3) assms(2) by (simp add: drive_ok_def)
  then show ?thesis
    using t [unfolded One_nat_def] assms(3) [unfolded One_nat_def] by (simp add: table_error_def part_count_def take2_table)
qed

text \<open>An extended entry whose boot record has no used entry makes the whole table invalid.\<close>

lemma dos_loop_empty_record:
  assumes "i < part_count False" and "used_extended (get_entry b i)" and "on_disk (total_sectors s) (get_entry b i)"
    and "total_sectors s < 2 ^ 32" and "snExtPartSector s = 0" and "\<forall>n. \<not> e_refuse env n"
    and "table_error (disk s (Part_StartSector (get_entry b i))) True = Some ERROR_INVALID_DATA"
  shows "\<exists>t st. dos_loop env b False i 0 s = Some (ERROR_INVALID_DATA, st, t) \<and> same_store s t"
proof -
  let ?e = "get_entry b i"
  have x: "Part_StartSector ?e < 2 ^ 32" "add64 (snExtPartSector s) (Part_StartSector ?e) = Part_StartSector ?e"
    using assms(2-5) by (simp_all add: on_disk_def add64_eq used_extended_def)
  have rd: "ReadSectors env s (Part_StartSector ?e) (Suc 0) =
      (Some (disk s (Part_StartSector ?e)), s\<lparr>tick := tick s + 2\<rparr>)"
    using ReadSectors_ok [OF x(1)] assms(6) by simp
  show ?thesis
    using assms(1-4,7) rd x(2)
    by (subst dos_loop.simps)
      (simp add: Let_def used_extended_def cut_total_on_disk enter_extended_def ERROR_INVALID_DATA_def ERROR_SUCCESS_def same_store_def)
qed

lemma dos_loop_reaches_empty_record:
  assumes "i \<le> k" and "k < 4" and "used_extended (get_entry b k)" and "on_disk (total_sectors s) (get_entry b k)"
    and "\<And>j. i \<le> j \<Longrightarrow> j < k \<Longrightarrow> \<not> used_extended (get_entry b j) \<and> on_disk (total_sectors s) (get_entry b j)"
    and "total_sectors s < 2 ^ 32" and "snExtPartSector s = 0" and "\<forall>n. \<not> e_refuse env n"
    and "table_error (disk s (Part_StartSector (get_entry b k))) True = Some ERROR_INVALID_DATA"
  shows "\<exists>t st. dos_loop env b False i 0 s = Some (ERROR_INVALID_DATA, st, t) \<and> same_store s t"
  using assms
proof (induction "k - i" arbitrary: i s)
  case 0
  then show ?case using dos_loop_empty_record [of i b s env] by (simp add: part_count_def)
next
  case (Suc n)
  then have i: "i < part_count False" "i < k" by (simp_all add: part_count_def)
  have e: "\<not> used_extended (get_entry b i)" "on_disk (total_sectors s) (get_entry b i)" using Suc.prems(5) i by simp_all
  have step: "\<exists>t st. dos_loop env b False (i + 1) 0 u = Some (ERROR_INVALID_DATA, st, t) \<and> same_store u t"
    if "disk u = disk s" "diskInfo u = diskInfo s" "snExtPartSector u = 0" for u
    by (rule Suc.hyps(1)) (use Suc.hyps(2) Suc.prems i that in \<open>simp_all add: Suc.prems(5)\<close>)
  show ?case
  proof (cases "Part_TotalSectors (get_entry b i) = 0")
    case True
    then show ?thesis using step [of s] Suc.prems(7) dos_loop_free [OF i(1) True] by simp
  next
    case False
    let ?u = "add_part (get_entry b i) (Part_TotalSectors (get_entry b i)) 0 (next_tick s)"
    have "dos_loop env b False i 0 s = dos_loop env b False (i + 1) 0 ?u"
      using dos_loop_part [of i False b s env 0] i e False Suc.prems(6,8) by (simp add: used_extended_def)
    moreover have "same_store s ?u"
      using same_store_trans [OF next_tick_simps(2) add_part_fields(7)] .
    ultimately show ?thesis
      using step [of ?u] Suc.prems(7) same_store_trans by (fastforce simp: add_part_fields next_tick_simps)
  qed
qed

section \<open>Cycles\<close>

text \<open>A set of boot records each of which links to another one of the set.\<close>

definition closed_chain :: "DriverState \<Rightarrow> nat set \<Rightarrow> bool" where
  "closed_chain s C \<longleftrightarrow> (\<forall>p \<in> C. drive_ok s p \<and> (\<exists>q \<in> C. link_ok s p q))"

lemma closed_chain_diverges:
  assumes "closed_chain s C" and "total_sectors s < 2 ^ 32" and "\<forall>n. \<not> e_refuse env n"
    and "p \<in> C" and "same_tables s t" and "i \<le> 1"
  shows "dos_loop env (disk s p) True i st t = None"
proof (rule ccontr)
  let ?bad = "\<lambda>b ext i st t. ext \<and> i \<le> 1 \<and> same_tables s t \<and> (\<exists>p \<in> C. b = disk s p)"
  assume "dos_loop env (disk s p) True i st t \<noteq> None"
  then obtain y where y: "dos_loop env (disk s p) True i st t = Some y" by blast
  have "\<not> (env = env \<and> ?bad (disk s p) True i st t)"
  proof (rule dos_loop.raw_induct [where P = "\<lambda>en b ext i st t y. \<not> (en = env \<and> ?bad b ext i st t)", OF _ y])
    fix f :: "dos_env \<Rightarrow> BYTE list \<Rightarrow> bool \<Rightarrow> nat \<Rightarrow> nat \<Rightarrow> DriverState \<Rightarrow> (nat \<times> nat \<times> DriverState) option"
      and en b ext i st t y
    assume IH: "\<And>en b ext i st t y. f en b ext i st t = Some y \<Longrightarrow> \<not> (en = env \<and> ?bad b ext i st t)"
      and eq: "(if i \<ge> part_count ext then Some (ERROR_SUCCESS, st, t)
      else let e = get_entry b i
      in if Part_TotalSectors e = 0 then f en b ext (i + 1) st t
      else let len = cut_total t e
      in if ext \<and> i = 1 \<and> \<not> is_extended e then Some (ERROR_SUCCESS, st, t)
      else if is_extended e
      then (if len = 0 then f en b ext (i + 1) st t
            else case ReadSectors en t (add64 (snExtPartSector t) (Part_StartSector e)) 1 of
                   (None, s) \<Rightarrow> Some (last_error s, st, s)
                 | (Some eb, s) \<Rightarrow>
                     (let (startSec, s) = enter_extended ext e len s
                      in Option.bind
                           (case table_error eb True of
                              Some dwError \<Rightarrow> Some (dwError, startSec, s)
                            | None \<Rightarrow> f en eb True 0 startSec s)
                           (\<lambda>(dwError, startSec, s).
                              if dwError \<noteq> ERROR_SUCCESS then Some (dwError, startSec, s)
                              else f en b ext (i + 1) (if \<not> ext then 0 else startSec) s)))
      else let (ok, s) = LocalAlloc en t
           in if \<not> ok then Some (ERROR_NOT_ENOUGH_MEMORY, st, s)
              else f en b ext (i + 1) st (add_part e len st s)) = Some y"
    show "\<not> (en = env \<and> ?bad b ext i st t)"
    proof
      assume bad: "en = env \<and> ?bad b ext i st t"
      then obtain p where p: "p \<in> C" "b = disk s p" by blast
      then obtain q where q: "drive_ok s p" "q \<in> C" "link_ok s p q" using assms(1) by (auto simp: closed_chain_def)
      have T: "disk t = disk s" "diskInfo t = diskInfo s" "snExtPartSector t = snExtPartSector s"
        using bad by (simp_all add: same_tables_def)
      show False
      proof (cases "i = 0")
        case True
        have "f en b True (i + 1) st (add_part (get_entry b 0) (Part_TotalSectors (get_entry b 0)) st (next_tick t)) = Some y"
          using eq True bad p(2) q(1) T assms(2,3)
          by (simp add: part_count_def drive_ok_def Let_def cut_total_on_disk LocalAlloc_def)
        moreover have "same_tables s (add_part (get_entry b 0) (Part_TotalSectors (get_entry b 0)) st (next_tick t))"
          using T by (simp add: same_tables_def add_part_fields next_tick_simps)
        ultimately show False using IH bad p True by fastforce
      next
        case False
        then have i: "i = 1" using bad by simp
        have q32: "q < 2 ^ 32" using assms(1) q(2) by (simp add: closed_chain_def drive_ok_def)
        obtain r where r: "link_ok s q r" "drive_ok s q" using assms(1) q(2) by (auto simp: closed_chain_def)
        have te: "table_error (disk s q) True = None" by (rule link_table_error [OF r(2,1)])
        have rd: "ReadSectors en t q (Suc 0) = (Some (disk s q), t\<lparr>tick := tick t + 2\<rparr>)"
          using ReadSectors_ok [OF q32, of en t] bad assms(3) T by simp
        have "f en (disk s q) True 0 q (t\<lparr>tick := tick t + 2\<rparr>) \<noteq> None"
          using eq i bad p(2) q(3) T assms(2) rd te
          by (auto simp: part_count_def link_ok_def Let_def cut_total_on_disk enter_extended_def bind_eq_Some_conv)
        then obtain z where "f en (disk s q) True 0 q (t\<lparr>tick := tick t + 2\<rparr>) = Some z" by blast
        moreover have "same_tables s (t\<lparr>tick := tick t + 2\<rparr>)" using T by (simp add: same_tables_def)
        ultimately show False using IH bad q(2) by fastforce
      qed
    qed
  qed
  then show False using assms(4-6) by blast
qed

end
