(* ===== verification/Dos_Place.thy ===== *)
theory Dos_Place
  imports Dos_Space
begin

text \<open>
  The place \<open>GetPartLocation\<close> finds is free: outside the extended partition it meets no entry of
  the table, inside it no logical drive, and it ends where the disk or the extended partition does.
\<close>

section \<open>The table\<close>

definition apart :: "nat \<Rightarrow> nat \<Rightarrow> nat \<Rightarrow> nat \<Rightarrow> bool" where
  "apart a n b m \<longleftrightarrow> a + n \<le> b \<or> b + m \<le> a"

definition entries_apart :: "DriverState \<Rightarrow> bool" where
  "entries_apart s \<longleftrightarrow>
     sorted_wrt (\<lambda>e f. Part_StartSector e + Part_TotalSectors e \<le> Part_StartSector f) (mbr_used s) \<and>
     (\<forall>e \<in> set (mbr_used s). Part_StartSector e + Part_TotalSectors e \<le> total_sectors s) \<and>
     (\<forall>e \<in> set (drop (length (mbr_used s)) (mbr_table s)). Part_TotalSectors e = 0)"

text \<open>The cylinder and head of the first entry agree with its start as far as the code relies on them.\<close>

definition head_agrees :: "DriverState \<Rightarrow> bool" where
  "head_agrees s \<longleftrightarrow>
     (let e = get_entry (disk s 0) 0
      in unat (Part_FirstTrack e) > 1 \<longrightarrow>
         (if heads s > 1 then sectors s * (1 + unat (Part_FirstHead e)) else 1) \<le> Part_StartSector e)"

lemma used_nth: "i < length (mbr_used s) \<Longrightarrow> i < 4 \<and> get_entry (disk s 0) i = mbr_used s ! i"
proof -
  assume i: "i < length (mbr_used s)"
  have "length (mbr_used s) \<le> 4" using length_takeWhile_le [of in_use "mbr_table s"] by (simp add: used_entries_def)
  with i have "i < 4" by simp
  then show ?thesis using i used_prefix [of "mbr_table s"] by (metis nth_take table_nth)
qed

lemma in_use_iff:
  assumes "entries_apart s" and "i < 4"
  shows "Part_TotalSectors (get_entry (disk s 0) i) \<noteq> 0 \<longleftrightarrow> i < length (mbr_used s)"
proof (cases "i < length (mbr_used s)")
  case True
  then show ?thesis using used_nth [OF True] used_entries_all [of "mbr_table s"] by (metis nth_mem)
next
  case False
  then have "mbr_table s ! i \<in> set (drop (length (mbr_used s)) (mbr_table s))"
    using assms(2) by (auto simp: in_set_conv_nth intro!: exI [of _ "i - length (mbr_used s)"])
  then show ?thesis using False assms by (simp add: entries_apart_def table_nth)
qed

lemma entry_end_eq:
  assumes "entries_apart s" and "total_sectors s < 2 ^ 32" and "i < length (mbr_used s)"
  shows "entry_end (mbr_used s ! i) = Part_StartSector (mbr_used s ! i) + Part_TotalSectors (mbr_used s ! i)"
    "Part_StartSector (mbr_used s ! i) + Part_TotalSectors (mbr_used s ! i) \<le> total_sectors s"
proof -
  show le: "Part_StartSector (mbr_used s ! i) + Part_TotalSectors (mbr_used s ! i) \<le> total_sectors s"
    using assms by (simp add: entries_apart_def)
  then show "entry_end (mbr_used s ! i) = Part_StartSector (mbr_used s ! i) + Part_TotalSectors (mbr_used s ! i)"
    using assms(2) by (simp add: entry_end_def add32_eq)
qed

definition free_place :: "DriverState \<Rightarrow> location \<Rightarrow> bool" where
  "free_place s l \<longleftrightarrow> snNextPartSector l + curNumSectors l \<le> total_sectors s \<and>
     (\<forall>e \<in> set (mbr_used s). apart (snNextPartSector l) (curNumSectors l) (Part_StartSector e) (Part_TotalSectors e))"

text \<open>A place behind entry \<open>i\<close> that ends before the next one, or before the end of the disk.\<close>

lemma free_behind:
  assumes "entries_apart s" and "i < length (mbr_used s)"
    and "snNextPartSector l = Part_StartSector (mbr_used s ! i) + Part_TotalSectors (mbr_used s ! i)"
    and "i + 1 < length (mbr_used s) \<Longrightarrow> snNextPartSector l + curNumSectors l \<le> Part_StartSector (mbr_used s ! (i + 1))"
    and "snNextPartSector l + curNumSectors l \<le> total_sectors s"
  shows "free_place s l"
proof -
  let ?U = "mbr_used s" and ?R = "\<lambda>e f. Part_StartSector e + Part_TotalSectors e \<le> Part_StartSector f"
  have srt: "sorted_wrt ?R ?U" using assms(1) by (simp add: entries_apart_def)
  have "apart (snNextPartSector l) (curNumSectors l) (Part_StartSector (?U ! j)) (Part_TotalSectors (?U ! j))"
    if j: "j < length ?U" for j
  proof (cases "j \<le> i")
    case True
    then have "j = i \<or> ?R (?U ! j) (?U ! i)" using sorted_wrt_nth_less [OF srt, of j i] assms(2) by fastforce
    then show ?thesis using assms(3) by (auto simp: apart_def)
  next
    case False
    then have "j = i + 1 \<or> ?R (?U ! (i + 1)) (?U ! j)" using sorted_wrt_nth_less [OF srt, of "i + 1" j] j by fastforce
    then show ?thesis using assms(4) False j by (auto simp: apart_def)
  qed
  then show ?thesis using assms(5) by (auto simp: free_place_def in_set_conv_nth)
qed

text \<open>The gap the code computes ends at the next entry, or at the end of the disk.\<close>

lemma gap_behind_le:
  assumes "entries_apart s" and "total_sectors s < 2 ^ 32" and "length (mbr_used s) < 4" and "i < length (mbr_used s)"
    and "cur \<le> gap_behind s (disk s 0) i"
  shows "entry_end (mbr_used s ! i) + cur \<le> total_sectors s"
    and "i + 1 < length (mbr_used s) \<Longrightarrow> entry_end (mbr_used s ! i) + cur \<le> Part_StartSector (mbr_used s ! (i + 1))"
proof -
  let ?U = "mbr_used s"
  note E = entry_end_eq [OF assms(1,2,4)]
  have e: "get_entry (disk s 0) i = ?U ! i" using used_nth [OF assms(4)] by simp
  have "entry_end (?U ! i) + cur \<le> total_sectors s \<and>
    (i + 1 < length ?U \<longrightarrow> entry_end (?U ! i) + cur \<le> Part_StartSector (?U ! (i + 1)))"
  proof (cases "i + 1 < length ?U")
    case n: True
    then have f: "get_entry (disk s 0) (i + 1) = ?U ! (i + 1)" "Part_TotalSectors (get_entry (disk s 0) (i + 1)) \<noteq> 0"
      using used_nth [OF n] in_use_iff [OF assms(1), of "i + 1"] by auto
    have "sorted_wrt (\<lambda>e f. Part_StartSector e + Part_TotalSectors e \<le> Part_StartSector f) ?U"
      using assms(1) by (simp add: entries_apart_def)
    then have le: "Part_StartSector (?U ! i) + Part_TotalSectors (?U ! i) \<le> Part_StartSector (?U ! (i + 1))"
      by (rule sorted_wrt_nth_less) (use n in simp_all)
    have top: "Part_StartSector (?U ! (i + 1)) \<le> total_sectors s"
      using entry_end_eq(2) [OF assms(1,2) n] by linarith
    then have "gap_behind s (disk s 0) i = Part_StartSector (?U ! (i + 1)) - entry_end (?U ! i)"
      using f le E(1) assms(2) by (simp add: gap_behind_def e sub32_eq)
    then have "cur \<le> Part_StartSector (?U ! (i + 1)) - entry_end (?U ! i)" using assms(5) by simp
    then show ?thesis using le E(1) top by (intro conjI impI) linarith+
  next
    case False
    then have "Part_TotalSectors (get_entry (disk s 0) (i + 1)) = 0"
      using in_use_iff [OF assms(1), of "i + 1"] assms(3,4) by auto
    then have "gap_behind s (disk s 0) i = total_sectors s - entry_end (?U ! i)"
      using E assms(2) by (simp add: gap_behind_def e sub32_eq)
    then show ?thesis using assms(5) E False by simp
  qed
  then show "entry_end (?U ! i) + cur \<le> total_sectors s"
    and "i + 1 < length ?U \<Longrightarrow> entry_end (?U ! i) + cur \<le> Part_StartSector (?U ! (i + 1))" by simp_all
qed

lemma table_walk_free:
  assumes "entries_apart s" and "total_sectors s < 2 ^ 32" and "length (mbr_used s) < 4"
    and "table_walk s (disk s 0) cur i 0 nx = Some l"
  shows "free_place s l \<and> bExtPart l = False \<and> curNumSectors l = cur"
  using assms(4)
proof (induction "4 - i" arbitrary: i nx rule: less_induct)
  case less
  let ?b = "disk s 0" and ?U = "mbr_used s"
  let ?e = "get_entry ?b i"
  have i: "i < 4" and used: "Part_TotalSectors ?e \<noteq> 0"
    using less.prems by (auto simp: table_walk.simps [of s ?b cur i] split: if_splits)
  then have iU: "i < length ?U" using in_use_iff [OF assms(1) i] by simp
  have e: "?e = ?U ! i" using used_nth [OF iU] by simp
  show ?case
  proof (cases "cur \<le> gap_behind s ?b i")
    case True
    then have l: "l = \<lparr>bExtPart = False, snNextPartSector = entry_end (?U ! i), curNumSectors = cur,
        pLastPartState = last_before (entry_end (?U ! i)) (pPartState s) None\<rparr>"
      using less.prems i used by (simp add: table_walk.simps [of s ?b cur i] Let_def e split: if_splits)
    have "free_place s l"
      using gap_behind_le [OF assms(1-3) iU True] entry_end_eq(1) [OF assms(1,2) iU]
      by (intro free_behind [OF assms(1) iU]) (simp_all add: l)
    then show ?thesis by (simp add: l)
  next
    case False
    then have "table_walk s ?b cur (i + 1) 0 (entry_end ?e) = Some l"
      using less.prems i used by (simp add: table_walk.simps [of s ?b cur i] Let_def split: if_splits)
    then show ?thesis using less.hyps [of "i + 1"] i by simp
  qed
qed

text \<open>The place in front of the first entry, in the track or sector behind the boot record.\<close>

lemma head_gap_free:
  assumes "entries_apart s" and "total_sectors s < 2 ^ 32" and "head_agrees s"
    and "unat (Part_FirstTrack (get_entry (disk s 0) 0)) > 1" and "0 < length (mbr_used s)"
    and "snNextPartSector l = (if heads s > 1 then sectors s else 1)"
    and "curNumSectors l \<le> head_gap s (get_entry (disk s 0) 0)"
  shows "free_place s l"
proof -
  let ?U = "mbr_used s" and ?e = "get_entry (disk s 0) 0"
  have e: "?e = ?U ! 0" using used_nth [OF assms(5)] by simp
  have le: "(if heads s > 1 then sectors s * (1 + unat (Part_FirstHead ?e)) else 1) \<le> Part_StartSector ?e"
    using assms(3,4) by (simp add: head_agrees_def Let_def)
  have top: "Part_StartSector ?e + Part_TotalSectors ?e \<le> total_sectors s"
    using entry_end_eq(2) [OF assms(1,2,5)] by (simp add: e)
  have start: "Part_StartSector ?e < 2 ^ 32" using top assms(2) by linarith
  have fits: "snNextPartSector l + curNumSectors l \<le> Part_StartSector ?e"
  proof (cases "heads s > 1")
    case True
    then have le: "sectors s + sectors s * unat (Part_FirstHead ?e) \<le> Part_StartSector ?e" using le by simp
    then have "mul32 (unat (Part_FirstHead ?e)) (sectors s) = sectors s * unat (Part_FirstHead ?e)"
      using start by (simp add: mul32_def mult.commute)
    then have "head_gap s ?e = Part_StartSector ?e - sectors s - sectors s * unat (Part_FirstHead ?e)"
      using True le start by (simp add: head_gap_def sub32_eq sub64_eq)
    then show ?thesis using assms(6,7) True le by simp
  next
    case False
    then show ?thesis using assms(6,7) le start by (simp add: head_gap_def sub32_eq)
  qed
  have "Part_StartSector (?U ! 0) \<le> Part_StartSector (?U ! j)" if j: "j < length ?U" for j
  proof (cases "j = 0")
    case False
    have "sorted_wrt (\<lambda>e f. Part_StartSector e + Part_TotalSectors e \<le> Part_StartSector f) ?U"
      using assms(1) by (simp add: entries_apart_def)
    then have "Part_StartSector (?U ! 0) + Part_TotalSectors (?U ! 0) \<le> Part_StartSector (?U ! j)"
      by (rule sorted_wrt_nth_less) (use j False in simp_all)
    then show ?thesis by simp
  qed simp
  then have "\<forall>f \<in> set ?U. apart (snNextPartSector l) (curNumSectors l) (Part_StartSector f) (Part_TotalSectors f)"
    using fits e by (force simp: in_set_conv_nth apart_def)
  then show ?thesis using fits top by (simp add: free_place_def)
qed

lemma table_place_free:
  assumes "entries_apart s" and "total_sectors s < 2 ^ 32" and "head_agrees s" and "table_place s (disk s 0) num nx = Some l"
  shows "free_place s l \<and> bExtPart l = False"
proof -
  let ?b = "disk s 0"
  have four: "length (mbr_used s) < 4"
  proof (rule ccontr)
    assume "\<not> length (mbr_used s) < 4"
    then have "Part_TotalSectors (get_entry ?b 3) \<noteq> 0" using in_use_iff [OF assms(1), of 3] by simp
    then show False using assms(4) by (simp add: table_place_def)
  qed
  note walk = table_walk_free [OF assms(1,2) four]
  let ?cur = "if heads s > 1 then round_up (dwAlign s) (track_size s num) else track_size s num"
  let ?gap = "head_gap s (get_entry ?b 0)" and ?nx = "if heads s > 1 then sectors s else 1"
  consider nx' where "table_walk s ?b ?cur 0 0 nx' = Some l"
    | "unat (Part_FirstTrack (get_entry ?b 0)) > 1" "sub64 ?cur ?nx \<le> ?gap"
      "table_walk s ?b (sub64 ?cur ?nx) 0 ?gap ?nx = Some l"
    using assms(4) by (auto simp: table_place_def Let_def not_less split: if_splits)
  then show ?thesis
  proof cases
    case 1
    then show ?thesis using walk by blast
  next
    case 2
    show ?thesis
    proof (cases "?gap = 0")
      case True
      then show ?thesis using 2(3) walk by metis
    next
      case False
      have used: "Part_TotalSectors (get_entry ?b 0) \<noteq> 0"
        using 2(3) by (auto simp: table_walk.simps [of s ?b _ 0] split: if_splits)
      then have "0 < length (mbr_used s)" using in_use_iff [OF assms(1), of 0] by simp
      moreover have "l = \<lparr>bExtPart = False, snNextPartSector = ?nx, curNumSectors = sub64 ?cur ?nx,
          pLastPartState = last_before ?nx (pPartState s) None\<rparr>"
        using 2(2,3) False used by (simp add: table_walk.simps [of s ?b _ 0] Let_def)
      ultimately show ?thesis using head_gap_free [OF assms(1-3) 2(1)] 2(2) by simp
    qed
  qed
qed

section \<open>The extended partition\<close>

text \<open>Logical drives that follow one another from sector \<open>x\<close> on, up to \<open>lim\<close>.\<close>

fun drives_from :: "nat \<Rightarrow> nat \<Rightarrow> PartState list \<Rightarrow> bool" where
  "drives_from x lim [] = (x \<le> lim)"
| "drives_from x lim (p # ps) =
     (snPBRSector p \<noteq> 0 \<and> x \<le> snPBRSector p \<and> snPBRSector p \<le> snStartSector p \<and>
      drives_from (snStartSector p + snNumSectors p) lim ps)"

lemma drives_from_bounds:
  "drives_from x lim ps \<Longrightarrow> x \<le> lim \<and> (\<forall>p \<in> set ps. x \<le> snPBRSector p \<and> snPBRSector p \<le> snStartSector p \<and>
     snStartSector p + snNumSectors p \<le> lim)"
proof (induction ps arbitrary: x)
  case (Cons p ps)
  then have h: "snPBRSector p \<noteq> 0" "x \<le> snPBRSector p" "snPBRSector p \<le> snStartSector p"
    "drives_from (snStartSector p + snNumSectors p) lim ps" by simp_all
  from Cons.IH [OF h(4)] h show ?case by fastforce
qed simp

definition drive_apart :: "nat \<Rightarrow> nat \<Rightarrow> PartState \<Rightarrow> bool" where
  "drive_apart x n p \<longleftrightarrow> apart x n (snPBRSector p) (snStartSector p + snNumSectors p - snPBRSector p)"

lemma drive_walk_primaries:
  assumes "\<forall>p \<in> set pre. snPBRSector p = 0" and "\<not> (\<exists>q. prev = Some q \<and> snPBRSector q \<noteq> 0)"
  shows "\<exists>prev'. \<not> (\<exists>q. prev' = Some q \<and> snPBRSector q \<noteq> 0) \<and>
    drive_walk cur (pre @ ps) nx prev = drive_walk cur ps nx prev'"
  using assms
proof (induction pre arbitrary: prev)
  case (Cons p pre)
  then have "drive_walk cur ((p # pre) @ ps) nx prev = drive_walk cur (pre @ ps) nx (Some p)" by auto
  with Cons.IH [of "Some p"] Cons.prems(1) show ?case by simp
next
  case Nil
  then show ?case by (intro exI [of _ prev]) simp
qed

lemma drive_walk_after:
  "\<forall>p \<in> set ps. snPBRSector p = 0 \<Longrightarrow> \<exists>q. drive_walk cur ps nx prev = Inr (nx, q)"
  by (induction ps arbitrary: prev) auto

lemma drive_walk_drives:
  assumes "drives_from nx lim ds" and "lim < 2 ^ 64" and "\<forall>p \<in> set post. snPBRSector p = 0"
  shows "(case drive_walk cur (ds @ post) nx prev of
      Inl (n, q) \<Rightarrow> nx \<le> n \<and> n + cur \<le> lim \<and> (\<forall>p \<in> set ds. drive_apart n cur p)
    | Inr (n, q) \<Rightarrow> nx \<le> n \<and> n \<le> lim \<and> (\<forall>p \<in> set ds. snStartSector p + snNumSectors p \<le> n))"
  using assms(1)
proof (induction ds arbitrary: nx prev)
  case Nil
  then show ?case using drive_walk_after [OF assms(3), of cur nx prev] by auto
next
  case (Cons p ds)
  then have p: "snPBRSector p \<noteq> 0" "nx \<le> snPBRSector p" "snPBRSector p \<le> snStartSector p"
    "drives_from (snStartSector p + snNumSectors p) lim ds" by simp_all
  note B = drives_from_bounds [OF p(4)]
  have pe: "snStartSector p + snNumSectors p \<le> lim" using B by simp
  have gap: "sub64 (snPBRSector p) nx = snPBRSector p - nx"
    using p(2,3) pe assms(2) by (intro sub64_eq) simp_all
  have nx': "add64 (snStartSector p) (snNumSectors p) = snStartSector p + snNumSectors p"
    using pe assms(2) by (simp add: add64_eq)
  show ?case
  proof (cases "cur \<le> snPBRSector p - nx")
    case True
    then have w: "drive_walk cur ((p # ds) @ post) nx prev = Inl (nx, prev)" using p(1) gap by simp
    have "nx + cur \<le> snPBRSector p" using True p(2) by linarith
    moreover from this have "\<forall>q \<in> set (p # ds). nx + cur \<le> snPBRSector q" using B p(3) by fastforce
    ultimately show ?thesis using p(3) pe unfolding w by (auto simp: drive_apart_def apart_def)
  next
    case False
    then have w: "drive_walk cur ((p # ds) @ post) nx prev = drive_walk cur (ds @ post) (snStartSector p + snNumSectors p) (Some p)"
      using p(1) gap nx' by simp
    have IH: "case drive_walk cur (ds @ post) (snStartSector p + snNumSectors p) (Some p) of
        Inl (n, q) \<Rightarrow> snStartSector p + snNumSectors p \<le> n \<and> n + cur \<le> lim \<and> (\<forall>p \<in> set ds. drive_apart n cur p)
      | Inr (n, q) \<Rightarrow> snStartSector p + snNumSectors p \<le> n \<and> n \<le> lim \<and> (\<forall>p \<in> set ds. snStartSector p + snNumSectors p \<le> n)"
      by (rule Cons.IH [OF p(4)])
    have "drive_apart n cur p" if "snStartSector p + snNumSectors p \<le> n" for n
      using that p(3) by (simp add: drive_apart_def apart_def)
    then show ?thesis unfolding w using IH p(2,3) by (auto split: sum.splits)
  qed
qed

definition drives_placed :: "DriverState \<Rightarrow> PartState list \<Rightarrow> bool" where
  "drives_placed s ds \<longleftrightarrow>
     (\<exists>pre post. pPartState s = pre @ ds @ post \<and> (\<forall>p \<in> set pre \<union> set post. snPBRSector p = 0)) \<and>
     drives_from (skip_sector1 s (snExtPartSector s)) (snExtPartEndSec s + 1) ds \<and> snExtPartEndSec s + 1 < 2 ^ 64"

lemma extended_place_free:
  assumes "drives_placed s ds" and "0 < cur" and "extended_place s cur (skip_sector1 s (snExtPartSector s)) = Some l"
  shows "bExtPart l \<and> curNumSectors l = cur \<and> skip_sector1 s (snExtPartSector s) \<le> snNextPartSector l \<and>
    snNextPartSector l + cur \<le> snExtPartEndSec s + 1 \<and> (\<forall>p \<in> set ds. drive_apart (snNextPartSector l) cur p)"
proof -
  let ?x = "skip_sector1 s (snExtPartSector s)" and ?lim = "snExtPartEndSec s + 1"
  obtain pre post where parts: "pPartState s = pre @ ds @ post" and
    pre: "\<forall>p \<in> set pre. snPBRSector p = 0" and post: "\<forall>p \<in> set post. snPBRSector p = 0"
    using assms(1) by (auto simp: drives_placed_def)
  have D: "drives_from ?x ?lim ds" "?lim < 2 ^ 64" using assms(1) by (simp_all add: drives_placed_def)
  obtain prev' where w: "drive_walk cur (pPartState s) ?x None = drive_walk cur (ds @ post) ?x prev'"
    using drive_walk_primaries [OF pre, of None cur "ds @ post" ?x] parts by auto
  note W = drive_walk_drives [OF D post, of cur prev']
  show ?thesis
  proof (cases "drive_walk cur (ds @ post) ?x prev'")
    case (Inl r)
    then obtain n q where r: "drive_walk cur (ds @ post) ?x prev' = Inl (n, q)" by (cases r) auto
    then show ?thesis using W assms(3) w by (auto simp: extended_place_def)
  next
    case (Inr r)
    then obtain n q where r: "drive_walk cur (ds @ post) ?x prev' = Inr (n, q)" by (cases r) auto
    then have n: "?x \<le> n" "n \<le> ?lim" "\<forall>p \<in> set ds. snStartSector p + snNumSectors p \<le> n" using W by simp_all
    have room: "add64 (sub64 (snExtPartEndSec s) n) 1 = ?lim - n"
    proof (cases "n = ?lim")
      case True
      then show ?thesis using D(2) by (simp add: sub64_def add64_def)
    next
      case False
      then have "sub64 (snExtPartEndSec s) n = snExtPartEndSec s - n" using n(2) D(2) by (intro sub64_eq) simp_all
      then show ?thesis using False n(2) D(2) by (simp add: add64_eq)
    qed
    have l: "\<not> ?lim - n < cur" "bExtPart l" "snNextPartSector l = n" "curNumSectors l = cur"
      using assms(3) w r by (auto simp: extended_place_def room [unfolded One_nat_def] split: if_splits)
    have "drive_apart n cur p" if "p \<in> set ds" for p
    proof -
      have "snPBRSector p \<le> snStartSector p" using drives_from_bounds [OF D(1)] that by blast
      moreover have "snStartSector p + snNumSectors p \<le> n" using n(3) that by blast
      ultimately show ?thesis by (simp add: drive_apart_def apart_def)
    qed
    then have "\<forall>p \<in> set ds. drive_apart n cur p" by blast
    then show ?thesis using l n assms(2) by auto
  qed
qed

section \<open>Both\<close>

lemma find_place_free:
  assumes "find_place env s num t = (Some l, s')" and "pPartState s \<noteq> []"
    and "snExtPartSector s \<noteq> 0 \<Longrightarrow> drives_placed s ds \<and> 0 < extended_size s num"
    and "entries_apart s" and "total_sectors s < 2 ^ 32" and "head_agrees s"
  shows "if bExtPart l
    then snExtPartSector s \<noteq> 0 \<and> snExtPartSector s \<le> snNextPartSector l \<and> snNextPartSector l + curNumSectors l \<le> snExtPartEndSec s + 1 \<and>
      (\<forall>p \<in> set ds. drive_apart (snNextPartSector l) (curNumSectors l) p)
    else free_place s l"
proof -
  let ?x = "skip_sector1 s (snExtPartSector s)"
  have x: "snExtPartSector s \<le> ?x" "?x \<noteq> 0 \<longleftrightarrow> snExtPartSector s \<noteq> 0" by (simp_all add: skip_sector1_def)
  show ?thesis
  proof (cases "?x \<noteq> 0 \<and> extended_place s (extended_size s num) ?x = Some l")
    case True
    then have e: "snExtPartSector s \<noteq> 0" using x(2) by simp
    then show ?thesis using extended_place_free [of s ds "extended_size s num" l] assms(3) [OF e] True x(1) by fastforce
  next
    case False
    obtain b s1 where rd: "ReadSectors env s 0 1 = (Some b, s1)" and pl: "table_place s1 b num ?x = Some l"
      using assms(1,2) False
      by (auto simp: find_place_def Let_def split: option.splits prod.splits if_splits)
    have b: "b = disk s 0" "s1 = s\<lparr>tick := tick s + 2\<rparr>" using ReadSectors_Some [OF rd] by simp_all
    have "entries_apart s1" "total_sectors s1 < 2 ^ 32" "head_agrees s1" "table_place s1 (disk s1 0) num ?x = Some l"
      using assms(4-6) pl by (auto simp: b entries_apart_def head_agrees_def Let_def split: if_splits)
    from table_place_free [OF this] show ?thesis by (simp add: b free_place_def)
  qed
qed

section \<open>The first partition\<close>

text \<open>On a store without partitions nothing is compared with the table: the size is cut to the rest of the disk before sector 1 is skipped.\<close>

lemma first_primary_end:
  assumes "max 2 (dwAlign s) \<le> total_sectors s" and "total_sectors s < 2 ^ 64" and "first_primary s num t = (x, n)"
  shows "x + n \<le> total_sectors s"
proof -
  have x: "x \<le> total_sectors s" using assms(1,3) by (auto simp: first_primary_def Let_def split: if_splits)
  moreover have "n \<le> sub64 (total_sectors s) x" using assms(3) by (auto simp: first_primary_def Let_def split: if_splits)
  moreover have "sub64 (total_sectors s) x = total_sectors s - x" using x assms(2) by (intro sub64_eq)
  ultimately show ?thesis by simp
qed

end
