(* ===== verification/Table_Contract.thy ===== *)
theory Table_Contract
  imports Storage_Prelude
begin

text \<open>
  What the partition functions of the driver rely on in the master boot record: a list of entries
  sorted by their start, into which a successful \<open>add\<close> inserts one entry and from which a
  successful \<open>del\<close> takes the entry of one start.  A client that deletes an entry and adds it
  again, as the formatting of a partition does, changes that entry and no other.
\<close>

locale partition_table =
  fixes entries :: "'s \<Rightarrow> 'e list"
    and key :: "'e \<Rightarrow> nat"
    and ok :: "'s \<Rightarrow> bool"
    and add :: "'s \<Rightarrow> nat \<Rightarrow> 'a \<Rightarrow> bool \<times> 's"
    and del :: "'s \<Rightarrow> nat \<Rightarrow> bool \<times> 's"
    and valid :: "nat \<Rightarrow> 'a \<Rightarrow> bool"
    and holds :: "'e \<Rightarrow> 'a \<Rightarrow> bool"
  assumes sorted_entries: "ok s \<Longrightarrow> sorted_wrt (<) (map key (entries s))"
    and add_entry: "ok s \<Longrightarrow> valid k a \<Longrightarrow> k \<notin> key ` set (entries s) \<Longrightarrow> add s k a = (True, s') \<Longrightarrow>
      ok s' \<and> (\<exists>e. key e = k \<and> holds e a \<and> entries s' = insert_at_key key e (entries s))"
    and del_entry: "ok s \<Longrightarrow> valid k a \<Longrightarrow> k \<in> key ` set (entries s) \<Longrightarrow> del s k = (True, s') \<Longrightarrow>
      ok s' \<and> entries s' = filter (\<lambda>e. key e \<noteq> k) (entries s)"
begin

definition replace_entry :: "'s \<Rightarrow> nat \<Rightarrow> 'a \<Rightarrow> bool \<times> 's" where
  "replace_entry s k a = (let (r, s) = del s k in if \<not> r then (False, s) else add s k a)"

lemma insert_filtered:
  "sorted_wrt (<) (map key es) \<Longrightarrow> k \<in> key ` set es \<Longrightarrow> key e = k \<Longrightarrow>
     insert_at_key key e (filter (\<lambda>x. key x \<noteq> k) es) = map (\<lambda>x. if key x = k then e else x) es"
proof (induction es)
  case (Cons x es)
  show ?case
  proof (cases "key x = k")
    case True
    then have above: "\<forall>y \<in> set es. k < key y" using Cons.prems by auto
    then have f: "filter (\<lambda>x. key x \<noteq> k) es = es" "map (\<lambda>x. if key x = k then e else x) es = es"
      by (auto simp: filter_id_conv intro!: map_idI)
    have "insert_at_key key e es = e # es" using above Cons.prems by (cases es) auto
    then show ?thesis using True f by simp
  next
    case False
    then have "k \<in> key ` set es" "key x < k" using Cons.prems by auto
    then show ?thesis using Cons False by simp
  qed
qed simp

lemma replace_keeps_others:
  assumes "ok s" and "valid k a" and "k \<in> key ` set (entries s)" and "replace_entry s k a = (True, s')"
  shows "ok s' \<and> (\<exists>e. key e = k \<and> holds e a \<and> entries s' = map (\<lambda>x. if key x = k then e else x) (entries s))"
proof -
  obtain s1 where del: "del s k = (True, s1)" and add: "add s1 k a = (True, s')"
    using assms(4) by (auto simp: replace_entry_def split: prod.splits if_splits)
  have s1: "ok s1" "entries s1 = filter (\<lambda>e. key e \<noteq> k) (entries s)"
    using del_entry [OF assms(1-3) del] by auto
  have "k \<notin> key ` set (entries s1)" using s1(2) by auto
  from add_entry [OF s1(1) assms(2) this add] obtain e where
    e: "ok s'" "key e = k" "holds e a" "entries s' = insert_at_key key e (entries s1)" by blast
  then show ?thesis
    using insert_filtered [OF sorted_entries [OF assms(1)] assms(3) e(2)] s1(2) by auto
qed

end

end
