(* ===== verification/Dos_Table.thy ===== *)
theory Dos_Table
  imports Dos_Mbr Table_Contract
begin

text \<open>
  The master boot record meets the contract of \<open>Table_Contract\<close>: \<open>WriteMBR\<close> is its \<open>add\<close> and
  \<open>DeleteMBR\<close> its \<open>del\<close>, for every environment.
\<close>

section \<open>The master boot record as a table\<close>

definition table_state_ok :: "DriverState \<Rightarrow> bool" where
  "table_state_ok s \<longleftrightarrow> disk_ok s \<and> mbr_ok s"

definition table_add :: "dos_env \<Rightarrow> DriverState \<Rightarrow> nat \<Rightarrow> nat \<times> BYTE \<Rightarrow> bool \<times> DriverState" where
  "table_add env s start a = WriteMBR env s start (fst a) (snd a) False"

text \<open>\<open>DeleteMBR\<close> looks at the start of the partition only.\<close>

definition start_part :: "nat \<Rightarrow> PartState" where
  "start_part start =
     \<lparr>addr = 0, cPartName = [], snStartSector = start, snNumSectors = 0, ftCreation = 0, ftModified = 0,
      dwAttributes = no_attributes, snPBRSector = 0, partType = 0\<rparr>"

lemma start_part_start: "snStartSector (start_part start) = start"
  by (simp add: start_part_def)

lemma DeleteMBR_start: "DeleteMBR env s p = DeleteMBR env s (start_part (snStartSector p))"
  unfolding DeleteMBR_def start_part_start ..

definition valid_entry :: "nat \<Rightarrow> nat \<times> BYTE \<Rightarrow> bool" where
  "valid_entry start a \<longleftrightarrow> 0 < start \<and> start < 2 ^ 32 \<and> 0 < fst a \<and> fst a < 2 ^ 32"

definition entry_holds :: "partentry \<Rightarrow> nat \<times> BYTE \<Rightarrow> bool" where
  "entry_holds e a \<longleftrightarrow> Part_TotalSectors e = fst a \<and> Part_FileSystem e = snd a"

interpretation mbr: partition_table mbr_used Part_StartSector table_state_ok
    "table_add env" "\<lambda>s start. DeleteMBR env s (start_part start)" valid_entry entry_holds
  for env
proof
  fix s
  show "table_state_ok s \<Longrightarrow> sorted_wrt (<) (map Part_StartSector (mbr_used s))"
    by (simp add: table_state_ok_def mbr_ok_def mbr_sorted_def)
next
  fix s k a s'
  assume ok: "table_state_ok s" "valid_entry k a" "k \<notin> Part_StartSector ` set (mbr_used s)"
    and w: "table_add env s k a = (True, s')"
  have pre: "disk_ok s" "mbr_ok s" "k < 2 ^ 32" "0 < fst a" "fst a < 2 ^ 32"
    using ok(1,2) by (simp_all add: table_state_ok_def valid_entry_def)
  have "WriteMBR env s k (fst a) (snd a) False = (True, s')" using w by (simp add: table_add_def)
  then show "table_state_ok s' \<and> (\<exists>e. Part_StartSector e = k \<and> entry_holds e a \<and>
      mbr_used s' = insert_at_key Part_StartSector e (mbr_used s))"
    by (rule WriteMBR_table [OF pre ok(3)])
      (use pre(1) in \<open>auto simp: table_state_ok_def entry_holds_def disk_ok_def mbr_changed_def\<close>)
next
  fix s k and a :: "nat \<times> BYTE" and s'
  assume ok: "table_state_ok s" "valid_entry k a" "k \<in> Part_StartSector ` set (mbr_used s)"
    and d: "DeleteMBR env s (start_part k) = (True, s')"
  have pre: "disk_ok s" "mbr_ok s" "snStartSector (start_part k) \<noteq> 0"
    "snStartSector (start_part k) \<in> Part_StartSector ` set (mbr_used s)"
    using ok by (simp_all add: table_state_ok_def valid_entry_def start_part_def)
  note D = DeleteMBR_table [OF pre d]
  show "table_state_ok s' \<and> mbr_used s' = filter (\<lambda>e. Part_StartSector e \<noteq> k) (mbr_used s)"
    using D(1,2,5) pre(1) by (auto simp: table_state_ok_def disk_ok_def start_part_def)
qed

end
