(* ===== verification/Dos_Runs.thy ===== *)
theory Dos_Runs
  imports Dos_Inv Dos_Chain Dos_Place Dos_Table
begin

text \<open>
  Operations succeed when no request is refused, and a small concrete store: a disk of 1000
  sectors with one primary partition and one logical drive, on which the theorems are applied.
\<close>

section \<open>Success\<close>

definition no_failures :: "dos_env \<Rightarrow> bool" where
  "no_failures env \<longleftrightarrow> (\<forall>n. \<not> e_refuse env n)"

lemma LocalAlloc_ok: "no_failures env \<Longrightarrow> LocalAlloc env s = (True, next_tick s)"
  by (simp add: LocalAlloc_def no_failures_def)

lemma ReadSectors_total: "no_failures env \<Longrightarrow> i < 2 ^ 32 \<Longrightarrow> ReadSectors env s i 1 = (Some (disk s i), s\<lparr>tick := tick s + 2\<rparr>)"
  by (rule ReadSectors_ok) (simp_all add: no_failures_def)

lemma WriteSectors_total: "no_failures env \<Longrightarrow> \<exists>s'. WriteSectors env s i n b = (True, s')"
  by (simp add: WriteSectors_def no_failures_def Let_def)

lemma WriteMBR_total:
  assumes "no_failures env" and "mbr_sorted s" and "length (mbr_used s) < 4"
  shows "\<exists>s'. WriteMBR env s sn num t False = (True, s')"
proof -
  obtain n k where "write_scan (disk s 0) sn 0 0 = (Some n, k)"
    using assms(2,3) by (simp add: mbr_sorted_def write_scan_eq Let_def)
  then show ?thesis
    using ReadSectors_total [OF assms(1), of 0 s] WriteSectors_total [OF assms(1)]
    by (auto simp: WriteMBR_def split: prod.splits)
qed

lemma DeleteMBR_total:
  assumes "no_failures env" and "mbr_ok s" and "snStartSector p \<noteq> 0"
    and "snStartSector p \<in> Part_StartSector ` set (mbr_used s)"
  shows "\<exists>s'. DeleteMBR env s p = (True, s')"
proof -
  obtain j where j: "j < length (mbr_used s)" "Part_StartSector (mbr_used s ! j) = snStartSector p"
    using assms(4) by (metis imageE in_set_conv_nth)
  have "dropWhile in_use (mbr_table s) = drop (length (mbr_used s)) (mbr_table s)"
    by (simp add: dropWhile_eq_drop used_entries_def)
  then have D: "\<forall>f \<in> set (dropWhile in_use (mbr_table s)). Part_StartSector f \<noteq> snStartSector p"
    using assms(2,3) by (simp add: mbr_ok_def)
  have scan: "delete_scan (disk s 0) (snStartSector p) 0 (- 1) = (int j, int (length (mbr_used s)) - 1)"
    using delete_scan_eq [of 0 "disk s 0" j "snStartSector p" "- 1"] assms(2) j D by (simp add: mbr_ok_def mbr_sorted_def)
  show ?thesis
    using ReadSectors_total [OF assms(1), of 0 s] WriteSectors_total [OF assms(1)] scan j(1)
    by (auto simp: DeleteMBR_def split: prod.splits)
qed

lemma CreatePBR_total:
  assumes "no_failures env" and "l < 2 ^ 32"
  shows "\<exists>s'. CreatePBR env s l 0 pbr num t = (True, s')"
proof -
  have w: "fst (WriteSectors env u i n b)" for u i n b using WriteSectors_total [OF assms(1), of u i n b] by auto
  have r: "ReadSectors env u l (Suc 0) = (Some (disk u l), u\<lparr>tick := tick u + 2\<rparr>)" for u
    using ReadSectors_total [OF assms, of u] by simp
  show ?thesis
    using w WriteSectors_total [OF assms(1)]
    by (auto simp: CreatePBR_def LocalAlloc_ok [OF assms(1)] r Let_def split: prod.splits) (metis fst_conv)+
qed

lemma DeletePBR_total:
  assumes "no_failures env" and "snPBRSector p < 2 ^ 32"
  shows "\<exists>s'. DeletePBR env s p None = (True, s')"
  using ReadSectors_total [OF assms, of s] WriteSectors_total [OF assms(1)] by (auto simp: DeletePBR_def)

lemma disk_write_sectors_outside:
  "i < start \<or> start + n \<le> i \<Longrightarrow> disk_write_sectors s start n b i = disk s i"
  by (auto simp: disk_write_sectors_def)

lemma init_loop_total:
  "no_failures env \<Longrightarrow> disk_ok s \<Longrightarrow> sn + n < 2 ^ 32 \<Longrightarrow>
   \<exists>t d. init_loop env n sn s = (True, s\<lparr>disk := d, tick := t\<rparr>) \<and> (\<forall>i. length (d i) = bytes_per_sect s) \<and>
     (\<forall>i. i < sn \<or> sn + n \<le> i \<longrightarrow> d i = disk s i)"
proof (induction n arbitrary: sn s)
  case 0
  then show ?case by (intro exI [of _ "tick s"] exI [of _ "disk s"]) (simp add: disk_ok_def)
next
  case (Suc n)
  let ?z = "replicate (bytes_per_sect s) (0 :: BYTE)"
  let ?t = "s\<lparr>disk := (disk s)(sn := ?z), tick := tick s + 1\<rparr>"
  have sn: "sn < 2 ^ 32" "add64 sn (Suc 0) = sn + 1" "sn + 1 + n < 2 ^ 32" using Suc.prems(3) by (simp_all add: add64_def)
  have "WriteSectors env s sn (Suc 0) ?z = (True, ?t)"
    using WriteSectors_eq [OF sn(1), of ?z s env] Suc.prems(1) by (simp add: no_failures_def)
  moreover have "disk_ok ?t" using Suc.prems(2) by (simp add: disk_ok_def)
  from Suc.IH [OF Suc.prems(1) this sn(3)] obtain t d where
    "init_loop env n (sn + 1) ?t = (True, ?t\<lparr>disk := d, tick := t\<rparr>)" "\<forall>i. length (d i) = bytes_per_sect s"
    "\<forall>i. i < sn + 1 \<or> sn + 1 + n \<le> i \<longrightarrow> d i = disk ?t i" by auto
  ultimately show ?case
    using sn(2) by (intro exI [of _ t] exI [of _ d]) auto
qed

lemma InitPartition_total:
  assumes "no_failures env" and "disk_ok s" and "snStartSector p + snNumSectors p < 2 ^ 32" and "0 < snNumSectors p"
  shows "\<exists>t d. InitPartition env s p = (True, s\<lparr>disk := d, tick := t\<rparr>) \<and> (\<forall>i. length (d i) = bytes_per_sect s) \<and>
    (\<forall>i. i < snStartSector p \<or> snStartSector p + snNumSectors p \<le> i \<longrightarrow> d i = disk s i)"
proof -
  define m where "m = sub32 (add32 4096 (bytes_per_sect s)) 1 div bytes_per_sect s"
  define n where "n = (if m > sub64 (snNumSectors p) 1 then sub64 (snNumSectors p) 1 else m)"
  have n: "n \<le> snNumSectors p" using assms(3,4) sub64_eq [of "snNumSectors p" 1] by (auto simp: n_def)
  have "InitPartition env s p = init_loop env n (snStartSector p) (next_tick s)"
    using assms(1) by (simp add: InitPartition_def LocalAlloc_ok Let_def n_def m_def next_tick_simps)
  moreover have "disk_ok (next_tick s)" using assms(2) by (simp add: disk_ok_def next_tick_def)
  from init_loop_total [OF assms(1) this, of "snStartSector p" n] n assms(3) obtain t d where
    "init_loop env n (snStartSector p) (next_tick s) = (True, (next_tick s)\<lparr>disk := d, tick := t\<rparr>)"
    "\<forall>i. length (d i) = bytes_per_sect s" "\<forall>i. i < snStartSector p \<or> snStartSector p + n \<le> i \<longrightarrow> d i = disk s i"
    by (auto simp: next_tick_def)
  ultimately show ?thesis using n by (intro exI [of _ t] exI [of _ d]) (auto simp: next_tick_def)
qed

section \<open>A concrete disk\<close>

definition ok_env :: dos_env where
  "ok_env =
     \<lparr>e_refuse = (\<lambda>_. False), e_error = (\<lambda>_. None), e_moved = (\<lambda>_. 0), e_geometry = empty_geometry,
      e_formatted = (\<lambda>_ b. b), e_deleted = (\<lambda>_ b. b), e_registry_root = (\<lambda>_. None),
      e_registry_storage = (\<lambda>_. None), e_ansi = (\<lambda>x. char_of (unat x))\<rparr>"

lemma ok_env_ok: "no_failures ok_env"
  by (simp add: no_failures_def ok_env_def)

definition small_geometry :: DISK_INFO where
  "small_geometry = empty_geometry\<lparr>di_total_sectors := 1000, di_bytes_per_sect := 512, di_cylinders := 1,
     di_heads := 1, di_sectors := 1000\<rparr>"

definition mk_entry :: "nat \<Rightarrow> nat \<Rightarrow> BYTE \<Rightarrow> partentry" where
  "mk_entry start n t = zero_entry\<lparr>Part_FileSystem := t, Part_StartSector := start, Part_TotalSectors := n\<rparr>"

definition mk_sector :: "partentry \<Rightarrow> partentry \<Rightarrow> BYTE list" where
  "mk_sector e f = put_entry (put_entry (set_signature (replicate 512 0)) 0 e) 1 f"

lemma mk_entry_fields [simp]:
  "Part_StartSector (mk_entry a n t) = a" "Part_TotalSectors (mk_entry a n t) = n" "Part_FileSystem (mk_entry a n t) = t"
  "Part_BootInd (mk_entry a n t) = 0" "Part_FirstTrack (mk_entry a n t) = 0"
  by (simp_all add: mk_entry_def) (simp add: zero_entry_def bytes_entry_def)

lemma mk_sector_facts:
  assumes "entry_ok e" and "entry_ok f"
  shows "length (mk_sector e f) = 512" "signature (mk_sector e f) = BOOTSECTRAILSIGH"
    "table_of (mk_sector e f) = [e, f, zero_entry, zero_entry]"
    "get_entry (mk_sector e f) 0 = e" "get_entry (mk_sector e f) (Suc 0) = f"
proof -
  let ?b = "set_signature (replicate 512 (0 :: BYTE))"
  note B = blank_sector [of 512, simplified]
  note P = put_entry_spec [of ?b 0] and Q = put_entry_spec [of "put_entry ?b 0 e" 1]
  show "length (mk_sector e f) = 512" "signature (mk_sector e f) = BOOTSECTRAILSIGH"
    using B P Q by (simp_all add: mk_sector_def)
  show t: "table_of (mk_sector e f) = [e, f, zero_entry, zero_entry]"
    using B P Q assms by (simp add: mk_sector_def numeral_eq_Suc)
  show "get_entry (mk_sector e f) 0 = e" "get_entry (mk_sector e f) (Suc 0) = f"
    using t table_nth [of 0 "mk_sector e f"] table_nth [of 1 "mk_sector e f"] by simp_all
qed

definition mk_store :: "(nat \<Rightarrow> BYTE list) \<Rightarrow> DriverState" where
  "mk_store d = (new_driver d 0 0 0)\<lparr>diskInfo := small_geometry, bFormatState := True\<rparr>"

text \<open>The master boot record: a primary partition in the sectors 1 to 99, an extended one in 100 to 499.\<close>

definition small_disk :: "nat \<Rightarrow> BYTE list" where
  "small_disk i =
     (if i = 0 then mk_sector (mk_entry 1 99 PART_DOS4_FAT) (mk_entry 100 400 PART_EXTENDED)
      else if i = 100 then mk_sector (mk_entry 1 49 PART_DOS4_FAT) zero_entry
      else replicate 512 0)"

definition small_store :: DriverState where
  "small_store = (mk_store small_disk)\<lparr>snExtPartSector := 100, snExtPartEndSec := 499\<rparr>"

lemma entry_ok_mk: "a < 2 ^ 32 \<Longrightarrow> n < 2 ^ 32 \<Longrightarrow> entry_ok (mk_entry a n t)" and entry_ok_zero: "entry_ok zero_entry"
  by (simp_all add: entry_ok_def)

lemma mk_store_fields [simp]:
  "disk (mk_store d) = d" "heads (mk_store d) = 1" "sectors (mk_store d) = 1000" "total_sectors (mk_store d) = 1000"
  "bytes_per_sect (mk_store d) = 512" "pPartState (mk_store d) = []" "tick (mk_store d) = 0" "bFormatState (mk_store d)"
  "snExtPartSector (mk_store d) = 0" "dwFlags (mk_store d) = no_flags" "dwNumParts (mk_store d) = 0" "next_addr (mk_store d) = 0"
  by (simp_all add: mk_store_def new_driver_def small_geometry_def)

lemma small_sector_facts:
  "table_of (small_disk 0) = [mk_entry 1 99 PART_DOS4_FAT, mk_entry 100 400 PART_EXTENDED, zero_entry, zero_entry]"
  "signature (small_disk 0) = BOOTSECTRAILSIGH" "signature (small_disk 100) = BOOTSECTRAILSIGH"
  "get_entry (small_disk 100) 0 = mk_entry 1 49 PART_DOS4_FAT" "get_entry (small_disk 100) (Suc 0) = zero_entry"
  "length (small_disk i) = 512"
proof -
  note A = mk_sector_facts [OF entry_ok_mk entry_ok_mk, of 1 99 100 400 PART_DOS4_FAT PART_EXTENDED, simplified]
  note B = mk_sector_facts [OF entry_ok_mk entry_ok_zero, of 1 49 PART_DOS4_FAT, simplified]
  show "table_of (small_disk 0) = [mk_entry 1 99 PART_DOS4_FAT, mk_entry 100 400 PART_EXTENDED, zero_entry, zero_entry]"
    "signature (small_disk 0) = BOOTSECTRAILSIGH" "signature (small_disk 100) = BOOTSECTRAILSIGH"
    "get_entry (small_disk 100) 0 = mk_entry 1 49 PART_DOS4_FAT" "get_entry (small_disk 100) (Suc 0) = zero_entry"
    "length (small_disk i) = 512"
    using A B by (simp_all add: small_disk_def)
qed

lemma small_store_ok: "disk_ok small_store" "mbr_ok small_store"
  "mbr_used small_store = [mk_entry 1 99 PART_DOS4_FAT, mk_entry 100 400 PART_EXTENDED]"
proof -
  show "disk_ok small_store" by (simp add: disk_ok_def small_store_def small_sector_facts)
  show U: "mbr_used small_store = [mk_entry 1 99 PART_DOS4_FAT, mk_entry 100 400 PART_EXTENDED]"
    by (simp add: used_entries_def small_store_def small_sector_facts)
  show "mbr_ok small_store"
    unfolding mbr_ok_def mbr_sorted_def U by (simp add: small_store_def small_sector_facts)
qed

lemma not_extended: "\<not> is_extended (mk_entry a n PART_DOS4_FAT)" "is_extended (mk_entry a n PART_EXTENDED)"
  by (simp_all add: is_extended_def PART_DOS4_FAT_def PART_EXTENDED_def PART_DOSX13X_def)

lemma small_store_chain: "ebr_chain small_store [100]"
  by (simp add: small_store_def drive_ok_def small_sector_facts on_disk_def not_extended)

text \<open>The same store with its list of partitions, a disk whose boot records form a cycle, and a disk that refuses everything.\<close>

definition cycle_disk :: "nat \<Rightarrow> BYTE list" where
  "cycle_disk i =
     (if i = 0 then mk_sector (mk_entry 100 400 PART_EXTENDED) zero_entry
      else if i = 100 \<or> i = 200 then mk_sector (mk_entry 1 49 PART_DOS4_FAT) (mk_entry 100 50 PART_EXTENDED)
      else replicate 512 0)"

lemma cycle_disk_facts:
  "signature (cycle_disk 0) = BOOTSECTRAILSIGH" "get_entry (cycle_disk 0) 0 = mk_entry 100 400 PART_EXTENDED"
  "table_of (cycle_disk 0) = [mk_entry 100 400 PART_EXTENDED, zero_entry, zero_entry, zero_entry]"
  "i = 100 \<or> i = 200 \<Longrightarrow> signature (cycle_disk i) = BOOTSECTRAILSIGH"
  "i = 100 \<or> i = 200 \<Longrightarrow> get_entry (cycle_disk i) 0 = mk_entry 1 49 PART_DOS4_FAT"
  "i = 100 \<or> i = 200 \<Longrightarrow> get_entry (cycle_disk i) 1 = mk_entry 100 50 PART_EXTENDED"
proof -
  note A = mk_sector_facts [OF entry_ok_mk entry_ok_zero, of 100 400 PART_EXTENDED, simplified]
  note B = mk_sector_facts [OF entry_ok_mk entry_ok_mk, of 1 49 100 50 PART_DOS4_FAT PART_EXTENDED, simplified]
  show "signature (cycle_disk 0) = BOOTSECTRAILSIGH" "get_entry (cycle_disk 0) 0 = mk_entry 100 400 PART_EXTENDED"
    "table_of (cycle_disk 0) = [mk_entry 100 400 PART_EXTENDED, zero_entry, zero_entry, zero_entry]"
    using A by (simp_all add: cycle_disk_def)
  show "i = 100 \<or> i = 200 \<Longrightarrow> signature (cycle_disk i) = BOOTSECTRAILSIGH"
    "i = 100 \<or> i = 200 \<Longrightarrow> get_entry (cycle_disk i) 0 = mk_entry 1 49 PART_DOS4_FAT"
    "i = 100 \<or> i = 200 \<Longrightarrow> get_entry (cycle_disk i) 1 = mk_entry 100 50 PART_EXTENDED"
    using B by (auto simp: cycle_disk_def)
qed

lemma small_boot_sector: "\<not> IS_VALID_BOOTSEC (small_disk 0)"
proof -
  have "mk_sector e f ! 0 = 0" for e f
    by (simp add: mk_sector_def put_entry_def set_signature_def overwrite_def nth_append PARTTABLE_OFFSET_def BOOT_SIGNATURE_def)
  then show ?thesis by (simp add: IS_VALID_BOOTSEC_def small_disk_def)
qed

definition two_parts :: "DriverState" where
  "two_parts = small_store\<lparr>next_addr := 2, pPartState :=
     [(start_part 1)\<lparr>cPartName := ''Part00'', snNumSectors := 99\<rparr>,
      (start_part 101)\<lparr>addr := 1, cPartName := ''Part01'', snNumSectors := 49, snPBRSector := 100\<rparr>]\<rparr>"

lemma two_parts_fields [simp]:
  "pPartState two_parts = [(start_part 1)\<lparr>cPartName := ''Part00'', snNumSectors := 99\<rparr>,
      (start_part 101)\<lparr>addr := 1, cPartName := ''Part01'', snNumSectors := 49, snPBRSector := 100\<rparr>]"
  "disk two_parts = small_disk" "diskInfo two_parts = small_geometry" "snExtPartSector two_parts = 100"
  "snExtPartEndSec two_parts = 499" "dwFlags two_parts = no_flags" "next_addr two_parts = 2"
  by (simp_all add: two_parts_def small_store_def) (simp_all add: mk_store_def)

lemma start_part_fields [simp]:
  "snStartSector (start_part n) = n" "addr (start_part n) = 0" "cPartName (start_part n) = []"
  "snNumSectors (start_part n) = 0" "snPBRSector (start_part n) = 0" "partType (start_part n) = 0"
  "dwAttributes (start_part n) = no_attributes"
  by (simp_all add: start_part_def)

lemma same_names: "wcsicmp_equal ''PART00'' ''Part00''" "\<not> wcsicmp_equal ''Part01'' ''Part00''"
  "\<not> wcsicmp_equal ''Data'' ''Part00''" "\<not> wcsicmp_equal ''Data'' ''Part01''" "wcsicmp_equal x x"
  "\<not> wcsicmp_equal ''Part00'' ''Part01''"
  by (code_simp | simp add: wcsicmp_equal_def)+

definition refusing_env :: dos_env where
  "refusing_env = ok_env\<lparr>e_refuse := (\<lambda>_. True)\<rparr>"

end
