(* ===== verification/Dos_Theorems.thy ===== *)
theory Dos_Theorems
  imports Dos_Runs
begin

text \<open>
  The properties of the DOS partition driver, each with a witness on the store \<open>small_store\<close> of
  \<open>Dos_Runs\<close> or on a variant of it.
\<close>

section \<open>The master boot record\<close>

text \<open>C20. A successful \<open>WriteMBR\<close> inserts the new entry at its place among the used entries, which stay
  in ascending order without holes; the bytes around the table and all other sectors keep their
  contents.  A full table is refused and nothing is written.\<close>
theorem WriteMBR_inserts:
  assumes "disk_ok s" and "mbr_ok s" and "sn < 2 ^ 32" and "0 < num" and "num < 2 ^ 32"
    and "sn \<notin> Part_StartSector ` set (mbr_used s)" and "WriteMBR env s sn num ty False = (r, s')"
  shows "(r \<longrightarrow> mbr_ok s' \<and> rest_of (disk s' 0) = rest_of (disk s 0) \<and> (\<forall>i. i \<noteq> 0 \<longrightarrow> disk s' i = disk s i) \<and>
      (\<exists>e. Part_StartSector e = sn \<and> Part_TotalSectors e = num \<and> Part_FileSystem e = ty \<and>
           mbr_used s' = insert_at_key Part_StartSector e (mbr_used s))) \<and>
    (length (mbr_used s) = 4 \<longrightarrow> \<not> r \<and> disk s' = disk s)"
proof (intro conjI impI)
  assume r
  then have ok: "WriteMBR env s sn num ty False = (True, s')" using assms(7) by simp
  obtain e where e: "Part_StartSector e = sn" "Part_TotalSectors e = num" "Part_FileSystem e = ty"
    "mbr_used s' = insert_at_key Part_StartSector e (mbr_used s)" and M: "mbr_ok s'"
    and ch: "mbr_changed s (insert_at_key Part_StartSector e (mbr_used s) @ drop (length (mbr_used s) + 1) (mbr_table s)) s'"
    by (rule WriteMBR_table [OF assms(1-6) ok])
  show "mbr_ok s'" by (rule M)
  show "rest_of (disk s' 0) = rest_of (disk s 0)" "\<forall>i. i \<noteq> 0 \<longrightarrow> disk s' i = disk s i"
    using ch by (auto simp: mbr_changed_def)
  show "\<exists>e. Part_StartSector e = sn \<and> Part_TotalSectors e = num \<and> Part_FileSystem e = ty \<and>
      mbr_used s' = insert_at_key Part_StartSector e (mbr_used s)"
    using e by blast
next
  assume full: "length (mbr_used s) = 4"
  then show "\<not> r" "disk s' = disk s"
    using WriteMBR_full [OF assms(1) _ full assms(7)] assms(2) by (simp_all add: mbr_ok_def)
qed

theorem WriteMBR_inserts_witness:
  "\<exists>s'. WriteMBR ok_env small_store 500 100 PART_DOS4_FAT False = (True, s') \<and> mbr_ok s' \<and>
     map Part_StartSector (mbr_used s') = [1, 100, 500] \<and> disk s' 100 = small_disk 100"
proof -
  obtain s' where w: "WriteMBR ok_env small_store 500 100 PART_DOS4_FAT False = (True, s')"
    using WriteMBR_total [OF ok_env_ok] small_store_ok(2,3) by (fastforce simp: mbr_ok_def)
  have "disk small_store = small_disk" by (simp add: small_store_def)
  then show ?thesis
    using WriteMBR_inserts [OF small_store_ok(1,2) _ _ _ _ w] w small_store_ok(3) by auto
qed

text \<open>C21. A partition entered by \<open>WriteMBR\<close> and removed by \<open>DeleteMBR\<close> leaves every sector of the disk as
  it was, when the free entries of the table were zero.\<close>
theorem WriteMBR_DeleteMBR:
  assumes "disk_ok s" and "mbr_ok s" and "sn < 2 ^ 32" and "0 < num" and "num < 2 ^ 32" and "sn \<noteq> 0"
    and "sn \<notin> Part_StartSector ` set (mbr_used s)"
    and "\<forall>e \<in> set (drop (length (mbr_used s)) (mbr_table s)). e = zero_entry"
    and "WriteMBR env s sn num ty False = (True, s1)"
    and "snStartSector p = sn" and "DeleteMBR env' s1 p = (True, s2)"
  shows "disk s2 = disk s"
proof -
  let ?U = "mbr_used s" and ?T = "mbr_table s"
  obtain e where e: "Part_StartSector e = sn" "mbr_used s1 = insert_at_key Part_StartSector e ?U" "mbr_ok s1"
    "mbr_changed s (insert_at_key Part_StartSector e ?U @ drop (length ?U + 1) ?T) s1"
    by (rule WriteMBR_table [OF assms(1-5,7,9)]) blast
  let ?I = "insert_at_key Part_StartSector e ?U"
  obtain j where j: "j < length ?I" "?I ! j = e" "take j ?I @ drop (Suc j) ?I = ?U"
    by (rule insert_then_remove [of Part_StartSector e ?U]) (use e(1) assms(7) in auto)
  have lenI: "length ?I = length ?U + 1" by (metis mset_insert_at_key size_add_mset size_mset Suc_eq_plus1)
  have T1: "mbr_table s1 = ?I @ drop (length ?U + 1) ?T" by (rule mbr_changed_table [OF e(4)])
  have rest: "\<forall>f \<in> set (drop (length ?U + 1) ?T). f = zero_entry"
    using assms(8) set_drop_Suc [of _ "length ?U" ?T] by auto
  have "dropWhile in_use (mbr_table s1) = drop (length ?I) (mbr_table s1)"
    using e(2) by (metis dropWhile_eq_drop used_entries_def)
  then have D: "\<forall>f \<in> set (dropWhile in_use (mbr_table s1)). Part_StartSector f \<noteq> snStartSector p"
    using rest assms(6,10) by (auto simp: T1 dest!: bspec)
  have ok1: "disk_ok s1" using assms(1) e(4) by (auto simp: disk_ok_def mbr_changed_def)
  have n4: "length ?U < 4" by (rule WriteMBR_spec(1) [OF assms(1) _ assms(9)]) (use assms(2) in \<open>simp add: mbr_ok_def\<close>)
  have "mbr_changed s1 (take j (mbr_used s1) @ drop (Suc j) (mbr_used s1) @ zero_entry # drop (length (mbr_used s1)) (mbr_table s1)) s2"
    by (rule DeleteMBR_spec [OF ok1 _ _ _ D assms(11)]) (use e j assms(10) in \<open>auto simp: mbr_ok_def\<close>)
  then have ch2: "mbr_changed s1 (?U @ zero_entry # drop (length ?U + 1) ?T) s2"
    unfolding e(2) using j(3) by (simp add: T1 lenI flip: append_assoc)
  have "?T = ?U @ drop (length ?U) ?T"
    by (metis append_take_drop_id used_prefix)
  also have "drop (length ?U) ?T = zero_entry # drop (length ?U + 1) ?T"
    using n4 assms(8) by (simp add: Cons_nth_drop_Suc [symmetric])
  finally have "mbr_changed s1 ?T s2" using ch2 by simp
  then have "table_of (disk s2 0) = table_of (disk s 0)" "rest_of (disk s2 0) = rest_of (disk s 0)"
    "length (disk s2 0) = length (disk s 0)" "\<forall>i. i \<noteq> 0 \<longrightarrow> disk s2 i = disk s i"
    using e(4) by (auto simp: mbr_changed_def)
  then have "disk s2 0 = disk s 0" "\<forall>i. i \<noteq> 0 \<longrightarrow> disk s2 i = disk s i"
    using sector_eqI [of "disk s2 0" "disk s 0"] assms(1) by (auto simp: disk_ok_def)
  then show ?thesis by (metis ext)
qed

theorem WriteMBR_DeleteMBR_witness:
  "\<exists>s1 s2. WriteMBR ok_env small_store 500 100 PART_DOS4_FAT False = (True, s1) \<and>
     DeleteMBR ok_env s1 (start_part 500) = (True, s2) \<and> disk s2 = small_disk"
proof -
  obtain s1 where w: "WriteMBR ok_env small_store 500 100 PART_DOS4_FAT False = (True, s1)"
    using WriteMBR_total [OF ok_env_ok] small_store_ok(2,3) by (fastforce simp: mbr_ok_def)
  have new: "500 \<notin> Part_StartSector ` set (mbr_used small_store)" by (simp add: small_store_ok(3))
  obtain e where e: "Part_StartSector e = 500" "mbr_used s1 = insert_at_key Part_StartSector e (mbr_used small_store)" "mbr_ok s1"
    by (rule WriteMBR_table [OF small_store_ok(1,2) _ _ _ new w]) simp_all
  then obtain s2 where d: "DeleteMBR ok_env s1 (start_part 500) = (True, s2)"
    using DeleteMBR_total [OF ok_env_ok e(3), of "start_part 500"] by (auto simp: start_part_start)
  have "disk s2 = disk small_store"
    by (rule WriteMBR_DeleteMBR [OF small_store_ok(1,2) _ _ _ _ new _ w _ d])
      (simp_all add: start_part_start small_store_ok(3), simp_all add: small_store_def small_sector_facts)
  then show ?thesis using w d by (auto simp: small_store_def)
qed

section \<open>Reading the tables\<close>

text \<open>C18. Opening a disk lists exactly what its tables describe, in their order: every used primary
  entry, and in place of an extended entry the drives of its chain of boot records, with their starts
  moved by the sector of their record; nothing else of the store changes.\<close>
theorem GetDOSPartitions_reads:
  assumes "table_error (disk s 0) False = None" and "readable s ps (mbr_table s)"
    and "total_sectors s < 2 ^ 32" and "no_failures env"
  shows "\<exists>st s'. GetDOSPartitions env (disk s 0) False 0 s = Some (ERROR_SUCCESS, st, s') \<and>
    views s' = views s @ listed s ps (mbr_table s) \<and> same_store s s'"
  using mbr_loop [of 0 "disk s 0" "mbr_table s" s ps env] assms
  by (auto simp: GetDOSPartitions_def no_failures_def)

lemma small_disk_readable:
  "table_error (disk (mk_store small_disk) 0) False = None" "readable (mk_store small_disk) [100] (mbr_table (mk_store small_disk))"
proof -
  let ?s = "mk_store small_disk"
  show "table_error (disk ?s 0) False = None"
    by (simp add: table_error_def part_count_def small_sector_facts)
  have "same_tables small_store (?s\<lparr>snExtPartSector := 100\<rparr>)" by (simp add: same_tables_def small_store_def)
  then have "ebr_chain (?s\<lparr>snExtPartSector := 100\<rparr>) [100]" using small_store_chain ebr_chain_cong by blast
  then have "chain_at ?s 100 [100]" by (simp add: chain_at_def)
  then show "readable ?s [100] (mbr_table ?s)"
    by (simp add: readable_def small_sector_facts used_extended_def not_extended on_disk_def)
qed

theorem GetDOSPartitions_reads_witness:
  "\<exists>st s'. GetDOSPartitions ok_env (small_disk 0) False 0 (mk_store small_disk) = Some (ERROR_SUCCESS, st, s') \<and>
     map (\<lambda>p. (snStartSector p, snNumSectors p, snPBRSector p)) (pPartState s') = [(1, 99, 0), (101, 49, 100)]"
proof -
  let ?s = "mk_store small_disk"
  obtain st s' where r: "GetDOSPartitions ok_env (disk ?s 0) False 0 ?s = Some (ERROR_SUCCESS, st, s')"
    "views s' = views ?s @ listed ?s [100] (mbr_table ?s)"
    using GetDOSPartitions_reads [OF small_disk_readable _ ok_env_ok] by fastforce
  have "views s' = [entry_view 0 (mk_entry 1 99 PART_DOS4_FAT), entry_view 100 (mk_entry 1 49 PART_DOS4_FAT)]"
    using r(2) by (simp add: views_def listed_def small_sector_facts not_extended drive_view_def)
  then have "map (\<lambda>v. (fst v, fst (snd v), fst (snd (snd v)))) (views s') = [(1, 99, 0), (101, 49, 100)]"
    by (simp add: entry_view_def)
  then have "map (\<lambda>p. (snStartSector p, snNumSectors p, snPBRSector p)) (pPartState s') = [(1, 99, 0), (101, 49, 100)]"
    by (simp add: views_def part_view_def comp_def)
  then show ?thesis using r(1) by auto
qed

text \<open>C19. A drive that \<open>CreatePBR\<close> appends to the chain of boot records is read back: reading the chain
  gives the drives it had, unchanged and in order, and then the new one with the place, size and type
  it was created with.\<close>
theorem CreatePBR_reads_back:
  assumes "disk_ok s" and "1 \<le> heads s" and "1 \<le> sectors s" and "total_sectors s < 2 ^ 32" and "sectors s < 2 ^ 32"
    and "ebr_chain s (ps @ [l])" and "fresh_record s ps l pbr num t" and "CreatePBR env s l 0 pbr num t = (True, s')"
    and "p = hd (ps @ [l])" and "no_failures env'"
  shows "\<exists>st s''. GetDOSPartitions env' (disk s' p) True p s' = Some (ERROR_SUCCESS, st, s'') \<and>
    views s'' = views s @ map (drive_view s) (ps @ [l]) @ [(pbr + pbr_gap s, num - pbr_gap s, pbr, t, no_attributes)]"
proof -
  note X = CreatePBR_extends_chain [OF assms(1-8)]
  obtain qs where qs: "ps @ [l, pbr] = p # qs" using assms(9) by (cases ps) auto
  have c: "ebr_chain s' (p # qs)" using X(1) qs by simp
  have small: "ebr_chain s' rs \<Longrightarrow> \<forall>q \<in> set rs. q < 2 ^ 32" for rs
    by (induction rs rule: induct_list012) (auto simp: drive_ok_def)
  have "total_sectors s' < 2 ^ 32" using assms(4) CreatePBR_io [OF assms(8)] by (simp add: only_io_fields)
  then obtain s'' st where r: "dos_loop env' (disk s' p) True 0 p s' = Some (ERROR_SUCCESS, st, s'')"
    "views s'' = views s' @ map (drive_view s') (p # qs)"
    using chain_reads [OF c, of env'] small [OF c] assms(10) by (auto simp: no_failures_def)
  then have "GetDOSPartitions env' (disk s' p) True p s' = Some (ERROR_SUCCESS, st, s'')"
    by (simp add: GetDOSPartitions_def chain_table_error [OF c])
  then show ?thesis using r(2) X(2,3) qs by auto
qed

theorem CreatePBR_reads_back_witness:
  "\<exists>s' st s''. CreatePBR ok_env small_store 100 0 150 50 PART_DOS4_FAT = (True, s') \<and>
     GetDOSPartitions ok_env (disk s' 100) True 100 s' = Some (ERROR_SUCCESS, st, s'') \<and>
     map fst (views s'') = [101, 151]"
proof -
  obtain s' where c: "CreatePBR ok_env small_store 100 0 150 50 PART_DOS4_FAT = (True, s')"
    using CreatePBR_total [OF ok_env_ok, of 100] by fastforce
  have F: "fresh_record small_store [] 100 150 50 PART_DOS4_FAT"
    by (simp add: fresh_record_def small_store_def small_sector_facts pbr_gap_def PART_DOS4_FAT_def PART_EXTENDED_def PART_DOSX13X_def)
  have "ebr_chain small_store ([] @ [100])" using small_store_chain by simp
  from CreatePBR_reads_back [OF small_store_ok(1) _ _ _ _ this F c _ ok_env_ok, of 100]
  obtain st s'' where r: "GetDOSPartitions ok_env (disk s' 100) True 100 s' = Some (ERROR_SUCCESS, st, s'')"
    "views s'' = views small_store @ map (drive_view small_store) ([] @ [100]) @ [(150 + pbr_gap small_store, 50 - pbr_gap small_store, 150, PART_DOS4_FAT, no_attributes)]"
    by (auto simp: small_store_def)
  have "map fst (views s'') = [101, 151]"
    unfolding r(2) by (simp add: views_def drive_view_def entry_view_def small_store_def small_sector_facts pbr_gap_def)
  then show ?thesis using c r(1) by (intro exI conjI)
qed

text \<open>C25. Boot records that link to one another in a cycle are followed for ever: \<open>GetDOSPartitions\<close> does not
  return on any record of the cycle, nor on a master boot record whose first entry leads into it.\<close>
theorem cyclic_chain_diverges:
  assumes "closed_chain (s\<lparr>snExtPartSector := x\<rparr>) C" and "total_sectors s < 2 ^ 32" and "no_failures env"
    and "x \<in> C" and "used_extended (get_entry (disk s 0) 0)" and "Part_StartSector (get_entry (disk s 0) 0) = x"
    and "on_disk (total_sectors s) (get_entry (disk s 0) 0)" and "table_error (disk s 0) False = None" and "snExtPartSector s = 0"
  shows "GetDOSPartitions env (disk s 0) False 0 s = None \<and>
    (\<forall>p \<in> C. \<forall>st. GetDOSPartitions env (disk s p) True st (s\<lparr>snExtPartSector := x\<rparr>) = None)"
proof
  let ?t = "s\<lparr>snExtPartSector := x\<rparr>"
  have env: "\<forall>n. \<not> e_refuse env n" using assms(3) by (simp add: no_failures_def)
  have te: "table_error (disk s p) True = None" if p: "p \<in> C" for p
  proof -
    obtain q where "drive_ok ?t p" "link_ok ?t p q" using assms(1) p by (auto simp: closed_chain_def)
    then show ?thesis using link_table_error [of ?t p q] by simp
  qed
  show "\<forall>p \<in> C. \<forall>st. GetDOSPartitions env (disk s p) True st ?t = None"
    using closed_chain_diverges [OF assms(1) _ env _, of _ ?t 0] assms(2) te
    by (simp add: GetDOSPartitions_def same_tables_def)
  let ?e = "get_entry (disk s 0) 0"
  let ?s1 = "s\<lparr>tick := tick s + 2, snExtPartSector := x, snExtPartEndSec := sub32 (add32 x (Part_TotalSectors ?e)) 1\<rparr>"
  have x: "x < 2 ^ 32" "x = add64 (snExtPartSector s) (Part_StartSector ?e)"
    using assms(2,6,7,9) by (simp_all add: on_disk_def add64_eq)
  have "dos_loop env (disk s 0) False 0 0 s = Option.bind (dos_loop env (disk s x) True 0 x ?s1)
      (\<lambda>(dwError, startSec, s'). if dwError \<noteq> ERROR_SUCCESS then Some (dwError, startSec, s')
         else dos_loop env (disk s 0) False (0 + 1) (if \<not> False then 0 else startSec) s')"
  proof (rule dos_loop_extended)
    show "on_disk (total_sectors s) ?e" "total_sectors s < 2 ^ 32" "x = add64 (snExtPartSector s) (Part_StartSector ?e)"
      "x < 2 ^ 32" "table_error (disk s x) True = None"
      using assms(2,7) x te [OF assms(4)] by simp_all
  qed (use assms(5,6) env in \<open>simp_all add: part_count_def used_extended_def enter_extended_def\<close>)
  moreover have "dos_loop env (disk s x) True 0 x ?s1 = None"
    using closed_chain_diverges [OF assms(1) _ env assms(4), of ?s1 0 x] assms(2) by (simp add: same_tables_def)
  ultimately show "GetDOSPartitions env (disk s 0) False 0 s = None"
    using assms(8) by (simp add: GetDOSPartitions_def)
qed

theorem cyclic_chain_diverges_witness:
  "GetDOSPartitions ok_env (cycle_disk 0) False 0 (mk_store cycle_disk) = None"
proof -
  let ?s = "mk_store cycle_disk"
  note F = cycle_disk_facts
  have d: "drive_ok (?s\<lparr>snExtPartSector := 100\<rparr>) p" if "p = 100 \<or> p = 200" for p
    using F(4,5) [OF that] that by (auto simp: drive_ok_def on_disk_def not_extended)
  have l: "link_ok (?s\<lparr>snExtPartSector := 100\<rparr>) p 200" if "p = 100 \<or> p = 200" for p
    using F(5,6) [OF that] by (simp add: link_ok_def on_disk_def not_extended add64_def)
  have c: "closed_chain (?s\<lparr>snExtPartSector := 100\<rparr>) {100, 200}"
    using d l by (auto simp: closed_chain_def)
  have "table_error (disk ?s 0) False = None"
    using F(1,3) by (simp add: table_error_def part_count_def)
  then show ?thesis
    using cyclic_chain_diverges [OF c _ ok_env_ok] F(2)
    by (simp add: used_extended_def not_extended on_disk_def)
qed

text \<open>Deleting the only logical drive clears its entry and leaves its empty boot record on the disk;
  the tables are then rejected as a whole: the next \<open>PD_OpenStore\<close> of the disk reports success and hands
  out a store that is not formatted, whatever primary partitions stand before the extended one.\<close>
theorem deleting_only_drive_unformats:
  assumes "disk_ok s" and "total_sectors s < 2 ^ 32" and "0 < total_sectors s"
    and "k < 4" and "used_extended (get_entry (disk s 0) k)" and "\<forall>j \<le> k. on_disk (total_sectors s) (get_entry (disk s 0) j)"
    and "\<forall>j < k. \<not> used_extended (get_entry (disk s 0) j)" and "table_error (disk s 0) False = None"
    and "x = Part_StartSector (get_entry (disk s 0) k)" and "0 < x"
    and "drive_ok s x" and "Part_TotalSectors (get_entry (disk s x) 1) = 0"
    and "snPBRSector p = x" and "DeletePBR env' s p None = (True, s')"
    and "no_failures env" and "di_total_sectors (e_geometry env) = total_sectors s"
    and "di_bytes_per_sect (e_geometry env) = bytes_per_sect s" and "\<not> IS_VALID_BOOTSEC (disk s 0)"
  shows "\<exists>u. PD_OpenStore env (new_driver (disk s') t a e) = Some (ERROR_SUCCESS, Some u) \<and> \<not> bFormatState u"
proof -
  have x32: "x < 2 ^ 32" using assms(11) by (simp add: drive_ok_def)
  have env: "\<forall>n. \<not> e_refuse env n" using assms(15) by (simp add: no_failures_def)
  obtain tk where s': "s' = s\<lparr>disk := (disk s)(x := clear_entry (disk s x) 0), tick := tk\<rparr>"
    using DeletePBR_first [OF assms(1) _ _ assms(14)] x32 assms(13) by auto
  then have d: "disk s' 0 = disk s 0" "disk s' x = clear_entry (disk s x) 0" using assms(10) by simp_all
  obtain u where load: "LoadDiskInfo env (next_tick (new_driver (disk s') t a e)) = (ERROR_SUCCESS, u)"
    and u: "disk u = disk s'" "total_sectors u = total_sectors s" "snExtPartSector u = 0"
    using env assms(1,3,16,17) by (auto simp: LoadDiskInfo_def Let_def new_driver_def next_tick_def disk_ok_def)
  let ?v = "u\<lparr>dwFlags := registry_flags env, bFormatState := False\<rparr>"
  let ?w = "?v\<lparr>tick := tick ?v + 2\<rparr>"
  have rd: "ReadSectors env ?v 0 (Suc 0) = (Some (disk s 0), ?w)"
    using ReadSectors_ok [of 0 env ?v] env u(1) d(1) by simp
  have "table_error (disk ?w (Part_StartSector (get_entry (disk s 0) k))) True = Some ERROR_INVALID_DATA"
    using only_drive_deleted [OF assms(1,11,12)] d(2) u(1) assms(9) by simp
  then obtain st z where "dos_loop env (disk s 0) False 0 0 ?w = Some (ERROR_INVALID_DATA, st, z)" "same_store ?w z"
    using dos_loop_reaches_empty_record [of 0 k "disk s 0" ?w env] assms(2,4-7) u env by auto
  then show ?thesis
    using load rd assms(8,15,18)
    by (auto simp: PD_OpenStore_def LocalAlloc_ok GetDOSPartitions_def is_superfloppy_def same_store_def
        ERROR_INVALID_DATA_def ERROR_SUCCESS_def)
qed

theorem deleting_only_drive_unformats_witness:
  "\<exists>s' u. DeletePBR ok_env small_store ((start_part 101)\<lparr>snPBRSector := 100\<rparr>) None = (True, s') \<and>
     PD_OpenStore (ok_env\<lparr>e_geometry := small_geometry\<rparr>) (new_driver (disk s') 0 0 0) = Some (ERROR_SUCCESS, Some u) \<and>
     \<not> bFormatState u"
proof -
  let ?p = "(start_part 101)\<lparr>snPBRSector := 100\<rparr>"
  obtain s' where d: "DeletePBR ok_env small_store ?p None = (True, s')"
    using DeletePBR_total [OF ok_env_ok, of ?p] by auto
  have x: "(100 :: nat) = Part_StartSector (get_entry (disk small_store 0) 1)" "drive_ok small_store 100"
    "Part_TotalSectors (get_entry (disk small_store 100) 1) = 0" "used_extended (get_entry (disk small_store 0) 1)"
    "\<forall>j \<le> 1. on_disk (total_sectors small_store) (get_entry (disk small_store 0) j)"
    "\<forall>j < 1. \<not> used_extended (get_entry (disk small_store 0) j)"
    "table_error (disk small_store 0) False = None"
    using table_nth [of _ "small_disk 0"] small_store_chain
    by (auto simp: small_store_def small_sector_facts le_Suc_eq on_disk_def used_extended_def not_extended
        table_error_def part_count_def simp flip: table_nth)
  have env: "no_failures (ok_env\<lparr>e_geometry := small_geometry\<rparr>)" using ok_env_ok by (simp add: no_failures_def)
  show ?thesis
    using deleting_only_drive_unformats [OF small_store_ok(1) _ _ _ x(4,5,6,7,1) _ x(2,3) _ d env, of 0 0 0] d small_boot_sector
    by (auto simp: small_store_def) (simp_all add: small_geometry_def)
qed

section \<open>The partitions of a store\<close>

text \<open>C24. Whatever calls a client makes, in whatever order, and whichever requests the disk refuses, no two
  partitions of the store have names that differ in the case of letters only, and every partition
  structure keeps an address of its own.\<close>
theorem store_calls_keep_names:
  assumes "driver_inv s" and "store_run env addr_of cs s = Some s'"
  shows "distinct (map addr (pPartState s')) \<and>
    (\<forall>p \<in> set (pPartState s'). \<forall>q \<in> set (pPartState s'). cPartName p \<noteq> [] \<longrightarrow> wcsicmp_equal (cPartName p) (cPartName q) \<longrightarrow> p = q)"
proof -
  have inv: "parts_ok (next_addr s') (pPartState s')" using store_run_inv [OF assms] by (simp add: driver_inv_def)
  have names: "distinct (folded_names (pPartState s'))" using inv by (simp add: parts_ok_def)
  have "p = q" if "p \<in> set (pPartState s')" "q \<in> set (pPartState s')" "cPartName p \<noteq> []"
    "wcsicmp_equal (cPartName p) (cPartName q)" for p q
  proof -
    have "cPartName q \<noteq> []" using that(3,4) by (auto simp: wcsicmp_equal_def)
    then have "inj_on (\<lambda>p. map fold_case (cPartName p)) (set (filter (\<lambda>p. cPartName p \<noteq> []) (pPartState s')))"
      using names by (simp add: folded_names_def distinct_map)
    then show ?thesis using that \<open>cPartName q \<noteq> []\<close> by (auto simp: inj_on_def wcsicmp_equal_def)
  qed
  then show ?thesis using inv by (auto simp: parts_ok_def)
qed

theorem store_calls_keep_names_witness:
  "\<exists>s'. store_run ok_env (\<lambda>x. x) [Call_Rename ''Part01'' ''PART00'', Call_Rename ''Part01'' ''Data''] two_parts = Some s' \<and>
     map cPartName (pPartState s') = [''Part00'', ''Data''] \<and> distinct (map addr (pPartState s'))"
proof -
  have inv: "driver_inv two_parts"
    using same_names(6) by (simp add: driver_inv_def parts_ok_def folded_names_def wcsicmp_equal_def)
  have one: "PD_RenamePartition two_parts ''Part01'' ''PART00'' = (ERROR_ALREADY_EXISTS, two_parts)"
    by (simp add: PD_RenamePartition_def GetPartition_def same_names)
  have two: "fst (PD_RenamePartition two_parts ''Part01'' ''Data'') = ERROR_SUCCESS"
    "map cPartName (pPartState (snd (PD_RenamePartition two_parts ''Part01'' ''Data''))) = [''Part00'', ''Data'']"
    by (simp_all add: PD_RenamePartition_def GetPartition_def same_names set_name_def update_part_def)
  have run: "store_run ok_env (\<lambda>x. x) [Call_Rename ''Part01'' ''PART00'', Call_Rename ''Part01'' ''Data''] two_parts =
      Some (snd (PD_RenamePartition two_parts ''Part01'' ''Data''))"
    by (simp add: one)
  show ?thesis
    using store_calls_keep_names [OF inv run] run two(2) by (intro exI conjI)  auto
qed



text \<open>C23. A write through a partition changes no sector outside it, changes nothing at all when the
  partition is read-only, and after a write that reports success a read of the same sectors gives the
  data that was written.\<close>
theorem partition_io_confined:
  assumes "snStartSector p + snNumSectors p < 2 ^ 32" and "length data = n * bytes_per_sect s"
    and "WritePartition env s p a n data = (e, s')" and "no_failures env'"
  shows "(\<forall>i. i < snStartSector p \<or> snStartSector p + snNumSectors p \<le> i \<longrightarrow> disk s' i = disk s i) \<and>
    (PARTITION_ATTRIBUTE_READONLY (dwAttributes p) \<longrightarrow> disk s' = disk s \<and> e \<noteq> ERROR_SUCCESS) \<and>
    (e = ERROR_SUCCESS \<longrightarrow> ReadPartition env' s' p a n = (ERROR_SUCCESS, data, next_tick s'))"
proof (cases "out_of_range p a n \<or> PARTITION_ATTRIBUTE_READONLY (dwAttributes p)")
  case True
  then show ?thesis
    using assms(3) by (auto simp: WritePartition_def ERROR_SUCCESS_def ERROR_INVALID_BLOCK_def ERROR_ACCESS_DENIED_def split: if_splits)
next
  case False
  then have range: "a < snNumSectors p" "a + n \<le> snNumSectors p" "\<not> out_of_range p a n"
    using assms(1) sub64_eq [of "snNumSectors p" a] by (auto simp: out_of_range_def)
  let ?b = "snStartSector p + a"
  have st: "dword (add32 a (dword (snStartSector p))) = ?b" "add32 a (dword (snStartSector p)) = ?b" "dword ?b = ?b" "dword n = n"
    using range assms(1) by (simp_all add: add32_eq)
  obtain ok u where w: "WriteSectors env s (add32 a (dword (snStartSector p))) n data = (ok, u)"
    by (cases "WriteSectors env s (add32 a (dword (snStartSector p))) n data")
  then have e: "e = (if ok then ERROR_SUCCESS else request_error u)" "s' = u"
    using assms(3) False by (simp_all add: WritePartition_def)
  obtain m where m: "disk u = disk_write_sectors s ?b m data" "m \<le> n" "ok \<longrightarrow> m = n" "diskInfo u = diskInfo s"
  proof
    let ?m = "if ok then n else min n (e_moved env (tick s))"
    show "disk u = disk_write_sectors s ?b ?m data" "?m \<le> n" "ok \<longrightarrow> ?m = n" "diskInfo u = diskInfo s"
      using w unfolding WriteSectors_def Let_def st
      by (auto simp: fail_tick_def next_tick_def split: if_splits option.splits)
  qed
  have "e = ERROR_SUCCESS \<longrightarrow> ok"
    using e(1) by (auto simp: request_error_def ERROR_SUCCESS_def ERROR_GEN_FAILURE_def split: if_splits)
  moreover have "concat (map (\<lambda>k. disk u (?b + k)) [0..<n]) = data" if ok
  proof -
    have eq: "map (\<lambda>k. disk u (?b + k)) [0..<n] = map (slice (bytes_per_sect s) data) [0..<n]"
      using m that by (simp add: disk_write_sectors_def)
    show ?thesis unfolding eq using concat_slices [of n "bytes_per_sect s" data] assms(2) by simp
  qed
  ultimately show ?thesis
    using m(1,2) range False e(2) assms(4)
    by (auto simp: disk_write_sectors_outside ReadPartition_def st no_failures_def Let_def)
qed

theorem partition_io_confined_witness:
  "\<exists>s'. WritePartition ok_env small_store ((start_part 101)\<lparr>snNumSectors := 49\<rparr>) 3 1 (replicate 512 7) = (ERROR_SUCCESS, s') \<and>
     ReadPartition ok_env s' ((start_part 101)\<lparr>snNumSectors := 49\<rparr>) 3 1 = (ERROR_SUCCESS, replicate 512 7, next_tick s') \<and>
     disk s' 100 = small_disk 100"
proof -
  let ?p = "(start_part 101)\<lparr>snNumSectors := 49\<rparr>"
  obtain s' where w: "WritePartition ok_env small_store ?p 3 1 (replicate 512 7) = (ERROR_SUCCESS, s')"
    using WriteSectors_total [OF ok_env_ok, of small_store "add32 3 (dword 101)" 1 "replicate 512 7"]
    by (auto simp: WritePartition_def out_of_range_def sub64_def no_attributes_def)
  have "length (replicate 512 (7 :: BYTE)) = 1 * bytes_per_sect small_store" by (simp add: small_store_def)
  from partition_io_confined [OF _ this w ok_env_ok] show ?thesis
    using w by (auto simp: small_store_def)
qed

text \<open>Formatting a primary partition gives its entry in the master boot record the new type and the
  place and size it had; every other entry is kept, and no sector outside the partition and the
  master boot record is written.\<close>
theorem PD_FormatPartition_retypes:
  assumes "no_failures env" and "disk_ok s" and "mbr_ok s" and "GetPartition s name = Some (p, prev)"
    and "\<not> PARTITION_ATTRIBUTE_READONLY (dwAttributes p)" and "snPBRSector p = 0" and "t \<noteq> 0xff"
    and "0 < snStartSector p" and "0 < snNumSectors p" and "snStartSector p + snNumSectors p < 2 ^ 32"
    and "snStartSector p \<in> Part_StartSector ` set (mbr_used s)"
  shows "\<exists>s' e'. PD_FormatPartition env s name t False = Some (ERROR_SUCCESS, s') \<and>
    Part_StartSector e' = snStartSector p \<and> Part_TotalSectors e' = snNumSectors p \<and> Part_FileSystem e' = t \<and>
    mbr_used s' = map (\<lambda>e. if Part_StartSector e = snStartSector p then e' else e) (mbr_used s) \<and>
    (\<forall>i. 0 < i \<and> (i < snStartSector p \<or> snStartSector p + snNumSectors p \<le> i) \<longrightarrow> disk s' i = disk s i)"
proof -
  let ?k = "snStartSector p"
  obtain tk d where init: "InitPartition env s p = (True, s\<lparr>disk := d, tick := tk\<rparr>)"
    and d: "\<forall>i. length (d i) = bytes_per_sect s" "\<forall>i. i < ?k \<or> ?k + snNumSectors p \<le> i \<longrightarrow> d i = disk s i"
    using InitPartition_total [OF assms(1,2,10,9)] by blast
  let ?s1 = "s\<lparr>disk := d, tick := tk\<rparr>"
  have d0: "d 0 = disk s 0" using d(2) assms(8) by simp
  have ok1: "disk_ok ?s1" "mbr_ok ?s1" "?k \<in> Part_StartSector ` set (mbr_used ?s1)"
    using assms(2,3,11) d(1) d0 by (simp_all add: disk_ok_def mbr_ok_def mbr_sorted_def)
  obtain s2 where del: "DeleteMBR env ?s1 p = (True, s2)"
    using DeleteMBR_total [OF assms(1) ok1(2) _ ok1(3)] assms(8) by auto
  note D = DeleteMBR_table [OF ok1(1,2) _ ok1(3) del]
  have used: "mbr_used s2 = filter (\<lambda>e. Part_StartSector e \<noteq> ?k) (mbr_used ?s1)" and ok2: "mbr_ok s2" "disk_ok s2"
    using D ok1(1) assms(8) by (auto simp: disk_ok_def)
  have "length (mbr_used s2) < length (mbr_used ?s1)"
    unfolding used using ok1(3) by (auto intro: length_filter_less)
  also have "\<dots> \<le> 4" using length_takeWhile_le [of in_use "mbr_table ?s1"] by (simp add: used_entries_def)
  finally have "length (mbr_used s2) < 4" .
  then obtain s3 where add: "WriteMBR env s2 ?k (snNumSectors p) t False = (True, s3)"
    using WriteMBR_total [OF assms(1), of s2 ?k "snNumSectors p" t] ok2(1) unfolding mbr_ok_def by blast
  have "mbr.replace_entry env ?s1 ?k (snNumSectors p, t) = (True, s3)"
    using del add by (simp add: mbr.replace_entry_def table_add_def DeleteMBR_start [of env _ p, symmetric])
  then obtain e where e: "Part_StartSector e = ?k" "entry_holds e (snNumSectors p, t)"
    "mbr_used s3 = map (\<lambda>x. if Part_StartSector x = ?k then e else x) (mbr_used ?s1)"
    using mbr.replace_keeps_others [of ?s1 ?k "(snNumSectors p, t)" env s3] ok1 assms(8-10)
    by (auto simp: table_state_ok_def valid_entry_def)
  have fresh: "?k \<notin> Part_StartSector ` set (mbr_used s2)" by (auto simp: used)
  have "\<forall>i. i \<noteq> 0 \<longrightarrow> disk s3 i = disk s2 i"
    by (rule WriteMBR_table [OF ok2(2,1) _ assms(9) _ fresh add]) (use assms(10) in \<open>auto simp: mbr_changed_def\<close>)
  then have rest: "\<forall>i. i \<noteq> 0 \<longrightarrow> disk s3 i = d i" using D(4) assms(8) by simp
  have "retype_entry env ?s1 p t = (True, s3)"
    using del add assms(6) by (simp add: retype_entry_def)
  then have "PD_FormatPartition env s name t False = Some (ERROR_SUCCESS, update_part (addr p) (\<lambda>p. p\<lparr>partType := t\<rparr>) s3)"
    using init assms(4,5,7) by (simp add: PD_FormatPartition_def)
  then show ?thesis
    using e d(2) d0 rest by (intro exI [of _ "update_part (addr p) (\<lambda>p. p\<lparr>partType := t\<rparr>) s3"] exI [of _ e])
      (auto simp: entry_holds_def update_part_def)
qed

theorem PD_FormatPartition_retypes_witness:
  "\<exists>s' e'. PD_FormatPartition ok_env two_parts ''part00'' PART_DOS32 False = Some (ERROR_SUCCESS, s') \<and>
     Part_FileSystem e' = PART_DOS32 \<and> mbr_used s' = [e', mk_entry 100 400 PART_EXTENDED] \<and> disk s' 100 = small_disk 100"
proof -
  let ?p = "(start_part 1)\<lparr>cPartName := ''Part00'', snNumSectors := 99\<rparr>"
  have n: "wcsicmp_equal ''part00'' ''Part00''" by code_simp
  have g: "GetPartition two_parts ''part00'' = Some (?p, None)" by (simp add: GetPartition_def n)
  have ok: "disk_ok two_parts" "mbr_ok two_parts" and used: "mbr_used two_parts = [mk_entry 1 99 PART_DOS4_FAT, mk_entry 100 400 PART_EXTENDED]"
    using small_store_ok by (simp_all add: disk_ok_def mbr_ok_def mbr_sorted_def small_store_def small_geometry_def small_sector_facts)
  have "PART_DOS32 \<noteq> 0xff" by (simp add: PART_DOS32_def)
  have start: "snStartSector ?p \<in> Part_StartSector ` set (mbr_used two_parts)" unfolding used by simp
  from PD_FormatPartition_retypes [OF ok_env_ok ok g _ _ \<open>PART_DOS32 \<noteq> 0xff\<close> _ _ _ start] obtain s' e' where
    r: "PD_FormatPartition ok_env two_parts ''part00'' PART_DOS32 False = Some (ERROR_SUCCESS, s')" "Part_FileSystem e' = PART_DOS32"
      "mbr_used s' = map (\<lambda>e. if Part_StartSector e = 1 then e' else e) (mbr_used two_parts)"
      "\<forall>i. 0 < i \<and> (i < 1 \<or> 100 \<le> i) \<longrightarrow> disk s' i = disk two_parts i"
    by (auto simp: no_attributes_def)
  have "disk s' 100 = small_disk 100" using r(4) by simp
  then show ?thesis using r(1-3) unfolding used by (intro exI [of _ s'] exI [of _ e']) simp
qed

text \<open>A call of \<open>PD_CreatePartition\<close> that fails leaves the number of partitions as it was, and the list
  of partitions too, unless the new one was to go in front of the list: then the list is lost.\<close>
theorem PD_CreatePartition_failure:
  assumes "driver_inv s" and "dwNumParts s < 2 ^ 32"
    and "PD_CreatePartition env s name t num bAuto = Some (e, s')" and "e \<noteq> ERROR_SUCCESS"
  shows "dwNumParts s' = dwNumParts s \<and> (pPartState s' = pPartState s \<or> pPartState s' = [])"
proof (cases "s' = s")
  case False
  then obtain r u where loc: "GetPartLocation env s num t = (r, u)" "only_io s u"
    and r: "r = None \<and> s' = u \<or> (\<exists>prev start pbr n. r = Some (prev, start, pbr, n) \<and>
      create_at env u name t bAuto prev start pbr n = Some (e, s'))"
    using assms(3) GetPartLocation_io
    by (cases "GetPartLocation env s num t") (auto simp: PD_CreatePartition_def split: if_splits option.splits prod.splits)
  have u: "driver_inv u" "pPartState u = pPartState s" "dwNumParts u = dwNumParts s"
    using loc(2) assms(1) by (simp_all add: only_io_fields driver_inv_io)
  show ?thesis
  proof (cases "r = None")
    case True
    then show ?thesis using r u by simp
  next
    case False
    then obtain prev start pbr n where c: "create_at env u name t bAuto prev start pbr n = Some (e, s')" using r by blast
    show ?thesis using create_at_failure [OF u(1) _ c assms(4)] u assms(2) by auto
  qed
qed simp

theorem PD_CreatePartition_failure_witness:
  "\<exists>s'. PD_CreatePartition refusing_env two_parts ''Data'' PART_DOS4_FAT 50 False = Some (ERROR_OUTOFMEMORY, s') \<and>
     dwNumParts s' = 0 \<and> (pPartState s' = pPartState two_parts \<or> pPartState s' = [])"
proof -
  let ?r = "PD_CreatePartition refusing_env two_parts ''Data'' PART_DOS4_FAT 50 False"
  have inv: "driver_inv two_parts"
    using same_names(6) by (simp add: driver_inv_def parts_ok_def folded_names_def wcsicmp_equal_def)
  have n: "dwNumParts two_parts = 0" "bFormatState two_parts" by (simp_all add: two_parts_def small_store_def)
  have "map_option fst ?r = Some ERROR_OUTOFMEMORY"
    by (simp add: PD_CreatePartition_def n GetPartition_def same_names GetPartLocation_def find_place_def
        skip_sector1_def no_flags_def extended_place_def extended_size_def track_size_def create_at_def
        LocalAlloc_def refusing_env_def small_geometry_def add64_def sub64_def)
  then obtain s' where r: "?r = Some (ERROR_OUTOFMEMORY, s')" by auto
  have "ERROR_OUTOFMEMORY \<noteq> ERROR_SUCCESS" by (simp add: ERROR_OUTOFMEMORY_def ERROR_SUCCESS_def)
  from PD_CreatePartition_failure [OF inv _ r this] n(1) r show ?thesis by auto
qed

text \<open>C26. The cylinder, head and sector \<open>ConvertLBAtoCHS\<close> computes for a sector below the 1024th cylinder of a
  disk with at most 256 heads and 63 sectors in a track denote that sector.\<close>
theorem CHS_roundtrip:
  assumes "1 \<le> heads s" and "heads s \<le> 256" and "1 \<le> sectors s" and "sectors s \<le> 63"
    and "n \<le> total_sectors s" and "n < 1024 * (heads s * sectors s)"
  shows "fst (ConvertLBAtoCHS s n old) \<and> ConvertCHStoLBA s (snd (ConvertLBAtoCHS s n old)) = n"
  using CHS_inverse [OF assms, of old] by auto

theorem CHS_roundtrip_witness:
  "ConvertCHStoLBA (small_store\<lparr>diskInfo := small_geometry\<lparr>di_heads := 16, di_sectors := 63, di_total_sectors := 100000\<rparr>\<rparr>)
     (snd (ConvertLBAtoCHS (small_store\<lparr>diskInfo := small_geometry\<lparr>di_heads := 16, di_sectors := 63, di_total_sectors := 100000\<rparr>\<rparr>)
        99999 (0, 0, 0))) = 99999"
  using CHS_roundtrip [of "small_store\<lparr>diskInfo := small_geometry\<lparr>di_heads := 16, di_sectors := 63, di_total_sectors := 100000\<rparr>\<rparr>"
      99999 "(0, 0, 0)"] by simp

text \<open>On a disk whose sectors are larger than the largest cluster, \<open>GenerateFATFSType\<close> does not return.\<close>
theorem GenerateFATFSType_diverges:
  assumes "MAX_CLUS_SIZE < bytes_per_sect s"
  shows "GenerateFATFSType s num = None"
proof -
  have "MAX_CLUS_SIZE div bytes_per_sect s < 1" using assms by simp
  then show ?thesis using fat_loop_too_large by (simp add: GenerateFATFSType_def)
qed

theorem GenerateFATFSType_diverges_witness:
  "GenerateFATFSType (small_store\<lparr>diskInfo := small_geometry\<lparr>di_bytes_per_sect := 65536\<rparr>\<rparr>) 1000 = None"
  by (rule GenerateFATFSType_diverges) (simp add: MAX_CLUS_SIZE_def)

section \<open>Further observations\<close>

text \<open>The check of \<open>DeleteSectors\<close> adds two \<open>DWORD\<close>s: a request that wraps around passes it.\<close>

lemma DeleteSectors_wraps:
  assumes "a < snNumSectors p" and "a + n = 2 ^ 32" and "\<not> PARTITION_ATTRIBUTE_READONLY (dwAttributes p)"
    and "no_failures env" and "snNumSectors p < 2 ^ 32"
  shows "fst (DeleteSectors env s p True a n) = ERROR_SUCCESS"
proof -
  have "add32 a n = 0" using assms(2) by (simp add: add32_def)
  then show ?thesis using assms by (simp add: DeleteSectors_def delete_request_def no_failures_def)
qed

text \<open>A partition that cannot be cleared is reported as formatted.\<close>
lemma PD_FormatPartition_init_fails:
  assumes "GetPartition s name = Some (p, prev)" and "\<not> PARTITION_ATTRIBUTE_READONLY (dwAttributes p)"
    and "InitPartition env s p = (False, s')"
  shows "PD_FormatPartition env s name t bAuto = Some (ERROR_SUCCESS, s')"
  using assms by (simp add: PD_FormatPartition_def ERROR_SUCCESS_def)

text \<open>After a second search is started the first one is no longer moved when its partition is deleted, and
  its next step reads the freed structure.\<close>
lemma lost_search_dangles:
  assumes "PD_FindPartitionStart env s = (Inr r', s1)" and "pSearchState s = [\<lparr>search_addr = r, search_part = Some (addr p)\<rparr>]"
    and "driver_inv s" and "r < next_addr s" and "PD_DeletePartition env s1 name = (ERROR_SUCCESS, s2)"
    and "GetPartition s1 name = Some (p, prev)"
  shows "PD_FindPartitionNext s2 r = None"
proof -
  obtain q where s1: "pSearchState s1 = [\<lparr>search_addr = next_addr s, search_part = q\<rparr>]"
    "lost_searches s1 = \<lparr>search_addr = r, search_part = Some (addr p)\<rparr> # lost_searches s"
    using assms(1,2) by (auto simp: PD_FindPartitionStart_def LocalAlloc_def next_tick_def fail_tick_def Let_def split: if_splits)
  obtain u where u: "only_io s1 u"
    "s2 = move_searches (addr p) (map_option addr (next_part (addr p) (pPartState u)))
       (u\<lparr>pPartState := remove_part (addr p) (pPartState u), dwNumParts := sub32 (dwNumParts u) 1\<rparr>)"
    using assms(5,6)
    by (auto simp: PD_DeletePartition_def Let_def ERROR_SUCCESS_def ERROR_GEN_FAILURE_def ERROR_ACCESS_DENIED_def
        split: prod.splits if_splits dest!: DeletePBR_io DeleteMBR_io delete_request_io intro: only_io_trans)
  have "lost_searches s2 = lost_searches s1" "\<exists>q'. pSearchState s2 = [\<lparr>search_addr = next_addr s, search_part = q'\<rparr>]"
    using u s1(1) by (simp_all add: move_searches_def only_io_fields)
  moreover have "part_at s2 (addr p) = None"
    unfolding u(2) by (simp add: part_at_def move_searches_def remove_part_def find_None_iff)
  ultimately show ?thesis
    using s1(2) assms(4) by (auto simp: PD_FindPartitionNext_def)
qed

text \<open>The first primary partition of a store that leaves out sector 1 may end one sector behind the disk.\<close>
lemma first_primary_past_end:
  assumes "pPartState s = []" and "MSPART_CREATE_PRIMARY (dwFlags s)" and "MSPART_SKIP_SECTOR1 (dwFlags s)"
    and "heads s = 1" and "total_sectors s \<le> num" and "1 \<le> total_sectors s" and "total_sectors s < 2 ^ 32"
  shows "\<exists>l. find_place env s num t = (Some l, s) \<and> snNextPartSector l + curNumSectors l = total_sectors s + 1"
proof -
  have "sub64 (total_sectors s) 1 = total_sectors s - 1" using assms(6,7) by (intro sub64_eq) simp_all
  then show ?thesis using assms by (simp add: find_place_def first_primary_def track_size_def skip_sector1_def Let_def)
qed

text \<open>The first logical drive of a store is not compared with the end of the extended partition, nor with that of the disk.\<close>
lemma first_drive_past_end:
  assumes "pPartState s = []" and "\<not> MSPART_CREATE_PRIMARY (dwFlags s)"
    and "heads s = 1" and "total_sectors s \<le> num" and "num < 2 ^ 32"
  shows "\<exists>l. find_place env s num t = (Some l, s) \<and> bExtPart l \<and> total_sectors s < snNextPartSector l + curNumSectors l"
proof -
  have "extended_size s num = num + 1" using assms(3,5) by (simp add: extended_size_def track_size_def add64_eq)
  then show ?thesis using assms by (simp add: find_place_def)
qed

end
