(* ===== verification/Notify_State.thy ===== *)
theory Notify_State
  imports Storage_Prelude "HOL-Library.List_Lexorder"
begin

text \<open>
  The state of the change notification of file systems (\<open>NOTIFY/fsnotify.h\<close>): volumes with a tree
  of the directories in which something is watched or open.

  A directory is a node with the list of its children, sorted by name; an event or a handle is in
  the list of the directory (or the volume) its \<open>pDirectory\<close> points to.  Inside a call a pointer to
  a directory is the list of positions that leads to it, \<open>[]\<close> for \<open>NULL\<close>; the position list of a
  directory without its last position is that of its \<open>pParent\<close>.  Handles and events are named by their addresses
  outside a call.  A node does not hold \<open>bDepth\<close>, which is read in code that is not compiled only.

  Allocations take the next tick, and the environment says for each tick whether it fails.
\<close>

section \<open>State\<close>

record NOTFILEINFO =
  fi_szFileName :: "string option"
  dwFileNameLen :: nat
  dwAction :: nat

text \<open>\<open>signalled\<close> is the state of the kernel event \<open>hEvent\<close>.\<close>

record NOTEVENTENTRY =
  e_addr :: nat
  e_dwFlags :: DWORD
  bWatchSubTree :: bool
  hProc :: nat
  hEvent :: nat
  hNotify :: nat
  dwCount :: DWORD
  pFileInfo :: "NOTFILEINFO list"
  signalled :: bool

text \<open>\<open>name_set\<close> is false when \<open>szFileName\<close> was never assigned.\<close>

record NOTHANDLEENTRY =
  h_addr :: nat
  h_changed :: bool
  h_szFileName :: "string option"
  name_set :: bool

datatype NOTDIRENTRY =
  NOTDIRENTRY (szDirectory: "string option") (pEvents: "NOTEVENTENTRY list")
    (pHandles: "NOTHANDLEENTRY list") (pChild: "NOTDIRENTRY list")

record NOTVOLENTRY =
  v_addr :: nat
  szVolumeName :: "string option"
  pDirEntry :: "NOTDIRENTRY list"
  v_pEvents :: "NOTEVENTENTRY list"
  v_pHandles :: "NOTHANDLEENTRY list"

text \<open>
  \<open>closed_events\<close> are the events whose \<open>pVolume\<close> is \<open>NULL\<close> because the volume was deleted.
  \<open>held\<close> are the critical sections \<open>cs\<close> of volumes that threads are inside, with the thread, once for
  each time it entered; \<open>n_thread\<close> is the thread that calls.
\<close>

record NotifyState =
  g_pRootVolume :: "NOTVOLENTRY list"
  closed_events :: "NOTEVENTENTRY list"
  held :: "(nat \<times> nat) list"
  n_thread :: nat
  n_tick :: nat
  n_next :: nat
  n_error :: nat

text \<open>\<open>n_attributes\<close> is \<open>GetFileAttributesW\<close>: \<open>None\<close> for \<open>-1\<close>, else whether the file is a directory.\<close>

record not_env =
  n_refuse :: "nat \<Rightarrow> bool"
  n_attributes :: "string \<Rightarrow> bool option"
  n_eventdata :: "nat \<Rightarrow> nat"

definition HANDLE_FLAG_FILECHANGED :: nat where "HANDLE_FLAG_FILECHANGED = 2"

text \<open>The flags of a watch and the actions, as in \<open>winnt.h\<close>.\<close>

definition FILE_NOTIFY_CHANGE_FILE_NAME :: DWORD where "FILE_NOTIFY_CHANGE_FILE_NAME = 0x1"
definition FILE_NOTIFY_CHANGE_DIR_NAME :: DWORD where "FILE_NOTIFY_CHANGE_DIR_NAME = 0x2"
definition FILE_NOTIFY_CHANGE_ATTRIBUTES :: DWORD where "FILE_NOTIFY_CHANGE_ATTRIBUTES = 0x4"
definition FILE_NOTIFY_CHANGE_SIZE :: DWORD where "FILE_NOTIFY_CHANGE_SIZE = 0x8"
definition FILE_NOTIFY_CHANGE_LAST_WRITE :: DWORD where "FILE_NOTIFY_CHANGE_LAST_WRITE = 0x10"
definition FILE_NOTIFY_CHANGE_LAST_ACCESS :: DWORD where "FILE_NOTIFY_CHANGE_LAST_ACCESS = 0x20"
definition FILE_NOTIFY_CHANGE_CREATION :: DWORD where "FILE_NOTIFY_CHANGE_CREATION = 0x40"
definition FILE_NOTIFY_CHANGE_CEGETINFO :: DWORD where "FILE_NOTIFY_CHANGE_CEGETINFO = 0x80000000"

definition FILE_ACTION_ADDED :: nat where "FILE_ACTION_ADDED = 1"
definition FILE_ACTION_REMOVED :: nat where "FILE_ACTION_REMOVED = 2"
definition FILE_ACTION_MODIFIED :: nat where "FILE_ACTION_MODIFIED = 3"
definition FILE_ACTION_RENAMED_OLD_NAME :: nat where "FILE_ACTION_RENAMED_OLD_NAME = 4"
definition FILE_ACTION_RENAMED_NEW_NAME :: nat where "FILE_ACTION_RENAMED_NEW_NAME = 5"
definition FILE_ACTION_CHANGE_COMPLETED :: nat where "FILE_ACTION_CHANGE_COMPLETED = 0x10000"

definition allocate :: "not_env \<Rightarrow> NotifyState \<Rightarrow> nat option \<times> NotifyState" where
  "allocate env s =
     (if n_refuse env (n_tick s) then None else Some (n_next s), s\<lparr>n_tick := n_tick s + 1, n_next := n_next s + 1\<rparr>)"

definition new_string :: "not_env \<Rightarrow> string \<Rightarrow> NotifyState \<Rightarrow> string option \<times> NotifyState" where
  "new_string env x s = (let (a, s) = allocate env s in (map_option (\<lambda>_. x) a, s))"

definition volume_at :: "NotifyState \<Rightarrow> nat \<Rightarrow> NOTVOLENTRY option" where
  "volume_at s v = find (\<lambda>w. v_addr w = v) (g_pRootVolume s)"

definition put_volume :: "NOTVOLENTRY \<Rightarrow> NotifyState \<Rightarrow> NotifyState" where
  "put_volume w s = s\<lparr>g_pRootVolume := map (\<lambda>x. if v_addr x = v_addr w then w else x) (g_pRootVolume s)\<rparr>"

section \<open>The critical section of a volume\<close>

text \<open>
  A critical section is owned by one thread, which may enter it again.  The state stays the same
  until the thread that is inside makes a call, so a thread that finds it owned by another one waits:
  the result \<open>None\<close>.
\<close>

definition section_free :: "nat \<Rightarrow> NotifyState \<Rightarrow> bool" where
  "section_free v s \<longleftrightarrow> (\<forall>(t, u) \<in> set (held s). u = v \<longrightarrow> t = n_thread s)"

definition ENTERNOTIFY :: "nat \<Rightarrow> NotifyState \<Rightarrow> NotifyState option" where
  "ENTERNOTIFY v s =
     (if v = 0 then Some s
      else if section_free v s then Some (s\<lparr>held := (n_thread s, v) # held s\<rparr>) else None)"

definition EXITNOTIFY :: "nat \<Rightarrow> NotifyState \<Rightarrow> NotifyState" where
  "EXITNOTIFY v s = (if v = 0 then s else s\<lparr>held := remove1 (n_thread s, v) (held s)\<rparr>)"

section \<open>Names\<close>

text \<open>\<open>wcsicmp\<close> compares the codes of the characters with their case folded.\<close>

definition wcs_key :: "string \<Rightarrow> nat list" where
  "wcs_key x = map (\<lambda>c. of_char (fold_case c)) x"

definition backslash :: char where "backslash = CHR 0x5C"

end
