(* ===== verification/Notify_Tree.thy ===== *)
theory Notify_Tree
  imports Notify_State
begin

text \<open>
  The tree of directories of a volume (\<open>InsertOrFindDirEntry\<close>, \<open>CreateDirEntry\<close>,
  \<open>CheckForCleanup\<close> in \<open>NOTIFY/fsnotify.cpp\<close>).
\<close>

section \<open>Positions\<close>

definition set_child :: "NOTDIRENTRY list \<Rightarrow> NOTDIRENTRY \<Rightarrow> NOTDIRENTRY" where
  "set_child ds d = NOTDIRENTRY (szDirectory d) (pEvents d) (pHandles d) ds"

definition set_events :: "NOTEVENTENTRY list \<Rightarrow> NOTDIRENTRY \<Rightarrow> NOTDIRENTRY" where
  "set_events es d = NOTDIRENTRY (szDirectory d) es (pHandles d) (pChild d)"

definition set_handles :: "NOTHANDLEENTRY list \<Rightarrow> NOTDIRENTRY \<Rightarrow> NOTDIRENTRY" where
  "set_handles hs d = NOTDIRENTRY (szDirectory d) (pEvents d) hs (pChild d)"

lemma set_simps [simp]:
  "szDirectory (set_child ds d) = szDirectory d" "pEvents (set_child ds d) = pEvents d"
  "pHandles (set_child ds d) = pHandles d" "pChild (set_child ds d) = ds"
  "szDirectory (set_events es d) = szDirectory d" "pEvents (set_events es d) = es"
  "pHandles (set_events es d) = pHandles d" "pChild (set_events es d) = pChild d"
  "szDirectory (set_handles hs d) = szDirectory d" "pEvents (set_handles hs d) = pEvents d"
  "pHandles (set_handles hs d) = hs" "pChild (set_handles hs d) = pChild d"
  by (simp_all add: set_child_def set_events_def set_handles_def)

fun node_at :: "nat list \<Rightarrow> NOTDIRENTRY list \<Rightarrow> NOTDIRENTRY option" where
  "node_at [] ds = None"
| "node_at (i # is) ds =
     (if i < length ds then if is = [] then Some (ds ! i) else node_at is (pChild (ds ! i)) else None)"

text \<open>A change of the directory at a position and of those above it.\<close>

fun on_trail :: "(NOTDIRENTRY \<Rightarrow> NOTDIRENTRY) \<Rightarrow> (NOTDIRENTRY \<Rightarrow> NOTDIRENTRY) \<Rightarrow> nat list \<Rightarrow> NOTDIRENTRY list \<Rightarrow> NOTDIRENTRY list" where
  "on_trail f g [] ds = ds"
| "on_trail f g (i # is) ds =
     (if i < length ds
      then ds[i := if is = [] then f (ds ! i) else g (set_child (on_trail f g is (pChild (ds ! i))) (ds ! i))]
      else ds)"

section \<open>Finding and inserting\<close>

definition name_above :: "string \<Rightarrow> NOTDIRENTRY \<Rightarrow> bool" where
  "name_above nm d \<longleftrightarrow> (case szDirectory d of None \<Rightarrow> False | Some n \<Rightarrow> wcs_key n < wcs_key nm)"

definition same_name :: "string \<Rightarrow> NOTDIRENTRY \<Rightarrow> bool" where
  "same_name nm d \<longleftrightarrow> (case szDirectory d of None \<Rightarrow> False | Some n \<Rightarrow> wcs_key n = wcs_key nm)"

definition CreateDirEntry :: "not_env \<Rightarrow> string \<Rightarrow> NotifyState \<Rightarrow> NOTDIRENTRY option \<times> NotifyState" where
  "CreateDirEntry env szName s =
     (let (a, s) = allocate env s
      in if a = None then (None, s)
         else let (n, s) = new_string env szName s in (Some (NOTDIRENTRY n [] [] []), s))"

text \<open>The name that is returned when the path ends in a directory.\<close>

definition default_name :: "not_env \<Rightarrow> bool \<Rightarrow> NOTDIRENTRY option \<Rightarrow> string option \<Rightarrow> NotifyState \<Rightarrow> string option \<times> NotifyState" where
  "default_name env wantName pCurrent name s =
     (if wantName \<and> name = None
      then (case Option.bind pCurrent szDirectory of None \<Rightarrow> (None, s) | Some n \<Rightarrow> new_string env n s)
      else (name, s))"

text \<open>What is returned for a directory \<open>nm\<close> that does not exist, with \<open>rest\<close> behind it: the name and \<open>*pbSubTree\<close>.\<close>

definition not_found ::
    "not_env \<Rightarrow> bool \<Rightarrow> bool \<Rightarrow> string \<Rightarrow> string \<Rightarrow> NotifyState \<Rightarrow> (string option \<times> bool) \<times> NotifyState" where
  "not_found env wantName wantSub nm rest s =
     (let (name, s) =
        (if rest \<noteq> [] then if wantName then new_string env rest s else (None, s)
         else if nm \<noteq> [] \<and> wantName \<and> wantSub then new_string env nm s else (None, s))
      in ((name, \<not> (wantSub \<and> rest \<noteq> [])), s))"

type_synonym found = "nat list option \<times> string option \<times> bool"

definition at_child :: "nat \<Rightarrow> found \<Rightarrow> found" where
  "at_child i r = (map_option (\<lambda>is. i # is) (fst r), snd r)"

lemma shorter:
  assumes "cur \<noteq> []"
  shows "length (drop 1 (dropWhile P cur)) < length cur" "length (dropWhile P cur) - Suc 0 < length cur"
  using assms length_dropWhile_le [of P cur] by (cases cur, auto)+

text \<open>
  The loop over the components of the path.  The result is the position of \<open>pCurrent\<close> below the list
  \<open>ds\<close> (\<open>None\<close> when memory ran out), the file name, \<open>*pbSubTree\<close> and the changed list.
\<close>

function dir_loop ::
    "not_env \<Rightarrow> bool \<Rightarrow> bool \<Rightarrow> bool \<Rightarrow> string \<Rightarrow> bool \<Rightarrow> NOTDIRENTRY option \<Rightarrow> NOTDIRENTRY list \<Rightarrow> NotifyState \<Rightarrow>
     found \<times> NOTDIRENTRY list \<times> NotifyState" where
  "dir_loop env bFind wantName wantSub cur bPath pCurrent ds s =
     (if cur = []
      then let (name, s) = default_name env wantName pCurrent None s in ((Some [], name, True), ds, s)
      else let nm = takeWhile (\<lambda>c. c \<noteq> backslash) cur;
               tail = dropWhile (\<lambda>c. c \<noteq> backslash) cur;
               rest = drop 1 tail
      in if tail = [] \<and> \<not> bPath
         then let (name, s) = (if wantName then new_string env cur s else (None, s));
                  (name, s) = default_name env wantName pCurrent name s
              in ((Some [], name, True), ds, s)
         else let bPath = (bPath \<and> tail \<noteq> []);
                  i = length (takeWhile (name_above nm) ds)
              in if i < length ds \<and> same_name nm (ds ! i)
                 then let (r, cs, s) = dir_loop env bFind wantName wantSub rest bPath (Some (ds ! i)) (pChild (ds ! i)) s
                      in (at_child i r, ds[i := set_child cs (ds ! i)], s)
                 else if bFind
                 then let (nf, s) = not_found env wantName wantSub nm rest s in ((Some [], nf), ds, s)
                 else case CreateDirEntry env nm s of
                        (None, s) \<Rightarrow> ((None, None, True), ds, s)
                      | (Some d, s) \<Rightarrow>
                          let (r, cs, s) = dir_loop env bFind wantName wantSub rest bPath (Some d) [] s
                          in (at_child i r, take i ds @ set_child cs d # drop i ds, s))"
  by auto
termination
  by (relation "measure (\<lambda>(env, f, n, w, cur, b, p, ds, s). length cur)") (auto simp: shorter)

declare dir_loop.simps [simp del]

text \<open>\<open>*pszFileName\<close> is not assigned when the copy of the path cannot be allocated: the last result.\<close>

definition InsertOrFindDirEntry ::
    "not_env \<Rightarrow> NOTVOLENTRY \<Rightarrow> string \<Rightarrow> bool \<Rightarrow> bool \<Rightarrow> bool \<Rightarrow> bool \<Rightarrow> NotifyState \<Rightarrow>
     (nat list \<times> string option \<times> bool) \<times> NOTVOLENTRY \<times> bool \<times> NotifyState" where
  "InsertOrFindDirEntry env w szFullPath wantName bPath bFind wantSub s =
     (let szFullPath = dropWhile (\<lambda>c. c = backslash) szFullPath;
          (a, s) = allocate env s
      in if a = None then (([], None, True), w, False, s)
         else let ((t, name, sub), ds, s) = dir_loop env bFind wantName wantSub szFullPath bPath None (pDirEntry w) s
              in ((case t of None \<Rightarrow> [] | Some t \<Rightarrow> t, name, sub), w\<lparr>pDirEntry := ds\<rparr>, True, s))"

section \<open>Removing empty directories\<close>

definition empty_dir :: "NOTDIRENTRY \<Rightarrow> bool" where
  "empty_dir d \<longleftrightarrow> pHandles d = [] \<and> pEvents d = [] \<and> pChild d = []"

text \<open>
  The loop goes up from the directory at the position as long as it removes one; a directory above
  has lost its last child exactly when it is empty here.
\<close>

fun CheckForCleanup :: "nat list \<Rightarrow> NOTDIRENTRY list \<Rightarrow> NOTDIRENTRY list" where
  "CheckForCleanup [] ds = ds"
| "CheckForCleanup (i # is) ds =
     (if i < length ds
      then let d = set_child (CheckForCleanup is (pChild (ds ! i))) (ds ! i)
           in if empty_dir d then take i ds @ drop (Suc i) ds else ds[i := d]
      else ds)"

section \<open>Searching the tree\<close>

definition bump :: "nat list \<Rightarrow> nat list" where
  "bump is = (case is of [] \<Rightarrow> [] | i # js \<Rightarrow> Suc i # js)"

text \<open>The position of the first directory with a property; every directory stands before its children.\<close>

fun find_dir :: "(NOTDIRENTRY \<Rightarrow> bool) \<Rightarrow> NOTDIRENTRY list \<Rightarrow> nat list option" where
  "find_dir P [] = None"
| "find_dir P (NOTDIRENTRY n es hs cs # ds) =
     (if P (NOTDIRENTRY n es hs cs) then Some [0]
      else case find_dir P cs of Some is \<Rightarrow> Some (0 # is) | None \<Rightarrow> map_option bump (find_dir P ds))"

fun tree_events :: "NOTDIRENTRY list \<Rightarrow> NOTEVENTENTRY list" where
  "tree_events [] = []"
| "tree_events (NOTDIRENTRY n es hs cs # ds) = es @ tree_events cs @ tree_events ds"

fun tree_handles :: "NOTDIRENTRY list \<Rightarrow> NOTHANDLEENTRY list" where
  "tree_handles [] = []"
| "tree_handles (NOTDIRENTRY n es hs cs # ds) = hs @ tree_handles cs @ tree_handles ds"

fun FindNotifyHandleOnDirectory :: "NOTDIRENTRY list \<Rightarrow> nat \<Rightarrow> nat" where
  "FindNotifyHandleOnDirectory [] h = 0"
| "FindNotifyHandleOnDirectory (NOTDIRENTRY n es hs cs # ds) h =
     (let x = (case find (\<lambda>e. hEvent e = h) es of None \<Rightarrow> 0 | Some e \<Rightarrow> hNotify e);
          y = (if x \<noteq> 0 then x else FindNotifyHandleOnDirectory cs h)
      in if y \<noteq> 0 then y else FindNotifyHandleOnDirectory ds h)"

text \<open>What the volume or a directory holds: the volume at the position \<open>[]\<close>.\<close>

definition events_here :: "NOTVOLENTRY \<Rightarrow> nat list \<Rightarrow> NOTEVENTENTRY list" where
  "events_here w pos =
     (if pos = [] then v_pEvents w
      else case node_at pos (pDirEntry w) of None \<Rightarrow> [] | Some d \<Rightarrow> pEvents d)"

definition put_events :: "NOTVOLENTRY \<Rightarrow> nat list \<Rightarrow> NOTEVENTENTRY list \<Rightarrow> NOTVOLENTRY" where
  "put_events w pos es =
     (if pos = [] then w\<lparr>v_pEvents := es\<rparr>
      else w\<lparr>pDirEntry := on_trail (set_events es) (\<lambda>d. d) pos (pDirEntry w)\<rparr>)"

definition handles_here :: "NOTVOLENTRY \<Rightarrow> nat list \<Rightarrow> NOTHANDLEENTRY list" where
  "handles_here w pos =
     (if pos = [] then v_pHandles w
      else case node_at pos (pDirEntry w) of None \<Rightarrow> [] | Some d \<Rightarrow> pHandles d)"

definition put_handles :: "NOTVOLENTRY \<Rightarrow> nat list \<Rightarrow> NOTHANDLEENTRY list \<Rightarrow> NOTVOLENTRY" where
  "put_handles w pos hs =
     (if pos = [] then w\<lparr>v_pHandles := hs\<rparr>
      else w\<lparr>pDirEntry := on_trail (set_handles hs) (\<lambda>d. d) pos (pDirEntry w)\<rparr>)"

text \<open>Where an event or a handle is: what its \<open>pDirectory\<close> points to.\<close>

definition event_pos :: "NOTVOLENTRY \<Rightarrow> nat \<Rightarrow> nat list option" where
  "event_pos w a =
     (if a \<in> e_addr ` set (v_pEvents w) then Some []
      else find_dir (\<lambda>d. a \<in> e_addr ` set (pEvents d)) (pDirEntry w))"

definition handle_pos :: "NOTVOLENTRY \<Rightarrow> nat \<Rightarrow> nat list option" where
  "handle_pos w a =
     (if a \<in> h_addr ` set (v_pHandles w) then Some []
      else find_dir (\<lambda>d. a \<in> h_addr ` set (pHandles d)) (pDirEntry w))"

definition event_home :: "NotifyState \<Rightarrow> nat \<Rightarrow> (NOTVOLENTRY \<times> nat list) option" where
  "event_home s a =
     (case find (\<lambda>w. event_pos w a \<noteq> None) (g_pRootVolume s) of
        None \<Rightarrow> None
      | Some w \<Rightarrow> map_option (Pair w) (event_pos w a))"

definition clean_up :: "NOTVOLENTRY \<Rightarrow> nat list \<Rightarrow> NOTVOLENTRY" where
  "clean_up w pos = w\<lparr>pDirEntry := CheckForCleanup pos (pDirEntry w)\<rparr>"

end
