(* ===== verification/Notify_Ops.thy ===== *)
theory Notify_Ops
  imports Notify_Tree
begin

text \<open>
  The operations of \<open>NOTIFY/fsnotify.cpp\<close>, in the order of the file.

  The result of an operation on a volume or a handle is \<open>None\<close> when it uses memory that was freed or
  never written, as a call on a closed handle or event does, and when it waits for the critical section
  of the volume.  The \<open>None\<close> inside a result, as that of \<open>NotifyCreateFile\<close>, is
  \<open>INVALID_HANDLE_VALUE\<close>.  An operation is one step: the calls of other threads come before or after
  it, since its work on a volume is done inside the critical section of the volume.  What a call does
  before it waits (only \<open>NotifyReset\<close> resets the event) is left out.  File names are shorter than
  $2^{30}$ characters, so that their sizes are not reduced.
\<close>

section \<open>Telling the watchers\<close>

fun AddFileToEvent ::
    "not_env \<Rightarrow> NOTEVENTENTRY list \<Rightarrow> string option \<Rightarrow> DWORD \<Rightarrow> nat \<Rightarrow> NotifyState \<Rightarrow> NOTEVENTENTRY list \<times> NotifyState" where
  "AddFileToEvent env es None dwFlags act s = (es, s)"
| "AddFileToEvent env [] (Some nm) dwFlags act s = ([], s)"
| "AddFileToEvent env (e # es) (Some nm) dwFlags act s =
     (let (e, s) =
        (if e_dwFlags e AND FILE_NOTIFY_CHANGE_CEGETINFO \<noteq> 0 \<and> e_dwFlags e AND dwFlags \<noteq> 0
         then case allocate env s of
                (None, s) \<Rightarrow> (e, s)
              | (Some a, s) \<Rightarrow>
                  let (x, s) = new_string env nm s
                  in (e\<lparr>pFileInfo := pFileInfo e @ [\<lparr>fi_szFileName = x, dwFileNameLen = 2 * length nm, dwAction = act\<rparr>]\<rparr>, s)
         else (e, s));
          (es, s) = AddFileToEvent env es (Some nm) dwFlags act s
      in (e # es, s))"

definition count_change :: "NOTEVENTENTRY \<Rightarrow> NOTEVENTENTRY" where
  "count_change e = e\<lparr>signalled := (signalled e \<or> dwCount e = 0), dwCount := dwCount e + 1\<rparr>"

definition CheckEventOnPath :: "bool \<Rightarrow> bool \<Rightarrow> NOTEVENTENTRY list \<Rightarrow> NOTEVENTENTRY list" where
  "CheckEventOnPath bSubTree bPath es =
     map (\<lambda>e. if (bSubTree \<or> bWatchSubTree e) \<and>
                 (bPath \<and> e_dwFlags e AND FILE_NOTIFY_CHANGE_DIR_NAME \<noteq> 0 \<or>
                  \<not> bPath \<and> e_dwFlags e AND FILE_NOTIFY_CHANGE_FILE_NAME \<noteq> 0)
              then count_change e else e) es"

definition CheckEventOnHandle :: "DWORD \<Rightarrow> bool \<Rightarrow> NOTEVENTENTRY list \<Rightarrow> NOTEVENTENTRY list" where
  "CheckEventOnHandle dwFlags bSubTree es =
     map (\<lambda>e. if (bSubTree \<or> bWatchSubTree e) \<and> e_dwFlags e AND dwFlags \<noteq> 0 then count_change e else e) es"

definition add_file ::
    "not_env \<Rightarrow> NOTVOLENTRY \<Rightarrow> nat list \<Rightarrow> string option \<Rightarrow> DWORD \<Rightarrow> nat \<Rightarrow> NotifyState \<Rightarrow> NOTVOLENTRY \<times> NotifyState" where
  "add_file env w pos nm dwFlags act s =
     (let (es, s) = AddFileToEvent env (events_here w pos) nm dwFlags act s in (put_events w pos es, s))"

text \<open>The loop from a directory up to the volume; \<open>bSubTree\<close> holds at its first step only.\<close>

definition tell_up :: "(bool \<Rightarrow> NOTEVENTENTRY list \<Rightarrow> NOTEVENTENTRY list) \<Rightarrow> NOTVOLENTRY \<Rightarrow> nat list \<Rightarrow> bool \<Rightarrow> NOTVOLENTRY" where
  "tell_up check w pos bSubTree =
     w\<lparr>pDirEntry := on_trail (\<lambda>d. set_events (check bSubTree (pEvents d)) d)
                     (\<lambda>d. set_events (check False (pEvents d)) d) pos (pDirEntry w),
       v_pEvents := check (bSubTree \<and> pos = []) (v_pEvents w)\<rparr>"

section \<open>Volumes\<close>

definition NotifyCreateVolume :: "not_env \<Rightarrow> string \<Rightarrow> NotifyState \<Rightarrow> nat option \<times> NotifyState" where
  "NotifyCreateVolume env szNotifyPoint s =
     (case allocate env s of
        (None, s) \<Rightarrow> (None, s)
      | (Some a, s) \<Rightarrow>
          let (n, s) = new_string env szNotifyPoint s;
              w = \<lparr>v_addr = a, szVolumeName = n, pDirEntry = [], v_pEvents = [], v_pHandles = []\<rparr>
          in (Some a, s\<lparr>g_pRootVolume := w # g_pRootVolume s\<rparr>))"

text \<open>\<open>pVolume\<close> of the events becomes \<open>NULL\<close>: they go to \<open>closed_events\<close>.\<close>

definition ClearEvents :: "not_env \<Rightarrow> NOTEVENTENTRY list \<Rightarrow> NotifyState \<Rightarrow> NotifyState" where
  "ClearEvents env es s =
     (let (es, s) = AddFileToEvent env es (Some [backslash]) FILE_NOTIFY_CHANGE_DIR_NAME FILE_ACTION_REMOVED s
      in s\<lparr>closed_events := closed_events s @ CheckEventOnPath True True es\<rparr>)"

fun DeleteNotDirEntry :: "not_env \<Rightarrow> NOTDIRENTRY list \<Rightarrow> NotifyState \<Rightarrow> NotifyState" where
  "DeleteNotDirEntry env [] s = s"
| "DeleteNotDirEntry env (NOTDIRENTRY n es hs cs # ds) s =
     DeleteNotDirEntry env ds (DeleteNotDirEntry env cs (ClearEvents env es s))"

definition NotifyDeleteVolume :: "not_env \<Rightarrow> nat \<Rightarrow> NotifyState \<Rightarrow> NotifyState option" where
  "NotifyDeleteVolume env v s =
     (if v = 0 then Some s
      else do {
        s \<leftarrow> ENTERNOTIFY v s;
        w \<leftarrow> volume_at s v;
        let s = DeleteNotDirEntry env (pDirEntry w) s;
        let s = ClearEvents env (v_pEvents w) s;
        let s = EXITNOTIFY v s;
        Some (s\<lparr>g_pRootVolume := filter (\<lambda>x. v_addr x \<noteq> v) (g_pRootVolume s)\<rparr>)
      })"

section \<open>Handles and events\<close>

text \<open>Both creations return without \<open>EXITNOTIFY\<close> when their entry cannot be allocated.\<close>

definition NotifyCreateFile :: "not_env \<Rightarrow> nat \<Rightarrow> string \<Rightarrow> NotifyState \<Rightarrow> (nat option \<times> NotifyState) option" where
  "NotifyCreateFile env v szFullPath s =
     do {
       s \<leftarrow> ENTERNOTIFY v s;
       w \<leftarrow> volume_at s v;
       let ((pos, nm, _), w, written, s) = InsertOrFindDirEntry env w szFullPath True False False False s;
       case allocate env s of
         (None, s) \<Rightarrow> Some (None, put_volume w s)
       | (Some a, s) \<Rightarrow>
           let x = \<lparr>h_addr = a, h_changed = False, h_szFileName = nm, name_set = written\<rparr>
           in Some (Some a, EXITNOTIFY v (put_volume (put_handles w pos (x # handles_here w pos)) s))
     }"

text \<open>The new event is put into its list in one go, with \<open>hNotify\<close>, which is set after \<open>EXITNOTIFY\<close>.\<close>

definition create_handle :: "not_env \<Rightarrow> NotifyState \<Rightarrow> nat \<times> NotifyState" where
  "create_handle env s = (let (a, s) = allocate env s in (case a of None \<Rightarrow> 0 | Some a \<Rightarrow> a, s))"

definition NotifyCreateEvent ::
    "not_env \<Rightarrow> nat \<Rightarrow> nat \<Rightarrow> string \<Rightarrow> bool \<Rightarrow> DWORD \<Rightarrow> NotifyState \<Rightarrow> (nat option \<times> NotifyState) option" where
  "NotifyCreateEvent env v proc szPath subtree dwFlags s =
     do {
       s \<leftarrow> ENTERNOTIFY v s;
       w \<leftarrow> volume_at s v;
       let ((pos, _, _), w, _, s) = InsertOrFindDirEntry env w szPath False True False False s;
       case allocate env s of
         (None, s) \<Rightarrow> Some (None, put_volume w s)
       | (Some a, s) \<Rightarrow>
           let (h, s) = create_handle env s;
               s = EXITNOTIFY v s;
               (k, s) = create_handle env s;
               e = \<lparr>e_addr = a, e_dwFlags = dwFlags, bWatchSubTree = subtree, hProc = proc, hEvent = h,
                    hNotify = k, dwCount = 0, pFileInfo = [], signalled = False\<rparr>
           in Some (Some h, put_volume (put_events w pos (e # events_here w pos)) s)
     }"

definition NotifyHandleChangeEx :: "not_env \<Rightarrow> nat \<Rightarrow> nat \<Rightarrow> DWORD \<Rightarrow> nat \<Rightarrow> NotifyState \<Rightarrow> NotifyState option" where
  "NotifyHandleChangeEx env v h dwFlags act s =
     do {
       s \<leftarrow> ENTERNOTIFY v s;
       w \<leftarrow> volume_at s v;
       pos \<leftarrow> handle_pos w h;
       x \<leftarrow> find (\<lambda>x. h_addr x = h) (handles_here w pos);
       if \<not> name_set x then None
       else let w = put_handles w pos
                      (map (\<lambda>y. if h_addr y = h then y\<lparr>h_changed := True\<rparr> else y) (handles_here w pos));
                (w, s) = add_file env w pos (h_szFileName x) dwFlags act s
            in Some (EXITNOTIFY v (put_volume (tell_up (CheckEventOnHandle dwFlags) w pos True) s))
     }"

definition NotifyHandleChange :: "not_env \<Rightarrow> nat \<Rightarrow> nat \<Rightarrow> DWORD \<Rightarrow> NotifyState \<Rightarrow> NotifyState option" where
  "NotifyHandleChange env v h dwFlags s = NotifyHandleChangeEx env v h dwFlags FILE_ACTION_MODIFIED s"

definition NotifyCloseHandle :: "not_env \<Rightarrow> nat \<Rightarrow> nat \<Rightarrow> NotifyState \<Rightarrow> NotifyState option" where
  "NotifyCloseHandle env v h s =
     (if h = 0 then Some s
      else do {
        w \<leftarrow> volume_at s v;
        pos \<leftarrow> handle_pos w h;
        x \<leftarrow> find (\<lambda>x. h_addr x = h) (handles_here w pos);
        s \<leftarrow> (if h_changed x
              then NotifyHandleChangeEx env v h
                     (FILE_NOTIFY_CHANGE_ATTRIBUTES OR FILE_NOTIFY_CHANGE_SIZE OR FILE_NOTIFY_CHANGE_LAST_WRITE OR
                      FILE_NOTIFY_CHANGE_LAST_ACCESS OR FILE_NOTIFY_CHANGE_CREATION) FILE_ACTION_CHANGE_COMPLETED s
              else Some s);
        s \<leftarrow> ENTERNOTIFY v s;
        w \<leftarrow> volume_at s v;
        let w = put_handles w pos (filter (\<lambda>x. h_addr x \<noteq> h) (handles_here w pos));
        Some (EXITNOTIFY v (put_volume (clean_up w pos) s))
      })"

text \<open>An event of a deleted volume is in no list any more.\<close>

definition NotifyCloseEvent :: "nat \<Rightarrow> NotifyState \<Rightarrow> NotifyState option" where
  "NotifyCloseEvent a s =
     (if a \<in> e_addr ` set (closed_events s)
      then Some (s\<lparr>closed_events := filter (\<lambda>e. e_addr e \<noteq> a) (closed_events s)\<rparr>)
      else do {
        (w, pos) \<leftarrow> event_home s a;
        s \<leftarrow> ENTERNOTIFY (v_addr w) s;
        let v = v_addr w;
        let w = put_events w pos (filter (\<lambda>e. e_addr e \<noteq> a) (events_here w pos));
        Some (EXITNOTIFY v (put_volume (clean_up w pos) s))
      })"

section \<open>Changes of paths\<close>

definition path_change :: "not_env \<Rightarrow> NOTVOLENTRY \<Rightarrow> string \<Rightarrow> bool \<Rightarrow> nat \<Rightarrow> NotifyState \<Rightarrow> NOTVOLENTRY \<times> NotifyState" where
  "path_change env w szPath bPath act s =
     (if bPath \<and> (act = FILE_ACTION_REMOVED \<or> act = FILE_ACTION_RENAMED_OLD_NAME)
      then let ((pos, nm, _), w, _, s) = InsertOrFindDirEntry env w szPath True bPath True False s;
               own = (case node_at pos (pDirEntry w) of None \<Rightarrow> False | Some d \<Rightarrow> nm \<noteq> None \<and> nm = szDirectory d);
               (w, s) =
                 (if own
                  then let (w, s) = add_file env w pos (Some [backslash]) FILE_NOTIFY_CHANGE_DIR_NAME FILE_ACTION_REMOVED s
                       in (put_events w pos (CheckEventOnPath True bPath (events_here w pos)), s)
                  else (w, s));
               ((pos, nm, bSubTree), w, _, s) = InsertOrFindDirEntry env w szPath True False True True s;
               (w, s) = (if bSubTree then add_file env w pos nm FILE_NOTIFY_CHANGE_DIR_NAME act s else (w, s))
           in (tell_up (\<lambda>b. CheckEventOnPath b True) w pos bSubTree, s)
      else let ((pos, nm, bSubTree), w, _, s) = InsertOrFindDirEntry env w szPath True bPath True True s;
               (w, s) =
                 (if bSubTree
                  then add_file env w pos nm (if bPath then FILE_NOTIFY_CHANGE_DIR_NAME else FILE_NOTIFY_CHANGE_FILE_NAME) act s
                  else (w, s))
           in (tell_up (\<lambda>b. CheckEventOnPath b bPath) w pos bSubTree, s))"

definition NotifyPathChange :: "not_env \<Rightarrow> nat \<Rightarrow> string \<Rightarrow> bool \<Rightarrow> nat \<Rightarrow> NotifyState \<Rightarrow> NotifyState option" where
  "NotifyPathChange env v szPath bPath act s =
     do {
       s \<leftarrow> ENTERNOTIFY v s;
       w \<leftarrow> volume_at s v;
       let (w, s) = path_change env w szPath bPath act s;
       Some (EXITNOTIFY v (put_volume w s))
     }"

text \<open>The position of the last backslash, 0 when there is none behind the first character.\<close>

fun last_backslash :: "string \<Rightarrow> nat \<Rightarrow> nat" where
  "last_backslash x 0 = 0"
| "last_backslash x (Suc n) =
     (if Suc n < length x \<and> x ! Suc n = backslash then Suc n else last_backslash x n)"

definition GetFileNameOffset :: "string \<Rightarrow> nat" where
  "GetFileNameOffset x = last_backslash x (length x)"

text \<open>The path whose attributes are read: with the name of the volume in front when that fits.\<close>

definition attributes_path :: "NOTVOLENTRY \<Rightarrow> string \<Rightarrow> string" where
  "attributes_path w lpszNew =
     (let szVol = (case szVolumeName w of None \<Rightarrow> [] | Some n \<Rightarrow> n)
      in if length szVol > 1 \<and> length lpszNew + length szVol + 1 < 260 then szVol @ lpszNew else lpszNew)"

definition NotifyMoveFile :: "not_env \<Rightarrow> nat \<Rightarrow> string \<Rightarrow> string \<Rightarrow> NotifyState \<Rightarrow> NotifyState option" where
  "NotifyMoveFile env v lpszExisting lpszNew s =
     (case volume_at s v of
        None \<Rightarrow> None
      | Some w \<Rightarrow>
          let dwLen1 = GetFileNameOffset lpszExisting;
              dwLen2 = GetFileNameOffset lpszNew;
              bSameDir = (dwLen1 = dwLen2 \<and> take dwLen1 lpszExisting = take dwLen1 lpszNew);
              dwAttr = n_attributes env (attributes_path w lpszNew);
              bPath = (dwAttr = Some True)
          in do {
               s \<leftarrow> ENTERNOTIFY v s;
               s \<leftarrow> NotifyPathChange env v lpszExisting bPath
                     (if bSameDir then FILE_ACTION_RENAMED_OLD_NAME else FILE_ACTION_REMOVED) s;
               s \<leftarrow> NotifyPathChange env v lpszNew bPath
                     (if bSameDir then FILE_ACTION_RENAMED_NEW_NAME else FILE_ACTION_ADDED) s;
               Some (EXITNOTIFY v s)
             })"

section \<open>Reading what changed\<close>

text \<open>
  The buffer of a caller: \<open>lpBuffer\<close> holds the accessible bytes; the two other pointers are \<open>NULL\<close> or
  valid.  A record is \<open>FILE_NOTIFY_INFORMATION\<close>, 16 bytes with the first character of the name at 12.
\<close>

record NOTGETNEXTDATA =
  nBufferLength :: nat
  lpBuffer :: "BYTE list option"
  lpBytesReturned :: bool
  lpBytesAvailable :: bool

record reset_result =
  fRet :: bool
  r_buffer :: "BYTE list option"
  r_returned :: "nat option"
  r_available :: "nat option"

definition align4 :: "nat \<Rightarrow> nat" where
  "align4 n = (if n mod 4 \<noteq> 0 then n + (4 - n mod 4) else n)"

definition record_size :: "nat \<Rightarrow> nat" where "record_size nameLen = align4 (nameLen + 2 + 16)"

definition wide_bytes :: "string \<Rightarrow> BYTE list" where
  "wide_bytes x = concat (map (\<lambda>c. word_bytes (of_char c)) x)"

definition record_bytes :: "nat \<Rightarrow> nat \<Rightarrow> string \<Rightarrow> BYTE list" where
  "record_bytes act len nm =
     dword_bytes 0 @ dword_bytes act @ dword_bytes len @ take (len + 2) (wide_bytes nm @ [0, 0])"

datatype reset_end = Emptied | Full | Fault

text \<open>
  \<open>prev\<close> is the offset of \<open>pNotInfo\<close> with \<open>dwPrevLen\<close>.  The result is what is left of the queue, the
  buffer, \<open>dwBytesReturned\<close> and \<open>dwCount\<close>.  What a record that cannot be written changes in the buffer is left out.
\<close>

fun reset_loop ::
    "nat \<Rightarrow> NOTFILEINFO list \<Rightarrow> BYTE list option \<Rightarrow> nat \<Rightarrow> (nat \<times> nat) option \<Rightarrow> nat \<Rightarrow>
     NOTFILEINFO list \<times> BYTE list option \<times> nat \<times> nat \<times> reset_end" where
  "reset_loop lim [] buf ret prev cnt = ([], buf, ret, cnt, Emptied)"
| "reset_loop lim (fi # fis) buf ret prev cnt =
     (let dwLen = record_size (dwFileNameLen fi)
      in if dwLen + ret \<le> lim
         then case (buf, fi_szFileName fi) of
                (Some b, Some nm) \<Rightarrow>
                  if ret + 12 + dwFileNameLen fi + 2 \<le> length b
                  then let b = (case prev of None \<Rightarrow> b | Some (p, l) \<Rightarrow> overwrite b p (dword_bytes l));
                           b = overwrite b ret (record_bytes (dwAction fi) (dwFileNameLen fi) nm)
                       in reset_loop lim fis (Some b) (ret + dwLen) (Some (ret, dwLen)) (cnt + 1)
                  else (fi # fis, buf, ret, cnt, Fault)
              | _ \<Rightarrow> (fi # fis, buf, ret, cnt, Fault)
         else (fi # fis, buf, ret, cnt, Full))"

definition bytes_available :: "NOTFILEINFO list \<Rightarrow> nat" where
  "bytes_available fis = foldl (\<lambda>n fi. align4 (n + (dwFileNameLen fi + 2 + 16))) 0 fis"

definition ERROR_INSUFFICIENT_BUFFER :: nat where "ERROR_INSUFFICIENT_BUFFER = 122"
definition ERROR_MORE_DATA :: nat where "ERROR_MORE_DATA = 234"

text \<open>The body of \<open>NotifyReset\<close> on the event: the event, the result and the error that is set.\<close>

definition reset_event :: "NOTEVENTENTRY \<Rightarrow> NOTGETNEXTDATA option \<Rightarrow> NOTEVENTENTRY \<times> reset_result \<times> nat option" where
  "reset_event e pData =
     (let e = e\<lparr>signalled := False\<rparr>
      in case pData of
           Some d \<Rightarrow>
             if dwCount e \<noteq> 0
             then let (fis, buf, ret, cnt, stop) = reset_loop (nBufferLength d) (pFileInfo e) (lpBuffer d) 0 None 0;
                      e = e\<lparr>pFileInfo := fis\<rparr>
                  in if stop = Fault
                     then (e, \<lparr>fRet = False, r_buffer = buf, r_returned = None, r_available = None\<rparr>,
                           Some ERROR_INVALID_PARAMETER)
                     else let e = e\<lparr>dwCount := if dwCount e > of_nat cnt then dwCount e - of_nat cnt else 0\<rparr>;
                              e = e\<lparr>signalled := (dwCount e \<noteq> 0)\<rparr>
                          in (e, \<lparr>fRet = True, r_buffer = buf,
                                  r_returned = (if lpBytesReturned d then Some ret else None),
                                  r_available = (if lpBytesAvailable d then Some (bytes_available fis) else None)\<rparr>,
                              if stop = Emptied then None
                              else Some (if cnt \<noteq> 0 then ERROR_MORE_DATA else ERROR_INSUFFICIENT_BUFFER))
             else (e, \<lparr>fRet = True, r_buffer = lpBuffer d, r_returned = None, r_available = None\<rparr>, None)
         | None \<Rightarrow>
             let e = e\<lparr>dwCount := if dwCount e \<noteq> 0 then dwCount e - 1 else 0\<rparr>;
                 e = e\<lparr>signalled := (dwCount e \<noteq> 0)\<rparr>
             in (e, \<lparr>fRet = True, r_buffer = None, r_returned = None, r_available = None\<rparr>, None))"

definition set_error :: "nat option \<Rightarrow> NotifyState \<Rightarrow> NotifyState" where
  "set_error err s = (case err of None \<Rightarrow> s | Some x \<Rightarrow> s\<lparr>n_error := x\<rparr>)"

definition put_event :: "NOTEVENTENTRY \<Rightarrow> NOTEVENTENTRY list \<Rightarrow> NOTEVENTENTRY list" where
  "put_event e es = map (\<lambda>x. if e_addr x = e_addr e then e else x) es"

definition NotifyReset :: "nat \<Rightarrow> NOTGETNEXTDATA option \<Rightarrow> NotifyState \<Rightarrow> (reset_result \<times> NotifyState) option" where
  "NotifyReset a pData s =
     (case find (\<lambda>e. e_addr e = a) (closed_events s) of
        Some e \<Rightarrow>
          let (e, r, err) = reset_event e pData
          in Some (r, set_error err (s\<lparr>closed_events := put_event e (closed_events s)\<rparr>))
      | None \<Rightarrow> do {
          (w, pos) \<leftarrow> event_home s a;
          e \<leftarrow> find (\<lambda>e. e_addr e = a) (events_here w pos);
          s \<leftarrow> ENTERNOTIFY (v_addr w) s;
          let (e, r, err) = reset_event e pData;
          let s = set_error err (put_volume (put_events w pos (put_event e (events_here w pos))) s);
          Some (r, EXITNOTIFY (v_addr w) s)
        })"

section \<open>The calls of applications\<close>

text \<open>The search enters and leaves the sections of the volumes one after the other, up to the one that holds the event.\<close>

fun GetNotifiyHandle :: "NOTVOLENTRY list \<Rightarrow> nat \<Rightarrow> NotifyState \<Rightarrow> nat option" where
  "GetNotifiyHandle [] h s = Some 0"
| "GetNotifiyHandle (w # ws) h s =
     (case ENTERNOTIFY (v_addr w) s of
        None \<Rightarrow> None
      | Some s \<Rightarrow>
          let x = (case find (\<lambda>e. hEvent e = h) (v_pEvents w) of None \<Rightarrow> 0 | Some e \<Rightarrow> hNotify e);
              y = (if x \<noteq> 0 then x else FindNotifyHandleOnDirectory (pDirEntry w) h)
          in if y \<noteq> 0 then Some y else GetNotifiyHandle ws h (EXITNOTIFY (v_addr w) s))"

text \<open>The kernel passes a call on an API handle to the event the handle was created for.\<close>

definition object_of :: "NotifyState \<Rightarrow> nat \<Rightarrow> nat option" where
  "object_of s k =
     map_option e_addr (find (\<lambda>e. k \<noteq> 0 \<and> hNotify e = k)
       (closed_events s @ concat (map (\<lambda>w. v_pEvents w @ tree_events (pDirEntry w)) (g_pRootVolume s))))"

definition notify_handle :: "not_env \<Rightarrow> nat \<Rightarrow> NotifyState \<Rightarrow> nat option" where
  "notify_handle env h s =
     (if n_eventdata env h \<noteq> 0 then Some (n_eventdata env h) else GetNotifiyHandle (g_pRootVolume s) h s)"

definition NotifyGetNextChange ::
    "not_env \<Rightarrow> nat \<Rightarrow> nat \<Rightarrow> NOTGETNEXTDATA \<Rightarrow> NotifyState \<Rightarrow> (reset_result \<times> NotifyState) option" where
  "NotifyGetNextChange env h dwFlags d s =
     (let failed = \<lparr>fRet = False, r_buffer = lpBuffer d, r_returned = None, r_available = None\<rparr>;
          pData = (if dwFlags = 0 \<and> lpBuffer d = None \<and> nBufferLength d = 0 \<and> \<not> lpBytesReturned d \<and> \<not> lpBytesAvailable d
                   then None else Some d)
      in case notify_handle env h s of
           None \<Rightarrow> None
         | Some k \<Rightarrow>
             if k = 0 then Some (failed, s)
             else case object_of s k of
                    None \<Rightarrow> Some (failed, s)
                  | Some a \<Rightarrow> NotifyReset a pData s)"

definition NotifyCloseChangeHandle :: "not_env \<Rightarrow> nat \<Rightarrow> NotifyState \<Rightarrow> (bool \<times> NotifyState) option" where
  "NotifyCloseChangeHandle env h s =
     (case notify_handle env h s of
        None \<Rightarrow> None
      | Some k \<Rightarrow>
          if k = 0 then Some (False, s)
          else case object_of s k of
                 None \<Rightarrow> Some (True, s)
               | Some a \<Rightarrow> map_option (Pair True) (NotifyCloseEvent a s))"

end
