(* ===== verification/Notify_Sections.thy ===== *)
theory Notify_Sections
  imports Notify_Ops
begin

text \<open>
  The critical sections of the volumes: which sections are entered does not matter to the work that a
  call does inside one, and every call leaves the sections it entered, but for a creation that cannot
  allocate its entry.

  So a call that finds its section free (rules \<open>NotifyX_free\<close>) does the work of its body on the state,
  and one that finds it owned by another thread does not return (\<open>NotifyX_waits\<close>).
\<close>

section \<open>The owners of sections\<close>

definition tagged :: "(nat \<times> nat) list \<Rightarrow> nat \<Rightarrow> NotifyState \<Rightarrow> NotifyState" where
  "tagged hs t s = s\<lparr>held := hs, n_thread := t\<rparr>"

definition kept :: "NotifyState \<Rightarrow> NotifyState \<Rightarrow> bool" where
  "kept s s' \<longleftrightarrow> held s' = held s \<and> n_thread s' = n_thread s"

lemma tagged_simps [simp]:
  "g_pRootVolume (tagged hs t s) = g_pRootVolume s" "closed_events (tagged hs t s) = closed_events s"
  "n_tick (tagged hs t s) = n_tick s" "n_next (tagged hs t s) = n_next s" "n_error (tagged hs t s) = n_error s"
  "held (tagged hs t s) = hs" "n_thread (tagged hs t s) = t"
  "(tagged hs t s)\<lparr>g_pRootVolume := r\<rparr> = tagged hs t (s\<lparr>g_pRootVolume := r\<rparr>)"
  "(tagged hs t s)\<lparr>closed_events := c\<rparr> = tagged hs t (s\<lparr>closed_events := c\<rparr>)"
  "(tagged hs t s)\<lparr>n_tick := k\<rparr> = tagged hs t (s\<lparr>n_tick := k\<rparr>)"
  "(tagged hs t s)\<lparr>n_next := k\<rparr> = tagged hs t (s\<lparr>n_next := k\<rparr>)"
  "(tagged hs t s)\<lparr>n_error := k\<rparr> = tagged hs t (s\<lparr>n_error := k\<rparr>)"
  "tagged (held s) (n_thread s) s = s" "tagged hs t (tagged hs' t' s) = tagged hs t s"
  by (simp_all add: tagged_def)

lemma kept_refl [simp]: "kept s s" by (simp add: kept_def)

lemma kept_trans: "kept s t \<Longrightarrow> kept t u \<Longrightarrow> kept s u" by (simp add: kept_def)

lemma tagged_kept: "kept s s' \<Longrightarrow> tagged (held s) (n_thread s) s' = s'"
  by (simp add: kept_def tagged_def)

text \<open>A function that commutes with \<open>tagged\<close> keeps the sections.\<close>

lemma kept_commute:
  assumes "\<And>hs t. snd (f (tagged hs t s)) = tagged hs t (snd (f s))"
  shows "kept s (snd (f s))"
  using assms [of "held s" "n_thread s"] by (metis kept_def tagged_simps(6,7,13))

section \<open>The work inside a section\<close>

lemma tagged_allocate: "allocate env (tagged hs t s) = apsnd (tagged hs t) (allocate env s)"
  by (simp add: allocate_def)

lemma tagged_string: "new_string env x (tagged hs t s) = apsnd (tagged hs t) (new_string env x s)"
  by (simp add: new_string_def tagged_allocate split: prod.splits)

lemma tagged_name: "default_name env wn p x (tagged hs t s) = apsnd (tagged hs t) (default_name env wn p x s)"
  by (simp add: default_name_def tagged_string split: option.splits)

lemma tagged_not_found: "not_found env wn ws nm x (tagged hs t s) = apsnd (tagged hs t) (not_found env wn ws nm x s)"
  by (simp add: not_found_def tagged_string Let_def split: prod.splits)

lemma tagged_dir: "CreateDirEntry env nm (tagged hs t s) = apsnd (tagged hs t) (CreateDirEntry env nm s)"
  by (simp add: CreateDirEntry_def tagged_allocate tagged_string split: prod.splits)

lemmas tagged_strings = tagged_allocate tagged_string tagged_name tagged_not_found tagged_dir

lemma tagged_dir_loop:
  "dir_loop env bf wn ws cur b pc ds (tagged hs t s) = apsnd (apsnd (tagged hs t)) (dir_loop env bf wn ws cur b pc ds s)"
proof (induction env bf wn ws cur b pc ds s rule: dir_loop.induct)
  case (1 env bf wn ws cur b pc ds s)
  let ?nm = "takeWhile (\<lambda>c. c \<noteq> backslash) cur"
  let ?tail = "dropWhile (\<lambda>c. c \<noteq> backslash) cur"
  let ?i = "length (takeWhile (name_above ?nm) ds)"
  note D = dir_loop.simps [of env bf wn ws cur b pc ds]
  consider (stop) "cur = []" | (plain) "cur \<noteq> []" "?tail = [] \<and> \<not> b"
    | (known) "cur \<noteq> []" "\<not> (?tail = [] \<and> \<not> b)" "?i < length ds \<and> same_name ?nm (ds ! ?i)"
    | (new) "cur \<noteq> []" "\<not> (?tail = [] \<and> \<not> b)" "\<not> (?i < length ds \<and> same_name ?nm (ds ! ?i))"
    by blast
  then show ?case
  proof cases
    case stop
    then show ?thesis unfolding D by (simp add: tagged_strings split: prod.splits)
  next
    case plain
    then show ?thesis unfolding D by (simp add: tagged_strings split: prod.splits)
  next
    case known
    note IH = "1.IH"(1) [OF known(1) refl refl refl known(2) refl refl known(3)]
    show ?thesis
      unfolding D if_not_P [OF known(1)] Let_def if_not_P [OF known(2)] if_P [OF known(3)] IH
      by (simp split: prod.splits)
  next
    case new
    show ?thesis
    proof (cases bf)
      case True
      then show ?thesis
        unfolding D if_not_P [OF new(1)] Let_def if_not_P [OF new(2)] if_not_P [OF new(3)]
        by (simp add: tagged_strings split: prod.splits)
    next
      case False
      obtain d s1 where d: "CreateDirEntry env ?nm s = (d, s1)" by (cases "CreateDirEntry env ?nm s") auto
      note E = D if_not_P [OF new(1)] Let_def if_not_P [OF new(2)] if_not_P [OF new(3)] if_not_P [OF False]
      show ?thesis
      proof (cases d)
        case None
        then show ?thesis unfolding E by (simp add: tagged_strings d)
      next
        case (Some x)
        note IH = "1.IH"(2) [OF new(1) refl refl refl new(2) refl refl new(3) False d [symmetric] Some]
        show ?thesis unfolding E
          using Some IH by (simp add: tagged_strings d split: prod.splits)
      qed
    qed
  qed
qed

lemma tagged_find:
  "InsertOrFindDirEntry env w x wn b bf ws (tagged hs t s) =
     apsnd (apsnd (apsnd (tagged hs t))) (InsertOrFindDirEntry env w x wn b bf ws s)"
  by (simp add: InsertOrFindDirEntry_def tagged_strings tagged_dir_loop Let_def split: prod.splits)

lemma tagged_AddFile: "AddFileToEvent env es nm f act (tagged hs t s) = apsnd (tagged hs t) (AddFileToEvent env es nm f act s)"
proof (induction env es nm f act s rule: AddFileToEvent.induct)
  case (3 env e es nm f act s)
  define r where "r = (\<lambda>s. if e_dwFlags e AND FILE_NOTIFY_CHANGE_CEGETINFO \<noteq> 0 \<and> e_dwFlags e AND f \<noteq> 0
         then case allocate env s of
                (None, s) \<Rightarrow> (e, s)
              | (Some a, s) \<Rightarrow>
                  let (x, s) = new_string env nm s
                  in (e\<lparr>pFileInfo := pFileInfo e @ [\<lparr>fi_szFileName = x, dwFileNameLen = 2 * length nm, dwAction = act\<rparr>]\<rparr>, s)
         else (e, s))"
  have r: "r (tagged hs t u) = apsnd (tagged hs t) (r u)" for u
    by (simp add: r_def tagged_strings split: prod.splits option.splits)
  obtain e1 s1 where rs: "r s = (e1, s1)" by (cases "r s") auto
  have IH: "AddFileToEvent env es (Some nm) f act (tagged hs t s1) = apsnd (tagged hs t) (AddFileToEvent env es (Some nm) f act s1)"
    using "3.IH" [OF rs [symmetric, unfolded r_def] refl] .
  have eq: "AddFileToEvent env (e # es) (Some nm) f act u =
      (let (e, u) = r u; (es, u) = AddFileToEvent env es (Some nm) f act u in (e # es, u))" for u
    by (simp only: AddFileToEvent.simps r_def)
  show ?case unfolding eq by (simp add: r rs IH split: prod.splits)
qed simp_all

lemma tagged_add_file: "add_file env w pos nm f act (tagged hs t s) = apsnd (tagged hs t) (add_file env w pos nm f act s)"
  by (simp add: add_file_def tagged_AddFile split: prod.splits)

lemma tagged_told:
  "(if c then add_file env w pos nm f act (tagged hs t s) else (w, tagged hs t s)) =
     apsnd (tagged hs t) (if c then add_file env w pos nm f act s else (w, s))"
  by (simp add: tagged_add_file)

lemma tagged_own:
  "(if c then let (w, s) = add_file env w pos nm f act (tagged hs t s) in (h w, s) else (w, tagged hs t s)) =
     apsnd (tagged hs t) (if c then let (w, s) = add_file env w pos nm f act s in (h w, s) else (w, s))"
  by (simp add: tagged_add_file split: prod.split)

lemma let_tagged:
  "p' = apsnd (tagged hs t) p \<Longrightarrow>
     (\<And>w s'. g w (tagged hs t s') = apsnd (tagged hs t) (g w s')) \<Longrightarrow>
     (case p' of (w, s') \<Rightarrow> g w s') = apsnd (tagged hs t) (case p of (w, s') \<Rightarrow> g w s')"
  by (simp split: prod.splits)

lemma let_tagged_find:
  assumes "\<And>pos nm c w l s'. g (pos, nm, c) (w, l, tagged hs t s') = apsnd (tagged hs t) (g (pos, nm, c) (w, l, s'))"
  shows "(case InsertOrFindDirEntry env w x wn b bf ws (tagged hs t s) of (r, q) \<Rightarrow> g r q) =
     apsnd (tagged hs t) (case InsertOrFindDirEntry env w x wn b bf ws s of (r, q) \<Rightarrow> g r q)"
  using assms by (simp add: tagged_find split: prod.splits)

lemma tagged_path_change: "path_change env w x b act (tagged hs t s) = apsnd (tagged hs t) (path_change env w x b act s)"
proof (cases "b \<and> (act = FILE_ACTION_REMOVED \<or> act = FILE_ACTION_RENAMED_OLD_NAME)")
  case True
  show ?thesis unfolding path_change_def if_P [OF True] Let_def
    apply (rule let_tagged_find, unfold prod.case)
    apply (rule let_tagged [OF tagged_own [unfolded Let_def]])
    apply (rule let_tagged_find, unfold prod.case)
    apply (rule let_tagged [OF tagged_told])
    by simp
next
  case False
  show ?thesis unfolding path_change_def if_not_P [OF False] Let_def
    apply (rule let_tagged_find, unfold prod.case)
    apply (rule let_tagged [OF tagged_told])
    by simp
qed

lemma tagged_Clear: "ClearEvents env es (tagged hs t s) = tagged hs t (ClearEvents env es s)"
  by (simp add: ClearEvents_def tagged_AddFile split: prod.splits)

lemma tagged_Delete: "DeleteNotDirEntry env ds (tagged hs t s) = tagged hs t (DeleteNotDirEntry env ds s)"
  by (induction env ds s rule: DeleteNotDirEntry.induct) (simp_all add: tagged_Clear)

lemma tagged_handle: "create_handle env (tagged hs t s) = apsnd (tagged hs t) (create_handle env s)"
  by (simp add: create_handle_def tagged_allocate split: prod.splits)

lemma tagged_volumes [simp]:
  "volume_at (tagged hs t s) v = volume_at s v" "put_volume w (tagged hs t s) = tagged hs t (put_volume w s)"
  "event_home (tagged hs t s) a = event_home s a" "set_error err (tagged hs t s) = tagged hs t (set_error err s)"
  by (simp_all add: volume_at_def put_volume_def event_home_def set_error_def split: option.splits)

lemma kept_work:
  "allocate env s = (a, s1) \<Longrightarrow> kept s s1"
  "create_handle env s = (k, s1) \<Longrightarrow> kept s s1"
  "InsertOrFindDirEntry env w x wn b bf ws s = (r, w', l, s1) \<Longrightarrow> kept s s1"
  "add_file env w pos nm f act s = (w', s1) \<Longrightarrow> kept s s1"
  "path_change env w x b act s = (w', s1) \<Longrightarrow> kept s s1"
  "kept s (ClearEvents env es s)" "kept s (DeleteNotDirEntry env ds s)" "kept s (put_volume w s)" "kept s (set_error err s)"
proof -
  show "allocate env s = (a, s1) \<Longrightarrow> kept s s1"
    using kept_commute [of "allocate env" s] by (simp add: tagged_allocate)
  show "create_handle env s = (k, s1) \<Longrightarrow> kept s s1"
    using kept_commute [of "create_handle env" s] by (simp add: tagged_handle)
  show "InsertOrFindDirEntry env w x wn b bf ws s = (r, w', l, s1) \<Longrightarrow> kept s s1"
    using kept_commute [of "\<lambda>s. snd (snd (InsertOrFindDirEntry env w x wn b bf ws s))" s] by (simp add: tagged_find)
  show "add_file env w pos nm f act s = (w', s1) \<Longrightarrow> kept s s1"
    using kept_commute [of "add_file env w pos nm f act" s] by (simp add: tagged_add_file)
  show "path_change env w x b act s = (w', s1) \<Longrightarrow> kept s s1"
    using kept_commute [of "path_change env w x b act" s] by (simp add: tagged_path_change)
  show "kept s (ClearEvents env es s)"
    using kept_commute [of "\<lambda>s. ((), ClearEvents env es s)" s] by (simp add: tagged_Clear)
  show "kept s (DeleteNotDirEntry env ds s)"
    using kept_commute [of "\<lambda>s. ((), DeleteNotDirEntry env ds s)" s] by (simp add: tagged_Delete)
  show "kept s (put_volume w s)" by (simp add: kept_def put_volume_def)
  show "kept s (set_error err s)" by (simp add: kept_def set_error_def split: option.split)
qed

section \<open>Inside the section of a volume\<close>

definition inside :: "nat \<Rightarrow> NotifyState \<Rightarrow> NotifyState" where
  "inside v s = tagged (if v = 0 then held s else (n_thread s, v) # held s) (n_thread s) s"

definition can_enter :: "nat \<Rightarrow> NotifyState \<Rightarrow> bool" where
  "can_enter v s \<longleftrightarrow> v = 0 \<or> section_free v s"

lemma enter_free: "can_enter v s \<Longrightarrow> ENTERNOTIFY v s = Some (inside v s)"
  by (auto simp: can_enter_def ENTERNOTIFY_def inside_def tagged_def)

lemma enter_waits: "ENTERNOTIFY v s = None \<longleftrightarrow> \<not> can_enter v s"
  by (simp add: ENTERNOTIFY_def can_enter_def)

lemma can_enter_nil [simp]: "held s = [] \<Longrightarrow> can_enter v s"
  by (simp add: can_enter_def section_free_def)

lemma inside_simps [simp]:
  "EXITNOTIFY v (inside v s) = s"
  "g_pRootVolume (inside v s) = g_pRootVolume s" "closed_events (inside v s) = closed_events s"
  "n_thread (inside v s) = n_thread s" "n_next (inside v s) = n_next s"
  "volume_at (inside v s) u = volume_at s u" "put_volume w (inside v s) = inside v (put_volume w s)"
  "event_home (inside v s) a = event_home s a" "set_error err (inside v s) = inside v (set_error err s)"
  "(inside v s)\<lparr>closed_events := c\<rparr> = inside v (s\<lparr>closed_events := c\<rparr>)"
  by (simp_all add: inside_def EXITNOTIFY_def put_volume_def set_error_def tagged_def volume_at_def event_home_def
      split: option.splits)

lemma held_inside: "held (inside v s) = (if v = 0 then held s else (n_thread s, v) # held s)"
  by (simp add: inside_def)

lemma can_enter_inside [simp]: "can_enter u s \<Longrightarrow> can_enter u (inside v s)"
  by (auto simp: can_enter_def section_free_def inside_def)

lemma can_enter_kept: "kept s s' \<Longrightarrow> can_enter u s' = can_enter u s"
  by (simp add: can_enter_def section_free_def kept_def)

lemma inside_kept: "kept s s' \<Longrightarrow> inside v s' = tagged (if v = 0 then held s else (n_thread s, v) # held s) (n_thread s) s'"
  by (simp add: inside_def kept_def)

lemma inside_commute:
  assumes "\<And>hs t. f (tagged hs t s) = apsnd (tagged hs t) (f s)"
  shows "f (inside v s) = apsnd (inside v) (f s)"
proof -
  have "kept s (snd (f s))" by (rule kept_commute) (simp add: assms)
  from inside_kept [OF this, of v] show ?thesis
    unfolding inside_def [of v s] assms by (simp add: prod_eq_iff)
qed

lemma inside_allocate: "allocate env (inside v s) = apsnd (inside v) (allocate env s)"
  by (rule inside_commute) (rule tagged_allocate)

lemma inside_handle: "create_handle env (inside v s) = apsnd (inside v) (create_handle env s)"
  by (rule inside_commute) (rule tagged_handle)

lemma inside_add_file: "add_file env w pos nm f act (inside v s) = apsnd (inside v) (add_file env w pos nm f act s)"
  by (rule inside_commute) (rule tagged_add_file)

lemma inside_path_change: "path_change env w x b act (inside v s) = apsnd (inside v) (path_change env w x b act s)"
  by (rule inside_commute) (rule tagged_path_change)

lemma inside_find:
  "InsertOrFindDirEntry env w x wn b bf ws (inside v s) =
     apsnd (apsnd (apsnd (inside v))) (InsertOrFindDirEntry env w x wn b bf ws s)"
proof -
  obtain r w' l s1 where i: "InsertOrFindDirEntry env w x wn b bf ws s = (r, w', l, s1)"
    by (cases "InsertOrFindDirEntry env w x wn b bf ws s") auto
  show ?thesis
    using inside_kept [OF kept_work(3) [OF i], of v] unfolding inside_def [of v s] by (simp add: tagged_find i)
qed

lemma inside_Clear: "ClearEvents env es (inside v s) = inside v (ClearEvents env es s)"
  using inside_kept [OF kept_work(6), of v env es s] by (simp add: inside_def [of v s] tagged_Clear)

lemma inside_Delete: "DeleteNotDirEntry env ds (inside v s) = inside v (DeleteNotDirEntry env ds s)"
  using inside_kept [OF kept_work(7), of v env ds s] by (simp add: inside_def [of v s] tagged_Delete)

lemmas inside_work = inside_allocate inside_handle inside_add_file inside_path_change inside_find inside_Clear inside_Delete

section \<open>Calls that find the section free\<close>

lemma NotifyDeleteVolume_free:
  "can_enter v s \<Longrightarrow> NotifyDeleteVolume env v s =
     (if v = 0 then Some s
      else case volume_at s v of
        None \<Rightarrow> None
      | Some w \<Rightarrow>
          let s = DeleteNotDirEntry env (pDirEntry w) s;
              s = ClearEvents env (v_pEvents w) s
          in Some (s\<lparr>g_pRootVolume := filter (\<lambda>x. v_addr x \<noteq> v) (g_pRootVolume s)\<rparr>))"
  by (simp add: NotifyDeleteVolume_def enter_free inside_work Let_def split: option.split)

lemma NotifyCreateFile_free:
  "can_enter v s \<Longrightarrow> NotifyCreateFile env v x s =
     (case volume_at s v of
        None \<Rightarrow> None
      | Some w \<Rightarrow>
          let ((pos, nm, _), w, written, s) = InsertOrFindDirEntry env w x True False False False s
          in case allocate env s of
               (None, s) \<Rightarrow> Some (None, inside v (put_volume w s))
             | (Some a, s) \<Rightarrow>
                 let x = \<lparr>h_addr = a, h_changed = False, h_szFileName = nm, name_set = written\<rparr>
                 in Some (Some a, put_volume (put_handles w pos (x # handles_here w pos)) s))"
  by (simp add: NotifyCreateFile_def enter_free inside_work Let_def split: option.split prod.split)

lemma NotifyCreateEvent_free:
  "can_enter v s \<Longrightarrow> NotifyCreateEvent env v proc x subtree dwFlags s =
     (case volume_at s v of
        None \<Rightarrow> None
      | Some w \<Rightarrow>
          let ((pos, _, _), w, _, s) = InsertOrFindDirEntry env w x False True False False s
          in case allocate env s of
               (None, s) \<Rightarrow> Some (None, inside v (put_volume w s))
             | (Some a, s) \<Rightarrow>
                 let (h, s) = create_handle env s;
                     (k, s) = create_handle env s;
                     e = \<lparr>e_addr = a, e_dwFlags = dwFlags, bWatchSubTree = subtree, hProc = proc, hEvent = h,
                          hNotify = k, dwCount = 0, pFileInfo = [], signalled = False\<rparr>
                 in Some (Some h, put_volume (put_events w pos (e # events_here w pos)) s))"
  by (simp add: NotifyCreateEvent_def enter_free inside_work Let_def split: option.split prod.split)

lemma NotifyHandleChangeEx_free:
  "can_enter v s \<Longrightarrow> NotifyHandleChangeEx env v h dwFlags act s =
     (case volume_at s v of
        None \<Rightarrow> None
      | Some w \<Rightarrow>
          (case handle_pos w h of
             None \<Rightarrow> None
           | Some pos \<Rightarrow>
               (case find (\<lambda>x. h_addr x = h) (handles_here w pos) of
                  None \<Rightarrow> None
                | Some x \<Rightarrow>
                    if \<not> name_set x then None
                    else let w = put_handles w pos
                                   (map (\<lambda>y. if h_addr y = h then y\<lparr>h_changed := True\<rparr> else y) (handles_here w pos));
                             (w, s) = add_file env w pos (h_szFileName x) dwFlags act s
                         in Some (put_volume (tell_up (CheckEventOnHandle dwFlags) w pos True) s))))"
  by (simp add: NotifyHandleChangeEx_def enter_free inside_work Let_def split: option.split prod.split)

lemma kept_handle_change:
  assumes "can_enter v s" "NotifyHandleChangeEx env v h dwFlags act s = Some s'"
  shows "kept s s'"
  using assms(2) unfolding NotifyHandleChangeEx_free [OF assms(1)]
  by (auto simp: Let_def kept_def put_volume_def dest!: kept_work(4) split: option.splits if_splits prod.splits)

lemma NotifyCloseHandle_free:
  assumes "can_enter v s"
  shows "NotifyCloseHandle env v h s =
     (if h = 0 then Some s
      else do {
        w \<leftarrow> volume_at s v;
        pos \<leftarrow> handle_pos w h;
        x \<leftarrow> find (\<lambda>x. h_addr x = h) (handles_here w pos);
        s \<leftarrow> (if h_changed x
              then NotifyHandleChangeEx env v h
                     (FILE_NOTIFY_CHANGE_ATTRIBUTES OR FILE_NOTIFY_CHANGE_SIZE OR FILE_NOTIFY_CHANGE_LAST_WRITE OR
                      FILE_NOTIFY_CHANGE_LAST_ACCESS OR FILE_NOTIFY_CHANGE_CREATION) FILE_ACTION_CHANGE_COMPLETED s
              else Some s);
        w \<leftarrow> volume_at s v;
        let w = put_handles w pos (filter (\<lambda>x. h_addr x \<noteq> h) (handles_here w pos));
        Some (put_volume (clean_up w pos) s)
      })"
proof -
  have f: "ENTERNOTIFY v s' = Some (inside v s')" if "kept s s'" for s'
    by (rule enter_free) (simp add: can_enter_kept [OF that] assms)
  have "(do { s1 \<leftarrow> (if c then NotifyHandleChangeEx env v h fl act s else Some s); s1 \<leftarrow> ENTERNOTIFY v s1; g s1 }) =
      (do { s1 \<leftarrow> (if c then NotifyHandleChangeEx env v h fl act s else Some s); g (inside v s1) })" for c fl act and g :: "NotifyState \<Rightarrow> NotifyState option"
    using f kept_handle_change [OF assms] by (auto split: bind_split)
  then show ?thesis unfolding NotifyCloseHandle_def by simp
qed

lemma NotifyCloseEvent_free:
  assumes "held s = []"
  shows "NotifyCloseEvent a s =
     (if a \<in> e_addr ` set (closed_events s)
      then Some (s\<lparr>closed_events := filter (\<lambda>e. e_addr e \<noteq> a) (closed_events s)\<rparr>)
      else case event_home s a of
        None \<Rightarrow> None
      | Some (w, pos) \<Rightarrow>
          let w = put_events w pos (filter (\<lambda>e. e_addr e \<noteq> a) (events_here w pos))
          in Some (put_volume (clean_up w pos) s))"
  using assms by (simp add: NotifyCloseEvent_def enter_free Let_def split: option.split prod.split)

lemma NotifyPathChange_free:
  "can_enter v s \<Longrightarrow> NotifyPathChange env v x b act s =
     (case volume_at s v of
        None \<Rightarrow> None
      | Some w \<Rightarrow> let (w, s) = path_change env w x b act s in Some (put_volume w s))"
  by (simp add: NotifyPathChange_def enter_free inside_work split: option.split prod.split)

lemma kept_path:
  assumes "can_enter v s" "NotifyPathChange env v x b act s = Some s'"
  shows "kept s s'"
  using assms(2) unfolding NotifyPathChange_free [OF assms(1)]
  by (auto simp: kept_def put_volume_def dest!: kept_work(5) split: option.splits prod.splits)

lemma inside_path:
  assumes "can_enter v s"
  shows "NotifyPathChange env v x b act (inside v s) = map_option (inside v) (NotifyPathChange env v x b act s)"
  using NotifyPathChange_free [OF assms] NotifyPathChange_free [OF can_enter_inside [OF assms]]
  by (simp add: inside_work split: option.split prod.split)

lemma NotifyMoveFile_free:
  assumes "can_enter v s"
  shows "NotifyMoveFile env v lpszExisting lpszNew s =
     (case volume_at s v of
        None \<Rightarrow> None
      | Some w \<Rightarrow>
          let dwLen1 = GetFileNameOffset lpszExisting;
              dwLen2 = GetFileNameOffset lpszNew;
              bSameDir = (dwLen1 = dwLen2 \<and> take dwLen1 lpszExisting = take dwLen1 lpszNew);
              dwAttr = n_attributes env (attributes_path w lpszNew);
              bPath = (dwAttr = Some True)
          in do {
               s \<leftarrow> NotifyPathChange env v lpszExisting bPath
                     (if bSameDir then FILE_ACTION_RENAMED_OLD_NAME else FILE_ACTION_REMOVED) s;
               NotifyPathChange env v lpszNew bPath
                 (if bSameDir then FILE_ACTION_RENAMED_NEW_NAME else FILE_ACTION_ADDED) s
             })"
proof -
  have "(do { s1 \<leftarrow> NotifyPathChange env v x b a (inside v s); s1 \<leftarrow> NotifyPathChange env v y b c s1; Some (EXITNOTIFY v s1) }) =
      (do { s1 \<leftarrow> NotifyPathChange env v x b a s; NotifyPathChange env v y b c s1 })" for x y b a c
  proof (cases "NotifyPathChange env v x b a s")
    case (Some s1)
    have "can_enter v s1" using can_enter_kept [OF kept_path [OF assms Some]] assms by simp
    then show ?thesis
      using Some inside_path [OF assms, of env x b a] inside_path [of v s1 env y b c]
      by (cases "NotifyPathChange env v y b c s1") simp_all
  qed (simp add: inside_path [OF assms])
  then show ?thesis unfolding NotifyMoveFile_def Let_def enter_free [OF assms] by (simp split: option.split)
qed

lemma NotifyReset_free:
  assumes "held s = []"
  shows "NotifyReset a pData s =
     (case find (\<lambda>e. e_addr e = a) (closed_events s) of
        Some e \<Rightarrow>
          let (e, r, err) = reset_event e pData
          in Some (r, set_error err (s\<lparr>closed_events := put_event e (closed_events s)\<rparr>))
      | None \<Rightarrow> do {
          (w, pos) \<leftarrow> event_home s a;
          e \<leftarrow> find (\<lambda>e. e_addr e = a) (events_here w pos);
          let (e, r, err) = reset_event e pData;
          Some (r, set_error err (put_volume (put_events w pos (put_event e (events_here w pos))) s))
        })"
  using assms by (simp add: NotifyReset_def enter_free split: option.split prod.split bind_split)

lemma notify_handle_returns:
  assumes "held s = []"
  shows "\<exists>k. notify_handle env h s = Some k"
proof -
  have "\<exists>k. GetNotifiyHandle ws h s = Some k" for ws
    using assms by (induction ws) (auto simp: enter_free Let_def)
  then show ?thesis by (simp add: notify_handle_def)
qed

section \<open>Calls that leave a section entered\<close>

lemma enter_some: "ENTERNOTIFY v s = Some t \<Longrightarrow> can_enter v s \<and> t = inside v s"
  using enter_free enter_waits by (metis option.distinct(1) option.inject)

lemma path_enters: "NotifyPathChange env v x b act s = Some s' \<Longrightarrow> can_enter v s"
  by (auto simp: NotifyPathChange_def bind_eq_Some_conv dest: enter_some)

lemma move_enters: "NotifyMoveFile env v x y s = Some s' \<Longrightarrow> can_enter v s"
  by (auto simp: NotifyMoveFile_def Let_def bind_eq_Some_conv dest: enter_some split: option.splits)

lemma handle_change_enters: "NotifyHandleChangeEx env v h f act s = Some s' \<Longrightarrow> can_enter v s"
  by (auto simp: NotifyHandleChangeEx_def bind_eq_Some_conv dest: enter_some)

lemma create_file_enters: "NotifyCreateFile env v x s = Some r \<Longrightarrow> can_enter v s"
  by (auto simp: NotifyCreateFile_def bind_eq_Some_conv dest: enter_some)

lemma create_event_enters: "NotifyCreateEvent env v proc x subtree f s = Some r \<Longrightarrow> can_enter v s"
  by (auto simp: NotifyCreateEvent_def bind_eq_Some_conv dest: enter_some)

lemma delete_volume_enters: "NotifyDeleteVolume env v s = Some r \<Longrightarrow> can_enter v s"
  by (auto simp: NotifyDeleteVolume_def can_enter_def bind_eq_Some_conv dest: enter_some split: if_splits)

lemma kept_move:
  assumes "NotifyMoveFile env v x y s = Some s'"
  shows "kept s s'"
proof -
  have e: "can_enter v s" by (rule move_enters [OF assms])
  obtain b a c s1 where "NotifyPathChange env v x b a s = Some s1" "NotifyPathChange env v y b c s1 = Some s'"
    using assms unfolding NotifyMoveFile_free [OF e] Let_def by (auto simp: bind_eq_Some_conv split: option.splits)
  then show ?thesis using kept_path path_enters kept_trans by metis
qed

lemma kept_delete_volume:
  assumes "NotifyDeleteVolume env v s = Some s'"
  shows "kept s s'"
proof -
  have k: "kept s (ClearEvents env es (DeleteNotDirEntry env ds s))" for es ds
    by (rule kept_trans [OF kept_work(7) kept_work(6)])
  have r: "kept s t \<Longrightarrow> kept s (t\<lparr>g_pRootVolume := ws\<rparr>)" for t ws by (simp add: kept_def)
  show ?thesis
    using assms r [OF k] unfolding NotifyDeleteVolume_free [OF delete_volume_enters [OF assms]]
    by (auto simp: Let_def split: if_splits option.splits)
qed

text \<open>A creation leaves the section it entered exactly when it returns a handle.\<close>

lemma create_file_section:
  assumes "NotifyCreateFile env v x s = Some (r, s')"
  shows "\<exists>t. kept s t \<and> s' = (if r = None then inside v t else t)"
proof -
  obtain w where w: "volume_at s v = Some w" using assms by (auto simp: NotifyCreateFile_def bind_eq_Some_conv enter_some dest!: enter_some)
  obtain pos nm su w1 l s1 where i: "InsertOrFindDirEntry env w x True False False False s = ((pos, nm, su), w1, l, s1)"
    by (metis prod_cases3)
  obtain a s2 where a: "allocate env s1 = (a, s2)" by (cases "allocate env s1") auto
  have k: "kept s (put_volume u s2)" for u
    using kept_work(3) [OF i] kept_work(1) [OF a] kept_work(8) by (blast intro: kept_trans)
  show ?thesis
    using assms w i a k unfolding NotifyCreateFile_free [OF create_file_enters [OF assms]]
    by (cases a) (auto simp: Let_def)
qed

lemma create_event_section:
  assumes "NotifyCreateEvent env v proc x subtree dwFlags s = Some (r, s')"
  shows "\<exists>t. kept s t \<and> s' = (if r = None then inside v t else t)"
proof -
  obtain w where w: "volume_at s v = Some w" using assms by (auto simp: NotifyCreateEvent_def bind_eq_Some_conv dest!: enter_some)
  obtain pos nm su w1 l s1 where i: "InsertOrFindDirEntry env w x False True False False s = ((pos, nm, su), w1, l, s1)"
    by (metis prod_cases3)
  obtain a s2 where a: "allocate env s1 = (a, s2)" by (cases "allocate env s1") auto
  obtain h s3 where h: "create_handle env s2 = (h, s3)" by (cases "create_handle env s2") auto
  obtain k s4 where k: "create_handle env s3 = (k, s4)" by (cases "create_handle env s3") auto
  have k2: "kept s (put_volume u s2)" for u
    using kept_work(3) [OF i] kept_work(1) [OF a] kept_work(8) by (blast intro: kept_trans)
  have k4: "kept s (put_volume u s4)" for u
    using kept_work(3) [OF i] kept_work(1) [OF a] kept_work(2) [OF h] kept_work(2) [OF k] kept_work(8) by (blast intro: kept_trans)
  show ?thesis
    using assms w i a h k k2 k4 unfolding NotifyCreateEvent_free [OF create_event_enters [OF assms]]
    by (cases a) (auto simp: Let_def)
qed

lemma kept_close_handle:
  assumes "NotifyCloseHandle env v h s = Some s'"
  shows "kept s s'"
proof (cases "h = 0")
  case True
  then show ?thesis using assms by (simp add: NotifyCloseHandle_def)
next
  case False
  obtain s1 t w' where s1: "s1 = s \<or> (\<exists>f a. NotifyHandleChangeEx env v h f a s = Some s1)"
    and t: "ENTERNOTIFY v s1 = Some t" and s': "s' = EXITNOTIFY v (put_volume w' t)"
    using assms False unfolding NotifyCloseHandle_def
    by (auto simp: bind_eq_Some_conv split: if_splits) blast+
  have "kept s s1" using s1 kept_handle_change handle_change_enters by auto
  moreover have "kept s1 s'" using enter_some [OF t] s' kept_work(8) by auto
  ultimately show ?thesis by (rule kept_trans)
qed

lemma kept_close_event:
  assumes "NotifyCloseEvent a s = Some s'"
  shows "kept s s'"
proof (cases "a \<in> e_addr ` set (closed_events s)")
  case True
  then show ?thesis using assms by (auto simp: NotifyCloseEvent_def kept_def)
next
  case False
  then obtain v t w' where t: "ENTERNOTIFY v s = Some t" "s' = EXITNOTIFY v (put_volume w' t)"
    using assms unfolding NotifyCloseEvent_def by (auto simp: Let_def bind_eq_Some_conv)
  then show ?thesis using enter_some [OF t(1)] kept_work(8) by auto
qed

lemma kept_reset:
  assumes "NotifyReset a d s = Some (r, s')"
  shows "kept s s'"
proof (cases "find (\<lambda>e. e_addr e = a) (closed_events s)")
  case None
  then obtain w pos e t where t: "ENTERNOTIFY (v_addr w) s = Some t"
      "(let (e, r, err) = reset_event e d; s = set_error err (put_volume (put_events w pos (put_event e (events_here w pos))) t)
        in Some (r, EXITNOTIFY (v_addr w) s)) = Some (r, s')"
    using assms unfolding NotifyReset_def by (auto simp: Let_def bind_eq_Some_conv)
  obtain e1 r1 err where "reset_event e d = (e1, r1, err)" by (cases "reset_event e d") auto
  then show ?thesis using enter_some [OF t(1)] t(2) kept_trans [OF kept_work(8) kept_work(9)] by auto
next
  case (Some e)
  have "kept s (s\<lparr>closed_events := c\<rparr>)" for c by (simp add: kept_def)
  then show ?thesis
    using assms Some kept_work(9) kept_trans unfolding NotifyReset_def by (auto simp: Let_def split: prod.splits) blast+
qed

lemma kept_calls:
  "NotifyGetNextChange env h f d s = Some (r, s') \<Longrightarrow> kept s s'"
  "NotifyCloseChangeHandle env h s = Some (b, s') \<Longrightarrow> kept s s'"
  by (auto simp: NotifyGetNextChange_def NotifyCloseChangeHandle_def Let_def dest: kept_reset kept_close_event
      split: option.splits if_splits)

end
