(* ===== verification/Notify_View.thy ===== *)
theory Notify_View
  imports Notify_Sections "HOL-Library.Sublist"
begin

text \<open>
  The tree of a volume as a map from directories to their watchers: \<open>watch w q\<close> are the events of the
  directory whose path has the folded names \<open>q\<close>, \<open>[]\<close> for the volume itself.  \<open>forest_ok\<close> says that
  children are sorted by name, \<open>tidy\<close> that no directory is empty.
\<close>

section \<open>Well-formed trees\<close>

definition dir_key :: "NOTDIRENTRY \<Rightarrow> nat list" where
  "dir_key d = (case szDirectory d of None \<Rightarrow> [] | Some n \<Rightarrow> wcs_key n)"

lemma dir_key_simps [simp]:
  "dir_key (NOTDIRENTRY (Some n) es hs cs) = wcs_key n" "dir_key (set_child cs d) = dir_key d"
  "dir_key (set_events es d) = dir_key d" "dir_key (set_handles hs d) = dir_key d"
  by (simp_all add: dir_key_def)

fun forest_ok :: "NOTDIRENTRY list \<Rightarrow> bool" where
  "forest_ok [] \<longleftrightarrow> True"
| "forest_ok (NOTDIRENTRY n es hs cs # ds) \<longleftrightarrow>
     n \<noteq> None \<and> forest_ok cs \<and> (\<forall>d \<in> set ds. dir_key (NOTDIRENTRY n es hs cs) < dir_key d) \<and> forest_ok ds"

fun tidy :: "NOTDIRENTRY list \<Rightarrow> bool" where
  "tidy [] \<longleftrightarrow> True"
| "tidy (NOTDIRENTRY n es hs cs # ds) \<longleftrightarrow> \<not> (hs = [] \<and> es = [] \<and> cs = []) \<and> tidy cs \<and> tidy ds"

lemma forest_ok_Cons:
  "forest_ok (d # ds) \<longleftrightarrow> szDirectory d \<noteq> None \<and> forest_ok (pChild d) \<and> (\<forall>x \<in> set ds. dir_key d < dir_key x) \<and> forest_ok ds"
  by (cases d) auto

lemma tidy_Cons: "tidy (d # ds) \<longleftrightarrow> \<not> empty_dir d \<and> tidy (pChild d) \<and> tidy ds"
  by (cases d) (auto simp: empty_dir_def)

lemma forest_ok_append:
  "forest_ok (xs @ ys) \<longleftrightarrow> forest_ok xs \<and> forest_ok ys \<and> (\<forall>x \<in> set xs. \<forall>y \<in> set ys. dir_key x < dir_key y)"
  by (induction xs) (auto simp: forest_ok_Cons)

lemma tidy_append: "tidy (xs @ ys) \<longleftrightarrow> tidy xs \<and> tidy ys"
  by (induction xs) (auto simp: tidy_Cons)

lemma forest_split: "i < length ds \<Longrightarrow> ds = take i ds @ ds ! i # drop (Suc i) ds"
  by (simp add: id_take_nth_drop)

lemma forest_ok_nth:
  assumes "forest_ok ds" "i < length ds"
  shows "forest_ok (pChild (ds ! i))" "szDirectory (ds ! i) \<noteq> None"
  using assms forest_split [OF assms(2)] forest_ok_append [of "take i ds" "ds ! i # drop (Suc i) ds"]
  by (metis forest_ok_Cons)+

lemma tidy_nth:
  assumes "tidy ds" "i < length ds"
  shows "tidy (pChild (ds ! i))" "\<not> empty_dir (ds ! i)"
  using assms forest_split [OF assms(2)] tidy_append [of "take i ds" "ds ! i # drop (Suc i) ds"]
  by (metis tidy_Cons)+

lemma list_update_split: "i < length ds \<Longrightarrow> ds[i := d] = take i ds @ d # drop (Suc i) ds"
  by (simp add: upd_conv_take_nth_drop)

lemma forest_ok_update:
  assumes "forest_ok ds" "i < length ds" "dir_key d = dir_key (ds ! i)" "szDirectory d \<noteq> None" "forest_ok (pChild d)"
  shows "forest_ok (ds[i := d])"
proof -
  have "forest_ok (take i ds @ ds ! i # drop (Suc i) ds)"
    using assms(1) forest_split [OF assms(2)] by simp
  then have "forest_ok (take i ds @ d # drop (Suc i) ds)"
    using assms(3-5) by (auto simp: forest_ok_append forest_ok_Cons)
  then show ?thesis using assms(2) by (simp add: list_update_split)
qed

lemma forest_ok_delete:
  assumes "forest_ok ds"
  shows "forest_ok (take i ds @ drop (Suc i) ds)"
proof (cases "i < length ds")
  case True
  have "forest_ok (take i ds @ ds ! i # drop (Suc i) ds)"
    using assms forest_split [OF True] by simp
  then show ?thesis by (auto simp: forest_ok_append forest_ok_Cons)
qed (use assms in simp)

lemma tidy_update:
  assumes "tidy ds" "i < length ds" "\<not> empty_dir d" "tidy (pChild d)"
  shows "tidy (ds[i := d])"
proof -
  have "tidy (take i ds @ ds ! i # drop (Suc i) ds)"
    using assms(1) forest_split [OF assms(2)] by simp
  then show ?thesis using assms(2-4) by (auto simp: list_update_split tidy_append tidy_Cons)
qed

lemma tidy_delete:
  assumes "tidy ds"
  shows "tidy (take i ds @ drop (Suc i) ds)"
proof (cases "i < length ds")
  case True
  have "tidy (take i ds @ ds ! i # drop (Suc i) ds)"
    using assms forest_split [OF True] by simp
  then show ?thesis by (auto simp: tidy_append tidy_Cons)
qed (use assms in simp)

section \<open>The slot of a name\<close>

definition slot :: "string \<Rightarrow> NOTDIRENTRY list \<Rightarrow> nat" where
  "slot nm ds = length (takeWhile (name_above nm) ds)"

lemma name_above_key: "szDirectory d \<noteq> None \<Longrightarrow> name_above nm d \<longleftrightarrow> dir_key d < wcs_key nm"
  by (auto simp: name_above_def dir_key_def)

lemma same_name_key: "szDirectory d \<noteq> None \<Longrightarrow> same_name nm d \<longleftrightarrow> dir_key d = wcs_key nm"
  by (auto simp: same_name_def dir_key_def)

lemma forest_named: "forest_ok ds \<Longrightarrow> d \<in> set ds \<Longrightarrow> szDirectory d \<noteq> None"
  by (induction ds) (auto simp: forest_ok_Cons)

lemma slot_le: "slot nm ds \<le> length ds"
  by (simp add: slot_def length_takeWhile_le)

lemma take_slot: "d \<in> set (take (slot nm ds) ds) \<Longrightarrow> name_above nm d"
  using set_takeWhileD [of d "name_above nm" ds] by (simp add: slot_def takeWhile_eq_take [symmetric])

lemma nth_slot: "slot nm ds < length ds \<Longrightarrow> \<not> name_above nm (ds ! slot nm ds)"
  by (simp add: slot_def nth_length_takeWhile)

lemma forest_sorted_nth:
  assumes "forest_ok ds" "i < j" "j < length ds"
  shows "dir_key (ds ! i) < dir_key (ds ! j)"
  using assms
proof (induction ds arbitrary: i j)
  case (Cons d ds)
  then show ?case
    by (cases i; cases j) (auto simp: forest_ok_Cons)
qed simp

lemma slot_below:
  assumes "forest_ok ds" "i < slot nm ds"
  shows "dir_key (ds ! i) < wcs_key nm"
proof -
  have i: "i < length ds" using assms(2) slot_le [of nm ds] by simp
  have "ds ! i \<in> set (take (slot nm ds) ds)"
    using assms(2) i by (metis in_set_conv_nth length_take min_less_iff_conj nth_take)
  then have "name_above nm (ds ! i)" by (rule take_slot)
  then show ?thesis using forest_named [OF assms(1) nth_mem [OF i]] by (simp add: name_above_key)
qed

lemma slot_at_least:
  assumes "forest_ok ds" "slot nm ds \<le> i" "i < length ds"
  shows "wcs_key nm \<le> dir_key (ds ! i)"
proof -
  have s: "slot nm ds < length ds" using assms by simp
  have "wcs_key nm \<le> dir_key (ds ! slot nm ds)"
    using nth_slot [OF s] name_above_key [OF forest_named [OF assms(1) nth_mem [OF s]]] by simp
  also have "\<dots> \<le> dir_key (ds ! i)"
    using forest_sorted_nth [OF assms(1), of "slot nm ds" i] assms(2,3) by (cases "slot nm ds = i") auto
  finally show ?thesis .
qed

lemma slot_found:
  assumes "forest_ok ds" "i < length ds" "dir_key (ds ! i) = wcs_key nm"
  shows "i = slot nm ds"
proof (rule ccontr)
  assume "i \<noteq> slot nm ds"
  then consider "i < slot nm ds" | "slot nm ds < i" by linarith
  then show False
  proof cases
    case 1
    then show False using slot_below [OF assms(1) 1] assms(3) by simp
  next
    case 2
    have s: "slot nm ds < length ds" using 2 assms(2) by simp
    show False using slot_at_least [OF assms(1) le_refl s] forest_sorted_nth [OF assms(1) 2 assms(2)] assms(3) by simp
  qed
qed

definition has_slot :: "string \<Rightarrow> NOTDIRENTRY list \<Rightarrow> bool" where
  "has_slot nm ds \<longleftrightarrow> slot nm ds < length ds \<and> same_name nm (ds ! slot nm ds)"

lemma has_slot_key: "forest_ok ds \<Longrightarrow> has_slot nm ds \<Longrightarrow> dir_key (ds ! slot nm ds) = wcs_key nm"
  using same_name_key [OF forest_named [OF _ nth_mem]] by (auto simp: has_slot_def)

lemma no_slot: "forest_ok ds \<Longrightarrow> \<not> has_slot nm ds \<Longrightarrow> d \<in> set ds \<Longrightarrow> dir_key d \<noteq> wcs_key nm"
  using slot_found same_name_key [OF forest_named] by (metis has_slot_def in_set_conv_nth)

section \<open>The map of watchers\<close>

definition child_of :: "nat list \<Rightarrow> NOTDIRENTRY list \<Rightarrow> NOTDIRENTRY option" where
  "child_of k ds = find (\<lambda>d. dir_key d = k) ds"

fun events_at :: "nat list list \<Rightarrow> NOTDIRENTRY list \<Rightarrow> NOTEVENTENTRY list" where
  "events_at [] ds = []"
| "events_at (k # q) ds =
     (case child_of k ds of None \<Rightarrow> [] | Some d \<Rightarrow> if q = [] then pEvents d else events_at q (pChild d))"

definition watch :: "NOTVOLENTRY \<Rightarrow> nat list list \<Rightarrow> NOTEVENTENTRY list" where
  "watch w q = (if q = [] then v_pEvents w else events_at q (pDirEntry w))"

lemma child_of_slot:
  assumes "forest_ok ds"
  shows "child_of (wcs_key nm) ds = (if has_slot nm ds then Some (ds ! slot nm ds) else None)"
proof (cases "has_slot nm ds")
  case True
  then have s: "slot nm ds < length ds" by (simp add: has_slot_def)
  have "find (\<lambda>d. dir_key d = wcs_key nm) ds = Some (ds ! slot nm ds)"
    unfolding find_Some_iff using s has_slot_key [OF assms True] slot_below [OF assms] by (metis less_irrefl)
  then show ?thesis using True by (simp add: child_of_def)
next
  case False
  then show ?thesis using no_slot [OF assms False] by (simp add: child_of_def find_None_iff)
qed

lemma child_of_update:
  assumes "i < length ds" "dir_key d = dir_key (ds ! i)" "forest_ok ds"
  shows "child_of k (ds[i := d]) = (if k = dir_key (ds ! i) then Some d else child_of k ds)"
proof -
  have e: "ds[i := d] = take i ds @ d # drop (Suc i) ds" using assms(1) by (rule list_update_split)
  have o: "ds = take i ds @ ds ! i # drop (Suc i) ds" using assms(1) by (rule forest_split)
  have lt: "dir_key x \<noteq> dir_key (ds ! i)" if "x \<in> set (take i ds)" for x
  proof -
    have "forest_ok (take i ds @ ds ! i # drop (Suc i) ds)" using assms(3) o by simp
    then show ?thesis using that by (auto simp: forest_ok_append)
  qed
  have f: "find P (xs @ ys) = (case find P xs of None \<Rightarrow> find P ys | Some x \<Rightarrow> Some x)" for P and xs ys :: "NOTDIRENTRY list"
    by (induction xs) auto
  have n: "find (\<lambda>x. dir_key x = dir_key (ds ! i)) (take i ds) = None"
    using lt by (auto simp: find_None_iff)
  show ?thesis
  proof (cases "k = dir_key (ds ! i)")
    case True
    then show ?thesis using n assms(2) by (simp add: child_of_def e f)
  next
    case False
    have "child_of k ds = child_of k (take i ds @ ds ! i # drop (Suc i) ds)" using o by simp
    then show ?thesis using False assms(2) by (simp add: child_of_def e f split: option.splits)
  qed
qed

text \<open>The position of the deepest known directory of a path.\<close>

fun reach :: "string list \<Rightarrow> NOTDIRENTRY list \<Rightarrow> nat list" where
  "reach [] ds = []"
| "reach (nm # ns) ds =
     (if has_slot nm ds then slot nm ds # reach ns (pChild (ds ! slot nm ds)) else [])"

definition known :: "string list \<Rightarrow> NOTDIRENTRY list \<Rightarrow> bool" where
  "known ns ds \<longleftrightarrow> length (reach ns ds) = length ns"

lemma length_reach: "length (reach ns ds) \<le> length ns"
  by (induction ns ds rule: reach.induct) auto

lemma known_simps [simp]:
  "known [] ds" "known (nm # ns) ds \<longleftrightarrow> has_slot nm ds \<and> known ns (pChild (ds ! slot nm ds))"
  by (auto simp: known_def)

lemma reach_take: "reach ns ds = reach (take (length (reach ns ds)) ns) ds"
  by (induction ns ds rule: reach.induct) auto

lemma events_at_beyond:
  assumes "forest_ok ds" "length (reach ns ds) < n" "n \<le> length ns"
  shows "events_at (map wcs_key (take n ns)) ds = []"
  using assms
proof (induction ns ds arbitrary: n rule: reach.induct)
  case (2 nm ns ds)
  obtain m where n: "n = Suc m" using "2.prems"(2) by (cases n) auto
  show ?case
  proof (cases "has_slot nm ds")
    case True
    then have s: "slot nm ds < length ds" by (simp add: has_slot_def)
    have "events_at (map wcs_key (take m ns)) (pChild (ds ! slot nm ds)) = []"
      using 2 True n forest_ok_nth(1) [OF "2.prems"(1) s] by auto
    then show ?thesis using True n 2 by (cases m; cases ns) (auto simp: child_of_slot)
  next
    case False
    then show ?thesis using n 2 by (simp add: child_of_slot)
  qed
qed simp

text \<open>A change of the events along the path to a directory.\<close>

lemma events_at_on_trail:
  assumes "forest_ok ds"
    and "f = (\<lambda>d. set_events (fe (pEvents d)) d)" "g = (\<lambda>d. set_events (ge (pEvents d)) d)"
    and "p = map wcs_key (take (length (reach ns ds)) ns)"
  shows "events_at q (on_trail f g (reach ns ds) ds) =
           (if q = [] then [] else if q = p then fe (events_at q ds)
            else if prefix q p then ge (events_at q ds) else events_at q ds)"
  using assms(1,4)
proof (induction ns ds arbitrary: q p rule: reach.induct)
  case (1 ds)
  then show ?case by simp
next
  case (2 nm ns ds)
  show ?case
  proof (cases "has_slot nm ds")
    case False
    then show ?thesis using "2.prems" by simp
  next
    case True
    let ?i = "slot nm ds"
    let ?d = "ds ! slot nm ds"
    let ?is = "reach ns (pChild ?d)"
    have i: "?i < length ds" using True by (simp add: has_slot_def)
    have k: "dir_key ?d = wcs_key nm" using has_slot_key [OF "2.prems"(1) True] .
    define p' where "p' = map wcs_key (take (length ?is) ns)"
    have p: "p = wcs_key nm # p'" using "2.prems"(2) True by (simp add: p'_def)
    have p'_Nil: "p' = [] \<longleftrightarrow> ?is = []"
      using length_reach [of ns "pChild ?d"] by (auto simp: p'_def)
    note IH = "2.IH" [OF True forest_ok_nth(1) [OF "2.prems"(1) i] p'_def]
    define x where "x = (if ?is = [] then f ?d else g (set_child (on_trail f g ?is (pChild ?d)) ?d))"
    have x: "dir_key x = dir_key ?d" by (simp add: x_def assms(2,3))
    have e: "on_trail f g (reach (nm # ns) ds) ds = ds[?i := x]" using True i by (simp add: x_def)
    show ?thesis
    proof (cases q)
      case (Cons k' q')
      show ?thesis
      proof (cases "k' = wcs_key nm")
        case False
        then show ?thesis using Cons p k e child_of_update [OF i x "2.prems"(1), of k'] by simp
      next
        case True
        have c: "child_of k' ds = Some ?d"
          using child_of_slot [OF "2.prems"(1), of nm] True \<open>has_slot nm ds\<close> by simp
        have c': "child_of k' (ds[?i := x]) = Some x"
          using child_of_update [OF i x "2.prems"(1)] True k by simp
        have b: "pChild x = (if ?is = [] then pChild ?d else on_trail f g ?is (pChild ?d))"
          "pEvents x = (if ?is = [] then fe (pEvents ?d) else ge (pEvents ?d))"
          by (simp_all add: x_def assms(2,3))
        show ?thesis
        proof (cases "?is = []")
          case True
          then have "p' = []" using p'_Nil by simp
          then show ?thesis using Cons p e c c' b True \<open>k' = wcs_key nm\<close> by auto
        next
          case False
          then have "p' \<noteq> []" using p'_Nil by simp
          then show ?thesis using Cons p e c c' b False \<open>k' = wcs_key nm\<close> IH [of q'] by auto
        qed
      qed
    qed simp
  qed
qed

end
