(* ===== verification/Notify_Walk.thy ===== *)
theory Notify_Walk
  imports Notify_View
begin

text \<open>
  What the loop of \<open>InsertOrFindDirEntry\<close> does with a path of given names: it finds the deepest known
  directory, inserts the missing ones, and closing what was inserted removes them again.
\<close>

section \<open>Paths\<close>

fun join :: "string list \<Rightarrow> string" where
  "join [] = []"
| "join [n] = n"
| "join (n # m # ns) = n @ backslash # join (m # ns)"

definition names_ok :: "string list \<Rightarrow> bool" where
  "names_ok ns \<longleftrightarrow> (\<forall>n \<in> set ns. n \<noteq> [] \<and> backslash \<notin> set n)"

lemma names_ok_Cons [simp]: "names_ok (n # ns) \<longleftrightarrow> n \<noteq> [] \<and> backslash \<notin> set n \<and> names_ok ns"
  by (auto simp: names_ok_def)

lemma names_ok_butlast: "names_ok ns \<Longrightarrow> names_ok (butlast ns)"
  by (auto simp: names_ok_def dest: in_set_butlastD)

lemma until_backslash:
  assumes "backslash \<notin> set n"
  shows "takeWhile (\<lambda>c. c \<noteq> backslash) n = n" "dropWhile (\<lambda>c. c \<noteq> backslash) n = []"
    "takeWhile (\<lambda>c. c \<noteq> backslash) (n @ backslash # x) = n"
    "dropWhile (\<lambda>c. c \<noteq> backslash) (n @ backslash # x) = backslash # x"
  using assms by (induction n) auto

lemma join_parts:
  assumes "names_ok (n # ns)"
  shows "takeWhile (\<lambda>c. c \<noteq> backslash) (join (n # ns)) = n"
    "dropWhile (\<lambda>c. c \<noteq> backslash) (join (n # ns)) = (if ns = [] then [] else backslash # join ns)"
    "join (n # ns) \<noteq> []"
  using assms by (cases ns; simp add: until_backslash)+

lemma join_Nil: "names_ok ns \<Longrightarrow> join ns = [] \<longleftrightarrow> ns = []"
  using join_parts(3) by (cases ns) (simp, blast)

lemma join_hd: "names_ok ns \<Longrightarrow> dropWhile (\<lambda>c. c = backslash) (replicate k backslash @ join ns) = join ns"
proof (induction k)
  case 0
  then show ?case
  proof (cases ns)
    case (Cons n ms)
    then obtain c m where "n = c # m" using 0 by (cases n) auto
    then show ?thesis using Cons 0 by (cases ms) auto
  qed simp
qed simp

section \<open>Memory\<close>

definition ample :: "not_env \<Rightarrow> bool" where "ample env \<longleftrightarrow> (\<forall>t. \<not> n_refuse env t)"

definition later :: "NotifyState \<Rightarrow> NotifyState \<Rightarrow> bool" where
  "later s s' \<longleftrightarrow> (\<exists>t k. s' = s\<lparr>n_tick := t, n_next := k\<rparr> \<and> n_next s \<le> k)"

lemma laterI: "n_next s \<le> k \<Longrightarrow> later s (s\<lparr>n_tick := t, n_next := k\<rparr>)"
  unfolding later_def by blast

lemma later_refl [simp, intro]: "later s s"
  using laterI [of s "n_next s" "n_tick s"] by simp

lemma later_trans [trans]: "later s t \<Longrightarrow> later t u \<Longrightarrow> later s u"
  by (auto simp: later_def intro!: laterI [unfolded later_def])

lemma later_same:
  assumes "later s s'"
  shows "g_pRootVolume s' = g_pRootVolume s" "closed_events s' = closed_events s" "held s' = held s"
    "n_error s' = n_error s" "n_next s \<le> n_next s'"
  using assms by (auto simp: later_def)

lemma later_allocate: "allocate env s = (a, s') \<Longrightarrow> later s s'"
  by (auto simp: allocate_def intro!: laterI)

lemma later_new_string: "new_string env x s = (a, s') \<Longrightarrow> later s s'"
  by (auto simp: new_string_def dest: later_allocate split: prod.splits)

lemma ample_allocate: "ample env \<Longrightarrow> allocate env s = (Some (n_next s), s\<lparr>n_tick := n_tick s + 1, n_next := n_next s + 1\<rparr>)"
  by (simp add: ample_def allocate_def)

lemma ample_string: "ample env \<Longrightarrow> fst (new_string env x s) = Some x"
  by (simp add: new_string_def ample_allocate)

lemma later_default_name: "default_name env wn p x s = (y, s') \<Longrightarrow> later s s'"
  by (auto simp: default_name_def dest: later_new_string split: if_splits option.splits)

lemma later_not_found: "not_found env wn ws nm x s = (y, s') \<Longrightarrow> later s s'"
  by (auto simp: not_found_def Let_def dest: later_new_string split: if_splits prod.splits)

lemma later_CreateDirEntry: "CreateDirEntry env nm s = (d, s') \<Longrightarrow> later s s'"
  by (auto simp: CreateDirEntry_def Let_def dest!: later_allocate later_new_string split: if_splits prod.splits intro: later_trans)

section \<open>One step of the loop\<close>

lemma loop_Nil:
  "dir_loop env bf wn ws [] b pc ds s =
     (let (name, s) = default_name env wn pc None s in ((Some [], name, True), ds, s))"
  by (subst dir_loop.simps) simp

lemma loop_file:
  assumes "names_ok [n]"
  shows "dir_loop env bf wn ws n False pc ds s =
           (let (name, s) = (if wn then new_string env n s else (None, s));
                (name, s) = default_name env wn pc name s in ((Some [], name, True), ds, s))"
  using assms by (subst dir_loop.simps) (simp add: until_backslash)

lemma loop_found:
  assumes "names_ok (n # ns)" "b \<or> ns \<noteq> []" "has_slot n ds"
  shows "dir_loop env bf wn ws (join (n # ns)) b pc ds s =
           (let (r, cs, s) = dir_loop env bf wn ws (join ns) (b \<and> ns \<noteq> []) (Some (ds ! slot n ds)) (pChild (ds ! slot n ds)) s
            in (at_child (slot n ds) r, ds[slot n ds := set_child cs (ds ! slot n ds)], s))"
  using assms(2,3) join_parts [OF assms(1)] unfolding has_slot_def
  by (subst dir_loop.simps) (auto simp: slot_def Let_def)

lemma loop_missing:
  assumes "names_ok (n # ns)" "b \<or> ns \<noteq> []" "\<not> has_slot n ds"
  shows "dir_loop env True wn ws (join (n # ns)) b pc ds s =
           (let (nf, s) = not_found env wn ws n (join ns) s in ((Some [], nf), ds, s))"
  using assms(2,3) join_parts [OF assms(1)] unfolding has_slot_def
  by (subst dir_loop.simps) (auto simp: slot_def Let_def)

lemma loop_insert:
  assumes "names_ok (n # ns)" "b \<or> ns \<noteq> []" "\<not> has_slot n ds"
  shows "dir_loop env False wn ws (join (n # ns)) b pc ds s =
           (case CreateDirEntry env n s of
              (None, s) \<Rightarrow> ((None, None, True), ds, s)
            | (Some d, s) \<Rightarrow>
                let (r, cs, s) = dir_loop env False wn ws (join ns) (b \<and> ns \<noteq> []) (Some d) [] s
                in (at_child (slot n ds) r, take (slot n ds) ds @ set_child cs d # drop (slot n ds) ds, s))"
  using assms(2,3) join_parts [OF assms(1)] unfolding has_slot_def
  by (subst dir_loop.simps) (auto simp: slot_def Let_def split: prod.splits option.splits)

section \<open>Finding\<close>

definition dirs_of :: "bool \<Rightarrow> string list \<Rightarrow> string list" where
  "dirs_of b ns = (if b then ns else butlast ns)"

definition current :: "NOTDIRENTRY option \<Rightarrow> nat list \<Rightarrow> NOTDIRENTRY list \<Rightarrow> NOTDIRENTRY option" where
  "current pc pos ds = (if pos = [] then pc else node_at pos ds)"

lemma set_child_same [simp]: "set_child (pChild d) d = d"
  by (cases d) (simp add: set_child_def)

lemma reach_Cons_slot:
  "has_slot n ds \<Longrightarrow> current pc (slot n ds # is) ds = current (Some (ds ! slot n ds)) is (pChild (ds ! slot n ds))"
  by (auto simp: current_def has_slot_def)

theorem find_loop:
  assumes "names_ok ns"
  shows "\<exists>nm s'. dir_loop env True wn ws (join ns) b pc ds s =
            ((Some (reach (dirs_of b ns) ds), nm, \<not> ws \<or> known (butlast ns) ds), ds, s') \<and> later s s' \<and>
          (ample env \<and> wn \<and> ns \<noteq> [] \<and> known (butlast ns) ds \<and> (b \<longrightarrow> ws \<and> \<not> known ns ds) \<longrightarrow> nm = Some (last ns)) \<and>
          (ample env \<and> wn \<and> b \<and> known ns ds \<longrightarrow> nm = Option.bind (current pc (reach ns ds) ds) szDirectory)"
  using assms
proof (induction ns arbitrary: pc ds s b)
  case Nil
  obtain nm s' where d: "default_name env wn pc None s = (nm, s')" by (cases "default_name env wn pc None s") auto
  have "nm = Option.bind pc szDirectory" if "ample env" "wn"
    using d that ample_string [OF that(1)] by (auto simp: default_name_def split: option.splits prod.splits) (metis fst_conv)
  then show ?case
    using d later_default_name [OF d] by (auto simp: loop_Nil dirs_of_def current_def)
next
  case (Cons n ns)
  have ok: "names_ok ns" using Cons.prems by simp
  show ?case
  proof (cases "b \<or> ns \<noteq> []")
    case False
    then have j: "join (n # ns) = n" and b: "\<not> b" "ns = []" by auto
    obtain x s1 where x: "(if wn then new_string env n s else (None, s)) = (x, s1)" by (cases "if wn then new_string env n s else (None, s)") auto
    obtain nm s2 where d: "default_name env wn pc x s1 = (nm, s2)" by (cases "default_name env wn pc x s1") auto
    have l: "later s s2"
      using x later_new_string [of env n s x s1] later_default_name [OF d] by (auto split: if_splits intro: later_trans)
    have "nm = Some n" if "ample env" "wn"
      using x d that ample_string [OF that(1), of n s] by (auto simp: default_name_def)
    then show ?thesis
      using l b j Cons.prems x d by (auto simp: loop_file dirs_of_def)
  next
    case True
    note bn = True
    have D: "dirs_of b (n # ns) = n # dirs_of b ns" if "ns \<noteq> []" using that by (simp add: dirs_of_def)
    show ?thesis
    proof (cases "has_slot n ds")
      case True
      let ?d = "ds ! slot n ds"
      obtain nm s' where r: "dir_loop env True wn ws (join ns) (b \<and> ns \<noteq> []) (Some ?d) (pChild ?d) s =
            ((Some (reach (dirs_of (b \<and> ns \<noteq> []) ns) (pChild ?d)), nm, \<not> ws \<or> known (butlast ns) (pChild ?d)), pChild ?d, s')"
          and l: "later s s'"
          and n1: "ample env \<and> wn \<and> ns \<noteq> [] \<and> known (butlast ns) (pChild ?d) \<and> ((b \<and> ns \<noteq> []) \<longrightarrow> ws \<and> \<not> known ns (pChild ?d)) \<longrightarrow> nm = Some (last ns)"
          and n2: "ample env \<and> wn \<and> (b \<and> ns \<noteq> []) \<and> known ns (pChild ?d) \<longrightarrow> nm = Option.bind (current (Some ?d) (reach ns (pChild ?d)) (pChild ?d)) szDirectory"
        using Cons.IH [OF ok] by blast
      have e: "dir_loop env True wn ws (join (n # ns)) b pc ds s =
          ((Some (slot n ds # reach (dirs_of (b \<and> ns \<noteq> []) ns) (pChild ?d)), nm, \<not> ws \<or> known (butlast ns) (pChild ?d)), ds, s')"
        using loop_found [OF Cons.prems bn True] r by (simp add: at_child_def)
      have p: "slot n ds # reach (dirs_of (b \<and> ns \<noteq> []) ns) (pChild ?d) = reach (dirs_of b (n # ns)) ds"
        using bn True by (cases "ns = []") (auto simp: dirs_of_def)
      have k: "known (butlast ns) (pChild ?d) = known (butlast (n # ns)) ds" using True by auto
      have m: "nm = Option.bind (current pc (reach (n # ns) ds) ds) szDirectory" if "ample env" "wn" "b" "known (n # ns) ds"
      proof (cases "ns = []")
        case True
        have "nm = szDirectory ?d"
        proof -
          obtain x s1 where d: "default_name env wn (Some ?d) None s = (x, s1)" by (cases "default_name env wn (Some ?d) None s") auto
          have "x = nm" using r True d by (auto simp: loop_Nil)
          then show ?thesis
            using d that ample_string [OF that(1)] by (auto simp: default_name_def split: option.splits) (metis fst_conv)
        qed
        then show ?thesis using True \<open>has_slot n ds\<close> by (auto simp: current_def has_slot_def)
      next
        case False
        then show ?thesis using n2 that \<open>has_slot n ds\<close> by (simp add: reach_Cons_slot)
      qed
      have nm: "nm = Some (last (n # ns))"
        if "ample env \<and> wn \<and> n # ns \<noteq> [] \<and> known (butlast (n # ns)) ds \<and> (b \<longrightarrow> ws \<and> \<not> known (n # ns) ds)"
      proof (cases "ns = []")
        case True
        then show ?thesis using that bn \<open>has_slot n ds\<close> by simp
      next
        case False
        have "known (butlast ns) (pChild ?d)" using that unfolding k by blast
        moreover have "b \<longrightarrow> \<not> known ns (pChild ?d)" using that \<open>has_slot n ds\<close> by simp
        ultimately have "nm = Some (last ns)" using n1 that False by blast
        then show ?thesis using False by simp
      qed
      show ?thesis
      proof (intro exI conjI)
        show "dir_loop env True wn ws (join (n # ns)) b pc ds s =
            ((Some (reach (dirs_of b (n # ns)) ds), nm, \<not> ws \<or> known (butlast (n # ns)) ds), ds, s')"
          using e unfolding p k .
        show "later s s'" by (rule l)
        show "ample env \<and> wn \<and> n # ns \<noteq> [] \<and> known (butlast (n # ns)) ds \<and> (b \<longrightarrow> ws \<and> \<not> known (n # ns) ds) \<longrightarrow>
              nm = Some (last (n # ns))"
          using nm by blast
        show "ample env \<and> wn \<and> b \<and> known (n # ns) ds \<longrightarrow> nm = Option.bind (current pc (reach (n # ns) ds) ds) szDirectory"
          using m by blast
      qed
    next
      case False
      obtain x su s' where nf: "not_found env wn ws n (join ns) s = ((x, su), s')" by (cases "not_found env wn ws n (join ns) s") auto
      have su: "su = (\<not> ws \<or> ns = [])" using nf join_Nil [OF ok] by (auto simp: not_found_def Let_def split: prod.splits)
      have x: "x = Some (last (n # ns))" if "ample env" "wn" "ws" "ns = []"
        using nf that Cons.prems ample_string [OF that(1)] by (auto simp: not_found_def Let_def split: prod.splits) (metis fst_conv)
      have "known (butlast (n # ns)) ds = (ns = [])" using False by auto
      moreover have "reach (dirs_of b (n # ns)) ds = []" using False bn by (cases ns) (auto simp: dirs_of_def)
      ultimately show ?thesis
        using loop_missing [OF Cons.prems bn False] nf later_not_found [OF nf] su x False bn by auto
    qed
  qed
qed

section \<open>Inserting\<close>

text \<open>With memory the loop ends at the directory the path names, which is known then.\<close>

lemma at_child_Some [simp]: "at_child i (Some is, x) = (Some (i # is), x)"
  by (simp add: at_child_def)

definition fresh_dir :: "string \<Rightarrow> NOTDIRENTRY" where "fresh_dir nm = NOTDIRENTRY (Some nm) [] [] []"

lemma ample_CreateDirEntry:
  assumes "ample env"
  shows "\<exists>s'. CreateDirEntry env nm s = (Some (fresh_dir nm), s') \<and> later s s'"
proof -
  obtain d s' where c: "CreateDirEntry env nm s = (d, s')" by (cases "CreateDirEntry env nm s") auto
  have "d = Some (fresh_dir nm)"
    using c assms ample_string [OF assms] 
    by (auto simp: CreateDirEntry_def ample_allocate fresh_dir_def Let_def split: prod.splits) (metis fst_conv)
  then show ?thesis using c later_CreateDirEntry [OF c] by blast
qed

text \<open>The list the loop leaves.\<close>

fun plant :: "string list \<Rightarrow> NOTDIRENTRY list \<Rightarrow> NOTDIRENTRY list" where
  "plant [] ds = ds"
| "plant (n # ns) ds =
     (if has_slot n ds
      then ds[slot n ds := set_child (plant ns (pChild (ds ! slot n ds))) (ds ! slot n ds)]
      else take (slot n ds) ds @ set_child (plant ns []) (fresh_dir n) # drop (slot n ds) ds)"

text \<open>Where it ends.\<close>

fun place :: "string list \<Rightarrow> NOTDIRENTRY list \<Rightarrow> nat list" where
  "place [] ds = []"
| "place (n # ns) ds = slot n ds # place ns (if has_slot n ds then pChild (ds ! slot n ds) else [])"

theorem insert_loop:
  assumes "names_ok ns" "ample env"
  shows "\<exists>nm su s'. dir_loop env False wn ws (join ns) b pc ds s =
            ((Some (place (dirs_of b ns) ds), nm, su), plant (dirs_of b ns) ds, s') \<and> later s s'"
  using assms(1)
proof (induction ns arbitrary: pc ds s b)
  case Nil
  obtain nm s' where d: "default_name env wn pc None s = (nm, s')" by (cases "default_name env wn pc None s") auto
  show ?case using d later_default_name [OF d] by (auto simp: loop_Nil dirs_of_def)
next
  case (Cons n ns)
  have ok: "names_ok ns" using Cons.prems by simp
  show ?case
  proof (cases "b \<or> ns \<noteq> []")
    case False
    obtain x s1 where x: "(if wn then new_string env n s else (None, s)) = (x, s1)" by (cases "if wn then new_string env n s else (None, s)") auto
    obtain nm s2 where d: "default_name env wn pc x s1 = (nm, s2)" by (cases "default_name env wn pc x s1") auto
    have l: "later s s2"
      using x later_new_string [of env n s x s1] later_default_name [OF d] by (auto split: if_splits intro: later_trans)
    show ?thesis using l False Cons.prems x d by (auto simp: loop_file dirs_of_def)
  next
    case True
    have D: "dirs_of b (n # ns) = n # dirs_of (b \<and> ns \<noteq> []) ns" using True by (cases ns) (auto simp: dirs_of_def)
    show ?thesis
    proof (cases "has_slot n ds")
      case has: True
      show ?thesis
        using Cons.IH [OF ok, of "b \<and> ns \<noteq> []" "Some (ds ! slot n ds)" "pChild (ds ! slot n ds)" s]
        unfolding loop_found [OF Cons.prems True has] D using has by auto
    next
      case False
      obtain s1 where c: "CreateDirEntry env n s = (Some (fresh_dir n), s1)" and l: "later s s1"
        using ample_CreateDirEntry [OF assms(2)] by blast
      show ?thesis
        using Cons.IH [OF ok, of "b \<and> ns \<noteq> []" "Some (fresh_dir n)" "[]" s1] l
        unfolding loop_insert [OF Cons.prems True False] D c using False by (auto intro: later_trans)
    qed
  qed
qed

lemma place_known: "known ns ds \<Longrightarrow> place ns ds = reach ns ds"
  by (induction ns ds rule: reach.induct) auto

lemma plant_known: "known ns ds \<Longrightarrow> plant ns ds = ds"
  by (induction ns ds rule: reach.induct) auto

lemma plant_sorted: "forest_ok ds \<Longrightarrow> forest_ok (plant ns ds)"
proof (induction ns ds rule: plant.induct)
  case (2 n ns ds)
  show ?case
  proof (cases "has_slot n ds")
    case True
    then have s: "slot n ds < length ds" by (simp add: has_slot_def)
    show ?thesis
      using True "2.IH"(1) [OF True forest_ok_nth(1) [OF "2.prems" s]] forest_ok_nth(2) [OF "2.prems" s]
      by (auto intro!: forest_ok_update [OF "2.prems" s])
  next
    case False
    have f: "forest_ok (plant ns [])" using "2.IH"(2) [OF False] by simp
    have o: "forest_ok (take (slot n ds) ds)" "forest_ok (drop (slot n ds) ds)"
      "\<forall>x \<in> set (take (slot n ds) ds). \<forall>y \<in> set (drop (slot n ds) ds). dir_key x < dir_key y"
      using "2.prems" forest_ok_append [of "take (slot n ds) ds" "drop (slot n ds) ds"] by simp_all
    have a: "dir_key x < wcs_key n" if "x \<in> set (take (slot n ds) ds)" for x
      using that slot_below [OF "2.prems"] by (auto simp: in_set_conv_nth)
    have b: "wcs_key n < dir_key x" if x: "x \<in> set (drop (slot n ds) ds)" for x
    proof -
      obtain j where "x = ds ! (slot n ds + j)" "slot n ds + j < length ds"
        using x by (auto simp: in_set_conv_nth)
      then have "wcs_key n \<le> dir_key x" "x \<in> set ds"
        using slot_at_least [OF "2.prems", of n "slot n ds + j"] by auto
      then show ?thesis using no_slot [OF "2.prems" False, of x] by simp
    qed
    have nm: "szDirectory (set_child cs (fresh_dir n)) = Some n" "dir_key (set_child cs (fresh_dir n)) = wcs_key n" for cs
      by (simp_all add: fresh_dir_def dir_key_def)
    show ?thesis
      using False f o a b nm by (auto simp: forest_ok_append forest_ok_Cons)
  qed
qed simp

text \<open>Closing what was inserted removes the directories that were created for it, and no other.\<close>

theorem cleanup_plant:
  assumes "forest_ok ds" "tidy ds"
  shows "CheckForCleanup (place ns ds) (plant ns ds) = ds"
  using assms
proof (induction ns ds rule: plant.induct)
  case (2 n ns ds)
  show ?case
  proof (cases "has_slot n ds")
    case True
    then have s: "slot n ds < length ds" by (simp add: has_slot_def)
    have ih: "CheckForCleanup (place ns (pChild (ds ! slot n ds))) (plant ns (pChild (ds ! slot n ds))) = pChild (ds ! slot n ds)"
      using "2.IH"(1) [OF True] "2.prems" s forest_ok_nth(1) tidy_nth(1) by blast
    have twice: "set_child cs (set_child cs' d) = set_child cs d" for cs cs' d by (simp add: set_child_def)
    show ?thesis using True s ih tidy_nth(2) [OF "2.prems"(2) s] by (simp add: Let_def twice)
  next
    case False
    have ih: "CheckForCleanup (place ns []) (plant ns []) = []" using "2.IH"(2) [OF False] by simp
    have e: "empty_dir (set_child [] d)" if "pHandles d = []" "pEvents d = []" for d using that by (simp add: empty_dir_def)
    have fd: "pHandles (fresh_dir n) = []" "pEvents (fresh_dir n) = []" by (simp_all add: fresh_dir_def)
    show ?thesis using False slot_le [of n ds] ih e fd by (simp add: nth_append Let_def)
  qed
qed simp

section \<open>The watchers after an insertion\<close>

lemma plant_not_Nil: "plant (n # ns) ds \<noteq> []"
  by (auto simp: has_slot_def)

lemma reach_plant:
  assumes "forest_ok ds"
  shows "reach ns (plant ns ds) = place ns ds \<and> known ns (plant ns ds)"
  using assms
proof (induction ns ds rule: plant.induct)
  case (2 n ns ds)
  let ?t = "plant (n # ns) ds"
  let ?cs = "if has_slot n ds then pChild (ds ! slot n ds) else []"
  have ok: "forest_ok ?t" by (rule plant_sorted [OF "2.prems"])
  have i: "slot n ds < length ?t"
    using slot_le [of n ds] by (auto simp: has_slot_def)
  have c: "pChild (?t ! slot n ds) = plant ns ?cs"
    using slot_le [of n ds] by (auto simp: has_slot_def nth_append)
  have k: "dir_key (?t ! slot n ds) = wcs_key n"
    using slot_le [of n ds] has_slot_key [OF "2.prems", of n]
    by (auto simp: has_slot_def nth_append fresh_dir_def)
  have s: "slot n ?t = slot n ds"
    using slot_found [OF ok i k] by simp
  have h: "has_slot n ?t"
    using i s k same_name_key [OF forest_named [OF ok nth_mem [OF i]]] by (simp add: has_slot_def)
  have ih: "reach ns (plant ns ?cs) = place ns ?cs \<and> known ns (plant ns ?cs)"
    using "2.IH" "2.prems" forest_ok_nth(1) by (auto simp: has_slot_def)
  have r: "reach (n # ns) ?t = slot n ds # reach ns (plant ns ?cs)" "known (n # ns) ?t = known ns (plant ns ?cs)"
    using h c s by (simp_all only: reach.simps known_simps if_True simp_thms)
  show ?case unfolding r using ih by simp
qed simp

lemma child_of_insert:
  assumes "forest_ok ds" "\<not> has_slot n ds" "dir_key x = wcs_key n"
  shows "child_of k (take (slot n ds) ds @ x # drop (slot n ds) ds) = (if k = wcs_key n then Some x else child_of k ds)"
proof -
  have f: "find P (xs @ ys) = (case find P xs of None \<Rightarrow> find P ys | Some x \<Rightarrow> Some x)" for P and xs ys :: "NOTDIRENTRY list"
    by (induction xs) auto
  have n: "find (\<lambda>y. dir_key y = wcs_key n) (take (slot n ds) ds) = None"
    using no_slot [OF assms(1,2)] by (auto simp: find_None_iff dest: in_set_takeD)
  have "child_of k ds = (case find (\<lambda>y. dir_key y = k) (take (slot n ds) ds) of
      None \<Rightarrow> find (\<lambda>y. dir_key y = k) (drop (slot n ds) ds) | Some x \<Rightarrow> Some x)"
    using f [of "\<lambda>y. dir_key y = k" "take (slot n ds) ds" "drop (slot n ds) ds"] by (simp add: child_of_def)
  then show ?thesis using n assms(3) by (auto simp: child_of_def f split: option.splits)
qed

lemma events_at_plant:
  assumes "forest_ok ds"
  shows "events_at q (plant ns ds) = events_at q ds"
  using assms
proof (induction ns ds arbitrary: q rule: plant.induct)
  case (2 n ns ds)
  show ?case
  proof (cases q)
    case (Cons k r)
    show ?thesis
    proof (cases "has_slot n ds")
      case True
      then have s: "slot n ds < length ds" by (simp add: has_slot_def)
      have ih: "events_at r (plant ns (pChild (ds ! slot n ds))) = events_at r (pChild (ds ! slot n ds))"
        using "2.IH"(1) [OF True forest_ok_nth(1) [OF "2.prems" s]] .
      show ?thesis
        using True Cons ih child_of_update [OF s _ "2.prems"] child_of_slot [OF "2.prems", of n] has_slot_key [OF "2.prems" True]
        by auto
    next
      case False
      have ih: "events_at r (plant ns []) = []"
        using "2.IH"(2) [OF False, of r] by (cases r) (auto simp: child_of_def)
      have x: "dir_key (set_child (plant ns []) (fresh_dir n)) = wcs_key n" "pEvents (fresh_dir n) = []"
        by (simp_all add: fresh_dir_def)
      show ?thesis
        using False Cons ih x(2) child_of_insert [OF "2.prems" False x(1), of k] child_of_slot [OF "2.prems", of n]
        by auto
    qed
  qed simp
qed simp

text \<open>A change at a position depends on the directory that is there.\<close>

lemma on_trail_cong:
  assumes "node_at pos ds = Some d" "f d = f' d"
  shows "on_trail f g pos ds = on_trail f' g pos ds"
  using assms by (induction pos ds rule: node_at.induct) (auto split: if_splits)

lemma node_at_reach:
  assumes "forest_ok ds" "known ns ds" "ns \<noteq> []"
  shows "\<exists>d. node_at (reach ns ds) ds = Some d \<and> pEvents d = events_at (map wcs_key ns) ds"
  using assms
proof (induction ns ds rule: reach.induct)
  case (2 n ns ds)
  have h: "has_slot n ds" using "2.prems"(2) by simp
  then have s: "slot n ds < length ds" by (simp add: has_slot_def)
  show ?case
  proof (cases "ns = []")
    case True
    then show ?thesis using h s child_of_slot [OF "2.prems"(1), of n] by simp
  next
    case False
    then have "reach ns (pChild (ds ! slot n ds)) \<noteq> []" using "2.prems"(2) by (cases ns) auto
    then show ?thesis
      using "2.IH" [OF h forest_ok_nth(1) [OF "2.prems"(1) s]] False h s "2.prems"(2) child_of_slot [OF "2.prems"(1), of n] by auto
  qed
qed simp

lemma events_at_put:
  assumes "forest_ok ds" "known ns ds" "ns \<noteq> []"
  shows "events_at q (on_trail (set_events es) (\<lambda>d. d) (reach ns ds) ds) =
           (if q = map wcs_key ns then es else events_at q ds)"
proof -
  obtain d where d: "node_at (reach ns ds) ds = Some d" using node_at_reach [OF assms] by blast
  have t: "take (length (reach ns ds)) ns = ns" using assms(2) by (simp add: known_def)
  have i: "(\<lambda>d. d) = (\<lambda>d. set_events ((\<lambda>es. es) (pEvents d)) d)"
  proof
    fix d show "d = set_events (pEvents d) d" by (cases d) (simp add: set_events_def)
  qed
  show ?thesis
    using events_at_on_trail [OF assms(1) _ i refl, of "\<lambda>d. set_events es d" "\<lambda>_. es" q ns] assms(3) t by auto
qed

end
