(* ===== verification/Notify_Watch.thy ===== *)
theory Notify_Watch
  imports Notify_Walk
begin

text \<open>
  What a change does to the watchers: those of the changed directory hear of it, and those of a
  directory above when they watch its subtree.
\<close>

section \<open>The rule\<close>

definition sees :: "nat list list \<Rightarrow> nat list list \<Rightarrow> NOTEVENTENTRY \<Rightarrow> bool" where
  "sees q p e \<longleftrightarrow> q = p \<or> bWatchSubTree e \<and> prefix q p"

definition queue_info :: "DWORD \<Rightarrow> string \<Rightarrow> nat \<Rightarrow> NOTEVENTENTRY \<Rightarrow> NOTEVENTENTRY" where
  "queue_info dwFlags nm act e =
     (if e_dwFlags e AND FILE_NOTIFY_CHANGE_CEGETINFO \<noteq> 0 \<and> e_dwFlags e AND dwFlags \<noteq> 0
      then e\<lparr>pFileInfo := pFileInfo e @ [\<lparr>fi_szFileName = Some nm, dwFileNameLen = 2 * length nm, dwAction = act\<rparr>]\<rparr>
      else e)"

text \<open>The event of the directory \<open>q\<close> after a change of the file \<open>nm\<close> in the directory \<open>p\<close>.\<close>

definition reaction :: "DWORD \<Rightarrow> nat list list \<Rightarrow> string option \<Rightarrow> nat \<Rightarrow> nat list list \<Rightarrow> NOTEVENTENTRY \<Rightarrow> NOTEVENTENTRY" where
  "reaction dwFlags p nm act q e =
     (let e = (if q = p then case nm of None \<Rightarrow> e | Some nm \<Rightarrow> queue_info dwFlags nm act e else e)
      in if sees q p e \<and> e_dwFlags e AND dwFlags \<noteq> 0 then count_change e else e)"

section \<open>Queues\<close>

lemma count_change_simps [simp]:
  "e_addr (count_change e) = e_addr e" "e_dwFlags (count_change e) = e_dwFlags e"
  "bWatchSubTree (count_change e) = bWatchSubTree e" "pFileInfo (count_change e) = pFileInfo e"
  "hEvent (count_change e) = hEvent e" "hNotify (count_change e) = hNotify e"
  by (simp_all add: count_change_def)

lemma queue_info_simps [simp]:
  "e_addr (queue_info f nm act e) = e_addr e" "e_dwFlags (queue_info f nm act e) = e_dwFlags e"
  "bWatchSubTree (queue_info f nm act e) = bWatchSubTree e" "dwCount (queue_info f nm act e) = dwCount e"
  "signalled (queue_info f nm act e) = signalled e"
  by (simp_all add: queue_info_def)

lemma reaction_simps [simp]:
  "e_addr (reaction f p nm act q e) = e_addr e" "e_dwFlags (reaction f p nm act q e) = e_dwFlags e"
  "bWatchSubTree (reaction f p nm act q e) = bWatchSubTree e"
  by (auto simp: reaction_def Let_def split: option.splits)

lemma AddFileToEvent_None: "AddFileToEvent env es None f act s = (es, s)"
  by simp

lemma ample_AddFile:
  assumes "ample env"
  shows "\<exists>s'. AddFileToEvent env es (Some nm) f act s = (map (queue_info f nm act) es, s') \<and> later s s'"
proof (induction es arbitrary: s)
  case (Cons e es)
  let ?b = "e_dwFlags e AND FILE_NOTIFY_CHANGE_CEGETINFO \<noteq> 0 \<and> e_dwFlags e AND f \<noteq> 0"
  show ?case
  proof (cases ?b)
    case True
    obtain a s1 where a: "allocate env s = (Some a, s1)" using ample_allocate [OF assms] by blast
    obtain s2 where x: "new_string env nm s1 = (Some nm, s2)"
      using ample_string [OF assms, of nm s1] by (cases "new_string env nm s1") auto
    have l: "later s s2" using later_allocate [OF a] later_new_string [OF x] by (rule later_trans)
    have q: "queue_info f nm act e =
        e\<lparr>pFileInfo := pFileInfo e @ [\<lparr>fi_szFileName = Some nm, dwFileNameLen = 2 * length nm, dwAction = act\<rparr>]\<rparr>"
      unfolding queue_info_def by (rule if_P [OF True])
    obtain s' where "AddFileToEvent env es (Some nm) f act s2 = (map (queue_info f nm act) es, s')" "later s2 s'"
      using Cons.IH by blast
    then show ?thesis
      using l q a x by (simp only: AddFileToEvent.simps Let_def prod.case if_P [OF True]) (auto intro: later_trans)
  next
    case False
    then have q: "queue_info f nm act e = e" unfolding queue_info_def by (rule if_not_P)
    obtain s' where "AddFileToEvent env es (Some nm) f act s = (map (queue_info f nm act) es, s')" "later s s'"
      using Cons.IH by blast
    then show ?thesis using if_not_P [OF False] q by (simp only: AddFileToEvent.simps Let_def prod.case if_not_P [OF False]) simp
  qed
qed auto

section \<open>The loop to the volume\<close>

lemma on_trail_twice:
  "on_trail f g pos (on_trail h (\<lambda>d. d) pos ds) = on_trail (\<lambda>d. f (h d)) g pos ds"
proof -
  have tw: "set_child cs (set_child cs' d) = set_child cs d" for cs cs' d by (simp add: set_child_def)
  show ?thesis
    by (induction f g pos ds rule: on_trail.induct) (auto simp: tw)
qed

lemma reach_butlast:
  "\<not> known ns ds \<Longrightarrow> reach ns ds = reach (butlast ns) ds"
  by (induction ns ds rule: reach.induct) auto

definition checked :: "DWORD \<Rightarrow> bool \<Rightarrow> NOTEVENTENTRY list \<Rightarrow> NOTEVENTENTRY list" where
  "checked dwFlags sub es = map (\<lambda>e. if (sub \<or> bWatchSubTree e) \<and> e_dwFlags e AND dwFlags \<noteq> 0 then count_change e else e) es"

lemma CheckEventOnPath_eq:
  "CheckEventOnPath sub bPath = checked (if bPath then FILE_NOTIFY_CHANGE_DIR_NAME else FILE_NOTIFY_CHANGE_FILE_NAME) sub"
  by (rule ext) (auto simp: CheckEventOnPath_def checked_def)

lemma CheckEventOnHandle_eq: "CheckEventOnHandle f sub = checked f sub"
  by (rule ext) (auto simp: CheckEventOnHandle_def checked_def)

definition queued :: "DWORD \<Rightarrow> string option \<Rightarrow> nat \<Rightarrow> NOTEVENTENTRY list \<Rightarrow> NOTEVENTENTRY list" where
  "queued f nm act es = (case nm of None \<Rightarrow> es | Some n \<Rightarrow> map (queue_info f n act) es)"

lemma queued_Nil [simp]: "queued f nm act [] = []" by (simp add: queued_def split: option.splits)

lemma checked_Nil [simp]: "checked f sub [] = []" by (simp add: checked_def)

lemma ample_add_file:
  assumes "ample env"
  shows "\<exists>s'. add_file env w pos nm f act s = (put_events w pos (queued f nm act (events_here w pos)), s') \<and> later s s'"
proof (cases nm)
  case (Some n)
  then show ?thesis
    using ample_AddFile [OF assms, of "events_here w pos" n f act s] by (auto simp: add_file_def queued_def)
qed (auto simp: add_file_def queued_def)

definition told_file :: "DWORD \<Rightarrow> NOTVOLENTRY \<Rightarrow> nat list \<Rightarrow> string option \<Rightarrow> nat \<Rightarrow> NOTVOLENTRY" where
  "told_file f w pos nm act = tell_up (checked f) (put_events w pos (queued f nm act (events_here w pos))) pos True"

lemma node_at_valid: "reach ns ds \<noteq> [] \<Longrightarrow> \<exists>d. node_at (reach ns ds) ds = Some d"
proof (induction ns ds rule: reach.induct)
  case (2 n ns ds)
  have h: "has_slot n ds" using "2.prems" by (cases "has_slot n ds") auto
  then show ?case using "2.IH" by (cases "reach ns (pChild (ds ! slot n ds)) = []") (auto simp: has_slot_def)
qed simp

lemma watch_told_file:
  assumes "forest_ok (pDirEntry w)" "known ns (pDirEntry w)"
  shows "watch (told_file f w (reach ns (pDirEntry w)) nm act) q =
           map (reaction f (map wcs_key ns) nm act q) (watch w q)"
proof -
  let ?F = "pDirEntry w"
  let ?pos = "reach ns ?F"
  let ?p = "map wcs_key ns"
  have t: "take (length ?pos) ns = ns" using assms(2) by (simp add: known_def)
  have pn: "?pos = [] \<longleftrightarrow> ns = []" using assms(2) by (auto simp: known_def)
  have own: "checked f True (queued f nm act es) = map (reaction f ?p nm act ?p) es" for es
    by (auto simp: checked_def queued_def reaction_def sees_def Let_def split: option.splits)
  have up: "checked f False es = map (reaction f ?p nm act q) es" if "q \<noteq> ?p" "prefix q ?p" for es
    using that by (auto simp: checked_def reaction_def sees_def)
  have off: "map (reaction f ?p nm act q) es = es" if "q \<noteq> ?p" "\<not> prefix q ?p" for es
    using that by (auto simp: reaction_def sees_def intro: map_idI)
  show ?thesis
  proof (cases "ns = []")
    case True
    then have p: "?pos = []" using pn by simp
    then show ?thesis
      using True own off [of es for es] by (cases "q = []") (auto simp: told_file_def tell_up_def put_events_def events_here_def watch_def)
  next
    case False
    then have p: "?pos \<noteq> []" using pn by simp
    obtain d where d: "node_at ?pos ?F = Some d" using node_at_valid [OF p] by blast
    have e: "events_here w ?pos = pEvents d" using p d by (simp add: events_here_def)
    have "pDirEntry (told_file f w ?pos nm act) =
        on_trail (\<lambda>d. set_events (checked f True (pEvents d)) d) (\<lambda>d. set_events (checked f False (pEvents d)) d) ?pos
          (on_trail (set_events (queued f nm act (pEvents d))) (\<lambda>d. d) ?pos ?F)"
      using p e by (simp add: told_file_def tell_up_def put_events_def)
    also have "\<dots> = on_trail (\<lambda>d. set_events (checked f True (queued f nm act (pEvents d))) d)
        (\<lambda>d. set_events (checked f False (pEvents d)) d) ?pos ?F"
      unfolding on_trail_twice by (rule on_trail_cong [OF d]) (simp add: set_events_def)
    finally have D: "pDirEntry (told_file f w ?pos nm act) = \<dots>" .
    have V: "v_pEvents (told_file f w ?pos nm act) = checked f False (v_pEvents w)"
      using p by (simp add: told_file_def tell_up_def put_events_def)
    show ?thesis
      using events_at_on_trail [where fe = "\<lambda>es. checked f True (queued f nm act es)" and ge = "checked f False" and ns = ns and q = q,
          OF assms(1) refl refl refl]
        own up off False unfolding watch_def D V t by auto
  qed
qed

lemma watch_tell_up:
  assumes "forest_ok (pDirEntry w)" "\<not> known ns (pDirEntry w)"
  shows "watch (tell_up (checked f) w (reach ns (pDirEntry w)) False) q =
           map (reaction f (map wcs_key ns) nm act q) (watch w q)"
proof -
  let ?F = "pDirEntry w"
  let ?m = "map wcs_key (take (length (reach ns ?F)) ns)"
  let ?p = "map wcs_key ns"
  have l: "length (reach ns ?F) < length ns" using assms(2) length_reach [of ns ?F] by (simp add: known_def)
  have pm: "prefix q ?m \<Longrightarrow> prefix q ?p \<and> q \<noteq> ?p"
  proof
    assume q: "prefix q ?m"
    have m: "prefix ?m ?p" by (simp add: take_is_prefix take_map [symmetric])
    show "prefix q ?p" using prefix_order.trans [OF q m] .
    show "q \<noteq> ?p" using prefix_length_le [OF q] l by auto
  qed
  have up: "checked f False es = map (reaction f ?p nm act q) es" if "q \<noteq> ?p" "prefix q ?p" for es
    using that by (auto simp: checked_def reaction_def sees_def)
  have off: "map (reaction f ?p nm act q) es = es" if "\<not> prefix q ?p" for es
  proof -
    have "q \<noteq> ?p" using that by auto
    then show ?thesis using that by (auto simp: reaction_def sees_def intro: map_idI)
  qed
  have beyond: "events_at q ?F = []" if "prefix q ?p" "\<not> prefix q ?m"
  proof -
    have "q = take (length q) ?p" using that(1) by (auto simp: prefix_def)
    then have q: "q = map wcs_key (take (length q) ns)" by (simp add: take_map)
    have "length (reach ns ?F) < length q"
    proof (rule ccontr)
      assume "\<not> ?thesis"
      then have "take (length q) ns = take (length q) (take (length (reach ns ?F)) ns)" by (simp add: min_absorb1)
      then have "prefix q ?m" using q by (metis take_is_prefix take_map)
      then show False using that(2) by simp
    qed
    moreover have "length q \<le> length ns" using that(1) by (metis length_map prefix_length_le)
    ultimately show ?thesis using events_at_beyond [OF assms(1)] q by metis
  qed
  have V: "v_pEvents (tell_up (checked f) w (reach ns ?F) False) = checked f False (v_pEvents w)"
    by (simp add: tell_up_def)
  have D: "pDirEntry (tell_up (checked f) w (reach ns ?F) False) =
      on_trail (\<lambda>d. set_events (checked f False (pEvents d)) d) (\<lambda>d. set_events (checked f False (pEvents d)) d) (reach ns ?F) ?F"
    by (simp add: tell_up_def)
  show ?thesis
  proof (cases "q = []")
    case True
    have "[] \<noteq> ?p" using l by auto
    then show ?thesis using True up [of "v_pEvents w"] unfolding watch_def V by auto
  next
    case False
    have E: "events_at q (pDirEntry (tell_up (checked f) w (reach ns ?F) False)) =
        (if prefix q ?m then checked f False (events_at q ?F) else events_at q ?F)"
      unfolding D events_at_on_trail [OF assms(1) refl refl refl] using False by auto
    show ?thesis
    proof (cases "prefix q ?m")
      case True
      then show ?thesis using E False pm up by (simp add: watch_def)
    next
      case nm: False
      then show ?thesis using E False off beyond by (cases "prefix q ?p") (simp_all add: watch_def)
    qed
  qed
qed

section \<open>Shapes\<close>

text \<open>The tree without the contents of its events: what is left by a change that keeps their addresses.\<close>

definition blank :: "NOTEVENTENTRY \<Rightarrow> NOTEVENTENTRY" where
  "blank e = \<lparr>e_addr = e_addr e, e_dwFlags = 0, bWatchSubTree = False, hProc = 0, hEvent = 0, hNotify = 0,
              dwCount = 0, pFileInfo = [], signalled = False\<rparr>"

lemma blank_eq: "blank e = blank e' \<longleftrightarrow> e_addr e = e_addr e'"
  by (simp add: blank_def)

lemma map_blank_eq: "map blank es = map blank es' \<longleftrightarrow> map e_addr es = map e_addr es'"
  by (induction es arbitrary: es') (auto simp: blank_eq Cons_eq_map_conv)

fun strip :: "NOTDIRENTRY \<Rightarrow> NOTDIRENTRY" where
  "strip (NOTDIRENTRY n es hs cs) = NOTDIRENTRY n (map blank es) hs (map strip cs)"

lemma strip_simps [simp]:
  "szDirectory (strip d) = szDirectory d" "pEvents (strip d) = map blank (pEvents d)"
  "pHandles (strip d) = pHandles d" "pChild (strip d) = map strip (pChild d)" "dir_key (strip d) = dir_key d"
  by (cases d; simp add: dir_key_def)+

lemma strip_eqI:
  "szDirectory d = szDirectory d' \<Longrightarrow> map e_addr (pEvents d) = map e_addr (pEvents d') \<Longrightarrow> pHandles d = pHandles d' \<Longrightarrow>
   map strip (pChild d) = map strip (pChild d') \<Longrightarrow> strip d = strip d'"
  by (cases d; cases d') (simp add: map_blank_eq)

lemma dir_key_node: "dir_key (NOTDIRENTRY n es hs cs) = (case n of None \<Rightarrow> [] | Some n \<Rightarrow> wcs_key n)"
  by (simp add: dir_key_def)

lemma strip_forest_ok: "forest_ok (map strip ds) \<longleftrightarrow> forest_ok ds"
  by (induction ds rule: forest_ok.induct) (simp_all add: forest_ok_Cons dir_key_node)

lemma strip_tidy: "tidy (map strip ds) \<longleftrightarrow> tidy ds"
  by (induction ds rule: tidy.induct) simp_all

lemma slot_strip [simp]: "slot nm (map strip ds) = slot nm ds"
proof -
  have "name_above nm \<circ> strip = name_above nm" by (rule ext) (simp add: name_above_def)
  then show ?thesis by (simp add: slot_def takeWhile_map)
qed

lemma has_slot_strip [simp]: "has_slot nm (map strip ds) = has_slot nm ds"
  by (auto simp: has_slot_def same_name_def)

lemma same_name_strip [simp]: "same_name nm (strip d) = same_name nm d"
  by (simp add: same_name_def)

lemma reach_strip: "reach ns (map strip ds) = reach ns ds"
  by (induction ns ds rule: reach.induct) (auto simp: has_slot_def)

lemma strip_on_trail:
  assumes "\<And>d. map e_addr (pEvents (f d)) = map e_addr (pEvents d) \<and> szDirectory (f d) = szDirectory d \<and>
                pHandles (f d) = pHandles d \<and> pChild (f d) = pChild d"
    and "\<And>d. map e_addr (pEvents (g d)) = map e_addr (pEvents d) \<and> szDirectory (g d) = szDirectory d \<and>
                pHandles (g d) = pHandles d \<and> pChild (g d) = pChild d"
  shows "map strip (on_trail f g pos ds) = map strip ds"
proof (induction pos arbitrary: ds)
  case (Cons i js)
  show ?case
  proof (cases "i < length ds")
    case True
    let ?x = "if js = [] then f (ds ! i) else g (set_child (on_trail f g js (pChild (ds ! i))) (ds ! i))"
    have "strip ?x = strip (ds ! i)"
      by (rule strip_eqI) (use assms Cons.IH [of "pChild (ds ! i)"] in auto)
    then have "(map strip ds)[i := strip ?x] = map strip ds" using True by (metis list_update_id nth_map)
    then show ?thesis using True by (simp add: map_update [symmetric])
  qed simp
qed simp

lemma strip_put:
  assumes "node_at pos ds = Some d" "map e_addr es = map e_addr (pEvents d)"
  shows "map strip (on_trail (set_events es) (\<lambda>d. d) pos ds) = map strip ds"
  using assms
proof (induction pos arbitrary: ds)
  case (Cons i js)
  have i: "i < length ds" using Cons.prems(1) by (auto split: if_splits)
  let ?x = "if js = [] then set_events es (ds ! i) else set_child (on_trail (set_events es) (\<lambda>d. d) js (pChild (ds ! i))) (ds ! i)"
  have "strip ?x = strip (ds ! i)"
    by (rule strip_eqI) (use Cons i in \<open>auto split: if_splits\<close>)
  then have "(map strip ds)[i := strip ?x] = map strip ds" using i by (metis list_update_id nth_map)
  then show ?case using i by (simp add: map_update [symmetric])
qed simp

lemma addr_checked [simp]: "map e_addr (checked f sub es) = map e_addr es"
  by (simp add: checked_def)

lemma addr_queued [simp]: "map e_addr (queued f nm act es) = map e_addr es"
  by (simp add: queued_def split: option.splits)

text \<open>Volumes that differ in the contents of events only.\<close>

definition same_volume :: "NOTVOLENTRY \<Rightarrow> NOTVOLENTRY \<Rightarrow> bool" where
  "same_volume w w' \<longleftrightarrow> v_addr w' = v_addr w \<and> szVolumeName w' = szVolumeName w \<and> v_pHandles w' = v_pHandles w \<and>
     map e_addr (v_pEvents w') = map e_addr (v_pEvents w) \<and> map strip (pDirEntry w') = map strip (pDirEntry w)"

lemma same_volume_refl [simp, intro]: "same_volume w w" by (simp add: same_volume_def)

lemma same_volume_trans [trans]: "same_volume w w' \<Longrightarrow> same_volume w' w'' \<Longrightarrow> same_volume w w''"
  by (simp add: same_volume_def)

lemma same_volume_ok:
  assumes "same_volume w w'"
  shows "forest_ok (pDirEntry w') = forest_ok (pDirEntry w)" "tidy (pDirEntry w') = tidy (pDirEntry w)"
    "reach ns (pDirEntry w') = reach ns (pDirEntry w)" "known ns (pDirEntry w') = known ns (pDirEntry w)"
  using assms strip_forest_ok strip_tidy reach_strip unfolding same_volume_def known_def by metis+

lemma same_put_events:
  assumes "map e_addr es = map e_addr (events_here w pos)"
  shows "same_volume w (put_events w pos es)"
proof (cases "pos = []")
  case True
  then show ?thesis using assms by (simp add: same_volume_def put_events_def events_here_def)
next
  case False
  show ?thesis
  proof (cases "node_at pos (pDirEntry w)")
    case None
    have "on_trail (set_events es) (\<lambda>d. d) pos ds = ds" if "node_at pos ds = None" for ds
      using that by (induction pos ds rule: node_at.induct) (auto split: if_splits)
    then show ?thesis using False None by (simp add: same_volume_def put_events_def)
  next
    case (Some d)
    then show ?thesis
      using False assms strip_put [OF Some] by (simp add: same_volume_def put_events_def events_here_def)
  qed
qed

lemma same_tell_up: "same_volume w (tell_up (checked f) w pos sub)"
proof -
  have "map strip (on_trail (\<lambda>d. set_events (checked f sub (pEvents d)) d) (\<lambda>d. set_events (checked f False (pEvents d)) d) pos (pDirEntry w)) =
      map strip (pDirEntry w)"
    by (rule strip_on_trail) simp_all
  then show ?thesis by (simp add: same_volume_def tell_up_def)
qed

lemma same_told_file: "same_volume w (told_file f w pos nm act)"
  unfolding told_file_def by (rule same_volume_trans [OF same_put_events same_tell_up]) simp

section \<open>Changes of paths\<close>

lemma find_entry:
  assumes "names_ok ns"
  shows "\<exists>pos nm s' l sub. InsertOrFindDirEntry env w (replicate k backslash @ join ns) wn b True ws s =
            ((pos, nm, sub), w, l, s') \<and> later s s' \<and>
          (ample env \<longrightarrow> pos = reach (dirs_of b ns) (pDirEntry w) \<and> (sub \<longleftrightarrow> \<not> ws \<or> known (butlast ns) (pDirEntry w)) \<and>
            (wn \<and> ns \<noteq> [] \<and> known (butlast ns) (pDirEntry w) \<and> (b \<longrightarrow> ws \<and> \<not> known ns (pDirEntry w)) \<longrightarrow> nm = Some (last ns)) \<and>
            (wn \<and> b \<and> known ns (pDirEntry w) \<longrightarrow> nm = Option.bind (current None (reach ns (pDirEntry w)) (pDirEntry w)) szDirectory))"
proof -
  obtain a s1 where a: "allocate env s = (a, s1)" by (cases "allocate env s") auto
  show ?thesis
  proof (cases a)
    case None
    then show ?thesis
      using a later_allocate [OF a] ample_allocate [of env s]
      by (auto simp: InsertOrFindDirEntry_def Let_def)
  next
    case (Some x)
    obtain nm s2 where r: "dir_loop env True wn ws (join ns) b None (pDirEntry w) s1 =
            ((Some (reach (dirs_of b ns) (pDirEntry w)), nm, \<not> ws \<or> known (butlast ns) (pDirEntry w)), pDirEntry w, s2)"
        and l: "later s1 s2"
        and n1: "ample env \<and> wn \<and> ns \<noteq> [] \<and> known (butlast ns) (pDirEntry w) \<and> (b \<longrightarrow> ws \<and> \<not> known ns (pDirEntry w)) \<longrightarrow> nm = Some (last ns)"
        and n2: "ample env \<and> wn \<and> b \<and> known ns (pDirEntry w) \<longrightarrow> nm = Option.bind (current None (reach ns (pDirEntry w)) (pDirEntry w)) szDirectory"
      using find_loop [OF assms] by blast
    have e: "InsertOrFindDirEntry env w (replicate k backslash @ join ns) wn b True ws s =
        ((reach (dirs_of b ns) (pDirEntry w), nm, \<not> ws \<or> known (butlast ns) (pDirEntry w)), w, True, s2)"
      using a Some r join_hd [OF assms, of k] by (simp add: InsertOrFindDirEntry_def Let_def)
    have "later s s2" using later_allocate [OF a] l by (rule later_trans)
    then show ?thesis using e n1 n2 by blast
  qed
qed

definition path_flag :: "bool \<Rightarrow> DWORD" where
  "path_flag bPath = (if bPath then FILE_NOTIFY_CHANGE_DIR_NAME else FILE_NOTIFY_CHANGE_FILE_NAME)"

definition removing :: "bool \<Rightarrow> nat \<Rightarrow> bool" where
  "removing bPath act \<longleftrightarrow> bPath \<and> (act = FILE_ACTION_REMOVED \<or> act = FILE_ACTION_RENAMED_OLD_NAME)"

text \<open>A file, or a directory in which nothing is watched or open.\<close>

lemma path_change_watch:
  assumes "ample env" "names_ok ns" "ns \<noteq> []" "forest_ok (pDirEntry w)" "\<not> removing bPath act"
    and "bPath \<Longrightarrow> \<not> known ns (pDirEntry w)"
  shows "\<exists>w' s'. path_change env w (replicate k backslash @ join ns) bPath act s = (w', s') \<and> later s s' \<and> same_volume w w' \<and>
           (\<forall>q. watch w' q = map (reaction (path_flag bPath) (map wcs_key (butlast ns)) (Some (last ns)) act q) (watch w q))"
proof -
  let ?F = "pDirEntry w"
  let ?pos = "reach (butlast ns) ?F"
  have pos: "reach (dirs_of bPath ns) ?F = ?pos"
    using assms(6) reach_butlast [of ns ?F] by (cases bPath) (simp_all add: dirs_of_def)
  obtain nm s1 l where f: "InsertOrFindDirEntry env w (replicate k backslash @ join ns) True bPath True True s =
        ((?pos, nm, known (butlast ns) ?F), w, l, s1)" and ls: "later s s1"
      and nm: "known (butlast ns) ?F \<longrightarrow> nm = Some (last ns)"
    using find_entry [OF assms(2), of env w k True bPath True s] assms(1,3,6) pos by auto
  show ?thesis
  proof (cases "known (butlast ns) ?F")
    case True
    obtain s2 where a: "add_file env w ?pos (Some (last ns)) (path_flag bPath) act s1 =
        (put_events w ?pos (queued (path_flag bPath) (Some (last ns)) act (events_here w ?pos)), s2)" and l2: "later s1 s2"
      using ample_add_file [OF assms(1)] by blast
    have "path_change env w (replicate k backslash @ join ns) bPath act s =
        (told_file (path_flag bPath) w ?pos (Some (last ns)) act, s2)"
      using f nm True a assms(5) unfolding path_change_def removing_def told_file_def CheckEventOnPath_eq path_flag_def by simp
    then show ?thesis
      using watch_told_file [OF assms(4) True] same_told_file later_trans [OF ls l2] by blast
  next
    case False
    have "path_change env w (replicate k backslash @ join ns) bPath act s = (tell_up (checked (path_flag bPath)) w ?pos False, s1)"
      using f False assms(5) unfolding path_change_def removing_def CheckEventOnPath_eq path_flag_def by simp
    then show ?thesis
      using watch_tell_up [OF assms(4) False] same_tell_up ls by blast
  qed
qed

end
