(* ===== verification/Notify_Inv.thy ===== *)
theory Notify_Inv
  imports Notify_Watch
begin

text \<open>
  The invariant of the notification state: sorted trees without empty directories, and addresses that
  are used once.  Creating and closing handles and events keeps it, with memory.
\<close>

section \<open>What a tree holds\<close>

fun tree_all :: "(NOTDIRENTRY \<Rightarrow> 'a list) \<Rightarrow> NOTDIRENTRY list \<Rightarrow> 'a list" where
  "tree_all sel [] = []"
| "tree_all sel (NOTDIRENTRY n es hs cs # ds) = sel (NOTDIRENTRY n es hs cs) @ tree_all sel cs @ tree_all sel ds"

lemma tree_all_Cons: "tree_all sel (d # ds) = sel d @ tree_all sel (pChild d) @ tree_all sel ds"
  by (cases d) simp

lemma tree_all_append: "tree_all sel (xs @ ys) = tree_all sel xs @ tree_all sel ys"
  by (induction xs) (simp_all add: tree_all_Cons)

lemma tree_events_all: "tree_events ds = tree_all pEvents ds"
  by (induction ds rule: tree_events.induct) simp_all

lemma tree_handles_all: "tree_handles ds = tree_all pHandles ds"
  by (induction ds rule: tree_handles.induct) simp_all

text \<open>A list that every directory keeps: the events or the handles.\<close>

locale dir_list =
  fixes sel :: "NOTDIRENTRY \<Rightarrow> 'a list"
  assumes sel_child: "sel (set_child cs d) = sel d"
    and sel_fresh: "sel (fresh_dir n) = []"
    and sel_empty: "empty_dir d \<Longrightarrow> sel d = []"

lemma tree_all_nth: "i < length ds \<Longrightarrow>
    tree_all sel ds = tree_all sel (take i ds) @ (sel (ds ! i) @ tree_all sel (pChild (ds ! i))) @ tree_all sel (drop (Suc i) ds)"
  using forest_split [of i ds] tree_all_append [of sel "take i ds" "ds ! i # drop (Suc i) ds"] by (simp add: tree_all_Cons)

lemma tree_all_update: "i < length ds \<Longrightarrow>
    tree_all sel (ds[i := d]) = tree_all sel (take i ds) @ (sel d @ tree_all sel (pChild d)) @ tree_all sel (drop (Suc i) ds)"
  by (simp add: list_update_split tree_all_append tree_all_Cons)

context dir_list
begin

lemma tree_all_put:
  assumes "node_at pos ds = Some d" "\<And>d. pChild (h d) = pChild d"
  shows "mset (tree_all sel (on_trail h (\<lambda>d. d) pos ds)) + mset (sel d) = mset (tree_all sel ds) + mset (sel (h d))"
  using assms(1)
proof (induction pos arbitrary: ds)
  case (Cons i js)
  have i: "i < length ds" using Cons.prems by (auto split: if_splits)
  show ?case
  proof (cases "js = []")
    case True
    then show ?thesis using Cons.prems i assms(2) by (simp add: tree_all_update [OF i] tree_all_nth [OF i, of sel])
  next
    case False
    then have n: "node_at js (pChild (ds ! i)) = Some d" using Cons.prems i by simp
    show ?thesis
      using Cons.IH [OF n] False i by (simp add: tree_all_update [OF i] tree_all_nth [OF i, of sel] sel_child)
  qed
qed simp

lemma tree_all_plant: "tree_all sel (plant ns ds) = tree_all sel ds"
proof (induction ns ds rule: plant.induct)
  case (2 n ns ds)
  show ?case
  proof (cases "has_slot n ds")
    case True
    then have s: "slot n ds < length ds" by (simp add: has_slot_def)
    show ?thesis using 2 True s by (simp add: tree_all_update [OF s] tree_all_nth [OF s, of sel] sel_child)
  next
    case False
    have "tree_all sel (take (slot n ds) ds) @ tree_all sel (drop (slot n ds) ds) = tree_all sel ds"
      by (metis append_take_drop_id tree_all_append)
    then show ?thesis using 2 False by (simp add: tree_all_append tree_all_Cons sel_child sel_fresh)
  qed
qed simp

lemma tree_all_cleanup: "tree_all sel (CheckForCleanup pos ds) = tree_all sel ds"
proof (induction pos arbitrary: ds)
  case (Cons i js)
  show ?case
  proof (cases "i < length ds")
    case True
    let ?d = "set_child (CheckForCleanup js (pChild (ds ! i))) (ds ! i)"
    have c: "sel ?d @ tree_all sel (pChild ?d) = sel (ds ! i) @ tree_all sel (pChild (ds ! i))"
      using Cons by (simp add: sel_child)
    show ?thesis
    proof (cases "empty_dir ?d")
      case e: True
      have "sel ?d = []" by (rule sel_empty [OF e])
      moreover have "pChild ?d = []" using e by (simp add: empty_dir_def)
      ultimately have "sel (ds ! i) @ tree_all sel (pChild (ds ! i)) = []" using c by simp
      then show ?thesis using True e by (simp add: Let_def tree_all_append tree_all_nth [OF True, of sel])
    next
      case False
      then show ?thesis using True c by (simp add: Let_def tree_all_update [OF True] tree_all_nth [OF True, of sel])
    qed
  qed simp
qed simp

lemma tree_all_put_other:
  assumes "\<And>d. sel (h d) = sel d" "\<And>d. pChild (h d) = pChild d"
  shows "tree_all sel (on_trail h (\<lambda>d. d) pos ds) = tree_all sel ds"
proof (induction pos arbitrary: ds)
  case (Cons i js)
  show ?case
  proof (cases "i < length ds")
    case True
    then show ?thesis
      using assms Cons by (simp add: tree_all_update [OF True] tree_all_nth [OF True, of sel] sel_child)
  qed simp
qed simp

end

interpretation evs: dir_list pEvents
  by unfold_locales (simp_all add: fresh_dir_def empty_dir_def)

interpretation hds: dir_list pHandles
  by unfold_locales (simp_all add: fresh_dir_def empty_dir_def)

section \<open>Trees after an operation\<close>

lemma forest_ok_put:
  assumes "forest_ok ds" "\<And>d. szDirectory (h d) = szDirectory d \<and> pChild (h d) = pChild d"
  shows "forest_ok (on_trail h (\<lambda>d. d) pos ds)"
  using assms(1)
proof (induction pos arbitrary: ds)
  case (Cons i js)
  show ?case
  proof (cases "i < length ds")
    case True
    then show ?thesis
      using Cons forest_ok_nth [OF Cons.prems True] assms(2) by (auto intro!: forest_ok_update simp: dir_key_def)
  qed (use Cons in simp)
qed simp

lemma forest_ok_cleanup: "forest_ok ds \<Longrightarrow> forest_ok (CheckForCleanup pos ds)"
proof (induction pos arbitrary: ds)
  case (Cons i js)
  show ?case
  proof (cases "i < length ds")
    case True
    have "forest_ok (ds[i := set_child (CheckForCleanup js (pChild (ds ! i))) (ds ! i)])"
      by (rule forest_ok_update [OF Cons.prems True]) (use Cons.IH forest_ok_nth [OF Cons.prems True] in simp_all)
    then show ?thesis using True forest_ok_delete [OF Cons.prems] by (simp add: Let_def)
  qed (use Cons in simp)
qed simp

lemma cleanup_update:
  "i < length ds \<Longrightarrow> CheckForCleanup (i # js) (ds[i := x]) =
     (let y = set_child (CheckForCleanup js (pChild x)) x in if empty_dir y then take i ds @ drop (Suc i) ds else ds[i := y])"
  by (simp add: Let_def)

lemma tidy_cleanup_put:
  assumes "tidy ds" "\<And>d. pChild (h d) = pChild d"
  shows "tidy (CheckForCleanup pos (on_trail h (\<lambda>d. d) pos ds))"
  using assms(1)
proof (induction pos arbitrary: ds)
  case (Cons i js)
  show ?case
  proof (cases "i < length ds")
    case True
    let ?x = "if js = [] then h (ds ! i) else set_child (on_trail h (\<lambda>d. d) js (pChild (ds ! i))) (ds ! i)"
    have t: "tidy (CheckForCleanup js (pChild ?x))"
      using Cons.IH [OF tidy_nth(1) [OF Cons.prems True]] tidy_nth(1) [OF Cons.prems True] assms(2) by (cases js) auto
    have d: "tidy (take i ds @ drop (Suc i) ds)" by (rule tidy_delete [OF Cons.prems])
    let ?y = "set_child (CheckForCleanup js (pChild ?x)) ?x"
    have "CheckForCleanup (i # js) (on_trail h (\<lambda>d. d) (i # js) ds) =
        (if empty_dir ?y then take i ds @ drop (Suc i) ds else ds[i := ?y])"
      unfolding on_trail.simps if_P [OF True] cleanup_update [OF True] Let_def ..
    moreover have "tidy (ds[i := ?y])" if "\<not> empty_dir ?y"
      by (rule tidy_update [OF Cons.prems True that]) (use t in simp)
    ultimately show ?thesis using d by presburger
  qed (use Cons in simp)
qed simp

lemma tidy_put:
  assumes "tidy ds" "\<And>d. pChild (h d) = pChild d" "\<And>d. \<not> empty_dir (h d)"
  shows "tidy (on_trail h (\<lambda>d. d) pos ds)"
  using assms(1)
proof (induction pos arbitrary: ds)
  case (Cons i js)
  show ?case
  proof (cases "i < length ds")
    case True
    have e: "\<not> empty_dir (set_child cs (ds ! i))" if "cs \<noteq> []" for cs using that by (simp add: empty_dir_def)
    have n: "on_trail h (\<lambda>d. d) js cs \<noteq> []" if "cs \<noteq> []" for cs using that by (cases js) auto
    have x: "\<not> empty_dir (set_child (on_trail h (\<lambda>d. d) js (pChild (ds ! i))) (ds ! i))"
    proof (cases "pChild (ds ! i) = []")
      case True
      then have "on_trail h (\<lambda>d. d) js (pChild (ds ! i)) = pChild (ds ! i)" by (cases js) auto
      then show ?thesis using tidy_nth(2) [OF Cons.prems \<open>i < length ds\<close>] by simp
    qed (use e n in blast)
    show ?thesis
      using Cons True tidy_nth [OF Cons.prems True] assms(2,3) x by (auto intro!: tidy_update)
  qed (use Cons in simp)
qed simp

text \<open>An insertion leaves no empty directory once something is put at its end.\<close>

lemma tidy_plant_put:
  assumes "tidy ds" "\<And>d. pChild (h d) = pChild d" "\<And>d. \<not> empty_dir (h d)" "ns \<noteq> []"
  shows "tidy (on_trail h (\<lambda>d. d) (place ns ds) (plant ns ds))"
  using assms(1,4)
proof (induction ns ds rule: plant.induct)
  case (2 n ns ds)
  show ?case
  proof (cases "has_slot n ds")
    case True
    then have s: "slot n ds < length ds" by (simp add: has_slot_def)
    let ?d = "ds ! slot n ds"
    have tw: "set_child cs (set_child cs' d) = set_child cs d" for cs cs' d by (simp add: set_child_def)
    show ?thesis
    proof (cases "ns = []")
      case True
      then show ?thesis
        using \<open>has_slot n ds\<close> s 2 assms(2,3) tidy_nth(1) [OF "2.prems"(1) s] by (auto intro!: tidy_update)
    next
      case False
      have p: "place ns (pChild ?d) \<noteq> []" "plant ns (pChild ?d) \<noteq> []"
        using False by (cases ns; auto simp: plant_not_Nil simp del: plant.simps)+
      have t: "tidy (on_trail h (\<lambda>d. d) (place ns (pChild ?d)) (plant ns (pChild ?d)))"
        using "2.IH"(1) [OF True tidy_nth(1) [OF "2.prems"(1) s] False] .
      have "on_trail h (\<lambda>d. d) (place ns (pChild ?d)) (plant ns (pChild ?d)) \<noteq> []"
        using p by (cases "place ns (pChild ?d)") auto
      then have "\<not> empty_dir (set_child (on_trail h (\<lambda>d. d) (place ns (pChild ?d)) (plant ns (pChild ?d))) ?d)"
        by (simp add: empty_dir_def)
      then show ?thesis using True s p t "2.prems"(1) by (auto simp: tw intro!: tidy_update)
    qed
  next
    case False
    let ?d = "fresh_dir n"
    have d: "tidy (take (slot n ds) ds)" "tidy (drop (slot n ds) ds)"
      using "2.prems"(1) tidy_append [of "take (slot n ds) ds" "drop (slot n ds) ds"] by simp_all
    have tw: "set_child cs (set_child cs' d) = set_child cs d" for cs cs' d by (simp add: set_child_def)
    have l: "length (take (slot n ds) ds) = slot n ds" using slot_le [of n ds] by simp
    have up: "(take (slot n ds) ds @ x # drop (slot n ds) ds)[slot n ds := y] = take (slot n ds) ds @ y # drop (slot n ds) ds" for x y
      using l by (simp add: list_update_append)
    have at: "(take (slot n ds) ds @ x # drop (slot n ds) ds) ! slot n ds = x" for x
      using l by (simp add: nth_append)
    have lt: "slot n ds < Suc (min (length ds) (slot n ds) + (length ds - slot n ds))" "slot n ds < Suc (length ds)"
      using slot_le [of n ds] by simp_all
    show ?thesis
    proof (cases "ns = []")
      case True
      then show ?thesis
        using lt False d up at assms(2,3) by (simp add: tidy_append tidy_Cons)
    next
      case ne: False
      have p: "place ns [] \<noteq> []" "plant ns [] \<noteq> []"
        using ne by (cases ns; auto simp: plant_not_Nil simp del: plant.simps)+
      have t: "tidy (on_trail h (\<lambda>d. d) (place ns []) (plant ns []))"
        using "2.IH"(2) [OF False _ ne] by simp
      have "on_trail h (\<lambda>d. d) (place ns []) (plant ns []) \<noteq> []"
        using p by (cases "place ns []") auto
      then have "\<not> empty_dir (set_child (on_trail h (\<lambda>d. d) (place ns []) (plant ns [])) ?d)"
        by (simp add: empty_dir_def)
      then show ?thesis using lt False d up at p t by (simp add: tidy_append tidy_Cons tw)
    qed
  qed
qed simp

text \<open>The watchers do not notice that an empty directory is removed.\<close>

lemma child_of_delete:
  assumes "forest_ok ds" "i < length ds"
  shows "child_of k (take i ds @ drop (Suc i) ds) = (if k = dir_key (ds ! i) then None else child_of k ds)"
proof -
  have f: "find P (xs @ ys) = (case find P xs of None \<Rightarrow> find P ys | Some x \<Rightarrow> Some x)" for P and xs ys :: "NOTDIRENTRY list"
    by (induction xs) auto
  have o: "forest_ok (take i ds @ ds ! i # drop (Suc i) ds)" using assms forest_split [of i ds] by simp
  have "dir_key x \<noteq> dir_key (ds ! i)" if "x \<in> set (take i ds) \<or> x \<in> set (drop (Suc i) ds)" for x
    using o that by (auto simp: forest_ok_append forest_ok_Cons)
  then have "find (\<lambda>y. dir_key y = dir_key (ds ! i)) (take i ds) = None" "find (\<lambda>y. dir_key y = dir_key (ds ! i)) (drop (Suc i) ds) = None"
    by (auto simp: find_None_iff)
  moreover have "child_of k ds = child_of k (take i ds @ ds ! i # drop (Suc i) ds)"
    using forest_split [OF assms(2)] by simp
  ultimately show ?thesis by (auto simp: child_of_def f split: option.splits)
qed

lemma events_at_cleanup:
  assumes "forest_ok ds"
  shows "events_at q (CheckForCleanup pos ds) = events_at q ds"
  using assms
proof (induction pos arbitrary: ds q)
  case (Cons i js)
  show ?case
  proof (cases "i < length ds")
    case True
    let ?d = "set_child (CheckForCleanup js (pChild (ds ! i))) (ds ! i)"
    have ih: "events_at r (CheckForCleanup js (pChild (ds ! i))) = events_at r (pChild (ds ! i))" for r
      using Cons.IH [OF forest_ok_nth(1) [OF Cons.prems True]] .
    have up: "events_at q (ds[i := ?d]) = events_at q ds" for q
    proof (cases q)
      case (Cons k r)
      have c: "child_of (dir_key (ds ! i)) ds = Some (ds ! i)"
      proof -
        obtain nm where n: "dir_key (ds ! i) = wcs_key nm"
          using forest_ok_nth(2) [OF Cons.prems True] by (auto simp: dir_key_def)
        have "slot nm ds = i" using slot_found [OF Cons.prems True n] by simp
        then show ?thesis
          using child_of_slot [OF Cons.prems, of nm] n True same_name_key [OF forest_ok_nth(2) [OF Cons.prems True], of nm]
          by (simp add: has_slot_def)
      qed
      show ?thesis
        using Cons ih c child_of_update [OF True _ Cons.prems, of ?d k] by (cases "k = dir_key (ds ! i)") auto
    qed simp
    show ?thesis
    proof (cases "empty_dir ?d")
      case e: True
      have "events_at q (take i ds @ drop (Suc i) ds) = events_at q (ds[i := ?d])"
      proof (cases q)
        case (Cons k r)
        have "events_at r [] = []" by (cases r) (auto simp: child_of_def)
        then show ?thesis
          using Cons e child_of_delete [OF Cons.prems True, of k] child_of_update [OF True _ Cons.prems, of ?d k]
          by (auto simp: empty_dir_def)
      qed simp
      then show ?thesis using True e up by (simp add: Let_def)
    next
      case False
      then show ?thesis using True up by (simp add: Let_def)
    qed
  qed simp
qed simp

end
