(* ===== verification/Notify_Wf.thy ===== *)
theory Notify_Wf
  imports Notify_Inv
begin

text \<open>
  Volumes and states: well-formed states, the effect of an operation on one volume, and what creating
  and closing do to the maps of watchers and of open files.
\<close>

section \<open>Directories by path\<close>

fun node_of :: "nat list list \<Rightarrow> NOTDIRENTRY list \<Rightarrow> NOTDIRENTRY option" where
  "node_of [] ds = None"
| "node_of (k # q) ds =
     (case child_of k ds of None \<Rightarrow> None | Some d \<Rightarrow> if q = [] then Some d else node_of q (pChild d))"

text \<open>The open files of a directory.\<close>

definition opened :: "NOTVOLENTRY \<Rightarrow> nat list list \<Rightarrow> NOTHANDLEENTRY list" where
  "opened w q =
     (if q = [] then v_pHandles w else case node_of q (pDirEntry w) of None \<Rightarrow> [] | Some d \<Rightarrow> pHandles d)"

lemma events_node: "events_at q ds = (case node_of q ds of None \<Rightarrow> [] | Some d \<Rightarrow> pEvents d)"
  by (induction q ds rule: node_of.induct) (auto split: option.splits)

lemma node_of_reach: "forest_ok ds \<Longrightarrow> known ns ds \<Longrightarrow> node_at (reach ns ds) ds = node_of (map wcs_key ns) ds"
proof (induction ns ds rule: reach.induct)
  case (2 n ns ds)
  have h: "has_slot n ds" using "2.prems"(2) by simp
  then have s: "slot n ds < length ds" by (simp add: has_slot_def)
  have r: "reach ns (pChild (ds ! slot n ds)) = [] \<longleftrightarrow> ns = []" using "2.prems"(2) by (cases ns) auto
  show ?case
    using "2.IH" [OF h forest_ok_nth(1) [OF "2.prems"(1) s]] h s r "2.prems"(2) child_of_slot [OF "2.prems"(1), of n] by auto
qed simp

text \<open>Every position in a sorted tree is that of a path.\<close>

lemma position_path:
  assumes "forest_ok ds" "node_at pos ds = Some d"
  shows "\<exists>ns. ns \<noteq> [] \<and> known ns ds \<and> reach ns ds = pos"
  using assms
proof (induction pos ds rule: node_at.induct)
  case (2 i js ds)
  have i: "i < length ds" using "2.prems"(2) by (auto split: if_splits)
  obtain nm where nm: "dir_key (ds ! i) = wcs_key nm"
    using forest_ok_nth(2) [OF "2.prems"(1) i] by (auto simp: dir_key_def)
  have s: "slot nm ds = i" using slot_found [OF "2.prems"(1) i nm] by simp
  have h: "has_slot nm ds"
    using s i nm same_name_key [OF forest_ok_nth(2) [OF "2.prems"(1) i]] by (simp add: has_slot_def)
  show ?case
  proof (cases "js = []")
    case True
    then have "known [nm] ds \<and> reach [nm] ds = i # js" using h s by simp
    then show ?thesis by blast
  next
    case False
    obtain ns where "known ns (pChild (ds ! i))" "reach ns (pChild (ds ! i)) = js"
      using "2.IH" [OF i False forest_ok_nth(1) [OF "2.prems"(1) i]] "2.prems"(2) False i by auto
    then have "known (nm # ns) ds \<and> reach (nm # ns) ds = i # js" using h s by simp
    then show ?thesis by blast
  qed
qed simp

lemma slot_cong: "wcs_key n = wcs_key m \<Longrightarrow> slot n ds = slot m ds"
proof -
  assume k: "wcs_key n = wcs_key m"
  have "name_above n = name_above m"
    by (rule ext) (simp add: name_above_def k split: option.splits)
  then show ?thesis by (simp add: slot_def)
qed

lemma has_slot_cong: "wcs_key n = wcs_key m \<Longrightarrow> has_slot n ds = has_slot m ds"
  using slot_cong [of n m ds] by (simp add: has_slot_def same_name_def split: option.splits)

lemma reach_cong: "map wcs_key ns = map wcs_key ms \<Longrightarrow> reach ns ds = reach ms ds"
proof (induction ns arbitrary: ms ds)
  case (Cons n ns)
  obtain m ms' where "ms = m # ms'" "wcs_key n = wcs_key m" "map wcs_key ns = map wcs_key ms'"
    using Cons.prems by (cases ms) auto
  then show ?case
    using Cons.IH [of ms' "pChild (ds ! slot m ds)"] slot_cong [of n m ds] has_slot_cong [of n m ds] by simp
qed simp

lemma find_dir_some: "find_dir P ds = Some pos \<Longrightarrow> \<exists>d. node_at pos ds = Some d \<and> P d"
proof (induction P ds arbitrary: pos rule: find_dir.induct)
  case (2 P n es hs cs ds)
  consider (here) "P (NOTDIRENTRY n es hs cs)" | (below) js where "\<not> P (NOTDIRENTRY n es hs cs)" "find_dir P cs = Some js" "pos = 0 # js"
    | (right) js where "\<not> P (NOTDIRENTRY n es hs cs)" "find_dir P cs = None" "find_dir P ds = Some js" "pos = bump js"
    using "2.prems" by (auto split: if_splits option.splits)
  then show ?case
  proof cases
    case below
    then obtain d where "node_at js cs = Some d \<and> P d" using "2.IH"(1) by blast
    then show ?thesis using below by (cases js) auto
  next
    case right
    then obtain d where "node_at js ds = Some d \<and> P d" using "2.IH"(2) by auto
    then show ?thesis using right by (cases js) (auto simp: bump_def split: if_splits)
  qed (use "2.prems" in auto)
qed simp

lemma find_dir_none: "find_dir P ds = None \<Longrightarrow> node_at pos ds = Some d \<Longrightarrow> \<not> P d"
proof (induction P ds arbitrary: pos rule: find_dir.induct)
  case (2 P n es hs cs ds)
  obtain i js where p: "pos = i # js" using "2.prems"(2) by (cases pos) auto
  have nn: "\<not> P (NOTDIRENTRY n es hs cs)" "find_dir P cs = None" "find_dir P ds = None"
    using "2.prems"(1) by (auto split: if_splits option.splits)
  show ?case
  proof (cases i)
    case 0
    then show ?thesis using p nn "2.prems"(2) "2.IH"(1) [OF nn(1,2), of js] by (auto split: if_splits)
  next
    case (Suc k)
    then have "node_at (k # js) ds = Some d" using p "2.prems"(2) by (simp split: if_splits)
    then show ?thesis using "2.IH"(2) [OF nn(1,2,3)] by blast
  qed
next
  case (1 P)
  then show ?case by (cases pos) auto
qed

lemma bump_nonempty: "find_dir P ds = Some pos \<Longrightarrow> pos \<noteq> []"
  using find_dir_some [of P ds pos] by auto

section \<open>Where events and handles are\<close>

definition at_path :: "NOTVOLENTRY \<Rightarrow> nat list \<Rightarrow> string list \<Rightarrow> bool" where
  "at_path w pos ns \<longleftrightarrow> known ns (pDirEntry w) \<and> pos = reach ns (pDirEntry w)"

lemma at_path_Nil: "at_path w pos ns \<Longrightarrow> pos = [] \<longleftrightarrow> ns = []"
  by (auto simp: at_path_def known_def)

lemma at_path_node:
  assumes "forest_ok (pDirEntry w)" "at_path w pos ns" "ns \<noteq> []"
  shows "\<exists>d. node_at pos (pDirEntry w) = Some d \<and> node_of (map wcs_key ns) (pDirEntry w) = Some d"
  using node_at_reach [OF assms(1) _ assms(3)] node_of_reach [OF assms(1), of ns] assms(2) unfolding at_path_def by auto

lemma here_path:
  assumes "forest_ok (pDirEntry w)" "at_path w pos ns"
  shows "events_here w pos = watch w (map wcs_key ns)" "handles_here w pos = opened w (map wcs_key ns)"
  using at_path_node [OF assms] at_path_Nil [OF assms(2)]
  by (auto simp: events_here_def handles_here_def watch_def opened_def events_node)

lemma event_pos_path:
  assumes "forest_ok (pDirEntry w)" "event_pos w a = Some pos"
  shows "\<exists>ns. at_path w pos ns \<and> a \<in> e_addr ` set (watch w (map wcs_key ns))"
proof (cases "a \<in> e_addr ` set (v_pEvents w)")
  case True
  then have "at_path w pos [] \<and> a \<in> e_addr ` set (watch w (map wcs_key []))"
    using assms(2) by (simp add: event_pos_def at_path_def watch_def)
  then show ?thesis by blast
next
  case False
  then have f: "find_dir (\<lambda>d. a \<in> e_addr ` set (pEvents d)) (pDirEntry w) = Some pos" using assms(2) by (simp add: event_pos_def)
  obtain d where d: "node_at pos (pDirEntry w) = Some d" "a \<in> e_addr ` set (pEvents d)" using find_dir_some [OF f] by blast
  obtain ns where ns: "ns \<noteq> []" "at_path w pos ns" using position_path [OF assms(1) d(1)] unfolding at_path_def by auto
  have "events_here w pos = pEvents d" using d(1) bump_nonempty [OF f] by (simp add: events_here_def)
  then show ?thesis using here_path(1) [OF assms(1) ns(2)] d(2) ns(2) by auto
qed

lemma handle_pos_path:
  assumes "forest_ok (pDirEntry w)" "handle_pos w a = Some pos"
  shows "\<exists>ns. at_path w pos ns \<and> a \<in> h_addr ` set (opened w (map wcs_key ns))"
proof (cases "a \<in> h_addr ` set (v_pHandles w)")
  case True
  then have "at_path w pos [] \<and> a \<in> h_addr ` set (opened w (map wcs_key []))"
    using assms(2) by (simp add: handle_pos_def at_path_def opened_def)
  then show ?thesis by blast
next
  case False
  then have f: "find_dir (\<lambda>d. a \<in> h_addr ` set (pHandles d)) (pDirEntry w) = Some pos" using assms(2) by (simp add: handle_pos_def)
  obtain d where d: "node_at pos (pDirEntry w) = Some d" "a \<in> h_addr ` set (pHandles d)" using find_dir_some [OF f] by blast
  obtain ns where ns: "ns \<noteq> []" "at_path w pos ns" using position_path [OF assms(1) d(1)] unfolding at_path_def by auto
  have "handles_here w pos = pHandles d" using d(1) bump_nonempty [OF f] by (simp add: handles_here_def)
  then show ?thesis using here_path(2) [OF assms(1) ns(2)] d(2) ns(2) by auto
qed

text \<open>An event that is somewhere has a position.\<close>

lemma event_pos_exists:
  assumes "forest_ok (pDirEntry w)" "at_path w pos ns" "a \<in> e_addr ` set (events_here w pos)"
  shows "event_pos w a \<noteq> None"
proof (cases "ns = []")
  case True
  then show ?thesis using assms(3) at_path_Nil [OF assms(2)] by (simp add: event_pos_def events_here_def)
next
  case False
  obtain d where d: "node_at pos (pDirEntry w) = Some d" using at_path_node [OF assms(1,2) False] by blast
  have "pos \<noteq> []" using False at_path_Nil [OF assms(2)] by simp
  then have "a \<in> e_addr ` set (pEvents d)" using assms(3) d by (simp add: events_here_def)
  then have "find_dir (\<lambda>d. a \<in> e_addr ` set (pEvents d)) (pDirEntry w) \<noteq> None"
    using find_dir_none [OF _ d, of "\<lambda>d. a \<in> e_addr ` set (pEvents d)"] by blast
  then show ?thesis by (simp add: event_pos_def)
qed

section \<open>Putting and removing\<close>

definition vol_events :: "NOTVOLENTRY \<Rightarrow> NOTEVENTENTRY list" where
  "vol_events w = v_pEvents w @ tree_events (pDirEntry w)"

definition vol_handles :: "NOTVOLENTRY \<Rightarrow> NOTHANDLEENTRY list" where
  "vol_handles w = v_pHandles w @ tree_handles (pDirEntry w)"

definition vol_ok :: "NOTVOLENTRY \<Rightarrow> bool" where
  "vol_ok w \<longleftrightarrow> forest_ok (pDirEntry w) \<and> tidy (pDirEntry w)"

lemma events_in_tree: "node_at pos ds = Some d \<Longrightarrow> set (pEvents d) \<subseteq> set (tree_all pEvents ds)"
proof (induction pos ds rule: node_at.induct)
  case (2 i js ds)
  have i: "i < length ds" using "2.prems" by (auto split: if_splits)
  show ?case
    using 2 i tree_all_nth [OF i, of pEvents] by (cases "js = []") auto
qed simp

lemma events_here_in: "set (events_here w pos) \<subseteq> set (vol_events w)"
  using events_in_tree [of pos "pDirEntry w"]
  by (cases "node_at pos (pDirEntry w)") (auto simp: events_here_def vol_events_def tree_events_all)

lemma watch_put_events:
  assumes "forest_ok (pDirEntry w)" "at_path w pos ns"
  shows "watch (put_events w pos es) q = (if q = map wcs_key ns then es else watch w q)"
proof (cases "ns = []")
  case True
  then show ?thesis using at_path_Nil [OF assms(2)] by (auto simp: put_events_def watch_def)
next
  case False
  then show ?thesis
    using at_path_Nil [OF assms(2)] assms(2) events_at_put [OF assms(1) _ False, of q es]
    by (auto simp: put_events_def watch_def at_path_def)
qed

lemma vol_events_put:
  assumes "forest_ok (pDirEntry w)" "at_path w pos ns"
  shows "mset (vol_events (put_events w pos es)) + mset (events_here w pos) = mset (vol_events w) + mset es"
proof (cases "ns = []")
  case True
  then show ?thesis using at_path_Nil [OF assms(2)] by (auto simp: put_events_def events_here_def vol_events_def)
next
  case False
  obtain d where d: "node_at pos (pDirEntry w) = Some d" using at_path_node [OF assms False] by blast
  have p: "pos \<noteq> []" using False at_path_Nil [OF assms(2)] by simp
  show ?thesis
    using p d evs.tree_all_put [OF d, of "set_events es"]
    by (simp add: put_events_def events_here_def vol_events_def tree_events_all ac_simps)
qed

lemma put_events_other [simp]:
  "vol_handles (put_events w pos es) = vol_handles w" "v_addr (put_events w pos es) = v_addr w"
  "szVolumeName (put_events w pos es) = szVolumeName w"
  by (simp_all add: put_events_def vol_handles_def tree_handles_all hds.tree_all_put_other)

lemma put_handles_other [simp]:
  "vol_events (put_handles w pos es) = vol_events w" "v_addr (put_handles w pos es) = v_addr w"
  "szVolumeName (put_handles w pos es) = szVolumeName w"
  by (simp_all add: put_handles_def vol_events_def tree_events_all evs.tree_all_put_other)

lemma vol_handles_put:
  assumes "forest_ok (pDirEntry w)" "at_path w pos ns"
  shows "mset (vol_handles (put_handles w pos hs)) + mset (handles_here w pos) = mset (vol_handles w) + mset hs"
proof (cases "ns = []")
  case True
  then show ?thesis using at_path_Nil [OF assms(2)] by (auto simp: put_handles_def handles_here_def vol_handles_def)
next
  case False
  obtain d where d: "node_at pos (pDirEntry w) = Some d" using at_path_node [OF assms False] by blast
  have p: "pos \<noteq> []" using False at_path_Nil [OF assms(2)] by simp
  show ?thesis
    using p d hds.tree_all_put [OF d, of "set_handles hs"]
    by (simp add: put_handles_def handles_here_def vol_handles_def tree_handles_all ac_simps)
qed

lemma events_at_put_handles:
  assumes "forest_ok ds"
  shows "events_at q (on_trail (set_handles hs) (\<lambda>d. d) pos ds) = events_at q ds"
  using assms
proof (induction pos arbitrary: q ds)
  case (Cons i js)
  show ?case
  proof (cases "i < length ds")
    case True
    let ?x = "if js = [] then set_handles hs (ds ! i) else set_child (on_trail (set_handles hs) (\<lambda>d. d) js (pChild (ds ! i))) (ds ! i)"
    have x: "dir_key ?x = dir_key (ds ! i)" "pEvents ?x = pEvents (ds ! i)" by auto
    have c: "events_at r (pChild ?x) = events_at r (pChild (ds ! i))" for r
      using Cons.IH [OF forest_ok_nth(1) [OF Cons.prems True]] by auto
    obtain nm where n: "dir_key (ds ! i) = wcs_key nm"
      using forest_ok_nth(2) [OF Cons.prems True] by (auto simp: dir_key_def)
    have s: "slot nm ds = i" using slot_found [OF Cons.prems True n] by simp
    have ch: "child_of (dir_key (ds ! i)) ds = Some (ds ! i)"
      using child_of_slot [OF Cons.prems, of nm] n s True same_name_key [OF forest_ok_nth(2) [OF Cons.prems True], of nm]
      by (simp add: has_slot_def)
    have "events_at q (ds[i := ?x]) = events_at q ds"
    proof (cases q)
      case (Cons k r)
      show ?thesis
        unfolding Cons events_at.simps child_of_update [OF True x(1) \<open>forest_ok ds\<close>] using ch x(2) c by auto
    qed simp
    then show ?thesis using True by simp
  qed simp
qed simp

lemma watch_put_handles [simp]: "forest_ok (pDirEntry w) \<Longrightarrow> watch (put_handles w pos hs) q = watch w q"
  by (simp add: watch_def put_handles_def events_at_put_handles)

end
