(* ===== verification/Notify_Steps.thy ===== *)
theory Notify_Steps
  imports Notify_Wf
begin

text \<open>
  Well-formed states and the runs of the operations: every operation keeps the state well-formed when
  there is memory.

  The operations on states: each ends when there is memory, keeps the state well-formed, and changes
  the watchers as the rule says.
\<close>

section \<open>States\<close>

definition state_events :: "NotifyState \<Rightarrow> NOTEVENTENTRY list" where
  "state_events s = closed_events s @ concat (map vol_events (g_pRootVolume s))"

definition state_handles :: "NotifyState \<Rightarrow> NOTHANDLEENTRY list" where
  "state_handles s = concat (map vol_handles (g_pRootVolume s))"

text \<open>The addresses are used once and below the next one; no critical section is left held.\<close>

definition wf_state :: "NotifyState \<Rightarrow> bool" where
  "wf_state s \<longleftrightarrow>
     (\<forall>w \<in> set (g_pRootVolume s). vol_ok w) \<and>
     distinct (map v_addr (g_pRootVolume s)) \<and> (\<forall>a \<in> v_addr ` set (g_pRootVolume s). 0 < a \<and> a < n_next s) \<and>
     distinct (map e_addr (state_events s)) \<and> (\<forall>a \<in> e_addr ` set (state_events s). 0 < a \<and> a < n_next s) \<and>
     distinct (map h_addr (state_handles s)) \<and> (\<forall>a \<in> h_addr ` set (state_handles s). 0 < a \<and> a < n_next s) \<and>
     held s = [] \<and> 0 < n_next s"

lemma wf_can_enter: "wf_state s \<Longrightarrow> can_enter v s"
  by (rule can_enter_nil) (simp add: wf_state_def)

lemma wf_held: "wf_state s \<Longrightarrow> held s = []"
  by (simp add: wf_state_def)

text \<open>In a well-formed state every call finds the sections free.\<close>

lemmas NotifyCreateFile_wf = NotifyCreateFile_free [OF wf_can_enter]
  and NotifyCreateEvent_wf = NotifyCreateEvent_free [OF wf_can_enter]
  and NotifyHandleChangeEx_wf = NotifyHandleChangeEx_free [OF wf_can_enter]
  and NotifyCloseHandle_wf = NotifyCloseHandle_free [OF wf_can_enter]
  and NotifyCloseEvent_wf = NotifyCloseEvent_free [OF wf_held]
  and NotifyPathChange_wf = NotifyPathChange_free [OF wf_can_enter]
  and NotifyMoveFile_wf = NotifyMoveFile_free [OF wf_can_enter]
  and NotifyDeleteVolume_wf = NotifyDeleteVolume_free [OF wf_can_enter]
  and NotifyReset_wf = NotifyReset_free [OF wf_held]
  and notify_handle_wf = notify_handle_returns [OF wf_held]

lemma volume_split:
  assumes "distinct (map v_addr (g_pRootVolume s))" "volume_at s v = Some w"
  shows "\<exists>xs ys. g_pRootVolume s = xs @ w # ys \<and> v_addr w = v \<and> (\<forall>x \<in> set xs \<union> set ys. v_addr x \<noteq> v)"
proof -
  have f: "w \<in> set (g_pRootVolume s)" "v_addr w = v"
    using assms(2) by (auto simp: volume_at_def find_Some_iff)
  then obtain xs ys where e: "g_pRootVolume s = xs @ w # ys" by (meson split_list)
  have "\<forall>x \<in> set xs \<union> set ys. v_addr x \<noteq> v" using e f(2) assms(1) by (auto simp: image_iff)
  then show ?thesis using e f(2) by blast
qed

lemma put_volume_split:
  assumes "g_pRootVolume s = xs @ w # ys" "v_addr w = v" "\<forall>x \<in> set xs \<union> set ys. v_addr x \<noteq> v" "v_addr w' = v"
  shows "g_pRootVolume (put_volume w' s) = xs @ w' # ys"
proof -
  have "map (\<lambda>x. if v_addr x = v then w' else x) zs = zs" if "\<forall>x \<in> set zs. v_addr x \<noteq> v" for zs
    using that by (induction zs) auto
  then show ?thesis using assms by (simp add: put_volume_def)
qed

lemma put_volume_simps [simp]:
  "closed_events (put_volume w s) = closed_events s" "held (put_volume w s) = held s"
  "n_next (put_volume w s) = n_next s" "n_error (put_volume w s) = n_error s"
  by (simp_all add: put_volume_def)

lemma distinct_more:
  assumes "distinct l" "mset l' \<subseteq># mset l + mset A" "distinct A" "set A \<inter> set l = {}"
  shows "distinct l'"
proof -
  have d: "distinct (l @ A)" using assms by auto
  have "mset l' \<subseteq># mset (l @ A)" using assms(2) by simp
  then have "count (mset l') a \<le> count (mset (l @ A)) a" for a by (rule mset_subset_eq_count)
  then have c: "count (mset l') a \<le> 1" for a
    using d le_trans unfolding distinct_count_atmost_1 by (metis (no_types, lifting) count_mset_0_iff le_zero_eq order_refl zero_le)
  have "count (mset l') a = (if a \<in> set l' then 1 else 0)" for a
    using c [of a] count_mset_0_iff [of l' a] by (cases "a \<in> set l'") (auto simp: le_less)
  then show ?thesis unfolding distinct_count_atmost_1 by blast
qed

lemma set_sub: "mset l' \<subseteq># mset l + mset A \<Longrightarrow> set l' \<subseteq> set l \<union> set A"
  by (metis mset_append mset_subset_eqD set_append set_mset_mset subsetI)

lemma new_below:
  assumes "S \<subseteq> T \<union> A" "\<forall>a \<in> T. 0 < a \<and> a < (n :: nat)" "\<forall>a \<in> A. n \<le> a \<and> a < m" "0 < n" "n \<le> m"
  shows "\<forall>a \<in> S. 0 < a \<and> a < m"
  using assms by fastforce

text \<open>A volume is replaced; the addresses in \<open>A\<close> and \<open>B\<close> are new.\<close>

lemma wf_put_volume:
  assumes wf: "wf_state s" and v: "volume_at s v = Some w" and w': "v_addr w' = v" "vol_ok w'"
    and s': "g_pRootVolume s' = g_pRootVolume s" "closed_events s' = closed_events s" "held s' = held s" "n_next s \<le> n_next s'"
    and ev: "mset (map e_addr (vol_events w')) \<subseteq># mset (map e_addr (vol_events w)) + mset A"
    and ha: "mset (map h_addr (vol_handles w')) \<subseteq># mset (map h_addr (vol_handles w)) + mset B"
    and new: "distinct A" "distinct B" "\<forall>a \<in> set A \<union> set B. n_next s \<le> a \<and> a < n_next s'"
  shows "wf_state (put_volume w' s')"
proof -
  obtain xs ys where sp: "g_pRootVolume s = xs @ w # ys" "v_addr w = v" "\<forall>x \<in> set xs \<union> set ys. v_addr x \<noteq> v"
    using volume_split [OF _ v] wf by (auto simp: wf_state_def)
  have r: "g_pRootVolume (put_volume w' s') = xs @ w' # ys"
    using put_volume_split [of s' xs w ys v w'] sp s'(1) w'(1) by simp
  have E: "mset (map e_addr (state_events (put_volume w' s'))) \<subseteq># mset (map e_addr (state_events s)) + mset A"
    using ev unfolding state_events_def r sp(1) s'(2) by (simp add: s'(2))
  have H: "mset (map h_addr (state_handles (put_volume w' s'))) \<subseteq># mset (map h_addr (state_handles s)) + mset B"
    using ha unfolding state_handles_def r sp(1) by simp
  have lt: "\<forall>a \<in> set (map e_addr (state_events s)). 0 < a \<and> a < n_next s" "\<forall>a \<in> set (map h_addr (state_handles s)). 0 < a \<and> a < n_next s"
    and pos: "0 < n_next s"
    using wf by (simp_all add: wf_state_def)
  have "set A \<inter> set (map e_addr (state_events s)) = {}" "set B \<inter> set (map h_addr (state_handles s)) = {}"
    using lt new(3) by (meson UnI1 UnI2 disjoint_iff leD)+
  then have D: "distinct (map e_addr (state_events (put_volume w' s')))" "distinct (map h_addr (state_handles (put_volume w' s')))"
    using distinct_more [OF _ E new(1)] distinct_more [OF _ H new(2)] wf by (auto simp: wf_state_def)
  have "set (map e_addr (state_events (put_volume w' s'))) \<subseteq> set (map e_addr (state_events s)) \<union> set A"
    "set (map h_addr (state_handles (put_volume w' s'))) \<subseteq> set (map h_addr (state_handles s)) \<union> set B"
    using set_sub [OF E] set_sub [OF H] by simp_all
  then have S: "\<forall>a \<in> e_addr ` set (state_events (put_volume w' s')). 0 < a \<and> a < n_next s'"
    "\<forall>a \<in> h_addr ` set (state_handles (put_volume w' s')). 0 < a \<and> a < n_next s'"
    using new_below [OF _ lt(1) _ pos s'(4), of _ "set A"] new_below [OF _ lt(2) _ pos s'(4), of _ "set B"] new(3) by simp_all
  have V: "\<forall>x \<in> set (xs @ w # ys). vol_ok x" "distinct (map v_addr (xs @ w # ys))" "\<forall>a \<in> v_addr ` set (xs @ w # ys). 0 < a \<and> a < n_next s"
    using wf unfolding wf_state_def sp(1) by auto
  then have "\<forall>x \<in> set (xs @ w' # ys). vol_ok x" "distinct (map v_addr (xs @ w' # ys))" "\<forall>a \<in> v_addr ` set (xs @ w' # ys). 0 < a \<and> a < n_next s'"
    using w' sp(2) by (auto intro: less_le_trans [OF _ s'(4)])
  then show ?thesis
    using D S s'(3,4) wf unfolding wf_state_def r by (auto simp: wf_state_def)
qed

lemma wf_volume:
  assumes "wf_state s" "volume_at s v = Some w"
  shows "vol_ok w" "v_addr w = v" "w \<in> set (g_pRootVolume s)"
  using assms by (auto simp: wf_state_def volume_at_def find_Some_iff)

lemma strip_events: "map strip ds = map strip ds' \<Longrightarrow> map e_addr (tree_events ds) = map e_addr (tree_events ds')"
proof -
  have "map e_addr (tree_events ds) = map e_addr (tree_events (map strip ds))" for ds
  proof (induction ds rule: tree_events.induct)
    case (2 n es hs cs ds)
    have "map e_addr es = map e_addr (map blank es)" by (simp add: blank_def)
    then show ?case using 2 by simp
  qed simp
  then show "map strip ds = map strip ds' \<Longrightarrow> ?thesis" by metis
qed

lemma strip_handles: "map strip ds = map strip ds' \<Longrightarrow> tree_handles ds = tree_handles ds'"
proof -
  have "tree_handles ds = tree_handles (map strip ds)" for ds
    by (induction ds rule: tree_handles.induct) simp_all
  then show "map strip ds = map strip ds' \<Longrightarrow> ?thesis" by metis
qed

lemma same_volume_lists:
  assumes "same_volume w w'"
  shows "map e_addr (vol_events w') = map e_addr (vol_events w)" "vol_handles w' = vol_handles w" "vol_ok w' = vol_ok w"
    "v_addr w' = v_addr w"
  using assms same_volume_ok [OF assms] strip_events [of "pDirEntry w'" "pDirEntry w"] strip_handles [of "pDirEntry w'" "pDirEntry w"]
  by (auto simp: same_volume_def vol_events_def vol_handles_def vol_ok_def)

lemma wf_same_volume:
  assumes "wf_state s" "volume_at s v = Some w" "same_volume w w'" "later s s'"
  shows "wf_state (put_volume w' s')"
  by (rule wf_put_volume [where A = "[]" and B = "[]", OF assms(1,2)])
    (use same_volume_lists [OF assms(3)] wf_volume [OF assms(1,2)] later_same [OF assms(4)] in simp_all)

section \<open>The operations on a volume\<close>

lemma insert_entry:
  assumes "names_ok ns" "ample env"
  shows "\<exists>nm su s'. InsertOrFindDirEntry env w (replicate k backslash @ join ns) wn b False ws s =
            ((place (dirs_of b ns) (pDirEntry w), nm, su), w\<lparr>pDirEntry := plant (dirs_of b ns) (pDirEntry w)\<rparr>, True, s') \<and> later s s'"
proof -
  obtain x s1 where a: "allocate env s = (Some x, s1)" using ample_allocate [OF assms(2)] by blast
  obtain nm su s2 where r: "dir_loop env False wn ws (join ns) b None (pDirEntry w) s1 =
            ((Some (place (dirs_of b ns) (pDirEntry w)), nm, su), plant (dirs_of b ns) (pDirEntry w), s2)" and l: "later s1 s2"
    using insert_loop [OF assms] by blast
  have "later s s2" using later_allocate [OF a] l by (rule later_trans)
  then show ?thesis
    using a r join_hd [OF assms(1), of k] by (auto simp: InsertOrFindDirEntry_def Let_def)
qed

definition planted :: "string list \<Rightarrow> NOTVOLENTRY \<Rightarrow> NOTVOLENTRY" where
  "planted ns w = w\<lparr>pDirEntry := plant ns (pDirEntry w)\<rparr>"

lemma planted_simps [simp]: "v_addr (planted ns w) = v_addr w" "v_pEvents (planted ns w) = v_pEvents w" "v_pHandles (planted ns w) = v_pHandles w"
  "pDirEntry (planted ns w) = plant ns (pDirEntry w)"
  by (simp_all add: planted_def)

lemma planted_lists [simp]: "vol_events (planted ns w) = vol_events w" "vol_handles (planted ns w) = vol_handles w"
  by (simp_all add: vol_events_def vol_handles_def tree_events_all tree_handles_all evs.tree_all_plant hds.tree_all_plant)

lemma planted_path: "forest_ok (pDirEntry w) \<Longrightarrow> at_path (planted ns w) (place ns (pDirEntry w)) ns"
  using reach_plant [of "pDirEntry w" ns] by (simp add: at_path_def)

lemma watch_planted: "forest_ok (pDirEntry w) \<Longrightarrow> watch (planted ns w) q = watch w q"
  by (simp add: watch_def events_at_plant)

text \<open>An event is put into the directory of a path, a new one when need be.\<close>

lemma put_new_event:
  fixes e :: NOTEVENTENTRY and w :: NOTVOLENTRY and ns :: "string list"
  assumes "vol_ok w"
  defines "pos \<equiv> place ns (pDirEntry w)"
  defines "w' \<equiv> put_events (planted ns w) pos (e # events_here (planted ns w) pos)"
  shows "vol_ok w'" "mset (vol_events w') = add_mset e (mset (vol_events w))" "vol_handles w' = vol_handles w"
    "watch w' q = (if q = map wcs_key ns then e # watch w q else watch w q)" "v_addr w' = v_addr w"
proof -
  have F: "forest_ok (pDirEntry w)" "forest_ok (pDirEntry (planted ns w))" "tidy (pDirEntry w)"
    using assms(1) plant_sorted by (auto simp: vol_ok_def)
  have p: "at_path (planted ns w) pos ns" using planted_path [OF F(1)] by (simp add: pos_def)
  have here: "events_here (planted ns w) pos = watch w (map wcs_key ns)"
    using here_path(1) [OF F(2) p] watch_planted [OF F(1)] by simp
  show "watch w' q = (if q = map wcs_key ns then e # watch w q else watch w q)"
    using watch_put_events [OF F(2) p] watch_planted [OF F(1)] here by (simp add: w'_def)
  have "mset (vol_events w') + mset (events_here (planted ns w) pos) = mset (vol_events w) + mset (e # events_here (planted ns w) pos)"
    using vol_events_put [OF F(2) p, of "e # events_here (planted ns w) pos"] by (simp add: w'_def)
  then show "mset (vol_events w') = add_mset e (mset (vol_events w))" by simp
  show "vol_handles w' = vol_handles w" "v_addr w' = v_addr w" by (simp_all add: w'_def)
  let ?h = "set_events (e # events_here (planted ns w) pos)"
  have "forest_ok (pDirEntry w')"
    using F forest_ok_put [OF F(2), of ?h] by (cases "pos = []") (simp_all add: w'_def put_events_def)
  moreover have "tidy (pDirEntry w')"
  proof (cases "ns = []")
    case True
    then show ?thesis using F by (simp add: w'_def pos_def put_events_def)
  next
    case False
    have "pos \<noteq> []" using False at_path_Nil [OF p] by simp
    moreover have "tidy (on_trail ?h (\<lambda>d. d) pos (plant ns (pDirEntry w)))"
      unfolding pos_def by (rule tidy_plant_put [OF F(3) _ _ False]) (simp_all add: empty_dir_def)
    ultimately show ?thesis by (simp add: w'_def put_events_def)
  qed
  ultimately show "vol_ok w'" by (simp add: vol_ok_def)
qed

lemma put_new_handle:
  fixes x :: NOTHANDLEENTRY and w :: NOTVOLENTRY and ns :: "string list"
  assumes "vol_ok w"
  defines "pos \<equiv> place ns (pDirEntry w)"
  defines "w' \<equiv> put_handles (planted ns w) pos (x # handles_here (planted ns w) pos)"
  shows "vol_ok w'" "mset (vol_handles w') = add_mset x (mset (vol_handles w))" "vol_events w' = vol_events w"
    "watch w' q = watch w q" "v_addr w' = v_addr w"
proof -
  have F: "forest_ok (pDirEntry w)" "forest_ok (pDirEntry (planted ns w))" "tidy (pDirEntry w)"
    using assms(1) plant_sorted by (auto simp: vol_ok_def)
  have p: "at_path (planted ns w) pos ns" using planted_path [OF F(1)] by (simp add: pos_def)
  show "watch w' q = watch w q"
    using watch_planted [OF F(1)] F(2) by (simp add: w'_def)
  have "mset (vol_handles w') + mset (handles_here (planted ns w) pos) = mset (vol_handles w) + mset (x # handles_here (planted ns w) pos)"
    using vol_handles_put [OF F(2) p, of "x # handles_here (planted ns w) pos"] by (simp add: w'_def)
  then show "mset (vol_handles w') = add_mset x (mset (vol_handles w))" by simp
  show "vol_events w' = vol_events w" "v_addr w' = v_addr w" by (simp_all add: w'_def)
  let ?h = "set_handles (x # handles_here (planted ns w) pos)"
  have "forest_ok (pDirEntry w')"
    using F forest_ok_put [OF F(2), of ?h] by (cases "pos = []") (simp_all add: w'_def put_handles_def)
  moreover have "tidy (pDirEntry w')"
  proof (cases "ns = []")
    case True
    then show ?thesis using F by (simp add: w'_def pos_def put_handles_def)
  next
    case False
    have "pos \<noteq> []" using False at_path_Nil [OF p] by simp
    moreover have "tidy (on_trail ?h (\<lambda>d. d) pos (plant ns (pDirEntry w)))"
      unfolding pos_def by (rule tidy_plant_put [OF F(3) _ _ False]) (simp_all add: empty_dir_def)
    ultimately show ?thesis by (simp add: w'_def put_handles_def)
  qed
  ultimately show "vol_ok w'" by (simp add: vol_ok_def)
qed

text \<open>Removing an event or a handle, with the directories that are empty then.\<close>

lemma clean_up_simps [simp]: "v_addr (clean_up w pos) = v_addr w" "v_pEvents (clean_up w pos) = v_pEvents w"
  "vol_events (clean_up w pos) = vol_events w" "vol_handles (clean_up w pos) = vol_handles w"
  by (simp_all add: clean_up_def vol_events_def vol_handles_def tree_events_all tree_handles_all evs.tree_all_cleanup hds.tree_all_cleanup)

lemma watch_clean_up: "forest_ok (pDirEntry w) \<Longrightarrow> watch (clean_up w pos) q = watch w q"
  by (simp add: watch_def clean_up_def events_at_cleanup)

lemma vol_ok_remove_event:
  assumes "vol_ok w"
  shows "vol_ok (clean_up (put_events w pos es) pos)" "forest_ok (pDirEntry (put_events w pos es))"
proof -
  have F: "forest_ok (pDirEntry w)" "tidy (pDirEntry w)" using assms by (simp_all add: vol_ok_def)
  show f: "forest_ok (pDirEntry (put_events w pos es))"
    using F forest_ok_put [OF F(1), of "set_events es"] by (cases "pos = []") (simp_all add: put_events_def)
  have "tidy (pDirEntry (clean_up (put_events w pos es) pos))"
    using F tidy_cleanup_put [OF F(2), of "set_events es" pos] by (cases "pos = []") (simp_all add: put_events_def clean_up_def)
  then show "vol_ok (clean_up (put_events w pos es) pos)"
    using forest_ok_cleanup [OF f] by (simp add: vol_ok_def clean_up_def)
qed

lemma vol_ok_remove_handle:
  assumes "vol_ok w"
  shows "vol_ok (clean_up (put_handles w pos hs) pos)" "forest_ok (pDirEntry (put_handles w pos hs))"
proof -
  have F: "forest_ok (pDirEntry w)" "tidy (pDirEntry w)" using assms by (simp_all add: vol_ok_def)
  show f: "forest_ok (pDirEntry (put_handles w pos hs))"
    using F forest_ok_put [OF F(1), of "set_handles hs"] by (cases "pos = []") (simp_all add: put_handles_def)
  have "tidy (pDirEntry (clean_up (put_handles w pos hs) pos))"
    using F tidy_cleanup_put [OF F(2), of "set_handles hs" pos] by (cases "pos = []") (simp_all add: put_handles_def clean_up_def)
  then show "vol_ok (clean_up (put_handles w pos hs) pos)"
    using forest_ok_cleanup [OF f] by (simp add: vol_ok_def clean_up_def)
qed

section \<open>Volumes of a state\<close>

lemma volume_at_put: "volume_at s v = Some w \<Longrightarrow> v_addr w' = v \<Longrightarrow> volume_at (put_volume w' s) v = Some w'"
proof -
  have "find (\<lambda>x. v_addr x = v) ws = Some w \<Longrightarrow> v_addr w' = v \<Longrightarrow>
      find (\<lambda>x. v_addr x = v) (map (\<lambda>x. if v_addr x = v_addr w' then w' else x) ws) = Some w'" for ws
    by (induction ws) (auto split: if_splits)
  then show "volume_at s v = Some w \<Longrightarrow> v_addr w' = v \<Longrightarrow> ?thesis" by (simp add: volume_at_def put_volume_def)
qed

lemma volume_at_other: "v_addr w' \<noteq> v \<Longrightarrow> volume_at (put_volume w' s) v = volume_at s v"
proof -
  have "v_addr w' \<noteq> v \<Longrightarrow> find (\<lambda>x. v_addr x = v) (map (\<lambda>x. if v_addr x = v_addr w' then w' else x) ws) = find (\<lambda>x. v_addr x = v) ws" for ws
    by (induction ws) auto
  then show "v_addr w' \<noteq> v \<Longrightarrow> ?thesis" by (simp add: volume_at_def put_volume_def)
qed

lemma volume_at_same: "g_pRootVolume s' = g_pRootVolume s \<Longrightarrow> volume_at s' v = volume_at s v"
  by (simp add: volume_at_def)

section \<open>Creating and closing events\<close>

definition new_event :: "nat \<Rightarrow> nat \<Rightarrow> DWORD \<Rightarrow> bool \<Rightarrow> nat \<Rightarrow> nat \<Rightarrow> NOTEVENTENTRY" where
  "new_event a proc dwFlags subtree h k =
     \<lparr>e_addr = a, e_dwFlags = dwFlags, bWatchSubTree = subtree, hProc = proc, hEvent = h, hNotify = k,
      dwCount = 0, pFileInfo = [], signalled = False\<rparr>"

lemma ample_handle: "ample env \<Longrightarrow> \<exists>h s'. create_handle env s = (h, s') \<and> later s s' \<and> h = n_next s"
  using ample_allocate [of env s] later_allocate [of env s] by (auto simp: create_handle_def)

lemma create_event:
  assumes "ample env" "names_ok ns" "wf_state s" "volume_at s v = Some w"
  shows "\<exists>a h k' s1. NotifyCreateEvent env v proc (replicate k backslash @ join ns) subtree dwFlags s =
           Some (Some h, put_volume (put_events (planted ns w) (place ns (pDirEntry w))
             (new_event a proc dwFlags subtree h k' # events_here (planted ns w) (place ns (pDirEntry w)))) s1) \<and>
         later s s1 \<and> n_next s \<le> a \<and> a < n_next s1 \<and> 0 < h"
proof -
  obtain nm su s1 where i: "InsertOrFindDirEntry env w (replicate k backslash @ join ns) False True False False s =
            ((place ns (pDirEntry w), nm, su), planted ns w, True, s1)" and l1: "later s s1"
    using insert_entry [OF assms(2,1), of w k False True False s] by (auto simp: dirs_of_def planted_def)
  obtain s2 where a: "allocate env s1 = (Some (n_next s1), s2)" and n2: "n_next s2 = n_next s1 + 1"
    using ample_allocate [OF assms(1), of s1] by simp
  obtain h s3 where h: "create_handle env s2 = (h, s3)" "later s2 s3" "h = n_next s2" using ample_handle [OF assms(1)] by blast
  obtain x s4 where x: "create_handle env s3 = (x, s4)" "later s3 s4" using ample_handle [OF assms(1)] by blast
  have l: "later s s4" using l1 later_allocate [OF a] h(2) x(2) by (meson later_trans)
  have "NotifyCreateEvent env v proc (replicate k backslash @ join ns) subtree dwFlags s =
      Some (Some h, put_volume (put_events (planted ns w) (place ns (pDirEntry w))
        (new_event (n_next s1) proc dwFlags subtree h x # events_here (planted ns w) (place ns (pDirEntry w)))) s4)"
    using assms(4) i a h(1) x(1) by (simp add: NotifyCreateEvent_wf [OF assms(3)] new_event_def Let_def)
  moreover have "n_next s \<le> n_next s1" "n_next s1 < n_next s4" "0 < h"
    using l1 n2 h(2,3) x(2) by (auto simp: later_def)
  ultimately show ?thesis using l by blast
qed

theorem create_event_result:
  assumes "ample env" "names_ok ns" "wf_state s" "volume_at s v = Some w"
  shows "\<exists>a h k' w' s'. NotifyCreateEvent env v proc (replicate k backslash @ join ns) subtree dwFlags s = Some (Some h, s') \<and>
           wf_state s' \<and> volume_at s' v = Some w' \<and> 0 < h \<and> n_next s \<le> a \<and>
           (\<forall>q. watch w' q = (if q = map wcs_key ns then [new_event a proc dwFlags subtree h k'] else []) @ watch w q)"
proof -
  obtain a h k' s1 where c: "NotifyCreateEvent env v proc (replicate k backslash @ join ns) subtree dwFlags s =
           Some (Some h, put_volume (put_events (planted ns w) (place ns (pDirEntry w))
             (new_event a proc dwFlags subtree h k' # events_here (planted ns w) (place ns (pDirEntry w)))) s1)"
      and l: "later s s1" and a: "n_next s \<le> a" "a < n_next s1" and h: "0 < h"
    using create_event [OF assms] by blast
  let ?e = "new_event a proc dwFlags subtree h k'"
  let ?w = "put_events (planted ns w) (place ns (pDirEntry w)) (?e # events_here (planted ns w) (place ns (pDirEntry w)))"
  have vw: "vol_ok w" "v_addr w = v" using wf_volume [OF assms(3,4)] by blast+
  note N = put_new_event [OF vw(1), of ns ?e]
  have "wf_state (put_volume ?w s1)"
    by (rule wf_put_volume [where A = "[a]" and B = "[]", OF assms(3,4)])
      (use N vw(2) l a in \<open>auto simp: later_same new_event_def\<close>)
  moreover have "volume_at (put_volume ?w s1) v = Some ?w"
    using volume_at_put [of s1 v w ?w] volume_at_same [OF later_same(1) [OF l]] assms(4) N(5) vw(2) by simp
  moreover have "watch ?w q = (if q = map wcs_key ns then [?e] else []) @ watch w q" for q
    using N(4) by simp
  ultimately show ?thesis using c h a by blast
qed

lemma event_home_some:
  assumes "event_home s a = Some (w, pos)"
  shows "w \<in> set (g_pRootVolume s)" "event_pos w a = Some pos"
  using assms by (auto simp: event_home_def find_Some_iff in_set_conv_nth split: option.splits)

lemma volume_at_member:
  assumes "wf_state s" "w \<in> set (g_pRootVolume s)"
  shows "volume_at s (v_addr w) = Some w"
proof -
  have d: "distinct (map v_addr (g_pRootVolume s))" using assms(1) by (simp add: wf_state_def)
  have "distinct (map v_addr ws) \<Longrightarrow> w \<in> set ws \<Longrightarrow> find (\<lambda>x. v_addr x = v_addr w) ws = Some w" for ws
    by (induction ws) (auto simp: image_iff)
  then show ?thesis using d assms(2) by (simp add: volume_at_def)
qed

text \<open>Closing an event takes it from the directory it is in.\<close>

lemma close_event_volume:
  assumes "vol_ok w" "event_pos w a = Some pos"
  defines "w' \<equiv> clean_up (put_events w pos (filter (\<lambda>e. e_addr e \<noteq> a) (events_here w pos))) pos"
  shows "vol_ok w'" "v_addr w' = v_addr w" "mset (vol_events w') \<subseteq># mset (vol_events w)" "vol_handles w' = vol_handles w"
    "\<exists>ns. at_path w pos ns \<and> a \<in> e_addr ` set (watch w (map wcs_key ns)) \<and>
       (\<forall>q. watch w' q = (if q = map wcs_key ns then filter (\<lambda>e. e_addr e \<noteq> a) (watch w q) else watch w q))"
proof -
  have F: "forest_ok (pDirEntry w)" using assms(1) by (simp add: vol_ok_def)
  obtain ns where ns: "at_path w pos ns" "a \<in> e_addr ` set (watch w (map wcs_key ns))"
    using event_pos_path [OF F assms(2)] by blast
  let ?es = "filter (\<lambda>e. e_addr e \<noteq> a) (events_here w pos)"
  show "vol_ok w'" "v_addr w' = v_addr w" "vol_handles w' = vol_handles w"
    using vol_ok_remove_event [OF assms(1)] by (simp_all add: w'_def)
  have "mset (vol_events (put_events w pos ?es)) + mset (events_here w pos) = mset (vol_events w) + mset ?es"
    using vol_events_put [OF F ns(1)] .
  moreover have "mset ?es \<subseteq># mset (events_here w pos)" by simp
  ultimately have "mset (vol_events (put_events w pos ?es)) \<subseteq># mset (vol_events w)"
    by (metis mset_subset_eq_mono_add_right_cancel subset_mset.add_left_mono)
  then show "mset (vol_events w') \<subseteq># mset (vol_events w)" by (simp add: w'_def)
  have "watch w' q = (if q = map wcs_key ns then filter (\<lambda>e. e_addr e \<noteq> a) (watch w q) else watch w q)" for q
    using watch_put_events [OF F ns(1)] here_path(1) [OF F ns(1)] watch_clean_up [OF vol_ok_remove_event(2) [OF assms(1)]]
    by (simp add: w'_def)
  then show "\<exists>ns. at_path w pos ns \<and> a \<in> e_addr ` set (watch w (map wcs_key ns)) \<and>
       (\<forall>q. watch w' q = (if q = map wcs_key ns then filter (\<lambda>e. e_addr e \<noteq> a) (watch w q) else watch w q))"
    using ns by blast
qed

lemma mset_map_sub: "mset xs \<subseteq># mset ys \<Longrightarrow> mset (map f xs) \<subseteq># mset (map f ys)"
  by (simp add: image_mset_subseteq_mono)

lemma wf_close_event:
  assumes "wf_state s" "NotifyCloseEvent a s = Some s'"
  shows "wf_state s'"
proof (cases "a \<in> e_addr ` set (closed_events s)")
  case True
  then have s': "s' = s\<lparr>closed_events := filter (\<lambda>e. e_addr e \<noteq> a) (closed_events s)\<rparr>"
    using assms(2) by (simp add: NotifyCloseEvent_wf [OF assms(1)])
  have "distinct (map e_addr (state_events s'))"
  proof (rule distinct_more [where A = "[]"])
    show "distinct (map e_addr (state_events s))" using assms(1) by (simp add: wf_state_def)
    show "mset (map e_addr (state_events s')) \<subseteq># mset (map e_addr (state_events s)) + mset []"
      using mset_map_sub [of "filter (\<lambda>e. e_addr e \<noteq> a) (closed_events s)" "closed_events s" e_addr]
      by (simp add: s' state_events_def)
  qed simp_all
  then show ?thesis using assms(1) by (auto simp: wf_state_def s' state_events_def state_handles_def)
next
  case False
  then obtain w pos where h: "event_home s a = Some (w, pos)"
      and s': "s' = put_volume (clean_up (put_events w pos (filter (\<lambda>e. e_addr e \<noteq> a) (events_here w pos))) pos) s"
    using assms(2) by (auto simp: NotifyCloseEvent_wf [OF assms(1)] Let_def split: option.splits)
  note m = event_home_some [OF h]
  have v: "volume_at s (v_addr w) = Some w" using volume_at_member [OF assms(1) m(1)] .
  note C = close_event_volume [OF wf_volume(1) [OF assms(1) v] m(2)]
  show ?thesis
    unfolding s'
    by (rule wf_put_volume [where A = "[]" and B = "[]", OF assms(1) v]) (use C mset_map_sub in simp_all)
qed

section \<open>Closing what was created\<close>

lemma events_at_in: "set (events_at q ds) \<subseteq> set (tree_all pEvents ds)"
proof (induction q ds rule: events_at.induct)
  case (2 k q ds)
  show ?case
  proof (cases "child_of k ds")
    case (Some d)
    then have "d \<in> set ds" by (auto simp: child_of_def find_Some_iff)
    then obtain xs ys where "ds = xs @ d # ys" by (meson split_list)
    then show ?thesis using Some 2 by (auto simp: tree_all_append tree_all_Cons)
  qed simp
qed simp

lemma watch_in_volume: "set (watch w q) \<subseteq> set (vol_events w)"
  using events_at_in [of q "pDirEntry w"] by (auto simp: watch_def vol_events_def tree_events_all)

lemma slot_names:
  assumes "map szDirectory ds = map szDirectory es"
  shows "slot n ds = slot n es" "has_slot n ds = has_slot n es"
proof -
  have l: "length ds = length es" using assms by (metis length_map)
  have "length (takeWhile (name_above n) xs) = length (takeWhile (\<lambda>x. case x of None \<Rightarrow> False | Some m \<Rightarrow> wcs_key m < wcs_key n) (map szDirectory xs))" for xs
    by (induction xs) (auto simp: name_above_def)
  then show s: "slot n ds = slot n es" using assms by (simp add: slot_def)
  have "i < length ds \<Longrightarrow> szDirectory (ds ! i) = szDirectory (es ! i)" for i using assms l by (metis nth_map)
  then show "has_slot n ds = has_slot n es" using s l by (auto simp: has_slot_def same_name_def)
qed

lemma reach_put:
  assumes "\<And>d. szDirectory (h d) = szDirectory d \<and> pChild (h d) = pChild d"
  shows "reach ns (on_trail h (\<lambda>d. d) pos ds) = reach ns ds"
proof (induction ns arbitrary: pos ds)
  case (Cons n ns)
  show ?case
  proof (cases pos)
    case P: (Cons i js)
    show ?thesis
    proof (cases "i < length ds")
      case True
      let ?x = "if js = [] then h (ds ! i) else set_child (on_trail h (\<lambda>d. d) js (pChild (ds ! i))) (ds ! i)"
      have "szDirectory ?x = szDirectory (ds ! i)" using assms by simp
      then have m: "map szDirectory (ds[i := ?x]) = map szDirectory ds"
        using True by (metis list_update_id map_update nth_map)
      have c: "reach ns (pChild (ds[i := ?x] ! j)) = reach ns (pChild (ds ! j))" for j
        using True assms Cons.IH by (cases "j = i") auto
      have e: "on_trail h (\<lambda>d. d) pos ds = ds[i := ?x]" using P True by simp
      show ?thesis unfolding e reach.simps slot_names [OF m] c ..
    qed (simp add: P)
  qed simp
qed simp

lemma at_path_put: "at_path w pos ns \<Longrightarrow> at_path (put_events w q es) pos ns"
  using reach_put [of "set_events es" ns q "pDirEntry w"] by (auto simp: at_path_def known_def put_events_def)

lemma put_events_back:
  assumes "forest_ok (pDirEntry w)" "at_path w pos ns"
  shows "put_events (put_events w pos es) pos (events_here w pos) = w"
proof (cases "pos = []")
  case False
  then have "ns \<noteq> []" using at_path_Nil [OF assms(2)] by simp
  then obtain d where d: "node_at pos (pDirEntry w) = Some d" using at_path_node [OF assms] by blast
  have "on_trail (\<lambda>x. set_events (pEvents d) (set_events es x)) (\<lambda>d. d) pos (pDirEntry w) = on_trail (\<lambda>d. d) (\<lambda>d. d) pos (pDirEntry w)"
  proof (rule on_trail_cong [OF d])
    show "set_events (pEvents d) (set_events es d) = d" by (cases d) (simp add: set_events_def)
  qed
  moreover have "on_trail (\<lambda>d. d) (\<lambda>d. d) pos ds = ds" for ds
    by (induction pos arbitrary: ds) auto
  ultimately show ?thesis using False d by (simp add: put_events_def events_here_def on_trail_twice)
qed (simp add: put_events_def events_here_def)

lemma here_put_events:
  assumes "forest_ok (pDirEntry w)" "at_path w pos ns"
  shows "events_here (put_events w pos es) pos = es"
proof (cases "pos = []")
  case False
  have "node_at pos ds = Some d \<Longrightarrow> node_at pos (on_trail f (\<lambda>d. d) pos ds) = Some (f d)" for f ds d
    by (induction pos arbitrary: ds) (auto split: if_splits)
  moreover obtain d where "node_at pos (pDirEntry w) = Some d"
    using at_path_node [OF assms] at_path_Nil [OF assms(2)] False by blast
  ultimately show ?thesis using False by (simp add: put_events_def events_here_def)
qed (simp add: put_events_def events_here_def)

theorem close_created:
  assumes "ample env" "names_ok ns" "wf_state s" "volume_at s v = Some w"
    and "NotifyCreateEvent env v proc (replicate k backslash @ join ns) subtree dwFlags s = Some (Some h, s1)"
  shows "\<exists>a s2. a \<in> e_addr ` set (state_events s1) \<and> a \<notin> e_addr ` set (state_events s) \<and>
           NotifyCloseEvent a s1 = Some s2 \<and> g_pRootVolume s2 = g_pRootVolume s \<and> closed_events s2 = closed_events s"
proof -
  obtain a k' t where s1: "s1 = put_volume (put_events (planted ns w) (place ns (pDirEntry w))
             (new_event a proc dwFlags subtree h k' # events_here (planted ns w) (place ns (pDirEntry w)))) t"
      and l: "later s t" and a: "n_next s \<le> a" "a < n_next t"
    using create_event [OF assms(1-4), of proc k subtree dwFlags] assms(5) by auto
  let ?p = "planted ns w"
  let ?pos = "place ns (pDirEntry w)"
  let ?e = "new_event a proc dwFlags subtree h k'"
  let ?w = "put_events ?p ?pos (?e # events_here ?p ?pos)"
  have vw: "vol_ok w" "v_addr w = v" using wf_volume [OF assms(3,4)] by blast+
  have F: "forest_ok (pDirEntry w)" "forest_ok (pDirEntry ?p)" "tidy (pDirEntry w)"
    using vw(1) plant_sorted by (auto simp: vol_ok_def)
  have p: "at_path ?p ?pos ns" using planted_path [OF F(1)] .
  note N = put_new_event [OF vw(1), of ns ?e]
  have ea: "e_addr ?e = a" by (simp add: new_event_def)
  obtain xs ys where sp: "g_pRootVolume s = xs @ w # ys" "\<forall>x \<in> set xs \<union> set ys. v_addr x \<noteq> v"
    using volume_split [OF _ assms(4)] assms(3) by (auto simp: wf_state_def)
  have r1: "g_pRootVolume s1 = xs @ ?w # ys"
    using put_volume_split [of t xs w ys v ?w] sp vw(2) N(5) later_same(1) [OF l] s1 by simp
  have fresh: "a \<notin> e_addr ` set (state_events s)"
    using assms(3) a(1) by (auto simp: wf_state_def)
  have in1: "a \<in> e_addr ` set (state_events s1)"
  proof -
    have "?e \<in> set (vol_events ?w)" using N(2) by (metis set_mset_mset union_single_eq_member)
    then have "?e \<in> set (state_events s1)" by (auto simp: state_events_def r1)
    then show ?thesis using ea by (metis image_eqI)
  qed
  have notin: "event_pos x a = None" if x: "x \<in> set xs \<union> set ys \<union> {w}" for x
  proof (rule ccontr)
    assume "event_pos x a \<noteq> None"
    then obtain q where q: "event_pos x a = Some q" by blast
    have "forest_ok (pDirEntry x)" using assms(3) x sp(1) by (auto simp: wf_state_def vol_ok_def)
    then obtain ms where "a \<in> e_addr ` set (watch x (map wcs_key ms))" using event_pos_path [OF _ q] by blast
    then have "a \<in> e_addr ` set (vol_events x)" using watch_in_volume [of x] by auto
    then have "a \<in> e_addr ` set (state_events s)" using x sp(1) by (auto simp: state_events_def)
    then show False using fresh by simp
  qed
  have F': "forest_ok (pDirEntry ?w)" using N(1) by (simp add: vol_ok_def)
  have pw: "at_path ?w ?pos ns" using at_path_put [OF p] .
  have here: "events_here ?w ?pos = ?e # events_here ?p ?pos" by (rule here_put_events [OF F(2) p])
  have pos: "event_pos ?w a = Some ?pos"
  proof -
    have "event_pos ?w a \<noteq> None" by (rule event_pos_exists [OF F' pw]) (use here ea in simp)
    then obtain q where q: "event_pos ?w a = Some q" by blast
    obtain ms where ms: "at_path ?w q ms" "a \<in> e_addr ` set (watch ?w (map wcs_key ms))" using event_pos_path [OF F' q] by blast
    have "map wcs_key ms = map wcs_key ns"
    proof (rule ccontr)
      assume "map wcs_key ms \<noteq> map wcs_key ns"
      then have "a \<in> e_addr ` set (watch w (map wcs_key ms))" using ms(2) N(4) by simp
      then have "a \<in> e_addr ` set (vol_events w)" using watch_in_volume [of w] by auto
      then have "a \<in> e_addr ` set (state_events s)" using sp(1) by (auto simp: state_events_def)
      then show False using fresh by simp
    qed
    then have "q = ?pos" using ms(1) pw reach_cong [of ms ns] by (simp add: at_path_def)
    then show ?thesis using q by simp
  qed
  have home: "event_home s1 a = Some (?w, ?pos)"
  proof -
    have "find (\<lambda>x. event_pos x a \<noteq> None) (zs @ ?w # us) = Some ?w" if "\<forall>x \<in> set zs. event_pos x a = None" for zs us
      using that pos by (induction zs) auto
    then show ?thesis using notin pos by (simp add: event_home_def r1)
  qed
  have cl: "a \<notin> e_addr ` set (closed_events s1)"
    using fresh later_same(2) [OF l] s1 by (auto simp: state_events_def)
  have old: "filter (\<lambda>e. e_addr e \<noteq> a) (events_here ?p ?pos) = events_here ?p ?pos"
  proof -
    have "e_addr x \<noteq> a" if "x \<in> set (events_here ?p ?pos)" for x
    proof -
      have "x \<in> set (vol_events w)" using that events_here_in [of ?p ?pos] by auto
      then have "x \<in> set (state_events s)" using sp(1) by (auto simp: state_events_def)
      then show ?thesis using fresh by auto
    qed
    then show ?thesis by simp
  qed
  have restored: "clean_up (put_events ?w ?pos (filter (\<lambda>e. e_addr e \<noteq> a) (events_here ?w ?pos))) ?pos = w"
    unfolding here using ea old put_events_back [OF F(2) p, of "?e # events_here ?p ?pos"] cleanup_plant [OF F(1,3), of ns]
    by (simp add: clean_up_def planted_def)
  have close: "NotifyCloseEvent a s1 = Some (put_volume w s1)"
    using cl home restored assms(3) later_same(3) [OF l] s1 by (simp add: NotifyCloseEvent_free wf_state_def)
  have r2: "g_pRootVolume (put_volume w s1) = xs @ w # ys"
    using put_volume_split [of s1 xs ?w ys v w] sp vw(2) N(5) r1 by simp
  have "closed_events (put_volume w s1) = closed_events s" using later_same(2) [OF l] s1 by simp
  then show ?thesis using in1 fresh close r2 sp(1) by metis
qed

end
