(* ===== verification/Notify_Changes.thy ===== *)
theory Notify_Changes
  imports Notify_Steps
begin

text \<open>
  Files, changes and volumes: the remaining operations on a state, and the runs of all of them.
\<close>

section \<open>Files\<close>

lemma create_file_wf:
  assumes "ample env" "names_ok ns" "wf_state s"
    and "NotifyCreateFile env v (replicate k backslash @ join ns) s = Some (r, s')"
  shows "wf_state s' \<and> (\<exists>h w w'. r = Some h \<and> volume_at s v = Some w \<and> volume_at s' v = Some w' \<and> (\<forall>q. watch w' q = watch w q))"
proof -
  obtain w where w: "volume_at s v = Some w" using assms(4) by (auto simp: NotifyCreateFile_wf [OF assms(3)] split: option.splits)
  let ?ns = "butlast ns"
  obtain nm su s1 where i: "InsertOrFindDirEntry env w (replicate k backslash @ join ns) True False False False s =
            ((place ?ns (pDirEntry w), nm, su), planted ?ns w, True, s1)" and l1: "later s s1"
    using insert_entry [OF assms(2,1), of w k True False False s] by (auto simp: dirs_of_def planted_def)
  obtain s2 where a: "allocate env s1 = (Some (n_next s1), s2)" and n2: "n_next s2 = n_next s1 + 1"
    using ample_allocate [OF assms(1), of s1] by simp
  let ?x = "\<lparr>h_addr = n_next s1, h_changed = False, h_szFileName = nm, name_set = True\<rparr>"
  let ?w = "put_handles (planted ?ns w) (place ?ns (pDirEntry w)) (?x # handles_here (planted ?ns w) (place ?ns (pDirEntry w)))"
  have s': "s' = put_volume ?w s2" "r = Some (n_next s1)"
    using assms(4) w i a by (simp_all add: NotifyCreateFile_wf [OF assms(3)] Let_def)
  have l: "later s s2" using l1 later_allocate [OF a] by (rule later_trans)
  have vw: "vol_ok w" "v_addr w = v" using wf_volume [OF assms(3) w] by blast+
  note N = put_new_handle [OF vw(1), of ?ns ?x]
  have "wf_state s'" unfolding s'
    by (rule wf_put_volume [where A = "[]" and B = "[n_next s1]", OF assms(3) w])
      (use N vw(2) later_same [OF l] later_same(5) [OF l1] n2 in \<open>auto simp del: planted_lists\<close>)
  moreover have "volume_at s' v = Some ?w" unfolding s'
    using volume_at_put [of s2 v w ?w] volume_at_same [OF later_same(1) [OF l]] w N(5) vw(2) by simp
  ultimately show ?thesis using s'(2) w N(4) by blast
qed

text \<open>The handle is marked as changed; the tree stays as it is.\<close>

lemma mark_handle:
  assumes "vol_ok w" "handle_pos w h = Some pos" "map h_addr hs = map h_addr (handles_here w pos)"
  shows "vol_ok (put_handles w pos hs)" "mset (map h_addr (vol_handles (put_handles w pos hs))) = mset (map h_addr (vol_handles w))"
    "\<exists>ns. at_path (put_handles w pos hs) pos ns \<and> at_path w pos ns \<and> h \<in> h_addr ` set (opened w (map wcs_key ns))"
proof -
  have F: "forest_ok (pDirEntry w)" "tidy (pDirEntry w)" using assms(1) by (simp_all add: vol_ok_def)
  obtain ns where ns: "at_path w pos ns" "h \<in> h_addr ` set (opened w (map wcs_key ns))"
    using handle_pos_path [OF F(1) assms(2)] by blast
  have "handles_here w pos \<noteq> []" using ns here_path(2) [OF F(1) ns(1)] by auto
  then have ne: "hs \<noteq> []" using assms(3) by auto
  show "vol_ok (put_handles w pos hs)"
    using F forest_ok_put [OF F(1), of "set_handles hs"] tidy_put [OF F(2), of "set_handles hs"] ne
    by (simp add: vol_ok_def put_handles_def empty_dir_def)
  have "mset (map h_addr (vol_handles (put_handles w pos hs))) + mset (map h_addr (handles_here w pos)) =
      mset (map h_addr (vol_handles w)) + mset (map h_addr hs)"
    using vol_handles_put [OF F(1) ns(1), of hs] by (metis image_mset_union mset_map)
  then show "mset (map h_addr (vol_handles (put_handles w pos hs))) = mset (map h_addr (vol_handles w))"
    unfolding assms(3) by (rule add_right_imp_eq)
  have "at_path (put_handles w pos hs) pos ns"
    using ns(1) reach_put [of "set_handles hs" ns pos "pDirEntry w"] by (auto simp: at_path_def known_def put_handles_def)
  then show "\<exists>ns. at_path (put_handles w pos hs) pos ns \<and> at_path w pos ns \<and> h \<in> h_addr ` set (opened w (map wcs_key ns))"
    using ns by blast
qed

theorem handle_change:
  assumes "ample env" "wf_state s" "NotifyHandleChangeEx env v h dwFlags act s = Some s'" "volume_at s v = Some w"
  shows "wf_state s' \<and> (\<exists>w' ns x. volume_at s' v = Some w' \<and> x \<in> set (opened w (map wcs_key ns)) \<and> h_addr x = h \<and>
           (\<forall>q. watch w' q = map (reaction dwFlags (map wcs_key ns) (h_szFileName x) act q) (watch w q)))"
proof -
  obtain pos x where p: "handle_pos w h = Some pos" and x: "find (\<lambda>x. h_addr x = h) (handles_here w pos) = Some x" and nm: "name_set x"
    using assms(3,4) by (auto simp: NotifyHandleChangeEx_wf [OF assms(2)] split: option.splits if_splits)
  let ?hs = "map (\<lambda>y. if h_addr y = h then y\<lparr>h_changed := True\<rparr> else y) (handles_here w pos)"
  let ?w = "put_handles w pos ?hs"
  have vw: "vol_ok w" "v_addr w = v" using wf_volume [OF assms(2,4)] by blast+
  have hs: "map h_addr ?hs = map h_addr (handles_here w pos)" by simp
  note M = mark_handle [OF vw(1) p hs]
  obtain ns where ns: "at_path ?w pos ns" "at_path w pos ns" using M(3) by blast
  have F: "forest_ok (pDirEntry w)" "forest_ok (pDirEntry ?w)" using vw(1) M(1) by (simp_all add: vol_ok_def)
  obtain s1 where a: "add_file env ?w pos (h_szFileName x) dwFlags act s =
      (put_events ?w pos (queued dwFlags (h_szFileName x) act (events_here ?w pos)), s1)" and l: "later s s1"
    using ample_add_file [OF assms(1)] by blast
  let ?v = "told_file dwFlags ?w pos (h_szFileName x) act"
  have s': "s' = put_volume ?v s1"
    using assms(3,4) p x nm a by (simp add: NotifyHandleChangeEx_wf [OF assms(2)] Let_def told_file_def CheckEventOnHandle_eq [abs_def])
  have sv: "same_volume ?w ?v" by (rule same_told_file)
  note L = same_volume_lists [OF sv]
  have va: "v_addr ?v = v" using L(4) vw(2) by simp
  have wf: "wf_state s'" unfolding s'
    by (rule wf_put_volume [where A = "[]" and B = "[]", OF assms(2,4)])
      (use va L(1-3) M(1,2) later_same [OF l] in simp_all)
  have at: "volume_at s' v = Some ?v" unfolding s'
    using volume_at_put [of s1 v w ?v] volume_at_same [OF later_same(1) [OF l]] assms(4) va by simp
  have "watch ?v q = map (reaction dwFlags (map wcs_key ns) (h_szFileName x) act q) (watch w q)" for q
    using watch_told_file [OF F(2), of ns dwFlags "h_szFileName x" act q] ns(1) F(1) by (simp add: at_path_def)
  moreover have "x \<in> set (opened w (map wcs_key ns))" "h_addr x = h"
    using x here_path(2) [OF F(1) ns(2)] by (auto simp: find_Some_iff)
  ultimately show ?thesis using wf at by blast
qed

lemma vol_handles_filter: "mset (vol_handles (put_handles w pos (filter P (handles_here w pos)))) \<subseteq># mset (vol_handles w)"
proof (cases "pos = []")
  case True
  then show ?thesis by (simp add: put_handles_def handles_here_def vol_handles_def)
next
  case False
  show ?thesis
  proof (cases "node_at pos (pDirEntry w)")
    case None
    have "on_trail f (\<lambda>d. d) pos ds = ds" if "node_at pos ds = None" for f ds
      using that by (induction pos ds rule: node_at.induct) (auto split: if_splits)
    then show ?thesis using False None by (simp add: put_handles_def vol_handles_def)
  next
    case (Some d)
    have e: "mset (tree_all pHandles (on_trail (set_handles (filter P (pHandles d))) (\<lambda>d. d) pos (pDirEntry w))) + mset (pHandles d) =
        mset (tree_all pHandles (pDirEntry w)) + mset (filter P (pHandles d))"
      using hds.tree_all_put [OF Some, of "set_handles (filter P (pHandles d))"] by simp
    have "mset (filter P (pHandles d)) \<subseteq># mset (pHandles d)" by simp
    then have "mset (tree_all pHandles (on_trail (set_handles (filter P (pHandles d))) (\<lambda>d. d) pos (pDirEntry w))) \<subseteq># mset (tree_all pHandles (pDirEntry w))"
      using e by (metis mset_subset_eq_mono_add_right_cancel subset_mset.add_left_mono)
    then show ?thesis using False Some by (simp add: put_handles_def handles_here_def vol_handles_def tree_handles_all)
  qed
qed

lemma close_handle_wf:
  assumes "ample env" "wf_state s" "NotifyCloseHandle env v h s = Some s'"
  shows "wf_state s'"
proof (cases "h = 0")
  case True
  then show ?thesis using assms by (simp add: NotifyCloseHandle_def)
next
  case False
  let ?f = "FILE_NOTIFY_CHANGE_ATTRIBUTES OR FILE_NOTIFY_CHANGE_SIZE OR FILE_NOTIFY_CHANGE_LAST_WRITE OR
    FILE_NOTIFY_CHANGE_LAST_ACCESS OR FILE_NOTIFY_CHANGE_CREATION"
  have "\<exists>w pos (x :: NOTHANDLEENTRY) s1 w1. volume_at s v = Some w \<and>
      (if h_changed x then NotifyHandleChangeEx env v h ?f FILE_ACTION_CHANGE_COMPLETED s else Some s) = Some s1 \<and>
      volume_at s1 v = Some w1 \<and>
      put_volume (clean_up (put_handles w1 pos (filter (\<lambda>x. h_addr x \<noteq> h) (handles_here w1 pos))) pos) s1 = s'"
    using assms(3) unfolding NotifyCloseHandle_wf [OF assms(2)] if_not_P [OF False] Let_def bind_eq_Some_conv option.inject
    by (elim exE conjE) (intro exI conjI; assumption)
  then obtain w pos and x :: NOTHANDLEENTRY and s1 w1 where w: "volume_at s v = Some w"
      and r: "(if h_changed x then NotifyHandleChangeEx env v h ?f FILE_ACTION_CHANGE_COMPLETED s else Some s) = Some s1"
      and w1: "volume_at s1 v = Some w1"
      and s': "put_volume (clean_up (put_handles w1 pos (filter (\<lambda>x. h_addr x \<noteq> h) (handles_here w1 pos))) pos) s1 = s'"
    by (elim exE conjE) (rule that)
  have s1: "s1 = s \<or> (\<exists>f a. NotifyHandleChangeEx env v h f a s = Some s1)"
    using r by (auto split: if_splits)
  have wf1: "wf_state s1" using s1 handle_change [OF assms(1,2) _ w] assms(2) by blast
  note V = wf_volume [OF wf1 w1]
  show ?thesis unfolding s' [symmetric]
    by (rule wf_put_volume [where A = "[]" and B = "[]", OF wf1 w1])
      (use V vol_ok_remove_handle [OF V(1)] mset_map_sub [OF vol_handles_filter] in simp_all)
qed

section \<open>Changes of paths\<close>

lemma same_path_change:
  assumes "ample env" "names_ok ns"
  shows "\<exists>w' s'. path_change env w (replicate k backslash @ join ns) bPath act s = (w', s') \<and> same_volume w w' \<and> later s s'"
proof -
  have F: "\<exists>pos nm sub l s'. InsertOrFindDirEntry env w (replicate k backslash @ join ns) True b True ws t = ((pos, nm, sub), w, l, s') \<and> later t s'"
    for w b ws t
    using find_entry [OF assms(2), of env w k True b ws t] by blast
  have add: "\<exists>es t'. (if b then add_file env w pos nm f act t else (w, t)) = (es, t') \<and> same_volume w es \<and> later t t'"
    for b w pos nm f act t
  proof (cases b)
    case True
    obtain t' where "add_file env w pos nm f act t = (put_events w pos (queued f nm act (events_here w pos)), t')" "later t t'"
      using ample_add_file [OF assms(1)] by blast
    then show ?thesis using True same_put_events [of "queued f nm act (events_here w pos)" w pos] by auto
  qed auto
  show ?thesis
  proof (cases "removing bPath act")
    case False
    obtain pos nm sub l s1 where i: "InsertOrFindDirEntry env w (replicate k backslash @ join ns) True bPath True True s = ((pos, nm, sub), w, l, s1)"
      and l1: "later s s1"
      using F [of w bPath True s] by blast
    obtain w2 s2 where a: "(if sub then add_file env w pos nm (if bPath then FILE_NOTIFY_CHANGE_DIR_NAME else FILE_NOTIFY_CHANGE_FILE_NAME) act s1 else (w, s1)) = (w2, s2)"
        "same_volume w w2" "later s1 s2"
      using add [of sub w pos nm _ act s1] by blast
    have "path_change env w (replicate k backslash @ join ns) bPath act s =
        (tell_up (checked (path_flag bPath)) w2 pos sub, s2)"
      using i a(1) unfolding path_change_def if_not_P [OF False [unfolded removing_def]] by (simp add: CheckEventOnPath_eq path_flag_def)
    then show ?thesis using same_volume_trans [OF a(2) same_tell_up] later_trans [OF l1 a(3)] by blast
  next
    case True
    then have b: "bPath" by (simp add: removing_def)
    obtain pos nm sub l s1 where i: "InsertOrFindDirEntry env w (replicate k backslash @ join ns) True bPath True False s = ((pos, nm, sub), w, l, s1)"
      and l1: "later s s1"
      using F [of w bPath False s] by blast
    let ?own = "case node_at pos (pDirEntry w) of None \<Rightarrow> False | Some d \<Rightarrow> nm \<noteq> None \<and> nm = szDirectory d"
    define r where "r = (if ?own
                  then let (w, s) = add_file env w pos (Some [backslash]) FILE_NOTIFY_CHANGE_DIR_NAME FILE_ACTION_REMOVED s1
                       in (put_events w pos (CheckEventOnPath True bPath (events_here w pos)), s)
                  else (w, s1))"
    obtain w2 s2 where a: "r = (w2, s2)" "same_volume w w2" "later s1 s2"
    proof (cases ?own)
      case True
      obtain w3 s3 where a: "add_file env w pos (Some [backslash]) FILE_NOTIFY_CHANGE_DIR_NAME FILE_ACTION_REMOVED s1 = (w3, s3)"
          "same_volume w w3" "later s1 s3"
        using add [of True w pos "Some [backslash]" FILE_NOTIFY_CHANGE_DIR_NAME FILE_ACTION_REMOVED s1] by auto
      have "same_volume w (put_events w3 pos (CheckEventOnPath True bPath (events_here w3 pos)))"
        by (rule same_volume_trans [OF a(2) same_put_events]) (simp add: CheckEventOnPath_eq)
      then show ?thesis using that a True by (simp add: r_def)
    next
      case False
      then show ?thesis using that by (simp add: r_def)
    qed
    obtain pos' nm' sub' l' s3 where i2: "InsertOrFindDirEntry env w2 (replicate k backslash @ join ns) True False True True s2 = ((pos', nm', sub'), w2, l', s3)"
      and l2: "later s2 s3"
      using F [of w2 False True s2] by blast
    obtain w4 s4 where a2: "(if sub' then add_file env w2 pos' nm' FILE_NOTIFY_CHANGE_DIR_NAME act s3 else (w2, s3)) = (w4, s4)"
        "same_volume w2 w4" "later s3 s4"
      using add [of sub' w2 pos' nm' _ act s3] by blast
    have "path_change env w (replicate k backslash @ join ns) bPath act s =
        (tell_up (checked FILE_NOTIFY_CHANGE_DIR_NAME) w4 pos' sub', s4)"
      using i i2 a(1) a2(1) unfolding path_change_def if_P [OF True [unfolded removing_def]] r_def
      by (simp add: CheckEventOnPath_eq)
    moreover have "same_volume w (tell_up (checked FILE_NOTIFY_CHANGE_DIR_NAME) w4 pos' sub')"
      by (rule same_volume_trans [OF a(2) same_volume_trans [OF a2(2) same_tell_up]])
    moreover have "later s s4" using l1 a(3) l2 a2(3) by (meson later_trans)
    ultimately show ?thesis by blast
  qed
qed

lemma path_change_wf:
  assumes "ample env" "names_ok ns" "wf_state s" "NotifyPathChange env v (replicate k backslash @ join ns) bPath act s = Some s'"
  shows "wf_state s'"
proof -
  obtain w where w: "volume_at s v = Some w" using assms(4) by (auto simp: NotifyPathChange_wf [OF assms(3)] split: option.splits)
  obtain w' s1 where p: "path_change env w (replicate k backslash @ join ns) bPath act s = (w', s1)" "same_volume w w'" "later s s1"
    using same_path_change [OF assms(1,2)] by blast
  have "s' = put_volume w' s1" using assms(4) w p(1) by (simp add: NotifyPathChange_wf [OF assms(3)])
  then show ?thesis using wf_same_volume [OF assms(3) w p(2,3)] by simp
qed

theorem path_change_result:
  assumes "ample env" "names_ok ns" "ns \<noteq> []" "wf_state s" "volume_at s v = Some w" "\<not> removing bPath act"
    and "bPath \<Longrightarrow> node_of (map wcs_key ns) (pDirEntry w) = None"
  shows "\<exists>w' s'. NotifyPathChange env v (replicate k backslash @ join ns) bPath act s = Some s' \<and> wf_state s' \<and> volume_at s' v = Some w' \<and>
           same_volume w w' \<and> (\<forall>u. u \<noteq> v \<longrightarrow> volume_at s' u = volume_at s u) \<and>
           (\<forall>q. watch w' q = map (reaction (path_flag bPath) (map wcs_key (butlast ns)) (Some (last ns)) act q) (watch w q))"
proof -
  have F: "forest_ok (pDirEntry w)" using wf_volume [OF assms(4,5)] by (simp add: vol_ok_def)
  have "\<not> known ns (pDirEntry w)" if bPath
    using assms(7) [OF that] node_of_reach [OF F, of ns] node_at_reach [OF F _ assms(3)] by auto
  then obtain w' s1 where p: "path_change env w (replicate k backslash @ join ns) bPath act s = (w', s1)" "later s s1" "same_volume w w'"
      "\<forall>q. watch w' q = map (reaction (path_flag bPath) (map wcs_key (butlast ns)) (Some (last ns)) act q) (watch w q)"
    using path_change_watch [OF assms(1-3) F assms(6)] by blast
  have n: "NotifyPathChange env v (replicate k backslash @ join ns) bPath act s = Some (put_volume w' s1)"
    using assms(5) p(1) by (simp add: NotifyPathChange_wf [OF assms(4)])
  have va: "v_addr w' = v" using p(3) wf_volume(2) [OF assms(4,5)] by (simp add: same_volume_def)
  have "volume_at (put_volume w' s1) v = Some w'"
    using volume_at_put [of s1 v w w'] volume_at_same [OF later_same(1) [OF p(2)]] assms(5) va by simp
  moreover have "volume_at (put_volume w' s1) u = volume_at s u" if "u \<noteq> v" for u
    using volume_at_other [of w' u s1] that va volume_at_same [OF later_same(1) [OF p(2)]] by simp
  ultimately show ?thesis using n path_change_wf [OF assms(1,2,4) n] p(3,4) by blast
qed

end
