(* ===== verification/Notify_Reach.thy ===== *)
theory Notify_Reach
  imports Notify_Changes
begin

text \<open>
  Removed directories, moved files and volumes, and the runs of all operations: the reachable states
  are well-formed.
\<close>

section \<open>A removed directory\<close>

lemma known_butlast: "known ns ds \<Longrightarrow> known (butlast ns) ds"
  by (induction ns ds rule: reach.induct) auto

lemma put_events_twice: "put_events (put_events w pos a) pos b = put_events w pos b"
proof -
  have "(\<lambda>d. set_events b (set_events a d)) = set_events b" by (rule ext) (simp add: set_events_def)
  then show ?thesis by (simp add: put_events_def on_trail_twice)
qed

lemma node_named: "forest_ok ds \<Longrightarrow> node_at pos ds = Some d \<Longrightarrow> szDirectory d \<noteq> None"
proof (induction pos ds rule: node_at.induct)
  case (2 i js ds)
  have i: "i < length ds" using "2.prems"(2) by (auto split: if_splits)
  show ?case using 2 i forest_ok_nth [OF "2.prems"(1) i] by (cases "js = []") auto
qed simp

text \<open>Its own watchers are told that \<open>\\<close> was removed, then those above that the directory was.\<close>

lemma remove_known:
  assumes "ample env" "names_ok ns" "ns \<noteq> []" "forest_ok (pDirEntry w)" "removing bPath act" "known ns (pDirEntry w)"
  shows "\<exists>w' s'. path_change env w (replicate k backslash @ join ns) bPath act s = (w', s') \<and> later s s' \<and> same_volume w w' \<and>
           (\<forall>q. watch w' q =
              map (\<lambda>e. reaction FILE_NOTIFY_CHANGE_DIR_NAME (map wcs_key (butlast ns)) (Some (last ns)) act q
                     (if q = map wcs_key ns
                      then reaction FILE_NOTIFY_CHANGE_DIR_NAME (map wcs_key ns) (Some [backslash]) FILE_ACTION_REMOVED q e
                      else e)) (watch w q))"
proof -
  let ?F = "pDirEntry w"
  let ?pos = "reach ns ?F"
  let ?D = FILE_NOTIFY_CHANGE_DIR_NAME
  have b: bPath using assms(5) by (simp add: removing_def)
  have at: "at_path w ?pos ns" using assms(6) by (simp add: at_path_def)
  have pn: "?pos \<noteq> []" using at_path_Nil [OF at] assms(3) by simp
  obtain d where d: "node_at ?pos ?F = Some d" using at_path_node [OF assms(4) at assms(3)] by blast
  have dn: "szDirectory d \<noteq> None" using node_named [OF assms(4) d] .
  obtain sub l s1 where i: "InsertOrFindDirEntry env w (replicate k backslash @ join ns) True True True False s =
        ((?pos, szDirectory d, sub), w, l, s1)" and l1: "later s s1"
    using find_entry [OF assms(2), of env w k True True False s] assms(1,6) d pn by (auto simp: dirs_of_def current_def)
  let ?q = "queued ?D (Some [backslash]) FILE_ACTION_REMOVED (events_here w ?pos)"
  obtain s2 where a: "add_file env w ?pos (Some [backslash]) ?D FILE_ACTION_REMOVED s1 = (put_events w ?pos ?q, s2)" and l2: "later s1 s2"
    using ample_add_file [OF assms(1)] by blast
  let ?w2 = "put_events w ?pos (checked ?D True ?q)"
  have here: "events_here (put_events w ?pos ?q) ?pos = ?q" by (rule here_put_events [OF assms(4) at])
  have sv: "same_volume w ?w2" by (rule same_put_events) simp
  note V = same_volume_ok [OF sv]
  obtain l' s3 where i2: "InsertOrFindDirEntry env ?w2 (replicate k backslash @ join ns) True False True True s2 =
        ((reach (butlast ns) ?F, Some (last ns), True), ?w2, l', s3)" and l3: "later s2 s3"
    using find_entry [OF assms(2), of env ?w2 k True False True s2] assms(1,3,6) V(3,4) known_butlast [OF assms(6)]
    by (auto simp: dirs_of_def)
  let ?pos2 = "reach (butlast ns) ?F"
  obtain s4 where a2: "add_file env ?w2 ?pos2 (Some (last ns)) ?D act s3 =
      (put_events ?w2 ?pos2 (queued ?D (Some (last ns)) act (events_here ?w2 ?pos2)), s4)" and l4: "later s3 s4"
    using ample_add_file [OF assms(1)] by blast
  have own: "(case node_at ?pos ?F of None \<Rightarrow> False | Some e \<Rightarrow> szDirectory d \<noteq> None \<and> szDirectory d = szDirectory e)"
    using d dn by simp
  have p: "path_change env w (replicate k backslash @ join ns) bPath act s =
      (told_file ?D ?w2 ?pos2 (Some (last ns)) act, s4)"
    using i i2 a a2 here own b unfolding path_change_def if_P [OF assms(5) [unfolded removing_def]]
    by (simp add: CheckEventOnPath_eq put_events_twice told_file_def del: not_None_eq)
  have w2: "watch ?w2 q = map (\<lambda>e. if q = map wcs_key ns then reaction ?D (map wcs_key ns) (Some [backslash]) FILE_ACTION_REMOVED q e else e) (watch w q)" for q
    using watch_put_events [OF assms(4) at] here_path(1) [OF assms(4) at]
    by (auto simp: checked_def queued_def reaction_def sees_def Let_def)
  have "watch (told_file ?D ?w2 ?pos2 (Some (last ns)) act) q =
      map (reaction ?D (map wcs_key (butlast ns)) (Some (last ns)) act q) (watch ?w2 q)" for q
    using watch_told_file [of ?w2 "butlast ns" ?D "Some (last ns)" act q] V assms(4) known_butlast [OF assms(6)] by simp
  moreover have "later s s4" using l1 l2 l3 l4 by (meson later_trans)
  moreover have "same_volume w (told_file ?D ?w2 ?pos2 (Some (last ns)) act)"
    by (rule same_volume_trans [OF sv same_told_file])
  ultimately show ?thesis using p w2 by (auto simp: comp_def)
qed

section \<open>Volumes\<close>

lemma below_mono: "n \<le> m \<Longrightarrow> \<forall>a \<in> S. 0 < a \<and> a < n \<Longrightarrow> \<forall>a \<in> S. 0 < a \<and> a < (m :: nat)"
  by fastforce

lemma wf_later:
  assumes "wf_state s" "later s s'"
  shows "wf_state s'"
proof -
  note L = later_same [OF assms(2)]
  have "state_events s' = state_events s" "state_handles s' = state_handles s"
    using L by (simp_all add: state_events_def state_handles_def)
  moreover have "\<forall>a \<in> v_addr ` set (g_pRootVolume s). 0 < a \<and> a < n_next s'"
    "\<forall>a \<in> e_addr ` set (state_events s). 0 < a \<and> a < n_next s'"
    "\<forall>a \<in> h_addr ` set (state_handles s). 0 < a \<and> a < n_next s'"
    using assms(1) by (auto simp: wf_state_def intro: less_le_trans [OF _ L(5)])
  ultimately show ?thesis using assms(1) L by (simp add: wf_state_def)
qed

lemma create_volume_wf:
  assumes "wf_state s" "NotifyCreateVolume env nm s = (r, s')"
  shows "wf_state s'"
proof (cases "n_refuse env (n_tick s)")
  case True
  then have "s' = s\<lparr>n_tick := n_tick s + 1, n_next := n_next s + 1\<rparr>"
    using assms(2) by (simp add: NotifyCreateVolume_def allocate_def)
  then show ?thesis using wf_later [OF assms(1) laterI [of s "n_next s + 1" "n_tick s + 1"]] by simp
next
  case False
  obtain n s1 where n: "new_string env nm (s\<lparr>n_tick := n_tick s + 1, n_next := n_next s + 1\<rparr>) = (n, s1)"
    by (cases "new_string env nm (s\<lparr>n_tick := n_tick s + 1, n_next := n_next s + 1\<rparr>)") auto
  note L = later_same [OF later_new_string [OF n]]
  let ?w = "\<lparr>v_addr = n_next s, szVolumeName = n, pDirEntry = [], v_pEvents = [], v_pHandles = []\<rparr>"
  have s': "s' = s1\<lparr>g_pRootVolume := ?w # g_pRootVolume s1\<rparr>"
    using assms(2) n False by (simp add: NotifyCreateVolume_def allocate_def Let_def)
  have v: "vol_events ?w = []" "vol_handles ?w = []" "vol_ok ?w" by (simp_all add: vol_events_def vol_handles_def vol_ok_def)
  have lt: "n_next s < n_next s1" using L(5) by simp
  have E: "state_events s' = state_events s" "state_handles s' = state_handles s"
    using s' L v by (simp_all add: state_events_def state_handles_def)
  have "n_next s \<notin> v_addr ` set (g_pRootVolume s)" using assms(1) by (auto simp: wf_state_def)
  moreover have "later s s1"
    using later_trans [OF laterI [of s "n_next s + 1" "n_tick s + 1"] later_new_string [OF n]] by simp
  ultimately show ?thesis
    using wf_later [OF assms(1), of s1] assms(1) E s' L v lt by (simp add: wf_state_def state_events_def state_handles_def)
qed

lemma ClearEvents_effect:
  assumes "ample env"
  shows "\<exists>t es'. later s t \<and> ClearEvents env es s = t\<lparr>closed_events := closed_events s @ es'\<rparr> \<and> map e_addr es' = map e_addr es"
proof -
  obtain t where t: "AddFileToEvent env es (Some [backslash]) FILE_NOTIFY_CHANGE_DIR_NAME FILE_ACTION_REMOVED s =
      (map (queue_info FILE_NOTIFY_CHANGE_DIR_NAME [backslash] FILE_ACTION_REMOVED) es, t)" "later s t"
    using ample_AddFile [OF assms] by blast
  then show ?thesis
    using later_same(2) [OF t(2)] by (auto simp: ClearEvents_def CheckEventOnPath_eq comp_def intro!: exI)
qed

definition closing :: "NotifyState \<Rightarrow> NotifyState \<Rightarrow> nat list \<Rightarrow> bool" where
  "closing s s' as \<longleftrightarrow> g_pRootVolume s' = g_pRootVolume s \<and> held s' = held s \<and> n_next s \<le> n_next s' \<and>
     map e_addr (closed_events s') = map e_addr (closed_events s) @ as"

lemma closing_trans: "closing s t as \<Longrightarrow> closing t u bs \<Longrightarrow> closing s u (as @ bs)"
  by (auto simp: closing_def)

lemma closing_ClearEvents: "ample env \<Longrightarrow> closing s (ClearEvents env es s) (map e_addr es)"
  using ClearEvents_effect [of env s es] by (auto simp: closing_def later_same)

lemma closing_DeleteNotDirEntry: "ample env \<Longrightarrow> closing s (DeleteNotDirEntry env ds s) (map e_addr (tree_events ds))"
proof (induction env ds s rule: DeleteNotDirEntry.induct)
  case (1 env s)
  then show ?case by (simp add: closing_def)
next
  case (2 env n es hs cs ds s)
  let ?a = "ClearEvents env es s"
  let ?b = "DeleteNotDirEntry env cs ?a"
  have "closing s ?a (map e_addr es)" by (rule closing_ClearEvents [OF "2.prems"])
  then have "closing s ?b (map e_addr es @ map e_addr (tree_events cs))" using closing_trans 2 by blast
  then have "closing s (DeleteNotDirEntry env ds ?b) ((map e_addr es @ map e_addr (tree_events cs)) @ map e_addr (tree_events ds))"
    using closing_trans 2 by blast
  then show ?case by simp
qed

text \<open>The events of a deleted volume stay open until their owners close them.\<close>

lemma delete_volume_wf:
  assumes "ample env" "wf_state s" "NotifyDeleteVolume env v s = Some s'"
  shows "wf_state s'"
proof (cases "v = 0")
  case True
  then show ?thesis using assms by (simp add: NotifyDeleteVolume_def)
next
  case False
  obtain w where w: "volume_at s v = Some w" using assms(3) False by (auto simp: NotifyDeleteVolume_wf [OF assms(2)] split: option.splits)
  let ?a = "DeleteNotDirEntry env (pDirEntry w) s"
  let ?b = "ClearEvents env (v_pEvents w) ?a"
  have c: "closing s ?b (map e_addr (tree_events (pDirEntry w)) @ map e_addr (v_pEvents w))"
    using closing_trans [OF closing_DeleteNotDirEntry [OF assms(1)] closing_ClearEvents [OF assms(1)]] .
  have s': "s' = ?b\<lparr>g_pRootVolume := filter (\<lambda>x. v_addr x \<noteq> v) (g_pRootVolume ?b)\<rparr>"
    using assms(3) False w by (simp add: NotifyDeleteVolume_wf [OF assms(2)] Let_def)
  obtain xs ys where sp: "g_pRootVolume s = xs @ w # ys" "v_addr w = v" "\<forall>x \<in> set xs \<union> set ys. v_addr x \<noteq> v"
    using volume_split [OF _ w] assms(2) by (auto simp: wf_state_def)
  have "filter (\<lambda>x. v_addr x \<noteq> v) xs = xs" "filter (\<lambda>x. v_addr x \<noteq> v) ys = ys" using sp(3) by (auto intro: filter_True)
  then have r: "g_pRootVolume s' = xs @ ys" using s' c sp by (simp add: closing_def)
  have cl: "map e_addr (closed_events s') = map e_addr (closed_events s) @ map e_addr (tree_events (pDirEntry w)) @ map e_addr (v_pEvents w)"
    and n: "n_next s \<le> n_next s'" "held s' = held s"
    using s' c by (auto simp: closing_def)
  have E: "mset (map e_addr (state_events s')) = mset (map e_addr (state_events s))"
  proof -
    have "map e_addr (state_events s') = map e_addr (closed_events s') @ map e_addr (concat (map vol_events (xs @ ys)))"
      by (simp add: state_events_def r)
    then show ?thesis unfolding cl by (simp add: state_events_def sp(1) vol_events_def)
  qed
  have H: "mset (map h_addr (state_handles s')) \<subseteq># mset (map h_addr (state_handles s)) + mset []"
    by (simp add: state_handles_def sp(1) r)
  have D: "distinct (map e_addr (state_events s'))"
    using assms(2) mset_eq_imp_distinct_iff [OF E] by (simp add: wf_state_def)
  have D': "distinct (map h_addr (state_handles s'))"
    using distinct_more [OF _ H] assms(2) by (simp add: wf_state_def)
  have S: "set (map e_addr (state_events s')) = set (map e_addr (state_events s))" using E by (metis set_mset_mset)
  have S': "set (map h_addr (state_handles s')) \<subseteq> set (map h_addr (state_handles s))" using set_sub [OF H] by simp
  have B: "\<forall>a \<in> set (map h_addr (state_handles s)). 0 < a \<and> a < n_next s'"
    "\<forall>a \<in> set (map e_addr (state_events s)). 0 < a \<and> a < n_next s'"
    using assms(2) by (auto simp: wf_state_def intro: less_le_trans [OF _ n(1)])
  have "\<forall>a \<in> set (map h_addr (state_handles s')). 0 < a \<and> a < n_next s'"
    by (rule ballI, rule bspec [OF B(1)], rule subsetD [OF S'])
  moreover have "\<forall>a \<in> set (map e_addr (state_events s')). 0 < a \<and> a < n_next s'"
    unfolding S by (rule B(2))
  ultimately have C: "\<forall>a \<in> h_addr ` set (state_handles s'). 0 < a \<and> a < n_next s'"
    "\<forall>a \<in> e_addr ` set (state_events s'). 0 < a \<and> a < n_next s'"
    by (simp_all only: set_map)
  have V: "\<forall>x \<in> set (xs @ ys). vol_ok x" "distinct (map v_addr (xs @ ys))" "\<forall>a \<in> v_addr ` set (xs @ ys). 0 < a \<and> a < n_next s'" "0 < n_next s'"
    using assms(2) n(1) unfolding wf_state_def sp(1) by (auto intro: less_le_trans [OF _ n(1)])
  have "held s' = []" using assms(2) n(2) by (simp add: wf_state_def)
  then show ?thesis
    unfolding wf_state_def r using V C D D' by (intro conjI)
qed

section \<open>Reading changes\<close>

lemma reset_event_addr: "reset_event e d = (e', r, err) \<Longrightarrow> e_addr e' = e_addr e"
  by (auto simp: reset_event_def Let_def split: option.splits prod.splits if_splits)

lemma put_event_addr: "e_addr e' = e_addr e \<Longrightarrow> map e_addr (put_event e' es) = map e_addr es"
  by (auto simp: put_event_def)

lemma set_error_simps [simp]: "g_pRootVolume (set_error err s) = g_pRootVolume s" "closed_events (set_error err s) = closed_events s"
  "held (set_error err s) = held s" "n_next (set_error err s) = n_next s"
  by (simp_all add: set_error_def split: option.splits)

lemma wf_set_error: "wf_state (set_error err s) = wf_state s"
  by (simp add: wf_state_def state_events_def state_handles_def)

lemma reset_wf:
  assumes "wf_state s" "NotifyReset a d s = Some (r, s')"
  shows "wf_state s'"
proof (cases "find (\<lambda>e. e_addr e = a) (closed_events s)")
  case (Some e)
  obtain e' r' err where x: "reset_event e d = (e', r', err)" by (cases "reset_event e d") auto
  have s': "s' = set_error err (s\<lparr>closed_events := put_event e' (closed_events s)\<rparr>)"
    using assms(2) Some x by (simp add: NotifyReset_wf [OF assms(1)])
  have "map e_addr (put_event e' (closed_events s)) = map e_addr (closed_events s)"
    using put_event_addr [of e' e'] by simp
  then have m: "map e_addr (state_events (s\<lparr>closed_events := put_event e' (closed_events s)\<rparr>)) = map e_addr (state_events s)"
    by (simp add: state_events_def)
  then have "e_addr ` set (state_events (s\<lparr>closed_events := put_event e' (closed_events s)\<rparr>)) = e_addr ` set (state_events s)"
    by (metis set_map)
  then show ?thesis using assms(1) m unfolding s' wf_set_error by (simp add: wf_state_def state_handles_def)
next
  case None
  obtain w pos e where h: "event_home s a = Some (w, pos)" and e: "find (\<lambda>e. e_addr e = a) (events_here w pos) = Some e"
    using assms(2) None by (auto simp: NotifyReset_wf [OF assms(1)] bind_eq_Some_conv)
  obtain e' r' err where x: "reset_event e d = (e', r', err)" by (cases "reset_event e d") auto
  have s': "s' = set_error err (put_volume (put_events w pos (put_event e' (events_here w pos))) s)"
    using assms(2) None h e x by (simp add: NotifyReset_wf [OF assms(1)])
  note m = event_home_some [OF h]
  have v: "volume_at s (v_addr w) = Some w" using volume_at_member [OF assms(1) m(1)] .
  have "same_volume w (put_events w pos (put_event e' (events_here w pos)))"
    by (rule same_put_events) (rule put_event_addr, rule refl)
  then show ?thesis unfolding s' wf_set_error using wf_same_volume [OF assms(1) v] by blast
qed

section \<open>Runs\<close>

text \<open>The calls of the file systems and of applications, by any thread; paths are lists of names.\<close>

definition path_of :: "string list \<Rightarrow> string" where
  "path_of ns = backslash # join ns"

lemma path_of_rep: "path_of ns = replicate 1 backslash @ join ns"
  by (simp add: path_of_def)

inductive notify_step :: "not_env \<Rightarrow> NotifyState \<Rightarrow> NotifyState \<Rightarrow> bool" for env where
  do_create_volume: "NotifyCreateVolume env nm s = (r, s') \<Longrightarrow> notify_step env s s'"
| do_delete_volume: "NotifyDeleteVolume env v s = Some s' \<Longrightarrow> notify_step env s s'"
| do_create_file: "names_ok ns \<Longrightarrow> NotifyCreateFile env v (path_of ns) s = Some (r, s') \<Longrightarrow> notify_step env s s'"
| do_create_event: "names_ok ns \<Longrightarrow> NotifyCreateEvent env v proc (path_of ns) subtree dwFlags s = Some (h, s') \<Longrightarrow> notify_step env s s'"
| do_close_handle: "NotifyCloseHandle env v h s = Some s' \<Longrightarrow> notify_step env s s'"
| do_handle_change: "NotifyHandleChange env v h dwFlags s = Some s' \<Longrightarrow> notify_step env s s'"
| do_path_change: "names_ok ns \<Longrightarrow> NotifyPathChange env v (path_of ns) bPath act s = Some s' \<Longrightarrow> notify_step env s s'"
| do_move_file: "names_ok ns \<Longrightarrow> names_ok ms \<Longrightarrow> NotifyMoveFile env v (path_of ns) (path_of ms) s = Some s' \<Longrightarrow> notify_step env s s'"
| do_get_next: "NotifyGetNextChange env h dwFlags d s = Some (x, s') \<Longrightarrow> notify_step env s s'"
| do_close_change: "NotifyCloseChangeHandle env h s = Some (b, s') \<Longrightarrow> notify_step env s s'"
| do_switch: "notify_step env s (s\<lparr>n_thread := t\<rparr>)"

definition start_state :: NotifyState where
  "start_state = \<lparr>g_pRootVolume = [], closed_events = [], held = [], n_thread = 0, n_tick = 0, n_next = 1, n_error = 0\<rparr>"

inductive reachable :: "not_env \<Rightarrow> NotifyState \<Rightarrow> bool" for env where
  start: "reachable env start_state"
| step: "reachable env s \<Longrightarrow> notify_step env s s' \<Longrightarrow> reachable env s'"

inductive_cases notify_stepE: "notify_step env s s'"

lemma step_wf:
  assumes "notify_step env s s'" "ample env" "wf_state s"
  shows "wf_state s'"
  using assms
proof (cases rule: notify_step.cases)
  case (do_create_volume nm r)
  then show ?thesis using create_volume_wf assms(3) by blast
next
  case (do_delete_volume v)
  then show ?thesis using delete_volume_wf assms(2,3) by blast
next
  case (do_create_file ns v r)
  then show ?thesis using create_file_wf assms(2,3) unfolding path_of_rep by blast
next
  case (do_create_event ns v proc subtree dwFlags h)
  then obtain w where w: "volume_at s v = Some w" by (auto simp: NotifyCreateEvent_wf [OF assms(3)] split: option.splits)
  show ?thesis using create_event_result [OF assms(2) do_create_event(1) assms(3) w, of proc 1 subtree dwFlags] do_create_event(2)
    unfolding path_of_rep by auto
next
  case (do_close_handle v h)
  then show ?thesis using close_handle_wf assms(2,3) by blast
next
  case (do_handle_change v h dwFlags)
  then obtain w where w: "volume_at s v = Some w" by (auto simp: NotifyHandleChange_def NotifyHandleChangeEx_wf [OF assms(3)] split: option.splits)
  then show ?thesis using Notify_Changes.handle_change [OF assms(2,3) _ w] do_handle_change unfolding NotifyHandleChange_def by blast
next
  case (do_path_change ns v bPath act)
  then show ?thesis using path_change_wf assms(2,3) unfolding path_of_rep by blast
next
  case (do_move_file ns ms v)
  obtain s1 a b p where "NotifyPathChange env v (path_of ns) p a s = Some s1" "NotifyPathChange env v (path_of ms) p b s1 = Some s'"
    using do_move_file(3) by (auto simp: NotifyMoveFile_wf [OF assms(3)] Let_def bind_eq_Some_conv split: option.splits)
  then show ?thesis using path_change_wf [OF assms(2)] do_move_file(1,2) assms(3) unfolding path_of_rep by blast
next
  case (do_get_next h dwFlags d x)
  then show ?thesis
    using reset_wf assms(3) by (auto simp: NotifyGetNextChange_def Let_def split: if_splits option.splits)
next
  case (do_close_change h b)
  then show ?thesis
    using wf_close_event assms(3) by (auto simp: NotifyCloseChangeHandle_def Let_def split: if_splits option.splits)
next
  case (do_switch t)
  then show ?thesis using assms(3) by (simp add: wf_state_def state_events_def state_handles_def)
qed

lemma reachable_wf: "reachable env s \<Longrightarrow> ample env \<Longrightarrow> wf_state s"
proof (induction rule: reachable.induct)
  case start
  show ?case by (simp add: wf_state_def start_state_def state_events_def state_handles_def)
next
  case (step s s')
  then show ?case using step_wf by blast
qed

end
