(* ===== verification/Notify_Reset.thy ===== *)
theory Notify_Reset
  imports Notify_Reach
begin

text \<open>
  The records \<open>NotifyReset\<close> packs into a buffer, read back along \<open>NextEntryOffset\<close>.
\<close>

section \<open>Reading a buffer\<close>

text \<open>What an application does: \<open>Action\<close> and \<open>FileName\<close> of each record, at most \<open>n\<close> records.\<close>

fun read_records :: "nat \<Rightarrow> BYTE list \<Rightarrow> nat \<Rightarrow> (nat \<times> BYTE list) list" where
  "read_records 0 b off = []"
| "read_records (Suc n) b off =
     (get_dword b (off + 4), take (get_dword b (off + 8)) (drop (off + 12) b)) #
     (if get_dword b off = 0 then [] else read_records n b (off + get_dword b off))"

text \<open>An entry as \<open>AddFileToEvent\<close> makes it.\<close>

definition sane_info :: "NOTFILEINFO \<Rightarrow> bool" where
  "sane_info fi \<longleftrightarrow> (case fi_szFileName fi of None \<Rightarrow> False | Some nm \<Rightarrow> dwFileNameLen fi = 2 * length nm) \<and>
     dwFileNameLen fi < 2 ^ 31 \<and> dwAction fi < 2 ^ 32"

definition info_record :: "NOTFILEINFO \<Rightarrow> nat \<times> BYTE list" where
  "info_record fi = (dwAction fi, case fi_szFileName fi of None \<Rightarrow> [] | Some nm \<Rightarrow> wide_bytes nm)"

lemma length_wide_bytes: "length (wide_bytes nm) = 2 * length nm"
  by (induction nm) (simp_all add: wide_bytes_def)

fun chain :: "BYTE list \<Rightarrow> nat \<Rightarrow> NOTFILEINFO list \<Rightarrow> bool" where
  "chain b off [] \<longleftrightarrow> True"
| "chain b off (fi # fis) \<longleftrightarrow>
     get_dword b off = (if fis = [] then 0 else record_size (dwFileNameLen fi)) \<and> get_dword b (off + 4) = dwAction fi \<and>
     get_dword b (off + 8) = dwFileNameLen fi \<and> take (dwFileNameLen fi) (drop (off + 12) b) = snd (info_record fi) \<and>
     chain b (off + record_size (dwFileNameLen fi)) fis"

lemma align4_ge: "n \<le> align4 n" "align4 n \<le> n + 3"
proof -
  have "n mod 4 < 4" by simp
  then show "n \<le> align4 n" "align4 n \<le> n + 3" by (auto simp: align4_def)
qed

lemma record_size_ge: "n + 18 \<le> record_size n" "record_size n \<le> n + 21"
  using align4_ge [of "n + 2 + 16"] by (simp_all add: record_size_def)

lemma read_chain:
  assumes "chain b off fis" "length fis \<le> n" "fis \<noteq> []"
  shows "read_records n b off = map info_record fis"
  using assms
proof (induction b off fis arbitrary: n rule: chain.induct)
  case (2 b off fi fis)
  obtain m where n: "n = Suc m" using "2.prems"(2) by (cases n) auto
  have r: "record_size (dwFileNameLen fi) \<noteq> 0" using record_size_ge [of "dwFileNameLen fi"] by simp
  have "info_record fi = (dwAction fi, snd (info_record fi))" by (simp add: info_record_def)
  then show ?case using 2 n r by (cases "fis = []") auto
qed simp

section \<open>Writing it\<close>

lemma get_dword_slice:
  assumes "off + 4 \<le> length b"
  shows "get_dword b off = get_dword (take 4 (drop off b)) 0"
  using assms by (simp add: get_dword_def get_word_def)

lemma overwrite_part:
  assumes "off + length d \<le> length p" "i + k \<le> length d"
  shows "take k (drop (off + i) (overwrite p off d)) = take k (drop i d)"
proof -
  have "take k (drop i (take (length d) (drop off (overwrite p off d)))) = take k (drop i d)"
    using overwrite_same [OF assms(1)] by simp
  then show ?thesis using assms(2) by (simp add: drop_take min_absorb1 add.commute)
qed

lemma dword_slice_bytes:
  assumes "take 4 (drop off b) = dword_bytes n" "n < 2 ^ 32" "off + 4 \<le> length b"
  shows "get_dword b off = n"
  using get_dword_slice [OF assms(3)] assms(1) get_dword_bytes [OF assms(2)] by simp

text \<open>The header of a record keeps its place for \<open>NextEntryOffset\<close>, which the next record fills in.\<close>

lemma record_parts:
  assumes "sane_info fi" "fi_szFileName fi = Some nm" "ret + 14 + dwFileNameLen fi \<le> length b"
  defines "b2 \<equiv> overwrite b ret (record_bytes (dwAction fi) (dwFileNameLen fi) nm)"
  shows "take 4 (drop ret b2) = dword_bytes 0" "take 4 (drop (ret + 4) b2) = dword_bytes (dwAction fi)"
    "take 4 (drop (ret + 8) b2) = dword_bytes (dwFileNameLen fi)"
    "take (dwFileNameLen fi) (drop (ret + 12) b2) = snd (info_record fi)" "length b2 = length b"
    "i + k \<le> ret \<Longrightarrow> take k (drop i b2) = take k (drop i b)"
proof -
  let ?r = "record_bytes (dwAction fi) (dwFileNameLen fi) nm"
  have n: "dwFileNameLen fi = length (wide_bytes nm)"
    using assms(1,2) by (simp add: sane_info_def length_wide_bytes)
  have r: "?r = dword_bytes 0 @ dword_bytes (dwAction fi) @ dword_bytes (dwFileNameLen fi) @ wide_bytes nm @ [0, 0]"
    using n by (simp add: record_bytes_def)
  have l: "length ?r = 14 + dwFileNameLen fi" unfolding r using n by simp
  have le: "ret + length ?r \<le> length b" using l assms(3) by simp
  note P = overwrite_part [OF le]
  show "take 4 (drop ret b2) = dword_bytes 0" using P [of 0 4] l by (simp add: b2_def r)
  show "take 4 (drop (ret + 4) b2) = dword_bytes (dwAction fi)" using P [of 4 4] l by (simp add: b2_def r)
  show "take 4 (drop (ret + 8) b2) = dword_bytes (dwFileNameLen fi)" using P [of 8 4] l by (simp add: b2_def r)
  show "take (dwFileNameLen fi) (drop (ret + 12) b2) = snd (info_record fi)"
  proof -
    have "take (dwFileNameLen fi) (drop (ret + 12) b2) = take (dwFileNameLen fi) (drop 12 ?r)"
      using P [of 12 "dwFileNameLen fi"] l by (simp add: b2_def)
    also have "\<dots> = wide_bytes nm" unfolding r using n by simp
    finally show ?thesis using assms(2) by (simp add: info_record_def)
  qed
  show "length b2 = length b" unfolding b2_def by (rule length_overwrite [OF le])
  show "i + k \<le> ret \<Longrightarrow> take k (drop i b2) = take k (drop i b)"
    unfolding b2_def by (rule overwrite_other [OF le]) simp
qed

definition prev_ok :: "nat \<Rightarrow> (nat \<times> nat) option \<Rightarrow> bool" where
  "prev_ok ret prev \<longleftrightarrow> (case prev of None \<Rightarrow> True | Some (p, l) \<Rightarrow> p + 4 \<le> ret \<and> l < 2 ^ 32)"

definition away :: "nat \<Rightarrow> nat \<Rightarrow> (nat \<times> nat) option \<Rightarrow> bool" where
  "away i k prev \<longleftrightarrow> (case prev of None \<Rightarrow> True | Some (p, l) \<Rightarrow> i + k \<le> p \<or> p + 4 \<le> i)"

definition linked :: "BYTE list \<Rightarrow> (nat \<times> nat) option \<Rightarrow> bool" where
  "linked b prev \<longleftrightarrow> (case prev of None \<Rightarrow> True | Some (p, l) \<Rightarrow> get_dword b p = l)"

theorem reset_loop_chain:
  assumes "reset_loop lim fis (Some b) ret prev cnt = (rest, buf, r, c, stop)" "stop \<noteq> Fault"
    and "\<forall>fi \<in> set fis. sane_info fi" "prev_ok ret prev"
  shows "\<exists>b' n. buf = Some b' \<and> length b' = length b \<and> n \<le> length fis \<and> rest = drop n fis \<and> c = cnt + n \<and>
           chain b' ret (take n fis) \<and> (n = 0 \<longrightarrow> b' = b) \<and> (n > 0 \<longrightarrow> linked b' prev) \<and>
           (\<forall>i k. i + k \<le> ret \<and> away i k prev \<longrightarrow> take k (drop i b') = take k (drop i b))"
  using assms
proof (induction fis arbitrary: b ret prev cnt)
  case Nil
  then show ?case by auto
next
  case (Cons fi fis)
  let ?n = "dwFileNameLen fi"
  let ?l = "record_size ?n"
  have sane: "sane_info fi" using Cons.prems(3) by simp
  then obtain nm where nm: "fi_szFileName fi = Some nm" by (auto simp: sane_info_def split: option.splits)
  show ?case
  proof (cases "?l + ret \<le> lim")
    case False
    then have "rest = fi # fis" "buf = Some b" "c = cnt" using Cons.prems(1) by (auto simp: Let_def)
    then show ?thesis by (intro exI [of _ b] exI [of _ 0]) auto
  next
    case True
    have fit: "ret + 14 + ?n \<le> length b"
    proof (rule ccontr)
      assume "\<not> ?thesis"
      then have "stop = Fault" using Cons.prems(1) True nm by (auto simp: Let_def)
      then show False using Cons.prems(2) by simp
    qed
    define b1 where "b1 = (case prev of None \<Rightarrow> b | Some (p, l) \<Rightarrow> overwrite b p (dword_bytes l))"
    define b2 where "b2 = overwrite b1 ret (record_bytes (dwAction fi) ?n nm)"
    have b1len: "length b1 = length b" and b1link: "linked b1 prev"
      and b1other: "\<And>i k. i + k \<le> ret \<and> away i k prev \<Longrightarrow> take k (drop i b1) = take k (drop i b)"
    proof -
      have "length b1 = length b \<and> linked b1 prev \<and> (\<forall>i k. i + k \<le> ret \<and> away i k prev \<longrightarrow> take k (drop i b1) = take k (drop i b))"
      proof (cases prev)
        case None
        then show ?thesis by (simp add: b1_def linked_def)
      next
        case (Some x)
        obtain p l where x: "x = (p, l)" by (cases x)
        have pl: "p + 4 \<le> ret" "l < 2 ^ 32" using Cons.prems(4) Some x by (simp_all add: prev_ok_def)
        have le: "p + length (dword_bytes l) \<le> length b" using pl(1) fit by simp
        have b1: "b1 = overwrite b p (dword_bytes l)" using Some x by (simp add: b1_def)
        have len: "length b1 = length b" unfolding b1 by (rule length_overwrite [OF le])
        have "take 4 (drop p b1) = dword_bytes l" using overwrite_same [OF le] by (simp add: b1)
        then have "get_dword b1 p = l" using dword_slice_bytes pl(2) len le by simp
        moreover have "take k (drop i b1) = take k (drop i b)" if "i + k \<le> p \<or> p + 4 \<le> i" for i k
          unfolding b1 by (rule overwrite_other [OF le]) (use that in simp)
        ultimately show ?thesis using len Some x by (auto simp: linked_def away_def)
      qed
      then show "length b1 = length b" "linked b1 prev"
        "\<And>i k. i + k \<le> ret \<and> away i k prev \<Longrightarrow> take k (drop i b1) = take k (drop i b)" by blast+
    qed
    have fit1: "ret + 14 + ?n \<le> length b1" using fit b1len by simp
    note R = record_parts [OF sane nm fit1, folded b2_def]
    have step: "reset_loop lim fis (Some b2) (ret + ?l) (Some (ret, ?l)) (cnt + 1) = (rest, buf, r, c, stop)"
      using Cons.prems(1) True nm fit by (simp add: Let_def b1_def b2_def add.commute)
    have l32: "?l < 2 ^ 32" "ret + 4 \<le> ret + ?l" "18 + ?n \<le> ?l"
      using record_size_ge [of ?n] sane by (auto simp: sane_info_def)
    obtain b' m where b': "buf = Some b'" "length b' = length b2" "m \<le> length fis" "rest = drop m fis" "c = cnt + 1 + m"
      "chain b' (ret + ?l) (take m fis)" "m = 0 \<longrightarrow> b' = b2" "m > 0 \<longrightarrow> linked b' (Some (ret, ?l))"
      "\<forall>i k. i + k \<le> ret + ?l \<and> away i k (Some (ret, ?l)) \<longrightarrow> take k (drop i b') = take k (drop i b2)"
      using Cons.IH [OF step Cons.prems(2)] Cons.prems(3) l32(1,2) by (auto simp: prev_ok_def)
    have sl: "take k (drop i b') = take k (drop i b2)" if "i + k \<le> ret \<or> ret + 4 \<le> i \<and> i + k \<le> ret + ?l" for i k
      using b'(9) that l32 by (auto simp: away_def)
    have len: "length b' = length b" using b'(2) R(5) b1len by simp
    have d: "get_dword b' (ret + 4) = dwAction fi" "get_dword b' (ret + 8) = ?n"
      using dword_slice_bytes [of "ret + 4" b' "dwAction fi"] dword_slice_bytes [of "ret + 8" b' ?n] sl [of "ret + 4" 4] sl [of "ret + 8" 4]
        R(2,3) l32 len fit sane by (simp_all add: sane_info_def)
    have nx: "get_dword b' ret = (if m = 0 then 0 else ?l)"
      using dword_slice_bytes [of ret b' 0] R(1) len fit b'(7,8) by (auto simp: linked_def)
    have na: "take ?n (drop (ret + 12) b') = snd (info_record fi)"
      using sl [of "ret + 12" ?n] R(4) l32 by simp
    have tn: "take m fis = [] \<longleftrightarrow> m = 0" using b'(3) by auto
    have "chain b' ret (take (Suc m) (fi # fis))" using d nx na b'(6) tn by simp
    moreover have "linked b' prev"
    proof (cases prev)
      case (Some x)
      obtain p l where x: "x = (p, l)" by (cases x)
      have p: "p + 4 \<le> ret" using Cons.prems(4) Some x by (simp add: prev_ok_def)
      have "take 4 (drop p b') = take 4 (drop p b1)" using sl [of p 4] R(6) [of p 4] p by simp
      then have "get_dword b' p = get_dword b1 p"
        using get_dword_slice [of p b'] get_dword_slice [of p b1] len b1len p fit by simp
      then show ?thesis using b1link Some x by (simp add: linked_def)
    qed (simp add: linked_def)
    moreover have "take k (drop i b') = take k (drop i b)" if "i + k \<le> ret \<and> away i k prev" for i k
      using sl [of i k] R(6) [of i k] b1other [of i k] that by simp
    ultimately show ?thesis using b' len by (intro exI [of _ b'] exI [of _ "Suc m"]) auto
  qed
qed

text \<open>How many records have room.\<close>

fun records_that_fit :: "nat \<Rightarrow> nat \<Rightarrow> NOTFILEINFO list \<Rightarrow> nat" where
  "records_that_fit lim ret [] = 0"
| "records_that_fit lim ret (fi # fis) =
     (if record_size (dwFileNameLen fi) + ret \<le> lim then Suc (records_that_fit lim (ret + record_size (dwFileNameLen fi)) fis) else 0)"

lemma reset_loop_count:
  "reset_loop lim fis buf ret prev cnt = (rest, buf', r, c, stop) \<Longrightarrow> stop \<noteq> Fault \<Longrightarrow> c = cnt + records_that_fit lim ret fis"
proof (induction lim fis buf ret prev cnt rule: reset_loop.induct)
  case (2 lim fi fis buf ret prev cnt)
  show ?case
  proof (cases "record_size (dwFileNameLen fi) + ret \<le> lim")
    case True
    then show ?thesis using 2 by (auto simp: Let_def split: option.splits if_splits)
  next
    case False
    then show ?thesis using 2 by (auto simp: Let_def)
  qed
qed simp

text \<open>The call: what it hands out, what stays queued, and how the count goes down.\<close>

theorem reset_roundtrip:
  assumes "reset_event e (Some d) = (e', r, err)" "fRet r" "dwCount e \<noteq> 0" "lpBuffer d = Some b"
    and "\<forall>fi \<in> set (pFileInfo e). sane_info fi"
  shows "\<exists>b' n. r_buffer r = Some b' \<and> length b' = length b \<and> pFileInfo e' = drop n (pFileInfo e) \<and> n \<le> length (pFileInfo e) \<and>
           n = records_that_fit (nBufferLength d) 0 (pFileInfo e) \<and>
           (n > 0 \<longrightarrow> read_records n b' 0 = map info_record (take n (pFileInfo e))) \<and>
           dwCount e' = (if dwCount e > of_nat n then dwCount e - of_nat n else 0) \<and> (signalled e' \<longleftrightarrow> dwCount e' \<noteq> 0) \<and>
           (err = None \<longleftrightarrow> n = length (pFileInfo e)) \<and> (err \<noteq> None \<longrightarrow> err = Some (if n = 0 then ERROR_INSUFFICIENT_BUFFER else ERROR_MORE_DATA))"
proof -
  obtain rest buf rt c stop where L: "reset_loop (nBufferLength d) (pFileInfo e) (Some b) 0 None 0 = (rest, buf, rt, c, stop)"
    by (cases "reset_loop (nBufferLength d) (pFileInfo e) (Some b) 0 None 0") auto
  have nf: "stop \<noteq> Fault" using assms(1-4) L by (auto simp: reset_event_def Let_def)
  have em: "stop = Emptied \<longleftrightarrow> rest = []"
  proof -
    have "reset_loop lim fis bf rt0 prev c0 = (rest, buf, rt, c, stop) \<Longrightarrow> (stop = Emptied \<longleftrightarrow> rest = [])" for lim fis bf rt0 prev c0
      by (induction lim fis bf rt0 prev c0 rule: reset_loop.induct) (auto simp: Let_def split: if_splits option.splits)
    then show ?thesis using L by blast
  qed
  obtain b' n where b': "buf = Some b'" "length b' = length b" "n \<le> length (pFileInfo e)" "rest = drop n (pFileInfo e)" "c = n"
      "chain b' 0 (take n (pFileInfo e))"
    using reset_loop_chain [OF L nf assms(5)] by (auto simp: prev_ok_def)
  have E: "e' = e\<lparr>signalled := (if dwCount e > of_nat n then dwCount e - of_nat n else 0) \<noteq> 0, pFileInfo := rest,
        dwCount := if dwCount e > of_nat n then dwCount e - of_nat n else 0\<rparr>" "r_buffer r = Some b'"
      "err = (if stop = Emptied then None else Some (if n \<noteq> 0 then ERROR_MORE_DATA else ERROR_INSUFFICIENT_BUFFER))"
    using assms(1,3,4) L nf b'(1,5) by (auto simp: reset_event_def Let_def)
  have rd: "n > 0 \<longrightarrow> read_records n b' 0 = map info_record (take n (pFileInfo e))"
    using read_chain [OF b'(6), of n] b'(3) by (cases "pFileInfo e") auto
  have "rest = [] \<longleftrightarrow> n = length (pFileInfo e)" using b'(3,4) by auto
  moreover have "n = records_that_fit (nBufferLength d) 0 (pFileInfo e)"
    using reset_loop_count [OF L nf] b'(5) by simp
  ultimately show ?thesis
    using E em rd b' by (intro exI [of _ b'] exI [of _ n]) auto
qed

end
