(* ===== verification/Notify_Total.thy ===== *)
theory Notify_Total
  imports Notify_Reset
begin

text \<open>
  Moved files, deleted volumes, and the calls that run out of memory.

  An event or a handle is in one directory only, and the calls that are given one find it there.
\<close>

section \<open>The directory of a path\<close>

lemma join_snoc: "join (ns @ [n]) = (if ns = [] then n else join ns @ backslash # n)"
proof (induction ns)
  case (Cons m ms)
  then show ?case by (cases ms) auto
qed simp

lemma join_inject: "names_ok ns \<Longrightarrow> names_ok ms \<Longrightarrow> join ns = join ms \<Longrightarrow> ns = ms"
proof (induction ns arbitrary: ms)
  case Nil
  then show ?case using join_Nil [of ms] by simp
next
  case (Cons n ns)
  then obtain m ms' where ms: "ms = m # ms'" using join_Nil [of "n # ns"] by (cases ms) auto
  have e: "n = m" using Cons.prems join_parts(1) [of n ns] join_parts(1) [of m ms'] unfolding ms by metis
  have t: "(if ns = [] then [] else backslash # join ns) = (if ms' = [] then [] else backslash # join ms')"
    using Cons.prems join_parts(2) [of n ns] join_parts(2) [of m ms'] unfolding ms by metis
  then have "ns = [] \<longleftrightarrow> ms' = []" by (auto split: if_splits)
  then have "join ns = join ms'" using t by (cases "ns = []") auto
  then show ?case using Cons.IH [of ms'] Cons.prems e ms by simp
qed

definition parent_path :: "string list \<Rightarrow> string" where
  "parent_path ns = (if butlast ns = [] then [] else path_of (butlast ns))"

lemma path_parent: "ns \<noteq> [] \<Longrightarrow> path_of ns = parent_path ns @ backslash # last ns"
  using join_snoc [of "butlast ns" "last ns"] by (simp add: path_of_def parent_path_def)

lemma last_backslash_at:
  "backslash \<notin> set f \<Longrightarrow> length y \<le> n \<Longrightarrow> last_backslash (y @ backslash # f) n = length y"
proof (induction n)
  case (Suc n)
  show ?case
  proof (cases "length y = Suc n")
    case True
    then show ?thesis by (simp add: nth_append)
  next
    case False
    then have l: "length y \<le> n" using Suc.prems by simp
    have "(y @ backslash # f) ! Suc n \<noteq> backslash" if "Suc n < length (y @ backslash # f)"
    proof -
      have "(y @ backslash # f) ! Suc n = f ! (n - length y)" using l by (simp add: nth_append Suc_diff_le)
      moreover have "n - length y < length f" using that l by simp
      ultimately show ?thesis using Suc.prems(1) by (metis nth_mem)
    qed
    then show ?thesis using Suc.IH [OF Suc.prems(1) l] by auto
  qed
qed simp

lemma GetFileNameOffset_path:
  assumes "names_ok ns" "ns \<noteq> []"
  shows "GetFileNameOffset (path_of ns) = length (parent_path ns)"
proof -
  have "backslash \<notin> set (last ns)" using assms by (auto simp: names_ok_def)
  then show ?thesis unfolding GetFileNameOffset_def path_parent [OF assms(2)] by (rule last_backslash_at) simp
qed

lemma same_directory:
  assumes "names_ok ns" "names_ok ms" "ns \<noteq> []" "ms \<noteq> []"
  shows "(GetFileNameOffset (path_of ns) = GetFileNameOffset (path_of ms) \<and>
           take (GetFileNameOffset (path_of ns)) (path_of ns) = take (GetFileNameOffset (path_of ns)) (path_of ms)) \<longleftrightarrow>
         butlast ns = butlast ms"
proof -
  have "take (length (parent_path ns)) (path_of ns) = parent_path ns" "take (length (parent_path ms)) (path_of ms) = parent_path ms"
    using path_parent assms(3,4) by simp_all
  then have "(GetFileNameOffset (path_of ns) = GetFileNameOffset (path_of ms) \<and>
           take (GetFileNameOffset (path_of ns)) (path_of ns) = take (GetFileNameOffset (path_of ns)) (path_of ms)) \<longleftrightarrow>
      parent_path ns = parent_path ms"
    unfolding GetFileNameOffset_path [OF assms(1,3)] GetFileNameOffset_path [OF assms(2,4)] by metis
  also have "\<dots> \<longleftrightarrow> butlast ns = butlast ms"
    using join_inject [OF names_ok_butlast [OF assms(1)] names_ok_butlast [OF assms(2)]]
    by (auto simp: parent_path_def path_of_def)
  finally show ?thesis .
qed

text \<open>A file that is moved: the watchers of the old directory hear first, then those of the new one.\<close>

theorem move_file_result:
  assumes "ample env" "names_ok ns" "names_ok ms" "ns \<noteq> []" "ms \<noteq> []" "wf_state s" "volume_at s v = Some w"
    and "n_attributes env (attributes_path w (path_of ms)) \<noteq> Some True"
  defines "old \<equiv> if butlast ns = butlast ms then FILE_ACTION_RENAMED_OLD_NAME else FILE_ACTION_REMOVED"
    and "new \<equiv> if butlast ns = butlast ms then FILE_ACTION_RENAMED_NEW_NAME else FILE_ACTION_ADDED"
  shows "\<exists>w' s'. NotifyMoveFile env v (path_of ns) (path_of ms) s = Some s' \<and> wf_state s' \<and> volume_at s' v = Some w' \<and>
           (\<forall>q. watch w' q =
              map (\<lambda>e. reaction FILE_NOTIFY_CHANGE_FILE_NAME (map wcs_key (butlast ms)) (Some (last ms)) new q
                     (reaction FILE_NOTIFY_CHANGE_FILE_NAME (map wcs_key (butlast ns)) (Some (last ns)) old q e)) (watch w q))"
proof -
  have rm: "\<not> removing False a" for a by (simp add: removing_def)
  have pf: "path_flag False = FILE_NOTIFY_CHANGE_FILE_NAME" by (simp add: path_flag_def)
  obtain w1 s1 where p1: "NotifyPathChange env v (path_of ns) False old s = Some s1" "wf_state s1" "volume_at s1 v = Some w1"
      "\<forall>q. watch w1 q = map (reaction FILE_NOTIFY_CHANGE_FILE_NAME (map wcs_key (butlast ns)) (Some (last ns)) old q) (watch w q)"
    using path_change_result [OF assms(1,2,4,6,7) rm, of 1 old] unfolding path_of_rep pf by auto
  obtain w2 s2 where p2: "NotifyPathChange env v (path_of ms) False new s1 = Some s2" "wf_state s2" "volume_at s2 v = Some w2"
      "\<forall>q. watch w2 q = map (reaction FILE_NOTIFY_CHANGE_FILE_NAME (map wcs_key (butlast ms)) (Some (last ms)) new q) (watch w1 q)"
    using path_change_result [OF assms(1,3,5) p1(2,3) rm, of 1 new] unfolding path_of_rep pf by auto
  have "NotifyMoveFile env v (path_of ns) (path_of ms) s = Some s2"
    using p1(1) p2(1) assms(7,8) same_directory [OF assms(2-5)]
    by (auto simp: NotifyMoveFile_wf [OF assms(6)] Let_def old_def new_def)
  then show ?thesis using p2(2-4) p1(4) by (auto simp: comp_def)
qed

section \<open>A deleted volume\<close>

definition told_removed :: "NOTEVENTENTRY \<Rightarrow> NOTEVENTENTRY" where
  "told_removed e = reaction FILE_NOTIFY_CHANGE_DIR_NAME [] (Some [backslash]) FILE_ACTION_REMOVED [] e"

lemma ClearEvents_told:
  assumes "ample env"
  shows "closed_events (ClearEvents env es s) = closed_events s @ map told_removed es"
proof -
  obtain t where t: "AddFileToEvent env es (Some [backslash]) FILE_NOTIFY_CHANGE_DIR_NAME FILE_ACTION_REMOVED s =
      (map (queue_info FILE_NOTIFY_CHANGE_DIR_NAME [backslash] FILE_ACTION_REMOVED) es, t)" "later s t"
    using ample_AddFile [OF assms] by blast
  then show ?thesis
    using later_same(2) [OF t(2)]
    by (simp add: ClearEvents_def CheckEventOnPath_eq checked_def told_removed_def reaction_def sees_def Let_def)
qed

lemma DeleteNotDirEntry_told:
  "ample env \<Longrightarrow> closed_events (DeleteNotDirEntry env ds s) = closed_events s @ map told_removed (tree_events ds)"
  by (induction env ds s rule: DeleteNotDirEntry.induct) (simp_all add: ClearEvents_told)

section \<open>Without memory\<close>

lemma later_dir_loop: "dir_loop env bf wn ws cur b pc ds s = (r, ds', s') \<Longrightarrow> later s s'"
proof (induction env bf wn ws cur b pc ds s arbitrary: r ds' s' rule: dir_loop.induct)
  case (1 env bf wn ws cur b pc ds s)
  let ?nm = "takeWhile (\<lambda>c. c \<noteq> backslash) cur"
  let ?tail = "dropWhile (\<lambda>c. c \<noteq> backslash) cur"
  let ?rest = "drop 1 ?tail"
  let ?b = "b \<and> ?tail \<noteq> []"
  let ?i = "length (takeWhile (name_above ?nm) ds)"
  note D = "1.prems" [unfolded dir_loop.simps [of env bf wn ws cur b pc ds s]]
  show ?case
  proof (cases "cur = []")
    case True
    then show ?thesis using D later_default_name by (auto split: prod.splits)
  next
    case c: False
    show ?thesis
    proof (cases "?tail = [] \<and> \<not> b")
      case True
      then show ?thesis using D c
        by (auto simp: Let_def split: prod.splits if_splits dest!: later_default_name later_new_string intro: later_trans)
    next
      case t: False
      note D' = D [unfolded if_not_P [OF c] Let_def if_not_P [OF t]]
      show ?thesis
      proof (cases "?i < length ds \<and> same_name ?nm (ds ! ?i)")
        case True
        then obtain r1 cs where "dir_loop env bf wn ws ?rest ?b (Some (ds ! ?i)) (pChild (ds ! ?i)) s = (r1, cs, s')"
          using D' [unfolded if_P [OF True]] by (auto split: prod.splits)
        then show ?thesis using "1.IH"(1) [OF c refl refl refl t refl refl True] by blast
      next
        case f: False
        show ?thesis
        proof (cases bf)
          case True
          show ?thesis using D' [unfolded if_not_P [OF f] if_P [OF True]] later_not_found by (auto split: prod.splits)
        next
          case nb: False
          obtain d s1 where d: "CreateDirEntry env ?nm s = (d, s1)" by (cases "CreateDirEntry env ?nm s") auto
          show ?thesis
          proof (cases d)
            case None
            then show ?thesis using D' [unfolded if_not_P [OF f] if_not_P [OF nb] d] later_CreateDirEntry [OF d] by simp
          next
            case (Some x)
            then obtain r1 cs where "dir_loop env bf wn ws ?rest ?b (Some x) [] s1 = (r1, cs, s')"
              using D' [unfolded if_not_P [OF f] if_not_P [OF nb] d] by (auto split: prod.splits)
            then have "later s1 s'" using "1.IH"(2) [OF c refl refl refl t refl refl f nb d [symmetric] Some] by blast
            then show ?thesis using later_CreateDirEntry [OF d] by (blast intro: later_trans)
          qed
        qed
      qed
    qed
  qed
qed

lemma later_entry: "InsertOrFindDirEntry env w x wn b bf ws s = (r, w', l, s') \<Longrightarrow> later s s'"
  by (auto simp: InsertOrFindDirEntry_def Let_def split: prod.splits if_splits
      dest!: later_dir_loop later_allocate intro: later_trans)

section \<open>One place\<close>

lemma child_of_split: "child_of k ds = Some d \<Longrightarrow> \<exists>xs ys. ds = xs @ d # ys \<and> dir_key d = k"
  unfolding child_of_def find_Some_iff by (metis nth_mem split_list)

context dir_list
begin

lemma node_all: "node_of q ds = Some d \<Longrightarrow> set (sel d) \<subseteq> set (tree_all sel ds)"
proof (induction q ds rule: node_of.induct)
  case (2 k q ds)
  obtain c where c: "child_of k ds = Some c" "if q = [] then c = d else node_of q (pChild c) = Some d"
    using "2.prems" by (auto split: option.splits if_splits)
  obtain xs ys where s: "ds = xs @ c # ys" using child_of_split [OF c(1)] by blast
  show ?case
  proof (cases "q = []")
    case False
    then show ?thesis using 2 c s by (auto simp: tree_all_append tree_all_Cons)
  qed (use c s in \<open>auto simp: tree_all_append tree_all_Cons\<close>)
qed simp

lemma one_place:
  assumes "distinct (map f (tree_all sel ds))" "node_of p ds = Some d" "node_of q ds = Some e"
    and "x \<in> set (sel d)" "y \<in> set (sel e)" "f x = f y"
  shows "p = q"
  using assms
proof (induction p ds arbitrary: q rule: node_of.induct)
  case (2 k p ds)
  obtain c where c: "child_of k ds = Some c" "if p = [] then c = d else node_of p (pChild c) = Some d"
    using "2.prems"(2) by (auto split: option.splits if_splits)
  obtain k' q' where q: "q = k' # q'" using "2.prems"(3) by (cases q) auto
  obtain c' where c': "child_of k' ds = Some c'" "if q' = [] then c' = e else node_of q' (pChild c') = Some e"
    using "2.prems"(3) q by (auto split: option.splits if_splits)
  have x: "x \<in> set (sel c) \<or> x \<in> set (tree_all sel (pChild c))" "p = [] \<Longrightarrow> x \<in> set (sel c)" "p \<noteq> [] \<Longrightarrow> x \<in> set (tree_all sel (pChild c))"
    using c(2) "2.prems"(4) node_all [of p "pChild c" d] by (auto split: if_splits)
  have y: "y \<in> set (sel c') \<or> y \<in> set (tree_all sel (pChild c'))" "q' = [] \<Longrightarrow> y \<in> set (sel c')" "q' \<noteq> [] \<Longrightarrow> y \<in> set (tree_all sel (pChild c'))"
    using c'(2) "2.prems"(5) node_all [of q' "pChild c'" e] by (auto split: if_splits)
  obtain xs ys where s: "ds = xs @ c # ys" "dir_key c = k" using child_of_split [OF c(1)] by blast
  have k: "dir_key c' = k'" "c' \<in> set ds" using child_of_split [OF c'(1)] by auto
  have yin: "f y \<in> f ` (set (sel c') \<union> set (tree_all sel (pChild c')))" using y by blast
  have D: "f ` (set (sel c) \<union> set (tree_all sel (pChild c))) \<inter> f ` (set (tree_all sel xs) \<union> set (tree_all sel ys)) = {}"
    "f ` set (sel c) \<inter> f ` set (tree_all sel (pChild c)) = {}" "distinct (map f (tree_all sel (pChild c)))"
    using "2.prems"(1) s by (auto simp: tree_all_append tree_all_Cons)
  have xin: "f x \<in> f ` (set (sel c) \<union> set (tree_all sel (pChild c)))" using x by blast
  have cc: "c' = c"
  proof (rule ccontr)
    assume "c' \<noteq> c"
    then have "c' \<in> set xs \<or> c' \<in> set ys" using k(2) s(1) by auto
    then have "set (sel c') \<union> set (tree_all sel (pChild c')) \<subseteq> set (tree_all sel xs) \<union> set (tree_all sel ys)"
      by (auto simp: tree_all_append tree_all_Cons dest!: split_list)
    then have "f y \<in> f ` (set (tree_all sel xs) \<union> set (tree_all sel ys))" using yin by blast
    then show False using D(1) xin "2.prems"(6) by (metis IntI empty_iff)
  qed
  then have kk: "k' = k" using k(1) s(2) by simp
  show ?case
  proof (cases "p = []")
    case True
    have "q' = []"
    proof (rule ccontr)
      assume "q' \<noteq> []"
      then have "f y \<in> f ` set (tree_all sel (pChild c))" using y(3) cc by blast
      moreover have "f x \<in> f ` set (sel c)" using x(2) True by blast
      ultimately show False using D(2) "2.prems"(6) by (metis IntI empty_iff)
    qed
    then show ?thesis using True q kk by simp
  next
    case False
    have "q' \<noteq> []"
    proof
      assume "q' = []"
      then have "f y \<in> f ` set (sel c)" using y(2) cc by blast
      moreover have "f x \<in> f ` set (tree_all sel (pChild c))" using x(3) False by blast
      ultimately show False using D(2) "2.prems"(6) by (metis IntI empty_iff)
    qed
    then have "p = q'"
      using "2.IH" [OF c(1) False D(3), of q'] c(2) c'(2) False cc "2.prems"(4-6) by simp
    then show ?thesis using q kk by simp
  qed
qed simp

end

section \<open>Handles and events of a volume\<close>

lemma vol_lists_distinct:
  assumes "wf_state s" "volume_at s v = Some w"
  shows "distinct (map e_addr (vol_events w))" "distinct (map h_addr (vol_handles w))"
    "\<forall>a \<in> e_addr ` set (closed_events s). a \<notin> e_addr ` set (vol_events w)"
proof -
  obtain xs ys where sp: "g_pRootVolume s = xs @ w # ys"
    using volume_split [OF _ assms(2)] assms(1) by (auto simp: wf_state_def)
  have "distinct (map e_addr (state_events s))" "distinct (map h_addr (state_handles s))"
    using assms(1) by (simp_all add: wf_state_def)
  then show "distinct (map e_addr (vol_events w))" "distinct (map h_addr (vol_handles w))"
    "\<forall>a \<in> e_addr ` set (closed_events s). a \<notin> e_addr ` set (vol_events w)"
    by (auto simp: state_events_def state_handles_def sp)
qed

lemma handle_one_place:
  assumes "distinct (map h_addr (vol_handles w))" "x \<in> set (opened w p)" "y \<in> set (opened w q)" "h_addr x = h_addr y"
  shows "p = q \<and> x = y"
proof -
  have D: "distinct (map h_addr (tree_all pHandles (pDirEntry w)))" "h_addr ` set (v_pHandles w) \<inter> h_addr ` set (tree_all pHandles (pDirEntry w)) = {}"
    using assms(1) by (simp_all add: vol_handles_def tree_handles_all)
  have sub: "set (opened w r) \<subseteq> set (tree_all pHandles (pDirEntry w))" if "r \<noteq> []" for r
    using that hds.node_all [of r "pDirEntry w"] by (cases "node_of r (pDirEntry w)") (auto simp: opened_def)
  have all: "set (opened w r) \<subseteq> set (vol_handles w)" for r
    using sub [of r] by (cases "r = []") (auto simp: opened_def vol_handles_def tree_handles_all)
  have "x = y"
    using assms all inj_onD [of h_addr "set (vol_handles w)" x y] by (auto simp: distinct_map)
  moreover have "p = q"
  proof (cases "p = [] \<or> q = []")
    case True
    show ?thesis
    proof (rule ccontr)
      assume ne: "p \<noteq> q"
      then have "(h_addr x \<in> h_addr ` set (v_pHandles w) \<and> h_addr y \<in> h_addr ` set (tree_all pHandles (pDirEntry w))) \<or>
          (h_addr y \<in> h_addr ` set (v_pHandles w) \<and> h_addr x \<in> h_addr ` set (tree_all pHandles (pDirEntry w)))"
      proof (cases "p = []")
        case True
        then have "q \<noteq> []" "x \<in> set (v_pHandles w)" using ne assms(2) by (auto simp: opened_def)
        then show ?thesis using sub [of q] assms(3) by blast
      next
        case False
        then have "y \<in> set (v_pHandles w)" using \<open>p = [] \<or> q = []\<close> assms(3) by (auto simp: opened_def)
        then show ?thesis using sub [OF False] assms(2) by blast
      qed
      then show False using D(2) assms(4) by (metis IntI empty_iff)
    qed
  next
    case False
    then obtain d e where "node_of p (pDirEntry w) = Some d" "node_of q (pDirEntry w) = Some e" "x \<in> set (pHandles d)" "y \<in> set (pHandles e)"
      using assms(2,3) by (cases "node_of p (pDirEntry w)"; cases "node_of q (pDirEntry w)") (auto simp: opened_def)
    then show ?thesis using hds.one_place [OF D(1)] assms(4) by blast
  qed
  ultimately show ?thesis by blast
qed

lemma event_one_place:
  assumes "distinct (map e_addr (vol_events w))" "x \<in> set (watch w p)" "y \<in> set (watch w q)" "e_addr x = e_addr y"
  shows "p = q \<and> x = y"
proof -
  have D: "distinct (map e_addr (tree_all pEvents (pDirEntry w)))" "e_addr ` set (v_pEvents w) \<inter> e_addr ` set (tree_all pEvents (pDirEntry w)) = {}"
    using assms(1) by (simp_all add: vol_events_def tree_events_all)
  have sub: "set (watch w r) \<subseteq> set (tree_all pEvents (pDirEntry w))" if "r \<noteq> []" for r
    using that events_at_in [of r "pDirEntry w"] by (simp add: watch_def)
  have "x = y"
    using assms watch_in_volume [of w] inj_onD [of e_addr "set (vol_events w)" x y] by (auto simp: distinct_map)
  moreover have "p = q"
  proof (cases "p = [] \<or> q = []")
    case True
    show ?thesis
    proof (rule ccontr)
      assume ne: "p \<noteq> q"
      then have "(e_addr x \<in> e_addr ` set (v_pEvents w) \<and> e_addr y \<in> e_addr ` set (tree_all pEvents (pDirEntry w))) \<or>
          (e_addr y \<in> e_addr ` set (v_pEvents w) \<and> e_addr x \<in> e_addr ` set (tree_all pEvents (pDirEntry w)))"
      proof (cases "p = []")
        case True
        then have "q \<noteq> []" "x \<in> set (v_pEvents w)" using ne assms(2) by (auto simp: watch_def)
        then show ?thesis using sub [of q] assms(3) by blast
      next
        case False
        then have "y \<in> set (v_pEvents w)" using \<open>p = [] \<or> q = []\<close> assms(3) by (auto simp: watch_def)
        then show ?thesis using sub [OF False] assms(2) by blast
      qed
      then show False using D(2) assms(4) by (metis IntI empty_iff)
    qed
  next
    case False
    then obtain d e where "node_of p (pDirEntry w) = Some d" "node_of q (pDirEntry w) = Some e" "x \<in> set (pEvents d)" "y \<in> set (pEvents e)"
      using assms(2,3) by (cases "node_of p (pDirEntry w)"; cases "node_of q (pDirEntry w)") (auto simp: watch_def events_node)
    then show ?thesis using evs.one_place [OF D(1)] assms(4) by blast
  qed
  ultimately show ?thesis by blast
qed

lemma node_of_at: "node_of q ds = Some d \<Longrightarrow> \<exists>pos. node_at pos ds = Some d"
proof (induction q ds rule: node_of.induct)
  case (2 k q ds)
  obtain c where c: "child_of k ds = Some c" "if q = [] then c = d else node_of q (pChild c) = Some d"
    using "2.prems" by (auto split: option.splits if_splits)
  obtain i where i: "i < length ds" "ds ! i = c" using child_of_split [OF c(1)] by (metis in_set_conv_decomp in_set_conv_nth)
  show ?case
  proof (cases "q = []")
    case True
    then have "node_at [i] ds = Some d" using c i by simp
    then show ?thesis by blast
  next
    case False
    then obtain pos where p: "node_at pos (pChild c) = Some d" using 2 c by auto
    then have "pos \<noteq> []" by auto
    then have "node_at (i # pos) ds = Some d" using p i by simp
    then show ?thesis by blast
  qed
qed simp

lemma handle_pos_some:
  assumes "x \<in> set (opened w p)"
  shows "handle_pos w (h_addr x) \<noteq> None"
proof (cases "h_addr x \<in> h_addr ` set (v_pHandles w)")
  case False
  then obtain d where "node_of p (pDirEntry w) = Some d" "x \<in> set (pHandles d)"
    using assms by (cases "node_of p (pDirEntry w)") (auto simp: opened_def split: if_splits)
  then obtain pos where "node_at pos (pDirEntry w) = Some d" "h_addr x \<in> h_addr ` set (pHandles d)" using node_of_at by blast
  then have "find_dir (\<lambda>d. h_addr x \<in> h_addr ` set (pHandles d)) (pDirEntry w) \<noteq> None"
    using find_dir_none [of "\<lambda>d. h_addr x \<in> h_addr ` set (pHandles d)"] by blast
  then show ?thesis using False by (simp add: handle_pos_def)
qed (simp add: handle_pos_def)

lemma event_pos_some:
  assumes "x \<in> set (watch w p)"
  shows "event_pos w (e_addr x) \<noteq> None"
proof (cases "e_addr x \<in> e_addr ` set (v_pEvents w)")
  case False
  then obtain d where "node_of p (pDirEntry w) = Some d" "x \<in> set (pEvents d)"
    using assms by (cases "node_of p (pDirEntry w)") (auto simp: watch_def events_node split: if_splits)
  then obtain pos where "node_at pos (pDirEntry w) = Some d" "e_addr x \<in> e_addr ` set (pEvents d)" using node_of_at by blast
  then have "find_dir (\<lambda>d. e_addr x \<in> e_addr ` set (pEvents d)) (pDirEntry w) \<noteq> None"
    using find_dir_none [of "\<lambda>d. e_addr x \<in> e_addr ` set (pEvents d)"] by blast
  then show ?thesis using False by (simp add: event_pos_def)
qed (simp add: event_pos_def)

lemma known_node:
  assumes "forest_ok ds" "node_of (map wcs_key ns) ds \<noteq> None"
  shows "known ns ds"
  using assms
proof (induction ns ds rule: reach.induct)
  case (2 n ns ds)
  have h: "has_slot n ds" using "2.prems" child_of_slot [OF "2.prems"(1), of n] by (auto split: if_splits)
  then have s: "slot n ds < length ds" by (simp add: has_slot_def)
  have "ns \<noteq> [] \<Longrightarrow> node_of (map wcs_key ns) (pChild (ds ! slot n ds)) \<noteq> None"
    using "2.prems"(2) child_of_slot [OF "2.prems"(1), of n] h by auto
  then show ?case using "2.IH" [OF h forest_ok_nth(1) [OF "2.prems"(1) s]] h by (cases "ns = []") auto
qed simp

section \<open>The calls\<close>

theorem handle_change_result:
  assumes "ample env" "wf_state s" "volume_at s v = Some w" "x \<in> set (opened w p)" "name_set x"
  shows "\<exists>w' s'. NotifyHandleChangeEx env v (h_addr x) dwFlags act s = Some s' \<and> wf_state s' \<and> volume_at s' v = Some w' \<and>
           (\<forall>q. watch w' q = map (reaction dwFlags p (h_szFileName x) act q) (watch w q))"
proof -
  have F: "forest_ok (pDirEntry w)" using wf_volume(1) [OF assms(2,3)] by (simp add: vol_ok_def)
  note D = vol_lists_distinct [OF assms(2,3)]
  obtain pos where pos: "handle_pos w (h_addr x) = Some pos" using handle_pos_some [OF assms(4)] by blast
  obtain ns where ns: "at_path w pos ns" "h_addr x \<in> h_addr ` set (opened w (map wcs_key ns))" using handle_pos_path [OF F pos] by blast
  obtain y where y: "find (\<lambda>z. h_addr z = h_addr x) (handles_here w pos) = Some y"
  proof (cases "find (\<lambda>z. h_addr z = h_addr x) (handles_here w pos)")
    case None
    then show ?thesis using ns(2) here_path(2) [OF F ns(1)] by (auto simp: find_None_iff)
  qed
  then have "y \<in> set (opened w (map wcs_key ns))" "h_addr y = h_addr x"
    using here_path(2) [OF F ns(1)] by (auto simp: find_Some_iff)
  then have "y = x" using handle_one_place [OF D(2) _ assms(4)] by blast
  then have n: "name_set y" using assms(5) by simp
  have "\<exists>s'. NotifyHandleChangeEx env v (h_addr x) dwFlags act s = Some s'"
    using assms(3) pos y n by (simp add: NotifyHandleChangeEx_wf [OF assms(2)] Let_def split: prod.split)
  then obtain s' where s': "NotifyHandleChangeEx env v (h_addr x) dwFlags act s = Some s'" by blast
  obtain w' ms z where r: "wf_state s'" "volume_at s' v = Some w'" "z \<in> set (opened w (map wcs_key ms))" "h_addr z = h_addr x"
      "\<forall>q. watch w' q = map (reaction dwFlags (map wcs_key ms) (h_szFileName z) act q) (watch w q)"
    using Notify_Changes.handle_change [OF assms(1,2) s' assms(3)] by blast
  have "map wcs_key ms = p \<and> z = x" using handle_one_place [OF D(2) r(3) assms(4) r(4)] .
  then show ?thesis using s' r by blast
qed

text \<open>Where the call finds an event.\<close>

lemma event_home_watch:
  assumes "wf_state s" "volume_at s v = Some w" "e \<in> set (watch w p)"
  shows "\<exists>pos ns. event_home s (e_addr e) = Some (w, pos) \<and> event_pos w (e_addr e) = Some pos \<and> at_path w pos ns \<and>
           map wcs_key ns = p \<and> e_addr e \<notin> e_addr ` set (closed_events s)"
proof -
  note D = vol_lists_distinct [OF assms(1,2)]
  have F: "forest_ok (pDirEntry w)" using wf_volume(1) [OF assms(1,2)] by (simp add: vol_ok_def)
  have inw: "e \<in> set (vol_events w)" using assms(3) watch_in_volume [of w p] by blast
  then have nc: "e_addr e \<notin> e_addr ` set (closed_events s)" using D(3) by blast
  obtain xs ys where sp: "g_pRootVolume s = xs @ w # ys" using volume_split [OF _ assms(2)] assms(1) by (auto simp: wf_state_def)
  have ds: "distinct (map e_addr (state_events s))" using assms(1) by (simp add: wf_state_def)
  have none: "event_pos x (e_addr e) = None" if "x \<in> set xs" for x
  proof (rule ccontr)
    assume "event_pos x (e_addr e) \<noteq> None"
    moreover have "forest_ok (pDirEntry x)" using assms(1) that sp by (auto simp: wf_state_def vol_ok_def)
    ultimately obtain ns where "e_addr e \<in> e_addr ` set (watch x (map wcs_key ns))" using event_pos_path by blast
    then have "e_addr e \<in> e_addr ` set (vol_events x)" using watch_in_volume [of x] by auto
    then have "e_addr e \<in> e_addr ` set (concat (map vol_events xs))" using that by auto
    moreover have "e_addr e \<in> e_addr ` set (vol_events w)" using inw by blast
    moreover have "e_addr ` set (concat (map vol_events xs)) \<inter> e_addr ` set (vol_events w) = {}"
      using ds by (simp add: state_events_def sp Int_Un_distrib)
    ultimately show False by blast
  qed
  obtain pos where pos: "event_pos w (e_addr e) = Some pos" using event_pos_some [OF assms(3)] by blast
  have f: "find (\<lambda>x. event_pos x (e_addr e) \<noteq> None) (zs @ w # us) = Some w" if "\<forall>x \<in> set zs. event_pos x (e_addr e) = None" for zs us
    using that pos by (induction zs) auto
  have home: "event_home s (e_addr e) = Some (w, pos)" using f none pos by (simp add: event_home_def sp)
  obtain ns where ns: "at_path w pos ns" "e_addr e \<in> e_addr ` set (watch w (map wcs_key ns))" using event_pos_path [OF F pos] by blast
  obtain y where "y \<in> set (watch w (map wcs_key ns))" "e_addr y = e_addr e" using ns(2) by auto
  then have "map wcs_key ns = p" using event_one_place [OF D(1) _ assms(3)] by blast
  then show ?thesis using home pos ns(1) nc by blast
qed

theorem close_event_result:
  assumes "wf_state s" "volume_at s v = Some w" "e \<in> set (watch w p)"
  shows "\<exists>w' s'. NotifyCloseEvent (e_addr e) s = Some s' \<and> wf_state s' \<and> volume_at s' v = Some w' \<and>
           (\<forall>q. watch w' q = (if q = p then filter (\<lambda>x. e_addr x \<noteq> e_addr e) (watch w q) else watch w q))"
proof -
  note V = wf_volume [OF assms(1,2)]
  have F: "forest_ok (pDirEntry w)" using V(1) by (simp add: vol_ok_def)
  obtain pos ns where h: "event_home s (e_addr e) = Some (w, pos)" "event_pos w (e_addr e) = Some pos" "at_path w pos ns"
      "map wcs_key ns = p" "e_addr e \<notin> e_addr ` set (closed_events s)"
    using event_home_watch [OF assms] by blast
  let ?es = "filter (\<lambda>x. e_addr x \<noteq> e_addr e) (events_here w pos)"
  let ?w = "clean_up (put_events w pos ?es) pos"
  have s': "NotifyCloseEvent (e_addr e) s = Some (put_volume ?w s)" using h(1,5) by (simp add: NotifyCloseEvent_wf [OF assms(1)])
  have "watch ?w q = (if q = p then filter (\<lambda>x. e_addr x \<noteq> e_addr e) (watch w q) else watch w q)" for q
    using watch_put_events [OF F h(3)] here_path(1) [OF F h(3)] watch_clean_up [OF vol_ok_remove_event(2) [OF V(1)]] h(4) by simp
  moreover have "volume_at (put_volume ?w s) v = Some ?w" using volume_at_put [OF assms(2), of ?w] V(2) by simp
  ultimately show ?thesis using s' wf_close_event [OF assms(1) s'] by blast
qed

section \<open>Reading an event\<close>

lemma no_fault:
  assumes "lim \<le> length b" "\<forall>fi \<in> set fis. sane_info fi" "prev_ok ret prev"
    and "reset_loop lim fis (Some b) ret prev cnt = (rest, buf, r, c, stop)"
  shows "stop \<noteq> Fault"
  using assms
proof (induction fis arbitrary: b ret prev cnt)
  case (Cons fi fis)
  let ?l = "record_size (dwFileNameLen fi)"
  obtain nm where nm: "fi_szFileName fi = Some nm" using Cons.prems(2) by (auto simp: sane_info_def split: option.splits)
  show ?case
  proof (cases "?l + ret \<le> lim")
    case True
    have fit: "ret + 14 + dwFileNameLen fi \<le> length b"
      using True Cons.prems(1) record_size_ge(1) [of "dwFileNameLen fi"] by simp
    define b1 where "b1 = (case prev of None \<Rightarrow> b | Some (p, l) \<Rightarrow> overwrite b p (dword_bytes l))"
    define b2 where "b2 = overwrite b1 ret (record_bytes (dwAction fi) (dwFileNameLen fi) nm)"
    have l1: "length b1 = length b"
      using Cons.prems(3) fit length_overwrite [of _ "dword_bytes _" b]
      by (cases prev) (auto simp: b1_def prev_ok_def)
    have sane: "sane_info fi" using Cons.prems(2) by simp
    have l2: "length b2 = length b"
      using record_parts(5) [OF sane nm, of ret b1] fit l1 by (simp add: b2_def)
    have step: "reset_loop lim fis (Some b2) (ret + ?l) (Some (ret, ?l)) (cnt + 1) = (rest, buf, r, c, stop)"
      using Cons.prems(4) True nm fit by (simp add: Let_def b1_def b2_def add.commute)
    have "prev_ok (ret + ?l) (Some (ret, ?l))"
      using record_size_ge [of "dwFileNameLen fi"] sane by (auto simp: prev_ok_def sane_info_def)
    then show ?thesis using Cons.IH [OF _ _ _ step] Cons.prems(1,2) l2 by simp
  next
    case False
    then show ?thesis using Cons.prems(4) by (auto simp: Let_def)
  qed
qed auto

theorem reset_result:
  assumes "wf_state s" "volume_at s v = Some w" "e \<in> set (watch w p)"
  shows "\<exists>w' s' e' r err. reset_event e d = (e', r, err) \<and> NotifyReset (e_addr e) d s = Some (r, s') \<and> wf_state s' \<and>
           volume_at s' v = Some w' \<and> n_error s' = (case err of None \<Rightarrow> n_error s | Some x \<Rightarrow> x) \<and>
           (\<forall>q. watch w' q = (if q = p then map (\<lambda>x. if e_addr x = e_addr e then e' else x) (watch w q) else watch w q))"
proof -
  note V = wf_volume [OF assms(1,2)]
  have F: "forest_ok (pDirEntry w)" using V(1) by (simp add: vol_ok_def)
  obtain pos ns where h: "event_home s (e_addr e) = Some (w, pos)" "at_path w pos ns"
      "map wcs_key ns = p" "e_addr e \<notin> e_addr ` set (closed_events s)"
    using event_home_watch [OF assms] by blast
  have here: "events_here w pos = watch w p" using here_path(1) [OF F h(2)] h(3) by simp
  obtain e' r err where x: "reset_event e d = (e', r, err)" by (cases "reset_event e d") auto
  have a: "e_addr e' = e_addr e" using reset_event_addr [OF x] .
  have nf: "find (\<lambda>x. e_addr x = e_addr e) (closed_events s) = None" using h(4) by (auto simp: find_None_iff image_iff)
  obtain y where y: "find (\<lambda>x. e_addr x = e_addr e) (watch w p) = Some y"
    using assms(3) by (cases "find (\<lambda>x. e_addr x = e_addr e) (watch w p)") (auto simp: find_None_iff)
  then have "y \<in> set (watch w p)" "e_addr y = e_addr e" by (auto simp: find_Some_iff)
  then have ye: "y = e" using event_one_place [OF vol_lists_distinct(1) [OF assms(1,2)] _ assms(3)] by blast
  let ?w = "put_events w pos (put_event e' (watch w p))"
  have n: "NotifyReset (e_addr e) d s = Some (r, set_error err (put_volume ?w s))"
    using nf h(1) y ye x by (simp add: NotifyReset_wf [OF assms(1)] here)
  have "volume_at (set_error err (put_volume ?w s)) v = Some ?w"
    using volume_at_put [OF assms(2), of ?w] V(2) volume_at_same [of "set_error err (put_volume ?w s)" "put_volume ?w s" v] by simp
  moreover have "watch ?w q = (if q = p then map (\<lambda>x. if e_addr x = e_addr e then e' else x) (watch w q) else watch w q)" for q
    using watch_put_events [OF F h(2)] h(3) a by (auto simp: put_event_def)
  moreover have "n_error (set_error err (put_volume ?w s)) = (case err of None \<Rightarrow> n_error s | Some x \<Rightarrow> x)"
    by (simp add: set_error_def split: option.splits)
  ultimately show ?thesis using x n reset_wf [OF assms(1) n] by blast
qed

section \<open>A section that stays entered\<close>

lemma kept_create_volume:
  assumes "NotifyCreateVolume env nm s = (r, s')"
  shows "kept s s'"
proof -
  obtain a s1 where a: "allocate env s = (a, s1)" by (cases "allocate env s") auto
  obtain n s2 where n: "new_string env nm s1 = (n, s2)" by (cases "new_string env nm s1") auto
  have "kept s1 s2" using kept_commute [of "new_string env nm" s1] n by (simp add: tagged_string)
  then have "kept s s1" "kept s s2" using kept_work(1) [OF a] kept_trans by blast+
  then show ?thesis using assms a n by (auto simp: NotifyCreateVolume_def kept_def split: option.splits)
qed

text \<open>No call leaves a section that it did not enter.\<close>

lemma step_held:
  assumes "notify_step env s s'"
  shows "set (held s) \<subseteq> set (held s')"
  using assms
proof (cases rule: notify_step.cases)
  case (do_create_file ns v r)
  then obtain t where "kept s t" "s' = (if r = None then inside v t else t)" using create_file_section by blast
  then show ?thesis by (auto simp: kept_def held_inside)
next
  case (do_create_event ns v proc subtree dwFlags h)
  then obtain t where "kept s t" "s' = (if h = None then inside v t else t)" using create_event_section by blast
  then show ?thesis by (auto simp: kept_def held_inside)
next
  case (do_handle_change v h dwFlags)
  then have "kept s s'" using kept_handle_change handle_change_enters unfolding NotifyHandleChange_def by blast
  then show ?thesis by (simp add: kept_def)
next
  case (do_path_change ns v bPath act)
  then have "kept s s'" using kept_path path_enters by blast
  then show ?thesis by (simp add: kept_def)
qed (auto simp: kept_def dest: kept_create_volume kept_delete_volume kept_close_handle kept_move kept_calls)

text \<open>Any calls of any threads, with or without memory.\<close>

definition notify_runs :: "NotifyState \<Rightarrow> NotifyState \<Rightarrow> bool" where
  "notify_runs = (\<lambda>s s'. \<exists>env. notify_step env s s')\<^sup>*\<^sup>*"

lemma runs_held: "notify_runs s s' \<Longrightarrow> set (held s) \<subseteq> set (held s')"
  unfolding notify_runs_def by (induction rule: rtranclp_induct) (use step_held in blast)+

text \<open>Every call of the current thread that needs the section of the volume waits for it.\<close>

definition volume_waits :: "not_env \<Rightarrow> nat \<Rightarrow> NotifyState \<Rightarrow> bool" where
  "volume_waits env v s \<longleftrightarrow>
     NotifyDeleteVolume env v s = None \<and>
     (\<forall>x. NotifyCreateFile env v x s = None) \<and>
     (\<forall>proc x subtree dwFlags. NotifyCreateEvent env v proc x subtree dwFlags s = None) \<and>
     (\<forall>h. h \<noteq> 0 \<longrightarrow> NotifyCloseHandle env v h s = None) \<and>
     (\<forall>h dwFlags. NotifyHandleChange env v h dwFlags s = None) \<and>
     (\<forall>x bPath act. NotifyPathChange env v x bPath act s = None) \<and>
     (\<forall>x y. NotifyMoveFile env v x y s = None) \<and>
     (\<forall>a w pos d. event_home s a = Some (w, pos) \<and> v_addr w = v \<and> a \<notin> e_addr ` set (closed_events s) \<longrightarrow>
        NotifyCloseEvent a s = None \<and> NotifyReset a d s = None)"

lemma volume_waitsI:
  assumes "v \<noteq> 0" "(t, v) \<in> set (held s)" "n_thread s \<noteq> t"
  shows "volume_waits env v s"
proof -
  have n: "\<not> can_enter v s" using assms by (force simp: can_enter_def section_free_def)
  then have e: "ENTERNOTIFY v s = None" by (simp add: enter_waits)
  have "NotifyCloseHandle env v h s = None" if h: "h \<noteq> 0" for h
  proof (rule ccontr)
    assume "NotifyCloseHandle env v h s \<noteq> None"
    then obtain s1 t where "s1 = s \<or> (\<exists>f a. NotifyHandleChangeEx env v h f a s = Some s1)" "ENTERNOTIFY v s1 = Some t"
      using h unfolding NotifyCloseHandle_def by (auto simp: bind_eq_Some_conv split: if_splits)
    then show False using e handle_change_enters n by auto
  qed
  moreover have "find (\<lambda>e. e_addr e = a) (closed_events s) = None" if "a \<notin> e_addr ` set (closed_events s)" for a
    using that by (auto simp: find_None_iff image_iff)
  ultimately show ?thesis
    using assms(1) e
    by (auto simp: volume_waits_def NotifyDeleteVolume_def NotifyCreateFile_def NotifyCreateEvent_def NotifyHandleChange_def
        NotifyHandleChangeEx_def NotifyPathChange_def NotifyMoveFile_def NotifyCloseEvent_def NotifyReset_def Let_def
        split: option.splits bind_splits)
qed

end
