(* ===== verification/Notify_Paths.thy ===== *)
theory Notify_Paths
  imports Notify_Total
begin

text \<open>
  What every watcher does on a change of any path: of a file, of a directory that is known or not, and
  on the removal of a directory, in all cases that the code distinguishes.
\<close>

section \<open>Every change of a path\<close>

text \<open>The longest known part of a path.\<close>

definition known_part :: "string list \<Rightarrow> NOTDIRENTRY list \<Rightarrow> string list" where
  "known_part ns ds = take (length (reach ns ds)) ns"

lemma known_known_part: "known (known_part ns ds) ds" "reach (known_part ns ds) ds = reach ns ds"
  using reach_take [of ns ds] length_reach [of ns ds] by (auto simp: known_part_def known_def)

lemma length_known_part: "length (known_part ns ds) = length (reach ns ds)"
  using length_reach [of ns ds] by (simp add: known_part_def)

lemma known_part_all: "known_part ns ds = ns \<longleftrightarrow> known ns ds"
  by (metis known_def known_part_def length_known_part take_all_iff le_refl)

text \<open>
  The directory whose own watchers are told that it was removed: the one the path names when it is
  known.  Else the code compares what stands behind the first unknown name with the name of the
  deepest known directory, and tells that directory when they are alike.
\<close>

definition own_told :: "bool \<Rightarrow> nat \<Rightarrow> string list \<Rightarrow> NOTDIRENTRY list \<Rightarrow> nat list list option" where
  "own_told bPath act ns ds =
     (let ms = known_part ns ds; rest = drop (Suc (length ms)) ns
      in if \<not> removing bPath act then None
         else if ms = ns then Some (map wcs_key ns)
         else if rest \<noteq> [] \<and> Option.bind (node_of (map wcs_key ms) ds) szDirectory = Some (join rest)
         then Some (map wcs_key ms) else None)"

text \<open>Where the change is told from, with the name that is queued there.\<close>

definition change_place :: "bool \<Rightarrow> nat \<Rightarrow> string list \<Rightarrow> NOTDIRENTRY list \<Rightarrow> nat list list \<times> string option" where
  "change_place bPath act ns ds =
     (if bPath \<and> \<not> removing bPath act \<and> known_part ns ds = ns
      then (map wcs_key ns, Option.bind (node_of (map wcs_key ns) ds) szDirectory)
      else (map wcs_key (butlast ns), Some (last ns)))"

definition told_change :: "bool \<Rightarrow> nat \<Rightarrow> string list \<Rightarrow> NOTDIRENTRY list \<Rightarrow> nat list list \<Rightarrow> NOTEVENTENTRY \<Rightarrow> NOTEVENTENTRY" where
  "told_change bPath act ns ds q e =
     (let (p, nm) = change_place bPath act ns ds
      in reaction (path_flag bPath) p nm act q
           (if own_told bPath act ns ds = Some q
            then reaction FILE_NOTIFY_CHANGE_DIR_NAME q (Some [backslash]) FILE_ACTION_REMOVED q e else e))"

text \<open>The name that the first search of a removal returns for an unknown directory.\<close>

lemma find_rest:
  assumes "ample env" "names_ok ns" "\<not> known ns ds"
  shows "\<exists>s'. dir_loop env True True False (join ns) True pc ds s =
            ((Some (reach ns ds), if drop (Suc (length (reach ns ds))) ns = [] then None
                                  else Some (join (drop (Suc (length (reach ns ds))) ns)), True), ds, s') \<and> later s s'"
  using assms(2,3)
proof (induction ns arbitrary: pc ds s)
  case (Cons n ns)
  have ok: "names_ok ns" using Cons.prems by simp
  show ?case
  proof (cases "has_slot n ds")
    case True
    then have k: "\<not> known ns (pChild (ds ! slot n ds))" using Cons.prems(2) by simp
    then have ne: "ns \<noteq> []" by auto
    show ?thesis
      using loop_found [OF Cons.prems(1) _ True, of True env True True False pc s] True
        Cons.IH [OF ok k, of "Some (ds ! slot n ds)" s] ne by (auto simp: at_child_def)
  next
    case False
    obtain x s' where nf: "not_found env True False n (join ns) s = ((x, True), s')"
      by (cases "not_found env True False n (join ns) s") (auto simp: not_found_def Let_def split: prod.splits)
    have "x = (if ns = [] then None else Some (join ns))"
      using nf join_Nil [OF ok] ample_string [OF assms(1), of "join ns" s]
      by (auto simp: not_found_def Let_def split: prod.splits if_splits)
    then show ?thesis
      using loop_missing [OF Cons.prems(1) _ False, of True env True False pc s] nf later_not_found [OF nf] False by simp
  qed
qed simp

lemma find_entry_rest:
  assumes "ample env" "names_ok ns" "\<not> known ns (pDirEntry w)"
  shows "\<exists>s'. InsertOrFindDirEntry env w (replicate k backslash @ join ns) True True True False s =
            ((reach ns (pDirEntry w), if drop (Suc (length (reach ns (pDirEntry w)))) ns = [] then None
               else Some (join (drop (Suc (length (reach ns (pDirEntry w)))) ns)), True), w, True, s') \<and> later s s'"
proof -
  obtain a s1 where a: "allocate env s = (Some a, s1)" using ample_allocate [OF assms(1)] by blast
  show ?thesis
    using find_rest [OF assms, of None s1] a join_hd [OF assms(2), of k] later_trans [OF later_allocate [OF a]]
    by (auto simp: InsertOrFindDirEntry_def Let_def)
qed

text \<open>The second half of every change: the watchers of the directory above are told.\<close>

lemma tell_above:
  fixes ns :: "string list"
  assumes "ample env" "forest_ok (pDirEntry w)"
  defines "pos \<equiv> reach (butlast ns) (pDirEntry w)" and "sub \<equiv> known (butlast ns) (pDirEntry w)"
  shows "\<exists>w2 s'. (if sub then add_file env w pos nm f act s else (w, s)) = (w2, s') \<and> later s s' \<and>
           same_volume w (tell_up (checked f) w2 pos sub) \<and>
           (\<forall>q. watch (tell_up (checked f) w2 pos sub) q = map (reaction f (map wcs_key (butlast ns)) nm act q) (watch w q))"
proof (cases sub)
  case True
  obtain s2 where a: "add_file env w pos nm f act s = (put_events w pos (queued f nm act (events_here w pos)), s2)" and l: "later s s2"
    using ample_add_file [OF assms(1)] by blast
  show ?thesis
    using True a l watch_told_file [OF assms(2), of "butlast ns" f nm act] same_told_file [of w f pos nm act]
    by (auto simp: told_file_def pos_def sub_def)
next
  case False
  then show ?thesis using watch_tell_up [OF assms(2), of "butlast ns" f] same_tell_up by (auto simp: pos_def sub_def)
qed

lemma node_known_part:
  assumes "forest_ok ds"
  shows "node_of (map wcs_key (known_part ns ds)) ds = node_at (reach ns ds) ds"
  using node_of_reach [OF assms known_known_part(1), of ns] by (simp add: known_known_part(2))

lemma path_change_unknown:
  assumes "ample env" "names_ok ns" "ns \<noteq> []" "forest_ok (pDirEntry w)" "removing bPath act" "\<not> known ns (pDirEntry w)"
  shows "\<exists>w' s'. path_change env w (replicate k backslash @ join ns) bPath act s = (w', s') \<and> later s s' \<and> same_volume w w' \<and>
           (\<forall>q. watch w' q = map (told_change bPath act ns (pDirEntry w) q) (watch w q))"
proof -
  let ?F = "pDirEntry w"
  let ?D = FILE_NOTIFY_CHANGE_DIR_NAME
  let ?pos = "reach ns ?F"
  let ?ms = "known_part ns ?F"
  let ?rest = "drop (Suc (length ?pos)) ns"
  define nm0 where "nm0 = (if ?rest = [] then None else Some (join ?rest))"
  have b: bPath using assms(5) by (simp add: removing_def)
  have unk: "?ms \<noteq> ns" using assms(6) known_part_all by blast
  obtain s1 where i: "InsertOrFindDirEntry env w (replicate k backslash @ join ns) True True True False s = ((?pos, nm0, True), w, True, s1)"
      and l1: "later s s1"
    using find_entry_rest [OF assms(1,2,6)] unfolding nm0_def by blast
  have at: "at_path w ?pos ?ms" using known_known_part [of ns ?F] by (simp add: at_path_def)
  define own where "own = (case node_at ?pos ?F of None \<Rightarrow> False | Some d \<Rightarrow> nm0 \<noteq> None \<and> nm0 = szDirectory d)"
  have o1: "own_told bPath act ns ?F = (if own then Some (map wcs_key ?ms) else None)"
    using assms(5) unk node_known_part [OF assms(4), of ns]
    by (auto simp: own_told_def own_def nm0_def length_known_part Let_def split: option.splits)
  define r where "r = (if own
                  then let (w, s) = add_file env w ?pos (Some [backslash]) ?D FILE_ACTION_REMOVED s1
                       in (put_events w ?pos (CheckEventOnPath True bPath (events_here w ?pos)), s)
                  else (w, s1))"
  define first where "first = (\<lambda>q e. if own_told bPath act ns ?F = Some q
      then reaction ?D q (Some [backslash]) FILE_ACTION_REMOVED q e else e)"
  have r: "\<exists>w2 s2. r = (w2, s2) \<and> later s1 s2 \<and> same_volume w w2 \<and> (\<forall>q. watch w2 q = map (first q) (watch w q))"
  proof (cases own)
    case False
    then show ?thesis by (simp add: r_def first_def o1)
  next
    case True
    let ?q = "queued ?D (Some [backslash]) FILE_ACTION_REMOVED (events_here w ?pos)"
    obtain s2 where a: "add_file env w ?pos (Some [backslash]) ?D FILE_ACTION_REMOVED s1 = (put_events w ?pos ?q, s2)" and l2: "later s1 s2"
      using ample_add_file [OF assms(1)] by blast
    let ?w2 = "put_events w ?pos (checked ?D True ?q)"
    have here: "events_here (put_events w ?pos ?q) ?pos = ?q" by (rule here_put_events [OF assms(4) at])
    have "r = (?w2, s2)" using True a here b by (simp add: r_def CheckEventOnPath_eq put_events_twice)
    moreover have "same_volume w ?w2" by (rule same_put_events) simp
    moreover have "watch ?w2 q = map (first q) (watch w q)" for q
      using True watch_put_events [OF assms(4) at] here_path(1) [OF assms(4) at]
      by (auto simp: first_def o1 checked_def queued_def reaction_def sees_def Let_def)
    ultimately show ?thesis using l2 by blast
  qed
  then obtain w2 s2 where w2: "r = (w2, s2)" "later s1 s2" "same_volume w w2" "\<forall>q. watch w2 q = map (first q) (watch w q)"
    by blast
  note V = same_volume_ok [OF w2(3)]
  have F2: "forest_ok (pDirEntry w2)" using V(1) assms(4) by simp
  obtain nm l' s3 where i2: "InsertOrFindDirEntry env w2 (replicate k backslash @ join ns) True False True True s2 =
        ((reach (butlast ns) (pDirEntry w2), nm, known (butlast ns) (pDirEntry w2)), w2, l', s3)" and l3: "later s2 s3"
      and nm: "known (butlast ns) (pDirEntry w2) \<longrightarrow> nm = Some (last ns)"
    using find_entry [OF assms(2), of env w2 k True False True s2] assms(1,3) by (auto simp: dirs_of_def)
  let ?pos2 = "reach (butlast ns) (pDirEntry w2)"
  let ?sub = "known (butlast ns) (pDirEntry w2)"
  have e: "(if ?sub then add_file env w2 ?pos2 nm ?D act s3 else (w2, s3)) = (if ?sub then add_file env w2 ?pos2 (Some (last ns)) ?D act s3 else (w2, s3))"
    using nm by simp
  obtain w4 s4 where a2: "(if ?sub then add_file env w2 ?pos2 nm ?D act s3 else (w2, s3)) = (w4, s4)" "later s3 s4"
      "same_volume w2 (tell_up (checked ?D) w4 ?pos2 ?sub)"
      "\<forall>q. watch (tell_up (checked ?D) w4 ?pos2 ?sub) q = map (reaction ?D (map wcs_key (butlast ns)) (Some (last ns)) act q) (watch w2 q)"
    using tell_above [OF assms(1) F2, of "butlast ns", unfolded butlast_snoc] tell_above [OF assms(1) F2, of ns "Some (last ns)" ?D act s3] unfolding e by blast
  have bT: "bPath = True" using b by simp
  have p1: "path_change env w (replicate k backslash @ join ns) bPath act s =
      (case r of (w, s) \<Rightarrow>
         let ((pos, nm, bSubTree), w, _, s) = InsertOrFindDirEntry env w (replicate k backslash @ join ns) True False True True s;
             (w, s) = (if bSubTree then add_file env w pos nm ?D act s else (w, s))
         in (tell_up (\<lambda>b. CheckEventOnPath b True) w pos bSubTree, s))"
    unfolding path_change_def if_P [OF assms(5) [unfolded removing_def]]
    unfolding r_def own_def bT Let_def i prod.case if_True by (rule refl)
  have p: "path_change env w (replicate k backslash @ join ns) bPath act s = (tell_up (checked ?D) w4 ?pos2 ?sub, s4)"
    unfolding p1 w2(1) i2 Let_def prod.case a2(1) by (simp add: CheckEventOnPath_eq)
  have "watch (tell_up (checked ?D) w4 ?pos2 ?sub) q = map (told_change bPath act ns ?F q) (watch w q)" for q
    using a2(4) w2(4) b assms(5) by (simp add: told_change_def change_place_def first_def path_flag_def comp_def)
  moreover have "later s s4" using l1 w2(2) l3 a2(2) by (meson later_trans)
  ultimately show ?thesis using p same_volume_trans [OF w2(3) a2(3)] by blast
qed

text \<open>All cases.\<close>

lemma path_change_told:
  assumes "ample env" "names_ok ns" "ns \<noteq> []" "forest_ok (pDirEntry w)"
  shows "\<exists>w' s'. path_change env w (replicate k backslash @ join ns) bPath act s = (w', s') \<and> later s s' \<and> same_volume w w' \<and>
           (\<forall>q. watch w' q = map (told_change bPath act ns (pDirEntry w) q) (watch w q))"
proof -
  let ?F = "pDirEntry w"
  consider (above) "\<not> removing bPath act" "bPath \<Longrightarrow> \<not> known ns ?F" | (added) "\<not> removing bPath act" "bPath" "known ns ?F"
    | (removed) "removing bPath act" "known ns ?F" | (unknown) "removing bPath act" "\<not> known ns ?F"
    by blast
  then show ?thesis
  proof cases
    case above
    have "own_told bPath act ns ?F = None" using above(1) by (simp add: own_told_def Let_def)
    moreover have "change_place bPath act ns ?F = (map wcs_key (butlast ns), Some (last ns))"
      using above known_part_all by (auto simp: change_place_def)
    ultimately have "told_change bPath act ns ?F = reaction (path_flag bPath) (map wcs_key (butlast ns)) (Some (last ns)) act"
      by (intro ext) (simp add: told_change_def)
    then show ?thesis using path_change_watch [OF assms above] by simp
  next
    case added
    have nr: "\<not> removing True act" using added(1,2) by simp
    let ?pos = "reach ns ?F"
    have at: "at_path w ?pos ns" using added(3) by (simp add: at_path_def)
    have pn: "?pos \<noteq> []" using at_path_Nil [OF at] assms(3) by simp
    obtain d where d: "node_at ?pos ?F = Some d" "node_of (map wcs_key ns) ?F = Some d" using at_path_node [OF assms(4) at assms(3)] by blast
    obtain l s1 where f: "InsertOrFindDirEntry env w (replicate k backslash @ join ns) True True True True s =
          ((?pos, szDirectory d, True), w, l, s1)" and l1: "later s s1"
      using find_entry [OF assms(2), of env w k True True True s] assms(1) added(3) known_butlast [OF added(3)] d pn
      by (auto simp: dirs_of_def current_def)
    obtain s2 where a: "add_file env w ?pos (szDirectory d) FILE_NOTIFY_CHANGE_DIR_NAME act s1 =
        (put_events w ?pos (queued FILE_NOTIFY_CHANGE_DIR_NAME (szDirectory d) act (events_here w ?pos)), s2)" and l2: "later s1 s2"
      using ample_add_file [OF assms(1)] by blast
    have p: "path_change env w (replicate k backslash @ join ns) bPath act s = (told_file FILE_NOTIFY_CHANGE_DIR_NAME w ?pos (szDirectory d) act, s2)"
      using f a added(2) unfolding path_change_def if_not_P [OF added(1) [unfolded removing_def]]
      by (simp add: told_file_def CheckEventOnPath_eq)
    have "told_change bPath act ns ?F = reaction FILE_NOTIFY_CHANGE_DIR_NAME (map wcs_key ns) (szDirectory d) act"
      using added nr d known_part_all [of ns ?F] by (intro ext) (simp add: told_change_def own_told_def change_place_def path_flag_def Let_def)
    then show ?thesis
      using p watch_told_file [OF assms(4) added(3)] same_told_file later_trans [OF l1 l2] by auto
  next
    case removed
    have t: "told_change bPath act ns ?F q = (\<lambda>e. reaction FILE_NOTIFY_CHANGE_DIR_NAME (map wcs_key (butlast ns)) (Some (last ns)) act q
        (if q = map wcs_key ns then reaction FILE_NOTIFY_CHANGE_DIR_NAME (map wcs_key ns) (Some [backslash]) FILE_ACTION_REMOVED q e else e))" for q
      using removed known_part_all [of ns ?F]
      by (intro ext) (auto simp: told_change_def own_told_def change_place_def path_flag_def removing_def Let_def)
    show ?thesis unfolding t by (rule remove_known [OF assms removed])
  next
    case unknown
    then show ?thesis using path_change_unknown [OF assms] by blast
  qed
qed

theorem path_change_all:
  assumes "ample env" "names_ok ns" "ns \<noteq> []" "wf_state s" "volume_at s v = Some w"
  shows "\<exists>w' s'. NotifyPathChange env v (replicate k backslash @ join ns) bPath act s = Some s' \<and> wf_state s' \<and> volume_at s' v = Some w' \<and>
           same_volume w w' \<and> (\<forall>u. u \<noteq> v \<longrightarrow> volume_at s' u = volume_at s u) \<and>
           (\<forall>q. watch w' q = map (told_change bPath act ns (pDirEntry w) q) (watch w q))"
proof -
  have F: "forest_ok (pDirEntry w)" using wf_volume [OF assms(4,5)] by (simp add: vol_ok_def)
  obtain w' s1 where p: "path_change env w (replicate k backslash @ join ns) bPath act s = (w', s1)" "later s s1" "same_volume w w'"
      "\<forall>q. watch w' q = map (told_change bPath act ns (pDirEntry w) q) (watch w q)"
    using path_change_told [OF assms(1-3) F] by blast
  have n: "NotifyPathChange env v (replicate k backslash @ join ns) bPath act s = Some (put_volume w' s1)"
    using assms(5) p(1) by (simp add: NotifyPathChange_wf [OF assms(4)])
  have va: "v_addr w' = v" using p(3) wf_volume(2) [OF assms(4,5)] by (simp add: same_volume_def)
  have "volume_at (put_volume w' s1) v = Some w'"
    using volume_at_put [of s1 v w w'] volume_at_same [OF later_same(1) [OF p(2)]] assms(5) va by simp
  moreover have "volume_at (put_volume w' s1) u = volume_at s u" if "u \<noteq> v" for u
    using volume_at_other [of w' u s1] that va volume_at_same [OF later_same(1) [OF p(2)]] by simp
  ultimately show ?thesis using n path_change_wf [OF assms(1,2,4) n] p(3,4) by blast
qed

end
