(* ===== verification/Notify_Theorems.thy ===== *)
theory Notify_Theorems
  imports Notify_Paths
begin

text \<open>
  The properties of the change notification, each with a concrete case, and the cases in which the
  code goes wrong.
\<close>

section \<open>A small volume\<close>

text \<open>A directory \<open>a\<close> with a watcher that collects names, a watcher of the whole volume, and an open file.\<close>

definition mem_env :: not_env where
  "mem_env = \<lparr>n_refuse = (\<lambda>_. False), n_attributes = (\<lambda>_. None), n_eventdata = (\<lambda>_. 0)\<rparr>"

definition demo_flags :: DWORD where "demo_flags = 0x8000001F"

definition demo_volume :: NOTVOLENTRY where
  "demo_volume = \<lparr>v_addr = 1, szVolumeName = Some ''d'',
     pDirEntry = [NOTDIRENTRY (Some ''a'') [new_event 2 7 demo_flags False 20 30]
       [\<lparr>h_addr = 4, h_changed = False, h_szFileName = Some ''f'', name_set = True\<rparr>] []],
     v_pEvents = [new_event 3 7 demo_flags True 21 31], v_pHandles = []\<rparr>"

definition demo_state :: NotifyState where
  "demo_state = \<lparr>g_pRootVolume = [demo_volume], closed_events = [], held = [], n_thread = 0, n_tick = 0, n_next = 50, n_error = 0\<rparr>"

lemma mem_ample: "ample mem_env" by (simp add: ample_def mem_env_def)

lemma demo_wf: "wf_state demo_state"
  by (simp add: wf_state_def demo_state_def demo_volume_def vol_ok_def state_events_def state_handles_def
      vol_events_def vol_handles_def new_event_def)

lemma demo_volume_at: "volume_at demo_state 1 = Some demo_volume"
  by (simp add: volume_at_def demo_state_def demo_volume_def)

lemma demo_names: "names_ok [''A'', ''f'']" "names_ok [''A'', ''g'']" "names_ok [''a'']" "names_ok [''b'', ''c'']"
  by (simp_all add: names_ok_def backslash_def)

lemma demo_keys: "wcs_key ''a'' = [97]" "wcs_key ''A'' = [97]"
  by (simp_all add: wcs_key_def fold_case_def)

lemma demo_watch: "watch demo_volume [[97]] = [new_event 2 7 demo_flags False 20 30]" "watch demo_volume [] = [new_event 3 7 demo_flags True 21 31]"
  by (simp_all add: watch_def demo_volume_def child_of_def demo_keys)

lemma demo_flag: "demo_flags AND FILE_NOTIFY_CHANGE_FILE_NAME \<noteq> 0" "demo_flags AND FILE_NOTIFY_CHANGE_DIR_NAME \<noteq> 0"
  "demo_flags AND FILE_NOTIFY_CHANGE_SIZE \<noteq> 0" "demo_flags AND FILE_NOTIFY_CHANGE_CEGETINFO \<noteq> 0"
  by (simp_all add: demo_flags_def FILE_NOTIFY_CHANGE_FILE_NAME_def FILE_NOTIFY_CHANGE_DIR_NAME_def
      FILE_NOTIFY_CHANGE_SIZE_def FILE_NOTIFY_CHANGE_CEGETINFO_def)

lemmas demo_simps = demo_keys demo_watch demo_flag new_event_def reaction_def sees_def queue_info_def count_change_def path_flag_def

section \<open>Changes\<close>

text \<open>C27.  With memory, a change of any path always ends, and every watcher of the volume does what
  \<open>told_change\<close> says; other volumes do not change.  The watchers of the directory above the last name, and
  those further up that watch their subtree, count one more when their flags ask for the change and are
  signalled when they were at 0; those of the directory itself that collect names get the name and the
  action.  Case is ignored.  For a directory that is watched or holds open files and is not removed, the same is done from
  itself, with its own name.  When a directory is removed its own watchers are told first that the
  backslash was removed; when it is not known, those of the deepest known directory of the path are
  told so instead if it has the name that stands behind the first unknown one.\<close>
theorem path_change_notifies:
  assumes "ample env" "names_ok ns" "ns \<noteq> []" "wf_state s" "volume_at s v = Some w"
  shows "\<exists>w' s'. NotifyPathChange env v (path_of ns) bPath act s = Some s' \<and> wf_state s' \<and> volume_at s' v = Some w' \<and>
           (\<forall>u. u \<noteq> v \<longrightarrow> volume_at s' u = volume_at s u) \<and>
           (\<forall>q. watch w' q = map (told_change bPath act ns (pDirEntry w) q) (watch w q))"
  using path_change_all [OF assms, of 1] unfolding path_of_rep by blast

lemma path_change_notifies_witness:
  "\<exists>w1 s1 w2 s2 w3 s3.
     NotifyPathChange mem_env 1 (path_of [''A'', ''f'']) False FILE_ACTION_ADDED demo_state = Some s1 \<and> volume_at s1 1 = Some w1 \<and>
     map dwCount (watch w1 [wcs_key ''a'']) = [1] \<and> map dwCount (watch w1 []) = [1] \<and>
     map (map dwAction \<circ> pFileInfo) (watch w1 [wcs_key ''a'']) = [[1]] \<and> map pFileInfo (watch w1 []) = [[]] \<and>
     NotifyPathChange mem_env 1 (path_of [''A'']) True FILE_ACTION_REMOVED demo_state = Some s2 \<and> volume_at s2 1 = Some w2 \<and>
     map dwCount (watch w2 [wcs_key ''a'']) = [1] \<and> map dwCount (watch w2 []) = [1] \<and>
     NotifyPathChange mem_env 1 (path_of [''a'', ''x'', ''a'']) True FILE_ACTION_REMOVED demo_state = Some s3 \<and> volume_at s3 1 = Some w3 \<and>
     map (map dwAction \<circ> pFileInfo) (watch w3 [wcs_key ''a'']) = [[2]]"
proof -
  have n: "names_ok [''A'']" "names_ok [''a'', ''x'', ''a'']" by (simp_all add: names_ok_def backslash_def)
  have k: "known_part [''A'', ''f''] (pDirEntry demo_volume) = [''A'']" "known_part [''A''] (pDirEntry demo_volume) = [''A'']"
    "known_part [''a'', ''x'', ''a''] (pDirEntry demo_volume) = [''a'']"
    by (simp_all add: known_part_def demo_volume_def has_slot_def slot_def name_above_def same_name_def demo_keys)
  note P = path_change_notifies [OF mem_ample _ _ demo_wf demo_volume_at]
  let ?r = "\<lambda>b a ns q. map (told_change b a ns (pDirEntry demo_volume) q) (watch demo_volume q)"
  obtain w1 s1 where r1: "NotifyPathChange mem_env 1 (path_of [''A'', ''f'']) False FILE_ACTION_ADDED demo_state = Some s1"
      "volume_at s1 1 = Some w1" "\<forall>q. watch w1 q = ?r False FILE_ACTION_ADDED [''A'', ''f''] q"
    using P [OF demo_names(1), of False FILE_ACTION_ADDED] by auto
  obtain w2 s2 where r2: "NotifyPathChange mem_env 1 (path_of [''A'']) True FILE_ACTION_REMOVED demo_state = Some s2"
      "volume_at s2 1 = Some w2" "\<forall>q. watch w2 q = ?r True FILE_ACTION_REMOVED [''A''] q"
    using P [OF n(1), of True FILE_ACTION_REMOVED] by auto
  obtain w3 s3 where r3: "NotifyPathChange mem_env 1 (path_of [''a'', ''x'', ''a'']) True FILE_ACTION_REMOVED demo_state = Some s3"
      "volume_at s3 1 = Some w3" "\<forall>q. watch w3 q = ?r True FILE_ACTION_REMOVED [''a'', ''x'', ''a''] q"
    using P [OF n(2), of True FILE_ACTION_REMOVED] by auto
  note S = told_change_def own_told_def change_place_def removing_def k demo_simps FILE_ACTION_ADDED_def
    FILE_ACTION_REMOVED_def FILE_ACTION_RENAMED_OLD_NAME_def FILE_ACTION_RENAMED_NEW_NAME_def Let_def
  have "map dwCount (?r False FILE_ACTION_ADDED [''A'', ''f''] [wcs_key ''a'']) = [1] \<and> map dwCount (?r False FILE_ACTION_ADDED [''A'', ''f''] []) = [1] \<and>
      map (map dwAction \<circ> pFileInfo) (?r False FILE_ACTION_ADDED [''A'', ''f''] [wcs_key ''a'']) = [[1]] \<and>
      map pFileInfo (?r False FILE_ACTION_ADDED [''A'', ''f''] []) = [[]]"
    by (simp add: S)
  moreover have "map dwCount (?r True FILE_ACTION_REMOVED [''A''] [wcs_key ''a'']) = [1] \<and> map dwCount (?r True FILE_ACTION_REMOVED [''A''] []) = [1]"
    by (simp add: S)
  moreover have "node_of [wcs_key ''a''] (pDirEntry demo_volume) \<noteq> None \<and>
      szDirectory (the (node_of [wcs_key ''a''] (pDirEntry demo_volume))) = Some ''a''"
    by (simp add: demo_volume_def child_of_def)
  then have "map (map dwAction \<circ> pFileInfo) (?r True FILE_ACTION_REMOVED [''a'', ''x'', ''a''] [wcs_key ''a'']) = [[2]]"
    by (auto simp: S)
  ultimately show ?thesis using r1 r2 r3
    by (intro exI [of _ w1] exI [of _ s1] exI [of _ w2] exI [of _ s2] exI [of _ w3] exI [of _ s3]) (simp only: simp_thms)
qed

text \<open>C28.  With memory, a change through an open file is told by the same rule, from the directory the
  file was opened in; the handle is known, so the call always ends.\<close>
theorem handle_change_notifies:
  assumes "ample env" "wf_state s" "volume_at s v = Some w" "x \<in> set (opened w p)" "name_set x"
  shows "\<exists>w' s'. NotifyHandleChange env v (h_addr x) dwFlags s = Some s' \<and> wf_state s' \<and> volume_at s' v = Some w' \<and>
           (\<forall>q. watch w' q = map (reaction dwFlags p (h_szFileName x) FILE_ACTION_MODIFIED q) (watch w q))"
  unfolding NotifyHandleChange_def by (rule handle_change_result [OF assms])

lemma handle_change_notifies_witness:
  "\<exists>w' s'. NotifyHandleChange mem_env 1 4 FILE_NOTIFY_CHANGE_SIZE demo_state = Some s' \<and>
     volume_at s' 1 = Some w' \<and> map dwCount (watch w' [wcs_key ''a'']) = [1] \<and> map signalled (watch w' []) = [True]"
proof -
  let ?x = "\<lparr>h_addr = 4, h_changed = False, h_szFileName = Some ''f'', name_set = True\<rparr>"
  let ?r = "\<lambda>q. map (reaction FILE_NOTIFY_CHANGE_SIZE [wcs_key ''a''] (Some ''f'') FILE_ACTION_MODIFIED q) (watch demo_volume q)"
  have x: "?x \<in> set (opened demo_volume [wcs_key ''a''])"
    by (simp add: opened_def demo_volume_def child_of_def)
  obtain w' s' where r: "NotifyHandleChange mem_env 1 4 FILE_NOTIFY_CHANGE_SIZE demo_state = Some s'"
      "volume_at s' 1 = Some w'" "\<forall>q. watch w' q = ?r q"
    using handle_change_notifies [OF mem_ample demo_wf demo_volume_at x, of FILE_NOTIFY_CHANGE_SIZE] by auto
  have "map dwCount (?r [wcs_key ''a'']) = [1] \<and> map signalled (?r []) = [True]"
    by (simp add: demo_simps FILE_ACTION_ADDED_def FILE_ACTION_RENAMED_OLD_NAME_def FILE_ACTION_RENAMED_NEW_NAME_def)
  then show ?thesis using r by (intro exI [of _ w'] exI [of _ s']) (simp only: simp_thms)
qed

text \<open> With memory, the removal of a directory that is watched or holds open files is told to its own
  watchers as the removal of the backslash, and then to those of the directory above as the removal
  of the name.\<close>
theorem directory_removal_notifies:
  assumes "ample env" "names_ok ns" "ns \<noteq> []" "wf_state s" "volume_at s v = Some w" "removing True act"
    and "node_of (map wcs_key ns) (pDirEntry w) \<noteq> None"
  shows "\<exists>w' s'. NotifyPathChange env v (path_of ns) True act s = Some s' \<and> wf_state s' \<and> volume_at s' v = Some w' \<and>
           (\<forall>q. watch w' q =
              map (\<lambda>e. reaction FILE_NOTIFY_CHANGE_DIR_NAME (map wcs_key (butlast ns)) (Some (last ns)) act q
                     (if q = map wcs_key ns
                      then reaction FILE_NOTIFY_CHANGE_DIR_NAME (map wcs_key ns) (Some [backslash]) FILE_ACTION_REMOVED q e
                      else e)) (watch w q))"
proof -
  have F: "forest_ok (pDirEntry w)" using wf_volume [OF assms(4,5)] by (simp add: vol_ok_def)
  obtain w' s1 where p: "path_change env w (replicate 1 backslash @ join ns) True act s = (w', s1)" "later s s1" "same_volume w w'"
      "\<forall>q. watch w' q =
              map (\<lambda>e. reaction FILE_NOTIFY_CHANGE_DIR_NAME (map wcs_key (butlast ns)) (Some (last ns)) act q
                     (if q = map wcs_key ns
                      then reaction FILE_NOTIFY_CHANGE_DIR_NAME (map wcs_key ns) (Some [backslash]) FILE_ACTION_REMOVED q e
                      else e)) (watch w q)"
    using remove_known [OF assms(1-3) F assms(6) known_node [OF F assms(7)], of 1 s] by blast
  have n: "NotifyPathChange env v (path_of ns) True act s = Some (put_volume w' s1)"
    using assms(5) p(1) by (simp add: NotifyPathChange_wf [OF assms(4)] path_of_rep)
  have va: "v_addr w' = v" using p(3) wf_volume(2) [OF assms(4,5)] by (simp add: same_volume_def)
  have "volume_at (put_volume w' s1) v = Some w'"
    using volume_at_put [of s1 v w w'] volume_at_same [OF later_same(1) [OF p(2)]] assms(5) va by simp
  then show ?thesis using n path_change_wf [OF assms(1,2,4) n [unfolded path_of_rep]] p(4) by blast
qed

lemma directory_removal_notifies_witness:
  "\<exists>w' s'. NotifyPathChange mem_env 1 (path_of [''a'']) True FILE_ACTION_REMOVED demo_state = Some s' \<and>
     volume_at s' 1 = Some w' \<and> map dwCount (watch w' [wcs_key ''a'']) = [1] \<and> map dwCount (watch w' []) = [1]"
proof -
  let ?r = "\<lambda>q. map (\<lambda>e. reaction FILE_NOTIFY_CHANGE_DIR_NAME [] (Some ''a'') FILE_ACTION_REMOVED q
                     (if q = [wcs_key ''a'']
                      then reaction FILE_NOTIFY_CHANGE_DIR_NAME [wcs_key ''a''] (Some [backslash]) FILE_ACTION_REMOVED q e
                      else e)) (watch demo_volume q)"
  have k: "node_of (map wcs_key [''a'']) (pDirEntry demo_volume) \<noteq> None"
    by (simp add: demo_volume_def child_of_def)
  obtain w' s' where r: "NotifyPathChange mem_env 1 (path_of [''a'']) True FILE_ACTION_REMOVED demo_state = Some s'"
      "volume_at s' 1 = Some w'" "\<forall>q. watch w' q = ?r q"
    using directory_removal_notifies [OF mem_ample demo_names(3) _ demo_wf demo_volume_at _ k, of FILE_ACTION_REMOVED]
    by (auto simp: removing_def)
  have "map dwCount (?r [wcs_key ''a'']) = [1] \<and> map dwCount (?r []) = [1]"
    by (simp add: demo_simps FILE_ACTION_ADDED_def FILE_ACTION_RENAMED_OLD_NAME_def FILE_ACTION_RENAMED_NEW_NAME_def)
  then show ?thesis using r by (intro exI [of _ w'] exI [of _ s']) (simp only: simp_thms)
qed

text \<open>C29.  With memory, a file that is moved is told first as the old name in the old directory, then as the
  new name in the new one: as a rename when both directories are written alike, else as a removal
  and an addition.\<close>
theorem move_notifies_in_order:
  assumes "ample env" "names_ok ns" "names_ok ms" "ns \<noteq> []" "ms \<noteq> []" "wf_state s" "volume_at s v = Some w"
    and "n_attributes env (attributes_path w (path_of ms)) \<noteq> Some True"
  defines "old \<equiv> if butlast ns = butlast ms then FILE_ACTION_RENAMED_OLD_NAME else FILE_ACTION_REMOVED"
    and "new \<equiv> if butlast ns = butlast ms then FILE_ACTION_RENAMED_NEW_NAME else FILE_ACTION_ADDED"
  shows "\<exists>w' s'. NotifyMoveFile env v (path_of ns) (path_of ms) s = Some s' \<and> wf_state s' \<and> volume_at s' v = Some w' \<and>
           (\<forall>q. watch w' q =
              map (\<lambda>e. reaction FILE_NOTIFY_CHANGE_FILE_NAME (map wcs_key (butlast ms)) (Some (last ms)) new q
                     (reaction FILE_NOTIFY_CHANGE_FILE_NAME (map wcs_key (butlast ns)) (Some (last ns)) old q e)) (watch w q))"
  using move_file_result [OF assms(1-8)] unfolding old_def new_def .

lemma move_notifies_in_order_witness:
  "\<exists>w' s'. NotifyMoveFile mem_env 1 (path_of [''A'', ''f'']) (path_of [''A'', ''g'']) demo_state = Some s' \<and>
     volume_at s' 1 = Some w' \<and> map (map dwAction \<circ> pFileInfo) (watch w' [wcs_key ''a'']) = [[4, 5]] \<and> map dwCount (watch w' []) = [2]"
proof -
  let ?r = "\<lambda>q. map (\<lambda>e. reaction FILE_NOTIFY_CHANGE_FILE_NAME (map wcs_key [''A'']) (Some ''g'') FILE_ACTION_RENAMED_NEW_NAME q
                     (reaction FILE_NOTIFY_CHANGE_FILE_NAME (map wcs_key [''A'']) (Some ''f'') FILE_ACTION_RENAMED_OLD_NAME q e)) (watch demo_volume q)"
  obtain w' s' where r: "NotifyMoveFile mem_env 1 (path_of [''A'', ''f'']) (path_of [''A'', ''g'']) demo_state = Some s'"
      "volume_at s' 1 = Some w'" "\<forall>q. watch w' q = ?r q"
    using move_notifies_in_order [OF mem_ample demo_names(1,2) _ _ demo_wf demo_volume_at] by (auto simp: mem_env_def)
  have "map (map dwAction \<circ> pFileInfo) (?r [wcs_key ''a'']) = [[4, 5]] \<and> map dwCount (?r []) = [2]"
    by (simp add: demo_simps FILE_ACTION_ADDED_def FILE_ACTION_RENAMED_OLD_NAME_def FILE_ACTION_RENAMED_NEW_NAME_def)
  then show ?thesis using r by (intro exI [of _ w'] exI [of _ s']) (simp only: simp_thms)
qed

section \<open>States\<close>

text \<open>C30.  In every state that the calls reach with memory the trees are sorted by name without case and have
  no empty directory, volumes, events and handles have addresses that are used once, and no critical
  section is left entered.\<close>
theorem notification_states_well_formed:
  assumes "reachable env s" "ample env"
  shows "wf_state s"
  by (rule reachable_wf [OF assms])

lemma notification_states_well_formed_witness:
  "wf_state start_state \<and> wf_state (snd (NotifyCreateVolume mem_env ''d'' start_state))"
proof
  show "wf_state start_state"
    by (rule notification_states_well_formed [OF reachable.start mem_ample])
  have "reachable mem_env (snd (NotifyCreateVolume mem_env ''d'' start_state))"
    by (rule reachable.step [OF reachable.start notify_step.do_create_volume]) (rule prod.collapse [symmetric])
  then show "wf_state (snd (NotifyCreateVolume mem_env ''d'' start_state))"
    by (rule notification_states_well_formed [OF _ mem_ample])
qed

text \<open> With memory, NotifyCreateEvent puts a new event that has counted nothing in front of the
  watchers of the directory that the path names, known or not, and changes no other watchers.\<close>
theorem new_event_watches_directory:
  assumes "ample env" "names_ok ns" "wf_state s" "volume_at s v = Some w"
  shows "\<exists>a h k w' s'. NotifyCreateEvent env v proc (path_of ns) subtree dwFlags s = Some (Some h, s') \<and> wf_state s' \<and>
           volume_at s' v = Some w' \<and> 0 < h \<and> a \<notin> e_addr ` set (state_events s) \<and>
           (\<forall>q. watch w' q = (if q = map wcs_key ns then [new_event a proc dwFlags subtree h k] else []) @ watch w q)"
proof -
  obtain a h k w' s' where r: "NotifyCreateEvent env v proc (path_of ns) subtree dwFlags s = Some (Some h, s')" "wf_state s'"
      "volume_at s' v = Some w'" "0 < h" "n_next s \<le> a"
      "\<forall>q. watch w' q = (if q = map wcs_key ns then [new_event a proc dwFlags subtree h k] else []) @ watch w q"
    using create_event_result [OF assms, of proc 1 subtree dwFlags] unfolding path_of_rep by blast
  have "a \<notin> e_addr ` set (state_events s)" using assms(3) r(5) by (auto simp: wf_state_def)
  then show ?thesis using r by blast
qed

lemma new_event_watches_directory_witness:
  "\<exists>h s' w'. NotifyCreateEvent mem_env 1 7 (path_of [''A'', ''f'']) False demo_flags demo_state = Some (Some h, s') \<and>
     volume_at s' 1 = Some w' \<and> length (watch w' (map wcs_key [''a'', ''f''])) = 1 \<and> watch w' [[97]] = watch demo_volume [[97]]"
proof -
  obtain a h k w' s' where r: "NotifyCreateEvent mem_env 1 7 (path_of [''A'', ''f'']) False demo_flags demo_state = Some (Some h, s')"
      "volume_at s' 1 = Some w'"
      "\<forall>q. watch w' q = (if q = map wcs_key [''A'', ''f''] then [new_event a 7 demo_flags False h k] else []) @ watch demo_volume q"
    using new_event_watches_directory [OF mem_ample demo_names(1) demo_wf demo_volume_at, of 7 False demo_flags] by blast
  have "watch demo_volume (map wcs_key [''a'', ''f'']) = []"
    by (simp add: watch_def demo_volume_def child_of_def demo_keys)
  then show ?thesis using r by (auto simp: demo_keys)
qed

text \<open> NotifyCloseEvent takes exactly the event it is given from the directory that holds it.\<close>
theorem closed_event_is_gone:
  assumes "wf_state s" "volume_at s v = Some w" "e \<in> set (watch w p)"
  shows "\<exists>w' s'. NotifyCloseEvent (e_addr e) s = Some s' \<and> wf_state s' \<and> volume_at s' v = Some w' \<and>
           (\<forall>q. watch w' q = (if q = p then filter (\<lambda>x. e_addr x \<noteq> e_addr e) (watch w q) else watch w q))"
  by (rule close_event_result [OF assms])

lemma closed_event_is_gone_witness:
  "\<exists>w' s'. NotifyCloseEvent 2 demo_state = Some s' \<and> volume_at s' 1 = Some w' \<and> watch w' [[97]] = [] \<and> length (watch w' []) = 1"
proof -
  have e: "new_event 2 7 demo_flags False 20 30 \<in> set (watch demo_volume [[97]])" by (simp add: demo_watch)
  obtain w' s' where r: "NotifyCloseEvent (e_addr (new_event 2 7 demo_flags False 20 30)) demo_state = Some s'" "volume_at s' 1 = Some w'"
      "\<forall>q. watch w' q = (if q = [[97]] then filter (\<lambda>x. e_addr x \<noteq> e_addr (new_event 2 7 demo_flags False 20 30)) (watch demo_volume q)
         else watch demo_volume q)"
    using closed_event_is_gone [OF demo_wf demo_volume_at e] by blast
  have "watch w' [[97]] = []" "length (watch w' []) = 1" using r(3) by (simp_all add: demo_watch)
  then show ?thesis using r(1,2) by (auto simp: new_event_def)
qed

text \<open>C31.  With memory, closing a watch that was just created restores the trees of all volumes: the directories
  that were made for it are gone, and no others.\<close>
theorem close_undoes_create:
  assumes "ample env" "names_ok ns" "wf_state s" "volume_at s v = Some w"
    and "NotifyCreateEvent env v proc (path_of ns) subtree dwFlags s = Some (Some h, s1)"
  shows "\<exists>a s2. a \<in> e_addr ` set (state_events s1) \<and> a \<notin> e_addr ` set (state_events s) \<and>
           NotifyCloseEvent a s1 = Some s2 \<and> g_pRootVolume s2 = g_pRootVolume s \<and> closed_events s2 = closed_events s"
  using close_created [OF assms(1-4), of proc 1 subtree dwFlags h s1] assms(5) unfolding path_of_rep by blast

lemma close_undoes_create_witness:
  "\<exists>h s1 a s2. NotifyCreateEvent mem_env 1 7 (path_of [''b'', ''c'']) True demo_flags demo_state = Some (Some h, s1) \<and>
     NotifyCloseEvent a s1 = Some s2 \<and> g_pRootVolume s2 = [demo_volume]"
proof -
  obtain a h k s1 where c: "NotifyCreateEvent mem_env 1 7 (path_of [''b'', ''c'']) True demo_flags demo_state = Some (Some h, s1)"
    using create_event [OF mem_ample demo_names(4) demo_wf demo_volume_at, of 7 1 True demo_flags] unfolding path_of_rep by blast
  obtain b s2 where "NotifyCloseEvent b s1 = Some s2" "g_pRootVolume s2 = g_pRootVolume demo_state"
    using close_undoes_create [OF mem_ample demo_names(4) demo_wf demo_volume_at c] by blast
  moreover have "g_pRootVolume demo_state = [demo_volume]" by (simp add: demo_state_def)
  ultimately show ?thesis using c by metis
qed

section \<open>Reading what changed\<close>

text \<open>C32.  NotifyReset on an event that has counted changes hands out, in order, as many queued names as the
  buffer holds: followed along NextEntryOffset the buffer reads as their actions and names.  They
  leave the queue, the count goes down by their number but not below 0, and the event is signalled
  again exactly when the count is not 0.\<close>
theorem reset_hands_out_queue:
  assumes "wf_state s" "volume_at s v = Some w" "e \<in> set (watch w p)" "dwCount e \<noteq> 0"
    and "lpBuffer d = Some b" "nBufferLength d \<le> length b" "\<forall>fi \<in> set (pFileInfo e). sane_info fi"
  defines "n \<equiv> records_that_fit (nBufferLength d) 0 (pFileInfo e)"
  shows "\<exists>r s' w' b' e'. NotifyReset (e_addr e) (Some d) s = Some (r, s') \<and> wf_state s' \<and> volume_at s' v = Some w' \<and> fRet r \<and>
           r_buffer r = Some b' \<and> (n > 0 \<longrightarrow> read_records n b' 0 = map info_record (take n (pFileInfo e))) \<and>
           watch w' p = map (\<lambda>x. if e_addr x = e_addr e then e' else x) (watch w p) \<and>
           pFileInfo e' = drop n (pFileInfo e) \<and> n \<le> length (pFileInfo e) \<and>
           dwCount e' = (if dwCount e > of_nat n then dwCount e - of_nat n else 0) \<and> (signalled e' \<longleftrightarrow> dwCount e' \<noteq> 0)"
proof -
  obtain w' s' e' r err where x: "reset_event e (Some d) = (e', r, err)" "NotifyReset (e_addr e) (Some d) s = Some (r, s')" "wf_state s'"
      "volume_at s' v = Some w'"
      "\<forall>q. watch w' q = (if q = p then map (\<lambda>x. if e_addr x = e_addr e then e' else x) (watch w q) else watch w q)"
    using reset_result [OF assms(1-3), of "Some d"] by blast
  have ok: "fRet r"
  proof -
    obtain rest buf rt c stop where L: "reset_loop (nBufferLength d) (pFileInfo e) (Some b) 0 None 0 = (rest, buf, rt, c, stop)"
      by (cases "reset_loop (nBufferLength d) (pFileInfo e) (Some b) 0 None 0") auto
    have "stop \<noteq> Fault" using no_fault [OF assms(6,7) _ L] by (simp add: prev_ok_def)
    then show ?thesis using x(1) L assms(4,5) by (auto simp: reset_event_def Let_def)
  qed
  from reset_roundtrip [OF x(1) ok assms(4,5,7)]
  obtain b' m where M: "r_buffer r = Some b' \<and> length b' = length b \<and> pFileInfo e' = drop m (pFileInfo e) \<and> m \<le> length (pFileInfo e) \<and>
           m = records_that_fit (nBufferLength d) 0 (pFileInfo e) \<and>
           (m > 0 \<longrightarrow> read_records m b' 0 = map info_record (take m (pFileInfo e))) \<and>
           dwCount e' = (if dwCount e > of_nat m then dwCount e - of_nat m else 0) \<and> (signalled e' \<longleftrightarrow> dwCount e' \<noteq> 0) \<and>
           (err = None \<longleftrightarrow> m = length (pFileInfo e)) \<and> (err \<noteq> None \<longrightarrow> err = Some (if m = 0 then ERROR_INSUFFICIENT_BUFFER else ERROR_MORE_DATA))"
    by (elim exE) (rule that)
  have w: "watch w' p = map (\<lambda>x. if e_addr x = e_addr e then e' else x) (watch w p)" using x(5) by simp
  have mn: "m = n" using M by (simp add: n_def)
  show ?thesis
    apply (rule exI [of _ r], rule exI [of _ s'], rule exI [of _ w'], rule exI [of _ b'], rule exI [of _ e'])
    using x(2-4) ok w M unfolding mn by (elim conjE) (intro conjI; assumption)
qed

definition full_event :: NOTEVENTENTRY where
  "full_event = (new_event 2 7 demo_flags False 20 30)
     \<lparr>dwCount := 2, signalled := True,
      pFileInfo := [\<lparr>fi_szFileName = Some ''f'', dwFileNameLen = 2, dwAction = 1\<rparr>, \<lparr>fi_szFileName = Some ''gh'', dwFileNameLen = 4, dwAction = 2\<rparr>]\<rparr>"

definition full_volume :: NOTVOLENTRY where
  "full_volume = demo_volume\<lparr>v_pEvents := [full_event], pDirEntry := []\<rparr>"

definition full_state :: NotifyState where "full_state = demo_state\<lparr>g_pRootVolume := [full_volume]\<rparr>"

lemma reset_hands_out_queue_witness:
  "\<exists>r s' b'. NotifyReset 2 (Some \<lparr>nBufferLength = 64, lpBuffer = Some (replicate 64 0), lpBytesReturned = False, lpBytesAvailable = False\<rparr>) full_state =
     Some (r, s') \<and> r_buffer r = Some b' \<and> read_records 2 b' 0 = [(1, wide_bytes ''f''), (2, wide_bytes ''gh'')]"
proof -
  let ?d = "\<lparr>nBufferLength = 64, lpBuffer = Some (replicate 64 0), lpBytesReturned = False, lpBytesAvailable = False\<rparr>"
  have wf: "wf_state full_state"
    by (simp add: wf_state_def full_state_def full_volume_def full_event_def demo_state_def demo_volume_def vol_ok_def
        state_events_def state_handles_def vol_events_def vol_handles_def new_event_def)
  have v: "volume_at full_state 1 = Some full_volume"
    by (simp add: volume_at_def full_state_def full_volume_def demo_volume_def)
  have e: "full_event \<in> set (watch full_volume [])" by (simp add: watch_def full_volume_def)
  have c: "dwCount full_event \<noteq> 0" "e_addr full_event = 2" by (simp_all add: full_event_def new_event_def)
  have sane: "\<forall>fi \<in> set (pFileInfo full_event). sane_info fi" by (simp add: full_event_def sane_info_def)
  have n: "records_that_fit (nBufferLength ?d) 0 (pFileInfo full_event) = 2"
    by (simp add: full_event_def record_size_def align4_def)
  have t: "map info_record (take 2 (pFileInfo full_event)) = [(1, wide_bytes ''f''), (2, wide_bytes ''gh'')]"
    by (simp add: full_event_def info_record_def)
  show ?thesis
    using reset_hands_out_queue [OF wf v e c(1), of ?d "replicate 64 0", OF _ _ sane] unfolding n t c(2) by auto
qed

section \<open>Volumes that go away\<close>

text \<open> With memory, deleting a volume tells all its watchers that ask for directories that the backslash was
  removed; their events stay open without the volume, and the volume is not found again.\<close>
theorem deleted_volume_keeps_events:
  assumes "ample env" "wf_state s" "volume_at s v = Some w"
  shows "\<exists>s'. NotifyDeleteVolume env v s = Some s' \<and> wf_state s' \<and> volume_at s' v = None \<and>
           (\<forall>u. u \<noteq> v \<longrightarrow> volume_at s' u = volume_at s u) \<and>
           closed_events s' = closed_events s @ map told_removed (tree_events (pDirEntry w) @ v_pEvents w)"
proof -
  have v0: "v \<noteq> 0" using assms(2) wf_volume [OF assms(2,3)] by (auto simp: wf_state_def)
  let ?b = "ClearEvents env (v_pEvents w) (DeleteNotDirEntry env (pDirEntry w) s)"
  let ?s = "?b\<lparr>g_pRootVolume := filter (\<lambda>x. v_addr x \<noteq> v) (g_pRootVolume ?b)\<rparr>"
  have n: "NotifyDeleteVolume env v s = Some ?s"
    using v0 assms(3) by (simp add: NotifyDeleteVolume_wf [OF assms(2)] Let_def)
  have r: "g_pRootVolume ?b = g_pRootVolume s"
    using closing_trans [OF closing_DeleteNotDirEntry [OF assms(1), of s "pDirEntry w"]
        closing_ClearEvents [OF assms(1), of "DeleteNotDirEntry env (pDirEntry w) s" "v_pEvents w"]]
    by (simp add: closing_def)
  have fd: "find (\<lambda>x. v_addr x = u) (filter (\<lambda>x. v_addr x \<noteq> v) ws) = (if u = v then None else find (\<lambda>x. v_addr x = u) ws)" for u ws
    by (induction ws) auto
  have "volume_at ?s u = (if u = v then None else volume_at s u)" for u
    using r fd [of u "g_pRootVolume s"] by (simp add: volume_at_def)
  moreover have "closed_events ?s = closed_events s @ map told_removed (tree_events (pDirEntry w) @ v_pEvents w)"
    using ClearEvents_told [OF assms(1)] DeleteNotDirEntry_told [OF assms(1)] by simp
  ultimately show ?thesis using n delete_volume_wf [OF assms(1,2) n] by auto
qed

lemma deleted_volume_keeps_events_witness:
  "\<exists>s'. NotifyDeleteVolume mem_env 1 demo_state = Some s' \<and> volume_at s' 1 = None \<and> map dwCount (closed_events s') = [1, 1]"
proof -
  obtain s' where r: "NotifyDeleteVolume mem_env 1 demo_state = Some s'" "volume_at s' 1 = None"
      "closed_events s' = closed_events demo_state @ map told_removed (tree_events (pDirEntry demo_volume) @ v_pEvents demo_volume)"
    using deleted_volume_keeps_events [OF mem_ample demo_wf demo_volume_at] by blast
  have "map dwCount (closed_events demo_state @ map told_removed (tree_events (pDirEntry demo_volume) @ v_pEvents demo_volume)) = [1, 1]"
    by (simp add: demo_state_def demo_volume_def told_removed_def demo_simps)
  then show ?thesis using r by auto
qed

section \<open>Failures\<close>

text \<open>C33.  A thread whose NotifyCreateFile or NotifyCreateEvent returns INVALID_HANDLE_VALUE is still inside
  the critical section of the volume afterwards, and no later call of any thread, with or without
  memory, leaves it: every call of another thread that needs this section (to create, change, move,
  close or delete) waits for ever.  A creation that returns a handle leaves the sections as they were.\<close>
theorem refused_creation_blocks_volume:
  assumes "NotifyCreateEvent env v proc x subtree dwFlags s = Some (r, s1) \<or> NotifyCreateFile env v x s = Some (r, s1)"
    and "v \<noteq> 0"
  shows "if r = None
         then held s1 = (n_thread s, v) # held s \<and>
              (\<forall>s2 env'. notify_runs s1 s2 \<longrightarrow> n_thread s2 \<noteq> n_thread s \<longrightarrow> volume_waits env' v s2)
         else held s1 = held s"
proof -
  obtain t where t: "kept s t" "s1 = (if r = None then inside v t else t)"
    using assms(1) create_event_section create_file_section by blast
  have h: "held s1 = (if r = None then (n_thread s, v) # held s else held s)"
    using t assms(2) by (simp add: kept_def held_inside)
  have "volume_waits env' v s2" if "r = None" "notify_runs s1 s2" "n_thread s2 \<noteq> n_thread s" for s2 env'
    by (rule volume_waitsI [OF assms(2)]) (use runs_held [OF that(2)] h that(1,3) in auto)
  then show ?thesis using h by simp
qed

lemma refused_creation_blocks_volume_witness:
  "\<exists>s1. NotifyCreateEvent (mem_env\<lparr>n_refuse := (\<lambda>_. True)\<rparr>) 1 7 (path_of [''a'']) False demo_flags demo_state = Some (None, s1) \<and>
     held s1 = [(0, 1)] \<and> NotifyPathChange mem_env 1 (path_of [''A'', ''f'']) False FILE_ACTION_ADDED (s1\<lparr>n_thread := 5\<rparr>) = None"
proof -
  let ?env = "mem_env\<lparr>n_refuse := (\<lambda>_. True)\<rparr>"
  have "\<exists>s1. NotifyCreateEvent ?env 1 7 (path_of [''a'']) False demo_flags demo_state = Some (None, s1)"
    using demo_volume_at by (simp add: NotifyCreateEvent_wf [OF demo_wf] InsertOrFindDirEntry_def allocate_def Let_def)
  then obtain s1 where c: "NotifyCreateEvent ?env 1 7 (path_of [''a'']) False demo_flags demo_state = Some (None, s1)" by blast
  note r = refused_creation_blocks_volume [OF disjI1 [OF c], simplified]
  have "notify_runs s1 (s1\<lparr>n_thread := 5\<rparr>)"
    unfolding notify_runs_def by (rule r_into_rtranclp) (blast intro: notify_step.do_switch)
  then have "volume_waits mem_env 1 (s1\<lparr>n_thread := 5\<rparr>)" using r by (simp add: demo_state_def)
  then show ?thesis using c r by (auto simp: volume_waits_def demo_state_def)
qed

lemma faulty_reset:
  assumes "reset_event e (Some d) = (e', r, err)" "\<not> fRet r"
  shows "err = Some ERROR_INVALID_PARAMETER \<and> dwCount e' = dwCount e \<and> dwCount e \<noteq> 0 \<and> \<not> signalled e'"
  using assms by (auto simp: reset_event_def Let_def split: prod.splits if_splits)

text \<open> When NotifyReset fails because it cannot write the buffer, the event is left unsignalled with its
  count, and the next change that it sees only counts one more: it is not signalled either.\<close>
theorem faulty_buffer_silences_event:
  assumes "wf_state s" "volume_at s v = Some w" "e \<in> set (watch w p)"
    and "NotifyReset (e_addr e) (Some d) s = Some (r, s')" "\<not> fRet r"
  shows "\<exists>w' e'. volume_at s' v = Some w' \<and> n_error s' = ERROR_INVALID_PARAMETER \<and>
           watch w' p = map (\<lambda>x. if e_addr x = e_addr e then e' else x) (watch w p) \<and>
           dwCount e' = dwCount e \<and> \<not> signalled e' \<and> \<not> signalled (reaction dwFlags p' nm act q e')"
proof -
  obtain w' e' err where x: "reset_event e (Some d) = (e', r, err)" "volume_at s' v = Some w'"
      "n_error s' = (case err of None \<Rightarrow> n_error s | Some x \<Rightarrow> x)"
      "\<forall>q. watch w' q = (if q = p then map (\<lambda>x. if e_addr x = e_addr e then e' else x) (watch w q) else watch w q)"
    using reset_result [OF assms(1-3), of "Some d"] assms(4) by auto
  note f = faulty_reset [OF x(1) assms(5)]
  have "\<not> signalled (reaction dwFlags p' nm act q e')"
    using f by (auto simp: reaction_def Let_def count_change_def split: option.splits)
  moreover have "watch w' p = map (\<lambda>x. if e_addr x = e_addr e then e' else x) (watch w p)" using x(4) by simp
  ultimately show ?thesis using x(2,3) f by auto
qed

lemma faulty_buffer_silences_event_witness:
  "\<exists>r s' w'. NotifyReset 2 (Some \<lparr>nBufferLength = 64, lpBuffer = None, lpBytesReturned = False, lpBytesAvailable = False\<rparr>) full_state = Some (r, s') \<and>
     volume_at s' 1 = Some w' \<and> map dwCount (watch w' []) = [2] \<and> map signalled (watch w' []) = [False]"
proof -
  let ?d = "\<lparr>nBufferLength = 64, lpBuffer = None, lpBytesReturned = False, lpBytesAvailable = False\<rparr>"
  have wf: "wf_state full_state"
    by (simp add: wf_state_def full_state_def full_volume_def full_event_def demo_state_def demo_volume_def vol_ok_def
        state_events_def state_handles_def vol_events_def vol_handles_def new_event_def)
  have v: "volume_at full_state 1 = Some full_volume"
    by (simp add: volume_at_def full_state_def full_volume_def demo_volume_def)
  have e: "full_event \<in> set (watch full_volume [])" by (simp add: watch_def full_volume_def)
  have w: "watch full_volume [] = [full_event]" by (simp add: watch_def full_volume_def)
  have c: "dwCount full_event = 2" "e_addr full_event = 2" by (simp_all add: full_event_def new_event_def)
  obtain w1 s' e' r err where x: "reset_event full_event (Some ?d) = (e', r, err)" "NotifyReset (e_addr full_event) (Some ?d) full_state = Some (r, s')"
    using reset_result [OF wf v e, of "Some ?d"] by blast
  have nr: "\<not> fRet r"
    using x(1) by (auto simp: reset_event_def full_event_def new_event_def Let_def record_size_def align4_def)
  obtain w' e2 where y: "volume_at s' 1 = Some w'" "watch w' [] = map (\<lambda>x. if e_addr x = e_addr full_event then e2 else x) (watch full_volume [])"
      "dwCount e2 = dwCount full_event" "\<not> signalled e2"
    using faulty_buffer_silences_event [OF wf v e x(2) nr] by blast
  have "map dwCount (watch w' []) = [2]" "map signalled (watch w' []) = [False]"
    using y w c by simp_all
  then show ?thesis using x(2) y(1) c(2) by auto
qed

text \<open>A watcher of a subtree that collects names gets none from below, but counts the changes there: its
  count is not lowered by reading with a buffer, and it stays signalled.\<close>

lemma subtree_count_stays:
  assumes "dwCount e \<noteq> 0" "pFileInfo e = []"
  shows "\<exists>r. reset_event e (Some d) = (e\<lparr>signalled := True\<rparr>, r, None) \<and> fRet r"
  using assms by (cases "dwCount e > 0") (auto simp: reset_event_def Let_def word_neq_0_conv)

end
