(* ===== verification/Store_State.thy ===== *)
theory Store_State
  imports Dos_State
begin

text \<open>
  The state of the store manager (\<open>store.h\<close>, \<open>partition.h\<close>, \<open>storemain.h\<close>) and what it needs
  from outside.

  Objects have addresses.  The list of stores and the list of partitions of a store are lists of
  the objects; the lists of open handles are lists of addresses, and the handle objects are in a
  heap, because a handle can outlive the store it points to.  \<open>BOOL\<close> flags of a \<open>DWORD\<close> are
  fields; mount flags stay words, because the registry holds them as one number.  A critical
  section is held by one operation at a time, so operations run one after the other.

  A \<open>machine\<close> is what lies under the store manager: the last error of the thread, the search
  objects of the null driver (numbered by \<open>mc_next\<close>), the registry, and the state of the drivers, devices and file systems
  (\<open>device\<close>, any type).  \<open>stg_env\<close> has the functions of the system, of the drivers and of the
  file system manager that the store manager calls; each allocation takes a tick, and \<open>refuse\<close>
  says at which ticks an allocation or the creation of a handle fails.
\<close>

section \<open>What lies underneath\<close>

datatype reg_value = REG_SZ string | REG_DWORD DWORD

type_synonym reg_key = "string \<Rightarrow> reg_value option"

record 'd machine =
  mc_error :: nat
  mc_tick :: nat
  mc_next :: nat
  mc_searches :: "nat \<Rightarrow> nat option"
  mc_registry :: "string \<Rightarrow> reg_key option"
  device :: 'd

definition INVALID_HANDLE_VALUE :: nat where "INVALID_HANDLE_VALUE = 2 ^ 32 - 1"

definition ERROR_FILE_NOT_FOUND :: nat where "ERROR_FILE_NOT_FOUND = 2"
definition ERROR_NO_MORE_FILES :: nat where "ERROR_NO_MORE_FILES = 18"
definition ERROR_BAD_COMMAND :: nat where "ERROR_BAD_COMMAND = 22"
definition ERROR_NOT_SUPPORTED :: nat where "ERROR_NOT_SUPPORTED = 50"
definition ERROR_INSUFFICIENT_BUFFER :: nat where "ERROR_INSUFFICIENT_BUFFER = 122"
definition ERROR_BAD_ARGUMENTS :: nat where "ERROR_BAD_ARGUMENTS = 160"
definition ERROR_BAD_DRIVER :: nat where "ERROR_BAD_DRIVER = 2001"
definition ERROR_DEVICE_IN_USE :: nat where "ERROR_DEVICE_IN_USE = 2404"
definition ERROR_INVALID_OPERATION :: nat where "ERROR_INVALID_OPERATION = 4317"
definition ERROR_DEVICE_NOT_AVAILABLE :: nat where "ERROR_DEVICE_NOT_AVAILABLE = 4319"

lemmas stg_error_defs =
  error_code_defs ERROR_FILE_NOT_FOUND_def ERROR_NO_MORE_FILES_def ERROR_BAD_COMMAND_def ERROR_NOT_SUPPORTED_def
  ERROR_INSUFFICIENT_BUFFER_def ERROR_BAD_ARGUMENTS_def ERROR_BAD_DRIVER_def ERROR_DEVICE_IN_USE_def
  ERROR_INVALID_OPERATION_def ERROR_DEVICE_NOT_AVAILABLE_def

definition put_error :: "nat \<Rightarrow> 'd machine \<Rightarrow> 'd machine" where
  "put_error e m = m\<lparr>mc_error := e\<rparr>"

definition GetDriverError :: "'d machine \<Rightarrow> nat" where
  "GetDriverError m = (if mc_error m = ERROR_SUCCESS then ERROR_GEN_FAILURE else mc_error m)"

section \<open>Requests to a device\<close>

record STORAGEDEVICEINFO =
  dwDeviceClass :: nat
  dwDeviceType :: nat
  dwDeviceFlags :: nat
  szProfile :: string

definition STORAGE_DEVICE_CLASS_BLOCK :: nat where "STORAGE_DEVICE_CLASS_BLOCK = 1"
definition STORAGE_DEVICE_TYPE_UNKNOWN :: nat where "STORAGE_DEVICE_TYPE_UNKNOWN = 0x10000000"
definition STORAGE_DEVICE_FLAG_READWRITE :: nat where "STORAGE_DEVICE_FLAG_READWRITE = 1"

datatype io_code =
    DISK_IOCTL_GETINFO | DISK_IOCTL_GETNAME | DISK_IOCTL_READ | DISK_IOCTL_WRITE
  | IOCTL_DISK_GETINFO | IOCTL_DISK_GETNAME | IOCTL_DISK_READ | IOCTL_DISK_WRITE
  | IOCTL_DISK_DEVICE_INFO | IOCTL_DISK_GET_STORAGEID | IOCTL_CDROM_READ_SG | OTHER_IOCTL nat

datatype io_buffer = No_Buffer | Buffer "BYTE list"

record io_request =
  io_in :: io_buffer
  nInBufSize :: nat
  io_out :: bool
  nOutBufSize :: nat

datatype io_answer =
    No_Answer
  | Disk_Geometry DISK_INFO
  | Device_Info STORAGEDEVICEINFO
  | Storage_Id nat "BYTE list"
  | Device_Name string
  | Bytes "BYTE list"

section \<open>The partition driver\<close>

text \<open>
  The table of functions of a partition driver.  A call that raises an exception returns \<open>None\<close>
  as its error code.  An output argument is passed in and out.
\<close>

record 'd CPartDriver =
  m_pOpenStore :: "nat \<Rightarrow> nat \<Rightarrow> 'd machine \<Rightarrow> nat option \<times> nat \<times> 'd machine"
  m_pCloseStore :: "nat \<Rightarrow> 'd machine \<Rightarrow> 'd machine"
  m_pFormatStore :: "nat \<Rightarrow> 'd machine \<Rightarrow> nat option \<times> 'd machine"
  m_pIsStoreFormatted :: "nat \<Rightarrow> 'd machine \<Rightarrow> nat option \<times> 'd machine"
  m_pGetStoreInfo :: "nat \<Rightarrow> PD_STOREINFO \<Rightarrow> 'd machine \<Rightarrow> nat option \<times> PD_STOREINFO \<times> 'd machine"
  m_pCreatePartition :: "nat \<Rightarrow> string \<Rightarrow> BYTE \<Rightarrow> nat \<Rightarrow> bool \<Rightarrow> 'd machine \<Rightarrow> nat option \<times> 'd machine"
  m_pDeletePartition :: "nat \<Rightarrow> string \<Rightarrow> 'd machine \<Rightarrow> nat option \<times> 'd machine"
  m_pRenamePartition :: "nat \<Rightarrow> string \<Rightarrow> string \<Rightarrow> 'd machine \<Rightarrow> nat option \<times> 'd machine"
  m_pSetPartitionAttrs :: "nat \<Rightarrow> string \<Rightarrow> nat \<Rightarrow> 'd machine \<Rightarrow> nat option \<times> 'd machine"
  m_pSetPartitionSize :: "nat \<Rightarrow> string \<Rightarrow> nat \<Rightarrow> 'd machine \<Rightarrow> nat option \<times> 'd machine"
  m_pFormatPartition :: "nat \<Rightarrow> string \<Rightarrow> BYTE \<Rightarrow> bool \<Rightarrow> 'd machine \<Rightarrow> nat option \<times> 'd machine"
  m_pGetPartitionInfo :: "nat \<Rightarrow> string \<Rightarrow> PD_PARTINFO \<Rightarrow> 'd machine \<Rightarrow> nat option \<times> PD_PARTINFO \<times> 'd machine"
  m_pFindPartitionStart :: "nat \<Rightarrow> nat \<Rightarrow> 'd machine \<Rightarrow> nat option \<times> nat \<times> 'd machine"
  m_pFindPartitionNext :: "nat \<Rightarrow> PD_PARTINFO \<Rightarrow> 'd machine \<Rightarrow> nat option \<times> PD_PARTINFO \<times> 'd machine"
  m_pFindPartitionClose :: "nat \<Rightarrow> 'd machine \<Rightarrow> 'd machine"
  m_pOpenPartition :: "nat \<Rightarrow> string \<Rightarrow> nat \<Rightarrow> 'd machine \<Rightarrow> nat option \<times> nat \<times> 'd machine"
  m_pClosePartition :: "nat \<Rightarrow> 'd machine \<Rightarrow> 'd machine"
  m_pDeviceIoControl :: "nat \<Rightarrow> io_code \<Rightarrow> io_request \<Rightarrow> 'd machine \<Rightarrow> nat option \<times> io_answer \<times> 'd machine"

text \<open>A loaded driver module: the names it exports and its functions.\<close>

type_synonym 'd pd_module = "string list \<times> 'd CPartDriver"

section \<open>Objects\<close>

datatype pointer = NULL | INVALID_POINTER | Addr nat

datatype handle_sig = STORE_HANDLE_SIG | PART_HANDLE_SIG

record CStoreHandle =
  dwSig :: handle_sig
  h_pStore :: pointer
  h_pPartition :: pointer
  h_hProc :: nat
  STOREHANDLE_TYPE_SEARCH :: bool
  STOREHANDLE_TYPE_CURRENT :: bool
  STOREHANDLE_TYPE_INTERNAL :: bool

text \<open>What the store manager reads of a mounted disk (\<open>DSK\<close>) and its volume (\<open>VOL\<close>).\<close>

record VOL =
  VOL_DETACHED :: bool
  wsVol :: string

record DSK =
  dsk_id :: nat
  pVol :: "VOL option"

record CPartition =
  p_addr :: nat
  m_dwPartitionId :: nat
  m_pi :: PD_PARTINFO
  PARTITION_ATTRIBUTE_MOUNTED :: bool
  m_szPartitionName :: string
  p_szFolderName :: string
  m_szModuleName :: string
  m_szFriendlyName :: string
  m_szFileSys :: string
  m_szRootKey :: string
  p_dwStoreId :: nat
  m_hFSD :: "string option"
  m_pDsk :: "DSK option"
  p_dwMountFlags :: DWORD
  m_hPartition :: nat

record store_flags =
  STORE_ATTRIBUTE_READONLY :: bool
  STORE_ATTRIBUTE_AUTOMOUNT :: bool
  STORE_ATTRIBUTE_AUTOFORMAT :: bool
  STORE_ATTRIBUTE_AUTOPART :: bool
  STORE_FLAG_MOUNTED :: bool
  STORE_FLAG_DETACHED :: bool
  STORE_FLAG_REFRESHED :: bool
  STORE_FLAG_ACTIVITYTIMER :: bool

record 'd CStore =
  s_addr :: nat
  m_hDisk :: nat
  m_pDskStore :: "nat option"
  m_szDeviceName :: string
  m_szOldDeviceName :: string
  m_szStoreName :: string
  s_szFolderName :: string
  m_szPartDriverName :: string
  m_szPartDriver :: string
  m_szRootRegKey :: string
  m_szDefaultFileSystem :: string
  m_dwPartCount :: nat
  m_dwMountCount :: nat
  m_dwFlags :: store_flags
  m_szActivityName :: string
  m_hActivityEvent :: nat
  s_dwMountFlags :: DWORD
  m_pStorageId :: "(nat \<times> BYTE list) option"
  m_pPartDriver :: "'d CPartDriver option"
  m_pPartitionList :: "CPartition list"
  m_si :: PD_STOREINFO
  m_sdi :: STORAGEDEVICEINFO
  m_di :: DISK_INFO
  m_dwStoreId :: nat
  m_pBlockDevice :: "string option"

text \<open>The answers to an application.\<close>

record STOREINFO =
  i_snBiggestPartCreatable :: nat
  i_dwBytesPerSector :: nat
  i_snFreeSectors :: nat
  i_snNumSectors :: nat
  i_unformatted :: bool
  i_dwPartitionCount :: nat
  i_dwMountCount :: nat
  i_szDeviceName :: string
  i_szStoreName :: string
  i_ftCreated :: nat
  i_ftLastModified :: nat
  i_sdi :: STORAGEDEVICEINFO

record PARTINFO =
  o_bPartType :: BYTE
  o_mounted :: bool
  o_ftCreated :: nat
  o_ftLastModified :: nat
  o_snNumSectors :: nat
  o_szPartitionName :: string
  o_szFileSys :: string
  o_szVolumeName :: string

text \<open>The data with which a file system is started on a partition (\<open>FSDINITDATA\<close>).\<close>

record FSDINITDATA =
  fid_hFSD :: string
  fid_hDsk :: nat
  fid_hPartition :: nat
  fid_hActivityEvent :: nat
  fid_dwFlags :: DWORD
  fid_szRegKey :: string
  fid_szFileSysName :: string
  fid_szDiskName :: string
  fid_bFormat :: bool

section \<open>The environment and the state\<close>

record 'd stg_env =
  refuse :: "nat \<Rightarrow> bool"
  DEVICENAMESIZE :: nat
  FOLDERNAMESIZE :: nat
  PARTITIONNAMESIZE :: nat
  STORENAMESIZE :: nat
  FILESYSNAMESIZE :: nat
  VOLUMENAMESIZE :: nat
  uninitialized_id :: "nat \<times> BYTE list"
  os_CreateFile :: "string \<Rightarrow> bool \<Rightarrow> 'd machine \<Rightarrow> nat \<times> 'd machine"
  os_CloseHandle :: "nat \<Rightarrow> 'd machine \<Rightarrow> 'd machine"
  os_DeviceIoControl :: "nat \<Rightarrow> io_code \<Rightarrow> io_request \<Rightarrow> 'd machine \<Rightarrow> bool \<times> io_answer \<times> 'd machine"
  os_CreateEvent :: "string \<Rightarrow> 'd machine \<Rightarrow> nat \<times> 'd machine"
  os_LoadPartDriver :: "string \<Rightarrow> 'd pd_module option"
  os_LoadFSD :: "string \<Rightarrow> bool"
  asks_for_disk :: "string \<Rightarrow> bool"
  os_OpenBlockDevice :: "string \<Rightarrow> 'd machine \<Rightarrow> nat \<times> 'd machine"
  hal_query_format :: "STOREINFO \<Rightarrow> PARTINFO \<Rightarrow> DWORD \<Rightarrow> bool"
  fsd_InitEx :: "FSDINITDATA \<Rightarrow> 'd machine \<Rightarrow> DSK option \<times> 'd machine"
  fsd_DeinitEx :: "DSK \<Rightarrow> 'd machine \<Rightarrow> bool \<times> 'd machine"
  sg_view :: "io_code \<Rightarrow> BYTE list \<Rightarrow> nat \<times> nat"
  sizeof_SG_REQ :: nat
  sizeof_CDROM_READ :: nat
  trusted_caller :: bool
  current_process :: nat

text \<open>
  \<open>asks_for_disk\<close>: whether a partition driver calls back for the disk object of its store when it
  opens it.  \<open>sg_view\<close> reads a request for scattered buffers by the layout of the public headers: the count it
  declares, and how many buffer descriptions the memory of the request holds.
\<close>

definition MAX_PATH :: nat where "MAX_PATH = 260"

datatype api_set = STRG | FPRT | FSTG

text \<open>
  \<open>m_pRootHandle a\<close> is the list of handles of the store at address \<open>a\<close>, \<open>None\<close> if there is no
  such store.  \<open>api_handles\<close> are the handles the kernel has given out for handle objects.
\<close>

record 'd stg =
  machine :: "'d machine"
  stg_next :: nat
  handle_heap :: "nat \<Rightarrow> CStoreHandle option"
  m_pRootHandle :: "nat \<Rightarrow> nat list option"
  g_pRootHandle :: "nat list"
  api_handles :: "nat \<Rightarrow> (api_set \<times> nat) option"

section \<open>Allocation\<close>

text \<open>
  \<open>new\<close> fails when the system refuses it or all addresses are used up.  \<open>alloc_object\<close> is for objects
  whose address does not matter.
\<close>

definition alloc_object :: "'d stg_env \<Rightarrow> 'd machine \<Rightarrow> bool \<times> 'd machine" where
  "alloc_object env m = (\<not> refuse env (mc_tick m), m\<lparr>mc_tick := mc_tick m + 1\<rparr>)"

definition on_machine :: "('d machine \<Rightarrow> 'a \<times> 'd machine) \<Rightarrow> 'd stg \<Rightarrow> 'a \<times> 'd stg" where
  "on_machine f st = (let (r, m) = f (machine st) in (r, st\<lparr>machine := m\<rparr>))"

definition new_object :: "'d stg_env \<Rightarrow> 'd stg \<Rightarrow> nat option \<times> 'd stg" where
  "new_object env st =
     (let (ok, st) = on_machine (alloc_object env) st
      in if ok \<and> stg_next st < INVALID_HANDLE_VALUE then (Some (stg_next st), st\<lparr>stg_next := stg_next st + 1\<rparr>)
         else (None, st))"

definition new_handle_object :: "'d stg_env \<Rightarrow> CStoreHandle \<Rightarrow> 'd stg \<Rightarrow> nat option \<times> 'd stg" where
  "new_handle_object env h st =
     (case new_object env st of
        (None, st) \<Rightarrow> (None, st)
      | (Some a, st) \<Rightarrow> (Some a, st\<lparr>handle_heap := (handle_heap st)(a \<mapsto> h)\<rparr>))"

definition delete_handle :: "nat \<Rightarrow> 'd stg \<Rightarrow> 'd stg" where
  "delete_handle a st = st\<lparr>handle_heap := (handle_heap st)(a := None)\<rparr>"

definition CreateAPIHandle :: "'d stg_env \<Rightarrow> api_set \<Rightarrow> nat \<Rightarrow> 'd stg \<Rightarrow> nat \<times> 'd stg" where
  "CreateAPIHandle env api a st =
     (case new_object env st of
        (None, st) \<Rightarrow> (INVALID_HANDLE_VALUE, st)
      | (Some h, st) \<Rightarrow> (h, st\<lparr>api_handles := (api_handles st)(h \<mapsto> (api, a))\<rparr>))"

text \<open>Copying into an array of \<open>n\<close> characters, which ends in a null character.\<close>

definition bounded_copy :: "nat \<Rightarrow> string \<Rightarrow> string" where
  "bounded_copy n s = take (n - 1) s"

end
