(* ===== verification/Part_Driver.thy ===== *)
theory Part_Driver
  imports Store_State
begin

text \<open>
  The partition driver as the store manager sees it (\<open>partition.h\<close>, \<open>partition.cpp\<close>): the table of
  functions, the calls that turn an exception into an error code, the loading of a driver, and the
  null driver (\<open>nullpart.cpp\<close>), which shows a device as a store with one partition.
\<close>

section \<open>Null partition driver\<close>

definition zero_disk_info :: DISK_INFO where
  "zero_disk_info =
     \<lparr>di_total_sectors = 0, di_bytes_per_sect = 0, di_cylinders = 0, di_heads = 0, di_sectors = 0,
      di_flags = \<lparr>DISK_INFO_FLAG_MBR = False, DISK_INFO_FLAG_UNFORMATTED = False, other_flags = 0\<rparr>\<rparr>"

definition zero_storeinfo :: PD_STOREINFO where
  "zero_storeinfo =
     \<lparr>si_ftCreated = 0, si_ftLastModified = 0, si_dwBytesPerSector = 0, si_snNumSectors = 0,
      si_snFreeSectors = 0, si_snBiggestPartCreatable = 0, si_unformatted = False\<rparr>"

definition zero_partinfo :: PD_PARTINFO where
  "zero_partinfo =
     \<lparr>szPartitionName = [], pi_snNumSectors = 0, pi_ftCreated = 0, pi_ftLastModified = 0,
      pi_dwAttributes = no_attributes, pi_bPartType = 0\<rparr>"

definition getinfo_request :: io_request where
  "getinfo_request = \<lparr>io_in = Buffer [], nInBufSize = 24, io_out = True, nOutBufSize = 24\<rparr>"

text \<open>The geometry that the device reports on the new or the old request; zero if it answers neither.\<close>

definition null_geometry :: "'d stg_env \<Rightarrow> nat \<Rightarrow> 'd machine \<Rightarrow> DISK_INFO \<times> 'd machine" where
  "null_geometry env h m =
     (case os_DeviceIoControl env h IOCTL_DISK_GETINFO getinfo_request m of
        (True, Disk_Geometry di, m) \<Rightarrow> (di, m)
      | (True, _, m) \<Rightarrow> (zero_disk_info, m)
      | (False, _, m) \<Rightarrow>
          (case os_DeviceIoControl env h DISK_IOCTL_GETINFO getinfo_request m of
             (True, Disk_Geometry di, m) \<Rightarrow> (di, m)
           | (_, _, m) \<Rightarrow> (zero_disk_info, m)))"

definition null_OpenStore :: "nat \<Rightarrow> nat \<Rightarrow> 'd machine \<Rightarrow> nat option \<times> nat \<times> 'd machine" where
  "null_OpenStore hDisk dwStoreId m = (Some ERROR_SUCCESS, hDisk, m)"

definition null_CloseStore :: "nat \<Rightarrow> 'd machine \<Rightarrow> 'd machine" where
  "null_CloseStore dwStoreId m = m"

definition null_FormatStore :: "nat \<Rightarrow> 'd machine \<Rightarrow> nat option \<times> 'd machine" where
  "null_FormatStore dwStoreId m = (Some ERROR_GEN_FAILURE, m)"

definition null_IsStoreFormatted :: "nat \<Rightarrow> 'd machine \<Rightarrow> nat option \<times> 'd machine" where
  "null_IsStoreFormatted dwStoreId m = (Some ERROR_SUCCESS, m)"

text \<open>It returns \<open>TRUE\<close>, which is not \<open>ERROR_SUCCESS\<close>.\<close>

definition null_GetStoreInfo :: "'d stg_env \<Rightarrow> nat \<Rightarrow> PD_STOREINFO \<Rightarrow> 'd machine \<Rightarrow> nat option \<times> PD_STOREINFO \<times> 'd machine" where
  "null_GetStoreInfo env dwStoreId pInfo m =
     (let (di, m) = null_geometry env dwStoreId m
      in (Some 1, zero_storeinfo\<lparr>si_dwBytesPerSector := di_bytes_per_sect di, si_snNumSectors := di_total_sectors di\<rparr>, m))"

definition null_CreatePartition :: "nat \<Rightarrow> string \<Rightarrow> BYTE \<Rightarrow> nat \<Rightarrow> bool \<Rightarrow> 'd machine \<Rightarrow> nat option \<times> 'd machine" where
  "null_CreatePartition dwStoreId szPartName bPartType numSectors bAuto m = (Some ERROR_GEN_FAILURE, m)"

definition null_DeletePartition :: "nat \<Rightarrow> string \<Rightarrow> 'd machine \<Rightarrow> nat option \<times> 'd machine" where
  "null_DeletePartition dwStoreId szPartName m = (Some ERROR_GEN_FAILURE, m)"

definition null_RenamePartition :: "nat \<Rightarrow> string \<Rightarrow> string \<Rightarrow> 'd machine \<Rightarrow> nat option \<times> 'd machine" where
  "null_RenamePartition dwStoreId szOldName szNewName m = (Some ERROR_GEN_FAILURE, m)"

definition null_SetPartitionAttrs :: "nat \<Rightarrow> string \<Rightarrow> nat \<Rightarrow> 'd machine \<Rightarrow> nat option \<times> 'd machine" where
  "null_SetPartitionAttrs dwStoreId szPartName dwAttr m = (Some ERROR_GEN_FAILURE, m)"

definition null_SetPartitionSize :: "nat \<Rightarrow> string \<Rightarrow> nat \<Rightarrow> 'd machine \<Rightarrow> nat option \<times> 'd machine" where
  "null_SetPartitionSize dwStoreId szPartName numSectors m = (Some ERROR_GEN_FAILURE, m)"

definition null_FormatPartition :: "nat \<Rightarrow> string \<Rightarrow> BYTE \<Rightarrow> bool \<Rightarrow> 'd machine \<Rightarrow> nat option \<times> 'd machine" where
  "null_FormatPartition dwStoreId szPartName bPartType bAuto m = (Some ERROR_GEN_FAILURE, m)"

definition null_GetPartitionInfo :: "'d stg_env \<Rightarrow> nat \<Rightarrow> string \<Rightarrow> PD_PARTINFO \<Rightarrow> 'd machine \<Rightarrow> nat option \<times> PD_PARTINFO \<times> 'd machine" where
  "null_GetPartitionInfo env dwStoreId szPartName pInfo m =
     (let (di, m) = null_geometry env dwStoreId m
      in (Some 1, zero_partinfo\<lparr>pi_snNumSectors := di_total_sectors di, pi_bPartType := 4\<rparr>, m))"

text \<open>A search is an allocated number: the store that is still to be shown, zero afterwards.\<close>

definition null_FindPartitionStart :: "'d stg_env \<Rightarrow> nat \<Rightarrow> nat \<Rightarrow> 'd machine \<Rightarrow> nat option \<times> nat \<times> 'd machine" where
  "null_FindPartitionStart env dwStoreId dwSearchId m =
     (case alloc_object env m of
        (False, m) \<Rightarrow> (Some ERROR_OUTOFMEMORY, dwSearchId, m)
      | (True, m) \<Rightarrow>
          (Some ERROR_SUCCESS, mc_next m,
           m\<lparr>mc_next := mc_next m + 1, mc_searches := (mc_searches m)(mc_next m \<mapsto> dwStoreId)\<rparr>))"

definition null_FindPartitionNext :: "'d stg_env \<Rightarrow> nat \<Rightarrow> PD_PARTINFO \<Rightarrow> 'd machine \<Rightarrow> nat option \<times> PD_PARTINFO \<times> 'd machine" where
  "null_FindPartitionNext env dwSearchId pInfo m =
     (case mc_searches m dwSearchId of
        None \<Rightarrow> (None, pInfo, m)
      | Some s \<Rightarrow>
          if s \<noteq> 0
          then let (di, m) = null_geometry env s m
               in (Some ERROR_SUCCESS,
                   zero_partinfo\<lparr>szPartitionName := ''PART00'', pi_snNumSectors := di_total_sectors di, pi_bPartType := 4\<rparr>,
                   m\<lparr>mc_searches := (mc_searches m)(dwSearchId \<mapsto> 0)\<rparr>)
          else (Some ERROR_NO_MORE_FILES, pInfo, m))"

definition null_FindPartitionClose :: "nat \<Rightarrow> 'd machine \<Rightarrow> 'd machine" where
  "null_FindPartitionClose dwSearchId m = m\<lparr>mc_searches := (mc_searches m)(dwSearchId := None)\<rparr>"

definition null_OpenPartition :: "nat \<Rightarrow> string \<Rightarrow> nat \<Rightarrow> 'd machine \<Rightarrow> nat option \<times> nat \<times> 'd machine" where
  "null_OpenPartition dwStoreId szPartName dwPartitionId m = (Some ERROR_SUCCESS, dwStoreId, m)"

definition null_ClosePartition :: "nat \<Rightarrow> 'd machine \<Rightarrow> 'd machine" where
  "null_ClosePartition dwPartitionId m = m"

definition null_DeviceIoControl :: "'d stg_env \<Rightarrow> nat \<Rightarrow> io_code \<Rightarrow> io_request \<Rightarrow> 'd machine \<Rightarrow> nat option \<times> io_answer \<times> 'd machine" where
  "null_DeviceIoControl env dwPartitionId dwCode req m =
     (case os_DeviceIoControl env dwPartitionId dwCode req m of
        (True, answer, m) \<Rightarrow> (Some ERROR_SUCCESS, answer, m)
      | (False, answer, m) \<Rightarrow> (Some (mc_error m), answer, m))"

definition null_driver :: "'d stg_env \<Rightarrow> 'd CPartDriver" where
  "null_driver env =
     \<lparr>m_pOpenStore = null_OpenStore, m_pCloseStore = null_CloseStore, m_pFormatStore = null_FormatStore,
      m_pIsStoreFormatted = null_IsStoreFormatted, m_pGetStoreInfo = null_GetStoreInfo env,
      m_pCreatePartition = null_CreatePartition, m_pDeletePartition = null_DeletePartition,
      m_pRenamePartition = null_RenamePartition, m_pSetPartitionAttrs = null_SetPartitionAttrs,
      m_pSetPartitionSize = null_SetPartitionSize, m_pFormatPartition = null_FormatPartition,
      m_pGetPartitionInfo = null_GetPartitionInfo env, m_pFindPartitionStart = null_FindPartitionStart env,
      m_pFindPartitionNext = null_FindPartitionNext env, m_pFindPartitionClose = null_FindPartitionClose,
      m_pOpenPartition = null_OpenPartition, m_pClosePartition = null_ClosePartition,
      m_pDeviceIoControl = null_DeviceIoControl env\<rparr>"

section \<open>Loading a driver\<close>

definition required_exports :: "string list" where
  "required_exports =
     [''PD_OpenStore'', ''PD_CloseStore'', ''PD_FormatStore'', ''PD_IsStoreFormatted'', ''PD_GetStoreInfo'',
      ''PD_CreatePartition'', ''PD_DeletePartition'', ''PD_RenamePartition'', ''PD_SetPartitionAttrs'',
      ''PD_FormatPartition'', ''PD_GetPartitionInfo'', ''PD_FindPartitionStart'', ''PD_FindPartitionNext'',
      ''PD_FindPartitionClose'', ''PD_OpenPartition'', ''PD_ClosePartition'', ''PD_DeviceIoControl'']"

text \<open>
  An empty name leaves the null driver.  A driver without \<open>PD_SetPartitionSize\<close> gets that of the
  null driver.  When another function is missing its pointer is \<open>NULL\<close>; the caller does not use
  the table after \<open>ERROR_BAD_DRIVER\<close>.
\<close>

definition LoadPartitionDriver :: "'d stg_env \<Rightarrow> string \<Rightarrow> nat \<times> 'd CPartDriver" where
  "LoadPartitionDriver env szPartDriver =
     (if szPartDriver = [] then (ERROR_SUCCESS, null_driver env)
      else case os_LoadPartDriver env szPartDriver of
             None \<Rightarrow> (ERROR_FILE_NOT_FOUND, null_driver env)
           | Some (exports, d) \<Rightarrow>
               let d = (if ''PD_SetPartitionSize'' \<in> set exports then d
                        else d\<lparr>m_pSetPartitionSize := null_SetPartitionSize\<rparr>)
               in (if set required_exports \<subseteq> set exports then ERROR_SUCCESS else ERROR_BAD_DRIVER, d))"

section \<open>Calls\<close>

text \<open>The calls of \<open>CPartDriver\<close>: an exception of the driver becomes \<open>ERROR_GEN_FAILURE\<close>.\<close>

definition caught :: "nat option \<Rightarrow> nat" where
  "caught r = (case r of None \<Rightarrow> ERROR_GEN_FAILURE | Some e \<Rightarrow> e)"

definition drv_OpenStore :: "'d CPartDriver \<Rightarrow> nat \<Rightarrow> nat \<Rightarrow> 'd machine \<Rightarrow> nat \<times> nat \<times> 'd machine" where
  "drv_OpenStore d hDisk sid m = (let (r, x) = m_pOpenStore d hDisk sid m in (caught r, x))"

definition drv_CloseStore :: "'d CPartDriver \<Rightarrow> nat \<Rightarrow> 'd machine \<Rightarrow> 'd machine" where
  "drv_CloseStore d sid m = m_pCloseStore d sid m"

definition drv_FormatStore :: "'d CPartDriver \<Rightarrow> nat \<Rightarrow> 'd machine \<Rightarrow> nat \<times> 'd machine" where
  "drv_FormatStore d sid m = (let (r, x) = m_pFormatStore d sid m in (caught r, x))"

definition drv_IsStoreFormatted :: "'d CPartDriver \<Rightarrow> nat \<Rightarrow> 'd machine \<Rightarrow> nat \<times> 'd machine" where
  "drv_IsStoreFormatted d sid m = (let (r, x) = m_pIsStoreFormatted d sid m in (caught r, x))"

definition drv_GetStoreInfo :: "'d CPartDriver \<Rightarrow> nat \<Rightarrow> PD_STOREINFO \<Rightarrow> 'd machine \<Rightarrow> nat \<times> PD_STOREINFO \<times> 'd machine" where
  "drv_GetStoreInfo d sid info m = (let (r, x) = m_pGetStoreInfo d sid info m in (caught r, x))"

definition drv_CreatePartition :: "'d CPartDriver \<Rightarrow> nat \<Rightarrow> string \<Rightarrow> BYTE \<Rightarrow> nat \<Rightarrow> bool \<Rightarrow> 'd machine \<Rightarrow> nat \<times> 'd machine" where
  "drv_CreatePartition d sid name t n auto m = (let (r, x) = m_pCreatePartition d sid name t n auto m in (caught r, x))"

definition drv_DeletePartition :: "'d CPartDriver \<Rightarrow> nat \<Rightarrow> string \<Rightarrow> 'd machine \<Rightarrow> nat \<times> 'd machine" where
  "drv_DeletePartition d sid name m = (let (r, x) = m_pDeletePartition d sid name m in (caught r, x))"

definition drv_RenamePartition :: "'d CPartDriver \<Rightarrow> nat \<Rightarrow> string \<Rightarrow> string \<Rightarrow> 'd machine \<Rightarrow> nat \<times> 'd machine" where
  "drv_RenamePartition d sid old_name new_name m = (let (r, x) = m_pRenamePartition d sid old_name new_name m in (caught r, x))"

definition drv_SetPartitionAttrs :: "'d CPartDriver \<Rightarrow> nat \<Rightarrow> string \<Rightarrow> nat \<Rightarrow> 'd machine \<Rightarrow> nat \<times> 'd machine" where
  "drv_SetPartitionAttrs d sid name attrs m = (let (r, x) = m_pSetPartitionAttrs d sid name attrs m in (caught r, x))"

definition drv_SetPartitionSize :: "'d CPartDriver \<Rightarrow> nat \<Rightarrow> string \<Rightarrow> nat \<Rightarrow> 'd machine \<Rightarrow> nat \<times> 'd machine" where
  "drv_SetPartitionSize d sid name n m = (let (r, x) = m_pSetPartitionSize d sid name n m in (caught r, x))"

definition drv_FormatPartition :: "'d CPartDriver \<Rightarrow> nat \<Rightarrow> string \<Rightarrow> BYTE \<Rightarrow> bool \<Rightarrow> 'd machine \<Rightarrow> nat \<times> 'd machine" where
  "drv_FormatPartition d sid name t auto m = (let (r, x) = m_pFormatPartition d sid name t auto m in (caught r, x))"

definition drv_GetPartitionInfo :: "'d CPartDriver \<Rightarrow> nat \<Rightarrow> string \<Rightarrow> PD_PARTINFO \<Rightarrow> 'd machine \<Rightarrow> nat \<times> PD_PARTINFO \<times> 'd machine" where
  "drv_GetPartitionInfo d sid name info m = (let (r, x) = m_pGetPartitionInfo d sid name info m in (caught r, x))"

definition drv_FindPartitionStart :: "'d CPartDriver \<Rightarrow> nat \<Rightarrow> nat \<Rightarrow> 'd machine \<Rightarrow> nat \<times> nat \<times> 'd machine" where
  "drv_FindPartitionStart d sid search m = (let (r, x) = m_pFindPartitionStart d sid search m in (caught r, x))"

definition drv_FindPartitionNext :: "'d CPartDriver \<Rightarrow> nat \<Rightarrow> PD_PARTINFO \<Rightarrow> 'd machine \<Rightarrow> nat \<times> PD_PARTINFO \<times> 'd machine" where
  "drv_FindPartitionNext d search info m = (let (r, x) = m_pFindPartitionNext d search info m in (caught r, x))"

definition drv_FindPartitionClose :: "'d CPartDriver \<Rightarrow> nat \<Rightarrow> 'd machine \<Rightarrow> 'd machine" where
  "drv_FindPartitionClose d search m = m_pFindPartitionClose d search m"

definition drv_OpenPartition :: "'d CPartDriver \<Rightarrow> nat \<Rightarrow> string \<Rightarrow> nat \<Rightarrow> 'd machine \<Rightarrow> nat \<times> nat \<times> 'd machine" where
  "drv_OpenPartition d sid name pid m = (let (r, x) = m_pOpenPartition d sid name pid m in (caught r, x))"

definition drv_ClosePartition :: "'d CPartDriver \<Rightarrow> nat \<Rightarrow> 'd machine \<Rightarrow> 'd machine" where
  "drv_ClosePartition d pid m = m_pClosePartition d pid m"

definition drv_DeviceIoControl :: "'d CPartDriver \<Rightarrow> nat \<Rightarrow> io_code \<Rightarrow> io_request \<Rightarrow> 'd machine \<Rightarrow> nat \<times> io_answer \<times> 'd machine" where
  "drv_DeviceIoControl d pid code req m = (let (r, x) = m_pDeviceIoControl d pid code req m in (caught r, x))"

end
