(* ===== verification/Store_Registry.thy ===== *)
theory Store_Registry
  imports Part_Driver
begin

text \<open>
  Reading the registry: the helpers of \<open>fsdhelper.cpp\<close>, the names of \<open>storestr.cpp\<close>, the settings
  of a store (\<open>GetStoreSettings\<close>, \<open>GetPartitionDriver\<close>) and the mount flags.  An open key is the
  path it was opened with; \<open>None\<close> is the null key, on which every query fails.
\<close>

section \<open>Helpers\<close>

type_synonym hkey = "string option"

definition sub_path :: "string \<Rightarrow> string \<Rightarrow> string" where
  "sub_path p n = p @ [CHR 0x5C] @ n"

definition FsdRegOpenKey :: "'d machine \<Rightarrow> string \<Rightarrow> hkey" where
  "FsdRegOpenKey m szSubKey = (if mc_registry m szSubKey = None then None else Some szSubKey)"

definition FsdRegOpenSubKey :: "'d machine \<Rightarrow> string \<Rightarrow> string \<Rightarrow> hkey" where
  "FsdRegOpenSubKey m root szSubKey =
     (if szSubKey = [] then Some root else FsdRegOpenKey m (sub_path root szSubKey))"

definition RegQueryValueEx :: "'d machine \<Rightarrow> hkey \<Rightarrow> string \<Rightarrow> reg_value option" where
  "RegQueryValueEx m hKey name =
     Option.bind hKey (\<lambda>p. Option.bind (mc_registry m p) (\<lambda>k. k name))"

definition FsdGetRegistryValue :: "'d machine \<Rightarrow> hkey \<Rightarrow> string \<Rightarrow> DWORD option" where
  "FsdGetRegistryValue m hKey szValueName =
     (case RegQueryValueEx m hKey szValueName of Some (REG_DWORD v) \<Rightarrow> Some v | _ \<Rightarrow> None)"

text \<open>The string with its terminator has to fit into the buffer; otherwise the buffer gets the empty string.\<close>

definition FsdGetRegistryString :: "'d machine \<Rightarrow> hkey \<Rightarrow> string \<Rightarrow> nat \<Rightarrow> string option" where
  "FsdGetRegistryString m hKey szValueName dwSize =
     (case RegQueryValueEx m hKey szValueName of
        Some (REG_SZ s) \<Rightarrow> if length s + 1 > dwSize then None else Some s
      | _ \<Rightarrow> None)"

definition FsdLoadFlag :: "'d machine \<Rightarrow> hkey \<Rightarrow> string \<Rightarrow> DWORD \<Rightarrow> DWORD \<Rightarrow> bool \<times> DWORD" where
  "FsdLoadFlag m hKey szValueName flags dwSet =
     (case FsdGetRegistryValue m hKey szValueName of
        Some v \<Rightarrow> (True, if v = 1 then flags OR dwSet else flags AND NOT dwSet)
      | None \<Rightarrow> (False, flags))"

text \<open>The same on a flag that is a field.\<close>

definition load_field :: "'d machine \<Rightarrow> hkey \<Rightarrow> string \<Rightarrow> bool option" where
  "load_field m hKey szValueName = map_option (\<lambda>v. v = 1) (FsdGetRegistryValue m hKey szValueName)"

section \<open>Names\<close>

definition g_szSTORAGE_PATH :: string where "g_szSTORAGE_PATH = sub_path ''System'' ''StorageManager''"
definition g_szPROFILE_PATH :: string where "g_szPROFILE_PATH = sub_path g_szSTORAGE_PATH ''Profiles''"
definition g_szAUTOLOAD_PATH :: string where "g_szAUTOLOAD_PATH = sub_path g_szSTORAGE_PATH ''AutoLoad''"
definition g_szDEFAULT_PARTITION_DRIVER :: string where "g_szDEFAULT_PARTITION_DRIVER = ''mspart.dll''"
definition g_szDEFAULT_FILESYSTEM :: string where "g_szDEFAULT_FILESYSTEM = ''FATFS''"
definition g_szDEFAULT_STORAGE_NAME :: string where "g_szDEFAULT_STORAGE_NAME = ''External Storage''"
definition g_szDEFAULT_FOLDER_NAME :: string where "g_szDEFAULT_FOLDER_NAME = ''Mounted Volume''"
definition g_szDEFAULT_ACTIVITY_NAME :: string where "g_szDEFAULT_ACTIVITY_NAME = []"

definition AFS_FLAG_HIDDEN :: DWORD where "AFS_FLAG_HIDDEN = 1"
definition AFS_FLAG_BOOTABLE :: DWORD where "AFS_FLAG_BOOTABLE = 2"
definition AFS_FLAG_ROOTFS :: DWORD where "AFS_FLAG_ROOTFS = 4"
definition AFS_FLAG_MOUNTROM :: DWORD where "AFS_FLAG_MOUNTROM = 16"
definition AFS_FLAG_SYSTEM :: DWORD where "AFS_FLAG_SYSTEM = 32"
definition AFS_FLAG_PERMANENT :: DWORD where "AFS_FLAG_PERMANENT = 64"
definition MOUNTFLAGS_TYPE_NODISMOUNT :: DWORD where "MOUNTFLAGS_TYPE_NODISMOUNT = 0x10000"

section \<open>Mount flags\<close>

definition load_mount_flag :: "'d machine \<Rightarrow> hkey \<Rightarrow> string \<times> DWORD \<Rightarrow> DWORD \<Rightarrow> DWORD" where
  "load_mount_flag m hKey nf flags = snd (FsdLoadFlag m hKey (fst nf) flags (snd nf))"

definition mount_flag_names :: "(string \<times> DWORD) list" where
  "mount_flag_names =
     [(''MountAsBootable'', AFS_FLAG_BOOTABLE), (''MountAsROM'', AFS_FLAG_MOUNTROM),
      (''MountHidden'', AFS_FLAG_HIDDEN), (''MountAsRoot'', AFS_FLAG_ROOTFS),
      (''MountSystem'', AFS_FLAG_SYSTEM), (''MountPermanent'', AFS_FLAG_PERMANENT)]"

definition GetMountSettings :: "'d machine \<Rightarrow> hkey \<Rightarrow> DWORD \<Rightarrow> DWORD" where
  "GetMountSettings m hKey flags =
     fold (load_mount_flag m hKey) mount_flag_names
       (case FsdGetRegistryValue m hKey ''MountFlags'' of Some v \<Rightarrow> v | None \<Rightarrow> flags)"

section \<open>Settings of a store\<close>

text \<open>Looking a value up in the profile, then in the key of the storage manager, with a default.\<close>

definition in_profile :: "(hkey \<Rightarrow> 'v option) \<Rightarrow> hkey \<Rightarrow> hkey \<Rightarrow> 'v \<Rightarrow> 'v" where
  "in_profile query hKeyProfile hKeyStorage dflt =
     (case (if hKeyProfile = None then None else query hKeyProfile) of
        Some v \<Rightarrow> v
      | None \<Rightarrow> case query hKeyStorage of Some v \<Rightarrow> v | None \<Rightarrow> dflt)"

text \<open>
  The name generated from the name of the driver: \<open>wcsncpy\<close> copies 32 characters into an array of
  32, so a longer name has no terminator and runs on into the next member, the driver name, where
  the search for a period may write.
\<close>

definition generated_name :: "string \<Rightarrow> string \<times> string" where
  "generated_name drv =
     (if CHR ''.'' \<in> set (take 32 drv) \<or> length drv < 32
      then (takeWhile (\<lambda>c. c \<noteq> CHR ''.'') (take 32 drv), drv)
      else (take 32 drv @ takeWhile (\<lambda>c. c \<noteq> CHR ''.'') drv, takeWhile (\<lambda>c. c \<noteq> CHR ''.'') drv))"

text \<open>The driver name of the profile, the driver of the profile (legacy), the driver name of the storage key.\<close>

definition driver_choice :: "'d machine \<Rightarrow> hkey \<Rightarrow> hkey \<Rightarrow> string option \<times> string option" where
  "driver_choice m hKeyStorage hKeyProfile =
     (let name = (if hKeyProfile = None then None else FsdGetRegistryString m hKeyProfile ''PartitionDriverName'' 32);
          drv = (if name = None \<and> hKeyProfile \<noteq> None then FsdGetRegistryString m hKeyProfile ''PartitionDriver'' MAX_PATH else None);
          name = (if name = None \<and> drv = None \<and> hKeyStorage \<noteq> None
                  then FsdGetRegistryString m hKeyStorage ''PartitionDriverName'' 32 else name)
      in (name, drv))"

text \<open>The module that a driver name stands for, in the sub key of the profile or of the storage manager.\<close>

definition named_driver :: "'d machine \<Rightarrow> hkey \<Rightarrow> hkey \<Rightarrow> string \<Rightarrow> string option" where
  "named_driver m hKeyStorage hKeyProfile name =
     (let drv = (case hKeyProfile of
                   None \<Rightarrow> None
                 | Some p \<Rightarrow> FsdGetRegistryString m (FsdRegOpenSubKey m p name) ''Dll'' MAX_PATH)
      in if drv = None \<and> hKeyStorage \<noteq> None
         then FsdGetRegistryString m (FsdRegOpenKey m (bounded_copy MAX_PATH (sub_path g_szSTORAGE_PATH name))) ''Dll'' MAX_PATH
         else drv)"

definition GetPartitionDriver :: "'d machine \<Rightarrow> hkey \<Rightarrow> hkey \<Rightarrow> 'd CStore \<Rightarrow> 'd CStore" where
  "GetPartitionDriver m hKeyStorage hKeyProfile s =
     (let (name, drv) = driver_choice m hKeyStorage hKeyProfile;
          drv = (case name of
                   Some n \<Rightarrow> if drv = None then named_driver m hKeyStorage hKeyProfile n else drv
                 | None \<Rightarrow> drv);
          d = (case drv of Some d \<Rightarrow> d | None \<Rightarrow> g_szDEFAULT_PARTITION_DRIVER);
          (gen, d') = generated_name d
      in case name of
           Some n \<Rightarrow> s\<lparr>m_szPartDriverName := n, m_szPartDriver := d\<rparr>
         | None \<Rightarrow> s\<lparr>m_szPartDriverName := gen, m_szPartDriver := d'\<rparr>)"

definition GetStoreSettings :: "'d stg_env \<Rightarrow> 'd machine \<Rightarrow> 'd CStore \<Rightarrow> 'd CStore" where
  "GetStoreSettings env m s =
     (case FsdRegOpenKey m g_szPROFILE_PATH of
        None \<Rightarrow> GetPartitionDriver m None None s
      | Some storage \<Rightarrow>
          let root = bounded_copy MAX_PATH (sub_path g_szPROFILE_PATH (szProfile (m_sdi s)));
              hs = Some storage;
              hp = FsdRegOpenKey m root;
              flag = (\<lambda>name dflt. in_profile (\<lambda>k. load_field m k name) hp hs dflt);
              str = (\<lambda>name n dflt. in_profile (\<lambda>k. FsdGetRegistryString m k name n) hp hs dflt);
              f = m_dwFlags s;
              attribs = in_profile (\<lambda>k. FsdGetRegistryValue m k ''Attrib'') hp hs 0;
              f = f\<lparr>STORE_ATTRIBUTE_AUTOMOUNT := flag ''AutoMount'' True,
                    STORE_ATTRIBUTE_AUTOFORMAT := flag ''AutoFormat'' (STORE_ATTRIBUTE_AUTOFORMAT f),
                    STORE_ATTRIBUTE_AUTOPART := flag ''AutoPart'' (STORE_ATTRIBUTE_AUTOPART f),
                    STORE_FLAG_ACTIVITYTIMER := flag ''EnableActivityEvent'' True,
                    STORE_ATTRIBUTE_READONLY := (attribs AND 1 \<noteq> 0 \<or> STORE_ATTRIBUTE_READONLY f)\<rparr>
          in GetPartitionDriver m hs hp
               (s\<lparr>m_szRootRegKey := root, m_dwFlags := f,
                  m_szDefaultFileSystem := str ''DefaultFileSystem'' MAX_PATH g_szDEFAULT_FILESYSTEM,
                  s_szFolderName := str ''Folder'' (FOLDERNAMESIZE env) g_szDEFAULT_FOLDER_NAME,
                  m_szStoreName := str ''Name'' (STORENAMESIZE env) g_szDEFAULT_STORAGE_NAME,
                  m_szActivityName := str ''ActivityEvent'' MAX_PATH g_szDEFAULT_ACTIVITY_NAME,
                  s_dwMountFlags := GetMountSettings m hp (GetMountSettings m hs (s_dwMountFlags s))\<rparr>))"

end
