(* ===== verification/Store_Handles.thy ===== *)
theory Store_Handles
  imports Store_Registry
begin

text \<open>
  The lists of open handles (\<open>storemain.cpp\<close>): adding and removing a handle object, what happens
  to the handles of a partition or store that is deleted, and the close function that the kernel
  calls for a handle.  A pointer into an object that has been deleted is an access violation, which
  the entry points catch.
\<close>

definition AddHandleToList :: "nat \<Rightarrow> nat list \<Rightarrow> nat list" where
  "AddHandleToList pHandle root = pHandle # root"

text \<open>\<open>None\<close>: the handle is not in the list.\<close>

fun DeleteHandleFromList :: "nat list \<Rightarrow> nat \<Rightarrow> nat list option" where
  "DeleteHandleFromList [] pHandle = None"
| "DeleteHandleFromList (a # as) pHandle =
     (if a = pHandle then Some as else map_option ((#) a) (DeleteHandleFromList as pHandle))"

text \<open>
  \<open>part\<close> is the partition that is deleted and its successor in the list of the store, \<open>store\<close> the
  same for a store.  A search moves on to the successor and is marked, so that the next step
  reports it; another handle becomes invalid.
\<close>

definition update_partition :: "(nat \<times> pointer) option \<Rightarrow> CStoreHandle \<Rightarrow> CStoreHandle" where
  "update_partition part h =
     (case part of
        None \<Rightarrow> h
      | Some (a, nxt) \<Rightarrow>
          if h_pPartition h = Addr a
          then if STOREHANDLE_TYPE_SEARCH h then h\<lparr>h_pPartition := nxt, STOREHANDLE_TYPE_CURRENT := True\<rparr>
               else h\<lparr>h_pPartition := INVALID_POINTER\<rparr>
          else h)"

definition update_store :: "(nat \<times> pointer) option \<Rightarrow> CStoreHandle \<Rightarrow> CStoreHandle" where
  "update_store store h =
     (case store of
        None \<Rightarrow> h
      | Some (a, nxt) \<Rightarrow>
          if h_pStore h = Addr a
          then if STOREHANDLE_TYPE_SEARCH h then h\<lparr>h_pStore := nxt, STOREHANDLE_TYPE_CURRENT := True\<rparr>
               else h\<lparr>h_pStore := INVALID_POINTER\<rparr>
          else h)"

fun UpdateHandleFromList :: "nat list \<Rightarrow> (nat \<times> pointer) option \<Rightarrow> (nat \<times> pointer) option \<Rightarrow> 'd stg \<Rightarrow> 'd stg" where
  "UpdateHandleFromList [] store part st = st"
| "UpdateHandleFromList (a # as) store part st =
     UpdateHandleFromList as store part
       (st\<lparr>handle_heap := (handle_heap st)(a := map_option (update_store store \<circ> update_partition part) (handle_heap st a))\<rparr>)"

section \<open>Closing a handle\<close>

definition stg_error :: "nat \<Rightarrow> 'd stg \<Rightarrow> 'd stg" where
  "stg_error e st = st\<lparr>machine := put_error e (machine st)\<rparr>"

definition drop_store_handle :: "nat \<Rightarrow> nat list \<Rightarrow> nat \<Rightarrow> 'd stg \<Rightarrow> 'd stg" where
  "drop_store_handle s l a st = delete_handle a (st\<lparr>m_pRootHandle := (m_pRootHandle st)(s \<mapsto> l)\<rparr>)"

definition STG_CloseHandle :: "nat \<Rightarrow> 'd stg \<Rightarrow> bool \<times> 'd stg" where
  "STG_CloseHandle a st =
     (case handle_heap st a of
        None \<Rightarrow> (False, stg_error ERROR_BAD_ARGUMENTS st)
      | Some h \<Rightarrow>
          if h_pStore h \<noteq> NULL \<and> dwSig h = PART_HANDLE_SIG
          then (case h_pStore h of
                  Addr s \<Rightarrow>
                    (case m_pRootHandle st s of
                       None \<Rightarrow> (False, stg_error ERROR_BAD_ARGUMENTS st)
                     | Some root \<Rightarrow>
                         (case DeleteHandleFromList root a of
                            Some l \<Rightarrow> (True, drop_store_handle s l a st)
                          | None \<Rightarrow> (False, st)))
                | _ \<Rightarrow> (True, st))
          else case DeleteHandleFromList (g_pRootHandle st) a of
                 Some l \<Rightarrow> (True, delete_handle a (st\<lparr>g_pRootHandle := l\<rparr>))
               | None \<Rightarrow> (True, st))"

definition ERROR_INVALID_HANDLE :: nat where "ERROR_INVALID_HANDLE = 6"

text \<open>The kernel forgets the handle and calls the close function of its object.\<close>

definition CloseStoreHandle :: "nat \<Rightarrow> 'd stg \<Rightarrow> bool \<times> 'd stg" where
  "CloseStoreHandle h st =
     (case api_handles st h of
        Some (STRG, a) \<Rightarrow> STG_CloseHandle a (st\<lparr>api_handles := (api_handles st)(h := None)\<rparr>)
      | _ \<Rightarrow> (False, stg_error ERROR_INVALID_HANDLE st))"

section \<open>Lemmas\<close>

lemma DeleteHandleFromList_None: "DeleteHandleFromList l a = None \<longleftrightarrow> a \<notin> set l"
  by (induction l) auto

lemma DeleteHandleFromList_Some: "DeleteHandleFromList l a = Some r \<longleftrightarrow> a \<in> set l \<and> r = remove1 a l"
  by (induction l arbitrary: r) (auto simp: DeleteHandleFromList_None)

lemma UpdateHandleFromList_lists [simp]:
  "machine (UpdateHandleFromList l store part st) = machine st"
  "stg_next (UpdateHandleFromList l store part st) = stg_next st"
  "m_pRootHandle (UpdateHandleFromList l store part st) = m_pRootHandle st"
  "g_pRootHandle (UpdateHandleFromList l store part st) = g_pRootHandle st"
  "api_handles (UpdateHandleFromList l store part st) = api_handles st"
  by (induction l arbitrary: st) auto

lemma update_partition_other: "h_pPartition h \<noteq> Addr a \<Longrightarrow> update_partition (Some (a, nxt)) h = h"
  by (simp add: update_partition_def)

lemma UpdateHandleFromList_heap:
  "distinct l \<Longrightarrow> handle_heap (UpdateHandleFromList l store part st) x =
     (if x \<in> set l then map_option (update_store store \<circ> update_partition part) (handle_heap st x) else handle_heap st x)"
  by (induction l arbitrary: st) auto

end
