(* ===== verification/Store_Partition.thy ===== *)
theory Store_Partition
  imports Store_Handles
begin

text \<open>
  A partition of a store (\<open>partition.cpp\<close>): its registry settings, mounting a file system on it,
  unmounting, renaming, formatting, and the requests of a file system.
\<close>

section \<open>Construction and information\<close>

definition CPartition_new :: "'d stg_env \<Rightarrow> nat \<Rightarrow> nat \<Rightarrow> nat \<Rightarrow> string \<Rightarrow> CPartition" where
  "CPartition_new env a dwStoreId dwPartitionId szFolderName =
     \<lparr>p_addr = a, m_dwPartitionId = dwPartitionId, m_pi = zero_partinfo, PARTITION_ATTRIBUTE_MOUNTED = False,
      m_szPartitionName = [], p_szFolderName = bounded_copy (FOLDERNAMESIZE env) szFolderName, m_szModuleName = [],
      m_szFriendlyName = [], m_szFileSys = [], m_szRootKey = [], p_dwStoreId = dwStoreId, m_hFSD = None,
      m_pDsk = None, p_dwMountFlags = 0, m_hPartition = 0\<rparr>"

definition CPartition_LoadPartition :: "'d stg_env \<Rightarrow> 'd CPartDriver \<Rightarrow> string \<Rightarrow> CPartition \<Rightarrow> 'd machine \<Rightarrow> CPartition \<times> 'd machine" where
  "CPartition_LoadPartition env d name p m =
     (let (_, pi, m) = drv_GetPartitionInfo d (p_dwStoreId p) name (m_pi p) m
      in (p\<lparr>m_szPartitionName := bounded_copy (PARTITIONNAMESIZE env) name, m_pi := pi\<rparr>, m))"

definition CPartition_GetPartitionInfo :: "'d stg_env \<Rightarrow> CPartition \<Rightarrow> PARTINFO" where
  "CPartition_GetPartitionInfo env p =
     \<lparr>o_bPartType = pi_bPartType (m_pi p), o_mounted = PARTITION_ATTRIBUTE_MOUNTED p,
      o_ftCreated = pi_ftCreated (m_pi p), o_ftLastModified = pi_ftLastModified (m_pi p),
      o_snNumSectors = pi_snNumSectors (m_pi p),
      o_szPartitionName = bounded_copy (PARTITIONNAMESIZE env) (m_szPartitionName p),
      o_szFileSys = bounded_copy (FILESYSNAMESIZE env)
                      (if m_szFriendlyName p \<noteq> [] then m_szFriendlyName p else m_szFileSys p),
      o_szVolumeName = (case m_pDsk p of
                          Some dsk \<Rightarrow> (case pVol dsk of
                                         Some vol \<Rightarrow> if m_hFSD p \<noteq> None then bounded_copy (VOLUMENAMESIZE env) (wsVol vol) else []
                                       | None \<Rightarrow> [])
                        | None \<Rightarrow> [])\<rparr>"

section \<open>Settings of the file system\<close>

definition hex_digit :: "nat \<Rightarrow> char" where
  "hex_digit n = ''0123456789abcdef'' ! n"

text \<open>The type of a partition as two hexadecimal digits.\<close>

definition part_type_name :: "BYTE \<Rightarrow> string" where
  "part_type_name t = (let n = unat t in [hex_digit (n div 16), hex_digit (n mod 16)])"

definition query_fsd :: "'d machine \<Rightarrow> CPartition \<Rightarrow> (hkey \<Rightarrow> 'v option) \<Rightarrow> 'v option" where
  "query_fsd m p query =
     (let here = Option.bind (FsdRegOpenKey m (bounded_copy MAX_PATH (sub_path (m_szRootKey p) (m_szFileSys p)))) (\<lambda>k. query (Some k))
      in if here = None
         then Option.bind (FsdRegOpenKey m (bounded_copy MAX_PATH (sub_path g_szSTORAGE_PATH (m_szFileSys p)))) (\<lambda>k. query (Some k))
         else here)"

definition GetFSDString :: "'d machine \<Rightarrow> CPartition \<Rightarrow> string \<Rightarrow> nat \<Rightarrow> bool \<times> string" where
  "GetFSDString m p szValueName dwValueSize =
     (case query_fsd m p (\<lambda>k. FsdGetRegistryString m k szValueName dwValueSize) of
        Some s \<Rightarrow> (True, s) | None \<Rightarrow> (False, []))"

definition GetFSDValue :: "'d machine \<Rightarrow> CPartition \<Rightarrow> string \<Rightarrow> bool \<times> DWORD" where
  "GetFSDValue m p szValueName =
     (case query_fsd m p (\<lambda>k. FsdGetRegistryValue m k szValueName) of
        Some v \<Rightarrow> (True, v) | None \<Rightarrow> (False, 0))"

text \<open>The file system for the type of the partition, from the table of the profile or of the storage manager.\<close>

definition file_system_of :: "'d stg_env \<Rightarrow> 'd machine \<Rightarrow> string \<Rightarrow> BYTE \<Rightarrow> string \<Rightarrow> string" where
  "file_system_of env m root t dflt =
     (let key = FsdRegOpenKey m (bounded_copy MAX_PATH (sub_path root ''PartitionTable''));
          key = (if key = None then FsdRegOpenKey m (bounded_copy MAX_PATH (sub_path g_szSTORAGE_PATH ''PartitionTable'')) else key)
      in case FsdGetRegistryString m key (part_type_name t) (FILESYSNAMESIZE env) of
           Some fs \<Rightarrow> fs
         | None \<Rightarrow> bounded_copy (FILESYSNAMESIZE env) dflt)"

definition override_folder :: "'d stg_env \<Rightarrow> 'd machine \<Rightarrow> hkey \<Rightarrow> string \<Rightarrow> string" where
  "override_folder env m key folder =
     (case FsdGetRegistryString m key ''Folder'' (FOLDERNAMESIZE env) of Some f \<Rightarrow> f | None \<Rightarrow> folder)"

text \<open>
  The first part of \<open>MountPartition\<close>: root key, file system, folder and mount flags of the
  partition; the result says whether the platform is asked about formatting.
\<close>

definition mount_settings :: "'d stg_env \<Rightarrow> 'd machine \<Rightarrow> string \<Rightarrow> string \<Rightarrow> DWORD \<Rightarrow> CPartition \<Rightarrow> bool \<times> CPartition" where
  "mount_settings env m szRootRegKey szDefaultFileSystem dwMountFlags p =
     (let root = bounded_copy MAX_PATH szRootRegKey;
          value = (\<lambda>k. FsdGetRegistryValue m k ''CheckForFormat'');
          check = (case value (FsdRegOpenKey m root) of Some v \<Rightarrow> v | None \<Rightarrow> 0);
          fs = file_system_of env m root (pi_bPartType (m_pi p)) szDefaultFileSystem;
          fsKey = FsdRegOpenKey m (bounded_copy MAX_PATH (sub_path root fs));
          flags = (if fsKey = None then dwMountFlags else GetMountSettings m fsKey dwMountFlags);
          check = (case value fsKey of Some v \<Rightarrow> v | None \<Rightarrow> check);
          folder = override_folder env m fsKey (p_szFolderName p);
          partKey = FsdRegOpenKey m (bounded_copy MAX_PATH (sub_path root (m_szPartitionName p)));
          flags = (if partKey = None then flags else GetMountSettings m partKey flags);
          folder = override_folder env m partKey folder
      in (check = 1,
          p\<lparr>m_szRootKey := root, m_szFileSys := fs, p_szFolderName := folder, p_dwMountFlags := flags\<rparr>))"

section \<open>Operations\<close>

definition CPartition_FormatPartition :: "'d CPartDriver \<Rightarrow> BYTE \<Rightarrow> bool \<Rightarrow> CPartition \<Rightarrow> 'd machine \<Rightarrow> bool \<times> CPartition \<times> 'd machine" where
  "CPartition_FormatPartition d bPartType bAuto p m =
     (case drv_FormatPartition d (p_dwStoreId p) (m_szPartitionName p) bPartType bAuto m of
        (e, m) \<Rightarrow>
          if e = ERROR_SUCCESS
          then let (_, pi, m) = drv_GetPartitionInfo d (p_dwStoreId p) (m_szPartitionName p) (m_pi p) m
               in (True, p\<lparr>m_pi := pi\<rparr>, m)
          else (False, p, put_error e m))"

text \<open>
  Loading the module of the file system and starting it.  The name shown for the file system is
  read from the same value as the module.
\<close>

definition start_file_system :: "'d stg_env \<Rightarrow> string \<Rightarrow> nat \<Rightarrow> bool \<Rightarrow> CPartition \<Rightarrow> 'd machine \<Rightarrow> CPartition \<times> 'd machine" where
  "start_file_system env szRootRegKey hActivityEvent bFormat p m =
     (let p = p\<lparr>m_szModuleName := snd (GetFSDString m p ''Dll'' MAX_PATH),
                m_szFriendlyName := snd (GetFSDString m p ''Dll'' MAX_PATH)\<rparr>
      in if os_LoadFSD env (m_szModuleName p)
         then let fid = \<lparr>fid_hFSD = m_szModuleName p, fid_hDsk = p_addr p, fid_hPartition = m_hPartition p,
                         fid_hActivityEvent = hActivityEvent, fid_dwFlags = p_dwMountFlags p,
                         fid_szRegKey = bounded_copy MAX_PATH szRootRegKey,
                         fid_szFileSysName = bounded_copy (FILESYSNAMESIZE env) (m_szFileSys p),
                         fid_szDiskName = bounded_copy MAX_PATH (m_szPartitionName p), fid_bFormat = bFormat\<rparr>;
                  (dsk, m) = fsd_InitEx env fid m
              in (p\<lparr>m_hFSD := Some (m_szModuleName p), m_pDsk := dsk\<rparr>, m)
         else (p\<lparr>m_hFSD := None\<rparr>, m))"

definition CPartition_MountPartition ::
  "'d stg_env \<Rightarrow> 'd CPartDriver \<Rightarrow> STOREINFO \<Rightarrow> nat \<Rightarrow> string \<Rightarrow> string \<Rightarrow> DWORD \<Rightarrow> nat \<Rightarrow> bool \<Rightarrow> CPartition \<Rightarrow> 'd machine
    \<Rightarrow> bool \<times> CPartition \<times> 'd machine" where
  "CPartition_MountPartition env d si hPartition szRootRegKey szDefaultFileSystem dwMountFlags hActivityEvent bFormat p m =
     (let (check, p) = mount_settings env m szRootRegKey szDefaultFileSystem dwMountFlags (p\<lparr>m_hPartition := hPartition\<rparr>);
          (bFormat, p, m) =
            (if check \<and> hal_query_format env si (CPartition_GetPartitionInfo env p) (p_dwMountFlags p)
             then let (_, p, m) = CPartition_FormatPartition d (pi_bPartType (m_pi p)) False p m in (True, p, m)
             else (bFormat, p, m));
          (p, m) = (if m_szFileSys p \<noteq> [] then start_file_system env szRootRegKey hActivityEvent bFormat p m else (p, m))
      in if m_pDsk p \<noteq> None then (True, p\<lparr>PARTITION_ATTRIBUTE_MOUNTED := True\<rparr>, m)
         else (False, p\<lparr>m_hFSD := None\<rparr>, m))"

text \<open>The handle the file system got for its partition is closed at the end.\<close>

definition CPartition_UnmountPartition :: "'d stg_env \<Rightarrow> CPartition \<Rightarrow> 'd stg \<Rightarrow> bool \<times> CPartition \<times> 'd stg" where
  "CPartition_UnmountPartition env p st =
     (if p_dwMountFlags p AND MOUNTFLAGS_TYPE_NODISMOUNT \<noteq> 0 then (False, p, st)
      else let (ok, st) = (case m_pDsk p of None \<Rightarrow> (True, st) | Some dsk \<Rightarrow> on_machine (fsd_DeinitEx env dsk) st)
           in if \<not> ok then (False, p, st)
              else (True, p\<lparr>m_pDsk := None, m_hFSD := None, PARTITION_ATTRIBUTE_MOUNTED := False\<rparr>,
                    snd (CloseStoreHandle (m_hPartition p) st)))"

definition CPartition_RenamePartition :: "'d stg_env \<Rightarrow> 'd CPartDriver \<Rightarrow> string \<Rightarrow> CPartition \<Rightarrow> 'd machine \<Rightarrow> bool \<times> CPartition \<times> 'd machine" where
  "CPartition_RenamePartition env d szNewName p m =
     (case drv_RenamePartition d (p_dwStoreId p) (m_szPartitionName p) szNewName m of
        (e, m) \<Rightarrow> if e = ERROR_SUCCESS then (True, p\<lparr>m_szPartitionName := bounded_copy (PARTITIONNAMESIZE env) szNewName\<rparr>, m)
                  else (False, p, put_error e m))"

text \<open>Here an error of the driver is not made the last error.\<close>

definition CPartition_SetPartitionAttributes :: "'d CPartDriver \<Rightarrow> nat \<Rightarrow> CPartition \<Rightarrow> 'd machine \<Rightarrow> bool \<times> 'd machine" where
  "CPartition_SetPartitionAttributes d dwAttrs p m =
     (let (e, m) = drv_SetPartitionAttrs d (p_dwStoreId p) (m_szPartitionName p) dwAttrs m in (e = ERROR_SUCCESS, m))"

definition CPartition_SetPartitionSize :: "'d CPartDriver \<Rightarrow> nat \<Rightarrow> CPartition \<Rightarrow> 'd machine \<Rightarrow> bool \<times> CPartition \<times> 'd machine" where
  "CPartition_SetPartitionSize d n p m =
     (case drv_SetPartitionSize d (p_dwStoreId p) (m_szPartitionName p) n m of
        (e, m) \<Rightarrow>
          if e = ERROR_SUCCESS
          then let (_, pi, m) = drv_GetPartitionInfo d (p_dwStoreId p) (m_szPartitionName p) (m_pi p) m
               in (True, p\<lparr>m_pi := pi\<rparr>, m)
          else (False, p, m))"

text \<open>
  The requests of a file system.  The name of the folder is copied into an output buffer of
  \<open>nOutBufSize\<close> bytes, with \<open>nOutBufSize\<close> as the count of its characters.
\<close>

definition PartitionIoControl :: "'d stg_env \<Rightarrow> 'd CPartDriver \<Rightarrow> CPartition \<Rightarrow> io_code \<Rightarrow> io_request \<Rightarrow> 'd machine \<Rightarrow> bool \<times> io_answer \<times> 'd machine" where
  "PartitionIoControl env d p code req m =
     (if (code = IOCTL_DISK_GETNAME \<or> code = DISK_IOCTL_GETNAME) \<and>
         io_out req \<and> FOLDERNAMESIZE env \<le> nOutBufSize req \<and> p_szFolderName p \<noteq> []
      then (True, Device_Name (bounded_copy (nOutBufSize req) (p_szFolderName p)), m)
      else case drv_DeviceIoControl d (m_dwPartitionId p) code req (put_error ERROR_SUCCESS m) of
             (e, answer, m) \<Rightarrow>
               if e \<noteq> ERROR_SUCCESS then (False, answer, put_error e m) else (True, answer, m))"

text \<open>The bytes that the answer to a request for the name takes: two for a character, and the terminator.\<close>

definition name_bytes :: "io_answer \<Rightarrow> nat" where
  "name_bytes answer = (case answer of Device_Name s \<Rightarrow> 2 * (length s + 1) | _ \<Rightarrow> 0)"

end
