(* ===== verification/Store_Ops.thy ===== *)
theory Store_Ops
  imports Store_Partition
begin

text \<open>
  A store (\<open>class CStore\<close>, \<open>store.cpp\<close>): opening the device, mounting, the list of partitions, and
  every operation on a partition.  The operations take the store object and the state and return
  both.  A store in the list of stores has a partition driver, because a store whose mounting fails
  is deleted; \<open>driver_of\<close> is that driver.
\<close>

section \<open>Construction and information\<close>

definition no_device_info :: STORAGEDEVICEINFO where
  "no_device_info = \<lparr>dwDeviceClass = 0, dwDeviceType = 0, dwDeviceFlags = 0, szProfile = []\<rparr>"

definition new_store_flags :: store_flags where
  "new_store_flags =
     \<lparr>STORE_ATTRIBUTE_READONLY = False, STORE_ATTRIBUTE_AUTOMOUNT = False, STORE_ATTRIBUTE_AUTOFORMAT = False,
      STORE_ATTRIBUTE_AUTOPART = False, STORE_FLAG_MOUNTED = False, STORE_FLAG_DETACHED = False,
      STORE_FLAG_REFRESHED = False, STORE_FLAG_ACTIVITYTIMER = False\<rparr>"

definition CStore_new :: "'d stg_env \<Rightarrow> nat \<Rightarrow> string \<Rightarrow> 'd CStore" where
  "CStore_new env a szDeviceName =
     \<lparr>s_addr = a, m_hDisk = 0, m_pDskStore = None, m_szDeviceName = bounded_copy (DEVICENAMESIZE env) szDeviceName,
      m_szOldDeviceName = [], m_szStoreName = g_szDEFAULT_STORAGE_NAME, s_szFolderName = g_szDEFAULT_FOLDER_NAME,
      m_szPartDriverName = [], m_szPartDriver = [], m_szRootRegKey = [],
      m_szDefaultFileSystem = g_szDEFAULT_FILESYSTEM, m_dwPartCount = 0, m_dwMountCount = 0,
      m_dwFlags = new_store_flags, m_szActivityName = [], m_hActivityEvent = 0, s_dwMountFlags = 0,
      m_pStorageId = None, m_pPartDriver = None, m_pPartitionList = [], m_si = zero_storeinfo,
      m_sdi = no_device_info, m_di = zero_disk_info, m_dwStoreId = 0, m_pBlockDevice = None\<rparr>"

text \<open>The destructor closes the store in its driver and the handles of the store.\<close>

definition CStore_destroy :: "'d stg_env \<Rightarrow> 'd CStore \<Rightarrow> 'd machine \<Rightarrow> 'd machine" where
  "CStore_destroy env s m =
     (let m = (case m_pPartDriver s of
                 None \<Rightarrow> m
               | Some d \<Rightarrow> if m_dwStoreId s \<noteq> 0 then drv_CloseStore d (m_dwStoreId s) m else m);
          m = (if m_hDisk s \<noteq> 0 then os_CloseHandle env (m_hDisk s) m else m)
      in if m_hActivityEvent s \<noteq> 0 then os_CloseHandle env (m_hActivityEvent s) m else m)"

definition CStore_GetStoreInfo :: "'d CStore \<Rightarrow> STOREINFO" where
  "CStore_GetStoreInfo s =
     \<lparr>i_snBiggestPartCreatable = si_snBiggestPartCreatable (m_si s),
      i_dwBytesPerSector = si_dwBytesPerSector (m_si s), i_snFreeSectors = si_snFreeSectors (m_si s),
      i_snNumSectors = si_snNumSectors (m_si s), i_unformatted = si_unformatted (m_si s),
      i_dwPartitionCount = m_dwPartCount s, i_dwMountCount = m_dwMountCount s,
      i_szDeviceName = m_szDeviceName s, i_szStoreName = m_szStoreName s,
      i_ftCreated = si_ftCreated (m_si s), i_ftLastModified = si_ftLastModified (m_si s), i_sdi = m_sdi s\<rparr>"

definition driver_of :: "'d stg_env \<Rightarrow> 'd CStore \<Rightarrow> 'd CPartDriver" where
  "driver_of env s = (case m_pPartDriver s of Some d \<Rightarrow> d | None \<Rightarrow> null_driver env)"

section \<open>The list of partitions\<close>

fun next_pointer :: "('a \<Rightarrow> nat) \<Rightarrow> 'a list \<Rightarrow> nat \<Rightarrow> pointer" where
  "next_pointer f [] a = NULL"
| "next_pointer f (x # xs) a =
     (if f x = a then (case xs of [] \<Rightarrow> NULL | y # _ \<Rightarrow> Addr (f y)) else next_pointer f xs a)"

definition head_pointer :: "('a \<Rightarrow> nat) \<Rightarrow> 'a list \<Rightarrow> pointer" where
  "head_pointer f xs = (case xs of [] \<Rightarrow> NULL | x # _ \<Rightarrow> Addr (f x))"

definition partition_at :: "'d CStore \<Rightarrow> nat \<Rightarrow> CPartition option" where
  "partition_at s a = find (\<lambda>p. p_addr p = a) (m_pPartitionList s)"

definition IsValidPartition :: "'d CStore \<Rightarrow> pointer \<Rightarrow> CPartition option" where
  "IsValidPartition s pPartition = (case pPartition of Addr a \<Rightarrow> partition_at s a | _ \<Rightarrow> None)"

definition CStore_AddPartition :: "CPartition \<Rightarrow> 'd CStore \<Rightarrow> 'd CStore" where
  "CStore_AddPartition p s = s\<lparr>m_pPartitionList := m_pPartitionList s @ [p]\<rparr>"

definition put_partition :: "CPartition \<Rightarrow> 'd CStore \<Rightarrow> 'd CStore" where
  "put_partition p s = s\<lparr>m_pPartitionList := map (\<lambda>q. if p_addr q = p_addr p then p else q) (m_pPartitionList s)\<rparr>"

definition handles_of :: "'d stg \<Rightarrow> 'd CStore \<Rightarrow> nat list" where
  "handles_of st s = (case m_pRootHandle st (s_addr s) of Some l \<Rightarrow> l | None \<Rightarrow> [])"

definition put_store_handles :: "'d CStore \<Rightarrow> nat list \<Rightarrow> 'd stg \<Rightarrow> 'd stg" where
  "put_store_handles s l st = st\<lparr>m_pRootHandle := (m_pRootHandle st)(s_addr s \<mapsto> l)\<rparr>"

text \<open>The partition object is unlinked and deleted, and its handles are told.\<close>

definition CStore_DeletePartition_object :: "CPartition \<Rightarrow> 'd CStore \<Rightarrow> 'd stg \<Rightarrow> 'd CStore \<times> 'd stg" where
  "CStore_DeletePartition_object p s st =
     (s\<lparr>m_pPartitionList := filter (\<lambda>q. p_addr q \<noteq> p_addr p) (m_pPartitionList s)\<rparr>,
      UpdateHandleFromList (handles_of st s) None
        (Some (p_addr p, next_pointer p_addr (m_pPartitionList s) (p_addr p))) st)"

definition CStore_FindPartition :: "'d CStore \<Rightarrow> string \<Rightarrow> CPartition option" where
  "CStore_FindPartition s name = find (\<lambda>p. wcsicmp_equal (m_szPartitionName p) name) (m_pPartitionList s)"

section \<open>Requests to the device\<close>

text \<open>
  \<open>MapSgBuffers\<close>: the length of the buffer is compared with a size that is computed modulo
  \<open>2 ^ 32\<close>; then as many descriptions are mapped as the request declares.  \<open>None\<close>: the loop runs
  over the end of the request.
\<close>

definition MapSgBuffers :: "'d stg_env \<Rightarrow> nat \<Rightarrow> io_code \<Rightarrow> io_request \<Rightarrow> bool option" where
  "MapSgBuffers env header code req =
     (case io_in req of
        No_Buffer \<Rightarrow> Some False
      | Buffer b \<Rightarrow>
          let (num, present) = sg_view env code b
          in if add32 header (mul32 8 (sub32 num 1)) \<le> nInBufSize req
             then (if num \<le> present then Some True else None)
             else Some False)"

definition InternalStoreIoControl :: "'d stg_env \<Rightarrow> 'd CStore \<Rightarrow> io_code \<Rightarrow> io_request \<Rightarrow> 'd machine \<Rightarrow> bool \<times> io_answer \<times> 'd machine" where
  "InternalStoreIoControl env s code req m = os_DeviceIoControl env (m_hDisk s) code req m"

definition map_request :: "'d stg_env \<Rightarrow> io_code \<Rightarrow> io_request \<Rightarrow> bool option" where
  "map_request env code req =
     (if code \<in> {IOCTL_DISK_WRITE, IOCTL_DISK_READ, DISK_IOCTL_READ, DISK_IOCTL_WRITE}
      then MapSgBuffers env (sizeof_SG_REQ env) code req
      else if code = IOCTL_CDROM_READ_SG then MapSgBuffers env (sizeof_CDROM_READ env) code req
      else Some True)"

text \<open>
  A request that cannot be mapped returns \<open>FALSE\<close>, which is \<open>ERROR_SUCCESS\<close>; the outer \<open>None\<close> is an
  access violation.
\<close>

definition CStore_DeviceIoControl ::
  "'d stg_env \<Rightarrow> 'd CStore \<Rightarrow> pointer \<Rightarrow> io_code \<Rightarrow> io_request \<Rightarrow> 'd machine \<Rightarrow> (nat \<times> io_answer \<times> 'd machine) option" where
  "CStore_DeviceIoControl env s pPartition code req m =
     (case IsValidPartition s pPartition of
        Some p \<Rightarrow> Some (drv_DeviceIoControl (driver_of env s) (m_dwPartitionId p) code req m)
      | None \<Rightarrow>
          (case map_request env code req of
             None \<Rightarrow> None
           | Some False \<Rightarrow> Some (ERROR_SUCCESS, No_Answer, m)
           | Some True \<Rightarrow>
               (case InternalStoreIoControl env s code req m of
                  (True, answer, m) \<Rightarrow> Some (ERROR_SUCCESS, answer, m)
                | (False, answer, m) \<Rightarrow> Some (GetDriverError m, answer, m))))"

text \<open>A request on the store itself that has no scattered buffers.\<close>

definition store_request :: "'d stg_env \<Rightarrow> 'd CStore \<Rightarrow> io_code \<Rightarrow> bool \<Rightarrow> bool \<Rightarrow> 'd machine \<Rightarrow> nat \<times> io_answer \<times> 'd machine" where
  "store_request env s code has_in has_out m =
     (let req = \<lparr>io_in = (if has_in then Buffer [] else No_Buffer), nInBufSize = (if has_in then 32 else 0),
                 io_out = has_out, nOutBufSize = (if has_out then 32 else 0)\<rparr>
      in case CStore_DeviceIoControl env s NULL code req m of
           Some x \<Rightarrow> x | None \<Rightarrow> (ERROR_GEN_FAILURE, No_Answer, m))"

section \<open>Opening the device\<close>

definition open_device :: "'d stg_env \<Rightarrow> 'd CStore \<Rightarrow> 'd machine \<Rightarrow> nat \<times> 'd CStore \<times> 'd machine" where
  "open_device env s m =
     (case m_pBlockDevice s of
        Some path \<Rightarrow> (let (h, m) = os_OpenBlockDevice env path m in (ERROR_SUCCESS, s\<lparr>m_hDisk := h\<rparr>, m))
      | None \<Rightarrow>
          let (h, m) = os_CreateFile env (m_szDeviceName s) True m
          in if h \<noteq> INVALID_HANDLE_VALUE then (ERROR_SUCCESS, s\<lparr>m_hDisk := h\<rparr>, m)
             else if mc_error m \<noteq> ERROR_ACCESS_DENIED then (mc_error m, s\<lparr>m_hDisk := h\<rparr>, m)
             else let (h, m) = os_CreateFile env (m_szDeviceName s) False m
                  in if h \<noteq> INVALID_HANDLE_VALUE
                     then (ERROR_SUCCESS, s\<lparr>m_hDisk := h, m_dwFlags := (m_dwFlags s)\<lparr>STORE_ATTRIBUTE_READONLY := True\<rparr>\<rparr>, m)
                     else (mc_error m, s\<lparr>m_hDisk := h\<rparr>, m))"

definition default_device_info :: "STORAGEDEVICEINFO \<Rightarrow> STORAGEDEVICEINFO" where
  "default_device_info sdi =
     \<lparr>dwDeviceClass = STORAGE_DEVICE_CLASS_BLOCK, dwDeviceType = STORAGE_DEVICE_TYPE_UNKNOWN,
      dwDeviceFlags = STORAGE_DEVICE_FLAG_READWRITE, szProfile = ''Default''\<rparr>"

definition read_geometry :: "'d stg_env \<Rightarrow> 'd CStore \<Rightarrow> 'd machine \<Rightarrow> nat \<times> 'd CStore \<times> 'd machine" where
  "read_geometry env s m =
     (let (e, answer, m) = store_request env s DISK_IOCTL_GETINFO True False m;
          s = (case answer of Disk_Geometry di \<Rightarrow> s\<lparr>m_di := di\<rparr> | _ \<Rightarrow> s)
      in if e = ERROR_BAD_COMMAND \<or> e = ERROR_NOT_SUPPORTED then (ERROR_SUCCESS, s\<lparr>m_di := zero_disk_info\<rparr>, m)
         else (e, s, m))"

definition read_device_info :: "'d stg_env \<Rightarrow> 'd CStore \<Rightarrow> 'd machine \<Rightarrow> 'd CStore \<times> 'd machine" where
  "read_device_info env s m =
     (let (e, answer, m) = store_request env s IOCTL_DISK_DEVICE_INFO True False m
      in if e \<noteq> ERROR_SUCCESS then (s\<lparr>m_sdi := default_device_info (m_sdi s)\<rparr>, m)
         else (case answer of Device_Info sdi \<Rightarrow> s\<lparr>m_sdi := sdi\<rparr> | _ \<Rightarrow> s, m))"

text \<open>The identification is asked for twice, first to learn its size.\<close>

definition read_storage_id :: "'d stg_env \<Rightarrow> 'd CStore \<Rightarrow> 'd machine \<Rightarrow> 'd CStore \<times> 'd machine" where
  "read_storage_id env s m =
     (let (e, answer, m) = store_request env s IOCTL_DISK_GET_STORAGEID False True (put_error ERROR_SUCCESS m)
      in if e \<noteq> ERROR_INSUFFICIENT_BUFFER then (s, m)
         else case alloc_object env m of
                (False, m) \<Rightarrow> (let (_, _, m) = store_request env s IOCTL_DISK_GET_STORAGEID False False m in (s, m))
              | (True, m) \<Rightarrow>
                  let (_, answer, m) = store_request env s IOCTL_DISK_GET_STORAGEID False True m
                  in (s\<lparr>m_pStorageId := Some (case answer of Storage_Id n b \<Rightarrow> (n, b) | _ \<Rightarrow> uninitialized_id env)\<rparr>, m))"

definition OpenDisk :: "'d stg_env \<Rightarrow> 'd CStore \<Rightarrow> 'd machine \<Rightarrow> nat \<times> 'd CStore \<times> 'd machine" where
  "OpenDisk env s m =
     (let (e, s, m) = open_device env s m
      in if m_hDisk s = INVALID_HANDLE_VALUE then (e, s, m)
         else let (e, s, m) = read_geometry env s m;
                  (s, m) = (if e = ERROR_SUCCESS then read_device_info env s m else (s, m));
                  (s, m) = read_storage_id env s m
              in (e, s, m))"

end
