(* ===== verification/Store_Mount.thy ===== *)
theory Store_Mount
  imports Store_Ops
begin

text \<open>
  Mounting and unmounting a store and the operations on its partitions (\<open>store.cpp\<close>).
\<close>

section \<open>Opening a partition\<close>

definition partition_handle :: "'d CStore \<Rightarrow> pointer \<Rightarrow> nat \<Rightarrow> bool \<Rightarrow> bool \<Rightarrow> CStoreHandle" where
  "partition_handle s p hProc search internal =
     \<lparr>dwSig = PART_HANDLE_SIG, h_pStore = Addr (s_addr s), h_pPartition = p, h_hProc = hProc,
      STOREHANDLE_TYPE_SEARCH = search, STOREHANDLE_TYPE_CURRENT = False, STOREHANDLE_TYPE_INTERNAL = internal\<rparr>"

text \<open>The error code and the handle (\<open>*pbHandle\<close>).\<close>

definition CStore_OpenPartition :: "'d stg_env \<Rightarrow> 'd CStore \<Rightarrow> string \<Rightarrow> nat \<Rightarrow> 'd stg \<Rightarrow> nat \<times> nat \<times> 'd stg" where
  "CStore_OpenPartition env s name hProc st =
     (case CStore_FindPartition s name of
        None \<Rightarrow>
          (case new_object env st of
             (None, st) \<Rightarrow> (ERROR_OUTOFMEMORY, INVALID_HANDLE_VALUE, st)
           | (Some _, st) \<Rightarrow> (ERROR_FILE_NOT_FOUND, INVALID_HANDLE_VALUE, st))
      | Some p \<Rightarrow>
          (case new_handle_object env
                  (partition_handle s (Addr (p_addr p)) hProc False (hProc = current_process env)) st of
             (None, st) \<Rightarrow> (ERROR_OUTOFMEMORY, INVALID_HANDLE_VALUE, st)
           | (Some a, st) \<Rightarrow>
               let st = put_store_handles s (AddHandleToList a (handles_of st s)) st;
                   (h, st) = CreateAPIHandle env STRG a st
               in (ERROR_SUCCESS, h, st)))"

section \<open>Mounting a partition\<close>

text \<open>
  The partition is opened by its name for the file system and mounted; the mount count goes up
  when that succeeds.  The handle stays open when it fails.
\<close>

definition mount_at :: "'d stg_env \<Rightarrow> string \<Rightarrow> bool \<Rightarrow> CPartition \<Rightarrow> 'd CStore \<Rightarrow> 'd stg \<Rightarrow> bool \<times> 'd CStore \<times> 'd stg" where
  "mount_at env name bFormat p s st =
     (let (_, hPartition, st) = CStore_OpenPartition env s name (current_process env) st;
          (ok, p, m) = CPartition_MountPartition env (driver_of env s) (CStore_GetStoreInfo s) hPartition
                         (m_szRootRegKey s) (m_szDefaultFileSystem s) (s_dwMountFlags s) (m_hActivityEvent s)
                         bFormat p (machine st);
          s = put_partition p s;
          s = (if ok then s\<lparr>m_dwMountCount := add32 (m_dwMountCount s) 1\<rparr> else s)
      in (ok, s, st\<lparr>machine := m\<rparr>))"

definition CStore_LoadPartition :: "'d stg_env \<Rightarrow> string \<Rightarrow> bool \<Rightarrow> bool \<Rightarrow> 'd CStore \<Rightarrow> 'd stg \<Rightarrow> bool \<times> 'd CStore \<times> 'd stg" where
  "CStore_LoadPartition env name bMount bFormat s st =
     (case drv_OpenPartition (driver_of env s) (m_dwStoreId s) name 0 (machine st) of
        (e, pid, m) \<Rightarrow>
          if e \<noteq> ERROR_SUCCESS then (False, s, st\<lparr>machine := m\<rparr>)
          else case new_object env (st\<lparr>machine := m\<rparr>) of
                 (None, st) \<Rightarrow>
                   (False, s, st\<lparr>machine := drv_ClosePartition (driver_of env s) pid (machine st)\<rparr>)
               | (Some a, st) \<Rightarrow>
                   let (p, st) = on_machine (CPartition_LoadPartition env (driver_of env s) name
                                   (CPartition_new env a (m_dwStoreId s) pid (s_szFolderName s))) st;
                       s = CStore_AddPartition p s
                   in if bMount \<and> STORE_ATTRIBUTE_AUTOMOUNT (m_dwFlags s)
                      then let (_, s, st) = mount_at env name bFormat p s st in (True, s, st)
                      else (True, s, st))"

section \<open>Enumerating the partitions\<close>

text \<open>Both loops go on as long as the driver finds another partition; \<open>None\<close>: they do not end.\<close>

partial_function (option) count_loop :: "'d CPartDriver \<Rightarrow> nat \<Rightarrow> nat \<Rightarrow> 'd machine \<Rightarrow> (nat \<times> 'd machine) option" where
  "count_loop d search n m =
     (case drv_FindPartitionNext d search zero_partinfo m of
        (e, _, m) \<Rightarrow> if e = ERROR_SUCCESS then count_loop d search (add32 n 1) m else Some (n, m))"

definition GetPartitionCount :: "'d stg_env \<Rightarrow> 'd CStore \<Rightarrow> 'd machine \<Rightarrow> ('d CStore \<times> 'd machine) option" where
  "GetPartitionCount env s m =
     (let d = driver_of env s in
      case drv_FindPartitionStart d (m_dwStoreId s) 0 m of
        (e, search, m) \<Rightarrow>
          if e \<noteq> ERROR_SUCCESS then Some (s\<lparr>m_dwPartCount := 0\<rparr>, m)
          else map_option (\<lambda>(n, m). (s\<lparr>m_dwPartCount := n\<rparr>, drv_FindPartitionClose d search m)) (count_loop d search 0 m))"

partial_function (option) load_loop :: "'d stg_env \<Rightarrow> nat \<Rightarrow> bool \<Rightarrow> bool \<Rightarrow> 'd CStore \<Rightarrow> 'd stg \<Rightarrow> ('d CStore \<times> 'd stg) option" where
  "load_loop env search bMount bFormat s st =
     (case drv_FindPartitionNext (driver_of env s) search zero_partinfo (machine st) of
        (e, pi, m) \<Rightarrow>
          if e = ERROR_SUCCESS
          then (case CStore_LoadPartition env (szPartitionName pi) bMount bFormat s (st\<lparr>machine := m\<rparr>) of
                  (_, s, st) \<Rightarrow> load_loop env search bMount bFormat s st)
          else Some (s, st\<lparr>machine := m\<rparr>))"

definition LoadExistingPartitions :: "'d stg_env \<Rightarrow> bool \<Rightarrow> bool \<Rightarrow> 'd CStore \<Rightarrow> 'd stg \<Rightarrow> ('d CStore \<times> 'd stg) option" where
  "LoadExistingPartitions env bMount bFormat s st =
     (case drv_FindPartitionStart (driver_of env s) (m_dwStoreId s) 0 (machine st) of
        (e, search, m) \<Rightarrow>
          if e \<noteq> ERROR_SUCCESS then Some (s, st\<lparr>machine := m\<rparr>)
          else map_option (\<lambda>(s, st). (s, st\<lparr>machine := drv_FindPartitionClose (driver_of env s) search (machine st)\<rparr>))
                 (load_loop env search bMount bFormat s (st\<lparr>machine := m\<rparr>)))"

section \<open>Mounting a store\<close>

definition refresh_info :: "'d stg_env \<Rightarrow> 'd CStore \<Rightarrow> 'd machine \<Rightarrow> 'd CStore \<times> 'd machine" where
  "refresh_info env s m =
     (let (_, si, m) = drv_GetStoreInfo (driver_of env s) (m_dwStoreId s) (m_si s) m in (s\<lparr>m_si := si\<rparr>, m))"

text \<open>
  A partition driver may ask for the disk object of the store that has its disk handle, which is
  then made.
\<close>

definition FSDMGR_DeviceHandleToHDSK :: "'d stg_env \<Rightarrow> 'd CStore \<Rightarrow> 'd machine \<Rightarrow> 'd CStore \<times> 'd machine" where
  "FSDMGR_DeviceHandleToHDSK env s m =
     (if m_pDskStore s \<noteq> None then (s, m)
      else case alloc_object env m of
             (False, m) \<Rightarrow> (s, m)
           | (True, m) \<Rightarrow> (s\<lparr>m_pDskStore := Some (s_addr s)\<rparr>, m))"

definition disk_callback :: "'d stg_env \<Rightarrow> 'd CStore \<Rightarrow> 'd machine \<Rightarrow> 'd CStore \<times> 'd machine" where
  "disk_callback env s m =
     (if m_szPartDriver s \<noteq> [] \<and> asks_for_disk env (m_szPartDriver s) then FSDMGR_DeviceHandleToHDSK env s m else (s, m))"

text \<open>
  The driver for the store: the one of the settings, or the null driver for a device without
  partitions.  The result is the error code with which mounting ends.
\<close>

definition open_driver :: "'d stg_env \<Rightarrow> 'd CStore \<Rightarrow> 'd machine \<Rightarrow> nat \<times> 'd CStore \<times> 'd machine" where
  "open_driver env s m =
     (case alloc_object env m of
        (False, m) \<Rightarrow> (ERROR_OUTOFMEMORY, s, m)
      | (True, m) \<Rightarrow>
          let (e, d) = LoadPartitionDriver env (m_szPartDriver s)
          in if e \<noteq> ERROR_SUCCESS then (e, s\<lparr>m_pPartDriver := Some d\<rparr>, m)
             else let (s, m) = disk_callback env s m
                  in case drv_OpenStore d (m_hDisk s) (m_dwStoreId s) m of
                    (e, sid, m) \<Rightarrow>
                      if e \<noteq> ERROR_DEVICE_NOT_PARTITIONED then (e, s\<lparr>m_pPartDriver := Some d, m_dwStoreId := sid\<rparr>, m)
                      else let m = (if sid \<noteq> 0 then drv_CloseStore d sid m else m);
                               s = s\<lparr>m_szPartDriver := [], m_dwStoreId := sid, m_pPartDriver := None\<rparr>
                           in case alloc_object env m of
                                (False, m) \<Rightarrow> (ERROR_OUTOFMEMORY, s, m)
                              | (True, m) \<Rightarrow>
                                  let d = snd (LoadPartitionDriver env (m_szPartDriver s));
                                      (e, sid, m) = drv_OpenStore d (m_hDisk s) sid m
                                  in (e, s\<lparr>m_pPartDriver := Some d, m_dwStoreId := sid\<rparr>, m))"

definition create_activity_event :: "'d stg_env \<Rightarrow> 'd CStore \<Rightarrow> 'd machine \<Rightarrow> 'd CStore \<times> 'd machine" where
  "create_activity_event env s m =
     (if STORE_FLAG_ACTIVITYTIMER (m_dwFlags s) \<and> m_szActivityName s \<noteq> []
      then let (h, m) = os_CreateEvent env (m_szActivityName s) m in (s\<lparr>m_hActivityEvent := h\<rparr>, m)
      else (s, m))"

definition auto_format :: "'d stg_env \<Rightarrow> 'd CStore \<Rightarrow> 'd machine \<Rightarrow> 'd CStore \<times> 'd machine" where
  "auto_format env s m =
     (let d = driver_of env s; (e, m) = drv_IsStoreFormatted d (m_dwStoreId s) m
      in if e \<noteq> ERROR_SUCCESS \<and> STORE_ATTRIBUTE_AUTOFORMAT (m_dwFlags s)
         then refresh_info env s (snd (drv_FormatStore d (m_dwStoreId s) m))
         else (s, m))"

text \<open>Whether a partition was created, which is then formatted when it is mounted.\<close>

definition auto_partition :: "'d stg_env \<Rightarrow> 'd CStore \<Rightarrow> 'd machine \<Rightarrow> bool \<times> 'd CStore \<times> 'd machine" where
  "auto_partition env s m =
     (if m_dwPartCount s \<noteq> 0 \<or> \<not> STORE_ATTRIBUTE_AUTOPART (m_dwFlags s) then (False, s, m)
      else let d = driver_of env s;
               (_, si, m) = drv_GetStoreInfo d (m_dwStoreId s) zero_storeinfo m
           in case drv_CreatePartition d (m_dwStoreId s) ''PART00'' 0 (si_snBiggestPartCreatable si) True m of
                (e, m) \<Rightarrow>
                  if e \<noteq> ERROR_SUCCESS then (False, s, m)
                  else case drv_FormatPartition d (m_dwStoreId s) ''PART00'' 0 True m of
                         (e, m) \<Rightarrow>
                           if e \<noteq> ERROR_SUCCESS then (False, s, m)
                           else let (s, m) = refresh_info env s m in (True, s\<lparr>m_dwPartCount := 1\<rparr>, m))"

text \<open>After a driver has been found: \<open>None\<close> when an enumeration does not end.\<close>

definition load_store :: "'d stg_env \<Rightarrow> bool \<Rightarrow> 'd CStore \<Rightarrow> 'd stg \<Rightarrow> ('d CStore \<times> 'd stg) option" where
  "load_store env bMount s st =
     (let (s, m) = create_activity_event env s (machine st);
          (s, m) = refresh_info env s m;
          (s, m) = auto_format env s m;
          mounted = (\<lambda>s. s\<lparr>m_dwFlags := (m_dwFlags s)\<lparr>STORE_FLAG_MOUNTED := True\<rparr>\<rparr>)
      in case drv_IsStoreFormatted (driver_of env s) (m_dwStoreId s) m of
           (e, m) \<Rightarrow>
             if e \<noteq> ERROR_SUCCESS then Some (mounted s, st\<lparr>machine := m\<rparr>)
             else case GetPartitionCount env s m of
                    None \<Rightarrow> None
                  | Some (s, m) \<Rightarrow>
                      let (bFormat, s, m) = auto_partition env s m
                      in map_option (\<lambda>(s, st). (mounted s, st)) (LoadExistingPartitions env bMount bFormat s (st\<lparr>machine := m\<rparr>)))"

definition CStore_MountStore :: "'d stg_env \<Rightarrow> bool \<Rightarrow> 'd CStore \<Rightarrow> 'd stg \<Rightarrow> (nat \<times> 'd CStore \<times> 'd stg) option" where
  "CStore_MountStore env bMount s st =
     (let (e, s, m) = OpenDisk env s (machine st)
      in if e \<noteq> ERROR_SUCCESS then Some (e, s, st\<lparr>machine := m\<rparr>)
         else let (e, s, m) = open_driver env (GetStoreSettings env m s) m;
                  st = st\<lparr>machine := m\<rparr>
              in if e \<noteq> ERROR_SUCCESS then Some (e, s, st)
                 else map_option (\<lambda>(s, st). (e, s, st)) (load_store env bMount s st))"

section \<open>Unmounting a store\<close>

text \<open>
  The loop of \<open>UnmountStore\<close>.  \<open>kept\<close> are the partitions before the current one that are still
  in the list.  A deletion makes the successor the head of the list, so it also drops the
  partitions in \<open>kept\<close>, which are those that could not be unmounted.
\<close>

fun unmount_loop :: "'d stg_env \<Rightarrow> bool \<Rightarrow> 'd CStore \<Rightarrow> CPartition list \<Rightarrow> CPartition list \<Rightarrow> nat \<Rightarrow> 'd stg \<Rightarrow> CPartition list \<times> nat \<times> 'd stg" where
  "unmount_loop env del s kept [] n st = (kept, n, st)"
| "unmount_loop env del s kept (p # rest) n st =
     (let (unmounted, p, n, st) =
            (if PARTITION_ATTRIBUTE_MOUNTED p
             then case CPartition_UnmountPartition env p st of
                    (True, p, st) \<Rightarrow> (True, p, sub32 n 1, st)
                  | (False, p, st) \<Rightarrow> (False, p, n, st)
             else (True, p, n, st))
      in if \<not> unmounted then unmount_loop env del s (kept @ [p]) rest n st
         else if del
         then unmount_loop env del s [] rest n
                (UpdateHandleFromList (handles_of st s) None (Some (p_addr p, head_pointer p_addr rest)) st)
         else unmount_loop env del s (kept @ [p]) rest n st)"

definition CStore_UnmountStore :: "'d stg_env \<Rightarrow> bool \<Rightarrow> 'd CStore \<Rightarrow> 'd stg \<Rightarrow> bool \<times> 'd CStore \<times> 'd stg" where
  "CStore_UnmountStore env bDelete s st =
     (let (ps, n, st) = unmount_loop env bDelete s [] (m_pPartitionList s) (m_dwMountCount s) st
      in (n = 0, s\<lparr>m_pPartitionList := ps, m_dwMountCount := n\<rparr>, st))"

section \<open>Operations on the store\<close>

definition refresh_store :: "'d stg_env \<Rightarrow> 'd CStore \<Rightarrow> 'd stg \<Rightarrow> 'd CStore \<times> 'd stg" where
  "refresh_store env s st = (let (s, m) = refresh_info env s (machine st) in (s, st\<lparr>machine := m\<rparr>))"

definition CStore_FormatStore :: "'d stg_env \<Rightarrow> 'd CStore \<Rightarrow> 'd stg \<Rightarrow> nat \<times> 'd CStore \<times> 'd stg" where
  "CStore_FormatStore env s st =
     (if m_dwMountCount s \<noteq> 0 then (ERROR_DEVICE_IN_USE, s, st)
      else if STORE_ATTRIBUTE_READONLY (m_dwFlags s) then (ERROR_ACCESS_DENIED, s, st)
      else case on_machine (drv_FormatStore (driver_of env s) (m_dwStoreId s)) st of
             (e, st) \<Rightarrow>
               if e \<noteq> ERROR_SUCCESS then (e, s, st)
               else let (s, st) = (if STORE_FLAG_MOUNTED (m_dwFlags s)
                                   then let (_, s, st) = CStore_UnmountStore env True s st in (s, st) else (s, st));
                        (s, st) = refresh_store env (s\<lparr>m_dwPartCount := 0\<rparr>) st
                    in (e, s, st))"

definition CStore_CreatePartition :: "'d stg_env \<Rightarrow> string \<Rightarrow> BYTE \<Rightarrow> nat \<Rightarrow> bool \<Rightarrow> 'd CStore \<Rightarrow> 'd stg \<Rightarrow> nat \<times> 'd CStore \<times> 'd stg" where
  "CStore_CreatePartition env name bPartType n bAuto s st =
     (let n = (if n = 0 then si_snBiggestPartCreatable (m_si s) else n)
      in case on_machine (drv_CreatePartition (driver_of env s) (m_dwStoreId s) name bPartType n bAuto) st of
           (e, st) \<Rightarrow>
             if e \<noteq> ERROR_SUCCESS then (e, s, st)
             else let (s, st) = refresh_store env s st;
                      (_, s, st) = CStore_LoadPartition env name True True s st
                  in (e, s\<lparr>m_dwPartCount := add32 (m_dwPartCount s) 1\<rparr>, st))"

text \<open>A name that no partition has is deleted with success.\<close>

definition CStore_DeletePartition :: "'d stg_env \<Rightarrow> string \<Rightarrow> 'd CStore \<Rightarrow> 'd stg \<Rightarrow> nat \<times> 'd CStore \<times> 'd stg" where
  "CStore_DeletePartition env name s st =
     (case CStore_FindPartition s name of
        None \<Rightarrow> (ERROR_SUCCESS, s, st)
      | Some p \<Rightarrow>
          if PARTITION_ATTRIBUTE_MOUNTED p then (ERROR_DEVICE_IN_USE, s, st)
          else case on_machine (drv_DeletePartition (driver_of env s) (m_dwStoreId s) name) st of
                 (e, st) \<Rightarrow>
                   if e \<noteq> ERROR_SUCCESS then (e, s, st)
                   else let (s, st) = CStore_DeletePartition_object p s st;
                            (s, st) = refresh_store env s st
                        in (e, s\<lparr>m_dwPartCount := sub32 (m_dwPartCount s) 1\<rparr>, st))"

section \<open>Operations on a partition of the store\<close>

text \<open>Each of them returns success when the pointer is not a partition of the store.\<close>

definition CStore_MountPartition :: "'d stg_env \<Rightarrow> pointer \<Rightarrow> 'd CStore \<Rightarrow> 'd stg \<Rightarrow> nat \<times> 'd CStore \<times> 'd stg" where
  "CStore_MountPartition env pPartition s st =
     (case IsValidPartition s pPartition of
        None \<Rightarrow> (ERROR_SUCCESS, s, st)
      | Some p \<Rightarrow>
          if PARTITION_ATTRIBUTE_MOUNTED p then (ERROR_ALREADY_EXISTS, s, st)
          else let (ok, s, st) = mount_at env (m_szPartitionName p) False p s st
               in (if ok then ERROR_SUCCESS else ERROR_GEN_FAILURE, s, st))"

definition CStore_UnmountPartition :: "'d stg_env \<Rightarrow> pointer \<Rightarrow> 'd CStore \<Rightarrow> 'd stg \<Rightarrow> nat \<times> 'd CStore \<times> 'd stg" where
  "CStore_UnmountPartition env pPartition s st =
     (case IsValidPartition s pPartition of
        None \<Rightarrow> (ERROR_SUCCESS, s, st)
      | Some p \<Rightarrow>
          if \<not> PARTITION_ATTRIBUTE_MOUNTED p then (ERROR_FILE_NOT_FOUND, s, st)
          else case CPartition_UnmountPartition env p st of
                 (True, p, st) \<Rightarrow>
                   (ERROR_SUCCESS, put_partition p (s\<lparr>m_dwMountCount := sub32 (m_dwMountCount s) 1\<rparr>), st)
               | (False, p, st) \<Rightarrow> (ERROR_GEN_FAILURE, put_partition p s, st))"

definition on_partition ::
  "(CPartition \<Rightarrow> 'd machine \<Rightarrow> bool \<times> CPartition \<times> 'd machine) \<Rightarrow> pointer \<Rightarrow> 'd CStore \<Rightarrow> 'd stg \<Rightarrow> nat \<times> 'd CStore \<times> 'd stg" where
  "on_partition f pPartition s st =
     (case IsValidPartition s pPartition of
        None \<Rightarrow> (ERROR_SUCCESS, s, st)
      | Some p \<Rightarrow>
          let (ok, p, m) = f p (machine st)
          in (if ok then ERROR_SUCCESS else GetDriverError m, put_partition p s, st\<lparr>machine := m\<rparr>))"

definition CStore_RenameParttion :: "'d stg_env \<Rightarrow> pointer \<Rightarrow> string \<Rightarrow> 'd CStore \<Rightarrow> 'd stg \<Rightarrow> nat \<times> 'd CStore \<times> 'd stg" where
  "CStore_RenameParttion env pPartition szNewName s st =
     on_partition (CPartition_RenamePartition env (driver_of env s) szNewName) pPartition s st"

definition CStore_SetPartitionAttributes :: "'d stg_env \<Rightarrow> pointer \<Rightarrow> nat \<Rightarrow> 'd CStore \<Rightarrow> 'd stg \<Rightarrow> nat \<times> 'd CStore \<times> 'd stg" where
  "CStore_SetPartitionAttributes env pPartition dwAttrs s st =
     on_partition (\<lambda>p m. let (ok, m) = CPartition_SetPartitionAttributes (driver_of env s) dwAttrs p m in (ok, p, m)) pPartition s st"

definition CStore_SetPartitionSize :: "'d stg_env \<Rightarrow> pointer \<Rightarrow> nat \<Rightarrow> 'd CStore \<Rightarrow> 'd stg \<Rightarrow> nat \<times> 'd CStore \<times> 'd stg" where
  "CStore_SetPartitionSize env pPartition n s st =
     (case on_partition (CPartition_SetPartitionSize (driver_of env s) n) pPartition s st of
        (e, s, st) \<Rightarrow>
          if e = ERROR_SUCCESS \<and> IsValidPartition s pPartition \<noteq> None
          then let (s, st) = refresh_store env s st in (e, s, st) else (e, s, st))"

definition CStore_FormatPartition :: "'d stg_env \<Rightarrow> pointer \<Rightarrow> BYTE \<Rightarrow> bool \<Rightarrow> 'd CStore \<Rightarrow> 'd stg \<Rightarrow> nat \<times> 'd CStore \<times> 'd stg" where
  "CStore_FormatPartition env pPartition bPartType bAuto s st =
     on_partition (CPartition_FormatPartition (driver_of env s) bPartType bAuto) pPartition s st"

text \<open>The information is \<open>None\<close> when the buffer of the caller is left as it was.\<close>

definition CStore_GetPartitionInfo :: "'d stg_env \<Rightarrow> pointer \<Rightarrow> 'd CStore \<Rightarrow> nat \<times> PARTINFO option" where
  "CStore_GetPartitionInfo env pPartition s =
     (ERROR_SUCCESS, map_option (CPartition_GetPartitionInfo env) (IsValidPartition s pPartition))"

section \<open>Searches\<close>

definition CStore_FindFirstPartition :: "'d stg_env \<Rightarrow> nat \<Rightarrow> 'd CStore \<Rightarrow> 'd stg \<Rightarrow> nat \<times> nat \<times> PARTINFO option \<times> 'd stg" where
  "CStore_FindFirstPartition env hProc s st =
     (case m_pPartitionList s of
        [] \<Rightarrow>
          (case new_object env st of
             (None, st) \<Rightarrow> (ERROR_OUTOFMEMORY, INVALID_HANDLE_VALUE, None, st)
           | (Some _, st) \<Rightarrow> (ERROR_NO_MORE_ITEMS, INVALID_HANDLE_VALUE, None, st))
      | p # _ \<Rightarrow>
          (case new_handle_object env (partition_handle s (Addr (p_addr p)) hProc True False) st of
             (None, st) \<Rightarrow> (ERROR_OUTOFMEMORY, INVALID_HANDLE_VALUE, None, st)
           | (Some a, st) \<Rightarrow>
               let st = put_store_handles s (AddHandleToList a (handles_of st s)) st;
                   (h, st) = CreateAPIHandle env FPRT a st
               in (ERROR_SUCCESS, h, Some (CPartition_GetPartitionInfo env p), st)))"

definition put_handle :: "nat \<Rightarrow> CStoreHandle \<Rightarrow> 'd stg \<Rightarrow> 'd stg" where
  "put_handle a h st = st\<lparr>handle_heap := (handle_heap st)(a \<mapsto> h)\<rparr>"

text \<open>A marked search reports the partition it stands at, another one moves on first.\<close>

definition CStore_FindNextPartition :: "'d stg_env \<Rightarrow> nat \<Rightarrow> CStoreHandle \<Rightarrow> 'd CStore \<Rightarrow> 'd stg \<Rightarrow> nat \<times> PARTINFO option \<times> 'd stg" where
  "CStore_FindNextPartition env a h s st =
     (case IsValidPartition s (h_pPartition h) of
        None \<Rightarrow> (ERROR_NO_MORE_ITEMS, None, st)
      | Some p \<Rightarrow>
          let h = (if STOREHANDLE_TYPE_CURRENT h then h\<lparr>STOREHANDLE_TYPE_CURRENT := False\<rparr>
                   else h\<lparr>h_pPartition := next_pointer p_addr (m_pPartitionList s) (p_addr p)\<rparr>);
              st = put_handle a h st
          in case IsValidPartition s (h_pPartition h) of
               Some p \<Rightarrow> (ERROR_SUCCESS, Some (CPartition_GetPartitionInfo env p), st)
             | None \<Rightarrow> (ERROR_NO_MORE_ITEMS, None, st))"

definition CStore_FindClosePartition :: "nat \<Rightarrow> 'd CStore \<Rightarrow> 'd stg \<Rightarrow> nat \<times> 'd stg" where
  "CStore_FindClosePartition a s st =
     (case DeleteHandleFromList (handles_of st s) a of
        Some l \<Rightarrow> (ERROR_SUCCESS, drop_store_handle (s_addr s) l a st)
      | None \<Rightarrow> (ERROR_INVALID_OPERATION, st))"

end
