(* ===== verification/Store_Mgr.thy ===== *)
theory Store_Mgr
  imports Store_Mount
begin

text \<open>
  The list of stores (\<open>storemain.cpp\<close>): stores that appear, vanish and come back, the delayed
  detaching of stores, refreshing, and the events the plug-and-play thread handles.
\<close>

section \<open>The list of stores\<close>

text \<open>\<open>advertised\<close> is the history of the advertised mount points (\<open>STORE_MOUNT_GUID\<close>).\<close>

record 'd mgr =
  g_pStoreRoot :: "'d CStore list"
  stg :: "'d stg"
  STOREMGR_EVENT_UPDATETIMEOUT :: bool
  STOREMGR_EVENT_REFRESHSTORE :: bool
  g_hPNPUpdateEvent :: bool
  advertised :: "(string \<times> bool) list"

definition store_at :: "'d mgr \<Rightarrow> nat \<Rightarrow> 'd CStore option" where
  "store_at g a = find (\<lambda>s. s_addr s = a) (g_pStoreRoot g)"

definition IsValidStore :: "'d mgr \<Rightarrow> pointer \<Rightarrow> 'd CStore option" where
  "IsValidStore g pStore = (case pStore of Addr a \<Rightarrow> store_at g a | _ \<Rightarrow> None)"

definition put_store :: "'d CStore \<Rightarrow> 'd mgr \<Rightarrow> 'd mgr" where
  "put_store s g = g\<lparr>g_pStoreRoot := map (\<lambda>t. if s_addr t = s_addr s then s else t) (g_pStoreRoot g)\<rparr>"

definition AddStore :: "'d CStore \<Rightarrow> 'd mgr \<Rightarrow> 'd mgr" where
  "AddStore s g =
     g\<lparr>g_pStoreRoot := g_pStoreRoot g @ [s],
       stg := (stg g)\<lparr>m_pRootHandle := (m_pRootHandle (stg g))(s_addr s \<mapsto> [])\<rparr>\<rparr>"

definition DeleteStore :: "'d stg_env \<Rightarrow> 'd CStore \<Rightarrow> 'd mgr \<Rightarrow> 'd mgr" where
  "DeleteStore env s g =
     g\<lparr>g_pStoreRoot := filter (\<lambda>t. s_addr t \<noteq> s_addr s) (g_pStoreRoot g),
       stg := (stg g)\<lparr>machine := CStore_destroy env s (machine (stg g)),
                      m_pRootHandle := (m_pRootHandle (stg g))(s_addr s := None)\<rparr>\<rparr>"

definition FindStore :: "'d mgr \<Rightarrow> string \<Rightarrow> 'd CStore option" where
  "FindStore g szDeviceName = find (\<lambda>s. wcsicmp_equal szDeviceName (m_szDeviceName s)) (g_pStoreRoot g)"

definition same_storage_id :: "(nat \<times> BYTE list) option \<Rightarrow> (nat \<times> BYTE list) option \<Rightarrow> bool" where
  "same_storage_id a b =
     (case (a, b) of
        (Some (n, x), Some (k, y)) \<Rightarrow> n = k \<and> take n x = take n y
      | (None, None) \<Rightarrow> True
      | _ \<Rightarrow> False)"

definition CompareStore :: "'d CStore \<Rightarrow> 'd CStore \<Rightarrow> bool" where
  "CompareStore s t \<longleftrightarrow>
     same_storage_id (m_pStorageId s) (m_pStorageId t) \<and> m_si s = m_si t \<and> m_di s = m_di t \<and>
     m_sdi s = m_sdi t \<and> m_dwPartCount s = m_dwPartCount t"

definition same_partitions :: "CPartition list \<Rightarrow> CPartition list \<Rightarrow> bool" where
  "same_partitions ps qs = list_all2 (\<lambda>p q. m_pi p = m_pi q) ps qs"

section \<open>Detaching\<close>

definition advertise :: "string \<Rightarrow> bool \<Rightarrow> 'd mgr \<Rightarrow> 'd mgr" where
  "advertise name add g = g\<lparr>advertised := advertised g @ [(name, add)]\<rparr>"

definition set_detached :: "bool \<Rightarrow> CPartition \<Rightarrow> CPartition" where
  "set_detached b p =
     p\<lparr>m_pDsk := map_option (\<lambda>dsk. dsk\<lparr>pVol := map_option (\<lambda>vol. vol\<lparr>VOL_DETACHED := b\<rparr>) (pVol dsk)\<rparr>) (m_pDsk p)\<rparr>"

text \<open>The handles on a store that goes away: its own handles, and the handles on stores.\<close>

definition forget_store :: "'d CStore \<Rightarrow> 'd mgr \<Rightarrow> 'd mgr" where
  "forget_store s g =
     (let nxt = next_pointer s_addr (g_pStoreRoot g) (s_addr s);
          st = UpdateHandleFromList (handles_of (stg g) s) (Some (s_addr s, nxt)) None (stg g)
      in g\<lparr>stg := UpdateHandleFromList (g_pRootHandle st) (Some (s_addr s, nxt)) None st\<rparr>)"

text \<open>\<open>detached\<close>: \<open>dwFlags\<close> is \<open>STORE_FLAG_DETACHED\<close>, otherwise \<open>STORE_FLAG_REFRESHED\<close>.\<close>

definition has_flag :: "bool \<Rightarrow> 'd CStore \<Rightarrow> bool" where
  "has_flag detached s = (if detached then STORE_FLAG_DETACHED (m_dwFlags s) else STORE_FLAG_REFRESHED (m_dwFlags s))"

definition detach_store :: "'d stg_env \<Rightarrow> bool \<Rightarrow> 'd CStore \<Rightarrow> 'd mgr \<Rightarrow> 'd mgr" where
  "detach_store env detached s g =
     (let (_, s, st) = CStore_UnmountStore env True s (stg g);
          g = forget_store s (put_store s (g\<lparr>stg := st\<rparr>));
          g = advertise (if detached then m_szOldDeviceName s else m_szDeviceName s) False g
      in DeleteStore env s g)"

fun detach_loop :: "'d stg_env \<Rightarrow> bool \<Rightarrow> nat list \<Rightarrow> 'd mgr \<Rightarrow> 'd mgr" where
  "detach_loop env detached [] g = g"
| "detach_loop env detached (a # as) g =
     detach_loop env detached as
       (case store_at g a of
          Some s \<Rightarrow> if has_flag detached s then detach_store env detached s g else g
        | None \<Rightarrow> g)"

definition DetachStores :: "'d stg_env \<Rightarrow> bool \<Rightarrow> 'd mgr \<Rightarrow> 'd mgr" where
  "DetachStores env detached g = detach_loop env detached (map s_addr (g_pStoreRoot g)) g"

section \<open>A store appears\<close>

text \<open>
  A detached device is back: the old store object takes over the device of the new one.  \<open>None\<close>:
  the old object has a disk object and the new one has none, which is an access through a null
  pointer.
\<close>

definition take_over_partition :: "CPartition \<Rightarrow> CPartition \<Rightarrow> CPartition" where
  "take_over_partition p q =
     (set_detached False p)\<lparr>m_dwPartitionId := m_dwPartitionId q, p_dwStoreId := p_dwStoreId q\<rparr>"

definition take_over :: "'d CStore \<Rightarrow> 'd CStore \<Rightarrow> string \<Rightarrow> 'd CStore" where
  "take_over old new szDeviceName =
     old\<lparr>m_hDisk := m_hDisk new, m_dwStoreId := m_dwStoreId new,
         m_pDskStore := (if m_pDskStore old \<noteq> None then Some (s_addr old) else None),
         m_dwFlags := (m_dwFlags old)\<lparr>STORE_FLAG_DETACHED := False\<rparr>,
         m_szDeviceName := szDeviceName, m_szOldDeviceName := [],
         m_pPartitionList := map2 take_over_partition (m_pPartitionList old) (m_pPartitionList new)\<rparr>"

definition reattach :: "'d stg_env \<Rightarrow> 'd CStore \<Rightarrow> 'd CStore \<Rightarrow> string \<Rightarrow> 'd mgr \<Rightarrow> 'd mgr option" where
  "reattach env old new szDeviceName g =
     (if m_pDskStore old \<noteq> None \<and> m_pDskStore new = None then None
      else let m = drv_CloseStore (driver_of env old) (m_dwStoreId old) (machine (stg g));
               m = os_CloseHandle env (m_hDisk old) m;
               g = put_store (take_over old new szDeviceName) (g\<lparr>stg := (stg g)\<lparr>machine := m\<rparr>\<rparr>);
               new = new\<lparr>m_dwStoreId := 0, m_hDisk := 0,
                         m_pPartitionList := map (\<lambda>p. p\<lparr>m_dwPartitionId := 0\<rparr>) (m_pPartitionList new)\<rparr>;
               (_, new, st) = CStore_UnmountStore env True new (stg g)
           in Some (DeleteStore env new (g\<lparr>stg := st\<rparr>)))"

text \<open>The first other store that looks like the new one; it need not be a detached one.\<close>

definition find_twin :: "'d CStore \<Rightarrow> 'd mgr \<Rightarrow> 'd CStore option" where
  "find_twin new g =
     find (\<lambda>t. s_addr t \<noteq> s_addr new \<and> CompareStore new t \<and>
               same_partitions (m_pPartitionList t) (m_pPartitionList new)) (g_pStoreRoot g)"

fun mount_all :: "'d stg_env \<Rightarrow> nat list \<Rightarrow> 'd CStore \<Rightarrow> 'd stg \<Rightarrow> 'd CStore \<times> 'd stg" where
  "mount_all env [] s st = (s, st)"
| "mount_all env (a # as) s st =
     (let (_, s, st) = CStore_MountPartition env (Addr a) s st in mount_all env as s st)"

definition mount_new_store :: "'d stg_env \<Rightarrow> 'd CStore \<Rightarrow> 'd mgr \<Rightarrow> 'd mgr" where
  "mount_new_store env s g =
     (let g = DetachStores env True g;
          (s, st) = mount_all env (map p_addr (m_pPartitionList s)) s (stg g)
      in put_store s (g\<lparr>stg := st\<rparr>))"

text \<open>
  \<open>MountStore\<close> of a device.  While a store is detached, the partitions of the new store are not
  mounted before it is known whether the device is an old one.
\<close>

definition MountStore :: "'d stg_env \<Rightarrow> string \<Rightarrow> 'd mgr \<Rightarrow> (bool \<times> 'd mgr) option" where
  "MountStore env szDeviceName g =
     (if (case FindStore g szDeviceName of Some s \<Rightarrow> \<not> STORE_FLAG_DETACHED (m_dwFlags s) | None \<Rightarrow> False)
      then Some (True, case FindStore g szDeviceName of Some s \<Rightarrow> advertise (m_szDeviceName s) True g | None \<Rightarrow> g)
      else let pending = (\<exists>s \<in> set (g_pStoreRoot g). STORE_FLAG_DETACHED (m_dwFlags s))
           in case new_object env (stg g) of
                (None, st) \<Rightarrow> Some (False, g\<lparr>stg := st\<rparr>)
              | (Some a, st) \<Rightarrow>
                  let g = AddStore (CStore_new env a szDeviceName) (g\<lparr>stg := st\<rparr>)
                  in (case CStore_MountStore env (\<not> pending) (CStore_new env a szDeviceName) (stg g) of
                        None \<Rightarrow> None
                      | Some (e, s, st) \<Rightarrow>
                          let g = put_store s (g\<lparr>stg := st\<rparr>)
                          in if e \<noteq> ERROR_SUCCESS then Some (True, DeleteStore env s g)
                             else if \<not> pending then Some (True, advertise (m_szDeviceName s) True g)
                             else case find_twin s g of
                                    Some old \<Rightarrow> map_option (\<lambda>g. (True, g)) (reattach env old s szDeviceName g)
                                  | None \<Rightarrow> Some (True, advertise (m_szDeviceName s) True (mount_new_store env s g))))"

section \<open>A store vanishes\<close>

definition UnmountStore :: "string \<Rightarrow> 'd mgr \<Rightarrow> bool \<times> 'd mgr" where
  "UnmountStore szDeviceName g =
     (case FindStore g szDeviceName of
        None \<Rightarrow> (False, g)
      | Some s \<Rightarrow>
          (True,
           (put_store (s\<lparr>m_dwFlags := (m_dwFlags s)\<lparr>STORE_FLAG_DETACHED := True\<rparr>,
                         m_szOldDeviceName := m_szDeviceName s, m_szDeviceName := [],
                         m_pPartitionList := map (set_detached True) (m_pPartitionList s)\<rparr>) g)
             \<lparr>STOREMGR_EVENT_UPDATETIMEOUT := True, g_hPNPUpdateEvent := True\<rparr>))"

section \<open>Refreshing\<close>

definition strip_backslash :: "string \<Rightarrow> string" where
  "strip_backslash s = (case s of c # cs \<Rightarrow> if c = CHR 0x5C then cs else s | [] \<Rightarrow> [])"

definition STRMGR_RefreshStore :: "'d stg_env \<Rightarrow> string \<Rightarrow> 'd mgr \<Rightarrow> (bool \<times> 'd mgr) option" where
  "STRMGR_RefreshStore env pwsFileName g =
     (let name = strip_backslash pwsFileName
      in case FindStore g name of
           Some s \<Rightarrow>
             Some (True, (put_store (s\<lparr>m_dwFlags := (m_dwFlags s)\<lparr>STORE_FLAG_REFRESHED := True\<rparr>\<rparr>) g)
                           \<lparr>STOREMGR_EVENT_REFRESHSTORE := True, g_hPNPUpdateEvent := True\<rparr>)
         | None \<Rightarrow> map_option (\<lambda>(_, g). (True, g)) (MountStore env name g))"

text \<open>
  The thread walks along the list; the store it goes on with is read before the refreshed store is
  mounted again.  \<open>None\<close>: that store has been deleted in the meantime, or mounting does not return.
\<close>

definition refresh_one :: "'d stg_env \<Rightarrow> 'd CStore \<Rightarrow> 'd mgr \<Rightarrow> 'd mgr option" where
  "refresh_one env s g =
     (let name = m_szDeviceName s;
          (ok, s, st) = CStore_UnmountStore env True s (stg g);
          g = put_store s (g\<lparr>stg := st\<rparr>);
          nxt = next_pointer s_addr (g_pStoreRoot g) (s_addr s)
      in if \<not> ok then Some g
         else let g = g\<lparr>stg := UpdateHandleFromList (g_pRootHandle (stg g)) (Some (s_addr s, nxt)) None (stg g)\<rparr>;
                  g = DeleteStore env s (advertise (m_szDeviceName s) False g)
              in map_option snd (MountStore env name g))"

partial_function (option) refresh_loop :: "'d stg_env \<Rightarrow> pointer \<Rightarrow> 'd mgr \<Rightarrow> 'd mgr option" where
  "refresh_loop env cursor g =
     (if cursor = NULL then Some g
      else case IsValidStore g cursor of
             None \<Rightarrow> None
           | Some s \<Rightarrow>
               let nxt = next_pointer s_addr (g_pStoreRoot g) (s_addr s)
               in if STORE_FLAG_REFRESHED (m_dwFlags s)
                  then Option.bind (refresh_one env s g) (refresh_loop env nxt)
                  else refresh_loop env nxt g)"

section \<open>Events\<close>

text \<open>The events of the plug-and-play thread; the second component is whether the wait has a time limit.\<close>

datatype pnp_event = Time_Out | Device_Message bool string | Update_Event

definition PNPThread_step :: "'d stg_env \<Rightarrow> pnp_event \<Rightarrow> bool \<times> 'd mgr \<Rightarrow> (bool \<times> 'd mgr) option" where
  "PNPThread_step env ev tg =
     (let (timed, g) = tg
      in case ev of
           Time_Out \<Rightarrow> Some (False, DetachStores env True (g\<lparr>STOREMGR_EVENT_UPDATETIMEOUT := False\<rparr>))
         | Device_Message attached name \<Rightarrow>
             if attached then map_option (\<lambda>(_, g). (timed, g)) (MountStore env name g)
             else Some (timed, snd (UnmountStore name g))
         | Update_Event \<Rightarrow>
             let timed = (STOREMGR_EVENT_UPDATETIMEOUT g \<or> timed);
                 g = g\<lparr>g_hPNPUpdateEvent := False\<rparr>
             in if STOREMGR_EVENT_REFRESHSTORE g
                then map_option (\<lambda>g. (timed, g)) (refresh_loop env (head_pointer s_addr (g_pStoreRoot g)) g)
                else Some (timed, g))"

end
