(* ===== verification/Store_Api.thy ===== *)
theory Store_Api
  imports Store_Mgr
begin

text \<open>
  The entry points of the store manager (\<open>stgapi.cpp\<close>, \<open>STRMGR_*\<close> of \<open>storemain.cpp\<close>).  A handle
  argument is the address of a handle object.  The buffer of an information function is \<open>None\<close> when
  it cannot be accessed, otherwise it says whether \<open>cbSize\<close> is right.  The entry points catch
  exceptions, so an access through a pointer that is not valid gives \<open>ERROR_BAD_ARGUMENTS\<close>.
\<close>

section \<open>Validity and errors\<close>

definition set_last_error :: "nat \<Rightarrow> 'd mgr \<Rightarrow> 'd mgr" where
  "set_last_error e g = g\<lparr>stg := stg_error e (stg g)\<rparr>"

text \<open>The last error is set only when the call fails.\<close>

definition finish :: "nat \<Rightarrow> 'd mgr \<Rightarrow> bool \<times> 'd mgr" where
  "finish dwError g = (if dwError \<noteq> ERROR_SUCCESS then (False, set_last_error dwError g) else (True, g))"

definition IsValidHandle :: "'d mgr \<Rightarrow> nat \<Rightarrow> CStoreHandle option" where
  "IsValidHandle g a =
     (case handle_heap (stg g) a of
        None \<Rightarrow> None
      | Some h \<Rightarrow>
          if STOREHANDLE_TYPE_INTERNAL h \<or> IsValidStore g (h_pStore h) \<noteq> None then Some h else None)"

definition IsTrustedIoctl :: "io_code \<Rightarrow> bool" where
  "IsTrustedIoctl dwIoctl \<longleftrightarrow>
     dwIoctl \<notin> {DISK_IOCTL_GETINFO, DISK_IOCTL_GETNAME, IOCTL_DISK_GETINFO, IOCTL_DISK_GETNAME,
                IOCTL_DISK_GET_STORAGEID, IOCTL_DISK_DEVICE_INFO}"

text \<open>
  The body of an entry point that works on the store of a handle: the handle is checked, the store
  is updated.  An internal handle passes the check even when its store is gone.
\<close>

definition on_store ::
  "(CStoreHandle \<Rightarrow> 'd CStore \<Rightarrow> 'd stg \<Rightarrow> nat \<times> 'd CStore \<times> 'd stg) \<Rightarrow> nat \<Rightarrow> 'd mgr \<Rightarrow> nat \<times> 'd mgr" where
  "on_store f a g =
     (case IsValidHandle g a of
        None \<Rightarrow> (ERROR_BAD_ARGUMENTS, g)
      | Some h \<Rightarrow>
          (case IsValidStore g (h_pStore h) of
             None \<Rightarrow> (ERROR_BAD_ARGUMENTS, g)
           | Some s \<Rightarrow> (case f h s (stg g) of (e, s, st) \<Rightarrow> (e, put_store s (g\<lparr>stg := st\<rparr>)))))"

definition trusted_call :: "'d stg_env \<Rightarrow> ('d mgr \<Rightarrow> nat \<times> 'd mgr) \<Rightarrow> 'd mgr \<Rightarrow> bool \<times> 'd mgr" where
  "trusted_call env f g =
     (if \<not> trusted_caller env then (False, set_last_error ERROR_ACCESS_DENIED g)
      else let (e, g) = f g in finish e g)"

section \<open>Handles of stores\<close>

definition store_handle :: "pointer \<Rightarrow> nat \<Rightarrow> bool \<Rightarrow> CStoreHandle" where
  "store_handle s hProc search =
     \<lparr>dwSig = STORE_HANDLE_SIG, h_pStore = s, h_pPartition = INVALID_POINTER, h_hProc = hProc,
      STOREHANDLE_TYPE_SEARCH = search, STOREHANDLE_TYPE_CURRENT = False, STOREHANDLE_TYPE_INTERNAL = False\<rparr>"

text \<open>The first store, from a store on, that is not detached.\<close>

definition attached_from :: "'d CStore list \<Rightarrow> 'd CStore option" where
  "attached_from ss = find (\<lambda>s. \<not> STORE_FLAG_DETACHED (m_dwFlags s)) ss"

definition stores_after :: "'d mgr \<Rightarrow> nat \<Rightarrow> 'd CStore list" where
  "stores_after g a = tl (dropWhile (\<lambda>s. s_addr s \<noteq> a) (g_pStoreRoot g))"

text \<open>The handle object stays allocated when the kernel has no handle for it.\<close>

definition STG_FindFirstStore :: "'d stg_env \<Rightarrow> bool option \<Rightarrow> nat \<Rightarrow> 'd mgr \<Rightarrow> nat \<times> STOREINFO option \<times> 'd mgr" where
  "STG_FindFirstStore env pInfo hProc g =
     (if pInfo \<noteq> Some True then (INVALID_HANDLE_VALUE, None, set_last_error ERROR_BAD_ARGUMENTS g)
      else case attached_from (g_pStoreRoot g) of
             None \<Rightarrow> (INVALID_HANDLE_VALUE, None, set_last_error ERROR_NO_MORE_ITEMS g)
           | Some s \<Rightarrow>
               (case new_handle_object env (store_handle (Addr (s_addr s)) hProc True) (stg g) of
                  (None, st) \<Rightarrow> (INVALID_HANDLE_VALUE, None, g\<lparr>stg := st\<rparr>)
                | (Some a, st) \<Rightarrow>
                    let (h, st) = CreateAPIHandle env FSTG a st;
                        st = (if h \<noteq> INVALID_HANDLE_VALUE then st\<lparr>g_pRootHandle := AddHandleToList a (g_pRootHandle st)\<rparr> else st)
                    in (h, Some (CStore_GetStoreInfo s), g\<lparr>stg := st\<rparr>)))"

text \<open>A marked search reports its store as it is, detached or not.\<close>

definition STG_FindNextStore :: "nat \<Rightarrow> bool option \<Rightarrow> 'd mgr \<Rightarrow> bool \<times> STOREINFO option \<times> 'd mgr" where
  "STG_FindNextStore a pInfo g =
     (if pInfo \<noteq> Some True then (False, None, set_last_error ERROR_BAD_ARGUMENTS g)
      else case IsValidHandle g a of
             None \<Rightarrow> (False, None, g)
           | Some h \<Rightarrow>
               let h' = (if STOREHANDLE_TYPE_CURRENT h then h\<lparr>STOREHANDLE_TYPE_CURRENT := False\<rparr>
                         else h\<lparr>h_pStore := (case h_pStore h of
                                               Addr s \<Rightarrow> (case attached_from (stores_after g s) of
                                                           Some t \<Rightarrow> Addr (s_addr t) | None \<Rightarrow> NULL)
                                             | _ \<Rightarrow> NULL)\<rparr>);
                   g = g\<lparr>stg := put_handle a h' (stg g)\<rparr>
               in case IsValidStore g (h_pStore h') of
                    Some s \<Rightarrow> (True, Some (CStore_GetStoreInfo s), g)
                  | None \<Rightarrow> (False, None, set_last_error ERROR_NO_MORE_ITEMS g))"

definition STG_FindCloseStore :: "nat \<Rightarrow> 'd mgr \<Rightarrow> bool \<times> 'd mgr" where
  "STG_FindCloseStore a g =
     (case DeleteHandleFromList (g_pRootHandle (stg g)) a of
        Some l \<Rightarrow> (True, g\<lparr>stg := delete_handle a ((stg g)\<lparr>g_pRootHandle := l\<rparr>)\<rparr>)
      | None \<Rightarrow> (False, g))"

definition STG_OpenStore :: "'d stg_env \<Rightarrow> string \<Rightarrow> nat \<Rightarrow> 'd mgr \<Rightarrow> nat \<times> 'd mgr" where
  "STG_OpenStore env szDeviceName hProc g =
     (case FindStore g szDeviceName of
        None \<Rightarrow>
          (case new_object env (stg g) of
             (None, st) \<Rightarrow> (INVALID_HANDLE_VALUE, g\<lparr>stg := st\<rparr>)
           | (Some _, st) \<Rightarrow> (INVALID_HANDLE_VALUE, set_last_error ERROR_DEVICE_NOT_AVAILABLE (g\<lparr>stg := st\<rparr>)))
      | Some s \<Rightarrow>
          (case new_handle_object env (store_handle (Addr (s_addr s)) hProc False) (stg g) of
             (None, st) \<Rightarrow> (INVALID_HANDLE_VALUE, g\<lparr>stg := st\<rparr>)
           | (Some a, st) \<Rightarrow>
               let (h, st) = CreateAPIHandle env STRG a st
               in if h \<noteq> INVALID_HANDLE_VALUE
                  then (h, g\<lparr>stg := st\<lparr>g_pRootHandle := AddHandleToList a (g_pRootHandle st)\<rparr>\<rparr>)
                  else (h, g\<lparr>stg := delete_handle a st\<rparr>)))"

definition STG_Close :: "nat \<Rightarrow> 'd mgr \<Rightarrow> bool \<times> 'd mgr" where
  "STG_Close a g = (let (ok, st) = STG_CloseHandle a (stg g) in (ok, g\<lparr>stg := st\<rparr>))"

section \<open>Stores\<close>

definition STG_GetStoreInfo :: "nat \<Rightarrow> bool option \<Rightarrow> 'd mgr \<Rightarrow> STOREINFO option \<times> 'd mgr" where
  "STG_GetStoreInfo a pInfo g =
     (case (pInfo, IsValidHandle g a) of
        (Some True, Some h) \<Rightarrow>
          (case IsValidStore g (h_pStore h) of
             Some s \<Rightarrow> (Some (CStore_GetStoreInfo s), g)
           | None \<Rightarrow> (None, set_last_error ERROR_BAD_ARGUMENTS g))
      | _ \<Rightarrow> (None, set_last_error ERROR_BAD_ARGUMENTS g))"

definition STG_DismountStore :: "'d stg_env \<Rightarrow> nat \<Rightarrow> 'd mgr \<Rightarrow> bool \<times> 'd mgr" where
  "STG_DismountStore env a g =
     trusted_call env
       (on_store (\<lambda>h s st. let (ok, s, st) = CStore_UnmountStore env False s st
                           in (if ok then ERROR_SUCCESS else ERROR_GEN_FAILURE, s, st)) a) g"

definition STG_FormatStore :: "'d stg_env \<Rightarrow> nat \<Rightarrow> 'd mgr \<Rightarrow> bool \<times> 'd mgr" where
  "STG_FormatStore env a g = trusted_call env (on_store (\<lambda>h. CStore_FormatStore env) a) g"

section \<open>Partitions\<close>

definition STG_CreatePartition :: "'d stg_env \<Rightarrow> nat \<Rightarrow> string \<Rightarrow> nat \<Rightarrow> nat \<Rightarrow> nat \<Rightarrow> bool \<Rightarrow> 'd mgr \<Rightarrow> bool \<times> 'd mgr" where
  "STG_CreatePartition env a name dwPartType dwHighSec dwLowSec bAuto g =
     trusted_call env
       (on_store (\<lambda>h. CStore_CreatePartition env name (of_nat dwPartType) (dwHighSec * 2 ^ 32 + dwLowSec) bAuto) a) g"

definition STG_DeletePartition :: "'d stg_env \<Rightarrow> nat \<Rightarrow> string \<Rightarrow> 'd mgr \<Rightarrow> bool \<times> 'd mgr" where
  "STG_DeletePartition env a name g = trusted_call env (on_store (\<lambda>h. CStore_DeletePartition env name) a) g"

definition STG_OpenPartition :: "'d stg_env \<Rightarrow> nat \<Rightarrow> string \<Rightarrow> 'd mgr \<Rightarrow> nat \<times> 'd mgr" where
  "STG_OpenPartition env a name g =
     (case IsValidHandle g a of
        None \<Rightarrow> (INVALID_HANDLE_VALUE, set_last_error ERROR_BAD_ARGUMENTS g)
      | Some h \<Rightarrow>
          (case IsValidStore g (h_pStore h) of
             None \<Rightarrow> (INVALID_HANDLE_VALUE, set_last_error ERROR_BAD_ARGUMENTS g)
           | Some s \<Rightarrow>
               (case CStore_OpenPartition env s name (h_hProc h) (stg g) of
                  (e, hPartition, st) \<Rightarrow> (hPartition, snd (finish e (g\<lparr>stg := st\<rparr>))))))"

definition STG_MountPartition :: "'d stg_env \<Rightarrow> nat \<Rightarrow> 'd mgr \<Rightarrow> bool \<times> 'd mgr" where
  "STG_MountPartition env a g = trusted_call env (on_store (\<lambda>h. CStore_MountPartition env (h_pPartition h)) a) g"

definition STG_DismountPartition :: "'d stg_env \<Rightarrow> nat \<Rightarrow> 'd mgr \<Rightarrow> bool \<times> 'd mgr" where
  "STG_DismountPartition env a g = trusted_call env (on_store (\<lambda>h. CStore_UnmountPartition env (h_pPartition h)) a) g"

definition STG_RenamePartition :: "'d stg_env \<Rightarrow> nat \<Rightarrow> string \<Rightarrow> 'd mgr \<Rightarrow> bool \<times> 'd mgr" where
  "STG_RenamePartition env a szNewName g =
     trusted_call env (on_store (\<lambda>h. CStore_RenameParttion env (h_pPartition h) szNewName) a) g"

definition STG_SetPartitionAttributes :: "'d stg_env \<Rightarrow> nat \<Rightarrow> nat \<Rightarrow> 'd mgr \<Rightarrow> bool \<times> 'd mgr" where
  "STG_SetPartitionAttributes env a dwAttrs g =
     trusted_call env (on_store (\<lambda>h. CStore_SetPartitionAttributes env (h_pPartition h) dwAttrs) a) g"

definition STG_FormatPartition :: "'d stg_env \<Rightarrow> nat \<Rightarrow> nat \<Rightarrow> bool \<Rightarrow> 'd mgr \<Rightarrow> bool \<times> 'd mgr" where
  "STG_FormatPartition env a bPartType bAuto g =
     trusted_call env (on_store (\<lambda>h. CStore_FormatPartition env (h_pPartition h) (of_nat bPartType) bAuto) a) g"

text \<open>\<open>STG_SetPartitionSize\<close> follows here; it is not compiled for the device.\<close>

definition STG_GetPartitionInfo :: "'d stg_env \<Rightarrow> nat \<Rightarrow> bool option \<Rightarrow> 'd mgr \<Rightarrow> bool \<times> PARTINFO option \<times> 'd mgr" where
  "STG_GetPartitionInfo env a pInfo g =
     (case (pInfo, IsValidHandle g a) of
        (Some True, Some h) \<Rightarrow>
          (case IsValidStore g (h_pStore h) of
             Some s \<Rightarrow> (True, snd (CStore_GetPartitionInfo env (h_pPartition h) s), g)
           | None \<Rightarrow> (False, None, set_last_error ERROR_BAD_ARGUMENTS g))
      | _ \<Rightarrow> (False, None, set_last_error ERROR_BAD_ARGUMENTS g))"

section \<open>Searches of partitions\<close>

definition STG_FindFirstPartition :: "'d stg_env \<Rightarrow> nat \<Rightarrow> bool option \<Rightarrow> 'd mgr \<Rightarrow> nat \<times> PARTINFO option \<times> 'd mgr" where
  "STG_FindFirstPartition env a pInfo g =
     (case (pInfo, IsValidHandle g a) of
        (Some True, Some h) \<Rightarrow>
          (case IsValidStore g (h_pStore h) of
             Some s \<Rightarrow>
               (case CStore_FindFirstPartition env (h_hProc h) s (stg g) of
                  (e, hSearch, info, st) \<Rightarrow> (hSearch, info, snd (finish e (g\<lparr>stg := st\<rparr>))))
           | None \<Rightarrow> (INVALID_HANDLE_VALUE, None, set_last_error ERROR_BAD_ARGUMENTS g))
      | _ \<Rightarrow> (INVALID_HANDLE_VALUE, None, set_last_error ERROR_BAD_ARGUMENTS g))"

definition STG_FindNextPartition :: "'d stg_env \<Rightarrow> nat \<Rightarrow> bool option \<Rightarrow> 'd mgr \<Rightarrow> bool \<times> PARTINFO option \<times> 'd mgr" where
  "STG_FindNextPartition env a pInfo g =
     (case (pInfo, IsValidHandle g a) of
        (Some True, Some h) \<Rightarrow>
          (case IsValidStore g (h_pStore h) of
             Some s \<Rightarrow>
               (case CStore_FindNextPartition env a h s (stg g) of
                  (e, info, st) \<Rightarrow> (let (ok, g) = finish e (g\<lparr>stg := st\<rparr>) in (ok, info, g)))
           | None \<Rightarrow> (False, None, set_last_error ERROR_BAD_ARGUMENTS g))
      | _ \<Rightarrow> (False, None, set_last_error ERROR_BAD_ARGUMENTS g))"

definition STG_FindClosePartition :: "nat \<Rightarrow> 'd mgr \<Rightarrow> bool \<times> 'd mgr" where
  "STG_FindClosePartition a g =
     (let (e, g) = on_store (\<lambda>h s st. let (e, st) = CStore_FindClosePartition a s st in (e, s, st)) a g
      in finish e g)"

section \<open>Requests\<close>

definition STG_DeviceIoControl :: "'d stg_env \<Rightarrow> nat \<Rightarrow> io_code \<Rightarrow> io_request \<Rightarrow> 'd mgr \<Rightarrow> bool \<times> io_answer \<times> 'd mgr" where
  "STG_DeviceIoControl env a code req g =
     (if \<not> trusted_caller env \<and> IsTrustedIoctl code then (False, No_Answer, set_last_error ERROR_ACCESS_DENIED g)
      else case IsValidHandle g a of
             None \<Rightarrow> (False, No_Answer, set_last_error ERROR_BAD_ARGUMENTS g)
           | Some h \<Rightarrow>
               if STOREHANDLE_TYPE_SEARCH h then (False, No_Answer, set_last_error ERROR_BAD_ARGUMENTS g)
               else case IsValidStore g (h_pStore h) of
                      None \<Rightarrow> (False, No_Answer, set_last_error ERROR_BAD_ARGUMENTS g)
                    | Some s \<Rightarrow>
                        (case CStore_DeviceIoControl env s (h_pPartition h) code req (machine (stg g)) of
                           None \<Rightarrow> (False, No_Answer, set_last_error ERROR_BAD_ARGUMENTS g)
                         | Some (e, answer, m) \<Rightarrow>
                             let (ok, g) = finish e (g\<lparr>stg := (stg g)\<lparr>machine := m\<rparr>\<rparr>) in (ok, answer, g)))"

section \<open>Entry points of the file system\<close>

definition STRMGR_CreateFileW :: "'d stg_env \<Rightarrow> string \<Rightarrow> nat \<Rightarrow> 'd mgr \<Rightarrow> nat \<times> 'd mgr" where
  "STRMGR_CreateFileW env pwsFileName hProc g = STG_OpenStore env (strip_backslash pwsFileName) hProc g"

definition STRMGR_FindFirstFileW :: "'d stg_env \<Rightarrow> bool option \<Rightarrow> nat \<Rightarrow> 'd mgr \<Rightarrow> nat \<times> STOREINFO option \<times> 'd mgr" where
  "STRMGR_FindFirstFileW env pfd hProc g = STG_FindFirstStore env pfd hProc g"

end
