(* ===== verification/Store_Inv.thy ===== *)
theory Store_Inv
  imports Store_Api
begin

text \<open>
  Well-formed states of the store manager: addresses are unique, the mount count is the number of
  mounted partitions, and no handle that is still in a list points to a partition or a store that
  is gone.  The operations on one store and on handles keep this.

  The operations of a store keep the well-formedness of all stores: opening, mounting and loading
  partitions, deleting, unmounting, and searching.
\<close>

section \<open>Well-formed states\<close>

definition part_wf :: "CPartition \<Rightarrow> bool" where
  "part_wf p \<longleftrightarrow> (PARTITION_ATTRIBUTE_MOUNTED p \<longleftrightarrow> m_pDsk p \<noteq> None)"

definition mounted_count :: "CPartition list \<Rightarrow> nat" where
  "mounted_count ps = length (filter PARTITION_ATTRIBUTE_MOUNTED ps)"

definition parts_wf :: "nat \<Rightarrow> 'd CStore \<Rightarrow> bool" where
  "parts_wf n s \<longleftrightarrow>
     s_addr s < n \<and> distinct (map p_addr (m_pPartitionList s)) \<and>
     (\<forall>p \<in> set (m_pPartitionList s). p_addr p < n \<and> part_wf p) \<and>
     m_dwMountCount s = mounted_count (m_pPartitionList s)"

definition part_handle_wf :: "'d CStore \<Rightarrow> CStoreHandle \<Rightarrow> bool" where
  "part_handle_wf s h \<longleftrightarrow>
     dwSig h = PART_HANDLE_SIG \<and> h_pStore h = Addr (s_addr s) \<and>
     (\<forall>x. h_pPartition h = Addr x \<longrightarrow> x \<in> p_addr ` set (m_pPartitionList s))"

definition handles_wf :: "'d stg \<Rightarrow> 'd CStore \<Rightarrow> bool" where
  "handles_wf st s \<longleftrightarrow>
     (\<exists>l. m_pRootHandle st (s_addr s) = Some l \<and> distinct l \<and>
          (\<forall>a \<in> set l. a < stg_next st \<and> (\<exists>h. handle_heap st a = Some h \<and> part_handle_wf s h)))"

text \<open>\<open>A\<close> are the addresses a handle in the list of store handles may point to.\<close>

definition store_handle_wf :: "nat set \<Rightarrow> CStoreHandle \<Rightarrow> bool" where
  "store_handle_wf A h \<longleftrightarrow>
     dwSig h = STORE_HANDLE_SIG \<and> (\<forall>x. h_pStore h = Addr x \<longrightarrow> x \<in> A)"

definition global_wf :: "nat set \<Rightarrow> 'd stg \<Rightarrow> bool" where
  "global_wf A st \<longleftrightarrow>
     distinct (g_pRootHandle st) \<and>
     (\<forall>a \<in> set (g_pRootHandle st). a < stg_next st \<and> (\<exists>h. handle_heap st a = Some h \<and> store_handle_wf A h))"

definition stores_wf :: "nat set \<Rightarrow> 'd stg \<Rightarrow> 'd CStore list \<Rightarrow> bool" where
  "stores_wf A st ss \<longleftrightarrow>
     stg_next st \<le> INVALID_HANDLE_VALUE \<and> distinct (map s_addr ss) \<and>
     (\<forall>s \<in> set ss. parts_wf (stg_next st) s \<and> handles_wf st s) \<and> global_wf A st"

lemma stores_wf_perm: "mset ss = mset ts \<Longrightarrow> stores_wf A st ss \<longleftrightarrow> stores_wf A st ts"
proof -
  assume m: "mset ss = mset ts"
  then have "set ss = set ts" by (metis set_mset_mset)
  moreover have "distinct (map s_addr ss) = distinct (map s_addr ts)"
    using m by (intro mset_eq_imp_distinct_iff) simp
  ultimately show ?thesis unfolding stores_wf_def global_wf_def store_handle_wf_def by (simp only:)
qed

lemma stores_wf_focus: "s \<in> set ss \<Longrightarrow> stores_wf A st (s # remove1 s ss) \<longleftrightarrow> stores_wf A st ss"
  by (rule stores_wf_perm) simp

lemma stores_wfI:
  assumes "stg_next st \<le> INVALID_HANDLE_VALUE" "distinct (map s_addr ss)" "global_wf A st"
    "\<And>s. s \<in> set ss \<Longrightarrow> parts_wf (stg_next st) s" "\<And>s. s \<in> set ss \<Longrightarrow> handles_wf st s"
  shows "stores_wf A st ss"
  using assms by (simp add: stores_wf_def)

lemma stores_wfD:
  assumes "stores_wf A st ss"
  shows "stg_next st \<le> INVALID_HANDLE_VALUE" "distinct (map s_addr ss)" "global_wf A st"
    "\<And>s. s \<in> set ss \<Longrightarrow> parts_wf (stg_next st) s" "\<And>s. s \<in> set ss \<Longrightarrow> handles_wf st s"
  using assms by (simp_all add: stores_wf_def)

lemma store_unique: "stores_wf A st ss \<Longrightarrow> t \<in> set ss \<Longrightarrow> s \<in> set ss \<Longrightarrow> s_addr t = s_addr s \<Longrightarrow> t = s"
  by (drule stores_wfD(2)) (auto simp: distinct_map dest: inj_onD)

section \<open>Changes of the machine and allocation\<close>

lemma stores_wf_machine [simp]: "stores_wf A (st\<lparr>machine := m\<rparr>) ss = stores_wf A st ss"
  by (simp add: stores_wf_def global_wf_def handles_wf_def)

lemma handles_of_machine [simp]: "handles_of (st\<lparr>machine := m\<rparr>) s = handles_of st s"
  by (simp add: handles_of_def)

lemma stores_wf_stg_error [simp]: "stores_wf A (stg_error e st) ss = stores_wf A st ss"
  by (simp add: stg_error_def)

lemma stores_wf_api [simp]: "stores_wf A (st\<lparr>api_handles := x\<rparr>) ss = stores_wf A st ss"
  by (simp add: stores_wf_def global_wf_def handles_wf_def)

lemma on_machine_eq: "on_machine f st = (r, st') \<longleftrightarrow> (\<exists>m. f (machine st) = (r, m) \<and> st' = st\<lparr>machine := m\<rparr>)"
  by (auto simp: on_machine_def split: prod.splits)

lemma parts_wf_mono: "parts_wf n s \<Longrightarrow> n \<le> k \<Longrightarrow> parts_wf k s"
  by (auto simp: parts_wf_def)

lemma stores_wf_next:
  assumes "stores_wf A st ss" "stg_next st \<le> k" "k \<le> INVALID_HANDLE_VALUE"
  shows "stores_wf A (st\<lparr>stg_next := k\<rparr>) ss"
  using assms by (fastforce simp: stores_wf_def global_wf_def handles_wf_def intro: parts_wf_mono)

lemma new_object_cases:
  assumes "new_object env st = (r, st')"
  obtains m where "r = None" "st' = st\<lparr>machine := m\<rparr>"
  | m where "r = Some (stg_next st)" "stg_next st < INVALID_HANDLE_VALUE"
      "st' = st\<lparr>machine := m, stg_next := stg_next st + 1\<rparr>"
  using assms by (auto simp: new_object_def on_machine_def split: prod.splits if_splits)

lemma new_object_wf:
  assumes "new_object env st = (r, st')" "stores_wf A st ss"
  shows "stores_wf A st' ss"
  using assms(1)
proof (cases rule: new_object_cases)
  case (2 m)
  then show ?thesis using stores_wf_next [of A "st\<lparr>machine := m\<rparr>" ss "stg_next st + 1"] assms(2) by simp
qed (use assms(2) in simp)

lemma CreateAPIHandle_wf:
  assumes "CreateAPIHandle env api a st = (h, st')" "stores_wf A st ss"
  shows "stores_wf A st' ss"
  using assms by (auto simp: CreateAPIHandle_def split: prod.splits option.splits intro: new_object_wf)

lemma next_store: "stores_wf A st (s # os) \<Longrightarrow> s_addr s < stg_next st"
  by (simp add: stores_wf_def parts_wf_def)

section \<open>Handles\<close>

lemma handles_of_wf:
  assumes "stores_wf A st (s # os)"
  shows "m_pRootHandle st (s_addr s) = Some (handles_of st s)" "distinct (handles_of st s)"
    "\<And>a. a \<in> set (handles_of st s) \<Longrightarrow> a < stg_next st \<and> (\<exists>h. handle_heap st a = Some h \<and> part_handle_wf s h)"
  using assms by (auto simp: stores_wf_def handles_wf_def handles_of_def)

text \<open>A new handle object of a store, in front of its list.\<close>

lemma new_handle_wf:
  assumes wf: "stores_wf A st (s # os)" and new: "new_handle_object env h st = (Some a, st')"
    and h: "part_handle_wf s h"
  shows "stores_wf A (put_store_handles s (AddHandleToList a (handles_of st' s)) st') (s # os)"
proof -
  obtain st1 where n: "new_object env st = (Some a, st1)" and st': "st' = st1\<lparr>handle_heap := (handle_heap st1)(a \<mapsto> h)\<rparr>"
    using new by (auto simp: new_handle_object_def split: prod.splits option.splits)
  obtain m where a: "a = stg_next st" "a < INVALID_HANDLE_VALUE" and st1: "st1 = st\<lparr>machine := m, stg_next := stg_next st + 1\<rparr>"
    using n by (cases rule: new_object_cases) auto
  have old: "handles_of st' s = handles_of st s" by (simp add: st' st1 handles_of_def)
  have fresh: "a \<notin> set (handles_of st s)" using handles_of_wf(3) [OF wf, of a] a by auto
  let ?st = "put_store_handles s (AddHandleToList a (handles_of st s)) st'"
  note unfold = st' st1 put_store_handles_def AddHandleToList_def
  have "stores_wf A ?st (s # os)"
  proof (rule stores_wfI)
    show "stg_next ?st \<le> INVALID_HANDLE_VALUE" using a by (simp add: unfold)
    show "distinct (map s_addr (s # os))" using stores_wfD(2) [OF wf] .
    show "global_wf A ?st"
      using stores_wfD(3) [OF wf] a by (fastforce simp: unfold global_wf_def)
  next
    fix t assume t: "t \<in> set (s # os)"
    show "parts_wf (stg_next ?st) t"
      using stores_wfD(4) [OF wf t] by (rule parts_wf_mono) (simp add: unfold)
    show "handles_wf ?st t"
    proof (cases "s_addr t = s_addr s")
      case True
      have "t = s" using store_unique [OF wf t _ True] by simp
      then show ?thesis
        using handles_of_wf [OF wf] fresh h a by (fastforce simp: unfold handles_wf_def)
    next
      case False
      then show ?thesis using stores_wfD(5) [OF wf t] a by (fastforce simp: unfold handles_wf_def)
    qed
  qed
  then show ?thesis unfolding old .
qed

lemma new_handle_None: "new_handle_object env h st = (None, st') \<Longrightarrow> stores_wf A st ss \<Longrightarrow> stores_wf A st' ss"
  by (auto simp: new_handle_object_def split: prod.splits option.splits intro: new_object_wf)

text \<open>Deleting a handle object that is in no list any more.\<close>

lemma delete_handle_wf:
  assumes wf: "stores_wf A st ss" and g: "a \<notin> set (g_pRootHandle st)"
    and n: "\<And>s. s \<in> set ss \<Longrightarrow> a \<notin> set (handles_of st s)"
  shows "stores_wf A (delete_handle a st) ss"
proof (rule stores_wfI)
  show "global_wf A (delete_handle a st)"
    using stores_wfD(3) [OF wf] g by (auto simp: global_wf_def delete_handle_def)
next
  fix s assume s: "s \<in> set ss"
  show "parts_wf (stg_next (delete_handle a st)) s" using stores_wfD(4) [OF wf s] by (simp add: delete_handle_def)
  show "handles_wf (delete_handle a st) s"
    using stores_wfD(5) [OF wf s] n [OF s] by (fastforce simp: handles_wf_def delete_handle_def handles_of_def)
qed (use stores_wfD [OF wf] in \<open>simp_all add: delete_handle_def\<close>)

lemma set_remove1_distinct: "distinct l \<Longrightarrow> set (remove1 a l) = set l - {a}"
  by (simp add: set_remove1_eq)

lemma drop_store_handle_wf:
  assumes wf: "stores_wf A st (s # os)" and l: "DeleteHandleFromList (handles_of st s) a = Some l"
  shows "stores_wf A (drop_store_handle (s_addr s) l a st) (s # os)"
proof -
  have l': "a \<in> set (handles_of st s)" "l = remove1 a (handles_of st s)"
    using l by (simp_all add: DeleteHandleFromList_Some)
  obtain h where h: "handle_heap st a = Some h" "part_handle_wf s h" using handles_of_wf(3) [OF wf l'(1)] by auto
  let ?st = "st\<lparr>m_pRootHandle := (m_pRootHandle st)(s_addr s \<mapsto> l)\<rparr>"
  have "stores_wf A ?st (s # os)"
  proof (rule stores_wfI)
    show "global_wf A ?st" using stores_wfD(3) [OF wf] by (simp add: global_wf_def)
  next
    fix t assume t: "t \<in> set (s # os)"
    show "parts_wf (stg_next ?st) t" using stores_wfD(4) [OF wf t] by simp
    show "handles_wf ?st t"
    proof (cases "s_addr t = s_addr s")
      case True
      have "t = s" using store_unique [OF wf t _ True] by simp
      then show ?thesis
        using handles_of_wf [OF wf] l' by (auto simp: handles_wf_def set_remove1_distinct)
    next
      case False
      then show ?thesis using stores_wfD(5) [OF wf t] by (simp add: handles_wf_def)
    qed
  qed (use stores_wfD [OF wf] in simp_all)
  moreover have "a \<notin> set (g_pRootHandle ?st)"
    using wf h by (auto simp: stores_wf_def global_wf_def store_handle_wf_def part_handle_wf_def)
  moreover have "a \<notin> set (handles_of ?st t)" if t: "t \<in> set (s # os)" for t
  proof (cases "s_addr t = s_addr s")
    case True
    then show ?thesis using l' handles_of_wf(2) [OF wf] by (simp add: handles_of_def set_remove1_distinct)
  next
    case False
    show ?thesis
    proof
      assume "a \<in> set (handles_of ?st t)"
      with False have a: "a \<in> set (handles_of st t)" by (simp add: handles_of_def)
      have "stores_wf A st (t # remove1 t (s # os))"
        using wf t by (simp only: stores_wf_focus)
      from handles_of_wf(3) [OF this a] h False show False by (auto simp: part_handle_wf_def)
    qed
  qed
  ultimately have "stores_wf A (delete_handle a ?st) (s # os)" by (rule delete_handle_wf)
  then show ?thesis by (simp add: drop_store_handle_def)
qed

lemma drop_global_handle_wf:
  assumes wf: "stores_wf A st ss" and l: "DeleteHandleFromList (g_pRootHandle st) a = Some l"
  shows "stores_wf A (delete_handle a (st\<lparr>g_pRootHandle := l\<rparr>)) ss"
proof -
  have l': "a \<in> set (g_pRootHandle st)" "l = remove1 a (g_pRootHandle st)"
    using l by (simp_all add: DeleteHandleFromList_Some)
  have d: "distinct (g_pRootHandle st)" using wf by (simp add: stores_wf_def global_wf_def)
  obtain h where h: "handle_heap st a = Some h" "dwSig h = STORE_HANDLE_SIG"
    using wf l' by (auto simp: stores_wf_def global_wf_def store_handle_wf_def)
  let ?st = "st\<lparr>g_pRootHandle := l\<rparr>"
  have "stores_wf A ?st ss"
    by (rule stores_wfI)
       (use stores_wfD [OF wf] l' d in \<open>auto simp: global_wf_def handles_wf_def set_remove1_distinct\<close>)
  moreover have "a \<notin> set (g_pRootHandle ?st)" using l' d by (simp add: set_remove1_distinct)
  moreover have "a \<notin> set (handles_of ?st t)" if t: "t \<in> set ss" for t
  proof
    assume "a \<in> set (handles_of ?st t)"
    then have a: "a \<in> set (handles_of st t)" by (simp add: handles_of_def)
    have "stores_wf A st (t # remove1 t ss)" using wf t by (simp only: stores_wf_focus)
    from handles_of_wf(3) [OF this a] h show False by (auto simp: part_handle_wf_def)
  qed
  ultimately show ?thesis by (rule delete_handle_wf)
qed

lemma STG_CloseHandle_wf:
  assumes "STG_CloseHandle a st = (r, st')" "stores_wf A st ss"
  shows "stores_wf A st' ss"
proof (cases "handle_heap st a")
  case None
  then show ?thesis using assms by (auto simp: STG_CloseHandle_def)
next
  case (Some h)
  show ?thesis
  proof (cases "h_pStore h \<noteq> NULL \<and> dwSig h = PART_HANDLE_SIG")
    case False
    then show ?thesis using assms Some
      by (auto simp: STG_CloseHandle_def split: option.splits if_splits intro: drop_global_handle_wf)
  next
    case True
    show ?thesis
    proof (cases "h_pStore h")
      case (Addr b)
      show ?thesis
      proof (cases "m_pRootHandle st b")
        case None
        then show ?thesis using assms Some True Addr by (auto simp: STG_CloseHandle_def)
      next
        case root: (Some root)
        show ?thesis
        proof (cases "DeleteHandleFromList root a")
          case None
          then show ?thesis using assms Some True Addr root by (auto simp: STG_CloseHandle_def)
        next
          case l: (Some l)
          have st': "st' = drop_store_handle b l a st" using assms(1) Some True Addr root l by (auto simp: STG_CloseHandle_def)
          show ?thesis
          proof (cases "\<exists>s \<in> set ss. s_addr s = b")
            case True
            then obtain s where s: "s \<in> set ss" "s_addr s = b" by auto
            have "stores_wf A st (s # remove1 s ss)" using assms(2) s by (simp only: stores_wf_focus)
            moreover have "handles_of st s = root" using root s by (simp add: handles_of_def)
            ultimately have "stores_wf A st' (s # remove1 s ss)" using drop_store_handle_wf [of A st s "remove1 s ss" a l] l s st' by simp
            then show ?thesis using s by (simp only: stores_wf_focus)
          next
            case False
            have "stores_wf A (st\<lparr>m_pRootHandle := (m_pRootHandle st)(b \<mapsto> l)\<rparr>) ss"
              by (rule stores_wfI) (use stores_wfD [OF assms(2)] False in \<open>auto simp: global_wf_def handles_wf_def\<close>)
            moreover have "a \<notin> set (g_pRootHandle st)"
              using assms(2) Some True by (auto simp: stores_wf_def global_wf_def store_handle_wf_def)
            moreover have "a \<notin> set (handles_of st s)" if "s \<in> set ss" for s
            proof
              assume a: "a \<in> set (handles_of st s)"
              have "stores_wf A st (s # remove1 s ss)" using assms(2) that by (simp only: stores_wf_focus)
              from handles_of_wf(3) [OF this a] Some Addr that False show False by (auto simp: part_handle_wf_def)
            qed
            ultimately have "stores_wf A (delete_handle a (st\<lparr>m_pRootHandle := (m_pRootHandle st)(b \<mapsto> l)\<rparr>)) ss"
              using False by (intro delete_handle_wf) (auto simp: handles_of_def)
            then show ?thesis by (simp add: st' drop_store_handle_def)
          qed
        qed
      qed
    qed (use assms Some True in \<open>auto simp: STG_CloseHandle_def\<close>)
  qed
qed

lemma CloseStoreHandle_wf:
  assumes "stores_wf A st ss"
  shows "stores_wf A (snd (CloseStoreHandle h st)) ss"
proof (cases "CloseStoreHandle h st")
  case (Pair r st')
  then show ?thesis using assms
    by (auto simp: CloseStoreHandle_def split: option.splits prod.splits api_set.splits intro: STG_CloseHandle_wf)
qed

section \<open>Replacing a store object\<close>

lemma stores_wf_same:
  assumes wf: "stores_wf A st (s # os)" and a: "s_addr s' = s_addr s"
    and addrs: "p_addr ` set (m_pPartitionList s) \<subseteq> p_addr ` set (m_pPartitionList s')"
    and parts: "parts_wf (stg_next st) s'"
  shows "stores_wf A st (s' # os)"
proof (rule stores_wfI)
  show "global_wf A st" using stores_wfD(3) [OF wf] a by (simp add: global_wf_def store_handle_wf_def)
next
  fix t assume t: "t \<in> set (s' # os)"
  show "parts_wf (stg_next st) t" using t parts stores_wfD(4) [OF wf] by auto
  show "handles_wf st t"
  proof (cases "t \<in> set os")
    case True
    then show ?thesis using stores_wfD(5) [OF wf] by simp
  next
    case False
    then have "t = s'" using t by simp
    then show ?thesis using stores_wfD(5) [OF wf, of s] a addrs
      by (fastforce simp: handles_wf_def part_handle_wf_def)
  qed
qed (use stores_wfD [OF wf] a in simp_all)

text \<open>A partition is gone: its handles stand at its successor or are invalid.\<close>

lemma update_removed_wf:
  assumes wf: "stores_wf A st (s # os)" and a: "s_addr s' = s_addr s"
    and addrs: "p_addr ` set (m_pPartitionList s) \<subseteq> insert x (p_addr ` set (m_pPartitionList s'))"
    and parts: "parts_wf (stg_next st) s'"
    and nxt: "\<And>y. nxt = Addr y \<Longrightarrow> y \<in> p_addr ` set (m_pPartitionList s')"
  shows "stores_wf A (UpdateHandleFromList (handles_of st s) None (Some (x, nxt)) st) (s' # os)"
proof -
  let ?l = "handles_of st s" and ?st = "UpdateHandleFromList (handles_of st s) None (Some (x, nxt)) st"
  have d: "distinct ?l" using handles_of_wf(2) [OF wf] .
  have heap: "handle_heap ?st b = (if b \<in> set ?l then map_option (update_partition (Some (x, nxt))) (handle_heap st b) else handle_heap st b)" for b
  proof -
    have "update_store None = id" by (rule ext) (simp add: update_store_def)
    then show ?thesis using UpdateHandleFromList_heap [OF d, of None "Some (x, nxt)" st b] by simp
  qed
  have nx: "stg_next ?st = stg_next st" by simp
  have other: "b \<notin> set ?l" if "handle_heap st b = Some h" "\<not> part_handle_wf s h" for b h
    using handles_of_wf(3) [OF wf, of b] that by auto
  show ?thesis
  proof (rule stores_wfI)
    show "global_wf A ?st"
      unfolding global_wf_def
    proof (intro conjI ballI)
      fix b assume "b \<in> set (g_pRootHandle ?st)"
      then obtain h where h: "b < stg_next st" "handle_heap st b = Some h" "store_handle_wf A h"
        using stores_wfD(3) [OF wf] by (auto simp: global_wf_def)
      then have "b \<notin> set ?l" by (intro other) (auto simp: store_handle_wf_def part_handle_wf_def)
      then show "b < stg_next ?st" "\<exists>h. handle_heap ?st b = Some h \<and> store_handle_wf A h"
        using h a by (simp_all add: heap nx store_handle_wf_def)
    qed (use stores_wfD(3) [OF wf] in \<open>simp add: global_wf_def\<close>)
  next
    fix t assume t: "t \<in> set (s' # os)"
    show "parts_wf (stg_next ?st) t" using t parts stores_wfD(4) [OF wf] by (auto simp: nx)
    show "handles_wf ?st t"
    proof (cases "t \<in> set os")
      case True
      have ne: "s_addr t \<noteq> s_addr s" using stores_wfD(2) [OF wf] True by (auto simp: image_iff)
      obtain l where l: "m_pRootHandle st (s_addr t) = Some l" "distinct l"
        "\<And>b. b \<in> set l \<Longrightarrow> b < stg_next st \<and> (\<exists>h. handle_heap st b = Some h \<and> part_handle_wf t h)"
        using stores_wfD(5) [OF wf, of t] True by (auto simp: handles_wf_def)
      have "handle_heap ?st b = handle_heap st b" if b: "b \<in> set l" for b
      proof -
        obtain h where "handle_heap st b = Some h" "part_handle_wf t h" using l(3) [OF b] by auto
        then show ?thesis using other [of b h] ne by (simp add: heap part_handle_wf_def)
      qed
      then show ?thesis using l by (auto simp: handles_wf_def nx)
    next
      case False
      then have t': "t = s'" using t by simp
      show ?thesis
        unfolding handles_wf_def t'
      proof (rule exI [of _ ?l], intro conjI ballI)
        show "m_pRootHandle ?st (s_addr s') = Some ?l" using handles_of_wf(1) [OF wf] a by simp
        show "distinct ?l" by (rule d)
        fix b assume b: "b \<in> set ?l"
        then obtain h where h: "b < stg_next st" "handle_heap st b = Some h" "part_handle_wf s h"
          using handles_of_wf(3) [OF wf] by auto
        show "b < stg_next ?st" using h by (simp add: nx)
        have "y = x \<or> y \<in> p_addr ` set (m_pPartitionList s')" if "h_pPartition h = Addr y" for y
          using h(3) that addrs by (auto simp: part_handle_wf_def)
        then have "part_handle_wf s' (update_partition (Some (x, nxt)) h)"
          using h(3) a nxt unfolding part_handle_wf_def update_partition_def by auto
        then show "\<exists>h. handle_heap ?st b = Some h \<and> part_handle_wf s' h" using h b by (simp add: heap)
      qed
    qed
  qed (use stores_wfD [OF wf] a in \<open>simp_all add: nx\<close>)
qed

section \<open>Lists of partitions\<close>

lemma find_append: "find P (xs @ ys) = (case find P xs of None \<Rightarrow> find P ys | Some x \<Rightarrow> Some x)"
  by (induction xs) auto

lemma parts_length:
  assumes "parts_wf n s"
  shows "length (m_pPartitionList s) \<le> n"
proof -
  have "length (m_pPartitionList s) = card (p_addr ` set (m_pPartitionList s))"
    using assms distinct_card [of "map p_addr (m_pPartitionList s)"] by (simp add: parts_wf_def)
  also have "\<dots> \<le> card {..<n}" using assms by (intro card_mono) (auto simp: parts_wf_def)
  finally show ?thesis by simp
qed

lemma mounted_count_le: "mounted_count ps \<le> length ps"
  by (simp add: mounted_count_def)

lemma mounted_count_app [simp]: "mounted_count (xs @ ys) = mounted_count xs + mounted_count ys"
  by (simp add: mounted_count_def)

lemma mounted_count_Cons [simp]: "mounted_count (p # ps) = (if PARTITION_ATTRIBUTE_MOUNTED p then 1 else 0) + mounted_count ps"
  by (simp add: mounted_count_def)

lemma mounted_count_Nil [simp]: "mounted_count [] = 0"
  by (simp add: mounted_count_def)

lemma partition_at_split:
  assumes "partition_at s a = Some q" "distinct (map p_addr (m_pPartitionList s))"
  obtains xs ys where "m_pPartitionList s = xs @ q # ys" "p_addr q = a"
    "\<And>r. r \<in> set xs \<union> set ys \<Longrightarrow> p_addr r \<noteq> a"
proof -
  have q: "q \<in> set (m_pPartitionList s)" "p_addr q = a" using assms(1) by (auto simp: partition_at_def find_Some_iff)
  obtain xs ys where "m_pPartitionList s = xs @ q # ys" using q(1) by (meson split_list)
  moreover from this have "p_addr r \<noteq> a" if "r \<in> set xs \<union> set ys" for r
    using assms(2) q(2) that by (auto simp: image_iff)
  ultimately show ?thesis using that q(2) by blast
qed

lemma put_partition_split:
  assumes "m_pPartitionList s = xs @ q # ys" "p_addr p = p_addr q" "\<And>r. r \<in> set xs \<union> set ys \<Longrightarrow> p_addr r \<noteq> p_addr q"
  shows "m_pPartitionList (put_partition p s) = xs @ p # ys"
  using assms by (auto simp: put_partition_def intro: map_idI)

lemma put_partition_store [simp]:
  "s_addr (put_partition p s) = s_addr s" "m_dwMountCount (put_partition p s) = m_dwMountCount s"
  "m_dwPartCount (put_partition p s) = m_dwPartCount s" "m_dwFlags (put_partition p s) = m_dwFlags s" "driver_of env (put_partition p s) = driver_of env s"
  by (simp_all add: put_partition_def driver_of_def)

lemma IsValidPartition_at: "IsValidPartition s ptr = Some p \<Longrightarrow> ptr = Addr (p_addr p) \<and> partition_at s (p_addr p) = Some p"
  by (cases ptr) (auto simp: IsValidPartition_def partition_at_def find_Some_iff)

lemma FindPartition_at:
  assumes "CStore_FindPartition s name = Some p" "distinct (map p_addr (m_pPartitionList s))"
  shows "partition_at s (p_addr p) = Some p" "p \<in> set (m_pPartitionList s)"
proof -
  show p: "p \<in> set (m_pPartitionList s)" using assms(1) by (auto simp: CStore_FindPartition_def find_Some_iff)
  then obtain q where "partition_at s (p_addr p) = Some q"
    by (cases "partition_at s (p_addr p)") (auto simp: partition_at_def find_None_iff)
  moreover from this have "q \<in> set (m_pPartitionList s)" "p_addr q = p_addr p" by (auto simp: partition_at_def find_Some_iff)
  ultimately show "partition_at s (p_addr p) = Some p" using p assms(2) by (metis distinct_map inj_onD)
qed

text \<open>A partition is replaced, and the mount count follows.\<close>

lemma put_partition_wf:
  assumes wf: "stores_wf A st (s # os)" and at: "partition_at s (p_addr p) = Some q" and p: "part_wf p"
    and n: "n + (if PARTITION_ATTRIBUTE_MOUNTED q then 1 else 0) = m_dwMountCount s + (if PARTITION_ATTRIBUTE_MOUNTED p then 1 else 0)"
  shows "stores_wf A st ((put_partition p s)\<lparr>m_dwMountCount := n\<rparr> # os)"
proof -
  have pw: "parts_wf (stg_next st) s" using stores_wfD(4) [OF wf] by simp
  then obtain xs ys where s: "m_pPartitionList s = xs @ q # ys" "p_addr q = p_addr p"
    "\<And>r. r \<in> set xs \<union> set ys \<Longrightarrow> p_addr r \<noteq> p_addr p"
    using partition_at_split [OF at] by (metis parts_wf_def)
  have s': "m_pPartitionList (put_partition p s) = xs @ p # ys" by (rule put_partition_split [of s xs q ys p]) (use s in auto)
  have img: "p_addr ` set (m_pPartitionList (put_partition p s)) = p_addr ` set (m_pPartitionList s)"
    by (simp add: s(1,2) s')
  show ?thesis
  proof (rule stores_wf_same [OF wf])
    show "parts_wf (stg_next st) ((put_partition p s)\<lparr>m_dwMountCount := n\<rparr>)"
      using pw p s n by (auto simp: parts_wf_def s')
    show "p_addr ` set (m_pPartitionList s) \<subseteq> p_addr ` set (m_pPartitionList ((put_partition p s)\<lparr>m_dwMountCount := n\<rparr>))"
      using img by simp
  qed simp
qed

section \<open>Opening and mounting\<close>

lemma CStore_OpenPartition_wf:
  assumes "CStore_OpenPartition env s name hProc st = (e, h, st')" "stores_wf A st (s # os)"
  shows "stores_wf A st' (s # os)"
proof (cases "CStore_FindPartition s name")
  case None
  then show ?thesis using assms
    by (auto simp: CStore_OpenPartition_def split: prod.splits option.splits intro: new_object_wf)
next
  case (Some p)
  have d: "distinct (map p_addr (m_pPartitionList s))" using stores_wfD(4) [OF assms(2), of s] by (simp add: parts_wf_def)
  have h: "part_handle_wf s (partition_handle s (Addr (p_addr p)) hProc search internal)" for search internal
    using FindPartition_at(2) [OF Some d] by (auto simp: part_handle_wf_def partition_handle_def)
  let ?h = "partition_handle s (Addr (p_addr p)) hProc False (hProc = current_process env)"
  obtain a st1 where n: "new_handle_object env ?h st = (a, st1)" by (metis surj_pair)
  show ?thesis
  proof (cases a)
    case None
    then show ?thesis using assms Some n new_handle_None [of env ?h st st1 A] by (simp add: CStore_OpenPartition_def)
  next
    case a: (Some x)
    let ?st = "put_store_handles s (AddHandleToList x (handles_of st1 s)) st1"
    have "stores_wf A ?st (s # os)" using new_handle_wf [OF assms(2)] n a h by simp
    moreover obtain y st2 where c: "CreateAPIHandle env STRG x ?st = (y, st2)" by (metis surj_pair)
    ultimately have "stores_wf A st2 (s # os)" by (rule CreateAPIHandle_wf [rotated])
    then show ?thesis using assms Some n a c by (simp add: CStore_OpenPartition_def Let_def)
  qed
qed

lemma mount_settings_facts:
  assumes "mount_settings env m root fs flags p = (c, p')"
  shows "p_addr p' = p_addr p" "m_pDsk p' = m_pDsk p" "PARTITION_ATTRIBUTE_MOUNTED p' = PARTITION_ATTRIBUTE_MOUNTED p"
    "m_hPartition p' = m_hPartition p" "m_szPartitionName p' = m_szPartitionName p" "m_hFSD p' = m_hFSD p"
    "m_dwPartitionId p' = m_dwPartitionId p" "p_dwStoreId p' = p_dwStoreId p" "m_pi p' = m_pi p"
  using assms by (auto simp: mount_settings_def Let_def)

lemma FormatPartition_facts:
  assumes "CPartition_FormatPartition d t auto p m = (r, p', m')"
  shows "p_addr p' = p_addr p" "m_pDsk p' = m_pDsk p" "PARTITION_ATTRIBUTE_MOUNTED p' = PARTITION_ATTRIBUTE_MOUNTED p"
    "m_hPartition p' = m_hPartition p" "m_szPartitionName p' = m_szPartitionName p" "m_hFSD p' = m_hFSD p"
    "m_dwPartitionId p' = m_dwPartitionId p" "p_dwStoreId p' = p_dwStoreId p"
  using assms by (auto simp: CPartition_FormatPartition_def Let_def split: prod.splits if_splits)

lemma start_file_system_facts:
  assumes "start_file_system env root ev fmt p m = (p', m')"
  shows "p_addr p' = p_addr p" "PARTITION_ATTRIBUTE_MOUNTED p' = PARTITION_ATTRIBUTE_MOUNTED p"
    "m_hPartition p' = m_hPartition p" "m_szPartitionName p' = m_szPartitionName p"
    "m_dwPartitionId p' = m_dwPartitionId p" "p_dwStoreId p' = p_dwStoreId p"
  using assms by (auto simp: start_file_system_def Let_def split: prod.splits if_splits)

lemma MountPartition_facts:
  assumes "CPartition_MountPartition env d si h root fs flags ev fmt p m = (ok, p', m')"
  shows "p_addr p' = p_addr p" "ok \<longleftrightarrow> m_pDsk p' \<noteq> None"
    "PARTITION_ATTRIBUTE_MOUNTED p' = (ok \<or> PARTITION_ATTRIBUTE_MOUNTED p)" "m_hPartition p' = h"
    "m_szPartitionName p' = m_szPartitionName p" "m_dwPartitionId p' = m_dwPartitionId p" "p_dwStoreId p' = p_dwStoreId p"
proof -
  obtain c p1 where 1: "mount_settings env m root fs flags (p\<lparr>m_hPartition := h\<rparr>) = (c, p1)" by (metis surj_pair)
  obtain fmt2 p2 m2 where 2: "(if c \<and> hal_query_format env si (CPartition_GetPartitionInfo env p1) (p_dwMountFlags p1)
             then let (_, p, m) = CPartition_FormatPartition d (pi_bPartType (m_pi p1)) False p1 m in (True, p, m)
             else (fmt, p1, m)) = (fmt2, p2, m2)" by (metis surj_pair)
  obtain p3 m3 where 3: "(if m_szFileSys p2 \<noteq> [] then start_file_system env root ev fmt2 p2 m2 else (p2, m2)) = (p3, m3)"
    by (metis surj_pair)
  have r: "(ok, p', m') = (if m_pDsk p3 \<noteq> None then (True, p3\<lparr>PARTITION_ATTRIBUTE_MOUNTED := True\<rparr>, m3) else (False, p3\<lparr>m_hFSD := None\<rparr>, m3))"
    using assms unfolding CPartition_MountPartition_def Let_def 1 prod.case 2 [unfolded Let_def] 3 by simp
  note f1 = mount_settings_facts [OF 1]
  have f2: "p_addr p2 = p_addr p1" "PARTITION_ATTRIBUTE_MOUNTED p2 = PARTITION_ATTRIBUTE_MOUNTED p1"
    "m_hPartition p2 = m_hPartition p1" "m_szPartitionName p2 = m_szPartitionName p1"
    "m_dwPartitionId p2 = m_dwPartitionId p1" "p_dwStoreId p2 = p_dwStoreId p1"
    using 2 by (auto split: prod.splits if_splits simp: FormatPartition_facts)
  have f3: "p_addr p3 = p_addr p2" "PARTITION_ATTRIBUTE_MOUNTED p3 = PARTITION_ATTRIBUTE_MOUNTED p2"
    "m_hPartition p3 = m_hPartition p2" "m_szPartitionName p3 = m_szPartitionName p2"
    "m_dwPartitionId p3 = m_dwPartitionId p2" "p_dwStoreId p3 = p_dwStoreId p2"
    using 3 by (auto split: if_splits simp: start_file_system_facts)
  show "p_addr p' = p_addr p" "ok \<longleftrightarrow> m_pDsk p' \<noteq> None"
    "PARTITION_ATTRIBUTE_MOUNTED p' = (ok \<or> PARTITION_ATTRIBUTE_MOUNTED p)" "m_hPartition p' = h"
    "m_szPartitionName p' = m_szPartitionName p" "m_dwPartitionId p' = m_dwPartitionId p" "p_dwStoreId p' = p_dwStoreId p"
    using r f1 f2 f3 by (auto split: if_splits)
qed

lemma mount_at_wf:
  assumes run: "mount_at env name fmt p s st = (ok, s', st')"
    and wf: "stores_wf A st (s # os)" and at: "partition_at s (p_addr p) = Some p" and un: "\<not> PARTITION_ATTRIBUTE_MOUNTED p"
  shows "stores_wf A st' (s' # os)" "s_addr s' = s_addr s" "m_dwFlags s' = m_dwFlags s"
proof -
  obtain e h st1 where o: "CStore_OpenPartition env s name (current_process env) st = (e, h, st1)" by (metis prod_cases3)
  obtain k p' m where m: "CPartition_MountPartition env (driver_of env s) (CStore_GetStoreInfo s) h (m_szRootRegKey s)
      (m_szDefaultFileSystem s) (s_dwMountFlags s) (m_hActivityEvent s) fmt p (machine st1) = (k, p', m)"
    by (metis prod_cases3)
  note f = MountPartition_facts [OF m]
  have r: "ok = k" "s' = (if k then (put_partition p' s)\<lparr>m_dwMountCount := add32 (m_dwMountCount s) 1\<rparr> else put_partition p' s)"
    "st' = st1\<lparr>machine := m\<rparr>"
    using run unfolding mount_at_def o m by (auto simp: Let_def o m split: if_splits)
  have wf1: "stores_wf A st1 (s # os)" by (rule CStore_OpenPartition_wf [OF o wf])
  have pw: "parts_wf (stg_next st1) s" using stores_wfD(4) [OF wf1] by simp
  have "mounted_count (m_pPartitionList s) < 2 ^ 32"
    using parts_length [OF pw] mounted_count_le [of "m_pPartitionList s"] stores_wfD(1) [OF wf1]
    by (simp add: INVALID_HANDLE_VALUE_def)
  moreover have cnt: "m_dwMountCount s = mounted_count (m_pPartitionList s)" using pw by (simp add: parts_wf_def)
  ultimately have small: "m_dwMountCount s < 2 ^ 32" by simp
  have lt: "mounted_count (m_pPartitionList s) < length (m_pPartitionList s)"
  proof -
    have "p \<in> set (m_pPartitionList s)" using at by (auto simp: partition_at_def find_Some_iff)
    then obtain xs ys where "m_pPartitionList s = xs @ p # ys" by (meson split_list)
    then show ?thesis using un mounted_count_le [of xs] mounted_count_le [of ys] by simp
  qed
  have add: "add32 (m_dwMountCount s) 1 = m_dwMountCount s + 1"
    using cnt lt parts_length [OF pw] stores_wfD(1) [OF wf1] by (intro add32_eq) (simp add: INVALID_HANDLE_VALUE_def)
  have at': "partition_at s (p_addr p') = Some p" using at f by simp
  show "s_addr s' = s_addr s" "m_dwFlags s' = m_dwFlags s" by (simp_all add: r)
  show "stores_wf A st' (s' # os)"
  proof (cases k)
    case True
    have "stores_wf A st1 ((put_partition p' s)\<lparr>m_dwMountCount := m_dwMountCount s + 1\<rparr> # os)"
      by (rule put_partition_wf [OF wf1 at']) (use f True un in \<open>auto simp: part_wf_def\<close>)
    then show ?thesis using True by (simp add: r add [simplified])
  next
    case False
    have "stores_wf A st1 ((put_partition p' s)\<lparr>m_dwMountCount := m_dwMountCount s\<rparr> # os)"
      by (rule put_partition_wf [OF wf1 at']) (use f False un in \<open>auto simp: part_wf_def\<close>)
    moreover have "(put_partition p' s)\<lparr>m_dwMountCount := m_dwMountCount s\<rparr> = put_partition p' s"
      by (simp add: put_partition_def)
    ultimately show ?thesis using False by (simp add: r)
  qed
qed

lemma CStore_LoadPartition_wf:
  assumes run: "CStore_LoadPartition env name mnt fmt s st = (r, s', st')" and wf: "stores_wf A st (s # os)"
  shows "stores_wf A st' (s' # os)" "s_addr s' = s_addr s" "m_dwFlags s' = m_dwFlags s"
proof -
  obtain e pid m where o: "drv_OpenPartition (driver_of env s) (m_dwStoreId s) name 0 (machine st) = (e, pid, m)"
    by (metis prod_cases3)
  have "stores_wf A st' (s' # os) \<and> s_addr s' = s_addr s \<and> m_dwFlags s' = m_dwFlags s"
  proof (cases "e = ERROR_SUCCESS")
    case False
    then show ?thesis using run wf unfolding CStore_LoadPartition_def o by auto
  next
    case True
    obtain a st1 where n: "new_object env (st\<lparr>machine := m\<rparr>) = (a, st1)" by (metis surj_pair)
    have wf1: "stores_wf A st1 (s # os)" using new_object_wf [OF n] wf by simp
    show ?thesis
    proof (cases a)
      case None
      then show ?thesis using run True n wf1 unfolding CStore_LoadPartition_def o by auto
    next
      case (Some x)
      have x: "x = stg_next st" "stg_next st1 = stg_next st + 1" using n Some by (cases rule: new_object_cases; simp)+
      obtain p m1 where p: "CPartition_LoadPartition env (driver_of env s) name
          (CPartition_new env x (m_dwStoreId s) pid (s_szFolderName s)) (machine st1) = (p, m1)" by (metis surj_pair)
      have pf: "p_addr p = x" "\<not> PARTITION_ATTRIBUTE_MOUNTED p" "m_pDsk p = None"
        using p by (auto simp: CPartition_LoadPartition_def CPartition_new_def split: prod.splits)
      let ?s = "CStore_AddPartition p s"
      have fresh: "x \<notin> p_addr ` set (m_pPartitionList s)" using stores_wfD(4) [OF wf, of s] x by (auto simp: parts_wf_def)
      have wf2: "stores_wf A (st1\<lparr>machine := m1\<rparr>) (?s # os)"
      proof (rule stores_wf_same)
        show "stores_wf A (st1\<lparr>machine := m1\<rparr>) (s # os)" using wf1 by simp
        show "parts_wf (stg_next (st1\<lparr>machine := m1\<rparr>)) ?s"
          using stores_wfD(4) [OF wf1, of s] fresh pf x by (auto simp: parts_wf_def CStore_AddPartition_def part_wf_def)
      qed (auto simp: CStore_AddPartition_def)
      have at: "partition_at ?s (p_addr p) = Some p"
      proof -
        have "find (\<lambda>q. p_addr q = p_addr p) (m_pPartitionList s) = None"
          using fresh pf by (auto simp: find_None_iff image_iff)
        then show ?thesis by (simp add: partition_at_def CStore_AddPartition_def find_append)
      qed
      show ?thesis
      proof (cases "mnt \<and> STORE_ATTRIBUTE_AUTOMOUNT (m_dwFlags ?s)")
        case False
        then show ?thesis using run True n Some p wf2 unfolding CStore_LoadPartition_def o
          by (auto simp: on_machine_def Let_def CStore_AddPartition_def)
      next
        case t: True
        obtain ok s2 st2 where mnt: "mount_at env name fmt p ?s (st1\<lparr>machine := m1\<rparr>) = (ok, s2, st2)" by (metis prod_cases3)
        have "s' = s2 \<and> st' = st2" using run True n Some p t mnt unfolding CStore_LoadPartition_def o
          by (auto simp: on_machine_def Let_def)
        then show ?thesis using mount_at_wf [OF mnt wf2 at pf(2)] by (simp add: CStore_AddPartition_def)
      qed
    qed
  qed
  then show "stores_wf A st' (s' # os)" "s_addr s' = s_addr s" "m_dwFlags s' = m_dwFlags s" by simp_all
qed

section \<open>Loading a store\<close>

lemma load_loop_wf:
  assumes "load_loop env search mnt fmt s st = Some (s', st')" "stores_wf A st (s # os)"
  shows "stores_wf A st' (s' # os) \<and> s_addr s' = s_addr s \<and> m_dwFlags s' = m_dwFlags s"
proof -
  have "stores_wf A st (s # os) \<Longrightarrow> case r of (s', st') \<Rightarrow> stores_wf A st' (s' # os) \<and> s_addr s' = s_addr s \<and> m_dwFlags s' = m_dwFlags s"
    if "load_loop env search mnt fmt s st = Some r" for r
    using that
  proof (induction rule: load_loop.raw_induct [rotated, consumes 1])
    case (1 loop env search mnt fmt s st r)
    obtain e pi m where n: "drv_FindPartitionNext (driver_of env s) search zero_partinfo (machine st) = (e, pi, m)"
      by (metis prod_cases3)
    show ?case
    proof (cases "e = ERROR_SUCCESS")
      case False
      then show ?thesis using 1 n by auto
    next
      case True
      obtain b s1 st1 where l: "CStore_LoadPartition env (szPartitionName pi) mnt fmt s (st\<lparr>machine := m\<rparr>) = (b, s1, st1)"
        by (metis prod_cases3)
      have "stores_wf A st1 (s1 # os)" "s_addr s1 = s_addr s" "m_dwFlags s1 = m_dwFlags s" using CStore_LoadPartition_wf [OF l] 1 by simp_all
      moreover have "loop env search mnt fmt s1 st1 = Some r" using 1 n True l by simp
      ultimately show ?thesis using 1(1) [of env search mnt fmt s1 st1 r] by simp
    qed
  qed
  then show ?thesis using assms by fastforce
qed

end
