(* ===== verification/Store_Calls.thy ===== *)
theory Store_Calls
  imports Store_Inv
begin

text \<open>
  Well-formedness under mounting and unmounting of whole stores and under the operations on
  partitions and searches.

  Every operation of a store keeps the well-formedness of the stores: formatting, creating,
  deleting, mounting, unmounting and changing partitions, and the searches.
\<close>

section \<open>Operations that leave the partitions alone\<close>

definition same_parts :: "'d CStore \<Rightarrow> 'd CStore \<Rightarrow> bool" where
  "same_parts s s' \<longleftrightarrow>
     s_addr s' = s_addr s \<and> m_pPartitionList s' = m_pPartitionList s \<and> m_dwMountCount s' = m_dwMountCount s \<and>
     STORE_FLAG_DETACHED (m_dwFlags s') = STORE_FLAG_DETACHED (m_dwFlags s)"

lemma same_parts_refl [simp]: "same_parts s s"
  by (simp add: same_parts_def)

lemma same_parts_trans: "same_parts s t \<Longrightarrow> same_parts t u \<Longrightarrow> same_parts s u"
  by (simp add: same_parts_def)

lemma stores_wf_same_parts: "stores_wf A st (s # os) \<Longrightarrow> same_parts s s' \<Longrightarrow> stores_wf A st (s' # os)"
  by (rule stores_wf_same) (auto simp: same_parts_def parts_wf_def stores_wf_def)

lemma open_device_same: "open_device env s m = (e, s', m') \<Longrightarrow> same_parts s s'"
  by (auto simp: open_device_def Let_def same_parts_def split: prod.splits option.splits if_splits)

lemma read_geometry_same: "read_geometry env s m = (e, s', m') \<Longrightarrow> same_parts s s'"
  by (auto simp: read_geometry_def Let_def same_parts_def split: prod.splits if_splits io_answer.splits)

lemma read_device_info_same: "read_device_info env s m = (s', m') \<Longrightarrow> same_parts s s'"
  by (auto simp: read_device_info_def Let_def same_parts_def split: prod.splits if_splits io_answer.splits)

lemma read_storage_id_same: "read_storage_id env s m = (s', m') \<Longrightarrow> same_parts s s'"
  by (auto simp: read_storage_id_def Let_def same_parts_def split: prod.splits if_splits bool.splits)

lemma OpenDisk_same:
  assumes "OpenDisk env s m = (e, s', m')"
  shows "same_parts s s'"
proof -
  obtain e1 s1 m1 where 1: "open_device env s m = (e1, s1, m1)" by (metis prod_cases3)
  note f1 = open_device_same [OF 1]
  show ?thesis
  proof (cases "m_hDisk s1 = INVALID_HANDLE_VALUE")
    case True
    then show ?thesis using assms f1 unfolding OpenDisk_def 1 by simp
  next
    case False
    obtain e2 s2 m2 where 2: "read_geometry env s1 m1 = (e2, s2, m2)" by (metis prod_cases3)
    obtain s3 m3 where 3: "(if e2 = ERROR_SUCCESS then read_device_info env s2 m2 else (s2, m2)) = (s3, m3)" by (metis surj_pair)
    obtain s4 m4 where 4: "read_storage_id env s3 m3 = (s4, m4)" by (metis surj_pair)
    have "s' = s4" using assms False unfolding OpenDisk_def Let_def 1 prod.case 2 3 4 by simp
    moreover have "same_parts s2 s3" using 3 by (auto split: if_splits dest: read_device_info_same)
    ultimately show ?thesis
      using f1 read_geometry_same [OF 2] read_storage_id_same [OF 4] same_parts_trans by metis
  qed
qed

lemma GetPartitionDriver_same: "same_parts s (GetPartitionDriver m hs hp s)"
  by (simp add: GetPartitionDriver_def Let_def same_parts_def split: prod.splits option.splits)

lemma GetStoreSettings_same: "same_parts s (GetStoreSettings env m s)"
proof (cases "FsdRegOpenKey m g_szPROFILE_PATH")
  case None
  then show ?thesis by (simp add: GetStoreSettings_def GetPartitionDriver_same)
next
  case (Some p)
  show ?thesis unfolding GetStoreSettings_def Some Let_def option.case
    by (rule same_parts_trans [OF _ GetPartitionDriver_same]) (simp add: same_parts_def)
qed

lemma disk_callback_same: "disk_callback env s m = (s', m') \<Longrightarrow> same_parts s s'"
  by (auto simp: disk_callback_def FSDMGR_DeviceHandleToHDSK_def same_parts_def split: prod.splits if_splits bool.splits)

lemma open_driver_same: "open_driver env s m = (e, s', m') \<Longrightarrow> same_parts s s'"
  by (auto simp: open_driver_def Let_def same_parts_def split: prod.splits if_splits bool.splits dest!: disk_callback_same)

lemma refresh_info_same: "refresh_info env s m = (s', m') \<Longrightarrow> same_parts s s'"
  by (auto simp: refresh_info_def same_parts_def split: prod.splits)

lemma create_activity_event_same: "create_activity_event env s m = (s', m') \<Longrightarrow> same_parts s s'"
  by (auto simp: create_activity_event_def same_parts_def split: prod.splits if_splits)

lemma auto_format_same: "auto_format env s m = (s', m') \<Longrightarrow> same_parts s s'"
  by (auto simp: auto_format_def Let_def split: prod.splits if_splits dest: refresh_info_same)

lemma auto_partition_same: "auto_partition env s m = (b, s', m') \<Longrightarrow> same_parts s s'"
  by (auto simp: auto_partition_def Let_def same_parts_def split: prod.splits if_splits dest!: refresh_info_same)

lemma GetPartitionCount_same: "GetPartitionCount env s m = Some (s', m') \<Longrightarrow> same_parts s s'"
  by (auto simp: GetPartitionCount_def Let_def same_parts_def split: prod.splits if_splits)

lemma refresh_store_wf:
  assumes "refresh_store env s st = (s', st')" "stores_wf A st (s # os)"
  shows "stores_wf A st' (s' # os)" "s_addr s' = s_addr s" "m_pPartitionList s' = m_pPartitionList s"
    "m_dwMountCount s' = m_dwMountCount s" "STORE_FLAG_DETACHED (m_dwFlags s') = STORE_FLAG_DETACHED (m_dwFlags s)"
proof -
  obtain m where r: "refresh_info env s (machine st) = (s', m)" "st' = st\<lparr>machine := m\<rparr>"
    using assms(1) by (auto simp: refresh_store_def split: prod.splits)
  note f = refresh_info_same [OF r(1)]
  show "stores_wf A st' (s' # os)" using stores_wf_same_parts [OF assms(2) f] by (simp add: r)
  show "s_addr s' = s_addr s" "m_pPartitionList s' = m_pPartitionList s" "m_dwMountCount s' = m_dwMountCount s"
    "STORE_FLAG_DETACHED (m_dwFlags s') = STORE_FLAG_DETACHED (m_dwFlags s)"
    using f by (simp_all add: same_parts_def)
qed

section \<open>Mounting a store\<close>

lemma LoadExistingPartitions_wf:
  assumes "LoadExistingPartitions env mnt fmt s st = Some (s', st')" "stores_wf A st (s # os)"
  shows "stores_wf A st' (s' # os) \<and> s_addr s' = s_addr s \<and>
    STORE_FLAG_DETACHED (m_dwFlags s') = STORE_FLAG_DETACHED (m_dwFlags s)"
proof -
  obtain e search m where f: "drv_FindPartitionStart (driver_of env s) (m_dwStoreId s) 0 (machine st) = (e, search, m)"
    by (metis prod_cases3)
  show ?thesis
    using assms load_loop_wf [of env search mnt fmt s "st\<lparr>machine := m\<rparr>" s' _ A os]
    unfolding LoadExistingPartitions_def f by (fastforce split: if_splits)
qed

lemma load_store_wf:
  assumes run: "load_store env mnt s st = Some (s', st')" and wf: "stores_wf A st (s # os)"
  shows "stores_wf A st' (s' # os) \<and> s_addr s' = s_addr s \<and>
    STORE_FLAG_DETACHED (m_dwFlags s') = STORE_FLAG_DETACHED (m_dwFlags s)"
proof -
  obtain s1 m1 where 1: "create_activity_event env s (machine st) = (s1, m1)" by (metis surj_pair)
  obtain s2 m2 where 2: "refresh_info env s1 m1 = (s2, m2)" by (metis surj_pair)
  obtain s3 m3 where 3: "auto_format env s2 m2 = (s3, m3)" by (metis surj_pair)
  obtain e m4 where 4: "drv_IsStoreFormatted (driver_of env s3) (m_dwStoreId s3) m3 = (e, m4)" by (metis surj_pair)
  have f3: "same_parts s s3"
    using create_activity_event_same [OF 1] refresh_info_same [OF 2] auto_format_same [OF 3] same_parts_trans by metis
  have mark: "same_parts t (t\<lparr>m_dwFlags := (m_dwFlags t)\<lparr>STORE_FLAG_MOUNTED := True\<rparr>\<rparr>)" for t :: "'a CStore" by (simp add: same_parts_def)
  show ?thesis
  proof (cases "e = ERROR_SUCCESS")
    case False
    then have r: "s' = s3\<lparr>m_dwFlags := (m_dwFlags s3)\<lparr>STORE_FLAG_MOUNTED := True\<rparr>\<rparr>" "st' = st\<lparr>machine := m4\<rparr>"
      using run unfolding load_store_def Let_def 1 2 3 4 prod.case by auto
    have "same_parts s s'" unfolding r(1) by (rule same_parts_trans [OF f3 mark])
    then show ?thesis using stores_wf_same_parts [OF wf] by (simp add: r(2) same_parts_def)
  next
    case True
    then obtain s5 m5 where 5: "GetPartitionCount env s3 m4 = Some (s5, m5)"
      using run unfolding load_store_def Let_def 1 2 3 4 prod.case by (auto split: option.splits)
    obtain b s6 m6 where 6: "auto_partition env s5 m5 = (b, s6, m6)" by (metis prod_cases3)
    obtain s7 st7 where 7: "LoadExistingPartitions env mnt b s6 (st\<lparr>machine := m6\<rparr>) = Some (s7, st7)"
      "s' = s7\<lparr>m_dwFlags := (m_dwFlags s7)\<lparr>STORE_FLAG_MOUNTED := True\<rparr>\<rparr>" "st' = st7"
      using run True unfolding load_store_def Let_def 1 2 3 4 prod.case 5 option.case 6 by auto
    have f6: "same_parts s s6"
      using f3 GetPartitionCount_same [OF 5] auto_partition_same [OF 6] same_parts_trans by metis
    have "stores_wf A (st\<lparr>machine := m6\<rparr>) (s6 # os)" using stores_wf_same_parts [OF wf f6] by simp
    from LoadExistingPartitions_wf [OF 7(1) this] f6 stores_wf_same_parts [OF _ mark] show ?thesis
      by (simp add: 7(2,3) same_parts_def)
  qed
qed

lemma CStore_MountStore_wf:
  assumes run: "CStore_MountStore env mnt s st = Some (e, s', st')" and wf: "stores_wf A st (s # os)"
  shows "stores_wf A st' (s' # os)" "s_addr s' = s_addr s" "STORE_FLAG_DETACHED (m_dwFlags s') = STORE_FLAG_DETACHED (m_dwFlags s)"
proof -
  obtain e1 s1 m1 where 1: "OpenDisk env s (machine st) = (e1, s1, m1)" by (metis prod_cases3)
  note f1 = OpenDisk_same [OF 1]
  have "stores_wf A st' (s' # os) \<and> s_addr s' = s_addr s \<and>
    STORE_FLAG_DETACHED (m_dwFlags s') = STORE_FLAG_DETACHED (m_dwFlags s)"
  proof (cases "e1 = ERROR_SUCCESS")
    case False
    then show ?thesis using run stores_wf_same_parts [OF wf f1] f1
      unfolding CStore_MountStore_def 1 by (auto simp: same_parts_def)
  next
    case True
    obtain e2 s2 m2 where 2: "open_driver env (GetStoreSettings env m1 s1) m1 = (e2, s2, m2)" by (metis prod_cases3)
    have f2: "same_parts s s2" using f1 GetStoreSettings_same open_driver_same [OF 2] same_parts_trans by metis
    have wf2: "stores_wf A (st\<lparr>machine := m2\<rparr>) (s2 # os)" using stores_wf_same_parts [OF wf f2] by simp
    show ?thesis
    proof (cases "e2 = ERROR_SUCCESS")
      case False
      then show ?thesis using run True wf2 f2 unfolding CStore_MountStore_def Let_def 1 prod.case 2 by (auto simp: same_parts_def)
    next
      case e2: True
      then have "load_store env mnt s2 (st\<lparr>machine := m2\<rparr>) = Some (s', st')"
        using run True unfolding CStore_MountStore_def Let_def 1 prod.case 2 by auto
      from load_store_wf [OF this wf2] f2 show ?thesis by (simp add: same_parts_def)
    qed
  qed
  then show "stores_wf A st' (s' # os)" "s_addr s' = s_addr s" "STORE_FLAG_DETACHED (m_dwFlags s') = STORE_FLAG_DETACHED (m_dwFlags s)"
    by simp_all
qed

section \<open>Unmounting\<close>

lemma UnmountPartition_facts:
  assumes "CPartition_UnmountPartition env p st = (ok, p', st')"
  shows "p_addr p' = p_addr p" "ok \<Longrightarrow> \<not> PARTITION_ATTRIBUTE_MOUNTED p' \<and> m_pDsk p' = None" "\<not> ok \<Longrightarrow> p' = p"
  using assms by (auto simp: CPartition_UnmountPartition_def Let_def split: prod.splits option.splits if_splits)

lemma UnmountPartition_wf:
  assumes "CPartition_UnmountPartition env p st = (ok, p', st')" "stores_wf A st ss"
  shows "stores_wf A st' ss"
  using assms
  by (auto simp: CPartition_UnmountPartition_def Let_def on_machine_def CloseStoreHandle_wf split: prod.splits option.splits if_splits)

lemma sub32_down: "0 < n \<Longrightarrow> n < 2 ^ 32 \<Longrightarrow> sub32 n 1 = n - 1"
  by (rule sub32_eq) auto

lemma mount_count_small: "stores_wf A st (s # os) \<Longrightarrow> m_dwMountCount s < 2 ^ 32"
proof -
  assume wf: "stores_wf A st (s # os)"
  have pw: "parts_wf (stg_next st) s" using stores_wfD(4) [OF wf] by simp
  then show ?thesis
    using parts_length [OF pw] mounted_count_le [of "m_pPartitionList s"] stores_wfD(1) [OF wf]
    by (simp add: parts_wf_def INVALID_HANDLE_VALUE_def)
qed

text \<open>
  The loop over the partitions.  A deletion may drop partitions that are still mounted; \<open>G\<close> are
  all partitions that are left, in the list or not.
\<close>

definition with_parts :: "'d CStore \<Rightarrow> CPartition list \<Rightarrow> 'd CStore" where
  "with_parts s ps = s\<lparr>m_pPartitionList := ps, m_dwMountCount := mounted_count ps\<rparr>"

lemma with_parts_simps [simp]:
  "s_addr (with_parts s ps) = s_addr s" "m_pPartitionList (with_parts s ps) = ps"
  "m_dwMountCount (with_parts s ps) = mounted_count ps" "handles_of st (with_parts s ps) = handles_of st s"
  by (simp_all add: with_parts_def handles_of_def)

lemma parts_wf_sub:
  assumes "parts_wf n (with_parts s (xs @ p # ys))" "p_addr p' = p_addr p" "part_wf p'"
  shows "parts_wf n (with_parts s (xs @ p' # ys))" "parts_wf n (with_parts s (xs @ ys))"
  using assms by (auto simp: parts_wf_def)

lemma with_parts_move:
  assumes wf: "stores_wf A st (with_parts s (xs @ p # ys) # os)" and p: "p_addr p' = p_addr p" "part_wf p'"
  shows "stores_wf A st (with_parts s (xs @ p' # ys) # os)"
proof (rule stores_wf_same [OF wf])
  show "parts_wf (stg_next st) (with_parts s (xs @ p' # ys))"
    using parts_wf_sub(1) [OF stores_wfD(4) [OF wf list.set_intros(1)] p] .
qed (use p in auto)

lemma with_parts_delete:
  assumes wf: "stores_wf A st (with_parts s (xs @ p # ys) # os)"
  shows "stores_wf A (UpdateHandleFromList (handles_of st s) None (Some (p_addr p, head_pointer p_addr ys)) st)
           (with_parts s (xs @ ys) # os)"
proof -
  have pw: "parts_wf (stg_next st) (with_parts s (xs @ p # ys))" using stores_wfD(4) [OF wf] by simp
  have "stores_wf A (UpdateHandleFromList (handles_of st (with_parts s (xs @ p # ys))) None (Some (p_addr p, head_pointer p_addr ys)) st)
           (with_parts s (xs @ ys) # os)"
  proof (rule update_removed_wf [OF wf])
    show "parts_wf (stg_next st) (with_parts s (xs @ ys))"
      using parts_wf_sub(2) [OF pw refl] pw by (auto simp: parts_wf_def)
  qed (auto simp: head_pointer_def split: list.splits)
  then show ?thesis by simp
qed

lemma unmount_loop_wf:
  assumes "unmount_loop env del s kept ps n st = (ps', n', st')"
    and "stores_wf A st (with_parts s (K @ ps) # os)" "set kept \<subseteq> set K" "n = mounted_count (K @ ps)"
    and "del \<Longrightarrow> \<forall>p \<in> set K. PARTITION_ATTRIBUTE_MOUNTED p" "\<not> del \<Longrightarrow> K = kept"
  shows "\<exists>G. stores_wf A st' (with_parts s G # os) \<and> set ps' \<subseteq> set G \<and> n' = mounted_count G \<and>
             (del \<longrightarrow> (\<forall>p \<in> set G. PARTITION_ATTRIBUTE_MOUNTED p)) \<and> (\<not> del \<longrightarrow> G = ps')"
  using assms
proof (induction ps arbitrary: kept K n st)
  case Nil
  then show ?case by (intro exI [of _ K]) auto
next
  case (Cons p rest)
  have wf: "stores_wf A st (with_parts s (K @ p # rest) # os)" by (rule Cons.prems(2))
  have pw: "parts_wf (stg_next st) (with_parts s (K @ p # rest))" using stores_wfD(4) [OF wf] by simp
  have small: "mounted_count (K @ p # rest) < 2 ^ 32" using mount_count_small [OF wf] by simp
  text \<open>The rest of the loop, once the partition is out of the way or has failed to unmount.\<close>
  have fail: ?case
    if "unmount_loop env del s (kept @ [p]) rest n st1 = (ps', n', st')" "stores_wf A st1 (with_parts s (K @ p # rest) # os)"
      "PARTITION_ATTRIBUTE_MOUNTED p" for st1
    by (rule Cons.IH [OF that(1), of "K @ [p]"]) (use that Cons.prems in auto)
  have done_: ?case
    if run: "(if del then unmount_loop env del s [] rest k
                (UpdateHandleFromList (handles_of st1 s) None (Some (p_addr q, head_pointer p_addr rest)) st1)
              else unmount_loop env del s (kept @ [q]) rest k st1) = (ps', n', st')"
      and q: "p_addr q = p_addr p" "part_wf q" "\<not> PARTITION_ATTRIBUTE_MOUNTED q"
      and k: "k = mounted_count (K @ rest)" and w: "stores_wf A st1 (with_parts s (K @ p # rest) # os)" for q k st1
  proof (cases del)
    case True
    have w2: "stores_wf A (UpdateHandleFromList (handles_of st1 s) None (Some (p_addr q, head_pointer p_addr rest)) st1)
                (with_parts s (K @ rest) # os)"
      using with_parts_delete [OF w] q(1) by simp
    show ?thesis
    proof (rule Cons.IH)
      show "unmount_loop env del s [] rest k
          (UpdateHandleFromList (handles_of st1 s) None (Some (p_addr q, head_pointer p_addr rest)) st1) = (ps', n', st')"
        using run True by simp
    qed (use w2 k True Cons.prems in auto)
  next
    case False
    have w2: "stores_wf A st1 (with_parts s ((K @ [q]) @ rest) # os)" using with_parts_move [OF w q(1,2)] by simp
    show ?thesis
    proof (rule Cons.IH)
      show "unmount_loop env del s (kept @ [q]) rest k st1 = (ps', n', st')" using run False by simp
      show "stores_wf A st1 (with_parts s ((K @ [q]) @ rest) # os)" by (rule w2)
    qed (use k q False Cons.prems in auto)
  qed
  show ?case
  proof (cases "PARTITION_ATTRIBUTE_MOUNTED p")
    case False
    then have run: "(if del then unmount_loop env del s [] rest n
                (UpdateHandleFromList (handles_of st s) None (Some (p_addr p, head_pointer p_addr rest)) st)
              else unmount_loop env del s (kept @ [p]) rest n st) = (ps', n', st')"
      using Cons.prems(1) by simp
    show ?thesis by (rule done_ [OF run]) (use False pw wf Cons.prems(4) in \<open>auto simp: parts_wf_def\<close>)
  next
    case True
    obtain ok q st1 where u: "CPartition_UnmountPartition env p st = (ok, q, st1)" by (metis prod_cases3)
    note f = UnmountPartition_facts [OF u]
    have w: "stores_wf A st1 (with_parts s (K @ p # rest) # os)" by (rule UnmountPartition_wf [OF u wf])
    show ?thesis
    proof (cases ok)
      case False
      then show ?thesis using Cons.prems(1) True u f w by (intro fail) auto
    next
      case ok: True
      have k: "sub32 n 1 = mounted_count (K @ rest)"
        using small True Cons.prems(4) by (subst sub32_down) auto
      have run: "(if del then unmount_loop env del s [] rest (sub32 n 1)
                (UpdateHandleFromList (handles_of st1 s) None (Some (p_addr q, head_pointer p_addr rest)) st1)
              else unmount_loop env del s (kept @ [q]) rest (sub32 n 1) st1) = (ps', n', st')"
        using Cons.prems(1) True u ok by (cases del) (simp_all del: One_nat_def)
      show ?thesis by (rule done_ [OF run f(1) _ _ k w]) (use f ok in \<open>simp_all add: part_wf_def\<close>)
    qed
  qed
qed

text \<open>
  What \<open>UnmountStore\<close> does: \<open>G\<close> are the partitions that are left; with deletion these are mounted
  ones that could not be unmounted, and some of them may not be in the list of the store any more.
\<close>

lemma with_parts_self: "parts_wf n s \<Longrightarrow> with_parts s (m_pPartitionList s) = s"
  by (simp add: with_parts_def parts_wf_def)

lemma CStore_UnmountStore_wf:
  assumes run: "CStore_UnmountStore env del s st = (ok, s', st')" and wf: "stores_wf A st (s # os)"
  obtains G where "stores_wf A st' (with_parts s G # os)" "set (m_pPartitionList s') \<subseteq> set G" "ok \<longleftrightarrow> mounted_count G = 0"
    "m_dwMountCount s' = mounted_count G" "del \<Longrightarrow> \<forall>p \<in> set G. PARTITION_ATTRIBUTE_MOUNTED p"
    "\<not> del \<Longrightarrow> s' = with_parts s G" "s' = s\<lparr>m_pPartitionList := m_pPartitionList s', m_dwMountCount := m_dwMountCount s'\<rparr>"
proof -
  obtain ps n st1 where l: "unmount_loop env del s [] (m_pPartitionList s) (m_dwMountCount s) st = (ps, n, st1)"
    by (metis prod_cases3)
  have r: "ok = (n = 0)" "s' = s\<lparr>m_pPartitionList := ps, m_dwMountCount := n\<rparr>" "st' = st1"
    using run unfolding CStore_UnmountStore_def l by auto
  have pw: "parts_wf (stg_next st) s" using stores_wfD(4) [OF wf] by simp
  have self: "stores_wf A st (with_parts s ([] @ m_pPartitionList s) # os)" using wf with_parts_self [OF pw] by simp
  have n0: "m_dwMountCount s = mounted_count ([] @ m_pPartitionList s)" using pw by (simp add: parts_wf_def)
  obtain G where G: "stores_wf A st1 (with_parts s G # os)" "set ps \<subseteq> set G" "n = mounted_count G"
    "del \<longrightarrow> (\<forall>p \<in> set G. PARTITION_ATTRIBUTE_MOUNTED p)" "\<not> del \<longrightarrow> G = ps"
    using unmount_loop_wf [OF l self _ n0, simplified] by auto
  show ?thesis by (rule that [of G]) (use G r in \<open>auto simp: with_parts_def\<close>)
qed

lemma mounted_count_all: "\<forall>p \<in> set ps. PARTITION_ATTRIBUTE_MOUNTED p \<Longrightarrow> mounted_count ps = 0 \<longleftrightarrow> ps = []"
  by (cases ps) auto

definition keeps_stores ::
  "('d CStore \<Rightarrow> 'd stg \<Rightarrow> 'r \<times> 'd CStore \<times> 'd stg) \<Rightarrow> bool" where
  "keeps_stores f \<longleftrightarrow>
     (\<forall>A s st os r s' st'. f s st = (r, s', st') \<longrightarrow> stores_wf A st (s # os) \<longrightarrow>
        stores_wf A st' (s' # os) \<and> s_addr s' = s_addr s)"

lemma keeps_storesI:
  assumes "\<And>A s st os r s' st'. f s st = (r, s', st') \<Longrightarrow> stores_wf A st (s # os) \<Longrightarrow>
             stores_wf A st' (s' # os) \<and> s_addr s' = s_addr s"
  shows "keeps_stores f"
  using assms unfolding keeps_stores_def by blast

lemma keeps_storesD:
  assumes "keeps_stores f" "f s st = (r, s', st')" "stores_wf A st (s # os)"
  shows "stores_wf A st' (s' # os)" "s_addr s' = s_addr s"
  using assms unfolding keeps_stores_def by blast+

section \<open>Unmounting without a failure\<close>

lemma unmount_loop_count:
  assumes "unmount_loop env del s kept ps n st = (ps', n', st')" "\<forall>p \<in> set ps. \<not> PARTITION_ATTRIBUTE_MOUNTED p"
  shows "n' = n"
  using assms by (induction ps arbitrary: kept st) (auto simp: Let_def split: if_splits)

lemma mounted_count_0: "mounted_count ps = 0 \<longleftrightarrow> (\<forall>p \<in> set ps. \<not> PARTITION_ATTRIBUTE_MOUNTED p)"
  by (induction ps) auto

lemma UnmountStore_deleted:
  assumes run: "CStore_UnmountStore env True s st = (True, s', st')" and wf: "stores_wf A st (s # os)"
  shows "s' = with_parts s []" "stores_wf A st' (s' # os)"
proof -
  obtain G where G: "stores_wf A st' (with_parts s G # os)" "set (m_pPartitionList s') \<subseteq> set G" "mounted_count G = 0"
    "m_dwMountCount s' = mounted_count G" "\<forall>p \<in> set G. PARTITION_ATTRIBUTE_MOUNTED p"
    "s' = s\<lparr>m_pPartitionList := m_pPartitionList s', m_dwMountCount := m_dwMountCount s'\<rparr>"
    using CStore_UnmountStore_wf [OF run wf] by (metis (full_types))
  have "G = []" using G(3,5) mounted_count_all by blast
  then show "s' = with_parts s []" using G by (metis empty_iff list.set(1) set_empty subset_empty with_parts_def)
  then show "stores_wf A st' (s' # os)" using G(1) \<open>G = []\<close> by simp
qed

lemma UnmountStore_nothing_mounted:
  assumes "CStore_UnmountStore env del s st = (ok, s', st')" "m_dwMountCount s = 0" "stores_wf A st (s # os)"
  shows ok
proof -
  have "parts_wf (stg_next st) s" using stores_wfD(4) [OF assms(3)] by simp
  then have "\<forall>p \<in> set (m_pPartitionList s). \<not> PARTITION_ATTRIBUTE_MOUNTED p"
    using assms(2) by (simp add: parts_wf_def mounted_count_0)
  then show ?thesis using assms(1,2) unmount_loop_count
    by (fastforce simp: CStore_UnmountStore_def split: prod.splits)
qed

lemma UnmountStore_keeps: "keeps_stores (CStore_UnmountStore env False)"
proof (rule keeps_storesI)
  fix A s st os r s' st'
  assume run: "CStore_UnmountStore env False s st = (r, s', st')" and wf: "stores_wf A st (s # os)"
  obtain G where "stores_wf A st' (with_parts s G # os)" "s' = with_parts s G"
    using CStore_UnmountStore_wf [OF run wf] by (metis (full_types))
  then show "stores_wf A st' (s' # os) \<and> s_addr s' = s_addr s" by simp
qed

section \<open>Formatting, creating and deleting\<close>

lemma same_parts_count [simp]: "same_parts s (s\<lparr>m_dwPartCount := n\<rparr>)"
  by (simp add: same_parts_def)

lemma on_machine_wf: "on_machine f st = (r, st') \<Longrightarrow> stores_wf A st ss \<Longrightarrow> stores_wf A st' ss"
  by (auto simp: on_machine_eq)

lemma FormatStore_keeps: "keeps_stores (CStore_FormatStore env)"
proof (rule keeps_storesI)
  fix A s st os r s' st'
  assume run: "CStore_FormatStore env s st = (r, s', st')" and wf: "stores_wf A st (s # os)"
  show "stores_wf A st' (s' # os) \<and> s_addr s' = s_addr s"
  proof (cases "m_dwMountCount s \<noteq> 0 \<or> STORE_ATTRIBUTE_READONLY (m_dwFlags s)")
    case True
    then show ?thesis using run wf by (auto simp: CStore_FormatStore_def split: if_splits)
  next
    case n: False
    obtain e st1 where f: "on_machine (drv_FormatStore (driver_of env s) (m_dwStoreId s)) st = (e, st1)" by (metis surj_pair)
    have wf1: "stores_wf A st1 (s # os)" by (rule on_machine_wf [OF f wf])
    show ?thesis
    proof (cases "e = ERROR_SUCCESS")
      case False
      then show ?thesis using run wf1 n f by (auto simp: CStore_FormatStore_def)
    next
      case True
      obtain ok s2 st2 where u: "CStore_UnmountStore env True s st1 = (ok, s2, st2)" by (metis prod_cases3)
      have ok by (rule UnmountStore_nothing_mounted [OF u _ wf1]) (use n in simp)
      then have u2: "s2 = with_parts s []" "stores_wf A st2 (s2 # os)" using UnmountStore_deleted [of env s st1 s2 st2 A os] u wf1 by simp_all
      define s3 st3 where d: "s3 = (if STORE_FLAG_MOUNTED (m_dwFlags s) then s2 else s)"
        "st3 = (if STORE_FLAG_MOUNTED (m_dwFlags s) then st2 else st1)"
      have wf3: "stores_wf A st3 (s3\<lparr>m_dwPartCount := 0\<rparr> # os)" "s_addr s3 = s_addr s"
        using stores_wf_same_parts [OF u2(2) same_parts_count] stores_wf_same_parts [OF wf1 same_parts_count] u2(1)
        by (simp_all add: d)
      have "refresh_store env (s3\<lparr>m_dwPartCount := 0\<rparr>) st3 = (s', st')"
        using run n True f u by (auto simp: CStore_FormatStore_def Let_def d split: prod.splits if_splits)
      from refresh_store_wf [OF this wf3(1)] wf3(2) show ?thesis by simp
    qed
  qed
qed

lemma CreatePartition_keeps: "keeps_stores (CStore_CreatePartition env name t n auto)"
proof (rule keeps_storesI)
  fix A s st os r s' st'
  assume run: "CStore_CreatePartition env name t n auto s st = (r, s', st')" and wf: "stores_wf A st (s # os)"
  let ?n = "if n = 0 then si_snBiggestPartCreatable (m_si s) else n"
  obtain e st1 where f: "on_machine (drv_CreatePartition (driver_of env s) (m_dwStoreId s) name t ?n auto) st = (e, st1)"
    by (metis surj_pair)
  have wf1: "stores_wf A st1 (s # os)" by (rule on_machine_wf [OF f wf])
  show "stores_wf A st' (s' # os) \<and> s_addr s' = s_addr s"
  proof (cases "e = ERROR_SUCCESS")
    case False
    then show ?thesis using run wf1 f by (auto simp: CStore_CreatePartition_def Let_def)
  next
    case True
    obtain s2 st2 where 2: "refresh_store env s st1 = (s2, st2)" by (metis surj_pair)
    obtain b s3 st3 where 3: "CStore_LoadPartition env name True True s2 st2 = (b, s3, st3)" by (metis prod_cases3)
    note w2 = refresh_store_wf [OF 2 wf1]
    note w3 = CStore_LoadPartition_wf [OF 3 w2(1)]
    have "s' = s3\<lparr>m_dwPartCount := add32 (m_dwPartCount s3) 1\<rparr>" "st' = st3"
      using run f True 2 3 unfolding CStore_CreatePartition_def Let_def f prod.case 2 3 by auto
    then show ?thesis using stores_wf_same_parts [OF w3(1) same_parts_count] w2 w3 by simp
  qed
qed

lemma next_pointer_split:
  assumes "distinct (map f (xs @ p # ys))"
  shows "next_pointer f (xs @ p # ys) (f p) = head_pointer f ys"
  using assms by (induction xs) (auto simp: head_pointer_def split: list.splits)

lemma filter_split:
  assumes "distinct (map f (xs @ p # ys))"
  shows "filter (\<lambda>q. f q \<noteq> f p) (xs @ p # ys) = xs @ ys"
proof -
  have "filter (\<lambda>q. f q \<noteq> f p) xs = xs" "filter (\<lambda>q. f q \<noteq> f p) ys = ys"
    using assms by (auto simp: filter_id_conv) (metis imageI)+
  then show ?thesis by simp
qed

text \<open>Deleting the object of a partition that is not mounted.\<close>

lemma DeletePartition_object_wf:
  assumes run: "CStore_DeletePartition_object p s st = (s', st')" and wf: "stores_wf A st (s # os)"
    and p: "p \<in> set (m_pPartitionList s)" "\<not> PARTITION_ATTRIBUTE_MOUNTED p"
  shows "stores_wf A st' (s' # os)" "s_addr s' = s_addr s"
proof -
  have pw: "parts_wf (stg_next st) s" using stores_wfD(4) [OF wf] by simp
  obtain xs ys where s: "m_pPartitionList s = xs @ p # ys" using p(1) by (meson split_list)
  have d: "distinct (map p_addr (xs @ p # ys))" using pw by (simp add: parts_wf_def s)
  have s': "s' = with_parts s (xs @ ys)"
    using run pw p(2) filter_split [OF d]
    by (auto simp: CStore_DeletePartition_object_def parts_wf_def with_parts_def s)
  have "stores_wf A st (with_parts s (xs @ p # ys) # os)" using wf with_parts_self [OF pw] by (simp add: s)
  from with_parts_delete [OF this] show "stores_wf A st' (s' # os)"
    using run next_pointer_split [OF d] by (simp add: CStore_DeletePartition_object_def s' s)
  show "s_addr s' = s_addr s" by (simp add: s')
qed

lemma DeletePartition_keeps: "keeps_stores (CStore_DeletePartition env name)"
proof (rule keeps_storesI)
  fix A s st os r s' st'
  assume run: "CStore_DeletePartition env name s st = (r, s', st')" and wf: "stores_wf A st (s # os)"
  show "stores_wf A st' (s' # os) \<and> s_addr s' = s_addr s"
  proof (cases "CStore_FindPartition s name")
    case None
    then show ?thesis using run wf by (simp add: CStore_DeletePartition_def)
  next
    case (Some p)
    have p: "p \<in> set (m_pPartitionList s)"
      using FindPartition_at(2) [OF Some] stores_wfD(4) [OF wf, of s] by (simp add: parts_wf_def)
    obtain e st1 where f: "on_machine (drv_DeletePartition (driver_of env s) (m_dwStoreId s) name) st = (e, st1)"
      by (metis surj_pair)
    have wf1: "stores_wf A st1 (s # os)" by (rule on_machine_wf [OF f wf])
    show ?thesis
    proof (cases "PARTITION_ATTRIBUTE_MOUNTED p \<or> e \<noteq> ERROR_SUCCESS")
      case True
      then show ?thesis using run Some wf wf1 f by (auto simp: CStore_DeletePartition_def split: if_splits)
    next
      case False
      obtain s2 st2 where 2: "CStore_DeletePartition_object p s st1 = (s2, st2)" by (metis surj_pair)
      obtain s3 st3 where 3: "refresh_store env s2 st2 = (s3, st3)" by (metis surj_pair)
      note w2 = DeletePartition_object_wf [OF 2 wf1 p]
      note w3 = refresh_store_wf [OF 3 w2(1)]
      have "s' = s3\<lparr>m_dwPartCount := sub32 (m_dwPartCount s3) 1\<rparr>" "st' = st3"
        using run Some False unfolding CStore_DeletePartition_def Let_def f prod.case by (auto simp: 2 3)
      then show ?thesis using stores_wf_same_parts [OF w3(1) same_parts_count] w2 w3 False by simp
    qed
  qed
qed

section \<open>Operations on one partition\<close>

lemma MountPartition_keeps: "keeps_stores (CStore_MountPartition env ptr)"
proof (rule keeps_storesI)
  fix A s st os r s' st'
  assume run: "CStore_MountPartition env ptr s st = (r, s', st')" and wf: "stores_wf A st (s # os)"
  show "stores_wf A st' (s' # os) \<and> s_addr s' = s_addr s"
  proof (cases "IsValidPartition s ptr")
    case None
    then show ?thesis using run wf by (simp add: CStore_MountPartition_def)
  next
    case (Some p)
    obtain ok s1 st1 where m: "mount_at env (m_szPartitionName p) False p s st = (ok, s1, st1)" by (metis prod_cases3)
    show ?thesis
    proof (cases "PARTITION_ATTRIBUTE_MOUNTED p")
      case True
      then show ?thesis using run wf Some by (simp add: CStore_MountPartition_def)
    next
      case False
      then have "s' = s1" "st' = st1" using run Some m by (simp_all add: CStore_MountPartition_def)
      then show ?thesis using mount_at_wf [OF m wf] IsValidPartition_at [OF Some] False by simp
    qed
  qed
qed

lemma UnmountPartition_keeps: "keeps_stores (CStore_UnmountPartition env ptr)"
proof (rule keeps_storesI)
  fix A s st os r s' st'
  assume run: "CStore_UnmountPartition env ptr s st = (r, s', st')" and wf: "stores_wf A st (s # os)"
  show "stores_wf A st' (s' # os) \<and> s_addr s' = s_addr s"
  proof (cases "IsValidPartition s ptr")
    case None
    then show ?thesis using run wf by (simp add: CStore_UnmountPartition_def)
  next
    case (Some p)
    have at: "partition_at s (p_addr p) = Some p" using IsValidPartition_at [OF Some] by simp
    obtain ok q st1 where u: "CPartition_UnmountPartition env p st = (ok, q, st1)" by (metis prod_cases3)
    note f = UnmountPartition_facts [OF u]
    have wf1: "stores_wf A st1 (s # os)" by (rule UnmountPartition_wf [OF u wf])
    have pw: "parts_wf (stg_next st) s" using stores_wfD(4) [OF wf] by simp
    show ?thesis
    proof (cases "PARTITION_ATTRIBUTE_MOUNTED p")
      case False
      then show ?thesis using run wf Some by (simp add: CStore_UnmountPartition_def)
    next
      case mnt: True
      show ?thesis
      proof (cases ok)
        case False
        then have "q = p" using f by simp
        then have "s' = put_partition p s" "st' = st1" using run Some mnt u False by (simp_all add: CStore_UnmountPartition_def)
        moreover have "stores_wf A st1 ((put_partition p s)\<lparr>m_dwMountCount := m_dwMountCount s\<rparr> # os)"
          by (rule put_partition_wf [OF wf1 at]) (use at pw in \<open>auto simp: partition_at_def find_Some_iff parts_wf_def\<close>)
        ultimately show ?thesis by (simp add: put_partition_def)
      next
        case True
        have r: "s' = put_partition q (s\<lparr>m_dwMountCount := sub32 (m_dwMountCount s) 1\<rparr>)" "st' = st1"
          using run Some mnt u True by (simp_all add: CStore_UnmountPartition_def)
        have "p \<in> set (m_pPartitionList s)" using at by (auto simp: partition_at_def find_Some_iff)
        then have pos: "0 < m_dwMountCount s" using pw mnt mounted_count_0 by (auto simp: parts_wf_def)
        have "stores_wf A st1 ((put_partition q s)\<lparr>m_dwMountCount := m_dwMountCount s - 1\<rparr> # os)"
          by (rule put_partition_wf [OF wf1]) (use at f True mnt pos in \<open>auto simp: part_wf_def\<close>)
        moreover have "sub32 (m_dwMountCount s) 1 = m_dwMountCount s - 1"
          using pos mount_count_small [OF wf] by (rule sub32_down)
        moreover have "put_partition q (s\<lparr>m_dwMountCount := k\<rparr>) = (put_partition q s)\<lparr>m_dwMountCount := k\<rparr>" for k
          by (simp add: put_partition_def)
        ultimately show ?thesis by (simp add: r del: One_nat_def)
      qed
    qed
  qed
qed

lemma on_partition_keeps:
  assumes "\<And>s p m ok p' m'. f s p m = (ok, p', m') \<Longrightarrow>
    p_addr p' = p_addr p \<and> m_pDsk p' = m_pDsk p \<and> PARTITION_ATTRIBUTE_MOUNTED p' = PARTITION_ATTRIBUTE_MOUNTED p"
  shows "keeps_stores (\<lambda>s. on_partition (f s) ptr s)"
proof (rule keeps_storesI)
  fix A s st os r s' st'
  assume run: "on_partition (f s) ptr s st = (r, s', st')" and wf: "stores_wf A st (s # os)"
  show "stores_wf A st' (s' # os) \<and> s_addr s' = s_addr s"
  proof (cases "IsValidPartition s ptr")
    case None
    then show ?thesis using run wf by (simp add: on_partition_def)
  next
    case (Some p)
    have at: "partition_at s (p_addr p) = Some p" using IsValidPartition_at [OF Some] by simp
    have pw: "parts_wf (stg_next st) s" using stores_wfD(4) [OF wf] by simp
    obtain ok q m where q: "f s p (machine st) = (ok, q, m)" by (metis prod_cases3)
    note fq = assms [OF q]
    have r: "s' = put_partition q s" "st' = st\<lparr>machine := m\<rparr>" using run Some q by (simp_all add: on_partition_def)
    have "stores_wf A st ((put_partition q s)\<lparr>m_dwMountCount := m_dwMountCount s\<rparr> # os)"
      by (rule put_partition_wf [OF wf]) (use at pw fq in \<open>auto simp: part_wf_def partition_at_def find_Some_iff parts_wf_def\<close>)
    then show ?thesis by (simp add: r put_partition_def)
  qed
qed

lemma RenameParttion_keeps: "keeps_stores (CStore_RenameParttion env ptr name)"
proof -
  have "keeps_stores (\<lambda>s. on_partition (CPartition_RenamePartition env (driver_of env s) name) ptr s)"
    by (rule on_partition_keeps) (auto simp: CPartition_RenamePartition_def split: prod.splits if_splits)
  then show ?thesis by (simp add: CStore_RenameParttion_def [abs_def])
qed

lemma SetPartitionAttributes_keeps: "keeps_stores (CStore_SetPartitionAttributes env ptr attrs)"
proof -
  have "keeps_stores (\<lambda>s. on_partition (\<lambda>p m. let (ok, m) = CPartition_SetPartitionAttributes (driver_of env s) attrs p m
                                               in (ok, p, m)) ptr s)"
    by (rule on_partition_keeps) (auto split: prod.splits)
  then show ?thesis by (simp add: CStore_SetPartitionAttributes_def [abs_def])
qed

lemma FormatPartition_keeps: "keeps_stores (CStore_FormatPartition env ptr t auto)"
proof -
  have "keeps_stores (\<lambda>s. on_partition (CPartition_FormatPartition (driver_of env s) t auto) ptr s)"
    by (rule on_partition_keeps) (simp add: FormatPartition_facts)
  then show ?thesis by (simp add: CStore_FormatPartition_def [abs_def])
qed

lemma SetPartitionSize_keeps: "keeps_stores (CStore_SetPartitionSize env ptr n)"
proof (rule keeps_storesI)
  fix A s st os r s' st'
  assume run: "CStore_SetPartitionSize env ptr n s st = (r, s', st')" and wf: "stores_wf A st (s # os)"
  have k: "keeps_stores (\<lambda>s. on_partition (CPartition_SetPartitionSize (driver_of env s) n) ptr s)"
    by (rule on_partition_keeps) (auto simp: CPartition_SetPartitionSize_def Let_def split: prod.splits if_splits)
  obtain e s1 st1 where 1: "on_partition (CPartition_SetPartitionSize (driver_of env s) n) ptr s st = (e, s1, st1)"
    by (metis prod_cases3)
  note w1 = keeps_storesD [OF k 1 wf]
  obtain s2 st2 where 2: "refresh_store env s1 st1 = (s2, st2)" by (metis surj_pair)
  have "s' = s1 \<and> st' = st1 \<or> s' = s2 \<and> st' = st2"
    using run 1 2 by (auto simp: CStore_SetPartitionSize_def split: if_splits)
  then show "stores_wf A st' (s' # os) \<and> s_addr s' = s_addr s"
    using w1 refresh_store_wf [OF 2 w1(1)] by auto
qed

end
