(* ===== verification/Store_Devices.thy ===== *)
theory Store_Devices
  imports Store_Calls
begin

text \<open>
  Stores appear, vanish and come back: adding, detaching, deleting and refreshing a store keep the
  well-formedness of the store manager.

  Mounting the store of a device, and the events of devices: every event keeps the store manager
  well formed.
\<close>

section \<open>Well-formed managers\<close>

definition store_addrs :: "'d CStore list \<Rightarrow> nat set" where
  "store_addrs ss = s_addr ` set ss"

definition mgr_wf :: "'d mgr \<Rightarrow> bool" where
  "mgr_wf g \<longleftrightarrow> stores_wf (store_addrs (g_pStoreRoot g)) (stg g) (g_pStoreRoot g)"

lemma stores_wf_mono: "stores_wf A st ss \<Longrightarrow> A \<subseteq> B \<Longrightarrow> stores_wf B st ss"
  by (fastforce simp: stores_wf_def global_wf_def store_handle_wf_def)

lemma stores_wf_tl: "stores_wf A st (s # os) \<Longrightarrow> stores_wf A st os"
  by (simp add: stores_wf_def)

lemma stores_wf_Cons_focus: "s \<in> set ss \<Longrightarrow> stores_wf A st ss \<longleftrightarrow> stores_wf A st (s # remove1 s ss)"
  by (simp only: stores_wf_focus)

lemma mgr_wf_fields [simp]:
  "mgr_wf (g\<lparr>STOREMGR_EVENT_UPDATETIMEOUT := b\<rparr>) = mgr_wf g"
  "mgr_wf (g\<lparr>STOREMGR_EVENT_REFRESHSTORE := b\<rparr>) = mgr_wf g"
  "mgr_wf (g\<lparr>g_hPNPUpdateEvent := b\<rparr>) = mgr_wf g"
  "mgr_wf (advertise n b g) = mgr_wf g"
  by (simp_all add: mgr_wf_def advertise_def)

lemma mgr_wf_set_last_error [simp]: "mgr_wf (set_last_error e g) = mgr_wf g"
  by (simp add: mgr_wf_def set_last_error_def)

lemma stg_advertise [simp]: "stg (advertise n b g) = stg g" "g_pStoreRoot (advertise n b g) = g_pStoreRoot g"
  by (simp_all add: advertise_def)

lemma store_at_in: "store_at g a = Some s \<Longrightarrow> s \<in> set (g_pStoreRoot g) \<and> s_addr s = a"
  by (auto simp: store_at_def find_Some_iff)

lemma IsValidStore_in: "IsValidStore g p = Some s \<Longrightarrow> s \<in> set (g_pStoreRoot g) \<and> p = Addr (s_addr s)"
  by (auto simp: IsValidStore_def split: pointer.splits dest: store_at_in)

text \<open>A store is replaced by a new version of itself.\<close>

lemma put_store_split:
  assumes "g_pStoreRoot g = xs @ s # ys" "distinct (map s_addr (g_pStoreRoot g))" "s_addr s' = s_addr s"
  shows "g_pStoreRoot (put_store s' g) = xs @ s' # ys"
proof -
  have "map (\<lambda>t. if s_addr t = s_addr s' then s' else t) xs = xs" "map (\<lambda>t. if s_addr t = s_addr s' then s' else t) ys = ys"
    using assms by (auto intro!: map_idI simp: image_iff)
  then show ?thesis using assms by (simp add: put_store_def)
qed

lemma put_store_root:
  assumes "s \<in> set (g_pStoreRoot g)" "distinct (map s_addr (g_pStoreRoot g))" "s_addr s' = s_addr s"
  shows "mset (g_pStoreRoot (put_store s' g)) = mset (s' # remove1 s (g_pStoreRoot g))"
    "map s_addr (g_pStoreRoot (put_store s' g)) = map s_addr (g_pStoreRoot g)"
proof -
  obtain xs ys where g: "g_pStoreRoot g = xs @ s # ys" "s \<notin> set xs" using assms(1) by (meson split_list_first)
  note r = put_store_split [OF g(1) assms(2,3)]
  show "mset (g_pStoreRoot (put_store s' g)) = mset (s' # remove1 s (g_pStoreRoot g))"
    "map s_addr (g_pStoreRoot (put_store s' g)) = map s_addr (g_pStoreRoot g)"
    using g by (simp_all add: r assms(3) remove1_append)
qed

lemma put_store_stg [simp]: "stg (put_store s g) = stg g" "g_pStoreRoot (put_store s (g\<lparr>stg := st\<rparr>)) = g_pStoreRoot (put_store s g)"
  by (simp_all add: put_store_def)

lemma put_store_wf:
  assumes s: "s \<in> set (g_pStoreRoot g)" "distinct (map s_addr (g_pStoreRoot g))" "s_addr s' = s_addr s"
    and wf: "stores_wf A st (s' # remove1 s (g_pStoreRoot g))"
  shows "stores_wf A st (g_pStoreRoot (put_store s' g))"
  using wf stores_wf_perm [OF put_store_root(1) [OF s]] by simp

lemma put_store_addrs [simp]: "store_addrs (g_pStoreRoot (put_store s g)) = store_addrs (g_pStoreRoot g)"
proof -
  have "map s_addr (g_pStoreRoot (put_store s g)) = map s_addr (g_pStoreRoot g)" by (simp add: put_store_def)
  then show ?thesis unfolding store_addrs_def by (metis set_map)
qed

lemma mgr_wf_distinct: "mgr_wf g \<Longrightarrow> distinct (map s_addr (g_pStoreRoot g))"
  by (simp add: mgr_wf_def stores_wf_def)

lemma mgr_put_store:
  assumes wf: "mgr_wf g" and s: "s \<in> set (g_pStoreRoot g)" "s_addr s' = s_addr s"
    and step: "\<And>A. stores_wf A (stg g) (s # remove1 s (g_pStoreRoot g)) \<Longrightarrow> stores_wf A st' (s' # remove1 s (g_pStoreRoot g))"
  shows "mgr_wf (put_store s' (g\<lparr>stg := st'\<rparr>))"
proof -
  have "stores_wf (store_addrs (g_pStoreRoot g)) (stg g) (s # remove1 s (g_pStoreRoot g))"
    using wf s(1) by (simp add: mgr_wf_def stores_wf_focus)
  from step [OF this] put_store_wf [OF s(1) mgr_wf_distinct [OF wf] s(2)] show ?thesis
    by (simp add: mgr_wf_def)
qed

section \<open>A store goes away\<close>

text \<open>The handles of a store that no list holds any more.\<close>

lemma update_orphans_wf:
  assumes wf: "stores_wf A st os" and d: "distinct l" and g: "set l \<inter> set (g_pRootHandle st) = {}"
    and o: "\<And>t. t \<in> set os \<Longrightarrow> set l \<inter> set (handles_of st t) = {}"
  shows "stores_wf A (UpdateHandleFromList l x y st) os"
proof (rule stores_wfI)
  show "global_wf A (UpdateHandleFromList l x y st)"
    using stores_wfD(3) [OF wf] g by (fastforce simp: global_wf_def UpdateHandleFromList_heap [OF d])
next
  fix t assume t: "t \<in> set os"
  show "parts_wf (stg_next (UpdateHandleFromList l x y st)) t" using stores_wfD(4) [OF wf t] by simp
  show "handles_wf (UpdateHandleFromList l x y st) t"
    using stores_wfD(5) [OF wf t] o [OF t]
    by (fastforce simp: handles_wf_def handles_of_def UpdateHandleFromList_heap [OF d])
qed (use stores_wfD [OF wf] in simp_all)

text \<open>The handles on stores, when a store goes away.\<close>

lemma update_global_wf:
  assumes wf: "stores_wf A st os" and nxt: "\<And>y. nxt = Addr y \<Longrightarrow> y \<in> B" and A: "A - {a} \<subseteq> B"
  shows "stores_wf B (UpdateHandleFromList (g_pRootHandle st) (Some (a, nxt)) None st) os"
proof -
  let ?st = "UpdateHandleFromList (g_pRootHandle st) (Some (a, nxt)) None st"
  have d: "distinct (g_pRootHandle st)" using stores_wfD(3) [OF wf] by (simp add: global_wf_def)
  have sig: "store_handle_wf B (update_store (Some (a, nxt)) h)" if "store_handle_wf A h" for h
    using that nxt A by (auto simp: store_handle_wf_def update_store_def)
  have sep: "b \<notin> set (g_pRootHandle st)" if "handle_heap st b = Some h" "part_handle_wf t h" for b h and t :: "'a CStore"
    using that stores_wfD(3) [OF wf] by (auto simp: global_wf_def part_handle_wf_def store_handle_wf_def)
  have none: "update_partition None = id" by (rule ext) (simp add: update_partition_def)
  show ?thesis
  proof (rule stores_wfI)
    show "global_wf B ?st"
      using stores_wfD(3) [OF wf] sig by (fastforce simp: global_wf_def UpdateHandleFromList_heap [OF d] none)
  next
    fix t assume t: "t \<in> set os"
    show "parts_wf (stg_next ?st) t" using stores_wfD(4) [OF wf t] by simp
    show "handles_wf ?st t"
      using stores_wfD(5) [OF wf t] sep by (fastforce simp: handles_wf_def UpdateHandleFromList_heap [OF d])
  qed (use stores_wfD [OF wf] in simp_all)
qed

lemma handles_apart:
  assumes wf: "stores_wf A st (s # os)"
  shows "set (handles_of st s) \<inter> set (g_pRootHandle st) = {}"
    "\<And>t. t \<in> set os \<Longrightarrow> set (handles_of st s) \<inter> set (handles_of st t) = {}"
proof -
  have h: "\<exists>h. handle_heap st b = Some h \<and> part_handle_wf s h" if "b \<in> set (handles_of st s)" for b
    using handles_of_wf(3) [OF wf that] by simp
  show "set (handles_of st s) \<inter> set (g_pRootHandle st) = {}"
    using h stores_wfD(3) [OF wf] by (fastforce simp: global_wf_def part_handle_wf_def store_handle_wf_def)
  fix t assume t: "t \<in> set os"
  have "s_addr t \<noteq> s_addr s" using stores_wfD(2) [OF wf] t by (auto simp: image_iff)
  moreover have "\<exists>h. handle_heap st b = Some h \<and> part_handle_wf t h" if "b \<in> set (handles_of st t)" for b
    using stores_wfD(5) [OF wf, of t] t that by (auto simp: handles_wf_def handles_of_def)
  ultimately show "set (handles_of st s) \<inter> set (handles_of st t) = {}"
    using h by (fastforce simp: part_handle_wf_def)
qed

lemma stores_wf_root_gone:
  assumes "stores_wf A st os" "a \<notin> store_addrs os"
  shows "stores_wf A (st\<lparr>machine := m, m_pRootHandle := (m_pRootHandle st)(a := None)\<rparr>) os"
proof (rule stores_wfI)
  fix t assume t: "t \<in> set os"
  then have "s_addr t \<noteq> a" using assms(2) by (auto simp: store_addrs_def)
  then show "handles_wf (st\<lparr>machine := m, m_pRootHandle := (m_pRootHandle st)(a := None)\<rparr>) t"
    using stores_wfD(5) [OF assms(1) t] by (simp add: handles_wf_def)
qed (use stores_wfD [OF assms(1)] in \<open>simp_all add: global_wf_def\<close>)

lemma next_pointer_other:
  assumes "distinct (map f xs)" "next_pointer f xs a = Addr y"
  shows "y \<in> f ` set xs - {a}"
  using assms by (induction xs) (auto split: if_splits list.splits)

lemma filter_remove1:
  assumes "distinct (map f xs)" "x \<in> set xs"
  shows "filter (\<lambda>t. f t \<noteq> f x) xs = remove1 x xs"
  using assms
proof (induction xs)
  case (Cons y xs)
  show ?case
  proof (cases "x = y")
    case True
    then show ?thesis using Cons.prems by (auto simp: filter_id_conv image_iff)
  next
    case False
    then show ?thesis using Cons by auto
  qed
qed simp

lemma filter_put_store:
  assumes "s \<in> set (g_pStoreRoot g)" "distinct (map s_addr (g_pStoreRoot g))" "s_addr s' = s_addr s"
  shows "filter (\<lambda>t. s_addr t \<noteq> s_addr s) (g_pStoreRoot (put_store s' g)) = remove1 s (g_pStoreRoot g)"
proof -
  obtain xs ys where g: "g_pStoreRoot g = xs @ s # ys" "s \<notin> set xs" using assms(1) by (meson split_list_first)
  have "filter (\<lambda>t. s_addr t \<noteq> s_addr s) xs = xs" "filter (\<lambda>t. s_addr t \<noteq> s_addr s) ys = ys"
    using assms(2) g by (auto simp: filter_id_conv image_iff)
  then show ?thesis using put_store_split [OF g(1) assms(2,3)] g assms(3) by (simp add: remove1_append)
qed

lemma store_addrs_remove1:
  "distinct (map s_addr ss) \<Longrightarrow> s \<in> set ss \<Longrightarrow> store_addrs (remove1 s ss) = store_addrs ss - {s_addr s}"
  by (auto simp: store_addrs_def distinct_map set_remove1_eq dest: inj_onD)

lemma detach_store_root:
  assumes "s \<in> set (g_pStoreRoot g)" "mgr_wf g"
  shows "g_pStoreRoot (detach_store env det s g) = remove1 s (g_pStoreRoot g)"
proof -
  obtain ok s1 st1 where u: "CStore_UnmountStore env True s (stg g) = (ok, s1, st1)" by (metis prod_cases3)
  have a: "s_addr s1 = s_addr s" using u by (auto simp: CStore_UnmountStore_def split: prod.splits)
  show ?thesis
    using filter_put_store [OF assms(1) mgr_wf_distinct [OF assms(2)] a] a
    by (simp add: detach_store_def u forget_store_def DeleteStore_def Let_def)
qed

lemma detach_store_wf:
  assumes s: "s \<in> set (g_pStoreRoot g)" and wf: "mgr_wf g"
  shows "mgr_wf (detach_store env det s g)"
proof -
  let ?os = "remove1 s (g_pStoreRoot g)" and ?B = "store_addrs (g_pStoreRoot g) - {s_addr s}"
  note d = mgr_wf_distinct [OF wf]
  obtain ok s1 st1 where u: "CStore_UnmountStore env True s (stg g) = (ok, s1, st1)" by (metis prod_cases3)
  have a: "s_addr s1 = s_addr s" using u by (auto simp: CStore_UnmountStore_def split: prod.splits)
  have wf0: "stores_wf (store_addrs (g_pStoreRoot g)) (stg g) (s # ?os)"
    using wf s by (simp add: mgr_wf_def stores_wf_focus)
  obtain G where w1: "stores_wf (store_addrs (g_pStoreRoot g)) st1 (with_parts s G # ?os)"
    using CStore_UnmountStore_wf [OF u wf0] by metis
  define nxt where "nxt = next_pointer s_addr (g_pStoreRoot (put_store s1 g)) (s_addr s)"
  have nxt: "y \<in> ?B" if "nxt = Addr y" for y
  proof -
    have "distinct (map s_addr (g_pStoreRoot (put_store s1 g)))" using put_store_root(2) [OF s d a] d by simp
    from next_pointer_other [OF this that [unfolded nxt_def]] show ?thesis
      using put_store_addrs [of s1 g] by (simp add: store_addrs_def)
  qed
  define st2 where "st2 = UpdateHandleFromList (handles_of st1 s) (Some (s_addr s, nxt)) None st1"
  define st3 where "st3 = UpdateHandleFromList (g_pRootHandle st2) (Some (s_addr s, nxt)) None st2"
  have "stores_wf (store_addrs (g_pStoreRoot g)) st2 ?os"
    unfolding st2_def
  proof (rule update_orphans_wf)
    show "stores_wf (store_addrs (g_pStoreRoot g)) st1 ?os" using w1 by (rule stores_wf_tl)
  qed (use handles_of_wf(2) [OF w1] handles_apart [OF w1] in simp_all)
  then have "stores_wf ?B st3 ?os"
    unfolding st3_def by (rule update_global_wf) (use nxt in auto)
  moreover have "s_addr s \<notin> store_addrs ?os" using store_addrs_remove1 [OF d s] by simp
  ultimately have "stores_wf ?B (st3\<lparr>machine := m, m_pRootHandle := (m_pRootHandle st3)(s_addr s := None)\<rparr>) ?os" for m
    by (rule stores_wf_root_gone)
  moreover have "\<exists>m. stg (detach_store env det s g) = st3\<lparr>machine := m, m_pRootHandle := (m_pRootHandle st3)(s_addr s := None)\<rparr>"
    by (simp add: detach_store_def u Let_def forget_store_def DeleteStore_def a st3_def st2_def nxt_def handles_of_def advertise_def)
       blast
  ultimately show ?thesis
    using detach_store_root [OF s wf, of env det] store_addrs_remove1 [OF d s] by (auto simp: mgr_wf_def)
qed

lemma detach_loop_wf: "mgr_wf g \<Longrightarrow> mgr_wf (detach_loop env det as g)"
  by (induction as arbitrary: g) (auto split: option.splits dest: store_at_in intro: detach_store_wf)

lemma DetachStores_wf: "mgr_wf g \<Longrightarrow> mgr_wf (DetachStores env det g)"
  by (simp add: DetachStores_def detach_loop_wf)

text \<open>What is not detached stays as it is, in its place.\<close>

lemma detach_loop_root:
  assumes "mgr_wf g"
  shows "g_pStoreRoot (detach_loop env det as g) =
           filter (\<lambda>s. \<not> (has_flag det s \<and> s_addr s \<in> set as)) (g_pStoreRoot g)"
  using assms
proof (induction as arbitrary: g)
  case (Cons a as)
  show ?case
  proof (cases "store_at g a")
    case None
    then have "s_addr s \<noteq> a" if "s \<in> set (g_pStoreRoot g)" for s
      using that by (auto simp: store_at_def find_None_iff)
    then show ?thesis using None Cons by (auto intro: filter_cong)
  next
    case (Some s)
    note s = store_at_in [OF Some] and d = mgr_wf_distinct [OF Cons.prems]
    have same: "t = s" if "t \<in> set (g_pStoreRoot g)" "s_addr t = a" for t
      using d s that by (auto simp: distinct_map dest: inj_onD)
    show ?thesis
    proof (cases "has_flag det s")
      case True
      have "g_pStoreRoot (detach_store env det s g) = filter (\<lambda>t. s_addr t \<noteq> a) (g_pStoreRoot g)"
        using detach_store_root [OF _ Cons.prems] filter_remove1 [OF d] s by auto
      then show ?thesis
        using Cons.IH [OF detach_store_wf [OF _ Cons.prems]] s same True Some
        by (auto intro!: filter_cong [OF refl])
    next
      case False
      then show ?thesis using Cons Some same by (auto intro!: filter_cong)
    qed
  qed
qed simp

lemma DetachStores_root:
  "mgr_wf g \<Longrightarrow> g_pStoreRoot (DetachStores env det g) = filter (\<lambda>s. \<not> has_flag det s) (g_pStoreRoot g)"
  by (auto simp: DetachStores_def detach_loop_root intro: filter_cong)

section \<open>A device vanishes\<close>

lemma set_detached_facts [simp]:
  "p_addr (set_detached b p) = p_addr p" "PARTITION_ATTRIBUTE_MOUNTED (set_detached b p) = PARTITION_ATTRIBUTE_MOUNTED p"
  "m_pDsk (set_detached b p) = None \<longleftrightarrow> m_pDsk p = None" "part_wf (set_detached b p) = part_wf p"
  by (simp_all add: set_detached_def part_wf_def)

lemma mounted_count_map:
  "(\<And>p. PARTITION_ATTRIBUTE_MOUNTED (f p) = PARTITION_ATTRIBUTE_MOUNTED p) \<Longrightarrow> mounted_count (map f ps) = mounted_count ps"
  by (induction ps) simp_all

text \<open>The partition objects change in a way that keeps addresses and mounting.\<close>

lemma stores_wf_map_parts:
  assumes wf: "stores_wf A st (s # os)" and s': "s_addr s' = s_addr s" "m_dwMountCount s' = m_dwMountCount s"
    and f: "list_all2 (\<lambda>p q. p_addr q = p_addr p \<and> PARTITION_ATTRIBUTE_MOUNTED q = PARTITION_ATTRIBUTE_MOUNTED p \<and>
              (m_pDsk q = None \<longleftrightarrow> m_pDsk p = None)) (m_pPartitionList s) (m_pPartitionList s')"
  shows "stores_wf A st (s' # os)"
proof (rule stores_wf_same [OF wf s'(1)])
  have a: "map p_addr (m_pPartitionList s') = map p_addr (m_pPartitionList s)"
    and m: "mounted_count (m_pPartitionList s') = mounted_count (m_pPartitionList s)"
    and w: "(\<forall>p \<in> set (m_pPartitionList s). part_wf p) \<longrightarrow> (\<forall>p \<in> set (m_pPartitionList s'). part_wf p)"
    using f by (induction rule: list_all2_induct) (auto simp: part_wf_def)
  then show "p_addr ` set (m_pPartitionList s) \<subseteq> p_addr ` set (m_pPartitionList s')" by (metis list.set_map subset_refl)
  have img: "p_addr ` set (m_pPartitionList s') = p_addr ` set (m_pPartitionList s)" using a by (metis list.set_map)
  have "p_addr p < stg_next st" if "p \<in> set (m_pPartitionList s')" for p
  proof -
    have "p_addr p \<in> p_addr ` set (m_pPartitionList s)" using img that by blast
    then show ?thesis using stores_wfD(4) [OF wf, of s] by (auto simp: parts_wf_def)
  qed
  then show "parts_wf (stg_next st) s'"
    using stores_wfD(4) [OF wf, of s] a m w s' by (auto simp: parts_wf_def)
qed

lemma UnmountStore_wf:
  assumes run: "UnmountStore name g = (r, g')" and wf: "mgr_wf g"
  shows "mgr_wf g'"
proof (cases "FindStore g name")
  case None
  then show ?thesis using run wf by (simp add: UnmountStore_def)
next
  case (Some s)
  then have s: "s \<in> set (g_pStoreRoot g)" by (auto simp: FindStore_def find_Some_iff)
  let ?s = "s\<lparr>m_dwFlags := (m_dwFlags s)\<lparr>STORE_FLAG_DETACHED := True\<rparr>, m_szOldDeviceName := m_szDeviceName s,
              m_szDeviceName := [], m_pPartitionList := map (set_detached True) (m_pPartitionList s)\<rparr>"
  have "mgr_wf (put_store ?s (g\<lparr>stg := stg g\<rparr>))"
  proof (rule mgr_put_store [OF wf s])
    fix A
    assume w: "stores_wf A (stg g) (s # remove1 s (g_pStoreRoot g))"
    show "stores_wf A (stg g) (?s # remove1 s (g_pStoreRoot g))"
      by (rule stores_wf_map_parts [OF w]) (simp_all add: list_all2_conv_all_nth)
  qed simp
  then show ?thesis using run Some by (auto simp: UnmountStore_def)
qed

section \<open>A device appears\<close>

lemma mount_all_wf:
  assumes "mount_all env as s st = (s', st')" "stores_wf A st (s # os)"
  shows "stores_wf A st' (s' # os)" "s_addr s' = s_addr s"
proof -
  have "stores_wf A st' (s' # os) \<and> s_addr s' = s_addr s"
    using assms
  proof (induction as arbitrary: s st)
    case (Cons a as)
    obtain e s1 st1 where m: "CStore_MountPartition env (Addr a) s st = (e, s1, st1)" by (metis prod_cases3)
    note k = keeps_storesD [OF MountPartition_keeps m Cons.prems(2)]
    have "mount_all env as s1 st1 = (s', st')" using Cons.prems(1) m by simp
    from Cons.IH [OF this k(1)] k(2) show ?case by simp
  qed simp
  then show "stores_wf A st' (s' # os)" "s_addr s' = s_addr s" by simp_all
qed

text \<open>The new store object at the end of the list.\<close>

lemma AddStore_wf:
  assumes n: "new_object env (stg g) = (Some a, st)" and wf: "mgr_wf g"
  shows "stores_wf (store_addrs (g_pStoreRoot g)) (stg (AddStore (CStore_new env a name) (g\<lparr>stg := st\<rparr>)))
           (CStore_new env a name # g_pStoreRoot g)"
    "a \<notin> store_addrs (g_pStoreRoot g)"
proof -
  let ?st = "stg (AddStore (CStore_new env a name) (g\<lparr>stg := st\<rparr>))"
  have wf0: "stores_wf (store_addrs (g_pStoreRoot g)) (stg g) (g_pStoreRoot g)" using wf by (simp add: mgr_wf_def)
  have a: "a = stg_next (stg g)" "stg_next st = a + 1" "m_pRootHandle st = m_pRootHandle (stg g)"
    using n by (cases rule: new_object_cases; simp)+
  have wf1: "stores_wf (store_addrs (g_pStoreRoot g)) st (g_pStoreRoot g)" by (rule new_object_wf [OF n wf0])
  have lt: "s_addr s < a" if "s \<in> set (g_pStoreRoot g)" for s
    using stores_wfD(4) [OF wf0 that] a by (simp add: parts_wf_def)
  then show fresh: "a \<notin> store_addrs (g_pStoreRoot g)" by (auto simp: store_addrs_def)
  show "stores_wf (store_addrs (g_pStoreRoot g)) ?st (CStore_new env a name # g_pStoreRoot g)"
  proof (rule stores_wfI)
    show "distinct (map s_addr (CStore_new env a name # g_pStoreRoot g))"
      using stores_wfD(2) [OF wf1] fresh by (simp add: store_addrs_def CStore_new_def)
    show "global_wf (store_addrs (g_pStoreRoot g)) ?st"
      using stores_wfD(3) [OF wf1] by (simp add: AddStore_def global_wf_def)
  next
    fix s assume s: "s \<in> set (CStore_new env a name # g_pStoreRoot g)"
    show "parts_wf (stg_next ?st) s"
      using s stores_wfD(4) [OF wf1] a by (auto simp: AddStore_def parts_wf_def CStore_new_def)
    show "handles_wf ?st s"
    proof (cases "s \<in> set (g_pStoreRoot g)")
      case True
      then show ?thesis using stores_wfD(5) [OF wf1 True] lt [OF True] by (simp add: AddStore_def handles_wf_def CStore_new_def)
    next
      case False
      then show ?thesis using s by (simp add: AddStore_def handles_wf_def CStore_new_def)
    qed
  qed (use stores_wfD(1) [OF wf1] in \<open>simp add: AddStore_def\<close>)
qed

lemma list_take_over:
  assumes "length ps = length qs"
  shows "list_all2 (\<lambda>p q. p_addr q = p_addr p \<and> PARTITION_ATTRIBUTE_MOUNTED q = PARTITION_ATTRIBUTE_MOUNTED p \<and>
           (m_pDsk q = None \<longleftrightarrow> m_pDsk p = None)) ps (map2 take_over_partition ps qs)"
  using assms by (induction ps qs rule: list_induct2) (auto simp: take_over_partition_def)

text \<open>
  The device of a detached store is back: its store object takes over, the one that was made for
  the device is unmounted and deleted.
\<close>

lemma reattach_wf:
  assumes run: "reattach env old new name g = Some g'"
    and root: "g_pStoreRoot g = os @ [new]" and new: "s_addr new \<notin> store_addrs os"
    and wf: "stores_wf (store_addrs os) (stg g) (new # os)"
    and old: "old \<in> set os" "length (m_pPartitionList old) = length (m_pPartitionList new)"
  shows "mgr_wf g'" "map s_addr (g_pStoreRoot g') = map s_addr os"
proof -
  define old' where "old' = take_over old new name"
  define m where "m = os_CloseHandle env (m_hDisk old) (drv_CloseStore (driver_of env old) (m_dwStoreId old) (machine (stg g)))"
  define new' where "new' = new\<lparr>m_dwStoreId := 0, m_hDisk := 0, m_pPartitionList := map (\<lambda>p. p\<lparr>m_dwPartitionId := 0\<rparr>) (m_pPartitionList new)\<rparr>"
  obtain ok s2 st2 where u: "CStore_UnmountStore env True new' ((stg g)\<lparr>machine := m\<rparr>) = (ok, s2, st2)" by (metis prod_cases3)
  have s2: "s_addr s2 = s_addr new" using u by (auto simp: CStore_UnmountStore_def new'_def split: prod.splits)
  have d: "distinct (map s_addr os)" using stores_wfD(2) [OF stores_wf_tl [OF wf]] .
  have a: "s_addr old' = s_addr old" by (simp add: old'_def take_over_def)
  define g1 where "g1 = put_store old' (g\<lparr>stg := (stg g)\<lparr>machine := m\<rparr>\<rparr>)"
  define os' where "os' = map (\<lambda>t. if s_addr t = s_addr old then old' else t) os"
  have ne: "s_addr old \<noteq> s_addr new" using old(1) new unfolding store_addrs_def by (metis imageI)
  have g1: "g_pStoreRoot g1 = os' @ [new]"
    using ne by (simp add: g1_def put_store_def root os'_def a)
  have g': "g' = DeleteStore env s2 (g1\<lparr>stg := st2\<rparr>)"
    using run u by (simp add: reattach_def Let_def g1_def old'_def m_def new'_def put_store_def split: if_splits)
  have os': "map s_addr os' = map s_addr os" by (simp add: os'_def a)
  have "filter (\<lambda>t. s_addr t \<noteq> s_addr new) os' = os'"
  proof -
    have "set (map s_addr os') = store_addrs os" unfolding os' by (simp add: store_addrs_def)
    then have "s_addr t \<noteq> s_addr new" if "t \<in> set os'" for t using new that by (metis image_eqI list.set_map)
    then show ?thesis by (simp add: filter_id_conv)
  qed
  then have root': "g_pStoreRoot g' = os'" by (simp add: g' DeleteStore_def s2 g1)
  show "map s_addr (g_pStoreRoot g') = map s_addr os" by (simp add: root' os')
  have addrs: "store_addrs os' = store_addrs os" using os' by (metis set_map store_addrs_def)
  \<comment> \<open>the old object\<close>
  have w1: "stores_wf (store_addrs os) (stg g) (old # remove1 old (new # os))"
    using wf old(1) stores_wf_focus [of old "new # os" "store_addrs os" "stg g"] by simp
  have "stores_wf (store_addrs os) (stg g) (old' # remove1 old (new # os))"
    by (rule stores_wf_map_parts [OF w1])
       (use list_take_over [OF old(2)] in \<open>simp_all add: old'_def take_over_def\<close>)
  moreover have "mset (old' # remove1 old (new # os)) = mset (new # os')"
  proof -
    obtain xs ys where os: "os = xs @ old # ys" "old \<notin> set xs" using old(1) by (meson split_list_first)
    have "map (\<lambda>t. if s_addr t = s_addr old then old' else t) xs = xs" "map (\<lambda>t. if s_addr t = s_addr old then old' else t) ys = ys"
      using d os by (auto intro!: map_idI simp: image_iff)
    moreover have "old \<noteq> new" using ne by auto
    ultimately show ?thesis using os by (simp add: os'_def remove1_append)
  qed
  ultimately have w2: "stores_wf (store_addrs os) (stg g) (new # os')" using stores_wf_perm by blast
  \<comment> \<open>the new object\<close>
  have w3: "stores_wf (store_addrs os) (stg g) (new' # os')"
    by (rule stores_wf_map_parts [OF w2]) (simp_all add: new'_def list_all2_conv_all_nth)
  obtain G where w4: "stores_wf (store_addrs os) st2 (with_parts new' G # os')"
    using CStore_UnmountStore_wf [OF u, of "store_addrs os" os'] w3 by auto
  have "s_addr s2 \<notin> store_addrs os'" using new addrs s2 by simp
  then have "stores_wf (store_addrs os) (stg g') os'"
    using stores_wf_root_gone [OF stores_wf_tl [OF w4]] by (simp add: g' DeleteStore_def)
  then show "mgr_wf g'" by (simp add: mgr_wf_def root' addrs)
qed

lemma mount_new_store_wf:
  assumes wf: "mgr_wf g" and s: "s \<in> set (g_pStoreRoot g)" "\<not> STORE_FLAG_DETACHED (m_dwFlags s)"
  shows "mgr_wf (mount_new_store env s g)"
proof -
  let ?g = "DetachStores env True g"
  obtain s1 st1 where m: "mount_all env (map p_addr (m_pPartitionList s)) s (stg ?g) = (s1, st1)" by (metis surj_pair)
  have wf1: "mgr_wf ?g" by (rule DetachStores_wf [OF wf])
  have in1: "s \<in> set (g_pStoreRoot ?g)" using s by (simp add: DetachStores_root [OF wf] has_flag_def)
  have a: "s_addr s1 = s_addr s"
    using mount_all_wf(2) [OF m] wf1 in1 stores_wf_focus [OF in1] unfolding mgr_wf_def by blast
  have "mgr_wf (put_store s1 (?g\<lparr>stg := st1\<rparr>))"
    by (rule mgr_put_store [OF wf1 in1 a]) (rule mount_all_wf(1) [OF m])
  then show ?thesis by (simp add: mount_new_store_def Let_def m)
qed

lemma MountStore_wf:
  assumes run: "MountStore env name g = Some (r, g')" and wf: "mgr_wf g"
  shows "mgr_wf g'"
proof -
  let ?there = "case FindStore g name of Some s \<Rightarrow> \<not> STORE_FLAG_DETACHED (m_dwFlags s) | None \<Rightarrow> False"
  let ?os = "g_pStoreRoot g" and ?pending = "\<exists>s \<in> set (g_pStoreRoot g). STORE_FLAG_DETACHED (m_dwFlags s)"
  show ?thesis
  proof (cases ?there)
    case True
    then show ?thesis using run wf by (auto simp: MountStore_def split: option.splits)
  next
    case False
    obtain b st where n: "new_object env (stg g) = (b, st)" by (metis surj_pair)
    show ?thesis
    proof (cases b)
      case None
      then have "g' = g\<lparr>stg := st\<rparr>" using run False n unfolding MountStore_def if_not_P [OF False] by simp
      then show ?thesis using new_object_wf [OF n] wf by (simp add: mgr_wf_def)
    next
      case (Some a)
      define new where "new = CStore_new env a name"
      define g1 where "g1 = AddStore new (g\<lparr>stg := st\<rparr>)"
      have n': "new_object env (stg g) = (Some a, st)" using n Some by simp
      note w1 = AddStore_wf(1) [OF n' wf, of name, folded new_def, folded g1_def] AddStore_wf(2) [OF n' wf]
      have run1: "Some (r, g') =
          (case CStore_MountStore env (\<not> ?pending) new (stg g1) of
             None \<Rightarrow> None
           | Some (e, s, st) \<Rightarrow>
               let g = put_store s (g1\<lparr>stg := st\<rparr>)
               in if e \<noteq> ERROR_SUCCESS then Some (True, DeleteStore env s g)
                  else if \<not> ?pending then Some (True, advertise (m_szDeviceName s) True g)
                  else case find_twin s g of
                         Some old \<Rightarrow> map_option (\<lambda>g. (True, g)) (reattach env old s name g)
                       | None \<Rightarrow> Some (True, advertise (m_szDeviceName s) True (mount_new_store env s g)))"
        using run unfolding MountStore_def if_not_P [OF False] n' prod.case option.case Let_def g1_def new_def by simp
      then obtain e s st1 where m: "CStore_MountStore env (\<not> ?pending) new (stg g1) = Some (e, s, st1)"
        by (auto split: option.splits)
      note k = CStore_MountStore_wf [OF m w1(1)]
      have a: "s_addr new = a" "\<not> STORE_FLAG_DETACHED (m_dwFlags new)"
        by (simp_all add: new_def CStore_new_def new_store_flags_def)
      then have s: "s_addr s = a" "\<not> STORE_FLAG_DETACHED (m_dwFlags s)" using k by simp_all
      define g2 where "g2 = put_store s (g1\<lparr>stg := st1\<rparr>)"
      have root1: "g_pStoreRoot g1 = ?os @ [new]" by (simp add: g1_def AddStore_def)
      have "map (\<lambda>t. if s_addr t = a then s else t) ?os = ?os"
        using w1(2) by (auto intro!: map_idI simp: store_addrs_def)
      then have root2: "g_pStoreRoot g2 = ?os @ [s]" by (simp add: g2_def put_store_def root1 a s)
      have stg2: "stg g2 = st1" by (simp add: g2_def put_store_def)
      have wf2: "mgr_wf g2"
      proof -
        have "stores_wf (store_addrs (?os @ [s])) st1 (s # ?os)"
          by (rule stores_wf_mono [OF k(1)]) (auto simp: store_addrs_def)
        moreover have "mset (s # ?os) = mset (?os @ [s])" by simp
        ultimately have "stores_wf (store_addrs (?os @ [s])) st1 (?os @ [s])" using stores_wf_perm by blast
        then show ?thesis by (simp add: mgr_wf_def root2 stg2)
      qed
      have run2: "Some (r, g') =
          (if e \<noteq> ERROR_SUCCESS then Some (True, DeleteStore env s g2)
           else if \<not> ?pending then Some (True, advertise (m_szDeviceName s) True g2)
           else case find_twin s g2 of
                  Some old \<Rightarrow> map_option (\<lambda>g. (True, g)) (reattach env old s name g2)
                | None \<Rightarrow> Some (True, advertise (m_szDeviceName s) True (mount_new_store env s g2)))"
        using run1 unfolding m option.case prod.case Let_def g2_def .
      consider "e \<noteq> ERROR_SUCCESS" "g' = DeleteStore env s g2"
        | "g' = advertise (m_szDeviceName s) True g2"
        | old where "find_twin s g2 = Some old" "reattach env old s name g2 = Some g'"
        | "g' = advertise (m_szDeviceName s) True (mount_new_store env s g2)"
        using run2 [symmetric] by (auto split: if_splits option.splits)
      then show ?thesis
      proof cases
        case 1
        have "s_addr t \<noteq> a" if "t \<in> set ?os" for t using w1(2) that unfolding store_addrs_def by blast
        then have "filter (\<lambda>t. s_addr t \<noteq> a) (?os @ [s]) = ?os" using s by (simp add: filter_id_conv)
        then have "g_pStoreRoot g' = ?os" by (simp add: 1 DeleteStore_def root2 s)
        moreover have "stores_wf (store_addrs ?os) (stg g') ?os"
          using stores_wf_root_gone [OF stores_wf_tl [OF k(1)] w1(2)] by (simp add: 1 DeleteStore_def stg2 s)
        ultimately show ?thesis by (simp add: mgr_wf_def)
      next
        case 2
        then show ?thesis using wf2 by simp
      next
        case 3
        have "old \<in> set ?os" "length (m_pPartitionList old) = length (m_pPartitionList s)"
          using 3(1) root2 by (auto simp: find_twin_def find_Some_iff same_partitions_def dest!: list_all2_lengthD nth_mem)
            (metis (no_types, lifting) less_antisym nth_append nth_append_length nth_mem)
        then show ?thesis using reattach_wf(1) [OF 3(2) root2] w1(2) k(1) s stg2 by simp
      next
        case 4
        then show ?thesis using mount_new_store_wf [OF wf2 _ s(2)] root2 by simp
      qed
    qed
  qed
qed

end
