(* ===== verification/Store_Invariant.thy ===== *)
theory Store_Invariant
  imports Store_Devices
begin

text \<open>
  All entry points and events of the store manager as a step relation; every reachable state is
  well formed.

  The calls that applications and drivers make and the events of devices, as a step relation, and
  the states it reaches.  Each step may have its own environment, because the caller and what the
  drivers and the registry answer change from call to call.
\<close>

section \<open>Refreshing a store\<close>

lemma refresh_one_wf:
  assumes run: "refresh_one env s g = Some g'" and s: "s \<in> set (g_pStoreRoot g)" and wf: "mgr_wf g"
    and ok: "fst (CStore_UnmountStore env True s (stg g))"
  shows "mgr_wf g'"
proof -
  let ?os = "remove1 s (g_pStoreRoot g)" and ?A = "store_addrs (g_pStoreRoot g)"
  note d = mgr_wf_distinct [OF wf]
  obtain s1 st1 where u: "CStore_UnmountStore env True s (stg g) = (True, s1, st1)"
    using ok by (metis (full_types) prod.collapse)
  have "stores_wf ?A (stg g) (s # ?os)" using wf s by (simp add: mgr_wf_def stores_wf_focus)
  note w1 = UnmountStore_deleted [OF u this]
  have a: "s_addr s1 = s_addr s" by (simp add: w1(1))
  define nxt where "nxt = next_pointer s_addr (g_pStoreRoot (put_store s1 g)) (s_addr s)"
  define st2 where "st2 = UpdateHandleFromList (g_pRootHandle st1) (Some (s_addr s, nxt)) None st1"
  define g2 where "g2 = DeleteStore env s1 (advertise (m_szDeviceName s1) False
    ((put_store s1 (g\<lparr>stg := st1\<rparr>))\<lparr>stg := st2\<rparr>))"
  have nxt: "y \<in> ?A - {s_addr s}" if "nxt = Addr y" for y
  proof -
    have "distinct (map s_addr (g_pStoreRoot (put_store s1 g)))" using put_store_root(2) [OF s d a] d by simp
    from next_pointer_other [OF this that [unfolded nxt_def]] show ?thesis
      using put_store_addrs [of s1 g] by (simp add: store_addrs_def)
  qed
  have addrs: "store_addrs ?os = ?A - {s_addr s}" by (rule store_addrs_remove1 [OF d s])
  have "stores_wf ?A st1 ?os" using stores_wf_tl [OF w1(2)] .
  then have "stores_wf (store_addrs ?os) st2 ?os"
    unfolding st2_def by (rule update_global_wf) (use nxt addrs in auto)
  then have "stores_wf (store_addrs ?os) (st2\<lparr>machine := m, m_pRootHandle := (m_pRootHandle st2)(s_addr s := None)\<rparr>) ?os" for m
    by (rule stores_wf_root_gone) (simp add: addrs)
  moreover have "g_pStoreRoot g2 = ?os"
    using filter_put_store [OF s d a] a by (simp add: g2_def DeleteStore_def)
  ultimately have "mgr_wf g2" using a by (simp add: mgr_wf_def g2_def DeleteStore_def)
  moreover have "map_option snd (MountStore env (m_szDeviceName s) g2) = Some g'"
    using run a unfolding refresh_one_def Let_def u prod.case g2_def st2_def nxt_def by simp
  then obtain r where "MountStore env (m_szDeviceName s) g2 = Some (r, g')" by auto
  ultimately show ?thesis using MountStore_wf by blast
qed

lemma STRMGR_RefreshStore_wf:
  assumes run: "STRMGR_RefreshStore env name g = Some (r, g')" and wf: "mgr_wf g"
  shows "mgr_wf g'"
proof (cases "FindStore g (strip_backslash name)")
  case None
  then show ?thesis using run MountStore_wf [OF _ wf] by (auto simp: STRMGR_RefreshStore_def)
next
  case (Some s)
  then have s: "s \<in> set (g_pStoreRoot g)" by (auto simp: FindStore_def find_Some_iff)
  let ?s = "s\<lparr>m_dwFlags := (m_dwFlags s)\<lparr>STORE_FLAG_REFRESHED := True\<rparr>\<rparr>"
  have "mgr_wf (put_store ?s (g\<lparr>stg := stg g\<rparr>))"
    by (rule mgr_put_store [OF wf s]) (auto intro: stores_wf_same_parts simp: same_parts_def)
  then show ?thesis using run Some by (auto simp: STRMGR_RefreshStore_def)
qed

lemma PNPThread_step_wf:
  assumes run: "PNPThread_step env ev (b, g) = Some (b', g')" and wf: "mgr_wf g"
    and ev: "ev \<noteq> Update_Event \<or> \<not> STOREMGR_EVENT_REFRESHSTORE g"
  shows "mgr_wf g'"
proof (cases ev)
  case Time_Out
  then show ?thesis using run wf by (auto simp: PNPThread_step_def intro!: DetachStores_wf)
next
  case (Device_Message attached name)
  then show ?thesis using run MountStore_wf [OF _ wf] UnmountStore_wf [OF _ wf, of name "fst (UnmountStore name g)" "snd (UnmountStore name g)"]
    by (auto simp: PNPThread_step_def split: if_splits)
next
  case Update_Event
  then show ?thesis using run wf ev by (auto simp: PNPThread_step_def Let_def)
qed

section \<open>Calls through a handle\<close>

lemma finish_wf: "finish e g = (ok, g') \<Longrightarrow> mgr_wf g \<Longrightarrow> mgr_wf g'"
  by (auto simp: finish_def split: if_splits)

lemma IsValidHandle_heap: "IsValidHandle g a = Some h \<Longrightarrow> handle_heap (stg g) a = Some h"
  by (auto simp: IsValidHandle_def split: option.splits if_splits)

lemma on_store_wf:
  assumes run: "on_store f a g = (e, g')" and wf: "mgr_wf g" and k: "\<And>h. keeps_stores (f h)"
  shows "mgr_wf g'"
proof (cases "IsValidHandle g a")
  case None
  then show ?thesis using run wf by (simp add: on_store_def)
next
  case h: (Some h)
  show ?thesis
  proof (cases "IsValidStore g (h_pStore h)")
    case None
    then show ?thesis using run wf h by (simp add: on_store_def)
  next
    case (Some s)
    obtain x s1 st1 where r: "f h s (stg g) = (x, s1, st1)" by (metis prod_cases3)
    have g': "g' = put_store s1 (g\<lparr>stg := st1\<rparr>)" using run h Some r by (simp add: on_store_def)
    have s: "s \<in> set (g_pStoreRoot g)" using IsValidStore_in [OF Some] by simp
    have "stores_wf (store_addrs (g_pStoreRoot g)) (stg g) (s # remove1 s (g_pStoreRoot g))"
      using wf s by (simp add: mgr_wf_def stores_wf_focus)
    then have a: "s_addr s1 = s_addr s" using keeps_storesD(2) [OF k r] by simp
    show ?thesis unfolding g'
      by (rule mgr_put_store [OF wf s a]) (rule keeps_storesD(1) [OF k r])
  qed
qed

lemma trusted_on_store_wf:
  assumes "trusted_call env (on_store f a) g = (ok, g')" "mgr_wf g" "\<And>h. keeps_stores (f h)"
  shows "mgr_wf g'"
  using assms on_store_wf [of f a g "fst (on_store f a g)" "snd (on_store f a g)"]
  by (auto simp: trusted_call_def finish_def split: prod.splits if_splits)

text \<open>A step on the state alone.\<close>

lemma mgr_stg_wf:
  assumes "mgr_wf g" "\<And>A. stores_wf A (stg g) (g_pStoreRoot g) \<Longrightarrow> stores_wf A st (g_pStoreRoot g)"
  shows "mgr_wf (g\<lparr>stg := st\<rparr>)"
  using assms by (simp add: mgr_wf_def)

lemma on_one_store:
  assumes s: "s \<in> set ss" and f: "\<And>os. stores_wf A st (s # os) \<Longrightarrow> stores_wf A st' (s # os)"
    and wf: "stores_wf A st ss"
  shows "stores_wf A st' ss"
  using f [of "remove1 s ss"] wf stores_wf_focus [OF s] by blast

text \<open>A new handle on a store, in front of the list.\<close>

lemma new_store_handle_wf:
  assumes new: "new_handle_object env h st = (Some a, st1)" and api: "CreateAPIHandle env api a st1 = (x, st2)"
    and h: "store_handle_wf A h" and wf: "stores_wf A st ss"
  shows "stores_wf A (st2\<lparr>g_pRootHandle := a # g_pRootHandle st2\<rparr>) ss"
    "stores_wf A st2 ss" "stores_wf A (delete_handle a st2) ss"
proof -
  obtain st0 where n: "new_object env st = (Some a, st0)" and st1: "st1 = st0\<lparr>handle_heap := (handle_heap st0)(a \<mapsto> h)\<rparr>"
    using new by (auto simp: new_handle_object_def split: prod.splits option.splits)
  have a: "a = stg_next st" "stg_next st0 = a + 1" "handle_heap st0 = handle_heap st"
    "g_pRootHandle st0 = g_pRootHandle st" "m_pRootHandle st0 = m_pRootHandle st"
    using n by (cases rule: new_object_cases; simp)+
  have wf0: "stores_wf A st0 ss" by (rule new_object_wf [OF n wf])
  have fresh: "a \<notin> set (g_pRootHandle st)" "\<And>t. t \<in> set ss \<Longrightarrow> a \<notin> set (handles_of st t)"
    using stores_wfD(3) [OF wf] stores_wfD(5) [OF wf] a by (force simp: global_wf_def handles_wf_def handles_of_def)+
  have wf1: "stores_wf A st1 ss"
  proof (rule stores_wfI)
    show "global_wf A st1" using stores_wfD(3) [OF wf0] fresh a by (auto simp: global_wf_def st1)
  next
    fix t assume t: "t \<in> set ss"
    show "parts_wf (stg_next st1) t" using stores_wfD(4) [OF wf0 t] by (simp add: st1)
    show "handles_wf st1 t"
      using stores_wfD(5) [OF wf0 t] fresh(2) [OF t] a by (fastforce simp: handles_wf_def st1 handles_of_def)
  qed (use stores_wfD [OF wf0] in \<open>simp_all add: st1\<close>)
  show wf2: "stores_wf A st2 ss" by (rule CreateAPIHandle_wf [OF api wf1])
  have st2: "handle_heap st2 = handle_heap st1" "g_pRootHandle st2 = g_pRootHandle st" "m_pRootHandle st2 = m_pRootHandle st"
    "a < stg_next st2"
    using api a by (auto simp: CreateAPIHandle_def st1 split: prod.splits option.splits elim: new_object_cases)
  show "stores_wf A (st2\<lparr>g_pRootHandle := a # g_pRootHandle st2\<rparr>) ss"
  proof (rule stores_wfI)
    show "global_wf A (st2\<lparr>g_pRootHandle := a # g_pRootHandle st2\<rparr>)"
      using stores_wfD(3) [OF wf2] fresh(1) st2 h by (auto simp: global_wf_def st1)
  qed (use stores_wfD [OF wf2] in \<open>simp_all add: handles_wf_def\<close>)
  show "stores_wf A (delete_handle a st2) ss"
    by (rule delete_handle_wf [OF wf2]) (use fresh st2 in \<open>simp_all add: handles_of_def\<close>)
qed

lemma put_handle_global_wf:
  assumes wf: "stores_wf A st ss" and a: "a \<in> set (g_pRootHandle st)" and h: "store_handle_wf A h"
  shows "stores_wf A (put_handle a h st) ss"
proof (rule stores_wfI)
  show "global_wf A (put_handle a h st)" using stores_wfD(3) [OF wf] h by (auto simp: global_wf_def put_handle_def)
next
  fix t assume t: "t \<in> set ss"
  show "parts_wf (stg_next (put_handle a h st)) t" using stores_wfD(4) [OF wf t] by (simp add: put_handle_def)
  show "handles_wf (put_handle a h st) t"
    using stores_wfD(3) [OF wf] stores_wfD(5) [OF wf t] a
    by (fastforce simp: handles_wf_def global_wf_def put_handle_def part_handle_wf_def store_handle_wf_def)
qed (use stores_wfD [OF wf] in \<open>simp_all add: put_handle_def\<close>)

text \<open>A handle moves within the partitions of its store.\<close>

lemma put_handle_part_wf:
  assumes wf: "stores_wf A st (s # os)" and a: "handle_heap st a = Some h" and s: "h_pStore h = Addr (s_addr s)"
    and h': "dwSig h' = dwSig h" "h_pStore h' = h_pStore h"
      "\<And>y. h_pPartition h' = Addr y \<Longrightarrow> y \<in> p_addr ` set (m_pPartitionList s)"
  shows "stores_wf A (put_handle a h' st) (s # os)"
proof (rule stores_wfI)
  show "global_wf A (put_handle a h' st)"
    using stores_wfD(3) [OF wf] a h' by (fastforce simp: global_wf_def put_handle_def store_handle_wf_def)
next
  fix t assume t: "t \<in> set (s # os)"
  show "parts_wf (stg_next (put_handle a h' st)) t" using stores_wfD(4) [OF wf t] by (simp add: put_handle_def)
  have "part_handle_wf t h'" if "part_handle_wf t h"
  proof -
    have "t = s" using store_unique [OF wf t, of s] that s by (simp add: part_handle_wf_def)
    then show ?thesis using that h' by (simp add: part_handle_wf_def)
  qed
  then show "handles_wf (put_handle a h' st) t"
    using stores_wfD(5) [OF wf t] a by (fastforce simp: handles_wf_def put_handle_def)
qed (use stores_wfD [OF wf] in \<open>simp_all add: put_handle_def\<close>)

section \<open>Searches of partitions\<close>

lemma FindFirstPartition_wf:
  assumes run: "CStore_FindFirstPartition env hProc s st = (e, x, info, st')" and wf: "stores_wf A st (s # os)"
  shows "stores_wf A st' (s # os)"
proof (cases "m_pPartitionList s")
  case Nil
  then show ?thesis using run new_object_wf [OF _ wf]
    by (auto simp: CStore_FindFirstPartition_def split: prod.splits option.splits)
next
  case (Cons p ps)
  let ?h = "partition_handle s (Addr (p_addr p)) hProc True False"
  have h: "part_handle_wf s ?h" by (simp add: part_handle_wf_def partition_handle_def Cons)
  obtain a st1 where n: "new_handle_object env ?h st = (a, st1)" by (metis surj_pair)
  show ?thesis
  proof (cases a)
    case None
    then show ?thesis using run Cons n new_handle_None [of env ?h st st1 A] wf by (simp add: CStore_FindFirstPartition_def)
  next
    case (Some b)
    have "stores_wf A (put_store_handles s (AddHandleToList b (handles_of st1 s)) st1) (s # os)"
      using new_handle_wf [OF wf] n Some h by simp
    then show ?thesis using run Cons n Some
      by (auto simp: CStore_FindFirstPartition_def Let_def split: prod.splits intro: CreateAPIHandle_wf)
  qed
qed

lemma FindNextPartition_wf:
  assumes run: "CStore_FindNextPartition env a h s st = (e, info, st')" and wf: "stores_wf A st (s # os)"
    and h: "handle_heap st a = Some h" "h_pStore h = Addr (s_addr s)"
  shows "stores_wf A st' (s # os)"
proof (cases "IsValidPartition s (h_pPartition h)")
  case None
  then show ?thesis using run wf by (simp add: CStore_FindNextPartition_def)
next
  case (Some p)
  let ?h = "if STOREHANDLE_TYPE_CURRENT h then h\<lparr>STOREHANDLE_TYPE_CURRENT := False\<rparr>
            else h\<lparr>h_pPartition := next_pointer p_addr (m_pPartitionList s) (p_addr p)\<rparr>"
  have st': "st' = put_handle a ?h st" using run Some by (auto simp: CStore_FindNextPartition_def Let_def split: option.splits)
  have d: "distinct (map p_addr (m_pPartitionList s))" using stores_wfD(4) [OF wf, of s] by (simp add: parts_wf_def)
  have p: "h_pPartition h = Addr (p_addr p)" "p \<in> set (m_pPartitionList s)"
    using IsValidPartition_at [OF Some] by (auto simp: partition_at_def find_Some_iff)
  show ?thesis
    unfolding st' by (rule put_handle_part_wf [OF wf h])
      (use p next_pointer_other [OF d] in \<open>auto split: if_splits\<close>)
qed

lemma FindClosePartition_keeps:
  "keeps_stores (\<lambda>s st. let (e, st) = CStore_FindClosePartition a s st in (e, s, st))"
  by (rule keeps_storesI)
     (auto simp: CStore_FindClosePartition_def split: option.splits intro: drop_store_handle_wf)

section \<open>Calls\<close>

datatype stg_call =
    Find_First_Store "bool option" nat
  | Find_Next_Store nat "bool option"
  | Find_Close_Store nat
  | Open_Store string nat
  | Close_Handle nat
  | Get_Store_Info nat "bool option"
  | Dismount_Store nat
  | Format_Store nat
  | Create_Partition nat string nat nat nat bool
  | Delete_Partition nat string
  | Open_Partition nat string
  | Mount_Partition nat
  | Dismount_Partition nat
  | Rename_Partition nat string
  | Set_Partition_Attributes nat nat
  | Format_Partition nat nat bool
  | Get_Partition_Info nat "bool option"
  | Find_First_Partition nat "bool option"
  | Find_Next_Partition nat "bool option"
  | Find_Close_Partition nat
  | Device_Io_Control nat io_code io_request
  | Create_File string nat

fun run_call :: "'d stg_env \<Rightarrow> stg_call \<Rightarrow> 'd mgr \<Rightarrow> 'd mgr" where
  "run_call env (Find_First_Store pInfo hProc) g = snd (snd (STG_FindFirstStore env pInfo hProc g))"
| "run_call env (Find_Next_Store a pInfo) g = snd (snd (STG_FindNextStore a pInfo g))"
| "run_call env (Find_Close_Store a) g = snd (STG_FindCloseStore a g)"
| "run_call env (Open_Store name hProc) g = snd (STG_OpenStore env name hProc g)"
| "run_call env (Close_Handle a) g = snd (STG_Close a g)"
| "run_call env (Get_Store_Info a pInfo) g = snd (STG_GetStoreInfo a pInfo g)"
| "run_call env (Dismount_Store a) g = snd (STG_DismountStore env a g)"
| "run_call env (Format_Store a) g = snd (STG_FormatStore env a g)"
| "run_call env (Create_Partition a name t hi lo auto) g = snd (STG_CreatePartition env a name t hi lo auto g)"
| "run_call env (Delete_Partition a name) g = snd (STG_DeletePartition env a name g)"
| "run_call env (Open_Partition a name) g = snd (STG_OpenPartition env a name g)"
| "run_call env (Mount_Partition a) g = snd (STG_MountPartition env a g)"
| "run_call env (Dismount_Partition a) g = snd (STG_DismountPartition env a g)"
| "run_call env (Rename_Partition a name) g = snd (STG_RenamePartition env a name g)"
| "run_call env (Set_Partition_Attributes a attrs) g = snd (STG_SetPartitionAttributes env a attrs g)"
| "run_call env (Format_Partition a t auto) g = snd (STG_FormatPartition env a t auto g)"
| "run_call env (Get_Partition_Info a pInfo) g = snd (snd (STG_GetPartitionInfo env a pInfo g))"
| "run_call env (Find_First_Partition a pInfo) g = snd (snd (STG_FindFirstPartition env a pInfo g))"
| "run_call env (Find_Next_Partition a pInfo) g = snd (snd (STG_FindNextPartition env a pInfo g))"
| "run_call env (Find_Close_Partition a) g = snd (STG_FindClosePartition a g)"
| "run_call env (Device_Io_Control a code req) g = snd (snd (STG_DeviceIoControl env a code req g))"
| "run_call env (Create_File name hProc) g = snd (STRMGR_CreateFileW env name hProc g)"

text \<open>
  The kernel lets a search of stores go on only with the handle of an open search; the other calls
  may be made with any handle object.
\<close>

fun kernel_passes :: "'d mgr \<Rightarrow> stg_call \<Rightarrow> bool" where
  "kernel_passes g (Find_Next_Store a pInfo) = (a \<in> set (g_pRootHandle (stg g)))"
| "kernel_passes g c = True"

lemma attached_from_in: "attached_from ss = Some s \<Longrightarrow> s \<in> set ss"
  by (auto simp: attached_from_def find_Some_iff)

lemma stores_after_sub: "set (stores_after g a) \<subseteq> set (g_pStoreRoot g)"
proof
  fix s assume "s \<in> set (stores_after g a)"
  then have "s \<in> set (dropWhile (\<lambda>s. s_addr s \<noteq> a) (g_pStoreRoot g))"
    unfolding stores_after_def by (cases "dropWhile (\<lambda>s. s_addr s \<noteq> a) (g_pStoreRoot g)") auto
  then show "s \<in> set (g_pStoreRoot g)" by (rule set_dropWhileD)
qed

section \<open>Every call keeps the state well formed\<close>

lemma store_handle_ok: "s \<in> set ss \<Longrightarrow> store_handle_wf (store_addrs ss) (store_handle (Addr (s_addr s)) hProc b)"
  by (simp add: store_handle_wf_def store_handle_def store_addrs_def)

lemma FindFirstStore_wf:
  assumes wf: "mgr_wf g"
  shows "mgr_wf (snd (snd (STG_FindFirstStore env pInfo hProc g)))"
proof (cases "attached_from (g_pStoreRoot g)")
  case None
  then show ?thesis using wf by (simp add: STG_FindFirstStore_def)
next
  case (Some s)
  note h = store_handle_ok [OF attached_from_in [OF Some], of hProc True]
  obtain a st1 where n: "new_handle_object env (store_handle (Addr (s_addr s)) hProc True) (stg g) = (a, st1)"
    by (metis surj_pair)
  show ?thesis
  proof (cases a)
    case None
    then have "mgr_wf (g\<lparr>stg := st1\<rparr>)" using new_handle_None n wf by (auto simp: mgr_wf_def)
    then show ?thesis using Some n None wf by (simp add: STG_FindFirstStore_def)
  next
    case b: (Some b)
    obtain x st2 where c: "CreateAPIHandle env FSTG b st1 = (x, st2)" by (metis surj_pair)
    note w = new_store_handle_wf [OF n [unfolded b] c h]
    have "mgr_wf (g\<lparr>stg := st2\<lparr>g_pRootHandle := b # g_pRootHandle st2\<rparr>\<rparr>)" "mgr_wf (g\<lparr>stg := st2\<rparr>)"
      using w(1,2) wf by (simp_all add: mgr_wf_def)
    then show ?thesis using Some n b c wf by (simp add: STG_FindFirstStore_def AddHandleToList_def)
  qed
qed

lemma OpenStore_wf:
  assumes wf: "mgr_wf g"
  shows "mgr_wf (snd (STG_OpenStore env name hProc g))"
proof (cases "FindStore g name")
  case None
  obtain b st where n: "new_object env (stg g) = (b, st)" by (metis surj_pair)
  have "mgr_wf (g\<lparr>stg := st\<rparr>)" using new_object_wf [OF n] wf by (simp add: mgr_wf_def)
  then show ?thesis using None n by (cases b) (simp_all add: STG_OpenStore_def)
next
  case (Some s)
  then have s: "s \<in> set (g_pStoreRoot g)" by (auto simp: FindStore_def find_Some_iff)
  note h = store_handle_ok [OF s, of hProc False]
  obtain a st1 where n: "new_handle_object env (store_handle (Addr (s_addr s)) hProc False) (stg g) = (a, st1)"
    by (metis surj_pair)
  show ?thesis
  proof (cases a)
    case None
    then have "mgr_wf (g\<lparr>stg := st1\<rparr>)" using new_handle_None n wf by (auto simp: mgr_wf_def)
    then show ?thesis using Some n None by (simp add: STG_OpenStore_def)
  next
    case b: (Some b)
    obtain x st2 where c: "CreateAPIHandle env STRG b st1 = (x, st2)" by (metis surj_pair)
    note w = new_store_handle_wf [OF n [unfolded b] c h]
    have "mgr_wf (g\<lparr>stg := st2\<lparr>g_pRootHandle := b # g_pRootHandle st2\<rparr>\<rparr>)" "mgr_wf (g\<lparr>stg := delete_handle b st2\<rparr>)"
      using w(1,3) wf by (simp_all add: mgr_wf_def)
    then show ?thesis using Some n b c by (simp add: STG_OpenStore_def AddHandleToList_def)
  qed
qed

lemma FindNextStore_wf:
  assumes wf: "mgr_wf g" and a: "a \<in> set (g_pRootHandle (stg g))"
  shows "mgr_wf (snd (snd (STG_FindNextStore a pInfo g)))"
proof (cases "pInfo = Some True \<and> IsValidHandle g a \<noteq> None")
  case False
  then show ?thesis using wf by (auto simp: STG_FindNextStore_def)
next
  case True
  then obtain h where h: "IsValidHandle g a = Some h" by auto
  let ?h = "if STOREHANDLE_TYPE_CURRENT h then h\<lparr>STOREHANDLE_TYPE_CURRENT := False\<rparr>
            else h\<lparr>h_pStore := (case h_pStore h of
                                  Addr s \<Rightarrow> (case attached_from (stores_after g s) of Some t \<Rightarrow> Addr (s_addr t) | None \<Rightarrow> NULL)
                                | _ \<Rightarrow> NULL)\<rparr>"
  have g: "stores_wf (store_addrs (g_pStoreRoot g)) (stg g) (g_pStoreRoot g)" using wf by (simp add: mgr_wf_def)
  have old: "store_handle_wf (store_addrs (g_pStoreRoot g)) h"
    using stores_wfD(3) [OF g] a IsValidHandle_heap [OF h] by (auto simp: global_wf_def)
  have "s_addr t \<in> store_addrs (g_pStoreRoot g)" if "attached_from (stores_after g x) = Some t" for t x
    using attached_from_in [OF that] stores_after_sub [of g x] by (auto simp: store_addrs_def)
  then have new: "store_handle_wf (store_addrs (g_pStoreRoot g)) ?h"
    using old by (auto simp: store_handle_wf_def split: pointer.splits option.splits)
  have "mgr_wf (g\<lparr>stg := put_handle a ?h (stg g)\<rparr>)"
    using put_handle_global_wf [OF g a new] by (simp add: mgr_wf_def)
  moreover have "snd (snd (STG_FindNextStore a pInfo g)) = g\<lparr>stg := put_handle a ?h (stg g)\<rparr> \<or>
      snd (snd (STG_FindNextStore a pInfo g)) = set_last_error ERROR_NO_MORE_ITEMS (g\<lparr>stg := put_handle a ?h (stg g)\<rparr>)"
    using True h by (simp add: STG_FindNextStore_def Let_def split: option.splits)
  ultimately show ?thesis by (metis mgr_wf_set_last_error)
qed

lemma OpenPartition_wf:
  assumes wf: "mgr_wf g"
  shows "mgr_wf (snd (STG_OpenPartition env a name g))"
proof (cases "IsValidHandle g a")
  case None
  then show ?thesis using wf by (simp add: STG_OpenPartition_def)
next
  case h: (Some h)
  show ?thesis
  proof (cases "IsValidStore g (h_pStore h)")
    case None
    then show ?thesis using wf h by (simp add: STG_OpenPartition_def)
  next
    case (Some s)
    obtain e x st where o: "CStore_OpenPartition env s name (h_hProc h) (stg g) = (e, x, st)" by (metis prod_cases3)
    have "mgr_wf (g\<lparr>stg := st\<rparr>)"
      by (rule mgr_stg_wf [OF wf]) (rule on_one_store [OF _ CStore_OpenPartition_wf [OF o]], use IsValidStore_in [OF Some] in simp_all)
    then show ?thesis using h Some o by (simp add: STG_OpenPartition_def finish_def)
  qed
qed

lemma FindFirst_wf:
  assumes wf: "mgr_wf g"
  shows "mgr_wf (snd (snd (STG_FindFirstPartition env a pInfo g)))"
proof (cases "pInfo = Some True \<and> IsValidHandle g a \<noteq> None")
  case False
  then show ?thesis using wf by (auto simp: STG_FindFirstPartition_def split: option.splits bool.splits)
next
  case True
  then obtain h where h: "IsValidHandle g a = Some h" by auto
  show ?thesis
  proof (cases "IsValidStore g (h_pStore h)")
    case None
    then show ?thesis using wf h True by (simp add: STG_FindFirstPartition_def)
  next
    case (Some s)
    obtain e x info st where f: "CStore_FindFirstPartition env (h_hProc h) s (stg g) = (e, x, info, st)" by (metis prod_cases4)
    have "mgr_wf (g\<lparr>stg := st\<rparr>)"
      by (rule mgr_stg_wf [OF wf]) (rule on_one_store [OF _ FindFirstPartition_wf [OF f]], use IsValidStore_in [OF Some] in simp_all)
    then show ?thesis using h Some f True by (simp add: STG_FindFirstPartition_def finish_def)
  qed
qed

lemma FindNext_wf:
  assumes wf: "mgr_wf g"
  shows "mgr_wf (snd (snd (STG_FindNextPartition env a pInfo g)))"
proof (cases "pInfo = Some True \<and> IsValidHandle g a \<noteq> None")
  case False
  then show ?thesis using wf by (auto simp: STG_FindNextPartition_def split: option.splits bool.splits)
next
  case True
  then obtain h where h: "IsValidHandle g a = Some h" by auto
  show ?thesis
  proof (cases "IsValidStore g (h_pStore h)")
    case None
    then show ?thesis using wf h True by (simp add: STG_FindNextPartition_def)
  next
    case (Some s)
    obtain e info st where f: "CStore_FindNextPartition env a h s (stg g) = (e, info, st)" by (metis prod_cases3)
    note s = IsValidStore_in [OF Some]
    have "mgr_wf (g\<lparr>stg := st\<rparr>)"
      by (rule mgr_stg_wf [OF wf])
         (rule on_one_store [OF _ FindNextPartition_wf [OF f _ IsValidHandle_heap [OF h]]], use s in simp_all)
    then show ?thesis using h Some f True by (simp add: STG_FindNextPartition_def finish_def)
  qed
qed

lemma DeviceIoControl_wf:
  assumes wf: "mgr_wf g"
  shows "mgr_wf (snd (snd (STG_DeviceIoControl env a code req g)))"
proof -
  have "mgr_wf (g\<lparr>stg := (stg g)\<lparr>machine := m\<rparr>\<rparr>)" for m using wf by (simp add: mgr_wf_def)
  then show ?thesis using wf by (simp add: STG_DeviceIoControl_def finish_def Let_def split: option.splits prod.splits)
qed

lemma DismountStore_keeps:
  "keeps_stores (\<lambda>s st. let (ok, s, st) = CStore_UnmountStore env False s st
                        in (if ok then ERROR_SUCCESS else ERROR_GEN_FAILURE, s, st))"
  by (rule keeps_storesI) (auto dest: keeps_storesD [OF UnmountStore_keeps] split: prod.splits)

lemma Close_wf: "mgr_wf g \<Longrightarrow> mgr_wf (snd (STG_Close a g))"
  by (auto simp: STG_Close_def mgr_wf_def split: prod.splits intro: STG_CloseHandle_wf)

lemma FindCloseStore_wf: "mgr_wf g \<Longrightarrow> mgr_wf (snd (STG_FindCloseStore a g))"
  by (auto simp: STG_FindCloseStore_def mgr_wf_def split: option.splits intro: drop_global_handle_wf)

lemma trusted_wf: "mgr_wf g \<Longrightarrow> (\<And>h. keeps_stores (f h)) \<Longrightarrow> mgr_wf (snd (trusted_call env (on_store f a) g))"
  using trusted_on_store_wf [of env f a g "fst (trusted_call env (on_store f a) g)" "snd (trusted_call env (on_store f a) g)"]
  by simp

lemma on_store_finish_wf:
  assumes "mgr_wf g" "\<And>h. keeps_stores (f h)"
  shows "mgr_wf (snd (let (e, g) = on_store f a g in finish e g))"
  using on_store_wf [of f a g "fst (on_store f a g)" "snd (on_store f a g)"] assms
  by (auto simp: finish_def split: prod.splits)

lemmas store_keeps =
  FormatStore_keeps CreatePartition_keeps DeletePartition_keeps MountPartition_keeps
  UnmountPartition_keeps RenameParttion_keeps SetPartitionAttributes_keeps
  FormatPartition_keeps

lemma run_call_wf:
  assumes "mgr_wf g" "kernel_passes g c"
  shows "mgr_wf (run_call env c g)"
proof (cases c)
  case (Find_Next_Store a pInfo)
  then show ?thesis using assms by (simp add: FindNextStore_wf)
next
  case (Get_Store_Info a pInfo)
  then show ?thesis using assms by (auto simp: STG_GetStoreInfo_def split: option.splits bool.splits)
next
  case (Get_Partition_Info a pInfo)
  then show ?thesis using assms by (auto simp: STG_GetPartitionInfo_def split: option.splits bool.splits)
next
  case (Dismount_Store a)
  then show ?thesis using trusted_wf [OF assms(1) DismountStore_keeps] by (simp add: STG_DismountStore_def)
next
  case (Find_Close_Partition a)
  then show ?thesis using on_store_finish_wf [OF assms(1) FindClosePartition_keeps] by (simp add: STG_FindClosePartition_def)
qed (use assms in \<open>simp_all add: FindFirstStore_wf OpenStore_wf OpenPartition_wf FindFirst_wf FindNext_wf DeviceIoControl_wf
       Close_wf FindCloseStore_wf STRMGR_CreateFileW_def STG_FormatStore_def STG_CreatePartition_def
       STG_DeletePartition_def STG_MountPartition_def STG_DismountPartition_def STG_RenamePartition_def
       STG_SetPartitionAttributes_def STG_FormatPartition_def trusted_wf store_keeps\<close>)

section \<open>Reachable states\<close>

text \<open>
  A pass of the thread over the stores that are marked for a refresh, when every partition of these
  stores can be unmounted: otherwise the code drops partitions that are still mounted.
\<close>

inductive refresh_pass :: "'d stg_env \<Rightarrow> pointer \<Rightarrow> 'd mgr \<Rightarrow> 'd mgr \<Rightarrow> bool" for env where
  pass_end: "refresh_pass env NULL g g"
| pass_over: "IsValidStore g c = Some s \<Longrightarrow> \<not> STORE_FLAG_REFRESHED (m_dwFlags s) \<Longrightarrow>
    refresh_pass env (next_pointer s_addr (g_pStoreRoot g) (s_addr s)) g g' \<Longrightarrow> refresh_pass env c g g'"
| pass_refresh: "IsValidStore g c = Some s \<Longrightarrow> STORE_FLAG_REFRESHED (m_dwFlags s) \<Longrightarrow>
    fst (CStore_UnmountStore env True s (stg g)) \<Longrightarrow> refresh_one env s g = Some g1 \<Longrightarrow>
    refresh_pass env (next_pointer s_addr (g_pStoreRoot g) (s_addr s)) g1 g' \<Longrightarrow> refresh_pass env c g g'"

lemma refresh_pass_loop: "refresh_pass env c g g' \<Longrightarrow> refresh_loop env c g = Some g'"
proof (induction rule: refresh_pass.induct)
  case (pass_end g)
  then show ?case by (subst refresh_loop.simps) simp
next
  case (pass_over g c s g')
  then show ?case using IsValidStore_in [OF pass_over(1)] by (subst refresh_loop.simps) simp
next
  case (pass_refresh g c s g1 g')
  then show ?case using IsValidStore_in [OF pass_refresh(1)] by (subst refresh_loop.simps) simp
qed

lemma refresh_pass_wf: "refresh_pass env c g g' \<Longrightarrow> mgr_wf g \<Longrightarrow> mgr_wf g'"
proof (induction rule: refresh_pass.induct)
  case (pass_refresh g c s g1 g')
  then show ?case using IsValidStore_in [OF pass_refresh(1)] refresh_one_wf by blast
qed auto

text \<open>Such a pass is what the thread does when the event for updates is set and a refresh was asked for.\<close>

lemma refresh_pass_event:
  assumes "STOREMGR_EVENT_REFRESHSTORE g"
    and "refresh_pass env (head_pointer s_addr (g_pStoreRoot g)) (g\<lparr>g_hPNPUpdateEvent := False\<rparr>) g'"
  shows "\<exists>b'. PNPThread_step env Update_Event (b, g) = Some (b', g')"
  using assms refresh_pass_loop [OF assms(2)] by (simp add: PNPThread_step_def Let_def)

inductive mgr_step :: "'d mgr \<Rightarrow> 'd mgr \<Rightarrow> bool" where
  call: "kernel_passes g c \<Longrightarrow> mgr_step g (run_call env c g)"
| event: "PNPThread_step env ev (b, g) = Some (b', g') \<Longrightarrow> ev \<noteq> Update_Event \<or> \<not> STOREMGR_EVENT_REFRESHSTORE g \<Longrightarrow> mgr_step g g'"
| refresh: "s \<in> set (g_pStoreRoot g) \<Longrightarrow> fst (CStore_UnmountStore env True s (stg g)) \<Longrightarrow>
    refresh_one env s g = Some g' \<Longrightarrow> mgr_step g g'"
| update_pass: "STOREMGR_EVENT_REFRESHSTORE g \<Longrightarrow>
    refresh_pass env (head_pointer s_addr (g_pStoreRoot g)) (g\<lparr>g_hPNPUpdateEvent := False\<rparr>) g' \<Longrightarrow> mgr_step g g'"
| refresh_request: "STRMGR_RefreshStore env name g = Some (r, g') \<Longrightarrow> mgr_step g g'"
| kernel_close: "mgr_step g (g\<lparr>stg := snd (CloseStoreHandle h (stg g))\<rparr>)"
| outside: "mgr_step g (g\<lparr>stg := (stg g)\<lparr>machine := m\<rparr>\<rparr>)"

definition mgr_start :: "'d machine \<Rightarrow> 'd mgr" where
  "mgr_start m =
     \<lparr>g_pStoreRoot = [],
      stg = \<lparr>machine = m, stg_next = 1, handle_heap = (\<lambda>a. None), m_pRootHandle = (\<lambda>a. None),
             g_pRootHandle = [], api_handles = (\<lambda>h. None)\<rparr>,
      STOREMGR_EVENT_UPDATETIMEOUT = False, STOREMGR_EVENT_REFRESHSTORE = False,
      g_hPNPUpdateEvent = False, advertised = []\<rparr>"

inductive mgr_reachable :: "'d mgr \<Rightarrow> bool" where
  start: "mgr_reachable (mgr_start m)"
| step: "mgr_reachable g \<Longrightarrow> mgr_step g g' \<Longrightarrow> mgr_reachable g'"

lemma mgr_step_wf: "mgr_step g g' \<Longrightarrow> mgr_wf g \<Longrightarrow> mgr_wf g'"
proof (induction rule: mgr_step.induct)
  case (kernel_close g h)
  then show ?case using CloseStoreHandle_wf by (simp add: mgr_wf_def)
next
  case (outside g m)
  then show ?case by (simp add: mgr_wf_def)
next
  case (update_pass g env g')
  then show ?case using refresh_pass_wf by (fastforce simp: mgr_wf_def)
qed (auto intro: run_call_wf PNPThread_step_wf refresh_one_wf STRMGR_RefreshStore_wf)

lemma mgr_reachable_wf: "mgr_reachable g \<Longrightarrow> mgr_wf g"
proof (induction rule: mgr_reachable.induct)
  case (start m)
  then show ?case by (simp add: mgr_wf_def mgr_start_def stores_wf_def global_wf_def INVALID_HANDLE_VALUE_def)
qed (rule mgr_step_wf)

end
