(* ===== verification/Store_Demo.thy ===== *)
theory Store_Demo
  imports Store_Invariant
begin

text \<open>
  A small system for the examples: one kind of device of 1000 sectors, whose partition driver shows
  one partition, as the null driver does, and lets it be deleted; a registry with the module of the
  default file system; a file system that starts and ends without errors.
\<close>

definition demo_disk :: DISK_INFO where
  "demo_disk = zero_disk_info\<lparr>di_total_sectors := 1000, di_bytes_per_sect := 512\<rparr>"

definition demo_machine :: "unit machine" where
  "demo_machine =
     \<lparr>mc_error = 0, mc_tick = 0, mc_next = 1, mc_searches = (\<lambda>s. None),
      mc_registry = (\<lambda>k. if k = g_szPROFILE_PATH then Some (\<lambda>v. None)
                          else if k = sub_path g_szSTORAGE_PATH ''FATFS''
                          then Some (\<lambda>v. if v = ''Dll'' then Some (REG_SZ ''fatfsd.dll'') else None)
                          else None),
      device = ()\<rparr>"

definition demo_ioctl :: "nat \<Rightarrow> io_code \<Rightarrow> io_request \<Rightarrow> unit machine \<Rightarrow> bool \<times> io_answer \<times> unit machine" where
  "demo_ioctl h code req m =
     (if code = IOCTL_DISK_GETINFO \<or> code = DISK_IOCTL_GETINFO then (True, Disk_Geometry demo_disk, m)
      else (False, No_Answer, put_error ERROR_NOT_SUPPORTED m))"

definition demo_system :: "unit pd_module option \<Rightarrow> unit stg_env" where
  "demo_system d =
     \<lparr>refuse = (\<lambda>t. False), DEVICENAMESIZE = 8, FOLDERNAMESIZE = 32, PARTITIONNAMESIZE = 32,
      STORENAMESIZE = 32, FILESYSNAMESIZE = 32, VOLUMENAMESIZE = 64, uninitialized_id = (0, []),
      os_CreateFile = (\<lambda>name rw m. (77, m)), os_CloseHandle = (\<lambda>h m. m), os_DeviceIoControl = demo_ioctl,
      os_CreateEvent = (\<lambda>name m. (78, m)), os_LoadPartDriver = (\<lambda>name. d),
      os_LoadFSD = (\<lambda>name. name = ''fatfsd.dll''), asks_for_disk = (\<lambda>name. False),
      os_OpenBlockDevice = (\<lambda>path m. (79, m)), hal_query_format = (\<lambda>si pi f. False),
      fsd_InitEx = (\<lambda>fid m. (Some \<lparr>dsk_id = fid_hDsk fid, pVol = Some \<lparr>VOL_DETACHED = False, wsVol = fid_szDiskName fid\<rparr>\<rparr>, m)),
      fsd_DeinitEx = (\<lambda>dsk m. (True, m)), sg_view = (\<lambda>code b. (1, 1)), sizeof_SG_REQ = 36, sizeof_CDROM_READ = 28,
      trusted_caller = True, current_process = 2\<rparr>"

definition demo_base :: "unit stg_env" where
  "demo_base = demo_system None"

definition demo_driver :: "unit CPartDriver" where
  "demo_driver = (null_driver demo_base)\<lparr>m_pDeletePartition := (\<lambda>sid name m. (Some ERROR_SUCCESS, m))\<rparr>"

definition demo_env :: "unit stg_env" where
  "demo_env = demo_system (Some (required_exports, demo_driver))"


lemma demo_env_simps [simp]:
  "refuse demo_env = (\<lambda>t. False)" "DEVICENAMESIZE demo_env = 8" "FOLDERNAMESIZE demo_env = 32" "PARTITIONNAMESIZE demo_env = 32"
  "STORENAMESIZE demo_env = 32" "FILESYSNAMESIZE demo_env = 32" "os_CreateFile demo_env = (\<lambda>name rw m. (77, m))"
  "os_CloseHandle demo_env = (\<lambda>h m. m)" "os_DeviceIoControl demo_env = demo_ioctl"
  "os_LoadFSD demo_env = (\<lambda>name. name = ''fatfsd.dll'')" "asks_for_disk demo_env = (\<lambda>name. False)"
  "hal_query_format demo_env = (\<lambda>si pi f. False)" "fsd_DeinitEx demo_env = (\<lambda>dsk m. (True, m))"
  "fsd_InitEx demo_env = (\<lambda>fid m. (Some \<lparr>dsk_id = fid_hDsk fid, pVol = Some \<lparr>VOL_DETACHED = False, wsVol = fid_szDiskName fid\<rparr>\<rparr>, m))"
  "trusted_caller demo_env" "current_process demo_env = 2" 
  by (simp_all add: demo_env_def demo_system_def)

lemma allocate_demo [simp]: "alloc_object demo_env m = (True, m\<lparr>mc_tick := mc_tick m + 1\<rparr>)"
  by (simp add: alloc_object_def)

definition demo_opened :: "nat \<Rightarrow> unit CStore" where
  "demo_opened a = (CStore_new demo_env a ''DSK1:'')\<lparr>m_hDisk := 77, m_di := demo_disk, m_sdi := default_device_info no_device_info\<rparr>"

lemma demo_open:
  "OpenDisk demo_env (CStore_new demo_env a ''DSK1:'') m = (0, (demo_opened a), put_error ERROR_NOT_SUPPORTED m)"
  by (simp add: OpenDisk_def open_device_def read_geometry_def read_device_info_def read_storage_id_def store_request_def
    CStore_DeviceIoControl_def IsValidPartition_def map_request_def InternalStoreIoControl_def demo_ioctl_def CStore_new_def
    demo_opened_def stg_error_defs put_error_def GetDriverError_def INVALID_HANDLE_VALUE_def Let_def default_device_info_def)

text \<open>Only the registry matters for the settings.\<close>

definition demo_like :: "unit machine \<Rightarrow> bool" where
  "demo_like m \<longleftrightarrow> mc_registry m = mc_registry demo_machine"

lemma demo_registry:
  assumes "demo_like m"
  shows "FsdRegOpenKey m g_szPROFILE_PATH = Some g_szPROFILE_PATH"
    "FsdRegOpenKey m (bounded_copy MAX_PATH (sub_path g_szPROFILE_PATH x)) = None"
    "FsdGetRegistryValue m (Some g_szPROFILE_PATH) v = None"
    "FsdGetRegistryString m (Some g_szPROFILE_PATH) v n = None"
    "FsdGetRegistryValue m None v = None" "FsdGetRegistryString m None v n = None"
  using assms
  by (simp_all add: demo_like_def FsdRegOpenKey_def demo_machine_def FsdGetRegistryValue_def FsdGetRegistryString_def
    RegQueryValueEx_def bounded_copy_def MAX_PATH_def sub_path_def g_szPROFILE_PATH_def g_szSTORAGE_PATH_def)

definition demo_set :: "nat \<Rightarrow> unit CStore" where
  "demo_set a = (demo_opened a)\<lparr>m_szPartDriverName := ''mspart'', m_szPartDriver := ''mspart.dll'',
     m_szRootRegKey := bounded_copy MAX_PATH (sub_path g_szPROFILE_PATH ''Default''),
     m_dwFlags := new_store_flags\<lparr>STORE_ATTRIBUTE_AUTOMOUNT := True, STORE_FLAG_ACTIVITYTIMER := True\<rparr>\<rparr>"

lemma demo_mount_flags:
  assumes "demo_like m"
  shows "GetMountSettings m (Some g_szPROFILE_PATH) f = f" "GetMountSettings m None f = f"
  using assms
  by (simp_all add: demo_registry GetMountSettings_def mount_flag_names_def load_mount_flag_def FsdLoadFlag_def)

lemma demo_name: "generated_name ''mspart.dll'' = (''mspart'', ''mspart.dll'')"
  by (simp add: generated_name_def)

lemma demo_driver:
  assumes "demo_like m"
  shows "GetPartitionDriver m (Some g_szPROFILE_PATH) None s = s\<lparr>m_szPartDriverName := ''mspart'', m_szPartDriver := ''mspart.dll''\<rparr>"
  using assms
  by (simp add: GetPartitionDriver_def demo_registry driver_choice_def g_szDEFAULT_PARTITION_DRIVER_def demo_name)

lemma demo_settings:
  assumes "demo_like m"
  shows "GetStoreSettings demo_env m (demo_opened a) = (demo_set a)"
proof -
  have "FsdRegOpenKey m (bounded_copy MAX_PATH (sub_path g_szPROFILE_PATH (szProfile (m_sdi (demo_opened a))))) = None"
    by (rule demo_registry(2) [OF assms])
  then show ?thesis
    using assms
    by (simp add: GetStoreSettings_def demo_registry(1,3,4) demo_mount_flags demo_driver demo_set_def in_profile_def load_field_def
      demo_opened_def CStore_new_def new_store_flags_def Let_def default_device_info_def
      g_szDEFAULT_ACTIVITY_NAME_def)
qed

definition demo_info :: PD_STOREINFO where
  "demo_info = zero_storeinfo\<lparr>si_dwBytesPerSector := 512, si_snNumSectors := 1000\<rparr>"

definition demo_driven :: "nat \<Rightarrow> unit CStore" where
  "demo_driven a = (demo_set a)\<lparr>m_pPartDriver := Some demo_driver, m_dwStoreId := 77\<rparr>"

lemma demo_open_driver:
  "open_driver demo_env (demo_set a) m = (0, demo_driven a, m\<lparr>mc_tick := mc_tick m + 1\<rparr>)"
proof -
  have l: "LoadPartitionDriver demo_env ''mspart.dll'' = (0, demo_driver\<lparr>m_pSetPartitionSize := null_SetPartitionSize\<rparr>)"
    by (simp add: LoadPartitionDriver_def demo_env_def demo_system_def required_exports_def ERROR_SUCCESS_def)
  have d: "demo_driver\<lparr>m_pSetPartitionSize := null_SetPartitionSize\<rparr> = demo_driver"
    by (simp add: demo_driver_def null_driver_def)
  have o: "drv_OpenStore demo_driver h sid m = (0, h, m)" for h sid m
    by (simp add: drv_OpenStore_def demo_driver_def null_driver_def null_OpenStore_def caught_def ERROR_SUCCESS_def)
  have "m_szPartDriver (demo_set a) = ''mspart.dll''" "m_hDisk (demo_set a) = 77" by (simp_all add: demo_set_def demo_opened_def)
  then show ?thesis
    by (simp add: open_driver_def l d disk_callback_def o stg_error_defs demo_driven_def)
qed

lemma demo_geometry: "null_geometry demo_base h m = (demo_disk, m)"
  by (simp add: null_geometry_def demo_base_def demo_system_def demo_ioctl_def)

lemma demo_base_alloc: "alloc_object demo_base m = (True, m\<lparr>mc_tick := mc_tick m + 1\<rparr>)"
  by (simp add: alloc_object_def demo_base_def demo_system_def)

lemmas demo_null =
  demo_driver_def demo_base_alloc null_driver_def caught_def demo_geometry null_GetStoreInfo_def null_IsStoreFormatted_def null_FindPartitionStart_def
  null_FindPartitionNext_def null_FindPartitionClose_def null_OpenPartition_def null_GetPartitionInfo_def
  drv_GetStoreInfo_def drv_IsStoreFormatted_def drv_FindPartitionStart_def drv_FindPartitionNext_def drv_FindPartitionClose_def
  drv_OpenPartition_def drv_GetPartitionInfo_def

lemma demo_driver_of: "m_pPartDriver s = m_pPartDriver (demo_driven a) \<Longrightarrow> driver_of demo_env s = demo_driver"
  by (simp add: driver_of_def demo_driven_def)

lemma demo_count:
  "GetPartitionCount demo_env ((demo_driven a)\<lparr>m_si := demo_info\<rparr>) m =
     Some ((demo_driven a)\<lparr>m_si := demo_info, m_dwPartCount := 1\<rparr>,
       m\<lparr>mc_tick := mc_tick m + 1, mc_next := mc_next m + 1, mc_searches := (mc_searches m)(mc_next m := None)\<rparr>)"
proof -
  have "count_loop demo_driver (mc_next m) 0
      (m\<lparr>mc_tick := mc_tick m + 1, mc_next := mc_next m + 1, mc_searches := (mc_searches m)(mc_next m \<mapsto> 77)\<rparr>) =
      Some (1, m\<lparr>mc_tick := mc_tick m + 1, mc_next := mc_next m + 1, mc_searches := (mc_searches m)(mc_next m \<mapsto> 0)\<rparr>)"
    by (subst count_loop.simps, subst count_loop.simps) (simp add: demo_null stg_error_defs add32_def)
  then show ?thesis
    by (simp add: GetPartitionCount_def driver_of_def demo_driven_def demo_null stg_error_defs Let_def del: One_nat_def)
qed

text \<open>The only partition, whether mounted or not.\<close>

definition demo_partinfo :: PD_PARTINFO where
  "demo_partinfo = zero_partinfo\<lparr>pi_snNumSectors := 1000, pi_bPartType := 4\<rparr>"

definition demo_part :: "nat \<Rightarrow> CPartition" where
  "demo_part p = (CPartition_new demo_env p 77 77 g_szDEFAULT_FOLDER_NAME)\<lparr>m_szPartitionName := ''PART00'', m_pi := demo_partinfo\<rparr>"

lemma demo_load_part:
  "CPartition_LoadPartition demo_env demo_driver ''PART00'' (CPartition_new demo_env p 77 77 g_szDEFAULT_FOLDER_NAME) m =
     (demo_part p, m)"
  by (simp add: CPartition_LoadPartition_def demo_null demo_part_def demo_partinfo_def CPartition_new_def demo_disk_def bounded_copy_def)

lemma demo_open_part: "drv_OpenPartition demo_driver sid name pid m = (ERROR_SUCCESS, sid, m)"
  by (simp add: demo_null)

definition demo_counted :: "nat \<Rightarrow> unit CStore" where
  "demo_counted a = (demo_driven a)\<lparr>m_si := demo_info, m_dwPartCount := 1\<rparr>"

lemma demo_counted_simps [simp]:
  "driver_of demo_env (demo_counted a) = demo_driver" "m_dwStoreId (demo_counted a) = 77" "s_addr (demo_counted a) = a"
  "s_szFolderName (demo_counted a) = g_szDEFAULT_FOLDER_NAME" "STORE_ATTRIBUTE_AUTOMOUNT (m_dwFlags (demo_counted a))"
  "m_pPartitionList (demo_counted a) = []" "m_dwMountCount (demo_counted a) = 0"
  "m_szRootRegKey (demo_counted a) = bounded_copy MAX_PATH (sub_path g_szPROFILE_PATH ''Default'')"
  "m_szDefaultFileSystem (demo_counted a) = g_szDEFAULT_FILESYSTEM" "s_dwMountFlags (demo_counted a) = 0"
  "m_hActivityEvent (demo_counted a) = 0"
  by (simp_all add: demo_counted_def demo_driven_def demo_set_def demo_opened_def CStore_new_def driver_of_def new_store_flags_def)

text \<open>Loading it without mounting.\<close>

lemma demo_load_unmounted:
  assumes "stg_next st < INVALID_HANDLE_VALUE"
  shows "CStore_LoadPartition demo_env ''PART00'' False f (demo_counted a) st =
    (True, (demo_counted a)\<lparr>m_pPartitionList := [demo_part (stg_next st)]\<rparr>,
     st\<lparr>machine := (machine st)\<lparr>mc_tick := mc_tick (machine st) + 1\<rparr>, stg_next := stg_next st + 1\<rparr>)"
  using assms
  by (simp add: CStore_LoadPartition_def demo_open_part new_object_def on_machine_def demo_load_part
    CStore_AddPartition_def)

definition demo_root :: string where
  "demo_root = bounded_copy MAX_PATH (sub_path g_szPROFILE_PATH ''Default'')"

definition demo_dsk :: "nat \<Rightarrow> DSK" where
  "demo_dsk p = \<lparr>dsk_id = p, pVol = Some \<lparr>VOL_DETACHED = False, wsVol = ''PART00''\<rparr>\<rparr>"

definition demo_mounted_part :: "nat \<Rightarrow> nat \<Rightarrow> CPartition" where
  "demo_mounted_part p h =
     (demo_part p)\<lparr>m_hPartition := h, m_szRootKey := demo_root, m_szFileSys := ''FATFS'',
       m_szModuleName := ''fatfsd.dll'', m_szFriendlyName := ''fatfsd.dll'', m_hFSD := Some ''fatfsd.dll'',
       m_pDsk := Some (demo_dsk p), PARTITION_ATTRIBUTE_MOUNTED := True\<rparr>"

lemma demo_registry_file_system:
  assumes "demo_like m"
  shows "FsdRegOpenKey m (bounded_copy MAX_PATH (sub_path demo_root x)) = None"
    "FsdRegOpenKey m demo_root = None"
    "FsdRegOpenKey m (bounded_copy MAX_PATH (sub_path g_szSTORAGE_PATH ''PartitionTable'')) = None"
    "FsdRegOpenKey m (bounded_copy MAX_PATH (sub_path g_szSTORAGE_PATH ''FATFS'')) = Some (sub_path g_szSTORAGE_PATH ''FATFS'')"
    "FsdGetRegistryString m (Some (sub_path g_szSTORAGE_PATH ''FATFS'')) ''Dll'' MAX_PATH = Some ''fatfsd.dll''"
  using assms
  by (simp_all add: demo_root_def demo_like_def FsdRegOpenKey_def demo_machine_def FsdGetRegistryString_def
    RegQueryValueEx_def bounded_copy_def MAX_PATH_def sub_path_def g_szPROFILE_PATH_def g_szSTORAGE_PATH_def)

lemma demo_root_copy: "bounded_copy MAX_PATH demo_root = demo_root"
  by (simp add: demo_root_def bounded_copy_def)

lemma demo_mount_settings:
  assumes "demo_like m"
  shows "mount_settings demo_env m demo_root g_szDEFAULT_FILESYSTEM 0 ((demo_part p)\<lparr>m_hPartition := h\<rparr>) =
    (False, (demo_part p)\<lparr>m_hPartition := h, m_szRootKey := demo_root, m_szFileSys := ''FATFS''\<rparr>)"
  by (simp add: mount_settings_def demo_root_copy Let_def file_system_of_def override_folder_def demo_registry(5,6) [OF assms]
      demo_registry_file_system(1-3) [OF assms] g_szDEFAULT_FILESYSTEM_def bounded_copy_def [of 32] demo_part_def CPartition_new_def)

lemma demo_fsd_strings:
  assumes "demo_like m" "m_szRootKey p = demo_root" "m_szFileSys p = ''FATFS''"
  shows "GetFSDString m p ''Dll'' MAX_PATH = (True, ''fatfsd.dll'')"
  using assms by (simp add: GetFSDString_def query_fsd_def demo_registry_file_system)

lemma demo_mount_part:
  assumes "demo_like m"
  shows "CPartition_MountPartition demo_env demo_driver si h demo_root g_szDEFAULT_FILESYSTEM 0 0 f (demo_part p) m =
    (True, demo_mounted_part p h, m)"
  by (simp add: CPartition_MountPartition_def demo_mount_settings [OF assms] start_file_system_def demo_fsd_strings [OF assms]
      demo_mounted_part_def demo_dsk_def)
     (simp add: demo_part_def CPartition_new_def bounded_copy_def MAX_PATH_def)

definition demo_handle :: "nat \<Rightarrow> nat \<Rightarrow> CStoreHandle" where
  "demo_handle a p =
     \<lparr>dwSig = PART_HANDLE_SIG, h_pStore = Addr a, h_pPartition = Addr p, h_hProc = 2,
      STOREHANDLE_TYPE_SEARCH = False, STOREHANDLE_TYPE_CURRENT = False, STOREHANDLE_TYPE_INTERNAL = True\<rparr>"

lemma demo_load_mounted:
  assumes m: "demo_like (machine st)" and n: "stg_next st = p" "p + 2 < INVALID_HANDLE_VALUE" and r: "m_pRootHandle st a = Some []"
  shows "CStore_LoadPartition demo_env ''PART00'' True f (demo_counted a) st =
    (True, (demo_counted a)\<lparr>m_pPartitionList := [demo_mounted_part p (p + 2)], m_dwMountCount := 1\<rparr>,
     st\<lparr>machine := (machine st)\<lparr>mc_tick := mc_tick (machine st) + 3\<rparr>, stg_next := p + 3,
        handle_heap := (handle_heap st)(p + 1 \<mapsto> demo_handle a p), m_pRootHandle := (m_pRootHandle st)(a \<mapsto> [p + 1]),
        api_handles := (api_handles st)(p + 2 \<mapsto> (STRG, p + 1))\<rparr>)"
proof -
  let ?s = "(demo_counted a)\<lparr>m_pPartitionList := [demo_part p]\<rparr>"
  let ?st = "st\<lparr>stg_next := p + 1, machine := (machine st)\<lparr>mc_tick := mc_tick (machine st) + 1\<rparr>\<rparr>"
  let ?st2 = "st\<lparr>machine := (machine st)\<lparr>mc_tick := mc_tick (machine st) + 3\<rparr>, stg_next := p + 3,
        handle_heap := (handle_heap st)(p + 1 \<mapsto> demo_handle a p), m_pRootHandle := (m_pRootHandle st)(a \<mapsto> [p + 1]),
        api_handles := (api_handles st)(p + 2 \<mapsto> (STRG, p + 1))\<rparr>"
  have part: "p_addr (demo_part p) = p" "m_szPartitionName (demo_part p) = ''PART00''" "p_addr (demo_mounted_part p h) = p" for h
    by (simp_all add: demo_part_def demo_mounted_part_def CPartition_new_def)
  have find: "CStore_FindPartition ?s ''PART00'' = Some (demo_part p)"
    by (simp add: CStore_FindPartition_def part wcsicmp_equal_def)
  have opn: "CStore_OpenPartition demo_env ?s ''PART00'' 2 ?st = (ERROR_SUCCESS, p + 2, ?st2)"
    using n r by (simp add: CStore_OpenPartition_def find new_handle_object_def new_object_def on_machine_def
      put_store_handles_def handles_of_def AddHandleToList_def CreateAPIHandle_def partition_handle_def demo_handle_def part)
  have like: "demo_like (machine ?st2)" using m by (simp add: demo_like_def)
  have mnt: "mount_at demo_env ''PART00'' f (demo_part p) ?s ?st =
      (True, ?s\<lparr>m_pPartitionList := [demo_mounted_part p (p + 2)], m_dwMountCount := 1\<rparr>, ?st2)"
  proof -
    have drv: "driver_of demo_env ?s = demo_driver" using demo_counted_simps(1) by (simp add: driver_of_def)
    have proc: "current_process demo_env = 2" by simp
    note mp = demo_mount_part [OF like, of "CStore_GetStoreInfo ?s" "p + 2" f p]
    have settings: "m_szRootRegKey ?s = demo_root" "m_szDefaultFileSystem ?s = g_szDEFAULT_FILESYSTEM" "s_dwMountFlags ?s = 0"
      "m_hActivityEvent ?s = 0" by (simp_all add: demo_root_def)
    show ?thesis
      unfolding mount_at_def proc opn prod.case Let_def drv settings mp
      by (simp add: put_partition_def part add32_def)
  qed
  show ?thesis
    using n mnt by (simp add: CStore_LoadPartition_def demo_open_part new_object_def on_machine_def
      demo_load_part CStore_AddPartition_def)
qed

text \<open>Mounting the whole store; the devices that are shown again are not mounted yet.\<close>

definition demo_store :: "nat \<Rightarrow> unit CStore" where
  "demo_store a = (demo_counted a)\<lparr>m_dwFlags := (m_dwFlags (demo_counted a))\<lparr>STORE_FLAG_MOUNTED := True\<rparr>\<rparr>"

lemma demo_store_simps [simp]:
  "m_szDeviceName (demo_store a) = ''DSK1:''" "s_addr (demo_store a) = a" "m_pPartitionList (demo_store a) = []"
  "m_dwMountCount (demo_store a) = 0" "driver_of demo_env (demo_store a) = demo_driver" "m_dwStoreId (demo_store a) = 77"
  "\<not> STORE_FLAG_DETACHED (m_dwFlags (demo_store a))"
  by (simp_all add: demo_store_def demo_counted_def demo_driven_def demo_set_def demo_opened_def CStore_new_def bounded_copy_def
    driver_of_def new_store_flags_def)

lemma demo_part_simps [simp]:
  "p_addr (demo_part p) = p" "m_szPartitionName (demo_part p) = ''PART00''" "\<not> PARTITION_ATTRIBUTE_MOUNTED (demo_part p)"
  "m_pi (demo_part p) = demo_partinfo" "p_addr (demo_mounted_part p h) = p" "m_szPartitionName (demo_mounted_part p h) = ''PART00''"
  "PARTITION_ATTRIBUTE_MOUNTED (demo_mounted_part p h)" "m_pi (demo_mounted_part p h) = demo_partinfo"
  "m_hPartition (demo_mounted_part p h) = h" "m_pDsk (demo_mounted_part p h) = Some (demo_dsk p)"
  "p_dwMountFlags (demo_mounted_part p h) = 0"
  by (simp_all add: demo_part_def demo_mounted_part_def CPartition_new_def)

lemma demo_refresh:
  assumes "driver_of demo_env s = demo_driver"
  shows "refresh_info demo_env s m = (s\<lparr>m_si := demo_info\<rparr>, m)"
  using assms by (simp add: refresh_info_def demo_null demo_info_def demo_disk_def)

lemma demo_driven_simps [simp]:
  "driver_of demo_env (demo_driven a) = demo_driver" "m_dwStoreId (demo_driven a) = 77"
  "m_szActivityName (demo_driven a) = []" "m_dwFlags ((demo_driven a)\<lparr>m_si := i, m_dwPartCount := n\<rparr>) = m_dwFlags (demo_driven a)"
  by (simp_all add: demo_driven_def demo_set_def demo_opened_def CStore_new_def driver_of_def g_szDEFAULT_ACTIVITY_NAME_def)

lemma demo_formatted: "drv_IsStoreFormatted demo_driver sid m = (ERROR_SUCCESS, m)"
  by (simp add: demo_null)

lemma demo_find_partition:
  "drv_FindPartitionStart demo_driver 77 0 m =
     (ERROR_SUCCESS, mc_next m,
      m\<lparr>mc_tick := mc_tick m + 1, mc_next := mc_next m + 1, mc_searches := (mc_searches m)(mc_next m \<mapsto> 77)\<rparr>)"
  "mc_searches m x = Some 77 \<Longrightarrow> drv_FindPartitionNext demo_driver x i m =
     (ERROR_SUCCESS, demo_partinfo\<lparr>szPartitionName := ''PART00''\<rparr>, m\<lparr>mc_searches := (mc_searches m)(x \<mapsto> 0)\<rparr>)"
  "mc_searches m x = Some 0 \<Longrightarrow> drv_FindPartitionNext demo_driver x i m = (ERROR_NO_MORE_FILES, i, m)"
  by (simp_all add: demo_null demo_partinfo_def demo_disk_def zero_partinfo_def)

lemma demo_load_loop:
  assumes d: "driver_of demo_env s = demo_driver" and m: "mc_searches (machine st) x = Some 77"
    and l: "CStore_LoadPartition demo_env ''PART00'' mnt f s
              (st\<lparr>machine := (machine st)\<lparr>mc_searches := (mc_searches (machine st))(x \<mapsto> 0)\<rparr>\<rparr>) = (b, s', st')"
    and d': "driver_of demo_env s' = demo_driver" and m': "mc_searches (machine st') x = Some 0"
  shows "load_loop demo_env x mnt f s st = Some (s', st')"
proof -
  have step: "load_loop demo_env x mnt f s' st' = Some (s', st')"
    by (subst load_loop.simps) (simp add: d' demo_find_partition(3) [OF m'] stg_error_defs)
  show ?thesis
    by (subst load_loop.simps) (simp add: d demo_find_partition(2) [OF m] step l)
qed

text \<open>What has to be known of loading the one partition.\<close>

lemma demo_load_store:
  assumes m: "demo_like (machine st)"
    and l: "\<And>m f. demo_like m \<Longrightarrow> \<exists>n. CStore_LoadPartition demo_env ''PART00'' mnt f (demo_counted a) (st\<lparr>machine := m\<rparr>) =
              (True, (demo_counted a)\<lparr>m_pPartitionList := ps, m_dwMountCount := k\<rparr>, st'\<lparr>machine := m\<lparr>mc_tick := n\<rparr>\<rparr>)"
  shows "\<exists>m. demo_like m \<and> load_store demo_env mnt (demo_driven a) st =
           Some ((demo_store a)\<lparr>m_pPartitionList := ps, m_dwMountCount := k\<rparr>, st'\<lparr>machine := m\<rparr>)"
proof -
  let ?m = "(machine st)\<lparr>mc_tick := mc_tick (machine st) + 1, mc_next := mc_next (machine st) + 1,
              mc_searches := (mc_searches (machine st))(mc_next (machine st) := None)\<rparr>"
  let ?x = "mc_next ?m"
  let ?m2 = "?m\<lparr>mc_tick := mc_tick ?m + 1, mc_next := ?x + 1, mc_searches := (mc_searches ?m)(?x \<mapsto> 77)\<rparr>"
  let ?m3 = "?m2\<lparr>mc_searches := (mc_searches ?m2)(?x \<mapsto> 0)\<rparr>"
  have like: "demo_like ?m3" using m by (simp add: demo_like_def)
  obtain n where n: "CStore_LoadPartition demo_env ''PART00'' mnt False (demo_counted a) (st\<lparr>machine := ?m3\<rparr>) =
      (True, (demo_counted a)\<lparr>m_pPartitionList := ps, m_dwMountCount := k\<rparr>, st'\<lparr>machine := ?m3\<lparr>mc_tick := n\<rparr>\<rparr>)"
    using l [OF like] by blast
  have "load_loop demo_env ?x mnt False (demo_counted a) (st\<lparr>machine := ?m2\<rparr>) =
      Some ((demo_counted a)\<lparr>m_pPartitionList := ps, m_dwMountCount := k\<rparr>, st'\<lparr>machine := ?m3\<lparr>mc_tick := n\<rparr>\<rparr>)"
    by (rule demo_load_loop) (use n demo_counted_simps(1) in \<open>simp_all add: driver_of_def\<close>)
  then have load: "LoadExistingPartitions demo_env mnt False (demo_counted a) (st\<lparr>machine := ?m\<rparr>) =
      Some ((demo_counted a)\<lparr>m_pPartitionList := ps, m_dwMountCount := k\<rparr>,
            st'\<lparr>machine := drv_FindPartitionClose demo_driver ?x (?m3\<lparr>mc_tick := n\<rparr>)\<rparr>)"
  proof -
    have "driver_of demo_env ((demo_counted a)\<lparr>m_pPartitionList := ps, m_dwMountCount := k\<rparr>) = demo_driver"
      using demo_counted_simps(1) by (simp add: driver_of_def)
    with \<open>load_loop _ _ _ _ _ _ = _\<close> show ?thesis by (simp add: LoadExistingPartitions_def demo_find_partition(1))
  qed
  have auto: "auto_format demo_env ((demo_driven a)\<lparr>m_si := demo_info\<rparr>) m = ((demo_driven a)\<lparr>m_si := demo_info\<rparr>, m)" for m
    using demo_driven_simps(1) by (simp add: auto_format_def driver_of_def demo_formatted)
  have "load_store demo_env mnt (demo_driven a) st =
      Some ((demo_store a)\<lparr>m_pPartitionList := ps, m_dwMountCount := k\<rparr>,
        st'\<lparr>machine := drv_FindPartitionClose demo_driver ?x (?m3\<lparr>mc_tick := n\<rparr>)\<rparr>)"
  proof -
    have 1: "create_activity_event demo_env (demo_driven a) (machine st) = (demo_driven a, machine st)"
      by (simp add: create_activity_event_def)
    have d: "driver_of demo_env ((demo_driven a)\<lparr>m_si := demo_info\<rparr>) = demo_driver"
      using demo_driven_simps(1) by (simp add: driver_of_def)
    have c: "(demo_driven a)\<lparr>m_si := demo_info, m_dwPartCount := 1\<rparr> = demo_counted a" by (simp add: demo_counted_def)
    have p: "auto_partition demo_env (demo_counted a) m = (False, demo_counted a, m)" for m
      by (simp add: auto_partition_def demo_counted_def)
    have flags: "m_dwFlags ((demo_counted a)\<lparr>m_pPartitionList := ps, m_dwMountCount := k\<rparr>) = m_dwFlags (demo_counted a)" by simp
    show ?thesis
      unfolding load_store_def Let_def 1 prod.case demo_refresh [OF demo_driven_simps(1)] auto d demo_formatted
        demo_count option.case c p load
      by (simp add: load demo_store_def)
  qed
  moreover have "demo_like (drv_FindPartitionClose demo_driver ?x (?m3\<lparr>mc_tick := n\<rparr>))"
    using m by (simp add: demo_like_def demo_null)
  ultimately show ?thesis by blast
qed

lemma demo_MountStore:
  assumes m: "demo_like (machine st)"
    and l: "\<And>m f. demo_like m \<Longrightarrow> \<exists>n. CStore_LoadPartition demo_env ''PART00'' mnt f (demo_counted a) (st\<lparr>machine := m\<rparr>) =
              (True, (demo_counted a)\<lparr>m_pPartitionList := ps, m_dwMountCount := k\<rparr>, st'\<lparr>machine := m\<lparr>mc_tick := n\<rparr>\<rparr>)"
  shows "\<exists>m. demo_like m \<and> CStore_MountStore demo_env mnt (CStore_new demo_env a ''DSK1:'') st =
           Some (ERROR_SUCCESS, (demo_store a)\<lparr>m_pPartitionList := ps, m_dwMountCount := k\<rparr>, st'\<lparr>machine := m\<rparr>)"
proof -
  let ?m1 = "put_error ERROR_NOT_SUPPORTED (machine st)"
  let ?m2 = "?m1\<lparr>mc_tick := mc_tick ?m1 + 1\<rparr>"
  have like: "demo_like ?m1" "demo_like (machine (st\<lparr>machine := ?m2\<rparr>))" using m by (simp_all add: demo_like_def put_error_def)
  have "\<exists>n. CStore_LoadPartition demo_env ''PART00'' mnt f (demo_counted a) ((st\<lparr>machine := ?m2\<rparr>)\<lparr>machine := m\<rparr>) =
      (True, (demo_counted a)\<lparr>m_pPartitionList := ps, m_dwMountCount := k\<rparr>, st'\<lparr>machine := m\<lparr>mc_tick := n\<rparr>\<rparr>)"
    if "demo_like m" for m f using l [OF that, of f] by simp
  from demo_load_store [OF like(2) this] obtain m where m: "demo_like m"
    "load_store demo_env mnt (demo_driven a) (st\<lparr>machine := ?m2\<rparr>) =
       Some ((demo_store a)\<lparr>m_pPartitionList := ps, m_dwMountCount := k\<rparr>, st'\<lparr>machine := m\<rparr>)" by blast
  have "CStore_MountStore demo_env mnt (CStore_new demo_env a ''DSK1:'') st =
      Some (ERROR_SUCCESS, (demo_store a)\<lparr>m_pPartitionList := ps, m_dwMountCount := k\<rparr>, st'\<lparr>machine := m\<rparr>)"
    unfolding CStore_MountStore_def Let_def demo_open prod.case demo_settings [OF like(1)] demo_open_driver
    using m(2) by (simp add: ERROR_SUCCESS_def)
  with m(1) show ?thesis by blast
qed

definition demo_first :: "unit machine \<Rightarrow> unit mgr" where
  "demo_first m =
     (mgr_start m)\<lparr>
       g_pStoreRoot := [(demo_store 1)\<lparr>m_pPartitionList := [demo_mounted_part 2 4], m_dwMountCount := 1\<rparr>],
       stg := \<lparr>machine = m, stg_next = 5, handle_heap = [3 \<mapsto> demo_handle 1 2], m_pRootHandle = [1 \<mapsto> [3]],
               g_pRootHandle = [], api_handles = [4 \<mapsto> (STRG, 3)]\<rparr>,
       advertised := [(''DSK1:'', True)]\<rparr>"

text \<open>The device appears.\<close>

lemma demo_appears:
  obtains m where "demo_like m"
    "PNPThread_step demo_env (Device_Message True ''DSK1:'') (False, mgr_start demo_machine) = Some (False, demo_first m)"
proof -
  define st0 where "st0 = (stg (mgr_start demo_machine))\<lparr>machine := demo_machine\<lparr>mc_tick := 1\<rparr>, stg_next := 2\<rparr>"
  define st1 where "st1 = st0\<lparr>m_pRootHandle := [1 \<mapsto> []]\<rparr>"
  define st2 where "st2 = st1\<lparr>stg_next := 5, handle_heap := [3 \<mapsto> demo_handle 1 2], m_pRootHandle := [1 \<mapsto> [3]],
    api_handles := [4 \<mapsto> (STRG, 3)]\<rparr>"
  have n: "new_object demo_env (stg (mgr_start demo_machine)) = (Some 1, st0)"
    by (simp add: new_object_def on_machine_def mgr_start_def st0_def demo_machine_def INVALID_HANDLE_VALUE_def)
  have like: "demo_like (machine st1)" by (simp add: st1_def st0_def demo_like_def)
  have "\<exists>n. CStore_LoadPartition demo_env ''PART00'' True f (demo_counted 1) (st1\<lparr>machine := m\<rparr>) =
      (True, (demo_counted 1)\<lparr>m_pPartitionList := [demo_mounted_part 2 4], m_dwMountCount := 1\<rparr>, st2\<lparr>machine := m\<lparr>mc_tick := n\<rparr>\<rparr>)"
    if "demo_like m" for m f
    using demo_load_mounted [of "st1\<lparr>machine := m\<rparr>" 2 1 f] that
    by (intro exI [of _ "mc_tick m + 3"]) (simp add: st1_def st0_def st2_def mgr_start_def INVALID_HANDLE_VALUE_def)
  from demo_MountStore [OF like this] obtain m where m: "demo_like m"
    "CStore_MountStore demo_env True (CStore_new demo_env 1 ''DSK1:'') st1 =
       Some (ERROR_SUCCESS, (demo_store 1)\<lparr>m_pPartitionList := [demo_mounted_part 2 4], m_dwMountCount := 1\<rparr>, st2\<lparr>machine := m\<rparr>)"
    by blast
  have "MountStore demo_env ''DSK1:'' (mgr_start demo_machine) = Some (True, demo_first m)"
    using m(2) n by (simp add: MountStore_def FindStore_def AddStore_def mgr_start_def st1_def st0_def st2_def put_store_def
      advertise_def demo_first_def CStore_new_def)
  then show ?thesis using that [OF m(1)] by (simp add: PNPThread_step_def)
qed

end
