(* ===== verification/Store_Search.thy ===== *)
theory Store_Search
  imports Store_Demo
begin

text \<open>
  What a search of partitions has still to report, and what the deletion of a partition does to the
  searches that are under way.
\<close>

section \<open>The rest of a search\<close>

definition remaining :: "'d CStore \<Rightarrow> CStoreHandle \<Rightarrow> CPartition list" where
  "remaining s h =
     (case h_pPartition h of
        Addr x \<Rightarrow>
          (let rest = dropWhile (\<lambda>p. p_addr p \<noteq> x) (m_pPartitionList s)
           in if STOREHANDLE_TYPE_CURRENT h then rest else tl rest)
      | _ \<Rightarrow> [])"

lemma part_at_None: "partition_at s x = None \<longleftrightarrow> x \<notin> p_addr ` set (m_pPartitionList s)"
  by (auto simp: partition_at_def find_None_iff)

lemma dropWhile_at:
  assumes "distinct (map p_addr (xs @ p # ys))"
  shows "dropWhile (\<lambda>q. p_addr q \<noteq> p_addr p) (xs @ p # ys) = p # ys"
proof -
  have "\<forall>q \<in> set xs. p_addr q \<noteq> p_addr p" using assms by (auto simp: image_iff)
  then show ?thesis by (simp add: dropWhile_append2)
qed

lemma remaining_head_pointer:
  assumes "m_pPartitionList s = xs @ ys" "distinct (map p_addr (m_pPartitionList s))"
    "h_pPartition h = head_pointer p_addr ys" "STOREHANDLE_TYPE_CURRENT h"
  shows "remaining s h = ys"
proof (cases ys)
  case (Cons p zs)
  then show ?thesis using assms dropWhile_at [of xs p zs] by (simp add: remaining_def head_pointer_def)
qed (use assms in \<open>simp add: remaining_def head_pointer_def\<close>)

lemma remaining_moved:
  assumes "m_pPartitionList s = xs @ ys" "distinct (map p_addr (m_pPartitionList s))"
    "h_pPartition h = head_pointer p_addr ys" "\<not> STOREHANDLE_TYPE_CURRENT h"
  shows "remaining s h = tl ys"
proof (cases ys)
  case (Cons p zs)
  then show ?thesis using assms dropWhile_at [of xs p zs] by (simp add: remaining_def head_pointer_def)
qed (use assms in \<open>simp add: remaining_def head_pointer_def\<close>)

text \<open>A step reports the first of what remains and leaves the others.\<close>

lemma FindNextPartition_remaining:
  assumes d: "distinct (map p_addr (m_pPartitionList s))"
    and h: "\<And>x. h_pPartition h = Addr x \<Longrightarrow> x \<in> p_addr ` set (m_pPartitionList s)"
  obtains h' where "CStore_FindNextPartition env a h s st =
      (if remaining s h = [] then (ERROR_NO_MORE_ITEMS, None, if h' = h then st else put_handle a h' st)
       else (ERROR_SUCCESS, Some (CPartition_GetPartitionInfo env (hd (remaining s h))), put_handle a h' st))"
    "remaining s h' = tl (remaining s h)" "h_pStore h' = h_pStore h" "h' = h \<Longrightarrow> remaining s h = []"
proof (cases "IsValidPartition s (h_pPartition h)")
  case None
  then have "remaining s h = []" using h by (cases "h_pPartition h") (auto simp: IsValidPartition_def part_at_None remaining_def)
  then show ?thesis using that [of h] None by (simp add: CStore_FindNextPartition_def)
next
  case (Some p)
  have p: "h_pPartition h = Addr (p_addr p)" "p \<in> set (m_pPartitionList s)"
    using IsValidPartition_at [OF Some] by (auto simp: partition_at_def find_Some_iff)
  obtain xs ys where s: "m_pPartitionList s = xs @ p # ys" using p(2) by (meson split_list)
  note dw = dropWhile_at [OF d [unfolded s]]
  show ?thesis
  proof (cases "STOREHANDLE_TYPE_CURRENT h")
    case True
    let ?h = "h\<lparr>STOREHANDLE_TYPE_CURRENT := False\<rparr>"
    have ne: "?h \<noteq> h" using True by (metis CStoreHandle.select_convs(6) CStoreHandle.surjective CStoreHandle.update_convs(6))
    have r: "remaining s h = p # ys" "remaining s ?h = ys" using True p dw by (simp_all add: remaining_def s)
    show ?thesis
      by (rule that [of ?h]) (use Some True r ne p in \<open>auto simp: CStore_FindNextPartition_def\<close>)
  next
    case False
    let ?h = "h\<lparr>h_pPartition := head_pointer p_addr ys\<rparr>"
    have nxt: "next_pointer p_addr (m_pPartitionList s) (p_addr p) = head_pointer p_addr ys"
      unfolding s by (rule next_pointer_split) (use d s in simp)
    have r: "remaining s h = ys" using False p dw by (simp add: remaining_def s)
    have r': "remaining s ?h = tl ys"
      by (rule remaining_moved [of s "xs @ [p]" ys]) (use s d False in auto)
    have ne: "?h \<noteq> h"
    proof
      assume "?h = h"
      then have "head_pointer p_addr ys = Addr (p_addr p)" using p(1) by (metis CStoreHandle.select_convs(3) CStoreHandle.surjective CStoreHandle.update_convs(3))
      then show False using d by (cases ys) (auto simp: head_pointer_def s)
    qed
    have v: "IsValidPartition s (head_pointer p_addr ys) = (case ys of [] \<Rightarrow> None | q # _ \<Rightarrow> Some q)"
    proof (cases ys)
      case (Cons q zs)
      have "find (\<lambda>r. p_addr r = p_addr q) xs = None" "p_addr p \<noteq> p_addr q" using d by (auto simp: find_None_iff s Cons image_iff)
      then show ?thesis by (simp add: head_pointer_def IsValidPartition_def partition_at_def s Cons find_append)
    qed (simp add: head_pointer_def IsValidPartition_def)
    show ?thesis
      by (rule that [of ?h])
         (use Some False r r' ne v nxt in \<open>auto simp: CStore_FindNextPartition_def split: list.splits\<close>)
  qed
qed

section \<open>Deletion during a search\<close>

lemma update_partition_remaining:
  assumes s: "m_pPartitionList s = xs @ p # ys" and s': "m_pPartitionList s' = xs @ ys"
    and d: "distinct (map p_addr (m_pPartitionList s))"
    and h: "\<And>x. h_pPartition h = Addr x \<Longrightarrow> x \<in> p_addr ` set (m_pPartitionList s)"
    and search: "STOREHANDLE_TYPE_SEARCH h"
  shows "remaining s' (update_partition (Some (p_addr p, head_pointer p_addr ys)) h) =
           filter (\<lambda>q. p_addr q \<noteq> p_addr p) (remaining s h)"
proof (cases "h_pPartition h = Addr (p_addr p)")
  case True
  have d': "distinct (map p_addr (m_pPartitionList s'))" using d by (auto simp: s s')
  have "remaining s' (h\<lparr>h_pPartition := head_pointer p_addr ys, STOREHANDLE_TYPE_CURRENT := True\<rparr>) = ys"
    by (rule remaining_head_pointer [OF s' d']) simp_all
  moreover have "filter (\<lambda>q. p_addr q \<noteq> p_addr p) (p # ys) = ys"
    using filter_split [of p_addr "[]" p ys] d by (simp add: s)
  ultimately show ?thesis
    using True search dropWhile_at [OF d [unfolded s]] by (simp add: update_partition_def remaining_def s Let_def)
next
  case False
  then have u: "update_partition (Some (p_addr p, head_pointer p_addr ys)) h = h" by (rule update_partition_other)
  show ?thesis
  proof (cases "h_pPartition h")
    case (Addr x)
    then have x: "x \<in> p_addr ` set (m_pPartitionList s)" "x \<noteq> p_addr p" using h False by auto
    then obtain q where q: "q \<in> set xs \<union> set ys" "x = p_addr q" by (auto simp: s)
    have drop: "dropWhile (\<lambda>r. p_addr r \<noteq> x) (m_pPartitionList s') =
        filter (\<lambda>r. p_addr r \<noteq> p_addr p) (dropWhile (\<lambda>r. p_addr r \<noteq> x) (m_pPartitionList s))"
      and hd: "hd (dropWhile (\<lambda>r. p_addr r \<noteq> x) (m_pPartitionList s)) = q"
      and ne: "dropWhile (\<lambda>r. p_addr r \<noteq> x) (m_pPartitionList s) \<noteq> []"
    proof -
      have "\<forall>r \<in> set xs \<union> set ys. p_addr r \<noteq> p_addr p" using d by (auto simp: s image_iff)
      then have keep: "filter (\<lambda>r. p_addr r \<noteq> p_addr p) zs = zs" if "set zs \<subseteq> set xs \<union> set ys" for zs
        using that by (auto simp: filter_id_conv)
      have "dropWhile (\<lambda>r. p_addr r \<noteq> x) (m_pPartitionList s') =
          filter (\<lambda>r. p_addr r \<noteq> p_addr p) (dropWhile (\<lambda>r. p_addr r \<noteq> x) (m_pPartitionList s)) \<and>
          hd (dropWhile (\<lambda>r. p_addr r \<noteq> x) (m_pPartitionList s)) = q \<and> dropWhile (\<lambda>r. p_addr r \<noteq> x) (m_pPartitionList s) \<noteq> []"
      proof (cases "q \<in> set xs")
        case True
        then obtain us vs where xs: "xs = us @ q # vs" by (meson split_list)
        have "dropWhile (\<lambda>r. p_addr r \<noteq> p_addr q) (us @ q # (vs @ p # ys)) = q # vs @ p # ys"
          by (rule dropWhile_at) (use d in \<open>simp add: s xs\<close>)
        moreover have "dropWhile (\<lambda>r. p_addr r \<noteq> p_addr q) (us @ q # (vs @ ys)) = q # vs @ ys"
          by (rule dropWhile_at) (use d in \<open>auto simp: s xs\<close>)
        moreover have "filter (\<lambda>r. p_addr r \<noteq> p_addr p) (q # vs) = q # vs" "filter (\<lambda>r. p_addr r \<noteq> p_addr p) ys = ys"
          by (rule keep, use xs in auto)+
        ultimately show ?thesis using q(2) x(2) by (simp add: s s' xs)
      next
        case False
        then obtain us vs where ys: "ys = us @ q # vs" using q(1) by (meson UnE split_list)
        have "dropWhile (\<lambda>r. p_addr r \<noteq> p_addr q) ((xs @ p # us) @ q # vs) = q # vs"
          by (rule dropWhile_at) (use d in \<open>simp add: s ys\<close>)
        moreover have "dropWhile (\<lambda>r. p_addr r \<noteq> p_addr q) ((xs @ us) @ q # vs) = q # vs"
          by (rule dropWhile_at) (use d in \<open>auto simp: s ys\<close>)
        moreover have "filter (\<lambda>r. p_addr r \<noteq> p_addr p) (q # vs) = q # vs" by (rule keep) (use ys in auto)
        ultimately show ?thesis using q(2) x(2) by (simp add: s s' ys)
      qed
      then show "dropWhile (\<lambda>r. p_addr r \<noteq> x) (m_pPartitionList s') =
          filter (\<lambda>r. p_addr r \<noteq> p_addr p) (dropWhile (\<lambda>r. p_addr r \<noteq> x) (m_pPartitionList s))"
        "hd (dropWhile (\<lambda>r. p_addr r \<noteq> x) (m_pPartitionList s)) = q"
        "dropWhile (\<lambda>r. p_addr r \<noteq> x) (m_pPartitionList s) \<noteq> []" by simp_all
    qed
    have "tl (filter (\<lambda>r. p_addr r \<noteq> p_addr p) zs) = filter (\<lambda>r. p_addr r \<noteq> p_addr p) (tl zs)"
      if "zs \<noteq> []" "hd zs = q" for zs
      using that x(2) q(2) by (cases zs) auto
    from this [OF ne hd] show ?thesis by (simp add: u remaining_def Addr drop Let_def)
  qed (simp_all add: u remaining_def)
qed

end
