(* ===== verification/Store_Theorems.thy ===== *)
theory Store_Theorems
  imports Store_Search
begin

text \<open>
  The properties of the store manager: its reachable states, deletion and searches, unmounting,
  the return of a device, trust, enumeration and the bounds of requests.
\<close>

section \<open>Reachable states\<close>

lemma handle_pointer_cases: "(\<forall>x. p = Addr x \<longrightarrow> P x) \<longleftrightarrow> p = NULL \<or> p = INVALID_POINTER \<or> (\<exists>x. p = Addr x \<and> P x)"
  by (cases p) auto

lemma store_at_None: "store_at g x = None \<longleftrightarrow> x \<notin> store_addrs (g_pStoreRoot g)"
  by (auto simp: store_at_def find_None_iff store_addrs_def)

text \<open>C34. In every state that calls, events of devices, requests for a refresh, and passes of the thread over
stores all of whose partitions can be unmounted lead to, no two stores and no two partitions of a store
have the same address, the mount count of a store is the number of its mounted partitions, a partition
is marked as mounted exactly when it has a disk, and no open handle dangles: the handle objects in the lists exist, a handle in the list of a store points to
that store and to no partition that is gone, and a handle on stores points to no store that is gone.\<close>
theorem reachable_stores_well_formed:
  assumes "mgr_reachable g"
  shows "distinct (map s_addr (g_pStoreRoot g)) \<and>
    (\<forall>s \<in> set (g_pStoreRoot g).
       distinct (map p_addr (m_pPartitionList s)) \<and>
       m_dwMountCount s = length (filter PARTITION_ATTRIBUTE_MOUNTED (m_pPartitionList s)) \<and>
       (\<forall>p \<in> set (m_pPartitionList s). PARTITION_ATTRIBUTE_MOUNTED p \<longleftrightarrow> m_pDsk p \<noteq> None) \<and>
       (\<forall>a \<in> set (handles_of (stg g) s). \<exists>h. handle_heap (stg g) a = Some h \<and> h_pStore h = Addr (s_addr s) \<and>
          (h_pPartition h = NULL \<or> h_pPartition h = INVALID_POINTER \<or> IsValidPartition s (h_pPartition h) \<noteq> None))) \<and>
    (\<forall>a \<in> set (g_pRootHandle (stg g)). \<exists>h. handle_heap (stg g) a = Some h \<and>
       (h_pStore h = NULL \<or> h_pStore h = INVALID_POINTER \<or> IsValidStore g (h_pStore h) \<noteq> None))"
proof -
  have wf: "stores_wf (store_addrs (g_pStoreRoot g)) (stg g) (g_pStoreRoot g)"
    using mgr_reachable_wf [OF assms] by (simp add: mgr_wf_def)
  have "\<exists>h. handle_heap (stg g) a = Some h \<and> h_pStore h = Addr (s_addr s) \<and>
      (h_pPartition h = NULL \<or> h_pPartition h = INVALID_POINTER \<or> IsValidPartition s (h_pPartition h) \<noteq> None)"
    if s: "s \<in> set (g_pStoreRoot g)" and a: "a \<in> set (handles_of (stg g) s)" for s a
  proof -
    obtain h where "handle_heap (stg g) a = Some h" "part_handle_wf s h"
      using stores_wfD(5) [OF wf s] a by (fastforce simp: handles_wf_def handles_of_def)
    then show ?thesis
      by (auto simp: part_handle_wf_def handle_pointer_cases IsValidPartition_def part_at_None)
  qed
  moreover have "\<exists>h. handle_heap (stg g) a = Some h \<and>
      (h_pStore h = NULL \<or> h_pStore h = INVALID_POINTER \<or> IsValidStore g (h_pStore h) \<noteq> None)"
    if "a \<in> set (g_pRootHandle (stg g))" for a
    using stores_wfD(3) [OF wf] that
    by (fastforce simp: global_wf_def store_handle_wf_def handle_pointer_cases IsValidStore_def store_at_None)
  ultimately show ?thesis
    using stores_wfD(2) [OF wf] stores_wfD(4) [OF wf] by (simp add: parts_wf_def part_wf_def mounted_count_def)
qed

lemma demo_reachable:
  obtains m where "demo_like m" "mgr_reachable (demo_first m)"
proof -
  obtain m where m: "demo_like m"
    "PNPThread_step demo_env (Device_Message True ''DSK1:'') (False, mgr_start demo_machine) = Some (False, demo_first m)"
    by (rule demo_appears)
  have "mgr_step (mgr_start demo_machine) (demo_first m)" by (rule mgr_step.event [OF m(2)]) simp
  then have "mgr_reachable (demo_first m)" using mgr_reachable.start mgr_reachable.step by blast
  then show ?thesis using that m(1) by blast
qed

theorem reachable_stores_well_formed_witness:
  "\<exists>g :: unit mgr. mgr_reachable g \<and> map m_dwMountCount (g_pStoreRoot g) = [1] \<and>
     (\<forall>s \<in> set (g_pStoreRoot g). m_dwMountCount s = length (filter PARTITION_ATTRIBUTE_MOUNTED (m_pPartitionList s)) \<and>
        handles_of (stg g) s = [3] \<and> (\<exists>h. handle_heap (stg g) 3 = Some h \<and> IsValidPartition s (h_pPartition h) \<noteq> None))"
proof -
  obtain m where m: "demo_like m" "mgr_reachable (demo_first m)" by (rule demo_reachable)
  note wf = reachable_stores_well_formed [OF m(2)]
  show ?thesis
    by (rule exI [of _ "demo_first m"])
       (use m(2) wf in \<open>simp add: demo_first_def handles_of_def demo_handle_def IsValidPartition_def partition_at_def\<close>)
qed

section \<open>Trust\<close>

lemma put_store_same:
  assumes "mgr_wf g" "s \<in> set (g_pStoreRoot g)"
  shows "put_store s g = g"
proof -
  have "t = s" if "t \<in> set (g_pStoreRoot g)" "s_addr t = s_addr s" for t
    using that assms mgr_wf_distinct [OF assms(1)] by (auto simp: distinct_map dest: inj_onD)
  then have "map (\<lambda>t. if s_addr t = s_addr s then s else t) (g_pStoreRoot g) = g_pStoreRoot g"
    by (intro map_idI) metis
  then show ?thesis by (simp add: put_store_def)
qed

lemma put_store_update: "put_store s (g\<lparr>stg := st\<rparr>) = (put_store s g)\<lparr>stg := st\<rparr>"
  by (simp add: put_store_def)

text \<open>The calls that need a trusted caller.\<close>

fun needs_trust :: "stg_call \<Rightarrow> bool" where
  "needs_trust (Dismount_Store a) = True"
| "needs_trust (Format_Store a) = True"
| "needs_trust (Create_Partition a name t hi lo auto) = True"
| "needs_trust (Delete_Partition a name) = True"
| "needs_trust (Mount_Partition a) = True"
| "needs_trust (Dismount_Partition a) = True"
| "needs_trust (Rename_Partition a name) = True"
| "needs_trust (Set_Partition_Attributes a attrs) = True"
| "needs_trust (Format_Partition a t auto) = True"
| "needs_trust (Device_Io_Control a code req) = IsTrustedIoctl code"
| "needs_trust c = False"

text \<open>The other calls read the stores and change handles only, whoever makes them.\<close>

lemma FindClosePartition_root:
  assumes "mgr_wf g"
  shows "g_pStoreRoot (snd (STG_FindClosePartition a g)) = g_pStoreRoot g"
proof (cases "IsValidHandle g a")
  case (Some h)
  show ?thesis
  proof (cases "IsValidStore g (h_pStore h)")
    case S: (Some s)
    then have "put_store s g = g" using put_store_same [OF assms] IsValidStore_in by blast
    then have r: "g_pStoreRoot (put_store s g) = g_pStoreRoot g" by simp
    obtain e st where "CStore_FindClosePartition a s (stg g) = (e, st)" by (cases "CStore_FindClosePartition a s (stg g)") auto
    then show ?thesis
      using Some S r by (simp add: STG_FindClosePartition_def on_store_def finish_def set_last_error_def put_store_update)
  qed (use Some in \<open>simp add: STG_FindClosePartition_def on_store_def finish_def set_last_error_def\<close>)
qed (simp add: STG_FindClosePartition_def on_store_def finish_def set_last_error_def)

lemma finish_root [simp]: "g_pStoreRoot (snd (finish e g)) = g_pStoreRoot g" "g_pStoreRoot (set_last_error e g) = g_pStoreRoot g"
  by (simp_all add: finish_def set_last_error_def)

lemma reading_calls_root:
  "g_pStoreRoot (snd (snd (STG_FindFirstStore env i p g))) = g_pStoreRoot g"
  "g_pStoreRoot (snd (snd (STG_FindNextStore a i g))) = g_pStoreRoot g"
  "g_pStoreRoot (snd (STG_FindCloseStore a g)) = g_pStoreRoot g"
  "g_pStoreRoot (snd (STG_OpenStore env name p g)) = g_pStoreRoot g"
  "g_pStoreRoot (snd (STG_Close a g)) = g_pStoreRoot g"
  "g_pStoreRoot (snd (STG_GetStoreInfo a i g)) = g_pStoreRoot g"
  by (simp_all add: STG_FindFirstStore_def STG_FindNextStore_def STG_FindCloseStore_def STG_OpenStore_def
      STG_Close_def STG_GetStoreInfo_def Let_def split: option.split prod.split bool.split)

lemma reading_partitions_root:
  "g_pStoreRoot (snd (STG_OpenPartition env a name g)) = g_pStoreRoot g"
  "g_pStoreRoot (snd (snd (STG_GetPartitionInfo env a i g))) = g_pStoreRoot g"
  "g_pStoreRoot (snd (snd (STG_FindFirstPartition env a i g))) = g_pStoreRoot g"
proof -
  show "g_pStoreRoot (snd (STG_OpenPartition env a name g)) = g_pStoreRoot g"
    by (simp add: STG_OpenPartition_def split: option.split prod.split)
  show "g_pStoreRoot (snd (snd (STG_GetPartitionInfo env a i g))) = g_pStoreRoot g"
    by (simp add: STG_GetPartitionInfo_def split: option.split bool.split)
  show "g_pStoreRoot (snd (snd (STG_FindFirstPartition env a i g))) = g_pStoreRoot g"
    by (simp add: STG_FindFirstPartition_def split: option.split bool.split prod.split)
qed

lemma finish_pair: "finish e g = (ok, g') \<Longrightarrow> g_pStoreRoot g' = g_pStoreRoot g"
  using finish_root(1) [of e g] by simp

lemma next_partition_root: "g_pStoreRoot (snd (snd (STG_FindNextPartition env a i g))) = g_pStoreRoot g"
  by (auto simp: STG_FindNextPartition_def dest: finish_pair split: option.split bool.split prod.split)

lemma io_control_root: "g_pStoreRoot (snd (snd (STG_DeviceIoControl env a code req g))) = g_pStoreRoot g"
  by (auto simp: STG_DeviceIoControl_def dest: finish_pair split: option.split prod.split)

lemma untrusting_call_root:
  assumes "mgr_wf g" "\<not> needs_trust c"
  shows "g_pStoreRoot (run_call env c g) = g_pStoreRoot g"
  using assms
  by (cases c) (simp_all add: FindClosePartition_root reading_calls_root reading_partitions_root next_partition_root
    io_control_root STRMGR_CreateFileW_def)

text \<open>C36. The calls of a caller that is not trusted leave every store and every partition as it is.  Those
that format, create, delete, rename, mount, unmount or set attributes, and every request to the device
other than the six that only ask for information, change nothing at all and end with
\<open>ERROR_ACCESS_DENIED\<close>, whatever handle they were made with.  This is about the \<open>STG\<close> calls and \<open>STRMGR_CreateFileW\<close>;
\<open>STRMGR_RefreshStore\<close> looks at no trust (\<open>refresh_needs_no_trust\<close>).\<close>
theorem untrusted_calls_denied:
  assumes "\<not> trusted_caller env" "mgr_reachable g"
  shows "g_pStoreRoot (run_call env c g) = g_pStoreRoot g \<and>
    (needs_trust c \<longrightarrow> run_call env c g = set_last_error ERROR_ACCESS_DENIED g)"
proof -
  have d: "run_call env c g = set_last_error ERROR_ACCESS_DENIED g" if "needs_trust c"
    using assms(1) that
    by (cases c) (auto simp: STG_DismountStore_def STG_FormatStore_def STG_CreatePartition_def STG_DeletePartition_def
      STG_MountPartition_def STG_DismountPartition_def STG_RenamePartition_def STG_SetPartitionAttributes_def
      STG_FormatPartition_def STG_DeviceIoControl_def trusted_call_def)
  then show ?thesis
    using untrusting_call_root [OF mgr_reachable_wf [OF assms(2)]]
    by (cases "needs_trust c") (simp_all add: set_last_error_def)
qed

theorem untrusted_calls_denied_witness:
  "\<exists>m. mgr_reachable (demo_first m) \<and>
     run_call (demo_env\<lparr>trusted_caller := False\<rparr>) (Format_Store 3) (demo_first m) = set_last_error ERROR_ACCESS_DENIED (demo_first m) \<and>
     g_pStoreRoot (run_call (demo_env\<lparr>trusted_caller := False\<rparr>) (Find_First_Partition 3 (Some True)) (demo_first m)) = g_pStoreRoot (demo_first m)"
proof -
  obtain m where m: "demo_like m" "mgr_reachable (demo_first m)" by (rule demo_reachable)
  note u = untrusted_calls_denied [OF _ m(2), of "demo_env\<lparr>trusted_caller := False\<rparr>"]
  show ?thesis using m(2) u [of "Format_Store 3"] u [of "Find_First_Partition 3 (Some True)"] by auto
qed

text \<open>Any caller can have a store that is present unmounted and mounted again: \<open>STRMGR_RefreshStore\<close> marks it without a check.\<close>

lemma refresh_needs_no_trust:
  assumes "FindStore g (strip_backslash name) = Some s" "mgr_wf g"
  shows "\<exists>g'. STRMGR_RefreshStore env name g = Some (True, g') \<and> STOREMGR_EVENT_REFRESHSTORE g' \<and>
    s\<lparr>m_dwFlags := (m_dwFlags s)\<lparr>STORE_FLAG_REFRESHED := True\<rparr>\<rparr> \<in> set (g_pStoreRoot g')"
proof -
  have s: "s \<in> set (g_pStoreRoot g)" using assms(1) by (auto simp: FindStore_def find_Some_iff)
  then have "s\<lparr>m_dwFlags := (m_dwFlags s)\<lparr>STORE_FLAG_REFRESHED := True\<rparr>\<rparr> \<in>
      set (g_pStoreRoot (put_store (s\<lparr>m_dwFlags := (m_dwFlags s)\<lparr>STORE_FLAG_REFRESHED := True\<rparr>\<rparr>) g))"
    by (force simp: put_store_def)
  then show ?thesis using assms(1) by (simp add: STRMGR_RefreshStore_def put_store_def)
qed

section \<open>Searches and deletion\<close>

lemma store_at_member:
  assumes "mgr_wf g" "s \<in> set (g_pStoreRoot g)"
  shows "store_at g (s_addr s) = Some s"
proof -
  obtain t where t: "store_at g (s_addr s) = Some t"
    using assms(2) by (cases "store_at g (s_addr s)") (auto simp: store_at_None store_addrs_def)
  then have "t = s" using store_at_in [OF t] assms mgr_wf_distinct [OF assms(1)] by (auto simp: distinct_map dest: inj_onD)
  then show ?thesis using t by simp
qed

lemma store_handle_facts:
  assumes wf: "mgr_wf g" and s: "s \<in> set (g_pStoreRoot g)" and a: "a \<in> set (handles_of (stg g) s)" "handle_heap (stg g) a = Some h"
  shows "part_handle_wf s h" "IsValidHandle g a = Some h" "IsValidStore g (h_pStore h) = Some s"
proof -
  show h: "part_handle_wf s h"
    using wf s a stores_wfD(5) [of "store_addrs (g_pStoreRoot g)" "stg g" "g_pStoreRoot g" s]
    by (fastforce simp: mgr_wf_def handles_wf_def handles_of_def)
  then show v: "IsValidStore g (h_pStore h) = Some s"
    using store_at_member [OF wf s] by (simp add: part_handle_wf_def IsValidStore_def)
  then show "IsValidHandle g a = Some h" using a by (simp add: IsValidHandle_def)
qed

text \<open>C37. A step of a search of partitions reports the first of the partitions the search has still to
report and leaves the others to report; at the end it fails with \<open>ERROR_NO_MORE_ITEMS\<close>.  What a
search has still to report are the partitions behind the one it stands at, and that one too when the
deletion of its predecessor has moved it there.  No store and no other handle changes.\<close>
theorem search_reports_remaining:
  assumes "mgr_reachable g" "s \<in> set (g_pStoreRoot g)" "a \<in> set (handles_of (stg g) s)" "handle_heap (stg g) a = Some h"
  shows "\<exists>h' g'. STG_FindNextPartition env a (Some True) g =
       (if remaining s h = [] then (False, None, set_last_error ERROR_NO_MORE_ITEMS g')
        else (True, Some (CPartition_GetPartitionInfo env (hd (remaining s h))), g')) \<and>
     g_pStoreRoot g' = g_pStoreRoot g \<and> handle_heap (stg g') = (handle_heap (stg g))(a \<mapsto> h') \<and>
     remaining s h' = tl (remaining s h)"
proof -
  note wf = mgr_reachable_wf [OF assms(1)]
  note f = store_handle_facts [OF wf assms(2-4)]
  have d: "distinct (map p_addr (m_pPartitionList s))"
    using wf assms(2) stores_wfD(4) [of "store_addrs (g_pStoreRoot g)" "stg g" "g_pStoreRoot g" s]
    by (simp add: mgr_wf_def parts_wf_def)
  obtain h' where h': "CStore_FindNextPartition env a h s (stg g) =
      (if remaining s h = [] then (ERROR_NO_MORE_ITEMS, None, if h' = h then stg g else put_handle a h' (stg g))
       else (ERROR_SUCCESS, Some (CPartition_GetPartitionInfo env (hd (remaining s h))), put_handle a h' (stg g)))"
    "remaining s h' = tl (remaining s h)" "h' = h \<Longrightarrow> remaining s h = []"
    using FindNextPartition_remaining [OF d, of h env a "stg g"] f(1) by (metis part_handle_wf_def)
  let ?g = "g\<lparr>stg := if h' = h then stg g else put_handle a h' (stg g)\<rparr>"
  have ne: "ERROR_NO_MORE_ITEMS \<noteq> ERROR_SUCCESS" by (simp add: stg_error_defs)
  have "STG_FindNextPartition env a (Some True) g =
      (if remaining s h = [] then (False, None, set_last_error ERROR_NO_MORE_ITEMS ?g)
       else (True, Some (CPartition_GetPartitionInfo env (hd (remaining s h))), ?g))"
    using h'(1,3) f ne by (auto simp: STG_FindNextPartition_def finish_def)
  moreover have "handle_heap (stg ?g) = (handle_heap (stg g))(a \<mapsto> h')" using assms(4) by (auto simp: put_handle_def)
  ultimately show ?thesis using h'(2) by (intro exI [of _ h'] exI [of _ ?g]) simp
qed

text \<open>The search of the only partition of the small system.\<close>

lemma demo_search:
  obtains m where "mgr_reachable (run_call demo_env (Find_First_Partition 3 (Some True)) (demo_first m))"
proof -
  obtain m where "mgr_reachable (demo_first m)" by (rule demo_reachable)
  then show ?thesis using that mgr_reachable.step mgr_step.call by (metis kernel_passes.simps(18))
qed

theorem search_reports_remaining_witness:
  "\<exists>m h' g'. STG_FindNextPartition demo_env 5 (Some True) (run_call demo_env (Find_First_Partition 3 (Some True)) (demo_first m)) =
     (False, None, set_last_error ERROR_NO_MORE_ITEMS g') \<and> handle_heap (stg g') 5 = Some h'"
proof -
  obtain m where m: "mgr_reachable (run_call demo_env (Find_First_Partition 3 (Some True)) (demo_first m))" (is "mgr_reachable ?g")
    by (rule demo_search)
  let ?s = "(demo_store 1)\<lparr>m_pPartitionList := [demo_mounted_part 2 4], m_dwMountCount := 1\<rparr>"
  let ?h = "partition_handle ?s (Addr 2) 2 True False"
  have run: "g_pStoreRoot ?g = [?s]" "handles_of (stg ?g) ?s = [5, 3]" "handle_heap (stg ?g) 5 = Some ?h"
    by (simp_all add: STG_FindFirstPartition_def CStore_FindFirstPartition_def IsValidHandle_def IsValidStore_def demo_first_def
      demo_handle_def store_at_def new_handle_object_def new_object_def on_machine_def INVALID_HANDLE_VALUE_def handles_of_def
      put_store_handles_def AddHandleToList_def CreateAPIHandle_def finish_def ERROR_SUCCESS_def partition_handle_def mgr_start_def)
  have "remaining ?s ?h = []" by (simp add: remaining_def partition_handle_def)
  with search_reports_remaining [OF m, of ?s 5 ?h demo_env] run show ?thesis by fastforce
qed

lemma store_at_put_store:
  assumes "mgr_wf g" "s \<in> set (g_pStoreRoot g)" "s_addr s' = s_addr s" "t \<in> set (g_pStoreRoot g)"
  shows "store_at (put_store s' g) (s_addr t) = Some (if t = s then s' else t)"
proof -
  have same: "u = t" if "u \<in> set (g_pStoreRoot g)" "s_addr u = s_addr t" "t \<in> set (g_pStoreRoot g)" for u t
    using that mgr_wf_distinct [OF assms(1)] by (auto simp: distinct_map dest: inj_onD)
  obtain xs ys where g: "g_pStoreRoot g = xs @ t # ys" "t \<notin> set xs" using assms(4) by (meson split_list_first)
  have "s_addr u \<noteq> s_addr t" if "u \<in> set xs" for u
    using same [of u t] that g assms by auto
  then have "find (\<lambda>u. s_addr u = s_addr t) (map (\<lambda>u. if s_addr u = s_addr s' then s' else u) xs) = None"
    by (auto simp: find_None_iff)
  moreover have "s_addr t = s_addr s \<longleftrightarrow> t = s" using same [OF assms(4) _ assms(2)] by blast
  ultimately show ?thesis using assms(3) by (simp add: store_at_def put_store_def g find_append)
qed

text \<open>C38. Deleting a partition of the store of a handle.  A name that no partition has succeeds and
changes nothing; a mounted partition is refused with \<open>ERROR_DEVICE_IN_USE\<close>; an error of the driver
is returned and nothing but the machine has changed.  Otherwise exactly this partition leaves the
list of the store, the other stores stay as they are, a search of this store has to report what it
had to report without the partition, another handle on the partition becomes invalid, and every
other handle stays as it was.\<close>
theorem DeletePartition_exact:
  assumes "mgr_reachable g" "trusted_caller env" "IsValidHandle g b = Some hb" "IsValidStore g (h_pStore hb) = Some s"
  shows "case CStore_FindPartition s name of
      None \<Rightarrow> STG_DeletePartition env b name g = (True, g)
    | Some p \<Rightarrow>
        if PARTITION_ATTRIBUTE_MOUNTED p then STG_DeletePartition env b name g = (False, set_last_error ERROR_DEVICE_IN_USE g)
        else case drv_DeletePartition (driver_of env s) (m_dwStoreId s) name (machine (stg g)) of (e, m) \<Rightarrow>
          if e \<noteq> ERROR_SUCCESS
          then STG_DeletePartition env b name g = (False, set_last_error e (g\<lparr>stg := (stg g)\<lparr>machine := m\<rparr>\<rparr>))
          else \<exists>g' s'. STG_DeletePartition env b name g = (True, g') \<and> store_at g' (s_addr s) = Some s' \<and>
            m_pPartitionList s' = filter (\<lambda>q. p_addr q \<noteq> p_addr p) (m_pPartitionList s) \<and>
            (\<forall>t \<in> set (g_pStoreRoot g). t \<noteq> s \<longrightarrow> store_at g' (s_addr t) = Some t) \<and>
            (\<forall>a h. a \<in> set (handles_of (stg g) s) \<longrightarrow> handle_heap (stg g) a = Some h \<longrightarrow>
               (\<exists>h'. handle_heap (stg g') a = Some h' \<and>
                  (STOREHANDLE_TYPE_SEARCH h \<longrightarrow> remaining s' h' = filter (\<lambda>q. p_addr q \<noteq> p_addr p) (remaining s h)) \<and>
                  (\<not> STOREHANDLE_TYPE_SEARCH h \<and> h_pPartition h = Addr (p_addr p) \<longrightarrow> h_pPartition h' = INVALID_POINTER) \<and>
                  (h_pPartition h \<noteq> Addr (p_addr p) \<longrightarrow> h' = h))) \<and>
            (\<forall>a. a \<notin> set (handles_of (stg g) s) \<longrightarrow> handle_heap (stg g') a = handle_heap (stg g) a)"
proof -
  note wf = mgr_reachable_wf [OF assms(1)]
  have s: "s \<in> set (g_pStoreRoot g)" using IsValidStore_in [OF assms(4)] by simp
  have wfs: "stores_wf (store_addrs (g_pStoreRoot g)) (stg g) (s # remove1 s (g_pStoreRoot g))"
    using wf s by (simp add: mgr_wf_def stores_wf_focus)
  have d: "distinct (map p_addr (m_pPartitionList s))" using stores_wfD(4) [OF wfs, of s] by (simp add: parts_wf_def)
  have call: "STG_DeletePartition env b name g =
      (case CStore_DeletePartition env name s (stg g) of (e, s, st) \<Rightarrow> finish e (put_store s (g\<lparr>stg := st\<rparr>)))"
    using assms(2-4) by (simp add: STG_DeletePartition_def trusted_call_def on_store_def split: prod.splits)
  have same: "put_store s (g\<lparr>stg := st\<rparr>) = g\<lparr>stg := st\<rparr>" for st
    by (simp add: put_store_update put_store_same [OF wf s])
  have codes: "ERROR_DEVICE_IN_USE \<noteq> ERROR_SUCCESS" by (simp add: stg_error_defs)
  show ?thesis
  proof (cases "CStore_FindPartition s name")
    case None
    then show ?thesis using call same [of "stg g"] by (simp add: CStore_DeletePartition_def finish_def)
  next
    case (Some p)
    obtain e m where drv: "drv_DeletePartition (driver_of env s) (m_dwStoreId s) name (machine (stg g)) = (e, m)"
      by (metis surj_pair)
    let ?st = "(stg g)\<lparr>machine := m\<rparr>"
    have on: "on_machine (drv_DeletePartition (driver_of env s) (m_dwStoreId s) name) (stg g) = (e, ?st)"
      by (simp add: on_machine_def drv)
    show ?thesis
    proof (cases "PARTITION_ATTRIBUTE_MOUNTED p \<or> e \<noteq> ERROR_SUCCESS")
      case True
      then show ?thesis
        using Some call same [of "stg g"] same [of ?st] codes drv on
        by (auto simp: CStore_DeletePartition_def finish_def)
    next
      case False
      have p: "p \<in> set (m_pPartitionList s)" by (rule FindPartition_at(2) [OF Some d])
      obtain xs ys where sp: "m_pPartitionList s = xs @ p # ys" using p by (meson split_list)
      let ?nxt = "head_pointer p_addr ys"
      let ?st2 = "UpdateHandleFromList (handles_of (stg g) s) None (Some (p_addr p, ?nxt)) ?st"
      have obj: "CStore_DeletePartition_object p s ?st = (s\<lparr>m_pPartitionList := xs @ ys\<rparr>, ?st2)"
        using d filter_split [of p_addr xs p ys] next_pointer_split [of p_addr xs p ys]
        by (simp add: CStore_DeletePartition_object_def sp handles_of_def)
      obtain s3 st3 where r: "refresh_store env (s\<lparr>m_pPartitionList := xs @ ys\<rparr>) ?st2 = (s3, st3)" by (metis surj_pair)
      have s3: "s_addr s3 = s_addr s" "m_pPartitionList s3 = xs @ ys" and st3: "handle_heap st3 = handle_heap ?st2"
        using r refresh_info_same by (fastforce simp: refresh_store_def same_parts_def split: prod.splits)+
      let ?s = "s3\<lparr>m_dwPartCount := sub32 (m_dwPartCount s3) 1\<rparr>"
      let ?g = "put_store ?s (g\<lparr>stg := st3\<rparr>)"
      have "CStore_DeletePartition env name s (stg g) = (ERROR_SUCCESS, ?s, st3)"
        using Some False on obj r by (simp add: CStore_DeletePartition_def del: One_nat_def)
      then have run: "STG_DeletePartition env b name g = (True, ?g)" using call by (simp add: finish_def)
      have at: "store_at ?g (s_addr t) = Some (if t = s then ?s else t)" if "t \<in> set (g_pStoreRoot g)" for t
        using store_at_put_store [OF wf s _ that, of ?s] s3(1) by (simp add: put_store_def store_at_def)
      have dh: "distinct (handles_of (stg g) s)" using handles_of_wf(2) [OF wfs] .
      have heap: "handle_heap (stg ?g) a = (if a \<in> set (handles_of (stg g) s)
          then map_option (update_partition (Some (p_addr p, ?nxt))) (handle_heap (stg g) a) else handle_heap (stg g) a)" for a
      proof -
        have "update_store None = id" by (rule ext) (simp add: update_store_def)
        then show ?thesis using UpdateHandleFromList_heap [OF dh, of None "Some (p_addr p, ?nxt)" ?st a] by (simp add: st3)
      qed
      have rem: "remaining ?s (update_partition (Some (p_addr p, ?nxt)) h) = filter (\<lambda>q. p_addr q \<noteq> p_addr p) (remaining s h)"
        if "part_handle_wf s h" "STOREHANDLE_TYPE_SEARCH h" for h
        by (rule update_partition_remaining [OF sp _ d]) (use that s3 in \<open>auto simp: part_handle_wf_def\<close>)
      have parts: "m_pPartitionList ?s = filter (\<lambda>q. p_addr q \<noteq> p_addr p) (m_pPartitionList s)"
        using filter_split [of p_addr xs p ys] d s3 by (simp add: sp)
      have handles: "\<exists>h'. handle_heap (stg ?g) a = Some h' \<and>
          (STOREHANDLE_TYPE_SEARCH h \<longrightarrow> remaining ?s h' = filter (\<lambda>q. p_addr q \<noteq> p_addr p) (remaining s h)) \<and>
          (\<not> STOREHANDLE_TYPE_SEARCH h \<and> h_pPartition h = Addr (p_addr p) \<longrightarrow> h_pPartition h' = INVALID_POINTER) \<and>
          (h_pPartition h \<noteq> Addr (p_addr p) \<longrightarrow> h' = h)"
        if "a \<in> set (handles_of (stg g) s)" "handle_heap (stg g) a = Some h" for a h
      proof -
        have "handle_heap (stg ?g) a = Some (update_partition (Some (p_addr p, ?nxt)) h)" using that by (simp only: heap) simp
        then show ?thesis
          using rem [OF store_handle_facts(1) [OF wf s that]] by (auto simp: update_partition_def)
      qed
      show ?thesis
        using Some False drv run at [OF s] at parts handles heap
        by (simp del: put_store_stg)
    qed
  qed
qed

text \<open>The small system: the store is opened, its partition is unmounted, and a search is started.\<close>

definition demo_idle :: "unit CStore" where
  "demo_idle = (demo_store 1)\<lparr>m_pPartitionList :=
     [(demo_mounted_part 2 4)\<lparr>m_pDsk := None, m_hFSD := None, PARTITION_ATTRIBUTE_MOUNTED := False\<rparr>], m_dwMountCount := 0\<rparr>"

definition demo_searching :: "unit machine \<Rightarrow> unit mgr" where
  "demo_searching m = (demo_first m)\<lparr>g_pStoreRoot := [demo_idle],
     stg := \<lparr>machine = m, stg_next = 9,
       handle_heap = [5 \<mapsto> store_handle (Addr 1) 2 False, 7 \<mapsto> partition_handle demo_idle (Addr 2) 2 True False],
       m_pRootHandle = [1 \<mapsto> [7]], g_pRootHandle = [5], api_handles = [6 \<mapsto> (STRG, 5), 8 \<mapsto> (FPRT, 7)]\<rparr>\<rparr>"

lemma demo_searching_reachable:
  obtains m where "mgr_reachable (demo_searching m)" "demo_like m"
proof -
  obtain m where r: "mgr_reachable (demo_first m)" and like: "demo_like m" by (rule demo_reachable)
  define g1 where "g1 = (demo_first m)\<lparr>stg := \<lparr>machine = m\<lparr>mc_tick := mc_tick m + 2\<rparr>, stg_next = 7,
    handle_heap = [3 \<mapsto> demo_handle 1 2, 5 \<mapsto> store_handle (Addr 1) 2 False], m_pRootHandle = [1 \<mapsto> [3]],
    g_pRootHandle = [5], api_handles = [4 \<mapsto> (STRG, 3), 6 \<mapsto> (STRG, 5)]\<rparr>\<rparr>"
  define g2 where "g2 = g1\<lparr>g_pStoreRoot := [demo_idle], stg := (stg g1)\<lparr>handle_heap := [5 \<mapsto> store_handle (Addr 1) 2 False],
    m_pRootHandle := [1 \<mapsto> []], api_handles := [6 \<mapsto> (STRG, 5)]\<rparr>\<rparr>"
  have 1: "run_call demo_env (Open_Store ''DSK1:'' 2) (demo_first m) = g1"
    by (simp add: STG_OpenStore_def demo_first_def FindStore_def wcsicmp_equal_def new_handle_object_def new_object_def
      on_machine_def INVALID_HANDLE_VALUE_def CreateAPIHandle_def AddHandleToList_def g1_def mgr_start_def fun_eq_iff)
  have 2: "run_call demo_env (Dismount_Partition 3) g1 = g2"
    by (simp add: STG_DismountPartition_def trusted_call_def on_store_def g1_def demo_first_def mgr_start_def IsValidHandle_def
      demo_handle_def IsValidStore_def store_at_def CStore_UnmountPartition_def IsValidPartition_def partition_at_def
      CPartition_UnmountPartition_def on_machine_def CloseStoreHandle_def STG_CloseHandle_def drop_store_handle_def
      delete_handle_def finish_def ERROR_SUCCESS_def put_store_def put_partition_def sub32_def g2_def demo_idle_def fun_eq_iff)
  have idle: "s_addr demo_idle = Suc 0"
    "m_pPartitionList demo_idle = [(demo_mounted_part 2 4)\<lparr>m_pDsk := None, m_hFSD := None, PARTITION_ATTRIBUTE_MOUNTED := False\<rparr>]"
    by (simp_all add: demo_idle_def)
  have 3: "run_call demo_env (Find_First_Partition 5 (Some True)) g2 = demo_searching ((machine (stg g1))\<lparr>mc_tick := mc_tick m + 4\<rparr>)"
    by (simp add: STG_FindFirstPartition_def CStore_FindFirstPartition_def IsValidHandle_def IsValidStore_def g2_def g1_def
      store_handle_def store_at_def idle new_handle_object_def new_object_def on_machine_def INVALID_HANDLE_VALUE_def handles_of_def
      put_store_handles_def AddHandleToList_def CreateAPIHandle_def finish_def ERROR_SUCCESS_def demo_searching_def demo_first_def
      mgr_start_def partition_handle_def fun_eq_iff)
  have go: "mgr_reachable (run_call demo_env c g)" if "mgr_reachable g" "kernel_passes g c" for g c
    by (rule mgr_reachable.step [OF that(1) mgr_step.call [OF that(2)]])
  have "mgr_reachable g1" using go [OF r, of "Open_Store ''DSK1:'' 2"] unfolding 1 by simp
  from go [OF this, of "Dismount_Partition 3"] have "mgr_reachable g2" unfolding 2 by simp
  from go [OF this, of "Find_First_Partition 5 (Some True)"]
  have "mgr_reachable (demo_searching ((machine (stg g1))\<lparr>mc_tick := mc_tick m + 4\<rparr>))" unfolding 3 by simp
  moreover have "demo_like ((machine (stg g1))\<lparr>mc_tick := mc_tick m + 4\<rparr>)" using like by (simp add: demo_like_def g1_def)
  ultimately show ?thesis by (rule that)
qed

theorem DeletePartition_exact_witness:
  "\<exists>m g' s' h'. STG_DeletePartition demo_env 5 ''PART00'' (demo_searching m) = (True, g') \<and> store_at g' 1 = Some s' \<and>
     m_pPartitionList s' = [] \<and> handle_heap (stg g') 7 = Some h' \<and> remaining s' h' = []"
proof -
  obtain m where r: "mgr_reachable (demo_searching m)" by (rule demo_searching_reachable)
  let ?q = "(demo_mounted_part 2 4)\<lparr>m_pDsk := None, m_hFSD := None, PARTITION_ATTRIBUTE_MOUNTED := False\<rparr>"
  let ?h = "partition_handle demo_idle (Addr 2) 2 True False"
  have idle: "s_addr demo_idle = 1" "m_pPartitionList demo_idle = [?q]" by (simp_all add: demo_idle_def)
  have v: "IsValidHandle (demo_searching m) 5 = Some (store_handle (Addr 1) 2 False)"
    "IsValidStore (demo_searching m) (h_pStore (store_handle (Addr 1) 2 False)) = Some demo_idle"
    by (simp_all add: IsValidHandle_def IsValidStore_def store_at_def demo_searching_def store_handle_def idle)
  have f: "CStore_FindPartition demo_idle ''PART00'' = Some ?q"
    by (simp add: CStore_FindPartition_def idle wcsicmp_equal_def)
  have d: "drv_DeletePartition (driver_of demo_env demo_idle) (m_dwStoreId demo_idle) ''PART00'' (machine (stg (demo_searching m))) =
      (ERROR_SUCCESS, machine (stg (demo_searching m)))"
    by (simp add: drv_DeletePartition_def demo_idle_def driver_of_def demo_store_def demo_counted_def demo_driven_def demo_driver_def caught_def)
  have h: "7 \<in> set (handles_of (stg (demo_searching m)) demo_idle)" "handle_heap (stg (demo_searching m)) 7 = Some ?h"
    "remaining demo_idle ?h = []" "STOREHANDLE_TYPE_SEARCH ?h"
    by (simp_all add: demo_searching_def handles_of_def idle remaining_def partition_handle_def)
  from DeletePartition_exact [OF r _ v, of demo_env "''PART00''"] obtain g' s' where
    "STG_DeletePartition demo_env 5 ''PART00'' (demo_searching m) = (True, g')" "store_at g' (s_addr demo_idle) = Some s'"
    "m_pPartitionList s' = filter (\<lambda>q. p_addr q \<noteq> p_addr ?q) (m_pPartitionList demo_idle)"
    "\<forall>a h. a \<in> set (handles_of (stg (demo_searching m)) demo_idle) \<longrightarrow> handle_heap (stg (demo_searching m)) a = Some h \<longrightarrow>
       (\<exists>h'. handle_heap (stg g') a = Some h' \<and>
         (STOREHANDLE_TYPE_SEARCH h \<longrightarrow> remaining s' h' = filter (\<lambda>q. p_addr q \<noteq> p_addr ?q) (remaining demo_idle h)))"
    by (simp add: f d) metis
  with h idle show ?thesis by fastforce
qed

end
