(* ===== verification/Store_Devices_Back.thy ===== *)
theory Store_Devices_Back
  imports Store_Search
begin

text \<open>
  What mounting, unmounting and the return of a device leave alone: the handles, and the other
  objects.
\<close>

section \<open>Operations that leave the handles alone\<close>

definition quiet :: "'d stg \<Rightarrow> 'd stg \<Rightarrow> bool" where
  "quiet st st' \<longleftrightarrow>
     handle_heap st' = handle_heap st \<and> m_pRootHandle st' = m_pRootHandle st \<and>
     g_pRootHandle st' = g_pRootHandle st \<and> api_handles st' = api_handles st"

lemma quiet_refl [simp]: "quiet st st" "quiet st (st\<lparr>machine := m\<rparr>)" "quiet st (st\<lparr>stg_next := n\<rparr>)"
  "quiet st (st\<lparr>stg_next := n, machine := m\<rparr>)" "quiet st (st\<lparr>machine := m, stg_next := n\<rparr>)"
  by (simp_all add: quiet_def)

lemma quiet_trans: "quiet st st' \<Longrightarrow> quiet st' st'' \<Longrightarrow> quiet st st''"
  by (simp add: quiet_def)

lemma quiet_machine: "quiet st (st'\<lparr>machine := m\<rparr>) = quiet st st'" "quiet (st\<lparr>machine := m\<rparr>) st' = quiet st st'"
  by (simp_all add: quiet_def)

lemma new_object_quiet: "new_object env st = (r, st') \<Longrightarrow> quiet st st'"
  by (cases rule: new_object_cases) auto

text \<open>Loading a partition without mounting it.\<close>

definition all_unmounted :: "'d CStore \<Rightarrow> bool" where
  "all_unmounted s \<longleftrightarrow> (\<forall>p \<in> set (m_pPartitionList s). \<not> PARTITION_ATTRIBUTE_MOUNTED p)"

lemma LoadPartition_quiet:
  assumes "CStore_LoadPartition env name False fmt s st = (r, s', st')"
  shows "quiet st st'" "all_unmounted s \<Longrightarrow> all_unmounted s'"
proof -
  obtain e pid m where o: "drv_OpenPartition (driver_of env s) (m_dwStoreId s) name 0 (machine st) = (e, pid, m)"
    by (metis prod_cases3)
  have "quiet st st' \<and> (all_unmounted s \<longrightarrow> all_unmounted s')"
  proof (cases "e = ERROR_SUCCESS")
    case False
    then show ?thesis using assms unfolding CStore_LoadPartition_def o by auto
  next
    case True
    obtain a st1 where n: "new_object env (st\<lparr>machine := m\<rparr>) = (a, st1)" by (metis surj_pair)
    have q: "quiet st st1" using new_object_quiet [OF n] by (simp add: quiet_machine)
    show ?thesis
    proof (cases a)
      case None
      then show ?thesis using assms True n q unfolding CStore_LoadPartition_def o by (auto simp: quiet_machine)
    next
      case (Some x)
      obtain p m1 where p: "CPartition_LoadPartition env (driver_of env s) name
          (CPartition_new env x (m_dwStoreId s) pid (s_szFolderName s)) (machine st1) = (p, m1)" by (metis surj_pair)
      have pf: "\<not> PARTITION_ATTRIBUTE_MOUNTED p"
        using p by (auto simp: CPartition_LoadPartition_def CPartition_new_def split: prod.splits)
      have "s' = CStore_AddPartition p s" "st' = st1\<lparr>machine := m1\<rparr>"
        using assms True n Some p unfolding CStore_LoadPartition_def o by (auto simp: on_machine_def)
      then show ?thesis using q pf by (auto simp: quiet_machine all_unmounted_def CStore_AddPartition_def)
    qed
  qed
  then show "quiet st st'" "all_unmounted s \<Longrightarrow> all_unmounted s'" by simp_all
qed

lemma load_loop_quiet:
  assumes "load_loop env search False fmt s st = Some (s', st')"
  shows "quiet st st' \<and> (all_unmounted s \<longrightarrow> all_unmounted s')"
proof -
  have "mnt = False \<Longrightarrow> (case r of (s', st') \<Rightarrow> quiet st st' \<and> (all_unmounted s \<longrightarrow> all_unmounted s'))"
    if "load_loop env search mnt fmt s st = Some r" for mnt r
    using that
  proof (induction rule: load_loop.raw_induct [rotated, consumes 1])
    case (1 loop env search mnt fmt s st r)
    obtain e pi m where n: "drv_FindPartitionNext (driver_of env s) search zero_partinfo (machine st) = (e, pi, m)"
      by (metis prod_cases3)
    show ?case
    proof (cases "e = ERROR_SUCCESS")
      case False
      then show ?thesis using 1 n by auto
    next
      case True
      obtain b s1 st1 where l: "CStore_LoadPartition env (szPartitionName pi) mnt fmt s (st\<lparr>machine := m\<rparr>) = (b, s1, st1)"
        by (metis prod_cases3)
      have q: "quiet st st1" "all_unmounted s \<longrightarrow> all_unmounted s1"
        using LoadPartition_quiet [OF l [unfolded 1(3)]] by (simp_all add: quiet_machine)
      have "loop env search mnt fmt s1 st1 = Some r" using 1 n True l by simp
      from 1(1) [OF this 1(3)] q show ?thesis by (auto intro: quiet_trans)
    qed
  qed
  then show ?thesis using assms by fastforce
qed

lemma same_parts_unmounted: "same_parts s s' \<Longrightarrow> all_unmounted s' = all_unmounted s"
  by (simp add: same_parts_def all_unmounted_def)

lemma LoadExistingPartitions_quiet:
  assumes "LoadExistingPartitions env False fmt s st = Some (s', st')"
  shows "quiet st st' \<and> (all_unmounted s \<longrightarrow> all_unmounted s')"
proof -
  obtain e search m where f: "drv_FindPartitionStart (driver_of env s) (m_dwStoreId s) 0 (machine st) = (e, search, m)"
    by (metis prod_cases3)
  show ?thesis
  proof (cases "e = ERROR_SUCCESS")
    case False
    then show ?thesis using assms unfolding LoadExistingPartitions_def f by auto
  next
    case True
    then obtain st1 where l: "load_loop env search False fmt s (st\<lparr>machine := m\<rparr>) = Some (s', st1)"
      and st': "st' = st1\<lparr>machine := drv_FindPartitionClose (driver_of env s') search (machine st1)\<rparr>"
      using assms unfolding LoadExistingPartitions_def f by auto
    show ?thesis using load_loop_quiet [OF l] by (simp add: st' quiet_machine)
  qed
qed

lemma load_store_quiet:
  assumes run: "load_store env False s st = Some (s', st')"
  shows "quiet st st' \<and> (all_unmounted s \<longrightarrow> all_unmounted s')"
proof -
  obtain s1 m1 where 1: "create_activity_event env s (machine st) = (s1, m1)" by (metis surj_pair)
  obtain s2 m2 where 2: "refresh_info env s1 m1 = (s2, m2)" by (metis surj_pair)
  obtain s3 m3 where 3: "auto_format env s2 m2 = (s3, m3)" by (metis surj_pair)
  obtain e m4 where 4: "drv_IsStoreFormatted (driver_of env s3) (m_dwStoreId s3) m3 = (e, m4)" by (metis surj_pair)
  have f3: "same_parts s s3"
    using create_activity_event_same [OF 1] refresh_info_same [OF 2] auto_format_same [OF 3] same_parts_trans by metis
  have mark: "all_unmounted (t\<lparr>m_dwFlags := f\<rparr>) = all_unmounted t" for t :: "'a CStore" and f by (simp add: all_unmounted_def)
  show ?thesis
  proof (cases "e = ERROR_SUCCESS")
    case False
    then have r: "s' = s3\<lparr>m_dwFlags := (m_dwFlags s3)\<lparr>STORE_FLAG_MOUNTED := True\<rparr>\<rparr>" "st' = st\<lparr>machine := m4\<rparr>"
      using run unfolding load_store_def Let_def 1 2 3 4 prod.case by auto
    then show ?thesis using same_parts_unmounted [OF f3] mark by simp
  next
    case True
    then obtain s5 m5 where 5: "GetPartitionCount env s3 m4 = Some (s5, m5)"
      using run unfolding load_store_def Let_def 1 2 3 4 prod.case by (auto split: option.splits)
    obtain b s6 m6 where 6: "auto_partition env s5 m5 = (b, s6, m6)" by (metis prod_cases3)
    obtain s7 st7 where 7: "LoadExistingPartitions env False b s6 (st\<lparr>machine := m6\<rparr>) = Some (s7, st7)"
      "s' = s7\<lparr>m_dwFlags := (m_dwFlags s7)\<lparr>STORE_FLAG_MOUNTED := True\<rparr>\<rparr>" "st' = st7"
      using run True unfolding load_store_def Let_def 1 2 3 4 prod.case 5 option.case 6 by auto
    have f6: "same_parts s s6"
      using f3 GetPartitionCount_same [OF 5] auto_partition_same [OF 6] same_parts_trans by metis
    show ?thesis using LoadExistingPartitions_quiet [OF 7(1)] same_parts_unmounted [OF f6]
      by (simp add: 7(2,3) quiet_machine mark)
  qed
qed

lemma MountStore_quiet:
  assumes run: "CStore_MountStore env False s st = Some (e, s', st')" and un: "all_unmounted s"
  shows "quiet st st'" "all_unmounted s'"
proof -
  obtain e1 s1 m1 where 1: "OpenDisk env s (machine st) = (e1, s1, m1)" by (metis prod_cases3)
  note f1 = OpenDisk_same [OF 1]
  have "quiet st st' \<and> all_unmounted s'"
  proof (cases "e1 = ERROR_SUCCESS")
    case False
    then show ?thesis using run un same_parts_unmounted [OF f1] unfolding CStore_MountStore_def 1 by auto
  next
    case True
    obtain e2 s2 m2 where 2: "open_driver env (GetStoreSettings env m1 s1) m1 = (e2, s2, m2)" by (metis prod_cases3)
    have f2: "same_parts s s2" using f1 GetStoreSettings_same open_driver_same [OF 2] same_parts_trans by metis
    show ?thesis
    proof (cases "e2 = ERROR_SUCCESS")
      case False
      then show ?thesis using run True un same_parts_unmounted [OF f2] unfolding CStore_MountStore_def Let_def 1 prod.case 2 by auto
    next
      case e2: True
      then have "load_store env False s2 (st\<lparr>machine := m2\<rparr>) = Some (s', st')"
        using run True unfolding CStore_MountStore_def Let_def 1 prod.case 2 by auto
      from load_store_quiet [OF this] un same_parts_unmounted [OF f2] show ?thesis by (simp add: quiet_machine)
    qed
  qed
  then show "quiet st st'" "all_unmounted s'" by simp_all
qed

text \<open>Unmounting the new store object again, which has no handles.\<close>

lemma unmount_loop_idle:
  assumes "unmount_loop env True s kept ps n st = (ps', n', st')" "\<forall>p \<in> set ps. \<not> PARTITION_ATTRIBUTE_MOUNTED p"
    "handles_of st s = []"
  shows "st' = st"
  using assms by (induction ps arbitrary: kept) auto

lemma UnmountStore_idle:
  assumes "CStore_UnmountStore env True s st = (ok, s', st')" "all_unmounted s" "handles_of st s = []"
  shows "st' = st"
  using assms unmount_loop_idle by (fastforce simp: CStore_UnmountStore_def all_unmounted_def split: prod.splits)

section \<open>A device is back\<close>

definition detached_store :: "'d CStore \<Rightarrow> 'd CStore" where
  "detached_store s =
     s\<lparr>m_dwFlags := (m_dwFlags s)\<lparr>STORE_FLAG_DETACHED := True\<rparr>, m_szOldDeviceName := m_szDeviceName s,
       m_szDeviceName := [], m_pPartitionList := map (set_detached True) (m_pPartitionList s)\<rparr>"

lemma UnmountStore_detached:
  "FindStore g name = Some s \<Longrightarrow> UnmountStore name g =
     (True, (put_store (detached_store s) g)\<lparr>STOREMGR_EVENT_UPDATETIMEOUT := True, g_hPNPUpdateEvent := True\<rparr>)"
  by (simp add: UnmountStore_def detached_store_def)

lemma reattach_handles:
  assumes run: "reattach env old new name g = Some g'" and new: "all_unmounted new" "handles_of (stg g) new = []"
    and o: "s_addr old \<noteq> s_addr new"
  shows "store_at g (s_addr old) = Some old \<Longrightarrow> store_at g' (s_addr old) = Some (take_over old new name)"
    "handle_heap (stg g') = handle_heap (stg g)" "g_pRootHandle (stg g') = g_pRootHandle (stg g)"
    "api_handles (stg g') = api_handles (stg g)"
    "m_pRootHandle (stg g') = (m_pRootHandle (stg g))(s_addr new := None)"
proof -
  define m where "m = os_CloseHandle env (m_hDisk old) (drv_CloseStore (driver_of env old) (m_dwStoreId old) (machine (stg g)))"
  define new' where "new' = new\<lparr>m_dwStoreId := 0, m_hDisk := 0, m_pPartitionList := map (\<lambda>p. p\<lparr>m_dwPartitionId := 0\<rparr>) (m_pPartitionList new)\<rparr>"
  obtain ok s2 st2 where u: "CStore_UnmountStore env True new' ((stg g)\<lparr>machine := m\<rparr>) = (ok, s2, st2)" by (metis prod_cases3)
  have s2: "s_addr s2 = s_addr new" using u by (auto simp: CStore_UnmountStore_def new'_def split: prod.splits)
  have st2: "st2 = (stg g)\<lparr>machine := m\<rparr>"
    by (rule UnmountStore_idle [OF u]) (use new in \<open>simp_all add: all_unmounted_def new'_def handles_of_def\<close>)
  have g': "g' = DeleteStore env s2 ((put_store (take_over old new name) (g\<lparr>stg := (stg g)\<lparr>machine := m\<rparr>\<rparr>))\<lparr>stg := st2\<rparr>)"
    using run u by (simp add: reattach_def Let_def m_def new'_def put_store_def split: if_splits)
  show "handle_heap (stg g') = handle_heap (stg g)" "g_pRootHandle (stg g') = g_pRootHandle (stg g)"
    "api_handles (stg g') = api_handles (stg g)"
    "m_pRootHandle (stg g') = (m_pRootHandle (stg g))(s_addr new := None)"
    by (simp_all add: g' DeleteStore_def st2 s2)
  assume at: "store_at g (s_addr old) = Some old"
  have a: "s_addr (take_over old new name) = s_addr old" by (simp add: take_over_def)
  have "find (\<lambda>s. s_addr s = s_addr old)
      (filter (\<lambda>t. s_addr t \<noteq> s_addr new) (map (\<lambda>t. if s_addr t = s_addr old then take_over old new name else t) ss)) =
      map_option (\<lambda>t. take_over old new name) (find (\<lambda>s. s_addr s = s_addr old) ss)" for ss
    using o a by (induction ss) auto
  then show "store_at g' (s_addr old) = Some (take_over old new name)"
    using at by (simp add: g' DeleteStore_def s2 store_at_def put_store_def a)
qed

section \<open>Unmounting without deletion\<close>

definition unmounted_part :: "CPartition \<Rightarrow> CPartition" where
  "unmounted_part p = p\<lparr>m_pDsk := None, m_hFSD := None, PARTITION_ATTRIBUTE_MOUNTED := False\<rparr>"

definition can_dismount :: "CPartition \<Rightarrow> bool" where
  "can_dismount p \<longleftrightarrow> PARTITION_ATTRIBUTE_MOUNTED p \<and> p_dwMountFlags p AND MOUNTFLAGS_TYPE_NODISMOUNT = 0"

lemma UnmountPartition_exact:
  assumes "CPartition_UnmountPartition env p st = (ok, q, st')" "PARTITION_ATTRIBUTE_MOUNTED p"
  shows "if ok then can_dismount p \<and> q = unmounted_part p else q = p"
    "\<forall>dsk m. fst (fsd_DeinitEx env dsk m) \<Longrightarrow> ok = can_dismount p"
  using assms
  by (auto simp: CPartition_UnmountPartition_def can_dismount_def unmounted_part_def Let_def on_machine_def
    split: prod.splits option.splits if_splits) (metis fst_conv)+

lemma unmount_loop_parts:
  assumes "unmount_loop env False s kept ps n st = (ps', n', st')"
  shows "\<exists>qs. ps' = kept @ qs \<and> list_all2 (\<lambda>p q. q = p \<or> can_dismount p \<and> q = unmounted_part p) ps qs \<and>
    ((\<forall>dsk m. fst (fsd_DeinitEx env dsk m)) \<longrightarrow> qs = map (\<lambda>p. if can_dismount p then unmounted_part p else p) ps)"
  using assms
proof (induction ps arbitrary: kept n st)
  case Nil
  then show ?case by simp
next
  case (Cons p ps)
  let ?R = "\<lambda>p q. q = p \<or> can_dismount p \<and> q = unmounted_part p"
  let ?ok = "\<forall>dsk m. fst (fsd_DeinitEx env dsk m)"
  have rest: ?case if q: "?R p q" "?ok \<Longrightarrow> q = (if can_dismount p then unmounted_part p else p)"
    and run: "unmount_loop env False s (kept @ [q]) ps k st1 = (ps', n', st')" for q k st1
  proof -
    obtain qs where "ps' = (kept @ [q]) @ qs" "list_all2 ?R ps qs"
      "?ok \<longrightarrow> qs = map (\<lambda>p. if can_dismount p then unmounted_part p else p) ps"
      using Cons.IH [OF run] by blast
    then show ?thesis using q by (intro exI [of _ "q # qs"]) auto
  qed
  show ?case
  proof (cases "PARTITION_ATTRIBUTE_MOUNTED p")
    case False
    then show ?thesis using Cons.prems by (intro rest [of p n st]) (simp_all add: can_dismount_def)
  next
    case True
    obtain ok q st1 where u: "CPartition_UnmountPartition env p st = (ok, q, st1)" by (metis prod_cases3)
    note f = UnmountPartition_exact [OF u True]
    have "unmount_loop env False s (kept @ [q]) ps (if ok then sub32 n 1 else n) st1 = (ps', n', st')"
      using Cons.prems True u by (cases ok) (simp_all del: One_nat_def)
    then show ?thesis using f by (intro rest) (auto split: if_splits)
  qed
qed

lemma UnmountStore_parts:
  assumes run: "CStore_UnmountStore env False s st = (ok, s', st')" and wf: "stores_wf A st (s # os)"
  shows "list_all2 (\<lambda>p q. q = p \<or> can_dismount p \<and> q = unmounted_part p) (m_pPartitionList s) (m_pPartitionList s')"
    "\<forall>dsk m. fst (fsd_DeinitEx env dsk m) \<Longrightarrow>
       m_pPartitionList s' = map (\<lambda>p. if can_dismount p then unmounted_part p else p) (m_pPartitionList s)"
    "ok \<longleftrightarrow> (\<forall>q \<in> set (m_pPartitionList s'). \<not> PARTITION_ATTRIBUTE_MOUNTED q)" "s_addr s' = s_addr s"
proof -
  obtain ps n st1 where l: "unmount_loop env False s [] (m_pPartitionList s) (m_dwMountCount s) st = (ps, n, st1)"
    by (metis prod_cases3)
  have r: "s' = s\<lparr>m_pPartitionList := ps, m_dwMountCount := n\<rparr>"
    using run unfolding CStore_UnmountStore_def l by auto
  show "list_all2 (\<lambda>p q. q = p \<or> can_dismount p \<and> q = unmounted_part p) (m_pPartitionList s) (m_pPartitionList s')"
    "\<forall>dsk m. fst (fsd_DeinitEx env dsk m) \<Longrightarrow>
       m_pPartitionList s' = map (\<lambda>p. if can_dismount p then unmounted_part p else p) (m_pPartitionList s)"
    using unmount_loop_parts [OF l] by (auto simp: r)
  obtain G where "s' = with_parts s G" "ok \<longleftrightarrow> mounted_count G = 0"
    using CStore_UnmountStore_wf [OF run wf] by metis
  then show "ok \<longleftrightarrow> (\<forall>q \<in> set (m_pPartitionList s'). \<not> PARTITION_ATTRIBUTE_MOUNTED q)" "s_addr s' = s_addr s"
    by (simp_all add: mounted_count_0)
qed

section \<open>With deletion, partitions can get lost\<close>

text \<open>
  A partition that cannot be unmounted is dropped from the list when a later one is deleted, and is
  still counted as mounted.
\<close>

lemma unmount_loses_partition:
  assumes "CPartition_UnmountPartition env p st = (False, p, st1)" "PARTITION_ATTRIBUTE_MOUNTED p"
    and "\<not> PARTITION_ATTRIBUTE_MOUNTED q" "m_pPartitionList s = [p, q]" "m_dwMountCount s = 1"
  shows "\<exists>st'. CStore_UnmountStore env True s st = (False, s\<lparr>m_pPartitionList := [], m_dwMountCount := 1\<rparr>, st')"
  using assms by (simp add: CStore_UnmountStore_def)

section \<open>Mounting and unmounting a partition\<close>

lemma new_handle_object_memory:
  assumes "\<forall>t. \<not> refuse env t" "stg_next st < INVALID_HANDLE_VALUE"
  shows "\<exists>m. new_handle_object env h st =
    (Some (stg_next st), st\<lparr>machine := m, stg_next := stg_next st + 1, handle_heap := (handle_heap st)(stg_next st \<mapsto> h)\<rparr>)"
  using assms by (auto simp: new_handle_object_def new_object_def on_machine_def alloc_object_def)

lemma CreateAPIHandle_memory:
  assumes "\<forall>t. \<not> refuse env t" "stg_next st < INVALID_HANDLE_VALUE"
  shows "\<exists>m. CreateAPIHandle env api a st =
    (stg_next st, st\<lparr>machine := m, stg_next := stg_next st + 1, api_handles := (api_handles st)(stg_next st \<mapsto> (api, a))\<rparr>)"
  using assms by (auto simp: CreateAPIHandle_def new_object_def on_machine_def alloc_object_def)

text \<open>Closing the handle that was just made.\<close>

lemma close_new_handle:
  assumes "api_handles st h = Some (STRG, a)" "handle_heap st a = Some obj" "dwSig obj = PART_HANDLE_SIG" "h_pStore obj = Addr x"
    "m_pRootHandle st x = Some (a # l)"
  shows "snd (CloseStoreHandle h st) =
    st\<lparr>api_handles := (api_handles st)(h := None), m_pRootHandle := (m_pRootHandle st)(x \<mapsto> l),
       handle_heap := (handle_heap st)(a := None)\<rparr>"
  using assms by (simp add: CloseStoreHandle_def STG_CloseHandle_def drop_store_handle_def delete_handle_def)

end
