(* ===== verification/Store_Device_Theorems.thy ===== *)
theory Store_Device_Theorems
  imports Store_Theorems Store_Devices_Back
begin

text \<open>
  The properties of mounting and unmounting: a store that is unmounted, a device that comes back, a
  partition that is mounted and unmounted.
\<close>

section \<open>A device that comes back\<close>

lemma take_over_detached:
  assumes "\<forall>d v. m_pDsk p = Some d \<longrightarrow> pVol d = Some v \<longrightarrow> \<not> VOL_DETACHED v"
  shows "take_over_partition (set_detached True p) q = p\<lparr>m_dwPartitionId := m_dwPartitionId q, p_dwStoreId := p_dwStoreId q\<rparr>"
proof -
  have "set_detached False (set_detached True p) = p"
  proof (cases "m_pDsk p")
    case (Some d)
    then show ?thesis using assms by (cases "pVol d") (auto simp: set_detached_def)
  qed (simp add: set_detached_def)
  then show ?thesis by (simp add: take_over_partition_def)
qed

lemma take_over_all:
  assumes "length ps = length qs" "\<forall>p \<in> set ps. \<forall>d v. m_pDsk p = Some d \<longrightarrow> pVol d = Some v \<longrightarrow> \<not> VOL_DETACHED v"
  shows "list_all2 (\<lambda>p q. \<exists>i j. q = p\<lparr>m_dwPartitionId := i, p_dwStoreId := j\<rparr>) ps
           (map2 take_over_partition (map (set_detached True) ps) qs)"
  using assms by (induction ps qs rule: list_induct2) (auto simp: take_over_detached)

text \<open>C35. A device whose store has vanished comes back before the store has been deleted: a device
of the name appears, and its store has the identification, the geometry and the partitions of the
detached store and of no other.  Then the old store object stays, with the new device; its
partitions are as they were before the device vanished, mounted ones with their disks, up to their
numbers in the driver; and every handle that was open is still open and stands where it stood.\<close>
theorem device_returns:
  assumes "mgr_reachable g" "FindStore g name = Some s" "\<not> STORE_FLAG_DETACHED (m_dwFlags s)"
    and "UnmountStore name g = (True, g1)"
    and "\<forall>t. FindStore g1 name = Some t \<longrightarrow> STORE_FLAG_DETACHED (m_dwFlags t)"
    and "new_object env (stg g1) = (Some a, st)"
    and "CStore_MountStore env False (CStore_new env a name) (stg (AddStore (CStore_new env a name) (g1\<lparr>stg := st\<rparr>))) =
           Some (ERROR_SUCCESS, new, st2)"
    and "\<forall>t \<in> set (g_pStoreRoot g1). CompareStore new t \<and> same_partitions (m_pPartitionList t) (m_pPartitionList new) \<longleftrightarrow>
           s_addr t = s_addr s"
    and "m_pDskStore s \<noteq> None \<longrightarrow> m_pDskStore new \<noteq> None"
    and "\<forall>p \<in> set (m_pPartitionList s). \<forall>d v. m_pDsk p = Some d \<longrightarrow> pVol d = Some v \<longrightarrow> \<not> VOL_DETACHED v"
  shows "\<exists>g2 s2. MountStore env name g1 = Some (True, g2) \<and> map s_addr (g_pStoreRoot g2) = map s_addr (g_pStoreRoot g) \<and>
     store_at g2 (s_addr s) = Some s2 \<and> m_szDeviceName s2 = name \<and> \<not> STORE_FLAG_DETACHED (m_dwFlags s2) \<and>
     m_hDisk s2 = m_hDisk new \<and> m_dwStoreId s2 = m_dwStoreId new \<and> m_dwMountCount s2 = m_dwMountCount s \<and>
     list_all2 (\<lambda>p q. \<exists>i j. q = p\<lparr>m_dwPartitionId := i, p_dwStoreId := j\<rparr>) (m_pPartitionList s) (m_pPartitionList s2) \<and>
     handle_heap (stg g2) = handle_heap (stg g) \<and> g_pRootHandle (stg g2) = g_pRootHandle (stg g) \<and>
     api_handles (stg g2) = api_handles (stg g) \<and>
     (\<forall>t \<in> set (g_pStoreRoot g). handles_of (stg g2) t = handles_of (stg g) t)"
proof -
  note wf = mgr_reachable_wf [OF assms(1)]
  have s: "s \<in> set (g_pStoreRoot g)" using assms(2) by (auto simp: FindStore_def find_Some_iff)
  let ?old = "detached_store s"
  have a_old: "s_addr ?old = s_addr s" by (simp add: detached_store_def)
  have g1: "g1 = (put_store ?old g)\<lparr>STOREMGR_EVENT_UPDATETIMEOUT := True, g_hPNPUpdateEvent := True\<rparr>"
    using assms(4) UnmountStore_detached [OF assms(2)] by simp
  have stg1: "stg g1 = stg g" and root1: "g_pStoreRoot g1 = g_pStoreRoot (put_store ?old g)" by (simp_all add: g1)
  have wf1: "mgr_wf g1" by (rule UnmountStore_wf [OF assms(4) wf])
  have old_in: "?old \<in> set (g_pStoreRoot g1)"
    unfolding root1 using s a_old by (force simp: put_store_def)
  have pending: "\<exists>t \<in> set (g_pStoreRoot g1). STORE_FLAG_DETACHED (m_dwFlags t)"
    by (rule bexI [OF _ old_in]) (simp add: detached_store_def)
  define new0 where "new0 = CStore_new env a name"
  define g2 where "g2 = AddStore new0 (g1\<lparr>stg := st\<rparr>)"
  have add: "stores_wf (store_addrs (g_pStoreRoot g1)) (stg g2) (new0 # g_pStoreRoot g1)" "a \<notin> store_addrs (g_pStoreRoot g1)"
    using AddStore_wf(1) [OF assms(6) wf1, of name] AddStore_wf(2) [OF assms(6) wf1] by (simp_all add: g2_def new0_def)
  have m: "CStore_MountStore env False new0 (stg g2) = Some (ERROR_SUCCESS, new, st2)"
    using assms(7) by (simp add: g2_def new0_def)
  note k = CStore_MountStore_wf [OF m add(1)]
  have un0: "all_unmounted new0" by (simp add: new0_def CStore_new_def all_unmounted_def)
  note q = MountStore_quiet [OF m un0]
  have a: "s_addr new = a" using k(2) by (simp add: new0_def CStore_new_def)
  have ne: "s_addr s \<noteq> a" using add(2) old_in a_old by (metis imageI store_addrs_def)
  define g3 where "g3 = put_store new (g2\<lparr>stg := st2\<rparr>)"
  have root2: "g_pStoreRoot g2 = g_pStoreRoot g1 @ [new0]" by (simp add: g2_def AddStore_def)
  have "map (\<lambda>t. if s_addr t = a then new else t) (g_pStoreRoot g1) = g_pStoreRoot g1"
    using add(2) by (intro map_idI) (auto simp: store_addrs_def)
  then have root3: "g_pStoreRoot g3 = g_pStoreRoot g1 @ [new]"
    by (simp add: g3_def put_store_def root2 a) (simp add: new0_def CStore_new_def)
  have stg3: "stg g3 = st2" by (simp add: g3_def put_store_def)
  have twin: "find_twin new g3 = Some ?old"
  proof -
    obtain xs ys where xy: "g_pStoreRoot g1 = xs @ ?old # ys" "?old \<notin> set xs" using old_in by (meson split_list_first)
    let ?P = "\<lambda>t. s_addr t \<noteq> s_addr new \<and> CompareStore new t \<and> same_partitions (m_pPartitionList t) (m_pPartitionList new)"
    have P: "?P t \<longleftrightarrow> s_addr t = s_addr s" if "t \<in> set (g_pStoreRoot g1)" for t
      using assms(8) that ne a by auto
    have "s_addr t \<noteq> s_addr s" if "t \<in> set xs" for t
      using mgr_wf_distinct [OF wf1] that xy a_old by (auto simp: image_iff)
    then have "find ?P xs = None" using P xy by (auto simp: find_None_iff)
    moreover have "?P ?old" using P [OF old_in] a_old by simp
    ultimately show ?thesis unfolding find_twin_def root3 xy(1) by (simp add: find_append)
  qed
  have len: "length (m_pPartitionList s) = length (m_pPartitionList new)"
  proof -
    have "same_partitions (m_pPartitionList ?old) (m_pPartitionList new)" using assms(8) old_in a_old by blast
    then show ?thesis by (auto simp: same_partitions_def detached_store_def dest: list_all2_lengthD)
  qed
  have "m_pDskStore ?old = m_pDskStore s" by (simp add: detached_store_def)
  then have "reattach env ?old new name g3 \<noteq> None"
    using assms(9) by (auto simp: reattach_def Let_def split: prod.splits)
  then obtain g4 where re: "reattach env ?old new name g3 = Some g4" by auto
  have run: "MountStore env name g1 = Some (True, g4)"
  proof -
    have there: "\<not> (case FindStore g1 name of Some s \<Rightarrow> \<not> STORE_FLAG_DETACHED (m_dwFlags s) | None \<Rightarrow> False)"
      using assms(5) by (auto split: option.splits)
    have p: "(\<exists>s \<in> set (g_pStoreRoot g1). STORE_FLAG_DETACHED (m_dwFlags s)) = True" using pending by simp
    show ?thesis
      unfolding MountStore_def if_not_P [OF there] Let_def assms(6) prod.case option.case p new0_def [symmetric] g2_def [symmetric]
        simp_thms m g3_def [symmetric] twin re by simp
  qed
  have w3: "stores_wf (store_addrs (g_pStoreRoot g1)) (stg g3) (new # g_pStoreRoot g1)" using k(1) by (simp add: stg3)
  have map4: "map s_addr (g_pStoreRoot g4) = map s_addr (g_pStoreRoot g1)"
    by (rule reattach_wf(2) [OF re root3 _ w3 old_in]) (use add(2) a len in \<open>simp_all add: detached_store_def\<close>)
  have st_quiet: "quiet (stg g) st" using new_object_quiet [OF assms(6)] by (simp add: stg1)
  have h2: "handle_heap (stg g2) = handle_heap (stg g)" "g_pRootHandle (stg g2) = g_pRootHandle (stg g)"
    "api_handles (stg g2) = api_handles (stg g)" "m_pRootHandle (stg g2) = (m_pRootHandle (stg g))(a \<mapsto> [])"
    using st_quiet by (simp_all add: g2_def AddStore_def quiet_def new0_def CStore_new_def)
  have empty: "handles_of (stg g3) new = []" using q(1) h2(4) by (simp add: handles_of_def quiet_def stg3 a)
  note h4 = reattach_handles [OF re q(2) empty]
  have at3: "store_at g3 (s_addr ?old) = Some ?old"
    using store_at_member [OF wf1 old_in] by (simp add: store_at_def root3 find_append)
  have at4: "store_at g4 (s_addr s) = Some (take_over ?old new name)" using h4(1) [OF _ at3] a_old ne a by simp
  have parts: "list_all2 (\<lambda>p q. \<exists>i j. q = p\<lparr>m_dwPartitionId := i, p_dwStoreId := j\<rparr>) (m_pPartitionList s)
      (m_pPartitionList (take_over ?old new name))"
    using take_over_all [OF len assms(10)] by (simp add: take_over_def detached_store_def)
  have hs: "handles_of (stg g4) t = handles_of (stg g) t" if "t \<in> set (g_pStoreRoot g)" for t
  proof -
    have "s_addr t \<in> store_addrs (g_pStoreRoot g1)"
      unfolding root1 put_store_addrs using that by (simp add: store_addrs_def)
    then have "s_addr t \<noteq> a" using add(2) by auto
    then show ?thesis using h4(5) q(1) h2(4) a a_old ne by (simp add: handles_of_def quiet_def stg3)
  qed
  have maps: "map s_addr (g_pStoreRoot g1) = map s_addr (g_pStoreRoot g)"
    unfolding root1 by (rule put_store_root(2) [OF s mgr_wf_distinct [OF wf] a_old])
  show ?thesis
    using run map4 maps at4 parts hs h4(2-4) q(1) h2 a_old ne a
    by (intro exI [of _ g4] exI [of _ "take_over ?old new name"])
       (simp add: take_over_def detached_store_def quiet_def stg3)
qed

text \<open>The device of the small system is taken out and put back in.\<close>

lemma demo_back:
  assumes m: "demo_like m" and st: "stg_next st = 6" "m_pRootHandle st = r"
  shows "\<exists>m'. CStore_MountStore demo_env False (CStore_new demo_env 5 ''DSK1:'') (st\<lparr>machine := m\<rparr>) =
    Some (ERROR_SUCCESS, (demo_store 5)\<lparr>m_pPartitionList := [demo_part 6], m_dwMountCount := 0\<rparr>,
      st\<lparr>stg_next := 7, machine := m'\<rparr>)"
proof -
  have "\<exists>n. CStore_LoadPartition demo_env ''PART00'' False f (demo_counted 5) ((st\<lparr>machine := m\<rparr>)\<lparr>machine := m2\<rparr>) =
      (True, (demo_counted 5)\<lparr>m_pPartitionList := [demo_part 6], m_dwMountCount := 0\<rparr>,
       (st\<lparr>stg_next := 7\<rparr>)\<lparr>machine := m2\<lparr>mc_tick := n\<rparr>\<rparr>)" if "demo_like m2" for m2 f
  proof -
    have "(demo_counted 5)\<lparr>m_pPartitionList := [demo_part 6], m_dwMountCount := 0\<rparr> = (demo_counted 5)\<lparr>m_pPartitionList := [demo_part 6]\<rparr>"
      by (simp add: demo_counted_def demo_driven_def demo_set_def demo_opened_def CStore_new_def)
    then show ?thesis
      using demo_load_unmounted [of "st\<lparr>machine := m2\<rparr>" f 5] st
      by (intro exI [of _ "mc_tick m2 + 1"]) (simp add: INVALID_HANDLE_VALUE_def)
  qed
  from demo_MountStore [of "st\<lparr>machine := m\<rparr>", OF _ this] m show ?thesis by auto
qed

theorem device_returns_witness:
  "\<exists>m g2 s2 p. MountStore demo_env ''DSK1:'' (snd (UnmountStore ''DSK1:'' (demo_first m))) = Some (True, g2) \<and>
     map s_addr (g_pStoreRoot g2) = [1] \<and> store_at g2 1 = Some s2 \<and> m_pPartitionList s2 = [p] \<and>
     PARTITION_ATTRIBUTE_MOUNTED p \<and> m_pDsk p = Some (demo_dsk 2) \<and> handle_heap (stg g2) 3 = Some (demo_handle 1 2)"
proof -
  obtain m where m: "demo_like m" "mgr_reachable (demo_first m)" by (rule demo_reachable)
  let ?s = "(demo_store 1)\<lparr>m_pPartitionList := [demo_mounted_part 2 4], m_dwMountCount := 1\<rparr>"
  have root: "g_pStoreRoot (demo_first m) = [?s]" "machine (stg (demo_first m)) = m" "stg_next (stg (demo_first m)) = 5"
    by (simp_all add: demo_first_def)
  have f: "FindStore (demo_first m) ''DSK1:'' = Some ?s" by (simp add: FindStore_def root wcsicmp_equal_def)
  define g1 where "g1 = snd (UnmountStore ''DSK1:'' (demo_first m))"
  have u: "UnmountStore ''DSK1:'' (demo_first m) = (True, g1)" by (simp add: g1_def UnmountStore_detached [OF f])
  have g1: "g_pStoreRoot g1 = [detached_store ?s]" "stg g1 = stg (demo_first m)"
    by (simp_all add: g1_def UnmountStore_detached [OF f] put_store_def root) (simp_all add: detached_store_def)
  have f1: "FindStore g1 ''DSK1:'' = None" by (simp add: FindStore_def g1 detached_store_def wcsicmp_equal_def)
  define st where "st = (stg (demo_first m))\<lparr>machine := m\<lparr>mc_tick := mc_tick m + 1\<rparr>, stg_next := 6\<rparr>"
  have n: "new_object demo_env (stg g1) = (Some 5, st)"
    by (simp add: new_object_def on_machine_def g1 st_def INVALID_HANDLE_VALUE_def demo_first_def)
  define st1 where "st1 = stg (AddStore (CStore_new demo_env 5 ''DSK1:'') (g1\<lparr>stg := st\<rparr>))"
  have st1: "stg_next st1 = 6" "demo_like (machine st1)" using m(1) by (simp_all add: st1_def AddStore_def st_def demo_like_def)
  let ?new = "(demo_store 5)\<lparr>m_pPartitionList := [demo_part 6], m_dwMountCount := 0\<rparr>"
  obtain m' where mnt: "CStore_MountStore demo_env False (CStore_new demo_env 5 ''DSK1:'') st1 =
      Some (ERROR_SUCCESS, ?new, st1\<lparr>stg_next := 7, machine := m'\<rparr>)"
    using demo_back [OF st1(2), of st1] st1(1) by auto
  have cmp: "CompareStore ?new (detached_store ?s)"
    by (simp add: CompareStore_def detached_store_def demo_store_def demo_counted_def demo_driven_def demo_set_def demo_opened_def
      CStore_new_def same_storage_id_def)
  have same: "same_partitions (m_pPartitionList (detached_store ?s)) (m_pPartitionList ?new)"
    by (simp add: same_partitions_def detached_store_def set_detached_def)
  have disk: "m_pDskStore ?s = None"
    by (simp add: demo_store_def demo_counted_def demo_driven_def demo_set_def demo_opened_def CStore_new_def)
  from device_returns [OF m(2) f _ u _ n mnt [unfolded st1_def]] f1 cmp same disk g1
  obtain g2 s2 where r: "MountStore demo_env ''DSK1:'' g1 = Some (True, g2)" "map s_addr (g_pStoreRoot g2) = map s_addr [?s]"
    "store_at g2 (s_addr ?s) = Some s2"
    "list_all2 (\<lambda>p q. \<exists>i j. q = p\<lparr>m_dwPartitionId := i, p_dwStoreId := j\<rparr>) (m_pPartitionList ?s) (m_pPartitionList s2)"
    "handle_heap (stg g2) = handle_heap (stg (demo_first m))"
    by (fastforce simp: root demo_dsk_def detached_store_def)
  then obtain p i j where p: "m_pPartitionList s2 = [p]" "p = (demo_mounted_part 2 4)\<lparr>m_dwPartitionId := i, p_dwStoreId := j\<rparr>"
    by (auto simp: list_all2_Cons1)
  have "PARTITION_ATTRIBUTE_MOUNTED p" "m_pDsk p = Some (demo_dsk 2)" by (simp_all add: p(2))
  with r p(1) show ?thesis unfolding g1_def [symmetric]
    by (intro exI [of _ m] exI [of _ g2] exI [of _ s2] exI [of _ p]) (simp add: g1_def demo_first_def)
qed

section \<open>Unmounting a store\<close>

text \<open>C39. Unmounting the store of a handle.  Every partition that is not mounted, or whose flags forbid
to unmount it, stays as it is; each other one stays as it is or loses its file system and its mark,
and it does lose them when every file system lets its disk go.  The mount count of the store is the
number of partitions that are still mounted.  The call succeeds exactly when this is 0, and else fails
with \<open>ERROR_GEN_FAILURE\<close>; the partitions stay in the list, and the other stores do not change.\<close>
theorem DismountStore_exact:
  assumes "mgr_reachable g" "trusted_caller env" "IsValidHandle g a = Some h" "IsValidStore g (h_pStore h) = Some s"
  shows "\<exists>g1 s1. STG_DismountStore env a g =
       (if \<forall>q \<in> set (m_pPartitionList s1). \<not> PARTITION_ATTRIBUTE_MOUNTED q then (True, g1)
        else (False, set_last_error ERROR_GEN_FAILURE g1)) \<and>
     store_at g1 (s_addr s) = Some s1 \<and>
     m_dwMountCount s1 = length (filter PARTITION_ATTRIBUTE_MOUNTED (m_pPartitionList s1)) \<and>
     list_all2 (\<lambda>p q. q = p \<or> can_dismount p \<and> q = unmounted_part p) (m_pPartitionList s) (m_pPartitionList s1) \<and>
     ((\<forall>dsk m. fst (fsd_DeinitEx env dsk m)) \<longrightarrow>
        m_pPartitionList s1 = map (\<lambda>p. if can_dismount p then unmounted_part p else p) (m_pPartitionList s)) \<and>
     (\<forall>t \<in> set (g_pStoreRoot g). t \<noteq> s \<longrightarrow> store_at g1 (s_addr t) = Some t)"
proof -
  note wf = mgr_reachable_wf [OF assms(1)]
  have s: "s \<in> set (g_pStoreRoot g)" using IsValidStore_in [OF assms(4)] by simp
  have wfs: "stores_wf (store_addrs (g_pStoreRoot g)) (stg g) (s # remove1 s (g_pStoreRoot g))"
    using wf s by (simp add: mgr_wf_def stores_wf_focus)
  obtain ok s1 st1 where u: "CStore_UnmountStore env False s (stg g) = (ok, s1, st1)" by (metis prod_cases3)
  note f = UnmountStore_parts [OF u wfs]
  let ?g = "put_store s1 (g\<lparr>stg := st1\<rparr>)"
  have at: "store_at ?g (s_addr t) = Some (if t = s then s1 else t)" if "t \<in> set (g_pStoreRoot g)" for t
    using store_at_put_store [OF wf s f(4) that] by (simp add: put_store_def store_at_def)
  have "ERROR_GEN_FAILURE \<noteq> ERROR_SUCCESS" by (simp add: stg_error_defs)
  then have run: "STG_DismountStore env a g = (if ok then (True, ?g) else (False, set_last_error ERROR_GEN_FAILURE ?g))"
    using assms(2-4) u by (simp add: STG_DismountStore_def trusted_call_def on_store_def finish_def)
  have r: "STG_DismountStore env a g = (if \<forall>q \<in> set (m_pPartitionList s1). \<not> PARTITION_ATTRIBUTE_MOUNTED q then (True, ?g)
      else (False, set_last_error ERROR_GEN_FAILURE ?g))" using run f(3) by simp
  have others: "\<forall>t \<in> set (g_pStoreRoot g). t \<noteq> s \<longrightarrow> store_at ?g (s_addr t) = Some t" using at by simp
  have "mgr_wf (run_call env (Dismount_Store a) g)"
    by (rule mgr_step_wf [OF mgr_step.call wf]) simp
  then have "stores_wf (store_addrs (g_pStoreRoot ?g)) (stg (run_call env (Dismount_Store a) g)) (g_pStoreRoot ?g)"
    using run by (auto simp: mgr_wf_def set_last_error_def split: if_splits)
  moreover have "s1 \<in> set (g_pStoreRoot ?g)" using at [OF s] store_at_in by fastforce
  ultimately have count: "m_dwMountCount s1 = length (filter PARTITION_ATTRIBUTE_MOUNTED (m_pPartitionList s1))"
    using stores_wfD(4) by (fastforce simp: parts_wf_def mounted_count_def)
  show ?thesis
    by (rule exI [of _ ?g], rule exI [of _ s1], intro conjI impI r f(1,2) others count) (use at [OF s] in simp_all)
qed

theorem DismountStore_exact_witness:
  "\<exists>m g1 s1. STG_DismountStore demo_env 3 (demo_first m) = (True, g1) \<and> store_at g1 1 = Some s1 \<and>
     m_dwMountCount s1 = 0 \<and> m_pPartitionList s1 = [unmounted_part (demo_mounted_part 2 4)]"
proof -
  obtain m where m: "mgr_reachable (demo_first m)" by (rule demo_reachable)
  let ?s = "(demo_store 1)\<lparr>m_pPartitionList := [demo_mounted_part 2 4], m_dwMountCount := 1\<rparr>"
  have v: "IsValidHandle (demo_first m) 3 = Some (demo_handle 1 2)" "IsValidStore (demo_first m) (h_pStore (demo_handle 1 2)) = Some ?s"
    by (simp_all add: IsValidHandle_def IsValidStore_def store_at_def demo_first_def demo_handle_def)
  from DismountStore_exact [OF m _ v, of demo_env] obtain g1 s1 where r: "STG_DismountStore demo_env 3 (demo_first m) =
       (if \<forall>q \<in> set (m_pPartitionList s1). \<not> PARTITION_ATTRIBUTE_MOUNTED q then (True, g1)
        else (False, set_last_error ERROR_GEN_FAILURE g1))" "store_at g1 (s_addr ?s) = Some s1"
     "m_dwMountCount s1 = length (filter PARTITION_ATTRIBUTE_MOUNTED (m_pPartitionList s1))"
     "m_pPartitionList s1 = map (\<lambda>p. if can_dismount p then unmounted_part p else p) (m_pPartitionList ?s)" by auto
  have "m_pPartitionList s1 = [unmounted_part (demo_mounted_part 2 4)]" using r(4) by (simp add: can_dismount_def)
  then show ?thesis using r by (auto simp: unmounted_part_def)
qed

section \<open>Mounting and unmounting a partition\<close>

lemma partition_at_mid:
  assumes "m_pPartitionList s = xs @ q # ys" "\<forall>r \<in> set xs. p_addr r \<noteq> p_addr q"
  shows "partition_at s (p_addr q) = Some q"
proof -
  have "find (\<lambda>p. p_addr p = p_addr q) xs = None" using assms(2) by (auto simp: find_None_iff)
  then show ?thesis by (simp add: partition_at_def assms(1) find_append)
qed

lemma partition_at_other:
  assumes "m_pPartitionList s = xs @ q # ys" "m_pPartitionList t = xs @ r # ys" "p_addr r = p_addr q" "x \<noteq> p_addr q"
  shows "partition_at t x = partition_at s x"
  using assms by (simp add: partition_at_def find_append split: option.splits)

text \<open>C40. A partition that was not mounted is mounted and then unmounted, while memory suffices.  In
between it is mounted with a disk, one more partition is counted, and the store has one more handle,
that of the file system.  Afterwards the count, the other partitions, all handles that were there
before and their lists are as before; the partition is unmounted and keeps its name.\<close>
theorem mount_unmount_partition:
  assumes "mgr_reachable g" "s \<in> set (g_pStoreRoot g)" "IsValidPartition s ptr = Some p" "\<not> PARTITION_ATTRIBUTE_MOUNTED p"
    and "\<forall>t. \<not> refuse env t" "stg_next (stg g) + 1 < INVALID_HANDLE_VALUE"
    and "CStore_MountPartition env ptr s (stg g) = (ERROR_SUCCESS, s1, st1)"
    and "CStore_UnmountPartition env ptr s1 st1 = (ERROR_SUCCESS, s2, st2)"
  shows "m_dwMountCount s1 = m_dwMountCount s + 1 \<and> m_dwMountCount s2 = m_dwMountCount s \<and>
    (\<exists>p1. IsValidPartition s1 ptr = Some p1 \<and> PARTITION_ATTRIBUTE_MOUNTED p1 \<and> m_pDsk p1 \<noteq> None) \<and>
    (\<exists>p2. IsValidPartition s2 ptr = Some p2 \<and> \<not> PARTITION_ATTRIBUTE_MOUNTED p2 \<and> m_pDsk p2 = None \<and>
          m_szPartitionName p2 = m_szPartitionName p) \<and>
    (\<forall>x. ptr \<noteq> Addr x \<longrightarrow> partition_at s2 x = partition_at s x) \<and>
    length (handles_of st1 s) = length (handles_of (stg g) s) + 1 \<and>
    m_pRootHandle st2 = m_pRootHandle (stg g) \<and> g_pRootHandle st2 = g_pRootHandle (stg g) \<and>
    (\<forall>a < stg_next (stg g). handle_heap st2 a = handle_heap (stg g) a \<and> api_handles st2 a = api_handles (stg g) a)"
proof -
  let ?st = "stg g" and ?n = "stg_next (stg g)" and ?l = "handles_of (stg g) s"
  note wf = mgr_reachable_wf [OF assms(1)]
  have wfs: "stores_wf (store_addrs (g_pStoreRoot g)) ?st (s # remove1 s (g_pStoreRoot g))"
    using wf assms(2) by (simp add: mgr_wf_def stores_wf_focus)
  have pw: "parts_wf ?n s" using stores_wfD(4) [OF wfs] by simp
  have v: "ptr = Addr (p_addr p)" "partition_at s (p_addr p) = Some p" using IsValidPartition_at [OF assms(3)] by simp_all
  obtain xs ys where sp: "m_pPartitionList s = xs @ p # ys" "\<And>r. r \<in> set xs \<union> set ys \<Longrightarrow> p_addr r \<noteq> p_addr p"
    using partition_at_split [OF v(2)] pw by (metis parts_wf_def)
  obtain p' where p': "CStore_FindPartition s (m_szPartitionName p) = Some p'"
  proof (cases "CStore_FindPartition s (m_szPartitionName p)")
    case None
    then show ?thesis by (auto simp: CStore_FindPartition_def find_None_iff sp(1) wcsicmp_equal_def)
  qed
  let ?o = "partition_handle s (Addr (p_addr p')) (current_process env) False True"
  obtain m1 where n1: "new_handle_object env ?o ?st =
      (Some ?n, ?st\<lparr>machine := m1, stg_next := ?n + 1, handle_heap := (handle_heap ?st)(?n \<mapsto> ?o)\<rparr>)"
    using new_handle_object_memory [OF assms(5), of ?st ?o] assms(6) by auto
  let ?stA = "?st\<lparr>machine := m1, stg_next := ?n + 1, handle_heap := (handle_heap ?st)(?n \<mapsto> ?o),
                m_pRootHandle := (m_pRootHandle ?st)(s_addr s \<mapsto> ?n # ?l)\<rparr>"
  obtain m2 where c: "CreateAPIHandle env STRG ?n ?stA =
      (?n + 1, ?stA\<lparr>machine := m2, stg_next := ?n + 2, api_handles := (api_handles ?st)(?n + 1 \<mapsto> (STRG, ?n))\<rparr>)"
    using CreateAPIHandle_memory [OF assms(5), of ?stA STRG ?n] assms(6) by auto
  let ?stB = "?stA\<lparr>machine := m2, stg_next := ?n + 2, api_handles := (api_handles ?st)(?n + 1 \<mapsto> (STRG, ?n))\<rparr>"
  have op: "CStore_OpenPartition env s (m_szPartitionName p) (current_process env) ?st = (ERROR_SUCCESS, ?n + 1, ?stB)"
  proof -
    have "put_store_handles s (AddHandleToList ?n (handles_of st s)) st = st\<lparr>m_pRootHandle := (m_pRootHandle ?st)(s_addr s \<mapsto> ?n # ?l)\<rparr>"
      if "m_pRootHandle st = m_pRootHandle ?st" for st
      using that by (simp add: put_store_handles_def AddHandleToList_def handles_of_def)
    then show ?thesis using n1 c by (simp add: CStore_OpenPartition_def p' Let_def)
  qed
  obtain ok p1 m3 where mp: "CPartition_MountPartition env (driver_of env s) (CStore_GetStoreInfo s) (?n + 1) (m_szRootRegKey s)
      (m_szDefaultFileSystem s) (s_dwMountFlags s) (m_hActivityEvent s) False p (machine ?stB) = (ok, p1, m3)" by (metis prod_cases3)
  note f1 = MountPartition_facts [OF mp]
  have codes: "ERROR_GEN_FAILURE \<noteq> ERROR_SUCCESS" by (simp add: stg_error_defs)
  have r1: "ok" "s1 = (put_partition p1 s)\<lparr>m_dwMountCount := add32 (m_dwMountCount s) 1\<rparr>" "st1 = ?stB\<lparr>machine := m3\<rparr>"
  proof -
    have "mount_at env (m_szPartitionName p) False p s ?st =
        (ok, if ok then (put_partition p1 s)\<lparr>m_dwMountCount := add32 (m_dwMountCount s) 1\<rparr> else put_partition p1 s, ?stB\<lparr>machine := m3\<rparr>)"
      unfolding mount_at_def op prod.case Let_def mp by simp
    then show "ok" "s1 = (put_partition p1 s)\<lparr>m_dwMountCount := add32 (m_dwMountCount s) 1\<rparr>" "st1 = ?stB\<lparr>machine := m3\<rparr>"
      using assms(3,4,7) codes by (auto simp: CStore_MountPartition_def split: if_splits)
  qed
  have s1: "m_pPartitionList s1 = xs @ p1 # ys" "s_addr s1 = s_addr s"
    using put_partition_split [OF sp(1), of p1] sp(2) f1(1) by (simp_all add: r1(2))
  have at1: "IsValidPartition s1 ptr = Some p1"
    using partition_at_mid [OF s1(1)] sp(2) f1(1) v(1) by (simp add: IsValidPartition_def)
  have m1': "PARTITION_ATTRIBUTE_MOUNTED p1" "m_pDsk p1 \<noteq> None" using f1 r1(1) by simp_all
  obtain ok2 p2 st2' where up: "CPartition_UnmountPartition env p1 st1 = (ok2, p2, st2')" by (metis prod_cases3)
  note f2 = UnmountPartition_facts [OF up]
  have r2: "ok2" "s2 = put_partition p2 (s1\<lparr>m_dwMountCount := sub32 (m_dwMountCount s1) 1\<rparr>)" "st2 = st2'"
    using assms(8) codes at1 m1'(1) up by (auto simp: CStore_UnmountPartition_def split: bool.splits if_splits)
  have s2: "m_pPartitionList s2 = xs @ p2 # ys"
    using put_partition_split [of "s1\<lparr>m_dwMountCount := sub32 (m_dwMountCount s1) 1\<rparr>" xs p1 ys p2] s1 sp(2) f1(1) f2(1) by (simp add: r2(2))
  have "\<exists>m4. st2 = snd (CloseStoreHandle (m_hPartition p1) (st1\<lparr>machine := m4\<rparr>))"
    using up r2(1,3) by (auto simp: CPartition_UnmountPartition_def Let_def on_machine_def split: if_splits option.splits prod.splits)
      (metis stg.surjective stg.update_convs(1))
  then obtain m4 where "st2 = snd (CloseStoreHandle (?n + 1) (st1\<lparr>machine := m4\<rparr>))" using f1(4) by auto
  moreover have "snd (CloseStoreHandle (?n + 1) (st1\<lparr>machine := m4\<rparr>)) = (st1\<lparr>machine := m4\<rparr>)\<lparr>api_handles := (api_handles st1)(?n + 1 := None),
      m_pRootHandle := (m_pRootHandle st1)(s_addr s \<mapsto> ?l), handle_heap := (handle_heap st1)(?n := None)\<rparr>"
    using close_new_handle [of "st1\<lparr>machine := m4\<rparr>" "?n + 1" ?n ?o "s_addr s" ?l] by (simp add: r1(3) partition_handle_def)
  ultimately have st2: "handle_heap st2 = (handle_heap ?st)(?n := None)" "api_handles st2 = (api_handles ?st)(?n + 1 := None)"
    "m_pRootHandle st2 = (m_pRootHandle ?st)(s_addr s \<mapsto> ?l)" "g_pRootHandle st2 = g_pRootHandle ?st" by (simp_all add: r1(3))
  have root: "(m_pRootHandle ?st)(s_addr s \<mapsto> ?l) = m_pRootHandle ?st"
    using handles_of_wf(1) [OF wfs] by (simp add: fun_upd_idem)
  have w1: "stores_wf (store_addrs (g_pStoreRoot g)) st1 (s1 # remove1 s (g_pStoreRoot g))"
    by (rule keeps_storesD(1) [OF MountPartition_keeps assms(7) wfs])
  have w2: "stores_wf (store_addrs (g_pStoreRoot g)) st2 (s2 # remove1 s (g_pStoreRoot g))"
    by (rule keeps_storesD(1) [OF UnmountPartition_keeps assms(8) w1])
  have counts: "m_dwMountCount s1 = m_dwMountCount s + 1" "m_dwMountCount s2 = m_dwMountCount s"
    using pw stores_wfD(4) [OF w1, of s1] stores_wfD(4) [OF w2, of s2] assms(4) m1'(1) f2(2) r2(1)
    by (simp_all add: parts_wf_def sp(1) s1(1) s2)
  have at2: "IsValidPartition s2 ptr = Some p2"
    using partition_at_mid [OF s2] sp(2) f1(1) f2(1) v(1) by (simp add: IsValidPartition_def)
  have name: "m_szPartitionName p2 = m_szPartitionName p"
    using up r2(1) f1(5) by (auto simp: CPartition_UnmountPartition_def Let_def split: if_splits option.splits prod.splits)
  have others: "\<forall>x. ptr \<noteq> Addr x \<longrightarrow> partition_at s2 x = partition_at s x"
    using partition_at_other [OF sp(1) s2] f1(1) f2(1) v(1) by auto
  have more: "length (handles_of st1 s) = length ?l + 1" by (simp add: r1(3) handles_of_def)
  show ?thesis
    using counts at1 at2 m1' f2(2) r2(1) name others more st2 root by auto
qed

lemma demo_mount_any:
  assumes m: "demo_like m" and p: "m_pi p = demo_partinfo"
  shows "\<exists>q. CPartition_MountPartition demo_env d si h demo_root g_szDEFAULT_FILESYSTEM 0 ev f p m = (True, q, m) \<and> p_dwMountFlags q = 0"
proof -
  let ?p = "p\<lparr>m_hPartition := h, m_szRootKey := demo_root, m_szFileSys := ''FATFS'', p_dwMountFlags := 0\<rparr>"
  have "mount_settings demo_env m demo_root g_szDEFAULT_FILESYSTEM 0 (p\<lparr>m_hPartition := h\<rparr>) = (False, ?p)"
    by (simp add: mount_settings_def demo_root_copy Let_def file_system_of_def override_folder_def demo_registry(5,6) [OF m]
      demo_registry_file_system(1-3) [OF m] g_szDEFAULT_FILESYSTEM_def bounded_copy_def [of 32])
  then show ?thesis
    by (simp add: CPartition_MountPartition_def start_file_system_def demo_fsd_strings [OF m])
qed

theorem mount_unmount_partition_witness:
  "\<exists>m s1 st1 s2 st2. CStore_MountPartition demo_env (Addr 2) demo_idle (stg (demo_searching m)) = (ERROR_SUCCESS, s1, st1) \<and>
     m_dwMountCount s1 = 1 \<and> CStore_UnmountPartition demo_env (Addr 2) s1 st1 = (ERROR_SUCCESS, s2, st2) \<and>
     m_dwMountCount s2 = 0 \<and> m_pRootHandle st2 = [1 \<mapsto> [7]]"
proof -
  obtain m where r: "mgr_reachable (demo_searching m)" and like: "demo_like m" by (rule demo_searching_reachable)
  let ?g = "demo_searching m" and ?st = "stg (demo_searching m)" and ?p = "unmounted_part (demo_mounted_part 2 4)"
  have p: "p_addr ?p = 2" "m_szPartitionName ?p = ''PART00''" "m_pi ?p = demo_partinfo" "\<not> PARTITION_ATTRIBUTE_MOUNTED ?p"
    by (simp_all add: unmounted_part_def)
  have idle: "m_pPartitionList demo_idle = [?p]" "s_addr demo_idle = 1" "m_szRootRegKey demo_idle = demo_root"
    "m_szDefaultFileSystem demo_idle = g_szDEFAULT_FILESYSTEM" "s_dwMountFlags demo_idle = 0" "m_dwMountCount demo_idle = 0"
    using demo_counted_simps(8-10) by (simp_all add: demo_idle_def unmounted_part_def demo_store_def demo_root_def)
  have s: "demo_idle \<in> set (g_pStoreRoot ?g)" by (simp add: demo_searching_def)
  have v: "IsValidPartition demo_idle (Addr 2) = Some ?p" by (simp add: IsValidPartition_def partition_at_def idle p)
  have mem: "\<forall>t. \<not> refuse demo_env t" "stg_next ?st + 1 < INVALID_HANDLE_VALUE"
    by (simp_all add: demo_searching_def INVALID_HANDLE_VALUE_def)
  obtain e h stA where op: "CStore_OpenPartition demo_env demo_idle ''PART00'' (current_process demo_env) ?st = (e, h, stA)" by (metis prod_cases3)
  have likeA: "demo_like (machine stA)"
    using op like by (auto simp: CStore_OpenPartition_def CStore_FindPartition_def idle p wcsicmp_equal_def new_handle_object_def
      new_object_def on_machine_def demo_searching_def INVALID_HANDLE_VALUE_def put_store_handles_def CreateAPIHandle_def demo_like_def
      split: prod.splits if_splits)
  obtain q where q: "CPartition_MountPartition demo_env (driver_of demo_env demo_idle) (CStore_GetStoreInfo demo_idle) h demo_root
      g_szDEFAULT_FILESYSTEM 0 (m_hActivityEvent demo_idle) False ?p (machine stA) = (True, q, machine stA)" "p_dwMountFlags q = 0"
    using demo_mount_any [OF likeA p(3)] by blast
  note f = MountPartition_facts [OF q(1)]
  let ?s1 = "(put_partition q demo_idle)\<lparr>m_dwMountCount := add32 0 1\<rparr>"
  have "mount_at demo_env ''PART00'' False ?p demo_idle ?st = (True, ?s1, stA\<lparr>machine := machine stA\<rparr>)"
    unfolding mount_at_def op prod.case Let_def idle q(1) by (simp add: idle)
  then have mnt: "CStore_MountPartition demo_env (Addr 2) demo_idle ?st = (ERROR_SUCCESS, ?s1, stA)"
    using p by (simp add: CStore_MountPartition_def v)
  have v1: "IsValidPartition ?s1 (Addr 2) = Some q"
    using f(1) p by (simp add: IsValidPartition_def partition_at_def put_partition_def idle)
  have "PARTITION_ATTRIBUTE_MOUNTED q" using f(3) by simp
  moreover obtain ok q2 st2 where u: "CPartition_UnmountPartition demo_env q stA = (ok, q2, st2)" by (metis prod_cases3)
  moreover have ok using u q(2) by (auto simp: CPartition_UnmountPartition_def Let_def on_machine_def split: if_splits option.splits prod.splits)
  ultimately have un: "CStore_UnmountPartition demo_env (Addr 2) ?s1 stA =
      (ERROR_SUCCESS, put_partition q2 (?s1\<lparr>m_dwMountCount := sub32 (m_dwMountCount ?s1) 1\<rparr>), st2)"
    by (simp add: CStore_UnmountPartition_def v1 del: One_nat_def)
  have root: "m_pRootHandle ?st = [1 \<mapsto> [7]]" by (simp add: demo_searching_def)
  note fin = mount_unmount_partition [OF r s v p(4) mem mnt un]
  have 1: "m_dwMountCount ?s1 = 0 + 1" using fin unfolding idle(6) by blast
  have 2: "m_dwMountCount (put_partition q2 (?s1\<lparr>m_dwMountCount := sub32 (m_dwMountCount ?s1) 1\<rparr>)) = 0" using fin unfolding idle(6) by blast
  have 3: "m_pRootHandle st2 = m_pRootHandle ?st" using fin by blast
  show ?thesis
    by (rule exI [of _ m], rule exI [of _ ?s1], rule exI [of _ stA],
        rule exI [of _ "put_partition q2 (?s1\<lparr>m_dwMountCount := sub32 (m_dwMountCount ?s1) 1\<rparr>)"], rule exI [of _ st2],
        intro conjI mnt un 2) (use 1 3 root in simp_all)
qed

end
