(* ===== verification/Spec2Isabelle.thy ===== *)
theory Spec2Isabelle
  imports Lock_Theorems Lock_Protocol_Theorems Disk_Cache_Theorems Dos_Theorems Notify_Theorems
    Store_Device_Theorems
begin

text \<open>
  A model of the storage layer of Windows CE 5 (\<open>src/PRIVATE/WINCEOS/COREOS/STORAGE\<close>) with its
  correctness theorems.

  \<^bold>\<open>The program.\<close>  A file system asks the lock manager (\<open>LOCKMGR\<close>) whether a handle may read,
  write or lock a range of a file; it reads and writes sectors through a sector cache
  (\<open>DISKCACHE\<close>) or through the null cache (\<open>FSDSERV/nullcache.cpp\<close>); the cache sends its requests
  to a partition, which the partition driver (\<open>DOSPART\<close>) moves to sectors of the disk.  The
  partition driver keeps the list of partitions of a store and the tables on the disk that
  describe them.  The notification of changes (\<open>NOTIFY\<close>) is told by the file system about every
  file that is opened, changed, moved or closed, and tells the applications that watch a directory.
  The store manager (\<open>STOREMGR\<close>) opens a device when the plug-and-play thread reports it, loads the
  partition driver for it, mounts a file system on each partition, and gives applications handles
  and searches on stores and partitions.

  \<^bold>\<open>Shared.\<close>
  \<open>Storage_Prelude\<close>: error codes, arithmetic modulo \<open>2 ^ 32\<close> and \<open>2 ^ 64\<close>, blocks of byte lists,
  lemmas on lists.  The numbers of the code are natural numbers with the wrap-around written out
  (\<open>add32\<close>, \<open>sub64\<close> and so on); bytes and file offsets are words.

  \<^bold>\<open>Lock manager.\<close>
  \<open>Range\<close> (\<open>range.cpp\<close>), \<open>Lock_List\<close> (\<open>locklist.cpp\<close>, \<open>lock.cpp\<close>), \<open>Lock_Set\<close> (\<open>lockset.cpp\<close>,
  \<open>lockcol.cpp\<close>): the containers with their operations; a list caches its hull, which prunes
  conflict tests.  \<open>Lock_Contract\<close> is the interface of a lock table (a locale), interpreted on the
  sets and collections of the code.  \<open>Lock_Api\<close> (\<open>lockmgrapi.cpp\<close>) and \<open>Lock_Mgr\<close>
  (\<open>lockmgr.cpp\<close>): the functions, with the file system's callbacks and the outcome of every
  allocation as arguments.  \<open>Lock_Protocol\<close>: the waits of many calls in progress as a step
  relation.  \<open>Lock_Effects\<close>, \<open>Lock_Run\<close>: what each call does to the set of locks.
  \<open>Lock_Theorems\<close>: a lock is granted exactly when no other handle holds a conflicting one, unlock
  and the release of a handle remove exactly their locks, the well-formedness of the containers
  is kept, accesses are judged byte by byte.  \<open>Lock_Protocol_Theorems\<close>: safety of the waiting
  protocol, and the runs in which a wake-up is lost.

  \<^bold>\<open>Sector cache.\<close>
  \<open>Disk_Cache\<close>, \<open>Disk_Cache_Ops\<close>, \<open>Disk_Cache_Setup\<close> (\<open>cache.cpp\<close>), \<open>Disk_Cache_Api\<close>
  (\<open>cacheapis.cpp\<close>): the cache object, its operations and the table of caches.
  \<open>Disk_Cache_Pool\<close>, \<open>Disk_Cache_Repr\<close>, \<open>Disk_Cache_Commit\<close>, \<open>Disk_Cache_Rw\<close>,
  \<open>Disk_Cache_Flush\<close>, \<open>Disk_Cache_Durable\<close>, \<open>Disk_Cache_Inv\<close>: the buffer pool as an array of
  blocks, the contents a cache represents, and what each operation does to contents, dirty
  blocks and disk.  \<open>Cache_Contract\<close> is the interface a file system uses (a locale); it is
  interpreted on the sector cache and, in \<open>Null_Cache\<close>, on the null cache.  \<open>Disk_Cache_Runs\<close>
  has concrete runs, \<open>Disk_Cache_Theorems\<close> the properties: the cache refines an array of sectors,
  both caches are equivalent, flushes are durable, the lazy writer drains the cache.

  \<^bold>\<open>Partition driver.\<close>
  \<open>Dos_Sector\<close> (\<open>part.h\<close>): sectors as byte lists, the table of four entries, reading back what
  was stored.  \<open>Dos_State\<close>: the state of the driver and its requests to the block driver.
  \<open>Dos_Mbr\<close>: changes of the master boot record and of the boot records of logical
  drives (\<open>WriteMBR\<close>, \<open>DeleteMBR\<close>, \<open>UpdateMBR\<close>, \<open>CreatePBR\<close>, \<open>DeletePBR\<close>).  \<open>Dos_Parse\<close>,
  \<open>Dos_Names\<close>: reading the tables into the list of partitions and naming them.  \<open>Dos_Space\<close>,
  \<open>Dos_Fat\<close>: free space, the place of a new partition, the type for a size.  \<open>Dos_Store\<close>,
  \<open>Dos_Part\<close>, \<open>Dos_Io\<close> (\<open>part.cpp\<close>): the exported functions on stores and partitions and the
  requests of file systems.  \<open>Table_Contract\<close> is the interface of a partition table (a locale)
  and \<open>Dos_Table\<close> its interpretation on the master boot record.  \<open>Dos_Chain\<close>: the chain of boot
  records as a list of sectors, and cycles.  \<open>Dos_Place\<close>: places that are free.  \<open>Dos_Inv\<close>: the
  invariant of the driver over all sequences of calls.  \<open>Dos_Runs\<close>: success without failures and
  a small disk.  \<open>Dos_Theorems\<close>: what the operations on the tables do, that they are read back,
  that input and output stay inside a partition, and the cases in which the code loses
  partitions or does not return.

  \<^bold>\<open>Change notification.\<close>
  \<open>Notify_State\<close> (\<open>fsnotify.h\<close>): volumes, directories, events and handles.  \<open>Notify_Tree\<close>,
  \<open>Notify_Ops\<close> (\<open>fsnotify.cpp\<close>): the tree of directories and every function, with the critical
  section of a volume entered and left where the code does (\<open>ENTERNOTIFY\<close>, \<open>EXITNOTIFY\<close>).  The state
  holds which threads are inside which sections and which thread calls.  A call is one step, and a
  call that finds a section owned by another thread does not return (\<open>None\<close>).  \<open>g_csMain\<close> is always
  left again; that a search which waits keeps it is left out.  \<open>Notify_Sections\<close>: what a call does when
  it finds the section free, and that only failed creations leave one entered.  \<open>Notify_View\<close>: a
  volume as a map from folded paths to the events that watch them.  \<open>Notify_Walk\<close>: finding and
  inserting a path, and undoing it.  \<open>Notify_Watch\<close>: the rule by which a change reaches the
  watchers (\<open>reaction\<close>), and that the tree keeps its shape.  \<open>Notify_Inv\<close>: the lists a directory
  keeps (the locale \<open>dir_list\<close>, interpreted on events and on handles) under insertion and removal.
  \<open>Notify_Wf\<close>, \<open>Notify_Steps\<close>, \<open>Notify_Changes\<close>, \<open>Notify_Reach\<close>: positions and
  paths, well-formed states, the operations on states, and all runs of the calls.
  \<open>Notify_Reset\<close>: the records that are handed out and how they are read back.  \<open>Notify_Total\<close>: moved
  files, deleted volumes, failed allocations, sections that stay entered; that an event is in one
  place.  \<open>Notify_Paths\<close>: what every watcher does on a change of any path (\<open>told_change\<close>).
  \<open>Notify_Theorems\<close>: who is told of a change, that closing undoes creating, that the queue is handed
  out in order, and the failures that leave a section entered or a watcher silent.

  \<^bold>\<open>Store manager.\<close>
  \<open>Store_State\<close> (\<open>store.h\<close>, \<open>partition.h\<close>, \<open>storemain.h\<close>): stores, partitions, handles with their
  addresses, and what lies underneath.  \<open>Part_Driver\<close>: the table of functions of a partition driver
  and the null driver (\<open>nullpart.cpp\<close>).  \<open>Store_Registry\<close> (\<open>fsdhelper.cpp\<close>, \<open>store.cpp\<close>): settings.
  \<open>Store_Handles\<close> (\<open>storemain.cpp\<close>): lists of handles.  \<open>Store_Partition\<close> (\<open>partition.cpp\<close>),
  \<open>Store_Ops\<close>, \<open>Store_Mount\<close> (\<open>store.cpp\<close>): every operation on a partition and on a store.
  \<open>Store_Mgr\<close> (\<open>storemain.cpp\<close>): stores that appear, vanish and come back, and the events of the
  plug-and-play thread.  \<open>Store_Api\<close> (\<open>stgapi.cpp\<close>): the entry points.  \<open>Store_Inv\<close>, \<open>Store_Calls\<close>,
  \<open>Store_Devices\<close>: well-formed lists of stores, partitions and handles (\<open>stores_wf\<close>), kept by
  every operation.  \<open>Store_Invariant\<close>: calls, events and passes of the thread as a step relation
  (\<open>mgr_step\<close>).  A pass of the thread over the stores marked for refreshing (\<open>refresh_pass\<close>), or over one
  of them, is a step when all partitions of these stores can be unmounted: otherwise the code drops
  partitions that are still mounted.  A result \<open>None\<close> is a crash or a call that does not return, which is no
  step.  \<open>Store_Demo\<close>: a small system that runs.
  \<open>Store_Search\<close>: what a search has still to report.  \<open>Store_Devices_Back\<close>: removing and re-inserting
  a device.  \<open>Store_Theorems\<close>, \<open>Store_Device_Theorems\<close>: no handle dangles, untrusted callers change
  no store by the \<open>STG\<close> calls, what searches report, what deleting, dismounting and mounting do, and that a device that
  comes back keeps its partitions and handles.

  \<^bold>\<open>Loops and recursion.\<close>  Loops are recursive functions with a measure.  Where nothing in the
  code bounds them they are partial functions into \<open>option\<close> (\<open>dos_loop\<close>, \<open>fat_loop\<close>, \<open>count_loop\<close>, \<open>load_loop\<close>,
  \<open>refresh_loop\<close>), whose
  \<open>None\<close> is a call that does not return; theorems say for which inputs the result is \<open>Some\<close> and
  for which \<open>None\<close>.  No fuel is used.

  \<^bold>\<open>Outside the model.\<close>  The block driver, the allocator, the registry, the clock of the system
  and the file system's callbacks are arguments of the definitions: they may refuse any request
  at any time, and a refused write may have reached part of its sectors.  A read that succeeds
  returns what the sectors hold and a write that succeeds changes exactly its sectors.

  \<^bold>\<open>Not modelled.\<close>  Code that is not compiled (\<open>HIDDEN_PARTITIONS\<close>, \<open>#if 0\<close>) or has no caller
  (\<open>GeneratePartitionChecksum\<close>); debug output; \<open>DllMain\<close> functions; \<open>STG_SetPartitionSize\<close>, which is not compiled for the device.  Of the store manager:
  \<open>InitStorageManager\<close> (threads, events and the registration of entry points),
  \<open>AutoLoadFileSystems\<close> (file systems without a device) and \<open>blockdev.cpp\<close>, which forwards calls to
  a driver module.  \<open>FSDMAIN\<close> starts and stops file systems: to the store manager these are functions
  of the environment.  The entry points in \<open>FSDSERV\<close> forward calls.  Not begun: the file systems
  written in C++ (\<open>BINFS\<close>, \<open>UDFS\<close>).  The kernel, \<open>FATFS\<close> and the network stacks are largely C
  code, and the servers under \<open>src/PRIVATE/SERVERS\<close> are separate programs.
\<close>

end
